(* ===== verification/Prelude.thy ===== *)
theory Prelude
  imports Main "HOL-Library.Word" "HOL-Library.Char_ord" "HOL-Library.List_Lexorder"
    "HOL-Library.Product_Lexorder"
begin

text \<open>
  Shared vocabulary of the development.

  A Rust \<open>str\<close> is a sequence of UTF-8 bytes, and so is an Isabelle \<^typ>\<open>string\<close>
  (a list of 8-bit characters): every string of the model is the byte sequence of the Rust
  string, \<open>len()\<close> is \<^term>\<open>length\<close>, and byte-wise comparison (List_Lexorder over
  Char_ord) is Rust's order on strings. Where the code reads \<open>chars()\<close>, the model groups
  a leading byte with its continuation bytes (\<open>utf8_chars\<close> below).
  Fallible operations return \<open>error + value\<close>.
\<close>

section \<open>Types\<close>

type_synonym u8 = "8 word"
type_synonym u16 = "16 word"
type_synonym u32 = "32 word"
type_synonym u64 = "64 word"

text \<open>A signed 64-bit integer is the \<^typ>\<open>int\<close> it denotes.\<close>

type_synonym i64 = int

text \<open>\<open>Result<a, String>\<close>: \<open>Inl\<close> the message, \<open>Inr\<close> the value.\<close>

type_synonym 'a rresult = "string + 'a"

abbreviation Err :: "'e \<Rightarrow> 'e + 'a" where "Err \<equiv> Inl"
abbreviation Ok :: "'a \<Rightarrow> 'e + 'a" where "Ok \<equiv> Inr"

text \<open>The numeric limits of the program, unfolded where a concrete input is measured against them.\<close>

named_theorems limits

section \<open>Results\<close>

fun result_bind :: "'e + 'a \<Rightarrow> ('a \<Rightarrow> 'e + 'b) \<Rightarrow> 'e + 'b" where
  "result_bind (Inl e) f = Inl e"
| "result_bind (Inr x) f = f x"

lemma result_bind_Inr_iff:
  "result_bind m f = Inr y \<longleftrightarrow> (\<exists>x. m = Inr x \<and> f x = Inr y)"
  by (cases m) auto

section \<open>Machine arithmetic\<close>

text \<open>\<open>saturating_sub\<close> and \<open>checked_add\<close> of the unsigned integers.\<close>

definition saturating_sub :: "'a::len word \<Rightarrow> 'a word \<Rightarrow> 'a word" where
  "saturating_sub x y = (if x < y then 0 else x - y)"

definition checked_add :: "'a::len word \<Rightarrow> 'a word \<Rightarrow> 'a word option" where
  "checked_add x y = (if unat x + unat y < 2 ^ LENGTH('a) then Some (x + y) else None)"

lemma unat_saturating_sub: "unat (saturating_sub x y) = unat x - unat y"
  by (auto simp: saturating_sub_def word_less_nat_alt unat_sub_if_size)

lemma checked_add_SomeD: "checked_add x y = Some z \<Longrightarrow> unat z = unat x + unat y"
  by (auto simp: checked_add_def unat_word_ariths split: if_splits)

lemma checked_add_NoneD: "checked_add (x::'a::len word) y = None \<Longrightarrow> 2 ^ LENGTH('a) \<le> unat x + unat y"
  by (auto simp: checked_add_def split: if_splits)

lemma unat_bound: "unat (w :: 'a::len word) < 2 ^ LENGTH('a)"
  by (rule unsigned_less)

lemma uint_bound: "uint (w :: 'a::len word) < 2 ^ LENGTH('a)"
  by (rule unsigned_less)

lemma less_plus_one: "(x :: 'a::len word) \<noteq> - 1 \<Longrightarrow> x < x + 1"
proof -
  assume "x \<noteq> - 1"
  then have "unat x < unat (- 1 :: 'a word)"
    by (simp add: word_order.not_eq_extremum flip: word_less_nat_alt)
  then have "unat x + unat (1 :: 'a word) < 2 ^ LENGTH('a)"
    by (simp add: unsigned_minus_1_eq_mask mask_eq_exp_minus_1)
  then have "x \<le> x + 1" by (simp add: no_olen_add_nat)
  then show ?thesis by (simp add: order_less_le)
qed

text \<open>Comparing two numbers written with a digit below \<open>d\<close>.\<close>

lemma radix_less_iff:
  fixes a b c e d :: int
  assumes "0 \<le> c" "c < d" "0 \<le> e" "e < d"
  shows "a * d + c < b * d + e \<longleftrightarrow> a < b \<or> (a = b \<and> c < e)"
proof (cases a b rule: linorder_cases)
  case less
  then have "(a + 1) * d \<le> b * d" using assms by (intro mult_right_mono) simp_all
  with less assms show ?thesis by (simp add: algebra_simps)
next
  case equal
  then show ?thesis by simp
next
  case greater
  then have "(b + 1) * d \<le> a * d" using assms by (intro mult_right_mono) simp_all
  with greater assms show ?thesis by (simp add: algebra_simps)
qed

lemma radix_less_iff_nat:
  fixes a b c e d :: nat
  assumes "c < d" "e < d"
  shows "a * d + c < b * d + e \<longleftrightarrow> a < b \<or> (a = b \<and> c < e)"
  using radix_less_iff [of "int c" "int d" "int e" "int a" "int b"] assms
  by (simp flip: of_nat_mult of_nat_add)

section \<open>Hexadecimal text\<close>

definition hex_digit :: "nat \<Rightarrow> char" where
  "hex_digit n = (if n < 10 then char_of (48 + n) else char_of (87 + n))"

text \<open>\<open>is_ascii_hexdigit\<close> and the value of a hexadecimal digit.\<close>

definition hex_value :: "char \<Rightarrow> nat option" where
  "hex_value c =
     (let n = of_char c :: nat
      in if 48 \<le> n \<and> n \<le> 57 then Some (n - 48)
         else if 97 \<le> n \<and> n \<le> 102 then Some (n - 87)
         else if 65 \<le> n \<and> n \<le> 70 then Some (n - 55)
         else None)"

text \<open>\<open>{:x}\<close>: lower-case, no leading zero; and \<open>{:0w x}\<close>, padded on the left.\<close>

fun hex_str :: "nat \<Rightarrow> string" where
  "hex_str n = (if n < 16 then [hex_digit n] else hex_str (n div 16) @ [hex_digit (n mod 16)])"

declare hex_str.simps [simp del]

definition hex_pad :: "nat \<Rightarrow> nat \<Rightarrow> string" where
  "hex_pad w n = replicate (w - length (hex_str n)) (CHR ''0'') @ hex_str n"

text \<open>The number a string of hexadecimal digits names; \<open>None\<close> when a character is no digit.\<close>

fun from_hex :: "nat \<Rightarrow> string \<Rightarrow> nat option" where
  "from_hex acc [] = Some acc"
| "from_hex acc (c # cs) =
     (case hex_value c of None \<Rightarrow> None | Some d \<Rightarrow> from_hex (acc * 16 + d) cs)"

text \<open>The \<open>w\<close> lowest hexadecimal digits, most significant first.\<close>

fun hexn :: "nat \<Rightarrow> nat \<Rightarrow> string" where
  "hexn 0 n = []"
| "hexn (Suc w) n = hex_digit (n div 16 ^ w mod 16) # hexn w n"

lemma length_hexn [simp]: "length (hexn w n) = w"
  by (induction w) simp_all

lemma hex_value_digit: "d < 16 \<Longrightarrow> hex_value (hex_digit d) = Some d"
  by (auto simp: hex_value_def hex_digit_def Let_def of_char_of take_bit_nat_def)

lemma hexn_Suc_snoc: "hexn (Suc w) n = hexn w (n div 16) @ [hex_digit (n mod 16)]"
  by (induction w) (simp_all add: div_mult2_eq)

lemma hex_digit_0: "hex_digit 0 = CHR ''0''"
  by code_simp

lemma hexn_0: "hexn w 0 = replicate w (CHR ''0'')"
  by (induction w) (simp_all add: hex_digit_0)

lemma hex_pad_eq_hexn: "n < 16 ^ Suc w \<Longrightarrow> hex_pad (Suc w) n = hexn (Suc w) n"
proof (induction w arbitrary: n)
  case 0
  then show ?case by (simp add: hex_pad_def hex_str.simps)
next
  case (Suc w)
  show ?case
  proof (cases "n < 16")
    case True
    then have "hex_pad (Suc (Suc w)) n = replicate (Suc w) (CHR ''0'') @ [hex_digit n]"
      by (simp add: hex_pad_def hex_str.simps replicate_append_same)
    with True show ?thesis
      by (simp only: hexn_Suc_snoc [of "Suc w"] div_less hexn_0 mod_less)
  next
    case False
    then have "hex_pad (Suc (Suc w)) n = hex_pad (Suc w) (n div 16) @ [hex_digit (n mod 16)]"
      by (simp add: hex_pad_def hex_str.simps [of n])
    moreover have "hex_pad (Suc w) (n div 16) = hexn (Suc w) (n div 16)"
      using Suc.prems by (intro Suc.IH) (simp add: less_mult_imp_div_less)
    ultimately show ?thesis by (simp only: hexn_Suc_snoc [of "Suc w"])
  qed
qed

lemma mod_16_Suc: "(n::nat) mod 16 ^ Suc w = n div 16 ^ w mod 16 * 16 ^ w + n mod 16 ^ w"
  by (metis add.commute mod_mult2_eq mult.commute power_Suc)

lemma from_hex_hexn: "from_hex acc (hexn w n) = Some (acc * 16 ^ w + n mod 16 ^ w)"
proof (induction w arbitrary: acc)
  case (Suc w)
  show ?case
    by (simp add: hex_value_digit Suc mod_16_Suc algebra_simps del: power_Suc) simp
qed simp

lemma of_char_hex_digit: "d < 16 \<Longrightarrow> of_char (hex_digit d) = (if d < 10 then 48 + d else 87 + d)"
  by (simp add: hex_digit_def of_char_of take_bit_nat_def)

lemma hex_digit_less_iff: "d < 16 \<Longrightarrow> e < 16 \<Longrightarrow> hex_digit d < hex_digit e \<longleftrightarrow> d < e"
  by (simp add: less_char_def of_char_hex_digit)

lemma hex_digit_eq_iff: "d < 16 \<Longrightarrow> e < 16 \<Longrightarrow> hex_digit d = hex_digit e \<longleftrightarrow> d = e"
  by (metis hex_value_digit option.inject)

lemma hexn_less_iff: "hexn w n < hexn w m \<longleftrightarrow> n mod 16 ^ w < m mod 16 ^ w"
proof (induction w)
  case (Suc w)
  let ?q = "n div 16 ^ w mod 16" and ?p = "m div 16 ^ w mod 16"
  have "hexn (Suc w) n < hexn (Suc w) m \<longleftrightarrow> ?q < ?p \<or> (?q = ?p \<and> n mod 16 ^ w < m mod 16 ^ w)"
    by (simp add: hex_digit_less_iff hex_digit_eq_iff Suc)
  also have "\<dots> \<longleftrightarrow> ?q * 16 ^ w + n mod 16 ^ w < ?p * 16 ^ w + m mod 16 ^ w"
    by (rule radix_less_iff_nat [symmetric]) simp_all
  finally show ?case by (simp only: mod_16_Suc)
qed simp

lemma hexn_all_digits: "list_all (\<lambda>c. \<exists>y. hex_value c = Some y) (hexn w n)"
  by (induction w) (simp_all add: hex_value_digit)

lemma hexn_eq_iff: "n < 16 ^ w \<Longrightarrow> m < 16 ^ w \<Longrightarrow> hexn w n = hexn w m \<longleftrightarrow> n = m"
proof
  assume "n < 16 ^ w" "m < 16 ^ w" "hexn w n = hexn w m"
  then have "from_hex 0 (hexn w n) = from_hex 0 (hexn w m)" by simp
  with \<open>n < 16 ^ w\<close> \<open>m < 16 ^ w\<close> show "n = m" by (simp add: from_hex_hexn)
qed simp

section \<open>Decimal text\<close>

text \<open>How Rust prints an unsigned integer.\<close>

fun dec_str :: "nat \<Rightarrow> string" where
  "dec_str n = (if n < 10 then [char_of (48 + n)] else dec_str (n div 10) @ [char_of (48 + n mod 10)])"

declare dec_str.simps [simp del]

definition is_digit :: "char \<Rightarrow> bool" where
  "is_digit c = (let n = of_char c :: nat in 48 \<le> n \<and> n \<le> 57)"

lemma dec_char_inj: "a < 10 \<Longrightarrow> b < 10 \<Longrightarrow> char_of (48 + a) = (char_of (48 + b) :: char) \<longleftrightarrow> a = (b::nat)"
proof -
  assume "a < 10" "b < 10"
  then have "of_char (char_of (48 + a) :: char) = 48 + a" "of_char (char_of (48 + b) :: char) = 48 + b"
    by (simp_all add: of_char_of take_bit_nat_def)
  then show ?thesis by (metis add_left_cancel)
qed

lemma dec_str_not_Nil [simp]: "dec_str n \<noteq> []"
  by (subst dec_str.simps) simp

lemma Nil_not_dec_str [simp]: "[] \<noteq> dec_str n"
  using dec_str_not_Nil by metis

lemma dec_str_inj: "dec_str n = dec_str m \<longleftrightarrow> n = m"
proof (induction n arbitrary: m rule: dec_str.induct)
  case (1 n)
  show ?case
  proof (cases "n < 10")
    case True
    then show ?thesis
      by (subst (1 2) dec_str.simps) (auto simp: dec_char_inj)
  next
    case False
    then have "dec_str n = dec_str m \<longleftrightarrow> \<not> m < 10 \<and> n div 10 = m div 10 \<and> n mod 10 = m mod 10"
      by (subst (1 2) dec_str.simps) (auto simp: 1 dec_char_inj)
    with False show ?thesis by (metis div_mult_mod_eq)
  qed
qed

section \<open>UTF-8 text\<close>

text \<open>
  \<open>chars()\<close>: a character is its leading byte and the continuation bytes
  (\<open>0x80\<close> to \<open>0xBF\<close>) that follow it.
\<close>

definition utf8_continuation :: "char \<Rightarrow> bool" where
  "utf8_continuation c = (let n = of_char c :: nat in 128 \<le> n \<and> n < 192)"

function utf8_chars :: "string \<Rightarrow> string list" where
  "utf8_chars [] = []"
| "utf8_chars (c # cs) =
     (c # takeWhile utf8_continuation cs) # utf8_chars (dropWhile utf8_continuation cs)"
  by pat_completeness auto
termination
  by (relation "measure length") (simp_all add: length_dropWhile_le less_Suc_eq_le)

text \<open>\<open>char::is_control\<close>: U+0000 to U+001F and U+007F to U+009F.\<close>

definition is_control :: "string \<Rightarrow> bool" where
  "is_control ch = (case map of_char ch of
       [n] \<Rightarrow> n < (32::nat) \<or> n = 127
     | [m, n] \<Rightarrow> m = 194 \<and> n < 160
     | _ \<Rightarrow> False)"

text \<open>\<open>char::is_whitespace\<close>: the Unicode \<open>White_Space\<close> characters.\<close>

definition is_whitespace :: "string \<Rightarrow> bool" where
  "is_whitespace ch = (case map of_char ch of
       [n] \<Rightarrow> (9 \<le> n \<and> n \<le> 13) \<or> n = (32::nat)
     | [m, n] \<Rightarrow> m = 194 \<and> (n = 133 \<or> n = 160)
     | [l, m, n] \<Rightarrow>
         (l = 225 \<and> m = 154 \<and> n = 128)
         \<or> (l = 226 \<and> m = 128 \<and> (n \<le> 138 \<or> n = 168 \<or> n = 169 \<or> n = 175))
         \<or> (l = 226 \<and> m = 129 \<and> n = 159)
         \<or> (l = 227 \<and> m = 128 \<and> n = 128)
     | _ \<Rightarrow> False)"

lemma concat_utf8_chars: "concat (utf8_chars s) = s"
  by (induction s rule: utf8_chars.induct) simp_all

lemma utf8_chars_append:
  "\<not> utf8_continuation d \<Longrightarrow> utf8_chars (a @ d # b) = utf8_chars a @ utf8_chars (d # b)"
proof (induction a rule: utf8_chars.induct)
  case (2 c cs)
  have "takeWhile utf8_continuation (cs @ d # b) = takeWhile utf8_continuation cs"
    "dropWhile utf8_continuation (cs @ d # b) = dropWhile utf8_continuation cs @ d # b"
    using 2(2) by (induction cs) auto
  with 2 show ?case by (simp del: utf8_chars.simps(2) add: utf8_chars.simps(2) [of c])
qed simp

section \<open>Strings\<close>

text \<open>\<open>starts_with\<close>, \<open>ends_with\<close>, \<open>strip_prefix\<close> and \<open>contains\<close>.\<close>

fun strip_prefix :: "'a list \<Rightarrow> 'a list \<Rightarrow> 'a list option" where
  "strip_prefix [] s = Some s"
| "strip_prefix (p # ps) [] = None"
| "strip_prefix (p # ps) (c # cs) = (if p = c then strip_prefix ps cs else None)"

definition starts_with :: "'a list \<Rightarrow> 'a list \<Rightarrow> bool" where
  "starts_with s p \<longleftrightarrow> strip_prefix p s \<noteq> None"

definition ends_with :: "'a list \<Rightarrow> 'a list \<Rightarrow> bool" where
  "ends_with s p \<longleftrightarrow> starts_with (rev s) (rev p)"

fun str_contains :: "'a list \<Rightarrow> 'a list \<Rightarrow> bool" where
  "str_contains [] p \<longleftrightarrow> p = []"
| "str_contains (c # cs) p \<longleftrightarrow> starts_with (c # cs) p \<or> str_contains cs p"

text \<open>\<open>split_once\<close> at a character.\<close>

fun split_once :: "char \<Rightarrow> string \<Rightarrow> (string \<times> string) option" where
  "split_once d [] = None"
| "split_once d (c # cs) =
     (if c = d then Some ([], cs)
      else map_option (\<lambda>(a, b). (c # a, b)) (split_once d cs))"

text \<open>\<open>trim_start\<close>, \<open>trim_end\<close>, \<open>trim\<close> and \<open>split_whitespace\<close>, by Unicode white space.\<close>

definition trim_start :: "string \<Rightarrow> string" where
  "trim_start s = concat (dropWhile is_whitespace (utf8_chars s))"

definition trim_end :: "string \<Rightarrow> string" where
  "trim_end s = concat (rev (dropWhile is_whitespace (rev (utf8_chars s))))"

definition trim :: "string \<Rightarrow> string" where
  "trim s = trim_end (trim_start s)"

fun split_ws :: "string list \<Rightarrow> string \<Rightarrow> string list" where
  "split_ws [] w = (if w = [] then [] else [w])"
| "split_ws (ch # chs) w =
     (if is_whitespace ch then (if w = [] then [] else [w]) @ split_ws chs []
      else split_ws chs (w @ ch))"

definition split_whitespace :: "string \<Rightarrow> string list" where
  "split_whitespace s = split_ws (utf8_chars s) []"

text \<open>\<open>split\<close> at the characters of a set: the pieces between them, empty ones included.\<close>

fun split_at :: "char set \<Rightarrow> string \<Rightarrow> string list" where
  "split_at D [] = [[]]"
| "split_at D (c # cs) =
     (if c \<in> D then [] # split_at D cs
      else (case split_at D cs of [] \<Rightarrow> [[c]] | p # ps \<Rightarrow> (c # p) # ps))"

text \<open>\<open>to_ascii_lowercase\<close> and the ASCII classes.\<close>

definition ascii_lower :: "char \<Rightarrow> char" where
  "ascii_lower c = (let n = of_char c :: nat in if 65 \<le> n \<and> n \<le> 90 then char_of (n + 32) else c)"

definition to_ascii_lowercase :: "string \<Rightarrow> string" where
  "to_ascii_lowercase s = map ascii_lower s"

definition is_ascii_alpha :: "char \<Rightarrow> bool" where
  "is_ascii_alpha c = (let n = of_char c :: nat in (65 \<le> n \<and> n \<le> 90) \<or> (97 \<le> n \<and> n \<le> 122))"

lemma length_trim_start: "length (trim_start s) \<le> length s"
proof -
  have "length (concat (dropWhile P xs)) \<le> length (concat xs)" for P and xs :: "string list"
    by (induction xs) auto
  from this [of is_whitespace "utf8_chars s"] show ?thesis
    by (simp add: trim_start_def concat_utf8_chars)
qed

lemma strip_prefix_Some_iff: "strip_prefix p s = Some r \<longleftrightarrow> s = p @ r"
  by (induction p s rule: strip_prefix.induct) auto

lemma starts_with_iff: "starts_with s p \<longleftrightarrow> (\<exists>r. s = p @ r)"
  by (auto simp: starts_with_def strip_prefix_Some_iff)

lemma starts_with_append [simp]: "starts_with (p @ r) p"
  by (auto simp: starts_with_iff)

lemma str_contains_iff: "str_contains s p \<longleftrightarrow> (\<exists>a b. s = a @ p @ b)"
proof (induction s)
  case (Cons c cs)
  have "(\<exists>a b. c # cs = a @ p @ b) \<longleftrightarrow> starts_with (c # cs) p \<or> (\<exists>a b. cs = a @ p @ b)"
    unfolding starts_with_iff by (metis append_Cons append_Nil list.exhaust list.inject)
  with Cons show ?case by simp
qed simp

lemma str_contains_append: "str_contains a p \<or> str_contains b p \<Longrightarrow> str_contains (a @ b) p"
  unfolding str_contains_iff by (metis append.assoc)

lemma split_at_not_Nil [simp]: "split_at D s \<noteq> []"
  by (cases s) (auto split: list.splits)

lemma split_at_append: "d \<in> D \<Longrightarrow> split_at D (a @ d # b) = split_at D a @ split_at D b"
  by (induction a) (auto split: list.splits)

lemma split_once_None_iff: "split_once d s = None \<longleftrightarrow> d \<notin> set s"
  by (induction s) auto

lemma split_once_append: "d \<notin> set a \<Longrightarrow> split_once d (a @ d # b) = Some (a, b)"
  by (induction a) auto

section \<open>Lists\<close>

lemma find_Some_iff': "find P xs = Some x \<Longrightarrow> x \<in> set xs \<and> P x"
  by (auto simp: find_Some_iff)

lemma find_None_set: "find P xs = None \<longleftrightarrow> (\<forall>x\<in>set xs. \<not> P x)"
  by (auto simp: find_None_iff)

lemma finite_max_by:
  fixes f :: "'a \<Rightarrow> 'b::linorder"
  assumes "finite A" "A \<noteq> {}"
  shows "\<exists>m\<in>A. \<forall>x\<in>A. f x \<le> f m"
proof -
  have "Max (f ` A) \<in> f ` A" using assms by (intro Max_in) simp_all
  then obtain m where "m \<in> A" "f m = Max (f ` A)" by auto
  with assms(1) show ?thesis by (metis Max_ge finite_imageI imageI)
qed

end
