(* ===== verification/Hlc.thy ===== *)
theory Hlc
  imports Prelude
begin

text \<open>
  The hybrid logical clock that orders record writes across the members of a swarm
  (\<open>swarm/hlc.rs\<close>): readings, their packed and printed forms, and the clock of one runtime.
\<close>

unbundle bit_operations_syntax

section \<open>Readings\<close>

text \<open>\<open>Hlc\<close>: a wall time in milliseconds and a counter, ordered by wall time, then counter.\<close>

datatype hlc = Hlc (millis: u64) (counter: u16)

instantiation hlc :: linorder
begin

definition less_eq_hlc :: "hlc \<Rightarrow> hlc \<Rightarrow> bool" where
  "less_eq_hlc a b \<longleftrightarrow> millis a < millis b \<or> (millis a = millis b \<and> counter a \<le> counter b)"

definition less_hlc :: "hlc \<Rightarrow> hlc \<Rightarrow> bool" where
  "less_hlc a b \<longleftrightarrow> millis a < millis b \<or> (millis a = millis b \<and> counter a < counter b)"

instance
  by standard (auto simp: less_eq_hlc_def less_hlc_def intro: hlc.expand)

end

text \<open>\<open>Hlc::default()\<close>.\<close>

definition hlc_default :: hlc where
  "hlc_default = Hlc 0 0"

text \<open>\<open>Hlc::packed\<close>: \<open>((millis << 16) | counter) as i64\<close>.\<close>

definition packed :: "hlc \<Rightarrow> i64" where
  "packed h = sint (push_bit 16 (millis h) OR (ucast (counter h) :: u64))"

text \<open>\<open>Hlc::from_packed\<close>.\<close>

definition from_packed :: "i64 \<Rightarrow> hlc" where
  "from_packed p =
     (let w = (word_of_int (max p 0) :: u64)
      in Hlc (drop_bit 16 w) (ucast (w AND 0xffff)))"

text \<open>\<open>Hlc::at\<close>.\<close>

definition hlc_at :: "i64 \<Rightarrow> hlc" where
  "hlc_at m = Hlc (word_of_int (max m 0)) 0"

text \<open>\<open>Hlc::bump\<close>. The addition to \<open>millis\<close> wraps, as it does in a release build.\<close>

definition bump :: "hlc \<Rightarrow> hlc" where
  "bump h = (case checked_add (counter h) 1 of
       Some c \<Rightarrow> Hlc (millis h) c
     | None \<Rightarrow> Hlc (millis h + 1) 0)"

text \<open>\<open>Display\<close> and \<open>FromStr\<close> of a reading: twelve and four hexadecimal digits.\<close>

definition display :: "hlc \<Rightarrow> string" where
  "display h = hex_pad 12 (unat (millis h)) @ hex_pad 4 (unat (counter h))"

definition parse :: "string \<Rightarrow> hlc rresult" where
  "parse text =
     (if length text \<noteq> 16 \<or> \<not> list_all (\<lambda>c. hex_value c \<noteq> None) text
      then Err ''The clock is invalid.''
      else (case (from_hex 0 (take 12 text), from_hex 0 (drop 12 text)) of
              (Some m, Some c) \<Rightarrow> Ok (Hlc (of_nat m) (of_nat c))
            | _ \<Rightarrow> Err ''invalid digit found in string''))"

text \<open>The greatest reading: only there does \<open>bump\<close> fail to move the clock forward.\<close>

definition hlc_top :: hlc where
  "hlc_top = Hlc (- 1) (- 1)"

section \<open>The clock of one runtime\<close>

text \<open>\<open>HlcClock\<close>, with \<open>tick\<close> and \<open>observe\<close> returning the new clock and their answer.\<close>

record hlc_clock =
  clock_last :: hlc

definition clock_new :: "hlc \<Rightarrow> hlc_clock" where
  "clock_new l = \<lparr>clock_last = l\<rparr>"

definition tick :: "hlc_clock \<Rightarrow> i64 \<Rightarrow> hlc_clock \<times> hlc" where
  "tick c now =
     (let wall = hlc_at now;
          l = (if wall > clock_last c then wall else bump (clock_last c))
      in (c\<lparr>clock_last := l\<rparr>, l))"

definition observe :: "hlc_clock \<Rightarrow> hlc \<Rightarrow> i64 \<Rightarrow> hlc_clock \<times> u64" where
  "observe c remote now =
     ((if remote > clock_last c then c\<lparr>clock_last := remote\<rparr> else c),
      saturating_sub (millis remote) (word_of_int (max now 0)))"


section \<open>Order facts\<close>

lemma hlc_default_le [simp]: "hlc_default \<le> h"
  by (auto simp: hlc_default_def less_eq_hlc_def word_coorder.not_eq_extremum)

lemma hlc_le_top [simp]: "h \<le> hlc_top"
  by (auto simp: hlc_top_def less_eq_hlc_def word_order.not_eq_extremum)

lemma bump_greater: "h \<noteq> hlc_top \<Longrightarrow> h < bump h"
proof (cases "checked_add (counter h) 1")
  case (Some c)
  then have "unat c = Suc (unat (counter h))"
    using checked_add_SomeD [OF Some] by simp
  with Some show ?thesis
    by (simp add: bump_def less_hlc_def word_less_nat_alt)
next
  case None
  assume top: "h \<noteq> hlc_top"
  from checked_add_NoneD [OF None] have "2 ^ 16 - 1 \<le> unat (counter h)" by simp
  moreover have "unat (counter h) < 2 ^ 16"
    using unat_bound [of "counter h"] by simp
  ultimately have "unat (counter h) = unat (- 1 :: u16)"
    by (simp add: unsigned_minus_1_eq_mask mask_eq_exp_minus_1)
  then have "counter h = - 1" by (simp only: word_unat_eq_iff)
  with top have "millis h \<noteq> - 1"
    by (cases h) (auto simp: hlc_top_def)
  then have "millis h < millis h + 1"
    by (rule less_plus_one)
  with None show ?thesis
    by (simp add: bump_def less_hlc_def)
qed
section \<open>The packed form\<close>

text \<open>
  A reading whose wall time fits 47 bits (past the year 6400) packs without loss: the
  packed integer is \<open>millis * 2^16 + counter\<close>, it is not negative, and it orders like the
  reading.
\<close>

definition packs :: "hlc \<Rightarrow> bool" where
  "packs h \<longleftrightarrow> millis h < 2 ^ 47"

lemma packs_unat: "packs h \<longleftrightarrow> unat (millis h) < 2 ^ 47"
  by (simp add: packs_def word_less_nat_alt)

lemma packed_word_uint:
  assumes "packs h"
  shows "uint (push_bit 16 (millis h) OR (ucast (counter h) :: u64))
           = uint (millis h) * 65536 + uint (counter h)"
proof -
  have m: "uint (millis h) < 2 ^ 47"
    using assms by (simp add: packs_def word_less_def)
  have c: "uint (counter h) < 2 ^ 16"
    using uint_bound [of "counter h"] by simp
  have "uint (push_bit 16 (millis h)) = take_bit 64 (push_bit 16 (uint (millis h)))"
    by (simp add: unsigned_push_bit_eq)
  also have "\<dots> = uint (millis h) * 65536"
    using m by (simp add: push_bit_eq_mult take_bit_int_eq_self)
  finally have pm: "uint (push_bit 16 (millis h)) = push_bit 16 (uint (millis h))"
    by (simp add: push_bit_eq_mult)
  have uc: "uint (ucast (counter h) :: u64) = uint (counter h)"
    using c by (simp add: unsigned_ucast_eq take_bit_int_eq_self_iff)
  have "push_bit 16 (uint (millis h)) OR uint (counter h) = push_bit 16 (uint (millis h)) + uint (counter h)"
    by (rule disjunctive_add [symmetric])
      (metis bit_push_bit_iff bit_take_bit_iff c not_less take_bit_int_eq_self unsigned_greater_eq)
  then show ?thesis
    by (simp only: unsigned_or_eq pm uc) (simp add: push_bit_eq_mult)
qed

lemma packed_eq:
  assumes "packs h"
  shows "packed h = uint (millis h) * 65536 + uint (counter h)"
proof -
  have m: "uint (millis h) < 2 ^ 47"
    using assms by (simp add: packs_def word_less_def)
  have c: "uint (counter h) < 2 ^ 16"
    using uint_bound [of "counter h"] by simp
  from m c have "uint (millis h) * 65536 + uint (counter h) < 2 ^ 63" by simp
  moreover have "- (2 ^ 63) \<le> uint (millis h) * 65536 + uint (counter h)"
    by (rule order_trans [of _ 0]) simp_all
  ultimately show ?thesis
    using packed_word_uint [OF assms]
    by (simp add: packed_def sint_uint signed_take_bit_int_eq_self_iff)
qed

lemma packed_nonneg: "packs h \<Longrightarrow> 0 \<le> packed h"
  by (simp add: packed_eq)

lemma from_packed_packed: "packs h \<Longrightarrow> from_packed (packed h) = h"
proof -
  assume h: "packs h"
  let ?w = "push_bit 16 (millis h) OR (ucast (counter h) :: u64)"
  have c: "uint (counter h) < 65536"
    using uint_bound [of "counter h"] by simp
  have w: "(word_of_int (max (packed h) 0) :: u64) = ?w"
    using packed_nonneg [OF h] by (simp add: packed_def max_def)
  have "uint (drop_bit 16 ?w) = uint (millis h)"
    using c by (simp only: drop_bit_eq_div uint_div packed_word_uint [OF h]) simp
  then have "drop_bit 16 ?w = millis h" by (simp only: word_uint_eq_iff)
  moreover have "uint (ucast (?w AND 0xffff) :: u16) = uint (counter h)"
  proof -
    have "?w AND 0xffff = take_bit 16 ?w"
      by (simp add: take_bit_eq_mask mask_eq_exp_minus_1)
    then have "uint (?w AND 0xffff) = uint (counter h)"
      using c by (simp only: take_bit_eq_mod uint_mod packed_word_uint [OF h]) simp
    then show ?thesis
      using c by (simp add: unsigned_ucast_eq take_bit_int_eq_self_iff)
  qed
  then have "(ucast (?w AND 0xffff) :: u16) = counter h" by (simp only: word_uint_eq_iff)
  ultimately show ?thesis
    by (simp add: from_packed_def w hlc.expand)
qed

lemma packed_less_iff:
  assumes "packs a" and "packs b"
  shows "packed a < packed b \<longleftrightarrow> a < b"
proof -
  have "uint (counter a) < 65536" "uint (counter b) < 65536"
    using uint_bound [of "counter a"] uint_bound [of "counter b"] by simp_all
  then have "uint (millis a) * 65536 + uint (counter a) < uint (millis b) * 65536 + uint (counter b)
      \<longleftrightarrow> uint (millis a) < uint (millis b)
        \<or> (uint (millis a) = uint (millis b) \<and> uint (counter a) < uint (counter b))"
    by (intro radix_less_iff) simp_all
  then show ?thesis
    by (simp add: packed_eq assms less_hlc_def word_less_def word_uint_eq_iff)
qed

lemma packed_inj: "packs a \<Longrightarrow> packs b \<Longrightarrow> packed a = packed b \<longleftrightarrow> a = b"
  using from_packed_packed by metis

section \<open>Laws of the clock\<close>

text \<open>
  What the record store relies on: a local reading is later than everything issued or seen
  (below the greatest reading), and taking in a remote reading moves the clock up to it.
\<close>

locale logical_clock =
  fixes reading :: "'c \<Rightarrow> 't::linorder"
    and ticks :: "'c \<Rightarrow> 'n \<Rightarrow> 'c \<times> 't"
    and observes :: "'c \<Rightarrow> 't \<Rightarrow> 'n \<Rightarrow> 'c \<times> 'd"
    and greatest :: 't
  assumes tick_reading: "reading (fst (ticks c n)) = snd (ticks c n)"
    and tick_later: "reading c \<noteq> greatest \<Longrightarrow> reading c < snd (ticks c n)"
    and observe_reading: "reading (fst (observes c r n)) = max (reading c) r"
begin

lemma observe_mono: "reading c \<le> reading (fst (observes c r n))"
  by (simp add: observe_reading)

lemma observed_le: "r \<le> reading (fst (observes c r n))"
  by (simp add: observe_reading)

lemma tick_after_observe:
  assumes "reading (fst (observes c r n)) \<noteq> greatest"
  shows "r < snd (ticks (fst (observes c r n)) m)"
  using observed_le tick_later [OF assms] by (rule le_less_trans)

lemma tick_reading_later:
  "reading c \<noteq> greatest \<Longrightarrow> reading c < reading (fst (ticks c n))"
  by (simp add: tick_reading tick_later)

end

interpretation hc: logical_clock clock_last tick observe hlc_top
proof
  fix c :: hlc_clock and n :: int and r :: hlc
  show "clock_last (fst (tick c n)) = snd (tick c n)"
    by (simp add: tick_def Let_def)
  show "clock_last c \<noteq> hlc_top \<Longrightarrow> clock_last c < snd (tick c n)"
    by (simp add: tick_def Let_def bump_greater)
  show "clock_last (fst (observe c r n)) = max (clock_last c) r"
    by (auto simp: observe_def max_def)
qed

text \<open>
  A run of the clock: local writes and received readings in the order they happen. The trace
  marks each reading as issued here or received.
\<close>

datatype clock_event = Local i64 | Remote hlc i64

fun clock_run :: "hlc_clock \<Rightarrow> clock_event list \<Rightarrow> (bool \<times> hlc) list" where
  "clock_run c [] = []"
| "clock_run c (Local now # es) =
     (case tick c now of (c', h) \<Rightarrow> (True, h) # clock_run c' es)"
| "clock_run c (Remote r now # es) =
     (False, r) # clock_run (fst (observe c r now)) es"

text \<open>No reading of the trace is the greatest one, where the counter and the wall time are full.\<close>

definition below_top :: "(bool \<times> hlc) list \<Rightarrow> bool" where
  "below_top out = list_all (\<lambda>e. snd e \<noteq> hlc_top) out"

lemma clock_run_issued_later:
  "clock_last c \<noteq> hlc_top \<Longrightarrow> below_top (clock_run c es) \<Longrightarrow>
     (True, h) \<in> set (clock_run c es) \<Longrightarrow> clock_last c < h"
proof (induction c es rule: clock_run.induct)
  case (2 c now es)
  obtain c' g where t: "tick c now = (c', g)" by (cases "tick c now")
  with hc.tick_reading [of c now] hc.tick_later [of c now] "2.prems"(1)
  have g: "clock_last c' = g" "clock_last c < g" by simp_all
  from "2.prems"(2) t have "g \<noteq> hlc_top" "below_top (clock_run c' es)"
    by (simp_all add: below_top_def)
  with "2.IH" [OF t [symmetric]] g(1) "2.prems"(3) t have "h = g \<or> g < h"
    by auto
  with g(2) show ?case by auto
next
  case (3 c r now es)
  let ?c = "fst (observe c r now)"
  from "3.prems" have "clock_last ?c \<noteq> hlc_top"
    by (auto simp: hc.observe_reading max_def below_top_def)
  moreover from "3.prems" have "below_top (clock_run ?c es)" "(True, h) \<in> set (clock_run ?c es)"
    by (simp_all add: below_top_def)
  ultimately have "clock_last ?c < h" using "3.IH" by blast
  then show ?case using hc.observe_mono by (rule le_less_trans [rotated])
qed simp

lemma clock_run_ordered:
  "clock_last c \<noteq> hlc_top \<Longrightarrow> below_top (clock_run c es) \<Longrightarrow>
     sorted_wrt (\<lambda>a b. fst b \<longrightarrow> snd a < snd b) (clock_run c es)"
proof (induction c es rule: clock_run.induct)
  case (2 c now es)
  obtain c' g where t: "tick c now = (c', g)" by (cases "tick c now")
  with hc.tick_reading [of c now] have g: "clock_last c' = g" by simp
  from "2.prems"(2) t have *: "g \<noteq> hlc_top" "below_top (clock_run c' es)"
    by (simp_all add: below_top_def)
  moreover have "g < h" if "(True, h) \<in> set (clock_run c' es)" for h
    using clock_run_issued_later [of c' es h] that * g by simp
  ultimately show ?case using "2.IH" [OF t [symmetric]] g t by auto
next
  case (3 c r now es)
  let ?c = "fst (observe c r now)"
  from "3.prems" have *: "clock_last ?c \<noteq> hlc_top"
    by (auto simp: hc.observe_reading max_def below_top_def)
  moreover from "3.prems" have **: "below_top (clock_run ?c es)"
    by (simp add: below_top_def)
  moreover have "r < h" if "(True, h) \<in> set (clock_run ?c es)" for h
    using clock_run_issued_later [OF * ** that] hc.observed_le [of r c now] by simp
  ultimately show ?case using "3.IH" by auto
qed simp

section \<open>The printed form\<close>

text \<open>The twelve digits hold a wall time below \<open>2^48\<close>.\<close>

definition prints :: "hlc \<Rightarrow> bool" where
  "prints h \<longleftrightarrow> millis h < 2 ^ 48"

lemma prints_unat: "prints h \<longleftrightarrow> unat (millis h) < 16 ^ 12"
  by (simp add: prints_def word_less_nat_alt)

lemma counter_unat: "unat (counter h) < 16 ^ 4"
  using unat_bound [of "counter h"] by simp

lemma packs_prints: "packs h \<Longrightarrow> prints h"
  by (simp add: packs_unat prints_unat)

lemma display_hexn:
  "prints h \<Longrightarrow> display h = hexn 12 (unat (millis h)) @ hexn 4 (unat (counter h))"
  using hex_pad_eq_hexn [of "unat (millis h)" 11] hex_pad_eq_hexn [of "unat (counter h)" 3]
    counter_unat [of h]
  by (simp add: display_def prints_unat)

lemma parse_display: "prints h \<Longrightarrow> parse (display h) = Ok h"
  using counter_unat [of h]
  by (simp add: parse_def display_hexn hexn_all_digits from_hex_hexn prints_unat)

lemma append_less_iff:
  "length xs = length ys \<Longrightarrow>
     (xs @ us < ys @ vs) = (xs < ys \<or> (xs = ys \<and> us < (vs :: 'a::linorder list)))"
  by (induction xs ys rule: list_induct2) auto

lemma display_less_iff:
  assumes "prints a" and "prints b"
  shows "display a < display b \<longleftrightarrow> a < b"
proof -
  have eq: "hexn 12 (unat (millis a)) = hexn 12 (unat (millis b)) \<longleftrightarrow> millis a = millis b"
    using assms by (simp only: prints_unat hexn_eq_iff word_unat_eq_iff)
  show ?thesis
    using assms counter_unat [of a] counter_unat [of b]
    by (simp add: display_hexn append_less_iff hexn_less_iff eq prints_unat less_hlc_def
        word_less_nat_alt)
qed

section \<open>Properties\<close>

text \<open>In any run of a member's clock, a reading it issues is later than every reading it issued or
  received before, up to the greatest reading.\<close>

theorem readings_ordered:
  assumes "clock_last c \<noteq> hlc_top" "below_top (clock_run c es)"
    and "i < j" "j < length (clock_run c es)" "fst (clock_run c es ! j)"
  shows "snd (clock_run c es ! i) < snd (clock_run c es ! j)"
  using sorted_wrt_nth_less [OF clock_run_ordered [OF assms(1,2)] assms(3,4)] assms(5) by blast

theorem readings_ordered_witness:
  "snd (clock_run (clock_new (Hlc 5 0)) [Local 9, Remote (Hlc 20 1) 9, Local 9] ! 1)
     < snd (clock_run (clock_new (Hlc 5 0)) [Local 9, Remote (Hlc 20 1) 9, Local 9] ! 2)"
  by (rule readings_ordered)
    (simp_all add: clock_new_def hlc_top_def below_top_def tick_def hlc_at_def less_hlc_def observe_def
      bump_def checked_add_def Let_def)

text \<open>The printed form of a reading reads back as the reading, and printed readings sort as the
  readings do, for wall times below \<open>2^48\<close>.\<close>

theorem display_roundtrip_sorts:
  assumes "prints a" "prints b"
  shows "parse (display a) = Ok a \<and> (display a < display b \<longleftrightarrow> a < b)"
  using parse_display [OF assms(1)] display_less_iff [OF assms] by simp

theorem display_roundtrip_sorts_witness:
  "parse (display (Hlc 7 65535)) = Ok (Hlc 7 65535) \<and> (display (Hlc 7 65535) < display (Hlc 8 0))"
  using display_roundtrip_sorts [of "Hlc 7 65535" "Hlc 8 0"] by (simp add: prints_def less_hlc_def)

text \<open>The stored column reads back as the reading and orders as readings do for wall times below
  \<open>2^47\<close>; at \<open>2^47\<close> it turns negative, sorts below every earlier reading and reads back as zero.\<close>

theorem packed_orders_below_2_47:
  "(\<forall>a b. packs a \<and> packs b \<longrightarrow> from_packed (packed a) = a \<and> (packed a < packed b \<longleftrightarrow> a < b))
   \<and> packed (Hlc (2 ^ 47) 0) < packed (Hlc 0 0)
   \<and> from_packed (packed (Hlc (2 ^ 47) 0)) = hlc_default
   \<and> parse (display (Hlc (2 ^ 47) 0)) = Ok (Hlc (2 ^ 47) 0)"
proof -
  have p: "packed (Hlc (2 ^ 47) 0) = - (2 ^ 63)" "packed (Hlc 0 0) = 0"
    by (simp_all add: packed_def)
  have "from_packed (- (2 ^ 63)) = hlc_default" "- (2 ^ 63) < (0 :: int)"
    by (simp_all add: from_packed_def hlc_default_def)
  moreover have "parse (display (Hlc (2 ^ 47) 0)) = Ok (Hlc (2 ^ 47) 0)"
    by (rule parse_display) (simp add: prints_def)
  ultimately show ?thesis
    using from_packed_packed packed_less_iff unfolding p by blast
qed

theorem packed_orders_below_2_47_witness:
  "from_packed (packed (Hlc 1 2)) = Hlc 1 2 \<and> (packed (Hlc 1 2) < packed (Hlc 1 3))"
proof -
  have "packs (Hlc 1 2)" "packs (Hlc 1 3)" "Hlc 1 2 < Hlc 1 3" by (simp_all add: packs_def less_hlc_def)
  with packed_orders_below_2_47 show ?thesis by blast
qed

end
