(* ===== verification/Json.thy ===== *)
theory Json
  imports Prelude
begin

text \<open>
  JSON values as the code handles them: \<open>serde_json::Value\<close>. A number is kept as its
  serialized text. Serialization itself belongs to \<open>serde_json\<close>; where the code measures or
  shows a value's text, the model takes the printing function as an argument.
\<close>

datatype json =
    JNull
  | JBool bool
  | JNumber string
  | JString string
  | JArray "json list"
  | JObject "(string \<times> json) list"

text \<open>\<open>value[name]\<close> (\<open>Null\<close> when absent or no object), \<open>value.get(name)\<close> and \<open>as_str\<close>.\<close>

fun jindex :: "json \<Rightarrow> string \<Rightarrow> json" where
  "jindex (JObject kvs) name = (case map_of kvs name of None \<Rightarrow> JNull | Some v \<Rightarrow> v)"
| "jindex _ name = JNull"

fun jget :: "json \<Rightarrow> string \<Rightarrow> json option" where
  "jget (JObject kvs) name = map_of kvs name"
| "jget _ name = None"

fun as_str :: "json \<Rightarrow> string option" where
  "as_str (JString s) = Some s"
| "as_str _ = None"

end
