(* ===== verification/Records.thy ===== *)
theory Records
  imports Hlc Json "HOL-Library.AList"
begin

text \<open>
  The replicated record store of a swarm member (\<open>swarm/records.rs\<close>): the rows of
  \<open>swarm.sqlite3\<close>, the last-writer-wins rule of \<open>apply\<close>, local writes, merging, deltas and
  the collection of tombstones.

  A table is the list of its rows. A row's columns are what SQLite stores: signed 64-bit
  integers for the clock, the number and the rank (\<open>row_cols\<close>); \<open>read_row\<close> turns them back
  into a \<open>RecordRow\<close>. Queries are list functions, an upsert replaces the row with the same
  primary key or appends it. SQLite failures are not modelled: each operation is its
  committed transaction.
\<close>

section \<open>Rows and columns\<close>

record record_row =
  rclass :: string
  rkey :: string
  rfield :: string
  rvalue :: "json option"
  rclock :: hlc
  rorigin :: string
  rseq :: u64
  rrank :: u64
  rdeleted :: bool

record row_cols =
  cclass :: string
  ckey :: string
  cfield :: string
  cvalue :: "json option"
  cclock :: i64
  corigin :: string
  cseq :: i64
  cdeleted :: bool
  crank :: i64

record record_change =
  ch_class :: string
  ch_key :: string
  ch_field :: string
  ch_deleted :: bool
  ch_origin :: string
  ch_local :: bool

type_synonym table = "row_cols list"
type_synonym version = "u64 \<times> hlc \<times> string"

text \<open>\<open>version\<close>: rank, then clock, then origin (tuples compare lexicographically).\<close>

definition version :: "record_row \<Rightarrow> version" where
  "version row = (rrank row, rclock row, rorigin row)"

text \<open>The parameters \<open>apply\<close> binds for the row, and \<open>read_row\<close>.\<close>

definition to_cols :: "record_row \<Rightarrow> row_cols" where
  "to_cols row =
     \<lparr>cclass = rclass row, ckey = rkey row, cfield = rfield row, cvalue = rvalue row,
      cclock = packed (rclock row), corigin = rorigin row, cseq = sint (rseq row),
      cdeleted = rdeleted row, crank = sint (rrank row)\<rparr>"

definition read_row :: "row_cols \<Rightarrow> record_row" where
  "read_row c =
     \<lparr>rclass = cclass c, rkey = ckey c, rfield = cfield c, rvalue = cvalue c,
      rclock = from_packed (cclock c), rorigin = corigin c, rseq = word_of_int (cseq c),
      rrank = word_of_int (crank c), rdeleted = cdeleted c\<rparr>"

section \<open>Queries\<close>

definition current_row :: "table \<Rightarrow> string \<Rightarrow> string \<Rightarrow> string \<Rightarrow> record_row option" where
  "current_row t cls key field =
     map_option read_row (find (\<lambda>c. cclass c = cls \<and> ckey c = key \<and> cfield c = field) t)"

definition has_live_fields :: "table \<Rightarrow> string \<Rightarrow> string \<Rightarrow> bool" where
  "has_live_fields t cls key =
     list_ex (\<lambda>c. cclass c = cls \<and> ckey c = key \<and> cfield c \<noteq> [] \<and> \<not> cdeleted c) t"

text \<open>\<open>INSERT ... ON CONFLICT(class, key, field) DO UPDATE\<close>.\<close>

definition same_slot :: "row_cols \<Rightarrow> row_cols \<Rightarrow> bool" where
  "same_slot a b \<longleftrightarrow> cclass a = cclass b \<and> ckey a = ckey b \<and> cfield a = cfield b"

definition upsert :: "table \<Rightarrow> row_cols \<Rightarrow> table" where
  "upsert t c = (if list_ex (same_slot c) t then map (\<lambda>d. if same_slot c d then c else d) t
                 else t @ [c])"

text \<open>The rows a tombstone deletes: the older field writes of its record.\<close>

definition older_field :: "row_cols \<Rightarrow> row_cols \<Rightarrow> bool" where
  "older_field tomb c \<longleftrightarrow>
     cclass c = cclass tomb \<and> ckey c = ckey tomb \<and> cfield c \<noteq> []
     \<and> (crank c < crank tomb
        \<or> (crank c = crank tomb
           \<and> (cclock c < cclock tomb \<or> (cclock c = cclock tomb \<and> corigin c < corigin tomb))))"

section \<open>Applying one row\<close>

definition change_of :: "record_row \<Rightarrow> bool \<Rightarrow> record_change" where
  "change_of row lcl =
     \<lparr>ch_class = rclass row, ch_key = rkey row, ch_field = rfield row,
      ch_deleted = rdeleted row, ch_origin = rorigin row, ch_local = lcl\<rparr>"

definition apply_row :: "table \<Rightarrow> record_row \<Rightarrow> bool \<Rightarrow> table \<times> record_change option" where
  "apply_row t row lcl =
     (let incoming = version row;
          current = current_row t (rclass row) (rkey row) (rfield row);
          tomb = current_row t (rclass row) (rkey row) []
      in if (case current of None \<Rightarrow> False | Some c \<Rightarrow> incoming \<le> version c) then (t, None)
         else if rfield row \<noteq> [] \<and> (case tomb of None \<Rightarrow> False | Some d \<Rightarrow> incoming \<le> version d)
         then (t, None)
         else
           (let was_live =
                  (if rfield row = [] then has_live_fields t (rclass row) (rkey row)
                   else (case current of None \<Rightarrow> False | Some c \<Rightarrow> \<not> rdeleted c));
                t1 = upsert t (to_cols row)
            in if rfield row = []
               then (let t2 = filter (\<lambda>c. \<not> older_field (to_cols row) c) t1;
                         live = has_live_fields t2 (rclass row) (rkey row)
                     in (t2, if was_live = live then None else Some (change_of row lcl)))
               else (let changed =
                           (case current of
                              Some c \<Rightarrow> if \<not> rdeleted c \<and> \<not> rdeleted row
                                        then rvalue c \<noteq> rvalue row
                                        else was_live \<noteq> (\<not> rdeleted row)
                            | None \<Rightarrow> was_live \<noteq> (\<not> rdeleted row))
                     in (t1, if changed then Some (change_of row lcl) else None))))"

text \<open>Applying the rows of a batch in order, as the loop of \<open>merge\<close> does.\<close>

fun apply_all :: "table \<Rightarrow> record_row list \<Rightarrow> table" where
  "apply_all t [] = t"
| "apply_all t (row # rows) = apply_all (fst (apply_row t row False)) rows"

section \<open>The table as a set of rows\<close>

text \<open>
  A row is in range when its clock packs without loss and its rank fits a signed integer:
  then the columns order as the versions do.
\<close>

definition in_range :: "record_row \<Rightarrow> bool" where
  "in_range row \<longleftrightarrow> packs (rclock row) \<and> rrank row < 2 ^ 63"

definition slot :: "record_row \<Rightarrow> string \<times> string \<times> string" where
  "slot row = (rclass row, rkey row, rfield row)"

definition tomb_slot :: "record_row \<Rightarrow> string \<times> string \<times> string" where
  "tomb_slot row = (rclass row, rkey row, [])"

definition rows_of :: "table \<Rightarrow> record_row set" where
  "rows_of t = read_row ` set t"

definition table_ok :: "table \<Rightarrow> bool" where
  "table_ok t \<longleftrightarrow> (\<forall>c\<in>set t. \<exists>r. in_range r \<and> c = to_cols r)
     \<and> (\<forall>c\<in>set t. \<forall>d\<in>set t. same_slot c d \<longrightarrow> c = d)"

lemma read_row_to_cols: "in_range r \<Longrightarrow> read_row (to_cols r) = r"
  by (simp add: read_row_def to_cols_def in_range_def from_packed_packed)

lemma to_cols_simps [simp]:
  "cclass (to_cols r) = rclass r" "ckey (to_cols r) = rkey r" "cfield (to_cols r) = rfield r"
  "cdeleted (to_cols r) = rdeleted r" "corigin (to_cols r) = rorigin r"
  "cseq (to_cols r) = sint (rseq r)"
  by (simp_all add: to_cols_def)

lemma read_row_simps [simp]:
  "rclass (read_row c) = cclass c" "rkey (read_row c) = ckey c" "rfield (read_row c) = cfield c"
  "rdeleted (read_row c) = cdeleted c" "rorigin (read_row c) = corigin c"
  by (simp_all add: read_row_def)

lemma same_slot_to_cols [simp]: "same_slot (to_cols a) (to_cols b) \<longleftrightarrow> slot a = slot b"
  by (auto simp: same_slot_def slot_def)

lemma sint_rank_less:
  assumes "a < 2 ^ 63" "b < (2 ^ 63 :: u64)"
  shows "sint a < sint b \<longleftrightarrow> a < b" "sint a = sint b \<longleftrightarrow> a = b"
proof -
  have pos: "sint w = uint w" if "w < 2 ^ 63" for w :: u64
  proof -
    have "uint w < 2 ^ 63" using that by (simp add: word_less_def)
    moreover have "- (2 ^ 63) \<le> uint w" by (rule order_trans [of _ 0]) simp_all
    ultimately show ?thesis by (simp add: sint_uint signed_take_bit_int_eq_self_iff)
  qed
  show "sint a < sint b \<longleftrightarrow> a < b" "sint a = sint b \<longleftrightarrow> a = b"
    using assms by (simp_all add: pos word_less_def word_uint_eq_iff)
qed

lemma older_field_iff:
  assumes "in_range a" "in_range b"
  shows "older_field (to_cols a) (to_cols b) \<longleftrightarrow>
    rclass b = rclass a \<and> rkey b = rkey a \<and> rfield b \<noteq> [] \<and> version b < version a"
  using assms
  by (auto simp: older_field_def to_cols_def version_def in_range_def sint_rank_less
      packed_less_iff packed_inj)

lemma rows_of_Nil [simp]: "rows_of [] = {}"
  by (simp add: rows_of_def)

lemma table_ok_Nil [simp]: "table_ok []"
  by (simp add: table_ok_def)

lemma rows_ofE:
  assumes "table_ok t" "c \<in> set t"
  obtains r where "in_range r" "c = to_cols r" "r \<in> rows_of t" "read_row c = r"
proof -
  from assms obtain r where r: "in_range r" "c = to_cols r" by (auto simp: table_ok_def)
  then have "read_row c = r" by (simp add: read_row_to_cols)
  moreover from this assms(2) have "r \<in> rows_of t" unfolding rows_of_def by (metis imageI)
  ultimately show thesis using that r by blast
qed

lemma read_row_eq_iff:
  assumes "table_ok t" "c \<in> set t"
  shows "read_row c = r \<longleftrightarrow> in_range r \<and> c = to_cols r"
proof -
  from assms obtain q where q: "in_range q" "c = to_cols q" "read_row c = q" by (rule rows_ofE)
  then show ?thesis by (metis read_row_to_cols)
qed

lemma rows_of_iff: "table_ok t \<Longrightarrow> r \<in> rows_of t \<longleftrightarrow> in_range r \<and> to_cols r \<in> set t"
proof
  assume "table_ok t" "r \<in> rows_of t"
  then obtain c where "c \<in> set t" "r = read_row c" by (auto simp: rows_of_def)
  with \<open>table_ok t\<close> show "in_range r \<and> to_cols r \<in> set t" by (auto elim: rows_ofE)
next
  assume "in_range r \<and> to_cols r \<in> set t"
  then show "r \<in> rows_of t"
    by (auto simp: rows_of_def intro: image_eqI [of _ _ "to_cols r"] read_row_to_cols [symmetric])
qed

lemma rows_of_slot_unique:
  "table_ok t \<Longrightarrow> a \<in> rows_of t \<Longrightarrow> b \<in> rows_of t \<Longrightarrow> slot a = slot b \<Longrightarrow> a = b"
  by (metis read_row_to_cols rows_of_iff same_slot_to_cols table_ok_def)

lemma current_row_Some_iff:
  assumes "table_ok t"
  shows "current_row t c k f = Some r \<longleftrightarrow> r \<in> rows_of t \<and> slot r = (c, k, f)"
proof
  assume "current_row t c k f = Some r"
  then obtain d where d: "find (\<lambda>x. cclass x = c \<and> ckey x = k \<and> cfield x = f) t = Some d"
    and r: "r = read_row d"
    by (auto simp: current_row_def)
  from find_Some_iff' [OF d] assms r show "r \<in> rows_of t \<and> slot r = (c, k, f)"
    by (auto elim!: rows_ofE simp: slot_def)
next
  assume r: "r \<in> rows_of t \<and> slot r = (c, k, f)"
  then have "to_cols r \<in> set t" using assms by (simp add: rows_of_iff)
  with r have "find (\<lambda>x. cclass x = c \<and> ckey x = k \<and> cfield x = f) t \<noteq> None"
    unfolding find_None_set by (metis prod.inject slot_def to_cols_simps(1-3))
  then obtain d where d: "find (\<lambda>x. cclass x = c \<and> ckey x = k \<and> cfield x = f) t = Some d" by auto
  from find_Some_iff' [OF d] assms obtain q where q: "q \<in> rows_of t" "read_row d = q" "slot q = (c, k, f)"
    by (auto elim!: rows_ofE simp: slot_def)
  with r assms have "q = r" by (metis rows_of_slot_unique)
  with d q show "current_row t c k f = Some r" by (simp add: current_row_def)
qed

lemma current_row_None_iff:
  "table_ok t \<Longrightarrow> current_row t c k f = None \<longleftrightarrow> (\<forall>r\<in>rows_of t. slot r \<noteq> (c, k, f))"
  using current_row_Some_iff [of t c k f] by (metis not_None_eq)

lemma set_upsert: "set (upsert t c) = insert c {d \<in> set t. \<not> same_slot c d}"
  by (auto simp: upsert_def list_ex_iff)

lemma table_ok_upsert: "table_ok t \<Longrightarrow> in_range r \<Longrightarrow> table_ok (upsert t (to_cols r))"
  unfolding table_ok_def set_upsert by (auto simp: same_slot_def)

lemma rows_of_upsert:
  assumes "table_ok t" "in_range r"
  shows "rows_of (upsert t (to_cols r)) = insert r {x \<in> rows_of t. slot x \<noteq> slot r}"
proof -
  have "x \<in> rows_of (upsert t (to_cols r)) \<longleftrightarrow> x = r \<or> x \<in> rows_of t \<and> slot x \<noteq> slot r" for x
  proof -
    have "in_range x \<Longrightarrow> to_cols x = to_cols r \<longleftrightarrow> x = r"
      using assms(2) by (metis read_row_to_cols)
    then show ?thesis
      using assms(2) by (auto simp: rows_of_iff assms(1) table_ok_upsert [OF assms] set_upsert)
  qed
  then show ?thesis by auto
qed

section \<open>The last writer wins\<close>

text \<open>What applying a row does to the set of rows a table holds.\<close>

definition loses :: "record_row set \<Rightarrow> record_row \<Rightarrow> bool" where
  "loses R r \<longleftrightarrow> (\<exists>x\<in>R. slot x = slot r \<and> version r \<le> version x)
     \<or> (rfield r \<noteq> [] \<and> (\<exists>d\<in>R. slot d = tomb_slot r \<and> version r \<le> version d))"

definition buries :: "record_row \<Rightarrow> record_row \<Rightarrow> bool" where
  "buries d x \<longleftrightarrow> rfield d = [] \<and> rfield x \<noteq> [] \<and> slot d = tomb_slot x \<and> version x < version d"

definition lww :: "record_row set \<Rightarrow> record_row \<Rightarrow> record_row set" where
  "lww R r = (if loses R r then R else insert r {x \<in> R. slot x \<noteq> slot r \<and> \<not> buries r x})"

lemma table_ok_filter: "table_ok t \<Longrightarrow> table_ok (filter P t)"
  by (auto simp: table_ok_def)

lemma rows_of_drop_older:
  assumes "table_ok t" "in_range r"
  shows "rows_of (filter (\<lambda>c. \<not> older_field (to_cols r) c) t)
    = {x \<in> rows_of t. \<not> (rclass x = rclass r \<and> rkey x = rkey r \<and> rfield x \<noteq> [] \<and> version x < version r)}"
  by (auto simp: rows_of_iff assms table_ok_filter older_field_iff)

lemma loses_iff:
  assumes "table_ok t"
  shows "loses (rows_of t) r \<longleftrightarrow>
    (case current_row t (rclass r) (rkey r) (rfield r) of None \<Rightarrow> False | Some c \<Rightarrow> version r \<le> version c)
    \<or> (rfield r \<noteq> [] \<and> (case current_row t (rclass r) (rkey r) [] of None \<Rightarrow> False
         | Some d \<Rightarrow> version r \<le> version d))"
proof -
  have "(case current_row t c k f of None \<Rightarrow> False | Some x \<Rightarrow> version r \<le> version x)
      \<longleftrightarrow> (\<exists>x\<in>rows_of t. slot x = (c, k, f) \<and> version r \<le> version x)" for c k f
  proof (cases "current_row t c k f")
    case None
    with current_row_None_iff [OF assms, of c k f] show ?thesis by simp
  next
    case (Some x)
    then have "x \<in> rows_of t" "slot x = (c, k, f)" using current_row_Some_iff [OF assms] by auto
    with Some show ?thesis by (auto dest: rows_of_slot_unique [OF assms, of x])
  qed
  then show ?thesis by (simp add: loses_def slot_def tomb_slot_def)
qed

lemma apply_row_fst:
  "fst (apply_row t r l) =
    (if (case current_row t (rclass r) (rkey r) (rfield r) of None \<Rightarrow> False | Some c \<Rightarrow> version r \<le> version c)
       \<or> (rfield r \<noteq> [] \<and> (case current_row t (rclass r) (rkey r) [] of None \<Rightarrow> False
            | Some d \<Rightarrow> version r \<le> version d))
     then t
     else if rfield r = [] then filter (\<lambda>c. \<not> older_field (to_cols r) c) (upsert t (to_cols r))
     else upsert t (to_cols r))"
  by (simp add: apply_row_def Let_def)

lemma apply_row_refines:
  assumes "table_ok t" "in_range r"
  shows "table_ok (fst (apply_row t r l)) \<and> rows_of (fst (apply_row t r l)) = lww (rows_of t) r"
proof (cases "loses (rows_of t) r")
  case True
  with assms show ?thesis by (simp add: apply_row_fst loses_iff lww_def)
next
  case False
  note up = table_ok_upsert [OF assms] rows_of_upsert [OF assms]
  show ?thesis
  proof (cases "rfield r = []")
    case True
    have "fst (apply_row t r l) = filter (\<lambda>c. \<not> older_field (to_cols r) c) (upsert t (to_cols r))"
      using False True assms by (simp add: apply_row_fst loses_iff)
    then show ?thesis
      using False True up
      by (auto simp: table_ok_filter rows_of_drop_older assms(2) lww_def buries_def slot_def tomb_slot_def)
  next
    case f: False
    have "fst (apply_row t r l) = upsert t (to_cols r)"
      using False f assms by (simp add: apply_row_fst loses_iff)
    then show ?thesis
      using False f up by (auto simp: lww_def buries_def)
  qed
qed

section \<open>Convergence\<close>

text \<open>
  The rows a set of writes leaves: in each slot the greatest version, unless a tombstone of
  the record is greater.
\<close>

definition winners :: "record_row set \<Rightarrow> record_row set" where
  "winners S = {r \<in> S. (\<forall>x\<in>S. slot x = slot r \<longrightarrow> version x \<le> version r)
     \<and> (rfield r \<noteq> [] \<longrightarrow> (\<forall>d\<in>S. slot d = tomb_slot r \<longrightarrow> version d \<le> version r))}"

text \<open>Two different writes to one record have different versions, as clock readings have.\<close>

definition versions_distinct :: "record_row set \<Rightarrow> bool" where
  "versions_distinct S \<longleftrightarrow>
     (\<forall>a\<in>S. \<forall>b\<in>S. tomb_slot a = tomb_slot b \<and> version a = version b \<longrightarrow> a = b)"

definition writes_ok :: "record_row set \<Rightarrow> bool" where
  "writes_ok S \<longleftrightarrow> (\<forall>r\<in>S. in_range r) \<and> versions_distinct S"

lemma slot_tomb: "slot a = slot b \<Longrightarrow> tomb_slot a = tomb_slot b"
  by (simp add: slot_def tomb_slot_def)

lemma tomb_slot_iff: "slot d = tomb_slot r \<longleftrightarrow> rfield d = [] \<and> tomb_slot d = tomb_slot r"
  by (auto simp: slot_def tomb_slot_def)

lemma versions_distinctD:
  "versions_distinct S \<Longrightarrow> a \<in> S \<Longrightarrow> b \<in> S \<Longrightarrow> tomb_slot a = tomb_slot b \<Longrightarrow>
     version a = version b \<Longrightarrow> a = b"
  by (simp add: versions_distinct_def)

lemma max_in_slot:
  assumes "finite S" "x \<in> S"
  obtains m where "m \<in> S" "slot m = slot x" "\<And>y. y \<in> S \<Longrightarrow> slot y = slot x \<Longrightarrow> version y \<le> version m"
  using finite_max_by [of "{y \<in> S. slot y = slot x}" version] assms by auto

lemma tombstone_max_wins:
  assumes "finite S" "d \<in> S" "rfield d = []"
  obtains m where "m \<in> winners S" "slot m = slot d" "version d \<le> version m"
proof -
  obtain m where m: "m \<in> S" "slot m = slot d"
      "\<And>y. y \<in> S \<Longrightarrow> slot y = slot d \<Longrightarrow> version y \<le> version m"
    using max_in_slot [OF assms(1,2)] by metis
  moreover from this assms(3) have "rfield m = []" by (simp add: slot_def)
  ultimately have "m \<in> winners S" by (simp add: winners_def)
  with m assms(2) that show thesis by blast
qed

lemma not_loses_above:
  assumes S: "finite S" and n: "\<not> loses (winners S) r"
  shows "x \<in> S \<Longrightarrow> slot x = slot r \<Longrightarrow> version x < version r"
    and "x \<in> S \<Longrightarrow> rfield r \<noteq> [] \<Longrightarrow> slot x = tomb_slot r \<Longrightarrow> version x < version r"
proof -
  show tomb: "version x < version r" if x: "x \<in> S" "rfield r \<noteq> []" "slot x = tomb_slot r" for x
  proof -
    have "rfield x = []" using x(3) by (simp add: tomb_slot_iff)
    then obtain m where "m \<in> winners S" "slot m = slot x" "version x \<le> version m"
      using S x(1) by (elim tombstone_max_wins)
    with n x show ?thesis by (auto simp: loses_def)
  qed
  show "version x < version r" if x: "x \<in> S" "slot x = slot r"
  proof -
    obtain m where m: "m \<in> S" "slot m = slot x"
        "\<And>y. y \<in> S \<Longrightarrow> slot y = slot x \<Longrightarrow> version y \<le> version m"
      using max_in_slot [OF S x(1)] by metis
    have "version m < version r"
    proof (cases "m \<in> winners S")
      case True
      with n m(2) x(2) show ?thesis by (auto simp: loses_def)
    next
      case False
      then obtain d where d: "d \<in> S" "slot d = tomb_slot m" "version m < version d" "rfield m \<noteq> []"
        using m by (auto simp: winners_def not_le)
      moreover have "rfield r \<noteq> []" "tomb_slot r = tomb_slot m"
        using d(4) m(2) x(2) by (auto simp: slot_def tomb_slot_def)
      ultimately show ?thesis using tomb [of d] by simp
    qed
    with m(3) [OF x(1)] show ?thesis by simp
  qed
qed


lemma winners_insert_iff:
  "x \<in> winners (insert r S) \<longleftrightarrow>
     (x = r \<or> x \<in> S) \<and> (\<forall>y\<in>S. slot y = slot x \<longrightarrow> version y \<le> version x)
     \<and> (slot r = slot x \<longrightarrow> version r \<le> version x)
     \<and> (rfield x \<noteq> [] \<longrightarrow> (\<forall>d\<in>S. slot d = tomb_slot x \<longrightarrow> version d \<le> version x)
          \<and> (slot r = tomb_slot x \<longrightarrow> version r \<le> version x))"
  by (auto simp: winners_def)

lemma loses_winners:
  assumes "versions_distinct (insert r S)" "loses (winners S) r"
  shows "winners (insert r S) = winners S"
proof -
  have ex: "r \<in> winners S \<or> (\<exists>w\<in>S. version r < version w \<and> (slot w = slot r \<or> slot w = tomb_slot r \<and> rfield r \<noteq> []))"
  proof -
    from assms(2) obtain w where w: "w \<in> winners S" "version r \<le> version w"
        "slot w = slot r \<or> slot w = tomb_slot r \<and> rfield r \<noteq> []"
      by (auto simp: loses_def)
    then have "w \<in> S" by (simp add: winners_def)
    have "tomb_slot w = tomb_slot r"
      using w(3) by (auto dest: slot_tomb simp: tomb_slot_iff)
    with \<open>w \<in> S\<close> have "version w = version r \<Longrightarrow> w = r"
      using versions_distinctD [OF assms(1), of w r] by simp
    then consider "w = r" | "version r < version w" using w(2) by fastforce
    then show ?thesis using w \<open>w \<in> S\<close> by cases blast+
  qed
  show ?thesis
  proof (cases "r \<in> winners S")
    case True
    then have "insert r S = S" by (auto simp: winners_def)
    then show ?thesis by simp
  next
    case False
    with ex obtain w where w: "w \<in> S" "version r < version w"
      "slot w = slot r \<or> slot w = tomb_slot r \<and> rfield r \<noteq> []" by auto
    have "x \<in> winners (insert r S) \<longleftrightarrow> x \<in> winners S" for x
    proof -
      have nr: "x \<noteq> r" if "x \<in> winners (insert r S)"
        using w that by (auto simp: winners_insert_iff)
      have le1: "version r \<le> version x" if "x \<in> winners S" "slot r = slot x"
        using w that by (auto simp: winners_def slot_def tomb_slot_def)
      have le2: "version r \<le> version x" if "x \<in> winners S" "slot r = tomb_slot x" "rfield x \<noteq> []"
        using w that by (auto simp: winners_def slot_def tomb_slot_def)
      show ?thesis
        using nr le1 le2 unfolding winners_insert_iff by (auto simp: winners_def)
    qed
    then show ?thesis by auto
  qed
qed

lemma lww_winners:
  assumes S: "finite S" and dist: "versions_distinct (insert r S)"
  shows "lww (winners S) r = winners (insert r S)"
proof (cases "loses (winners S) r")
  case True
  with loses_winners [OF dist True] show ?thesis by (simp add: lww_def)
next
  case False
  note above = not_loses_above [OF S False]
  have r: "r \<in> winners (insert r S)"
    using above by (auto simp: winners_insert_iff dest: less_imp_le)
  have "x \<in> winners (insert r S) \<longleftrightarrow> x = r \<or> x \<in> winners S \<and> slot x \<noteq> slot r \<and> \<not> buries r x" for x
  proof (cases "x = r")
    case True
    with r show ?thesis by simp
  next
    case x: False
    have "slot x = slot r \<Longrightarrow> x \<notin> winners (insert r S)"
      using above(1) [of x] x by (auto simp: winners_insert_iff not_le)
    moreover have "slot x \<noteq> slot r \<Longrightarrow> ?thesis"
      using x by (auto simp: winners_insert_iff winners_def buries_def not_less tomb_slot_iff)
    ultimately show ?thesis using x by blast
  qed
  then show ?thesis using False by (auto simp: lww_def)
qed


section \<open>The replica interface\<close>

text \<open>
  What a replica promises its client: each message turns the state that stands for the set of
  messages seen into the one that stands for the set with the message added. Delivery order,
  repetition and batching then cannot matter.
\<close>

locale convergent_replica =
  fixes deliver :: "'s \<Rightarrow> 'm \<Rightarrow> 's"
    and empty_state :: 's
    and view :: "'s \<Rightarrow> 'v"
    and ok_state :: "'s \<Rightarrow> bool"
    and ok_messages :: "'m set \<Rightarrow> bool"
    and spec :: "'m set \<Rightarrow> 'v"
  assumes empty_ok: "ok_state empty_state" "view empty_state = spec {}"
    and ok_subset: "ok_messages M \<Longrightarrow> N \<subseteq> M \<Longrightarrow> ok_messages N"
    and deliver_ok: "finite M \<Longrightarrow> ok_messages (insert m M) \<Longrightarrow> ok_state s \<Longrightarrow> view s = spec M
          \<Longrightarrow> ok_state (deliver s m) \<and> view (deliver s m) = spec (insert m M)"
begin

lemma deliver_all:
  assumes "finite M" "ok_messages (M \<union> set ms)" "ok_state s" "view s = spec M"
  shows "ok_state (foldl deliver s ms) \<and> view (foldl deliver s ms) = spec (M \<union> set ms)"
  using assms
proof (induction ms arbitrary: s M)
  case (Cons m ms)
  have "ok_messages (insert m M)" using Cons.prems(2) by (rule ok_subset) auto
  then have "ok_state (deliver s m)" "view (deliver s m) = spec (insert m M)"
    using deliver_ok Cons.prems by blast+
  with Cons.IH [of "insert m M" "deliver s m"] Cons.prems show ?case by simp
qed simp

lemma deliver_from_empty:
  "ok_messages (set ms) \<Longrightarrow> ok_state (foldl deliver empty_state ms) \<and> view (foldl deliver empty_state ms) = spec (set ms)"
  using deliver_all [of "{}" ms empty_state] empty_ok by simp

lemma same_messages_same_view:
  "ok_messages (set ms) \<Longrightarrow> set ms = set ns \<Longrightarrow>
     view (foldl deliver empty_state ms) = view (foldl deliver empty_state ns)"
  using deliver_from_empty [of ms] deliver_from_empty [of ns] by simp

end

lemma winners_empty [simp]: "winners {} = {}"
  by (simp add: winners_def)

lemma writes_ok_subset: "writes_ok M \<Longrightarrow> N \<subseteq> M \<Longrightarrow> writes_ok N"
  by (auto simp: writes_ok_def versions_distinct_def)

interpretation rt: convergent_replica "\<lambda>t r. fst (apply_row t r l)" "[]" rows_of table_ok writes_ok winners
  for l
proof
  show "table_ok (fst (apply_row t r l)) \<and> rows_of (fst (apply_row t r l)) = winners (insert r S)"
    if "finite S" "writes_ok (insert r S)" "table_ok t" "rows_of t = winners S" for S r t
    using apply_row_refines [of t r l] that lww_winners [of S r] by (simp add: writes_ok_def)
qed (simp_all add: writes_ok_subset)

lemma apply_all_foldl: "apply_all t rs = foldl (\<lambda>t r. fst (apply_row t r False)) t rs"
  by (induction t rs rule: apply_all.induct) simp_all

lemma table_ok_apply_all: "table_ok t \<Longrightarrow> \<forall>r\<in>set rs. in_range r \<Longrightarrow> table_ok (apply_all t rs)"
  by (induction t rs rule: apply_all.induct) (simp_all add: apply_row_refines)

lemma apply_all_winners:
  "writes_ok (set rs) \<Longrightarrow> table_ok (apply_all [] rs) \<and> rows_of (apply_all [] rs) = winners (set rs)"
  unfolding apply_all_foldl by (rule rt.deliver_from_empty)

end
