(* ===== verification/Record_Store.thy ===== *)
theory Record_Store
  imports Records
begin

text \<open>
  \<open>RecordStore\<close> (\<open>swarm/records.rs\<close>): the operations on the rows, the numbers held from each
  origin (\<open>record_vv\<close>), the saved clock and horizon (\<open>meta\<close>), the running clock and the
  subscribers. \<open>serde_json\<close>'s printing of a value is the argument \<open>print\<close>, the budget cost of
  a row is the argument \<open>cost\<close>. Each operation is its transaction: an error leaves the store
  as it was.
\<close>

section \<open>State\<close>

text \<open>A subscriber's channel: whether the receiver still exists, and what was sent to it.\<close>

record subscriber =
  sub_open :: bool
  sub_queue :: "record_change list"

record rec_store =
  st_records :: table
  st_vv :: "(string \<times> i64) list"
  st_hlc :: "string option"
  st_horizon :: "string option"
  st_clock :: hlc_clock
  st_subscribers :: "subscriber list"

text \<open>A record as the readers see it; the maps are association lists.\<close>

record rec_field =
  f_value :: json
  f_clock :: hlc
  f_origin :: string
  f_rank :: u64

record tombstone =
  t_clock :: hlc
  t_origin :: string
  t_rank :: u64

record full_record =
  rec_class :: string
  rec_key :: string
  rec_fields :: "(string \<times> rec_field) list"
  rec_sets :: "(string \<times> (string \<times> json) list) list"
  rec_tombstone :: "tombstone option"
  rec_clock :: hlc

definition is_live :: "full_record \<Rightarrow> bool" where
  "is_live r \<longleftrightarrow> rec_fields r \<noteq> [] \<or> rec_sets r \<noteq> []"

definition record_value :: "full_record \<Rightarrow> string \<Rightarrow> json option" where
  "record_value r field = map_option f_value (map_of (rec_fields r) field)"

definition max_value_bytes :: nat where "max_value_bytes = 192 * 1024"
definition max_key_bytes :: nat where "max_key_bytes = 256"
definition max_class_bytes :: nat where "max_class_bytes = 64"
definition set_separator :: char where "set_separator = CHR 0x1F"
definition max_i64 :: int where "max_i64 = 2 ^ 63 - 1"

section \<open>Opening, the clock and the subscribers\<close>

definition open_store ::
  "table \<Rightarrow> (string \<times> i64) list \<Rightarrow> string option \<Rightarrow> string option \<Rightarrow> rec_store" where
  "open_store records vv hlc hrzn =
     (let newest = (case map cclock records of [] \<Rightarrow> None | c # cs \<Rightarrow> Some (foldl max c cs));
          saved = (case hlc of None \<Rightarrow> hlc_default
                   | Some s \<Rightarrow> (case parse s of Inr h \<Rightarrow> h | Inl _ \<Rightarrow> hlc_default));
          last = max saved (case newest of None \<Rightarrow> hlc_default | Some n \<Rightarrow> from_packed n)
      in \<lparr>st_records = records, st_vv = vv, st_hlc = hlc, st_horizon = hrzn,
          st_clock = clock_new last, st_subscribers = []\<rparr>)"

definition store_tick :: "rec_store \<Rightarrow> i64 \<Rightarrow> rec_store \<times> hlc" where
  "store_tick st now = (let (c, h) = tick (st_clock st) now in (st\<lparr>st_clock := c\<rparr>, h))"

definition subscribe :: "rec_store \<Rightarrow> rec_store" where
  "subscribe st = st\<lparr>st_subscribers := st_subscribers st @ [\<lparr>sub_open = True, sub_queue = []\<rparr>]\<rparr>"

definition notify :: "rec_store \<Rightarrow> record_change list \<Rightarrow> rec_store" where
  "notify st changes =
     (if changes = [] then st
      else st\<lparr>st_subscribers :=
        map (\<lambda>s. s\<lparr>sub_queue := sub_queue s @ changes\<rparr>) (filter sub_open (st_subscribers st))\<rparr>)"

section \<open>Checks\<close>

definition class_byte :: "char \<Rightarrow> bool" where
  "class_byte c = (let n = of_char c :: nat
     in (97 \<le> n \<and> n \<le> 122) \<or> (48 \<le> n \<and> n \<le> 57) \<or> c \<in> set ''._-'')"

definition check_name :: "string \<Rightarrow> string \<Rightarrow> unit rresult" where
  "check_name cls key =
     (let class_valid = cls \<noteq> [] \<and> length cls \<le> max_class_bytes \<and> list_all class_byte cls
      in if \<not> class_valid \<or> key = [] \<or> length key > max_key_bytes
            \<or> list_ex is_control (utf8_chars key)
         then Err ''The record class or key is invalid.'' else Ok ())"

definition check_field :: "string \<Rightarrow> unit rresult" where
  "check_field field =
     (if field = [] \<or> length field > max_key_bytes div 2 \<or> set_separator \<in> set field
         \<or> list_ex is_control (utf8_chars field)
      then Err ''The record field is invalid.'' else Ok ())"

section \<open>Numbers and the saved clock\<close>

definition vv_held :: "(string \<times> i64) list \<Rightarrow> string \<Rightarrow> i64" where
  "vv_held vv origin = (case map_of vv origin of None \<Rightarrow> 0 | Some s \<Rightarrow> s)"

text \<open>\<open>MAX(seq, excluded.seq)\<close> on a conflict, the inserted number otherwise.\<close>

definition vv_raise :: "string \<Rightarrow> i64 \<Rightarrow> (string \<times> i64) list \<Rightarrow> (string \<times> i64) list" where
  "vv_raise origin seq vv =
     AList.update origin (case map_of vv origin of None \<Rightarrow> seq | Some s \<Rightarrow> max s seq) vv"

text \<open>Past the largest integer SQLite adds in floating point, which no longer reads as one.\<close>

definition next_seq :: "(string \<times> i64) list \<Rightarrow> string \<Rightarrow> ((string \<times> i64) list \<times> u64) rresult" where
  "next_seq vv origin =
     (let seq = vv_held vv origin + 1
      in if seq > max_i64 then Err ''The swarm store failed: Invalid column type Real''
         else Ok (AList.update origin seq vv, word_of_int seq))"

definition save_clock :: "rec_store \<Rightarrow> rec_store" where
  "save_clock st = st\<lparr>st_hlc := Some (display (clock_last (st_clock st)))\<rparr>"

section \<open>Local writes\<close>

text \<open>A change to an element of a set names the set.\<close>

definition name_set :: "record_change \<Rightarrow> record_change" where
  "name_set change = (case split_once set_separator (ch_field change) of
       Some (s, _) \<Rightarrow> change\<lparr>ch_field := s\<rparr> | None \<Rightarrow> change)"

definition commit_local :: "rec_store \<Rightarrow> record_row \<Rightarrow> rec_store \<times> record_change option" where
  "commit_local st row =
     (let (t, change) = apply_row (st_records st) row True;
          st1 = save_clock (st\<lparr>st_records := t\<rparr>);
          change = map_option name_set change
      in (notify st1 (case change of None \<Rightarrow> [] | Some c \<Rightarrow> [c]), change))"

definition outranks :: "record_row option \<Rightarrow> u64 \<Rightarrow> bool" where
  "outranks existing rank = (case existing of None \<Rightarrow> False | Some e \<Rightarrow> rrank e > rank)"

text \<open>The row a local write commits and the clock reading it carries.\<close>

definition local_row ::
  "string \<Rightarrow> string \<Rightarrow> string \<Rightarrow> string \<Rightarrow> json option \<Rightarrow> u64 \<Rightarrow> hlc \<Rightarrow> u64 \<Rightarrow> record_row" where
  "local_row origin cls key field val rank reading seq =
     \<lparr>rclass = cls, rkey = key, rfield = field, rvalue = val, rclock = reading, rorigin = origin,
      rseq = seq, rrank = rank, rdeleted = (val = None)\<rparr>"

definition reading_of :: "hlc_clock \<Rightarrow> i64 \<Rightarrow> hlc option \<Rightarrow> hlc_clock \<times> hlc" where
  "reading_of c now at = (case at of Some a \<Rightarrow> (fst (observe c a now), a) | None \<Rightarrow> tick c now)"

definition write_local ::
  "(json \<Rightarrow> string) \<Rightarrow> rec_store \<Rightarrow> string \<Rightarrow> i64 \<Rightarrow> string \<Rightarrow> string \<Rightarrow> string \<Rightarrow> json option
     \<Rightarrow> u64 \<Rightarrow> hlc option \<Rightarrow> (rec_store \<times> record_change option) rresult" where
  "write_local print st origin now cls key field val rank at =
     result_bind (check_name cls key) (\<lambda>_.
     if (case val of None \<Rightarrow> False | Some v \<Rightarrow> length (print v) > max_value_bytes)
     then Err ''The record value is too large.''
     else
       (let current = current_row (st_records st) cls key field;
            tomb = (if field = [] then None else current_row (st_records st) cls key [])
        in if outranks current rank \<or> outranks tomb rank then Ok (st, None)
           else
             (let unchanged =
                    (if field = [] then \<not> has_live_fields (st_records st) cls key
                     else (case current of
                             Some c \<Rightarrow> rrank c = rank \<and> rvalue c = val
                           | None \<Rightarrow> val = None))
              in if unchanged then Ok (st, None)
                 else result_bind (next_seq (st_vv st) origin) (\<lambda>(vv, seq).
                   let cr = reading_of (st_clock st) now at
                   in Ok (commit_local (st\<lparr>st_vv := vv, st_clock := fst cr\<rparr>)
                        (local_row origin cls key field val rank (snd cr) seq))))))"

definition put ::
  "(json \<Rightarrow> string) \<Rightarrow> rec_store \<Rightarrow> string \<Rightarrow> i64 \<Rightarrow> string \<Rightarrow> string \<Rightarrow> string \<Rightarrow> json \<Rightarrow> u64
     \<Rightarrow> (rec_store \<times> record_change option) rresult" where
  "put print st origin now cls key field val rank =
     result_bind (check_field field) (\<lambda>_.
       write_local print st origin now cls key field (Some val) rank None)"

definition put_at ::
  "(json \<Rightarrow> string) \<Rightarrow> rec_store \<Rightarrow> string \<Rightarrow> i64 \<Rightarrow> string \<Rightarrow> string \<Rightarrow> string \<Rightarrow> json \<Rightarrow> u64
     \<Rightarrow> hlc \<Rightarrow> (rec_store \<times> record_change option) rresult" where
  "put_at print st origin now cls key field val rank clk =
     result_bind (check_field field) (\<lambda>_.
       write_local print st origin now cls key field (Some val) rank (Some clk))"

definition remove_field ::
  "(json \<Rightarrow> string) \<Rightarrow> rec_store \<Rightarrow> string \<Rightarrow> i64 \<Rightarrow> string \<Rightarrow> string \<Rightarrow> string \<Rightarrow> u64
     \<Rightarrow> (rec_store \<times> record_change option) rresult" where
  "remove_field print st origin now cls key field rank =
     result_bind (check_field field) (\<lambda>_.
       write_local print st origin now cls key field None rank None)"

definition delete_record ::
  "(json \<Rightarrow> string) \<Rightarrow> rec_store \<Rightarrow> string \<Rightarrow> i64 \<Rightarrow> string \<Rightarrow> string \<Rightarrow> u64 \<Rightarrow> hlc option
     \<Rightarrow> (rec_store \<times> record_change option) rresult" where
  "delete_record print st origin now cls key rank clk =
     write_local print st origin now cls key [] None rank clk"

section \<open>Reading records\<close>

definition assemble_row :: "full_record \<Rightarrow> record_row \<Rightarrow> full_record" where
  "assemble_row rcd row =
     (let rcd = rcd\<lparr>rec_clock := max (rec_clock rcd) (rclock row)\<rparr>
      in if rfield row = []
         then rcd\<lparr>rec_tombstone :=
                Some \<lparr>t_clock = rclock row, t_origin = rorigin row, t_rank = rrank row\<rparr>\<rparr>
         else if rdeleted row then rcd
         else
           (let val = (case rvalue row of None \<Rightarrow> JNull | Some v \<Rightarrow> v)
            in case split_once set_separator (rfield row) of
                 Some (s, _) \<Rightarrow>
                   (case as_str (jindex val ''element'') of
                      Some element \<Rightarrow>
                        rcd\<lparr>rec_sets := AList.update s
                              (AList.update element (jindex val ''value'')
                                 (case map_of (rec_sets rcd) s of None \<Rightarrow> [] | Some m \<Rightarrow> m))
                              (rec_sets rcd)\<rparr>
                    | None \<Rightarrow> rcd)
               | None \<Rightarrow>
                   rcd\<lparr>rec_fields := AList.update (rfield row)
                         \<lparr>f_value = val, f_clock = rclock row, f_origin = rorigin row,
                          f_rank = rrank row\<rparr> (rec_fields rcd)\<rparr>))"

definition assemble :: "string \<Rightarrow> string \<Rightarrow> record_row list \<Rightarrow> full_record option" where
  "assemble cls key rows =
     (if rows = [] then None
      else Some (foldl assemble_row
        \<lparr>rec_class = cls, rec_key = key, rec_fields = [], rec_sets = [],
         rec_tombstone = None, rec_clock = hlc_default\<rparr> rows))"

definition get_with :: "table \<Rightarrow> string \<Rightarrow> string \<Rightarrow> full_record option" where
  "get_with t cls key =
     assemble cls key (map read_row (filter (\<lambda>c. cclass c = cls \<and> ckey c = key) t))"

text \<open>\<open>scan\<close>: the rows of the first \<open>limit\<close> keys after \<open>after\<close>, grouped by key.\<close>

fun scan_groups :: "string \<Rightarrow> record_row list \<Rightarrow> record_row list \<Rightarrow> full_record option list" where
  "scan_groups cls cur [] = (case cur of [] \<Rightarrow> [] | f # _ \<Rightarrow> [assemble cls (rkey f) cur])"
| "scan_groups cls cur (row # rows) =
     (case cur of
        f # _ \<Rightarrow> if rkey f \<noteq> rkey row then assemble cls (rkey f) cur # scan_groups cls [row] rows
                 else scan_groups cls (cur @ [row]) rows
      | [] \<Rightarrow> scan_groups cls [row] rows)"

definition scan :: "table \<Rightarrow> string \<Rightarrow> string option \<Rightarrow> nat \<Rightarrow> full_record list" where
  "scan t cls after limit =
     (let a = (case after of None \<Rightarrow> [] | Some a \<Rightarrow> a);
          keys = take limit (sort (remdups (map ckey (filter (\<lambda>c. cclass c = cls \<and> ckey c > a) t))));
          rows = map read_row (sort_key ckey (filter (\<lambda>c. cclass c = cls \<and> ckey c \<in> set keys) t))
      in List.map_filter id (scan_groups cls [] rows))"

section \<open>Sets\<close>

definition set_add ::
  "rec_store \<Rightarrow> string \<Rightarrow> i64 \<Rightarrow> string \<Rightarrow> string \<Rightarrow> string \<Rightarrow> string \<Rightarrow> json
     \<Rightarrow> (rec_store \<times> record_change option) rresult" where
  "set_add st origin now cls key s element val =
     result_bind (check_field s) (\<lambda>_.
     if element = [] \<or> length element > max_key_bytes then Err ''The set element is invalid.''
     else if Option.bind (get_with (st_records st) cls key)
               (\<lambda>r. Option.bind (map_of (rec_sets r) s) (\<lambda>m. map_of m element)) = Some val
     then Ok (st, None)
     else result_bind (next_seq (st_vv st) origin) (\<lambda>(vv, seq).
       let (clk, reading) = tick (st_clock st) now;
           row = \<lparr>rclass = cls, rkey = key,
                  rfield = s @ [set_separator] @ origin @ ''.'' @ dec_str (unat seq),
                  rvalue = Some (JObject [(''element'', JString element), (''value'', val)]),
                  rclock = reading, rorigin = origin, rseq = seq, rrank = 0, rdeleted = False\<rparr>
       in Ok (commit_local (st\<lparr>st_vv := vv, st_clock := clk\<rparr>) row)))"

text \<open>The live tags of the element.\<close>

definition set_tags :: "table \<Rightarrow> string \<Rightarrow> string \<Rightarrow> string \<Rightarrow> string \<Rightarrow> string list" where
  "set_tags t cls key s element =
     map cfield (filter (\<lambda>c. cclass c = cls \<and> ckey c = key \<and> \<not> cdeleted c
       \<and> starts_with (cfield c) (s @ [set_separator])
       \<and> (case cvalue c of None \<Rightarrow> False | Some v \<Rightarrow> jindex v ''element'' = JString element)) t)"

text \<open>One deletion per tag, in one transaction. When a number is missing the transaction is dropped; the code then keeps the
  clock it has ticked in memory, which the error value here does not carry.\<close>

fun remove_tags ::
  "rec_store \<Rightarrow> string \<Rightarrow> i64 \<Rightarrow> string \<Rightarrow> string \<Rightarrow> string list \<Rightarrow> record_change option
     \<Rightarrow> (rec_store \<times> record_change option) rresult" where
  "remove_tags st origin now cls key [] change = Ok (st, change)"
| "remove_tags st origin now cls key (field # tags) change =
     result_bind (next_seq (st_vv st) origin) (\<lambda>(vv, seq).
       let (clk, reading) = tick (st_clock st) now;
           row = \<lparr>rclass = cls, rkey = key, rfield = field, rvalue = None, rclock = reading,
                  rorigin = origin, rseq = seq, rrank = 0, rdeleted = True\<rparr>;
           (t, c) = apply_row (st_records st) row True
       in remove_tags (st\<lparr>st_records := t, st_vv := vv, st_clock := clk\<rparr>) origin now cls key tags
            (case c of Some c \<Rightarrow> Some c | None \<Rightarrow> change))"

definition set_remove ::
  "rec_store \<Rightarrow> string \<Rightarrow> i64 \<Rightarrow> string \<Rightarrow> string \<Rightarrow> string \<Rightarrow> string
     \<Rightarrow> (rec_store \<times> record_change option) rresult" where
  "set_remove st origin now cls key s element =
     result_bind (check_field s) (\<lambda>_.
       let tags = set_tags (st_records st) cls key s element
       in if tags = [] then Ok (st, None)
          else result_bind (remove_tags st origin now cls key tags None) (\<lambda>(st1, change).
            let change = map_option (\<lambda>c. c\<lparr>ch_field := s\<rparr>) change
            in Ok (notify (save_clock st1) (case change of None \<Rightarrow> [] | Some c \<Rightarrow> [c]), change)))"

section \<open>Merging\<close>

definition audit_class :: string where "audit_class = ''audit''"

definition written_by :: "record_row \<Rightarrow> string \<Rightarrow> bool" where
  "written_by row runtime_id \<longleftrightarrow>
     rfield row = ''entry'' \<and> \<not> rdeleted row
     \<and> (case strip_prefix runtime_id (rkey row) of
          None \<Rightarrow> False | Some rest \<Rightarrow> starts_with rest '':'')"

definition get_horizon :: "rec_store \<Rightarrow> hlc option" where
  "get_horizon st = (case st_horizon st of None \<Rightarrow> None
     | Some s \<Rightarrow> (case parse s of Inr h \<Rightarrow> Some h | Inl _ \<Rightarrow> None))"

text \<open>A field set to JSON null crosses the wire without its value.\<close>

definition restore_null :: "record_row \<Rightarrow> record_row" where
  "restore_null row =
     (if \<not> rdeleted row \<and> rvalue row = None then row\<lparr>rvalue := Some JNull\<rparr> else row)"

definition refused :: "(json \<Rightarrow> string) \<Rightarrow> record_row \<Rightarrow> bool" where
  "refused print row \<longleftrightarrow>
     (case check_name (rclass row) (rkey row) of Inl _ \<Rightarrow> True | Inr _ \<Rightarrow> False)
     \<or> length (rfield row) > max_key_bytes
     \<or> rorigin row = [] \<or> length (rorigin row) > max_class_bytes * 2
     \<or> rseq row = 0
     \<or> rdeleted row \<noteq> (rvalue row = None)
     \<or> (case rvalue row of None \<Rightarrow> False | Some v \<Rightarrow> length (print v) > max_value_bytes)"

definition audit_refused :: "table \<Rightarrow> record_row \<Rightarrow> bool" where
  "audit_refused t row \<longleftrightarrow>
     rclass row = audit_class
     \<and> (\<not> written_by row (rorigin row)
        \<or> current_row t (rclass row) (rkey row) (rfield row) \<noteq> None)"

definition behind_horizon :: "hlc option \<Rightarrow> table \<Rightarrow> record_row \<Rightarrow> bool" where
  "behind_horizon hrzn t row \<longleftrightarrow>
     (case hrzn of None \<Rightarrow> False | Some h \<Rightarrow> rclock row \<le> h)
     \<and> current_row t (rclass row) (rkey row) (rfield row) = None"

text \<open>One turn of the loop of \<open>merge\<close>: the store, the changes so far and the largest skew.\<close>

definition merge_row ::
  "(json \<Rightarrow> string) \<Rightarrow> i64 \<Rightarrow> hlc option \<Rightarrow> rec_store \<times> record_change list \<times> u64 \<Rightarrow> record_row
     \<Rightarrow> rec_store \<times> record_change list \<times> u64" where
  "merge_row print now hrzn acc row0 =
     (let (st, changes, skew) = acc; row = restore_null row0
      in if refused print row then acc
         else if audit_refused (st_records st) row then acc
         else
           (let (clk, ahead) = observe (st_clock st) (rclock row) now;
                skew = max skew ahead;
                st = st\<lparr>st_clock := clk,
                        st_vv := vv_raise (rorigin row) (sint (rseq row)) (st_vv st)\<rparr>
            in if behind_horizon hrzn (st_records st) row then (st, changes, skew)
               else
                 (let (t, change) = apply_row (st_records st) row False;
                      st = st\<lparr>st_records := t\<rparr>
                  in case change of
                       None \<Rightarrow> (st, changes, skew)
                     | Some c \<Rightarrow>
                         (let c = name_set c
                          in (st, if c \<in> set changes then changes else changes @ [c], skew)))))"

definition merge_rows ::
  "(json \<Rightarrow> string) \<Rightarrow> i64 \<Rightarrow> rec_store \<Rightarrow> record_row list
     \<Rightarrow> rec_store \<times> record_change list \<times> u64" where
  "merge_rows print now st rows = foldl (merge_row print now (get_horizon st)) (st, [], 0) rows"

definition merge_batch ::
  "(json \<Rightarrow> string) \<Rightarrow> rec_store \<Rightarrow> i64 \<Rightarrow> record_row list \<Rightarrow> rec_store \<times> record_change list" where
  "merge_batch print st now rows =
     (if rows = [] then (st, [])
      else (let (st, changes, skew) = merge_rows print now st rows
            in (notify (save_clock st) changes, changes)))"

section \<open>Exchange\<close>

definition version_vector :: "rec_store \<Rightarrow> (string \<times> u64) list" where
  "version_vector st = sort_key fst (map (\<lambda>(origin, seq). (origin, word_of_int seq)) (st_vv st))"

fun delta_take ::
  "(record_row \<Rightarrow> bool) \<Rightarrow> (record_row \<Rightarrow> nat) \<Rightarrow> record_row list \<Rightarrow> nat \<times> record_row list
     \<Rightarrow> bool \<times> nat \<times> record_row list" where
  "delta_take allow cost [] (budget, rows) = (False, budget, rows)"
| "delta_take allow cost (row # rest) (budget, rows) =
     (if \<not> allow row then delta_take allow cost rest (budget, rows)
      else if cost row > budget then (True, budget, rows)
      else delta_take allow cost rest (budget - cost row, rows @ [row]))"

definition delta_found :: "table \<Rightarrow> string \<Rightarrow> u64 \<Rightarrow> record_row list" where
  "delta_found t origin known =
     map read_row (sort_key cseq (filter (\<lambda>c. corigin c = origin \<and> cseq c > sint known) t))"

fun delta_origins ::
  "(record_row \<Rightarrow> bool) \<Rightarrow> (record_row \<Rightarrow> nat) \<Rightarrow> table \<Rightarrow> (string \<times> u64) list
     \<Rightarrow> (string \<times> u64) list \<Rightarrow> nat \<times> record_row list \<Rightarrow> nat \<times> record_row list \<times> bool" where
  "delta_origins allow cost t peer [] (budget, rows) = (budget, rows, False)"
| "delta_origins allow cost t peer ((origin, held) # vv) (budget, rows) =
     (let known = (case map_of peer origin of None \<Rightarrow> 0 | Some k \<Rightarrow> k)
      in if held \<le> known then delta_origins allow cost t peer vv (budget, rows)
         else (case delta_take allow cost (delta_found t origin known) (budget, rows) of
                 (True, budget, rows) \<Rightarrow> (budget, rows, True)
               | (False, budget, rows) \<Rightarrow> delta_origins allow cost t peer vv (budget, rows)))"

definition delta_where ::
  "(record_row \<Rightarrow> nat) \<Rightarrow> rec_store \<Rightarrow> (string \<times> u64) list \<Rightarrow> nat \<Rightarrow> (record_row \<Rightarrow> bool)
     \<Rightarrow> nat \<times> record_row list \<times> bool" where
  "delta_where cost st peer budget allow =
     delta_origins allow cost (st_records st) peer (version_vector st) (budget, [])"

text \<open>\<open>raise\<close> and \<open>forget_numbers\<close>.\<close>

definition raise_floor :: "rec_store \<Rightarrow> string \<Rightarrow> (string \<times> u64) list \<Rightarrow> rec_store" where
  "raise_floor st own floor =
     st\<lparr>st_vv := foldl (\<lambda>vv (origin, seq).
         if origin = own \<or> origin = [] then vv
         else vv_raise origin (min (uint seq) max_i64) vv) (st_vv st) floor\<rparr>"

definition forget_numbers :: "rec_store \<Rightarrow> string \<Rightarrow> rec_store" where
  "forget_numbers st own = st\<lparr>st_vv := filter (\<lambda>(origin, _). origin = own) (st_vv st)\<rparr>"

section \<open>Dropping rows\<close>

definition delete_slot :: "record_row \<Rightarrow> table \<Rightarrow> table" where
  "delete_slot row t =
     filter (\<lambda>c. \<not> (cclass c = rclass row \<and> ckey c = rkey row \<and> cfield c = rfield row)) t"

definition drop_where :: "rec_store \<Rightarrow> string \<Rightarrow> (record_row \<Rightarrow> bool) \<Rightarrow> rec_store \<times> nat" where
  "drop_where st own keep =
     (let rows = filter (\<lambda>r. \<not> keep r) (map read_row (filter (\<lambda>c. corigin c \<noteq> own) (st_records st)));
          (t, dropped) = foldl (\<lambda>(t, n) row. (delete_slot row t, n + (length t - length (delete_slot row t))))
                           (st_records st, 0) rows
      in (st\<lparr>st_records := t\<rparr>, dropped))"

definition collect_row ::
  "(string \<Rightarrow> u64 \<Rightarrow> bool) \<Rightarrow> table \<times> hlc \<times> nat \<Rightarrow> record_row \<Rightarrow> table \<times> hlc \<times> nat" where
  "collect_row covered acc row =
     (let (t, newest, dropped) = acc
      in if \<not> covered (rorigin row) (rseq row) then acc
         else (delete_slot row t, max newest (rclock row), Suc dropped))"

definition collect_tombs ::
  "rec_store \<Rightarrow> hlc \<Rightarrow> (string \<Rightarrow> u64 \<Rightarrow> bool) \<Rightarrow> rec_store \<times> nat" where
  "collect_tombs st before covered =
     (let candidates = map read_row
            (filter (\<lambda>c. cdeleted c \<and> cclock c < packed before) (st_records st));
          newest = (case get_horizon st of None \<Rightarrow> hlc_default | Some h \<Rightarrow> h);
          (t, newest, dropped) = foldl (collect_row covered) (st_records st, newest, 0) candidates;
          st = st\<lparr>st_records := t\<rparr>
      in (if dropped > 0 then st\<lparr>st_horizon := Some (display newest)\<rparr> else st, dropped))"

definition forget :: "rec_store \<Rightarrow> string \<Rightarrow> u64 \<Rightarrow> rec_store" where
  "forget st own delivered =
     st\<lparr>st_records := filter (\<lambda>c. corigin c = own \<and> cseq c > sint delivered) (st_records st),
        st_vv := filter (\<lambda>(origin, _). origin = own) (st_vv st),
        st_horizon := None\<rparr>"

text \<open>\<open>counts\<close>: per class, the rows and the deleted ones.\<close>

definition counts :: "rec_store \<Rightarrow> (string \<times> nat \<times> nat) list" where
  "counts st = map (\<lambda>cls. (cls, length (filter (\<lambda>c. cclass c = cls) (st_records st)),
        length (filter (\<lambda>c. cclass c = cls \<and> cdeleted c) (st_records st))))
     (sort (remdups (map cclass (st_records st))))"


section \<open>The store invariant\<close>

text \<open>No field write that a held tombstone beats, values and deletions agree, and the clock is
  at or past every held write.\<close>

definition no_buried :: "record_row set \<Rightarrow> bool" where
  "no_buried R \<longleftrightarrow> (\<forall>d\<in>R. \<forall>x\<in>R. \<not> buries d x)"

definition value_ok :: "record_row \<Rightarrow> bool" where
  "value_ok r \<longleftrightarrow> (rdeleted r \<longleftrightarrow> rvalue r = None)"

definition store_ok :: "rec_store \<Rightarrow> bool" where
  "store_ok st \<longleftrightarrow> table_ok (st_records st) \<and> no_buried (rows_of (st_records st))
     \<and> (\<forall>r\<in>rows_of (st_records st). value_ok r \<and> rclock r \<le> clock_last (st_clock st))"

lemma store_okD:
  assumes "store_ok st"
  shows "table_ok (st_records st)" "no_buried (rows_of (st_records st))"
    "r \<in> rows_of (st_records st) \<Longrightarrow> value_ok r"
    "r \<in> rows_of (st_records st) \<Longrightarrow> rclock r \<le> clock_last (st_clock st)"
  using assms by (auto simp: store_ok_def)

lemma no_buried_lww: "no_buried R \<Longrightarrow> no_buried (lww R r)"
  by (auto simp: no_buried_def lww_def loses_def buries_def)

lemma lww_sub: "lww R r \<subseteq> insert r R"
  by (auto simp: lww_def)

text \<open>Applying a row that the clock has reached keeps the invariant, whatever else changes.\<close>

lemma store_ok_apply:
  assumes "store_ok st" "in_range r" "value_ok r"
    and "clock_last (st_clock st) \<le> clock_last (st_clock st')" "rclock r \<le> clock_last (st_clock st')"
    and "st_records st' = fst (apply_row (st_records st) r l)"
  shows "store_ok st'"
proof -
  have t: "table_ok (st_records st')" "rows_of (st_records st') = lww (rows_of (st_records st)) r"
    using apply_row_refines [OF store_okD(1) [OF assms(1)] assms(2)] assms(6) by simp_all
  moreover have "value_ok x \<and> rclock x \<le> clock_last (st_clock st')" if "x \<in> rows_of (st_records st')" for x
    using that t(2) lww_sub [of "rows_of (st_records st)" r] store_okD(3,4) [OF assms(1), of x] assms(3-5)
    by (auto intro: order_trans)
  ultimately show ?thesis
    using no_buried_lww [OF store_okD(2) [OF assms(1)]] by (simp add: store_ok_def)
qed

lemma store_ok_weaken:
  assumes "store_ok st" "set (st_records st') \<subseteq> set (st_records st)"
    and "clock_last (st_clock st) \<le> clock_last (st_clock st')"
  shows "store_ok st'"
proof -
  have "rows_of (st_records st') \<subseteq> rows_of (st_records st)"
    using assms(2) by (auto simp: rows_of_def)
  moreover have "table_ok (st_records st')"
    using store_okD(1) [OF assms(1)] assms(2) unfolding table_ok_def by blast
  ultimately show ?thesis
    using assms(1,3) unfolding store_ok_def no_buried_def by (meson order_trans subsetD)
qed

lemma notify_simps [simp]:
  "st_records (notify st cs) = st_records st" "st_clock (notify st cs) = st_clock st"
  "st_vv (notify st cs) = st_vv st" "st_horizon (notify st cs) = st_horizon st"
  "st_hlc (notify st cs) = st_hlc st"
  by (simp_all add: notify_def)

lemma save_clock_simps [simp]:
  "st_records (save_clock st) = st_records st" "st_clock (save_clock st) = st_clock st"
  "st_vv (save_clock st) = st_vv st" "st_horizon (save_clock st) = st_horizon st"
  "st_hlc (save_clock st) = Some (display (clock_last (st_clock st)))"
  by (simp_all add: save_clock_def)

lemma commit_local_simps:
  "st_records (fst (commit_local st r)) = fst (apply_row (st_records st) r True)"
  "st_clock (fst (commit_local st r)) = st_clock st" "st_vv (fst (commit_local st r)) = st_vv st"
  "st_hlc (fst (commit_local st r)) = Some (display (clock_last (st_clock st)))"
  "st_horizon (fst (commit_local st r)) = st_horizon st"
  "snd (commit_local st r) = map_option name_set (snd (apply_row (st_records st) r True))"
  by (simp_all add: commit_local_def Let_def split: prod.splits)

lemma outranks_None [simp]: "\<not> outranks None rank"
  by (simp add: outranks_def)

text \<open>What a local write does: it is refused, changes nothing, or commits one row.\<close>

lemma write_local_cases:
  assumes "write_local print st origin now cls key field val rank at = Ok (st', ch)"
  obtains (kept) "st' = st" "ch = None"
      "outranks (current_row (st_records st) cls key field) rank
        \<or> field \<noteq> [] \<and> outranks (current_row (st_records st) cls key []) rank
        \<or> field = [] \<and> \<not> has_live_fields (st_records st) cls key
        \<or> field \<noteq> [] \<and> (case current_row (st_records st) cls key field of
             Some c \<Rightarrow> rrank c = rank \<and> rvalue c = val | None \<Rightarrow> val = None)"
  | (wrote) vv seq where "next_seq (st_vv st) origin = Ok (vv, seq)"
      "\<not> outranks (current_row (st_records st) cls key field) rank"
      "field \<noteq> [] \<Longrightarrow> \<not> outranks (current_row (st_records st) cls key []) rank"
      "(st', ch) = commit_local (st\<lparr>st_vv := vv, st_clock := fst (reading_of (st_clock st) now at)\<rparr>)
         (local_row origin cls key field val rank (snd (reading_of (st_clock st) now at)) seq)"
  using assms kept wrote unfolding write_local_def Let_def
  by (auto simp: result_bind_Inr_iff split: if_splits)

end
