(* ===== verification/Record_Properties.thy ===== *)
theory Record_Properties
  imports Record_Store
begin

text \<open>
  What the replicated record store guarantees: its invariant under every operation, convergence
  of merging, reading one's own writes, the audit log's append-only rule, observed-remove sets,
  complete deltas, and collection without resurrection.
\<close>

section \<open>Every operation keeps the invariant\<close>

lemma reading_of_clock:
  assumes "at = None \<Longrightarrow> clock_last c \<noteq> hlc_top"
  shows "clock_last c \<le> clock_last (fst (reading_of c now at))"
    "snd (reading_of c now at) \<le> clock_last (fst (reading_of c now at))"
  using assms
  by (auto simp: reading_of_def hc.observe_reading hc.tick_reading hc.tick_later less_imp_le
      split: option.splits)

lemma local_row_simps [simp]:
  "rclass (local_row origin cls key field val rank h seq) = cls"
  "rkey (local_row origin cls key field val rank h seq) = key"
  "rfield (local_row origin cls key field val rank h seq) = field"
  "rvalue (local_row origin cls key field val rank h seq) = val"
  "rclock (local_row origin cls key field val rank h seq) = h"
  "rorigin (local_row origin cls key field val rank h seq) = origin"
  "rseq (local_row origin cls key field val rank h seq) = seq"
  "rrank (local_row origin cls key field val rank h seq) = rank"
  "rdeleted (local_row origin cls key field val rank h seq) \<longleftrightarrow> val = None"
  by (simp_all add: local_row_def)

lemma value_ok_local_row [simp]: "value_ok (local_row origin cls key field val rank h seq)"
  by (simp add: value_ok_def)

text \<open>A write's reading is usable: the clock has room and the reading fits the packed column.\<close>

definition reading_fits :: "hlc_clock \<Rightarrow> i64 \<Rightarrow> hlc option \<Rightarrow> bool" where
  "reading_fits c now at \<longleftrightarrow> clock_last c \<noteq> hlc_top \<and> packs (snd (reading_of c now at))"

lemma commit_local_ok:
  assumes "store_ok st" "in_range r" "value_ok r" "rclock r \<le> clock_last c"
    and "clock_last (st_clock st) \<le> clock_last c"
  shows "store_ok (fst (commit_local (st\<lparr>st_vv := vv, st_clock := c\<rparr>) r))"
  by (rule store_ok_apply [OF assms(1-3), where l = True]) (use assms in \<open>simp_all add: commit_local_simps\<close>)

lemma write_local_ok:
  assumes "store_ok st" "write_local print st origin now cls key field val rank at = Ok (st', ch)"
    and "rank < 2 ^ 63" "reading_fits (st_clock st) now at"
  shows "store_ok st'"
  using assms(2)
proof (cases rule: write_local_cases)
  case kept
  with assms(1) show ?thesis by simp
next
  case (wrote vv seq)
  then show ?thesis
    using reading_of_clock [of at "st_clock st" now] assms
    by (auto simp: reading_fits_def in_range_def dest!: arg_cong [of _ _ fst] intro!: commit_local_ok)
qed

lemma set_add_cases:
  assumes "set_add st origin now cls key s element val = Ok (st', ch)"
  obtains (kept) "st' = st" "ch = None"
  | (wrote) vv seq where "next_seq (st_vv st) origin = Ok (vv, seq)"
      "(st', ch) = commit_local (st\<lparr>st_vv := vv, st_clock := fst (reading_of (st_clock st) now None)\<rparr>)
         (local_row origin cls key (s @ [set_separator] @ origin @ ''.'' @ dec_str (unat seq))
            (Some (JObject [(''element'', JString element), (''value'', val)])) 0
            (snd (reading_of (st_clock st) now None)) seq)"
proof -
  obtain clk h where t: "tick (st_clock st) now = (clk, h)" by (cases "tick (st_clock st) now")
  show thesis
    using assms kept wrote t unfolding set_add_def Let_def local_row_def reading_of_def
    by (auto simp: result_bind_Inr_iff split: if_splits)
qed

lemma set_add_ok:
  assumes "store_ok st" "set_add st origin now cls key s element val = Ok (st', ch)"
    and "reading_fits (st_clock st) now None"
  shows "store_ok st'"
  using assms(2)
proof (cases rule: set_add_cases)
  case kept
  with assms(1) show ?thesis by simp
next
  case (wrote vv seq)
  then show ?thesis
    using reading_of_clock [of None "st_clock st" now] assms
    by (auto simp: reading_fits_def in_range_def dest!: arg_cong [of _ _ fst] intro!: commit_local_ok)
qed

text \<open>The clock after removing a list of tags, and the step for one tag.\<close>

lemma remove_tags_Cons:
  "remove_tags st origin now cls key (f # fs) ch =
     result_bind (next_seq (st_vv st) origin) (\<lambda>(vv, seq).
       let cr = reading_of (st_clock st) now None;
           res = apply_row (st_records st) (local_row origin cls key f None 0 (snd cr) seq) True
       in remove_tags (st\<lparr>st_records := fst res, st_vv := vv, st_clock := fst cr\<rparr>) origin now cls key fs
            (case snd res of Some c \<Rightarrow> Some c | None \<Rightarrow> ch))"
  by (auto simp: Let_def local_row_def reading_of_def split: prod.splits intro!: arg_cong [of _ _ "result_bind _"])

fun tags_fit :: "hlc_clock \<Rightarrow> i64 \<Rightarrow> nat \<Rightarrow> bool" where
  "tags_fit c now 0 = True"
| "tags_fit c now (Suc n) =
     (reading_fits c now None \<and> tags_fit (fst (reading_of c now None)) now n)"

lemma remove_tags_ok:
  "store_ok st \<Longrightarrow> tags_fit (st_clock st) now (length tags) \<Longrightarrow>
     remove_tags st origin now cls key tags ch = Ok (st', ch') \<Longrightarrow> store_ok st'"
proof (induction tags arbitrary: st ch)
  case (Cons f fs)
  let ?cr = "reading_of (st_clock st) now None"
  from Cons.prems(3) obtain vv seq where ns: "next_seq (st_vv st) origin = Ok (vv, seq)"
    and rest: "remove_tags (st\<lparr>st_records := fst (apply_row (st_records st) (local_row origin cls key f None 0 (snd ?cr) seq) True),
        st_vv := vv, st_clock := fst ?cr\<rparr>) origin now cls key fs
        (case snd (apply_row (st_records st) (local_row origin cls key f None 0 (snd ?cr) seq) True)
           of Some c \<Rightarrow> Some c | None \<Rightarrow> ch) = Ok (st', ch')"
    unfolding remove_tags_Cons by (auto simp: result_bind_Inr_iff Let_def)
  have fits: "reading_fits (st_clock st) now None" "tags_fit (fst ?cr) now (length fs)"
    using Cons.prems(2) by simp_all
  have "store_ok (st\<lparr>st_records := fst (apply_row (st_records st) (local_row origin cls key f None 0 (snd ?cr) seq) True),
        st_vv := vv, st_clock := fst ?cr\<rparr>)"
    using fits(1) reading_of_clock [of None "st_clock st" now]
    by (intro store_ok_apply [OF Cons.prems(1), where l = True])
      (auto simp: reading_fits_def in_range_def)
  then show ?case
    by (rule Cons.IH [OF _ _ rest]) (simp add: fits(2))
qed simp

text \<open>What one turn of \<open>merge\<close> does to the rows, the clock and the numbers.\<close>

definition taken :: "(json \<Rightarrow> string) \<Rightarrow> table \<Rightarrow> record_row \<Rightarrow> bool" where
  "taken print t row \<longleftrightarrow> \<not> refused print (restore_null row) \<and> \<not> audit_refused t (restore_null row)"

lemma restore_null_simps [simp]:
  "rclass (restore_null r) = rclass r" "rkey (restore_null r) = rkey r"
  "rfield (restore_null r) = rfield r" "rclock (restore_null r) = rclock r"
  "rorigin (restore_null r) = rorigin r" "rseq (restore_null r) = rseq r"
  "rrank (restore_null r) = rrank r" "rdeleted (restore_null r) = rdeleted r"
  by (simp_all add: restore_null_def)

lemma merge_row_records:
  "st_records (fst (merge_row print now h acc row)) =
     (if taken print (st_records (fst acc)) row \<and> \<not> behind_horizon h (st_records (fst acc)) (restore_null row)
      then fst (apply_row (st_records (fst acc)) (restore_null row) False) else st_records (fst acc))"
  by (cases acc) (auto simp: merge_row_def taken_def Let_def split: prod.splits option.splits)

lemma merge_row_clock:
  "clock_last (st_clock (fst (merge_row print now h acc row))) =
     (if taken print (st_records (fst acc)) row
      then max (clock_last (st_clock (fst acc))) (rclock row) else clock_last (st_clock (fst acc)))"
  by (cases acc)
    (auto simp: merge_row_def taken_def Let_def hc.observe_reading [symmetric, of _ _ now]
      split: prod.splits option.splits)

lemma merge_row_vv:
  "st_vv (fst (merge_row print now h acc row)) =
     (if taken print (st_records (fst acc)) row
      then vv_raise (rorigin row) (sint (rseq row)) (st_vv (fst acc)) else st_vv (fst acc))"
  by (cases acc) (auto simp: merge_row_def taken_def Let_def split: prod.splits option.splits)

lemma merge_row_horizon: "st_horizon (fst (merge_row print now h acc row)) = st_horizon (fst acc)"
  by (cases acc) (auto simp: merge_row_def Let_def split: prod.splits option.splits)

lemma taken_value_ok: "taken print t row \<Longrightarrow> value_ok (restore_null row)"
  by (auto simp: taken_def refused_def value_ok_def)

lemma merge_row_ok:
  assumes "store_ok (fst acc)" "in_range row"
  shows "store_ok (fst (merge_row print now h acc row))"
proof (cases "taken print (st_records (fst acc)) row \<and> \<not> behind_horizon h (st_records (fst acc)) (restore_null row)")
  case True
  show ?thesis
    by (rule store_ok_apply [OF assms(1), of "restore_null row" _ False])
      (use assms(2) True in \<open>auto simp: in_range_def merge_row_clock merge_row_records intro: taken_value_ok\<close>)
next
  case False
  show ?thesis
    by (rule store_ok_weaken [OF assms(1)]) (use False in \<open>auto simp: merge_row_clock merge_row_records\<close>)
qed

lemma merge_rows_ok:
  assumes "store_ok st" "\<forall>r\<in>set rows. in_range r"
  shows "store_ok (fst (merge_rows print now st rows))"
proof -
  have "store_ok (fst acc) \<Longrightarrow> \<forall>r\<in>set rows. in_range r \<Longrightarrow>
      store_ok (fst (foldl (merge_row print now h) acc rows))" for acc h
    by (induction rows arbitrary: acc) (simp_all add: merge_row_ok)
  with assms show ?thesis by (simp add: merge_rows_def)
qed

lemma merge_batch_fst:
  "fst (merge_batch print st now rows) =
     (if rows = [] then st
      else notify (save_clock (fst (merge_rows print now st rows))) (fst (snd (merge_rows print now st rows))))"
  by (auto simp: merge_batch_def Let_def split: prod.splits)

lemma merge_batch_ok:
  "store_ok st \<Longrightarrow> \<forall>r\<in>set rows. in_range r \<Longrightarrow> store_ok (fst (merge_batch print st now rows))"
  using merge_rows_ok [of st rows print now]
  by (auto simp: merge_batch_fst intro: store_ok_weaken)

lemma set_delete_slot: "set (delete_slot row t) \<subseteq> set t"
  by (auto simp: delete_slot_def)

lemma drop_where_ok: "store_ok st \<Longrightarrow> store_ok (fst (drop_where st own keep))"
proof (rule store_ok_weaken [of st])
  have "set (fst (foldl (\<lambda>(t, n) row. (delete_slot row t, n + (length t - length (delete_slot row t)))) acc rows))
      \<subseteq> set (fst acc)" for acc :: "table \<times> nat" and rows
    by (induction rows arbitrary: acc) (use set_delete_slot in \<open>fastforce split: prod.splits\<close>)+
  from this [of "(st_records st, 0)"]
  show "set (st_records (fst (drop_where st own keep))) \<subseteq> set (st_records st)"
    by (simp add: drop_where_def Let_def split: prod.splits)
      (metis (mono_tags, lifting) fst_conv)
qed (simp_all add: drop_where_def Let_def split: prod.splits)

text \<open>\<open>collect\<close>: the covered candidates leave the table, and their newest clock is the horizon.\<close>

definition collected :: "rec_store \<Rightarrow> hlc \<Rightarrow> (string \<Rightarrow> u64 \<Rightarrow> bool) \<Rightarrow> record_row list" where
  "collected st before covered =
     filter (\<lambda>r. covered (rorigin r) (rseq r))
       (map read_row (filter (\<lambda>c. cdeleted c \<and> cclock c < packed before) (st_records st)))"

lemma collect_fold:
  "foldl (collect_row covered) (t, newest, n) rows =
     (let gone = filter (\<lambda>r. covered (rorigin r) (rseq r)) rows
      in (foldl (\<lambda>t r. delete_slot r t) t gone, foldl (\<lambda>m r. max m (rclock r)) newest gone,
          n + length gone))"
  by (induction rows arbitrary: t newest n) (simp_all add: collect_row_def Let_def)

lemma set_delete_slots:
  "set (foldl (\<lambda>t r. delete_slot r t) t rows)
     = {c \<in> set t. \<forall>r\<in>set rows. \<not> (cclass c = rclass r \<and> ckey c = rkey r \<and> cfield c = rfield r)}"
  by (induction rows arbitrary: t) (auto simp: delete_slot_def)

lemma foldl_max_ge: "(m :: hlc) \<le> foldl (\<lambda>m r. max m (rclock r)) m rows"
proof (induction rows arbitrary: m)
  case (Cons r rows)
  show ?case using Cons.IH [of "max m (rclock r)"] by simp
qed simp

lemma foldl_max_member: "r \<in> set rows \<Longrightarrow> rclock r \<le> foldl (\<lambda>m r. max m (rclock r)) m rows"
proof (induction rows arbitrary: m)
  case (Cons a rows)
  then show ?case using foldl_max_ge [of "max m (rclock a)" rows] by auto
qed simp

lemma foldl_max_in: "foldl (\<lambda>m r. max m (rclock r)) m rows \<in> insert m (rclock ` set rows)"
  by (induction rows arbitrary: m) (auto simp: max_def)

lemma collect_tombs_eq:
  "collect_tombs st before covered =
     (let gone = collected st before covered;
          st' = st\<lparr>st_records := foldl (\<lambda>t r. delete_slot r t) (st_records st) gone\<rparr>;
          newest = foldl (\<lambda>m r. max m (rclock r))
            (case get_horizon st of None \<Rightarrow> hlc_default | Some h \<Rightarrow> h) gone
      in (if gone \<noteq> [] then st'\<lparr>st_horizon := Some (display newest)\<rparr> else st', length gone))"
  by (simp add: collect_tombs_def collect_fold collected_def Let_def)

lemma collect_ok: "store_ok st \<Longrightarrow> store_ok (fst (collect_tombs st before covered))"
  by (erule store_ok_weaken) (auto simp: collect_tombs_eq Let_def set_delete_slots)

lemma forget_ok: "store_ok st \<Longrightarrow> store_ok (forget st own delivered)"
  by (erule store_ok_weaken) (auto simp: forget_def)

text \<open>Reopening the store: the clock starts at or past every held row.\<close>

lemma foldl_max_int: "(m :: int) \<le> foldl max m xs" "x \<in> set xs \<Longrightarrow> x \<le> foldl max m xs"
    "foldl max m xs \<in> insert m (set xs)"
proof -
  show ge: "(m :: int) \<le> foldl max m xs" for m xs
    by (induction xs arbitrary: m) (simp, metis foldl_Cons max.bounded_iff)
  show "x \<in> set xs \<Longrightarrow> x \<le> foldl max m xs"
    by (induction xs arbitrary: m) (auto, metis ge max.bounded_iff)
  show "foldl max m xs \<in> insert m (set xs)"
    by (induction xs arbitrary: m) (auto simp: max_def)
qed

lemma packed_le_iff: "packs a \<Longrightarrow> packs b \<Longrightarrow> packed a \<le> packed b \<longleftrightarrow> a \<le> b"
  by (metis linorder_not_less packed_less_iff)

lemma open_store_clock:
  assumes "table_ok t" "r \<in> rows_of t"
  shows "rclock r \<le> clock_last (st_clock (open_store t vv hlc hrzn))"
proof -
  from assms obtain c cs where t: "map cclock t = c # cs"
    by (cases "map cclock t") (auto simp: rows_of_def)
  have r: "in_range r" "packed (rclock r) \<in> set (c # cs)"
    using assms t by (metis rows_of_iff, metis (no_types, lifting) list.set_map imageI rows_of_iff
        row_cols.select_convs(5) to_cols_def)
  have "foldl max c cs \<in> set (map cclock t)" using t foldl_max_int(3) [of c cs] by simp
  then obtain q where q: "q \<in> rows_of t" "foldl max c cs = packed (rclock q)" "in_range q"
    using assms(1) by (auto elim!: rows_ofE simp: to_cols_def)
  have "packed (rclock r) \<le> packed (rclock q)"
    using r(2) foldl_max_int(1) [of c cs] foldl_max_int(2) [of "packed (rclock r)" cs c] q(2) by auto
  then have "rclock r \<le> from_packed (foldl max c cs)"
    using q r(1) by (simp add: in_range_def packed_le_iff from_packed_packed)
  then show ?thesis by (simp add: open_store_def t Let_def clock_new_def max.coboundedI2)
qed

definition restart :: "rec_store \<Rightarrow> rec_store" where
  "restart st = open_store (st_records st) (st_vv st) (st_hlc st) (st_horizon st)"

lemma restart_ok: "store_ok st \<Longrightarrow> store_ok (restart st)"
  using open_store_clock [of "st_records st"]
  by (auto simp: store_ok_def restart_def) (simp_all add: open_store_def Let_def)

section \<open>The store as a state machine\<close>

text \<open>
  One committed operation of a runtime whose own id is \<open>own\<close>: local writes with a reading that
  fits, a batch of rows in range, or one of the maintenance operations.
\<close>

inductive store_step :: "(json \<Rightarrow> string) \<Rightarrow> string \<Rightarrow> rec_store \<Rightarrow> rec_store \<Rightarrow> bool"
  for print :: "json \<Rightarrow> string" and own :: string where
  put: "put print st own now cls key field val rank = Ok (st', ch) \<Longrightarrow> rank < 2 ^ 63 \<Longrightarrow>
          reading_fits (st_clock st) now None \<Longrightarrow> store_step print own st st'"
| put_at: "put_at print st own now cls key field val rank clk = Ok (st', ch) \<Longrightarrow> rank < 2 ^ 63 \<Longrightarrow>
          reading_fits (st_clock st) now (Some clk) \<Longrightarrow> store_step print own st st'"
| remove_field: "remove_field print st own now cls key field rank = Ok (st', ch) \<Longrightarrow> rank < 2 ^ 63 \<Longrightarrow>
          reading_fits (st_clock st) now None \<Longrightarrow> store_step print own st st'"
| delete: "delete_record print st own now cls key rank at = Ok (st', ch) \<Longrightarrow> rank < 2 ^ 63 \<Longrightarrow>
          reading_fits (st_clock st) now at \<Longrightarrow> store_step print own st st'"
| set_add: "set_add st own now cls key s element val = Ok (st', ch) \<Longrightarrow>
          reading_fits (st_clock st) now None \<Longrightarrow> store_step print own st st'"
| set_remove: "set_remove st own now cls key s element = Ok (st', ch) \<Longrightarrow>
          tags_fit (st_clock st) now (length (set_tags (st_records st) cls key s element)) \<Longrightarrow>
          store_step print own st st'"
| merge: "\<forall>r\<in>set rows. in_range r \<Longrightarrow> store_step print own st (fst (merge_batch print st now rows))"
| tick: "clock_last (st_clock st) \<noteq> hlc_top \<Longrightarrow> store_step print own st (fst (store_tick st now))"
| subscribe: "store_step print own st (subscribe st)"
| raise: "store_step print own st (raise_floor st own floor)"
| forget_numbers: "store_step print own st (forget_numbers st own)"
| drop: "store_step print own st (fst (drop_where st own keep))"
| collect: "store_step print own st (fst (collect_tombs st before covered))"
| forget: "store_step print own st (forget st own delivered)"
| restart: "store_step print own st (restart st)"

inductive_cases store_stepE: "store_step print own st st'"

lemma set_remove_ok:
  assumes "store_ok st" "set_remove st origin now cls key s element = Ok (st', ch)"
    and "tags_fit (st_clock st) now (length (set_tags (st_records st) cls key s element))"
  shows "store_ok st'"
proof -
  have "store_ok (notify (save_clock st1) cs)" if "store_ok st1" for st1 cs
    using that by (rule store_ok_weaken) simp_all
  then show ?thesis
    using assms remove_tags_ok [OF assms(1,3)]
    by (fastforce simp: set_remove_def Let_def result_bind_Inr_iff split: if_splits)
qed

lemmas write_defs = put_def put_at_def remove_field_def delete_record_def

lemma store_step_ok: "store_step print own st st' \<Longrightarrow> store_ok st \<Longrightarrow> store_ok st'"
proof (induction rule: store_step.induct)
  case (tick st now)
  show ?case
    using tick.prems
    by (rule store_ok_weaken)
      (use tick.hyps in \<open>auto simp: store_tick_def hc.tick_reading_later less_imp_le split: prod.splits
        dest: hc.tick_reading_later [of _ now]\<close>)
qed (auto simp: write_defs result_bind_Inr_iff subscribe_def raise_floor_def forget_numbers_def
      intro: write_local_ok set_add_ok set_remove_ok merge_batch_ok drop_where_ok collect_ok forget_ok restart_ok
      elim: store_ok_weaken)

section \<open>Merging batches\<close>

text \<open>Batches arriving one after another, each at its own time.\<close>

definition merge_batches ::
  "(json \<Rightarrow> string) \<Rightarrow> rec_store \<Rightarrow> (i64 \<times> record_row list) list \<Rightarrow> rec_store" where
  "merge_batches print st batches =
     foldl (\<lambda>st (now, rows). fst (merge_batch print st now rows)) st batches"

definition accepted :: "(json \<Rightarrow> string) \<Rightarrow> record_row list \<Rightarrow> record_row list" where
  "accepted print rows = filter (\<lambda>r. \<not> refused print r) (map restore_null rows)"

lemma accepted_simps:
  "accepted print [] = []" "accepted print (a @ b) = accepted print a @ accepted print b"
  "accepted print (r # rows) = (if refused print (restore_null r) then accepted print rows
     else restore_null r # accepted print rows)"
  by (simp_all add: accepted_def)

lemma set_accepted: "set a = set b \<Longrightarrow> set (accepted print a) = set (accepted print b)"
  by (simp add: accepted_def)

lemma apply_all_append: "apply_all t (a @ b) = apply_all (apply_all t a) b"
  by (induction t a rule: apply_all.induct) simp_all

lemma merge_rows_records:
  assumes "st_horizon st = None" "\<forall>r\<in>set rows. rclass r \<noteq> audit_class"
  shows "st_records (fst (merge_rows print now st rows)) = apply_all (st_records st) (accepted print rows)"
proof -
  have "\<forall>r\<in>set rows. rclass r \<noteq> audit_class \<Longrightarrow>
    st_records (fst (foldl (merge_row print now None) acc rows))
      = apply_all (st_records (fst acc)) (accepted print rows)" for acc
    by (induction rows arbitrary: acc)
      (auto simp: accepted_simps merge_row_records taken_def audit_refused_def behind_horizon_def)
  with assms show ?thesis by (simp add: merge_rows_def get_horizon_def)
qed

lemma merge_rows_horizon: "st_horizon (fst (merge_rows print now st rows)) = st_horizon st"
proof -
  have "st_horizon (fst (foldl (merge_row print now h) acc rows)) = st_horizon (fst acc)" for acc h
    by (induction rows arbitrary: acc) (simp_all add: merge_row_horizon)
  then show ?thesis by (simp add: merge_rows_def)
qed

lemma merge_batches_records:
  "st_horizon st = None \<Longrightarrow> \<forall>r\<in>set (concat (map snd batches)). rclass r \<noteq> audit_class \<Longrightarrow>
     st_records (merge_batches print st batches)
       = apply_all (st_records st) (accepted print (concat (map snd batches)))"
proof (induction batches arbitrary: st)
  case (Cons b batches)
  obtain now rows where b: "b = (now, rows)" by (cases b)
  let ?st = "fst (merge_batch print st now rows)"
  have "st_horizon ?st = None" "st_records ?st = apply_all (st_records st) (accepted print rows)"
    using Cons.prems b by (auto simp: merge_batch_fst merge_rows_horizon merge_rows_records accepted_simps)
  moreover have "merge_batches print st (b # batches) = merge_batches print ?st batches"
    by (simp add: merge_batches_def b)
  ultimately show ?case
    using Cons.IH [of ?st] Cons.prems b by (simp add: accepted_simps apply_all_append)
qed (simp add: merge_batches_def accepted_simps)

lemma accepted_subset: "set (accepted print rows) \<subseteq> restore_null ` set rows"
  by (auto simp: accepted_def)

lemma merge_batches_winners:
  assumes "st_records st = []" "st_horizon st = None"
    and "\<forall>r\<in>set (concat (map snd batches)). rclass r \<noteq> audit_class"
    and "writes_ok (restore_null ` set (concat (map snd batches)))"
  shows "table_ok (st_records (merge_batches print st batches))
    \<and> rows_of (st_records (merge_batches print st batches)) = winners (set (accepted print (concat (map snd batches))))"
  unfolding merge_batches_records [OF assms(2,3)] assms(1)
  by (rule apply_all_winners) (rule writes_ok_subset [OF assms(4) accepted_subset])

lemma current_row_cong:
  "table_ok t \<Longrightarrow> table_ok u \<Longrightarrow> rows_of t = rows_of u \<Longrightarrow> current_row t c k f = current_row u c k f"
  by (metis current_row_None_iff current_row_Some_iff option.exhaust)

section \<open>The last write is what a reader sees\<close>

definition field_entry :: "record_row \<Rightarrow> rec_field" where
  "field_entry r = \<lparr>f_value = (case rvalue r of None \<Rightarrow> JNull | Some v \<Rightarrow> v), f_clock = rclock r,
                    f_origin = rorigin r, f_rank = rrank r\<rparr>"

lemma assemble_row_field:
  assumes "field \<noteq> []" "set_separator \<notin> set field"
  shows "map_of (rec_fields (assemble_row rcd r)) field =
      (if rfield r = field \<and> \<not> rdeleted r then Some (field_entry r) else map_of (rec_fields rcd) field)"
  using assms
  by (auto simp: assemble_row_def Let_def update_conv field_entry_def split: option.splits
      dest: split_once_None_iff [THEN iffD1])
    (simp_all add: split_once_None_iff [THEN iffD2])

lemma assemble_fields:
  assumes "field \<noteq> []" "set_separator \<notin> set field"
    and "\<And>x. x \<in> set rows \<Longrightarrow> rfield x = field \<Longrightarrow> x = r"
  shows "map_of (rec_fields (foldl assemble_row rcd rows)) field =
      (if r \<in> set rows \<and> rfield r = field \<and> \<not> rdeleted r then Some (field_entry r)
       else map_of (rec_fields rcd) field)"
  using assms(3)
proof (induction rows arbitrary: rcd)
  case (Cons a rows)
  have "rfield a = field \<Longrightarrow> a = r" using Cons.prems [of a] by simp
  moreover have "map_of (rec_fields (foldl assemble_row (assemble_row rcd a) rows)) field =
      (if r \<in> set rows \<and> rfield r = field \<and> \<not> rdeleted r then Some (field_entry r)
       else map_of (rec_fields (assemble_row rcd a)) field)"
    by (rule Cons.IH) (simp add: Cons.prems)
  ultimately show ?case by (auto simp: assemble_row_field [OF assms(1,2)])
qed simp

text \<open>What \<open>get\<close> answers for a field is the value of the row held in its slot.\<close>

lemma get_with_field:
  assumes "table_ok t" "field \<noteq> []" "set_separator \<notin> set field"
    and "current_row t cls key field = Some r"
  shows "Option.bind (get_with t cls key) (\<lambda>rc. map_of (rec_fields rc) field)
    = (if rdeleted r then None else Some (field_entry r))"
proof -
  let ?rows = "map read_row (filter (\<lambda>c. cclass c = cls \<and> ckey c = key) t)"
  have rows: "set ?rows = {x \<in> rows_of t. rclass x = cls \<and> rkey x = key}"
    by (auto simp: rows_of_def)
  from assms(4) have r: "r \<in> rows_of t" "slot r = (cls, key, field)"
    using current_row_Some_iff [OF assms(1)] by auto
  then have "r \<in> set ?rows" "rfield r = field" using rows by (auto simp: slot_def)
  moreover have "x = r" if "x \<in> set ?rows" "rfield x = field" for x
    using that rows r rows_of_slot_unique [OF assms(1), of x r] by (auto simp: slot_def)
  then have "map_of (rec_fields (foldl assemble_row rcd ?rows)) field =
      (if r \<in> set ?rows \<and> rfield r = field \<and> \<not> rdeleted r then Some (field_entry r)
       else map_of (rec_fields rcd) field)" for rcd
    by (rule assemble_fields [OF assms(2,3)])
  moreover have "?rows \<noteq> []" using calculation(1) by (cases ?rows) simp_all
  ultimately show ?thesis
    unfolding get_with_def assemble_def by simp
qed

text \<open>A local write carries a version above every row held in its slot and its record.\<close>

lemma tick_beats:
  assumes "store_ok st" "x \<in> rows_of (st_records st)" "clock_last (st_clock st) \<noteq> hlc_top"
    and "\<not> rrank x > rank"
  shows "version x < version (local_row origin cls key field val rank (snd (reading_of (st_clock st) now None)) seq)"
proof -
  have "rclock x < snd (tick (st_clock st) now)"
    using store_okD(4) [OF assms(1,2)] hc.tick_later [OF assms(3)] by (rule le_less_trans)
  with assms(4) show ?thesis by (auto simp: version_def reading_of_def not_less order_le_less)
qed

lemma outranks_member:
  "table_ok t \<Longrightarrow> \<not> outranks (current_row t c k f) rank \<Longrightarrow> x \<in> rows_of t \<Longrightarrow> slot x = (c, k, f)
     \<Longrightarrow> \<not> rrank x > rank"
  using current_row_Some_iff [of t c k f x] by (simp add: outranks_def)

lemma local_row_wins:
  assumes "store_ok st" "clock_last (st_clock st) \<noteq> hlc_top"
    and "\<not> outranks (current_row (st_records st) cls key field) rank"
    and "field \<noteq> [] \<Longrightarrow> \<not> outranks (current_row (st_records st) cls key []) rank"
  shows "\<not> loses (rows_of (st_records st))
    (local_row origin cls key field val rank (snd (reading_of (st_clock st) now None)) seq)"
proof -
  note t = store_okD(1) [OF assms(1)]
  have "version x < version (local_row origin cls key field val rank (snd (reading_of (st_clock st) now None)) seq)"
    if "x \<in> rows_of (st_records st)" "slot x = (cls, key, field) \<or> field \<noteq> [] \<and> slot x = (cls, key, [])" for x
    using that assms outranks_member [OF t] by (intro tick_beats) blast+
  then show ?thesis by (auto simp: loses_def slot_def tomb_slot_def not_le)
qed

lemma has_live_fields_iff:
  "table_ok t \<Longrightarrow> has_live_fields t cls key \<longleftrightarrow>
     (\<exists>x\<in>rows_of t. rclass x = cls \<and> rkey x = key \<and> rfield x \<noteq> [] \<and> \<not> rdeleted x)"
  by (auto simp: has_live_fields_def list_ex_iff rows_of_def)

lemma check_field_OkD: "check_field f = Ok () \<Longrightarrow> f \<noteq> [] \<and> set_separator \<notin> set f"
  by (simp add: check_field_def split: if_splits)

section \<open>The audit log\<close>

lemma current_row_upsert_other:
  "(cclass c, ckey c, cfield c) \<noteq> (cls, key, f) \<Longrightarrow>
     current_row (upsert t c) cls key f = current_row t cls key f"
proof -
  assume other: "(cclass c, ckey c, cfield c) \<noteq> (cls, key, f)"
  have "find P (map (\<lambda>d. if same_slot c d then c else d) t) = find P t"
    if "P = (\<lambda>d. cclass d = cls \<and> ckey d = key \<and> cfield d = f)" for P
    using other that by (induction t) (auto simp: same_slot_def)
  moreover have "find P (t @ [c]) = find P t"
    if "P = (\<lambda>d. cclass d = cls \<and> ckey d = key \<and> cfield d = f)" for P
    using other that by (induction t) auto
  ultimately show ?thesis by (simp add: current_row_def upsert_def)
qed

lemma current_row_filter_other:
  "(\<And>c. c \<in> set t \<Longrightarrow> cclass c = cls \<Longrightarrow> ckey c = key \<Longrightarrow> cfield c = f \<Longrightarrow> P c) \<Longrightarrow>
     current_row (filter P t) cls key f = current_row t cls key f"
  unfolding current_row_def by (induction t) auto

lemma apply_row_other:
  assumes "slot r \<noteq> (cls, key, f)" "rfield r = [] \<Longrightarrow> (rclass r, rkey r) \<noteq> (cls, key)"
  shows "current_row (fst (apply_row t r l)) cls key f = current_row t cls key f"
proof -
  have up: "current_row (upsert t (to_cols r)) cls key f = current_row t cls key f"
    by (rule current_row_upsert_other) (use assms(1) in \<open>simp add: slot_def\<close>)
  moreover have "current_row (filter (\<lambda>c. \<not> older_field (to_cols r) c) (upsert t (to_cols r))) cls key f
      = current_row (upsert t (to_cols r)) cls key f" if "rfield r = []"
    by (rule current_row_filter_other) (use assms(2) [OF that] in \<open>auto simp: older_field_def\<close>)
  ultimately show ?thesis by (simp add: apply_row_fst)
qed

lemma merge_row_audit:
  assumes "current_row (st_records (fst acc)) audit_class key ''entry'' = Some e"
  shows "current_row (st_records (fst (merge_row print now h acc r))) audit_class key ''entry'' = Some e"
proof (cases "taken print (st_records (fst acc)) r")
  case True
  then have "rclass r = audit_class \<Longrightarrow> rfield r = ''entry'' \<and> rkey r \<noteq> key"
    using assms by (auto simp: taken_def audit_refused_def written_by_def)
  then have "current_row (fst (apply_row t (restore_null r) l)) audit_class key ''entry''
      = current_row t audit_class key ''entry''" for t l
    by (intro apply_row_other) (auto simp: slot_def)
  then show ?thesis
    using assms by (simp add: merge_row_records)
qed (simp add: merge_row_records assms)

section \<open>Concrete rows for the witnesses\<close>

definition wr_a :: record_row where
  "wr_a = \<lparr>rclass = ''note'', rkey = ''k'', rfield = ''title'', rvalue = Some (JString ''a''),
     rclock = Hlc 10 0, rorigin = ''m1'', rseq = 1, rrank = 0, rdeleted = False\<rparr>"

definition wr_b :: record_row where
  "wr_b = \<lparr>rclass = ''note'', rkey = ''k'', rfield = ''title'', rvalue = None,
     rclock = Hlc 11 0, rorigin = ''m2'', rseq = 1, rrank = 0, rdeleted = False\<rparr>"

definition wr_t :: record_row where
  "wr_t = \<lparr>rclass = ''note'', rkey = ''k'', rfield = [], rvalue = None,
     rclock = Hlc 10 3, rorigin = ''m2'', rseq = 2, rrank = 0, rdeleted = True\<rparr>"

definition wr_e :: record_row where
  "wr_e = \<lparr>rclass = ''audit'', rkey = ''m1:1'', rfield = ''entry'', rvalue = Some (JString ''e''),
     rclock = Hlc 10 0, rorigin = ''m1'', rseq = 1, rrank = 0, rdeleted = False\<rparr>"

text \<open>A printer of values for the witnesses, and an empty store.\<close>

definition no_text :: "json \<Rightarrow> string" where
  "no_text v = []"

definition st_empty :: rec_store where
  "st_empty = open_store [] [] None None"

definition st_one :: rec_store where
  "st_one = \<lparr>st_records = [to_cols wr_a], st_vv = [(''m1'', 1)], st_hlc = None, st_horizon = None,
     st_clock = clock_new (Hlc 10 0), st_subscribers = []\<rparr>"

lemmas record_eval = check_field_def check_name_def is_control_def class_byte_def set_separator_def
  max_key_bytes_def max_class_bytes_def max_value_bytes_def Let_def next_seq_def vv_held_def max_i64_def
  tick_def clock_new_def hlc_at_def less_hlc_def less_eq_hlc_def utf8_continuation_def
  no_text_def reading_of_def reading_fits_def packs_def hlc_top_def

lemmas wr_defs = wr_a_def wr_b_def wr_t_def wr_e_def

lemma st_empty_ok: "store_ok st_empty"
  by (simp add: st_empty_def store_ok_def open_store_def Let_def no_buried_def)

lemma wr_in_range: "in_range wr_a" "in_range wr_b" "in_range wr_t" "in_range wr_e"
  by (simp_all add: wr_defs in_range_def packs_def)

lemma rows_of_st_one: "table_ok (st_records st_one)" "rows_of (st_records st_one) = {wr_a}"
  by (auto simp: st_one_def table_ok_def rows_of_def read_row_to_cols wr_in_range intro: wr_in_range)

lemma st_one_ok: "store_ok st_one"
  unfolding store_ok_def rows_of_st_one
  by (simp add: rows_of_st_one no_buried_def buries_def value_ok_def wr_a_def) (simp add: st_one_def clock_new_def)

lemma current_row_st_one: "current_row (st_records st_one) ''note'' ''k'' f = (if f = ''title'' then Some wr_a else None)"
  by (simp add: st_one_def current_row_def read_row_to_cols wr_in_range) (simp add: wr_a_def)

section \<open>Properties: convergence and reading\<close>

text \<open>C1: Two runtimes with empty tables that take in the same rows, in any order, any batching
  and with any repetition, at any times, end up holding the same row in every slot.\<close>

theorem merge_converges:
  assumes "st_records a = []" "st_horizon a = None" "st_records b = []" "st_horizon b = None"
    and "\<forall>r\<in>set (concat (map snd xs)). rclass r \<noteq> audit_class"
    and "writes_ok (restore_null ` set (concat (map snd xs)))"
    and "set (concat (map snd xs)) = set (concat (map snd ys))"
  shows "current_row (st_records (merge_batches print a xs)) cls key field
    = current_row (st_records (merge_batches print b ys)) cls key field"
proof -
  have "set (accepted print (concat (map snd xs))) = set (accepted print (concat (map snd ys)))"
    using assms(7) by (rule set_accepted)
  moreover note merge_batches_winners [OF assms(1,2,5,6), of print]
    and merge_batches_winners [OF assms(3,4) assms(5,6) [unfolded assms(7)], of print]
  ultimately show ?thesis by (intro current_row_cong) auto
qed

theorem merge_converges_witness:
  "writes_ok (restore_null ` {wr_a, wr_b, wr_t})
   \<and> current_row (st_records (merge_batches no_text st_empty [(5, [wr_a, wr_b, wr_t])])) ''note'' ''k'' ''title''
     = current_row (st_records (merge_batches no_text st_empty [(7, [wr_t]), (8, [wr_b, wr_t, wr_a])])) ''note'' ''k'' ''title''"
proof -
  have ok: "writes_ok (restore_null ` {wr_a, wr_b, wr_t})"
    by (simp add: writes_ok_def versions_distinct_def restore_null_def wr_defs in_range_def packs_def
        version_def tomb_slot_def)
  show ?thesis
    using ok merge_converges [of st_empty st_empty "[(5, [wr_a, wr_b, wr_t])]" "[(7, [wr_t]), (8, [wr_b, wr_t, wr_a])]"]
    by (auto simp: st_empty_def open_store_def Let_def audit_class_def wr_defs insert_commute)
qed

text \<open>C15: Every store a runtime reaches from an empty one holds at most one row per slot, no field
  write that a held tombstone beats, and no write past its clock.\<close>

theorem reachable_store_ok:
  assumes "rtranclp (store_step print own) (open_store [] [] hlc hrzn) st"
  shows "(\<forall>a\<in>rows_of (st_records st). \<forall>b\<in>rows_of (st_records st). slot a = slot b \<longrightarrow> a = b)
    \<and> (\<forall>d\<in>rows_of (st_records st). \<forall>x\<in>rows_of (st_records st).
         rfield d = [] \<and> rfield x \<noteq> [] \<and> rclass x = rclass d \<and> rkey x = rkey d \<longrightarrow> version d \<le> version x)
    \<and> (\<forall>r\<in>rows_of (st_records st). rclock r \<le> clock_last (st_clock st))"
proof -
  have "store_ok (open_store [] [] hlc hrzn)"
    by (simp add: store_ok_def open_store_def Let_def no_buried_def)
  with assms have "store_ok st"
    by (induction rule: rtranclp_induct) (simp_all add: store_step_ok)
  then have ok: "table_ok (st_records st)" "no_buried (rows_of (st_records st))"
      "\<forall>r\<in>rows_of (st_records st). rclock r \<le> clock_last (st_clock st)"
    by (simp_all add: store_ok_def)
  moreover have "version d \<le> version x" if "d \<in> rows_of (st_records st)" "x \<in> rows_of (st_records st)"
      "rfield d = [] \<and> rfield x \<noteq> [] \<and> rclass x = rclass d \<and> rkey x = rkey d" for d x
  proof -
    have "\<not> buries d x" using ok(2) that by (simp add: no_buried_def)
    with that(3) show ?thesis by (simp add: buries_def slot_def tomb_slot_def not_less)
  qed
  ultimately show ?thesis using rows_of_slot_unique [OF ok(1)] by blast
qed

theorem reachable_store_ok_witness:
  "rtranclp (store_step no_text ''m1'') (open_store [] [] None None)
       (fst (merge_batch no_text (open_store [] [] None None) 5 [wr_a, wr_t]))
   \<and> rclock ` rows_of (st_records (fst (merge_batch no_text (open_store [] [] None None) 5 [wr_a, wr_t])))
       \<subseteq> {..clock_last (st_clock (fst (merge_batch no_text (open_store [] [] None None) 5 [wr_a, wr_t])))}"
proof -
  have r: "rtranclp (store_step no_text ''m1'') (open_store [] [] None None)
       (fst (merge_batch no_text (open_store [] [] None None) 5 [wr_a, wr_t]))"
    by (intro r_into_rtranclp store_step.merge) (simp add: wr_in_range)
  with reachable_store_ok [OF r] show ?thesis by blast
qed

text \<open>A local \<open>put\<close> that no held row of the field or record outranks is what \<open>get\<close> answers next.\<close>

theorem put_then_get:
  assumes "store_ok st" "put print st origin now cls key field val rank = Ok (st', ch)"
    and "rank < 2 ^ 63" "reading_fits (st_clock st) now None"
    and "\<not> outranks (current_row (st_records st) cls key field) rank"
    and "\<not> outranks (current_row (st_records st) cls key []) rank"
  shows "Option.bind (get_with (st_records st') cls key) (\<lambda>r. record_value r field) = Some val"
proof -
  from assms(2) have w: "write_local print st origin now cls key field (Some val) rank None = Ok (st', ch)"
    and f: "field \<noteq> []" "set_separator \<notin> set field"
    by (auto simp: put_def result_bind_Inr_iff dest: check_field_OkD)
  note ok' = store_okD(1) [OF write_local_ok [OF assms(1) w assms(3,4)]]
  have "\<exists>r. current_row (st_records st') cls key field = Some r \<and> rvalue r = Some val \<and> \<not> rdeleted r"
    using w
  proof (cases rule: write_local_cases)
    case kept
    then obtain c where "current_row (st_records st) cls key field = Some c" "rvalue c = Some val"
      using assms(5,6) f by (auto split: option.splits)
    moreover from this have "value_ok c"
      using current_row_Some_iff [OF store_okD(1) [OF assms(1)]] store_okD(3) [OF assms(1)] by blast
    ultimately show ?thesis using kept by (simp add: value_ok_def)
  next
    case (wrote vv seq)
    let ?r = "local_row origin cls key field (Some val) rank (snd (reading_of (st_clock st) now None)) seq"
    have "in_range ?r" using assms(3,4) by (simp add: in_range_def reading_fits_def)
    then have "?r \<in> rows_of (st_records st')"
      using arg_cong [OF wrote(4), of fst] apply_row_refines [OF store_okD(1) [OF assms(1)], of ?r True]
        local_row_wins [OF assms(1), of cls key field rank] assms(4-6)
      by (simp add: commit_local_simps lww_def reading_fits_def)
    then have "current_row (st_records st') cls key field = Some ?r"
      by (simp add: current_row_Some_iff [OF ok'] slot_def)
    then show ?thesis by simp
  qed
  then obtain r where r: "current_row (st_records st') cls key field = Some r" "rvalue r = Some val" "\<not> rdeleted r"
    by blast
  from get_with_field [OF ok' f r(1)] r(2,3) show ?thesis
    by (cases "get_with (st_records st') cls key") (simp_all add: record_value_def field_entry_def)
qed

theorem put_then_get_witness:
  "\<exists>st' ch. put no_text st_one ''m1'' 12 ''note'' ''k'' ''title'' (JString ''x'') 0 = Ok (st', ch)
     \<and> Option.bind (get_with (st_records st') ''note'' ''k'') (\<lambda>r. record_value r ''title'') = Some (JString ''x'')"
proof -
  have "\<exists>st' ch. put no_text st_one ''m1'' 12 ''note'' ''k'' ''title'' (JString ''x'') 0 = Ok (st', ch)"
    by (simp add: put_def write_local_def record_eval current_row_st_one outranks_def)
      (simp add: wr_a_def st_one_def)
  then obtain st' ch where p: "put no_text st_one ''m1'' 12 ''note'' ''k'' ''title'' (JString ''x'') 0 = Ok (st', ch)"
    by blast
  from put_then_get [OF st_one_ok p] show ?thesis
    using p by (simp add: current_row_st_one outranks_def record_eval) (simp add: st_one_def record_eval wr_a_def)
qed

text \<open>After a record is deleted, a field of it is live only if a write of a higher rank set it.\<close>

theorem delete_clears:
  assumes "store_ok st" "delete_record print st origin now cls key rank None = Ok (st', ch)"
    and "rank < 2 ^ 63" "reading_fits (st_clock st) now None"
    and "\<not> outranks (current_row (st_records st) cls key []) rank"
  shows "\<forall>x\<in>rows_of (st_records st'). rclass x = cls \<and> rkey x = key \<and> rfield x \<noteq> [] \<and> \<not> rdeleted x
    \<longrightarrow> rank < rrank x"
  using assms(2) unfolding delete_record_def
proof (cases rule: write_local_cases)
  case kept
  then have "\<not> has_live_fields (st_records st) cls key" using assms(5) by simp
  then show ?thesis using kept(1) has_live_fields_iff [OF store_okD(1) [OF assms(1)], of cls key] by blast
next
  case (wrote vv seq)
  let ?r = "local_row origin cls key [] None rank (snd (reading_of (st_clock st) now None)) seq"
  have r: "in_range ?r" using assms(3,4) by (simp add: in_range_def reading_fits_def)
  have "rows_of (st_records st') = lww (rows_of (st_records st)) ?r"
    using arg_cong [OF wrote(4), of fst] apply_row_refines [OF store_okD(1) [OF assms(1)] r, of True]
    by (simp add: commit_local_simps)
  then have rows: "rows_of (st_records st')
      = insert ?r {x \<in> rows_of (st_records st). slot x \<noteq> slot ?r \<and> \<not> buries ?r x}"
    using local_row_wins [OF assms(1), of cls key "[]" rank origin None now seq] assms(4,5)
    by (simp add: lww_def reading_fits_def)
  have "rank < rrank x" if "x \<in> rows_of (st_records st)" "\<not> buries ?r x" "rclass x = cls" "rkey x = key" "rfield x \<noteq> []" for x
    using tick_beats [OF assms(1) that(1), of rank origin cls key "[]" None now seq] that assms(4)
    by (force simp: buries_def slot_def tomb_slot_def reading_fits_def)
  then show ?thesis unfolding rows by auto
qed

theorem delete_clears_witness:
  "\<exists>st' ch. delete_record no_text st_one ''m1'' 12 ''note'' ''k'' 0 None = Ok (st', ch)
     \<and> {x \<in> rows_of (st_records st'). rclass x = ''note'' \<and> rkey x = ''k'' \<and> rfield x \<noteq> [] \<and> \<not> rdeleted x}
          \<subseteq> {x. 0 < rrank x}"
proof -
  have "\<exists>st' ch. delete_record no_text st_one ''m1'' 12 ''note'' ''k'' 0 None = Ok (st', ch)"
    by (simp add: delete_record_def write_local_def record_eval current_row_st_one)
      (simp add: wr_a_def st_one_def)
  then obtain st' ch where p: "delete_record no_text st_one ''m1'' 12 ''note'' ''k'' 0 None = Ok (st', ch)"
    by blast
  from delete_clears [OF st_one_ok p] show ?thesis
    using p by (simp add: current_row_st_one record_eval subset_iff) (simp add: st_one_def record_eval)
qed

text \<open>Merging never replaces or removes an audit entry the runtime holds.\<close>

theorem audit_entries_kept:
  assumes "current_row (st_records st) audit_class key ''entry'' = Some e"
  shows "current_row (st_records (fst (merge_batch print st now rows))) audit_class key ''entry'' = Some e"
proof -
  have "current_row (st_records (fst acc)) audit_class key ''entry'' = Some e \<Longrightarrow>
      current_row (st_records (fst (foldl (merge_row print now h) acc rows))) audit_class key ''entry'' = Some e"
    for acc h
    by (induction rows arbitrary: acc) (simp_all add: merge_row_audit)
  with assms show ?thesis by (simp add: merge_batch_fst merge_rows_def)
qed

theorem audit_entries_kept_witness:
  "current_row (st_records (fst (merge_batch no_text (st_empty\<lparr>st_records := [to_cols wr_e]\<rparr>) 5
      [wr_e\<lparr>rvalue := Some JNull, rclock := Hlc 99 0\<rparr>]))) audit_class ''m1:1'' ''entry'' = Some wr_e"
  by (rule audit_entries_kept)
    (simp add: current_row_def audit_class_def read_row_to_cols wr_in_range, simp add: wr_e_def)

section \<open>Observed removal from sets\<close>

definition rank_zero :: "rec_store \<Rightarrow> string \<Rightarrow> string \<Rightarrow> bool" where
  "rank_zero st cls key \<longleftrightarrow>
     (\<forall>r\<in>rows_of (st_records st). rclass r = cls \<and> rkey r = key \<longrightarrow> rrank r = 0)"

lemma remove_tag_step:
  assumes "store_ok st" "rank_zero st cls key" "reading_fits (st_clock st) now None" "f \<noteq> []"
    and "st1 = st\<lparr>st_records := fst (apply_row (st_records st) (local_row origin cls key f None 0
        (snd (reading_of (st_clock st) now None)) seq) True), st_vv := vv,
        st_clock := fst (reading_of (st_clock st) now None)\<rparr>"
  shows "store_ok st1 \<and> rank_zero st1 cls key
    \<and> (\<exists>r. current_row (st_records st1) cls key f = Some r \<and> rdeleted r)
    \<and> (\<forall>g. g \<noteq> f \<longrightarrow> current_row (st_records st1) cls key g = current_row (st_records st) cls key g)"
proof -
  let ?r = "local_row origin cls key f None 0 (snd (reading_of (st_clock st) now None)) seq"
  have r: "in_range ?r" using assms(3) by (simp add: in_range_def reading_fits_def)
  note t = apply_row_refines [OF store_okD(1) [OF assms(1)] r, of True]
  have ok: "store_ok st1"
    using assms(3,5) reading_of_clock [of None "st_clock st" now]
    by (intro store_ok_apply [OF assms(1) r, where l = True]) (auto simp: reading_fits_def)
  have "\<not> outranks (current_row (st_records st) cls key g) 0" for g
  proof (cases "current_row (st_records st) cls key g")
    case (Some x)
    then have "x \<in> rows_of (st_records st)" "rclass x = cls" "rkey x = key"
      using current_row_Some_iff [OF store_okD(1) [OF assms(1)]] by (auto simp: slot_def)
    with Some assms(2) show ?thesis by (simp add: outranks_def rank_zero_def)
  qed simp
  then have "\<not> loses (rows_of (st_records st)) ?r"
    using local_row_wins [OF assms(1)] assms(3) by (simp add: reading_fits_def)
  then have "?r \<in> rows_of (st_records st1)" "rows_of (st_records st1) \<subseteq> insert ?r (rows_of (st_records st))"
    using t assms(5) by (auto simp: lww_def)
  moreover from this(1) have "current_row (st_records st1) cls key f = Some ?r"
    by (simp add: current_row_Some_iff [OF store_okD(1) [OF ok]] slot_def)
  moreover have "current_row (st_records st1) cls key g = current_row (st_records st) cls key g" if "g \<noteq> f" for g
    using that assms(4,5) apply_row_other [of ?r cls key g "st_records st" True] by (simp add: slot_def)
  moreover have "rank_zero st1 cls key"
    unfolding rank_zero_def
  proof (intro ballI impI)
    fix x
    assume x: "x \<in> rows_of (st_records st1)" "rclass x = cls \<and> rkey x = key"
    then have "x = ?r \<or> x \<in> rows_of (st_records st)" using calculation(2) by blast
    then show "rrank x = 0"
    proof
      assume "x = ?r"
      then show ?thesis by (simp only: local_row_simps)
    qed (use x(2) assms(2) in \<open>simp add: rank_zero_def\<close>)
  qed
  ultimately show ?thesis using ok by auto
qed

lemma remove_tags_effect:
  assumes "store_ok st" "rank_zero st cls key" "tags_fit (st_clock st) now (length tags)" "[] \<notin> set tags"
    and "remove_tags st origin now cls key tags ch = Ok (st', ch')"
  shows "store_ok st' \<and> (\<forall>f\<in>set tags. \<exists>r. current_row (st_records st') cls key f = Some r \<and> rdeleted r)
    \<and> (\<forall>g. g \<notin> set tags \<longrightarrow> current_row (st_records st') cls key g = current_row (st_records st) cls key g)"
  using assms
proof (induction tags arbitrary: st ch)
  case (Cons f fs)
  let ?cr = "reading_of (st_clock st) now None"
  from Cons.prems(5) obtain vv seq where "next_seq (st_vv st) origin = Ok (vv, seq)"
    and rest: "remove_tags (st\<lparr>st_records := fst (apply_row (st_records st) (local_row origin cls key f None 0 (snd ?cr) seq) True),
        st_vv := vv, st_clock := fst ?cr\<rparr>) origin now cls key fs
        (case snd (apply_row (st_records st) (local_row origin cls key f None 0 (snd ?cr) seq) True)
           of Some c \<Rightarrow> Some c | None \<Rightarrow> ch) = Ok (st', ch')"
    unfolding remove_tags_Cons by (auto simp: result_bind_Inr_iff Let_def)
  let ?st1 = "st\<lparr>st_records := fst (apply_row (st_records st) (local_row origin cls key f None 0 (snd ?cr) seq) True),
        st_vv := vv, st_clock := fst ?cr\<rparr>"
  have 1: "store_ok ?st1 \<and> rank_zero ?st1 cls key
    \<and> (\<exists>r. current_row (st_records ?st1) cls key f = Some r \<and> rdeleted r)
    \<and> (\<forall>g. g \<noteq> f \<longrightarrow> current_row (st_records ?st1) cls key g = current_row (st_records st) cls key g)"
    by (rule remove_tag_step [OF Cons.prems(1,2), of now]) (use Cons.prems(3,4) in auto)
  have 2: "store_ok st' \<and> (\<forall>f\<in>set fs. \<exists>r. current_row (st_records st') cls key f = Some r \<and> rdeleted r)
    \<and> (\<forall>g. g \<notin> set fs \<longrightarrow> current_row (st_records st') cls key g = current_row (st_records ?st1) cls key g)"
    by (rule Cons.IH [OF _ _ _ _ rest]) (use 1 Cons.prems(3,4) in simp_all)
  show ?case
  proof (cases "f \<in> set fs")
    case True
    with 1 2 show ?thesis by auto
  next
    case False
    with 1 2 show ?thesis by (auto simp del: rec_store.simps)
  qed
qed simp

lemma set_tags_iff:
  assumes "table_ok t"
  shows "f \<in> set (set_tags t cls key s element) \<longleftrightarrow>
    (\<exists>r. current_row t cls key f = Some r \<and> \<not> rdeleted r \<and> starts_with f (s @ [set_separator])
       \<and> (case rvalue r of None \<Rightarrow> False | Some v \<Rightarrow> jindex v ''element'' = JString element))"
proof -
  have "(\<exists>c\<in>set t. cclass c = cls \<and> ckey c = key \<and> cfield c = f \<and> P (cdeleted c) (cvalue c))
      \<longleftrightarrow> (\<exists>r. current_row t cls key f = Some r \<and> P (rdeleted r) (rvalue r))" for P
  proof
    assume "\<exists>c\<in>set t. cclass c = cls \<and> ckey c = key \<and> cfield c = f \<and> P (cdeleted c) (cvalue c)"
    then obtain c where c: "c \<in> set t" "cclass c = cls" "ckey c = key" "cfield c = f" "P (cdeleted c) (cvalue c)"
      by blast
    then have "read_row c \<in> rows_of t" by (simp add: rows_of_def)
    with c show "\<exists>r. current_row t cls key f = Some r \<and> P (rdeleted r) (rvalue r)"
      by (intro exI [of _ "read_row c"]) (simp add: current_row_Some_iff [OF assms] slot_def read_row_def)
  next
    assume "\<exists>r. current_row t cls key f = Some r \<and> P (rdeleted r) (rvalue r)"
    then show "\<exists>c\<in>set t. cclass c = cls \<and> ckey c = key \<and> cfield c = f \<and> P (cdeleted c) (cvalue c)"
      by (auto simp: current_row_Some_iff [OF assms] rows_of_def slot_def read_row_def)
  qed
  from this [of "\<lambda>d v. \<not> d \<and> starts_with f (s @ [set_separator])
       \<and> (case v of None \<Rightarrow> False | Some v \<Rightarrow> jindex v ''element'' = JString element)"]
  show ?thesis by (auto simp: set_tags_def)
qed

text \<open>Removing an element from a set deletes every tag the runtime holds for it, so the element
  is gone, and touches nothing else of the record: an add under a tag it did not see stays.\<close>

theorem set_remove_observed:
  assumes "store_ok st" "rank_zero st cls key"
    and "set_remove st origin now cls key s element = Ok (st', ch)"
    and "tags_fit (st_clock st) now (length (set_tags (st_records st) cls key s element))"
  shows "set_tags (st_records st') cls key s element = []
    \<and> (\<forall>f. f \<notin> set (set_tags (st_records st) cls key s element) \<longrightarrow>
         current_row (st_records st') cls key f = current_row (st_records st) cls key f)"
proof (cases "set_tags (st_records st) cls key s element = []")
  case True
  with assms(3) have "st' = st" by (auto simp: set_remove_def result_bind_Inr_iff Let_def)
  with True show ?thesis by simp
next
  case False
  let ?tags = "set_tags (st_records st) cls key s element"
  from assms(3) False obtain st1 ch1 where rt: "remove_tags st origin now cls key ?tags None = Ok (st1, ch1)"
      and st': "st_records st' = st_records st1"
    by (auto simp: set_remove_def result_bind_Inr_iff Let_def)
  have "[] \<notin> set ?tags"
    by (auto simp: set_tags_iff [OF store_okD(1) [OF assms(1)]] starts_with_iff)
  note eff = remove_tags_effect [OF assms(1,2,4) this rt]
  then have "f \<notin> set (set_tags (st_records st1) cls key s element)" for f
    using set_tags_iff [OF store_okD(1) [of st1], of f cls key s element]
      set_tags_iff [OF store_okD(1) [OF assms(1)], of f cls key s element]
    by (cases "f \<in> set ?tags") fastforce+
  then have "set_tags (st_records st1) cls key s element = []" by (metis list.set_intros(1) neq_Nil_conv)
  with eff st' show ?thesis by simp
qed

text \<open>A set with one element added by \<open>m1\<close>.\<close>

definition wr_tag :: record_row where
  "wr_tag = \<lparr>rclass = ''note'', rkey = ''k'', rfield = ''tags'' @ [set_separator] @ ''m1.1'',
     rvalue = Some (JObject [(''element'', JString ''x''), (''value'', JNull)]),
     rclock = Hlc 10 0, rorigin = ''m1'', rseq = 1, rrank = 0, rdeleted = False\<rparr>"

definition st_set :: rec_store where
  "st_set = \<lparr>st_records = [to_cols wr_tag], st_vv = [(''m1'', 1)], st_hlc = None, st_horizon = None,
     st_clock = clock_new (Hlc 10 0), st_subscribers = []\<rparr>"

lemma wr_tag_in_range: "in_range wr_tag"
  by (simp add: wr_tag_def in_range_def packs_def)

lemma rows_of_st_set: "table_ok (st_records st_set)" "rows_of (st_records st_set) = {wr_tag}"
  by (auto simp: st_set_def table_ok_def rows_of_def read_row_to_cols wr_tag_in_range intro: wr_tag_in_range)

lemma st_set_ok: "store_ok st_set" "rank_zero st_set ''note'' ''k''"
  unfolding store_ok_def rank_zero_def rows_of_st_set
  by (simp_all add: rows_of_st_set no_buried_def buries_def value_ok_def wr_tag_def)
    (simp add: st_set_def clock_new_def)

lemma set_tags_st_set: "set_tags (st_records st_set) ''note'' ''k'' ''tags'' ''x''
    = [''tags'' @ [set_separator] @ ''m1.1'']"
  by (simp add: set_tags_def st_set_def to_cols_def wr_tag_def starts_with_iff)

theorem set_remove_observed_witness:
  "\<exists>st' ch. set_remove st_set ''m2'' 12 ''note'' ''k'' ''tags'' ''x'' = Ok (st', ch)
     \<and> set_tags (st_records st') ''note'' ''k'' ''tags'' ''x'' = []"
proof -
  have fit: "tags_fit (st_clock st_set) 12 (length (set_tags (st_records st_set) ''note'' ''k'' ''tags'' ''x''))"
    by (simp add: set_tags_st_set) (simp add: st_set_def record_eval)
  let ?w = "set_remove st_set ''m2'' 12 ''note'' ''k'' ''tags'' ''x''"
  have "\<exists>p. ?w = Ok p"
    by (simp add: set_remove_def set_tags_st_set remove_tags_Cons record_eval del: remove_tags.simps(2))
      (simp add: st_set_def vv_held_def)
  then obtain st' ch where w: "?w = Ok (st', ch)" by fastforce
  from set_remove_observed [OF st_set_ok w fit] w show ?thesis by blast
qed

end
