(* ===== verification/Record_Exchange.thy ===== *)
theory Record_Exchange
  imports Record_Properties
begin

text \<open>
  Numbers, deltas and collection: which rows a peer is sent, that none it lacks is left out, and
  that a collected tombstone's older writes stay out.
\<close>

section \<open>Numbers\<close>

text \<open>The numbers held cover the rows held.\<close>

definition numbered :: "rec_store \<Rightarrow> bool" where
  "numbered st \<longleftrightarrow> distinct (map fst (st_vv st))
     \<and> (\<forall>e\<in>set (st_vv st). 0 \<le> snd e \<and> snd e \<le> max_i64)
     \<and> (\<forall>r\<in>rows_of (st_records st). rseq r \<noteq> 0 \<and> uint (rseq r) \<le> vv_held (st_vv st) (rorigin r))"

lemma vv_held_update: "vv_held (AList.update k v vv) origin = (if origin = k then v else vv_held vv origin)"
  by (simp add: vv_held_def update_conv')

lemma set_vv_update: "e \<in> set (AList.update k v vv) \<Longrightarrow> e = (k, v) \<or> e \<in> set vv"
  by (induction vv) (auto split: if_splits)

lemma vv_held_bounds:
  "\<forall>e\<in>set vv. 0 \<le> snd e \<and> snd e \<le> max_i64 \<Longrightarrow> 0 \<le> vv_held vv k \<and> vv_held vv k \<le> max_i64"
  by (auto simp: vv_held_def max_i64_def split: option.splits dest!: map_of_SomeD)

lemma vv_raise_held:
  "0 \<le> vv_held vv k \<Longrightarrow> 0 \<le> seq \<Longrightarrow>
     vv_held (vv_raise k seq vv) origin = (if origin = k then max (vv_held vv k) seq else vv_held vv origin)"
  unfolding vv_raise_def vv_held_update by (simp add: vv_held_def split: option.splits)

lemma uint_sint_small: "w < 2 ^ 63 \<Longrightarrow> sint (w :: u64) = uint w"
proof -
  assume "w < 2 ^ 63"
  then have "uint w < 2 ^ 63" by (simp add: word_less_def)
  moreover have "- (2 ^ 63) \<le> uint w" by (rule order_trans [of _ 0]) simp_all
  ultimately show ?thesis by (simp add: sint_uint signed_take_bit_int_eq_self_iff)
qed

lemma next_seq_OkD:
  assumes "next_seq vv origin = Ok (vv', seq)" "0 \<le> vv_held vv origin"
  shows "vv' = AList.update origin (vv_held vv origin + 1) vv" "uint seq = vv_held vv origin + 1"
    "seq \<noteq> 0" "vv_held vv origin + 1 \<le> max_i64"
proof -
  from assms(1) have 1: "vv_held vv origin + 1 \<le> max_i64" "seq = word_of_int (vv_held vv origin + 1)"
    and vv: "vv' = AList.update origin (vv_held vv origin + 1) vv"
    by (auto simp: next_seq_def Let_def split: if_splits)
  then have u: "uint seq = vv_held vv origin + 1"
    using assms(2) unfolding 1(2) uint_word_of_int_eq
    by (intro take_bit_int_eq_self) (simp_all add: max_i64_def)
  show "vv' = AList.update origin (vv_held vv origin + 1) vv" "uint seq = vv_held vv origin + 1"
    "vv_held vv origin + 1 \<le> max_i64" by (fact vv u 1(1))+
  show "seq \<noteq> 0" using u assms(2) by auto
qed

lemma numbered_apply:
  assumes "numbered st" "store_ok st" "in_range r" "rseq r \<noteq> 0"
    and "distinct (map fst (st_vv st'))" "\<forall>e\<in>set (st_vv st'). 0 \<le> snd e \<and> snd e \<le> max_i64"
    and "\<And>k. vv_held (st_vv st) k \<le> vv_held (st_vv st') k"
    and "uint (rseq r) \<le> vv_held (st_vv st') (rorigin r)"
    and "st_records st' = fst (apply_row (st_records st) r l)"
  shows "numbered st'"
proof -
  have "rows_of (st_records st') \<subseteq> insert r (rows_of (st_records st))"
    using apply_row_refines [OF store_okD(1) [OF assms(2)] assms(3)] assms(9) lww_sub by simp
  then have "rseq x \<noteq> 0 \<and> uint (rseq x) \<le> vv_held (st_vv st') (rorigin x)"
    if "x \<in> rows_of (st_records st')" for x
    using that assms(1,4,8) assms(7) [of "rorigin x"] by (auto simp: numbered_def intro: order_trans)
  with assms(5,6) show ?thesis by (simp add: numbered_def)
qed

lemma numbered_next:
  assumes "numbered st" "next_seq (st_vv st) origin = Ok (vv, seq)"
  shows "distinct (map fst vv)" "\<forall>e\<in>set vv. 0 \<le> snd e \<and> snd e \<le> max_i64"
    "vv_held (st_vv st) k \<le> vv_held vv k" "uint seq \<le> vv_held vv origin"
    "vv_held vv origin = uint seq" "vv_held vv origin = vv_held (st_vv st) origin + 1"
proof -
  have b: "0 \<le> vv_held (st_vv st) k" for k
    using assms(1) vv_held_bounds [of "st_vv st" k] by (auto simp: numbered_def)
  note n = next_seq_OkD [OF assms(2) b]
  show "distinct (map fst vv)" using assms(1) by (simp add: n(1) numbered_def distinct_update)
  show "\<forall>e\<in>set vv. 0 \<le> snd e \<and> snd e \<le> max_i64"
    using assms(1) n(4) b [of origin] by (auto simp: n(1) numbered_def dest!: set_vv_update)
  show "vv_held (st_vv st) k \<le> vv_held vv k" "uint seq \<le> vv_held vv origin"
    "vv_held vv origin = uint seq" "vv_held vv origin = vv_held (st_vv st) origin + 1"
    by (simp_all add: n(1,2) vv_held_update)
qed

lemma numbered_write_local:
  assumes "numbered st" "store_ok st" "rank < 2 ^ 63" "reading_fits (st_clock st) now at"
    and "write_local print st origin now cls key field val rank at = Ok (st', ch)"
  shows "numbered st'"
  using assms(5)
proof (cases rule: write_local_cases)
  case kept
  with assms(1) show ?thesis by simp
next
  case (wrote vv seq)
  have b: "0 \<le> vv_held (st_vv st) origin"
    using assms(1) vv_held_bounds [of "st_vv st"] by (auto simp: numbered_def)
  note n = numbered_next [OF assms(1) wrote(1)]
  let ?r = "local_row origin cls key field val rank (snd (reading_of (st_clock st) now at)) seq"
  have st': "st_records st' = fst (apply_row (st_records st) ?r True)" "st_vv st' = vv"
    using arg_cong [OF wrote(4), of fst] by (simp_all add: commit_local_simps)
  show ?thesis
    by (rule numbered_apply [OF assms(1,2) _ _ _ _ _ _ st'(1)])
      (use n next_seq_OkD(3) [OF wrote(1) b] assms(3,4) st'(2) in \<open>simp_all add: in_range_def reading_fits_def\<close>)
qed

lemma numbered_merge_row:
  assumes "numbered (fst acc)" "store_ok (fst acc)" "in_range r" "rseq r < 2 ^ 63"
  shows "numbered (fst (merge_row print now h acc r))"
proof (cases "taken print (st_records (fst acc)) r")
  case False
  have "st_records (fst (merge_row print now h acc r)) = st_records (fst acc)"
    "st_vv (fst (merge_row print now h acc r)) = st_vv (fst acc)"
    using False by (simp_all add: merge_row_records merge_row_vv)
  then show ?thesis using assms(1) by (simp add: numbered_def)
next
  case True
  let ?vv = "st_vv (fst acc)" and ?st = "fst (merge_row print now h acc r)"
  have b: "0 \<le> vv_held ?vv k \<and> vv_held ?vv k \<le> max_i64" for k
    using assms(1) vv_held_bounds [of ?vv] by (auto simp: numbered_def)
  have s: "sint (rseq r) = uint (rseq r)" "uint (rseq r) \<le> max_i64"
    using assms(4) by (simp_all add: uint_sint_small max_i64_def word_less_def)
  have vv: "st_vv ?st = vv_raise (rorigin r) (uint (rseq r)) ?vv" using True s by (simp add: merge_row_vv)
  have d: "distinct (map fst (st_vv ?st))"
    using assms(1) by (simp add: vv vv_raise_def numbered_def distinct_update)
  have e: "\<forall>e\<in>set (st_vv ?st). 0 \<le> snd e \<and> snd e \<le> max_i64"
    using assms(1) s by (auto simp: vv vv_raise_def numbered_def dest!: set_vv_update
        split: option.splits dest: map_of_SomeD)
  have g: "vv_held ?vv k \<le> vv_held (st_vv ?st) k" "uint (rseq r) \<le> vv_held (st_vv ?st) (rorigin r)" for k
    using b by (simp_all add: vv vv_raise_held)
  have z: "rseq r \<noteq> 0" using True by (auto simp: taken_def refused_def)
  show ?thesis
  proof (cases "behind_horizon h (st_records (fst acc)) (restore_null r)")
    case True
    then have "st_records ?st = st_records (fst acc)" by (simp add: merge_row_records)
    moreover have "rseq x \<noteq> 0 \<and> uint (rseq x) \<le> vv_held (st_vv ?st) (rorigin x)"
      if "x \<in> rows_of (st_records (fst acc))" for x
    proof -
      from that assms(1) have "rseq x \<noteq> 0" "uint (rseq x) \<le> vv_held ?vv (rorigin x)"
        by (simp_all add: numbered_def)
      then show ?thesis using g(1) [of "rorigin x"] order_trans by blast
    qed
    ultimately show ?thesis using d e by (simp add: numbered_def)
  next
    case False
    show ?thesis
    proof (rule numbered_apply [OF assms(1,2) _ _ d e g(1)])
      show "in_range (restore_null r)" using assms(3) by (simp add: in_range_def)
      show "st_records ?st = fst (apply_row (st_records (fst acc)) (restore_null r) False)"
        using False True by (simp add: merge_row_records)
    qed (simp_all add: z g(2))
  qed
qed

lemma numbered_merge:
  assumes "numbered st" "store_ok st" "\<forall>r\<in>set rows. in_range r \<and> rseq r < 2 ^ 63"
  shows "numbered (fst (merge_batch print st now rows))"
proof -
  have "numbered (fst acc) \<Longrightarrow> store_ok (fst acc) \<Longrightarrow> \<forall>r\<in>set rows. in_range r \<and> rseq r < 2 ^ 63 \<Longrightarrow>
      numbered (fst (foldl (merge_row print now h) acc rows))" for acc h
    by (induction rows arbitrary: acc) (simp_all add: numbered_merge_row merge_row_ok)
  from this [of "(st, [], 0)"] assms have "numbered (fst (merge_rows print now st rows))"
    by (simp add: merge_rows_def)
  then show ?thesis
    using assms(1) unfolding merge_batch_fst by (cases "rows = []") (simp_all add: numbered_def)
qed

section \<open>Deltas\<close>

text \<open>One origin's rows: what is taken, what it costs, and that stopping means the budget ran out.\<close>

lemma delta_take_spec:
  assumes "delta_take allow cost found (budget, rows) = (stop, left, out)"
  shows "\<exists>new. out = rows @ new \<and> set new \<subseteq> {r \<in> set found. allow r}
    \<and> left + sum_list (map cost new) = budget
    \<and> (\<not> stop \<longrightarrow> new = filter allow found)"
  using assms
proof (induction found arbitrary: budget rows)
  case (Cons r found)
  show ?case
  proof (cases "allow r \<and> cost r \<le> budget")
    case True
    then have "delta_take allow cost found (budget - cost r, rows @ [r]) = (stop, left, out)"
      using Cons.prems by simp
    from Cons.IH [OF this] obtain new where "out = (rows @ [r]) @ new"
        "set new \<subseteq> {r \<in> set found. allow r}" "left + sum_list (map cost new) = budget - cost r"
        "\<not> stop \<longrightarrow> new = filter allow found" by blast
    with True show ?thesis by (intro exI [of _ "r # new"]) auto
  next
    case False
    show ?thesis
    proof (cases "allow r")
      case True
      with False Cons.prems show ?thesis by (intro exI [of _ "[]"]) auto
    next
      case no: False
      with Cons.prems Cons.IH [of budget rows] show ?thesis by fastforce
    qed
  qed
qed simp

definition peer_holds :: "(string \<times> u64) list \<Rightarrow> string \<Rightarrow> u64" where
  "peer_holds peer origin = (case map_of peer origin of None \<Rightarrow> 0 | Some k \<Rightarrow> k)"

lemma delta_origins_spec:
  assumes "delta_origins allow cost t peer vv (budget, rows) = (left, out, omitted)"
  shows "\<exists>new. out = rows @ new
    \<and> (\<forall>r\<in>set new. \<exists>(origin, held)\<in>set vv. r \<in> set (delta_found t origin (peer_holds peer origin)) \<and> allow r)
    \<and> left + sum_list (map cost new) = budget
    \<and> (\<not> omitted \<longrightarrow> (\<forall>(origin, held)\<in>set vv. held > peer_holds peer origin \<longrightarrow>
         {r \<in> set (delta_found t origin (peer_holds peer origin)). allow r} \<subseteq> set new))"
  using assms
proof (induction vv arbitrary: budget rows)
  case (Cons e vv)
  obtain origin held where e: "e = (origin, held)" by (cases e)
  let ?k = "peer_holds peer origin"
  show ?case
  proof (cases "held \<le> ?k")
    case True
    then have "delta_origins allow cost t peer vv (budget, rows) = (left, out, omitted)"
      using Cons.prems by (simp add: e peer_holds_def)
    from Cons.IH [OF this] True show ?thesis by (auto simp: e)
  next
    case False
    obtain stop l2 o2 where dt: "delta_take allow cost (delta_found t origin ?k) (budget, rows) = (stop, l2, o2)"
      by (cases "delta_take allow cost (delta_found t origin ?k) (budget, rows)") auto
    from delta_take_spec [OF dt] obtain n1 where n1: "o2 = rows @ n1"
        "set n1 \<subseteq> {r \<in> set (delta_found t origin ?k). allow r}"
        "l2 + sum_list (map cost n1) = budget" "\<not> stop \<longrightarrow> n1 = filter allow (delta_found t origin ?k)" by blast
    show ?thesis
    proof (cases stop)
      case True
      with Cons.prems False dt have "left = l2" "out = o2" "omitted" by (simp_all add: e peer_holds_def)
      with n1 show ?thesis by (intro exI [of _ n1]) (auto simp: e)
    next
      case go: False
      with Cons.prems False dt have "delta_origins allow cost t peer vv (l2, o2) = (left, out, omitted)"
        by (simp add: e peer_holds_def)
      from Cons.IH [OF this] obtain n2 where n2: "out = o2 @ n2"
          "\<forall>r\<in>set n2. \<exists>(origin, held)\<in>set vv. r \<in> set (delta_found t origin (peer_holds peer origin)) \<and> allow r"
          "left + sum_list (map cost n2) = l2"
          "\<not> omitted \<longrightarrow> (\<forall>(origin, held)\<in>set vv. held > peer_holds peer origin \<longrightarrow>
             {r \<in> set (delta_found t origin (peer_holds peer origin)). allow r} \<subseteq> set n2)" by blast
      have "set n1 = {r \<in> set (delta_found t origin ?k). allow r}" using n1(4) go by auto
      with n1 n2 show ?thesis by (intro exI [of _ "n1 @ n2"]) (auto simp: e)
    qed
  qed
qed simp

lemma delta_found_iff:
  "table_ok t \<Longrightarrow> r \<in> set (delta_found t origin known) \<longleftrightarrow>
     r \<in> rows_of t \<and> rorigin r = origin \<and> sint (rseq r) > sint known"
proof -
  assume t: "table_ok t"
  have "r \<in> set (delta_found t origin known) \<longleftrightarrow>
      (\<exists>c\<in>set t. read_row c = r \<and> corigin c = origin \<and> cseq c > sint known)"
    by (auto simp: delta_found_def)
  moreover have "read_row c = r \<and> corigin c = origin \<and> cseq c > sint known \<longleftrightarrow>
      in_range r \<and> c = to_cols r \<and> rorigin r = origin \<and> sint (rseq r) > sint known" if "c \<in> set t" for c
    unfolding read_row_eq_iff [OF t that] by auto
  ultimately show ?thesis using t by (auto simp: rows_of_iff)
qed

lemma version_vector_iff:
  "(origin, held) \<in> set (version_vector st) \<longleftrightarrow> (\<exists>s. (origin, s) \<in> set (st_vv st) \<and> held = word_of_int s)"
  by (force simp: version_vector_def)

lemma numbered_held:
  assumes "numbered st" "r \<in> rows_of (st_records st)" "rseq r > known"
  shows "\<exists>held. (rorigin r, held) \<in> set (version_vector st) \<and> held > known"
proof -
  let ?s = "vv_held (st_vv st) (rorigin r)"
  have r: "rseq r \<noteq> 0" "uint (rseq r) \<le> ?s" using assms(1,2) by (auto simp: numbered_def)
  have "uint (rseq r) \<noteq> 0" using r(1) by (metis uint_0_iff)
  with r(2) have "?s \<noteq> 0" using uint_ge_0 [of "rseq r"] by linarith
  then have m: "(rorigin r, ?s) \<in> set (st_vv st)"
    by (auto simp: vv_held_def split: option.splits dest: map_of_SomeD)
  have "?s < 2 ^ 64" "0 \<le> ?s"
    using assms(1) vv_held_bounds [of "st_vv st" "rorigin r"] by (auto simp: numbered_def max_i64_def)
  then have "uint (word_of_int ?s :: u64) = ?s" by (simp add: uint_word_of_int_eq take_bit_int_eq_self)
  with r(2) assms(3) have "(word_of_int ?s :: u64) > known" by (simp add: word_less_def)
  with m show ?thesis by (auto simp: version_vector_iff)
qed

text \<open>C38: A delta holds only rows the store holds, that the filter passes and the peer lacks, within
  the budget; and unless it says rows were left out, it holds all of them.\<close>

theorem delta_exact:
  assumes "store_ok st" "numbered st"
    and "\<forall>r\<in>rows_of (st_records st). rseq r < 2 ^ 63"
    and "\<forall>origin. peer_holds peer origin < 2 ^ 63"
    and "delta_where cost st peer budget allow = (left, rows, omitted)"
  shows "left + sum_list (map cost rows) = budget
    \<and> set rows \<subseteq> {r \<in> rows_of (st_records st). allow r \<and> peer_holds peer (rorigin r) < rseq r}
    \<and> (\<not> omitted \<longrightarrow> set rows = {r \<in> rows_of (st_records st). allow r \<and> peer_holds peer (rorigin r) < rseq r})"
proof -
  let ?lacks = "\<lambda>r. peer_holds peer (rorigin r) < rseq r"
  have lacks: "r \<in> set (delta_found (st_records st) origin (peer_holds peer origin)) \<longleftrightarrow>
      r \<in> rows_of (st_records st) \<and> rorigin r = origin \<and> ?lacks r" for r origin
    using assms(3,4) by (auto simp: delta_found_iff [OF store_okD(1) [OF assms(1)]] sint_rank_less)
  from delta_origins_spec [OF assms(5) [unfolded delta_where_def]]
  have 1: "left + sum_list (map cost rows) = budget"
      and 2: "\<forall>r\<in>set rows. \<exists>(origin, held)\<in>set (version_vector st).
        r \<in> set (delta_found (st_records st) origin (peer_holds peer origin)) \<and> allow r"
      and 3: "\<not> omitted \<longrightarrow> (\<forall>(origin, held)\<in>set (version_vector st). held > peer_holds peer origin \<longrightarrow>
        {r \<in> set (delta_found (st_records st) origin (peer_holds peer origin)). allow r} \<subseteq> set rows)"
    by auto
  have sub: "set rows \<subseteq> {r \<in> rows_of (st_records st). allow r \<and> ?lacks r}"
    using 2 lacks by fastforce
  moreover have "r \<in> set rows" if "\<not> omitted" "r \<in> rows_of (st_records st)" "allow r" "?lacks r" for r
    using numbered_held [OF assms(2) that(2,4)] 3 that lacks by fastforce
  ultimately show ?thesis using 1 by blast
qed


theorem delta_exact_witness:
  "\<exists>left rows omitted. delta_where (\<lambda>_. 7) st_one [] 100 (\<lambda>_. True) = (left, rows, omitted)
     \<and> left + sum_list (map (\<lambda>_. 7) rows) = 100"
proof -
  obtain left rows omitted where d: "delta_where (\<lambda>_. 7) st_one [] 100 (\<lambda>_. True) = (left, rows, omitted)"
    by (metis prod_cases3)
  have "numbered st_one"
    unfolding numbered_def rows_of_st_one by (simp add: wr_a_def) (simp add: st_one_def max_i64_def vv_held_def)
  from delta_exact [OF st_one_ok this _ _ d] d show ?thesis
    by (simp add: rows_of_st_one wr_a_def peer_holds_def)
qed

text \<open>The numbers a store holds keep covering its rows through local writes and merges, and a
  local write takes the number after the highest it held of its origin.\<close>

theorem write_numbers_fresh:
  assumes "numbered st" "store_ok st" "rank < 2 ^ 63" "reading_fits (st_clock st) now at"
    and "write_local print st origin now cls key field val rank at = Ok (st', ch)" "st' \<noteq> st"
    and "r \<in> rows_of (st_records st)" "rorigin r = origin"
  shows "numbered st' \<and> vv_held (st_vv st') origin = vv_held (st_vv st) origin + 1
    \<and> uint (rseq r) < vv_held (st_vv st') origin"
  using assms(5)
proof (cases rule: write_local_cases)
  case (wrote vv seq)
  have "st_vv st' = vv" using arg_cong [OF wrote(4), of fst] by (simp add: commit_local_simps)
  moreover have "uint (rseq r) \<le> vv_held (st_vv st) origin" using assms(1,7,8) by (auto simp: numbered_def)
  ultimately show ?thesis
    using numbered_next(6) [OF assms(1) wrote(1)] numbered_write_local [OF assms(1-5)] by simp
qed (use assms(6) in simp)

theorem write_numbers_fresh_witness:
  "\<exists>st' ch. write_local no_text st_one ''m1'' 12 ''note'' ''k'' ''title'' (Some JNull) 0 None = Ok (st', ch)
     \<and> vv_held (st_vv st') ''m1'' = vv_held (st_vv st_one) ''m1'' + 1"
proof -
  have n: "numbered st_one"
    unfolding numbered_def rows_of_st_one by (simp add: wr_a_def) (simp add: st_one_def max_i64_def vv_held_def)
  let ?w = "write_local no_text st_one ''m1'' 12 ''note'' ''k'' ''title'' (Some JNull) 0 None"
  have "case ?w of Inr p \<Rightarrow> st_hlc (fst p) \<noteq> None | Inl e \<Rightarrow> False"
    by (simp add: write_local_def record_eval current_row_st_one outranks_def commit_local_simps)
      (simp add: wr_a_def st_one_def)
  then obtain st' ch where w: "?w = Ok (st', ch)" and "st_hlc st' \<noteq> None"
    by (cases ?w) auto
  then have "st' \<noteq> st_one" by (auto simp: st_one_def)
  moreover have "reading_fits (st_clock st_one) 12 None" by (simp add: st_one_def record_eval)
  moreover have "wr_a \<in> rows_of (st_records st_one)" "rorigin wr_a = ''m1''"
    by (simp_all add: rows_of_st_one) (simp add: wr_a_def)
  ultimately show ?thesis using write_numbers_fresh [OF n st_one_ok _ _ w] w by simp
qed

section \<open>Collection\<close>

lemma from_hex_bound: "from_hex acc s = Some n \<Longrightarrow> n < (acc + 1) * 16 ^ length s"
proof (induction s arbitrary: acc)
  case (Cons c s)
  from Cons.prems obtain d where d: "hex_value c = Some d" "from_hex (acc * 16 + d) s = Some n"
    by (auto split: option.splits)
  then have "d < 16" by (auto simp: hex_value_def Let_def split: if_splits)
  have "n < (acc * 16 + d + 1) * 16 ^ length s" using Cons.IH [OF d(2)] by simp
  also have "\<dots> \<le> ((acc + 1) * 16) * 16 ^ length s" using \<open>d < 16\<close> by (intro mult_right_mono) simp_all
  finally show ?case by (simp add: algebra_simps)
qed simp

lemma parse_prints: "parse s = Ok h \<Longrightarrow> prints h"
proof -
  assume "parse s = Ok h"
  then obtain m c where s: "length s = 16" "from_hex 0 (take 12 s) = Some m" "h = Hlc (of_nat m) (of_nat c)"
    by (auto simp: parse_def split: if_splits option.splits)
  have "m < 16 ^ 12" using from_hex_bound [OF s(2)] s(1) by simp
  moreover from this have "unat (of_nat m :: u64) = m" by (simp add: unat_of_nat take_bit_nat_eq_self)
  ultimately show "prints h" by (simp add: s(3) prints_unat)
qed

lemma packed_cols: "cclock (to_cols r) = packed (rclock r)"
  by (simp add: to_cols_def)

lemma collected_iff:
  assumes "store_ok st" "packs before"
  shows "d \<in> set (collected st before covered) \<longleftrightarrow>
    d \<in> rows_of (st_records st) \<and> rdeleted d \<and> rclock d < before \<and> covered (rorigin d) (rseq d)"
proof -
  note t = store_okD(1) [OF assms(1)]
  have "read_row c = d \<and> cdeleted c \<and> cclock c < packed before \<longleftrightarrow>
      in_range d \<and> c = to_cols d \<and> rdeleted d \<and> rclock d < before" if "c \<in> set (st_records st)" for c
    unfolding read_row_eq_iff [OF t that]
    by (auto simp: in_range_def packed_cols packed_less_iff [OF _ assms(2)])
  then have "(\<exists>c\<in>set (st_records st). read_row c = d \<and> cdeleted c \<and> cclock c < packed before)
      \<longleftrightarrow> in_range d \<and> to_cols d \<in> set (st_records st) \<and> rdeleted d \<and> rclock d < before"
    by (simp only: cong: bex_cong) auto
  moreover have "d \<in> set (collected st before covered) \<longleftrightarrow> covered (rorigin d) (rseq d)
      \<and> (\<exists>c\<in>set (st_records st). read_row c = d \<and> cdeleted c \<and> cclock c < packed before)"
    by (auto simp: collected_def)
  ultimately show ?thesis by (auto simp: rows_of_iff [OF t])
qed

lemma collect_horizon:
  assumes "store_ok st" "packs before" "d \<in> set (collected st before covered)"
  shows "\<exists>h. get_horizon (fst (collect_tombs st before covered)) = Some h \<and> rclock d \<le> h"
proof -
  let ?gone = "collected st before covered"
  let ?start = "case get_horizon st of None \<Rightarrow> hlc_default | Some h \<Rightarrow> h"
  let ?h = "foldl (\<lambda>m r. max m (rclock r)) ?start ?gone"
  have "prints ?start"
  proof (cases "get_horizon st")
    case (Some h)
    then show ?thesis by (auto simp: get_horizon_def parse_prints split: option.splits sum.splits)
  qed (simp add: hlc_default_def prints_def)
  moreover have "prints (rclock r)" if "r \<in> set ?gone" for r
    using that collected_iff [OF assms(1,2)] rows_of_iff [OF store_okD(1) [OF assms(1)]]
    by (simp add: in_range_def packs_prints)
  ultimately have "prints ?h" using foldl_max_in [of ?start ?gone] by (metis imageE insertE)
  moreover have "?gone \<noteq> []" using assms(3) by auto
  ultimately have "get_horizon (fst (collect_tombs st before covered)) = Some ?h"
    by (simp add: get_horizon_def collect_tombs_eq Let_def parse_display)
  then show ?thesis using foldl_max_member [OF assms(3)] by blast
qed

text \<open>The rows a collection drops.\<close>

definition collectable :: "hlc \<Rightarrow> (string \<Rightarrow> u64 \<Rightarrow> bool) \<Rightarrow> record_row \<Rightarrow> bool" where
  "collectable before covered d \<longleftrightarrow> rdeleted d \<and> rclock d < before \<and> covered (rorigin d) (rseq d)"

lemma collect_rows:
  assumes "store_ok st" "packs before" "collect_tombs st before covered = (st', n)"
  shows "rows_of (st_records st') = {x \<in> rows_of (st_records st). \<not> collectable before covered x}"
proof -
  note t = store_okD(1) [OF assms(1)] and gone = collected_iff [OF assms(1,2), of _ covered]
  have recs: "set (st_records st') = {c \<in> set (st_records st). \<forall>q\<in>set (collected st before covered).
      \<not> (cclass c = rclass q \<and> ckey c = rkey q \<and> cfield c = rfield q)}"
    using assms(3) by (auto simp: collect_tombs_eq Let_def set_delete_slots split: if_splits)
  have ok': "table_ok (st_records st')" using collect_ok [OF assms(1)] assms(3) store_okD(1) by (metis fst_conv)
  have "slot x = slot q \<longrightarrow> x = q" if "x \<in> rows_of (st_records st)" "q \<in> set (collected st before covered)" for x q
    using that gone rows_of_slot_unique [OF t, of x q] by blast
  then have "x \<in> rows_of (st_records st') \<longleftrightarrow> x \<in> rows_of (st_records st) \<and> x \<notin> set (collected st before covered)" for x
    by (auto simp: rows_of_iff [OF ok'] rows_of_iff [OF t] recs slot_def)
  then show ?thesis using gone by (auto simp: collectable_def)
qed

text \<open>C8: A collection drops exactly the deletions that are older than its limit and covered, live rows and every other
  tombstone stay, and what it dropped leaves a horizon: a row no later than a dropped one, for a slot nothing is held for,
  changes no record when it arrives.\<close>

theorem collect_no_resurrection:
  assumes "store_ok st" "packs before" "collect_tombs st before covered = (st', n)"
  shows "rows_of (st_records st') = {x \<in> rows_of (st_records st). \<not> collectable before covered x}
    \<and> (\<forall>d (r :: record_row) now. d \<in> rows_of (st_records st) \<longrightarrow> collectable before covered d \<longrightarrow> rclock r \<le> rclock d
        \<longrightarrow> current_row (st_records st') (rclass r) (rkey r) (rfield r) = None
        \<longrightarrow> st_records (fst (merge_batch print st' now [r])) = st_records st')"
proof (intro conjI allI impI)
  show "rows_of (st_records st') = {x \<in> rows_of (st_records st). \<not> collectable before covered x}" by (rule collect_rows [OF assms])
  fix d and r :: record_row and now
  assume d: "d \<in> rows_of (st_records st)" "collectable before covered d" "rclock r \<le> rclock d"
    and new: "current_row (st_records st') (rclass r) (rkey r) (rfield r) = None"
  have "d \<in> set (collected st before covered)" using collected_iff [OF assms(1,2)] d by (simp add: collectable_def)
  from collect_horizon [OF assms(1,2) this] assms(3) obtain h where "get_horizon st' = Some h" "rclock d \<le> h" by auto
  with d(3) new order_trans [of "rclock r" "rclock d" h] show "st_records (fst (merge_batch print st' now [r])) = st_records st'"
    by (simp add: merge_batch_fst merge_rows_def merge_row_records behind_horizon_def)
qed

text \<open>A store that holds one old tombstone, of rank 5, and a later write of rank 3 to its record.\<close>

definition wr_old :: record_row where
  "wr_old = \<lparr>rclass = ''agent'', rkey = ''k'', rfield = [], rvalue = None,
     rclock = Hlc 10 0, rorigin = ''m2'', rseq = 1, rrank = 5, rdeleted = True\<rparr>"

definition wr_low :: record_row where
  "wr_low = \<lparr>rclass = ''agent'', rkey = ''k'', rfield = ''name'', rvalue = Some JNull,
     rclock = Hlc 11 0, rorigin = ''m3'', rseq = 1, rrank = 3, rdeleted = False\<rparr>"

definition st_tomb :: rec_store where
  "st_tomb = \<lparr>st_records = [to_cols wr_old], st_vv = [(''m2'', 1)], st_hlc = None, st_horizon = None,
     st_clock = clock_new (Hlc 10 0), st_subscribers = []\<rparr>"

lemma wr_old_low: "in_range wr_old" "in_range wr_low"
  by (simp_all add: wr_old_def wr_low_def in_range_def packs_def)

lemma rows_of_st_tomb: "table_ok (st_records st_tomb)" "rows_of (st_records st_tomb) = {wr_old}"
  by (auto simp: st_tomb_def table_ok_def rows_of_def read_row_to_cols wr_old_low intro: wr_old_low)

lemma st_tomb_ok: "store_ok st_tomb"
  unfolding store_ok_def rows_of_st_tomb
  by (simp add: rows_of_st_tomb no_buried_def buries_def value_ok_def wr_old_def)
    (simp add: st_tomb_def clock_new_def)

lemma st_tomb_collected:
  "collected st_tomb (Hlc 50 0) (\<lambda>_ _. True) = [wr_old]"
  "st_records (fst (collect_tombs st_tomb (Hlc 50 0) (\<lambda>_ _. True))) = []"
proof -
  have "cclock (to_cols wr_old) < packed (Hlc 50 0)"
    using packed_less_iff [of "Hlc 10 0" "Hlc 50 0"]
    by (simp add: packed_cols) (simp add: wr_old_def packs_def less_hlc_def)
  moreover have "rdeleted wr_old" by (simp add: wr_old_def)
  ultimately show *: "collected st_tomb (Hlc 50 0) (\<lambda>_ _. True) = [wr_old]"
    by (simp add: collected_def st_tomb_def read_row_to_cols wr_old_low)
  show "st_records (fst (collect_tombs st_tomb (Hlc 50 0) (\<lambda>_ _. True))) = []"
    by (simp add: collect_tombs_eq * Let_def delete_slot_def) (simp add: st_tomb_def)
qed

theorem collect_no_resurrection_witness:
  "rows_of (st_records (fst (collect_tombs st_tomb (Hlc 50 0) (\<lambda>_ _. True)))) = {}
    \<and> st_records (fst (merge_batch no_text (fst (collect_tombs st_tomb (Hlc 50 0) (\<lambda>_ _. True))) 60
      [wr_low\<lparr>rclock := Hlc 9 0\<rparr>])) = []"
proof -
  obtain st' n where c: "collect_tombs st_tomb (Hlc 50 0) (\<lambda>_ _. True) = (st', n)"
    by (cases "collect_tombs st_tomb (Hlc 50 0) (\<lambda>_ _. True)")
  have e: "st_records st' = []" using st_tomb_collected(2) c by simp
  have d: "wr_old \<in> rows_of (st_records st_tomb)" "collectable (Hlc 50 0) (\<lambda>_ _. True) wr_old"
    by (simp_all add: rows_of_st_tomb collectable_def) (simp_all add: wr_old_def less_hlc_def)
  have "packs (Hlc 50 0)" by (simp add: packs_def)
  note w = collect_no_resurrection [OF st_tomb_ok this c, of no_text]
  have "rclock (wr_low\<lparr>rclock := Hlc 9 0\<rparr>) \<le> rclock wr_old" by (simp add: wr_old_def less_eq_hlc_def)
  with conjunct2 [OF w, THEN spec, THEN spec, THEN spec, of wr_old "wr_low\<lparr>rclock := Hlc 9 0\<rparr>" 60] d e
  have "st_records (fst (merge_batch no_text st' 60 [wr_low\<lparr>rclock := Hlc 9 0\<rparr>])) = []" by (simp add: current_row_def)
  moreover have "rows_of (st_records st') = {}"
    using conjunct1 [OF w] by (auto simp: rows_of_st_tomb) (use d(2) in auto)
  ultimately show ?thesis by (simp add: c)
qed

text \<open>The horizon compares clocks alone, while a tombstone beats by rank first: a write of a lower
  rank that the tombstone beats is refused before the collection and taken after it, when its clock is later.\<close>

theorem collect_lower_rank_resurrects:
  "st_records (fst (merge_batch no_text st_tomb 60 [wr_low])) = st_records st_tomb
   \<and> st_records (fst (merge_batch no_text (fst (collect_tombs st_tomb (Hlc 50 0) (\<lambda>_ _. True))) 60 [wr_low]))
     = [to_cols wr_low]"
proof -
  let ?st = "fst (collect_tombs st_tomb (Hlc 50 0) (\<lambda>_ _. True))"
  have null: "restore_null wr_low = wr_low" by (simp add: restore_null_def wr_low_def)
  have taken: "taken no_text t wr_low" for t
    by (simp add: taken_def null) (simp add: refused_def audit_refused_def audit_class_def wr_low_def record_eval)
  have "version wr_low \<le> version wr_old" by (simp add: version_def wr_low_def wr_old_def)
  moreover have "current_row (st_records st_tomb) ''agent'' ''k'' [] = Some wr_old"
    by (simp add: current_row_Some_iff [OF rows_of_st_tomb(1)] rows_of_st_tomb slot_def) (simp add: wr_old_def)
  moreover have cols: "rclass wr_low = ''agent''" "rkey wr_low = ''k''" "rfield wr_low = ''name''" "rclock wr_low = Hlc 11 0"
    by (simp_all add: wr_low_def)
  ultimately have "fst (apply_row (st_records st_tomb) wr_low False) = st_records st_tomb"
    by (simp add: apply_row_fst)
  then have 1: "st_records (fst (merge_batch no_text st_tomb 60 [wr_low])) = st_records st_tomb"
    by (simp add: merge_batch_fst merge_rows_def merge_row_records null)
  have "get_horizon ?st = Some (Hlc 10 0)"
    using parse_display [of "Hlc 10 0"]
    by (simp add: get_horizon_def collect_tombs_eq st_tomb_collected Let_def)
      (simp add: st_tomb_def wr_old_def hlc_default_def max_def less_eq_hlc_def prints_def)
  then have "\<not> behind_horizon (get_horizon ?st) [] wr_low"
    by (simp add: behind_horizon_def cols less_eq_hlc_def)
  then have "st_records (fst (merge_batch no_text ?st 60 [wr_low])) = [to_cols wr_low]"
    by (simp add: merge_batch_fst merge_rows_def merge_row_records null taken st_tomb_collected
        apply_row_fst current_row_def upsert_def cols)
  with 1 show ?thesis by simp
qed

end
