(* ===== verification/Run_Cursor.thy ===== *)
theory Run_Cursor
  imports Prelude
begin

text \<open>
  Flow control of one \<open>run.stream\<close> subscription (\<open>attach/cursor.rs\<close>): which event may be
  sent next, how many events and bytes may wait unacknowledged, and what an acknowledgement
  frees. Counters are 64-bit words, as \<open>u64\<close> and \<open>usize\<close> are.
\<close>

section \<open>State\<close>

record run_stream_window =
  max_events :: u64
  max_bytes :: u64
  max_text_bytes :: u64

datatype stream_close_code = InvalidCursor | InvalidArtifactCursor | SlowConsumer

fun close_code_str :: "stream_close_code \<Rightarrow> string" where
  "close_code_str InvalidCursor = ''invalid_cursor''"
| "close_code_str InvalidArtifactCursor = ''invalid_artifact_cursor''"
| "close_code_str SlowConsumer = ''slow_consumer''"

record stream_close =
  close_code :: stream_close_code
  resumable :: bool

text \<open>\<open>RunStreamError\<close>: the protocol error is \<open>invalid_cursor\<close> whenever the close code is.\<close>

record run_stream_error =
  err_code :: string
  err_close :: stream_close

definition invalid_cursor :: run_stream_error where
  "invalid_cursor = \<lparr>err_code = ''invalid_cursor'',
     err_close = \<lparr>close_code = InvalidCursor, resumable = True\<rparr>\<rparr>"

datatype run_event_admission = Sent | Paused

record outstanding_event =
  ev_seq :: u64
  ev_bytes :: u64
  ev_text :: u64

record run_stream_cursor =
  subscription_id :: string
  run_id :: string
  first_available_run_seq :: u64
  current_run_seq :: u64
  acknowledged_run_seq :: u64
  highest_sent_run_seq :: u64
  window :: run_stream_window
  outstanding_bytes :: u64
  outstanding_text_bytes :: u64
  outstanding :: "outstanding_event list"

definition max_window_events :: u64 where "max_window_events = 1024"
definition max_window_bytes :: u64 where "max_window_bytes = 4 * 1024 * 1024"
definition max_window_text_bytes :: u64 where "max_window_text_bytes = 262144"

section \<open>Operations\<close>

definition saturating_add :: "u64 \<Rightarrow> u64 \<Rightarrow> u64" where
  "saturating_add x y = (case checked_add x y of Some z \<Rightarrow> z | None \<Rightarrow> - 1)"

definition cursor_new ::
  "string \<Rightarrow> string \<Rightarrow> u64 \<Rightarrow> u64 \<Rightarrow> u64 \<Rightarrow> u64 \<Rightarrow> u64 \<Rightarrow> u64 \<Rightarrow> run_stream_error + run_stream_cursor" where
  "cursor_new sub run first cur resume evs bytes tbytes =
     (let empty = first = saturating_add cur 1;
          bounds_valid = first > 0 \<and> (first \<le> cur \<or> empty)
            \<and> resume \<ge> saturating_sub first 1 \<and> resume \<le> cur;
          window_valid = evs > 0 \<and> evs \<le> max_window_events
            \<and> bytes > 0 \<and> bytes \<le> max_window_bytes
            \<and> tbytes > 0 \<and> tbytes \<le> max_window_text_bytes
      in if \<not> bounds_valid \<or> \<not> window_valid then Err invalid_cursor
         else Ok \<lparr>subscription_id = sub, run_id = run, first_available_run_seq = first,
                  current_run_seq = cur, acknowledged_run_seq = resume,
                  highest_sent_run_seq = resume,
                  window = \<lparr>max_events = evs, max_bytes = bytes, max_text_bytes = tbytes\<rparr>,
                  outstanding_bytes = 0, outstanding_text_bytes = 0, outstanding = []\<rparr>)"

definition admit_event ::
  "run_stream_cursor \<Rightarrow> string \<Rightarrow> u64 \<Rightarrow> u64 \<Rightarrow> u64
     \<Rightarrow> run_stream_error + run_stream_cursor \<times> run_event_admission" where
  "admit_event c run seq bytes tbytes =
     (let next_run_seq = checked_add (highest_sent_run_seq c) 1
      in if run \<noteq> run_id c \<or> Some seq \<noteq> next_run_seq then Err invalid_cursor
         else if length (outstanding c) = unat (max_events (window c))
           \<or> bytes > saturating_sub (max_bytes (window c)) (outstanding_bytes c)
           \<or> tbytes > saturating_sub (max_text_bytes (window c)) (outstanding_text_bytes c)
         then Ok (c, Paused)
         else Ok (c\<lparr>outstanding := outstanding c @ [\<lparr>ev_seq = seq, ev_bytes = bytes, ev_text = tbytes\<rparr>],
                    outstanding_bytes := outstanding_bytes c + bytes,
                    outstanding_text_bytes := outstanding_text_bytes c + tbytes,
                    highest_sent_run_seq := seq,
                    current_run_seq := max (current_run_seq c) seq\<rparr>, Sent))"

text \<open>The loop of \<open>acknowledge\<close> pops the acknowledged events from the front.\<close>

fun pop_acknowledged ::
  "u64 \<Rightarrow> outstanding_event list \<times> u64 \<times> u64 \<Rightarrow> outstanding_event list \<times> u64 \<times> u64" where
  "pop_acknowledged through ([], bytes, tbytes) = ([], bytes, tbytes)"
| "pop_acknowledged through (e # es, bytes, tbytes) =
     (if ev_seq e \<le> through then pop_acknowledged through (es, bytes - ev_bytes e, tbytes - ev_text e)
      else (e # es, bytes, tbytes))"

definition acknowledge :: "run_stream_cursor \<Rightarrow> u64 \<Rightarrow> run_stream_error + run_stream_cursor" where
  "acknowledge c through =
     (if through < acknowledged_run_seq c \<or> through > highest_sent_run_seq c then Err invalid_cursor
      else if through = acknowledged_run_seq c then Ok c
      else (case pop_acknowledged through (outstanding c, outstanding_bytes c, outstanding_text_bytes c) of
              (es, bytes, tbytes) \<Rightarrow>
                Ok (c\<lparr>outstanding := es, outstanding_bytes := bytes,
                      outstanding_text_bytes := tbytes, acknowledged_run_seq := through\<rparr>)))"

section \<open>The invariant\<close>

text \<open>
  The outstanding events are the ones sent and not acknowledged, in order and without a gap;
  the byte counters are their exact sums (no wrap), inside the window.
\<close>

definition sum_bytes :: "(outstanding_event \<Rightarrow> u64) \<Rightarrow> outstanding_event list \<Rightarrow> nat" where
  "sum_bytes f es = sum_list (map (\<lambda>e. unat (f e)) es)"

definition cursor_ok :: "run_stream_cursor \<Rightarrow> bool" where
  "cursor_ok c \<longleftrightarrow>
     acknowledged_run_seq c \<le> highest_sent_run_seq c \<and> highest_sent_run_seq c \<le> current_run_seq c
     \<and> map (\<lambda>e. unat (ev_seq e)) (outstanding c)
         = [Suc (unat (acknowledged_run_seq c)) ..< Suc (unat (highest_sent_run_seq c))]
     \<and> unat (outstanding_bytes c) = sum_bytes ev_bytes (outstanding c)
     \<and> unat (outstanding_text_bytes c) = sum_bytes ev_text (outstanding c)
     \<and> length (outstanding c) \<le> unat (max_events (window c))
     \<and> outstanding_bytes c \<le> max_bytes (window c)
     \<and> outstanding_text_bytes c \<le> max_text_bytes (window c)
     \<and> 0 < max_events (window c)"

lemma sum_bytes_simps [simp]:
  "sum_bytes f [] = 0" "sum_bytes f (e # es) = unat (f e) + sum_bytes f es"
  "sum_bytes f (es @ fs) = sum_bytes f es + sum_bytes f fs"
  by (simp_all add: sum_bytes_def)

lemma cursor_new_ok:
  "cursor_new sub run first cur resume evs bytes tbytes = Ok c \<Longrightarrow> cursor_ok c"
  by (auto simp: cursor_new_def cursor_ok_def Let_def split: if_splits)

text \<open>Room left by the saturating subtraction means the sum neither wraps nor leaves the window.\<close>

lemma room_no_wrap:
  assumes "held \<le> limit" "\<not> bytes > saturating_sub limit held"
  shows "unat (held + bytes) = unat held + unat bytes" "held + bytes \<le> (limit :: u64)"
proof -
  have "unat held \<le> unat limit" "unat bytes \<le> unat limit - unat held"
    using assms by (auto simp: word_le_nat_alt word_less_nat_alt unat_saturating_sub)
  then have le: "unat held + unat bytes \<le> unat limit" by linarith
  moreover have "unat limit < 2 ^ 64" using unat_bound [of limit] by simp
  ultimately show "unat (held + bytes) = unat held + unat bytes"
    by (simp add: unat_word_ariths)
  with le show "held + bytes \<le> limit" by (simp add: word_le_nat_alt)
qed

lemma admit_event_cases:
  assumes "admit_event c run seq bytes tbytes = Ok (c', a)"
  obtains (paused) "c' = c" "a = Paused"
  | (sent) "a = Sent" "run = run_id c" "unat seq = Suc (unat (highest_sent_run_seq c))"
      "length (outstanding c) \<noteq> unat (max_events (window c))"
      "\<not> bytes > saturating_sub (max_bytes (window c)) (outstanding_bytes c)"
      "\<not> tbytes > saturating_sub (max_text_bytes (window c)) (outstanding_text_bytes c)"
      "c' = c\<lparr>outstanding := outstanding c @ [\<lparr>ev_seq = seq, ev_bytes = bytes, ev_text = tbytes\<rparr>],
                    outstanding_bytes := outstanding_bytes c + bytes,
                    outstanding_text_bytes := outstanding_text_bytes c + tbytes,
                    highest_sent_run_seq := seq,
                    current_run_seq := max (current_run_seq c) seq\<rparr>"
proof -
  have id: "run = run_id c" and next_seq: "checked_add (highest_sent_run_seq c) 1 = Some seq"
    using assms by (simp_all add: admit_event_def Let_def split: if_splits)
  let ?full = "length (outstanding c) = unat (max_events (window c))
    \<or> bytes > saturating_sub (max_bytes (window c)) (outstanding_bytes c)
    \<or> tbytes > saturating_sub (max_text_bytes (window c)) (outstanding_text_bytes c)"
  show thesis
  proof (cases ?full)
    case True
    with assms id next_seq show thesis by (intro paused) (simp_all add: admit_event_def)
  next
    case False
    with assms id next_seq checked_add_SomeD [OF next_seq] show thesis
      by (intro sent) (simp_all add: admit_event_def)
  qed
qed

lemma admit_event_ok:
  assumes "cursor_ok c" "admit_event c run seq bytes tbytes = Ok (c', a)"
  shows "cursor_ok c'"
  using assms(2)
proof (cases rule: admit_event_cases)
  case paused
  with assms(1) show ?thesis by simp
next
  case sent
  have b: "unat (outstanding_bytes c + bytes) = unat (outstanding_bytes c) + unat bytes"
      "outstanding_bytes c + bytes \<le> max_bytes (window c)"
    by (rule room_no_wrap [OF _ sent(5)], use assms(1) in \<open>simp add: cursor_ok_def\<close>)+
  have t: "unat (outstanding_text_bytes c + tbytes) = unat (outstanding_text_bytes c) + unat tbytes"
      "outstanding_text_bytes c + tbytes \<le> max_text_bytes (window c)"
    by (rule room_no_wrap [OF _ sent(6)], use assms(1) in \<open>simp add: cursor_ok_def\<close>)+
  have ack: "unat (acknowledged_run_seq c) \<le> unat (highest_sent_run_seq c)"
    using assms(1) by (simp add: cursor_ok_def word_le_nat_alt)
  have le: "acknowledged_run_seq c \<le> seq" using sent(3) ack by (simp add: word_le_nat_alt)
  have "map (\<lambda>e. unat (ev_seq e)) (outstanding c) @ [unat seq]
      = [Suc (unat (acknowledged_run_seq c)) ..< Suc (unat seq)]"
    using assms(1) sent(3) ack by (simp add: cursor_ok_def)
  moreover have "Suc (length (outstanding c)) \<le> unat (max_events (window c))"
    using assms(1) sent(4) by (simp add: cursor_ok_def)
  ultimately show ?thesis
    using assms(1) b t le unfolding sent(7) cursor_ok_def by simp
qed

lemma pop_acknowledged_spec:
  assumes "map (\<lambda>e. unat (ev_seq e)) es = [a ..< Suc h]" "a \<le> Suc (unat through)" "unat through \<le> h"
    and "unat bytes = sum_bytes ev_bytes es" "unat tbytes = sum_bytes ev_text es"
    and "pop_acknowledged through (es, bytes, tbytes) = (es', bytes', tbytes')"
  shows "map (\<lambda>e. unat (ev_seq e)) es' = [Suc (unat through) ..< Suc h]
    \<and> unat bytes' = sum_bytes ev_bytes es' \<and> unat tbytes' = sum_bytes ev_text es'
    \<and> bytes' \<le> bytes \<and> tbytes' \<le> tbytes \<and> length es' \<le> length es"
  using assms
proof (induction es arbitrary: a bytes tbytes)
  case Nil
  then show ?case by auto
next
  case (Cons e es)
  from Cons.prems(1) have a: "a < Suc h" "unat (ev_seq e) = a" "map (\<lambda>e. unat (ev_seq e)) es = [Suc a ..< Suc h]"
    by (auto simp: upt_rec [of a] split: if_splits)
  show ?case
  proof (cases "ev_seq e \<le> through")
    case False
    with a(2) Cons.prems(2) have "a = Suc (unat through)" by (simp add: word_le_nat_alt)
    with False Cons.prems show ?thesis by auto
  next
    case True
    have b: "unat (bytes - ev_bytes e) = sum_bytes ev_bytes es" "bytes - ev_bytes e \<le> bytes"
      using Cons.prems(4) by (simp_all add: unat_sub word_le_nat_alt)
    have t: "unat (tbytes - ev_text e) = sum_bytes ev_text es" "tbytes - ev_text e \<le> tbytes"
      using Cons.prems(5) by (simp_all add: unat_sub word_le_nat_alt)
    have "map (\<lambda>e. unat (ev_seq e)) es' = [Suc (unat through) ..< Suc h]
      \<and> unat bytes' = sum_bytes ev_bytes es' \<and> unat tbytes' = sum_bytes ev_text es'
      \<and> bytes' \<le> bytes - ev_bytes e \<and> tbytes' \<le> tbytes - ev_text e \<and> length es' \<le> length es"
      by (rule Cons.IH [OF a(3)])
        (use True a(2) b t Cons.prems in \<open>simp_all add: word_le_nat_alt\<close>)
    with b(2) t(2) show ?thesis by auto
  qed
qed

lemma acknowledge_ok:
  assumes "cursor_ok c" "acknowledge c through = Ok c'"
  shows "cursor_ok c' \<and> acknowledged_run_seq c' = through \<and> highest_sent_run_seq c' = highest_sent_run_seq c
    \<and> window c' = window c \<and> run_id c' = run_id c"
proof (cases "through = acknowledged_run_seq c")
  case True
  with assms show ?thesis by (auto simp: acknowledge_def split: if_splits)
next
  case False
  obtain es bytes tbytes where pop: "pop_acknowledged through (outstanding c, outstanding_bytes c, outstanding_text_bytes c)
      = (es, bytes, tbytes)" by (metis prod_cases3)
  with assms(2) False have c': "c' = c\<lparr>outstanding := es, outstanding_bytes := bytes,
      outstanding_text_bytes := tbytes, acknowledged_run_seq := through\<rparr>"
      and r: "acknowledged_run_seq c \<le> through" "through \<le> highest_sent_run_seq c"
    by (auto simp: acknowledge_def split: if_splits)
  have "map (\<lambda>e. unat (ev_seq e)) es = [Suc (unat through) ..< Suc (unat (highest_sent_run_seq c))]
    \<and> unat bytes = sum_bytes ev_bytes es \<and> unat tbytes = sum_bytes ev_text es
    \<and> bytes \<le> outstanding_bytes c \<and> tbytes \<le> outstanding_text_bytes c \<and> length es \<le> length (outstanding c)"
    by (rule pop_acknowledged_spec [OF _ _ _ _ _ pop, where a = "Suc (unat (acknowledged_run_seq c))"])
      (use assms(1) r in \<open>simp_all add: cursor_ok_def word_le_nat_alt\<close>)
  with assms(1) r c' show ?thesis by (auto simp: cursor_ok_def intro: order_trans)
qed

section \<open>Runs of a subscription\<close>

text \<open>
  What the transport does with a cursor: it offers events and hands on acknowledgements, and
  closes the stream at the first error. The run answers the numbers sent.
\<close>

datatype stream_op = Offer string u64 u64 u64 | Ack u64

fun cursor_run :: "run_stream_cursor \<Rightarrow> stream_op list \<Rightarrow> run_stream_cursor \<times> u64 list" where
  "cursor_run c [] = (c, [])"
| "cursor_run c (Offer run seq bytes tbytes # ops) =
     (case admit_event c run seq bytes tbytes of
        Inl _ \<Rightarrow> (c, [])
      | Inr (c', Paused) \<Rightarrow> cursor_run c' ops
      | Inr (c', Sent) \<Rightarrow> (case cursor_run c' ops of (d, out) \<Rightarrow> (d, seq # out)))"
| "cursor_run c (Ack through # ops) =
     (case acknowledge c through of Inl _ \<Rightarrow> (c, []) | Inr c' \<Rightarrow> cursor_run c' ops)"

lemma cursor_run_spec:
  assumes "cursor_ok c" "cursor_run c ops = (d, out)"
  shows "cursor_ok d \<and> window d = window c
    \<and> map unat out = [Suc (unat (highest_sent_run_seq c)) ..< Suc (unat (highest_sent_run_seq c) + length out)]
    \<and> unat (highest_sent_run_seq d) = unat (highest_sent_run_seq c) + length out"
  using assms
proof (induction c ops arbitrary: out rule: cursor_run.induct)
  case (2 c run seq bytes tbytes ops)
  show ?case
  proof (cases "admit_event c run seq bytes tbytes")
    case (Inl e)
    with 2 show ?thesis by simp
  next
    case (Inr r)
    obtain c' a where r: "r = (c', a)" by (cases r)
    have ok: "cursor_ok c'" using admit_event_ok [OF "2.prems"(1)] Inr r by simp
    from Inr [unfolded r] show ?thesis
    proof (cases rule: admit_event_cases)
      case paused
      have "cursor_run c' ops = (d, out)" using "2.prems"(2) Inr r paused(2) by simp
      from "2.IH"(2) [OF Inr r [symmetric] paused(2) ok this] show ?thesis unfolding paused(1) .
    next
      case sent
      obtain o' where run: "cursor_run c' ops = (d, o')" "out = seq # o'"
        using "2.prems"(2) Inr r sent(1) by (auto split: prod.splits)
      let ?h = "unat (highest_sent_run_seq c)"
      have c': "highest_sent_run_seq c' = seq" "window c' = window c" by (simp_all add: sent(7))
      have "cursor_ok d \<and> window d = window c
        \<and> map unat o' = [Suc (unat seq) ..< Suc (unat seq + length o')]
        \<and> unat (highest_sent_run_seq d) = unat seq + length o'"
        by (rule "2.IH"(1) [OF Inr r [symmetric] sent(1) ok run(1), unfolded c'])
      then have ih: "cursor_ok d" "window d = window c" "map unat o' = [Suc (Suc ?h) ..< Suc (Suc ?h + length o')]"
          "unat (highest_sent_run_seq d) = Suc ?h + length o'"
        unfolding sent(3) by blast+
      have "map unat out = Suc ?h # [Suc (Suc ?h) ..< Suc (Suc ?h + length o')]"
        unfolding run(2) list.map ih(3) sent(3) by (rule refl)
      also have "\<dots> = [Suc ?h ..< Suc (?h + length out)]"
        by (simp add: run(2) upt_conv_Cons del: upt_Suc)
      finally show ?thesis using ih run(2) by simp
    qed
  qed
next
  case (3 c through ops)
  show ?case
  proof (cases "acknowledge c through")
    case (Inr c')
    with acknowledge_ok [OF "3.prems"(1) Inr] 3 show ?thesis by simp
  qed (use 3 in simp)
qed simp

section \<open>Properties\<close>

text \<open>C39: Whatever events are offered and acknowledgements arrive, a subscription that resumes after a
  sequence number sends the numbers after it one by one, with no gap and no repetition, and at every
  point the unacknowledged events are exactly the ones sent and not acknowledged, within the window's
  events, bytes and text bytes.\<close>

theorem stream_in_order:
  assumes "cursor_new sub run first cur resume evs bytes tbytes = Ok c" "cursor_run c ops = (d, out)"
  shows "map unat out = [Suc (unat resume) ..< Suc (unat resume + length out)]
    \<and> map (\<lambda>e. unat (ev_seq e)) (outstanding d)
        = [Suc (unat (acknowledged_run_seq d)) ..< Suc (unat resume + length out)]
    \<and> length (outstanding d) \<le> unat evs
    \<and> sum_bytes ev_bytes (outstanding d) \<le> unat bytes \<and> sum_bytes ev_text (outstanding d) \<le> unat tbytes"
proof -
  have ok: "cursor_ok c" using assms(1) by (rule cursor_new_ok)
  have c: "highest_sent_run_seq c = resume" "window c = \<lparr>max_events = evs, max_bytes = bytes, max_text_bytes = tbytes\<rparr>"
    using assms(1) by (auto simp: cursor_new_def Let_def split: if_splits)
  show ?thesis
    using cursor_run_spec [OF ok assms(2)] c by (auto simp: cursor_ok_def word_le_nat_alt)
qed

theorem stream_in_order_witness:
  "\<exists>c. cursor_new ''s'' ''r'' 1 5 2 2 100 50 = Ok c
     \<and> map unat (snd (cursor_run c [Offer ''r'' 3 60 10, Offer ''r'' 4 60 10, Ack 3, Offer ''r'' 4 60 10])) = [3, 4]"
proof -
  let ?ops = "[Offer ''r'' 3 60 10, Offer ''r'' 4 60 10, Ack 3, Offer ''r'' 4 60 10]"
  obtain c where c: "cursor_new ''s'' ''r'' 1 5 2 2 100 50 = Ok c"
    by (simp add: cursor_new_def Let_def saturating_add_def checked_add_def max_window_events_def
        max_window_bytes_def max_window_text_bytes_def saturating_sub_def)
  obtain d out where r: "cursor_run c ?ops = (d, out)" by (cases "cursor_run c ?ops")
  have "length out = 2"
    using c r
    by (simp add: cursor_new_def Let_def saturating_add_def checked_add_def max_window_events_def
        max_window_bytes_def max_window_text_bytes_def saturating_sub_def admit_event_def acknowledge_def)
      (auto simp: admit_event_def checked_add_def saturating_sub_def acknowledge_def)
  with stream_in_order [OF c r] c r show ?thesis by (simp add: upt_conv_Cons)
qed

text \<open>A subscriber that acknowledges everything it was sent is never stuck: the next event is
  admitted whenever it fits the window at all.\<close>

theorem acknowledged_stream_moves:
  assumes "cursor_ok c" "acknowledge c (highest_sent_run_seq c) = Ok c'"
    and "checked_add (highest_sent_run_seq c) 1 = Some seq"
    and "bytes \<le> max_bytes (window c)" "tbytes \<le> max_text_bytes (window c)"
  shows "\<exists>c''. admit_event c' (run_id c) seq bytes tbytes = Ok (c'', Sent) \<and> outstanding c'' = [\<lparr>ev_seq = seq, ev_bytes = bytes, ev_text = tbytes\<rparr>]"
proof -
  note a = acknowledge_ok [OF assms(1,2)]
  then have empty: "outstanding c' = []" by (auto simp: cursor_ok_def)
  with a have "outstanding_bytes c' = 0" "outstanding_text_bytes c' = 0" "0 < unat (max_events (window c))"
    by (auto simp: cursor_ok_def unat_eq_0 word_less_nat_alt)
  then show ?thesis using a empty assms(3-5) by (simp add: admit_event_def saturating_sub_def not_less)
qed

theorem acknowledged_stream_moves_witness:
  "\<exists>c c' c''. cursor_new ''s'' ''r'' 1 5 2 2 100 50 = Ok c \<and> acknowledge c 2 = Ok c'
     \<and> admit_event c' ''r'' 3 100 50 = Ok (c'', Sent)"
proof -
  let ?c = "\<lparr>subscription_id = ''s'', run_id = ''r'', first_available_run_seq = 1, current_run_seq = 5,
    acknowledged_run_seq = 2, highest_sent_run_seq = 2,
    window = \<lparr>max_events = 2, max_bytes = 100, max_text_bytes = 50\<rparr>,
    outstanding_bytes = 0, outstanding_text_bytes = 0, outstanding = []\<rparr>"
  have c: "cursor_new ''s'' ''r'' 1 5 2 2 100 50 = Ok ?c"
    by (simp add: cursor_new_def Let_def saturating_add_def checked_add_def max_window_events_def
        max_window_bytes_def max_window_text_bytes_def saturating_sub_def)
  have a: "acknowledge ?c 2 = Ok ?c" by (simp add: acknowledge_def)
  from acknowledged_stream_moves [OF cursor_new_ok [OF c], of ?c 3 100 50] a c show ?thesis
    by (auto simp: checked_add_def)
qed

end
