(* ===== verification/Framing.thy ===== *)
theory Framing
  imports Json
begin

text \<open>
  The wire frames of the attach protocol (\<open>attach/src/framing.rs\<close>): a four-byte big-endian
  length, then the JSON payload; the size limit and the structural limits of a payload.

  \<open>serde_json\<close> is an argument: \<open>to_vec\<close> serializes a value (or fails), \<open>from_value\<close> reads a
  payload as \<open>Value\<close>, \<open>from_slice\<close> reads it as the caller's type.
\<close>

section \<open>Limits and errors\<close>

definition max_frame_length :: nat where "max_frame_length = 1024 * 1024"
definition max_json_depth :: nat where "max_json_depth = 32"
definition max_json_strings :: nat where "max_json_strings = 4096"
definition max_json_entries :: nat where "max_json_entries = 4096"
definition max_text_length :: nat where "max_text_length = 65536"
definition max_artifact_base64_length :: nat where
  "max_artifact_base64_length = (256 * 1024 + 2) div 3 * 4"

datatype frame_error = PayloadTooLarge | InvalidUtf8 | InvalidJson | StructureLimit | Serialize string

section \<open>UTF-8\<close>

text \<open>\<open>std::str::from_utf8\<close>: the well-formed byte sequences of the Unicode standard.\<close>

definition cont_in :: "nat \<Rightarrow> nat \<Rightarrow> char \<Rightarrow> bool" where
  "cont_in lo hi c = (let n = of_char c :: nat in lo \<le> n \<and> n \<le> hi)"

fun valid_utf8 :: "string \<Rightarrow> bool" where
  "valid_utf8 [] = True"
| "valid_utf8 (a # s) =
     (let n = of_char a :: nat
      in if n < 0x80 then valid_utf8 s
         else if 0xC2 \<le> n \<and> n \<le> 0xDF
         then (case s of b # s1 \<Rightarrow> cont_in 0x80 0xBF b \<and> valid_utf8 s1 | _ \<Rightarrow> False)
         else if 0xE0 \<le> n \<and> n \<le> 0xEF
         then (case s of b # c # s2 \<Rightarrow>
                 cont_in (if n = 0xE0 then 0xA0 else 0x80) (if n = 0xED then 0x9F else 0xBF) b
                 \<and> cont_in 0x80 0xBF c \<and> valid_utf8 s2
               | _ \<Rightarrow> False)
         else if 0xF0 \<le> n \<and> n \<le> 0xF4
         then (case s of b # c # d # s3 \<Rightarrow>
                 cont_in (if n = 0xF0 then 0x90 else 0x80) (if n = 0xF4 then 0x8F else 0xBF) b
                 \<and> cont_in 0x80 0xBF c \<and> cont_in 0x80 0xBF d \<and> valid_utf8 s3
               | _ \<Rightarrow> False)
         else False)"

section \<open>Structure\<close>

text \<open>\<open>structure_counts\<close>: a stack of values, its top first; \<open>extend\<close> pushes in order.\<close>

lemma sum_list_rev_map: "sum_list (map f (rev xs)) = (sum_list (map f xs) :: nat)"
  by (metis rev_map sum_list_rev)

lemma size_values: "sum_list (map (\<lambda>v. Suc (size v)) vs) < Suc (Suc (size_list size vs))"
  by (induction vs) simp_all

lemma size_members:
  "sum_list (map (\<lambda>e. Suc (size (snd e))) kvs) < Suc (Suc (size_list (size_prod (\<lambda>x. 0) size) kvs))"
  by (induction kvs) (auto split: prod.splits)

lemmas stack_shrinks = sum_list_rev_map size_values size_members comp_def split_def

function counts_loop :: "json list \<Rightarrow> nat \<Rightarrow> nat \<Rightarrow> nat \<times> nat" where
  "counts_loop [] strings entries = (strings, entries)"
| "counts_loop (v # stack) strings entries =
     (case v of
        JString _ \<Rightarrow> counts_loop stack (Suc strings) entries
      | JArray vs \<Rightarrow> counts_loop (rev vs @ stack) strings (entries + length vs)
      | JObject kvs \<Rightarrow>
          counts_loop (rev (map snd kvs) @ stack) (strings + length kvs) (entries + length kvs)
      | _ \<Rightarrow> counts_loop stack strings entries)"
  by pat_completeness auto
termination
  by (relation "measure (\<lambda>(stack, _, _). sum_list (map (\<lambda>v. Suc (size v)) stack))")
    (auto simp: stack_shrinks)

definition structure_counts :: "json \<Rightarrow> nat \<times> nat" where
  "structure_counts v = counts_loop [v] 0 0"

text \<open>
  \<open>check_structure\<close> lets one string be long: the very string at \<open>body.data\<close> of an
  \<open>artifact.chunk\<close> event, which the code tells from any other by its address. The model carries
  where a value stands.
\<close>

datatype json_place = AtRoot | AtBody | AtData | Elsewhere

definition child_place :: "json_place \<Rightarrow> string \<Rightarrow> json_place" where
  "child_place r k = (if r = AtRoot \<and> k = ''body'' then AtBody
     else if r = AtBody \<and> k = ''data'' then AtData else Elsewhere)"

definition long_string_ok :: "bool \<Rightarrow> json_place \<Rightarrow> string \<Rightarrow> bool" where
  "long_string_ok artifact r s \<longleftrightarrow>
     \<not> (length s > max_text_length \<and> \<not> (artifact \<and> r = AtData \<and> length s \<le> max_artifact_base64_length))"

definition over_limit :: "nat \<Rightarrow> nat \<Rightarrow> nat \<Rightarrow> bool" where
  "over_limit reserve strings entries \<longleftrightarrow>
     strings + reserve > max_json_strings \<or> entries + reserve > max_json_entries"

function check_loop ::
  "bool \<Rightarrow> nat \<Rightarrow> (json \<times> nat \<times> json_place) list \<Rightarrow> nat \<Rightarrow> nat \<Rightarrow> frame_error + unit" where
  "check_loop artifact reserve [] strings entries = Ok ()"
| "check_loop artifact reserve ((v, depth, r) # stack) strings entries =
     (if depth > max_json_depth then Err StructureLimit
      else (case v of
        JString s \<Rightarrow>
          if \<not> long_string_ok artifact r s then Err StructureLimit
          else if over_limit reserve (Suc strings) entries then Err StructureLimit
          else check_loop artifact reserve stack (Suc strings) entries
      | JArray vs \<Rightarrow>
          if over_limit reserve strings (entries + length vs) then Err StructureLimit
          else check_loop artifact reserve (rev (map (\<lambda>v. (v, Suc depth, Elsewhere)) vs) @ stack)
                 strings (entries + length vs)
      | JObject kvs \<Rightarrow>
          if list_ex (\<lambda>(k, _). length k > max_text_length) kvs then Err StructureLimit
          else if over_limit reserve (strings + length kvs) (entries + length kvs)
          then Err StructureLimit
          else check_loop artifact reserve
                 (rev (map (\<lambda>(k, v). (v, Suc depth, child_place r k)) kvs) @ stack)
                 (strings + length kvs) (entries + length kvs)
      | _ \<Rightarrow>
          if over_limit reserve strings entries then Err StructureLimit
          else check_loop artifact reserve stack strings entries))"
  by pat_completeness auto
termination
  by (relation "measure (\<lambda>(_, _, stack, _, _). sum_list (map (\<lambda>e. Suc (size (fst e))) stack))")
    (auto simp: stack_shrinks)

definition check_structure :: "json \<Rightarrow> bool \<Rightarrow> nat \<Rightarrow> nat \<Rightarrow> frame_error + unit" where
  "check_structure v artifact first_depth reserve =
     check_loop artifact reserve [(v, first_depth, AtRoot)] 0 0"

definition fits_body_structure :: "json \<Rightarrow> nat \<Rightarrow> bool" where
  "fits_body_structure v reserve \<longleftrightarrow> check_structure v False 2 reserve = Ok ()"

text \<open>The string \<open>artifact_data\<close> names, if any.\<close>

definition artifact_data :: "json \<Rightarrow> string option" where
  "artifact_data v =
     (case v of
        JObject kvs \<Rightarrow>
          if Option.bind (map_of kvs ''event'') as_str = Some ''artifact.chunk''
          then (case map_of kvs ''body'' of
                  Some (JObject body) \<Rightarrow> Option.bind (map_of body ''data'') as_str
                | _ \<Rightarrow> None)
          else None
      | _ \<Rightarrow> None)"

section \<open>Frames\<close>

definition validate_payload :: "(string \<Rightarrow> json option) \<Rightarrow> string \<Rightarrow> frame_error + unit" where
  "validate_payload from_value payload =
     (if length payload > max_frame_length then Err PayloadTooLarge
      else if \<not> valid_utf8 payload then Err InvalidUtf8
      else (case from_value payload of
              None \<Rightarrow> Err InvalidJson
            | Some v \<Rightarrow> check_structure v (artifact_data v \<noteq> None) 1 0))"

text \<open>\<open>u32::to_be_bytes\<close> and \<open>from_be_bytes\<close>.\<close>

definition to_be_bytes :: "u32 \<Rightarrow> string" where
  "to_be_bytes w = map (\<lambda>i. char_of (unat (drop_bit (8 * i) w) mod 256)) [3, 2, 1, 0]"

definition from_be_bytes :: "string \<Rightarrow> u32" where
  "from_be_bytes bs = of_nat (foldl (\<lambda>n c. n * 256 + of_char c) 0 bs)"

definition encode_frame ::
  "('t \<Rightarrow> string + string) \<Rightarrow> (string \<Rightarrow> json option) \<Rightarrow> 't \<Rightarrow> frame_error + string" where
  "encode_frame to_vec from_value v =
     (case to_vec v of
        Inl e \<Rightarrow> Err (Serialize e)
      | Inr payload \<Rightarrow>
          result_bind (validate_payload from_value payload) (\<lambda>_.
            if length payload \<ge> 2 ^ 32 then Err PayloadTooLarge
            else Ok (to_be_bytes (of_nat (length payload)) @ payload)))"

definition decode_frame ::
  "(string \<Rightarrow> json option) \<Rightarrow> (string \<Rightarrow> 't option) \<Rightarrow> string \<Rightarrow> frame_error + ('t \<times> nat) option" where
  "decode_frame from_value from_slice bytes =
     (if length bytes < 4 then Ok None
      else
        (let len = unat (from_be_bytes (take 4 bytes))
         in if len > max_frame_length then Err PayloadTooLarge
            else if length bytes < 4 + len then Ok None
            else
              (let payload = take len (drop 4 bytes)
               in result_bind (validate_payload from_value payload) (\<lambda>_.
                    case from_slice payload of
                      None \<Rightarrow> Err InvalidJson
                    | Some v \<Rightarrow> Ok (Some (v, 4 + len))))))"

section \<open>The structural limits as a specification\<close>

text \<open>Strings and entries of a value, and the local limits at each place, by recursion.\<close>

fun jstrings :: "json \<Rightarrow> nat" where
  "jstrings (JString _) = 1"
| "jstrings (JArray vs) = sum_list (map jstrings vs)"
| "jstrings (JObject kvs) = length kvs + sum_list (map (\<lambda>e. jstrings (snd e)) kvs)"
| "jstrings _ = 0"

fun jentries :: "json \<Rightarrow> nat" where
  "jentries (JArray vs) = length vs + sum_list (map jentries vs)"
| "jentries (JObject kvs) = length kvs + sum_list (map (\<lambda>e. jentries (snd e)) kvs)"
| "jentries _ = 0"

fun jfits :: "bool \<Rightarrow> json_place \<Rightarrow> nat \<Rightarrow> json \<Rightarrow> bool" where
  "jfits artifact r d (JString s) \<longleftrightarrow> d \<le> max_json_depth \<and> long_string_ok artifact r s"
| "jfits artifact r d (JArray vs) \<longleftrightarrow> d \<le> max_json_depth \<and> (\<forall>v\<in>set vs. jfits artifact Elsewhere (Suc d) v)"
| "jfits artifact r d (JObject kvs) \<longleftrightarrow> d \<le> max_json_depth
     \<and> (\<forall>e\<in>set kvs. length (fst e) \<le> max_text_length \<and> jfits artifact (child_place r (fst e)) (Suc d) (snd e))"
| "jfits artifact r d _ \<longleftrightarrow> d \<le> max_json_depth"

lemma counts_loop_sums:
  "counts_loop stack strings entries =
     (strings + sum_list (map jstrings stack), entries + sum_list (map jentries stack))"
  by (induction stack strings entries rule: counts_loop.induct)
    (auto simp: sum_list_rev_map comp_def split: json.splits)

lemma over_limit_mono: "over_limit reserve s e \<Longrightarrow> s \<le> s' \<Longrightarrow> e \<le> e' \<Longrightarrow> over_limit reserve s' e'"
  by (auto simp: over_limit_def)

definition stack_ok :: "bool \<Rightarrow> (json \<times> nat \<times> json_place) list \<Rightarrow> bool" where
  "stack_ok artifact stack \<longleftrightarrow> (\<forall>e\<in>set stack. jfits artifact (snd (snd e)) (fst (snd e)) (fst e))"

definition stack_strings :: "(json \<times> nat \<times> json_place) list \<Rightarrow> nat" where
  "stack_strings stack = sum_list (map (\<lambda>e. jstrings (fst e)) stack)"

definition stack_entries :: "(json \<times> nat \<times> json_place) list \<Rightarrow> nat" where
  "stack_entries stack = sum_list (map (\<lambda>e. jentries (fst e)) stack)"

lemma stack_simps:
  "stack_ok artifact []" "stack_ok artifact (e # stack) \<longleftrightarrow> jfits artifact (snd (snd e)) (fst (snd e)) (fst e) \<and> stack_ok artifact stack"
  "stack_strings [] = 0" "stack_strings (e # stack) = jstrings (fst e) + stack_strings stack"
  "stack_entries [] = 0" "stack_entries (e # stack) = jentries (fst e) + stack_entries stack"
  by (simp_all add: stack_ok_def stack_strings_def stack_entries_def)

lemma stack_push_array:
  "stack_ok artifact (rev (map (\<lambda>v. (v, d, Elsewhere)) vs) @ stack) \<longleftrightarrow>
     (\<forall>v\<in>set vs. jfits artifact Elsewhere d v) \<and> stack_ok artifact stack"
  "stack_strings (rev (map (\<lambda>v. (v, d, Elsewhere)) vs) @ stack) = sum_list (map jstrings vs) + stack_strings stack"
  "stack_entries (rev (map (\<lambda>v. (v, d, Elsewhere)) vs) @ stack) = sum_list (map jentries vs) + stack_entries stack"
  by (simp_all add: stack_ok_def stack_strings_def stack_entries_def sum_list_rev_map comp_def ball_Un)

lemma stack_push_object:
  "stack_ok artifact (rev (map (\<lambda>(k, v). (v, d, child_place r k)) kvs) @ stack) \<longleftrightarrow>
     (\<forall>e\<in>set kvs. jfits artifact (child_place r (fst e)) d (snd e)) \<and> stack_ok artifact stack"
  "stack_strings (rev (map (\<lambda>(k, v). (v, d, child_place r k)) kvs) @ stack)
     = sum_list (map (\<lambda>e. jstrings (snd e)) kvs) + stack_strings stack"
  "stack_entries (rev (map (\<lambda>(k, v). (v, d, child_place r k)) kvs) @ stack)
     = sum_list (map (\<lambda>e. jentries (snd e)) kvs) + stack_entries stack"
  by (simp_all add: stack_ok_def stack_strings_def stack_entries_def sum_list_rev_map comp_def split_def ball_Un)

text \<open>The loop passes exactly when every value on the stack fits and the final totals do.\<close>

lemma check_loop_iff:
  "\<not> over_limit reserve strings entries \<Longrightarrow>
   check_loop artifact reserve stack strings entries = Ok () \<longleftrightarrow>
     stack_ok artifact stack
     \<and> \<not> over_limit reserve (strings + stack_strings stack) (entries + stack_entries stack)"
proof (induction artifact reserve stack strings entries rule: check_loop.induct)
  case (2 artifact reserve v depth r stack strings entries)
  note up = over_limit_mono [of reserve]
  show ?case
  proof (cases v)
    case (JString s)
    show ?thesis
    proof (cases "over_limit reserve (Suc strings) entries")
      case True
      with up [OF True] show ?thesis by (auto simp: JString stack_simps)
    next
      case False
      with 2 show ?thesis by (auto simp: JString stack_simps not_less)
    qed
  next
    case (JArray vs)
    show ?thesis
    proof (cases "over_limit reserve strings (entries + length vs)")
      case True
      with up [OF True] show ?thesis by (auto simp: JArray stack_simps)
    next
      case False
      with 2 show ?thesis by (auto simp: JArray stack_simps stack_push_array not_less add.assoc)
    qed
  next
    case (JObject kvs)
    show ?thesis
    proof (cases "over_limit reserve (strings + length kvs) (entries + length kvs)")
      case True
      with up [OF True] show ?thesis by (auto simp: JObject stack_simps)
    next
      case False
      have keys: "list_ex (\<lambda>(k, _). length k > max_text_length) kvs
          \<longleftrightarrow> \<not> (\<forall>e\<in>set kvs. length (fst e) \<le> max_text_length)"
        by (force simp: list_ex_iff not_le)
      show ?thesis
      proof (cases "max_json_depth < depth \<or> list_ex (\<lambda>(k, _). length k > max_text_length) kvs")
        case True
        then show ?thesis using keys by (auto simp: JObject stack_simps)
      next
        case ok: False
        with 2(6) [OF _ JObject] False keys show ?thesis
          by (simp add: JObject stack_simps stack_push_object not_less add.assoc ball_conj_distrib)
      qed
    qed
  qed (use 2 in \<open>auto simp: stack_simps not_less\<close>)
qed (simp add: stack_simps)

declare counts_loop.simps [simp del] check_loop.simps [simp del]

section \<open>The length prefix\<close>

lemma length_to_be_bytes [simp]: "length (to_be_bytes w) = 4"
  by (simp add: to_be_bytes_def)

lemma four_bytes:
  fixes n :: nat
  assumes "n < 2 ^ 32"
  shows "((n div 2 ^ 24 mod 256 * 256 + n div 2 ^ 16 mod 256) * 256 + n div 2 ^ 8 mod 256) * 256 + n mod 256 = n"
proof -
  have "n div 2 ^ 24 < 256" using assms by (simp add: less_mult_imp_div_less)
  then have hi: "n div 2 ^ 24 mod 256 = n div 2 ^ 16 div 256" by (simp add: div_mult2_eq [symmetric])
  have mid: "n div 2 ^ 16 = n div 2 ^ 8 div 256" "n div 2 ^ 8 = n div 256"
    by (simp_all add: div_mult2_eq [symmetric])
  have "n div 2 ^ 24 mod 256 * 256 + n div 2 ^ 16 mod 256 = n div 2 ^ 16"
    unfolding hi by (rule div_mult_mod_eq)
  moreover have "n div 2 ^ 16 * 256 + n div 2 ^ 8 mod 256 = n div 2 ^ 8"
    unfolding mid(1) by (rule div_mult_mod_eq)
  moreover have "n div 2 ^ 8 * 256 + n mod 256 = n" unfolding mid(2) by (rule div_mult_mod_eq)
  ultimately show ?thesis by (simp only:)
qed

lemma unat_drop_bit_div: "unat (drop_bit k (w :: u32)) = unat w div 2 ^ k"
  unfolding unat_drop_bit_eq by (rule drop_bit_eq_div)

lemma from_to_be_bytes: "from_be_bytes (to_be_bytes w) = w"
proof -
  have b: "unat w < 2 ^ 32" using unat_bound [of w] by simp
  then have hi: "unat w div 2 ^ 24 mod 256 = unat w div 2 ^ 24" by (simp add: less_mult_imp_div_less)
  from four_bytes [OF b] four_bytes [OF b, unfolded hi]
  have "foldl (\<lambda>n c. n * 256 + of_char c) 0 (to_be_bytes w) = unat w"
    unfolding to_be_bytes_def unat_drop_bit_div by (simp add: of_char_of take_bit_nat_def)
  then show ?thesis by (simp add: from_be_bytes_def)
qed

section \<open>Properties\<close>

text \<open>C40: The structural check that walks an explicit stack accepts a body exactly when every value in it
  is within the depth and text limits and its strings and collection entries, counted over the whole
  value with the reserve, are within theirs; and \<open>structure_counts\<close> is that count.\<close>

theorem structure_check_exact:
  assumes "reserve \<le> 4096"
  shows "(fits_body_structure v reserve \<longleftrightarrow> jfits False AtRoot 2 v
      \<and> fst (structure_counts v) + reserve \<le> max_json_strings
      \<and> snd (structure_counts v) + reserve \<le> max_json_entries)
    \<and> structure_counts v = (jstrings v, jentries v)"
proof -
  have "\<not> over_limit reserve 0 0"
    using assms by (simp add: over_limit_def max_json_strings_def max_json_entries_def)
  then show ?thesis
    by (auto simp: fits_body_structure_def check_structure_def check_loop_iff stack_simps
        structure_counts_def counts_loop_sums over_limit_def)
qed

theorem structure_check_exact_witness:
  "structure_counts (JObject [(''a'', JArray [JString ''x'', JNull])]) = (2, 3)
   \<and> fits_body_structure (JObject [(''a'', JArray [JString ''x'', JNull])]) 100"
  using structure_check_exact [of 100 "JObject [(''a'', JArray [JString ''x'', JNull])]"]
  by (simp add: max_json_depth_def max_json_strings_def max_json_entries_def max_text_length_def long_string_ok_def)

text \<open>A frame that was encoded decodes to the value it carries and to its own length, whatever
  bytes follow it, if the JSON library reads back what it wrote; and no proper prefix of it decodes to
  anything or fails: the reader waits for more.\<close>

theorem frame_roundtrip:
  assumes "encode_frame to_vec from_value v = Ok frame"
    and "\<And>payload. to_vec v = Ok payload \<Longrightarrow> from_slice payload = Some v"
  shows "decode_frame from_value from_slice (frame @ rest) = Ok (Some (v, length frame))
    \<and> (n < length frame \<longrightarrow> decode_frame from_value from_slice (take n frame) = Ok None)"
proof -
  from assms(1) obtain payload where p: "to_vec v = Ok payload" "validate_payload from_value payload = Ok ()"
      "length payload < 2 ^ 32" "frame = to_be_bytes (of_nat (length payload)) @ payload"
    by (auto simp: encode_frame_def result_bind_Inr_iff split: sum.splits if_splits)
  have small: "length payload \<le> max_frame_length"
    using p(2) by (simp add: validate_payload_def split: if_splits)
  have len: "unat (of_nat (length payload) :: u32) = length payload"
    using p(3) by (simp add: unat_of_nat take_bit_nat_eq_self)
  have "decode_frame from_value from_slice (frame @ rest) = Ok (Some (v, length frame))"
    using small len p assms(2) by (simp add: decode_frame_def Let_def from_to_be_bytes)
  moreover have "decode_frame from_value from_slice (take n frame) = Ok None" if "n < length frame"
  proof (cases "n < 4")
    case False
    then have "take 4 (take n frame) = to_be_bytes (of_nat (length payload))" "length (take n frame) = n"
      using that by (simp_all add: p(4) min_def)
    then show ?thesis
      using False small len p(4) that by (simp add: decode_frame_def Let_def from_to_be_bytes del: length_take take_take)
  next
    case True
    then have "length (take n frame) < 4" by simp
    then show ?thesis unfolding decode_frame_def by (simp only: if_True)
  qed
  ultimately show ?thesis by blast
qed

theorem frame_roundtrip_witness:
  "decode_frame (\<lambda>p. Some (JString p)) Some
     (to_be_bytes 2 @ ''okmore'') = Ok (Some (''ok'', 6))"
proof -
  have e: "encode_frame Ok (\<lambda>p. Some (JString p)) ''ok'' = Ok (to_be_bytes 2 @ ''ok'')"
    by (simp add: encode_frame_def validate_payload_def max_frame_length_def check_structure_def
        artifact_data_def check_loop.simps max_json_depth_def over_limit_def max_json_strings_def max_json_entries_def
        long_string_ok_def max_text_length_def)
  from frame_roundtrip [OF e, of Some "''more''"] show ?thesis by simp
qed

text \<open>A declared length above the limit is refused from the four length bytes alone, so a reader
  never waits for, or holds, more than the limit plus four bytes.\<close>

theorem decode_bounded:
  "(4 \<le> length bytes \<and> max_frame_length < unat (from_be_bytes (take 4 bytes)) \<longrightarrow>
      decode_frame from_value from_slice bytes = Err PayloadTooLarge)
   \<and> (decode_frame from_value from_slice bytes = Ok None \<longrightarrow> length bytes < 4 + max_frame_length)
   \<and> (decode_frame from_value from_slice bytes = Ok (Some (v, n)) \<longrightarrow> n \<le> length bytes \<and> 4 \<le> n)"
  by (auto simp: decode_frame_def Let_def result_bind_Inr_iff max_frame_length_def
      split: if_splits option.splits)

theorem decode_bounded_witness:
  "decode_frame (\<lambda>p. Some (JString p)) Some (to_be_bytes (2 ^ 21)) = Err PayloadTooLarge"
  using decode_bounded [of "to_be_bytes (2 ^ 21)" "\<lambda>p. Some (JString p)" Some undefined 0]
  by (simp add: from_to_be_bytes max_frame_length_def)

end
