(* ===== verification/Text_Chunks.thy ===== *)
theory Text_Chunks
  imports Framing
begin

text \<open>
  Cutting text at character boundaries. Four places of the program cut UTF-8 text into pieces of a
  bounded number of bytes: \<open>snapshot_chunks\<close> (\<open>attach/src/snapshot.rs\<close>), \<open>split_model_stream_delta\<close>, the
  chunks of the thread projection and its tail (\<open>journal/mod.rs\<close>). They share the loop that moves an index
  down to a boundary, modelled here with the facts that make the outer loops end.
\<close>

section \<open>Boundaries\<close>

definition is_char_boundary :: "string \<Rightarrow> nat \<Rightarrow> bool" where
  "is_char_boundary s i \<longleftrightarrow> i = 0 \<or> i = length s \<or> (i < length s \<and> \<not> utf8_continuation (s ! i))"

text \<open>The inner loop moves \<open>end\<close> down to a boundary; 0 is one.\<close>

fun boundary_before :: "string \<Rightarrow> nat \<Rightarrow> nat" where
  "boundary_before s 0 = 0"
| "boundary_before s (Suc n) = (if is_char_boundary s (Suc n) then Suc n else boundary_before s n)"

section \<open>Character boundaries\<close>

lemma boundary_before_le: "boundary_before s n \<le> n"
  by (induction n) auto

lemma boundary_before_boundary: "is_char_boundary s (boundary_before s n)"
  by (induction n) (auto simp: is_char_boundary_def)

lemma boundary_before_ge: "is_char_boundary s j \<Longrightarrow> j \<le> n \<Longrightarrow> j \<le> boundary_before s n"
  by (induction n) (auto simp: le_Suc_eq)

lemma cont_is_continuation: "cont_in lo hi c \<Longrightarrow> 128 \<le> lo \<Longrightarrow> hi \<le> 191 \<Longrightarrow> utf8_continuation c"
  by (auto simp: cont_in_def utf8_continuation_def Let_def)

text \<open>In well-formed text no more than three continuation bytes follow each other.\<close>

lemma valid_utf8_lead:
  "valid_utf8 (a # s) \<Longrightarrow> \<not> utf8_continuation a
     \<and> (\<exists>n\<le>3. n \<le> length s \<and> valid_utf8 (drop n s) \<and> list_all utf8_continuation (take n s))"
proof -
  assume v: "valid_utf8 (a # s)"
  let ?n = "of_char a :: nat"
  have "?n < 128 \<or> ?n \<ge> 192" using v by (auto simp: Let_def split: if_splits)
  then have "\<not> utf8_continuation a" by (auto simp: utf8_continuation_def Let_def)
  moreover have "\<exists>n\<le>3. n \<le> length s \<and> valid_utf8 (drop n s) \<and> list_all utf8_continuation (take n s)"
  proof -
    consider "?n < 0x80" | "0xC2 \<le> ?n" "?n \<le> 0xDF" | "0xE0 \<le> ?n" "?n \<le> 0xEF" | "0xF0 \<le> ?n" "?n \<le> 0xF4"
      using v by (auto simp: Let_def split: if_splits)
    then show ?thesis
    proof cases
      case 1
      with v show ?thesis by (intro exI [of _ 0]) simp
    next
      case 2
      with v show ?thesis by (intro exI [of _ 1]) (auto simp: cont_is_continuation split: list.splits)
    next
      case 3
      with v show ?thesis by (intro exI [of _ 2]) (auto simp: Let_def numeral_2_eq_2 cont_is_continuation split: list.splits)
    next
      case 4
      with v show ?thesis by (intro exI [of _ 3]) (auto simp: Let_def numeral_3_eq_3 cont_is_continuation split: list.splits)
    qed
  qed
  ultimately show ?thesis by blast
qed

lemma valid_utf8_boundary_near:
  "valid_utf8 s \<Longrightarrow> i < length s \<Longrightarrow> \<exists>j\<le>i. i \<le> j + 3 \<and> \<not> utf8_continuation (s ! j)"
proof (induction s arbitrary: i rule: length_induct)
  case (1 s)
  then obtain a t where s: "s = a # t" by (cases s) auto
  from valid_utf8_lead [of a t] 1(2) s obtain n where
    a: "\<not> utf8_continuation a" and n: "n \<le> 3" "n \<le> length t" "valid_utf8 (drop n t)" by auto
  show ?case
  proof (cases "i \<le> n")
    case True
    with a n s show ?thesis by (intro exI [of _ 0]) auto
  next
    case False
    then obtain k where k: "i = Suc (n + k)" by (metis add_Suc_right less_imp_Suc_add not_le add.commute add_Suc)
    have "\<exists>j\<le>k. k \<le> j + 3 \<and> \<not> utf8_continuation (drop n t ! j)"
      using 1(1) [rule_format, of "drop n t" k] n 1(3) s k by simp
    then obtain j where "j \<le> k" "k \<le> j + 3" "\<not> utf8_continuation (drop n t ! j)" by blast
    with n(2) s k show ?thesis by (intro exI [of _ "Suc (n + j)"]) auto
  qed
qed

text \<open>Cutting well-formed text at a boundary leaves well-formed text.\<close>

lemma valid_utf8_drop: "valid_utf8 s \<Longrightarrow> is_char_boundary s i \<Longrightarrow> valid_utf8 (drop i s)"
proof (induction s arbitrary: i rule: length_induct)
  case (1 s)
  show ?case
  proof (cases "s = [] \<or> i = 0 \<or> length s \<le> i")
    case True
    with 1(2) show ?thesis by auto
  next
    case False
    then obtain a t k where s: "s = a # t" "i = Suc k" "k < length t" by (cases s; cases i) auto
    from valid_utf8_lead [of a t] 1(2) s obtain n where
      n: "n \<le> length t" "valid_utf8 (drop n t)" "list_all utf8_continuation (take n t)" by auto
    have "n \<le> k"
    proof (rule ccontr)
      assume "\<not> n \<le> k"
      with n s(3) have "utf8_continuation (t ! k)" by (auto simp: list_all_length)
      with 1(3) s show False by (simp add: is_char_boundary_def)
    qed
    then have "is_char_boundary (drop n t) (k - n)" using 1(3) s n(1) by (auto simp: is_char_boundary_def)
    then have "valid_utf8 (drop (k - n) (drop n t))" using 1(1) [rule_format, of "drop n t" "k - n"] n s by simp
    with \<open>n \<le> k\<close> s show ?thesis by simp
  qed
qed

text \<open>Each turn of the splitting loop takes a full chunk, give or take three bytes, or the rest.\<close>

lemma next_boundary:
  assumes "4 \<le> limit" "valid_utf8 tx" "offset < length tx"
    and "e = boundary_before tx (min (offset + limit) (length tx))"
  shows "is_char_boundary tx e" "offset < e" "e \<le> length tx" "e \<le> offset + limit"
    "e = length tx \<or> offset + limit \<le> e + 3"
proof -
  let ?m = "min (offset + limit) (length tx)"
  show "is_char_boundary tx e" by (simp add: assms(4) boundary_before_boundary)
  show le: "e \<le> length tx" "e \<le> offset + limit"
    using boundary_before_le [of tx ?m] assms(4) by simp_all
  show near: "e = length tx \<or> offset + limit \<le> e + 3"
  proof (cases "offset + limit < length tx")
    case True
    then obtain j where j: "j \<le> offset + limit" "offset + limit \<le> j + 3"
        "\<not> utf8_continuation (tx ! j)"
      using valid_utf8_boundary_near [OF assms(2), of "offset + limit"] by auto
    with True have "is_char_boundary tx j" by (simp add: is_char_boundary_def)
    then have "j \<le> e" using boundary_before_ge [of tx j ?m] j(1) True assms(4) by simp
    with j(2) show ?thesis by simp
  next
    case False
    then have "length tx \<le> e"
      using boundary_before_ge [of tx "length tx" ?m] assms(4) by (simp add: is_char_boundary_def)
    with le(1) show ?thesis by simp
  qed
  then show "offset < e" using assms(1,3) by auto
qed

section \<open>Pieces\<close>

text \<open>The loop that takes a piece of at most \<open>limit\<close> bytes from \<open>start\<close> until the text ends, with fuel for its
  turns: \<open>None\<close> when the fuel runs out.\<close>

fun chunks_from :: "nat \<Rightarrow> nat \<Rightarrow> string \<Rightarrow> nat \<Rightarrow> string list option" where
  "chunks_from limit fuel tx start =
     (if start < length tx
      then (case fuel of
              0 \<Rightarrow> None
            | Suc fuel \<Rightarrow>
                (let e = boundary_before tx (min (start + limit) (length tx))
                 in map_option ((#) (take (e - start) (drop start tx))) (chunks_from limit fuel tx e)))
      else Some [])"

declare chunks_from.simps [simp del]

lemma chunks_from_spec:
  assumes "4 \<le> limit" "valid_utf8 tx" "length tx - start \<le> fuel"
  shows "\<exists>cs. chunks_from limit fuel tx start = Some cs \<and> concat cs = drop start tx
    \<and> (\<forall>c\<in>set cs. c \<noteq> [] \<and> length c \<le> limit)"
  using assms(3)
proof (induction fuel arbitrary: start)
  case 0
  then show ?case by (subst chunks_from.simps) simp
next
  case (Suc fuel)
  show ?case
  proof (cases "start < length tx")
    case True
    let ?e = "boundary_before tx (min (start + limit) (length tx))"
    note e = next_boundary [OF assms(1,2) True refl]
    have "length tx - ?e \<le> fuel" using Suc.prems e(2) True by linarith
    then obtain cs where cs: "chunks_from limit fuel tx ?e = Some cs" "concat cs = drop ?e tx"
        "\<forall>c\<in>set cs. c \<noteq> [] \<and> length c \<le> limit"
      using Suc.IH by blast
    have "take (?e - start) (drop start tx) @ drop ?e tx = drop start tx"
      using e(2) by (metis add.commute append_take_drop_id drop_drop le_add_diff_inverse2 less_imp_le)
    with cs True e show ?thesis by (subst chunks_from.simps) (auto simp: Let_def)
  qed (subst chunks_from.simps, simp)
qed

end
