(* ===== verification/Snapshot.thy ===== *)
theory Snapshot
  imports Text_Chunks
begin

text \<open>
  Desktop snapshots larger than a frame's structural limits (\<open>attach/src/snapshot.rs\<close>): a body's
  JSON text is cut into chunks at character boundaries and put together again by the receiver.
  \<open>serde_json\<close> is an argument: \<open>to_text\<close> prints a body (or fails), \<open>from_text\<close> reads it.
\<close>

definition chunk_bytes :: nat where "chunk_bytes = 16 * 1024"
definition marker :: string where "marker = ''snapshot_chunk''"

section \<open>Depth\<close>

function depth_loop :: "(json \<times> nat) list \<Rightarrow> frame_error + unit" where
  "depth_loop [] = Ok ()"
| "depth_loop ((v, depth) # stack) =
     (if depth > max_json_depth then Err StructureLimit
      else (case v of
        JArray vs \<Rightarrow> depth_loop (rev (map (\<lambda>v. (v, Suc depth)) vs) @ stack)
      | JObject kvs \<Rightarrow> depth_loop (rev (map (\<lambda>(_, v). (v, Suc depth)) kvs) @ stack)
      | _ \<Rightarrow> depth_loop stack))"
  by pat_completeness auto
termination
  by (relation "measure (\<lambda>stack. sum_list (map (\<lambda>e. Suc (size (fst e))) stack))")
    (auto simp: stack_shrinks)

definition check_depth :: "json \<Rightarrow> frame_error + unit" where
  "check_depth v = depth_loop [(v, 2)]"

section \<open>Splitting\<close>

definition chunk_json :: "nat \<Rightarrow> nat \<Rightarrow> string \<Rightarrow> json" where
  "chunk_json offset whole tx =
     JObject [(marker, JObject [(''offset'', JNumber (dec_str offset)),
       (''total_bytes'', JNumber (dec_str whole)), (''data'', JString tx)])]"

text \<open>The outer loop, with fuel for its turns; \<open>None\<close> when the fuel runs out.\<close>

fun chunk_loop :: "nat \<Rightarrow> string \<Rightarrow> nat \<Rightarrow> json list option" where
  "chunk_loop fuel tx offset =
     (if offset < length tx
      then (case fuel of
              0 \<Rightarrow> None
            | Suc fuel \<Rightarrow>
                (let e = boundary_before tx (min (offset + chunk_bytes) (length tx))
                 in map_option ((#) (chunk_json offset (length tx) (take (e - offset) (drop offset tx))))
                      (chunk_loop fuel tx e)))
      else Some [])"

definition snapshot_chunks :: "(json \<Rightarrow> string + string) \<Rightarrow> json \<Rightarrow> (frame_error + json list) option" where
  "snapshot_chunks to_text body =
     (case check_depth body of
        Inl e \<Rightarrow> Some (Err e)
      | Inr _ \<Rightarrow>
          (case to_text body of
             Inl e \<Rightarrow> Some (Err (Serialize e))
           | Inr tx \<Rightarrow>
               if length tx > max_frame_length then Some (Err PayloadTooLarge)
               else map_option Inr (chunk_loop (length tx) tx 0)))"

section \<open>Assembling\<close>

record snapshot_assembly =
  asm_text :: string
  asm_total :: "nat option"

definition assembly_default :: snapshot_assembly where
  "assembly_default = \<lparr>asm_text = [], asm_total = None\<rparr>"

text \<open>
  Reading a \<open>Chunk\<close>: an object with exactly its three fields, or the fields in order as an
  array. A number is a \<open>usize\<close> when its text is decimal digits and it fits.
\<close>

definition parse_dec :: "string \<Rightarrow> nat option" where
  "parse_dec s = (if s = [] \<or> \<not> list_all is_digit s then None
     else (let n = foldl (\<lambda>n c. n * 10 + (of_char c - 48)) 0 s in if n < 2 ^ 64 then Some n else None))"

fun as_usize :: "json \<Rightarrow> nat option" where
  "as_usize (JNumber s) = parse_dec s"
| "as_usize _ = None"

definition chunk_fields :: "json \<Rightarrow> json \<Rightarrow> json \<Rightarrow> (nat \<times> nat \<times> string) option" where
  "chunk_fields o_field t_field d_field =
     (case (as_usize o_field, as_usize t_field, as_str d_field) of
        (Some offset, Some whole, Some tx) \<Rightarrow> Some (offset, whole, tx)
      | _ \<Rightarrow> None)"

definition chunk_of_json :: "json \<Rightarrow> (nat \<times> nat \<times> string) option" where
  "chunk_of_json v =
     (case v of
        JObject kvs \<Rightarrow>
          if list_all (\<lambda>(k, _). k \<in> {''offset'', ''total_bytes'', ''data''}) kvs
          then (case (map_of kvs ''offset'', map_of kvs ''total_bytes'', map_of kvs ''data'') of
                  (Some a, Some b, Some c) \<Rightarrow> chunk_fields a b c
                | _ \<Rightarrow> None)
          else None
      | JArray [a, b, c] \<Rightarrow> chunk_fields a b c
      | _ \<Rightarrow> None)"

definition chunk_misplaced :: "snapshot_assembly \<Rightarrow> nat \<Rightarrow> nat \<Rightarrow> string \<Rightarrow> bool" where
  "chunk_misplaced a offset whole tx \<longleftrightarrow>
     offset \<noteq> length (asm_text a)
     \<or> (case asm_total a of None \<Rightarrow> False | Some t \<Rightarrow> t \<noteq> whole)
     \<or> tx = [] \<or> length tx > chunk_bytes
     \<or> offset > whole \<or> length tx > whole - offset
     \<or> (offset + length tx < whole \<and> length tx < chunk_bytes - 3)"

definition push :: "(string \<Rightarrow> json option) \<Rightarrow> snapshot_assembly \<Rightarrow> json
    \<Rightarrow> frame_error + snapshot_assembly \<times> json option" where
  "push from_text a body =
     (case jget body marker of
        None \<Rightarrow> if asm_total a = None then Ok (a, Some body) else Err InvalidJson
      | Some chunk \<Rightarrow>
          if (case body of JObject kvs \<Rightarrow> length kvs \<noteq> 1 | _ \<Rightarrow> True) then Err InvalidJson
          else (case chunk_of_json chunk of
            None \<Rightarrow> Err InvalidJson
          | Some (offset, whole, tx) \<Rightarrow>
              if whole = 0 \<or> whole > max_frame_length then Err PayloadTooLarge
              else if chunk_misplaced a offset whole tx then Err InvalidJson
              else
                (let a = a\<lparr>asm_total := Some whole, asm_text := asm_text a @ tx\<rparr>
                 in if length (asm_text a) < whole then Ok (a, None)
                    else (case from_text (asm_text a) of
                            None \<Rightarrow> Err InvalidJson
                          | Some v \<Rightarrow> result_bind (check_depth v) (\<lambda>_. Ok (a, Some v))))))"

text \<open>A receiver pushes the bodies it is sent, in order.\<close>

fun push_all :: "(string \<Rightarrow> json option) \<Rightarrow> snapshot_assembly \<Rightarrow> json list \<Rightarrow> frame_error + json option list" where
  "push_all from_text a [] = Ok []"
| "push_all from_text a (b # bs) =
     result_bind (push from_text a b) (\<lambda>(a', out).
       result_bind (push_all from_text a' bs) (\<lambda>outs. Ok (out # outs)))"

section \<open>Decimal numbers\<close>

lemma is_digit_char: "(d::nat) < 10 \<Longrightarrow> is_digit (char_of (48 + d))"
  by (simp add: is_digit_def Let_def of_char_of take_bit_nat_def)

lemma dec_digits: "list_all is_digit (dec_str n)"
  by (induction n rule: dec_str.induct, subst dec_str.simps) (auto simp: is_digit_char)

lemma dec_value: "foldl (\<lambda>n c. n * 10 + (of_char c - 48)) 0 (dec_str n) = (n :: nat)"
  by (induction n rule: dec_str.induct, subst dec_str.simps)
    (auto simp: of_char_of take_bit_nat_def)

lemma parse_dec_str: "n < 2 ^ 64 \<Longrightarrow> parse_dec (dec_str n) = Some n"
  by (simp add: parse_dec_def dec_digits dec_value Let_def)

section \<open>Sending and receiving\<close>

lemma four_le_chunk: "4 \<le> chunk_bytes"
  by (simp add: chunk_bytes_def)

text \<open>The receiver's state and the sender's offset agree, and the last push answers the body.\<close>

lemma push_chunk:
  assumes "valid_utf8 tx" "length tx \<le> max_frame_length" "offset < length tx"
    and "e = boundary_before tx (min (offset + chunk_bytes) (length tx))"
    and "asm_text a = take offset tx" "asm_total a = None \<or> asm_total a = Some (length tx)"
  shows "push from_text a (chunk_json offset (length tx) (take (e - offset) (drop offset tx))) =
    (let a' = a\<lparr>asm_total := Some (length tx), asm_text := take e tx\<rparr>
     in if e < length tx then Ok (a', None)
        else (case from_text tx of None \<Rightarrow> Err InvalidJson
              | Some v \<Rightarrow> result_bind (check_depth v) (\<lambda>_. Ok (a', Some v))))"
proof -
  let ?d = "take (e - offset) (drop offset tx)"
  note b = next_boundary [OF four_le_chunk assms(1,3,4)]
  have small: "length tx < 2 ^ 64" "offset < 2 ^ 64"
    using assms(2,3) by (simp_all add: max_frame_length_def)
  have len: "length ?d = e - offset" using b by simp
  have join: "take offset tx @ ?d = take e tx"
    using b(2) by (metis le_add_diff_inverse less_imp_le take_add)
  have chunk: "chunk_of_json (JObject [(''offset'', JNumber (dec_str offset)),
       (''total_bytes'', JNumber (dec_str (length tx))), (''data'', JString ?d)]) = Some (offset, length tx, ?d)"
    using small by (simp add: chunk_of_json_def chunk_fields_def parse_dec_str)
  have placed: "\<not> chunk_misplaced a offset (length tx) ?d"
    using b len assms(3,5,6) by (auto simp: chunk_misplaced_def chunk_bytes_def)
  show ?thesis
    using assms(2,3,5) chunk placed join b
    by (auto simp: push_def chunk_json_def Let_def split: option.split)
qed

declare chunk_loop.simps [simp del]

lemma chunk_loop_fuel:
  "valid_utf8 tx \<Longrightarrow> length tx - offset \<le> fuel \<Longrightarrow> \<exists>cs. chunk_loop fuel tx offset = Some cs"
proof (induction fuel arbitrary: offset)
  case 0
  then show ?case by (subst chunk_loop.simps) simp
next
  case (Suc fuel)
  show ?case
  proof (cases "offset < length tx")
    case True
    let ?e = "boundary_before tx (min (offset + chunk_bytes) (length tx))"
    have "offset < ?e" using next_boundary(2) [OF four_le_chunk Suc.prems(1) True refl] .
    then have "\<exists>cs. chunk_loop fuel tx ?e = Some cs" using Suc.prems True by (intro Suc.IH) simp_all
    then show ?thesis using True by (subst chunk_loop.simps) (auto simp: Let_def)
  qed (subst chunk_loop.simps, simp)
qed

lemma push_all_chunks:
  assumes "valid_utf8 tx" "length tx \<le> max_frame_length" "from_text tx = Some v" "check_depth v = Ok ()"
    and "offset < length tx" "chunk_loop fuel tx offset = Some cs"
    and "asm_text a = take offset tx" "asm_total a = None \<or> asm_total a = Some (length tx)"
  shows "push_all from_text a cs = Ok (replicate (length cs - 1) None @ [Some v])"
  using assms(5-8)
proof (induction fuel arbitrary: offset cs a)
  case 0
  then show ?case by (simp add: chunk_loop.simps [of 0])
next
  case (Suc fuel)
  define e where "e = boundary_before tx (min (offset + chunk_bytes) (length tx))"
  from Suc.prems(1,2) obtain rest where cs: "chunk_loop fuel tx e = Some rest"
      "cs = chunk_json offset (length tx) (take (e - offset) (drop offset tx)) # rest"
    by (auto simp: chunk_loop.simps [of "Suc fuel"] Let_def e_def)
  let ?a = "a\<lparr>asm_total := Some (length tx), asm_text := take e tx\<rparr>"
  note push = push_chunk [OF assms(1,2) Suc.prems(1) e_def Suc.prems(3,4), of from_text]
  show ?case
  proof (cases "e < length tx")
    case True
    have ne: "rest \<noteq> []"
      using cs(1) True by (auto simp: chunk_loop.simps [of fuel] Let_def split: nat.splits)
    have "push_all from_text ?a rest = Ok (replicate (length rest - 1) None @ [Some v])"
      by (rule Suc.IH [OF True cs(1)]) simp_all
    with push True ne show ?thesis by (simp add: cs(2) Let_def) (cases rest, simp_all)
  next
    case False
    then have "rest = []" using cs(1) by (simp add: chunk_loop.simps [of fuel])
    with push False assms(3,4) show ?thesis by (simp add: cs(2) Let_def)
  qed
qed

section \<open>Properties\<close>

text \<open>Splitting a snapshot of at most the frame limit always ends, and a receiver that pushes the
  chunks in order is answered nothing until the last, and then exactly the body, provided the JSON
  library reads back the well-formed, non-empty text it printed.\<close>

theorem snapshot_roundtrip:
  assumes "check_depth body = Ok ()" "to_text body = Ok tx" "length tx \<le> max_frame_length"
    and "tx \<noteq> []" "valid_utf8 tx" "from_text tx = Some body"
  shows "\<exists>cs. snapshot_chunks to_text body = Some (Ok cs)
    \<and> push_all from_text assembly_default cs = Ok (replicate (length cs - 1) None @ [Some body])"
proof -
  obtain cs where cs: "chunk_loop (length tx) tx 0 = Some cs"
    using chunk_loop_fuel [OF assms(5), of 0 "length tx"] by auto
  have "push_all from_text assembly_default cs = Ok (replicate (length cs - 1) None @ [Some body])"
    by (rule push_all_chunks [where from_text = from_text, OF assms(5,3,6,1) _ cs]) (use assms(4) in \<open>simp_all add: assembly_default_def\<close>)
  moreover have "snapshot_chunks to_text body = Some (Ok cs)"
    using assms cs by (simp add: snapshot_chunks_def)
  ultimately show ?thesis by blast
qed

theorem snapshot_roundtrip_witness:
  "\<exists>cs. snapshot_chunks (\<lambda>_. Ok ''null'') JNull = Some (Ok cs)
    \<and> push_all (\<lambda>_. Some JNull) assembly_default cs = Ok (replicate (length cs - 1) None @ [Some JNull])"
  using snapshot_roundtrip [of JNull "\<lambda>_. Ok ''null''" "''null''" "\<lambda>_. Some JNull"]
  by (simp add: check_depth_def depth_loop.simps max_json_depth_def max_frame_length_def)

text \<open>An assembly never holds more than the frame limit, and never more than the total its first
  chunk declared.\<close>

theorem assembly_bounded:
  assumes "push from_text a body = Ok (a', out)" "asm_total a' = Some n"
    and "length (asm_text a) \<le> max_frame_length"
    and "\<And>t. asm_total a = Some t \<Longrightarrow> length (asm_text a) \<le> t"
  shows "length (asm_text a') \<le> n \<and> length (asm_text a') \<le> max_frame_length"
  using assms
  by (auto simp: push_def chunk_misplaced_def Let_def result_bind_Inr_iff split: option.splits if_splits prod.splits)

theorem assembly_bounded_witness:
  "\<exists>a'. push (\<lambda>_. Some JNull) assembly_default (chunk_json 0 4 ''null'') = Ok (a', Some JNull)
     \<and> length (asm_text a') \<le> 4"
proof -
  have "(0::nat) < 2 ^ 64" "(4::nat) < 2 ^ 64" by simp_all
  note parse_dec_str [OF this(1)] parse_dec_str [OF this(2)]
  then have "\<exists>a'. push (\<lambda>_. Some JNull) assembly_default (chunk_json 0 4 ''null'') = Ok (a', Some JNull)
      \<and> asm_total a' = Some 4"
    by (simp add: push_def chunk_json_def marker_def chunk_of_json_def chunk_fields_def Let_def
        max_frame_length_def chunk_misplaced_def assembly_default_def chunk_bytes_def check_depth_def
        depth_loop.simps max_json_depth_def)
  then obtain a' where a': "push (\<lambda>_. Some JNull) assembly_default (chunk_json 0 4 ''null'') = Ok (a', Some JNull)"
      "asm_total a' = Some 4" by blast
  from assembly_bounded [OF a'] a' show ?thesis by (simp add: assembly_default_def)
qed

end
