(* ===== verification/Runtime_Activity.thy ===== *)
theory Runtime_Activity
  imports Prelude
begin

text \<open>
  What blocks a safe handoff of the runtime: the counted activity marks and drain admissions
  (\<open>attach/runtime_activity.rs\<close>) and their evaluation (\<open>attach/quiesce.rs\<close>). Every method takes
  one lock, so each is one atomic step on the shared state. A guard is a value its holder drops.
\<close>

unbundle bit_operations_syntax

section \<open>Quiesce evaluation\<close>

record runtime_activity =
  active_run :: bool
  pending_permission_gate :: bool
  authentication_operation :: bool
  session_refresh :: bool
  in_flight_external_effect :: bool

datatype quiesce_error =
    QActiveRun
  | QPendingPermissionGate
  | QAuthenticationOperation
  | QSessionRefresh
  | QInFlightExternalEffect
  | QMultiple u8

fun mask :: "quiesce_error \<Rightarrow> u8" where
  "mask QActiveRun = push_bit 0 1"
| "mask QPendingPermissionGate = push_bit 1 1"
| "mask QAuthenticationOperation = push_bit 2 1"
| "mask QSessionRefresh = push_bit 3 1"
| "mask QInFlightExternalEffect = push_bit 4 1"
| "mask (QMultiple blockers) = blockers"

definition blockers_contain :: "u8 \<Rightarrow> quiesce_error \<Rightarrow> bool" where
  "blockers_contain blockers q \<longleftrightarrow> blockers AND mask q \<noteq> 0"

definition activity_bits :: "runtime_activity \<Rightarrow> u8" where
  "activity_bits a =
     of_bool (active_run a)
     OR push_bit 1 (of_bool (pending_permission_gate a))
     OR push_bit 2 (of_bool (authentication_operation a))
     OR push_bit 3 (of_bool (session_refresh a))
     OR push_bit 4 (of_bool (in_flight_external_effect a))"

definition count_ones :: "u8 \<Rightarrow> nat" where
  "count_ones w = length (filter (bit w) [0..<8])"

text \<open>\<open>evaluate_quiesce\<close>; \<open>None\<close> is the branch the code marks unreachable.\<close>

definition evaluate_quiesce :: "runtime_activity \<Rightarrow> (quiesce_error + unit) option" where
  "evaluate_quiesce a =
     (let blockers = activity_bits a
      in if blockers = 0 then Some (Ok ())
         else if count_ones blockers > 1 then Some (Err (QMultiple blockers))
         else if blockers = 1 then Some (Err QActiveRun)
         else if blockers = 2 then Some (Err QPendingPermissionGate)
         else if blockers = 4 then Some (Err QAuthenticationOperation)
         else if blockers = 8 then Some (Err QSessionRefresh)
         else if blockers = 16 then Some (Err QInFlightExternalEffect)
         else None)"

definition quiesce_names :: "(u8 \<times> string) list" where
  "quiesce_names =
     [(push_bit 0 1, ''active run''), (push_bit 1 1, ''pending permission gate''),
      (push_bit 2 1, ''authentication operation''), (push_bit 3 1, ''session refresh''),
      (push_bit 4 1, ''in-flight external effect'')]"

fun join_names :: "string \<Rightarrow> u8 \<Rightarrow> (u8 \<times> string) list \<Rightarrow> string" where
  "join_names sep blockers [] = []"
| "join_names sep blockers ((m, name) # more_names) =
     (if blockers AND m \<noteq> 0 then sep @ name @ join_names '', '' blockers more_names
      else join_names sep blockers more_names)"

fun display_quiesce :: "quiesce_error \<Rightarrow> string" where
  "display_quiesce QActiveRun = ''active run''"
| "display_quiesce QPendingPermissionGate = ''pending permission gate''"
| "display_quiesce QAuthenticationOperation = ''authentication operation''"
| "display_quiesce QSessionRefresh = ''session refresh''"
| "display_quiesce QInFlightExternalEffect = ''in-flight external effect''"
| "display_quiesce (QMultiple blockers) = join_names [] blockers quiesce_names"

section \<open>Activity counts\<close>

datatype activity_kind = ActiveRun | PendingPermissionGate | AuthenticationOperation | SessionRefresh
  | InFlightExternalEffect

record activity_state =
  draining :: bool
  admissions :: u64
  n_active_run :: u64
  n_pending_permission_gate :: u64
  n_authentication_operation :: u64
  n_session_refresh :: u64
  n_in_flight_external_effect :: u64

definition activity_default :: activity_state where
  "activity_default = \<lparr>draining = False, admissions = 0, n_active_run = 0,
     n_pending_permission_gate = 0, n_authentication_operation = 0, n_session_refresh = 0,
     n_in_flight_external_effect = 0\<rparr>"

fun count_of :: "activity_state \<Rightarrow> activity_kind \<Rightarrow> u64" where
  "count_of s ActiveRun = n_active_run s"
| "count_of s PendingPermissionGate = n_pending_permission_gate s"
| "count_of s AuthenticationOperation = n_authentication_operation s"
| "count_of s SessionRefresh = n_session_refresh s"
| "count_of s InFlightExternalEffect = n_in_flight_external_effect s"

fun set_count :: "activity_state \<Rightarrow> activity_kind \<Rightarrow> u64 \<Rightarrow> activity_state" where
  "set_count s ActiveRun n = s\<lparr>n_active_run := n\<rparr>"
| "set_count s PendingPermissionGate n = s\<lparr>n_pending_permission_gate := n\<rparr>"
| "set_count s AuthenticationOperation n = s\<lparr>n_authentication_operation := n\<rparr>"
| "set_count s SessionRefresh n = s\<lparr>n_session_refresh := n\<rparr>"
| "set_count s InFlightExternalEffect n = s\<lparr>n_in_flight_external_effect := n\<rparr>"

text \<open>\<open>DrainState::set\<close> and \<open>admit\<close>. An operation is told apart by its wire name; \<open>None\<close> is the
  overflow panic, and the answered flag says whether the guard holds an admission.\<close>

datatype guard = MarkGuard activity_kind | AdmissionGuard bool

definition drain_set :: "activity_state \<Rightarrow> activity_state" where
  "drain_set s = s\<lparr>draining := True\<rparr>"

definition starts_blocking_work :: "string \<Rightarrow> bool" where
  "starts_blocking_work operation \<longleftrightarrow>
     operation \<in> {''run.start'', ''run.submit'', ''run.resume'', ''session.sign_in'', ''thread.compact''}"

definition admit :: "activity_state \<Rightarrow> string \<Rightarrow> (unit + activity_state \<times> guard) option" where
  "admit s operation =
     (if draining s \<and> starts_blocking_work operation then Some (Err ())
      else if starts_blocking_work operation
      then map_option (\<lambda>n. Ok (s\<lparr>admissions := n\<rparr>, AdmissionGuard True)) (checked_add (admissions s) 1)
      else Some (Ok (s, AdmissionGuard False)))"

text \<open>\<open>mark\<close> and the \<open>Drop\<close> of the two guards (the decrement wraps in a release build).\<close>

definition mark :: "activity_state \<Rightarrow> activity_kind \<Rightarrow> (activity_state \<times> guard) option" where
  "mark s kind = map_option (\<lambda>n. (set_count s kind n, MarkGuard kind)) (checked_add (count_of s kind) 1)"

fun drop_guard :: "activity_state \<Rightarrow> guard \<Rightarrow> activity_state" where
  "drop_guard s (MarkGuard kind) = set_count s kind (count_of s kind - 1)"
| "drop_guard s (AdmissionGuard True) = s\<lparr>admissions := admissions s - 1\<rparr>"
| "drop_guard s (AdmissionGuard False) = s"

definition activity_snapshot :: "activity_state \<Rightarrow> runtime_activity" where
  "activity_snapshot s =
     \<lparr>active_run = n_active_run s \<noteq> 0 \<or> admissions s \<noteq> 0,
      pending_permission_gate = n_pending_permission_gate s \<noteq> 0,
      authentication_operation = n_authentication_operation s \<noteq> 0,
      session_refresh = n_session_refresh s \<noteq> 0,
      in_flight_external_effect = n_in_flight_external_effect s \<noteq> 0\<rparr>"

section \<open>The runtime's use of the registry\<close>

text \<open>The shared state together with the guards alive, and the steps that change them.\<close>

inductive activity_step :: "activity_state \<times> guard list \<Rightarrow> activity_state \<times> guard list \<Rightarrow> bool" where
  drain: "activity_step (s, gs) (drain_set s, gs)"
| admit: "admit s operation = Some (Ok (s', g)) \<Longrightarrow> activity_step (s, gs) (s', g # gs)"
| mark: "mark s kind = Some (s', g) \<Longrightarrow> activity_step (s, gs) (s', g # gs)"
| drop: "g \<in> set gs \<Longrightarrow> activity_step (s, gs) (drop_guard s g, remove1 g gs)"

definition alive :: "guard list \<Rightarrow> guard \<Rightarrow> nat" where
  "alive gs g = length (filter ((=) g) gs)"

text \<open>Each counter is the number of its guards alive.\<close>

definition counts_ok :: "activity_state \<times> guard list \<Rightarrow> bool" where
  "counts_ok sg \<longleftrightarrow> unat (admissions (fst sg)) = alive (snd sg) (AdmissionGuard True)
     \<and> (\<forall>k. unat (count_of (fst sg) k) = alive (snd sg) (MarkGuard k))"

lemma count_set_count [simp]:
  "count_of (set_count s k n) j = (if j = k then n else count_of s j)"
  "admissions (set_count s k n) = admissions s" "draining (set_count s k n) = draining s"
  by (cases k; cases j; simp)+

lemma alive_simps [simp]:
  "alive [] g = 0" "alive (h # gs) g = (if g = h then Suc (alive gs g) else alive gs g)"
  by (simp_all add: alive_def)

lemma alive_remove1: "h \<in> set gs \<Longrightarrow> alive (remove1 h gs) g = alive gs g - (if g = h then 1 else 0)"
  by (induction gs) (auto simp: alive_def filter_empty_conv)

lemma alive_pos: "alive gs g \<noteq> 0 \<longleftrightarrow> g \<in> set gs"
  by (auto simp: alive_def filter_empty_conv)

lemma count_of_update [simp]:
  "count_of (s\<lparr>admissions := n\<rparr>) k = count_of s k" "count_of (s\<lparr>draining := b\<rparr>) k = count_of s k"
  by (cases k; simp)+

lemma unat_minus_one': "unat w \<noteq> 0 \<Longrightarrow> unat (w - 1 :: u64) = unat w - 1"
  by (subst unat_sub) (auto simp: word_le_nat_alt)

lemma activity_step_ok: "activity_step p q \<Longrightarrow> counts_ok p \<Longrightarrow> counts_ok q"
proof (induction rule: activity_step.induct)
  case (drain s gs)
  then show ?case by (simp add: counts_ok_def drain_set_def)
next
  case (admit s operation s' g gs)
  then show ?case
    by (auto simp: counts_ok_def admit_def split: if_splits dest: checked_add_SomeD)
next
  case (mark s kind s' g gs)
  then obtain n where n: "checked_add (count_of s kind) 1 = Some n" "s' = set_count s kind n" "g = MarkGuard kind"
    by (auto simp: mark_def)
  then show ?case using mark.prems checked_add_SomeD [OF n(1)] by (simp add: counts_ok_def)
next
  case (drop g gs s)
  have pos: "alive gs g \<noteq> 0" using alive_pos [of gs g] drop.hyps by blast
  show ?case
  proof (cases g)
    case (MarkGuard k)
    with drop pos show ?thesis by (auto simp: counts_ok_def alive_remove1 unat_minus_one')
  next
    case (AdmissionGuard b)
    with drop pos show ?thesis by (cases b) (auto simp: counts_ok_def alive_remove1 unat_minus_one')
  qed
qed

section \<open>Properties\<close>

text \<open>Quiesce evaluation never reaches the branch marked unreachable, answers a safe handoff point
  exactly when nothing is active, and otherwise names exactly the activities that are.\<close>

theorem quiesce_exact:
  "(evaluate_quiesce a = Some (Ok ()) \<longleftrightarrow>
      \<not> (active_run a \<or> pending_permission_gate a \<or> authentication_operation a \<or> session_refresh a
         \<or> in_flight_external_effect a))
   \<and> (evaluate_quiesce a = Some (Ok ()) \<or> (\<exists>e. evaluate_quiesce a = Some (Err e)
        \<and> blockers_contain (mask e) QActiveRun = active_run a
        \<and> blockers_contain (mask e) QPendingPermissionGate = pending_permission_gate a
        \<and> blockers_contain (mask e) QAuthenticationOperation = authentication_operation a
        \<and> blockers_contain (mask e) QSessionRefresh = session_refresh a
        \<and> blockers_contain (mask e) QInFlightExternalEffect = in_flight_external_effect a))"
  by (cases "active_run a"; cases "pending_permission_gate a"; cases "authentication_operation a";
      cases "session_refresh a"; cases "in_flight_external_effect a";
      simp add: evaluate_quiesce_def activity_bits_def count_ones_def blockers_contain_def upt_rec)

text \<open>However guards are taken and dropped, the registry reports an activity exactly when a guard
  for it is alive, so a handoff is judged safe only when none is; no counter wraps.\<close>

theorem snapshot_reports_guards:
  assumes "rtranclp activity_step (activity_default, []) (s, gs)"
  shows "activity_snapshot s =
     \<lparr>active_run = (MarkGuard ActiveRun \<in> set gs \<or> AdmissionGuard True \<in> set gs),
      pending_permission_gate = (MarkGuard PendingPermissionGate \<in> set gs),
      authentication_operation = (MarkGuard AuthenticationOperation \<in> set gs),
      session_refresh = (MarkGuard SessionRefresh \<in> set gs),
      in_flight_external_effect = (MarkGuard InFlightExternalEffect \<in> set gs)\<rparr>"
proof -
  have "counts_ok (activity_default, [])"
    unfolding counts_ok_def by (auto simp: activity_default_def intro: activity_kind.induct)
  with assms have "counts_ok (s, gs)"
    by (induction rule: rtranclp_induct) (auto intro: activity_step_ok)
  then have a: "unat (admissions s) = alive gs (AdmissionGuard True)"
      and k: "unat (count_of s k) = alive gs (MarkGuard k)" for k
    by (auto simp: counts_ok_def)
  have e: "w \<noteq> 0 \<longleftrightarrow> g \<in> set gs" if "unat w = alive gs g" for w :: u64 and g
    using that alive_pos [of gs g] by (simp add: unat_eq_0 [symmetric])
  show ?thesis
    unfolding activity_snapshot_def
    using e [OF a] e [OF k [of ActiveRun]] e [OF k [of PendingPermissionGate]]
      e [OF k [of AuthenticationOperation]] e [OF k [of SessionRefresh]] e [OF k [of InFlightExternalEffect]]
    by simp
qed

theorem snapshot_reports_guards_witness:
  "\<exists>s. rtranclp activity_step (activity_default, []) (s, [MarkGuard SessionRefresh])
     \<and> session_refresh (activity_snapshot s) \<and> \<not> active_run (activity_snapshot s)"
proof -
  let ?s = "activity_default\<lparr>n_session_refresh := 1\<rparr>"
  have "activity_step (activity_default, []) (?s, [MarkGuard SessionRefresh])"
    by (rule activity_step.mark [where kind = SessionRefresh]) (simp add: mark_def activity_default_def checked_add_def)
  then have r: "rtranclp activity_step (activity_default, []) (?s, [MarkGuard SessionRefresh])" by (rule r_into_rtranclp)
  from snapshot_reports_guards [OF r] r show ?thesis by auto
qed

text \<open>Draining is one-way: once set, every operation that starts blocking work is refused, through
  any later steps.\<close>

theorem draining_refuses:
  assumes "rtranclp activity_step (drain_set s, gs) (s', gs')" "starts_blocking_work operation"
  shows "admit s' operation = Some (Err ())"
proof -
  have step: "activity_step p q \<Longrightarrow> draining (fst p) \<Longrightarrow> draining (fst q)" for p q
  proof (induction rule: activity_step.induct)
    case (drop g gs s)
    then show ?case by (cases "(s, g)" rule: drop_guard.cases) auto
  qed (auto simp: drain_set_def admit_def mark_def split: if_splits)
  from assms(1) have "draining (fst (s', gs'))"
    by (induction rule: rtranclp_induct) (auto simp: drain_set_def intro: step)
  with assms(2) show ?thesis by (simp add: admit_def)
qed

theorem draining_refuses_witness:
  "admit (drain_set activity_default) ''run.start'' = Some (Err ())"
  by (rule draining_refuses [of activity_default "[]" _ "[]"])
    (simp_all add: starts_blocking_work_def)

end
