(* ===== verification/Gate_Questions.thy ===== *)
theory Gate_Questions
  imports Json "HOL-Library.Multiset"
begin

text \<open>
  The questions of a run (\<open>permission_gate.rs\<close>: \<open>coordinate_extension_ui_request\<close>,
  \<open>open_waiting_request\<close>, \<open>coordinate_permission_answer\<close>; the dialogs of \<open>sidecar/pi_chat.rs\<close>; the
  payload of \<open>journal/pi_translation.rs\<close>). The journal append and the send to Pi are closures in the
  code: their outcomes are arguments, and what they were given is kept in the state. Each caller
  waiting for a commit is answered once; its answers are kept too.
\<close>

section \<open>Dialogs and answers\<close>

datatype dialog =
    DSelect (d_title: string) (d_options: "string list")
  | DConfirm (d_title: string) (d_message: string)
  | DInput (d_title: string) (d_placeholder: "string option")
  | DEditor (d_title: string) (d_prefill: "string option")

record ui_request =
  u_id :: string
  u_dialog :: dialog
  u_timeout :: "u64 option"

datatype ui_answer = Selection string | Confirmation bool | InputText string | EditorText string | Cancelled

definition response_fits :: "ui_request \<Rightarrow> ui_answer \<Rightarrow> bool" where
  "response_fits request answer = (case (u_dialog request, answer) of
       (_, Cancelled) \<Rightarrow> True
     | (DSelect _ options, Selection value) \<Rightarrow> value \<in> set options
     | (DConfirm _ _, Confirmation _) \<Rightarrow> True
     | (DInput _ _, InputText _) \<Rightarrow> True
     | (DEditor _ _, EditorText _) \<Rightarrow> True
     | _ \<Rightarrow> False)"

datatype chat_permission_answer =
    ASelect string
  | AConfirm bool
  | AInput string
  | AEditor string
  | ACancelled
  | ACodeDiff string string string string string

fun pi_answer :: "chat_permission_answer \<Rightarrow> ui_answer option" where
  "pi_answer (ASelect v) = Some (Selection v)"
| "pi_answer (AConfirm v) = Some (Confirmation v)"
| "pi_answer (AInput v) = Some (InputText v)"
| "pi_answer (AEditor v) = Some (EditorText v)"
| "pi_answer ACancelled = Some Cancelled"
| "pi_answer (ACodeDiff _ _ _ _ _) = None"

record pending_answer =
  pa_gate :: string
  pa_answer :: chat_permission_answer
  pa_waits :: bool

section \<open>The journal's gate events\<close>

datatype permission_request =
    PSelect string "string list" "u64 option"
  | PConfirm string string "u64 option"
  | PInput string "string option" "u64 option"
  | PEditor string "string option" "u64 option"
  | PCodeDiff string string string string

definition permission_journal_payload :: "ui_request \<Rightarrow> string \<times> permission_request" where
  "permission_journal_payload r = (u_id r, case u_dialog r of
       DSelect title options \<Rightarrow> PSelect title options (u_timeout r)
     | DConfirm title message \<Rightarrow> PConfirm title message (u_timeout r)
     | DInput title placeholder \<Rightarrow> PInput title placeholder (u_timeout r)
     | DEditor title prefill \<Rightarrow> PEditor title prefill (u_timeout r))"

datatype gate_event =
    PermissionRequested "string \<times> permission_request"
  | PermissionResolved string chat_permission_answer

text \<open>The gates of a run: the open one, the ones that wait, what was journaled and sent, and what the
  callers that wait for a commit were told.\<close>

record gate_state =
  g_pending :: "ui_request option"
  g_waiting :: "ui_request list"
  g_journal :: "gate_event list"
  g_sent :: "(ui_request \<times> ui_answer) list"
  g_told :: "u64 option list"

definition no_gates :: gate_state where
  "no_gates = \<lparr>g_pending = None, g_waiting = [], g_journal = [], g_sent = [], g_told = []\<rparr>"

datatype pi_event = ExtensionUiRequest ui_request | OtherEvent

datatype journal_append_failed = JournalAppendFailed

section \<open>Operations\<close>

text \<open>Each gives the state after it, and the error when the journal append failed.\<close>

definition coordinate_extension_ui_request ::
  "pi_event \<Rightarrow> gate_state \<Rightarrow> bool \<Rightarrow> (journal_append_failed + unit) \<times> gate_state" where
  "coordinate_extension_ui_request event g append_ok =
     (case event of
        OtherEvent \<Rightarrow> (Inr (), g)
      | ExtensionUiRequest request \<Rightarrow>
          if g_pending g \<noteq> None then (Inr (), g\<lparr>g_waiting := g_waiting g @ [request]\<rparr>)
          else if \<not> append_ok then (Inl JournalAppendFailed, g)
          else (Inr (), g\<lparr>g_pending := Some request,
                  g_journal := g_journal g @ [PermissionRequested (permission_journal_payload request)]\<rparr>))"

definition open_waiting_request :: "gate_state \<Rightarrow> bool \<Rightarrow> (journal_append_failed + unit) \<times> gate_state" where
  "open_waiting_request g append_ok =
     (if g_pending g \<noteq> None then (Inr (), g)
      else (case g_waiting g of
              [] \<Rightarrow> (Inr (), g)
            | request # rest \<Rightarrow>
                coordinate_extension_ui_request (ExtensionUiRequest request) (g\<lparr>g_waiting := rest\<rparr>) append_ok))"

definition tell :: "pending_answer \<Rightarrow> u64 option \<Rightarrow> gate_state \<Rightarrow> gate_state" where
  "tell queued v g = (if pa_waits queued then g\<lparr>g_told := g_told g @ [v]\<rparr> else g)"

definition coordinate_permission_answer ::
  "gate_state \<Rightarrow> pending_answer \<Rightarrow> bool \<Rightarrow> u64 option \<Rightarrow> (journal_append_failed + unit) \<times> gate_state" where
  "coordinate_permission_answer g queued send_ok append_seq =
     (case g_pending g of
        None \<Rightarrow> (Inr (), tell queued None g)
      | Some request \<Rightarrow>
          if u_id request \<noteq> pa_gate queued then (Inr (), tell queued None g)
          else (case pi_answer (pa_answer queued) of
                  None \<Rightarrow> (Inr (), tell queued None g)
                | Some answer \<Rightarrow>
                    if \<not> response_fits request answer then (Inr (), tell queued None g)
                    else if \<not> send_ok then (Inr (), tell queued None g)
                    else (let g = g\<lparr>g_sent := g_sent g @ [(request, answer)]\<rparr>
                          in case append_seq of
                               None \<Rightarrow> (Inl JournalAppendFailed, g)
                             | Some seq \<Rightarrow>
                                 (Inr (), (tell queued (Some seq)
                                    (g\<lparr>g_journal := g_journal g @ [PermissionResolved (pa_gate queued) (pa_answer queued)]\<rparr>))
                                      \<lparr>g_pending := None\<rparr>))))"

section \<open>Runs\<close>

text \<open>The events a run's coordinator feeds to the gates.\<close>

datatype gate_op =
    Arrives pi_event bool
  | Opens bool
  | Answered pending_answer bool "u64 option"

fun gate_step :: "gate_state \<Rightarrow> gate_op \<Rightarrow> (journal_append_failed + unit) \<times> gate_state" where
  "gate_step g (Arrives event append_ok) = coordinate_extension_ui_request event g append_ok"
| "gate_step g (Opens append_ok) = open_waiting_request g append_ok"
| "gate_step g (Answered queued send_ok append_seq) = coordinate_permission_answer g queued send_ok append_seq"

inductive gates_reach :: "gate_state \<Rightarrow> gate_state \<Rightarrow> bool" where
  gates_refl: "gates_reach g g"
| gates_step: "gates_reach g g' \<Longrightarrow> gate_step g' op = (res, g'') \<Longrightarrow> gates_reach g g''"

inductive_cases gates_reachE: "gates_reach g g'"

text \<open>A journal opens one gate at a time and resolves only the open one; \<open>open_gate\<close> is the open one.\<close>

fun open_gate :: "string option \<Rightarrow> gate_event list \<Rightarrow> string option option" where
  "open_gate gate [] = Some gate"
| "open_gate gate (PermissionRequested payload # es) = (if gate = None then open_gate (Some (fst payload)) es else None)"
| "open_gate gate (PermissionResolved i a # es) = (if gate = Some i then open_gate None es else None)"

lemma open_gate_append:
  "open_gate gate (es @ es') = (case open_gate gate es of None \<Rightarrow> None | Some g \<Rightarrow> open_gate g es')"
  by (induction gate es rule: open_gate.induct) auto

definition gates_ok :: "gate_state \<Rightarrow> bool" where
  "gates_ok g \<longleftrightarrow> open_gate None (g_journal g) = Some (map_option u_id (g_pending g))"

lemma tell_simps [simp]:
  "g_pending (tell q v g) = g_pending g" "g_waiting (tell q v g) = g_waiting g"
  "g_journal (tell q v g) = g_journal g" "g_sent (tell q v g) = g_sent g"
  by (simp_all add: tell_def)

lemma fst_payload [simp]: "fst (permission_journal_payload r) = u_id r"
  by (simp add: permission_journal_payload_def)

lemma request_ok:
  "gates_ok g \<Longrightarrow> gates_ok (snd (coordinate_extension_ui_request event g ok))"
  by (auto simp: coordinate_extension_ui_request_def gates_ok_def open_gate_append split: pi_event.splits)

text \<open>The answers that close a gate: named for it, fitting, sent and journaled.\<close>

lemma answer_cases:
  obtains (kept) v where "coordinate_permission_answer g queued send_ok append_seq = (Inr (), tell queued None g)"
  | (unjournaled) request answer where "g_pending g = Some request" "u_id request = pa_gate queued"
      "pi_answer (pa_answer queued) = Some answer" "response_fits request answer" "send_ok" "append_seq = None"
      "coordinate_permission_answer g queued send_ok append_seq
        = (Inl JournalAppendFailed, g\<lparr>g_sent := g_sent g @ [(request, answer)]\<rparr>)"
  | (closed) request answer seq where "g_pending g = Some request" "u_id request = pa_gate queued"
      "pi_answer (pa_answer queued) = Some answer" "response_fits request answer" "send_ok" "append_seq = Some seq"
      "coordinate_permission_answer g queued send_ok append_seq
        = (Inr (), (tell queued (Some seq) (g\<lparr>g_sent := g_sent g @ [(request, answer)],
            g_journal := g_journal g @ [PermissionResolved (pa_gate queued) (pa_answer queued)]\<rparr>))\<lparr>g_pending := None\<rparr>)"
proof (cases "\<exists>request answer. g_pending g = Some request \<and> u_id request = pa_gate queued
    \<and> pi_answer (pa_answer queued) = Some answer \<and> response_fits request answer \<and> send_ok")
  case False
  then have "coordinate_permission_answer g queued send_ok append_seq = (Inr (), tell queued None g)"
    by (auto simp: coordinate_permission_answer_def Let_def split: option.split)
  then show thesis by (rule kept)
next
  case True
  then obtain request answer where r: "g_pending g = Some request" "u_id request = pa_gate queued"
    "pi_answer (pa_answer queued) = Some answer" "response_fits request answer" "send_ok" by blast
  show thesis
  proof (cases append_seq)
    case None
    with r show thesis by (intro unjournaled [OF r]) (simp_all add: coordinate_permission_answer_def Let_def)
  next
    case (Some seq)
    with r show thesis by (intro closed [OF r]) (simp_all add: coordinate_permission_answer_def Let_def)
  qed
qed

lemma answer_ok: "gates_ok g \<Longrightarrow> gates_ok (snd (coordinate_permission_answer g queued send_ok append_seq))"
  by (cases rule: answer_cases [of g queued send_ok append_seq]) (auto simp: gates_ok_def open_gate_append)

lemma open_ok: "gates_ok g \<Longrightarrow> gates_ok (snd (open_waiting_request g ok))"
  by (auto simp: open_waiting_request_def intro!: request_ok split: list.splits) (simp add: gates_ok_def)

lemma gate_step_ok: "gates_ok g \<Longrightarrow> gates_ok (snd (gate_step g op))"
  by (cases op) (simp_all add: request_ok answer_ok open_ok)

definition sent_ok :: "gate_state \<Rightarrow> bool" where
  "sent_ok g \<longleftrightarrow> list_all (\<lambda>(request, answer). response_fits request answer) (g_sent g)"

lemma sent_step: "sent_ok g \<Longrightarrow> sent_ok (snd (gate_step g op))"
proof (cases op)
  case (Answered queued send_ok append_seq)
  then show "sent_ok g \<Longrightarrow> ?thesis"
    by (cases rule: answer_cases [of g queued send_ok append_seq]) (auto simp: sent_ok_def)
qed (auto simp: sent_ok_def coordinate_extension_ui_request_def open_waiting_request_def
    split: pi_event.splits list.splits)

text \<open>However requests, answers and failures interleave, the journal opens one gate at a time and
  resolves only the open one, the open gate of the journal is the pending question, and every
  answer sent to Pi fits the dialog it answers.\<close>

theorem one_gate_at_a_time:
  assumes "gates_reach no_gates g"
  shows "open_gate None (g_journal g) = Some (map_option u_id (g_pending g)) \<and> sent_ok g"
proof -
  have "gates_ok g \<and> sent_ok g"
    using assms
  proof (induction no_gates g rule: gates_reach.induct)
    case gates_refl
    show ?case by (simp add: gates_ok_def sent_ok_def no_gates_def)
  next
    case (gates_step g' op res g'')
    with gate_step_ok [of g' op] sent_step [of g' op] show ?case by simp
  qed
  then show ?thesis by (simp add: gates_ok_def)
qed

section \<open>No question is lost\<close>

fun gates_run :: "gate_state \<Rightarrow> gate_op list \<Rightarrow> (journal_append_failed + gate_state)" where
  "gates_run g [] = Inr g"
| "gates_run g (op # ops) = (case gate_step g op of (Inl e, _) \<Rightarrow> Inl e | (Inr _, g') \<Rightarrow> gates_run g' ops)"

fun arrived :: "gate_op \<Rightarrow> ui_request list" where
  "arrived (Arrives (ExtensionUiRequest r) ok) = [r]"
| "arrived _ = []"

definition arrivals :: "gate_op list \<Rightarrow> ui_request list" where
  "arrivals ops = concat (map arrived ops)"

fun opened :: "gate_event \<Rightarrow> (string \<times> permission_request) list" where
  "opened (PermissionRequested payload) = [payload]"
| "opened (PermissionResolved i a) = []"

definition asked :: "gate_state \<Rightarrow> (string \<times> permission_request) multiset" where
  "asked g = mset (concat (map opened (g_journal g))) + mset (map permission_journal_payload (g_waiting g))"

lemma asked_step:
  assumes "gate_step g op = (Inr u, g')"
  shows "asked g' = asked g + mset (map permission_journal_payload (arrived op))"
proof (cases op)
  case (Arrives event ok)
  with assms show ?thesis
    by (cases event) (auto simp: coordinate_extension_ui_request_def asked_def split: if_splits)
next
  case (Opens ok)
  with assms show ?thesis
    by (auto simp: open_waiting_request_def coordinate_extension_ui_request_def asked_def split: if_splits list.splits)
next
  case (Answered queued send_ok append_seq)
  with assms show ?thesis
    by (cases rule: answer_cases [of g queued send_ok append_seq]) (auto simp: asked_def)
qed

lemma asked_run: "gates_run g ops = Inr g' \<Longrightarrow> asked g' = asked g + mset (map permission_journal_payload (arrivals ops))"
proof (induction ops arbitrary: g)
  case (Cons op ops)
  obtain res g1 where s: "gate_step g op = (res, g1)" by fastforce
  with Cons.prems obtain u where u: "res = Inr u" "gates_run g1 ops = Inr g'" by (cases res) auto
  with Cons.IH asked_step [OF s [unfolded u(1)]] show ?case by (simp add: arrivals_def)
qed (simp add: arrivals_def)

text \<open>No question is lost or asked twice: while the journal can be written, the questions journaled and
  those that wait are together exactly the ones that arrived; and once the open gate is answered, the
  next opener asks the first one that waits.\<close>

theorem no_question_lost:
  assumes "gates_run no_gates ops = Inr g"
  shows "mset (concat (map opened (g_journal g))) + mset (map permission_journal_payload (g_waiting g))
      = mset (map permission_journal_payload (arrivals ops))
    \<and> (g_pending g = None \<longrightarrow> g_waiting g \<noteq> [] \<longrightarrow>
        (\<exists>g'. open_waiting_request g True = (Inr (), g') \<and> g_pending g' = Some (hd (g_waiting g))
          \<and> g_waiting g' = tl (g_waiting g)))"
proof -
  have "asked no_gates = {#}" by (simp add: asked_def no_gates_def)
  with asked_run [OF assms]
  have "mset (concat (map opened (g_journal g))) + mset (map permission_journal_payload (g_waiting g))
      = mset (map permission_journal_payload (arrivals ops))" by (simp add: asked_def)
  then show ?thesis
    by (auto simp: open_waiting_request_def coordinate_extension_ui_request_def split: list.splits)
qed

section \<open>Witnesses\<close>

definition sample_question :: "string \<Rightarrow> ui_request" where
  "sample_question i = \<lparr>u_id = i, u_dialog = DSelect ''t'' [''Continue'', ''Decline''], u_timeout = None\<rparr>"

definition sample_ops :: "gate_op list" where
  "sample_ops = [Arrives (ExtensionUiRequest (sample_question ''a'')) True,
     Arrives (ExtensionUiRequest (sample_question ''b'')) True,
     Answered \<lparr>pa_gate = ''a'', pa_answer = ASelect ''Continue'', pa_waits = True\<rparr> True (Some 9)]"

definition sample_gates :: gate_state where
  "sample_gates = (case gates_run no_gates sample_ops of Inr g \<Rightarrow> g | Inl _ \<Rightarrow> no_gates)"

lemmas sample_gate_defs = sample_gates_def sample_ops_def sample_question_def no_gates_def
  coordinate_extension_ui_request_def coordinate_permission_answer_def response_fits_def tell_def
  permission_journal_payload_def

lemma sample_run: "gates_run no_gates sample_ops = Inr sample_gates" "g_waiting sample_gates = [sample_question ''b'']"
    "g_pending sample_gates = None" "g_told sample_gates = [Some 9]"
  by (simp_all add: sample_gate_defs)

lemma gates_run_reach: "gates_run g ops = Inr g' \<Longrightarrow> gates_reach g0 g \<Longrightarrow> gates_reach g0 g'"
proof (induction ops arbitrary: g)
  case (Cons op ops)
  obtain res g1 where s: "gate_step g op = (res, g1)" by fastforce
  with Cons.prems have "gates_run g1 ops = Inr g'" by (cases res) auto
  with Cons.IH gates_step [OF Cons.prems(2) s] show ?case by blast
qed simp

theorem one_gate_at_a_time_witness:
  "length (g_journal sample_gates) = 2 \<and> open_gate None (g_journal sample_gates) = Some None \<and> sent_ok sample_gates"
proof -
  have "gates_reach no_gates sample_gates" using gates_run_reach [OF sample_run(1) gates_refl] .
  from one_gate_at_a_time [OF this] show ?thesis by (simp add: sample_run) (simp add: sample_gate_defs)
qed

theorem no_question_lost_witness:
  "\<exists>g'. open_waiting_request sample_gates True = (Inr (), g') \<and> g_pending g' = Some (sample_question ''b'')"
  using no_question_lost [OF sample_run(1)] by (auto simp: sample_run)

end
