(* ===== verification/Run_Registry.thy ===== *)
theory Run_Registry
  imports Gate_Questions
begin

text \<open>
  The runs a runtime drives now (\<open>core/src/active_run.rs\<close>): at most \<open>limit\<close> at once and at most
  one in each thread. A run keeps its cancel flag and the queue of permission answers its
  coordinator reads; its engine handles are not modelled. Every method holds the registry's lock,
  so each is one step.
\<close>

section \<open>State\<close>

record active_run =
  ar_id :: string
  ar_workspace :: string
  ar_cancelled :: bool
  ar_answers :: "pending_answer list"

record run_registry =
  runs :: "(active_run \<times> string option) list"
  limit :: nat

record active_identity =
  ai_run_id :: string
  ai_workspace :: string
  ai_thread_id :: "string option"

definition thread_busy :: string where "thread_busy = ''This thread is already replying.''"

definition not_active :: string where "not_active = ''That reply is no longer active.''"

definition capacity_message :: "nat \<Rightarrow> string" where
  "capacity_message n = ''Muniment is already running '' @ dec_str n @ '' ''
     @ (if n = 1 then ''reply'' else ''replies'') @ ''. Try again when one finishes.''"

section \<open>Operations\<close>

definition with_limit :: "nat \<Rightarrow> run_registry" where
  "with_limit n = \<lparr>runs = [], limit = max n 1\<rparr>"

definition holds_thread :: "run_registry \<Rightarrow> string option \<Rightarrow> bool" where
  "holds_thread reg thread =
     (case thread of None \<Rightarrow> False | Some t \<Rightarrow> list_ex (\<lambda>(_, held). held = Some t) (runs reg))"

definition admits :: "run_registry \<Rightarrow> string option \<Rightarrow> unit rresult" where
  "admits reg thread =
     (if holds_thread reg thread then Err thread_busy
      else if length (runs reg) \<ge> limit reg then Err (capacity_message (limit reg))
      else Ok ())"

definition contains :: "run_registry \<Rightarrow> string \<Rightarrow> bool" where
  "contains reg run_id = list_ex (\<lambda>(held, _). ar_id held = run_id) (runs reg)"

definition install :: "run_registry \<Rightarrow> active_run \<Rightarrow> string option \<Rightarrow> run_registry rresult" where
  "install reg run thread =
     (if contains reg (ar_id run) then Err ''That reply is already running.''
      else if holds_thread reg thread then Err thread_busy
      else if length (runs reg) \<ge> limit reg then Err (capacity_message (limit reg))
      else Ok (reg\<lparr>runs := runs reg @ [(run, thread)]\<rparr>))"

text \<open>The first run with the id is the one found, and changed.\<close>

fun update_first :: "('a \<Rightarrow> bool) \<Rightarrow> ('a \<Rightarrow> 'a) \<Rightarrow> 'a list \<Rightarrow> 'a list option" where
  "update_first P f [] = None"
| "update_first P f (x # xs) = (if P x then Some (f x # xs) else map_option ((#) x) (update_first P f xs))"

definition bind_thread :: "run_registry \<Rightarrow> string \<Rightarrow> string \<Rightarrow> run_registry rresult" where
  "bind_thread reg run_id thread =
     (if list_ex (\<lambda>(held, held_thread). ar_id held \<noteq> run_id \<and> held_thread = Some thread) (runs reg)
      then Err thread_busy
      else (case update_first (\<lambda>(held, _). ar_id held = run_id) (\<lambda>(held, _). (held, Some thread)) (runs reg) of
              None \<Rightarrow> Err not_active
            | Some rs \<Rightarrow> Ok (reg\<lparr>runs := rs\<rparr>)))"

fun remove_first :: "('a \<Rightarrow> bool) \<Rightarrow> 'a list \<Rightarrow> 'a list" where
  "remove_first P [] = []"
| "remove_first P (x # xs) = (if P x then xs else x # remove_first P xs)"

definition clear :: "run_registry \<Rightarrow> string \<Rightarrow> run_registry" where
  "clear reg run_id = reg\<lparr>runs := remove_first (\<lambda>(held, _). ar_id held = run_id) (runs reg)\<rparr>"

definition thread_run :: "run_registry \<Rightarrow> string \<Rightarrow> string option" where
  "thread_run reg thread =
     map_option (\<lambda>(run, _). ar_id run) (find (\<lambda>(_, held). held = Some thread) (runs reg))"

definition identities :: "run_registry \<Rightarrow> active_identity list" where
  "identities reg = map (\<lambda>(run, thread).
     \<lparr>ai_run_id = ar_id run, ai_workspace = ar_workspace run, ai_thread_id = thread\<rparr>) (runs reg)"

text \<open>\<open>with_run\<close> with an action that changes the run.\<close>

definition with_run ::
  "run_registry \<Rightarrow> string \<Rightarrow> string option \<Rightarrow> (active_run \<Rightarrow> active_run) \<Rightarrow> run_registry rresult" where
  "with_run reg run_id workspace action =
     (case update_first (\<lambda>(run, _). ar_id run = run_id
               \<and> (case workspace of None \<Rightarrow> True | Some w \<Rightarrow> w = ar_workspace run))
             (\<lambda>(run, thread). (action run, thread)) (runs reg) of
        None \<Rightarrow> Err not_active
      | Some rs \<Rightarrow> Ok (reg\<lparr>runs := rs\<rparr>))"

definition cancel_active_run :: "run_registry \<Rightarrow> string \<Rightarrow> string option \<Rightarrow> run_registry rresult" where
  "cancel_active_run reg run_id workspace =
     with_run reg run_id workspace (\<lambda>run. run\<lparr>ar_cancelled := True\<rparr>)"

definition queue_permission_answer ::
  "run_registry \<Rightarrow> string \<Rightarrow> string \<Rightarrow> chat_permission_answer \<Rightarrow> run_registry rresult" where
  "queue_permission_answer reg run_id gate_id answer =
     with_run reg run_id None
       (\<lambda>run. run\<lparr>ar_answers := ar_answers run @ [\<lparr>pa_gate = gate_id, pa_answer = answer, pa_waits = False\<rparr>]\<rparr>)"

definition queue_permission_answer_with_commit ::
  "run_registry \<Rightarrow> string option \<Rightarrow> string \<Rightarrow> string \<Rightarrow> chat_permission_answer \<Rightarrow> run_registry rresult" where
  "queue_permission_answer_with_commit reg workspace run_id gate_id answer =
     with_run reg run_id workspace
       (\<lambda>run. run\<lparr>ar_answers := ar_answers run @ [\<lparr>pa_gate = gate_id, pa_answer = answer, pa_waits = True\<rparr>]\<rparr>)"

section \<open>The registry's contract\<close>

text \<open>
  What a runtime relies on: ids and threads name at most one live run, and the runs never pass the
  limit. The state is viewed as the list of ids with their threads.
\<close>

definition view_of :: "run_registry \<Rightarrow> (string \<times> string option) list" where
  "view_of reg = map (\<lambda>(run, thread). (ar_id run, thread)) (runs reg)"

definition threads_of :: "(string \<times> string option) list \<Rightarrow> string list" where
  "threads_of v = List.map_filter snd v"

definition registry_ok :: "run_registry \<Rightarrow> bool" where
  "registry_ok reg \<longleftrightarrow> distinct (map fst (view_of reg)) \<and> distinct (threads_of (view_of reg))
     \<and> length (runs reg) \<le> limit reg \<and> 1 \<le> limit reg"

inductive registry_step :: "run_registry \<Rightarrow> run_registry \<Rightarrow> bool" where
  install: "install reg run thread = Ok reg' \<Longrightarrow> registry_step reg reg'"
| bind: "bind_thread reg run_id thread = Ok reg' \<Longrightarrow> registry_step reg reg'"
| clear: "registry_step reg (clear reg run_id)"
| cancel: "cancel_active_run reg run_id workspace = Ok reg' \<Longrightarrow> registry_step reg reg'"
| answer: "queue_permission_answer reg run_id gate_id answer = Ok reg' \<Longrightarrow> registry_step reg reg'"
| answer_commit: "queue_permission_answer_with_commit reg workspace run_id gate_id answer = Ok reg' \<Longrightarrow> registry_step reg reg'"

lemma threads_of_simps [simp]:
  "threads_of [] = []" "threads_of ((i, None) # v) = threads_of v" "threads_of ((i, Some t) # v) = t # threads_of v"
  by (simp_all add: threads_of_def map_filter_simps)

lemma threads_of_append [simp]: "threads_of (v @ w) = threads_of v @ threads_of w"
  by (induction v) (auto simp: threads_of_def map_filter_def)

lemma set_threads_of: "t \<in> set (threads_of v) \<longleftrightarrow> (\<exists>i. (i, Some t) \<in> set v)"
  by (induction v) (auto simp: threads_of_def map_filter_def)

lemma holds_thread_iff: "holds_thread reg (Some t) \<longleftrightarrow> t \<in> set (threads_of (view_of reg))"
  by (force simp: holds_thread_def set_threads_of view_of_def list_ex_iff)

lemma contains_iff: "contains reg i \<longleftrightarrow> i \<in> set (map fst (view_of reg))"
  by (force simp: contains_def view_of_def list_ex_iff)

lemma install_ok:
  assumes "registry_ok reg" "install reg run thread = Ok reg'"
  shows "registry_ok reg'"
proof -
  from assms(2) have "\<not> contains reg (ar_id run)" "\<not> holds_thread reg thread" "length (runs reg) < limit reg"
    and reg': "reg' = reg\<lparr>runs := runs reg @ [(run, thread)]\<rparr>"
    by (auto simp: install_def split: if_splits)
  moreover have "view_of reg' = view_of reg @ [(ar_id run, thread)]" by (simp add: reg' view_of_def)
  ultimately show ?thesis
    using assms(1) by (cases thread) (auto simp: registry_ok_def contains_iff holds_thread_iff)
qed

lemma update_first_view:
  assumes "update_first (\<lambda>(held, _). Q held) f rs = Some rs'"
    and "\<And>run thread. Q run \<Longrightarrow> (\<lambda>(run, thread). (ar_id run, thread)) (f (run, thread)) = (ar_id run, thread)"
  shows "map (\<lambda>(run, thread). (ar_id run, thread)) rs' = map (\<lambda>(run, thread). (ar_id run, thread)) rs"
  using assms(1)
proof (induction rs arbitrary: rs')
  case (Cons x rs)
  then show ?case using assms(2) by (cases x) (auto split: if_splits)
qed simp

lemma registry_ok_view:
  "view_of reg' = view_of reg \<Longrightarrow> limit reg' = limit reg \<Longrightarrow> registry_ok reg \<Longrightarrow> registry_ok reg'"
proof -
  assume v: "view_of reg' = view_of reg" "limit reg' = limit reg" "registry_ok reg"
  then have "length (runs reg') = length (runs reg)" by (metis length_map view_of_def)
  with v show ?thesis by (simp add: registry_ok_def)
qed

lemma with_run_view:
  assumes "with_run reg run_id workspace action = Ok reg'" "\<And>run. ar_id (action run) = ar_id run"
  shows "view_of reg' = view_of reg" "limit reg' = limit reg"
  using assms
  by (auto simp: with_run_def view_of_def split: option.splits dest!: update_first_view)

lemma with_run_ok:
  assumes "registry_ok reg" "with_run reg run_id workspace action = Ok reg'" "\<And>run. ar_id (action run) = ar_id run"
  shows "registry_ok reg'"
  using registry_ok_view [OF with_run_view [OF assms(2,3)] assms(1)] .

lemma update_first_length: "update_first P f xs = Some ys \<Longrightarrow> length ys = length xs"
  by (induction xs arbitrary: ys) (auto split: if_splits)

lemma find_append_None: "find P xs = None \<Longrightarrow> find P (xs @ ys) = find P ys"
  by (induction xs) (auto split: if_splits)

lemma remove_first_append: "\<forall>x\<in>set xs. \<not> P x \<Longrightarrow> P y \<Longrightarrow> remove_first P (xs @ [y]) = xs"
  by (induction xs) auto

lemma bind_thread_view:
  assumes "distinct (map fst (map (\<lambda>(run, thread). (ar_id run, thread)) rs))"
    and "update_first (\<lambda>(held, _). ar_id held = i) (\<lambda>(held, _). (held, Some t)) rs = Some rs'"
  shows "map (\<lambda>(run, thread). (ar_id run, thread)) rs'
      = map (\<lambda>(j, thread). (j, if j = i then Some t else thread)) (map (\<lambda>(run, thread). (ar_id run, thread)) rs)"
  using assms
proof (induction rs arbitrary: rs')
  case (Cons x rs)
  obtain run th where x: "x = (run, th)" by (cases x)
  show ?case
  proof (cases "ar_id run = i")
    case True
    with Cons.prems x have "rs' = (run, Some t) # rs" "\<forall>y\<in>set rs. ar_id (fst y) \<noteq> i" by force+
    then show ?thesis using x True by (auto simp: comp_def split_def)
  next
    case False
    with Cons x show ?thesis by auto
  qed
qed simp

lemma bind_threads_distinct:
  assumes "distinct (map fst v)" "distinct (threads_of v)" "\<forall>(j, th)\<in>set v. th = Some t \<longrightarrow> j = i"
  shows "distinct (threads_of (map (\<lambda>(j, thread). (j, if j = i then Some t else thread)) v))
    \<and> set (threads_of (map (\<lambda>(j, thread). (j, if j = i then Some t else thread)) v)) \<subseteq> insert t (set (threads_of v))"
  using assms
proof (induction v)
  case (Cons x v)
  obtain j th where x: "x = (j, th)" by (cases x)
  show ?case
  proof (cases "j = i")
    case True
    then have other: "\<forall>y\<in>set v. fst y \<noteq> i" using Cons.prems(1) x by auto
    then have "map (\<lambda>(j, thread). (j, if j = i then Some t else thread)) v = v"
      by (intro map_idI) auto
    moreover have "t \<notin> set (threads_of v)" using other Cons.prems(3) by (fastforce simp: set_threads_of)
    moreover have "distinct (threads_of v)" using Cons.prems(2) x by (cases th) auto
    ultimately show ?thesis using True x by (cases th) auto
  next
    case False
    then have "th \<noteq> Some t" using Cons.prems(3) x by auto
    with False Cons x show ?thesis by (cases th) auto
  qed
qed simp

lemma bind_thread_ok:
  assumes "registry_ok reg" "bind_thread reg i t = Ok reg'"
  shows "registry_ok reg'"
proof -
  from assms(2) obtain rs' where other: "\<not> list_ex (\<lambda>(held, held_thread). ar_id held \<noteq> i \<and> held_thread = Some t) (runs reg)"
    and up: "update_first (\<lambda>(held, _). ar_id held = i) (\<lambda>(held, _). (held, Some t)) (runs reg) = Some rs'"
    and reg': "reg' = reg\<lparr>runs := rs'\<rparr>"
    by (auto simp: bind_thread_def split: if_splits option.splits)
  have v: "view_of reg' = map (\<lambda>(j, thread). (j, if j = i then Some t else thread)) (view_of reg)"
    using bind_thread_view [OF _ up] assms(1) by (simp add: reg' view_of_def registry_ok_def)
  have o: "\<forall>(j, th)\<in>set (view_of reg). th = Some t \<longrightarrow> j = i" using other by (force simp: view_of_def list_ex_iff)
  have "length rs' = length (runs reg)" using up by (rule update_first_length)
  then show ?thesis
    using assms(1) bind_threads_distinct [of "view_of reg" t i] o
    unfolding registry_ok_def v by (simp add: reg' comp_def split_def)
qed


lemma remove_first_sub:
  "distinct xs \<Longrightarrow> distinct (remove_first P xs)" "set (remove_first P xs) \<subseteq> set xs" "length (remove_first P xs) \<le> length xs"
  by (induction xs) auto

lemma clear_view: "view_of (clear reg i) = remove_first (\<lambda>(j, _). j = i) (view_of reg)"
proof -
  have "map (\<lambda>(run, thread). (ar_id run, thread)) (remove_first (\<lambda>(held, _). ar_id held = i) rs)
      = remove_first (\<lambda>(j, _). j = i) (map (\<lambda>(run, thread). (ar_id run, thread)) rs)" for rs :: "(active_run \<times> string option) list"
    by (induction rs) auto
  then show ?thesis by (simp add: view_of_def clear_def)
qed

lemma remove_first_views:
  "distinct (map fst v) \<Longrightarrow> distinct (map fst (remove_first P v))"
  "distinct (threads_of v) \<Longrightarrow> distinct (threads_of (remove_first P v))
     \<and> set (threads_of (remove_first P v)) \<subseteq> set (threads_of v)"
proof -
  show "distinct (map fst v) \<Longrightarrow> distinct (map fst (remove_first P v))"
  proof (induction v)
    case (Cons x v)
    then show ?case using remove_first_sub(2) [of P v] by auto
  qed simp
  show "distinct (threads_of v) \<Longrightarrow> distinct (threads_of (remove_first P v))
     \<and> set (threads_of (remove_first P v)) \<subseteq> set (threads_of v)"
  proof (induction v)
    case (Cons x v)
    obtain j th where "x = (j, th)" by (cases x)
    with Cons show ?case by (cases th) auto
  qed simp
qed

lemma clear_ok: "registry_ok reg \<Longrightarrow> registry_ok (clear reg i)"
  using remove_first_sub(3) [of "\<lambda>(held, _). ar_id held = i" "runs reg"] remove_first_views [of "view_of reg"]
  by (auto simp: registry_ok_def clear_view) (simp add: clear_def)+

lemma registry_step_ok: "registry_step reg reg' \<Longrightarrow> registry_ok reg \<Longrightarrow> registry_ok reg'"
proof (induction rule: registry_step.induct)
  case (cancel reg run_id workspace reg')
  show ?case by (rule with_run_ok [OF cancel.prems cancel.hyps [unfolded cancel_active_run_def]]) simp
next
  case (answer reg run_id gate_id answer reg')
  show ?case by (rule with_run_ok [OF answer.prems answer.hyps [unfolded queue_permission_answer_def]]) simp
next
  case (answer_commit reg workspace run_id gate_id answer reg')
  show ?case by (rule with_run_ok [OF answer_commit.prems
      answer_commit.hyps [unfolded queue_permission_answer_with_commit_def]]) simp
qed (auto intro: install_ok bind_thread_ok clear_ok)

section \<open>Properties\<close>

text \<open>In every state the runtime reaches, at most \<open>limit\<close> runs are live, no id is live twice, and at
  most one run replies in each thread, whatever interleaving of starts, bindings, ends, cancels and
  answers led there.\<close>

theorem registry_reachable:
  assumes "rtranclp registry_step (with_limit n) reg"
  shows "length (runs reg) \<le> max n 1 \<and> distinct (map (\<lambda>i. ai_run_id i) (identities reg))
    \<and> distinct (List.map_filter ai_thread_id (identities reg))"
proof -
  have "limit reg = max n 1 \<and> registry_ok reg"
    using assms
  proof (induction rule: rtranclp_induct)
    case base
    then show ?case by (simp add: with_limit_def registry_ok_def view_of_def)
  next
    case (step y z)
    have "limit z = limit y"
      using step(2) by (cases rule: registry_step.cases)
        (auto simp: install_def bind_thread_def clear_def cancel_active_run_def queue_permission_answer_def queue_permission_answer_with_commit_def
          with_run_def split: if_splits option.splits)
    with step registry_step_ok show ?case by simp
  qed
  moreover have "List.map_filter ai_thread_id (identities reg) = threads_of (view_of reg)"
    by (simp add: identities_def threads_of_def view_of_def map_filter_def comp_def filter_map split_def)
  moreover have "map (\<lambda>i. ai_run_id i) (identities reg) = map fst (view_of reg)"
    by (simp add: identities_def view_of_def comp_def split_def)
  ultimately show ?thesis by (simp add: registry_ok_def)
qed

theorem registry_reachable_witness:
  "\<exists>reg. rtranclp registry_step (with_limit 0) reg \<and> length (runs reg) = 1
     \<and> distinct (map (\<lambda>i. ai_run_id i) (identities reg))"
proof -
  let ?run = "\<lparr>ar_id = ''r1'', ar_workspace = ''w'', ar_cancelled = False, ar_answers = []\<rparr>"
  let ?reg = "\<lparr>runs = [(?run, Some ''t'')], limit = 1\<rparr>"
  have "registry_step (with_limit 0) ?reg"
    by (rule registry_step.install [of _ ?run "Some ''t''"]) (simp add: install_def with_limit_def contains_def holds_thread_def)
  then have r: "rtranclp registry_step (with_limit 0) ?reg" by (rule r_into_rtranclp)
  from registry_reachable [OF r] r show ?thesis by (intro exI [of _ ?reg]) simp
qed

text \<open>A run that \<open>admits\<close> lets start does start, if its id is new and no other call came between;
  and a started run is found by its thread until it is cleared, after which its place and its thread
  are free again.\<close>

theorem admitted_runs_start:
  assumes "registry_ok reg" "admits reg (Some t) = Ok ()" "\<not> contains reg (ar_id run)"
  shows "\<exists>reg'. install reg run (Some t) = Ok reg' \<and> thread_run reg' t = Some (ar_id run)
    \<and> clear reg' (ar_id run) = reg \<and> admits (clear reg' (ar_id run)) (Some t) = Ok ()"
proof -
  have a: "\<not> holds_thread reg (Some t)" "\<not> limit reg \<le> length (runs reg)"
    using assms(2) by (auto simp: admits_def split: if_splits)
  let ?reg = "reg\<lparr>runs := runs reg @ [(run, Some t)]\<rparr>"
  have "find (\<lambda>(_, held). held = Some t) (runs reg) = None"
    using a(1) by (auto simp: holds_thread_def list_ex_iff find_None_iff)
  then have "find (\<lambda>(_, held). held = Some t) (runs reg @ [(run, Some t)]) = Some (run, Some t)"
    by (simp add: find_append_None)
  moreover have "remove_first (\<lambda>(held, _). ar_id held = ar_id run) (runs reg @ [(run, Some t)]) = runs reg"
    using assms(3) by (intro remove_first_append) (auto simp: contains_def list_ex_iff)
  ultimately show ?thesis
    using assms a by (intro exI [of _ ?reg]) (simp add: install_def thread_run_def clear_def)
qed

theorem admitted_runs_start_witness:
  "\<exists>reg'. install (with_limit 2) \<lparr>ar_id = ''r1'', ar_workspace = ''w'', ar_cancelled = False, ar_answers = []\<rparr> (Some ''t'')
      = Ok reg' \<and> thread_run reg' ''t'' = Some ''r1''"
  using admitted_runs_start [of "with_limit 2" "''t''" "\<lparr>ar_id = ''r1'', ar_workspace = ''w'', ar_cancelled = False, ar_answers = []\<rparr>"]
  by (auto simp: with_limit_def registry_ok_def view_of_def admits_def holds_thread_def contains_def)

end
