(* ===== verification/Live_Connections.thy ===== *)
theory Live_Connections
  imports Prelude "HOL-Library.AList"
begin

text \<open>
  The live attach connections by credential (\<open>attach/live_connections.rs\<close>): blocking, resuming and
  revoking what a credential admits. A connection object is reached through the registry; a handle
  shares it, and connection ids are events, so no id is registered twice.
\<close>

section \<open>State\<close>

datatype conn_state = Active | Blocked | Revoked

record live_connection =
  lc_capability :: string
  lc_event_id :: string
  lc_state :: conn_state

record credential_connections =
  cc_state :: conn_state
  cc_connections :: "(string \<times> live_connection) list"

type_synonym live_registry = "(string \<times> credential_connections) list"

definition cc_default :: credential_connections where
  "cc_default = \<lparr>cc_state = Active, cc_connections = []\<rparr>"

text \<open>\<open>entry(credential).or_default()\<close>.\<close>

definition entry_of :: "live_registry \<Rightarrow> string \<Rightarrow> credential_connections" where
  "entry_of reg credential = (case map_of reg credential of None \<Rightarrow> cc_default | Some e \<Rightarrow> e)"

section \<open>Operations\<close>

definition set_state :: "live_registry \<Rightarrow> string \<Rightarrow> (conn_state \<Rightarrow> conn_state) \<Rightarrow> live_registry \<times> nat" where
  "set_state reg credential update =
     (let e = entry_of reg credential;
          st = update (cc_state e);
          e = e\<lparr>cc_state := st,
                cc_connections := map (\<lambda>(i, c). (i, c\<lparr>lc_state := st\<rparr>)) (cc_connections e)\<rparr>
      in (AList.update credential e reg, length (cc_connections e)))"

definition block :: "live_registry \<Rightarrow> string \<Rightarrow> live_registry \<times> nat" where
  "block reg credential = set_state reg credential (\<lambda>s. if s = Active then Blocked else s)"

definition resume :: "live_registry \<Rightarrow> string \<Rightarrow> live_registry \<times> nat" where
  "resume reg credential = set_state reg credential (\<lambda>s. if s = Blocked then Active else s)"

definition revoke :: "live_registry \<Rightarrow> string \<Rightarrow> live_registry \<times> nat" where
  "revoke reg credential = set_state reg credential (\<lambda>_. Revoked)"

definition revoke_all :: "live_registry \<Rightarrow> live_registry \<times> nat" where
  "revoke_all reg =
     (map (\<lambda>(cr, e). (cr, e\<lparr>cc_connections := map (\<lambda>(i, c). (i, c\<lparr>lc_state := Revoked\<rparr>)) (cc_connections e)\<rparr>)) reg,
      sum_list (map (\<lambda>(_, e). length (cc_connections e)) reg))"

definition register :: "live_registry \<Rightarrow> string \<Rightarrow> string \<Rightarrow> string \<Rightarrow> live_registry" where
  "register reg credential capability event_id =
     (let e = entry_of reg credential;
          c = \<lparr>lc_capability = capability, lc_event_id = event_id, lc_state = cc_state e\<rparr>
      in AList.update credential (e\<lparr>cc_connections := AList.update event_id c (cc_connections e)\<rparr>) reg)"

text \<open>\<open>Drop for RegisteredConnection\<close>.\<close>

definition drop_connection :: "live_registry \<Rightarrow> string \<Rightarrow> string \<Rightarrow> live_registry" where
  "drop_connection reg credential event_id =
     (case map_of reg credential of
        None \<Rightarrow> reg
      | Some e \<Rightarrow> AList.update credential (e\<lparr>cc_connections := AList.delete event_id (cc_connections e)\<rparr>) reg)"

definition state_of :: "live_registry \<Rightarrow> string \<Rightarrow> string \<Rightarrow> conn_state option" where
  "state_of reg credential event_id =
     map_option lc_state (map_of (cc_connections (entry_of reg credential)) event_id)"

section \<open>Histories\<close>

datatype live_op = Block string | Resume string | Revoke string | RevokeAll
  | Register string string string | DropConnection string string

fun live_step :: "live_registry \<Rightarrow> live_op \<Rightarrow> live_registry" where
  "live_step reg (Block cr) = fst (block reg cr)"
| "live_step reg (Resume cr) = fst (resume reg cr)"
| "live_step reg (Revoke cr) = fst (revoke reg cr)"
| "live_step reg RevokeAll = fst (revoke_all reg)"
| "live_step reg (Register cr cap i) = register reg cr cap i"
| "live_step reg (DropConnection cr i) = drop_connection reg cr i"

definition live_run :: "live_registry \<Rightarrow> live_op list \<Rightarrow> live_registry" where
  "live_run reg ops = foldl live_step reg ops"

lemma entry_of_update: "entry_of (AList.update k e reg) cr = (if cr = k then e else entry_of reg cr)"
  by (simp add: entry_of_def update_conv')

lemma map_of_map_state: "map_of (map (\<lambda>(i, c). (i, f c)) cs) i = map_option f (map_of cs i)"
  by (induction cs) auto

lemma entry_of_revoke_all:
  "entry_of (fst (revoke_all reg)) cr =
     (entry_of reg cr)\<lparr>cc_connections := map (\<lambda>(i, c). (i, c\<lparr>lc_state := Revoked\<rparr>)) (cc_connections (entry_of reg cr))\<rparr>"
  by (simp add: entry_of_def revoke_all_def map_of_map_state cc_default_def split: option.splits)

lemma entry_of_set_state:
  "entry_of (fst (set_state reg k upd)) cr = (if cr = k
     then (entry_of reg k)\<lparr>cc_state := upd (cc_state (entry_of reg k)),
            cc_connections := map (\<lambda>(i, c). (i, c\<lparr>lc_state := upd (cc_state (entry_of reg k))\<rparr>)) (cc_connections (entry_of reg k))\<rparr>
     else entry_of reg cr)"
  by (simp add: set_state_def Let_def entry_of_update)

lemma entry_of_register:
  "entry_of (register reg k cap i) cr = (if cr = k
     then (entry_of reg k)\<lparr>cc_connections := AList.update i
            \<lparr>lc_capability = cap, lc_event_id = i, lc_state = cc_state (entry_of reg k)\<rparr> (cc_connections (entry_of reg k))\<rparr>
     else entry_of reg cr)"
  by (simp add: register_def Let_def entry_of_update)

lemma entry_of_drop:
  "entry_of (drop_connection reg k i) cr = (if cr = k
     then (entry_of reg k)\<lparr>cc_connections := AList.delete i (cc_connections (entry_of reg k))\<rparr>
     else entry_of reg cr)"
proof (cases "map_of reg k")
  case None
  then have "entry_of reg k = cc_default" by (simp add: entry_of_def)
  with None show ?thesis by (simp add: drop_connection_def cc_default_def)
next
  case (Some e)
  then have "entry_of reg k = e" by (simp add: entry_of_def)
  with Some show ?thesis by (simp add: drop_connection_def entry_of_update)
qed

lemma entry_of_Nil [simp]: "entry_of [] cr = cc_default"
  by (simp add: entry_of_def)

lemmas entry_simps = entry_of_set_state entry_of_register entry_of_drop entry_of_revoke_all
  block_def resume_def revoke_def

text \<open>A credential whose state is revoked stays so, and so do its connections.\<close>

definition all_revoked :: "live_registry \<Rightarrow> string \<Rightarrow> bool" where
  "all_revoked reg cr \<longleftrightarrow> cc_state (entry_of reg cr) = Revoked
     \<and> (\<forall>i c. map_of (cc_connections (entry_of reg cr)) i = Some c \<longrightarrow> lc_state c = Revoked)"

lemma all_revoked_step: "all_revoked reg cr \<Longrightarrow> all_revoked (live_step reg opn) cr"
  by (cases opn)
    (auto simp: all_revoked_def entry_simps map_of_map_state update_conv' delete_conv' split: if_splits)

section \<open>Properties\<close>

text \<open>Once a credential is revoked, every connection under it, present or registered later, is
  revoked through any later blocking, resuming, signing out, registering and dropping.\<close>

theorem revoked_stays_revoked:
  assumes "state_of (live_run (fst (revoke reg cr)) ops) cr i = Some s"
  shows "s = Revoked"
proof -
  have "all_revoked (fst (revoke reg cr)) cr"
    by (auto simp: all_revoked_def entry_simps map_of_map_state)
  then have "all_revoked (live_run (fst (revoke reg cr)) ops) cr"
    unfolding live_run_def by (induction ops rule: rev_induct) (simp_all add: all_revoked_step)
  with assms show ?thesis by (auto simp: state_of_def all_revoked_def)
qed

theorem revoked_stays_revoked_witness:
  "state_of (live_run (fst (revoke [] ''c'')) [Resume ''c'', Register ''c'' ''cap'' ''e'']) ''c'' ''e'' = Some Revoked"
proof -
  let ?reg = "live_run (fst (revoke [] ''c'')) [Resume ''c'', Register ''c'' ''cap'' ''e'']"
  have "\<exists>s. state_of ?reg ''c'' ''e'' = Some s"
    by (simp add: live_run_def state_of_def entry_simps update_conv')
  then obtain s where s: "state_of ?reg ''c'' ''e'' = Some s" by blast
  with revoked_stays_revoked [OF s] show ?thesis by simp
qed

text \<open>While a credential is blocked, no connection under it is active, including one registered
  meanwhile; blocking and resuming leave other credentials alone.\<close>

theorem blocked_admits_nothing:
  assumes "cr' \<noteq> cr"
  shows "state_of (fst (block reg cr)) cr i \<noteq> Some Active
    \<and> state_of (register (fst (block reg cr)) cr cap i) cr i \<noteq> Some Active
    \<and> state_of (fst (block reg cr)) cr' j = state_of reg cr' j
    \<and> state_of (fst (resume reg cr)) cr' j = state_of reg cr' j"
  using assms by (auto simp: state_of_def entry_simps map_of_map_state update_conv')

theorem blocked_admits_nothing_witness:
  "state_of (fst (block (register [] ''c'' ''cap'' ''e'') ''c'')) ''c'' ''e'' \<noteq> Some Active"
  using blocked_admits_nothing [of "''d''" "''c''" "register [] ''c'' ''cap'' ''e''" "''e''" "[]" "[]"] by simp

text \<open>A sign-out revokes every live connection but leaves the credential's own state, so a later
  resume of the credential, even one that changes nothing, makes the revoked connection active again.\<close>

theorem resume_undoes_revoke_all:
  "let reg = fst (revoke_all (register [] ''c'' ''cap'' ''e''))
   in state_of reg ''c'' ''e'' = Some Revoked \<and> state_of (fst (resume reg ''c'')) ''c'' ''e'' = Some Active"
  by (simp add: state_of_def entry_simps map_of_map_state update_conv' cc_default_def Let_def)

end
