(* ===== verification/Companion_Registry.thy ===== *)
theory Companion_Registry
  imports Live_Connections
begin

text \<open>
  The companions a profile admits (\<open>attach/companion_registry.rs\<close>): revoking one blocks its live
  connections, persists the smaller credential map, and only then revokes them; a failed write puts
  everything back. Writing the file is the argument \<open>persist\<close>.
\<close>

section \<open>The gate a registry relies on\<close>

text \<open>
  What blocking, resuming and revoking promise: no connection of a revoked credential is ever
  admitted again, and other credentials are not touched.
\<close>

locale credential_gate =
  fixes gate_block :: "'r \<Rightarrow> string \<Rightarrow> 'r"
    and gate_resume :: "'r \<Rightarrow> string \<Rightarrow> 'r"
    and gate_revoke :: "'r \<Rightarrow> string \<Rightarrow> 'r"
    and later :: "'r \<Rightarrow> 'o list \<Rightarrow> 'r"
    and admitted :: "'r \<Rightarrow> string \<Rightarrow> string \<Rightarrow> bool"
  assumes block_stops: "\<not> admitted (gate_block r c) c i"
    and revoke_final: "\<not> admitted (later (gate_revoke r c) ops) c i"
    and block_others: "d \<noteq> c \<Longrightarrow> admitted (gate_block r c) d i = admitted r d i"
    and resume_others: "d \<noteq> c \<Longrightarrow> admitted (gate_resume r c) d i = admitted r d i"
    and revoke_others: "d \<noteq> c \<Longrightarrow> admitted (gate_revoke r c) d i = admitted r d i"
begin

lemma removed_for_good: "\<not> admitted (later (gate_revoke (gate_block r c) c) ops) c i"
  by (rule revoke_final)

lemma removal_keeps_others: "d \<noteq> c \<Longrightarrow> admitted (gate_revoke (gate_block r c) c) d i = admitted r d i"
  by (simp add: revoke_others block_others)

lemma failure_keeps_others: "d \<noteq> c \<Longrightarrow> admitted (gate_resume (gate_block r c) c) d i = admitted r d i"
  by (simp add: resume_others block_others)

end

definition admitted_now :: "live_registry \<Rightarrow> string \<Rightarrow> string \<Rightarrow> bool" where
  "admitted_now reg cr i \<longleftrightarrow> state_of reg cr i = Some Active"

lemma all_revoked_run: "all_revoked reg cr \<Longrightarrow> all_revoked (live_run reg ops) cr"
  unfolding live_run_def by (induction ops rule: rev_induct) (simp_all add: all_revoked_step)

lemma all_revoked_revoke: "all_revoked (fst (revoke reg cr)) cr"
  by (auto simp: all_revoked_def entry_simps map_of_map_state)

interpretation lc: credential_gate
  "\<lambda>r c. fst (block r c)" "\<lambda>r c. fst (resume r c)" "\<lambda>r c. fst (revoke r c)" live_run admitted_now
proof
  fix r :: live_registry and c i ops
  show "\<not> admitted_now (fst (block r c)) c i"
    by (auto simp: admitted_now_def state_of_def entry_simps map_of_map_state)
  show "\<not> admitted_now (live_run (fst (revoke r c)) ops) c i"
    using all_revoked_run [OF all_revoked_revoke [of r c], of ops]
    by (auto simp: admitted_now_def state_of_def all_revoked_def)
qed (simp_all add: admitted_now_def state_of_def entry_simps)

section \<open>The companions\<close>

record client_credential =
  cr_credential :: string
  cr_claimed_kind :: string
  cr_claimed_version :: string
  cr_approved_at :: "string option"
  cr_subject :: "string option"

record companion_registry =
  credentials :: "(string \<times> client_credential) list"
  live :: live_registry

record companion_record =
  co_identity :: string
  co_kind :: string
  co_version :: string
  co_approved_at :: "string option"

definition companion_revoke ::
  "((string \<times> client_credential) list \<Rightarrow> string option) \<Rightarrow> companion_registry \<Rightarrow> string
     \<Rightarrow> companion_registry \<times> unit rresult" where
  "companion_revoke persist reg identity =
     (case map_of (credentials reg) identity of
        None \<Rightarrow> (reg, Err ''unauthorized'')
      | Some credential \<Rightarrow>
          (let reg1 = reg\<lparr>live := fst (block (live reg) (cr_credential credential)),
                          credentials := AList.delete identity (credentials reg)\<rparr>
           in case persist (credentials reg1) of
                Some e \<Rightarrow>
                  (reg1\<lparr>credentials := AList.update identity credential (credentials reg1),
                        live := fst (resume (live reg1) (cr_credential credential))\<rparr>, Err e)
              | None \<Rightarrow> (reg1\<lparr>live := fst (revoke (live reg1) (cr_credential credential))\<rparr>, Ok ())))"

definition revoke_live_connections :: "companion_registry \<Rightarrow> companion_registry \<times> nat" where
  "revoke_live_connections reg = (reg\<lparr>live := fst (revoke_all (live reg))\<rparr>, snd (revoke_all (live reg)))"

definition companion_list :: "companion_registry \<Rightarrow> companion_record list" where
  "companion_list reg = sort_key co_identity (map (\<lambda>(i, c).
     \<lparr>co_identity = i, co_kind = cr_claimed_kind c, co_version = cr_claimed_version c,
      co_approved_at = cr_approved_at c\<rparr>) (credentials reg))"

section \<open>Properties\<close>

text \<open>A companion that was revoked is gone from the list, and no connection under its credential is
  ever admitted again; connections of other credentials are as they were. A revocation that fails to
  persist keeps every companion and touches no other credential's connections.\<close>

theorem companion_revoke_effect:
  assumes "companion_revoke persist reg identity = (reg', res)"
    and "map_of (credentials reg) identity = Some c" "d \<noteq> cr_credential c"
  shows "(res = Ok () \<longrightarrow> identity \<notin> co_identity ` set (companion_list reg')
        \<and> \<not> admitted_now (live_run (live reg') ops) (cr_credential c) i)
    \<and> (res \<noteq> Ok () \<longrightarrow> map_of (credentials reg') = map_of (credentials reg))
    \<and> admitted_now (live reg') d i = admitted_now (live reg) d i"
proof (cases "persist (AList.delete identity (credentials reg))")
  case None
  then have reg': "res = Ok ()" "credentials reg' = AList.delete identity (credentials reg)"
      "live reg' = fst (revoke (fst (block (live reg) (cr_credential c))) (cr_credential c))"
    using assms(1,2) by (auto simp: companion_revoke_def Let_def)
  have "identity \<notin> fst ` set (AList.delete identity (credentials reg))" by (auto simp: AList.delete_eq)
  then have "identity \<notin> co_identity ` set (companion_list reg')"
    by (force simp: companion_list_def reg')
  then show ?thesis
    using reg' lc.removed_for_good lc.removal_keeps_others [OF assms(3)] by simp
next
  case (Some e)
  then have reg': "res = Err e" "credentials reg' = AList.update identity c (AList.delete identity (credentials reg))"
      "live reg' = fst (resume (fst (block (live reg) (cr_credential c))) (cr_credential c))"
    using assms(1,2) by (auto simp: companion_revoke_def Let_def)
  have "map_of (credentials reg') = map_of (credentials reg)"
    using assms(2) by (auto simp: reg' update_conv' delete_conv' fun_eq_iff)
  then show ?thesis using reg' lc.failure_keeps_others [OF assms(3)] by simp
qed

definition sample_companions :: companion_registry where
  "sample_companions = \<lparr>credentials = [(''phone'', \<lparr>cr_credential = ''c1'', cr_claimed_kind = ''ios'',
      cr_claimed_version = ''1'', cr_approved_at = Some ''now'', cr_subject = None\<rparr>)],
     live = register [] ''c1'' ''cap'' ''e1''\<rparr>"

theorem companion_revoke_effect_witness:
  "snd (companion_revoke (\<lambda>_. None) sample_companions ''phone'') = Ok ()
   \<and> \<not> admitted_now (live_run (live (fst (companion_revoke (\<lambda>_. None) sample_companions ''phone''))) [Resume ''c1'']) ''c1'' ''e1''"
proof -
  obtain reg' res where r: "companion_revoke (\<lambda>_. None) sample_companions ''phone'' = (reg', res)"
    by (cases "companion_revoke (\<lambda>_. None) sample_companions ''phone''")
  have "res = Ok ()" using r by (simp add: companion_revoke_def sample_companions_def Let_def)
  moreover have "map_of (credentials sample_companions) ''phone'' = Some \<lparr>cr_credential = ''c1'', cr_claimed_kind = ''ios'',
      cr_claimed_version = ''1'', cr_approved_at = Some ''now'', cr_subject = None\<rparr>" by (simp add: sample_companions_def)
  ultimately show ?thesis
    using companion_revoke_effect [OF r, of _ "''other''" "[Resume ''c1'']" "''e1''"] r by simp
qed

end
