(* ===== verification/Idempotency.thy ===== *)
theory Idempotency
  imports Json "HOL-Library.AList" "HOL-Library.Multiset"
begin

text \<open>
  The ledger that makes an effectful request run once (\<open>attach/idempotency.rs\<close>). The domain the
  work changes shares the ledger's transaction, so it is part of the state and a failed work leaves
  both as they were. Arguments: the domain work, the authorization answer, the hash
  (\<open>Sha256::digest\<close>), and \<open>serde_json\<close>'s text of a scalar or key and of a committed result.
\<close>

section \<open>Canonical input\<close>

text \<open>\<open>write_canonical\<close>: an object's members in key order, everything else by \<open>serde_json\<close>.\<close>

fun write_canonical :: "(json \<Rightarrow> string) \<Rightarrow> json \<Rightarrow> string" where
  "write_canonical scalar (JObject kvs) =
     ''{'' @ concat (map (\<lambda>(k, bytes). scalar (JString k) @ '':'' @ bytes @ '','')
       (sort_key fst (map (\<lambda>kv. (fst kv, write_canonical scalar (snd kv))) kvs))) @ ''}''"
| "write_canonical scalar (JArray vs) =
     ''['' @ concat (map (\<lambda>v. write_canonical scalar v @ '','') vs) @ '']''"
| "write_canonical scalar v = scalar v"

definition canonical_hash :: "(string \<Rightarrow> string) \<Rightarrow> (json \<Rightarrow> string) \<Rightarrow> json \<Rightarrow> string" where
  "canonical_hash digest scalar v = digest (write_canonical scalar v)"

section \<open>State\<close>

record committed_result =
  res_body :: json
  res_cursor :: "u64 option"

datatype idempotency_outcome = Committed committed_result | Replayed committed_result

record ledger_scope =
  sc_profile :: string
  sc_client :: string
  sc_operation :: string
  sc_key :: string

record ledger_entry =
  le_version :: int
  le_hash :: string
  le_result :: string

record 'd idem_state =
  ledger :: "(ledger_scope \<times> ledger_entry) list"
  domain :: 'd

text \<open>A request as the ledger sees it: its operation, whether the operation needs a key, and the key.\<close>

record idem_request =
  rq_operation :: string
  rq_required :: bool
  rq_key :: "string option"

definition hash_version :: int where "hash_version = 1"

text \<open>\<open>None\<close> is the panic of \<open>expect\<close>, for a request that needs no key and has none.\<close>

definition validate_key :: "idem_request \<Rightarrow> unit rresult" where
  "validate_key rq =
     (if rq_required rq \<and> rq_key rq = None then Err ''idempotency_key_required''
      else if \<not> rq_required rq \<and> rq_key rq \<noteq> None then Err ''idempotency_key_forbidden''
      else Ok ())"

text \<open>What the ledger is used with: hash, scalar text, and text of a committed result.\<close>

record codec =
  co_digest :: "string \<Rightarrow> string"
  co_scalar :: "json \<Rightarrow> string"
  co_encode :: "committed_result \<Rightarrow> string option"
  co_decode :: "string \<Rightarrow> committed_result option"

definition execute ::
  "codec \<Rightarrow> 'd idem_state \<Rightarrow> string \<Rightarrow> string \<Rightarrow> idem_request \<Rightarrow> json \<Rightarrow> unit rresult
     \<Rightarrow> ('d \<Rightarrow> ('d \<times> committed_result) rresult) \<Rightarrow> ('d idem_state \<times> idempotency_outcome) rresult option" where
  "execute co st profile client rq input authorize work =
     (case authorize of Inl e \<Rightarrow> Some (Err e) | Inr _ \<Rightarrow>
      (case validate_key rq of Inl e \<Rightarrow> Some (Err e) | Inr _ \<Rightarrow>
       (case rq_key rq of None \<Rightarrow> None | Some key \<Rightarrow>
         (let hash = canonical_hash (co_digest co) (co_scalar co) input;
              sc = \<lparr>sc_profile = profile, sc_client = client, sc_operation = rq_operation rq, sc_key = key\<rparr>
          in case map_of (ledger st) sc of
               Some e \<Rightarrow>
                 Some (if le_version e \<noteq> hash_version \<or> le_hash e \<noteq> hash then Err ''idempotency_conflict''
                  else (case co_decode co (le_result e) of
                          None \<Rightarrow> Err ''The runtime could not decode the idempotency result.''
                        | Some r \<Rightarrow> Ok (st, Replayed r)))
             | None \<Rightarrow>
                 Some (result_bind (work (domain st)) (\<lambda>(d, r).
                   case co_encode co r of
                     None \<Rightarrow> Err ''The runtime could not encode the idempotency result.''
                   | Some bytes \<Rightarrow>
                       Ok (st\<lparr>domain := d,
                              ledger := (sc, \<lparr>le_version = hash_version, le_hash = hash, le_result = bytes\<rparr>) # ledger st\<rparr>,
                           Committed r)))))))"

definition delete_profile :: "'d idem_state \<Rightarrow> string \<Rightarrow> 'd idem_state \<times> nat" where
  "delete_profile st profile =
     (let kept = filter (\<lambda>(sc, _). sc_profile sc \<noteq> profile) (ledger st)
      in (st\<lparr>ledger := kept\<rparr>, length (ledger st) - length kept))"

section \<open>Runs of requests\<close>

record 'd call =
  ca_profile :: string
  ca_client :: string
  ca_request :: idem_request
  ca_input :: json
  ca_authorize :: "unit rresult"
  ca_work :: "'d \<Rightarrow> ('d \<times> committed_result) rresult"

definition call_scope :: "'d call \<Rightarrow> ledger_scope option" where
  "call_scope c = map_option (\<lambda>key. \<lparr>sc_profile = ca_profile c, sc_client = ca_client c,
     sc_operation = rq_operation (ca_request c), sc_key = key\<rparr>) (rq_key (ca_request c))"

definition do_call :: "codec \<Rightarrow> 'd idem_state \<Rightarrow> 'd call \<Rightarrow> ('d idem_state \<times> idempotency_outcome) rresult option" where
  "do_call co st c = execute co st (ca_profile c) (ca_client c) (ca_request c) (ca_input c) (ca_authorize c) (ca_work c)"

text \<open>The requests of a session, in order: a failed one changes nothing, a panic ends the session. The
  run answers, for each request that ran, its scope and whether its work was committed.\<close>

fun run_calls :: "codec \<Rightarrow> 'd idem_state \<Rightarrow> 'd call list \<Rightarrow> 'd idem_state \<times> (ledger_scope option \<times> bool) list" where
  "run_calls co st [] = (st, [])"
| "run_calls co st (c # cs) =
     (case do_call co st c of
        None \<Rightarrow> (st, [])
      | Some (Inl _) \<Rightarrow> (case run_calls co st cs of (st', out) \<Rightarrow> (st', (call_scope c, False) # out))
      | Some (Inr (st1, Replayed _)) \<Rightarrow> (case run_calls co st1 cs of (st', out) \<Rightarrow> (st', (call_scope c, False) # out))
      | Some (Inr (st1, Committed _)) \<Rightarrow> (case run_calls co st1 cs of (st', out) \<Rightarrow> (st', (call_scope c, True) # out)))"

lemma do_call_cases:
  assumes "do_call co st c = Some (Ok (st', out))"
  obtains (replayed) sc r where "call_scope c = Some sc" "st' = st" "out = Replayed r" "map_of (ledger st) sc \<noteq> None"
  | (committed) sc e d r where "call_scope c = Some sc" "out = Committed r" "map_of (ledger st) sc = None"
      "ca_work c (domain st) = Ok (d, r)" "st' = st\<lparr>domain := d, ledger := (sc, e) # ledger st\<rparr>"
      "e = \<lparr>le_version = hash_version, le_hash = canonical_hash (co_digest co) (co_scalar co) (ca_input c),
            le_result = the (co_encode co r)\<rparr>" "co_encode co r \<noteq> None"
proof -
  from assms have auth: "\<exists>u. ca_authorize c = Inr u" "\<exists>u. validate_key (ca_request c) = Inr u"
    by (auto simp: do_call_def execute_def split: sum.splits)
  from assms auth obtain key where key: "rq_key (ca_request c) = Some key"
    by (auto simp: do_call_def execute_def split: option.splits)
  define sc where "sc = \<lparr>sc_profile = ca_profile c, sc_client = ca_client c,
     sc_operation = rq_operation (ca_request c), sc_key = key\<rparr>"
  have scope: "call_scope c = Some sc" by (simp add: call_scope_def key sc_def)
  show thesis
  proof (cases "map_of (ledger st) sc")
    case None
    with assms auth key obtain d r bytes where w: "ca_work c (domain st) = Ok (d, r)" "co_encode co r = Some bytes"
      "st' = st\<lparr>domain := d, ledger := (sc, \<lparr>le_version = hash_version,
         le_hash = canonical_hash (co_digest co) (co_scalar co) (ca_input c), le_result = bytes\<rparr>) # ledger st\<rparr>" "out = Committed r"
      by (auto simp: do_call_def execute_def Let_def sc_def [symmetric] result_bind_Inr_iff split: option.splits)
    show thesis by (rule committed [OF scope w(4) None w(1) w(3)]) (simp_all add: w(2))
  next
    case (Some e)
    with assms auth key show thesis
      by (auto simp: do_call_def execute_def Let_def sc_def [symmetric] split: option.splits if_splits
          intro: replayed [OF scope])
  qed
qed

lemma ledger_grows:
  "do_call co st c = Some (Ok (st', out)) \<Longrightarrow> map_of (ledger st) sc \<noteq> None \<Longrightarrow> map_of (ledger st') sc = map_of (ledger st) sc"
  by (erule do_call_cases) auto

lemma no_second_commit:
  assumes "map_of (ledger st) sc \<noteq> None" "run_calls co st cs = (st', out)"
  shows "(Some sc, True) \<notin> set out"
  using assms
proof (induction cs arbitrary: st st' out)
  case (Cons c cs)
  show ?case
  proof (cases "do_call co st c")
    case (Some res)
    show ?thesis
    proof (cases res)
      case (Inl e)
      obtain out1 where "run_calls co st cs = (st', out1)" "out = (call_scope c, False) # out1"
        using Cons.prems Some Inl by (auto split: prod.splits)
      with Cons.IH Cons.prems(1) show ?thesis by auto
    next
      case (Inr p)
      obtain st1 o1 where p: "p = (st1, o1)" by (cases p)
      have call: "do_call co st c = Some (Ok (st1, o1))" using Some Inr p by simp
      obtain out1 where out: "run_calls co st1 cs = (st', out1)"
          "out = (call_scope c, case o1 of Committed _ \<Rightarrow> True | Replayed _ \<Rightarrow> False) # out1"
        using Cons.prems(2) call by (auto split: prod.splits idempotency_outcome.splits)
      have "map_of (ledger st1) sc \<noteq> None" using ledger_grows [OF call Cons.prems(1)] Cons.prems(1) by simp
      then have "(Some sc, True) \<notin> set out1" using Cons.IH out(1) by blast
      moreover have "\<not> (call_scope c = Some sc \<and> (case o1 of Committed _ \<Rightarrow> True | Replayed _ \<Rightarrow> False))"
        using call Cons.prems(1) by (cases rule: do_call_cases) auto
      ultimately show ?thesis by (auto simp: out(2))
    qed
  qed (use Cons in simp)
qed simp

section \<open>Properties\<close>

text \<open>C3: In any session of requests, the work of one profile, client, operation and key is committed at
  most once, however often and with whatever inputs the request is repeated.\<close>

theorem commits_at_most_once:
  assumes "run_calls co st cs = (st', out)"
  shows "length (filter (\<lambda>x. x = (Some sc, True)) out) \<le> 1"
  using assms
proof (induction cs arbitrary: st st' out)
  case (Cons c cs)
  show ?case
  proof (cases "do_call co st c")
    case (Some res)
    show ?thesis
    proof (cases res)
      case (Inl e)
      with Some Cons show ?thesis by (auto split: prod.splits)
    next
      case (Inr p)
      obtain st1 o1 where p: "p = (st1, o1)" by (cases p)
      have call: "do_call co st c = Some (Ok (st1, o1))" using Some Inr p by simp
      obtain out1 where out: "run_calls co st1 cs = (st', out1)"
          "out = (call_scope c, case o1 of Committed _ \<Rightarrow> True | Replayed _ \<Rightarrow> False) # out1"
        using Cons.prems call by (auto split: prod.splits idempotency_outcome.splits)
      show ?thesis
      proof (cases "(call_scope c, case o1 of Committed _ \<Rightarrow> True | Replayed _ \<Rightarrow> False) = (Some sc, True)")
        case True
        have "map_of (ledger st1) sc \<noteq> None"
          using call by (cases rule: do_call_cases) (use True in auto)
        from no_second_commit [OF this out(1)] have "filter (\<lambda>x. x = (Some sc, True)) out1 = []"
          by (auto simp: filter_empty_conv)
        then show ?thesis by (simp add: out(2))
      next
        case False
        then show ?thesis using Cons.IH [OF out(1)] by (auto simp: out(2))
      qed
    qed
  qed (use Cons in simp)
qed simp

text \<open>Repeating a committed request with the same input answers the recorded result and changes
  nothing, without running the work it is given; with an input that hashes differently it is refused as
  a conflict, again without running it.\<close>

theorem committed_then_replayed:
  assumes "do_call co st c = Some (Ok (st', Committed r))" "co_decode co (the (co_encode co r)) = Some r"
    and "call_scope c' = call_scope c" "validate_key (ca_request c') = Ok ()" "ca_authorize c' = Ok ()"
  shows "do_call co st' c' =
    Some (if canonical_hash (co_digest co) (co_scalar co) (ca_input c')
              = canonical_hash (co_digest co) (co_scalar co) (ca_input c)
          then Ok (st', Replayed r) else Err ''idempotency_conflict'')"
  using assms(1)
proof (cases rule: do_call_cases)
  case (committed sc e d r')
  obtain key where key: "rq_key (ca_request c') = Some key"
      "sc = \<lparr>sc_profile = ca_profile c', sc_client = ca_client c', sc_operation = rq_operation (ca_request c'), sc_key = key\<rparr>"
    using committed(1) assms(3) by (auto simp: call_scope_def)
  show ?thesis
    using committed assms(2,4,5) key
    by (simp add: do_call_def execute_def Let_def)
qed simp


text \<open>A codec, a state and a call for the witnesses; the work counts how often it ran.\<close>

definition sample_codec :: codec where
  "sample_codec = \<lparr>co_digest = id, co_scalar = (\<lambda>_. ''x''), co_encode = (\<lambda>_. Some ''r''),
     co_decode = (\<lambda>_. Some \<lparr>res_body = JNull, res_cursor = None\<rparr>)\<rparr>"

definition sample_call :: "nat call" where
  "sample_call = \<lparr>ca_profile = ''p'', ca_client = ''c'',
     ca_request = \<lparr>rq_operation = ''run.start'', rq_required = True, rq_key = Some ''k''\<rparr>,
     ca_input = JNull, ca_authorize = Ok (),
     ca_work = (\<lambda>n. Ok (Suc n, \<lparr>res_body = JNull, res_cursor = None\<rparr>))\<rparr>"

theorem commits_at_most_once_witness:
  "length (filter (\<lambda>x. x = (call_scope sample_call, True))
     (snd (run_calls sample_codec \<lparr>ledger = [], domain = 0\<rparr> [sample_call, sample_call]))) \<le> 1"
proof -
  obtain st' out where r: "run_calls sample_codec \<lparr>ledger = [], domain = 0\<rparr> [sample_call, sample_call] = (st', out)"
    by (cases "run_calls sample_codec \<lparr>ledger = [], domain = 0\<rparr> [sample_call, sample_call]")
  obtain sc where "call_scope sample_call = Some sc" by (simp add: call_scope_def sample_call_def)
  with commits_at_most_once [OF r, of sc] r show ?thesis by simp
qed

theorem committed_then_replayed_witness:
  "\<exists>st' r. do_call sample_codec \<lparr>ledger = [], domain = 0\<rparr> sample_call = Some (Ok (st', Committed r))
     \<and> do_call sample_codec st' sample_call = Some (Ok (st', Replayed r))"
proof -
  let ?r = "\<lparr>res_body = JNull, res_cursor = None\<rparr>"
  obtain st' where c: "do_call sample_codec \<lparr>ledger = [], domain = 0\<rparr> sample_call = Some (Ok (st', Committed ?r))"
    by (simp add: do_call_def execute_def sample_codec_def sample_call_def validate_key_def Let_def)
  have "validate_key (ca_request sample_call) = Ok ()" "ca_authorize sample_call = Ok ()"
    "co_decode sample_codec (the (co_encode sample_codec ?r)) = Some ?r"
    by (simp_all add: sample_call_def sample_codec_def validate_key_def)
  with committed_then_replayed [OF c, of sample_call] c show ?thesis by auto
qed

section \<open>The canonical form\<close>

text \<open>The same value with the members of its objects in another order, at any depth.\<close>

inductive same_value :: "json \<Rightarrow> json \<Rightarrow> bool" where
  refl: "same_value v v"
| array: "list_all2 same_value vs ws \<Longrightarrow> same_value (JArray vs) (JArray ws)"
| object: "list_all2 (\<lambda>a b. fst a = fst b \<and> same_value (snd a) (snd b)) kvs kws \<Longrightarrow>
    distinct (map fst kvs) \<Longrightarrow> mset kws = mset kws' \<Longrightarrow> same_value (JObject kvs) (JObject kws')"

lemma sort_members:
  assumes "mset xs = mset ys" "distinct (map fst xs)"
  shows "sort_key fst (xs :: (string \<times> string) list) = sort_key fst ys"
  by (rule sort_key_inj_key_eq) (use assms in \<open>auto simp: distinct_map\<close>)

text \<open>The hashed form of a request's input does not depend on the order of the members of its
  objects, so the same input sent in another order replays instead of conflicting.\<close>

theorem canonical_order_free:
  assumes "same_value v w"
  shows "canonical_hash digest scalar v = canonical_hash digest scalar w"
proof -
  have "write_canonical scalar v = write_canonical scalar w"
    using assms
  proof (induction rule: same_value.induct)
    case (array vs ws)
    then have "map (\<lambda>v. write_canonical scalar v @ '','') vs = map (\<lambda>v. write_canonical scalar v @ '','') ws"
      by (induction rule: list_all2_induct) auto
    then show ?case by (simp only: write_canonical.simps)
  next
    case (object kvs kws kws')
    let ?m = "map (\<lambda>kv. (fst kv, write_canonical scalar (snd kv)))"
    have "?m kvs = ?m kws" "map fst kvs = map fst kws" using object(1) by (induction rule: list_all2_induct) auto
    moreover have "sort_key fst (?m kws) = sort_key fst (?m kws')"
      by (rule sort_members) (use object(2,3) calculation(2) in \<open>simp_all add: comp_def\<close>)
    ultimately show ?case by (simp only: write_canonical.simps)
  qed simp
  then show ?thesis by (simp add: canonical_hash_def)
qed

theorem canonical_order_free_witness:
  "canonical_hash id (\<lambda>_. ''s'') (JArray [JObject [(''a'', JNull), (''b'', JBool True)]])
     = canonical_hash id (\<lambda>_. ''s'') (JArray [JObject [(''b'', JBool True), (''a'', JNull)]])"
proof (rule canonical_order_free)
  have "same_value (JObject [(''a'', JNull), (''b'', JBool True)]) (JObject [(''b'', JBool True), (''a'', JNull)])"
    by (rule same_value.object [of _ "[(''a'', JNull), (''b'', JBool True)]"]) (simp_all add: same_value.refl)
  then show "same_value (JArray [JObject [(''a'', JNull), (''b'', JBool True)]])
      (JArray [JObject [(''b'', JBool True), (''a'', JNull)]])" by (intro same_value.array) simp
qed

end
