(* ===== verification/Shell_Tokens.thy ===== *)
theory Shell_Tokens
  imports Prelude
begin

text \<open>
  How the permission gate splits a shell command into words, separators and redirects
  (\<open>permission_gate/shell.rs\<close>). The code walks the command's characters by index; every character
  it treats specially is ASCII, so the model walks the UTF-8 bytes, which gives the same words, and
  keeps the rest of the command instead of the index.
\<close>

section \<open>Words and tokens\<close>

record shell_word =
  w_text :: string
  w_computed :: bool
  w_glob :: bool

definition word_default :: shell_word where
  "word_default = \<lparr>w_text = [], w_computed = False, w_glob = False\<rparr>"

datatype token =
    TWord shell_word
  | Separator string
  | Redirect bool
  | Duplicate

text \<open>\<open>get_or_insert_with(Word::default)\<close>, pushing text, and \<open>flush\<close>.\<close>

definition or_default :: "shell_word option \<Rightarrow> shell_word" where
  "or_default w = (case w of None \<Rightarrow> word_default | Some w \<Rightarrow> w)"

definition push_text :: "string \<Rightarrow> shell_word \<Rightarrow> shell_word" where
  "push_text t w = w\<lparr>w_text := w_text w @ t\<rparr>"

definition flush :: "shell_word option \<Rightarrow> token list" where
  "flush w = (case w of None \<Rightarrow> [] | Some w \<Rightarrow> [TWord w])"

section \<open>Quotes\<close>

abbreviation newline :: char where "newline \<equiv> CHR 0x0A"
abbreviation dquote :: char where "dquote \<equiv> CHR 0x22"
abbreviation squote :: char where "squote \<equiv> CHR 0x27"
abbreviation backslash :: char where "backslash \<equiv> CHR 0x5C"
abbreviation backtick :: char where "backtick \<equiv> CHR 0x60"

text \<open>To the closing quote: the quoted text and what follows; \<open>None\<close> when it is not closed.\<close>

fun single_quote :: "string \<Rightarrow> (string \<times> string) option" where
  "single_quote [] = None"
| "single_quote (c # cs) =
     (if c = squote then Some ([], cs) else map_option (\<lambda>(t, r). (c # t, r)) (single_quote cs))"

fun double_quote :: "shell_word \<Rightarrow> string \<Rightarrow> (shell_word \<times> string) option" where
  "double_quote w [] = None"
| "double_quote w (c # cs) =
     (if c = dquote then Some (w, cs)
      else if c = backtick then None
      else if c = CHR ''$'' then
        (if starts_with cs ''('' then None
         else double_quote (push_text ''$'' (w\<lparr>w_computed := True\<rparr>)) cs)
      else if c = backslash then
        (case cs of
           [] \<Rightarrow> None
         | e # rest \<Rightarrow>
             double_quote (push_text ((if e \<in> {dquote, CHR ''$'', backtick, backslash, newline} then []
               else [backslash]) @ [e]) w) rest)
      else double_quote (push_text [c] w) cs)"

lemma single_quote_length: "single_quote cs = Some (t, rest) \<Longrightarrow> length rest < length cs"
  by (induction cs arbitrary: t) (auto split: if_splits)

lemma double_quote_length: "double_quote w cs = Some (v, rest) \<Longrightarrow> length rest < length cs"
proof (induction w cs rule: double_quote.induct)
  case (2 w c cs)
  then show ?case by (auto split: if_splits list.splits)
qed simp

section \<open>The tokenizer\<close>

text \<open>The rest after a redirect operator: \<open>>>\<close> and \<open>>|\<close> write too, \<open><<<\<close> reads a word, \<open><<\<close> and \<open><>\<close>
  are not followed.\<close>

definition redirect_rest :: "bool \<Rightarrow> string \<Rightarrow> string option" where
  "redirect_rest out cs =
     (if out then (if starts_with cs ''>'' \<or> starts_with cs ''|'' then Some (tl cs) else Some cs)
      else if starts_with cs ''<<'' then Some (drop 2 cs)
      else if starts_with cs ''<'' \<or> starts_with cs ''>'' then None
      else Some cs)"

definition fd_char :: "char \<Rightarrow> bool" where
  "fd_char c \<longleftrightarrow> is_digit c \<or> c = CHR ''-''"

definition is_glob_char :: "char \<Rightarrow> bool" where
  "is_glob_char c \<longleftrightarrow> c \<in> set ''{}*?[''"

definition after_pipe :: "string \<Rightarrow> token \<times> string" where
  "after_pipe cs = (case cs of
       c # rest \<Rightarrow> if c = CHR ''|'' then (Separator ''||'', rest)
         else if c = CHR ''&'' then (Separator ''|'', rest) else (Separator ''|'', cs)
     | [] \<Rightarrow> (Separator ''|'', cs))"

definition after_amp :: "string \<Rightarrow> token \<times> string" where
  "after_amp cs = (case cs of
       c # rest \<Rightarrow> if c = CHR ''&'' then (Separator ''&&'', rest)
         else if c = CHR ''>''
         then (Redirect True, case rest of d # rest' \<Rightarrow> (if d = CHR ''>'' then rest' else rest) | [] \<Rightarrow> rest)
         else (Separator ''&'', cs)
     | [] \<Rightarrow> (Separator ''&'', cs))"

text \<open>A redirect: digits right before it name a file descriptor, and \<open>>&\<close> copies one.\<close>

definition redirect_word :: "shell_word option \<Rightarrow> token list" where
  "redirect_word w = (case w of None \<Rightarrow> [] | Some v \<Rightarrow> if list_all is_digit (w_text v) then [] else [TWord v])"

definition after_redirect :: "bool \<Rightarrow> string \<Rightarrow> (token \<times> string) option" where
  "after_redirect out cs =
     (if starts_with cs ''('' then None
      else (case redirect_rest out cs of
              None \<Rightarrow> None
            | Some rest \<Rightarrow>
                (case strip_prefix ''&'' rest of
                   Some rest' \<Rightarrow> Some (Duplicate, dropWhile fd_char rest')
                 | None \<Rightarrow> Some (Redirect out, rest))))"

lemma after_redirect_length: "after_redirect out cs = Some (t, rest) \<Longrightarrow> length rest \<le> length cs"
proof -
  assume a: "after_redirect out cs = Some (t, rest)"
  have r: "redirect_rest out cs = Some ds \<Longrightarrow> length ds \<le> length cs" for ds
    by (auto simp: redirect_rest_def split: if_splits)
  have d: "length (dropWhile P xs) \<le> length xs" for P and xs :: string by (rule length_dropWhile_le)
  from a obtain ds where ds: "redirect_rest out cs = Some ds"
    "rest = ds \<or> (\<exists>es. ds = CHR ''&'' # es \<and> rest = dropWhile fd_char es)"
    by (auto simp: after_redirect_def strip_prefix_Some_iff split: if_splits option.splits)
  with r [OF ds(1)] d show ?thesis by (metis le_SucI le_trans length_Cons)
qed

lemma after_pipe_length: "length (snd (after_pipe cs)) \<le> length cs"
  by (auto simp: after_pipe_def split: list.splits)

lemma after_amp_length: "length (snd (after_amp cs)) \<le> length cs"
  by (auto simp: after_amp_def split: list.splits)

text \<open>The walk: the word being read, the tokens so far, and the rest of the command.\<close>

lemmas token_lengths = single_quote_length [THEN less_SucI] double_quote_length [THEN less_SucI]
  after_redirect_length [THEN le_imp_less_Suc] length_dropWhile_le [THEN le_imp_less_Suc]
  after_pipe_length [THEN le_imp_less_Suc] after_amp_length [THEN le_imp_less_Suc]

lemma token_decreases:
  "length cs < Suc (length ds) \<Longrightarrow> ((w, t, cs), (w', t', d # ds)) \<in> measure (\<lambda>(_, _, cs). length cs)"
  by simp

lemma token_lengths_eq:
  "single_quote cs = Some p \<Longrightarrow> (t, rest) = p \<Longrightarrow> length rest < Suc (length cs)"
  "double_quote w cs = Some q \<Longrightarrow> (v, rest) = q \<Longrightarrow> length rest < Suc (length cs)"
  "after_redirect out cs = Some r \<Longrightarrow> (k, rest) = r \<Longrightarrow> length rest < Suc (length cs)"
  "cs = e # rest \<Longrightarrow> length rest < Suc (length cs)"
  using token_lengths by auto

function tokenize_from :: "shell_word option \<Rightarrow> token list \<Rightarrow> string \<Rightarrow> token list option" where
  "tokenize_from w toks [] = Some (toks @ flush w)"
| "tokenize_from w toks (c # cs) =
     (if c = CHR '' '' \<or> c = CHR 0x09 then tokenize_from None (toks @ flush w) cs
      else if c = newline then tokenize_from None (toks @ flush w @ [Separator '';'']) cs
      else if c = CHR ''#'' \<and> w = None then tokenize_from None toks (dropWhile (\<lambda>d. d \<noteq> newline) cs)
      else if c = squote then
        (case single_quote cs of
           None \<Rightarrow> None
         | Some (t, rest) \<Rightarrow> tokenize_from (Some (push_text t (or_default w))) toks rest)
      else if c = dquote then
        (case double_quote (or_default w) cs of
           None \<Rightarrow> None
         | Some (v, rest) \<Rightarrow> tokenize_from (Some v) toks rest)
      else if c = backslash then
        (case cs of
           [] \<Rightarrow> None
         | e # rest \<Rightarrow>
             tokenize_from (if e = newline then w else Some (push_text [e] (or_default w))) toks rest)
      else if c = backtick then None
      else if c = CHR ''$'' then
        (if starts_with cs ''('' then None
         else tokenize_from (Some (push_text ''$'' ((or_default w)\<lparr>w_computed := True\<rparr>))) toks cs)
      else if c = CHR ''('' \<or> c = CHR '')'' then None
      else if (c = CHR ''{'' \<or> c = CHR ''}'') \<and> w = None then None
      else if is_glob_char c then
        tokenize_from (Some (push_text [c] ((or_default w)\<lparr>w_glob := True\<rparr>))) toks cs
      else if c = CHR ''|'' then
        tokenize_from None (toks @ flush w @ [fst (after_pipe cs)]) (snd (after_pipe cs))
      else if c = CHR '';'' then
        (if starts_with cs '';'' then None
         else tokenize_from None (toks @ flush w @ [Separator '';'']) cs)
      else if c = CHR ''&'' then
        tokenize_from None (toks @ flush w @ [fst (after_amp cs)]) (snd (after_amp cs))
      else if c = CHR ''>'' \<or> c = CHR ''<'' then
        (case after_redirect (c = CHR ''>'') cs of
           None \<Rightarrow> None
         | Some (t, rest) \<Rightarrow> tokenize_from None (toks @ redirect_word w @ [t]) rest)
      else tokenize_from (Some (push_text [c] (or_default w))) toks cs)"
  by pat_completeness auto
termination
  by (relation "measure (\<lambda>(_, _, cs). length cs)", rule wf_measure)
    (rule token_decreases, (rule lessI token_lengths(4-6) | erule (1) token_lengths_eq | erule token_lengths_eq))+

definition tokenize :: "string \<Rightarrow> token list option" where
  "tokenize command = tokenize_from None [] command"

section \<open>Segments\<close>

text \<open>One simple command: its words, its redirect targets and the separator after it.\<close>

record segment =
  s_words :: "shell_word list"
  s_outputs :: "shell_word list"
  s_inputs :: "shell_word list"
  s_after :: string

definition segment_default :: segment where
  "segment_default = \<lparr>s_words = [], s_outputs = [], s_inputs = [], s_after = []\<rparr>"

fun segments_from :: "segment \<Rightarrow> token list \<Rightarrow> segment list option" where
  "segments_from cur [] = Some [cur]"
| "segments_from cur (TWord w # ts) = segments_from (cur\<lparr>s_words := s_words cur @ [w]\<rparr>) ts"
| "segments_from cur (Separator sep # ts) =
     map_option ((#) (cur\<lparr>s_after := sep\<rparr>)) (segments_from segment_default ts)"
| "segments_from cur (Redirect True # TWord w # ts) = segments_from (cur\<lparr>s_outputs := s_outputs cur @ [w]\<rparr>) ts"
| "segments_from cur (Redirect False # TWord w # ts) = segments_from (cur\<lparr>s_inputs := s_inputs cur @ [w]\<rparr>) ts"
| "segments_from cur (Redirect b # ts) = None"
| "segments_from cur (Duplicate # ts) = segments_from cur ts"

definition segments :: "token list \<Rightarrow> segment list option" where
  "segments tokens = segments_from segment_default tokens"

end
