(* ===== verification/Unix_Path.thy ===== *)
theory Unix_Path
  imports Prelude
begin

text \<open>
  Unix paths as the gate compares them. \<open>Path\<close> equality, \<open>starts_with\<close> and \<open>join\<close> work on
  components, so a path is its list of components.
\<close>

datatype component = RootDir | CurDir | ParentDir | Normal string

type_synonym path = "component list"

definition is_absolute :: "string \<Rightarrow> bool" where
  "is_absolute s \<longleftrightarrow> starts_with s ''/''"

text \<open>\<open>Path::components\<close>: empty pieces and \<open>.\<close> are dropped, but for a leading \<open>.\<close> of a relative path.\<close>

definition piece_component :: "string \<Rightarrow> component list" where
  "piece_component p = (if p = [] \<or> p = ''.'' then [] else if p = ''..'' then [ParentDir] else [Normal p])"

definition components :: "string \<Rightarrow> path" where
  "components s =
     (let ps = split_at {CHR ''/''} s
      in if is_absolute s then RootDir # concat (map piece_component ps)
         else (if hd ps = ''.'' then [CurDir] else []) @ concat (map piece_component ps))"

text \<open>\<open>Path::join\<close>.\<close>

definition join :: "path \<Rightarrow> string \<Rightarrow> path" where
  "join p s = (if is_absolute s \<or> p = [] then components s else p @ filter (\<lambda>c. c \<noteq> CurDir) (components s))"

text \<open>\<open>PathBuf::pop\<close> and \<open>PathBuf::push\<close> of one component.\<close>

definition pop :: "path \<Rightarrow> path" where
  "pop p = (if p = [] \<or> last p = RootDir then p else butlast p)"

definition push_component :: "path \<Rightarrow> component \<Rightarrow> path" where
  "push_component p c = (if c = RootDir then [RootDir] else p @ [c])"

text \<open>\<open>Path::starts_with\<close>: component-wise, as \<open>starts_with\<close> of lists.\<close>

definition path_starts_with :: "path \<Rightarrow> path \<Rightarrow> bool" where
  "path_starts_with p base \<longleftrightarrow> starts_with p base"

text \<open>A component's text, the last name of a path (\<open>file_name\<close>), and a path's text.\<close>

fun component_str :: "component \<Rightarrow> string" where
  "component_str RootDir = ''/''"
| "component_str CurDir = ''.''"
| "component_str ParentDir = ''..''"
| "component_str (Normal n) = n"

definition file_name :: "path \<Rightarrow> string option" where
  "file_name p = (case rev p of Normal n # _ \<Rightarrow> Some n | _ \<Rightarrow> None)"

fun join_components :: "component list \<Rightarrow> string" where
  "join_components [] = []"
| "join_components [c] = component_str c"
| "join_components (c # d # cs) = component_str c @ ''/'' @ join_components (d # cs)"

definition path_string :: "path \<Rightarrow> string" where
  "path_string p = (if p \<noteq> [] \<and> hd p = RootDir then ''/'' @ join_components (tl p) else join_components p)"

section \<open>Normalized paths\<close>

text \<open>An absolute path with no \<open>.\<close> and no \<open>..\<close>.\<close>

definition normal_path :: "path \<Rightarrow> bool" where
  "normal_path p \<longleftrightarrow> (\<exists>ns. p = RootDir # map Normal ns)"

definition absolute_path :: "path \<Rightarrow> bool" where
  "absolute_path p \<longleftrightarrow> (\<exists>q. p = RootDir # q \<and> RootDir \<notin> set q)"

lemma normal_pathI: "normal_path (RootDir # map Normal ns)"
  by (auto simp: normal_path_def)

lemma piece_no_root: "RootDir \<notin> set (concat (map piece_component ps))"
  by (auto simp: piece_component_def)

lemma absolute_components: "is_absolute s \<Longrightarrow> absolute_path (components s)"
  using piece_no_root by (auto simp: components_def absolute_path_def Let_def)

lemma components_no_root: "\<not> is_absolute s \<Longrightarrow> RootDir \<notin> set (components s)"
  using piece_no_root by (auto simp: components_def Let_def)

lemma absolute_join: "absolute_path p \<Longrightarrow> absolute_path (join p s)"
  using absolute_components [of s] components_no_root [of s]
  by (auto simp: join_def absolute_path_def)

lemma normal_absolute: "normal_path p \<Longrightarrow> absolute_path p"
  by (auto simp: normal_path_def absolute_path_def)

lemma normal_pop: "normal_path p \<Longrightarrow> normal_path (pop p)"
proof -
  assume "normal_path p"
  then obtain ns where ns: "p = RootDir # map Normal ns" by (auto simp: normal_path_def)
  then show ?thesis by (cases ns rule: rev_cases) (auto simp: pop_def normal_path_def)
qed

lemma normal_push: "normal_path p \<Longrightarrow> normal_path (push_component p (Normal n))"
  by (auto simp: normal_path_def push_component_def) (metis list.simps(8,9) map_append)

section \<open>A path's text\<close>

text \<open>Names that stay one component when a path is printed and read again.\<close>

definition good_name :: "string \<Rightarrow> bool" where
  "good_name n \<longleftrightarrow> n \<noteq> [] \<and> n \<noteq> ''.'' \<and> n \<noteq> ''..'' \<and> CHR ''/'' \<notin> set n"

definition good_names :: "path \<Rightarrow> bool" where
  "good_names p \<longleftrightarrow> (\<forall>n. Normal n \<in> set p \<longrightarrow> good_name n)"

lemma split_at_sep_free: "piece \<in> set (split_at D s) \<Longrightarrow> set piece \<inter> D = {}"
proof (induction s arbitrary: piece)
  case (Cons c cs)
  obtain q qs where q: "split_at D cs = q # qs" using split_at_not_Nil by (meson neq_Nil_conv)
  show ?case
  proof (cases "c \<in> D")
    case False
    with Cons.prems q have "piece = c # q \<or> piece \<in> set qs" by auto
    with Cons.IH [of q] Cons.IH [of piece] q False show ?thesis by auto
  qed (use Cons in auto)
qed simp

lemma split_at_one: "set n \<inter> D = {} \<Longrightarrow> split_at D n = [n]"
  by (induction n) auto

lemma components_good: "good_names (components s)"
proof -
  have "good_names (concat (map piece_component (split_at {CHR ''/''} s)))"
    using split_at_sep_free [of _ "{CHR ''/''}" s]
    by (fastforce simp: good_names_def piece_component_def good_name_def split: if_splits)
  then show ?thesis by (auto simp: components_def good_names_def Let_def)
qed

lemma split_join_components:
  "list_all good_name ns \<Longrightarrow> ns \<noteq> [] \<Longrightarrow> split_at {CHR ''/''} (join_components (map Normal ns)) = ns"
proof (induction ns)
  case (Cons n ns)
  then have n: "CHR ''/'' \<notin> set n" by (simp add: good_name_def)
  show ?case
  proof (cases ns)
    case Nil
    with n show ?thesis by (simp add: split_at_one)
  next
    case (Cons m ms)
    have "join_components (map Normal (n # ns)) = n @ CHR ''/'' # join_components (map Normal ns)"
      using Cons by simp
    with Cons.IH Cons.prems Cons n show ?thesis by (simp add: split_at_append split_at_one)
  qed
qed simp

lemma pieces_good: "list_all good_name ns \<Longrightarrow> concat (map piece_component ns) = map Normal ns"
  by (induction ns) (auto simp: piece_component_def good_name_def)

lemma components_path_string:
  assumes "normal_path p" "good_names p"
  shows "components (path_string p) = p" "is_absolute (path_string p)"
proof -
  obtain ns where p: "p = RootDir # map Normal ns" using assms(1) by (auto simp: normal_path_def)
  have g: "list_all good_name ns" using assms(2) by (auto simp: p good_names_def list_all_iff)
  have "split_at {CHR ''/''} (path_string p) = [] # (if ns = [] then [[]] else ns)"
    using split_join_components [OF g] by (simp add: p path_string_def)
  moreover show a: "is_absolute (path_string p)" by (simp add: p path_string_def is_absolute_def starts_with_def)
  ultimately show "components (path_string p) = p"
    using pieces_good [OF g] by (simp add: components_def p piece_component_def)
qed

lemma good_names_join: "good_names p \<Longrightarrow> good_names (join p s)"
  using components_good [of s] by (auto simp: join_def good_names_def)

lemma good_names_pop: "good_names p \<Longrightarrow> good_names (pop p)"
  by (auto simp: pop_def good_names_def dest: in_set_butlastD)

end
