(* ===== verification/Shell_Reader.thy ===== *)
theory Shell_Reader
  imports Shell_Tokens Unix_Path
begin

text \<open>
  What a shell command does, as far as the permission gate can tell
  (\<open>permission_gate/shell.rs\<close>): it only reads, it only changes the files it names, or it may do
  anything; and the paths it reads and writes.
\<close>

section \<open>Vocabularies\<close>

definition read_only_core :: "string list" where
  "read_only_core = ['':'', ''awk'', ''basename'', ''cat'', ''cd'', ''diff'', ''dirname'', ''echo'',
     ''egrep'', ''false'', ''fd'', ''fgrep'', ''find'', ''grep'', ''head'', ''ls'', ''pwd'', ''realpath'',
     ''rg'', ''sed'', ''sort'', ''stat'', ''tail'', ''true'', ''wc'', ''which'']"

definition git_reads_list :: "string list" where
  "git_reads_list = [''status'', ''log'', ''diff'', ''show'', ''rev-parse'', ''ls-files'', ''blame'']"

definition git_writing_options :: "string list" where
  "git_writing_options = [''--output'', ''--ext-diff'', ''--textconv'']"

definition wrappers :: "string list" where
  "wrappers = [''bash'', ''sh'', ''zsh'', ''dash'', ''ksh'', ''fish'', ''csh'', ''tcsh'', ''eval'', ''exec'',
     ''source'', ''.'', ''sudo'', ''doas'', ''env'', ''xargs'', ''time'', ''nohup'', ''timeout'', ''nice'',
     ''parallel'', ''rust-parallel'', ''rush'', ''setsid'', ''stdbuf'', ''watch'', ''flock'', ''command'',
     ''builtin'', ''su'']"

definition file_ops :: "(string \<times> string) list" where
  "file_ops = [(''mkdir'', ''pv''), (''touch'', ''acm''), (''mv'', ''finv''), (''cp'', ''finvrRpa''),
     (''rm'', ''fivrRd'')]"

datatype shell_kind = ReadOnly | FileOps | Other string

record shell_reading =
  r_kind :: shell_kind
  r_reads :: "path list"
  r_writes :: "path list"
  r_unknown :: "path list"

section \<open>Paths\<close>

definition normalize :: "path \<Rightarrow> path" where
  "normalize p = foldl (\<lambda>acc c. case c of CurDir \<Rightarrow> acc | ParentDir \<Rightarrow> pop acc | _ \<Rightarrow> push_component acc c) [] p"

definition resolve :: "string \<Rightarrow> path \<Rightarrow> path option \<Rightarrow> path option" where
  "resolve w cwd home =
     (if w = ''~'' then map_option normalize home
      else if starts_with w ''~/'' then map_option (\<lambda>h. normalize (join h (drop 2 w))) home
      else if starts_with w ''~'' then None
      else Some (normalize (join cwd w)))"

section \<open>Options\<close>

definition withdraws :: "string \<Rightarrow> string list \<Rightarrow> string \<Rightarrow> string list \<Rightarrow> bool" where
  "withdraws w long short dash_words =
     (let name = takeWhile (\<lambda>c. c \<noteq> CHR ''='') w
      in if starts_with name ''--'' \<and> length name > 2
         then list_ex (\<lambda>stem. starts_with stem name) long
         else if list_ex (\<lambda>p. starts_with w p) dash_words then True
         else starts_with w ''-'' \<and> \<not> starts_with w ''--'' \<and> length w > 1
              \<and> list_ex (\<lambda>letter. letter \<in> set short) (tl w))"

definition may_be_option :: "shell_word \<Rightarrow> bool" where
  "may_be_option w \<longleftrightarrow> w_computed w
     \<or> (w_glob w \<and> w_text w \<noteq> [] \<and> hd (w_text w) \<in> set ''*?[{'')"

section \<open>\<open>sed\<close> and \<open>awk\<close>\<close>

text \<open>The address part of a \<open>sed\<close> command; \<open>None\<close> when it is refused.\<close>

definition address_char :: "char \<Rightarrow> bool" where
  "address_char c \<longleftrightarrow> is_digit c \<or> c \<in> set ''$,~+!''"

lemma split_once_length: "split_once d s = Some (a, b) \<Longrightarrow> length b < length s"
  by (induction s arbitrary: a) (auto split: if_splits)

lemma trim_start_shorter: "trim_start rest = c # cs \<Longrightarrow> length cs < length rest"
  using length_trim_start [of rest] by simp

lemma address_decreases:
  "trim_start rest = c # cs \<Longrightarrow> (cs, rest) \<in> measure length"
  "trim_start rest = c # cs \<Longrightarrow> split_once d cs = Some p \<Longrightarrow> (re, b) = p \<Longrightarrow> (b, rest) \<in> measure length"
  using trim_start_shorter split_once_length less_trans by fastforce+

function sed_addresses :: "string \<Rightarrow> string option" where
  "sed_addresses rest =
     (case trim_start rest of
        [] \<Rightarrow> Some []
      | c # cs \<Rightarrow>
          if c = CHR ''/'' then
            (case split_once (CHR ''/'') cs of
               None \<Rightarrow> None
             | Some (re, more_text) \<Rightarrow>
                 if CHR ''['' \<in> set re \<or> backslash \<in> set re then None else sed_addresses more_text)
          else if address_char c then sed_addresses cs
          else Some (c # cs))"
  by pat_completeness auto
termination
  by (relation "measure length", rule wf_measure)
    (erule (2) address_decreases(2) | erule address_decreases(1))+

definition sed_command_reads :: "string \<Rightarrow> bool" where
  "sed_command_reads command =
     (case sed_addresses command of
        None \<Rightarrow> False
      | Some rest \<Rightarrow>
          rest = []
          \<or> (if hd rest = CHR ''s'' \<or> hd rest = CHR ''y''
             then (case strip_prefix ''/'' (tl rest) of
                     None \<Rightarrow> False
                   | Some body \<Rightarrow>
                       CHR ''['' \<notin> set body \<and> backslash \<notin> set body
                       \<and> (let parts = split_at {CHR ''/''} body
                          in length parts = 3 \<and> list_all (\<lambda>f. f \<in> set ''gpiIm0123456789'') (parts ! 2)))
             else length rest = 1 \<and> hd rest \<in> set ''pPdDqQnN=lhHgGx''))"

definition sed_script_reads :: "string \<Rightarrow> bool" where
  "sed_script_reads script = list_all (\<lambda>c. sed_command_reads (trim c)) (split_at {newline, CHR '';''} script)"

definition sed_long :: "string list" where
  "sed_long = [''--quiet'', ''--silent'', ''--regexp-extended'', ''--separate'', ''--unbuffered'',
     ''--null-data'', ''--posix'', ''--debug'', ''--sandbox'', ''--expression'']"

fun sed_loop :: "shell_word list \<Rightarrow> string list \<Rightarrow> bool \<Rightarrow> string list option" where
  "sed_loop [] scripts positional = Some scripts"
| "sed_loop (w # ws) scripts positional =
     (if w_computed w then None
      else if w_text w = ''-e'' \<or> w_text w = ''--expression'' then
        (if positional then None
         else (case ws of [] \<Rightarrow> None | v # vs \<Rightarrow> sed_loop vs (scripts @ [w_text v]) positional))
      else if starts_with (w_text w) ''--expression='' then
        sed_loop ws (scripts @ [drop (length ''--expression='') (w_text w)]) positional
      else if starts_with (w_text w) ''--'' then
        (if w_text w \<in> set sed_long then sed_loop ws scripts positional else None)
      else if starts_with (w_text w) ''-'' \<and> length (w_text w) > 1 then
        (if list_all (\<lambda>c. c \<in> set ''nErsuz'') (tl (w_text w)) then sed_loop ws scripts positional else None)
      else if scripts = [] \<and> \<not> positional then sed_loop ws (scripts @ [w_text w]) True
      else sed_loop ws scripts True)"

definition sed_reads :: "shell_word list \<Rightarrow> bool" where
  "sed_reads arguments = (case sed_loop arguments [] False of
     None \<Rightarrow> False | Some scripts \<Rightarrow> scripts \<noteq> [] \<and> list_all sed_script_reads scripts)"

fun awk_loop :: "shell_word list \<Rightarrow> string option \<Rightarrow> string option option" where
  "awk_loop [] prog = Some prog"
| "awk_loop (w # ws) prog =
     (if w_computed w then None
      else if prog \<noteq> None then awk_loop ws prog
      else if w_text w = ''-F'' \<or> w_text w = ''-v'' then awk_loop (tl ws) prog
      else if \<not> starts_with (w_text w) ''-'' then awk_loop ws (Some (w_text w))
      else if \<not> starts_with (w_text w) ''-F'' \<and> \<not> starts_with (w_text w) ''-v'' then None
      else awk_loop ws prog)"

definition awk_reads :: "shell_word list \<Rightarrow> bool" where
  "awk_reads arguments = (case awk_loop arguments None of
     Some (Some prog) \<Rightarrow> \<not> list_ex (\<lambda>c. c \<in> set ''>|@'') prog \<and> \<not> str_contains prog ''system''
   | _ \<Rightarrow> False)"

section \<open>Commands\<close>

definition core_reads :: "string \<Rightarrow> shell_word list \<Rightarrow> bool" where
  "core_reads command arguments =
     (if command = ''find'' then
        \<not> list_ex (\<lambda>w. may_be_option w
          \<or> withdraws (w_text w) [] [] [''-exec'', ''-ok'', ''-delete'', ''-fprint'', ''-fls'']) arguments
      else if command = ''fd'' then
        \<not> list_ex (\<lambda>w. may_be_option w \<or> withdraws (w_text w) [''--exec'', ''--exec-batch''] ''xX'' []) arguments
      else if command = ''sort'' then
        \<not> list_ex (\<lambda>w. may_be_option w \<or> withdraws (w_text w) [''--output''] ''o'' []) arguments
      else if command = ''sed'' then sed_reads arguments
      else if command = ''awk'' then awk_reads arguments
      else True)"

definition git_reads :: "shell_word list \<Rightarrow> bool" where
  "git_reads arguments \<longleftrightarrow>
     (case arguments of [] \<Rightarrow> False | sub # _ \<Rightarrow> \<not> w_computed sub \<and> w_text sub \<in> set git_reads_list)
     \<and> \<not> list_ex (\<lambda>w. w_computed w \<or> withdraws (w_text w) git_writing_options [] []) arguments"

fun operands_loop :: "string \<Rightarrow> bool \<Rightarrow> shell_word list \<Rightarrow> shell_word list option" where
  "operands_loop letters done_opts [] = Some []"
| "operands_loop letters done_opts (w # ws) =
     (if w_computed w \<or> w_glob w then None
      else if \<not> done_opts \<and> w_text w = ''--'' then operands_loop letters True ws
      else if \<not> done_opts \<and> starts_with (w_text w) ''-'' \<and> length (w_text w) > 1 then
        (if starts_with (w_text w) ''--'' \<or> \<not> list_all (\<lambda>c. c \<in> set letters) (tl (w_text w)) then None
         else operands_loop letters done_opts ws)
      else map_option ((#) w) (operands_loop letters done_opts ws))"

definition file_op_operands :: "string \<Rightarrow> shell_word list \<Rightarrow> shell_word list option" where
  "file_op_operands command arguments =
     (case map_of file_ops command of
        None \<Rightarrow> None
      | Some letters \<Rightarrow>
          (case operands_loop letters False arguments of
             None \<Rightarrow> None
           | Some ops \<Rightarrow> if ops = [] then None else Some ops))"

definition is_assignment :: "shell_word \<Rightarrow> bool" where
  "is_assignment w = (case split_once (CHR ''='') (w_text w) of
       None \<Rightarrow> False
     | Some (name, _) \<Rightarrow> name \<noteq> [] \<and> (is_ascii_alpha (hd name) \<or> hd name = CHR ''_'')
         \<and> list_all (\<lambda>c. is_ascii_alpha c \<or> is_digit c \<or> c = CHR ''_'') name)"

section \<open>Reading a command\<close>

definition give_up :: "shell_reading \<Rightarrow> string \<Rightarrow> shell_reading" where
  "give_up rd reason = rd\<lparr>r_kind := Other reason\<rparr>"

definition literal_paths :: "path option \<Rightarrow> path \<Rightarrow> shell_word list \<Rightarrow> path list" where
  "literal_paths home cwd arguments =
     List.map_filter (\<lambda>w. resolve (w_text w) cwd home) (filter (\<lambda>w. \<not> starts_with (w_text w) ''-'') arguments)"

definition cd_target :: "path option \<Rightarrow> path \<Rightarrow> shell_word list \<Rightarrow> path option" where
  "cd_target home cwd arguments = (case arguments of
       [] \<Rightarrow> home
     | [w] \<Rightarrow> if \<not> w_computed w \<and> \<not> w_glob w then resolve (w_text w) cwd home else None
     | _ \<Rightarrow> None)"

definition all_paths :: "path option \<Rightarrow> path \<Rightarrow> shell_word list \<Rightarrow> path list" where
  "all_paths home cwd ws =
     (let ps = map (\<lambda>w. resolve (w_text w) cwd home) ws
      in if list_all (\<lambda>p. p \<noteq> None) ps then map the ps else [])"

text \<open>One part: its redirects, then its command. It answers the reading, and where and whether to go on.\<close>

definition read_redirects :: "path option \<Rightarrow> path \<Rightarrow> segment \<Rightarrow> shell_reading \<Rightarrow> bool \<Rightarrow> shell_reading \<times> (shell_reading \<times> bool) option" where
  "read_redirects home cwd sg rd fops =
     (let rd = rd\<lparr>r_reads := r_reads rd @ List.map_filter (\<lambda>w. resolve (w_text w) cwd home) (s_inputs sg)\<rparr>;
          outs = filter (\<lambda>w. w_text w \<noteq> ''/dev/null'') (s_outputs sg)
      in if list_ex (\<lambda>w. w_computed w \<or> w_glob w) outs
         then (give_up rd ''The command writes to a file it names indirectly.'', None)
         else (rd, Some (rd\<lparr>r_writes := r_writes rd @ List.map_filter (\<lambda>w. resolve (w_text w) cwd home) outs\<rparr>,
                         fops \<or> outs \<noteq> [])))"

definition read_words ::
  "path option \<Rightarrow> path \<Rightarrow> segment \<Rightarrow> shell_reading \<Rightarrow> bool \<Rightarrow> shell_reading + shell_reading \<times> path \<times> bool" where
  "read_words home cwd sg rd fops =
     (case s_words sg of
        [] \<Rightarrow> Inr (rd, cwd, fops)
      | first # arguments \<Rightarrow>
          if is_assignment first then Inl (give_up rd ''The command sets variables before it runs.'')
          else if w_computed first \<or> w_glob first \<or> list_ex (\<lambda>c. c = CHR ''/'' \<or> c = backslash) (w_text first)
          then Inl (give_up rd ''The command names its program indirectly.'')
          else if w_text first \<in> set wrappers
          then Inl (give_up rd ''The command runs another command inside it.'')
          else if w_text first = ''cd'' \<or> w_text first = ''pushd'' then
            (case cd_target home cwd arguments of
               None \<Rightarrow> Inl (give_up rd ''The command changes to a folder it names indirectly.'')
             | Some target \<Rightarrow>
                 if s_after sg \<noteq> ''&&'' \<and> s_after sg \<noteq> []
                 then Inl (give_up rd ''The command changes folders between commands.'')
                 else Inr (rd\<lparr>r_reads := r_reads rd @ [target]\<rparr>, target, fops))
          else if w_text first \<in> set read_only_core then
            (if \<not> core_reads (w_text first) arguments
             then Inl (give_up rd ''An option lets this command write or run commands.'')
             else Inr (rd\<lparr>r_reads := r_reads rd @ literal_paths home cwd arguments\<rparr>, cwd, fops))
          else if w_text first = ''git'' then
            (if \<not> git_reads arguments then Inl (give_up rd ''This git command can change the repository.'')
             else Inr (rd\<lparr>r_reads := r_reads rd @ literal_paths home cwd arguments\<rparr>, cwd, fops))
          else (case file_op_operands (w_text first) arguments of
             Some ops \<Rightarrow>
               (let paths = all_paths home cwd ops
                in if paths = [] then Inl (give_up rd ''The command names a file it cannot resolve.'')
                   else if w_text first = ''cp''
                   then Inr (rd\<lparr>r_reads := r_reads rd @ butlast paths, r_writes := r_writes rd @ [last paths]\<rparr>,
                             cwd, True)
                   else Inr (rd\<lparr>r_writes := r_writes rd @ paths\<rparr>, cwd, True))
           | None \<Rightarrow>
               Inl (give_up (rd\<lparr>r_unknown := r_unknown rd @ literal_paths home cwd arguments\<rparr>)
                      ''The command can change things.'')))"

fun read_segments :: "path option \<Rightarrow> segment list \<Rightarrow> path \<Rightarrow> shell_reading \<Rightarrow> bool \<Rightarrow> shell_reading" where
  "read_segments home [] cwd rd fops = (if fops then rd\<lparr>r_kind := FileOps\<rparr> else rd)"
| "read_segments home (sg # sgs) cwd rd fops =
     (case read_redirects home cwd sg rd fops of
        (given_up, None) \<Rightarrow> given_up
      | (_, Some (rd, fops)) \<Rightarrow>
          (case read_words home cwd sg rd fops of
             Inl given_up \<Rightarrow> given_up
           | Inr (rd, cwd, fops) \<Rightarrow> read_segments home sgs cwd rd fops))"

definition empty_reading :: shell_reading where
  "empty_reading = \<lparr>r_kind = ReadOnly, r_reads = [], r_writes = [], r_unknown = []\<rparr>"

definition read_command :: "string \<Rightarrow> path \<Rightarrow> path option \<Rightarrow> shell_reading" where
  "read_command command cwd home =
     (case Option.bind (tokenize command) segments of
        None \<Rightarrow> give_up empty_reading ''The command could not be read.''
      | Some sgs \<Rightarrow> read_segments home sgs cwd empty_reading False)"

end
