(* ===== verification/Shell_Critical.thy ===== *)
theory Shell_Critical
  imports Shell_Reader
begin

text \<open>
  The critical list (\<open>permission_gate/shell.rs\<close>, \<open>is_critical\<close>): commands that can wipe a disk, the
  system folders or the user's home, or stop the computer. The command is split loosely here, so a
  command the strict reader refuses is still checked.
\<close>

section \<open>Loose splitting\<close>

definition last_piece :: "char set \<Rightarrow> string \<Rightarrow> string" where
  "last_piece ds s = last (split_at ds s)"

definition trim_quotes :: "string \<Rightarrow> string" where
  "trim_quotes w = (let q = (\<lambda>c. c = squote \<or> c = dquote)
     in rev (dropWhile q (rev (dropWhile q w))))"

definition loose_separators :: "char set" where
  "loose_separators = {CHR '';'', CHR ''|'', CHR ''&'', newline, CHR ''('', CHR '')'', backtick, CHR ''{'', CHR ''}''}"

definition loose_parts :: "string \<Rightarrow> string list list" where
  "loose_parts command =
     map (\<lambda>part. filter (\<lambda>w. w \<noteq> []) (map trim_quotes (split_whitespace part)))
       (split_at loose_separators command)"

text \<open>The wrappers dropped in front of a command: \<open>Some\<close> with whether a bare number is its value.\<close>

definition takes_value :: "string \<Rightarrow> bool option" where
  "takes_value first =
     (let name = last_piece {CHR ''/''} first
      in if name \<in> set [''nice'', ''timeout''] then Some True
         else if name \<in> set [''sudo'', ''doas'', ''env'', ''time'', ''nohup'', ''command'', ''exec'', ''xargs'',
           ''stdbuf'', ''setsid'', ''bash'', ''sh'', ''zsh'', ''dash'', ''ksh'', ''eval''] then Some False
         else if CHR ''='' \<in> set first \<and> \<not> starts_with first ''-'' then Some False
         else None)"

definition wrapper_argument :: "bool \<Rightarrow> string \<Rightarrow> bool" where
  "wrapper_argument value w \<longleftrightarrow>
     starts_with w ''-'' \<or> (CHR ''='' \<in> set w \<and> \<not> starts_with w ''/'')
     \<or> (value \<and> list_all (\<lambda>c. is_digit c \<or> c = CHR ''.'') w)"

function unwrap_command :: "string list \<Rightarrow> string list" where
  "unwrap_command [] = []"
| "unwrap_command (first # rest) =
     (case takes_value first of
        None \<Rightarrow> first # rest
      | Some v \<Rightarrow> unwrap_command (dropWhile (wrapper_argument v) rest))"
  by pat_completeness auto
termination
  by (relation "measure length") (simp_all add: le_imp_less_Suc length_dropWhile_le)

section \<open>Targets\<close>

definition system_folders :: "string list" where
  "system_folders = [''/bin'', ''/boot'', ''/dev'', ''/etc'', ''/home'', ''/lib'', ''/opt'', ''/private'', ''/root'',
     ''/sbin'', ''/System'', ''/Library'', ''/Applications'', ''/Users'', ''/usr'', ''/var'']"

definition trim_end_char :: "char \<Rightarrow> string \<Rightarrow> string" where
  "trim_end_char d w = rev (dropWhile (\<lambda>c. c = d) (rev w))"

definition critical_target :: "string \<Rightarrow> path option \<Rightarrow> bool" where
  "critical_target word home =
     (let w = trim_end_char (CHR ''*'') word;
          trimmed = (if length w > 1 then trim_end_char (CHR ''/'') w else w)
      in trimmed \<in> set [''/'', [], ''~'', ''.'', ''..'', ''$HOME'', ''${HOME}'', ''/*'', ''C:'' @ [backslash],
           ''C:'', ''$env:USERPROFILE'']
         \<or> list_ex (\<lambda>folder. to_ascii_lowercase trimmed = to_ascii_lowercase folder) system_folders
         \<or> (case home of None \<Rightarrow> False | Some h \<Rightarrow> components trimmed = h))"

definition disk_device :: "string \<Rightarrow> bool" where
  "disk_device p = list_ex (starts_with p)
     [''/dev/sd'', ''/dev/hd'', ''/dev/nvme'', ''/dev/disk'', ''/dev/rdisk'', ''/dev/mmcblk'', ''/dev/vd'']"

section \<open>The critical list\<close>

definition recursive_flag :: "string \<Rightarrow> bool" where
  "recursive_flag w \<longleftrightarrow> w = ''--recursive'' \<or> to_ascii_lowercase w = ''-recurse''
     \<or> (starts_with w ''-'' \<and> \<not> starts_with w ''--'' \<and> (CHR ''r'' \<in> set w \<or> CHR ''R'' \<in> set w))"

definition is_redirect :: "string \<Rightarrow> bool" where
  "is_redirect w \<longleftrightarrow> w = ''>'' \<or> w = ''>>''"

definition redirects_to_disk :: "string list \<Rightarrow> bool" where
  "redirects_to_disk arguments \<longleftrightarrow>
     list_ex (\<lambda>(a, b). is_redirect a \<and> disk_device b) (zip arguments (tl arguments))
     \<or> list_ex (\<lambda>w. case strip_prefix ''>'' w of None \<Rightarrow> False | Some p \<Rightarrow> disk_device p) arguments"

definition stops_computer :: "string list" where
  "stops_computer = [''wipefs'', ''fdisk'', ''sfdisk'', ''parted'', ''shutdown'', ''reboot'', ''halt'', ''poweroff'',
     ''format-volume'', ''clear-disk'', ''stop-computer'', ''restart-computer'']"

definition critical_words :: "path option \<Rightarrow> string list \<Rightarrow> bool" where
  "critical_words home words =
     (case unwrap_command words of
        [] \<Rightarrow> False
      | first # arguments \<Rightarrow>
          let lower = to_ascii_lowercase (last_piece {CHR ''/'', backslash} first);
              recursive = list_ex recursive_flag arguments;
              targets_critical = list_ex (\<lambda>w. critical_target w home)
                (filter (\<lambda>w. \<not> starts_with w ''-'') arguments)
          in redirects_to_disk arguments
             \<or> (if lower \<in> set [''rm'', ''remove-item'', ''rd'', ''rmdir'']
                then ''--no-preserve-root'' \<in> set arguments \<or> (recursive \<and> targets_critical)
                else if lower \<in> set [''chmod'', ''chown'', ''chgrp''] then recursive \<and> targets_critical
                else if lower = ''find''
                then ''-delete'' \<in> set arguments
                     \<and> (case arguments of [] \<Rightarrow> False | w # _ \<Rightarrow> critical_target w home)
                else if lower = ''dd''
                then list_ex (\<lambda>w. case strip_prefix ''of='' w of None \<Rightarrow> False | Some p \<Rightarrow> disk_device p) arguments
                else if lower \<in> set stops_computer then True
                else if lower = ''init'' then list_ex (\<lambda>w. w = ''0'' \<or> w = ''6'') arguments
                else if lower = ''diskutil''
                then (case arguments of
                        [] \<Rightarrow> False
                      | sub # _ \<Rightarrow>
                          let s = to_ascii_lowercase sub
                          in starts_with s ''erase'' \<or> starts_with s ''partition'' \<or> ends_with s ''disk''
                             \<or> s = ''secureerase'')
                else starts_with lower ''mkfs''))"

definition is_critical :: "string \<Rightarrow> path option \<Rightarrow> bool" where
  "is_critical command home \<longleftrightarrow>
     str_contains (concat (filter (\<lambda>c. \<not> is_whitespace c) (utf8_chars command))) '':(){''
     \<or> list_ex (critical_words home) (loose_parts command)"

section \<open>Properties\<close>

lemma separator_ascii: "sep \<in> loose_separators \<Longrightarrow> \<not> utf8_continuation sep"
  by (auto simp: loose_separators_def utf8_continuation_def)

text \<open>A string of whole characters starts with none of a character's later bytes.\<close>

definition char_start :: "string \<Rightarrow> bool" where
  "char_start s \<longleftrightarrow> s = [] \<or> \<not> utf8_continuation (hd s)"

lemma utf8_chars_separated:
  assumes "sep \<in> loose_separators" "char_start b"
  shows "utf8_chars (a @ sep # b) = utf8_chars a @ [[sep]] @ utf8_chars b"
proof -
  have "takeWhile utf8_continuation b = []" "dropWhile utf8_continuation b = b"
    using assms(2) by (cases b; simp add: char_start_def)+
  then show ?thesis using utf8_chars_append [OF separator_ascii [OF assms(1)]] by simp
qed

lemma unwrap_wrapper:
  assumes "takes_value w = Some v" "list_all (wrapper_argument v) opts" "ws = [] \<or> \<not> wrapper_argument v (hd ws)"
  shows "unwrap_command (w # opts @ ws) = unwrap_command ws"
proof -
  have "dropWhile (wrapper_argument v) (opts @ ws) = ws"
    using assms(2,3) by (induction opts) (cases ws; simp)+
  with assms(1) show ?thesis by simp
qed

text \<open>No wrapper hides a critical command: the words behind a wrapper and its options are judged as if
  they stood alone.\<close>

theorem critical_behind_wrapper:
  assumes "takes_value w = Some v" "list_all (wrapper_argument v) opts" "ws = [] \<or> \<not> wrapper_argument v (hd ws)"
  shows "critical_words home (w # opts @ ws) \<longleftrightarrow> critical_words home ws"
  unfolding critical_words_def unwrap_wrapper [OF assms] by (rule refl)

theorem critical_behind_wrapper_witness:
  "critical_words None [''timeout'', ''-k'', ''5'', ''rm'', ''-rf'', ''/'']"
proof -
  have "takes_value ''timeout'' = Some True" "list_all (wrapper_argument True) [''-k'', ''5'']"
    "\<not> wrapper_argument True ''rm''" "critical_words None [''rm'', ''-rf'', ''/'']"
    by code_simp+
  then show ?thesis
    using critical_behind_wrapper [of "''timeout''" True "[''-k'', ''5'']" "[''rm'', ''-rf'', ''/'']" None] by simp
qed

text \<open>A critical command stays critical in any list of commands: whatever is put before or after it
  with a separator, the whole command is critical too.\<close>

theorem critical_in_list:
  assumes "sep \<in> loose_separators" "char_start b" "is_critical a home \<or> is_critical b home"
  shows "is_critical (a @ sep # b) home"
proof -
  let ?q = "\<lambda>s. concat (filter (\<lambda>c. \<not> is_whitespace c) (utf8_chars s))"
  have parts: "loose_parts (a @ sep # b) = loose_parts a @ loose_parts b"
    using assms(1) by (simp add: loose_parts_def split_at_append)
  have squeezed: "\<exists>m. ?q (a @ sep # b) = ?q a @ m @ ?q b"
    using utf8_chars_separated [OF assms(1,2), of a] by (cases "is_whitespace [sep]") auto
  then have "str_contains (?q a) '':(){'' \<or> str_contains (?q b) '':(){'' \<Longrightarrow> str_contains (?q (a @ sep # b)) '':(){''"
    using str_contains_append by metis
  with assms(3) parts show ?thesis unfolding is_critical_def by auto
qed

theorem critical_in_list_witness: "is_critical (''cd x'' @ CHR '';'' # ''reboot'') None"
proof -
  have "CHR '';'' \<in> loose_separators" "char_start ''reboot''" "is_critical ''reboot'' None"
    by code_simp+
  then show ?thesis using critical_in_list by blast
qed

end
