(* ===== verification/Auto_Review.thy ===== *)
theory Auto_Review
  imports Prelude
begin

text \<open>
  The reviewer of \<open>auto\<close> mode (\<open>permission_gate/classifier.rs\<close>). The model call and \<open>serde_json\<close>'s
  reading of a verdict are arguments: \<open>ask\<close> answers the prompt or fails, and \<open>from_str\<close> reads the
  two string fields. Log lines are left out.
\<close>

section \<open>Verdicts\<close>

definition max_blocks_in_a_row :: nat where "max_blocks_in_a_row = 3"
definition max_blocks :: nat where "max_blocks = 20"
definition max_request_chars :: nat where "max_request_chars = 8 * 1024"
definition max_reason_chars :: nat where "max_reason_chars = 300"

record verdict_rec =
  v_verdict :: string
  v_reason :: string

definition not_a_verdict :: string where
  "not_a_verdict = ''The reviewer'' @ [CHR 0x27] @ ''s reply was not a verdict.''"

definition parse_verdict :: "(string \<Rightarrow> verdict_rec option) \<Rightarrow> string \<Rightarrow> string + verdict_rec" where
  "parse_verdict from_str reply =
     (case from_str (trim reply) of
        None \<Rightarrow> Inl not_a_verdict
      | Some v \<Rightarrow>
          let reason = trim (v_reason v)
          in if v_verdict v \<notin> set [''allow'', ''block''] \<or> reason = [] then Inl not_a_verdict
             else Inr \<lparr>v_verdict = v_verdict v,
               v_reason = map (\<lambda>c. if c = CHR 0x0A \<or> c = CHR 0x0D then CHR '' '' else c)
                 (concat (take max_reason_chars (utf8_chars reason)))\<rparr>)"

section \<open>The reviewer's message\<close>

text \<open>\<open>str::replace\<close>: every occurrence of a pattern that is not empty, found from the left.\<close>

lemma strip_prefix_shorter:
  assumes "strip_prefix pat s = Some rest" "pat \<noteq> []"
  shows "length rest < length s"
  using assms by (cases pat) (auto simp: strip_prefix_Some_iff)

function str_replace :: "string \<Rightarrow> string \<Rightarrow> string \<Rightarrow> string" where
  "str_replace pat rep [] = []"
| "str_replace pat rep (c # cs) =
     (case strip_prefix pat (c # cs) of
        Some rest \<Rightarrow> if pat = [] then c # cs else rep @ str_replace pat rep rest
      | None \<Rightarrow> c # str_replace pat rep cs)"
  by pat_completeness auto
termination
  by (relation "measure (\<lambda>(_, _, s). length s)") (use strip_prefix_shorter in \<open>fastforce+\<close>)

definition defang :: "string \<Rightarrow> string" where
  "defang t = str_replace ''</untrusted'' ''&lt;/untrusted'' (str_replace ''<untrusted'' ''&lt;untrusted'' t)"

definition review_input :: "string \<Rightarrow> bool \<Rightarrow> string \<Rightarrow> string" where
  "review_input request untrusted action =
     (let req = defang (concat (take max_request_chars (utf8_chars request)));
          nl = [CHR 0x0A];
          quoted = (if untrusted then ''<untrusted>'' @ nl @ req @ nl @ ''</untrusted>'' else req)
      in ''The user'' @ [CHR 0x27] @ ''s request:'' @ nl @ ''<request>'' @ nl @ quoted @ nl @ ''</request>'' @ nl @ nl
         @ ''The action the agent wants to take next:'' @ nl @ ''<untrusted>'' @ nl @ defang action @ nl @ ''</untrusted>'')"

section \<open>Reviews\<close>

datatype review_outcome = ReviewAllow | Pause string

record auto_review =
  av_model :: bool
  av_request :: string
  av_untrusted :: bool
  av_blocks_in_a_row :: nat
  av_blocks :: nat

text \<open>The model's answer to the prompt, or its error; and how its text reads as a verdict.\<close>

record reviewer =
  rw_ask :: "string \<Rightarrow> string + string"
  rw_from_str :: "string \<Rightarrow> verdict_rec option"

definition review_new :: "bool \<Rightarrow> string \<Rightarrow> bool \<Rightarrow> auto_review" where
  "review_new model request untrusted =
     \<lparr>av_model = model, av_request = request, av_untrusted = untrusted, av_blocks_in_a_row = 0, av_blocks = 0\<rparr>"

definition fell_back :: "auto_review \<Rightarrow> bool" where
  "fell_back rv \<longleftrightarrow> av_blocks_in_a_row rv \<ge> max_blocks_in_a_row \<or> av_blocks rv \<ge> max_blocks"

definition fallback_reason :: "auto_review \<Rightarrow> string" where
  "fallback_reason rv = ''Auto review blocked ''
     @ dec_str (if av_blocks rv \<ge> max_blocks then max_blocks else max_blocks_in_a_row)
     @ '' actions in this run, so each action asks now.''"

definition model_verdict :: "reviewer \<Rightarrow> auto_review \<Rightarrow> string \<Rightarrow> string + verdict_rec" where
  "model_verdict model rv action =
     (case rw_ask model (review_input (av_request rv) (av_untrusted rv) action) of
        Inr reply \<Rightarrow> parse_verdict (rw_from_str model) reply
      | Inl e \<Rightarrow> Inl e)"

definition review :: "reviewer \<Rightarrow> auto_review \<Rightarrow> string \<Rightarrow> review_outcome \<times> auto_review" where
  "review model rv action =
     (if fell_back rv then (Pause (fallback_reason rv), rv)
      else if \<not> av_model rv then (Pause ''Auto review is unavailable, so this action asks.'', rv)
      else (case model_verdict model rv action of
              Inr v \<Rightarrow>
                if v_verdict v = ''allow'' then (ReviewAllow, rv\<lparr>av_blocks_in_a_row := 0\<rparr>)
                else (Pause (''Auto review paused this: '' @ v_reason v),
                      rv\<lparr>av_blocks_in_a_row := av_blocks_in_a_row rv + 1, av_blocks := av_blocks rv + 1\<rparr>)
            | Inl _ \<Rightarrow> (Pause ''Auto review could not decide, so this action asks.'', rv)))"

section \<open>Defanged text\<close>

lemma contains_Cons_append:
  assumes "p0 \<notin> set x"
  shows "str_contains (x @ y) (p0 # ps) \<longleftrightarrow> str_contains y (p0 # ps)"
  using assms
proof (induction x)
  case (Cons c x)
  then have "\<not> starts_with ((c # x) @ y) (p0 # ps)" by (auto simp: starts_with_iff)
  with Cons show ?case by simp
qed simp

lemma starts_with_replace:
  assumes "starts_with (str_replace pat (r # rs) s) q" "r \<notin> set q" "pat \<noteq> []"
  shows "starts_with s q"
  using assms
proof (induction pat "r # rs" s arbitrary: q rule: str_replace.induct)
  case (2 pat c cs)
  show ?case
  proof (cases q)
    case (Cons d qs)
    show ?thesis
    proof (cases "strip_prefix pat (c # cs)")
      case None
      with 2 Cons have "d = c" "starts_with (str_replace pat (r # rs) cs) qs" by (auto simp: starts_with_iff)
      with 2(1) [OF None, of qs] 2(4,5) Cons show ?thesis by (auto simp: starts_with_iff)
    next
      case (Some rest)
      with 2 Cons show ?thesis by (auto simp: starts_with_iff)
    qed
  qed (simp add: starts_with_def)
qed simp

text \<open>Replacing neither leaves the pattern nor makes another that the text did not hold, when the
  replacement shares no start with it.\<close>

lemma replace_contains_not:
  assumes "r \<notin> set (q0 # qs)" "q0 \<notin> set (r # rs)" "pat \<noteq> []" "pat = q0 # qs \<or> \<not> str_contains s (q0 # qs)"
  shows "\<not> str_contains (str_replace pat (r # rs) s) (q0 # qs)"
  using assms
proof (induction pat "r # rs" s rule: str_replace.induct)
  case (2 pat c cs)
  show ?case
  proof (cases "strip_prefix pat (c # cs)")
    case None
    have "\<not> starts_with (c # str_replace pat (r # rs) cs) (q0 # qs)"
    proof
      assume "starts_with (c # str_replace pat (r # rs) cs) (q0 # qs)"
      then have "c = q0" "starts_with (str_replace pat (r # rs) cs) qs" by (auto simp: starts_with_iff)
      with starts_with_replace 2(3,5) have "starts_with (c # cs) (q0 # qs)" by (fastforce simp: starts_with_iff)
      with 2(6) None show False by (auto simp: starts_with_def)
    qed
    with 2(1) [OF None] 2(3-6) None show ?thesis by auto
  next
    case (Some rest)
    then have "c # cs = pat @ rest" by (simp add: strip_prefix_Some_iff)
    then have "pat = q0 # qs \<or> \<not> str_contains rest (q0 # qs)"
      using 2(6) str_contains_append [of pat "q0 # qs" rest] by auto
    with 2(2) [OF Some 2(5)] 2(3-5) have "\<not> str_contains (str_replace pat (r # rs) rest) (q0 # qs)" by blast
    with contains_Cons_append [OF 2(4)] 2(5) Some show ?thesis by simp
  qed
qed simp

text \<open>Text in the reviewer's message cannot open or close an untrusted block: whatever the request or
  the action says, its defanged form holds neither \<open><untrusted\<close> nor \<open></untrusted\<close>.\<close>

theorem defang_closed:
  "\<not> str_contains (defang t) ''</untrusted'' \<and> \<not> str_contains (defang t) ''<untrusted''"
proof -
  let ?s = "str_replace ''<untrusted'' ''&lt;untrusted'' t"
  have "\<not> str_contains ?s ''<untrusted''"
    by (rule replace_contains_not) simp_all
  then have "\<not> str_contains (defang t) ''<untrusted''"
    unfolding defang_def by (intro replace_contains_not) simp_all
  moreover have "\<not> str_contains (defang t) ''</untrusted''"
    unfolding defang_def by (rule replace_contains_not) simp_all
  ultimately show ?thesis by blast
qed

section \<open>Runs of reviews\<close>

text \<open>A run reviews one action after another; the model may answer each differently.\<close>

fun reviews :: "(reviewer \<times> string) list \<Rightarrow> auto_review \<Rightarrow> review_outcome list \<times> auto_review" where
  "reviews [] rv = ([], rv)"
| "reviews ((model, action) # rest) rv =
     (let (out, rv') = review model rv action; (outs, rv'') = reviews rest rv' in (out # outs, rv''))"

definition counts_bounded :: "auto_review \<Rightarrow> bool" where
  "counts_bounded rv \<longleftrightarrow> av_blocks_in_a_row rv \<le> max_blocks_in_a_row \<and> av_blocks rv \<le> max_blocks
     \<and> av_blocks_in_a_row rv \<le> av_blocks rv"

lemma review_cases:
  obtains (stay) why where "review model rv action = (Pause why, rv)"
  | (allow) v where "\<not> fell_back rv" "av_model rv" "model_verdict model rv action = Inr v"
      "v_verdict v = ''allow''" "review model rv action = (ReviewAllow, rv\<lparr>av_blocks_in_a_row := 0\<rparr>)"
  | (blocked) v where "\<not> fell_back rv" "model_verdict model rv action = Inr v"
      "review model rv action = (Pause (''Auto review paused this: '' @ v_reason v),
         rv\<lparr>av_blocks_in_a_row := av_blocks_in_a_row rv + 1, av_blocks := av_blocks rv + 1\<rparr>)"
proof -
  consider "fell_back rv \<or> \<not> av_model rv" | e where "\<not> fell_back rv" "av_model rv" "model_verdict model rv action = Inl e"
    | v where "\<not> fell_back rv" "av_model rv" "model_verdict model rv action = Inr v" "v_verdict v = ''allow''"
    | v where "\<not> fell_back rv" "av_model rv" "model_verdict model rv action = Inr v" "v_verdict v \<noteq> ''allow''"
    by (cases "model_verdict model rv action") blast+
  then show thesis
  proof cases
    case 1
    then show thesis using stay unfolding review_def by (cases "fell_back rv") simp_all
  next
    case (2 e)
    then show thesis using stay unfolding review_def by simp
  next
    case (3 v)
    then show thesis by (intro allow [of v]) (simp_all add: review_def)
  next
    case (4 v)
    then show thesis by (intro blocked [of v]) (simp_all add: review_def)
  qed
qed

lemma counts_bounded_review: "counts_bounded rv \<Longrightarrow> counts_bounded (snd (review model rv action))"
  by (cases rule: review_cases [of model rv action]) (auto simp: counts_bounded_def fell_back_def)

lemma snd_reviews: "snd (reviews ((m, a) # rest) rv) = snd (reviews rest (snd (review m rv a)))"
  by (simp add: case_prod_beta Let_def)

lemma counts_bounded_reviews: "counts_bounded rv \<Longrightarrow> counts_bounded (snd (reviews steps rv))"
  by (induction steps arbitrary: rv) (auto simp: snd_reviews counts_bounded_review simp del: reviews.simps(2))

lemma fell_back_reviews:
  "fell_back rv \<Longrightarrow> reviews steps rv = (map (\<lambda>_. Pause (fallback_reason rv)) steps, rv)"
  by (induction steps rv rule: reviews.induct) (simp_all add: review_def)

text \<open>The reviewer never allows on its own: an action is allowed only when the model answered, its
  answer read as a verdict, and the verdict said \<open>allow\<close> with a reason; and a run that was blocked
  three times in a row or twenty times asks for every later action.\<close>

theorem reviewer_falls_back:
  assumes "reviews before (review_new has_model request untrusted) = (outs, rv)"
  shows "av_blocks rv \<le> max_blocks \<and> av_blocks_in_a_row rv \<le> max_blocks_in_a_row
    \<and> (fst (review model rv action) = ReviewAllow \<longrightarrow>
         \<not> fell_back rv \<and> has_model
         \<and> (\<exists>reply v. rw_ask model (review_input request untrusted action) = Inr reply
              \<and> rw_from_str model (trim reply) = Some v \<and> v_verdict v = ''allow'' \<and> trim (v_reason v) \<noteq> []))
    \<and> (fell_back rv \<longrightarrow> set (fst (reviews later rv)) \<subseteq> {Pause (fallback_reason rv)})"
proof -
  have same: "av_request (snd (reviews steps rv0)) = av_request rv0
      \<and> av_untrusted (snd (reviews steps rv0)) = av_untrusted rv0 \<and> av_model (snd (reviews steps rv0)) = av_model rv0"
    for steps rv0
  proof (induction steps arbitrary: rv0)
    case (Cons s rest)
    obtain m a where s: "s = (m, a)" by fastforce
    show ?case using Cons [of "snd (review m rv0 a)"] unfolding s snd_reviews by (cases rule: review_cases [of m rv0 a]) simp_all
  qed simp
  have rv: "av_request rv = request" "av_untrusted rv = untrusted" "av_model rv = has_model"
    using same [of before "review_new has_model request untrusted"] assms by (simp_all add: review_new_def)
  have "counts_bounded (review_new has_model request untrusted)" by (simp add: counts_bounded_def review_new_def)
  from counts_bounded_reviews [OF this, of before] assms have "counts_bounded rv" by simp
  moreover have "fst (review model rv action) = ReviewAllow \<Longrightarrow> \<not> fell_back rv \<and> has_model
      \<and> (\<exists>reply v. rw_ask model (review_input request untrusted action) = Inr reply
              \<and> rw_from_str model (trim reply) = Some v \<and> v_verdict v = ''allow'' \<and> trim (v_reason v) \<noteq> [])"
  proof (cases rule: review_cases [of model rv action])
    case (allow v)
    then show ?thesis
      by (auto simp: model_verdict_def parse_verdict_def Let_def rv split: sum.splits option.splits if_splits)
  qed auto
  ultimately show ?thesis using fell_back_reviews [of rv later] by (auto simp: counts_bounded_def)
qed

theorem reviewer_falls_back_witness:
  "let model = \<lparr>rw_ask = (\<lambda>_. Inr ''no''), rw_from_str = (\<lambda>_. Some \<lparr>v_verdict = ''block'', v_reason = ''r''\<rparr>)\<rparr>;
       rv = snd (reviews (replicate 3 (model, ''rm'')) (review_new True ''q'' False))
   in fell_back rv \<and> set (fst (reviews [(model, ''ls'')] rv)) \<subseteq> {Pause (fallback_reason rv)}"
proof -
  define model where "model = \<lparr>rw_ask = (\<lambda>_. Inr ''no'' :: string + string),
    rw_from_str = (\<lambda>_. Some \<lparr>v_verdict = ''block'', v_reason = ''r''\<rparr>)\<rparr>"
  define rv where "rv = snd (reviews (replicate 3 (model, ''rm'')) (review_new True ''q'' False))"
  have verdict: "\<exists>v. model_verdict model rv0 a = Inr v \<and> v_verdict v = ''block''" for rv0 a
  proof -
    have "trim ''r'' = ''r''"
      by (simp add: trim_def trim_start_def trim_end_def is_whitespace_def utf8_continuation_def)
    then show ?thesis by (simp add: model_verdict_def parse_verdict_def model_def)
  qed
  have step: "\<not> fell_back rv0 \<Longrightarrow> av_model rv0 \<Longrightarrow> snd (review model rv0 a)
      = rv0\<lparr>av_blocks_in_a_row := Suc (av_blocks_in_a_row rv0), av_blocks := Suc (av_blocks rv0)\<rparr>" for rv0 a
    using verdict [of rv0 a] by (auto simp: review_def)
  have "fell_back rv" unfolding rv_def
    by (simp add: numeral_3_eq_3 snd_reviews step review_new_def fell_back_def max_blocks_in_a_row_def max_blocks_def
      del: reviews.simps(2))
  moreover have "reviews (replicate 3 (model, ''rm'')) (review_new True ''q'' False)
      = (fst (reviews (replicate 3 (model, ''rm'')) (review_new True ''q'' False)), rv)" by (simp add: rv_def)
  from reviewer_falls_back [OF this, of model "''ls''" "[(model, ''ls'')]"] calculation
  have "set (fst (reviews [(model, ''ls'')] rv)) \<subseteq> {Pause (fallback_reason rv)}" by blast
  ultimately show ?thesis unfolding model_def rv_def by (simp add: Let_def del: reviews.simps)
qed

end
