(* ===== verification/Permission_Gate.thy ===== *)
theory Permission_Gate
  imports Shell_Critical Json Auto_Review
begin

text \<open>
  The permission gate of a run (\<open>permission_gate.rs\<close>): the modes, the request one tool call makes,
  what the call does and touches, and the decision. The file system's \<open>canonicalize\<close> is an argument
  of every definition that resolves a path, and \<open>serde_json\<close>'s printing of an input is the argument
  \<open>print\<close>. The working folder's name is taken to be UTF-8.
\<close>

section \<open>Modes\<close>

datatype permission_mode = Manual | EditAuto | Plan | Auto | DontAsk | Bypass

definition all_modes :: "permission_mode list" where
  "all_modes = [Manual, EditAuto, Plan, Auto, DontAsk, Bypass]"

fun mode_id :: "permission_mode \<Rightarrow> string" where
  "mode_id Manual = ''manual''"
| "mode_id EditAuto = ''edit_auto''"
| "mode_id Plan = ''plan''"
| "mode_id Auto = ''auto''"
| "mode_id DontAsk = ''dont_ask''"
| "mode_id Bypass = ''bypass''"

fun mode_title :: "permission_mode \<Rightarrow> string" where
  "mode_title Manual = ''Ask before changes''"
| "mode_title EditAuto = ''Edit automatically''"
| "mode_title Plan = ''Plan first''"
| "mode_title Auto = ''Auto review''"
| "mode_title DontAsk = ''Don'' @ [squote] @ ''t ask''"
| "mode_title Bypass = ''Bypass permissions''"

fun mode_description :: "permission_mode \<Rightarrow> string" where
  "mode_description Manual = ''Reads and read-only commands run. Edits, other commands, web and MCP calls ask first.''"
| "mode_description EditAuto = ''Also edits files and runs mkdir, touch, mv, cp and rm inside the working folders without asking. Everything else asks.''"
| "mode_description Plan = ''Reads and read-only commands only. The agent writes a plan, and approving it switches to the mode you pick.''"
| "mode_description Auto = ''A fast model reviews each action and runs it or pauses it for you. After 3 blocks in a row or 20 in a run, it asks instead.''"
| "mode_description DontAsk = ''Reads run. Everything else is denied without asking.''"
| "mode_description Bypass = ''Everything runs except critical commands, which ask first.''"

section \<open>Requests\<close>

datatype request_kind = KPath | KCommand | KTool

datatype resource =
    RPath (res_path: string) (res_operation: string)
  | RCommand (res_arguments: "string list") (res_folder: string)
  | RTool (res_name: string) (res_input: json)

record policy_request =
  q_kind :: request_kind
  q_resource :: resource

record run_permissions =
  p_mode :: permission_mode
  p_event_triggered :: bool
  p_working_directories :: "path list"
  p_protected_roots :: "path list"
  p_home :: "path option"
  p_bypass_enabled :: bool

definition mode_for :: "run_permissions \<Rightarrow> permission_mode option \<Rightarrow> permission_mode" where
  "mode_for p thread_mode =
     (let mode = (case thread_mode of None \<Rightarrow> p_mode p | Some m \<Rightarrow> m)
      in if mode = Bypass \<and> \<not> p_bypass_enabled p then Manual else mode)"

datatype gate_decision = Allow | Deny string | Ask string

section \<open>Tools\<close>

definition read_only_tools :: "string list" where
  "read_only_tools = [''read'', ''grep'', ''find'', ''ls'', ''web_search'', ''fetch_content'', ''get_search_content'',
     ''source_check'', ''memory-search'', ''memory-profile-read'', ''agent-list'', ''agent-read'', ''routine-list'',
     ''bg_status'', ''bg_logs'', ''ask_user_question'', ''mcp__record__sql'']"

definition web_tools :: "string list" where
  "web_tools = [''web_search'', ''fetch_content'', ''get_search_content'', ''source_check'']"

definition plan_tool :: string where
  "plan_tool = ''plan_submit''"

definition keeping_tools :: "string list" where
  "keeping_tools = [''memory-save'', ''memory-delete'', ''memory-profile-save'', ''creation-plan'', plan_tool]"

definition is_read_only_tool :: "string \<Rightarrow> bool" where
  "is_read_only_tool tool \<longleftrightarrow> tool \<in> set read_only_tools"

text \<open>The first named string field of the input, an absolute path's text, and the exact request.\<close>

fun input_field :: "json \<Rightarrow> string list \<Rightarrow> string option" where
  "input_field input [] = None"
| "input_field input (n # ns) =
     (case Option.bind (jget input n) as_str of None \<Rightarrow> input_field input ns | Some s \<Rightarrow> Some s)"

definition absolute :: "path \<Rightarrow> string \<Rightarrow> string" where
  "absolute folder p = path_string (normalize (join folder p))"

definition tool_request :: "string \<Rightarrow> json \<Rightarrow> path \<Rightarrow> policy_request" where
  "tool_request tool input folder =
     (let other = \<lparr>q_kind = KTool, q_resource = RTool tool input\<rparr>
      in if tool \<in> set [''bash'', ''powershell'', ''bg_run''] then
           (case input_field input [''command''] of
              None \<Rightarrow> other
            | Some command \<Rightarrow> \<lparr>q_kind = KCommand, q_resource = RCommand [tool, command] (absolute folder ''.'')\<rparr>)
         else if tool \<in> set [''read'', ''write'', ''edit'', ''ls'', ''find'', ''grep''] then
           (case input_field input [''path'', ''file_path''] of
              None \<Rightarrow> other
            | Some p \<Rightarrow> \<lparr>q_kind = KPath, q_resource = RPath (absolute folder p) tool\<rparr>)
         else other)"

definition canonical_absolute_path :: "string \<Rightarrow> bool" where
  "canonical_absolute_path v \<longleftrightarrow> v \<noteq> [] \<and> is_absolute v
     \<and> \<not> list_ex (\<lambda>c. c = CurDir \<or> c = ParentDir) (components v)"

fun valid_policy_resource :: "request_kind \<Rightarrow> resource \<Rightarrow> bool" where
  "valid_policy_resource KPath (RPath p operation) \<longleftrightarrow> canonical_absolute_path p \<and> trim operation \<noteq> []"
| "valid_policy_resource KCommand (RCommand arguments folder) \<longleftrightarrow>
     (case arguments of [] \<Rightarrow> False | a # _ \<Rightarrow> a \<noteq> [])
     \<and> list_all (\<lambda>a. CHR 0x00 \<notin> set a) arguments \<and> canonical_absolute_path folder"
| "valid_policy_resource KTool (RTool name input) \<longleftrightarrow>
     trim name \<noteq> [] \<and> length name \<le> 256 \<and> \<not> list_ex is_control (utf8_chars name)"
| "valid_policy_resource _ _ \<longleftrightarrow> False"

section \<open>What a call does and touches\<close>

datatype action_class = Read | Edit bool | Command | Web | Mcp bool

record assessment =
  a_class :: action_class
  a_protected :: bool
  a_critical :: bool

definition mcp_config_files :: "string list" where
  "mcp_config_files = [''.mcp.json'', ''mcp.json'', ''mcp_config.json'', ''claude_desktop_config.json'']"

definition shell_rc_files :: "string list" where
  "shell_rc_files = [''.bashrc'', ''.bash_profile'', ''.bash_login'', ''.bash_logout'', ''.profile'', ''.zshrc'',
     ''.zprofile'', ''.zshenv'', ''.zlogin'', ''.zlogout'', ''.cshrc'', ''.tcshrc'', ''.kshrc'', ''config.fish'',
     ''Microsoft.PowerShell_profile.ps1'', ''profile.ps1'']"

definition readable_in_protected_roots :: "string list" where
  "readable_in_protected_roots = [''extensions'', ''agent/skills'']"

definition protected_folders :: "string list" where
  "protected_folders = [''.git'', ''.muniment'']"

text \<open>\<open>path_forms\<close>: the path as given and as the file system resolves it, through its nearest
  existing parent. \<open>rest\<close> is the names dropped so far, the last one first in the code and first here.\<close>

fun resolve_existing :: "(path \<Rightarrow> path option) \<Rightarrow> path \<Rightarrow> component list \<Rightarrow> component list \<Rightarrow> path" where
  "resolve_existing canon given rev_existing rest =
     (case canon (rev rev_existing) of
        Some resolved \<Rightarrow> resolved @ rest
      | None \<Rightarrow>
          (case rev_existing of
             Normal n # parent \<Rightarrow> resolve_existing canon given parent (Normal n # rest)
           | _ \<Rightarrow> given))"

definition path_forms :: "(path \<Rightarrow> path option) \<Rightarrow> path \<Rightarrow> path list" where
  "path_forms canon p = [p, resolve_existing canon p (rev p) []]"

definition given_form :: "(path \<Rightarrow> path option) \<Rightarrow> path \<Rightarrow> path" where
  "given_form canon p = path_forms canon p ! 0"

definition resolved_form :: "(path \<Rightarrow> path option) \<Rightarrow> path \<Rightarrow> path" where
  "resolved_form canon p = path_forms canon p ! 1"

definition inside_workspace :: "(path \<Rightarrow> path option) \<Rightarrow> run_permissions \<Rightarrow> path \<Rightarrow> bool" where
  "inside_workspace canon p path =
     list_ex (\<lambda>folder. path_starts_with (given_form canon path) (given_form canon folder)
       \<and> given_form canon path \<noteq> given_form canon folder
       \<and> path_starts_with (resolved_form canon path) (resolved_form canon folder)
       \<and> resolved_form canon path \<noteq> resolved_form canon folder) (p_working_directories p)"

definition in_workspace :: "(path \<Rightarrow> path option) \<Rightarrow> run_permissions \<Rightarrow> path \<Rightarrow> bool" where
  "in_workspace canon p form =
     list_ex (path_starts_with form) (concat (map (path_forms canon) (p_working_directories p)))"

definition in_protected_root :: "(path \<Rightarrow> path option) \<Rightarrow> run_permissions \<Rightarrow> path \<Rightarrow> bool" where
  "in_protected_root canon p path =
     list_ex (\<lambda>root. list_ex (\<lambda>r. list_ex (\<lambda>form. path_starts_with form r \<and> \<not> in_workspace canon p form)
         (path_forms canon path)) (path_forms canon root)) (p_protected_roots p)"

definition protected_read :: "(path \<Rightarrow> path option) \<Rightarrow> run_permissions \<Rightarrow> path \<Rightarrow> bool" where
  "protected_read canon p path \<longleftrightarrow>
     in_protected_root canon p path
     \<and> \<not> list_ex (\<lambda>root. list_ex (\<lambda>r. list_ex (\<lambda>folder. list_ex (\<lambda>form. path_starts_with form (join r folder))
           (path_forms canon path)) readable_in_protected_roots) (path_forms canon root)) (p_protected_roots p)"

definition protected_form :: "path \<Rightarrow> bool" where
  "protected_form form \<longleftrightarrow>
     list_ex (\<lambda>c. component_str c \<in> set protected_folders) form
     \<or> (case file_name form of
          None \<Rightarrow> False
        | Some name \<Rightarrow> name \<in> set mcp_config_files \<or> name \<in> set shell_rc_files)"

definition protected_write :: "(path \<Rightarrow> path option) \<Rightarrow> run_permissions \<Rightarrow> path \<Rightarrow> bool" where
  "protected_write canon p path \<longleftrightarrow>
     list_ex protected_form (path_forms canon path) \<or> in_protected_root canon p path"

definition plain :: "action_class \<Rightarrow> assessment" where
  "plain class = \<lparr>a_class = class, a_protected = False, a_critical = False\<rparr>"

definition assess_path :: "(path \<Rightarrow> path option) \<Rightarrow> run_permissions \<Rightarrow> string \<Rightarrow> string \<Rightarrow> assessment" where
  "assess_path canon p path operation =
     (if operation \<in> set [''read'', ''ls'', ''find'', ''grep'']
      then \<lparr>a_class = Read, a_protected = protected_read canon p (components path), a_critical = False\<rparr>
      else if operation \<in> set [''write'', ''edit'']
      then \<lparr>a_class = Edit (inside_workspace canon p (components path)),
            a_protected = protected_write canon p (components path), a_critical = False\<rparr>
      else plain Command)"

definition class_of_reading :: "(path \<Rightarrow> path option) \<Rightarrow> run_permissions \<Rightarrow> shell_reading \<Rightarrow> action_class" where
  "class_of_reading canon p rd = (case r_kind rd of
       ReadOnly \<Rightarrow> Read
     | FileOps \<Rightarrow> Edit (list_all (inside_workspace canon p) (r_writes rd))
     | Other _ \<Rightarrow> Command)"

definition assess_command :: "(path \<Rightarrow> path option) \<Rightarrow> run_permissions \<Rightarrow> string list \<Rightarrow> string \<Rightarrow> assessment" where
  "assess_command canon p arguments folder =
     (let command = (if length arguments > 1 then arguments ! 1 else []);
          critical = is_critical command (p_home p)
      in if arguments \<noteq> [] \<and> hd arguments = ''powershell''
         then \<lparr>a_class = Command, a_protected = False, a_critical = critical\<rparr>
         else let rd = read_command command (components folder) (p_home p)
              in \<lparr>a_class = class_of_reading canon p rd,
                  a_protected = list_ex (protected_read canon p) (r_reads rd)
                    \<or> list_ex (protected_write canon p) (r_writes rd @ r_unknown rd),
                  a_critical = critical\<rparr>)"

definition assess_tool :: "string \<Rightarrow> bool \<Rightarrow> assessment" where
  "assess_tool name read_only_hint =
     plain (if name = ''mcp__record__sql'' \<or> name \<in> set keeping_tools \<or> name \<in> set read_only_tools then Read
            else if starts_with name ''mcp__'' then Mcp read_only_hint
            else if read_only_hint then Read
            else Command)"

definition assess :: "(path \<Rightarrow> path option) \<Rightarrow> run_permissions \<Rightarrow> policy_request \<Rightarrow> string \<Rightarrow> bool \<Rightarrow> assessment" where
  "assess canon p request tool read_only_hint =
     (if tool \<in> set web_tools then plain Web
      else (case q_resource request of
              RPath path operation \<Rightarrow> assess_path canon p path operation
            | RCommand arguments folder \<Rightarrow> assess_command canon p arguments folder
            | RTool name _ \<Rightarrow> assess_tool name read_only_hint))"

section \<open>The gate's answers\<close>

definition gate_answers :: "(string \<times> string) list" where
  "gate_answers = [(''allow_once'', ''Allow once''), (''deny'', ''Deny'')]"

definition plan_answers :: "(string \<times> string \<times> permission_mode option) list" where
  "plan_answers =
     [(''plan_manual'', ''Approve, then ask before changes'', Some Manual),
      (''plan_edit_auto'', ''Approve and edit automatically'', Some EditAuto),
      (''plan_auto'', ''Approve with auto review'', Some Auto),
      (''plan_keep'', ''Keep planning'', None)]"

definition plan_options :: "string list" where
  "plan_options = map (\<lambda>(_, label, _). label) plan_answers"

definition plan_choice :: "string \<Rightarrow> permission_mode option" where
  "plan_choice option = Option.bind (find (\<lambda>(_, label, _). label = option) plan_answers) (\<lambda>(_, _, mode). mode)"

definition gate_option :: "string \<Rightarrow> string option" where
  "gate_option answer =
     (case find (\<lambda>(i, _). i = answer) gate_answers of
        Some (_, label) \<Rightarrow> Some label
      | None \<Rightarrow> map_option (\<lambda>(_, label, _). label) (find (\<lambda>(i, _, _). i = answer) plan_answers))"

definition gate_answer :: "string \<Rightarrow> string option" where
  "gate_answer option =
     (case find (\<lambda>(_, label). label = option) gate_answers of
        Some (i, _) \<Rightarrow> Some i
      | None \<Rightarrow> map_option (\<lambda>(i, _, _). i) (find (\<lambda>(_, label, _). label = option) plan_answers))"

definition gate_options :: "string list" where
  "gate_options = map snd gate_answers"

section \<open>Deciding a call\<close>

definition max_summary_chars :: nat where
  "max_summary_chars = 240"

definition ellipsis :: string where
  "ellipsis = [CHR 0xE2, CHR 0x80, CHR 0xA6]"

fun join_with :: "string \<Rightarrow> string list \<Rightarrow> string" where
  "join_with sep [] = []"
| "join_with sep [x] = x"
| "join_with sep (x # y # xs) = x @ sep @ join_with sep (y # xs)"

fun summary_text :: "(json \<Rightarrow> string) \<Rightarrow> resource \<Rightarrow> string" where
  "summary_text print (RCommand arguments folder) =
     (case arguments of [] \<Rightarrow> [] | a # _ \<Rightarrow> a) @ '' '' @ [backtick] @ join_with '' '' (tl arguments) @ [backtick]
       @ '' in '' @ folder"
| "summary_text print (RPath path operation) = operation @ '' '' @ path"
| "summary_text print (RTool name input) =
     (if print input = ''{}'' \<or> print input = ''null'' then name else name @ '' '' @ print input)"

definition exact_summary :: "(json \<Rightarrow> string) \<Rightarrow> policy_request \<Rightarrow> string" where
  "exact_summary print request =
     (let t = summary_text print (q_resource request)
      in if length (utf8_chars t) \<le> max_summary_chars then t
         else concat (take (max_summary_chars - 1) (utf8_chars t)) @ ellipsis)"

definition plan_refusal :: string where
  "plan_refusal = ''Plan mode refuses changes while planning. Read what you need, then submit your plan with plan_submit.''"

fun changes :: "action_class \<Rightarrow> bool" where
  "changes (Edit _) = True"
| "changes Command = True"
| "changes (Mcp read_only) = (\<not> read_only)"
| "changes _ = False"

definition dont_ask_name :: string where
  "dont_ask_name = ''Don'' @ [squote] @ ''t ask mode denies ''"

definition decide_tool_call ::
  "(path \<Rightarrow> path option) \<Rightarrow> (json \<Rightarrow> string) \<Rightarrow> reviewer \<Rightarrow> run_permissions \<Rightarrow> permission_mode
   \<Rightarrow> policy_request \<Rightarrow> string \<Rightarrow> bool \<Rightarrow> auto_review \<Rightarrow> gate_decision \<times> auto_review" where
  "decide_tool_call canon print model p mode0 request tool read_only_hint rv =
     (let mode = mode_for p (Some mode0);
          a = assess canon p request tool read_only_hint
      in if a_critical a then
           ((if mode = DontAsk then Deny (dont_ask_name @ ''critical commands.'')
             else if mode = Plan then Deny plan_refusal
             else Ask ''This is a critical command, so it always asks.''), rv)
         else if a_protected a then
           ((if mode = Bypass then Allow
             else if mode = DontAsk then Deny (dont_ask_name @ ''actions on protected paths.'')
             else if mode = Plan \<and> changes (a_class a) then Deny plan_refusal
             else Ask ''This action touches a protected path, so it always asks.''), rv)
         else if mode = Plan \<and> changes (a_class a) then (Deny plan_refusal, rv)
         else if a_class a = Read \<or> mode = Bypass then (Allow, rv)
         else if mode = EditAuto \<and> a_class a = Edit True then (Allow, rv)
         else if mode = DontAsk then (Deny (dont_ask_name @ ''everything but reads.''), rv)
         else if mode = Auto then
           (case review model rv (exact_summary print request) of
              (ReviewAllow, rv') \<Rightarrow> (Allow, rv')
            | (Pause reason, rv') \<Rightarrow> (Ask reason, rv'))
         else if mode = EditAuto \<and> a_class a = Edit False
         then (Ask ''This edit is outside the working folders, so it asks.'', rv)
         else (Ask (''Needs your OK in '' @ mode_title mode @ '' mode.''), rv))"

end
