(* ===== verification/Shell_Safety.thy ===== *)
theory Shell_Safety
  imports Shell_Critical
begin

text \<open>
  What a reading of a shell command promises: the parts a read-only or file command is made of, the
  folder each part is taken to run in, and which of the files those parts write are among the paths of the reading.
\<close>

section \<open>Parts\<close>

text \<open>A part that names its program plainly, one that only reads, and one that changes the files it names.\<close>

definition plain_part :: "segment \<Rightarrow> bool" where
  "plain_part sg \<longleftrightarrow> s_words sg \<noteq> [] \<and> (let first = hd (s_words sg) in
     \<not> is_assignment first \<and> \<not> w_computed first \<and> \<not> w_glob first
     \<and> CHR ''/'' \<notin> set (w_text first) \<and> backslash \<notin> set (w_text first) \<and> w_text first \<notin> set wrappers)"

definition cd_part :: "segment \<Rightarrow> bool" where
  "cd_part sg \<longleftrightarrow> plain_part sg \<and> w_text (hd (s_words sg)) \<in> {''cd'', ''pushd''}"

definition reading_part :: "segment \<Rightarrow> bool" where
  "reading_part sg \<longleftrightarrow> s_words sg = [] \<or> cd_part sg
     \<or> (plain_part sg \<and> w_text (hd (s_words sg)) \<in> set read_only_core
        \<and> core_reads (w_text (hd (s_words sg))) (tl (s_words sg)))
     \<or> (plain_part sg \<and> w_text (hd (s_words sg)) = ''git'' \<and> git_reads (tl (s_words sg)))"

definition part_operands :: "segment \<Rightarrow> shell_word list option" where
  "part_operands sg = (if s_words sg = [] then None
     else file_op_operands (w_text (hd (s_words sg))) (tl (s_words sg)))"

definition file_part :: "segment \<Rightarrow> bool" where
  "file_part sg \<longleftrightarrow> plain_part sg \<and> part_operands sg \<noteq> None"

text \<open>The folder the part after \<open>sg\<close> runs in, and the folders of all parts.\<close>

definition folder_after :: "path option \<Rightarrow> path \<Rightarrow> segment \<Rightarrow> path" where
  "folder_after home cwd sg =
     (if cd_part sg then (case cd_target home cwd (tl (s_words sg)) of None \<Rightarrow> cwd | Some t \<Rightarrow> t) else cwd)"

fun placed :: "path option \<Rightarrow> path \<Rightarrow> segment list \<Rightarrow> (path \<times> segment) list" where
  "placed home cwd [] = []"
| "placed home cwd (sg # sgs) = (cwd, sg) # placed home (folder_after home cwd sg) sgs"

text \<open>A word that begins in somebody's home the reader does not know: another user's, or its own without one. The reader
  resolves no such word.\<close>

definition unknown_home :: "path option \<Rightarrow> string \<Rightarrow> bool" where
  "unknown_home home w \<longleftrightarrow> w \<noteq> [] \<and> hd w = CHR ''~'' \<and> (home = None \<or> \<not> (w = ''~'' \<or> (\<exists>rest. w = ''~/'' @ rest)))"

lemma resolve_None: "resolve w cwd home = None \<longleftrightarrow> unknown_home home w"
  by (cases w) (auto simp: resolve_def unknown_home_def starts_with_iff)

text \<open>The files of a part's output redirects are among the paths of a reading, but for the words that do not resolve; the
  operands of a file operation all are.\<close>

definition outputs_recorded :: "path option \<Rightarrow> path \<Rightarrow> segment \<Rightarrow> path set \<Rightarrow> bool" where
  "outputs_recorded home cwd sg writes \<longleftrightarrow> (\<forall>w\<in>set (s_outputs sg). w_text w = ''/dev/null''
     \<or> (\<not> w_computed w \<and> \<not> w_glob w
         \<and> (unknown_home home (w_text w) \<or> (\<exists>p. resolve (w_text w) cwd home = Some p \<and> p \<in> writes))))"

definition operands_recorded :: "path option \<Rightarrow> path \<Rightarrow> segment \<Rightarrow> path set \<Rightarrow> path set \<Rightarrow> bool" where
  "operands_recorded home cwd sg reads writes \<longleftrightarrow> (\<forall>ops. file_part sg \<and> part_operands sg = Some ops \<longrightarrow>
     (\<exists>paths. map (\<lambda>w. resolve (w_text w) cwd home) ops = map Some paths \<and> paths \<noteq> []
       \<and> last paths \<in> writes
       \<and> (if w_text (hd (s_words sg)) = ''cp'' then set (butlast paths) \<subseteq> reads else set paths \<subseteq> writes)))"

section \<open>One part\<close>

definition grows :: "shell_reading \<Rightarrow> shell_reading \<Rightarrow> bool" where
  "grows rd rd' \<longleftrightarrow> r_kind rd' = r_kind rd \<and> r_unknown rd' = r_unknown rd
     \<and> set (r_reads rd) \<subseteq> set (r_reads rd') \<and> set (r_writes rd) \<subseteq> set (r_writes rd')"

lemma grows_refl [simp]: "grows rd rd"
  by (simp add: grows_def)

lemma grows_trans: "grows a b \<Longrightarrow> grows b c \<Longrightarrow> grows a c"
  by (auto simp: grows_def)

lemma map_filter_mem: "w \<in> set ws \<Longrightarrow> f w = Some p \<Longrightarrow> p \<in> set (List.map_filter f ws)"
  by (force simp: List.map_filter_def)

lemma read_redirects_ok:
  assumes "read_redirects home cwd sg rd fops = (x, Some (rd', fops'))"
  shows "grows rd rd'" "outputs_recorded home cwd sg (set (r_writes rd'))"
    "fops' = (fops \<or> (\<exists>w\<in>set (s_outputs sg). w_text w \<noteq> ''/dev/null''))"
    "\<not> fops' \<Longrightarrow> r_writes rd' = r_writes rd"
proof -
  let ?outs = "filter (\<lambda>w. w_text w \<noteq> ''/dev/null'') (s_outputs sg)"
  let ?path = "\<lambda>w. resolve (w_text w) cwd home"
  let ?rd = "rd\<lparr>r_reads := r_reads rd @ List.map_filter ?path (s_inputs sg)\<rparr>"
  from assms have ok: "\<not> list_ex (\<lambda>w. w_computed w \<or> w_glob w) ?outs"
    and rd': "rd' = ?rd\<lparr>r_writes := r_writes rd @ List.map_filter ?path ?outs\<rparr>" and f: "fops' = (fops \<or> ?outs \<noteq> [])"
    by (auto simp: read_redirects_def Let_def split: if_splits)
  show "grows rd rd'" by (auto simp: rd' grows_def)
  from f show "fops' = (fops \<or> (\<exists>w\<in>set (s_outputs sg). w_text w \<noteq> ''/dev/null''))"
    by (auto simp: filter_empty_conv)
  show "\<not> fops' \<Longrightarrow> r_writes rd' = r_writes rd" by (simp add: f rd' List.map_filter_def)
  show "outputs_recorded home cwd sg (set (r_writes rd'))"
    unfolding outputs_recorded_def
  proof
    fix w assume w: "w \<in> set (s_outputs sg)"
    show "w_text w = ''/dev/null'' \<or> \<not> w_computed w \<and> \<not> w_glob w
      \<and> (unknown_home home (w_text w) \<or> (\<exists>p. ?path w = Some p \<and> p \<in> set (r_writes rd')))"
    proof (cases "w_text w = ''/dev/null''")
      case False
      with w have m: "w \<in> set ?outs" by simp
      with ok have "\<not> w_computed w \<and> \<not> w_glob w" by (auto simp: list_ex_iff)
      moreover have "?path w = Some p \<Longrightarrow> p \<in> set (r_writes rd')" for p
        using map_filter_mem [OF m, of ?path] by (simp add: rd')
      ultimately show ?thesis using resolve_None [of "w_text w" cwd home] by (cases "?path w") auto
    qed simp
  qed
qed

lemma all_paths_Some: "all_paths home cwd ws \<noteq> [] \<Longrightarrow>
  map (\<lambda>w. resolve (w_text w) cwd home) ws = map Some (all_paths home cwd ws)"
proof -
  let ?ps = "map (\<lambda>w. resolve (w_text w) cwd home) ws"
  assume "all_paths home cwd ws \<noteq> []"
  then have "list_all (\<lambda>p. p \<noteq> None) ?ps" "all_paths home cwd ws = map the ?ps"
    by (auto simp: all_paths_def Let_def split: if_splits)
  moreover have "list_all (\<lambda>p. p \<noteq> None) qs \<Longrightarrow> qs = map Some (map the qs)" for qs :: "path option list"
    by (induction qs) auto
  ultimately show ?thesis by metis
qed

lemma read_words_plain:
  assumes "read_words home cwd sg rd fops = Inr (rd', cwd', fops')" "s_words sg \<noteq> []"
  shows "plain_part sg"
  using assms by (auto simp: read_words_def plain_part_def Let_def list_ex_iff split: list.splits if_splits)

lemma plain_no_slash:
  "plain_part sg \<Longrightarrow> \<not> list_ex (\<lambda>c. c = CHR ''/'' \<or> c = backslash) (w_text (hd (s_words sg)))"
  by (auto simp: plain_part_def list_ex_iff Let_def)

lemma read_words_cd:
  assumes "cd_part sg" "read_words home cwd sg rd fops = Inr (rd', cwd', fops')"
  shows "grows rd rd'" "cwd' = folder_after home cwd sg" "fops' = fops" "r_writes rd' = r_writes rd"
proof -
  obtain first arguments where w: "s_words sg = first # arguments"
    using assms(1) by (cases "s_words sg") (auto simp: cd_part_def plain_part_def)
  with assms(1) have cd: "w_text first = ''cd'' \<or> w_text first = ''pushd''" and p: "plain_part sg"
    by (auto simp: cd_part_def)
  have "read_words home cwd sg rd fops = (case cd_target home cwd arguments of
      None \<Rightarrow> Inl (give_up rd ''The command changes to a folder it names indirectly.'')
    | Some target \<Rightarrow>
        if s_after sg \<noteq> ''&&'' \<and> s_after sg \<noteq> []
        then Inl (give_up rd ''The command changes folders between commands.'')
        else Inr (rd\<lparr>r_reads := r_reads rd @ [target]\<rparr>, target, fops))"
    using cd w p plain_no_slash [OF p] unfolding read_words_def plain_part_def Let_def by simp
  note words = this
  obtain t where t: "cd_target home cwd arguments = Some t"
    using assms(2) unfolding words by (cases "cd_target home cwd arguments") simp_all
  have r: "rd' = rd\<lparr>r_reads := r_reads rd @ [t]\<rparr>" "cwd' = t" "fops' = fops"
    using assms(2) unfolding words t option.case by (auto split: if_split_asm)
  from t w assms(1) have "folder_after home cwd sg = t" by (simp add: folder_after_def)
  with r show "grows rd rd'" "cwd' = folder_after home cwd sg" "fops' = fops" "r_writes rd' = r_writes rd"
    by (auto simp: grows_def)
qed

text \<open>A part that is neither a folder change nor empty: it reads, or it is a file command.\<close>

lemma read_words_command:
  assumes r: "read_words home cwd sg rd fops = Inr (rd', cwd', fops')" and "s_words sg \<noteq> []" "\<not> cd_part sg"
  shows "grows rd rd' \<and> cwd' = cwd \<and> (reading_part sg \<and> fops' = fops \<and> r_writes rd' = r_writes rd
      \<or> file_part sg \<and> fops' \<and> operands_recorded home cwd sg (set (r_reads rd')) (set (r_writes rd')))"
proof -
  obtain first arguments where w: "s_words sg = first # arguments" using assms(2) by (cases "s_words sg") auto
  have p: "plain_part sg" using read_words_plain [OF r assms(2)] .
  then have nocd: "w_text first \<noteq> ''cd'' \<and> w_text first \<noteq> ''pushd''" using assms(3) w by (simp add: cd_part_def)
  have ng: "\<not> list_ex (\<lambda>c. c = CHR ''/'' \<or> c = backslash) (w_text first)"
    using plain_no_slash [OF p] w by simp
  have words: "read_words home cwd sg rd fops =
    (if w_text first \<in> set read_only_core then
       (if \<not> core_reads (w_text first) arguments
        then Inl (give_up rd ''An option lets this command write or run commands.'')
        else Inr (rd\<lparr>r_reads := r_reads rd @ literal_paths home cwd arguments\<rparr>, cwd, fops))
     else if w_text first = ''git'' then
       (if \<not> git_reads arguments then Inl (give_up rd ''This git command can change the repository.'')
        else Inr (rd\<lparr>r_reads := r_reads rd @ literal_paths home cwd arguments\<rparr>, cwd, fops))
     else (case file_op_operands (w_text first) arguments of
        Some ops \<Rightarrow>
          (let paths = all_paths home cwd ops
           in if paths = [] then Inl (give_up rd ''The command names a file it cannot resolve.'')
              else if w_text first = ''cp''
              then Inr (rd\<lparr>r_reads := r_reads rd @ butlast paths, r_writes := r_writes rd @ [last paths]\<rparr>, cwd, True)
              else Inr (rd\<lparr>r_writes := r_writes rd @ paths\<rparr>, cwd, True))
      | None \<Rightarrow> Inl (give_up (rd\<lparr>r_unknown := r_unknown rd @ literal_paths home cwd arguments\<rparr>)
                 ''The command can change things.'')))"
    using p w nocd ng by (simp add: read_words_def plain_part_def Let_def)
  let ?read = "rd\<lparr>r_reads := r_reads rd @ literal_paths home cwd arguments\<rparr>"
  show ?thesis
  proof (cases "w_text first \<in> set read_only_core \<or> w_text first = ''git''")
    case True
    then have "reading_part sg \<and> Inr (?read, cwd, fops) = (Inr (rd', cwd', fops') :: shell_reading + _)"
      using r p w unfolding words reading_part_def by (auto split: if_split_asm)
    then show ?thesis by (auto simp: grows_def)
  next
    case False
    then obtain ws where ws: "file_op_operands (w_text first) arguments = Some ws"
      using r unfolding words by (cases "file_op_operands (w_text first) arguments") simp_all
    let ?paths = "all_paths home cwd ws"
    have ne: "?paths \<noteq> []" using r False unfolding words ws by (auto simp: Let_def)
    have eq: "cwd' = cwd" "fops'" "rd' = (if w_text first = ''cp''
        then rd\<lparr>r_reads := r_reads rd @ butlast ?paths, r_writes := r_writes rd @ [last ?paths]\<rparr>
        else rd\<lparr>r_writes := r_writes rd @ ?paths\<rparr>)"
      using r False ne unfolding words ws by (auto simp: Let_def split: if_split_asm)
    have "file_part sg" "grows rd rd'" using ws p w by (simp_all add: file_part_def part_operands_def grows_def eq subset_insertI)
    moreover have "operands_recorded home cwd sg (set (r_reads rd')) (set (r_writes rd'))"
      using all_paths_Some [OF ne] ne ws w by (auto simp: operands_recorded_def part_operands_def eq)
    ultimately show ?thesis using eq(1,2) by blast
  qed
qed

section \<open>All parts\<close>

definition parts_ok :: "path option \<Rightarrow> (path \<times> segment) list \<Rightarrow> shell_reading \<Rightarrow> bool" where
  "parts_ok home ps rd \<longleftrightarrow> (\<forall>(d, sg)\<in>set ps. (reading_part sg \<or> file_part sg)
     \<and> outputs_recorded home d sg (set (r_writes rd))
     \<and> operands_recorded home d sg (set (r_reads rd)) (set (r_writes rd)))"

definition writes_nothing :: "segment \<Rightarrow> bool" where
  "writes_nothing sg \<longleftrightarrow> reading_part sg \<and> (\<forall>w\<in>set (s_outputs sg). w_text w = ''/dev/null'')"

lemma outputs_recorded_mono: "outputs_recorded home d sg W \<Longrightarrow> W \<subseteq> W' \<Longrightarrow> outputs_recorded home d sg W'"
  unfolding outputs_recorded_def by blast

lemma operands_recorded_mono:
  assumes o: "operands_recorded home d sg R W" and "R \<subseteq> R'" "W \<subseteq> W'"
  shows "operands_recorded home d sg R' W'"
  unfolding operands_recorded_def
proof (intro allI impI)
  fix ops assume "file_part sg \<and> part_operands sg = Some ops"
  with o obtain paths where p: "map (\<lambda>w. resolve (w_text w) d home) ops = map Some paths" "paths \<noteq> []"
    "last paths \<in> W" "if w_text (hd (s_words sg)) = ''cp'' then set (butlast paths) \<subseteq> R else set paths \<subseteq> W"
    unfolding operands_recorded_def by blast
  show "\<exists>paths. map (\<lambda>w. resolve (w_text w) d home) ops = map Some paths \<and> paths \<noteq> [] \<and> last paths \<in> W'
    \<and> (if w_text (hd (s_words sg)) = ''cp'' then set (butlast paths) \<subseteq> R' else set paths \<subseteq> W')"
    using p assms(2,3) by (intro exI [of _ paths]) (auto split: if_splits)
qed

lemma no_operands: "part_operands sg = None \<or> \<not> file_part sg \<Longrightarrow> operands_recorded home d sg R W"
  by (auto simp: operands_recorded_def)

lemma give_up_kind [simp]: "r_kind (give_up rd why) = Other why"
  by (simp add: give_up_def)

lemma read_redirects_None: "read_redirects home cwd sg rd fops = (x, None) \<Longrightarrow> \<exists>why. r_kind x = Other why"
  by (auto simp: read_redirects_def Let_def split: if_splits)

lemma read_words_Inl: "read_words home cwd sg rd fops = Inl x \<Longrightarrow> \<exists>why. r_kind x = Other why"
  unfolding read_words_def by (fastforce simp: Let_def split: list.splits if_split_asm option.splits)

text \<open>One part that was read to its end.\<close>

lemma read_part:
  assumes "read_redirects home cwd sg rd fops = (x, Some (rd1, fops1))"
    and "read_words home cwd sg rd1 fops1 = Inr (rd2, cwd2, fops2)"
  shows "grows rd rd2" "cwd2 = folder_after home cwd sg" "reading_part sg \<or> file_part sg"
    and "outputs_recorded home cwd sg (set (r_writes rd2))"
    and "operands_recorded home cwd sg (set (r_reads rd2)) (set (r_writes rd2))"
    and "\<not> fops2 \<Longrightarrow> \<not> fops \<and> writes_nothing sg \<and> r_writes rd2 = r_writes rd"
proof -
  note red = read_redirects_ok [OF assms(1)]
  have step: "grows rd1 rd2 \<and> cwd2 = folder_after home cwd sg
      \<and> (reading_part sg \<and> \<not> file_part sg \<and> fops2 = fops1 \<and> r_writes rd2 = r_writes rd1
        \<or> file_part sg \<and> fops2 \<and> operands_recorded home cwd sg (set (r_reads rd2)) (set (r_writes rd2))
        \<or> reading_part sg \<and> fops2 = fops1 \<and> r_writes rd2 = r_writes rd1 \<and> part_operands sg = None)"
  proof (cases "s_words sg = []")
    case True
    with assms(2) have "rd2 = rd1 \<and> cwd2 = cwd \<and> fops2 = fops1" by (simp add: read_words_def)
    with True show ?thesis
      by (simp add: reading_part_def file_part_def plain_part_def folder_after_def cd_part_def)
  next
    case False
    show ?thesis
    proof (cases "cd_part sg")
      case True
      then have "part_operands sg = None"
        by (auto simp: cd_part_def part_operands_def file_op_operands_def file_ops_def)
      with read_words_cd [OF True assms(2)] True show ?thesis by (auto simp: reading_part_def)
    next
      case nocd: False
      have none: "reading_part sg \<Longrightarrow> part_operands sg = None"
        using False nocd by (auto simp: reading_part_def part_operands_def file_op_operands_def file_ops_def
          read_only_core_def)
      from read_words_command [OF assms(2) False nocd] nocd none show ?thesis
        by (auto simp: folder_after_def)
    qed
  qed
  then show g: "grows rd rd2" and "cwd2 = folder_after home cwd sg" and "reading_part sg \<or> file_part sg"
    using grows_trans [OF red(1)] by blast+
  show "outputs_recorded home cwd sg (set (r_writes rd2))"
    using outputs_recorded_mono [OF red(2)] step by (simp add: grows_def)
  show "operands_recorded home cwd sg (set (r_reads rd2)) (set (r_writes rd2))"
    using step no_operands by blast
  show "\<not> fops2 \<Longrightarrow> \<not> fops \<and> writes_nothing sg \<and> r_writes rd2 = r_writes rd"
    using step red(3,4) unfolding writes_nothing_def by auto
qed

lemma read_segments_ok:
  assumes "\<forall>why. r_kind (read_segments home sgs cwd rd fops) \<noteq> Other why" "r_kind rd = ReadOnly"
  defines "rd' \<equiv> read_segments home sgs cwd rd fops"
  shows "parts_ok home (placed home cwd sgs) rd' \<and> r_unknown rd' = r_unknown rd
    \<and> set (r_reads rd) \<subseteq> set (r_reads rd') \<and> set (r_writes rd) \<subseteq> set (r_writes rd')
    \<and> (r_kind rd' = ReadOnly \<longrightarrow> \<not> fops \<and> r_writes rd' = r_writes rd \<and> list_all writes_nothing sgs)"
  using assms(1,2) unfolding assms(3)
proof (induction sgs arbitrary: cwd rd fops)
  case Nil
  then show ?case by (auto simp: parts_ok_def)
next
  case (Cons sg sgs)
  obtain x o1 where red: "read_redirects home cwd sg rd fops = (x, o1)" by fastforce
  with Cons.prems read_redirects_None obtain rd1 fops1 where o1: "o1 = Some (rd1, fops1)"
    by (cases o1) (auto, blast)
  obtain rd2 cwd2 fops2 where words: "read_words home cwd sg rd1 fops1 = Inr (rd2, cwd2, fops2)"
    using Cons.prems red o1 read_words_Inl by (cases "read_words home cwd sg rd1 fops1") (auto, blast)
  note part = read_part [OF red [unfolded o1] words]
  let ?rest = "read_segments home sgs cwd2 rd2 fops2"
  have eq: "read_segments home (sg # sgs) cwd rd fops = ?rest" using red o1 words by simp
  have k: "r_kind rd2 = ReadOnly" using part(1) Cons.prems(2) by (simp add: grows_def)
  have ih: "parts_ok home (placed home cwd2 sgs) ?rest" "r_unknown ?rest = r_unknown rd2"
    "set (r_reads rd2) \<subseteq> set (r_reads ?rest)" "set (r_writes rd2) \<subseteq> set (r_writes ?rest)"
    "r_kind ?rest = ReadOnly \<longrightarrow> \<not> fops2 \<and> r_writes ?rest = r_writes rd2 \<and> list_all writes_nothing sgs"
    using Cons.IH [OF _ k] Cons.prems(1) unfolding eq by blast+
  have "parts_ok home (placed home cwd (sg # sgs)) ?rest"
    using ih(1) part(2,3) outputs_recorded_mono [OF part(4) ih(4)] operands_recorded_mono [OF part(5) ih(3,4)]
    by (simp add: parts_ok_def)
  with ih part(1,6) show ?case unfolding eq by (auto simp: grows_def)
qed

section \<open>Paths of a reading\<close>

lemma normalize_normal:
  assumes "absolute_path p"
  shows "normal_path (normalize p)"
proof -
  let ?step = "\<lambda>acc c. case c of CurDir \<Rightarrow> acc | ParentDir \<Rightarrow> pop acc | _ \<Rightarrow> push_component acc c"
  have fold: "RootDir \<notin> set q \<Longrightarrow> normal_path acc \<Longrightarrow> normal_path (foldl ?step acc q)" for q acc
    by (induction q arbitrary: acc) (auto simp: normal_pop normal_push split: component.splits)
  from assms obtain q where "p = RootDir # q" "RootDir \<notin> set q" by (auto simp: absolute_path_def)
  with fold [of q "[RootDir]"] show ?thesis by (simp add: normalize_def push_component_def normal_path_def)
qed

definition normal_home :: "path option \<Rightarrow> bool" where
  "normal_home home = (case home of None \<Rightarrow> True | Some h \<Rightarrow> normal_path h)"

lemma resolve_normal:
  assumes "normal_path cwd" "normal_home home" "resolve w cwd home = Some p"
  shows "normal_path p"
  using assms normalize_normal absolute_join normal_absolute
  by (auto simp: resolve_def normal_home_def split: if_splits option.splits)

definition paths_normal :: "shell_reading \<Rightarrow> bool" where
  "paths_normal rd = list_all normal_path (r_reads rd @ r_writes rd @ r_unknown rd)"

lemma paths_normal_update:
  "paths_normal rd \<Longrightarrow> list_all normal_path ps \<Longrightarrow> paths_normal (rd\<lparr>r_reads := r_reads rd @ ps\<rparr>)"
  "paths_normal rd \<Longrightarrow> list_all normal_path ps \<Longrightarrow> paths_normal (rd\<lparr>r_writes := r_writes rd @ ps\<rparr>)"
  "paths_normal rd \<Longrightarrow> list_all normal_path ps \<Longrightarrow> paths_normal (rd\<lparr>r_unknown := r_unknown rd @ ps\<rparr>)"
  "paths_normal (rd\<lparr>r_kind := k\<rparr>) = paths_normal rd"
  by (simp_all add: paths_normal_def)

lemma paths_normal_give_up [simp]: "paths_normal (give_up rd why) = paths_normal rd"
  by (simp add: give_up_def paths_normal_update(4))

text \<open>Every list of paths the reader adds is normal when the folder and the home are.\<close>

lemma resolved_normal:
  assumes "normal_path cwd" "normal_home home"
  shows "list_all normal_path (List.map_filter (\<lambda>w. resolve (w_text w) cwd home) ws)"
    and "list_all normal_path (literal_paths home cwd ws)" and "list_all normal_path (all_paths home cwd ws)"
    and "cd_target home cwd ws = Some t \<Longrightarrow> normal_path t"
proof -
  note r = resolve_normal [OF assms]
  show mf: "list_all normal_path (List.map_filter (\<lambda>w. resolve (w_text w) cwd home) ws)" for ws
    using r by (auto simp: List.map_filter_def list_all_iff)
  show "list_all normal_path (literal_paths home cwd ws)" unfolding literal_paths_def by (rule mf)
  show "list_all normal_path (all_paths home cwd ws)"
    using r by (fastforce simp: all_paths_def Let_def list_all_iff)
  show "cd_target home cwd ws = Some t \<Longrightarrow> normal_path t"
    using r assms(2) by (auto simp: cd_target_def normal_home_def split: list.splits if_splits)
qed

lemma read_redirects_normal:
  assumes "normal_path cwd" "normal_home home" "paths_normal rd" "read_redirects home cwd sg rd fops = (x, o1)"
  shows "paths_normal x" "o1 = Some (rd1, fops1) \<Longrightarrow> paths_normal rd1"
  using assms(3,4) resolved_normal(1) [OF assms(1,2)]
  by (auto simp: read_redirects_def Let_def paths_normal_def give_up_def split: if_splits)

lemma list_all_butlast_last: "list_all P xs \<Longrightarrow> xs \<noteq> [] \<Longrightarrow> list_all P (butlast xs) \<and> P (last xs)"
  by (auto simp: list_all_iff dest: in_set_butlastD)

definition outcome_normal :: "shell_reading + shell_reading \<times> path \<times> bool \<Rightarrow> bool" where
  "outcome_normal r = (case r of Inl x \<Rightarrow> paths_normal x | Inr (rd, cwd, _) \<Rightarrow> paths_normal rd \<and> normal_path cwd)"

lemma outcome_normal_simps [simp]:
  "outcome_normal (Inl x) = paths_normal x"
  "outcome_normal (Inr (rd, cwd, f)) = (paths_normal rd \<and> normal_path cwd)"
  by (simp_all add: outcome_normal_def)

lemma read_words_normal:
  assumes "normal_path cwd" "normal_home home" "paths_normal rd"
  shows "outcome_normal (read_words home cwd sg rd fops)"
proof -
  note n = resolved_normal [OF assms(1,2)]
  have cp: "all_paths home cwd ws \<noteq> [] \<Longrightarrow> paths_normal (rd\<lparr>r_reads := r_reads rd @ butlast (all_paths home cwd ws),
      r_writes := r_writes rd @ [last (all_paths home cwd ws)]\<rparr>)" for ws
    using list_all_butlast_last [OF n(3)] assms(3) by (simp add: paths_normal_def)
  have cd: "cd_target home cwd ws = Some t \<Longrightarrow> paths_normal (rd\<lparr>r_reads := r_reads rd @ [t]\<rparr>) \<and> normal_path t" for ws t
    using n(4) assms(3) by (simp add: paths_normal_def)
  show ?thesis unfolding read_words_def
    using assms cp cd paths_normal_update(1-3) [OF assms(3)] n(2,3)
    by (simp add: Let_def split: list.split option.split)
qed

lemma read_segments_normal:
  assumes "normal_path cwd" "normal_home home" "paths_normal rd"
  shows "paths_normal (read_segments home sgs cwd rd fops)"
  using assms
proof (induction sgs arbitrary: cwd rd fops)
  case Nil
  then show ?case by (simp add: paths_normal_update(4))
next
  case (Cons sg sgs)
  obtain x o1 where red: "read_redirects home cwd sg rd fops = (x, o1)" by fastforce
  note rn = read_redirects_normal [OF Cons.prems red]
  show ?case
  proof (cases o1)
    case None
    with rn(1) red show ?thesis by simp
  next
    case (Some p)
    obtain rd1 fops1 where p: "o1 = Some (rd1, fops1)" using Some by (cases p) simp
    have w: "outcome_normal (read_words home cwd sg rd1 fops1)"
      using read_words_normal [OF Cons.prems(1,2) rn(2) [OF p]] .
    show ?thesis
    proof (cases "read_words home cwd sg rd1 fops1")
      case (Inl x)
      with w red p show ?thesis by simp
    next
      case (Inr t)
      obtain rd2 cwd2 fops2 where t: "t = (rd2, cwd2, fops2)" by (cases t)
      with w Inr Cons.IH [OF _ Cons.prems(2), of cwd2 rd2 fops2] red p show ?thesis by simp
    qed
  qed
qed

section \<open>Properties\<close>

lemma read_command_ok:
  assumes "\<forall>why. r_kind (read_command command cwd home) \<noteq> Other why"
  obtains sgs where "Option.bind (tokenize command) segments = Some sgs"
    "read_command command cwd home = read_segments home sgs cwd empty_reading False"
  using assms by (cases "Option.bind (tokenize command) segments") (simp_all add: read_command_def)

lemma read_command_unknown:
  "r_kind (read_command command cwd home) \<in> {ReadOnly, FileOps} \<Longrightarrow> r_unknown (read_command command cwd home) = []
    \<and> (r_kind (read_command command cwd home) = ReadOnly \<longrightarrow> r_writes (read_command command cwd home) = [])"
proof -
  assume k: "r_kind (read_command command cwd home) \<in> {ReadOnly, FileOps}"
  then have no: "\<forall>why. r_kind (read_command command cwd home) \<noteq> Other why" by auto
  then obtain sgs where "Option.bind (tokenize command) segments = Some sgs"
    and rc: "read_command command cwd home = read_segments home sgs cwd empty_reading False"
    by (rule read_command_ok)
  from read_segments_ok [OF no [unfolded rc]] show ?thesis
    unfolding rc by (simp add: empty_reading_def)
qed

text \<open>C13: A command read as read-only is one the reader followed to its end: it names no path as
  written or of unknown use, and each of its parts is empty, changes folder, or is a plainly named
  program of the read-only list whose options keep it reading (or a reading git command), with no
  output but to \<open>/dev/null\<close>.\<close>

theorem read_only_sound:
  assumes "r_kind (read_command command cwd home) = ReadOnly"
  shows "r_writes (read_command command cwd home) = [] \<and> r_unknown (read_command command cwd home) = []
    \<and> (\<exists>sgs. Option.bind (tokenize command) segments = Some sgs \<and> list_all writes_nothing sgs)"
proof -
  have no: "\<forall>why. r_kind (read_command command cwd home) \<noteq> Other why" using assms by simp
  then obtain sgs where sgs: "Option.bind (tokenize command) segments = Some sgs"
    and rc: "read_command command cwd home = read_segments home sgs cwd empty_reading False"
    by (rule read_command_ok)
  from read_segments_ok [OF no [unfolded rc]] assms show ?thesis
    unfolding rc by (simp add: empty_reading_def sgs)
qed

text \<open>C12: A command read as a file command is made of reading parts and file operations only and names no
  path of unknown use. From the folder the reader places each part in, every operand of every file operation resolves to
  a path of the reading: written, or read for the sources of a copy. Every output redirect the tokenizer found names its
  file plainly, and resolves to a written path of the reading unless it begins in a home the reader does not know
  (another user's, or its own when it has none), which the reading leaves out.\<close>

theorem file_ops_sound:
  assumes "r_kind (read_command command cwd home) = FileOps"
  shows "r_unknown (read_command command cwd home) = []
    \<and> (\<exists>sgs. Option.bind (tokenize command) segments = Some sgs
        \<and> parts_ok home (placed home cwd sgs) (read_command command cwd home))"
proof -
  have no: "\<forall>why. r_kind (read_command command cwd home) \<noteq> Other why" using assms by simp
  then obtain sgs where sgs: "Option.bind (tokenize command) segments = Some sgs"
    and rc: "read_command command cwd home = read_segments home sgs cwd empty_reading False"
    by (rule read_command_ok)
  from read_segments_ok [OF no [unfolded rc]] assms show ?thesis
    unfolding rc by (simp add: empty_reading_def sgs)
qed

text \<open>Every path of a reading is absolute and holds no \<open>.\<close> and no \<open>..\<close>, when the command's folder
  and the user's home are such paths: a command cannot name a file in a form the gate's folder
  comparisons would miss.\<close>

theorem reading_paths_normal:
  assumes "normal_path cwd" "normal_home home"
  shows "paths_normal (read_command command cwd home)"
  using read_segments_normal [OF assms]
  by (cases "Option.bind (tokenize command) segments")
    (simp_all add: read_command_def paths_normal_def give_up_def empty_reading_def)

section \<open>Witnesses\<close>

theorem read_only_sound_witness:
  "\<exists>sgs. Option.bind (tokenize ''cat a | wc 2> /dev/null'') segments = Some sgs \<and> length sgs = 2
     \<and> list_all writes_nothing sgs"
proof -
  have "r_kind (read_command ''cat a | wc 2> /dev/null'' [RootDir] None) = ReadOnly" by code_simp
  moreover have "map_option length (Option.bind (tokenize ''cat a | wc 2> /dev/null'') segments) = Some 2"
    by code_simp
  ultimately show ?thesis using read_only_sound [of "''cat a | wc 2> /dev/null''" "[RootDir]" None] by auto
qed

abbreviation work_folder :: path where
  "work_folder \<equiv> [RootDir, Normal ''w'']"

theorem file_ops_sound_witness:
  "r_writes (read_command ''cd s && mv a ../b > l'' work_folder None)
     = [[RootDir, Normal ''w'', Normal ''s'', Normal ''l''], [RootDir, Normal ''w'', Normal ''s'', Normal ''a''],
        [RootDir, Normal ''w'', Normal ''b'']]
   \<and> (\<exists>sgs. parts_ok None (placed None work_folder sgs) (read_command ''cd s && mv a ../b > l'' work_folder None)
        \<and> length sgs = 2)"
proof -
  have k: "r_kind (read_command ''cd s && mv a ../b > l'' work_folder None) = FileOps" by code_simp
  have l: "map_option length (Option.bind (tokenize ''cd s && mv a ../b > l'') segments) = Some 2" by code_simp
  have w: "r_writes (read_command ''cd s && mv a ../b > l'' work_folder None)
     = [[RootDir, Normal ''w'', Normal ''s'', Normal ''l''], [RootDir, Normal ''w'', Normal ''s'', Normal ''a''],
        [RootDir, Normal ''w'', Normal ''b'']]" by code_simp
  from l w file_ops_sound [OF k] show ?thesis by auto
qed

theorem reading_paths_normal_witness:
  "paths_normal (read_command ''cat ../../x > ./y'' work_folder None)
   \<and> r_reads (read_command ''cat ../../x > ./y'' work_folder None) = [[RootDir, Normal ''x'']]"
proof -
  have "normal_path work_folder" "normal_home None"
    using normal_pathI [of "[''w'']"] by (simp_all add: normal_home_def)
  moreover have "r_reads (read_command ''cat ../../x > ./y'' work_folder None) = [[RootDir, Normal ''x'']]" by code_simp
  ultimately show ?thesis using reading_paths_normal by blast
qed

section \<open>Commands the reader misreads\<close>

text \<open>The reader's folder after \<open>cd x &&\<close> outlives the \<open>&&\<close> list: in \<open>cd x && ls; rm y\<close> the \<open>rm\<close>
  also runs when the \<open>cd\<close> failed, in the first folder, and the reading holds only the path from the
  second. It also takes \<open>>&\<close> with a file name for a copy of a file descriptor, so a command that
  writes the file reads as read-only; and an output to another user's home writes a file the
  reading does not hold.\<close>

theorem misread_commands:
  "r_kind (read_command ''cd x && ls; rm y'' work_folder None) = FileOps
   \<and> r_writes (read_command ''cd x && ls; rm y'' work_folder None) = [[RootDir, Normal ''w'', Normal ''x'', Normal ''y'']]
   \<and> r_kind (read_command ''echo a >&y'' work_folder None) = ReadOnly
   \<and> r_kind (read_command ''echo a > ~u/y'' work_folder None) = FileOps
   \<and> r_writes (read_command ''echo a > ~u/y'' work_folder None) = []"
  by (intro conjI) code_simp+

end
