(* ===== verification/Gate_Safety.thy ===== *)
theory Gate_Safety
  imports Permission_Gate Shell_Safety
begin

text \<open>
  What the permission gate promises: the requests it forms are exact policy resources, which calls
  each mode runs without asking, and what a shell command that runs without asking can touch.
\<close>

section \<open>Requests\<close>

lemma good_names_normalize:
  assumes "good_names p"
  shows "good_names (normalize p)"
proof -
  let ?step = "\<lambda>acc c. case c of CurDir \<Rightarrow> acc | ParentDir \<Rightarrow> pop acc | _ \<Rightarrow> push_component acc c"
  have fold: "good_names q \<Longrightarrow> good_names acc \<Longrightarrow> good_names (foldl ?step acc q)" for q acc
  proof (induction q arbitrary: acc)
    case (Cons c q)
    have q: "good_names q" "good_names [c]" using Cons.prems(1) by (simp_all add: good_names_def)
    have "good_names (?step acc c)"
    proof (cases c)
      case ParentDir
      with Cons.prems(2) show ?thesis by (simp add: good_names_pop)
    qed (use Cons.prems(2) q(2) in \<open>simp_all add: good_names_def push_component_def\<close>)
    with Cons.IH [OF q(1)] show ?case by simp
  qed simp
  show ?thesis unfolding normalize_def by (rule fold [OF assms]) (simp add: good_names_def)
qed

lemma absolute_text:
  assumes "absolute_path folder" "good_names folder"
  shows "components (absolute folder s) = normalize (join folder s)" "canonical_absolute_path (absolute folder s)"
proof -
  have n: "normal_path (normalize (join folder s))" using normalize_normal [OF absolute_join [OF assms(1)]] .
  have g: "good_names (normalize (join folder s))" using good_names_normalize [OF good_names_join [OF assms(2)]] .
  note c = components_path_string [OF n g]
  show "components (absolute folder s) = normalize (join folder s)" using c(1) by (simp add: absolute_def)
  have "\<not> list_ex (\<lambda>c. c = CurDir \<or> c = ParentDir) (normalize (join folder s))"
    using n by (auto simp: normal_path_def list_ex_iff)
  with c show "canonical_absolute_path (absolute folder s)"
    by (auto simp: canonical_absolute_path_def absolute_def is_absolute_def starts_with_def)
qed

lemma tool_request_cases:
  "(\<exists>command. input_field input [''command''] = Some command
      \<and> tool_request tool input folder = \<lparr>q_kind = KCommand, q_resource = RCommand [tool, command] (absolute folder ''.'')\<rparr>)
   \<or> (\<exists>s. input_field input [''path'', ''file_path''] = Some s
      \<and> tool_request tool input folder = \<lparr>q_kind = KPath, q_resource = RPath (absolute folder s) tool\<rparr>)
   \<or> tool_request tool input folder = \<lparr>q_kind = KTool, q_resource = RTool tool input\<rparr>"
  unfolding tool_request_def Let_def by (simp del: input_field.simps split: option.split)

text \<open>The request a tool call makes is always an exact policy resource: an absolute path with no \<open>.\<close>
  and no \<open>..\<close>, an argument vector with an absolute working folder, or a named tool; and a file
  tool's request names the path its argument resolves to from the working folder.\<close>

theorem tool_request_valid:
  assumes "absolute_path folder" "good_names folder"
    and "trim tool \<noteq> []" "length tool \<le> 256" "\<not> list_ex is_control (utf8_chars tool)" "CHR 0x00 \<notin> set tool"
    and "\<And>command. input_field input [''command''] = Some command \<Longrightarrow> CHR 0x00 \<notin> set command"
  shows "valid_policy_resource (q_kind (tool_request tool input folder)) (q_resource (tool_request tool input folder))
    \<and> (\<forall>path operation. q_resource (tool_request tool input folder) = RPath path operation
        \<longrightarrow> (\<exists>s. input_field input [''path'', ''file_path''] = Some s \<and> components path = normalize (join folder s)
             \<and> normal_path (components path)))"
proof -
  have ne: "tool \<noteq> []" using assms(3) by (auto simp: trim_def trim_start_def trim_end_def)
  note abs = absolute_text [OF assms(1,2)] normalize_normal [OF absolute_join [OF assms(1)]]
  from tool_request_cases [of input tool folder] show ?thesis
  proof (elim disjE exE conjE)
    fix command assume "input_field input [''command''] = Some command"
      "tool_request tool input folder = \<lparr>q_kind = KCommand, q_resource = RCommand [tool, command] (absolute folder ''.'')\<rparr>"
    with assms(6,7) ne abs(2) show ?thesis by simp
  next
    fix s assume "input_field input [''path'', ''file_path''] = Some s"
      "tool_request tool input folder = \<lparr>q_kind = KPath, q_resource = RPath (absolute folder s) tool\<rparr>"
    with assms(3) abs show ?thesis by simp
  next
    assume "tool_request tool input folder = \<lparr>q_kind = KTool, q_resource = RTool tool input\<rparr>"
    with assms(3-5) show ?thesis by simp
  qed
qed

section \<open>Modes\<close>

lemma gate_allows_spec:
  "fst (decide_tool_call canon print model p mode0 request tool hint rv) = Allow \<longleftrightarrow>
     (let mode = mode_for p (Some mode0); a = assess canon p request tool hint
      in \<not> a_critical a
         \<and> (mode = Bypass
            \<or> \<not> a_protected a
              \<and> (a_class a = Read \<or> mode = EditAuto \<and> a_class a = Edit True
                 \<or> mode = Auto \<and> fst (review model rv (exact_summary print request)) = ReviewAllow)))"
proof -
  let ?m = "mode_for p (Some mode0)" and ?a = "assess canon p request tool hint"
  have "changes Read = False" by simp
  then show ?thesis
    unfolding decide_tool_call_def Let_def
    by (cases ?m; cases "review model rv (exact_summary print request)"; cases "a_class ?a")
      (auto split: review_outcome.splits)
qed

text \<open>The modes are ordered: what the strict modes run without asking, manual runs too; what manual
  runs, edit-auto and auto run too; what any mode but auto runs, bypass runs too. In don't-ask mode
  no call ever asks, and in plan mode no call that changes something runs or asks.\<close>

theorem modes_ordered:
  fixes canon print model p request tool hint rv
  defines "decide \<equiv> \<lambda>mode. fst (decide_tool_call canon print model p mode request tool hint rv)"
  shows "(decide DontAsk = Allow \<longleftrightarrow> decide Manual = Allow) \<and> (decide Plan = Allow \<longleftrightarrow> decide Manual = Allow)
    \<and> (decide Manual = Allow \<longrightarrow> decide EditAuto = Allow \<and> decide Auto = Allow)
    \<and> (p_bypass_enabled p \<and> decide EditAuto = Allow \<longrightarrow> decide Bypass = Allow)
    \<and> (\<not> p_bypass_enabled p \<longrightarrow> decide Bypass = decide Manual)
    \<and> (\<forall>why. decide DontAsk \<noteq> Ask why)
    \<and> (changes (a_class (assess canon p request tool hint)) \<longrightarrow> decide Plan = Deny plan_refusal)"
proof -
  let ?a = "assess canon p request tool hint"
  have m: "mode_for p (Some m) = (if m = Bypass \<and> \<not> p_bypass_enabled p then Manual else m)" for m
    by (simp add: mode_for_def)
  have allow: "decide m = Allow \<longleftrightarrow> (let mode = mode_for p (Some m)
      in \<not> a_critical ?a \<and> (mode = Bypass \<or> \<not> a_protected ?a \<and> (a_class ?a = Read
        \<or> mode = EditAuto \<and> a_class ?a = Edit True
        \<or> mode = Auto \<and> fst (review model rv (exact_summary print request)) = ReviewAllow)))" for m
    unfolding decide_def gate_allows_spec by (simp add: Let_def)
  have bypass: "\<not> p_bypass_enabled p \<Longrightarrow> decide Bypass = decide Manual"
    by (simp add: decide_def decide_tool_call_def mode_for_def)
  have "\<forall>why. decide DontAsk \<noteq> Ask why"
    unfolding decide_def decide_tool_call_def Let_def by (simp add: m)
  moreover have "changes (a_class ?a) \<Longrightarrow> decide Plan = Deny plan_refusal"
    unfolding decide_def decide_tool_call_def Let_def by (simp add: m)
  moreover have "(decide DontAsk = Allow \<longleftrightarrow> decide Manual = Allow) \<and> (decide Plan = Allow \<longleftrightarrow> decide Manual = Allow)
    \<and> (decide Manual = Allow \<longrightarrow> decide EditAuto = Allow \<and> decide Auto = Allow)
    \<and> (p_bypass_enabled p \<and> decide EditAuto = Allow \<longrightarrow> decide Bypass = Allow)"
    unfolding allow by (simp add: m Let_def)
  ultimately show ?thesis using bypass by blast
qed

section \<open>Shell commands\<close>

text \<open>The request of a \<open>bash\<close> call, from a folder that is an absolute path of plain names.\<close>

definition bash_request :: "string \<Rightarrow> path \<Rightarrow> policy_request" where
  "bash_request command folder = tool_request ''bash'' (JObject [(''command'', JString command)]) folder"






section \<open>File tools\<close>

text \<open>Where a path leads: as the file system resolves its nearest existing parent.\<close>

definition real_path :: "(path \<Rightarrow> path option) \<Rightarrow> path \<Rightarrow> path" where
  "real_path canon q = resolve_existing canon q (rev q) []"

definition below :: "path \<Rightarrow> path \<Rightarrow> bool" where
  "below q folder \<longleftrightarrow> (\<exists>rest. q = folder @ rest \<and> rest \<noteq> [])"

definition at_or_below :: "path \<Rightarrow> path \<Rightarrow> bool" where
  "at_or_below q folder \<longleftrightarrow> (\<exists>rest. q = folder @ rest)"

lemma path_starts: "path_starts_with q folder \<longleftrightarrow> at_or_below q folder" "path_starts_with q folder \<and> q \<noteq> folder \<longleftrightarrow> below q folder"
  by (auto simp: path_starts_with_def starts_with_iff at_or_below_def below_def)

text \<open>Files of the workspace's \<open>.git\<close> and \<open>.muniment\<close> folders, MCP settings and shell startup files.\<close>

definition control_file :: "path \<Rightarrow> bool" where
  "control_file q \<longleftrightarrow> Normal ''.git'' \<in> set q \<or> Normal ''.muniment'' \<in> set q
     \<or> (\<exists>folder name. q = folder @ [Normal name] \<and> name \<in> set mcp_config_files \<union> set shell_rc_files)"

lemma control_file_protected: "control_file q \<Longrightarrow> protected_form q"
proof -
  have "Normal n \<in> set q \<Longrightarrow> n \<in> set protected_folders \<Longrightarrow> protected_form q" for n
    by (auto simp: protected_form_def list_ex_iff intro!: bexI [of _ "Normal n"])
  then show "control_file q \<Longrightarrow> protected_form q"
    by (auto simp: control_file_def protected_form_def protected_folders_def file_name_def)
qed

text \<open>A state folder of the program that is no part of the workspace.\<close>

definition in_state :: "(path \<Rightarrow> path option) \<Rightarrow> run_permissions \<Rightarrow> path \<Rightarrow> bool" where
  "in_state canon p q \<longleftrightarrow> (\<exists>root\<in>set (p_protected_roots p). at_or_below q root \<or> at_or_below q (real_path canon root))
     \<and> \<not> (\<exists>folder\<in>set (p_working_directories p). at_or_below q folder \<or> at_or_below q (real_path canon folder))"

lemma in_state_protected: "q \<in> {path, real_path canon path} \<Longrightarrow> in_state canon p q \<Longrightarrow> in_protected_root canon p path"
  unfolding in_state_def in_protected_root_def in_workspace_def path_forms_def real_path_def [symmetric] path_starts
  by (auto simp: list_ex_iff)

lemma inside_below:
  "inside_workspace canon p q \<longleftrightarrow> (\<exists>folder\<in>set (p_working_directories p). below q folder \<and> below (real_path canon q) (real_path canon folder))"
  by (auto simp: inside_workspace_def list_ex_iff given_form_def resolved_form_def path_forms_def real_path_def path_starts(2) [symmetric] simp del: resolve_existing.simps)

text \<open>C9: A file tool call that runs without asking touches only what its mode may. With bypass off or not chosen, a write
  or edit of a path is let through only when neither the path it resolves to from the working folder nor where that
  leads on disk is a control file or in a state folder of the program outside the workspace; and then either the mode is
  edit-auto and both lie strictly below one working folder, as given and on disk, or the mode is auto.\<close>

theorem file_edits_confined:
  assumes "absolute_path folder" "good_names folder" "tool \<in> {''write'', ''edit''}"
    and "input_field input [''path'', ''file_path''] = Some s"
    and "mode \<noteq> Bypass \<or> \<not> p_bypass_enabled p"
    and "fst (decide_tool_call canon print model p mode (tool_request tool input folder) tool hint rv) = Allow"
  defines "path \<equiv> normalize (join folder s)"
  shows "(\<forall>q\<in>{path, real_path canon path}. \<not> control_file q \<and> \<not> in_state canon p q)
    \<and> (mode = EditAuto \<and> (\<exists>w\<in>set (p_working_directories p). below path w \<and> below (real_path canon path) (real_path canon w))
       \<or> mode = Auto)"
proof -
  have mode: "mode_for p (Some mode) \<noteq> Bypass" "mode_for p (Some mode) \<in> {EditAuto, Auto} \<Longrightarrow> mode_for p (Some mode) = mode"
    using assms(5) by (auto simp: mode_for_def split: if_splits)
  have "q_resource (tool_request tool input folder) = RPath (absolute folder s) tool" "tool \<notin> set web_tools"
    "tool \<notin> set [''read'', ''ls'', ''find'', ''grep'']"
    using assms(3,4) by (auto simp: tool_request_def Let_def web_tools_def)
  with assms(3) have a: "assess canon p (tool_request tool input folder) tool hint
      = \<lparr>a_class = Edit (inside_workspace canon p path), a_protected = protected_write canon p path, a_critical = False\<rparr>"
    by (auto simp: assess_def assess_path_def absolute_text(1) [OF assms(1,2)] path_def)
  from assms(6) mode have np: "\<not> protected_write canon p path"
    and m: "mode = EditAuto \<and> inside_workspace canon p path \<or> mode = Auto"
    unfolding gate_allows_spec a Let_def by auto
  have "\<not> control_file q \<and> \<not> in_state canon p q" if "q \<in> {path, real_path canon path}" for q
    using np that control_file_protected [of q] in_state_protected [OF that, of p]
    by (auto simp: protected_write_def path_forms_def real_path_def simp del: resolve_existing.simps)
  with m show ?thesis unfolding inside_below by blast
qed

section \<open>Witnesses\<close>

text \<open>A run in \<open>/w\<close> with its state under \<open>/h/.muniment\<close>, on a file system without links.\<close>

definition sample_run :: run_permissions where
  "sample_run = \<lparr>p_mode = Manual, p_event_triggered = False, p_working_directories = [work_folder],
     p_protected_roots = [[RootDir, Normal ''h'', Normal ''.muniment'']], p_home = Some [RootDir, Normal ''h''],
     p_bypass_enabled = False\<rparr>"

definition sample_reviewer :: reviewer where
  "sample_reviewer = \<lparr>rw_ask = (\<lambda>_. Inl ''offline''), rw_from_str = (\<lambda>_. None)\<rparr>"

lemma work_folder_ok: "normal_path work_folder" "good_names work_folder" "absolute_path work_folder"
  using normal_pathI [of "[''w'']"] normal_absolute by (auto simp: good_names_def good_name_def)

theorem tool_request_valid_witness:
  "valid_policy_resource (q_kind (tool_request ''write'' (JObject [(''path'', JString ''../n'')]) work_folder))
     (q_resource (tool_request ''write'' (JObject [(''path'', JString ''../n'')]) work_folder))"
proof -
  have "trim ''write'' \<noteq> []" "length ''write'' \<le> 256" "\<not> list_ex is_control (utf8_chars ''write'')"
    "CHR 0x00 \<notin> set ''write''" "input_field (JObject [(''path'', JString ''../n'')]) [''command''] = None"
    by code_simp+
  with tool_request_valid [OF work_folder_ok(3,2), of "''write''" "JObject [(''path'', JString ''../n'')]"]
  show ?thesis by simp
qed

theorem modes_ordered_witness:
  "fst (decide_tool_call Some (\<lambda>_. []) sample_reviewer sample_run Plan (bash_request ''mv a b'' work_folder) ''bash''
     False (review_new True [] False)) = Deny plan_refusal"
proof -
  have "changes (a_class (assess Some sample_run (bash_request ''mv a b'' work_folder) ''bash'' False))" by code_simp
  with modes_ordered [where canon = Some and p = sample_run and request = "bash_request ''mv a b'' work_folder"
      and tool = "''bash''" and hint = False] show ?thesis by blast
qed

theorem file_edits_confined_witness:
  "fst (decide_tool_call Some (\<lambda>_. []) sample_reviewer sample_run EditAuto
       (tool_request ''write'' (JObject [(''path'', JString ''a'')]) work_folder) ''write'' False (review_new True [] False)) = Allow
   \<and> below (normalize (join work_folder ''a'')) work_folder \<and> \<not> control_file (normalize (join work_folder ''a''))"
proof -
  have a: "fst (decide_tool_call Some (\<lambda>_. []) sample_reviewer sample_run EditAuto
       (tool_request ''write'' (JObject [(''path'', JString ''a'')]) work_folder) ''write'' False (review_new True [] False)) = Allow"
    by code_simp
  have f: "input_field (JObject [(''path'', JString ''a'')]) [''path'', ''file_path''] = Some ''a''" by code_simp
  from file_edits_confined [OF work_folder_ok(3,2) _ f _ a] a show ?thesis by (simp add: sample_run_def)
qed


section \<open>Commands the gate lets through\<close>

text \<open>The reader's gaps reach the gate. In every mode, with bypass off, the gate runs without asking a
  command that writes into \<open>.git\<close> through \<open>>&\<close>, and one that reads a protected file through a
  variable, though it stops the same files named plainly; and in edit-auto mode it runs a command
  that writes a shell startup file of a home named by its user.\<close>

theorem gate_misses:
  "(\<forall>mode. fst (decide_tool_call Some (\<lambda>_. []) sample_reviewer sample_run mode
       (bash_request ''echo a >&.git/c'' work_folder) ''bash'' False rv) = Allow)
   \<and> (\<forall>mode. fst (decide_tool_call Some (\<lambda>_. []) sample_reviewer sample_run mode
       (bash_request ''cat $HOME/.muniment/t'' work_folder) ''bash'' False rv) = Allow)
   \<and> (\<forall>mode. fst (decide_tool_call Some (\<lambda>_. []) sample_reviewer sample_run mode
       (bash_request ''cat ~/.muniment/t'' work_folder) ''bash'' False rv) \<noteq> Allow)
   \<and> fst (decide_tool_call Some (\<lambda>_. []) sample_reviewer sample_run EditAuto
       (bash_request ''echo a > ~u/.bashrc'' work_folder) ''bash'' False rv) = Allow"
proof -
  have m: "mode_for sample_run (Some mode) \<noteq> Bypass" for mode by (simp add: mode_for_def sample_run_def)
  have "assess Some sample_run (bash_request ''echo a >&.git/c'' work_folder) ''bash'' False = plain Read" by code_simp
  moreover have "assess Some sample_run (bash_request ''cat $HOME/.muniment/t'' work_folder) ''bash'' False = plain Read"
    by code_simp
  moreover have "a_protected (assess Some sample_run (bash_request ''cat ~/.muniment/t'' work_folder) ''bash'' False)"
    by code_simp
  moreover have "assess Some sample_run (bash_request ''echo a > ~u/.bashrc'' work_folder) ''bash'' False
      = plain (Edit True)" by code_simp
  moreover have "mode_for sample_run (Some EditAuto) = EditAuto" by (simp add: mode_for_def)
  ultimately show ?thesis unfolding gate_allows_spec Let_def using m by (simp add: plain_def)
qed

end
