(* ===== verification/Settings_Scope.thy ===== *)
theory Settings_Scope
  imports Json
begin

text \<open>
  Where each part of the settings keeps its values (\<open>settings_scope.rs\<close>): shared by fleet sync, kept
  on each machine, or kept on this computer; and the refusal of a save for every machine that
  changes a setting which stays on one.
\<close>

section \<open>Parts\<close>

datatype scope = Fleet | Machine | ThisComputer

datatype kept = Synced "string list" | KeptMachine | KeptThisComputer

record local_setting =
  l_field :: string
  l_label :: string
  l_scope :: scope
  l_note :: string

record part =
  pt_id :: string
  pt_page :: string
  pt_kept :: kept
  pt_machine_local :: "local_setting list"
  pt_note :: string
  pt_save :: "string option"

definition not_settings :: "string list" where
  "not_settings = [''project'', ''project-thread'']"

definition tools_note :: string where
  "tools_note = ''What you add reaches every machine. On or off changes only this computer.''"

definition search_keys_note :: string where
  "search_keys_note = ''Keys stay on the machine where you add them.''"

definition tools_local :: "local_setting list" where
  "tools_local = [\<lparr>l_field = ''enabled'', l_label = ''On or off'', l_scope = ThisComputer, l_note = []\<rparr>]"

text \<open>A part with no setting kept on one machine, no line and no save.\<close>

definition plain_part_of :: "string \<Rightarrow> string \<Rightarrow> kept \<Rightarrow> part" where
  "plain_part_of i page k =
     \<lparr>pt_id = i, pt_page = page, pt_kept = k, pt_machine_local = [], pt_note = [], pt_save = None\<rparr>"

definition parts :: "part list" where
  "parts =
    [\<lparr>pt_id = ''models'', pt_page = ''models'', pt_kept = Synced [''route'', ''decision-model''],
       pt_machine_local = [\<lparr>l_field = ''sign_ins'', l_label = ''Sign-ins'', l_scope = Machine, l_note = []\<rparr>],
       pt_note = ''Sign-ins stay on the machine that holds them. Machines can share them with the others.'',
       pt_save = None\<rparr>,
     \<lparr>pt_id = ''mcp'', pt_page = ''tools'', pt_kept = Synced [''mcp''], pt_machine_local = tools_local,
       pt_note = tools_note, pt_save = None\<rparr>,
     \<lparr>pt_id = ''skill'', pt_page = ''tools'', pt_kept = Synced [''extension''], pt_machine_local = tools_local,
       pt_note = tools_note, pt_save = None\<rparr>,
     \<lparr>pt_id = ''plugin'', pt_page = ''tools'', pt_kept = Synced [''extension''], pt_machine_local = tools_local,
       pt_note = tools_note, pt_save = None\<rparr>,
     \<lparr>pt_id = ''search'', pt_page = ''tools'', pt_kept = Synced [''search''],
       pt_machine_local = [\<lparr>l_field = ''keys'', l_label = ''Provider keys'', l_scope = Machine, l_note = search_keys_note\<rparr>],
       pt_note = search_keys_note, pt_save = None\<rparr>,
     \<lparr>pt_id = ''permissions'', pt_page = ''permissions'', pt_kept = Synced [''permission''],
       pt_machine_local = [\<lparr>l_field = ''bypass_enabled'', l_label = ''Allow bypass'', l_scope = Machine,
         l_note = ''Each machine keeps its own. Pick one machine to change it.''\<rparr>],
       pt_note = [], pt_save = Some ''permission.settings_save''\<rparr>,
     plain_part_of ''profile'' ''account'' (Synced [''memory'']),
     plain_part_of ''memory'' ''data'' (Synced [''memory'']),
     plain_part_of ''context'' ''data'' KeptMachine,
     plain_part_of ''retention'' ''data'' (Synced [''retention'']),
     plain_part_of ''storage'' ''data'' KeptThisComputer,
     plain_part_of ''companies'' ''data'' KeptThisComputer,
     plain_part_of ''appearance'' ''general'' (Synced [''preference'']),
     plain_part_of ''time'' ''general'' KeptThisComputer,
     plain_part_of ''notifications'' ''general'' (Synced [''preference''])]"

fun kept_scope :: "kept \<Rightarrow> scope" where
  "kept_scope (Synced _) = Fleet"
| "kept_scope KeptMachine = Machine"
| "kept_scope KeptThisComputer = ThisComputer"

definition part_scope :: "part \<Rightarrow> scope" where
  "part_scope p = kept_scope (pt_kept p)"

definition part_classes :: "part \<Rightarrow> string list" where
  "part_classes p = (case pt_kept p of Synced classes \<Rightarrow> classes | _ \<Rightarrow> [])"

definition all_note :: "part \<Rightarrow> string" where
  "all_note p = (case pt_kept p of
       Synced _ \<Rightarrow> pt_note p
     | KeptMachine \<Rightarrow> ''This part changes only {machine}. Each machine keeps its own.''
     | KeptThisComputer \<Rightarrow> ''This part changes only this computer. Each machine keeps its own.'')"

definition one_note :: "part \<Rightarrow> string" where
  "one_note p = (case pt_kept p of
       KeptThisComputer \<Rightarrow> ''These settings belong to this computer. {machine} keeps its own.''
     | Synced _ \<Rightarrow> if list_ex (\<lambda>l. l_scope l = ThisComputer) (pt_machine_local p) then pt_note p else []
     | KeptMachine \<Rightarrow> [])"

fun scope_str :: "scope \<Rightarrow> string" where
  "scope_str Fleet = ''fleet''"
| "scope_str Machine = ''machine''"
| "scope_str ThisComputer = ''this_computer''"

definition part_view :: "part \<Rightarrow> json" where
  "part_view p = JObject
     [(''id'', JString (pt_id p)), (''page'', JString (pt_page p)), (''scope'', JString (scope_str (part_scope p))),
      (''classes'', JArray (map JString (part_classes p))),
      (''machine_local'', JArray (map (\<lambda>l. JObject [(''field'', JString (l_field l)),
         (''scope'', JString (scope_str (l_scope l))), (''note'', JString (l_note l))]) (pt_machine_local p))),
      (''notes'', JObject [(''all'', JString (all_note p)), (''one'', JString (one_note p))])]"

definition part_named :: "string \<Rightarrow> part option" where
  "part_named i = find (\<lambda>p. pt_id p = i) parts"

definition scope_view :: json where
  "scope_view = JObject [(''parts'', JArray (map part_view parts))]"

definition check_save :: "string \<Rightarrow> json \<Rightarrow> unit rresult" where
  "check_save operation body =
     (if Option.bind (jget body ''scope'') as_str \<noteq> Some ''all'' then Ok ()
      else (case find (\<lambda>l. jget body (l_field l) \<noteq> None)
                   (concat (map pt_machine_local (filter (\<lambda>p. pt_save p = Some operation) parts))) of
              Some l \<Rightarrow>
                if l_scope l = ThisComputer then Err (l_label l @ '' stays on this computer. Pick one machine to change it.'')
                else Err (l_label l @ '' stays on each machine. Pick one machine to change it.'')
            | None \<Rightarrow> Ok ()))"

section \<open>Consistency of the table\<close>

text \<open>Part ids are unique; only a shared part has settings that stay on one machine, which are never shared
  themselves; a part that stays on one machine always says so.\<close>

lemma parts_consistent:
  "distinct (map pt_id parts)
   \<and> list_all (\<lambda>p. (part_scope p = Fleet) = (part_classes p \<noteq> [])
       \<and> (part_scope p \<noteq> Fleet \<longrightarrow> pt_machine_local p = [] \<and> all_note p \<noteq> [])
       \<and> list_all (\<lambda>l. l_scope l \<noteq> Fleet) (pt_machine_local p)
       \<and> list_all (\<lambda>c. c \<notin> set not_settings) (part_classes p)) parts"
  by (simp add: parts_def plain_part_of_def tools_local_def part_scope_def part_classes_def all_note_def not_settings_def)

lemma check_save_permissions:
  "check_save ''permission.settings_save'' body =
     (if Option.bind (jget body ''scope'') as_str = Some ''all'' \<and> jget body ''bypass_enabled'' \<noteq> None
      then Err ''Allow bypass stays on each machine. Pick one machine to change it.'' else Ok ())"
  by (simp add: check_save_def parts_def plain_part_of_def tools_local_def)

end
