(* ===== verification/Permission_Settings.thy ===== *)
theory Permission_Settings
  imports Permission_Gate Settings_Scope
begin

text \<open>
  The runtime's permission settings (\<open>permission_gate/settings.rs\<close>). The settings file is modelled by
  what reading it gives: \<open>None\<close> when it is missing or unreadable, else its fields. \<open>serde_json\<close>'s
  reading of a request body is an argument, and so is whether the file could be written.
\<close>

section \<open>Settings\<close>

record permission_settings =
  ps_thread_mode :: permission_mode
  ps_agent_mode :: permission_mode
  ps_bypass_enabled :: bool
  ps_timeout :: u64

record stored_settings =
  ss_thread_mode :: "permission_mode option"
  ss_agent_mode :: "permission_mode option"
  ss_bypass_enabled :: "bool option"
  ss_timeout :: "u64 option"

definition default_timeout :: u64 where "default_timeout = 4 * 60 * 60"
definition min_timeout :: u64 where "min_timeout = 60"
definition max_timeout :: u64 where "max_timeout = 7 * 24 * 60 * 60"

definition fallback_mode :: "bool \<Rightarrow> permission_mode" where
  "fallback_mode enabled = (if enabled then Bypass else Manual)"

definition or_else :: "'a option \<Rightarrow> 'a \<Rightarrow> 'a" where
  "or_else x d = (case x of None \<Rightarrow> d | Some v \<Rightarrow> v)"

definition from_stored :: "stored_settings \<Rightarrow> permission_settings" where
  "from_stored st =
     (let bypass = or_else (ss_bypass_enabled st) True; fallback = fallback_mode bypass
      in \<lparr>ps_thread_mode = or_else (ss_thread_mode st) fallback, ps_agent_mode = or_else (ss_agent_mode st) fallback,
          ps_bypass_enabled = bypass, ps_timeout = or_else (ss_timeout st) default_timeout\<rparr>)"

definition settings_default :: permission_settings where
  "settings_default = \<lparr>ps_thread_mode = Bypass, ps_agent_mode = Bypass, ps_bypass_enabled = True,
     ps_timeout = default_timeout\<rparr>"

definition bypass_off :: string where
  "bypass_off = ''Bypass is off. Turn it on in the runtime'' @ [squote] @ ''s permission settings.''"

definition unavailable :: "permission_settings \<Rightarrow> permission_mode \<Rightarrow> string option" where
  "unavailable ps mode = (if mode = Bypass \<and> \<not> ps_bypass_enabled ps then Some bypass_off else None)"

definition effective :: "permission_settings \<Rightarrow> permission_mode \<Rightarrow> permission_mode" where
  "effective ps mode = (if unavailable ps mode \<noteq> None then Manual else mode)"

definition validate :: "permission_settings \<Rightarrow> unit rresult" where
  "validate ps =
     (case unavailable ps (ps_thread_mode ps) of
        Some reason \<Rightarrow> Err reason
      | None \<Rightarrow>
          (case unavailable ps (ps_agent_mode ps) of
             Some reason \<Rightarrow> Err reason
           | None \<Rightarrow>
               if min_timeout \<le> ps_timeout ps \<and> ps_timeout ps \<le> max_timeout then Ok ()
               else Err ''Choose an unattended wait between one minute and seven days.''))"

section \<open>The file\<close>

type_synonym settings_file = "stored_settings option"

definition load :: "settings_file \<Rightarrow> permission_settings" where
  "load file = (case file of None \<Rightarrow> settings_default | Some st \<Rightarrow> from_stored st)"

text \<open>The file a save writes holds every field.\<close>

definition to_stored :: "permission_settings \<Rightarrow> stored_settings" where
  "to_stored ps = \<lparr>ss_thread_mode = Some (ps_thread_mode ps), ss_agent_mode = Some (ps_agent_mode ps),
     ss_bypass_enabled = Some (ps_bypass_enabled ps), ss_timeout = Some (ps_timeout ps)\<rparr>"

definition save :: "settings_file \<Rightarrow> permission_settings \<Rightarrow> bool \<Rightarrow> permission_settings rresult \<times> settings_file" where
  "save file ps io_ok =
     (case validate ps of
        Inl e \<Rightarrow> (Err e, file)
      | Inr _ \<Rightarrow> if io_ok then (Ok ps, Some (to_stored ps)) else (Err ''Permission settings cannot be saved.'', file))"

definition mode_entry :: "permission_settings \<Rightarrow> permission_mode \<Rightarrow> json" where
  "mode_entry ps mode = JObject
     ([(''id'', JString (mode_id mode)), (''title'', JString (mode_title mode)),
       (''description'', JString (mode_description mode)), (''available'', JBool (unavailable ps mode = None))]
      @ (case unavailable ps mode of None \<Rightarrow> [] | Some reason \<Rightarrow> [(''reason'', JString reason)]))"

definition modes :: "permission_settings \<Rightarrow> json" where
  "modes ps = JObject [(''modes'', JArray (map (mode_entry ps) all_modes)),
     (''default_thread_mode'', JString (mode_id (ps_thread_mode ps))),
     (''default_agent_mode'', JString (mode_id (ps_agent_mode ps)))]"

definition new_thread_mode :: "settings_file \<Rightarrow> permission_mode" where
  "new_thread_mode file = effective (load file) (ps_thread_mode (load file))"

definition new_agent_mode :: "settings_file \<Rightarrow> permission_mode" where
  "new_agent_mode file = effective (load file) (ps_agent_mode (load file))"

definition thread_permissions :: "settings_file \<Rightarrow> run_permissions" where
  "thread_permissions file =
     \<lparr>p_mode = effective (load file) (ps_thread_mode (load file)), p_event_triggered = False,
      p_working_directories = [], p_protected_roots = [], p_home = None,
      p_bypass_enabled = ps_bypass_enabled (load file)\<rparr>"

section \<open>Operations\<close>

datatype save_scope = ScopeMachine | ScopeAll

record save_change =
  sv_scope :: save_scope
  sv_thread_mode :: "permission_mode option"
  sv_agent_mode :: "permission_mode option"
  sv_bypass_enabled :: "bool option"
  sv_timeout :: "u64 option"

text \<open>\<open>serde_json::from_value\<close> of the request bodies.\<close>

record body_reader =
  read_empty :: "json \<Rightarrow> bool"
  read_save :: "json \<Rightarrow> save_change option"

definition apply_change :: "permission_settings \<Rightarrow> save_change \<Rightarrow> permission_settings" where
  "apply_change ps c =
     (let ps = ps\<lparr>ps_thread_mode := or_else (sv_thread_mode c) (ps_thread_mode ps),
                 ps_agent_mode := or_else (sv_agent_mode c) (ps_agent_mode ps)\<rparr>;
          ps = (case sv_bypass_enabled c of
                  None \<Rightarrow> ps
                | Some enabled \<Rightarrow>
                    let ps = ps\<lparr>ps_bypass_enabled := enabled\<rparr>
                    in if enabled then ps
                       else ps\<lparr>ps_thread_mode := (if sv_thread_mode c = None \<and> ps_thread_mode ps = Bypass then Manual
                                 else ps_thread_mode ps),
                               ps_agent_mode := (if sv_agent_mode c = None \<and> ps_agent_mode ps = Bypass then Manual
                                 else ps_agent_mode ps)\<rparr>)
      in ps\<lparr>ps_timeout := or_else (sv_timeout c) (ps_timeout ps)\<rparr>)"

definition settings_json :: "(u64 \<Rightarrow> string) \<Rightarrow> permission_settings \<Rightarrow> json" where
  "settings_json print_u64 ps = JObject
     [(''default_thread_mode'', JString (mode_id (ps_thread_mode ps))),
      (''default_agent_mode'', JString (mode_id (ps_agent_mode ps))),
      (''bypass_enabled'', JBool (ps_bypass_enabled ps)),
      (''unattended_timeout_seconds'', JNumber (print_u64 (ps_timeout ps)))]"

definition scope_check :: "save_change \<Rightarrow> string \<Rightarrow> json \<Rightarrow> unit rresult" where
  "scope_check change operation body = (if sv_scope change = ScopeAll then check_save operation body else Ok ())"

definition settings_operation ::
  "body_reader \<Rightarrow> settings_file \<Rightarrow> string \<Rightarrow> json \<Rightarrow> bool \<Rightarrow> json rresult \<times> settings_file" where
  "settings_operation rd file operation body io_ok =
     (let invalid = Err ''The request is invalid.''; print = (\<lambda>n. dec_str (unat n))
      in if operation = ''permission.modes'' then
           ((if read_empty rd body then Ok (modes (load file)) else invalid), file)
         else if operation = ''permission.settings'' then
           ((if read_empty rd body then Ok (settings_json print (load file)) else invalid), file)
         else if operation = ''permission.settings_save'' then
           (case read_save rd body of
              None \<Rightarrow> (invalid, file)
            | Some change \<Rightarrow>
                (case scope_check change operation body of
                   Inl e \<Rightarrow> (Err e, file)
                 | Inr _ \<Rightarrow>
                     (case save file (apply_change (load file) change) io_ok of
                        (Inl e, file') \<Rightarrow> (Err e, file')
                      | (Inr saved, file') \<Rightarrow> (Ok (settings_json print saved), file'))))
         else (Err ''The permission operation is unknown.'', file))"

section \<open>Properties\<close>

text \<open>A file the runtime wrote, or none.\<close>

definition file_valid :: "settings_file \<Rightarrow> bool" where
  "file_valid file \<longleftrightarrow> validate (load file) = Ok ()"

lemma load_to_stored [simp]: "load (Some (to_stored ps)) = ps"
  by (simp add: load_def from_stored_def to_stored_def or_else_def Let_def)

lemma validate_iff:
  "validate ps = Ok () \<longleftrightarrow>
     (ps_bypass_enabled ps \<or> ps_thread_mode ps \<noteq> Bypass \<and> ps_agent_mode ps \<noteq> Bypass)
     \<and> min_timeout \<le> ps_timeout ps \<and> ps_timeout ps \<le> max_timeout"
  by (auto simp: validate_def unavailable_def)

lemma save_cases:
  assumes "save file ps io_ok = (res, file')"
  shows "file' = file \<and> (\<exists>e. res = Err e) \<or> file' = Some (to_stored ps) \<and> res = Ok ps \<and> validate ps = Ok ()"
  using assms by (auto simp: save_def split: sum.splits if_splits)

fun settings_run :: "body_reader \<Rightarrow> settings_file \<Rightarrow> (string \<times> json \<times> bool) list \<Rightarrow> settings_file" where
  "settings_run rd file [] = file"
| "settings_run rd file ((operation, body, io_ok) # rest) =
     settings_run rd (snd (settings_operation rd file operation body io_ok)) rest"

lemma operation_file:
  "snd (settings_operation rd file operation body io_ok) = file
   \<or> (\<exists>change. read_save rd body = Some change \<and> validate (apply_change (load file) change) = Ok ()
        \<and> snd (settings_operation rd file operation body io_ok) = Some (to_stored (apply_change (load file) change))
        \<and> (sv_scope change = ScopeAll \<longrightarrow> check_save ''permission.settings_save'' body = Ok ()))"
proof (cases "operation = ''permission.settings_save'' \<and> read_save rd body \<noteq> None")
  case False
  then show ?thesis by (auto simp: settings_operation_def Let_def)
next
  case True
  then obtain change where c: "read_save rd body = Some change" by blast
  obtain res file' where s: "save file (apply_change (load file) change) io_ok = (res, file')" by fastforce
  show ?thesis
  proof (cases "scope_check change operation body")
    case (Inl e)
    with True c show ?thesis by (simp add: settings_operation_def Let_def)
  next
    case (Inr u)
    then have "snd (settings_operation rd file operation body io_ok) = file'"
      using True c s by (cases res) (simp_all add: settings_operation_def Let_def)
    with save_cases [OF s] True c Inr show ?thesis by (auto simp: scope_check_def split: if_splits)
  qed
qed

text \<open>Bypass stays off: from any file and through any sequence of settings operations, while the file
  turns bypass off no new thread, no new agent and no thread without an agent starts in bypass, and
  no call of such a thread runs in bypass, whatever mode its thread names. A file that was valid
  stays valid: its modes can be chosen and its wait is between a minute and seven days.\<close>

theorem bypass_stays_off:
  fixes rd f0 requests
  defines "file' \<equiv> settings_run rd f0 requests"
  shows "(\<not> ps_bypass_enabled (load file') \<longrightarrow>
      new_thread_mode file' \<noteq> Bypass \<and> new_agent_mode file' \<noteq> Bypass
      \<and> (\<forall>mode. mode_for (thread_permissions file') mode \<noteq> Bypass))
    \<and> (file_valid f0 \<longrightarrow> file_valid file')"
proof -
  have "file_valid f0 \<longrightarrow> file_valid file'" unfolding file'_def
  proof (induction rd f0 requests rule: settings_run.induct)
    case (2 rd f operation body io_ok rest)
    have "file_valid f \<Longrightarrow> file_valid (snd (settings_operation rd f operation body io_ok))"
      using operation_file [of rd f operation body io_ok] by (auto simp: file_valid_def)
    with 2 show ?case by simp
  qed simp
  moreover have "\<not> ps_bypass_enabled (load file') \<Longrightarrow> new_thread_mode file' \<noteq> Bypass \<and> new_agent_mode file' \<noteq> Bypass
      \<and> (\<forall>mode. mode_for (thread_permissions file') mode \<noteq> Bypass)"
    by (auto simp: new_thread_mode_def new_agent_mode_def effective_def unavailable_def mode_for_def
      thread_permissions_def Let_def)
  ultimately show ?thesis by blast
qed

theorem bypass_stays_off_witness:
  "let file = Some \<lparr>ss_thread_mode = Some Bypass, ss_agent_mode = None, ss_bypass_enabled = Some False, ss_timeout = None\<rparr>
   in new_thread_mode file \<noteq> Bypass \<and> new_agent_mode file \<noteq> Bypass"
proof -
  let ?file = "Some \<lparr>ss_thread_mode = Some Bypass, ss_agent_mode = None, ss_bypass_enabled = Some False, ss_timeout = None\<rparr>"
  have "\<not> ps_bypass_enabled (load (settings_run rd ?file []))" for rd
    by (simp add: load_def from_stored_def or_else_def Let_def)
  with bypass_stays_off [of _ ?file "[]"] show ?thesis by simp
qed

text \<open>Turning bypass off takes effect at once: a save that only turns bypass off is taken on any valid
  file when the file can be written, both defaults that named bypass become manual, and a save for
  every machine that names the switch is refused and changes nothing.\<close>

theorem turning_bypass_off:
  assumes "file_valid file" "read_save rd body = Some \<lparr>sv_scope = sc, sv_thread_mode = None, sv_agent_mode = None,
      sv_bypass_enabled = Some False, sv_timeout = None\<rparr>"
    and "jget body ''bypass_enabled'' = Some (JBool False)" "jget body ''scope'' = Some (JString (if sc = ScopeAll then ''all'' else ''machine''))"
  defines "file' \<equiv> snd (settings_operation rd file ''permission.settings_save'' body True)"
  shows "if sc = ScopeAll then file' = file \<and> (\<exists>e. fst (settings_operation rd file ''permission.settings_save'' body True) = Err e)
    else \<not> ps_bypass_enabled (load file') \<and> ps_thread_mode (load file') \<noteq> Bypass \<and> ps_agent_mode (load file') \<noteq> Bypass
      \<and> ps_timeout (load file') = ps_timeout (load file)
      \<and> (ps_thread_mode (load file) \<noteq> Bypass \<longrightarrow> ps_thread_mode (load file') = ps_thread_mode (load file))"
proof (cases "sc = ScopeAll")
  case True
  then have "check_save ''permission.settings_save'' body
      = Err ''Allow bypass stays on each machine. Pick one machine to change it.''"
    using assms(3,4) by (simp add: check_save_permissions)
  with True assms(2) show ?thesis by (simp add: file'_def settings_operation_def scope_check_def Let_def)
next
  case False
  let ?c = "\<lparr>sv_scope = sc, sv_thread_mode = None, sv_agent_mode = None, sv_bypass_enabled = Some False, sv_timeout = None\<rparr>"
  let ?ps = "apply_change (load file) ?c"
  have ps: "\<not> ps_bypass_enabled ?ps" "ps_thread_mode ?ps \<noteq> Bypass" "ps_agent_mode ?ps \<noteq> Bypass"
    "ps_timeout ?ps = ps_timeout (load file)"
    "ps_thread_mode (load file) \<noteq> Bypass \<Longrightarrow> ps_thread_mode ?ps = ps_thread_mode (load file)"
    by (simp_all add: apply_change_def or_else_def Let_def)
  have "validate ?ps = Ok ()" using assms(1) ps by (simp add: file_valid_def validate_iff)
  then have "file' = Some (to_stored ?ps)"
    using False assms(2) by (simp add: file'_def settings_operation_def scope_check_def Let_def save_def)
  with False ps show ?thesis by simp
qed

definition sample_reader :: body_reader where
  "sample_reader = \<lparr>read_empty = (\<lambda>b. b = JObject []), read_save = (\<lambda>_. Some \<lparr>sv_scope = ScopeMachine,
     sv_thread_mode = None, sv_agent_mode = None, sv_bypass_enabled = Some False, sv_timeout = None\<rparr>)\<rparr>"

theorem turning_bypass_off_witness:
  "let body = JObject [(''scope'', JString ''machine''), (''bypass_enabled'', JBool False)];
       file' = snd (settings_operation sample_reader None ''permission.settings_save'' body True)
   in \<not> ps_bypass_enabled (load file') \<and> ps_thread_mode (load file') \<noteq> Bypass"
proof -
  let ?body = "JObject [(''scope'', JString ''machine''), (''bypass_enabled'', JBool False)]"
  have "file_valid None" by (simp add: file_valid_def load_def settings_default_def validate_iff
      default_timeout_def min_timeout_def max_timeout_def)
  from turning_bypass_off [OF this, of sample_reader ?body ScopeMachine] show ?thesis
    by (simp add: sample_reader_def)
qed

end
