(* ===== verification/Run_Reducer.thy ===== *)
theory Run_Reducer
  imports Permission_Gate Gate_Questions
begin

text \<open>
  The state of a run, rebuilt from its journal (\<open>journal/reducer.rs\<close>): the reducer that accepts or
  refuses each event. \<open>serde_json\<close>'s reading of a typed payload is
  an argument. A method that fails leaves the reducer as it was, so its model gives either the error
  or the reducer after it.
\<close>

section \<open>Events\<close>

record attachment =
  at_name :: string
  at_bytes :: u64
  at_media :: "string option"
  at_sha256 :: string

record cas_reference =
  cr_sha256 :: string
  cr_media :: string
  cr_bytes :: u64

datatype event_payload = Inline json | Cas cas_reference | Attached attachment

record provenance =
  pv_source :: string
  pv_source_version :: string
  pv_actor_id :: "string option"
  pv_device_id :: "string option"
  pv_rpc_request_id :: "string option"
  pv_capability_versions :: "(string \<times> string) list option"
  pv_extra :: "(string \<times> json) list"

record event_envelope =
  e_event_id :: string
  e_run_id :: string
  e_run_seq :: u64
  e_type :: string
  e_version :: u32
  e_envelope_version :: u32
  e_recorded_at :: string
  e_occurred_at :: "string option"
  e_correlation :: "string option"
  e_causation :: "string option"
  e_payload :: event_payload
  e_provenance :: provenance
  e_extra :: "(string \<times> json) list"

record gate_policy =
  gp_kind :: request_kind
  gp_resource :: resource
  gp_summary :: string
  gp_reason :: "string option"
  gp_plan :: "string option"

record permission_gate =
  pg_gate_id :: string
  pg_request :: permission_request
  pg_policy :: "gate_policy option"

record pi_session_binding =
  pb_run_id :: string
  pb_locator :: string

record recall =
  rc_query :: string
  rc_files :: "string list"

text \<open>\<open>serde_json::from_value\<close> of the payloads the reducer reads as a type.\<close>

record payload_reader =
  rd_gate :: "json \<Rightarrow> permission_gate option"
  rd_binding :: "json \<Rightarrow> pi_session_binding option"
  rd_recall :: "json \<Rightarrow> recall option"

section \<open>State\<close>

datatype attention_reason = UnknownEffectOutcome string | Recorded string

datatype run_status =
    Active
  | AcquiringPi "attention_reason option"
  | Streaming
  | PendingPermission permission_gate
  | Completed
  | Cancelled
  | Failed "string option"
  | NeedsAttention attention_reason

record run_state =
  rs_run_id :: string
  rs_last_seq :: u64
  rs_status :: run_status
  rs_pi_session :: "pi_session_binding option"
  rs_pending :: "permission_gate option"
  rs_effects :: "string list"

fun terminal_status :: "run_status \<Rightarrow> bool" where
  "terminal_status Completed = True"
| "terminal_status Cancelled = True"
| "terminal_status (Failed _) = True"
| "terminal_status (NeedsAttention _) = True"
| "terminal_status _ = False"

definition is_terminal :: "run_state \<Rightarrow> bool" where
  "is_terminal s = terminal_status (rs_status s)"

datatype reduce_error =
    Sequence u64 u64
  | RunChanged string string
  | UnsupportedSafetyEvent string u32
  | MissingInlinePayload string
  | MissingAttachmentPayload string
  | MissingField string string
  | InvalidTransition string string

record run_reducer =
  rr_state :: "run_state option"
  rr_gate :: "permission_gate option"
  rr_effects :: "string list"
  rr_session :: "pi_session_binding option"

definition reducer_new :: run_reducer where
  "reducer_new = \<lparr>rr_state = None, rr_gate = None, rr_effects = [], rr_session = None\<rparr>"

section \<open>Fields of an event\<close>

definition payload :: "event_envelope \<Rightarrow> reduce_error + json" where
  "payload e = (case e_payload e of Inline v \<Rightarrow> Inr v | _ \<Rightarrow> Inl (MissingInlinePayload (e_type e)))"

definition optional_field :: "event_envelope \<Rightarrow> string \<Rightarrow> reduce_error + string option" where
  "optional_field e name = (case payload e of
       Inl err \<Rightarrow> Inl err
     | Inr v \<Rightarrow> Inr (case Option.bind (jget v name) as_str of Some s \<Rightarrow> if s = [] then None else Some s | None \<Rightarrow> None))"

definition field :: "event_envelope \<Rightarrow> string \<Rightarrow> reduce_error + string" where
  "field e name = (case optional_field e name of
       Inl err \<Rightarrow> Inl err
     | Inr None \<Rightarrow> Inl (MissingField (e_type e) name)
     | Inr (Some s) \<Rightarrow> Inr s)"

definition invalid :: "event_envelope \<Rightarrow> string \<Rightarrow> reduce_error" where
  "invalid e detail = InvalidTransition (e_type e) detail"

definition is_safety_event :: "string \<Rightarrow> bool" where
  "is_safety_event t = list_ex (starts_with t)
     [''chat.attachment.'', ''permission.'', ''tool.effect.'', ''runtime.pi_session.'', ''runtime.pi_acquire.'']"

definition is_known_safety_event :: "string \<Rightarrow> bool" where
  "is_known_safety_event t \<longleftrightarrow> t \<in> set [''chat.attachment.ingested'', ''permission.requested'', ''permission.resolved'',
     ''tool.effect.started'', ''tool.effect.completed'', ''tool.effect.failed'', ''runtime.pi_session.bound'',
     ''runtime.pi_acquire.started'', ''runtime.pi_acquire.completed'', ''run.resumed'']"

definition is_state_event :: "string \<Rightarrow> bool" where
  "is_state_event t = list_ex (starts_with t)
     [''chat.attachment.'', ''run.'', ''model.'', ''permission.'', ''tool.'', ''runtime.pi_session.'', ''runtime.pi_acquire.'']"

section \<open>The reducer\<close>

definition set_status :: "run_reducer \<Rightarrow> event_envelope \<Rightarrow> run_status \<Rightarrow> run_reducer" where
  "set_status r e status = r\<lparr>rr_state := Some \<lparr>rs_run_id = e_run_id e, rs_last_seq = e_run_seq e, rs_status = status,
     rs_pi_session = rr_session r, rs_pending = rr_gate r, rs_effects = rr_effects r\<rparr>\<rparr>"

definition status_of :: "run_reducer \<Rightarrow> run_status option" where
  "status_of r = map_option rs_status (rr_state r)"

definition executable :: "run_reducer \<Rightarrow> bool" where
  "executable r \<longleftrightarrow> status_of r \<in> {Some Active, Some Streaming} \<and> rr_gate r = None"

definition require_active :: "run_reducer \<Rightarrow> event_envelope \<Rightarrow> reduce_error + unit" where
  "require_active r e = (if executable r then Inr () else Inl (invalid e ''run is not executable''))"

definition require_executable :: "run_reducer \<Rightarrow> event_envelope \<Rightarrow> run_status \<Rightarrow> reduce_error + run_reducer" where
  "require_executable r e status = result_bind (require_active r e) (\<lambda>_. Inr (set_status r e status))"

fun acquiring :: "run_status option \<Rightarrow> bool" where
  "acquiring (Some (AcquiringPi _)) = True"
| "acquiring _ = False"

fun stops_early :: "run_status \<Rightarrow> bool" where
  "stops_early Cancelled = True"
| "stops_early (Failed _) = True"
| "stops_early _ = False"

definition terminal :: "run_reducer \<Rightarrow> event_envelope \<Rightarrow> run_status \<Rightarrow> reduce_error + run_reducer" where
  "terminal r e status =
     result_bind (if acquiring (status_of r) \<and> stops_early status then Inr () else require_active r e)
       (\<lambda>_. if rr_effects r \<noteq> [] then Inl (invalid e ''effect outcome is unknown'') else Inr (set_status r e status))"

definition acquire_started :: "run_reducer \<Rightarrow> event_envelope \<Rightarrow> reduce_error + run_reducer" where
  "acquire_started r e =
     (if rr_gate r \<noteq> None \<or> rr_effects r \<noteq> [] then Inl (invalid e ''run cannot acquire Pi'')
      else (case status_of r of
              Some Active \<Rightarrow> Inr (set_status r e (AcquiringPi None))
            | Some (NeedsAttention reason) \<Rightarrow>
                if rr_session r \<noteq> None then Inr (set_status r e (AcquiringPi (Some reason)))
                else Inl (invalid e ''run cannot acquire Pi'')
            | _ \<Rightarrow> Inl (invalid e ''run cannot acquire Pi'')))"

definition acquire_completed :: "run_reducer \<Rightarrow> event_envelope \<Rightarrow> reduce_error + run_reducer" where
  "acquire_completed r e =
     (case status_of r of
        Some (AcquiringPi interrupted) \<Rightarrow>
          Inr (set_status r e (case interrupted of None \<Rightarrow> Active | Some reason \<Rightarrow> NeedsAttention reason))
      | _ \<Rightarrow> Inl (invalid e ''Pi acquisition has not started''))"

definition attachment_ingested :: "run_reducer \<Rightarrow> event_envelope \<Rightarrow> reduce_error + run_reducer" where
  "attachment_ingested r e =
     result_bind (require_active r e) (\<lambda>_. Inr (set_status r e (rs_status (the (rr_state r)))))"

definition binding_ok :: "event_envelope \<Rightarrow> pi_session_binding \<Rightarrow> bool" where
  "binding_ok e b \<longleftrightarrow> pb_run_id b = e_run_id e \<and> pb_locator b \<noteq> [] \<and> CHR ''/'' \<notin> set (pb_locator b)
     \<and> backslash \<notin> set (pb_locator b) \<and> ends_with (pb_locator b) ''.jsonl''"

definition session_bound :: "payload_reader \<Rightarrow> run_reducer \<Rightarrow> event_envelope \<Rightarrow> reduce_error + run_reducer" where
  "session_bound rd r e =
     result_bind (require_active r e) (\<lambda>_.
     if rr_session r \<noteq> None then Inl (invalid e ''Pi session may only be bound once'')
     else result_bind (payload e) (\<lambda>v.
       case rd_binding rd v of
         None \<Rightarrow> Inl (invalid e ''Pi session binding payload is invalid'')
       | Some b \<Rightarrow>
           if \<not> binding_ok e b then Inl (invalid e ''Pi session binding payload is invalid'')
           else Inr (set_status (r\<lparr>rr_session := Some b\<rparr>) e Active)))"

definition gate_requested :: "payload_reader \<Rightarrow> run_reducer \<Rightarrow> event_envelope \<Rightarrow> reduce_error + run_reducer" where
  "gate_requested rd r e =
     result_bind (require_active r e) (\<lambda>_.
     if rr_gate r \<noteq> None then Inl (invalid e ''a permission gate is already pending'')
     else result_bind (payload e) (\<lambda>v.
       case rd_gate rd v of
         None \<Rightarrow> Inl (invalid e ''permission request payload is invalid'')
       | Some g \<Rightarrow>
           if pg_gate_id g = [] then Inl (invalid e ''permission request gate id is empty'')
           else Inr (set_status (r\<lparr>rr_gate := Some g\<rparr>) e (PendingPermission g))))"

definition gate_resolved :: "run_reducer \<Rightarrow> event_envelope \<Rightarrow> reduce_error + run_reducer" where
  "gate_resolved r e =
     result_bind (field e ''gate_id'') (\<lambda>i.
       case rr_gate r of
         None \<Rightarrow> Inl (invalid e ''no permission gate is pending'')
       | Some g \<Rightarrow>
           if pg_gate_id g = i then Inr (set_status (r\<lparr>rr_gate := None\<rparr>) e Active)
           else Inl (invalid e ''resolution does not match the pending gate''))"

definition effect_started :: "run_reducer \<Rightarrow> event_envelope \<Rightarrow> reduce_error + run_reducer" where
  "effect_started r e =
     result_bind (require_active r e) (\<lambda>_. result_bind (field e ''effect_id'') (\<lambda>i.
       if i \<in> set (rr_effects r) then Inl (invalid e ''effect is already open'')
       else Inr (set_status (r\<lparr>rr_effects := rr_effects r @ [i]\<rparr>) e Active)))"

definition effect_finished :: "run_reducer \<Rightarrow> event_envelope \<Rightarrow> reduce_error + run_reducer" where
  "effect_finished r e =
     result_bind (field e ''effect_id'') (\<lambda>i.
       if i \<in> set (rr_effects r) then Inr (set_status (r\<lparr>rr_effects := remove1 i (rr_effects r)\<rparr>) e Active)
       else Inl (invalid e ''effect outcome has no matching start''))"

definition run_resumed :: "run_reducer \<Rightarrow> event_envelope \<Rightarrow> reduce_error + run_reducer" where
  "run_resumed r e =
     (if (case status_of r of Some (NeedsAttention _) \<Rightarrow> False | _ \<Rightarrow> True)
        \<or> rr_gate r \<noteq> None \<or> rr_effects r \<noteq> [] \<or> rr_session r = None
      then Inl (invalid e ''run is not safely resumable'')
      else Inr (set_status r e Active))"

definition needs_attention :: "run_reducer \<Rightarrow> event_envelope \<Rightarrow> reduce_error + run_reducer" where
  "needs_attention r e = result_bind (optional_field e ''reason'') (\<lambda>reason.
     Inr (set_status r e (NeedsAttention (Recorded (case reason of None \<Rightarrow> ''unspecified'' | Some s \<Rightarrow> s)))))"

definition other_event :: "run_reducer \<Rightarrow> event_envelope \<Rightarrow> reduce_error + run_reducer" where
  "other_event r e =
     (case rr_state r of
        None \<Rightarrow> Inl (invalid e ''first event must be run.started'')
      | Some s \<Rightarrow> Inr (r\<lparr>rr_state := Some (s\<lparr>rs_last_seq := e_run_seq e\<rparr>)\<rparr>))"

definition run_started :: "run_reducer \<Rightarrow> event_envelope \<Rightarrow> reduce_error + run_reducer" where
  "run_started r e =
     (if rr_state r \<noteq> None then Inl (invalid e ''run may only start once'') else Inr (set_status r e Active))"

text \<open>What each event type does.\<close>

definition transition :: "payload_reader \<Rightarrow> run_reducer \<Rightarrow> event_envelope \<Rightarrow> reduce_error + run_reducer" where
  "transition rd r e =
     (let t = e_type e in
      if t = ''run.started'' then run_started r e
      else if t = ''runtime.pi_acquire.started'' then acquire_started r e
      else if t = ''runtime.pi_acquire.completed'' then acquire_completed r e
      else if t = ''chat.attachment.ingested'' then attachment_ingested r e
      else if t = ''runtime.pi_session.bound'' then session_bound rd r e
      else if t = ''model.stream.delta'' then require_executable r e Streaming
      else if t = ''permission.requested'' then gate_requested rd r e
      else if t = ''permission.resolved'' then gate_resolved r e
      else if t = ''tool.effect.started'' then effect_started r e
      else if t \<in> {''tool.effect.completed'', ''tool.effect.failed''} then effect_finished r e
      else if t = ''run.completed'' then terminal r e Completed
      else if t = ''run.cancelled'' then terminal r e Cancelled
      else if t = ''run.failed'' then result_bind (optional_field e ''reason'') (\<lambda>reason. terminal r e (Failed reason))
      else if t = ''run.needs_attention'' then needs_attention r e
      else if t = ''run.resumed'' then run_resumed r e
      else other_event r e)"

definition expected_seq :: "run_reducer \<Rightarrow> u64" where
  "expected_seq r = (case rr_state r of None \<Rightarrow> 1 | Some s \<Rightarrow> rs_last_seq s + 1)"

text \<open>The checks before the transition: the sequence, the run, the version of a safety event, and that
  only a few events follow a terminal state.\<close>

definition precheck :: "run_reducer \<Rightarrow> event_envelope \<Rightarrow> reduce_error + unit" where
  "precheck r e =
     (if e_run_seq e \<noteq> expected_seq r then Inl (Sequence (expected_seq r) (e_run_seq e))
      else if (case rr_state r of None \<Rightarrow> False | Some s \<Rightarrow> rs_run_id s \<noteq> e_run_id e)
      then Inl (RunChanged (rs_run_id (the (rr_state r))) (e_run_id e))
      else if is_safety_event (e_type e) \<and> (e_version e \<noteq> 1 \<or> \<not> is_known_safety_event (e_type e))
      then Inl (UnsupportedSafetyEvent (e_type e) (e_version e))
      else if (case rr_state r of None \<Rightarrow> False | Some s \<Rightarrow> is_terminal s)
        \<and> e_type e \<notin> {''run.needs_attention'', ''run.resumed'', ''runtime.pi_acquire.started''}
        \<and> is_state_event (e_type e)
      then Inl (invalid e ''event follows a terminal run state'')
      else Inr ())"

definition reducer_apply :: "payload_reader \<Rightarrow> run_reducer \<Rightarrow> event_envelope \<Rightarrow> reduce_error + run_reducer" where
  "reducer_apply rd r e = result_bind (precheck r e) (\<lambda>_. transition rd r e)"

definition reducer_finish :: "run_reducer \<Rightarrow> reduce_error + run_state" where
  "reducer_finish r =
     (case rr_state r of
        None \<Rightarrow> Inl (InvalidTransition ''end-of-stream'' ''empty journal'')
      | Some s \<Rightarrow>
          if rr_gate r = None \<and> (case rs_status s of NeedsAttention _ \<Rightarrow> False | _ \<Rightarrow> True)
          then (case rr_effects r of
                  [] \<Rightarrow> Inr s
                | i # _ \<Rightarrow> Inr (s\<lparr>rs_status := NeedsAttention (UnknownEffectOutcome i)\<rparr>))
          else Inr s)"

fun reducer_applies :: "payload_reader \<Rightarrow> run_reducer \<Rightarrow> event_envelope list \<Rightarrow> reduce_error + run_reducer" where
  "reducer_applies rd r [] = Inr r"
| "reducer_applies rd r (e # es) = result_bind (reducer_apply rd r e) (\<lambda>r. reducer_applies rd r es)"

definition reduce :: "payload_reader \<Rightarrow> event_envelope list \<Rightarrow> reduce_error + run_state" where
  "reduce rd es = result_bind (reducer_applies rd reducer_new es) reducer_finish"

end
