(* ===== verification/Reducer_Properties.thy ===== *)
theory Reducer_Properties
  imports Run_Reducer
begin

text \<open>
  What a run's journal promises once the reducer accepts it: its numbering, the effects whose outcome
  is still open, the gate that is pending, and that no run ends while an effect is open.
\<close>

section \<open>The open effects and the open gate of a journal\<close>

text \<open>Read from the events alone, without the reducer.\<close>

definition effect_id :: "event_envelope \<Rightarrow> string" where
  "effect_id e = (case field e ''effect_id'' of Inr i \<Rightarrow> i | Inl _ \<Rightarrow> [])"

definition effects_step :: "string list \<Rightarrow> event_envelope \<Rightarrow> string list" where
  "effects_step is e =
     (if e_type e = ''tool.effect.started'' then is @ [effect_id e]
      else if e_type e \<in> {''tool.effect.completed'', ''tool.effect.failed''} then remove1 (effect_id e) is
      else is)"

definition open_effects :: "event_envelope list \<Rightarrow> string list" where
  "open_effects es = foldl effects_step [] es"

definition gate_step_of :: "payload_reader \<Rightarrow> permission_gate option \<Rightarrow> event_envelope \<Rightarrow> permission_gate option" where
  "gate_step_of rd g e =
     (if e_type e = ''permission.requested'' then (case payload e of Inr v \<Rightarrow> rd_gate rd v | Inl _ \<Rightarrow> None)
      else if e_type e = ''permission.resolved'' then None
      else g)"

definition pending_gate :: "payload_reader \<Rightarrow> event_envelope list \<Rightarrow> permission_gate option" where
  "pending_gate rd es = foldl (gate_step_of rd) None es"

section \<open>One event\<close>

lemma set_status_simps [simp]:
  "rr_gate (set_status r e s) = rr_gate r" "rr_effects (set_status r e s) = rr_effects r"
  "rr_session (set_status r e s) = rr_session r"
  "rr_state (set_status r e s) = Some \<lparr>rs_run_id = e_run_id e, rs_last_seq = e_run_seq e, rs_status = s,
     rs_pi_session = rr_session r, rs_pending = rr_gate r, rs_effects = rr_effects r\<rparr>"
  "status_of (set_status r e s) = Some s"
  by (simp_all add: set_status_def status_of_def)

lemmas transition_defs = run_started_def acquire_started_def acquire_completed_def attachment_ingested_def
  session_bound_def require_executable_def gate_requested_def gate_resolved_def effect_started_def
  effect_finished_def terminal_def needs_attention_def run_resumed_def other_event_def require_active_def
  result_bind_Inr_iff

text \<open>Every accepted event leaves a state of its run at its number.\<close>

definition stamped :: "run_reducer \<Rightarrow> event_envelope \<Rightarrow> bool" where
  "stamped r e \<longleftrightarrow> (\<exists>s. rr_state r = Some s \<and> rs_last_seq s = e_run_seq e
     \<and> (rs_run_id s = e_run_id e))"

text \<open>A status that promises nothing is open.\<close>

fun settled :: "run_status option \<Rightarrow> bool" where
  "settled (Some Completed) = True"
| "settled (Some Cancelled) = True"
| "settled (Some (Failed _)) = True"
| "settled (Some (AcquiringPi _)) = True"
| "settled None = True"
| "settled _ = False"

definition reducer_ok :: "run_reducer \<Rightarrow> bool" where
  "reducer_ok r \<longleftrightarrow> distinct (rr_effects r) \<and> (settled (status_of r) \<longrightarrow> rr_gate r = None \<and> rr_effects r = [])
     \<and> (\<forall>g. status_of r = Some (PendingPermission g) \<longrightarrow> rr_gate r = Some g)"

text \<open>What one transition does to the effects, the gate and the invariant.\<close>

definition keeps :: "run_reducer \<Rightarrow> run_reducer \<Rightarrow> bool" where
  "keeps r r' \<longleftrightarrow> rr_gate r' = rr_gate r \<and> rr_effects r' = rr_effects r"

lemma executable_ok: "executable r \<Longrightarrow> rr_gate r = None" "executable r \<Longrightarrow> status_of r \<noteq> None"
  by (auto simp: executable_def)

lemma keeps_set: "keeps r (set_status r e s)"
  by (simp add: keeps_def)

lemma keeping_transitions:
  "run_started r e = Inr r' \<Longrightarrow> keeps r r'"
  "acquire_started r e = Inr r' \<Longrightarrow> keeps r r'"
  "acquire_completed r e = Inr r' \<Longrightarrow> keeps r r'"
  "attachment_ingested r e = Inr r' \<Longrightarrow> keeps r r'"
  "session_bound rd r e = Inr r' \<Longrightarrow> keeps r r'"
  "require_executable r e s = Inr r' \<Longrightarrow> keeps r r'"
  "terminal r e s = Inr r' \<Longrightarrow> keeps r r'"
  "needs_attention r e = Inr r' \<Longrightarrow> keeps r r'"
  "run_resumed r e = Inr r' \<Longrightarrow> keeps r r'"
  "other_event r e = Inr r' \<Longrightarrow> keeps r r'"
  by (auto simp: transition_defs keeps_def split: if_splits option.splits run_status.splits)

lemma effect_transitions:
  "effect_started r e = Inr r' \<Longrightarrow> rr_gate r' = rr_gate r \<and> rr_effects r' = rr_effects r @ [effect_id e]
     \<and> effect_id e \<notin> set (rr_effects r) \<and> status_of r' = Some Active \<and> executable r"
  "effect_finished r e = Inr r' \<Longrightarrow> rr_gate r' = rr_gate r \<and> rr_effects r' = remove1 (effect_id e) (rr_effects r)
     \<and> status_of r' = Some Active"
  by (auto simp: transition_defs effect_id_def split: if_splits)

lemma gate_transitions:
  "gate_requested rd r e = Inr r' \<Longrightarrow> rr_effects r' = rr_effects r
     \<and> (\<exists>v g. payload e = Inr v \<and> rd_gate rd v = Some g \<and> rr_gate r' = Some g \<and> status_of r' = Some (PendingPermission g))"
  "gate_resolved r e = Inr r' \<Longrightarrow> rr_effects r' = rr_effects r \<and> rr_gate r' = None \<and> status_of r' = Some Active"
  by (auto simp: transition_defs split: if_splits option.splits)

text \<open>The transition taken is the one its event type names.\<close>

lemma transition_types:
  assumes "transition rd r e = Inr r'"
  obtains (effect_start) "e_type e = ''tool.effect.started''" "effect_started r e = Inr r'"
  | (effect_end) "e_type e \<in> {''tool.effect.completed'', ''tool.effect.failed''}" "effect_finished r e = Inr r'"
  | (gate) "e_type e = ''permission.requested''" "gate_requested rd r e = Inr r'"
  | (resolve) "e_type e = ''permission.resolved''" "gate_resolved r e = Inr r'"
  | (stop) s where "e_type e \<in> {''run.completed'', ''run.cancelled'', ''run.failed''}" "terminal r e s = Inr r'"
      "\<forall>g. s \<noteq> PendingPermission g"
  | (other) "e_type e \<notin> {''tool.effect.started'', ''tool.effect.completed'', ''tool.effect.failed'', ''permission.requested'',
        ''permission.resolved'', ''run.completed'', ''run.cancelled'', ''run.failed''}"
      "run_started r e = Inr r' \<or> acquire_started r e = Inr r' \<or> acquire_completed r e = Inr r'
       \<or> attachment_ingested r e = Inr r' \<or> session_bound rd r e = Inr r' \<or> require_executable r e Streaming = Inr r'
       \<or> needs_attention r e = Inr r' \<or> run_resumed r e = Inr r' \<or> other_event r e = Inr r'"
proof -
  let ?named = "{''tool.effect.started'', ''tool.effect.completed'', ''tool.effect.failed'', ''permission.requested'',
        ''permission.resolved'', ''run.completed'', ''run.cancelled'', ''run.failed''}"
  show thesis
  proof (cases "e_type e \<in> ?named")
    case True
    then consider "e_type e = ''tool.effect.started''" | "e_type e \<in> {''tool.effect.completed'', ''tool.effect.failed''}"
      | "e_type e = ''permission.requested''" | "e_type e = ''permission.resolved''"
      | "e_type e \<in> {''run.completed'', ''run.cancelled'', ''run.failed''}" by blast
    then show thesis
    proof cases
      case 1
      then show thesis using assms effect_start by (simp add: transition_def)
    next
      case 2
      then show thesis using assms effect_end by (auto simp: transition_def)
    next
      case 3
      then show thesis using assms gate by (simp add: transition_def)
    next
      case 4
      then show thesis using assms resolve by (simp add: transition_def)
    next
      case 5
      then have "\<exists>s. terminal r e s = Inr r' \<and> (\<forall>g. s \<noteq> PendingPermission g)"
        using assms by (auto simp: transition_def result_bind_Inr_iff)
      with 5 show thesis using stop by blast
    qed
  next
    case False
    then show thesis using assms by (intro other) (auto simp: transition_def Let_def split: if_splits)
  qed
qed

lemma transition_effects:
  assumes "transition rd r e = Inr r'"
  shows "rr_effects r' = effects_step (rr_effects r) e \<and> rr_gate r' = gate_step_of rd (rr_gate r) e"
  using assms
proof (cases rule: transition_types)
  case effect_start
  with effect_transitions(1) [OF effect_start(2)] show ?thesis by (simp add: effects_step_def gate_step_of_def)
next
  case effect_end
  with effect_transitions(2) [OF effect_end(2)] show ?thesis by (auto simp: effects_step_def gate_step_of_def)
next
  case gate
  with gate_transitions(1) [OF gate(2)] show ?thesis by (auto simp: effects_step_def gate_step_of_def)
next
  case resolve
  with gate_transitions(2) [OF resolve(2)] show ?thesis by (simp add: effects_step_def gate_step_of_def)
next
  case (stop s)
  with keeping_transitions(7) [OF stop(2)] show ?thesis
    by (auto simp: effects_step_def gate_step_of_def keeps_def)
next
  case other
  then have "keeps r r'" by (elim disjE) (erule keeping_transitions)+
  with other(1) show ?thesis by (simp add: effects_step_def gate_step_of_def keeps_def)
qed

lemma terminal_ok: "reducer_ok r \<Longrightarrow> terminal r e s = Inr r' \<Longrightarrow> (\<forall>g. s \<noteq> PendingPermission g) \<Longrightarrow> reducer_ok r'"
proof -
  assume ok: "reducer_ok r" and t: "terminal r e s = Inr r'" and s: "\<forall>g. s \<noteq> PendingPermission g"
  have "rr_gate r = None"
  proof (cases "acquiring (status_of r) \<and> stops_early s")
    case True
    then have "settled (status_of r)" by (cases "status_of r" rule: acquiring.cases) auto
    with ok show ?thesis by (simp add: reducer_ok_def)
  next
    case False
    with t have "executable r" by (auto simp: terminal_def require_active_def result_bind_Inr_iff split: if_splits)
    then show ?thesis by (rule executable_ok)
  qed
  moreover have "rr_effects r = []" "r' = set_status r e s"
    using t by (auto simp: terminal_def result_bind_Inr_iff split: if_splits)
  ultimately show "reducer_ok r'" using s by (simp add: reducer_ok_def)
qed

lemma other_ok:
  assumes ok: "reducer_ok r"
  shows "run_started r e = Inr r' \<Longrightarrow> reducer_ok r'" "acquire_started r e = Inr r' \<Longrightarrow> reducer_ok r'"
    "acquire_completed r e = Inr r' \<Longrightarrow> reducer_ok r'" "attachment_ingested r e = Inr r' \<Longrightarrow> reducer_ok r'"
    "session_bound rd r e = Inr r' \<Longrightarrow> reducer_ok r'" "require_executable r e Streaming = Inr r' \<Longrightarrow> reducer_ok r'"
    "needs_attention r e = Inr r' \<Longrightarrow> reducer_ok r'" "run_resumed r e = Inr r' \<Longrightarrow> reducer_ok r'"
    "other_event r e = Inr r' \<Longrightarrow> reducer_ok r'"
proof -
  show "run_started r e = Inr r' \<Longrightarrow> reducer_ok r'" "acquire_started r e = Inr r' \<Longrightarrow> reducer_ok r'"
    "acquire_completed r e = Inr r' \<Longrightarrow> reducer_ok r'" "needs_attention r e = Inr r' \<Longrightarrow> reducer_ok r'"
    "run_resumed r e = Inr r' \<Longrightarrow> reducer_ok r'"
    using ok by (auto simp: transition_defs reducer_ok_def split: if_splits option.splits run_status.splits)
  show "session_bound rd r e = Inr r' \<Longrightarrow> reducer_ok r'" "require_executable r e Streaming = Inr r' \<Longrightarrow> reducer_ok r'"
    using ok by (auto simp: transition_defs reducer_ok_def split: if_splits option.splits)
  show "attachment_ingested r e = Inr r' \<Longrightarrow> reducer_ok r'"
    using ok by (auto simp: transition_defs reducer_ok_def executable_def status_of_def split: if_splits)
  show "other_event r e = Inr r' \<Longrightarrow> reducer_ok r'"
    using ok by (auto simp: transition_defs reducer_ok_def status_of_def split: option.splits)
qed

lemma transition_ok:
  assumes "reducer_ok r" "transition rd r e = Inr r'"
  shows "reducer_ok r'"
  using assms(2)
proof (cases rule: transition_types)
  case effect_start
  with effect_transitions(1) [OF effect_start(2)] assms(1) show ?thesis by (auto simp: reducer_ok_def)
next
  case effect_end
  with effect_transitions(2) [OF effect_end(2)] assms(1) show ?thesis by (auto simp: reducer_ok_def)
next
  case gate
  with gate_transitions(1) [OF gate(2)] assms(1) show ?thesis by (auto simp: reducer_ok_def)
next
  case resolve
  with gate_transitions(2) [OF resolve(2)] assms(1) show ?thesis by (auto simp: reducer_ok_def)
next
  case (stop s)
  show ?thesis by (rule terminal_ok [OF assms(1) stop(2,3)])
next
  case other
  then show ?thesis by (elim disjE) (erule other_ok [OF assms(1)])+
qed

section \<open>A whole journal\<close>

lemma other_stamped: "other_event r e = Inr r' \<Longrightarrow> precheck r e = Inr u \<Longrightarrow> stamped r' e"
  by (auto simp: other_event_def precheck_def stamped_def split: option.splits if_splits)

lemma set_stamped: "stamped (set_status r e s) e"
  by (simp add: stamped_def)

lemma stamping_transitions:
  "run_started r e = Inr r' \<Longrightarrow> stamped r' e"
  "acquire_started r e = Inr r' \<Longrightarrow> stamped r' e"
  "acquire_completed r e = Inr r' \<Longrightarrow> stamped r' e"
  "attachment_ingested r e = Inr r' \<Longrightarrow> stamped r' e"
  "session_bound rd r e = Inr r' \<Longrightarrow> stamped r' e"
  "require_executable r e s = Inr r' \<Longrightarrow> stamped r' e"
  "terminal r e s = Inr r' \<Longrightarrow> stamped r' e"
  "needs_attention r e = Inr r' \<Longrightarrow> stamped r' e"
  "run_resumed r e = Inr r' \<Longrightarrow> stamped r' e"
  "gate_requested rd r e = Inr r' \<Longrightarrow> stamped r' e"
  "gate_resolved r e = Inr r' \<Longrightarrow> stamped r' e"
  "effect_started r e = Inr r' \<Longrightarrow> stamped r' e"
  "effect_finished r e = Inr r' \<Longrightarrow> stamped r' e"
  by (auto simp: transition_defs set_stamped split: if_splits option.splits run_status.splits)

lemma transition_stamped:
  assumes "transition rd r e = Inr r'" "precheck r e = Inr u"
  shows "stamped r' e"
  using assms(1)
proof (cases rule: transition_types)
  case other
  then show ?thesis using other_stamped [OF _ assms(2)] by (elim disjE) (erule stamping_transitions | assumption)+
qed (erule stamping_transitions)+

lemma applies_ok:
  assumes "reducer_applies rd r es = Inr r'" "reducer_ok r"
  shows "reducer_ok r' \<and> rr_effects r' = foldl effects_step (rr_effects r) es
    \<and> rr_gate r' = foldl (gate_step_of rd) (rr_gate r) es"
  using assms
proof (induction es arbitrary: r)
  case (Cons e es)
  then obtain r1 where r1: "transition rd r e = Inr r1" "reducer_applies rd r1 es = Inr r'"
    by (auto simp: reducer_apply_def result_bind_Inr_iff)
  with Cons.IH [OF r1(2) transition_ok [OF Cons.prems(2) r1(1)]] transition_effects [OF r1(1)]
  show ?case by simp
qed simp

definition run_of :: "run_reducer \<Rightarrow> string option" where
  "run_of r = map_option rs_run_id (rr_state r)"

lemma applies_numbers:
  assumes "reducer_applies rd r es = Inr r'" "i < length es"
  shows "e_run_seq (es ! i) = expected_seq r + of_nat i \<and> Some (e_run_id (es ! i)) = run_of r'"
  using assms
proof (induction es arbitrary: r i)
  case (Cons e es)
  then obtain r1 u where r1: "precheck r e = Inr u" "transition rd r e = Inr r1" "reducer_applies rd r1 es = Inr r'"
    by (auto simp: reducer_apply_def result_bind_Inr_iff)
  have st: "stamped r1 e" using transition_stamped [OF r1(2,1)] .
  have seq: "e_run_seq e = expected_seq r" using r1(1) by (simp add: precheck_def split: if_splits)
  have next_seq: "expected_seq r1 = e_run_seq e + 1" "run_of r1 = Some (e_run_id e)"
    using st by (auto simp: stamped_def expected_seq_def run_of_def)
  have same: "run_of r1 = Some x \<Longrightarrow> reducer_applies rd r1 fs = Inr r' \<Longrightarrow> run_of r' = Some x" for r1 fs x
  proof (induction fs arbitrary: r1)
    case (Cons f fs)
    then obtain r2 v where r2: "precheck r1 f = Inr v" "transition rd r1 f = Inr r2" "reducer_applies rd r2 fs = Inr r'"
      by (auto simp: reducer_apply_def result_bind_Inr_iff)
    have "run_of r2 = Some (e_run_id f)" using transition_stamped [OF r2(2,1)] by (auto simp: stamped_def run_of_def)
    moreover have "e_run_id f = x"
      using r2(1) Cons.prems(1) by (auto simp: precheck_def run_of_def split: if_splits option.splits)
    ultimately show ?case using Cons.IH r2(3) by simp
  qed simp
  show ?case
  proof (cases i)
    case 0
    with seq same [OF next_seq(2) r1(3)] show ?thesis by simp
  next
    case (Suc j)
    with Cons.IH [OF r1(3), of j] Cons.prems(2) next_seq(1) seq show ?thesis by (simp add: add.commute add.left_commute)
  qed
qed simp

lemma applies_last:
  assumes "reducer_applies rd r es = Inr r'" "expected_seq r = of_nat n"
  shows "expected_seq r' = of_nat (n + length es)"
  using assms
proof (induction es arbitrary: r n)
  case (Cons e es)
  then obtain r1 u where r1: "precheck r e = Inr u" "transition rd r e = Inr r1" "reducer_applies rd r1 es = Inr r'"
    by (auto simp: reducer_apply_def result_bind_Inr_iff)
  have "e_run_seq e = of_nat n" using r1(1) Cons.prems(2) by (simp add: precheck_def split: if_splits)
  with transition_stamped [OF r1(2,1)] have "expected_seq r1 = of_nat (Suc n)"
    by (auto simp: stamped_def expected_seq_def add.commute)
  from Cons.IH [OF r1(3) this] show ?case by simp
qed simp

lemma reducer_new_ok: "reducer_ok reducer_new" "expected_seq reducer_new = 1"
    "rr_effects reducer_new = []" "rr_gate reducer_new = None"
  by (simp_all add: reducer_ok_def reducer_new_def status_of_def expected_seq_def)

lemma reduceE:
  assumes "reduce rd es = Inr s"
  obtains r s0 where "reducer_applies rd reducer_new es = Inr r" "rr_state r = Some s0"
    "rs_run_id s = rs_run_id s0" "rs_last_seq s = rs_last_seq s0"
    "if rr_gate r = None \<and> rr_effects r \<noteq> [] then \<exists>why. rs_status s = NeedsAttention why else rs_status s = rs_status s0"
proof -
  from assms obtain r where r: "reducer_applies rd reducer_new es = Inr r" "reducer_finish r = Inr s"
    by (auto simp: reduce_def result_bind_Inr_iff)
  then obtain s0 where s0: "rr_state r = Some s0" by (cases "rr_state r") (auto simp: reducer_finish_def)
  with r show thesis
    by (intro that [OF r(1) s0]) (auto simp: reducer_finish_def split: if_splits list.splits run_status.splits)
qed

text \<open>C14: A journal the reducer accepts is numbered from one without a gap and belongs to one run. The effects and the gate
  the reducer holds open after it are exactly those its events started or requested and did not finish or resolve. The
  run it tells of has ended only when no effect and no gate is open, while a run left with an open effect, and no gate to
  answer, needs attention.\<close>

theorem journal_accounts_for_effects:
  assumes "reduce rd es = Inr s"
  shows "(\<forall>i<length es. e_run_seq (es ! i) = of_nat (i + 1) \<and> e_run_id (es ! i) = rs_run_id s)
    \<and> rs_last_seq s = of_nat (length es) \<and> distinct (open_effects es)
    \<and> (\<exists>r. reducer_applies rd reducer_new es = Inr r \<and> rr_effects r = open_effects es \<and> rr_gate r = pending_gate rd es)
    \<and> (rs_status s \<in> {Completed, Cancelled} \<union> range Failed \<longrightarrow> open_effects es = [] \<and> pending_gate rd es = None)
    \<and> (open_effects es \<noteq> [] \<and> pending_gate rd es = None \<longrightarrow> rs_status s \<in> range NeedsAttention)"
proof -
  obtain r s0 where r: "reducer_applies rd reducer_new es = Inr r" "rr_state r = Some s0"
    "rs_run_id s = rs_run_id s0" "rs_last_seq s = rs_last_seq s0"
    and st: "if rr_gate r = None \<and> rr_effects r \<noteq> [] then \<exists>why. rs_status s = NeedsAttention why
      else rs_status s = rs_status s0"
    using assms by (rule reduceE)
  note ok = applies_ok [OF r(1) reducer_new_ok(1)]
  have eff: "rr_effects r = open_effects es" "rr_gate r = pending_gate rd es"
    using ok by (simp_all add: open_effects_def pending_gate_def reducer_new_ok(3,4))
  have inv: "distinct (rr_effects r)" "settled (status_of r) \<Longrightarrow> rr_gate r = None \<and> rr_effects r = []"
    using ok unfolding reducer_ok_def by blast+
  have "rs_last_seq s0 + 1 = of_nat (1 + length es)"
    using applies_last [OF r(1), of 1] r(2) by (simp add: reducer_new_ok(2)) (simp add: expected_seq_def)
  then have last: "rs_last_seq s = of_nat (length es)" using r(4) by simp
  have ended: "rs_status s \<in> {Completed, Cancelled} \<union> range Failed \<Longrightarrow> rr_effects r = [] \<and> rr_gate r = None"
  proof -
    assume e: "rs_status s \<in> {Completed, Cancelled} \<union> range Failed"
    with st have "rs_status s = rs_status s0" by (auto split: if_splits)
    with e have "settled (status_of r)" by (auto simp: status_of_def r(2))
    with inv(2) show ?thesis by blast
  qed
  have "\<forall>i<length es. e_run_seq (es ! i) = of_nat (i + 1) \<and> e_run_id (es ! i) = rs_run_id s"
    using applies_numbers [OF r(1)] r(2,3) by (simp add: reducer_new_ok(2) run_of_def)
  moreover have "open_effects es \<noteq> [] \<and> pending_gate rd es = None \<longrightarrow> rs_status s \<in> range NeedsAttention"
    using st unfolding eff by (cases "open_effects es = []"; cases "pending_gate rd es") auto
  moreover have "\<exists>r. reducer_applies rd reducer_new es = Inr r \<and> rr_effects r = open_effects es \<and> rr_gate r = pending_gate rd es"
    using r(1) eff by blast
  ultimately show ?thesis using last inv(1) ended unfolding eff by blast
qed

text \<open>A run goes on only when it is safe to: the reducer accepts a resumption only after a journal with no
  open effect, no pending gate and a bound session, on a run that needs attention; and after a run
  ended, the only event that changes it again is one that asks for attention.\<close>

theorem resumed_only_when_safe:
  assumes "reducer_applies rd reducer_new es = Inr r" "reducer_apply rd r e = Inr r'"
  shows "(e_type e = ''run.resumed'' \<longrightarrow> open_effects es = [] \<and> pending_gate rd es = None \<and> rr_session r \<noteq> None
      \<and> status_of r \<in> Some ` range NeedsAttention)
    \<and> (status_of r \<in> Some ` ({Completed, Cancelled} \<union> range Failed) \<longrightarrow>
        e_type e = ''run.needs_attention'' \<or> status_of r' = status_of r)"
proof -
  from assms(2) obtain u where p: "precheck r e = Inr u" and t: "transition rd r e = Inr r'"
    by (auto simp: reducer_apply_def result_bind_Inr_iff)
  note ok = applies_ok [OF assms(1) reducer_new_ok(1)]
  have eff: "rr_effects r = open_effects es" "rr_gate r = pending_gate rd es"
    using ok by (simp_all add: open_effects_def pending_gate_def reducer_new_ok(3,4))
  have "open_effects es = [] \<and> pending_gate rd es = None \<and> rr_session r \<noteq> None
      \<and> status_of r \<in> Some ` range NeedsAttention" if "e_type e = ''run.resumed''"
  proof -
    have res: "run_resumed r e = Inr r'" using t that by (simp add: transition_def)
    then have "rr_gate r = None" "rr_effects r = []" "rr_session r \<noteq> None"
      and s: "\<not> (case status_of r of Some (NeedsAttention _) \<Rightarrow> False | _ \<Rightarrow> True)"
      by (simp_all add: run_resumed_def split: if_splits)
    moreover from s have "status_of r \<in> Some ` range NeedsAttention" by (auto split: option.splits run_status.splits)
    ultimately show ?thesis using eff by simp
  qed
  moreover have "e_type e = ''run.needs_attention'' \<or> status_of r' = status_of r"
    if s: "status_of r \<in> Some ` ({Completed, Cancelled} \<union> range Failed)"
  proof (rule disjCI)
    assume st: "status_of r' \<noteq> status_of r"
    have ended_now: "(case rr_state r of None \<Rightarrow> False | Some s \<Rightarrow> is_terminal s)"
      using s by (auto simp: status_of_def is_terminal_def)
    have "other_event r e = Inr r' \<Longrightarrow> status_of r' = status_of r"
      by (auto simp: other_event_def status_of_def split: option.splits)
    with st have "other_event r e \<noteq> Inr r'" by blast
    then have "is_state_event (e_type e)"
      using t unfolding transition_def Let_def
      by (auto simp: is_state_event_def starts_with_def split: if_splits)
    with p ended_now have "e_type e \<in> {''run.needs_attention'', ''run.resumed'', ''runtime.pi_acquire.started''}"
      by (auto simp: precheck_def split: if_splits)
    moreover have "run_resumed r e \<noteq> Inr r'" "acquire_started r e \<noteq> Inr r'"
      using s by (auto simp: run_resumed_def acquire_started_def split: if_splits)
    ultimately show "e_type e = ''run.needs_attention''" using t by (auto simp: transition_def)
  qed
  ultimately show ?thesis by blast
qed

section \<open>Witnesses and counterexamples\<close>

definition sample_event :: "nat \<Rightarrow> string \<Rightarrow> (string \<times> json) list \<Rightarrow> event_envelope" where
  "sample_event n t kvs = \<lparr>e_event_id = dec_str n, e_run_id = ''r'', e_run_seq = of_nat n, e_type = t, e_version = 1,
     e_envelope_version = 1, e_recorded_at = [], e_occurred_at = None, e_correlation = None, e_causation = None,
     e_payload = Inline (JObject kvs), e_provenance = \<lparr>pv_source = ''core'', pv_source_version = ''1'', pv_actor_id = None,
       pv_device_id = None, pv_rpc_request_id = None, pv_capability_versions = None, pv_extra = []\<rparr>, e_extra = []\<rparr>"

definition sample_gate :: permission_gate where
  "sample_gate = \<lparr>pg_gate_id = ''g'', pg_request = PConfirm ''t'' ''m'' None, pg_policy = None\<rparr>"

definition sample_payloads :: payload_reader where
  "sample_payloads = \<lparr>rd_gate = (\<lambda>_. Some sample_gate),
     rd_binding = (\<lambda>_. Some \<lparr>pb_run_id = ''r'', pb_locator = ''s.jsonl''\<rparr>), rd_recall = (\<lambda>_. None)\<rparr>"

lemmas sample_defs = reduce_def reducer_apply_def precheck_def transition_def transition_defs sample_event_def
  sample_payloads_def sample_gate_def reducer_new_def set_status_def status_of_def executable_def expected_seq_def
  is_safety_event_def is_known_safety_event_def is_state_event_def starts_with_def is_terminal_def field_def
  optional_field_def payload_def reducer_finish_def open_effects_def effects_step_def effect_id_def
  pending_gate_def gate_step_of_def invalid_def binding_ok_def ends_with_def

theorem journal_accounts_for_effects_witness:
  "\<exists>s. reduce sample_payloads [sample_event 1 ''run.started'' [], sample_event 2 ''tool.effect.started'' [(''effect_id'', JString ''a'')]]
      = Inr s \<and> rs_status s \<in> range NeedsAttention"
proof -
  let ?es = "[sample_event 1 ''run.started'' [], sample_event 2 ''tool.effect.started'' [(''effect_id'', JString ''a'')]]"
  obtain s where s: "reduce sample_payloads ?es = Inr s" by (simp add: sample_defs)
  moreover have "open_effects ?es \<noteq> []" "pending_gate sample_payloads ?es = None" by (simp_all add: sample_defs)
  ultimately show ?thesis using journal_accounts_for_effects [OF s] by blast
qed

theorem resumed_only_when_safe_witness:
  "\<exists>r r'. reducer_applies sample_payloads reducer_new
      [sample_event 1 ''run.started'' [], sample_event 2 ''runtime.pi_session.bound'' [],
       sample_event 3 ''run.needs_attention'' []] = Inr r
    \<and> reducer_apply sample_payloads r (sample_event 4 ''run.resumed'' []) = Inr r'
    \<and> status_of r \<in> Some ` range NeedsAttention \<and> rr_session r \<noteq> None"
proof -
  let ?es = "[sample_event 1 ''run.started'' [], sample_event 2 ''runtime.pi_session.bound'' [],
       sample_event 3 ''run.needs_attention'' []]"
  let ?e = "sample_event 4 ''run.resumed'' []"
  obtain r r' where r: "reducer_applies sample_payloads reducer_new ?es = Inr r"
    "reducer_apply sample_payloads r ?e = Inr r'"
    by (simp add: sample_defs)
  moreover have "e_type ?e = ''run.resumed''" by (simp add: sample_event_def)
  ultimately show ?thesis using resumed_only_when_safe [OF r] by blast
qed

text \<open>While a question waits, the outcome of another tool call hides it: an effect that finishes under a
  pending gate makes the run active again, so the live projection's status no longer shows the gate,
  though the gate is still pending and the run accepts nothing else until it is answered. And a
  journal may begin with a request for attention, though every first event is meant to start the run.\<close>

theorem finished_effect_hides_gate:
  "(\<exists>r. reducer_applies sample_payloads reducer_new
      [sample_event 1 ''run.started'' [], sample_event 2 ''tool.effect.started'' [(''effect_id'', JString ''a'')],
       sample_event 3 ''permission.requested'' [], sample_event 4 ''tool.effect.completed'' [(''effect_id'', JString ''a'')]]
      = Inr r \<and> status_of r = Some Active \<and> rr_gate r = Some sample_gate \<and> \<not> executable r)
   \<and> (\<exists>r. reducer_applies sample_payloads reducer_new [sample_event 1 ''run.needs_attention'' []] = Inr r)"
  by (simp add: sample_defs)

end
