(* ===== verification/Run_Projection.thy ===== *)
theory Run_Projection
  imports Reducer_Properties
begin

text \<open>
  What a client shows of a run (\<open>journal/reducer.rs\<close>: \<open>ChatProjection\<close>, \<open>ChatProjector\<close>,
  \<open>project_chat\<close>, \<open>project_chat_fragment\<close>), and the append that applies an event, writes it and takes
  the projector back when the write fails (\<open>journal/run_append.rs\<close>). The journal's \<open>append\<close> is an
  argument. A projector method that fails half way gives the projector it leaves and the error. The
  cache of verified diffs is a map from effect ids; the delivery memo of the event stream, which no
  method here touches, is left out.
\<close>

section \<open>Data\<close>

datatype activity_status = ActRunning | ActCompleted | ActFailed

record tool_activity =
  ta_offset :: nat
  ta_effect :: string
  ta_parent :: "string option"
  ta_name :: "string option"
  ta_status :: activity_status
  ta_input :: "string option"
  ta_output :: "string option"
  ta_started :: "string option"
  ta_finished :: "string option"

record projected_attachment =
  pa_name :: string
  pa_bytes :: u64
  pa_media :: "string option"
  pa_sha256 :: "string option"

record projected_applied_diff =
  ad_effect :: string
  ad_diff :: string
  ad_sha256 :: string
  ad_plan_sha256 :: string

record projected_steer =
  st_text :: string
  st_offset :: nat
  st_sent :: string

record chat_projection =
  cp_started_at :: "string option"
  cp_prompt_accepted :: bool
  cp_turn_started :: bool
  cp_routing_stage :: "string option"
  cp_storage_notice :: "string option"
  cp_resume_notice :: "string option"
  cp_failure_detail :: "string option"
  cp_text :: string
  cp_receipt :: "json option"
  cp_status :: "run_status option"
  cp_pending :: "permission_gate option"
  cp_activity :: "tool_activity list"
  cp_attachments :: "projected_attachment list"
  cp_recalls :: "recall list"
  cp_diffs :: "projected_applied_diff list"
  cp_steers :: "projected_steer list"

definition chat_default :: chat_projection where
  "chat_default = \<lparr>cp_started_at = None, cp_prompt_accepted = False, cp_turn_started = False, cp_routing_stage = None,
     cp_storage_notice = None, cp_resume_notice = None, cp_failure_detail = None, cp_text = [], cp_receipt = None,
     cp_status = None, cp_pending = None, cp_activity = [], cp_attachments = [], cp_recalls = [], cp_diffs = [],
     cp_steers = []\<rparr>"

record 'd chat_projector =
  pj_chat :: chat_projection
  pj_reducer :: run_reducer
  pj_utf16 :: nat
  pj_cache :: "string \<rightharpoonup> 'd"

definition projector_new :: "'d chat_projector" where
  "projector_new = \<lparr>pj_chat = chat_default, pj_reducer = reducer_new, pj_utf16 = 0, pj_cache = Map.empty\<rparr>"

section \<open>Parts of an event\<close>

text \<open>\<open>encode_utf16().count()\<close> over UTF-8 bytes: a leading byte counts one unit, or two above U+FFFF, and
  a continuation byte none.\<close>

definition utf16_units :: "char \<Rightarrow> nat" where
  "utf16_units c = (let n = of_char c :: nat in if 128 \<le> n \<and> n < 192 then 0 else if n < 240 then 1 else 2)"

definition utf16_len :: "string \<Rightarrow> nat" where
  "utf16_len s = sum_list (map utf16_units s)"

text \<open>\<open>rposition\<close>: the last index that satisfies the predicate.\<close>

fun rposition :: "('a \<Rightarrow> bool) \<Rightarrow> 'a list \<Rightarrow> nat option" where
  "rposition P [] = None"
| "rposition P (x # xs) =
     (case rposition P xs of Some i \<Rightarrow> Some (Suc i) | None \<Rightarrow> if P x then Some 0 else None)"

text \<open>\<open>rsplit_once('/')\<close>, its left part.\<close>

definition before_last_slash :: "string \<Rightarrow> string option" where
  "before_last_slash s = map_option (\<lambda>i. take i s) (rposition (\<lambda>c. c = CHR ''/'') s)"

definition parent_effect :: "event_envelope \<Rightarrow> tool_activity list \<Rightarrow> reduce_error + string option" where
  "parent_effect e earlier =
     result_bind (optional_field e ''parent_effect_id'') (\<lambda>named.
       case named of
         Some parent \<Rightarrow> Inr (Some parent)
       | None \<Rightarrow> result_bind (field e ''effect_id'') (\<lambda>i. Inr (
           case before_last_slash i of
             Some parent \<Rightarrow> if list_ex (\<lambda>a. ta_effect a = parent) earlier then Some parent else None
           | None \<Rightarrow> None)))"

definition projected_recall :: "payload_reader \<Rightarrow> event_envelope \<Rightarrow> reduce_error + recall" where
  "projected_recall rd e = result_bind (payload e) (\<lambda>v.
     case rd_recall rd v of None \<Rightarrow> Inl (invalid e ''memory recall payload is invalid'') | Some r \<Rightarrow> Inr r)"

definition projected_diff :: "event_envelope \<Rightarrow> reduce_error + projected_applied_diff" where
  "projected_diff e =
     result_bind (field e ''effect_id'') (\<lambda>i.
     result_bind (field e ''code_diff_id'') (\<lambda>d.
     result_bind (field e ''diff_sha256'') (\<lambda>s.
     result_bind (field e ''write_plan_sha256'') (\<lambda>w.
       Inr \<lparr>ad_effect = i, ad_diff = d, ad_sha256 = s, ad_plan_sha256 = w\<rparr>))))"

definition attachment_of :: "event_envelope \<Rightarrow> reduce_error + projected_attachment" where
  "attachment_of e =
     (case e_payload e of
        Attached a \<Rightarrow> Inr \<lparr>pa_name = at_name a, pa_bytes = at_bytes a, pa_media = at_media a, pa_sha256 = Some (at_sha256 a)\<rparr>
      | _ \<Rightarrow> Inl (MissingAttachmentPayload (e_type e)))"

definition steer_of :: "event_envelope \<Rightarrow> nat \<Rightarrow> reduce_error + projected_steer" where
  "steer_of e offset = result_bind (field e ''text'') (\<lambda>s.
     Inr \<lparr>st_text = s, st_offset = offset, st_sent = e_recorded_at e\<rparr>)"

definition activity_of :: "event_envelope \<Rightarrow> nat \<Rightarrow> tool_activity list \<Rightarrow> reduce_error + tool_activity" where
  "activity_of e offset earlier =
     result_bind (parent_effect e earlier) (\<lambda>parent.
     result_bind (field e ''effect_id'') (\<lambda>i.
     result_bind (optional_field e ''display_name'') (\<lambda>name.
     result_bind (optional_field e ''input'') (\<lambda>inp.
       Inr \<lparr>ta_offset = offset, ta_effect = i, ta_parent = parent, ta_name = name, ta_status = ActRunning,
         ta_input = inp, ta_output = None, ta_started = Some (e_recorded_at e), ta_finished = None\<rparr>))))"

definition finish_activity :: "event_envelope \<Rightarrow> tool_activity list \<Rightarrow> reduce_error + tool_activity list" where
  "finish_activity e acts =
     result_bind (field e ''effect_id'') (\<lambda>i.
       case rposition (\<lambda>a. ta_effect a = i) acts of
         None \<Rightarrow> Inr acts
       | Some n \<Rightarrow> result_bind (optional_field e ''output'') (\<lambda>out.
           Inr (acts[n := (acts ! n)\<lparr>ta_output := out, ta_finished := Some (e_recorded_at e),
             ta_status := if e_type e = ''tool.effect.completed'' then ActCompleted else ActFailed\<rparr>])))"

section \<open>The projector\<close>

text \<open>A step that reads a field or fails, and then changes the chat.\<close>

definition reading :: "'d chat_projector \<Rightarrow> reduce_error + 'a \<Rightarrow> ('a \<Rightarrow> chat_projection \<Rightarrow> chat_projection)
    \<Rightarrow> 'd chat_projector \<times> (reduce_error + unit)" where
  "reading p r f = (case r of Inl err \<Rightarrow> (p, Inl err) | Inr x \<Rightarrow> (p\<lparr>pj_chat := f x (pj_chat p)\<rparr>, Inr ()))"

definition shown_stage :: "string \<Rightarrow> bool" where
  "shown_stage s \<longleftrightarrow> s \<in> {''choosing-model'', ''waiting-for-account'', ''fallback'', ''thinking''}
     \<or> s = ''folder-access'' \<or> starts_with s ''folder-access:'' \<or> starts_with s ''retrying:''"

definition routed :: "string \<Rightarrow> chat_projection \<Rightarrow> chat_projection" where
  "routed s c = (if shown_stage s then c\<lparr>cp_routing_stage := Some s\<rparr>
                 else if s = ''routing'' then c\<lparr>cp_routing_stage := None\<rparr> else c)"

definition started_event :: "'d chat_projector \<Rightarrow> event_envelope \<Rightarrow> 'd chat_projector \<times> (reduce_error + unit)" where
  "started_event p e =
     (let p = p\<lparr>pj_chat := (pj_chat p)\<lparr>cp_started_at := Some (e_recorded_at e)\<rparr>\<rparr>
      in reading p (optional_field e ''prompt_storage_notice'') (\<lambda>n c. c\<lparr>cp_storage_notice := n\<rparr>))"

definition delta_event :: "'d chat_projector \<Rightarrow> event_envelope \<Rightarrow> 'd chat_projector \<times> (reduce_error + unit)" where
  "delta_event p e =
     (case field e ''text'' of
        Inl err \<Rightarrow> (p, Inl err)
      | Inr s \<Rightarrow> (p\<lparr>pj_utf16 := pj_utf16 p + utf16_len s,
          pj_chat := (pj_chat p)\<lparr>cp_routing_stage := None, cp_text := cp_text (pj_chat p) @ s\<rparr>\<rparr>, Inr ()))"

text \<open>What each event adds to the chat, once the reducer took it.\<close>

definition chat_event :: "payload_reader \<Rightarrow> 'd chat_projector \<Rightarrow> event_envelope \<Rightarrow> 'd chat_projector \<times> (reduce_error + unit)" where
  "chat_event rd p e =
     (let t = e_type e in
      if t = ''run.started'' then started_event p e
      else if t = ''chat.prompt.storage_notice'' then reading p (field e ''notice'') (\<lambda>n c. c\<lparr>cp_storage_notice := Some n\<rparr>)
      else if t = ''run.resumed''
      then reading p (optional_field e ''notice'') (\<lambda>n c. if n = None then c else c\<lparr>cp_resume_notice := n\<rparr>)
      else if t = ''run.failed'' then reading p (optional_field e ''detail'') (\<lambda>d c. c\<lparr>cp_failure_detail := d\<rparr>)
      else if t = ''chat.attachment.ingested''
      then reading p (attachment_of e) (\<lambda>a c. c\<lparr>cp_attachments := cp_attachments c @ [a]\<rparr>)
      else if t = ''model.prompt.accepted'' then (p\<lparr>pj_chat := (pj_chat p)\<lparr>cp_prompt_accepted := True\<rparr>\<rparr>, Inr ())
      else if t = ''model.turn.started'' then (p\<lparr>pj_chat := (pj_chat p)\<lparr>cp_turn_started := True\<rparr>\<rparr>, Inr ())
      else if t = ''model.routing.stage'' then reading p (field e ''stage'') routed
      else if t = ''model.stream.delta'' then delta_event p e
      else if t = ''memory.recalled'' then reading p (projected_recall rd e) (\<lambda>r c. c\<lparr>cp_recalls := cp_recalls c @ [r]\<rparr>)
      else if t = ''code.diff.applied'' then reading p (projected_diff e) (\<lambda>d c. c\<lparr>cp_diffs := cp_diffs c @ [d]\<rparr>)
      else if t = ''run.steered'' then reading p (steer_of e (pj_utf16 p)) (\<lambda>s c. c\<lparr>cp_steers := cp_steers c @ [s]\<rparr>)
      else if t \<in> {''code.diff.proposed'', ''code.write-plan.staged''}
      then (case e_correlation e of None \<Rightarrow> (p, Inr ()) | Some i \<Rightarrow> (p\<lparr>pj_cache := (pj_cache p)(i := None)\<rparr>, Inr ()))
      else if t = ''tool.effect.started''
      then reading p (activity_of e (pj_utf16 p) (cp_activity (pj_chat p))) (\<lambda>a c. c\<lparr>cp_activity := cp_activity c @ [a]\<rparr>)
      else if t \<in> {''tool.effect.completed'', ''tool.effect.failed''}
      then reading p (finish_activity e (cp_activity (pj_chat p))) (\<lambda>acts c. c\<lparr>cp_activity := acts\<rparr>)
      else if t = ''run.completed'' then reading p (payload e) (\<lambda>v c. c\<lparr>cp_receipt := jget v ''receipt''\<rparr>)
      else (p, Inr ()))"

definition chat_apply :: "payload_reader \<Rightarrow> 'd chat_projector \<Rightarrow> event_envelope \<Rightarrow> 'd chat_projector \<times> (reduce_error + unit)" where
  "chat_apply rd p e =
     (case reducer_apply rd (pj_reducer p) e of
        Inl err \<Rightarrow> (p, Inl err)
      | Inr r \<Rightarrow> chat_event rd (p\<lparr>pj_reducer := r\<rparr>) e)"

fun chat_applies :: "payload_reader \<Rightarrow> 'd chat_projector \<Rightarrow> event_envelope list \<Rightarrow> 'd chat_projector \<times> (reduce_error + unit)" where
  "chat_applies rd p [] = (p, Inr ())"
| "chat_applies rd p (e # es) =
     (case chat_apply rd p e of (p, Inl err) \<Rightarrow> (p, Inl err) | (p, Inr _) \<Rightarrow> chat_applies rd p es)"

definition tool_names :: "'d chat_projector \<Rightarrow> string list" where
  "tool_names p = map (\<lambda>a. case ta_name a of None \<Rightarrow> [] | Some n \<Rightarrow> n) (cp_activity (pj_chat p))"

fun gate_shown :: "run_status \<Rightarrow> permission_gate option" where
  "gate_shown (PendingPermission g) = Some g"
| "gate_shown _ = None"

definition projection :: "'d chat_projector \<Rightarrow> reduce_error + chat_projection" where
  "projection p =
     (case rr_state (pj_reducer p) of
        None \<Rightarrow> Inl (InvalidTransition ''live-projection'' ''empty journal'')
      | Some s \<Rightarrow> Inr ((pj_chat p)\<lparr>cp_pending := gate_shown (rs_status s), cp_status := Some (rs_status s)\<rparr>))"

definition projector_finish :: "'d chat_projector \<Rightarrow> reduce_error + chat_projection \<times> run_state" where
  "projector_finish p =
     result_bind (reducer_finish (pj_reducer p)) (\<lambda>s.
       Inr ((pj_chat p)\<lparr>cp_pending := gate_shown (rs_status s), cp_status := Some (rs_status s)\<rparr>, s))"

definition project_chat_with_state :: "payload_reader \<Rightarrow> event_envelope list \<Rightarrow> reduce_error + chat_projection \<times> run_state" where
  "project_chat_with_state rd es =
     (case chat_applies rd (projector_new :: unit chat_projector) es of
        (_, Inl err) \<Rightarrow> Inl err
      | (p, Inr _) \<Rightarrow> projector_finish p)"

definition project_chat :: "payload_reader \<Rightarrow> event_envelope list \<Rightarrow> reduce_error + chat_projection" where
  "project_chat rd es = result_bind (project_chat_with_state rd es) (\<lambda>(chat, _). Inr chat)"

section \<open>A page of a run\<close>

definition fragment_event :: "payload_reader \<Rightarrow> chat_projection \<Rightarrow> event_envelope \<Rightarrow> reduce_error + chat_projection" where
  "fragment_event rd c e =
     (let t = e_type e in
      if t = ''run.started''
      then result_bind (optional_field e ''prompt_storage_notice'') (\<lambda>n. Inr (c\<lparr>cp_storage_notice := n\<rparr>))
      else if t = ''chat.prompt.storage_notice''
      then result_bind (field e ''notice'') (\<lambda>n. Inr (c\<lparr>cp_storage_notice := Some n\<rparr>))
      else if t = ''run.resumed''
      then result_bind (optional_field e ''notice'') (\<lambda>n. Inr (if n = None then c else c\<lparr>cp_resume_notice := n\<rparr>))
      else if t = ''run.failed'' then result_bind (optional_field e ''detail'') (\<lambda>d. Inr (c\<lparr>cp_failure_detail := d\<rparr>))
      else if t = ''chat.attachment.ingested''
      then result_bind (attachment_of e) (\<lambda>a. Inr (c\<lparr>cp_attachments := cp_attachments c @ [a]\<rparr>))
      else if t = ''model.stream.delta'' then result_bind (field e ''text'') (\<lambda>s. Inr (c\<lparr>cp_text := cp_text c @ s\<rparr>))
      else if t = ''memory.recalled''
      then result_bind (projected_recall rd e) (\<lambda>r. Inr (c\<lparr>cp_recalls := cp_recalls c @ [r]\<rparr>))
      else if t = ''code.diff.applied'' then result_bind (projected_diff e) (\<lambda>d. Inr (c\<lparr>cp_diffs := cp_diffs c @ [d]\<rparr>))
      else if t = ''run.steered''
      then result_bind (steer_of e (utf16_len (cp_text c))) (\<lambda>s. Inr (c\<lparr>cp_steers := cp_steers c @ [s]\<rparr>))
      else if t = ''tool.effect.started''
      then result_bind (activity_of e (utf16_len (cp_text c)) (cp_activity c)) (\<lambda>a. Inr (c\<lparr>cp_activity := cp_activity c @ [a]\<rparr>))
      else if t \<in> {''tool.effect.completed'', ''tool.effect.failed''}
      then result_bind (finish_activity e (cp_activity c)) (\<lambda>acts. Inr (c\<lparr>cp_activity := acts\<rparr>))
      else Inr c)"

fun fragment_events :: "payload_reader \<Rightarrow> chat_projection \<Rightarrow> event_envelope list \<Rightarrow> reduce_error + chat_projection" where
  "fragment_events rd c [] = Inr c"
| "fragment_events rd c (e # es) = result_bind (fragment_event rd c e) (\<lambda>c. fragment_events rd c es)"

definition project_chat_fragment :: "payload_reader \<Rightarrow> event_envelope list \<Rightarrow> reduce_error + chat_projection" where
  "project_chat_fragment rd es = fragment_events rd chat_default es"

section \<open>Checkpoint and restore\<close>

record chat_checkpoint =
  ck_reducer :: run_reducer
  ck_text_len :: nat
  ck_utf16 :: nat
  ck_prompt_accepted :: bool
  ck_turn_started :: bool
  ck_routing_stage :: "string option"
  ck_storage_notice :: "string option"
  ck_resume_notice :: "string option"
  ck_failure_detail :: "string option"
  ck_receipt :: "json option option"
  ck_activity_len :: nat
  ck_finished :: "(nat \<times> tool_activity) option"
  ck_attachments_len :: nat
  ck_recalls_len :: nat
  ck_diffs_len :: nat
  ck_steers_len :: nat

definition finished_slot :: "event_envelope \<Rightarrow> tool_activity list \<Rightarrow> (nat \<times> tool_activity) option" where
  "finished_slot e acts =
     (if e_type e \<in> {''tool.effect.completed'', ''tool.effect.failed''}
      then (case optional_field e ''effect_id'' of
              Inr (Some i) \<Rightarrow> map_option (\<lambda>n. (n, acts ! n)) (rposition (\<lambda>a. ta_effect a = i) acts)
            | _ \<Rightarrow> None)
      else None)"

definition checkpoint :: "'d chat_projector \<Rightarrow> event_envelope \<Rightarrow> chat_checkpoint" where
  "checkpoint p e = (let c = pj_chat p in
     \<lparr>ck_reducer = pj_reducer p, ck_text_len = length (cp_text c), ck_utf16 = pj_utf16 p,
      ck_prompt_accepted = cp_prompt_accepted c, ck_turn_started = cp_turn_started c, ck_routing_stage = cp_routing_stage c,
      ck_storage_notice = cp_storage_notice c, ck_resume_notice = cp_resume_notice c, ck_failure_detail = cp_failure_detail c,
      ck_receipt = (if e_type e = ''run.completed'' then Some (cp_receipt c) else None),
      ck_activity_len = length (cp_activity c), ck_finished = finished_slot e (cp_activity c),
      ck_attachments_len = length (cp_attachments c), ck_recalls_len = length (cp_recalls c),
      ck_diffs_len = length (cp_diffs c), ck_steers_len = length (cp_steers c)\<rparr>)"

definition put_back :: "(nat \<times> tool_activity) option \<Rightarrow> tool_activity list \<Rightarrow> tool_activity list" where
  "put_back slot acts = (case slot of None \<Rightarrow> acts | Some (n, a) \<Rightarrow> if n < length acts then acts[n := a] else acts)"

definition restore :: "chat_checkpoint \<Rightarrow> 'd chat_projector \<Rightarrow> 'd chat_projector" where
  "restore k p = (let c = pj_chat p in
     p\<lparr>pj_reducer := ck_reducer k, pj_utf16 := ck_utf16 k,
       pj_chat := c\<lparr>cp_text := take (ck_text_len k) (cp_text c), cp_prompt_accepted := ck_prompt_accepted k,
         cp_turn_started := ck_turn_started k, cp_routing_stage := ck_routing_stage k, cp_storage_notice := ck_storage_notice k,
         cp_resume_notice := ck_resume_notice k, cp_failure_detail := ck_failure_detail k,
         cp_receipt := (case ck_receipt k of None \<Rightarrow> cp_receipt c | Some r \<Rightarrow> r),
         cp_activity := put_back (ck_finished k) (take (ck_activity_len k) (cp_activity c)),
         cp_attachments := take (ck_attachments_len k) (cp_attachments c), cp_recalls := take (ck_recalls_len k) (cp_recalls c),
         cp_diffs := take (ck_diffs_len k) (cp_diffs c), cp_steers := take (ck_steers_len k) (cp_steers c)\<rparr>\<rparr>)"

section \<open>Append\<close>

datatype 'err run_append_error = ApplyError reduce_error | ProjectionError reduce_error | AppendError 'err

text \<open>The journal's \<open>append\<close> takes the sequence number before the event's.\<close>

definition append_run_event :: "payload_reader \<Rightarrow> ('j \<Rightarrow> u64 \<Rightarrow> event_envelope \<Rightarrow> 'err + 'j) \<Rightarrow> 'j \<Rightarrow> 'd chat_projector
    \<Rightarrow> event_envelope \<Rightarrow> ('err run_append_error + chat_projection) \<times> 'j \<times> 'd chat_projector" where
  "append_run_event rd write j p e =
     (let k = checkpoint p e in
      case chat_apply rd p e of
        (p, Inl err) \<Rightarrow> (Inl (ApplyError err), j, restore k p)
      | (p, Inr _) \<Rightarrow>
          (case projection p of
             Inl err \<Rightarrow> (Inl (ProjectionError err), j, restore k p)
           | Inr shown \<Rightarrow>
               (case write j (saturating_sub (e_run_seq e) 1) e of
                  Inl err \<Rightarrow> (Inl (AppendError err), j, restore k p)
                | Inr j \<Rightarrow> (Inr shown, j, p))))"

definition append_run_event_in_place :: "payload_reader \<Rightarrow> ('j \<Rightarrow> u64 \<Rightarrow> event_envelope \<Rightarrow> 'err + 'j) \<Rightarrow> 'j \<Rightarrow> 'd chat_projector
    \<Rightarrow> event_envelope \<Rightarrow> ('err run_append_error + unit) \<times> 'j \<times> 'd chat_projector" where
  "append_run_event_in_place rd write j p e =
     (let k = checkpoint p e in
      case chat_apply rd p e of
        (p, Inl err) \<Rightarrow> (Inl (ApplyError err), j, restore k p)
      | (p, Inr _) \<Rightarrow>
          (case write j (saturating_sub (e_run_seq e) 1) e of
             Inl err \<Rightarrow> (Inl (AppendError err), j, restore k p)
           | Inr j \<Rightarrow> (Inr (), j, p)))"

end
