(* ===== verification/Projection_Properties.thy ===== *)
theory Projection_Properties
  imports Run_Projection
begin

text \<open>
  The projection of a run: a failed append takes the projector back, a page is projected like the
  whole run, and the tool calls shown as running are the open effects of the journal.
\<close>

section \<open>Helpers\<close>

lemma utf16_len_append [simp]: "utf16_len (a @ b) = utf16_len a + utf16_len b"
  by (simp add: utf16_len_def)

lemma utf16_len_Nil [simp]: "utf16_len [] = 0"
  by (simp add: utf16_len_def)

lemma rposition_None_iff: "rposition P xs = None \<longleftrightarrow> (\<forall>x\<in>set xs. \<not> P x)"
  by (induction xs) (auto split: option.splits)

lemma rposition_SomeD: "rposition P xs = Some n \<Longrightarrow> n < length xs \<and> P (xs ! n) \<and> (\<forall>x\<in>set (drop (Suc n) xs). \<not> P x)"
proof (induction xs arbitrary: n)
  case (Cons x xs)
  then show ?case
    by (auto split: option.splits if_splits simp: rposition_None_iff)
qed simp

text \<open>The outcomes of a step that reads a field.\<close>

lemma reading_rule:
  assumes "\<And>err. r = Inl err \<Longrightarrow> P (p, Inl err)" "\<And>x. r = Inr x \<Longrightarrow> P (p\<lparr>pj_chat := f x (pj_chat p)\<rparr>, Inr ())"
  shows "P (reading p r f)"
  using assms by (cases r) (simp_all add: reading_def)

lemma if_rule: "(b \<Longrightarrow> P x) \<Longrightarrow> (\<not> b \<Longrightarrow> P y) \<Longrightarrow> P (if b then x else y)"
  by simp

section \<open>Restoring\<close>

text \<open>What the checkpoint does not keep: when the run started, and the cache of verified diffs.\<close>

definition unkept :: "'d chat_projector \<Rightarrow> 'd chat_projector \<Rightarrow> 'd chat_projector" where
  "unkept p p' = p\<lparr>pj_chat := (pj_chat p)\<lparr>cp_started_at := cp_started_at (pj_chat p')\<rparr>, pj_cache := pj_cache p'\<rparr>"

lemma finish_activity_put_back:
  assumes "finish_activity e acts = Inr acts'" "e_type e = ''tool.effect.completed'' \<or> e_type e = ''tool.effect.failed''"
  shows "put_back (finished_slot e acts) (take (length acts) acts') = acts"
proof -
  obtain i where i: "field e ''effect_id'' = Inr i" "optional_field e ''effect_id'' = Inr (Some i)"
    using assms(1) by (auto simp: finish_activity_def field_def result_bind_Inr_iff split: sum.splits option.splits)
  show ?thesis
  proof (cases "rposition (\<lambda>a. ta_effect a = i) acts")
    case None
    with assms i show ?thesis by (auto simp: finish_activity_def finished_slot_def put_back_def)
  next
    case (Some n)
    then have "n < length acts" by (blast dest: rposition_SomeD)
    with assms i Some show ?thesis
      by (auto simp: finish_activity_def finished_slot_def put_back_def result_bind_Inr_iff)
  qed
qed

lemma put_back_idle: "e_type e \<notin> {''tool.effect.completed'', ''tool.effect.failed''} \<Longrightarrow> put_back (finished_slot e acts) acts' = acts'"
  by (simp add: finished_slot_def put_back_def)

lemma put_back_same: "put_back (finished_slot e acts) acts = acts"
  by (auto simp: finished_slot_def put_back_def split: sum.splits option.splits dest: rposition_SomeD)

lemma restore_same: "restore (checkpoint p e) (p\<lparr>pj_reducer := r\<rparr>) = p"
  by (simp add: restore_def checkpoint_def put_back_same Let_def)

text \<open>A change of the chat that the checkpoint for its event takes back.\<close>

definition restorable :: "event_envelope \<Rightarrow> 'd chat_projector \<Rightarrow> 'd chat_projector \<times> 'r \<Rightarrow> bool" where
  "restorable e p q \<longleftrightarrow> (let c = pj_chat p; c' = pj_chat (fst q) in
     take (length (cp_text c)) (cp_text c') = cp_text c \<and> cp_status c' = cp_status c \<and> cp_pending c' = cp_pending c
     \<and> (e_type e \<noteq> ''run.completed'' \<longrightarrow> cp_receipt c' = cp_receipt c)
     \<and> put_back (finished_slot e (cp_activity c)) (take (length (cp_activity c)) (cp_activity c')) = cp_activity c
     \<and> take (length (cp_attachments c)) (cp_attachments c') = cp_attachments c
     \<and> take (length (cp_recalls c)) (cp_recalls c') = cp_recalls c \<and> take (length (cp_diffs c)) (cp_diffs c') = cp_diffs c
     \<and> take (length (cp_steers c)) (cp_steers c') = cp_steers c)"

lemma restorable_restore: "restorable e p q \<Longrightarrow> restore (checkpoint p e) (fst q) = unkept p (fst q)"
  by (cases "e_type e = ''run.completed''") (simp_all add: restorable_def restore_def checkpoint_def unkept_def Let_def)

lemma restorable_refl: "pj_chat (fst q) = pj_chat p \<Longrightarrow> restorable e p q"
  by (simp add: restorable_def Let_def put_back_same)

lemma restorable_reading:
  assumes "pj_chat p' = pj_chat p" "\<And>x. r = Inr x \<Longrightarrow> restorable e p (p'\<lparr>pj_chat := f x (pj_chat p)\<rparr>, Inr () :: reduce_error + unit)"
  shows "restorable e p (reading p' r f)"
  using assms by (cases r) (simp_all add: reading_def restorable_refl)

lemma restorable_start:
  "e_type e = ''run.started'' \<Longrightarrow> pj_chat p' = pj_chat p \<Longrightarrow> restorable e p (started_event p' e)"
  by (cases "optional_field e ''prompt_storage_notice''")
    (simp_all add: started_event_def reading_def restorable_def Let_def put_back_idle)

lemma restorable_delta:
  "e_type e = ''model.stream.delta'' \<Longrightarrow> pj_chat p' = pj_chat p \<Longrightarrow> restorable e p (delta_event p' e)"
  by (cases "field e ''text''") (simp_all add: delta_event_def restorable_def Let_def put_back_idle)

lemma restorable_routed: "restorable e p (p'\<lparr>pj_chat := routed s (pj_chat p)\<rparr>, u)"
  by (simp add: restorable_def routed_def Let_def put_back_same)

lemma restorable_cache: "pj_chat p' = pj_chat p \<Longrightarrow>
    restorable e p (case i of None \<Rightarrow> (p', Inr ()) | Some i \<Rightarrow> (p'\<lparr>pj_cache := (pj_cache p')(i := None)\<rparr>, Inr ()))"
  by (cases i) (simp_all add: restorable_refl)

lemma restorable_event:
  assumes "pj_chat p' = pj_chat p"
  shows "restorable e p (chat_event rd p' e)"
  unfolding chat_event_def Let_def
  by (intro if_rule [of _ "restorable e p"] restorable_start restorable_delta restorable_cache restorable_reading
      restorable_routed)
    (simp_all add: assms restorable_def Let_def put_back_same put_back_idle finish_activity_put_back)

lemma restorable_apply: "restorable e p (chat_apply rd p e)"
  by (auto simp: chat_apply_def split: sum.split intro: restorable_refl restorable_event)

lemma started_at_kept:
  fixes p :: "'d chat_projector"
  assumes "cp_started_at (pj_chat (fst (chat_apply rd p e))) \<noteq> cp_started_at (pj_chat p)"
  shows "e_type e = ''run.started'' \<and> rr_state (pj_reducer p) = None"
proof -
  obtain r where r: "reducer_apply rd (pj_reducer p) e = Inr r"
    using assms by (auto simp: chat_apply_def split: sum.splits)
  have "e_type e = ''run.started''"
  proof (rule ccontr)
    assume n: "e_type e \<noteq> ''run.started''"
    have "cp_started_at (pj_chat (fst (chat_event rd q e))) = cp_started_at (pj_chat q)" for q :: "'d chat_projector"
      unfolding chat_event_def Let_def
      by (intro if_rule [of _ "\<lambda>s. cp_started_at (pj_chat (fst s)) = cp_started_at (pj_chat q)"]
          reading_rule [of _ "\<lambda>s. cp_started_at (pj_chat (fst s)) = cp_started_at (pj_chat q)"])
        (use n in \<open>simp_all add: delta_event_def routed_def split: sum.split option.split\<close>)
    with assms r show False by (simp add: chat_apply_def)
  qed
  moreover from this r have "rr_state (pj_reducer p) = None"
    by (auto simp: reducer_apply_def result_bind_Inr_iff transition_def run_started_def split: if_splits)
  ultimately show ?thesis by blast
qed

section \<open>A page like the whole\<close>

text \<open>The fields a page of events shows.\<close>

definition displayable :: "chat_projection \<Rightarrow> chat_projection" where
  "displayable c = c\<lparr>cp_started_at := None, cp_prompt_accepted := False, cp_turn_started := False, cp_routing_stage := None,
     cp_receipt := None, cp_status := None, cp_pending := None\<rparr>"

definition measured :: "'d chat_projector \<Rightarrow> bool" where
  "measured p \<longleftrightarrow> pj_utf16 p = utf16_len (cp_text (pj_chat p))"

text \<open>A step the page's fold follows.\<close>

definition followed :: "payload_reader \<Rightarrow> event_envelope \<Rightarrow> 'd chat_projector \<Rightarrow> 'd chat_projector \<times> (reduce_error + unit) \<Rightarrow> bool" where
  "followed rd e p q \<longleftrightarrow> (case q of (_, Inl _) \<Rightarrow> True
     | (p', Inr _) \<Rightarrow> fragment_event rd (displayable (pj_chat p)) e = Inr (displayable (pj_chat p')) \<and> measured p')"

lemma followed_cache:
  assumes "e_type e \<in> {''code.diff.proposed'', ''code.write-plan.staged''}" "measured p"
  shows "followed rd e p (case i of None \<Rightarrow> (p, Inr ()) | Some i \<Rightarrow> (p\<lparr>pj_cache := (pj_cache p)(i := None)\<rparr>, Inr ()))"
proof -
  have "fragment_event rd c e = Inr c" for c using assms(1) by (auto simp: fragment_event_def)
  with assms(2) show ?thesis by (simp add: followed_def measured_def split: option.split)
qed

lemma followed_event:
  assumes "measured p"
  shows "followed rd e p (chat_event rd p e)"
  unfolding chat_event_def Let_def
  by (intro if_rule [of _ "followed rd e p"] reading_rule [of _ "followed rd e p"] followed_cache)
    (use assms in \<open>simp_all add: followed_def fragment_event_def Let_def displayable_def measured_def started_event_def
      reading_def delta_event_def routed_def split: sum.split option.split\<close>)

lemma chat_applies_append:
  "chat_applies rd p (es @ fs) = (case chat_applies rd p es of (p, Inl err) \<Rightarrow> (p, Inl err) | (p, Inr _) \<Rightarrow> chat_applies rd p fs)"
  by (induction es arbitrary: p) (auto split: prod.split sum.split)

lemma followed_applies:
  assumes "chat_applies rd p es = (p', Inr u)" "measured p"
  shows "fragment_events rd (displayable (pj_chat p)) es = Inr (displayable (pj_chat p')) \<and> measured p'"
  using assms
proof (induction es arbitrary: p)
  case (Cons e es)
  then obtain p1 v where p1: "chat_apply rd p e = (p1, Inr v)" "chat_applies rd p1 es = (p', Inr u)"
    by (auto split: prod.splits sum.splits)
  then obtain r where r: "chat_event rd (p\<lparr>pj_reducer := r\<rparr>) e = (p1, Inr v)"
    by (auto simp: chat_apply_def split: sum.splits)
  have "measured (p\<lparr>pj_reducer := r\<rparr>)" using Cons.prems(2) by (simp add: measured_def)
  from followed_event [OF this, of rd e] r
  have "fragment_event rd (displayable (pj_chat p)) e = Inr (displayable (pj_chat p1))" "measured p1"
    by (simp_all add: followed_def)
  with Cons.IH [OF p1(2)] show ?case by simp
qed simp

section \<open>Running tool calls\<close>

definition running_ids :: "tool_activity list \<Rightarrow> string list" where
  "running_ids acts = map ta_effect (filter (\<lambda>a. ta_status a = ActRunning) acts)"

text \<open>No call after a running one has its id.\<close>

fun newest_running :: "tool_activity list \<Rightarrow> bool" where
  "newest_running [] = True"
| "newest_running (a # acts) \<longleftrightarrow> (ta_status a = ActRunning \<longrightarrow> ta_effect a \<notin> ta_effect ` set acts) \<and> newest_running acts"

lemma newest_running_snoc:
  "newest_running (acts @ [a]) \<longleftrightarrow> newest_running acts \<and> ta_effect a \<notin> set (running_ids acts)"
  by (induction acts) (auto simp: running_ids_def)

lemma finish_newest:
  assumes "newest_running acts" "i \<in> set (running_ids acts)" "ta_effect b = i" "ta_status b \<noteq> ActRunning"
  shows "\<exists>n. rposition (\<lambda>a. ta_effect a = i) acts = Some n \<and> running_ids (acts[n := b]) = remove1 i (running_ids acts)
    \<and> newest_running (acts[n := b])"
  using assms(1,2)
proof (induction acts)
  case (Cons a acts)
  show ?case
  proof (cases "ta_status a = ActRunning \<and> ta_effect a = i")
    case True
    with Cons.prems(1) have "rposition (\<lambda>a. ta_effect a = i) acts = None" by (simp add: rposition_None_iff) (metis imageI)
    with True Cons.prems assms(3,4) show ?thesis by (simp add: running_ids_def)
  next
    case False
    with Cons.prems(2) have "i \<in> set (running_ids acts)" by (auto simp: running_ids_def split: if_splits)
    with Cons obtain n where n: "rposition (\<lambda>a. ta_effect a = i) acts = Some n"
      "running_ids (acts[n := b]) = remove1 i (running_ids acts)" "newest_running (acts[n := b])" by auto
    from rposition_SomeD [OF n(1)] have "n < length acts" "ta_effect (acts ! n) = i" by simp_all
    then have "map ta_effect (acts[n := b]) = map ta_effect acts"
      using assms(3) by (simp add: map_update list_update_same_conv)
    then have "ta_effect ` set (acts[n := b]) = ta_effect ` set acts" by (metis set_map)
    with n False Cons.prems(1) show ?thesis by (auto simp: running_ids_def)
  qed
qed (simp add: running_ids_def)

definition running_ok :: "'d chat_projector \<Rightarrow> bool" where
  "running_ok p \<longleftrightarrow> running_ids (cp_activity (pj_chat p)) = rr_effects (pj_reducer p) \<and> newest_running (cp_activity (pj_chat p))"

lemma idle_event:
  fixes p :: "'d chat_projector"
  assumes "e_type e \<notin> {''tool.effect.started'', ''tool.effect.completed'', ''tool.effect.failed''}"
  shows "cp_activity (pj_chat (fst (chat_event rd p e))) = cp_activity (pj_chat p)"
  unfolding chat_event_def Let_def
  by (intro if_rule [of _ "\<lambda>s. cp_activity (pj_chat (fst s)) = cp_activity (pj_chat p)"]
      reading_rule [of _ "\<lambda>s. cp_activity (pj_chat (fst s)) = cp_activity (pj_chat p)"])
    (use assms in \<open>simp_all add: started_event_def reading_def delta_event_def routed_def Let_def split: sum.split option.split\<close>)

lemma chat_event_reducer: "pj_reducer (fst (chat_event rd p e)) = pj_reducer p"
  unfolding chat_event_def Let_def
  by (intro if_rule [of _ "\<lambda>s. pj_reducer (fst s) = pj_reducer p"] reading_rule [of _ "\<lambda>s. pj_reducer (fst s) = pj_reducer p"])
    (simp_all add: started_event_def reading_def delta_event_def Let_def split: sum.split option.split)

lemma chat_apply_InrD:
  assumes "chat_apply rd p e = (p', Inr u)"
  obtains r where "reducer_apply rd (pj_reducer p) e = Inr r" "chat_event rd (p\<lparr>pj_reducer := r\<rparr>) e = (p', Inr u)"
    "pj_reducer p' = r"
proof -
  from assms obtain r where r: "reducer_apply rd (pj_reducer p) e = Inr r" "chat_event rd (p\<lparr>pj_reducer := r\<rparr>) e = (p', Inr u)"
    by (auto simp: chat_apply_def split: sum.splits)
  with chat_event_reducer [of rd "p\<lparr>pj_reducer := r\<rparr>" e] show thesis by (intro that) simp_all
qed

lemma running_step:
  assumes "chat_apply rd p e = (p', Inr u)" "running_ok p"
  shows "running_ok p'"
proof -
  obtain r where r: "reducer_apply rd (pj_reducer p) e = Inr r" "chat_event rd (p\<lparr>pj_reducer := r\<rparr>) e = (p', Inr u)"
    "pj_reducer p' = r" using assms(1) by (rule chat_apply_InrD)
  then have t: "transition rd (pj_reducer p) e = Inr r" by (auto simp: reducer_apply_def result_bind_Inr_iff)
  let ?acts = "cp_activity (pj_chat p)"
  have ok: "running_ids ?acts = rr_effects (pj_reducer p)" "newest_running ?acts"
    using assms(2) by (simp_all add: running_ok_def)
  consider (start) "e_type e = ''tool.effect.started''" | (stop) "e_type e = ''tool.effect.completed'' \<or> e_type e = ''tool.effect.failed''"
    | (idle) "e_type e \<notin> {''tool.effect.started'', ''tool.effect.completed'', ''tool.effect.failed''}" by auto
  then show ?thesis
  proof cases
    case start
    then have eff: "effect_started (pj_reducer p) e = Inr r" using t by (simp add: transition_def)
    from start r(2) obtain a where a: "activity_of e (pj_utf16 p) ?acts = Inr a" "cp_activity (pj_chat p') = ?acts @ [a]"
      by (cases "activity_of e (pj_utf16 p) ?acts") (auto simp: chat_event_def reading_def)
    then have "ta_effect a = effect_id e" "ta_status a = ActRunning"
      by (auto simp: activity_of_def effect_id_def result_bind_Inr_iff)
    with effect_transitions(1) [OF eff] a(2) ok show ?thesis
      by (simp add: running_ok_def r(3) newest_running_snoc) (simp add: running_ids_def)
  next
    case stop
    then have "effect_finished (pj_reducer p) e = Inr r" using t by (auto simp: transition_def)
    then have i: "field e ''effect_id'' = Inr (effect_id e)" "effect_id e \<in> set (rr_effects (pj_reducer p))"
      "rr_effects r = remove1 (effect_id e) (rr_effects (pj_reducer p))"
      by (auto simp: effect_finished_def effect_id_def result_bind_Inr_iff split: if_splits)
    from stop r(2) obtain acts where acts: "finish_activity e ?acts = Inr acts" "cp_activity (pj_chat p') = acts"
      by (cases "finish_activity e ?acts") (auto simp: chat_event_def reading_def)
    define upd where "upd = (\<lambda>a :: tool_activity. \<lambda>out. a\<lparr>ta_output := out, ta_finished := Some (e_recorded_at e),
             ta_status := if e_type e = ''tool.effect.completed'' then ActCompleted else ActFailed\<rparr>)"
    obtain n where n: "rposition (\<lambda>a. ta_effect a = effect_id e) ?acts = Some n"
      using finish_newest [OF ok(2), of "effect_id e" "\<lparr>ta_offset = 0, ta_effect = effect_id e, ta_parent = None,
        ta_name = None, ta_status = ActFailed, ta_input = None, ta_output = None, ta_started = None, ta_finished = None\<rparr>"]
        i(2) ok(1) by auto
    with acts(1) i(1) obtain out where "acts = ?acts[n := upd (?acts ! n) out]"
      by (auto simp: finish_activity_def result_bind_Inr_iff upd_def)
    moreover have "ta_effect (upd (?acts ! n) out) = effect_id e" "ta_status (upd (?acts ! n) out) \<noteq> ActRunning"
      using rposition_SomeD [OF n] by (simp_all add: upd_def)
    ultimately show ?thesis
      using finish_newest [OF ok(2), of "effect_id e" "upd (?acts ! n) out"] n ok(1) i(2,3)
      by (simp add: running_ok_def r(3) acts(2))
  next
    case idle
    have "rr_effects r = rr_effects (pj_reducer p)" using transition_effects [OF t] idle by (simp add: effects_step_def)
    moreover have "cp_activity (pj_chat p') = ?acts"
      using idle_event [OF idle, of rd "p\<lparr>pj_reducer := r\<rparr>"] r(2) by simp
    ultimately show ?thesis using ok by (simp add: running_ok_def r(3))
  qed
qed

section \<open>The whole run\<close>

definition delta_text :: "event_envelope \<Rightarrow> string" where
  "delta_text e = (if e_type e = ''model.stream.delta'' then (case field e ''text'' of Inr s \<Rightarrow> s | Inl _ \<Rightarrow> []) else [])"

lemma apply_text:
  fixes p :: "'d chat_projector"
  assumes "chat_apply rd p e = (p', Inr u)"
  shows "cp_text (pj_chat p') = cp_text (pj_chat p) @ delta_text e"
proof -
  have "case s of (p', Inl _) \<Rightarrow> True | (p', Inr _) \<Rightarrow> cp_text (pj_chat p') = cp_text (pj_chat q) @ delta_text e"
    if "s = chat_event rd q e" for s and q :: "'d chat_projector"
    unfolding that chat_event_def Let_def
    by (intro if_rule [of _ "\<lambda>s. case s of (p', Inl _) \<Rightarrow> True | (p', Inr _) \<Rightarrow> cp_text (pj_chat p') = cp_text (pj_chat q) @ delta_text e"]
        reading_rule [of _ "\<lambda>s. case s of (p', Inl _) \<Rightarrow> True | (p', Inr _) \<Rightarrow> cp_text (pj_chat p') = cp_text (pj_chat q) @ delta_text e"])
      (auto simp: started_event_def reading_def delta_event_def routed_def delta_text_def Let_def split: sum.splits option.splits)
  note step = this [OF refl]
  obtain r where "chat_event rd (p\<lparr>pj_reducer := r\<rparr>) e = (p', Inr u)" using assms by (rule chat_apply_InrD)
  with step [of "p\<lparr>pj_reducer := r\<rparr>"] show ?thesis by simp
qed

lemma applies_summary:
  assumes "chat_applies rd p es = (p', Inr u)"
  shows "reducer_applies rd (pj_reducer p) es = Inr (pj_reducer p')
    \<and> cp_text (pj_chat p') = cp_text (pj_chat p) @ concat (map delta_text es) \<and> (running_ok p \<longrightarrow> running_ok p')"
  using assms
proof (induction es arbitrary: p)
  case (Cons e es)
  then obtain p1 v where p1: "chat_apply rd p e = (p1, Inr v)" "chat_applies rd p1 es = (p', Inr u)"
    by (auto split: prod.splits sum.splits)
  moreover obtain "reducer_apply rd (pj_reducer p) e = Inr (pj_reducer p1)" using p1(1) by (rule chat_apply_InrD) simp
  ultimately show ?case using Cons.IH [OF p1(2)] apply_text [OF p1(1)] running_step [OF p1(1)] by simp
qed simp

lemma projector_new_ok: "running_ok projector_new" "measured projector_new" "pj_reducer projector_new = reducer_new"
    "displayable (pj_chat projector_new) = chat_default"
  by (simp_all add: running_ok_def projector_new_def running_ids_def chat_default_def reducer_new_def measured_def displayable_def)

lemma project_chat_with_stateE:
  assumes "project_chat_with_state rd es = Inr (chat, s)"
  obtains p u where "chat_applies rd (projector_new :: unit chat_projector) es = (p, Inr u)" "reducer_finish (pj_reducer p) = Inr s"
    "chat = (pj_chat p)\<lparr>cp_pending := gate_shown (rs_status s), cp_status := Some (rs_status s)\<rparr>"
  using assms by (auto simp: project_chat_with_state_def projector_finish_def result_bind_Inr_iff split: prod.splits sum.splits)

text \<open>C7: The chat a client is shown tells what the journal says: the state beside it is the reducer's, its text
  is the text of the stream's deltas in order, the tool calls shown as running are exactly the open
  effects of the journal in the order they started, and a page made of the whole run shows the same
  fields as the projector.\<close>

theorem chat_tells_journal:
  assumes "project_chat_with_state rd es = Inr (chat, s)"
  shows "reduce rd es = Inr s \<and> cp_text chat = concat (map delta_text es)
    \<and> running_ids (cp_activity chat) = open_effects es
    \<and> project_chat_fragment rd es = Inr (displayable chat)"
proof -
  obtain p u where p: "chat_applies rd (projector_new :: unit chat_projector) es = (p, Inr u)"
    "reducer_finish (pj_reducer p) = Inr s"
    "chat = (pj_chat p)\<lparr>cp_pending := gate_shown (rs_status s), cp_status := Some (rs_status s)\<rparr>"
    using assms by (rule project_chat_with_stateE)
  note sum = applies_summary [OF p(1)] and page = followed_applies [OF p(1) projector_new_ok(2)]
  have red: "reducer_applies rd reducer_new es = Inr (pj_reducer p)" using sum by (simp add: projector_new_ok)
  have "rr_effects (pj_reducer p) = open_effects es"
    using applies_ok [OF red reducer_new_ok(1)] by (simp add: open_effects_def reducer_new_ok(3))
  moreover have "running_ok p" using sum projector_new_ok(1) by blast
  moreover have "displayable chat = displayable (pj_chat p)" by (simp add: p(3) displayable_def)
  moreover have "cp_text (pj_chat (projector_new :: unit chat_projector)) = []"
    by (simp add: projector_new_def chat_default_def)
  ultimately show ?thesis
    using sum page red p(2)
    by (simp add: reduce_def running_ok_def p(3) project_chat_fragment_def projector_new_ok)
qed

lemmas sample_projection_defs = sample_defs project_chat_with_state_def projector_new_def chat_default_def chat_apply_def
  chat_event_def started_event_def reading_def delta_event_def activity_of_def parent_effect_def before_last_slash_def
  projector_finish_def delta_text_def checkpoint_def restore_def append_run_event_def

theorem chat_tells_journal_witness:
  "\<exists>chat s. project_chat_with_state sample_payloads
      [sample_event 1 ''run.started'' [], sample_event 2 ''model.stream.delta'' [(''text'', JString ''Hi'')],
       sample_event 3 ''tool.effect.started'' [(''effect_id'', JString ''a'')]] = Inr (chat, s)
    \<and> cp_text chat = ''Hi'' \<and> running_ids (cp_activity chat) = [''a'']"
proof -
  let ?es = "[sample_event 1 ''run.started'' [], sample_event 2 ''model.stream.delta'' [(''text'', JString ''Hi'')],
       sample_event 3 ''tool.effect.started'' [(''effect_id'', JString ''a'')]]"
  obtain chat s where c: "project_chat_with_state sample_payloads ?es = Inr (chat, s)"
    by (simp add: sample_projection_defs)
  moreover have "concat (map delta_text ?es) = ''Hi''" "open_effects ?es = [''a'']" by (simp_all add: sample_projection_defs)
  ultimately show ?thesis using chat_tells_journal [OF c] by auto
qed

text \<open>An append that fails, for its event, its projection or the write, leaves the journal as it was and takes
  the projector back: every field is as before but for the cache of verified diffs, from which an
  entry may be dropped, and the start time, which stays when the first event of the run was refused.\<close>

theorem failed_append_restores:
  assumes "append_run_event rd write j p e = (Inl err, j', p') \<or> append_run_event_in_place rd write j p e = (Inl err, j', p')"
  shows "j' = j \<and> p' = p\<lparr>pj_chat := (pj_chat p)\<lparr>cp_started_at := cp_started_at (pj_chat p')\<rparr>, pj_cache := pj_cache p'\<rparr>
    \<and> (cp_started_at (pj_chat p') \<noteq> cp_started_at (pj_chat p) \<longrightarrow> e_type e = ''run.started'' \<and> rr_state (pj_reducer p) = None)"
proof -
  let ?q = "fst (chat_apply rd p e)"
  have "j' = j" "p' = restore (checkpoint p e) ?q"
    using assms by (auto simp: append_run_event_def append_run_event_in_place_def Let_def split: prod.splits sum.splits)
  moreover have "restore (checkpoint p e) ?q = unkept p ?q" by (rule restorable_restore) (rule restorable_apply)
  moreover have "cp_started_at (pj_chat (unkept p ?q)) = cp_started_at (pj_chat ?q)" "pj_cache (unkept p ?q) = pj_cache ?q"
    by (simp_all add: unkept_def)
  ultimately show ?thesis using started_at_kept [of rd p e] by (simp add: unkept_def)
qed

theorem failed_append_restores_witness:
  "\<exists>p'. append_run_event sample_payloads (\<lambda>j _ _. Inl ()) () (projector_new :: unit chat_projector) (sample_event 1 ''run.started'' [])
      = (Inl (AppendError ()), (), p')
    \<and> pj_reducer p' = reducer_new \<and> cp_started_at (pj_chat p') = Some []"
proof -
  let ?p = "projector_new :: unit chat_projector" and ?e = "sample_event 1 ''run.started'' []"
  obtain p' where p': "append_run_event sample_payloads (\<lambda>j _ _. Inl ()) () ?p ?e = (Inl (AppendError ()), (), p')"
      "cp_started_at (pj_chat p') = Some []"
    by (simp add: sample_projection_defs projection_def finished_slot_def put_back_def saturating_sub_def)
  moreover have "p' = ?p\<lparr>pj_chat := (pj_chat ?p)\<lparr>cp_started_at := cp_started_at (pj_chat p')\<rparr>, pj_cache := pj_cache p'\<rparr>"
    using failed_append_restores [OF disjI1 [OF p'(1)]] by blast
  from arg_cong [OF this, of pj_reducer] have "pj_reducer p' = reducer_new" by (simp add: projector_new_ok)
  ultimately show ?thesis by blast
qed

end
