(* ===== verification/Thread_Projection.thy ===== *)
theory Thread_Projection
  imports Text_Chunks Run_Reducer
begin

text \<open>
  The tables from which a thread is shown without replaying its journal (\<open>journal/mod.rs\<close>:
  \<open>update_thread_projection\<close>; \<open>journal/reducer.rs\<close>: \<open>projected_thread_entries\<close>): what a run shows now, and
  the versions that let a page be read as of an earlier event. A table is the list of its rows in
  insertion order; an \<open>UPDATE\<close> maps over the rows and a \<open>DELETE\<close> filters them. The primary keys are a
  theorem, not a check: no insert of the model meets a row with its key.
\<close>

section \<open>Tables\<close>

record proj_entry =
  pe_run :: string
  pe_ordinal :: int
  pe_seq :: u64
  pe_kind :: string
  pe_text :: "string option"

record proj_version =
  vr_run :: string
  vr_ordinal :: int
  vr_from :: u64
  vr_until :: "u64 option"
  vr_seq :: u64
  vr_kind :: string
  vr_text :: "string option"

record thread_tables =
  tp_entries :: "proj_entry list"
  tp_versions :: "proj_version list"

definition projection_text_chunk :: nat where "projection_text_chunk = 64"

section \<open>Statements\<close>

definition inline_text :: "event_envelope \<Rightarrow> string \<Rightarrow> string option" where
  "inline_text e name = (case e_payload e of Inline v \<Rightarrow> Option.bind (jget v name) as_str | _ \<Rightarrow> None)"

definition chunks :: "string \<Rightarrow> string list option" where
  "chunks tx = (if tx = [] then Some [[]] else chunks_from projection_text_chunk (length tx) tx 0)"

definition entries_of :: "thread_tables \<Rightarrow> string \<Rightarrow> proj_entry list" where
  "entries_of tp run = filter (\<lambda>r. pe_run r = run) (tp_entries tp)"

text \<open>\<open>COALESCE(MAX(ordinal), -1) + 1\<close>.\<close>

definition next_ordinal :: "thread_tables \<Rightarrow> string \<Rightarrow> int" where
  "next_ordinal tp run = (case entries_of tp run of [] \<Rightarrow> 0 | rs \<Rightarrow> Max (pe_ordinal ` set rs) + 1)"

definition entry_row :: "event_envelope \<Rightarrow> string \<Rightarrow> int \<times> string option \<Rightarrow> proj_entry" where
  "entry_row e kind r = \<lparr>pe_run = e_run_id e, pe_ordinal = fst r, pe_seq = e_run_seq e, pe_kind = kind, pe_text = snd r\<rparr>"

definition version_row :: "event_envelope \<Rightarrow> string \<Rightarrow> int \<times> string option \<Rightarrow> proj_version" where
  "version_row e kind r = \<lparr>vr_run = e_run_id e, vr_ordinal = fst r, vr_from = e_run_seq e, vr_until = None,
     vr_seq = e_run_seq e, vr_kind = kind, vr_text = snd r\<rparr>"

definition insert_versions :: "event_envelope \<Rightarrow> string \<Rightarrow> (int \<times> string option) list \<Rightarrow> thread_tables \<Rightarrow> thread_tables" where
  "insert_versions e kind rs tp = tp\<lparr>tp_versions := tp_versions tp @ map (version_row e kind) rs\<rparr>"

text \<open>Rows inserted into both tables.\<close>

definition insert_rows :: "thread_tables \<Rightarrow> event_envelope \<Rightarrow> string \<Rightarrow> (int \<times> string option) list \<Rightarrow> thread_tables" where
  "insert_rows tp e kind rs =
     insert_versions e kind rs (tp\<lparr>tp_entries := tp_entries tp @ map (entry_row e kind) rs\<rparr>)"

definition with_ordinals :: "int \<Rightarrow> 'a list \<Rightarrow> (int \<times> 'a) list" where
  "with_ordinals first xs = zip (map (\<lambda>i. first + int i) [0..<length xs]) xs"

definition insert_chunks :: "thread_tables \<Rightarrow> event_envelope \<Rightarrow> string \<Rightarrow> string \<Rightarrow> thread_tables option" where
  "insert_chunks tp e kind tx =
     map_option (\<lambda>cs. insert_rows tp e kind (with_ordinals (next_ordinal tp (e_run_id e)) (map Some cs))) (chunks tx)"

text \<open>\<open>UPDATE thread_projection_versions SET valid_until_seq\<close> of the run's open versions that satisfy a condition.\<close>

definition close_versions :: "event_envelope \<Rightarrow> (proj_version \<Rightarrow> bool) \<Rightarrow> thread_tables \<Rightarrow> thread_tables" where
  "close_versions e P tp = tp\<lparr>tp_versions := map (\<lambda>v.
     if vr_run v = e_run_id e \<and> vr_until v = None \<and> P v then v\<lparr>vr_until := Some (e_run_seq e)\<rparr> else v) (tp_versions tp)\<rparr>"

definition archive :: "event_envelope \<Rightarrow> string \<Rightarrow> thread_tables \<Rightarrow> thread_tables" where
  "archive e kind tp = close_versions e (\<lambda>v. vr_kind v = kind) tp"

definition delete_entries :: "event_envelope \<Rightarrow> string \<Rightarrow> thread_tables \<Rightarrow> thread_tables" where
  "delete_entries e kind tp = tp\<lparr>tp_entries := filter (\<lambda>r. \<not> (pe_run r = e_run_id e \<and> pe_kind r = kind)) (tp_entries tp)\<rparr>"

section \<open>What an event changes\<close>

definition assistant_rows :: "thread_tables \<Rightarrow> string \<Rightarrow> proj_entry list" where
  "assistant_rows tp run = filter (\<lambda>r. pe_kind r = ''assistant_message'') (entries_of tp run)"

text \<open>\<open>ORDER BY ordinal DESC LIMIT 1\<close>, with \<open>COALESCE(text, '')\<close>.\<close>

definition last_assistant :: "thread_tables \<Rightarrow> string \<Rightarrow> (int \<times> string) option" where
  "last_assistant tp run =
     (case assistant_rows tp run of
        [] \<Rightarrow> None
      | rs \<Rightarrow> map_option (\<lambda>r. (pe_ordinal r, case pe_text r of None \<Rightarrow> [] | Some t \<Rightarrow> t))
          (find (\<lambda>r. pe_ordinal r = Max (pe_ordinal ` set rs)) rs))"

definition set_text :: "event_envelope \<Rightarrow> int \<Rightarrow> string \<Rightarrow> thread_tables \<Rightarrow> thread_tables" where
  "set_text e ordinal tx tp = tp\<lparr>tp_entries := map (\<lambda>r.
     if pe_run r = e_run_id e \<and> pe_ordinal r = ordinal then r\<lparr>pe_text := Some tx\<rparr> else r) (tp_entries tp)\<rparr>"

text \<open>The delta fills the last chunk up to its size and leaves the rest.\<close>

definition fill_tail :: "thread_tables \<Rightarrow> event_envelope \<Rightarrow> int \<Rightarrow> string \<Rightarrow> string \<Rightarrow> thread_tables \<times> string" where
  "fill_tail tp e ordinal tail_text tx =
     (let n = boundary_before tx (min (projection_text_chunk - length tail_text) (length tx));
          tail_text = tail_text @ take n tx;
          tp = set_text e ordinal tail_text (close_versions e (\<lambda>v. vr_ordinal v = ordinal) tp)
      in (insert_versions e ''assistant_message'' [(ordinal, Some tail_text)] tp, drop n tx))"

definition delta_projection :: "thread_tables \<Rightarrow> event_envelope \<Rightarrow> string \<Rightarrow> thread_tables option" where
  "delta_projection tp e tx =
     (case last_assistant tp (e_run_id e) of
        None \<Rightarrow> insert_chunks tp e ''assistant_message'' tx
      | Some (ordinal, tail_text) \<Rightarrow>
          (case fill_tail tp e ordinal tail_text tx of
             (tp, rest) \<Rightarrow> if rest \<noteq> [] then insert_chunks tp e ''assistant_message'' rest else Some tp))"

definition outcome_kind :: "event_envelope \<Rightarrow> string" where
  "outcome_kind e = (if e_type e = ''tool.effect.completed'' then ''tool_completed'' else ''tool_failed'')"

definition rename_entries :: "event_envelope \<Rightarrow> string \<Rightarrow> string \<Rightarrow> thread_tables \<Rightarrow> thread_tables" where
  "rename_entries e old new tp = tp\<lparr>tp_entries := map (\<lambda>r.
     if pe_run r = e_run_id e \<and> pe_kind r = old then r\<lparr>pe_kind := new\<rparr> else r) (tp_entries tp)\<rparr>"

text \<open>The outcome renames the running row, and inserts a version of every row that has the outcome's kind.\<close>

definition tool_outcome :: "thread_tables \<Rightarrow> event_envelope \<Rightarrow> string \<Rightarrow> thread_tables" where
  "tool_outcome tp e i =
     (let old = ''tool_running:'' @ i; new = outcome_kind e; tp = rename_entries e old new (archive e old tp)
      in insert_versions e new (map (\<lambda>r. (pe_ordinal r, pe_text r))
           (filter (\<lambda>r. pe_kind r = new) (entries_of tp (e_run_id e)))) tp)"

definition gone_pending :: "thread_tables \<Rightarrow> event_envelope \<Rightarrow> thread_tables" where
  "gone_pending tp e = delete_entries e ''permission_pending'' (archive e ''permission_pending'' tp)"

definition update_thread_projection :: "thread_tables \<Rightarrow> event_envelope \<Rightarrow> thread_tables option" where
  "update_thread_projection tp e =
     (let t = e_type e; text_or_empty = (\<lambda>name. case inline_text e name of None \<Rightarrow> [] | Some s \<Rightarrow> s) in
      if t = ''user.prompt.submitted''
      then (case inline_text e ''prompt'' of None \<Rightarrow> Some tp | Some tx \<Rightarrow> insert_chunks tp e ''user_message'' tx)
      else if t = ''model.stream.delta''
      then (case inline_text e ''text'' of None \<Rightarrow> Some tp | Some tx \<Rightarrow> delta_projection tp e tx)
      else if t = ''chat.attachment.ingested''
      then (case e_payload e of Attached a \<Rightarrow> insert_chunks tp e ''attachment'' (at_name a) | _ \<Rightarrow> Some tp)
      else if t = ''tool.effect.started''
      then Some (insert_rows tp e (''tool_running:'' @ text_or_empty ''effect_id'')
        [(next_ordinal tp (e_run_id e), inline_text e ''display_name'')])
      else if t \<in> {''tool.effect.completed'', ''tool.effect.failed''}
      then (case inline_text e ''effect_id'' of None \<Rightarrow> Some tp | Some i \<Rightarrow> Some (tool_outcome tp e i))
      else if t = ''permission.requested''
      then insert_chunks (gone_pending tp e) e ''permission_pending'' (text_or_empty ''title'')
      else if t = ''permission.resolved'' then Some (gone_pending tp e)
      else Some tp)"

fun update_all :: "thread_tables \<Rightarrow> event_envelope list \<Rightarrow> thread_tables option" where
  "update_all tp [] = Some tp"
| "update_all tp (e # es) = Option.bind (update_thread_projection tp e) (\<lambda>tp. update_all tp es)"

definition empty_tables :: thread_tables where
  "empty_tables = \<lparr>tp_entries = [], tp_versions = []\<rparr>"

section \<open>Reading a page\<close>

record projected_thread_entry =
  te_ordinal :: int
  te_seq :: u64
  te_kind :: string
  te_text :: "string option"

definition valid_at :: "u64 \<Rightarrow> proj_version \<Rightarrow> bool" where
  "valid_at s v \<longleftrightarrow> vr_from v \<le> s \<and> (case vr_until v of None \<Rightarrow> True | Some u \<Rightarrow> s < u)"

text \<open>\<open>kind.split(':').next()\<close>.\<close>

definition plain_kind :: "string \<Rightarrow> string" where
  "plain_kind kind = takeWhile (\<lambda>c. c \<noteq> CHR '':'') kind"

text \<open>\<open>ORDER BY ordinal LIMIT\<close> over the index of run, ordinal and first sequence.\<close>

definition projected_thread_entries :: "thread_tables \<Rightarrow> string \<Rightarrow> u64 \<Rightarrow> int \<Rightarrow> nat \<Rightarrow> projected_thread_entry list" where
  "projected_thread_entries tp run s last_ordinal limit =
     map (\<lambda>v. \<lparr>te_ordinal = vr_ordinal v, te_seq = vr_seq v, te_kind = plain_kind (vr_kind v), te_text = vr_text v\<rparr>)
       (take limit (sort_key (\<lambda>v. (vr_ordinal v, vr_from v))
         (filter (\<lambda>v. vr_run v = run \<and> vr_ordinal v > last_ordinal \<and> valid_at s v) (tp_versions tp))))"

end
