(* ===== verification/Run_Journal.thy ===== *)
theory Run_Journal
  imports Thread_Projection Snapshot
begin

text \<open>
  The run journal (\<open>journal/mod.rs\<close>): the events of runs and of threads, appended in one transaction each,
  the page read with a cursor, and the permission policies a thread remembers. The database is the record of
  its tables, a table the list of its rows in insertion order; an operation gives the database after its
  commit or the error, after which the tables are as before. A row's columns are the fields of the envelope
  the insert writes them from, and the stored JSON is the canonical text of that envelope. An update of the
  thread projection that does not return is \<open>None\<close>. The UUID and time libraries, \<open>serde_json\<close>, the HMAC and
  base64 are the arguments of \<open>journal_env\<close>, and a new UUID is an argument of the operation that draws it.
  Migrations, compaction, the process lock and the commit hints are left out.
\<close>

section \<open>Thread events\<close>

datatype policy_decision = DAllow | DDeny | DAsk

datatype answer_source = Native | Acp

record policy_decided =
  pd_id :: string
  pd_decision :: policy_decision
  pd_kind :: request_kind
  pd_resource :: resource
  pd_actor :: string
  pd_source :: answer_source
  pd_gate :: "string option"

record policy_revoked =
  pr_id :: string
  pr_actor :: string
  pr_reason :: string

record mode_set =
  ms_mode :: permission_mode
  ms_actor :: string
  ms_source :: string

record thread_event =
  tv_event_id :: string
  tv_thread :: string
  tv_seq :: u64
  tv_type :: string
  tv_version :: u32
  tv_envelope_version :: u32
  tv_recorded_at :: string
  tv_payload :: json
  tv_provenance :: provenance

record receipt_capability =
  cap_name :: string
  cap_version :: string

record receipt =
  rp_route :: "string option"
  rp_model :: "string option"
  rp_cost :: "string option"
  rp_time :: "string option"
  rp_capabilities :: "receipt_capability list"

record run_event_cursor =
  rc_version :: u8
  rc_run :: string
  rc_after :: u64
  rc_authenticator :: string

text \<open>What the journal takes from its libraries. \<open>je_time\<close> gives the offset from UTC in seconds and the canonical
  UTC text of an RFC 3339 time.\<close>

record journal_env =
  je_uuid :: "string \<Rightarrow> bool"
  je_uuid7 :: "string \<Rightarrow> bool"
  je_time :: "string \<Rightarrow> (int \<times> string) option"
  je_canon :: "event_envelope \<Rightarrow> string"
  je_decided :: "json \<Rightarrow> policy_decided option"
  je_revoked :: "json \<Rightarrow> policy_revoked option"
  je_mode :: "json \<Rightarrow> mode_set option"
  je_receipt :: "json \<Rightarrow> receipt option"
  je_mac :: "string \<Rightarrow> u64 \<Rightarrow> string"
  je_b64 :: "string \<Rightarrow> string"
  je_unb64 :: "string \<Rightarrow> string option"
  je_seal :: "run_event_cursor \<Rightarrow> string"
  je_unseal :: "string \<Rightarrow> run_event_cursor option"

section \<open>Tables\<close>

record pending_row =
  pn_run :: string
  pn_seq :: u64
  pn_fields :: "(string \<times> string \<times> string \<times> string option) option"

record receipt_row =
  rr_run :: string
  rr_seq :: u64
  rr_receipt :: "receipt option"

record run_thread =
  rt_run :: string
  rt_thread :: string
  rt_ordinal :: u64

record journal_db =
  db_events :: "event_envelope list"
  db_thread_events :: "thread_event list"
  db_run_threads :: "run_thread list"
  db_workspaces :: "(string \<times> string) list"
  db_projection :: thread_tables
  db_pending :: "pending_row list"
  db_receipts :: "receipt_row list"

definition empty_journal :: journal_db where
  "empty_journal = \<lparr>db_events = [], db_thread_events = [], db_run_threads = [], db_workspaces = [],
     db_projection = empty_tables, db_pending = [], db_receipts = []\<rparr>"

datatype conflict = StaleSequence u64 u64 | EventIdConflict string | SequenceConflict string u64

datatype journal_error = Sqlite | InvalidEnvelope string | Conflicting conflict | Corrupt string

type_synonym 'a journal_result = "(journal_error + 'a) option"

fun and_then :: "'a journal_result \<Rightarrow> ('a \<Rightarrow> 'b journal_result) \<Rightarrow> 'b journal_result" where
  "and_then None f = None"
| "and_then (Some (Inl err)) f = Some (Inl err)"
| "and_then (Some (Inr x)) f = f x"

section \<open>Validation\<close>

definition blank :: "string \<Rightarrow> bool" where "blank s \<longleftrightarrow> trim s = []"

definition validate_uuid7 :: "journal_env \<Rightarrow> string \<Rightarrow> string \<Rightarrow> journal_error + unit" where
  "validate_uuid7 env name v =
     (if je_uuid7 env v then Inr () else Inl (InvalidEnvelope (name @ '' must be a UUIDv7'')))"

definition validate_time :: "journal_env \<Rightarrow> string \<Rightarrow> string \<Rightarrow> bool \<Rightarrow> journal_error + unit" where
  "validate_time env name v canonical =
     (case je_time env v of
        None \<Rightarrow> Inl (InvalidEnvelope (name @ '' must be RFC 3339''))
      | Some (offset, tx) \<Rightarrow>
          if offset \<noteq> 0 then Inl (InvalidEnvelope (name @ '' must be UTC''))
          else if canonical \<and> tx \<noteq> v then Inl (InvalidEnvelope (name @ '' is not canonical UTC RFC 3339''))
          else Inr ())"

definition lower_hex :: "char \<Rightarrow> bool" where
  "lower_hex c \<longleftrightarrow> is_digit c \<or> (let n = of_char c :: nat in 97 \<le> n \<and> n \<le> 102)"

definition validate_envelope :: "journal_env \<Rightarrow> event_envelope \<Rightarrow> journal_error + unit" where
  "validate_envelope env e =
     (if e_run_seq e = 0 \<or> e_version e = 0 \<or> e_envelope_version e = 0 \<or> blank (e_type e)
        \<or> blank (pv_source (e_provenance e)) \<or> blank (pv_source_version (e_provenance e))
      then Inl (InvalidEnvelope ''sequence and versions must be positive and type/provenance must be non-empty'')
      else
        result_bind (validate_uuid7 env ''event_id'' (e_event_id e)) (\<lambda>_.
        result_bind (validate_uuid7 env ''run_id'' (e_run_id e)) (\<lambda>_.
        result_bind (validate_time env ''recorded_at'' (e_recorded_at e) True) (\<lambda>_.
        result_bind (case e_occurred_at e of None \<Rightarrow> Inr () | Some v \<Rightarrow> validate_time env ''occurred_at'' v False) (\<lambda>_.
          case e_payload e of
            Cas cas \<Rightarrow>
              if length (cr_sha256 cas) \<noteq> 64 \<or> \<not> list_all lower_hex (cr_sha256 cas) \<or> blank (cr_media cas)
              then Inl (InvalidEnvelope ''CAS reference must have a lowercase SHA-256 and media type'') else Inr ()
          | _ \<Rightarrow> Inr ())))))"

definition max_thread_title_chars :: nat where "max_thread_title_chars = 80"

fun as_object :: "json \<Rightarrow> (string \<times> json) list option" where
  "as_object (JObject kvs) = Some kvs"
| "as_object _ = None"

definition valid_posted_payload :: "journal_env \<Rightarrow> json \<Rightarrow> bool" where
  "valid_posted_payload env v =
     (case as_object v of
        None \<Rightarrow> False
      | Some kvs \<Rightarrow>
          (case Option.bind (map_of kvs ''message_id'') as_str of None \<Rightarrow> False | Some i \<Rightarrow> je_uuid env i)
          \<and> Option.bind (Option.bind (Option.bind (map_of kvs ''author'') as_object) (\<lambda>a. map_of a ''kind'')) as_str
              \<in> {Some ''user'', Some ''agent'', Some ''system''}
          \<and> (case Option.bind (map_of kvs ''text'') as_str of None \<Rightarrow> False | Some t \<Rightarrow> \<not> blank t \<and> length t \<le> 65536)
          \<and> (case map_of kvs ''deps'' of
               None \<Rightarrow> True
             | Some deps \<Rightarrow> (case as_object deps of None \<Rightarrow> False | Some ds \<Rightarrow> list_all (\<lambda>d. as_usize (snd d) \<noteq> None) ds)))"

definition valid_created :: "json \<Rightarrow> bool" where
  "valid_created v =
     (case as_object v of
        None \<Rightarrow> False
      | Some kvs \<Rightarrow> length kvs = 2
          \<and> (case map_of kvs ''migration_backfill'' of Some (JBool _) \<Rightarrow> True | _ \<Rightarrow> False)
          \<and> (case map_of kvs ''workspace'' of Some JNull \<Rightarrow> True | Some (JString _) \<Rightarrow> True | _ \<Rightarrow> False))"

definition valid_renamed :: "json \<Rightarrow> bool" where
  "valid_renamed v =
     (case as_object v of
        None \<Rightarrow> False
      | Some kvs \<Rightarrow> length kvs = 1
          \<and> (case Option.bind (map_of kvs ''title'') as_str of
               None \<Rightarrow> False
             | Some t \<Rightarrow> t \<noteq> [] \<and> t = trim t \<and> length (utf8_chars t) \<le> max_thread_title_chars))"

definition valid_rewound :: "journal_env \<Rightarrow> json \<Rightarrow> bool" where
  "valid_rewound env v =
     (case as_object v of
        None \<Rightarrow> False
      | Some kvs \<Rightarrow> length kvs = 1
          \<and> (case map_of kvs ''run_ids'' of
               Some (JArray ids) \<Rightarrow> ids \<noteq> [] \<and> length ids \<le> 10000
                 \<and> list_all (\<lambda>i. case as_str i of None \<Rightarrow> False | Some s \<Rightarrow> je_uuid env s) ids
             | _ \<Rightarrow> False))"

definition validate_decided_policy :: "journal_env \<Rightarrow> policy_decided \<Rightarrow> journal_error + unit" where
  "validate_decided_policy env p =
     result_bind (validate_uuid7 env ''policy_id'' (pd_id p)) (\<lambda>_.
       if blank (pd_actor p) \<or> (case pd_gate p of None \<Rightarrow> False | Some g \<Rightarrow> blank g)
         \<or> \<not> valid_policy_resource (pd_kind p) (pd_resource p)
       then Inl (InvalidEnvelope ''thread.permission.policy.decided payload is invalid'') else Inr ())"

definition require :: "bool \<Rightarrow> string \<Rightarrow> journal_error + unit" where
  "require b msg = (if b then Inr () else Inl (InvalidEnvelope msg))"

definition validate_thread_payload :: "journal_env \<Rightarrow> thread_event \<Rightarrow> journal_error + unit" where
  "validate_thread_payload env e =
     (let t = tv_type e; v = tv_payload e in
      if t = ''thread.created'' then require (valid_created v) ''thread.created payload is invalid''
      else if t = ''thread.title.renamed'' then require (valid_renamed v) ''thread.title.renamed payload is invalid''
      else if t = ''thread.permission.policy.decided''
      then (case je_decided env v of
              None \<Rightarrow> Inl (InvalidEnvelope ''thread.permission.policy.decided payload is invalid'')
            | Some p \<Rightarrow> validate_decided_policy env p)
      else if t = ''thread.permission.policy.revoked''
      then (case je_revoked env v of
              None \<Rightarrow> Inl (InvalidEnvelope ''thread.permission.policy.revoked payload is invalid'')
            | Some p \<Rightarrow> result_bind (validate_uuid7 env ''policy_id'' (pr_id p)) (\<lambda>_.
                require (\<not> blank (pr_actor p) \<and> \<not> blank (pr_reason p)) ''thread.permission.policy.revoked payload is invalid''))
      else if t = ''thread.permission.mode.set''
      then require (case je_mode env v of
                      None \<Rightarrow> False
                    | Some p \<Rightarrow> \<not> blank (ms_actor p) \<and> ms_source p \<in> {''user'', ''plan''})
             ''thread.permission.mode.set payload is invalid''
      else if t = ''thread.rewound'' then require (valid_rewound env v) ''thread.rewound payload is invalid''
      else if t = ''thread.message.posted''
      then require (valid_posted_payload env v) ''thread.message.posted payload is invalid''
      else if t = ''thread.deleted'' then require (as_object v = Some []) ''thread.deleted payload is invalid''
      else Inr ())"

definition validate_thread_envelope :: "journal_env \<Rightarrow> thread_event \<Rightarrow> journal_error + unit" where
  "validate_thread_envelope env e =
     result_bind (require (tv_seq e \<noteq> 0 \<and> tv_version e = 1 \<and> tv_envelope_version e = 1
         \<and> \<not> blank (pv_source (tv_provenance e)) \<and> \<not> blank (pv_source_version (tv_provenance e)))
       ''thread sequence and versions must be valid and provenance must be non-empty'') (\<lambda>_.
     result_bind (validate_uuid7 env ''thread event ID'' (tv_event_id e)) (\<lambda>_.
     result_bind (validate_uuid7 env ''thread ID'' (tv_thread e)) (\<lambda>_.
     result_bind (validate_time env ''recorded_at'' (tv_recorded_at e) True) (\<lambda>_.
       validate_thread_payload env e))))"

section \<open>Small projections\<close>

definition max_pending_gate_id_bytes :: nat where "max_pending_gate_id_bytes = 256"
definition max_pending_title_bytes :: nat where "max_pending_title_bytes = 1024"
definition max_pending_message_bytes :: nat where "max_pending_message_bytes = 4096"
definition max_receipt_field_bytes :: nat where "max_receipt_field_bytes = 1024"
definition max_receipt_capabilities :: nat where "max_receipt_capabilities = 64"

definition pending_fields :: "json \<Rightarrow> (string \<times> string \<times> string \<times> string option) option" where
  "pending_fields v =
     (let str = (\<lambda>name. Option.bind (jget v name) as_str); message = str ''message'' in
      case (str ''gate_id'', str ''kind'', str ''title'') of
        (Some gate_id, Some kind, Some title) \<Rightarrow>
          if kind = ''confirm'' \<and> \<not> blank gate_id \<and> length gate_id \<le> max_pending_gate_id_bytes
            \<and> \<not> blank title \<and> length title \<le> max_pending_title_bytes
            \<and> (jget v ''message'' \<in> {None, Some JNull}
               \<or> (case message of None \<Rightarrow> False | Some m \<Rightarrow> length m \<le> max_pending_message_bytes))
          then Some (gate_id, ''confirm'', title, message) else None
      | _ \<Rightarrow> None)"

definition update_pending :: "event_envelope \<Rightarrow> journal_db \<Rightarrow> journal_db" where
  "update_pending e db =
     (if e_type e = ''permission.requested''
      then db\<lparr>db_pending := db_pending db @ [\<lparr>pn_run = e_run_id e, pn_seq = e_run_seq e,
        pn_fields = (case e_payload e of Inline v \<Rightarrow> pending_fields v | _ \<Rightarrow> None)\<rparr>]\<rparr>
      else db)"

definition valid_receipt :: "receipt \<Rightarrow> bool" where
  "valid_receipt r \<longleftrightarrow>
     list_all (\<lambda>f. case f of None \<Rightarrow> True | Some v \<Rightarrow> \<not> blank v \<and> length v \<le> max_receipt_field_bytes)
       [rp_route r, rp_model r, rp_cost r, rp_time r]
     \<and> length (rp_capabilities r) \<le> max_receipt_capabilities
     \<and> list_all (\<lambda>c. \<not> blank (cap_name c) \<and> length (cap_name c) \<le> max_receipt_field_bytes
          \<and> \<not> blank (cap_version c) \<and> length (cap_version c) \<le> max_receipt_field_bytes) (rp_capabilities r)"

definition update_receipt :: "journal_env \<Rightarrow> event_envelope \<Rightarrow> journal_db \<Rightarrow> journal_db" where
  "update_receipt env e db =
     (if e_type e = ''run.completed''
      then db\<lparr>db_receipts := db_receipts db @ [\<lparr>rr_run = e_run_id e, rr_seq = e_run_seq e,
        rr_receipt = (case e_payload e of
            Inline v \<Rightarrow> (case Option.bind (jget v ''receipt'') (je_receipt env) of
                Some r \<Rightarrow> if valid_receipt r then Some r else None
              | None \<Rightarrow> None)
          | _ \<Rightarrow> None)\<rparr>]\<rparr>
      else db)"

text \<open>The three projections every insert of an event updates.\<close>

definition update_projections :: "journal_env \<Rightarrow> event_envelope \<Rightarrow> journal_db \<Rightarrow> journal_db journal_result" where
  "update_projections env e db =
     (case update_thread_projection (db_projection db) e of
        None \<Rightarrow> None
      | Some tp \<Rightarrow> Some (Inr (update_receipt env e (update_pending e (db\<lparr>db_projection := tp\<rparr>)))))"

section \<open>Appending\<close>

definition run_events :: "journal_db \<Rightarrow> string \<Rightarrow> event_envelope list" where
  "run_events db run = filter (\<lambda>e. e_run_id e = run) (db_events db)"

text \<open>\<open>COALESCE(MAX(run_seq), 0)\<close>.\<close>

definition last_run_seq :: "journal_db \<Rightarrow> string \<Rightarrow> u64" where
  "last_run_seq db run = foldl max 0 (map e_run_seq (run_events db run))"

text \<open>The insert, with the table's constraints: the key, \<open>UNIQUE(run_id, run_seq)\<close> and the checks.\<close>

definition event_constraint :: "journal_db \<Rightarrow> event_envelope \<Rightarrow> bool" where
  "event_constraint db e \<longleftrightarrow>
     list_all (\<lambda>x. e_event_id x \<noteq> e_event_id e \<and> \<not> (e_run_id x = e_run_id e \<and> e_run_seq x = e_run_seq e)) (db_events db)
     \<and> e_run_seq e > 0 \<and> e_version e > 0 \<and> e_envelope_version e > 0"

definition insert_event :: "journal_error \<Rightarrow> event_envelope \<Rightarrow> journal_db \<Rightarrow> journal_db journal_result" where
  "insert_event err e db =
     Some (if event_constraint db e then Inr (db\<lparr>db_events := db_events db @ [e]\<rparr>) else Inl err)"

definition insert_thread_event :: "thread_event \<Rightarrow> journal_db \<Rightarrow> journal_error + journal_db" where
  "insert_thread_event e db =
     (if list_all (\<lambda>x. tv_event_id x \<noteq> tv_event_id e \<and> \<not> (tv_thread x = tv_thread e \<and> tv_seq x = tv_seq e)) (db_thread_events db)
        \<and> tv_seq e > 0 \<and> tv_version e > 0 \<and> tv_envelope_version e > 0
      then Inr (db\<lparr>db_thread_events := db_thread_events db @ [e]\<rparr>) else Inl Sqlite)"

definition insert_run_thread :: "run_thread \<Rightarrow> journal_db \<Rightarrow> journal_error + journal_db" where
  "insert_run_thread r db =
     (if list_all (\<lambda>x. rt_run x \<noteq> rt_run r \<and> \<not> (rt_thread x = rt_thread r \<and> rt_ordinal x = rt_ordinal r)) (db_run_threads db)
        \<and> rt_ordinal r > 0
      then Inr (db\<lparr>db_run_threads := db_run_threads db @ [r]\<rparr>) else Inl Sqlite)"

definition insert_workspace :: "string \<Rightarrow> string \<Rightarrow> journal_db \<Rightarrow> journal_error + journal_db" where
  "insert_workspace run workspace db =
     (if run \<in> fst ` set (db_workspaces db) then Inl Sqlite
      else Inr (db\<lparr>db_workspaces := db_workspaces db @ [(run, workspace)]\<rparr>))"

text \<open>The UUIDs drawn for a new thread: its id and the id of its first event.\<close>

type_synonym thread_ids = "string \<times> string"

definition journal_provenance :: "bool \<Rightarrow> provenance" where
  "journal_provenance backfill = \<lparr>pv_source = (if backfill then ''schema-v3-migration'' else ''run-journal''),
     pv_source_version = ''1'', pv_actor_id = None, pv_device_id = None, pv_rpc_request_id = None,
     pv_capability_versions = None, pv_extra = []\<rparr>"

definition created_event :: "thread_ids \<Rightarrow> string option \<Rightarrow> string \<Rightarrow> bool \<Rightarrow> provenance \<Rightarrow> thread_event" where
  "created_event ids workspace at backfill pv = \<lparr>tv_event_id = snd ids, tv_thread = fst ids, tv_seq = 1,
     tv_type = ''thread.created'', tv_version = 1, tv_envelope_version = 1, tv_recorded_at = at,
     tv_payload = JObject [(''migration_backfill'', JBool backfill),
       (''workspace'', case workspace of None \<Rightarrow> JNull | Some w \<Rightarrow> JString w)], tv_provenance = pv\<rparr>"

definition append_thread_created_with_provenance ::
  "journal_env \<Rightarrow> thread_ids \<Rightarrow> string option \<Rightarrow> string \<Rightarrow> bool \<Rightarrow> provenance \<Rightarrow> journal_db \<Rightarrow> journal_error + journal_db" where
  "append_thread_created_with_provenance env ids workspace at backfill pv db =
     (let e = created_event ids workspace at backfill pv in
      result_bind (validate_thread_envelope env e) (\<lambda>_. insert_thread_event e db))"

definition append_thread_created ::
  "journal_env \<Rightarrow> thread_ids \<Rightarrow> string option \<Rightarrow> string \<Rightarrow> bool \<Rightarrow> journal_db \<Rightarrow> journal_error + journal_db" where
  "append_thread_created env ids workspace at backfill db =
     append_thread_created_with_provenance env ids workspace at backfill (journal_provenance backfill) db"

subsection \<open>A batch of one run\<close>

fun check_batch :: "journal_env \<Rightarrow> string \<Rightarrow> u64 \<Rightarrow> event_envelope list \<Rightarrow> journal_error + unit" where
  "check_batch env run expected [] = Inr ()"
| "check_batch env run expected (e # es) =
     result_bind (validate_envelope env e) (\<lambda>_.
       if e_run_id e \<noteq> run \<or> e_run_seq e \<noteq> expected + 1
       then Inl (InvalidEnvelope ''batch must contain one run with contiguous sequence numbers after expected_last_seq'')
       else check_batch env run (expected + 1) es)"

text \<open>Whether every event of the batch is stored already, byte for byte.\<close>

fun all_existing :: "journal_env \<Rightarrow> journal_db \<Rightarrow> event_envelope list \<Rightarrow> journal_error + bool" where
  "all_existing env db [] = Inr True"
| "all_existing env db (e # es) =
     (case find (\<lambda>x. e_event_id x = e_event_id e) (db_events db) of
        Some x \<Rightarrow> if je_canon env x = je_canon env e then all_existing env db es
                  else Inl (Conflicting (EventIdConflict (e_event_id e)))
      | None \<Rightarrow> result_bind (all_existing env db es) (\<lambda>_. Inr False))"

definition first_thread :: "journal_env \<Rightarrow> thread_ids \<Rightarrow> event_envelope \<Rightarrow> journal_db \<Rightarrow> journal_error + journal_db" where
  "first_thread env ids e db =
     result_bind (append_thread_created env ids (Some []) (e_recorded_at e) False db) (\<lambda>db.
       insert_run_thread \<lparr>rt_run = e_run_id e, rt_thread = fst ids, rt_ordinal = 1\<rparr> db)"

fun insert_batch :: "journal_env \<Rightarrow> event_envelope list \<Rightarrow> journal_db \<Rightarrow> journal_db journal_result" where
  "insert_batch env [] db = Some (Inr db)"
| "insert_batch env (e # es) db =
     and_then (insert_event (Conflicting (SequenceConflict (e_run_id e) (e_run_seq e))) e db) (\<lambda>db.
     and_then (update_projections env e db) (\<lambda>db. insert_batch env es db))"

definition append_batch :: "journal_env \<Rightarrow> thread_ids \<Rightarrow> u64 \<Rightarrow> event_envelope list \<Rightarrow> journal_db \<Rightarrow> journal_db journal_result" where
  "append_batch env ids expected es db =
     (case es of
        [] \<Rightarrow> Some (Inr db)
      | first # _ \<Rightarrow>
          and_then (Some (check_batch env (e_run_id first) expected es)) (\<lambda>_.
          and_then (Some (all_existing env db es)) (\<lambda>existing.
            if existing then Some (Inr db)
            else let actual = last_run_seq db (e_run_id first) in
              if actual \<noteq> expected then Some (Inl (Conflicting (StaleSequence expected actual)))
              else and_then (if actual = 0 then Some (first_thread env ids first db) else Some (Inr db)) (\<lambda>db.
                insert_batch env es db))))"

definition journal_append :: "journal_env \<Rightarrow> thread_ids \<Rightarrow> u64 \<Rightarrow> event_envelope \<Rightarrow> journal_db \<Rightarrow> journal_db journal_result" where
  "journal_append env ids expected e db = append_batch env ids expected [e] db"

subsection \<open>New runs and threads\<close>

definition insert_new_run :: "journal_env \<Rightarrow> string \<Rightarrow> event_envelope \<Rightarrow> journal_db \<Rightarrow> journal_db journal_result" where
  "insert_new_run env workspace e db =
     and_then (insert_event Sqlite e db) (\<lambda>db.
     and_then (update_projections env e db) (\<lambda>db.
       Some (insert_workspace (e_run_id e) workspace db)))"

definition append_new_run :: "journal_env \<Rightarrow> thread_ids \<Rightarrow> string \<Rightarrow> event_envelope \<Rightarrow> journal_db \<Rightarrow> (string \<times> journal_db) journal_result" where
  "append_new_run env ids workspace e db =
     and_then (Some (require (workspace \<noteq> [] \<and> e_run_seq e = 1) ''new run workspace and sequence must be valid'')) (\<lambda>_.
     and_then (Some (validate_envelope env e)) (\<lambda>_.
       if run_events db (e_run_id e) \<noteq> [] then Some (Inl (Conflicting (SequenceConflict (e_run_id e) 1)))
       else and_then (insert_new_run env workspace e db) (\<lambda>db.
         and_then (Some (append_thread_created env ids (Some workspace) (e_recorded_at e) False db)) (\<lambda>db.
         and_then (Some (insert_run_thread \<lparr>rt_run = e_run_id e, rt_thread = fst ids, rt_ordinal = 1\<rparr> db)) (\<lambda>db.
           Some (Inr (fst ids, db)))))))"

definition attach_profile :: "provenance \<Rightarrow> string option" where
  "attach_profile pv = Option.bind (map_of (pv_extra pv) ''attach_profile'') as_str"

definition create_thread :: "journal_env \<Rightarrow> thread_ids \<Rightarrow> string \<Rightarrow> string \<Rightarrow> provenance \<Rightarrow> journal_db \<Rightarrow> journal_error + string \<times> journal_db" where
  "create_thread env ids workspace at pv db =
     result_bind (require (workspace \<noteq> [] \<and> attach_profile pv \<notin> {None, Some []})
       ''thread workspace and attach profile must be valid'') (\<lambda>_.
     result_bind (append_thread_created_with_provenance env ids (Some workspace) at False pv db) (\<lambda>db.
       Inr (fst ids, db)))"

definition thread_rows :: "journal_db \<Rightarrow> string \<Rightarrow> thread_event list" where
  "thread_rows db thread = filter (\<lambda>e. tv_thread e = thread) (db_thread_events db)"

definition thread_deleted :: "journal_db \<Rightarrow> string \<Rightarrow> bool" where
  "thread_deleted db thread \<longleftrightarrow> list_ex (\<lambda>e. tv_type e = ''thread.deleted'') (thread_rows db thread)"

definition last_thread_seq :: "journal_db \<Rightarrow> string \<Rightarrow> u64" where
  "last_thread_seq db thread = foldl max 0 (map tv_seq (thread_rows db thread))"

definition runs_of_thread :: "journal_db \<Rightarrow> string \<Rightarrow> run_thread list" where
  "runs_of_thread db thread = sort_key rt_ordinal (filter (\<lambda>r. rt_thread r = thread) (db_run_threads db))"

text \<open>The profile of a thread: of the first event of its first run that has one, else of the event that created it.\<close>

definition thread_profile :: "journal_db \<Rightarrow> string \<Rightarrow> string option" where
  "thread_profile db thread =
     (let firsts = concat (map (\<lambda>r. filter (\<lambda>e. e_run_seq e = 1) (run_events db (rt_run r))) (runs_of_thread db thread));
          created = find (\<lambda>e. tv_seq e = 1) (thread_rows db thread)
      in case (case firsts of [] \<Rightarrow> None | e # _ \<Rightarrow> attach_profile (e_provenance e)) of
           Some profile \<Rightarrow> Some profile
         | None \<Rightarrow> Option.bind created (\<lambda>e. attach_profile (tv_provenance e)))"

definition next_run_ordinal :: "journal_db \<Rightarrow> string \<Rightarrow> u64" where
  "next_run_ordinal db thread = foldl max 0 (map rt_ordinal (filter (\<lambda>r. rt_thread r = thread) (db_run_threads db))) + 1"

text \<open>\<open>after_validation\<close> may replace the payload, or stop the append with an error of its own.\<close>

definition append_new_run_in_thread_with_payload ::
  "journal_env \<Rightarrow> string \<Rightarrow> string \<Rightarrow> (event_payload \<Rightarrow> 'err + event_payload) \<Rightarrow> event_envelope \<Rightarrow> journal_db
    \<Rightarrow> ('err + journal_db) journal_result" where
  "append_new_run_in_thread_with_payload env workspace thread after_validation e db =
     and_then (Some (require (workspace \<noteq> [] \<and> e_run_seq e = 1) ''new run workspace and sequence must be valid'')) (\<lambda>_.
     and_then (Some (validate_envelope env e)) (\<lambda>_.
       if run_events db (e_run_id e) \<noteq> [] then Some (Inl (Conflicting (SequenceConflict (e_run_id e) 1)))
       else
         case find (\<lambda>x. tv_seq x = 1 \<and> tv_type x = ''thread.created'') (thread_rows db thread) of
           None \<Rightarrow> Some (Inl (InvalidEnvelope ''thread does not exist''))
         | Some created \<Rightarrow>
             and_then (Some (require (\<not> thread_deleted db thread) ''thread is deleted'')) (\<lambda>_.
             and_then (Some (require (Option.bind (jget (tv_payload created) ''workspace'') as_str = Some workspace)
               ''thread belongs to another workspace'')) (\<lambda>_.
             and_then (Some (require (thread_profile db thread = attach_profile (e_provenance e))
               ''thread belongs to another profile'')) (\<lambda>_.
               case after_validation (e_payload e) of
                 Inl err \<Rightarrow> Some (Inr (Inl err))
               | Inr p \<Rightarrow>
                   (let e = e\<lparr>e_payload := p\<rparr> in
                    and_then (Some (validate_envelope env e)) (\<lambda>_.
                    and_then (insert_new_run env workspace e db) (\<lambda>db'.
                    and_then (Some (insert_run_thread
                      \<lparr>rt_run = e_run_id e, rt_thread = thread, rt_ordinal = next_run_ordinal db thread\<rparr> db')) (\<lambda>db'.
                      Some (Inr (Inr db')))))))))))"

definition append_new_run_in_thread ::
  "journal_env \<Rightarrow> string \<Rightarrow> string \<Rightarrow> event_envelope \<Rightarrow> journal_db \<Rightarrow> journal_db journal_result" where
  "append_new_run_in_thread env workspace thread e db =
     and_then (append_new_run_in_thread_with_payload env workspace thread Inr e db) (\<lambda>r. Some r)"

subsection \<open>Thread events\<close>

text \<open>The decisions stored for a thread, by policy id; a policy id names one decision.\<close>

fun known_decisions :: "journal_env \<Rightarrow> thread_event list \<Rightarrow> (string \<rightharpoonup> policy_decided) \<Rightarrow> journal_error + (string \<rightharpoonup> policy_decided)" where
  "known_decisions env [] known = Inr known"
| "known_decisions env (e # es) known =
     (case je_decided env (tv_payload e) of
        None \<Rightarrow> Inl (Corrupt ''stored thread permission decision is invalid'')
      | Some p \<Rightarrow>
          if (case known (pd_id p) of None \<Rightarrow> False | Some q \<Rightarrow> q \<noteq> p)
          then Inl (Corrupt ''policy_id names different decisions in one thread'')
          else known_decisions env es (known(pd_id p \<mapsto> p)))"

definition validate_thread_policy_append :: "journal_env \<Rightarrow> thread_event \<Rightarrow> journal_db \<Rightarrow> journal_error + unit" where
  "validate_thread_policy_append env e db =
     (if tv_type e \<notin> {''thread.permission.policy.decided'', ''thread.permission.policy.revoked''} then Inr ()
      else result_bind (known_decisions env (sort_key tv_seq
          (filter (\<lambda>x. tv_type x = ''thread.permission.policy.decided'') (thread_rows db (tv_thread e)))) Map.empty) (\<lambda>known.
        if tv_type e = ''thread.permission.policy.decided''
        then (case je_decided env (tv_payload e) of
                None \<Rightarrow> Inl (InvalidEnvelope ''thread.permission.policy.decided payload is invalid'')
              | Some p \<Rightarrow> require (known (pd_id p) \<in> {None, Some p}) ''policy_id already names a different decision'')
        else (case je_revoked env (tv_payload e) of
                None \<Rightarrow> Inl (InvalidEnvelope ''thread.permission.policy.revoked payload is invalid'')
              | Some p \<Rightarrow> require (known (pr_id p) \<noteq> None) ''policy_id does not name an earlier decision in this thread'')))"

definition append_thread_event ::
  "journal_env \<Rightarrow> string \<Rightarrow> u64 \<Rightarrow> string \<Rightarrow> string \<Rightarrow> string \<Rightarrow> json \<Rightarrow> provenance \<Rightarrow> journal_db \<Rightarrow> journal_error + journal_db" where
  "append_thread_event env event_id expected thread event_type at body pv db =
     (case checked_add expected 1 of
        None \<Rightarrow> Inl (InvalidEnvelope ''thread sequence overflow'')
      | Some seq \<Rightarrow>
          (let e = \<lparr>tv_event_id = event_id, tv_thread = thread, tv_seq = seq, tv_type = event_type, tv_version = 1,
             tv_envelope_version = 1, tv_recorded_at = at, tv_payload = body, tv_provenance = pv\<rparr>;
             actual = last_thread_seq db thread in
           result_bind (validate_thread_envelope env e) (\<lambda>_.
             if actual \<noteq> expected then Inl (Conflicting (StaleSequence expected actual))
             else result_bind (require (actual \<noteq> 0) ''thread does not exist'') (\<lambda>_.
               result_bind (require (\<not> thread_deleted db thread) ''thread is deleted'') (\<lambda>_.
               result_bind (validate_thread_policy_append env e db) (\<lambda>_. insert_thread_event e db))))))"

definition append_thread_title_renamed ::
  "journal_env \<Rightarrow> string \<Rightarrow> u64 \<Rightarrow> string \<Rightarrow> string \<Rightarrow> string \<Rightarrow> provenance \<Rightarrow> journal_db \<Rightarrow> journal_error + journal_db" where
  "append_thread_title_renamed env event_id expected thread title at pv db =
     (let title = trim title in
      result_bind (require (title \<noteq> [] \<and> length (utf8_chars title) \<le> max_thread_title_chars)
        (''thread title must contain 1 to '' @ dec_str max_thread_title_chars @ '' characters'')) (\<lambda>_.
      append_thread_event env event_id expected thread ''thread.title.renamed'' at (JObject [(''title'', JString title)]) pv db))"

definition append_thread_deleted ::
  "journal_env \<Rightarrow> string \<Rightarrow> u64 \<Rightarrow> string \<Rightarrow> string \<Rightarrow> provenance \<Rightarrow> journal_db \<Rightarrow> journal_error + journal_db" where
  "append_thread_deleted env event_id expected thread at pv db =
     append_thread_event env event_id expected thread ''thread.deleted'' at (JObject []) pv db"

definition append_thread_rewound ::
  "journal_env \<Rightarrow> string \<Rightarrow> u64 \<Rightarrow> string \<Rightarrow> string list \<Rightarrow> string \<Rightarrow> provenance \<Rightarrow> journal_db \<Rightarrow> journal_error + journal_db" where
  "append_thread_rewound env event_id expected thread run_ids at pv db =
     append_thread_event env event_id expected thread ''thread.rewound'' at
       (JObject [(''run_ids'', JArray (map JString run_ids))]) pv db"

text \<open>The policy and mode events, whose payload is the JSON of the given value.\<close>

definition append_thread_permission_policy_decided ::
  "journal_env \<Rightarrow> (policy_decided \<Rightarrow> json) \<Rightarrow> string \<Rightarrow> u64 \<Rightarrow> string \<Rightarrow> policy_decided \<Rightarrow> string \<Rightarrow> provenance \<Rightarrow> journal_db \<Rightarrow> journal_error + journal_db" where
  "append_thread_permission_policy_decided env to_json event_id expected thread p at pv db =
     append_thread_event env event_id expected thread ''thread.permission.policy.decided'' at (to_json p) pv db"

definition append_thread_permission_policy_revoked ::
  "journal_env \<Rightarrow> (policy_revoked \<Rightarrow> json) \<Rightarrow> string \<Rightarrow> u64 \<Rightarrow> string \<Rightarrow> policy_revoked \<Rightarrow> string \<Rightarrow> provenance \<Rightarrow> journal_db \<Rightarrow> journal_error + journal_db" where
  "append_thread_permission_policy_revoked env to_json event_id expected thread p at pv db =
     append_thread_event env event_id expected thread ''thread.permission.policy.revoked'' at (to_json p) pv db"

definition append_thread_permission_mode_set ::
  "journal_env \<Rightarrow> (mode_set \<Rightarrow> json) \<Rightarrow> string \<Rightarrow> u64 \<Rightarrow> string \<Rightarrow> mode_set \<Rightarrow> string \<Rightarrow> provenance \<Rightarrow> journal_db \<Rightarrow> journal_error + journal_db" where
  "append_thread_permission_mode_set env to_json event_id expected thread p at pv db =
     append_thread_event env event_id expected thread ''thread.permission.mode.set'' at (to_json p) pv db"

section \<open>Reading\<close>

subsection \<open>Policies and modes of a thread\<close>

definition thread_permission_mode :: "journal_env \<Rightarrow> journal_db \<Rightarrow> string \<Rightarrow> journal_error + mode_set option" where
  "thread_permission_mode env db thread =
     (case rev (sort_key tv_seq (filter (\<lambda>e. tv_type e \<in> {''thread.permission.mode.set'', ''thread.deleted''}) (thread_rows db thread))) of
        [] \<Rightarrow> Inr None
      | e # _ \<Rightarrow>
          if tv_type e \<noteq> ''thread.permission.mode.set'' then Inr None
          else (case je_mode env (tv_payload e) of
                  None \<Rightarrow> Inl (Corrupt ''stored thread permission mode is invalid'')
                | Some p \<Rightarrow> Inr (Some p)))"

definition without_policy :: "string \<Rightarrow> policy_decided list \<Rightarrow> policy_decided list" where
  "without_policy i ps = filter (\<lambda>p. pd_id p \<noteq> i) ps"

definition as_corrupt :: "journal_error + unit \<Rightarrow> journal_error + unit" where
  "as_corrupt r = (case r of Inl (InvalidEnvelope m) \<Rightarrow> Inl (Corrupt (''invalid event envelope: '' @ m)) | r \<Rightarrow> r)"

fun active_policies :: "journal_env \<Rightarrow> thread_event list \<Rightarrow> (string \<rightharpoonup> policy_decided) \<Rightarrow> policy_decided list
    \<Rightarrow> journal_error + policy_decided list" where
  "active_policies env [] known active = Inr active"
| "active_policies env (e # es) known active =
     result_bind (as_corrupt (validate_thread_envelope env e)) (\<lambda>_.
       if tv_type e = ''thread.permission.policy.decided''
       then (case je_decided env (tv_payload e) of
               None \<Rightarrow> Inl (Corrupt ''stored thread permission decision is invalid'')
             | Some p \<Rightarrow>
                 if (case known (pd_id p) of None \<Rightarrow> False | Some q \<Rightarrow> q \<noteq> p)
                 then Inl (Corrupt ''policy_id names different decisions in one thread'')
                 else active_policies env es (known(pd_id p \<mapsto> p)) (without_policy (pd_id p) active @ [p]))
       else (case je_revoked env (tv_payload e) of
               None \<Rightarrow> Inl (Corrupt ''stored thread permission revocation is invalid'')
             | Some p \<Rightarrow>
                 if known (pr_id p) = None then Inl (Corrupt ''thread permission revocation names no earlier decision'')
                 else active_policies env es known (without_policy (pr_id p) active)))"

definition policy_rows :: "journal_db \<Rightarrow> string \<Rightarrow> thread_event list" where
  "policy_rows db thread = sort_key tv_seq (filter (\<lambda>e. tv_type e \<in>
     {''thread.permission.policy.decided'', ''thread.permission.policy.revoked''}) (thread_rows db thread))"

definition active_thread_permission_policies :: "journal_env \<Rightarrow> journal_db \<Rightarrow> string \<Rightarrow> journal_error + policy_decided list" where
  "active_thread_permission_policies env db thread =
     (if thread_deleted db thread then Inr [] else active_policies env (policy_rows db thread) Map.empty [])"

definition lookup_thread_permission_policy ::
  "journal_env \<Rightarrow> journal_db \<Rightarrow> string \<Rightarrow> request_kind \<Rightarrow> resource \<Rightarrow> journal_error + policy_decided option" where
  "lookup_thread_permission_policy env db thread kind res =
     result_bind (active_thread_permission_policies env db thread) (\<lambda>ps.
       Inr (find (\<lambda>p. pd_kind p = kind \<and> pd_resource p = res) (rev ps)))"

subsection \<open>Events of a run\<close>

definition journal_events :: "journal_db \<Rightarrow> string \<Rightarrow> event_envelope list" where
  "journal_events db run = sort_key e_run_seq (run_events db run)"

datatype page_error = InvalidLimit | InvalidPageCursor | NotFoundOrInaccessible | PageJournal journal_error

record run_event_page =
  pg_events :: "event_envelope list"
  pg_next :: "string option"

definition max_page_size :: nat where "max_page_size = 100"

definition encode_run_event_cursor :: "journal_env \<Rightarrow> string \<Rightarrow> u64 \<Rightarrow> string" where
  "encode_run_event_cursor env run seq = je_seal env \<lparr>rc_version = 1, rc_run = run, rc_after = seq,
     rc_authenticator = je_b64 env (je_mac env run seq)\<rparr>"

definition decode_run_event_cursor :: "journal_env \<Rightarrow> string \<Rightarrow> string \<Rightarrow> page_error + u64" where
  "decode_run_event_cursor env encoded run =
     (case je_unseal env encoded of
        None \<Rightarrow> Inl InvalidPageCursor
      | Some c \<Rightarrow>
          (case je_unb64 env (rc_authenticator c) of
             None \<Rightarrow> Inl InvalidPageCursor
           | Some mac \<Rightarrow>
               if rc_version c \<noteq> 1 \<or> rc_run c \<noteq> run \<or> rc_after c = 0 \<or> je_mac env run (rc_after c) \<noteq> mac
               then Inl InvalidPageCursor else Inr (rc_after c)))"

definition event_page :: "journal_env \<Rightarrow> journal_db \<Rightarrow> string \<Rightarrow> nat \<Rightarrow> string option \<Rightarrow> page_error + run_event_page" where
  "event_page env db run limit cursor =
     (if limit < 1 \<or> max_page_size < limit then Inl InvalidLimit
      else result_bind (case cursor of None \<Rightarrow> Inr 0 | Some c \<Rightarrow> decode_run_event_cursor env c run) (\<lambda>after.
        if run_events db run = [] then Inl NotFoundOrInaccessible
        else if after > 0 \<and> \<not> list_ex (\<lambda>e. e_run_seq e = after) (run_events db run) then Inl InvalidPageCursor
        else
          (let found = take (limit + 1) (filter (\<lambda>e. e_run_seq e > after) (journal_events db run));
               page = take limit found
           in Inr \<lparr>pg_events = page,
             pg_next = (if length found > limit then Some (encode_run_event_cursor env run (e_run_seq (last page))) else None)\<rparr>)))"

text \<open>A reader that follows the cursors to the end, with fuel for its pages.\<close>

fun read_pages :: "journal_env \<Rightarrow> journal_db \<Rightarrow> string \<Rightarrow> nat \<Rightarrow> nat \<Rightarrow> string option \<Rightarrow> (page_error + event_envelope list) option" where
  "read_pages env db run limit 0 cursor = None"
| "read_pages env db run limit (Suc fuel) cursor =
     (case event_page env db run limit cursor of
        Inl err \<Rightarrow> Some (Inl err)
      | Inr p \<Rightarrow>
          (case pg_next p of
             None \<Rightarrow> Some (Inr (pg_events p))
           | Some c \<Rightarrow> map_option (\<lambda>r. result_bind r (\<lambda>es. Inr (pg_events p @ es))) (read_pages env db run limit fuel (Some c))))"

definition run_belongs_to_workspace :: "journal_db \<Rightarrow> string \<Rightarrow> string \<Rightarrow> bool" where
  "run_belongs_to_workspace db run workspace \<longleftrightarrow> (run, workspace) \<in> set (db_workspaces db)"

definition workspace_event_page :: "journal_env \<Rightarrow> journal_db \<Rightarrow> string \<Rightarrow> string \<Rightarrow> nat \<Rightarrow> string option \<Rightarrow> page_error + run_event_page" where
  "workspace_event_page env db workspace run limit cursor =
     (if \<not> run_belongs_to_workspace db run workspace then Inl NotFoundOrInaccessible else event_page env db run limit cursor)"

section \<open>Binding and deleting\<close>

definition min_recorded_at :: "event_envelope list \<Rightarrow> string" where
  "min_recorded_at es = fold min (map e_recorded_at (tl es)) (e_recorded_at (hd es))"

definition bind_run_workspace :: "journal_env \<Rightarrow> thread_ids \<Rightarrow> string \<Rightarrow> string \<Rightarrow> journal_db \<Rightarrow> journal_error + journal_db" where
  "bind_run_workspace env ids run workspace db =
     result_bind (require (workspace \<noteq> []) ''workspace must be non-empty'') (\<lambda>_.
       if run_events db run = [] then Inl (InvalidEnvelope ''run does not exist'')
       else
         (let db = (if run \<in> fst ` set (db_workspaces db) then db
                    else db\<lparr>db_workspaces := db_workspaces db @ [(run, workspace)]\<rparr>) in
          if map_of (db_workspaces db) run \<noteq> Some workspace then Inl (Conflicting (EventIdConflict run))
          else if list_ex (\<lambda>r. rt_run r = run) (db_run_threads db) then Inr db
          else result_bind (append_thread_created env ids (Some workspace) (min_recorded_at (run_events db run)) False db) (\<lambda>db.
            insert_run_thread \<lparr>rt_run = run, rt_thread = fst ids, rt_ordinal = 1\<rparr> db)))"

text \<open>The content hashes the events of a run name.\<close>

definition payload_hash :: "event_envelope \<Rightarrow> string option" where
  "payload_hash e = (case e_payload e of Cas c \<Rightarrow> Some (cr_sha256 c) | Attached a \<Rightarrow> Some (at_sha256 a) | Inline _ \<Rightarrow> None)"

definition referenced_hashes_for_run :: "journal_db \<Rightarrow> string option \<Rightarrow> string list" where
  "referenced_hashes_for_run db run =
     remdups (List.map_filter payload_hash (case run of None \<Rightarrow> db_events db | Some r \<Rightarrow> run_events db r))"

definition delete_run :: "string \<Rightarrow> journal_db \<Rightarrow> string list \<times> journal_db" where
  "delete_run run db =
     (let tp = db_projection db;
          rts = filter (\<lambda>r. rt_run r \<noteq> run) (db_run_threads db);
          gone = (\<lambda>thread. list_ex (\<lambda>r. rt_run r = run \<and> rt_thread r = thread) (db_run_threads db)
                    \<and> \<not> list_ex (\<lambda>r. rt_thread r = thread) rts)
      in (referenced_hashes_for_run db (Some run),
        \<lparr>db_events = filter (\<lambda>e. e_run_id e \<noteq> run) (db_events db),
          db_thread_events = filter (\<lambda>e. \<not> gone (tv_thread e)) (db_thread_events db),
          db_run_threads = rts,
          db_workspaces = filter (\<lambda>w. fst w \<noteq> run) (db_workspaces db),
          db_projection = \<lparr>tp_entries = filter (\<lambda>r. pe_run r \<noteq> run) (tp_entries tp),
            tp_versions = filter (\<lambda>v. vr_run v \<noteq> run) (tp_versions tp)\<rparr>,
          db_pending = filter (\<lambda>r. pn_run r \<noteq> run) (db_pending db),
          db_receipts = filter (\<lambda>r. rr_run r \<noteq> run) (db_receipts db)\<rparr>))"

section \<open>Splitting model text\<close>

definition max_model_stream_delta_bytes :: nat where "max_model_stream_delta_bytes = 65536"

text \<open>Pieces of at most the limit, each cut from the front of what remains, with fuel for the pieces.\<close>

fun split_delta :: "nat \<Rightarrow> string \<Rightarrow> string list option" where
  "split_delta fuel remaining =
     (if remaining = [] then Some []
      else (case fuel of
              0 \<Rightarrow> None
            | Suc fuel \<Rightarrow>
                (let n = boundary_before remaining (min (length remaining) max_model_stream_delta_bytes)
                 in map_option ((#) (take n remaining)) (split_delta fuel (drop n remaining)))))"

declare split_delta.simps [simp del]

definition split_model_stream_delta :: "string \<Rightarrow> string list option" where
  "split_model_stream_delta tx = split_delta (length tx) tx"

end
