(* ===== verification/Journal_Replica.thy ===== *)
theory Journal_Replica
  imports Run_Journal
begin

text \<open>
  The journal's part in replication (\<open>journal/replica.rs\<close>): threads under the id of another runtime, thread events
  kept under their own id at the next local number, and the reads a scan and an export use. A row's number in
  SQLite is an argument, the row id of each event id; the list a \<open>UNION\<close> gives is the set of its rows.
\<close>

section \<open>Reads\<close>

definition thread_exists :: "journal_db \<Rightarrow> string \<Rightarrow> bool" where
  "thread_exists db thread \<longleftrightarrow> list_ex (\<lambda>e. tv_seq e = 1) (thread_rows db thread) \<and> \<not> thread_deleted db thread"

text \<open>\<open>LIMIT\<close> with a \<open>usize\<close> cast to \<open>i64\<close>: a negative limit is none.\<close>

definition limit_rows :: "nat \<Rightarrow> 'a list \<Rightarrow> 'a list" where
  "limit_rows limit xs = (if int limit < 2 ^ 63 then take limit xs else xs)"

text \<open>Newest delete first, then by thread id.\<close>

definition newer_delete :: "string \<times> string \<Rightarrow> string \<times> string \<Rightarrow> bool" where
  "newer_delete a b \<longleftrightarrow> fst b < fst a \<or> (fst a = fst b \<and> snd a \<le> snd b)"

fun place_delete :: "string \<times> string \<Rightarrow> (string \<times> string) list \<Rightarrow> (string \<times> string) list" where
  "place_delete a [] = [a]"
| "place_delete a (b # bs) = (if newer_delete a b then a # b # bs else b # place_delete a bs)"

definition deleted_thread_ids :: "journal_db \<Rightarrow> nat \<Rightarrow> string list" where
  "deleted_thread_ids db limit =
     (let gone = filter (\<lambda>e. tv_type e = ''thread.deleted'') (db_thread_events db);
          newest = (\<lambda>t. foldl max [] (map tv_recorded_at (filter (\<lambda>e. tv_thread e = t) gone)))
      in limit_rows limit (map snd (foldr place_delete (map (\<lambda>t. (newest t, t)) (remdups (map tv_thread gone))) [])))"

definition thread_run_marks :: "journal_db \<Rightarrow> string \<Rightarrow> (string \<times> u64) list" where
  "thread_run_marks db thread = map (\<lambda>r. (rt_run r, last_run_seq db (rt_run r))) (runs_of_thread db thread)"

definition run_events_after :: "journal_db \<Rightarrow> string \<Rightarrow> u64 \<Rightarrow> nat \<Rightarrow> event_envelope list" where
  "run_events_after db run after limit = limit_rows limit (filter (\<lambda>e. e_run_seq e > after) (journal_events db run))"

definition run_event :: "journal_db \<Rightarrow> string \<Rightarrow> u64 \<Rightarrow> event_envelope option" where
  "run_event db run seq = find (\<lambda>e. e_run_seq e = seq) (run_events_after db run (saturating_sub seq 1) 1)"

definition thread_events_after :: "journal_db \<Rightarrow> string \<Rightarrow> u64 \<Rightarrow> thread_event list" where
  "thread_events_after db thread after = filter (\<lambda>e. tv_seq e > after) (sort_key tv_seq (thread_rows db thread))"

definition thread_event_by_id :: "journal_db \<Rightarrow> string \<Rightarrow> thread_event option" where
  "thread_event_by_id db i = find (\<lambda>e. tv_event_id e = i) (db_thread_events db)"

definition run_event_exists :: "journal_db \<Rightarrow> string \<Rightarrow> bool" where
  "run_event_exists db i \<longleftrightarrow> list_ex (\<lambda>e. e_event_id e = i) (db_events db)"

definition thread_scope :: "journal_db \<Rightarrow> string \<Rightarrow> (string option \<times> string option) option" where
  "thread_scope db thread =
     map_option (\<lambda>e. (Option.bind (jget (tv_payload e) ''workspace'') as_str, attach_profile (tv_provenance e)))
       (find (\<lambda>e. tv_seq e = 1) (thread_rows db thread))"

section \<open>Changed threads\<close>

definition newest_row :: "int list \<Rightarrow> int" where
  "newest_row rows = foldl max 0 rows"

definition threads_changed_after :: "(string \<Rightarrow> int) \<Rightarrow> (string \<Rightarrow> int) \<Rightarrow> journal_db \<Rightarrow> int \<Rightarrow> int \<Rightarrow> string set \<times> int \<times> int" where
  "threads_changed_after run_row thread_row db run_mark thread_mark =
     (let run_max = newest_row (map (run_row \<circ> e_event_id) (db_events db));
          thread_max = newest_row (map (thread_row \<circ> tv_event_id) (db_thread_events db));
          run_mark = (if run_mark > run_max then 0 else run_mark);
          thread_mark = (if thread_mark > thread_max then 0 else thread_mark);
          new_runs = map e_run_id (filter (\<lambda>e. run_row (e_event_id e) > run_mark \<and> run_row (e_event_id e) \<le> run_max) (db_events db))
      in (rt_thread ` set (filter (\<lambda>r. rt_run r \<in> set new_runs) (db_run_threads db))
            \<union> tv_thread ` set (filter (\<lambda>e. thread_row (tv_event_id e) > thread_mark \<and> thread_row (tv_event_id e) \<le> thread_max)
                (db_thread_events db)),
          run_max, thread_max))"

section \<open>Writes\<close>

definition new_thread_event :: "string \<Rightarrow> string \<Rightarrow> string \<Rightarrow> string \<Rightarrow> json \<Rightarrow> provenance \<Rightarrow> thread_event" where
  "new_thread_event i thread ty at body pv = \<lparr>tv_event_id = i, tv_thread = thread, tv_seq = 1, tv_type = ty, tv_version = 1,
     tv_envelope_version = 1, tv_recorded_at = at, tv_payload = body, tv_provenance = pv\<rparr>"

definition create_thread_with_id :: "journal_env \<Rightarrow> string \<Rightarrow> string \<Rightarrow> string \<Rightarrow> string \<Rightarrow> provenance \<Rightarrow> journal_db
    \<Rightarrow> journal_error + bool \<times> journal_db" where
  "create_thread_with_id env event_id thread workspace at pv db =
     result_bind (require (workspace \<noteq> [] \<and> attach_profile pv \<notin> {None, Some []})
       ''thread workspace and attach profile must be valid'') (\<lambda>_.
       if thread_rows db thread \<noteq> [] then Inr (False, db)
       else result_bind (append_thread_created_with_provenance env (thread, event_id) (Some workspace) at False pv db) (\<lambda>db.
         Inr (True, db)))"

text \<open>The events that stay with the runtime that wrote them.\<close>

definition not_replicated :: "string \<Rightarrow> bool" where
  "not_replicated ty \<longleftrightarrow> ty = ''thread.created''
     \<or> (starts_with ty ''thread.permission.'' \<and> ty \<noteq> ''thread.permission.mode.set'')"

definition append_thread_event_with_id :: "journal_env \<Rightarrow> thread_event \<Rightarrow> journal_db \<Rightarrow> journal_error + thread_event \<times> journal_db" where
  "append_thread_event_with_id env e db =
     (case thread_event_by_id db (tv_event_id e) of
        Some stored \<Rightarrow> Inr (stored, db)
      | None \<Rightarrow>
          (let actual = last_thread_seq db (tv_thread e) in
           result_bind (require (actual \<noteq> 0) ''thread does not exist'') (\<lambda>_.
           result_bind (require (\<not> thread_deleted db (tv_thread e)) ''thread is deleted'') (\<lambda>_.
           result_bind (require (\<not> not_replicated (tv_type e)) ''this thread event cannot be replicated'') (\<lambda>_.
             (let e = e\<lparr>tv_seq := actual + 1\<rparr> in
              result_bind (validate_thread_envelope env e) (\<lambda>_.
              result_bind (insert_thread_event e db) (\<lambda>db. Inr (e, db)))))))))"

end
