(* ===== verification/Thread_Properties.thy ===== *)
theory Thread_Properties
  imports Thread_Projection Reducer_Properties
begin

text \<open>
  Reading a run's tables as of an earlier event shows what they held then; the chunks of the reply are
  the stream's text; and no insert meets a taken key.
\<close>

section \<open>Views\<close>

type_synonym shown_row = "int \<times> string \<times> string option"

definition current :: "thread_tables \<Rightarrow> string \<Rightarrow> shown_row set" where
  "current tp run = (\<lambda>r. (pe_ordinal r, pe_kind r, pe_text r)) ` set (entries_of tp run)"

definition version_triple :: "proj_version \<Rightarrow> shown_row" where
  "version_triple v = (vr_ordinal v, vr_kind v, vr_text v)"

definition open_rows :: "thread_tables \<Rightarrow> string \<Rightarrow> shown_row set" where
  "open_rows tp run = version_triple ` {v \<in> set (tp_versions tp). vr_run v = run \<and> vr_until v = None}"

definition shown_at :: "thread_tables \<Rightarrow> string \<Rightarrow> u64 \<Rightarrow> shown_row set" where
  "shown_at tp run s = version_triple ` {v \<in> set (tp_versions tp). vr_run v = run \<and> valid_at s v}"

section \<open>One shape for every change of the versions\<close>

definition close_row :: "event_envelope \<Rightarrow> (proj_version \<Rightarrow> bool) \<Rightarrow> proj_version \<Rightarrow> proj_version" where
  "close_row e P v = (if vr_run v = e_run_id e \<and> vr_until v = None \<and> P v then v\<lparr>vr_until := Some (e_run_seq e)\<rparr> else v)"

definition new_row :: "event_envelope \<Rightarrow> proj_version \<Rightarrow> bool" where
  "new_row e v \<longleftrightarrow> vr_run v = e_run_id e \<and> vr_from v = e_run_seq e \<and> vr_until v = None"

definition versions_step :: "event_envelope \<Rightarrow> thread_tables \<Rightarrow> thread_tables \<Rightarrow> bool" where
  "versions_step e tp tp' \<longleftrightarrow> (\<exists>P new. tp_versions tp' = map (close_row e P) (tp_versions tp) @ new \<and> (\<forall>v\<in>set new. new_row e v))"

lemma close_versions_row: "tp_versions (close_versions e P tp) = map (close_row e P) (tp_versions tp)"
  by (simp add: close_versions_def close_row_def)

lemma close_none: "map (close_row e (\<lambda>_. False)) vs = vs"
  by (rule map_idI) (simp add: close_row_def)

lemma new_version_row: "new_row e (version_row e kind r)"
  by (simp add: new_row_def version_row_def)

lemma versions_refl: "tp_versions tp' = tp_versions tp \<Longrightarrow> versions_step e tp tp'"
  unfolding versions_step_def by (intro exI [of _ "\<lambda>_. False"] exI [of _ "[]"]) (simp add: close_none)

lemma versions_close: "tp_versions tp' = tp_versions (close_versions e P tp) \<Longrightarrow> versions_step e tp tp'"
  unfolding versions_step_def by (intro exI [of _ P] exI [of _ "[]"]) (simp add: close_versions_row)

lemma versions_add:
  assumes "versions_step e tp tp'"
  shows "versions_step e tp (insert_versions e kind rs tp')"
proof -
  from assms(1) obtain P old where "tp_versions tp' = map (close_row e P) (tp_versions tp) @ old" "\<forall>v\<in>set old. new_row e v"
    by (auto simp: versions_step_def)
  then show ?thesis
    unfolding versions_step_def insert_versions_def
    by (intro exI [of _ P] exI [of _ "old @ map (version_row e kind) rs"]) (auto simp: new_version_row)
qed

lemma versions_insert_rows: "versions_step e tp tp' \<Longrightarrow> versions_step e tp (insert_rows tp' e kind rs)"
  unfolding insert_rows_def by (rule versions_add) (simp add: versions_step_def)

lemma versions_insert_chunks:
  "versions_step e tp tp' \<Longrightarrow> insert_chunks tp' e kind tx = Some tp'' \<Longrightarrow> versions_step e tp tp''"
  by (auto simp: insert_chunks_def versions_insert_rows)

lemma versions_gone_pending: "versions_step e tp (gone_pending tp e)"
  by (rule versions_close [where P = "\<lambda>v. vr_kind v = ''permission_pending''"])
    (simp add: gone_pending_def delete_entries_def archive_def)

lemma versions_tool_outcome: "versions_step e tp (tool_outcome tp e i)"
  unfolding tool_outcome_def Let_def
  by (intro versions_add versions_close [where P = "\<lambda>v. vr_kind v = ''tool_running:'' @ i"])
    (simp add: rename_entries_def archive_def)

lemma versions_fill: "versions_step e tp (fst (fill_tail tp e ordinal tail_text tx))"
  unfolding fill_tail_def Let_def fst_conv
  by (intro versions_add versions_close [where P = "\<lambda>v. vr_ordinal v = ordinal"]) (simp add: set_text_def)

lemma versions_delta:
  assumes "delta_projection tp e tx = Some tp'"
  shows "versions_step e tp tp'"
proof (cases "last_assistant tp (e_run_id e)")
  case None
  with assms show ?thesis by (auto simp: delta_projection_def intro: versions_insert_chunks versions_refl)
next
  case (Some r)
  then show ?thesis
    using assms versions_fill [of e tp "fst r" "snd r" tx]
    by (auto simp: delta_projection_def intro: versions_insert_chunks split: prod.splits if_splits)
qed

lemma update_versions_step:
  assumes "update_thread_projection tp e = Some tp'"
  shows "versions_step e tp tp'"
  using assms
  by (auto simp: update_thread_projection_def Let_def
      intro: versions_refl versions_insert_chunks versions_delta versions_tool_outcome versions_gone_pending
        versions_insert_rows versions_insert_chunks [OF versions_gone_pending]
      split: if_splits option.splits event_payload.splits)

section \<open>The open versions are the current rows\<close>

definition tables_ok :: "thread_tables \<Rightarrow> bool" where
  "tables_ok tp \<longleftrightarrow> (\<forall>run. open_rows tp run = current tp run \<and> sorted_wrt (<) (map pe_ordinal (entries_of tp run)))"

lemma open_insert: "open_rows (insert_versions e kind rs tp) run
    = open_rows tp run \<union> (if run = e_run_id e then (\<lambda>(n, tx). (n, kind, tx)) ` set rs else {})"
proof -
  have "{v \<in> set (tp_versions (insert_versions e kind rs tp)). vr_run v = run \<and> vr_until v = None}
      = {v \<in> set (tp_versions tp). vr_run v = run \<and> vr_until v = None}
        \<union> (if run = e_run_id e then version_row e kind ` set rs else {})"
    by (auto simp: insert_versions_def version_row_def)
  then show ?thesis
    by (simp add: open_rows_def image_Un image_image version_triple_def version_row_def case_prod_beta)
qed

lemma open_close:
  assumes "\<And>v. P v \<longleftrightarrow> Q (version_triple v)"
  shows "open_rows (close_versions e P tp) run
    = (if run = e_run_id e then {t \<in> open_rows tp run. \<not> Q t} else open_rows tp run)"
  by (auto simp: open_rows_def close_versions_def version_triple_def image_iff assms split: if_splits)

lemma open_entries: "open_rows (tp\<lparr>tp_entries := es\<rparr>) run = open_rows tp run"
  by (simp add: open_rows_def)

lemma current_versions: "current (tp\<lparr>tp_versions := vs\<rparr>) run = current tp run"
    "entries_of (tp\<lparr>tp_versions := vs\<rparr>) run = entries_of tp run"
  by (simp_all add: current_def entries_of_def)

lemma entries_kept [simp]: "entries_of (insert_versions e kind rs tp) run = entries_of tp run"
    "entries_of (close_versions e P tp) run = entries_of tp run" "entries_of (archive e kind tp) run = entries_of tp run"
  by (simp_all add: insert_versions_def close_versions_def archive_def current_versions)

lemma entries_insert_rows:
  "entries_of (insert_rows tp e kind rs) run = entries_of tp run @ (if run = e_run_id e then map (entry_row e kind) rs else [])"
  by (simp add: insert_rows_def) (simp add: entries_of_def entry_row_def filter_empty_conv)

lemma entries_delete:
  "entries_of (delete_entries e kind tp) run = filter (\<lambda>r. run = e_run_id e \<longrightarrow> pe_kind r \<noteq> kind) (entries_of tp run)"
  by (simp add: entries_of_def delete_entries_def conj_commute cong: conj_cong) (rule filter_cong; auto)

lemma entries_map:
  assumes "\<And>r. pe_run (f r) = pe_run r"
  shows "entries_of (tp\<lparr>tp_entries := map f (tp_entries tp)\<rparr>) run = map f (entries_of tp run)"
  by (simp add: entries_of_def filter_map comp_def assms)

lemma next_ordinal_above: "r \<in> set (entries_of tp run) \<Longrightarrow> pe_ordinal r < next_ordinal tp run"
proof -
  assume r: "r \<in> set (entries_of tp run)"
  then have "pe_ordinal r \<le> Max (pe_ordinal ` set (entries_of tp run))" by simp
  with r show ?thesis by (cases "entries_of tp run") (simp_all add: next_ordinal_def)
qed

lemma next_ordinal_cong: "entries_of tp' run = entries_of tp run \<Longrightarrow> next_ordinal tp' run = next_ordinal tp run"
  by (simp add: next_ordinal_def)

lemma ok_insert_rows:
  assumes "tables_ok tp" "sorted_wrt (<) (map fst rs)" "\<forall>r\<in>set rs. next_ordinal tp (e_run_id e) \<le> fst r"
  shows "tables_ok (insert_rows tp e kind rs)"
proof -
  have "open_rows (insert_rows tp e kind rs) run = current (insert_rows tp e kind rs) run" for run
  proof -
    have "open_rows (insert_rows tp e kind rs) run
        = open_rows tp run \<union> (if run = e_run_id e then (\<lambda>(n, tx). (n, kind, tx)) ` set rs else {})"
      by (simp add: insert_rows_def open_insert open_entries)
    moreover have "current (insert_rows tp e kind rs) run
        = current tp run \<union> (if run = e_run_id e then (\<lambda>(n, tx). (n, kind, tx)) ` set rs else {})"
      by (simp add: current_def entries_insert_rows entry_row_def image_Un image_image case_prod_beta)
    ultimately show ?thesis using assms(1) by (simp add: tables_ok_def)
  qed
  moreover have "sorted_wrt (<) (map pe_ordinal (entries_of (insert_rows tp e kind rs) run))" for run
  proof -
    have "pe_ordinal r < fst x" if "r \<in> set (entries_of tp (e_run_id e))" "x \<in> set rs" for r x
      using next_ordinal_above [OF that(1)] assms(3) that(2) by fastforce
    with assms(1,2) show ?thesis
      by (auto simp: tables_ok_def entries_insert_rows sorted_wrt_append entry_row_def comp_def)
  qed
  ultimately show ?thesis by (simp add: tables_ok_def)
qed

lemma with_ordinals_fst: "map fst (with_ordinals first xs) = map (\<lambda>i. first + int i) [0..<length xs]"
  by (simp add: with_ordinals_def)

lemma ok_insert_chunks:
  assumes "tables_ok tp" "insert_chunks tp e kind tx = Some tp'"
  shows "tables_ok tp'"
proof -
  obtain cs where "tp' = insert_rows tp e kind (with_ordinals (next_ordinal tp (e_run_id e)) (map Some cs))"
    using assms(2) by (auto simp: insert_chunks_def)
  moreover have "sorted_wrt (<) (map fst (with_ordinals (next_ordinal tp (e_run_id e)) (map Some cs)))"
    by (simp only: with_ordinals_fst) (simp add: sorted_wrt_map sorted_wrt_iff_nth_less)
  moreover have "fst r \<in> set (map fst (with_ordinals n (map Some cs)))" if "r \<in> set (with_ordinals n (map Some cs))" for r n
    using that by simp
  then have "\<forall>r\<in>set (with_ordinals (next_ordinal tp (e_run_id e)) (map Some cs)). next_ordinal tp (e_run_id e) \<le> fst r"
    by (simp only: with_ordinals_fst) fastforce
  ultimately show ?thesis using ok_insert_rows [OF assms(1)] by blast
qed

lemma open_archive: "open_rows (archive e kind tp) run
    = (if run = e_run_id e then {t \<in> open_rows tp run. fst (snd t) \<noteq> kind} else open_rows tp run)"
  unfolding archive_def by (subst open_close [where Q = "\<lambda>t. fst (snd t) = kind"]) (simp_all add: version_triple_def)

lemma ok_gone_pending:
  assumes "tables_ok tp"
  shows "tables_ok (gone_pending tp e)"
proof -
  have "open_rows (gone_pending tp e) run = current (gone_pending tp e) run" for run
  proof -
    have "open_rows (gone_pending tp e) run = open_rows (archive e ''permission_pending'' tp) run"
      by (simp add: gone_pending_def delete_entries_def open_entries)
    moreover have "current (gone_pending tp e) run
        = (if run = e_run_id e then {t \<in> current tp run. fst (snd t) \<noteq> ''permission_pending''} else current tp run)"
      by (auto simp: current_def gone_pending_def entries_delete)
    ultimately show ?thesis using assms by (simp add: open_archive tables_ok_def)
  qed
  moreover have "sorted_wrt (<) (map pe_ordinal (entries_of (gone_pending tp e) run))" for run
    using assms by (simp add: gone_pending_def entries_delete tables_ok_def sorted_wrt_map sorted_wrt_filter)
  ultimately show ?thesis by (simp add: tables_ok_def)
qed

lemma image_rename:
  "(\<lambda>t. if b \<and> fst (snd t) = old then (fst t, new, snd (snd t)) else t) ` A
    = (if b then {t \<in> A. fst (snd t) \<noteq> old} \<union> {(n, new, tx) |n tx. (n, old, tx) \<in> A} else A)"
proof (cases b)
  case True
  have "(n, new, tx) \<in> (\<lambda>t. if fst (snd t) = old then (fst t, new, snd (snd t)) else t) ` A" if "(n, old, tx) \<in> A" for n tx
    using that by (intro image_eqI [of _ _ "(n, old, tx)"]) simp_all
  moreover have "t \<in> (\<lambda>t. if fst (snd t) = old then (fst t, new, snd (snd t)) else t) ` A" if "t \<in> A" "fst (snd t) \<noteq> old" for t
    using that by (intro image_eqI [of _ _ t]) simp_all
  ultimately show ?thesis using True by (auto split: if_splits)
qed simp

lemma ok_tool_outcome:
  assumes "tables_ok tp"
  shows "tables_ok (tool_outcome tp e i)"
proof -
  define old where "old = ''tool_running:'' @ i"
  let ?new = "outcome_kind e"
  let ?f = "\<lambda>r. if pe_run r = e_run_id e \<and> pe_kind r = old then r\<lparr>pe_kind := ?new\<rparr> else r"
  have ne: "?new \<noteq> old" by (simp add: outcome_kind_def old_def)
  have ents: "entries_of (rename_entries e old ?new (archive e old tp)) run = map ?f (entries_of tp run)" for run
    unfolding rename_entries_def by (subst entries_map) simp_all
  have cur: "current (rename_entries e old ?new (archive e old tp)) run =
    (if run = e_run_id e then {t \<in> current tp run. fst (snd t) \<noteq> old} \<union> {(n, ?new, tx) |n tx. (n, old, tx) \<in> current tp run}
     else current tp run)" for run
  proof -
    have "current (rename_entries e old ?new (archive e old tp)) run
        = (\<lambda>t. if run = e_run_id e \<and> fst (snd t) = old then (fst t, ?new, snd (snd t)) else t) ` current tp run"
      unfolding current_def ents set_map image_image by (rule image_cong [OF refl]) (auto simp: entries_of_def)
    then show ?thesis by (simp only: image_rename)
  qed
  have "open_rows (tool_outcome tp e i) run = current (tool_outcome tp e i) run" for run
  proof -
    let ?tp = "rename_entries e old ?new (archive e old tp)"
    have "(\<lambda>(n, tx). (n, ?new, tx)) ` set (map (\<lambda>r. (pe_ordinal r, pe_text r)) (filter (\<lambda>r. pe_kind r = ?new) (entries_of ?tp (e_run_id e))))
        = {t \<in> current ?tp (e_run_id e). fst (snd t) = ?new}" by (auto simp: current_def image_image image_def)
    note shown = this
    have "open_rows (tool_outcome tp e i) run = open_rows ?tp run \<union> (if run = e_run_id e then {t \<in> current ?tp run. fst (snd t) = ?new} else {})"
      unfolding tool_outcome_def Let_def old_def [symmetric] open_insert shown by simp
    moreover have "open_rows ?tp run = (if run = e_run_id e then {t \<in> current tp run. fst (snd t) \<noteq> old} else current tp run)"
      using assms by (simp add: rename_entries_def open_entries open_archive tables_ok_def)
    moreover have "current (tool_outcome tp e i) run = current ?tp run"
      unfolding tool_outcome_def Let_def old_def [symmetric] current_def by simp
    ultimately show ?thesis by (auto simp: cur)
  qed
  moreover have "sorted_wrt (<) (map pe_ordinal (entries_of (tool_outcome tp e i) run))" for run
  proof -
    have "map pe_ordinal (entries_of (tool_outcome tp e i) run) = map pe_ordinal (entries_of tp run)"
      unfolding tool_outcome_def Let_def old_def [symmetric] by (simp add: ents)
    then show ?thesis using assms by (simp add: tables_ok_def)
  qed
  ultimately show ?thesis by (simp add: tables_ok_def)
qed

subsection \<open>The reply's chunks\<close>

lemma max_last:
  fixes xs :: "'a::linorder list"
  assumes "sorted_wrt (<) xs" "xs \<noteq> []"
  shows "Max (set xs) = last xs"
proof -
  obtain ys y where xs: "xs = ys @ [y]" using assms(2) by (metis append_butlast_last_id)
  with assms(1) have "\<forall>z\<in>set ys. z < y" by (simp add: sorted_wrt_append)
  then show ?thesis unfolding xs by (intro Max_eqI) (auto intro: less_imp_le)
qed

lemma assistant_sorted: "tables_ok tp \<Longrightarrow> sorted_wrt (<) (map pe_ordinal (assistant_rows tp run))"
  by (simp add: assistant_rows_def tables_ok_def sorted_wrt_map sorted_wrt_filter)

lemma last_assistant_None: "assistant_rows tp run = [] \<Longrightarrow> last_assistant tp run = None"
  by (simp add: last_assistant_def)

lemma last_assistant_Some:
  assumes "tables_ok tp" "assistant_rows tp run = rs @ [r]"
  shows "last_assistant tp run = Some (pe_ordinal r, case pe_text r of None \<Rightarrow> [] | Some t \<Rightarrow> t)"
proof -
  have s: "sorted_wrt (<) (map pe_ordinal (rs @ [r]))" using assistant_sorted [OF assms(1), of run] assms(2) by simp
  have "Max (set (map pe_ordinal (rs @ [r]))) = pe_ordinal r" by (subst max_last [OF s]) simp_all
  then have "Max (pe_ordinal ` set (rs @ [r])) = pe_ordinal r" by (simp only: set_map)
  moreover have "find (\<lambda>x. pe_ordinal x = pe_ordinal r) (rs @ [r]) = Some r"
    using s by (induction rs) auto
  ultimately show ?thesis
    unfolding last_assistant_def assms(2) by (cases "rs @ [r]") (auto split: if_splits)
qed

lemma fill_entries: "entries_of (fst (fill_tail tp e n held tx)) run
    = map (\<lambda>r. if pe_run r = e_run_id e \<and> pe_ordinal r = n
        then r\<lparr>pe_text := Some (held @ take (boundary_before tx (min (projection_text_chunk - length held) (length tx))) tx)\<rparr> else r)
      (entries_of tp run)"
  unfolding fill_tail_def Let_def fst_conv entries_kept set_text_def by (subst entries_map) simp_all

lemma ordinal_unique:
  assumes "tables_ok tp" "r \<in> set (entries_of tp run)" "x \<in> set (entries_of tp run)" "pe_ordinal x = pe_ordinal r"
  shows "x = r"
proof -
  have "distinct (map pe_ordinal (entries_of tp run))" using assms(1) by (simp add: tables_ok_def strict_sorted_iff)
  with assms(2-4) show ?thesis by (meson distinct_map inj_on_eq_iff)
qed

lemma ok_fill:
  assumes "tables_ok tp" "r \<in> set (assistant_rows tp (e_run_id e))"
  shows "tables_ok (fst (fill_tail tp e (pe_ordinal r) held tx))"
proof -
  let ?held = "held @ take (boundary_before tx (min (projection_text_chunk - length held) (length tx))) tx"
  let ?f = "\<lambda>x. if pe_run x = e_run_id e \<and> pe_ordinal x = pe_ordinal r then x\<lparr>pe_text := Some ?held\<rparr> else x"
  let ?tp = "fst (fill_tail tp e (pe_ordinal r) held tx)"
  have r: "r \<in> set (entries_of tp (e_run_id e))" "pe_kind r = ''assistant_message''" "pe_run r = e_run_id e"
    using assms(2) by (auto simp: assistant_rows_def entries_of_def)
  have "open_rows ?tp run = current ?tp run" for run
  proof (cases "run = e_run_id e")
    case True
    have "open_rows ?tp run = {t \<in> current tp run. fst t \<noteq> pe_ordinal r} \<union> {(pe_ordinal r, ''assistant_message'', Some ?held)}"
      using True assms(1) unfolding fill_tail_def Let_def fst_conv
      by (simp add: open_insert set_text_def open_entries open_close [where Q = "\<lambda>t. fst t = pe_ordinal r"] version_triple_def tables_ok_def)
    also have "\<dots> = (\<lambda>x. (pe_ordinal (?f x), pe_kind (?f x), pe_text (?f x))) ` set (entries_of tp run)"
    proof -
      have "?f x = (if x = r then r\<lparr>pe_text := Some ?held\<rparr> else x)" if "x \<in> set (entries_of tp run)" for x
        using ordinal_unique [OF assms(1), of r run x] that r True by auto
      then have "(\<lambda>x. (pe_ordinal (?f x), pe_kind (?f x), pe_text (?f x))) ` set (entries_of tp run)
          = (\<lambda>x. if x = r then (pe_ordinal r, ''assistant_message'', Some ?held) else (pe_ordinal x, pe_kind x, pe_text x)) ` set (entries_of tp run)"
        by (intro image_cong) (simp_all add: r(2))
      then show ?thesis
        using ordinal_unique [OF assms(1), of r run] r(1) True by (auto simp: current_def)
    qed
    finally show ?thesis unfolding current_def fill_entries set_map image_image .
  next
    case False
    then have "entries_of ?tp run = entries_of tp run"
      unfolding fill_entries by (intro map_idI) (auto simp: entries_of_def)
    moreover have "open_rows ?tp run = open_rows tp run"
      using False unfolding fill_tail_def Let_def fst_conv
      by (simp add: open_insert set_text_def open_entries open_close [where Q = "\<lambda>t. fst t = pe_ordinal r"] version_triple_def)
    ultimately show ?thesis using assms(1) by (simp add: current_def tables_ok_def)
  qed
  moreover have "map pe_ordinal (entries_of ?tp run) = map pe_ordinal (entries_of tp run)" for run
    by (simp add: fill_entries)
  ultimately show ?thesis using assms(1) by (simp add: tables_ok_def)
qed

lemma ok_delta:
  assumes "tables_ok tp" "delta_projection tp e tx = Some tp'"
  shows "tables_ok tp'"
proof (cases "assistant_rows tp (e_run_id e)" rule: rev_cases)
  case Nil
  with assms show ?thesis by (auto simp: delta_projection_def last_assistant_None intro: ok_insert_chunks)
next
  case (snoc rs r)
  note l = last_assistant_Some [OF assms(1) snoc]
  have "tables_ok (fst (fill_tail tp e (pe_ordinal r) (case pe_text r of None \<Rightarrow> [] | Some t \<Rightarrow> t) tx))"
    by (rule ok_fill [OF assms(1)]) (simp add: snoc)
  with assms(2) l show ?thesis
    by (auto simp: delta_projection_def intro: ok_insert_chunks split: prod.splits if_splits)
qed

lemma update_ok:
  assumes "tables_ok tp" "update_thread_projection tp e = Some tp'"
  shows "tables_ok tp'"
  using assms
  by (auto simp: update_thread_projection_def Let_def
      intro: ok_insert_chunks ok_delta ok_tool_outcome ok_gone_pending ok_insert_chunks [OF ok_gone_pending] ok_insert_rows
      split: if_splits option.splits event_payload.splits)

section \<open>Reading the past\<close>

lemma close_row_simps [simp]:
  "vr_run (close_row e P v) = vr_run v" "version_triple (close_row e P v) = version_triple v" "vr_from (close_row e P v) = vr_from v"
  by (simp_all add: close_row_def version_triple_def)

lemma close_row_valid: "vr_run v \<noteq> e_run_id e \<or> s < e_run_seq e \<Longrightarrow> valid_at s (close_row e P v) = valid_at s v"
  by (auto simp: close_row_def valid_at_def)

lemma shown_before:
  assumes "versions_step e tp tp'" "run \<noteq> e_run_id e \<or> s < e_run_seq e"
  shows "shown_at tp' run s = shown_at tp run s"
proof -
  obtain P new where v: "tp_versions tp' = map (close_row e P) (tp_versions tp) @ new" "\<forall>v\<in>set new. new_row e v"
    using assms(1) by (auto simp: versions_step_def)
  have "{v \<in> set new. vr_run v = run \<and> valid_at s v} = {}"
    using v(2) assms(2) by (auto simp: new_row_def valid_at_def)
  then have "{v \<in> set (tp_versions tp'). vr_run v = run \<and> valid_at s v}
      = {v \<in> close_row e P ` set (tp_versions tp). vr_run v = run \<and> valid_at s v}"
    by (auto simp: v(1))
  also have "\<dots> = close_row e P ` {v \<in> set (tp_versions tp). vr_run v = run \<and> valid_at s v}"
    using close_row_valid [of _ e s P] assms(2) by auto
  finally show ?thesis by (simp add: shown_at_def image_image)
qed

text \<open>Every version begins and ends at an event of its run.\<close>

definition stamped_by :: "event_envelope list \<Rightarrow> thread_tables \<Rightarrow> bool" where
  "stamped_by es tp \<longleftrightarrow> (\<forall>v\<in>set (tp_versions tp). \<forall>q\<in>insert (vr_from v) (set_option (vr_until v)).
     \<exists>e\<in>set es. e_run_id e = vr_run v \<and> e_run_seq e = q)"

lemma stamped_step:
  assumes "stamped_by es tp" "versions_step e tp tp'"
  shows "stamped_by (es @ [e]) tp'"
proof -
  obtain P new where v: "tp_versions tp' = map (close_row e P) (tp_versions tp) @ new" "\<forall>v\<in>set new. new_row e v"
    using assms(2) by (auto simp: versions_step_def)
  have "\<exists>x\<in>set (es @ [e]). e_run_id x = vr_run v \<and> e_run_seq x = q"
    if m: "v \<in> set (tp_versions tp')" and q: "q \<in> insert (vr_from v) (set_option (vr_until v))" for v q
  proof -
    consider w where "w \<in> set (tp_versions tp)" "v = close_row e P w" | "new_row e v" using m v by auto
    then show ?thesis
    proof cases
      case 1
      with q have "q \<in> insert (vr_from w) (set_option (vr_until w)) \<or> (q = e_run_seq e \<and> vr_run w = e_run_id e)"
        by (auto simp: close_row_def split: if_splits)
      with 1 assms(1) show ?thesis by (fastforce simp: stamped_by_def)
    next
      case 2
      with q show ?thesis by (auto simp: new_row_def)
    qed
  qed
  then show ?thesis unfolding stamped_by_def by blast
qed

lemma shown_now:
  assumes "stamped_by es tp" "\<forall>e\<in>set es. e_run_id e = run \<longrightarrow> e_run_seq e \<le> s"
  shows "shown_at tp run s = open_rows tp run"
proof -
  have "valid_at s v \<longleftrightarrow> vr_until v = None" if "v \<in> set (tp_versions tp)" "vr_run v = run" for v
  proof -
    have "vr_from v \<le> s" "\<And>u. vr_until v = Some u \<Longrightarrow> u \<le> s"
      using assms that unfolding stamped_by_def by fastforce+
    then show ?thesis by (auto simp: valid_at_def split: option.splits)
  qed
  then show ?thesis unfolding shown_at_def open_rows_def by (intro arg_cong [where f = "(`) version_triple"]) auto
qed

section \<open>The reply's text\<close>

text \<open>The strings an event gives the projection are UTF-8, as every Rust string is.\<close>

definition valid_texts :: "event_envelope \<Rightarrow> bool" where
  "valid_texts e \<longleftrightarrow> (\<forall>name tx. inline_text e name = Some tx \<longrightarrow> valid_utf8 tx)
     \<and> (\<forall>a. e_payload e = Attached a \<longrightarrow> valid_utf8 (at_name a))"

definition row_text :: "proj_entry \<Rightarrow> string" where
  "row_text r = (case pe_text r of None \<Rightarrow> [] | Some t \<Rightarrow> t)"

definition reply :: "thread_tables \<Rightarrow> string \<Rightarrow> string" where
  "reply tp run = concat (map row_text (assistant_rows tp run))"

definition reply_bounded :: "thread_tables \<Rightarrow> bool" where
  "reply_bounded tp \<longleftrightarrow> (\<forall>run. \<forall>r\<in>set (assistant_rows tp run). length (row_text r) \<le> projection_text_chunk)"

definition stream_text :: "event_envelope \<Rightarrow> string" where
  "stream_text e = (if e_type e = ''model.stream.delta'' then (case inline_text e ''text'' of None \<Rightarrow> [] | Some tx \<Rightarrow> tx) else [])"

text \<open>The event adds a text to the reply of its run, in chunks of the bounded size.\<close>

definition reply_grows :: "event_envelope \<Rightarrow> string \<Rightarrow> thread_tables \<Rightarrow> thread_tables \<Rightarrow> bool" where
  "reply_grows e tx tp tp' \<longleftrightarrow> (\<forall>run. reply tp' run = reply tp run @ (if run = e_run_id e then tx else []))
     \<and> (reply_bounded tp \<longrightarrow> reply_bounded tp')"

lemma chunks_spec:
  assumes "valid_utf8 tx"
  obtains cs where "chunks tx = Some cs" "concat cs = tx" "\<forall>c\<in>set cs. length c \<le> projection_text_chunk"
  using chunks_from_spec [of projection_text_chunk tx 0 "length tx"] assms
  by (cases "tx = []") (auto simp: chunks_def projection_text_chunk_def)

lemma assistant_kept:
  "kind \<noteq> ''assistant_message'' \<Longrightarrow> assistant_rows (insert_rows tp e kind rs) run = assistant_rows tp run"
  "assistant_rows (gone_pending tp e) run = assistant_rows tp run"
  "assistant_rows (tool_outcome tp e i) run = assistant_rows tp run"
proof -
  show "kind \<noteq> ''assistant_message'' \<Longrightarrow> assistant_rows (insert_rows tp e kind rs) run = assistant_rows tp run"
    by (auto simp: assistant_rows_def entries_insert_rows entry_row_def filter_empty_conv)
  show "assistant_rows (gone_pending tp e) run = assistant_rows tp run"
    unfolding assistant_rows_def gone_pending_def entries_delete entries_kept filter_filter by (rule filter_cong) auto
  define old where "old = ''tool_running:'' @ i"
  have ne: "old \<noteq> ''assistant_message''" "outcome_kind e \<noteq> ''assistant_message''" by (simp_all add: old_def outcome_kind_def)
  let ?f = "\<lambda>r. if pe_run r = e_run_id e \<and> pe_kind r = old then r\<lparr>pe_kind := outcome_kind e\<rparr> else r"
  have "entries_of (tool_outcome tp e i) run = map ?f (entries_of tp run)"
    unfolding tool_outcome_def Let_def old_def [symmetric] rename_entries_def entries_kept by (subst entries_map) simp_all
  moreover have "filter (\<lambda>r. pe_kind r = ''assistant_message'') (map ?f rs) = filter (\<lambda>r. pe_kind r = ''assistant_message'') rs" for rs
    using ne by (induction rs) auto
  ultimately show "assistant_rows (tool_outcome tp e i) run = assistant_rows tp run" by (simp only: assistant_rows_def)
qed

lemma insert_chunks_total:
  assumes "valid_utf8 tx"
  shows "\<exists>tp'. insert_chunks tp e kind tx = Some tp' \<and> (kind \<noteq> ''assistant_message'' \<longrightarrow> (\<forall>run. assistant_rows tp' run = assistant_rows tp run))"
proof -
  obtain cs where "chunks tx = Some cs" using chunks_spec [OF assms] .
  then show ?thesis by (auto simp: insert_chunks_def assistant_kept)
qed

lemma map_snd_ordinals: "map snd (with_ordinals n xs) = xs"
  by (simp add: with_ordinals_def)

lemma insert_reply:
  assumes "valid_utf8 tx"
  shows "\<exists>tp'. insert_chunks tp e ''assistant_message'' tx = Some tp' \<and> reply_grows e tx tp tp'"
proof -
  obtain cs where cs: "chunks tx = Some cs" "concat cs = tx" "\<forall>c\<in>set cs. length c \<le> projection_text_chunk"
    using assms by (rule chunks_spec)
  let ?rs = "with_ordinals (next_ordinal tp (e_run_id e)) (map Some cs)"
  let ?tp = "insert_rows tp e ''assistant_message'' ?rs"
  have rows: "assistant_rows ?tp run = assistant_rows tp run @ (if run = e_run_id e then map (entry_row e ''assistant_message'') ?rs else [])" for run
    by (simp add: assistant_rows_def entries_insert_rows entry_row_def filter_empty_conv)
  have new: "map row_text (map (entry_row e ''assistant_message'') ?rs) = cs"
  proof -
    have "map row_text (map (entry_row e ''assistant_message'') ?rs) = map (case_option [] id) (map snd ?rs)"
      by (simp add: row_text_def entry_row_def comp_def id_def)
    then show ?thesis by (simp add: map_snd_ordinals comp_def)
  qed
  have "reply ?tp run = reply tp run @ (if run = e_run_id e then tx else [])" for run
    unfolding reply_def rows using new cs(2) by simp
  moreover have "reply_bounded ?tp" if "reply_bounded tp"
  proof -
    have "length (row_text r) \<le> projection_text_chunk" if "r \<in> set (map (entry_row e ''assistant_message'') ?rs)" for r
    proof -
      have "row_text r \<in> set (map row_text (map (entry_row e ''assistant_message'') ?rs))" using that unfolding set_map by (rule imageI)
      then have "row_text r \<in> set cs" by (simp only: new)
      with cs(3) show ?thesis by blast
    qed
    with \<open>reply_bounded tp\<close> show ?thesis unfolding reply_bounded_def rows by auto
  qed
  ultimately show ?thesis using cs(1) by (auto simp: insert_chunks_def reply_grows_def)
qed

lemma fill_reply:
  assumes "tables_ok tp" "assistant_rows tp (e_run_id e) = rs @ [r]" "fill_tail tp e (pe_ordinal r) (row_text r) tx = (tp1, rest)"
  shows "reply tp1 run @ (if run = e_run_id e then rest else []) = reply tp run @ (if run = e_run_id e then tx else [])
    \<and> (reply_bounded tp \<longrightarrow> reply_bounded tp1)"
proof -
  let ?n = "boundary_before tx (min (projection_text_chunk - length (row_text r)) (length tx))"
  let ?f = "\<lambda>x. if pe_run x = e_run_id e \<and> pe_ordinal x = pe_ordinal r then x\<lparr>pe_text := Some (row_text r @ take ?n tx)\<rparr> else x"
  have tp1: "tp1 = fst (fill_tail tp e (pe_ordinal r) (row_text r) tx)" "rest = drop ?n tx"
    using assms(3) by (simp_all add: fill_tail_def Let_def)
  have rows: "assistant_rows tp1 q = map ?f (assistant_rows tp q)" for q
    unfolding assistant_rows_def tp1 fill_entries filter_map by (intro arg_cong [where f = "map _"] filter_cong) auto
  have other: "assistant_rows tp1 q = assistant_rows tp q" if "q \<noteq> e_run_id e" for q
    unfolding rows by (rule map_idI) (use that in \<open>auto simp: assistant_rows_def entries_of_def\<close>)
  have own: "assistant_rows tp1 (e_run_id e) = rs @ [r\<lparr>pe_text := Some (row_text r @ take ?n tx)\<rparr>]"
  proof -
    have "r \<in> set (assistant_rows tp (e_run_id e))" by (simp add: assms(2))
    then have "pe_run r = e_run_id e" by (simp add: assistant_rows_def entries_of_def)
    moreover have "\<forall>x\<in>set rs. pe_ordinal x \<noteq> pe_ordinal r"
      using assistant_sorted [OF assms(1), of "e_run_id e"] by (auto simp: assms(2) sorted_wrt_append)
    ultimately show ?thesis unfolding rows assms(2) by (auto intro: map_idI)
  qed
  have "length (row_text r @ take ?n tx) \<le> projection_text_chunk" if "length (row_text r) \<le> projection_text_chunk"
    using that boundary_before_le [of tx "min (projection_text_chunk - length (row_text r)) (length tx)"] by auto
  note short = this
  have "reply_bounded tp1" if bound: "reply_bounded tp"
    unfolding reply_bounded_def
  proof (intro allI ballI)
    fix q x assume x: "x \<in> set (assistant_rows tp1 q)"
    have old: "length (row_text y) \<le> projection_text_chunk" if "y \<in> set (assistant_rows tp q)" for y
      using bound that by (simp add: reply_bounded_def)
    show "length (row_text x) \<le> projection_text_chunk"
    proof (cases "q = e_run_id e")
      case True
      then have "x \<in> set rs \<or> x = r\<lparr>pe_text := Some (row_text r @ take ?n tx)\<rparr>" using x own by auto
      then show ?thesis
      proof
        assume "x = r\<lparr>pe_text := Some (row_text r @ take ?n tx)\<rparr>"
        then have "row_text x = row_text r @ take ?n tx" by (simp add: row_text_def)
        moreover have "length (row_text r) \<le> projection_text_chunk" using old True assms(2) by simp
        ultimately show ?thesis using short by simp
      qed (use old True assms(2) in simp)
    qed (use old other x in simp)
  qed
  moreover have "reply tp1 run @ (if run = e_run_id e then rest else []) = reply tp run @ (if run = e_run_id e then tx else [])"
    using other [of run] own assms(2) by (cases "run = e_run_id e") (simp_all add: reply_def row_text_def tp1(2))
  ultimately show ?thesis by blast
qed

lemma delta_reply:
  assumes "tables_ok tp" "valid_utf8 tx"
  shows "\<exists>tp'. delta_projection tp e tx = Some tp' \<and> reply_grows e tx tp tp'"
proof (cases "assistant_rows tp (e_run_id e)" rule: rev_cases)
  case Nil
  with insert_reply [OF assms(2), of tp e] show ?thesis by (simp add: delta_projection_def last_assistant_None)
next
  case (snoc rs r)
  let ?n = "boundary_before tx (min (projection_text_chunk - length (row_text r)) (length tx))"
  obtain tp1 where f: "fill_tail tp e (pe_ordinal r) (row_text r) tx = (tp1, drop ?n tx)" by (simp add: fill_tail_def Let_def)
  note tail_reply = fill_reply [OF assms(1) snoc f]
  have d: "delta_projection tp e tx = (if drop ?n tx \<noteq> [] then insert_chunks tp1 e ''assistant_message'' (drop ?n tx) else Some tp1)"
    using last_assistant_Some [OF assms(1) snoc] f by (simp add: delta_projection_def row_text_def)
  have "valid_utf8 (drop ?n tx)" by (rule valid_utf8_drop [OF assms(2) boundary_before_boundary])
  then obtain tp2 where tp2: "insert_chunks tp1 e ''assistant_message'' (drop ?n tx) = Some tp2" "reply_grows e (drop ?n tx) tp1 tp2"
    using insert_reply by blast
  show ?thesis
  proof (cases "drop ?n tx = []")
    case True
    have "reply tp1 run = reply tp run @ (if run = e_run_id e then tx else [])" for run
      using tail_reply [of run] True by (simp split: if_splits)
    with d True tail_reply show ?thesis by (simp add: reply_grows_def)
  next
    case False
    have "reply tp2 run = reply tp run @ (if run = e_run_id e then tx else [])" for run
      using tp2(2) tail_reply [of run] by (simp add: reply_grows_def)
    moreover have "reply_bounded tp \<longrightarrow> reply_bounded tp2" using tp2(2) tail_reply unfolding reply_grows_def by blast
    ultimately have "reply_grows e tx tp tp2" unfolding reply_grows_def by blast
    with d False tp2(1) show ?thesis by auto
  qed
qed

lemma reply_grows_nothing: "\<forall>run. assistant_rows tp' run = assistant_rows tp run \<Longrightarrow> reply_grows e [] tp tp'"
  by (simp add: reply_grows_def reply_def reply_bounded_def)

text \<open>One event: the update ends, and the reply reply_grows by the event's text.\<close>

lemma update_reply:
  assumes "tables_ok tp" "valid_texts e"
  shows "\<exists>tp'. update_thread_projection tp e = Some tp' \<and> reply_grows e (stream_text e) tp tp'"
proof (cases "e_type e = ''model.stream.delta''")
  case True
  show ?thesis
  proof (cases "inline_text e ''text''")
    case None
    with True show ?thesis by (simp add: update_thread_projection_def stream_text_def reply_grows_nothing)
  next
    case (Some tx)
    with assms(2) have "valid_utf8 tx" by (simp add: valid_texts_def)
    from delta_reply [OF assms(1) this, of e] True Some show ?thesis by (simp add: update_thread_projection_def stream_text_def)
  qed
next
  case False
  have "valid_utf8 (case inline_text e ''title'' of None \<Rightarrow> [] | Some s \<Rightarrow> s)"
    using assms(2) by (simp add: valid_texts_def split: option.split)
  note chunked = insert_chunks_total [OF this, of "gone_pending tp e" e "''permission_pending''"]
  have "\<exists>tp'. update_thread_projection tp e = Some tp' \<and> (\<forall>run. assistant_rows tp' run = assistant_rows tp run)"
    using False assms(2) insert_chunks_total [of _ tp e "''user_message''"] insert_chunks_total [of _ tp e "''attachment''"] chunked
    unfolding update_thread_projection_def Let_def
    by (auto simp: valid_texts_def assistant_kept split: option.split event_payload.split)
  with False show ?thesis by (auto simp: stream_text_def intro: reply_grows_nothing)
qed

text \<open>The whole journal.\<close>

lemma empty_tables_ok: "tables_ok empty_tables" "stamped_by [] empty_tables" "reply_bounded empty_tables"
    "reply empty_tables run = []"
  by (simp_all add: tables_ok_def empty_tables_def open_rows_def current_def entries_of_def stamped_by_def reply_bounded_def
      assistant_rows_def reply_def)

lemma update_all_append:
  "update_all tp (es @ fs) = Option.bind (update_all tp es) (\<lambda>tp. update_all tp fs)"
  by (induction es arbitrary: tp) (auto simp: bind_assoc)

lemma update_all_ok:
  assumes "list_all valid_texts es"
  shows "\<exists>tp. update_all empty_tables es = Some tp \<and> tables_ok tp \<and> stamped_by es tp \<and> reply_bounded tp
    \<and> (\<forall>run. reply tp run = concat (map stream_text (filter (\<lambda>e. e_run_id e = run) es)))"
  using assms
proof (induction es rule: rev_induct)
  case Nil
  then show ?case by (simp add: empty_tables_ok)
next
  case (snoc e es)
  then obtain tp where tp: "update_all empty_tables es = Some tp" "tables_ok tp" "stamped_by es tp" "reply_bounded tp"
    "\<forall>run. reply tp run = concat (map stream_text (filter (\<lambda>e. e_run_id e = run) es))" by auto
  obtain tp' where tp': "update_thread_projection tp e = Some tp'" "reply_grows e (stream_text e) tp tp'"
    using update_reply [OF tp(2), of e] snoc.prems by auto
  have "update_all empty_tables (es @ [e]) = Some tp'" by (simp add: update_all_append tp(1) tp'(1))
  moreover have "tables_ok tp'" "stamped_by (es @ [e]) tp'"
    using update_ok [OF tp(2) tp'(1)] stamped_step [OF tp(3) update_versions_step [OF tp'(1)]] by blast+
  ultimately show ?case using tp tp' by (auto simp: reply_grows_def)
qed

lemma update_other_run:
  assumes "update_thread_projection tp e = Some tp'" "tables_ok tp" "run \<noteq> e_run_id e"
  shows "current tp' run = current tp run"
proof -
  have "open_rows tp' run = open_rows tp run"
  proof -
    obtain P new where v: "tp_versions tp' = map (close_row e P) (tp_versions tp) @ new" "\<forall>v\<in>set new. new_row e v"
      using update_versions_step [OF assms(1)] by (auto simp: versions_step_def)
    then have "{v \<in> set (tp_versions tp'). vr_run v = run \<and> vr_until v = None} = {v \<in> set (tp_versions tp). vr_run v = run \<and> vr_until v = None}"
      using assms(3) by (auto simp: new_row_def close_row_def image_iff split: if_splits)
    then show ?thesis by (simp add: open_rows_def)
  qed
  with assms(2) update_ok [OF assms(2,1)] show ?thesis by (simp add: tables_ok_def)
qed

definition in_order :: "event_envelope list \<Rightarrow> bool" where
  "in_order es \<longleftrightarrow> sorted_wrt (\<lambda>a b. e_run_id a = e_run_id b \<longrightarrow> e_run_seq a < e_run_seq b) es"

definition up_to :: "string \<Rightarrow> u64 \<Rightarrow> event_envelope list \<Rightarrow> event_envelope list" where
  "up_to run s es = filter (\<lambda>e. e_run_id e = run \<longrightarrow> e_run_seq e \<le> s) es"

text \<open>What a table read at \<open>s\<close> shows of a run is what the events up to \<open>s\<close> left.\<close>

lemma past_shown:
  assumes "in_order es" "list_all valid_texts es" "update_all empty_tables es = Some tp"
    "update_all empty_tables (up_to run s es) = Some tp0"
  shows "shown_at tp run s = current tp0 run"
  using assms
proof (induction es arbitrary: tp tp0 rule: rev_induct)
  case Nil
  then have "tp = empty_tables" "tp0 = empty_tables" by (simp_all add: up_to_def)
  then show ?case by (simp add: empty_tables_def shown_at_def current_def entries_of_def)
next
  case (snoc e es)
  obtain tp1 where tp1: "update_all empty_tables es = Some tp1" "tables_ok tp1" "stamped_by es tp1"
    using update_all_ok [of es] snoc.prems(2) by auto
  have upd: "update_thread_projection tp1 e = Some tp" using snoc.prems(3) by (simp add: update_all_append tp1(1))
  have "list_all valid_texts (up_to run s es)" using snoc.prems(2) by (auto simp: up_to_def list_all_iff)
  then obtain tp2 where tp2: "update_all empty_tables (up_to run s es) = Some tp2" "tables_ok tp2" using update_all_ok by blast
  have before: "shown_at tp1 run s = current tp2 run"
    using snoc.IH [OF _ _ tp1(1) tp2(1)] snoc.prems(1,2) by (simp add: in_order_def sorted_wrt_append)
  consider (other) "e_run_id e \<noteq> run" | (later) "e_run_id e = run" "s < e_run_seq e" | (now) "e_run_id e = run" "e_run_seq e \<le> s"
    by (cases "e_run_id e = run"; cases "s < e_run_seq e") (auto simp: not_less)
  then show ?case
  proof cases
    case other
    then have "update_thread_projection tp2 e = Some tp0"
      using snoc.prems(4) tp2(1) by (simp add: up_to_def update_all_append)
    then have "current tp0 run = current tp2 run" by (rule update_other_run) (use tp2(2) other in simp_all)
    with before shown_before [OF update_versions_step [OF upd], of run s] other show ?thesis by simp
  next
    case later
    then have "up_to run s (es @ [e]) = up_to run s es" by (simp add: up_to_def not_le [symmetric])
    then have "tp0 = tp2" using snoc.prems(4) tp2(1) by simp
    with before shown_before [OF update_versions_step [OF upd], of run s] later show ?thesis by simp
  next
    case now
    then have all: "\<forall>x\<in>set (es @ [e]). e_run_id x = run \<longrightarrow> e_run_seq x \<le> s"
      using snoc.prems(1) by (fastforce simp: in_order_def sorted_wrt_append)
    then have "up_to run s (es @ [e]) = es @ [e]" unfolding up_to_def by (simp add: filter_id_conv)
    then have "tp0 = tp" using snoc.prems(3,4) by simp
    moreover have "stamped_by (es @ [e]) tp" by (rule stamped_step [OF tp1(3) update_versions_step [OF upd]])
    ultimately show ?thesis
      using shown_now [OF _ all] update_ok [OF tp1(2) upd] by (simp add: tables_ok_def)
  qed
qed

section \<open>Keys\<close>

text \<open>The rows an event inserts into the versions have their own ordinals.\<close>

definition keyed :: "event_envelope \<Rightarrow> thread_tables \<Rightarrow> thread_tables \<Rightarrow> int set \<Rightarrow> bool" where
  "keyed e tp tp' N \<longleftrightarrow> (\<exists>P new. tp_versions tp' = map (close_row e P) (tp_versions tp) @ new
     \<and> (\<forall>v\<in>set new. new_row e v) \<and> distinct (map vr_ordinal new) \<and> vr_ordinal ` set new = N)"

lemma keyed_refl: "keyed e tp tp {}"
  unfolding keyed_def by (intro exI [of _ "\<lambda>_. False"] exI [of _ "[]"]) (simp add: close_none)

lemma keyed_close: "keyed e tp (close_versions e P tp) {}"
  unfolding keyed_def by (intro exI [of _ P] exI [of _ "[]"]) (simp add: close_versions_row)

lemma keyed_entries: "keyed e tp tp' N \<Longrightarrow> tp_versions tp'' = tp_versions tp' \<Longrightarrow> keyed e tp tp'' N"
  by (simp add: keyed_def)

lemma keyed_add:
  assumes "keyed e tp tp' N" "distinct (map fst rs)" "fst ` set rs \<inter> N = {}"
  shows "keyed e tp (insert_versions e kind rs tp') (N \<union> fst ` set rs)"
proof -
  obtain P old where old: "tp_versions tp' = map (close_row e P) (tp_versions tp) @ old" "\<forall>v\<in>set old. new_row e v"
    "distinct (map vr_ordinal old)" "vr_ordinal ` set old = N" using assms(1) by (auto simp: keyed_def)
  have ids: "map vr_ordinal (map (version_row e kind) rs) = map fst rs" "vr_ordinal ` version_row e kind ` set rs = fst ` set rs"
    by (simp_all add: version_row_def comp_def image_image)
  have "distinct (map vr_ordinal (old @ map (version_row e kind) rs))"
    using assms(2,3) old(3,4) unfolding map_append distinct_append ids(1) by (simp add: Int_commute)
  moreover have "vr_ordinal ` set (old @ map (version_row e kind) rs) = N \<union> fst ` set rs"
    by (simp add: image_Un old(4) ids(2))
  ultimately show ?thesis
    using old(1,2) unfolding keyed_def insert_versions_def
    by (intro exI [of _ P] exI [of _ "old @ map (version_row e kind) rs"]) (auto simp: new_version_row)
qed

lemma with_ordinals_distinct: "distinct (map fst (with_ordinals n xs))"
  by (simp add: with_ordinals_fst distinct_map inj_on_def)

lemma with_ordinals_ge: "r \<in> set (with_ordinals n xs) \<Longrightarrow> n \<le> fst r"
  by (cases r) (auto simp: with_ordinals_def dest!: set_zip_leftD)

lemma keyed_insert_chunks:
  assumes "keyed e tp tp' N" "\<forall>m\<in>N. m < next_ordinal tp' (e_run_id e)" "insert_chunks tp' e kind tx = Some tp''"
  shows "\<exists>M. keyed e tp tp'' M"
proof -
  obtain cs where tp'': "tp'' = insert_rows tp' e kind (with_ordinals (next_ordinal tp' (e_run_id e)) (map Some cs))"
    using assms(3) by (auto simp: insert_chunks_def)
  have "fst ` set (with_ordinals (next_ordinal tp' (e_run_id e)) (map Some cs)) \<inter> N = {}"
    using assms(2) by (force dest: with_ordinals_ge)
  then show ?thesis
    unfolding tp'' insert_rows_def
    by (intro exI) (rule keyed_add [OF keyed_entries [OF assms(1)] with_ordinals_distinct], simp_all)
qed

lemma keyed_gone_pending: "keyed e tp (gone_pending tp e) {}"
  by (rule keyed_entries [OF keyed_close]) (simp add: gone_pending_def delete_entries_def archive_def)

lemma keyed_tool_outcome:
  assumes "tables_ok tp"
  shows "\<exists>N. keyed e tp (tool_outcome tp e i) N"
proof -
  let ?old = "''tool_running:'' @ i" and ?new = "outcome_kind e"
  let ?tp = "rename_entries e ?old ?new (archive e ?old tp)"
  let ?rs = "map (\<lambda>r. (pe_ordinal r, pe_text r)) (filter (\<lambda>r. pe_kind r = ?new) (entries_of ?tp (e_run_id e)))"
  have k: "keyed e tp ?tp {}" by (rule keyed_entries [OF keyed_close]) (simp add: rename_entries_def archive_def)
  have "distinct (map fst ?rs)"
  proof -
    have "map pe_ordinal (entries_of ?tp (e_run_id e)) = map pe_ordinal (entries_of tp (e_run_id e))"
      unfolding rename_entries_def by (subst entries_map) simp_all
    then have "distinct (map pe_ordinal (entries_of ?tp (e_run_id e)))"
      using assms by (simp add: tables_ok_def strict_sorted_iff)
    then show ?thesis by (simp add: comp_def distinct_map_filter)
  qed
  from keyed_add [OF k this Int_empty_right] show ?thesis unfolding tool_outcome_def Let_def by (rule exI)
qed

lemma keyed_delta:
  assumes "tables_ok tp" "delta_projection tp e tx = Some tp'"
  shows "\<exists>N. keyed e tp tp' N"
proof (cases "assistant_rows tp (e_run_id e)" rule: rev_cases)
  case Nil
  with assms(2) show ?thesis
    by (auto simp: delta_projection_def last_assistant_None intro: keyed_insert_chunks [OF keyed_refl])
next
  case (snoc rs r)
  let ?tp = "fst (fill_tail tp e (pe_ordinal r) (row_text r) tx)"
  obtain rest where f: "fill_tail tp e (pe_ordinal r) (row_text r) tx = (?tp, rest)" by (metis prod.collapse)
  have d: "(if rest \<noteq> [] then insert_chunks ?tp e ''assistant_message'' rest else Some ?tp) = Some tp'"
  proof -
    have "delta_projection tp e tx = (case fill_tail tp e (pe_ordinal r) (row_text r) tx of
        (tp, rest) \<Rightarrow> if rest \<noteq> [] then insert_chunks tp e ''assistant_message'' rest else Some tp)"
      by (simp add: delta_projection_def last_assistant_Some [OF assms(1) snoc] row_text_def)
    with assms(2) show ?thesis by (subst (asm) f) simp
  qed
  have k: "keyed e tp ?tp {pe_ordinal r}"
  proof -
    have "keyed e tp (insert_versions e ''assistant_message'' [(pe_ordinal r, Some t)] (set_text e (pe_ordinal r) t
        (close_versions e (\<lambda>v. vr_ordinal v = pe_ordinal r) tp))) ({} \<union> fst ` set [(pe_ordinal r, Some t)])" for t
      by (rule keyed_add [OF keyed_entries [OF keyed_close]]) (simp_all add: set_text_def)
    then show ?thesis by (simp add: fill_tail_def Let_def)
  qed
  have "r \<in> set (assistant_rows tp (e_run_id e))" by (simp add: snoc)
  then have "pe_ordinal r \<in> set (map pe_ordinal (entries_of tp (e_run_id e)))" by (simp add: assistant_rows_def)
  also have "map pe_ordinal (entries_of tp (e_run_id e)) = map pe_ordinal (entries_of ?tp (e_run_id e))" by (simp add: fill_entries)
  finally have "pe_ordinal r < next_ordinal ?tp (e_run_id e)" by (auto simp only: set_map intro: next_ordinal_above)
  with k d show ?thesis using keyed_insert_chunks [OF k] by (auto split: if_splits)
qed

lemma update_keyed:
  assumes "tables_ok tp" "update_thread_projection tp e = Some tp'"
  shows "\<exists>N. keyed e tp tp' N"
proof -
  have one: "\<exists>N. keyed e tp (insert_rows tp e kind [r]) N" for kind r
    unfolding insert_rows_def by (intro exI) (rule keyed_add [OF keyed_entries [OF keyed_refl]], simp_all)
  show ?thesis
    using assms
    by (auto simp: update_thread_projection_def Let_def
        intro: keyed_refl keyed_insert_chunks [OF keyed_refl] keyed_delta keyed_tool_outcome keyed_gone_pending
          keyed_insert_chunks [OF keyed_gone_pending] one
        split: if_splits option.splits event_payload.splits)
qed

definition version_key :: "proj_version \<Rightarrow> string \<times> int \<times> u64" where
  "version_key v = (vr_run v, vr_ordinal v, vr_from v)"

lemma keyed_distinct:
  assumes "keyed e tp tp' N" "stamped_by es tp" "\<forall>x\<in>set es. e_run_id x = e_run_id e \<longrightarrow> e_run_seq x \<noteq> e_run_seq e"
    "distinct (map version_key (tp_versions tp))"
  shows "distinct (map version_key (tp_versions tp'))"
proof -
  obtain P new where v: "tp_versions tp' = map (close_row e P) (tp_versions tp) @ new" "\<forall>v\<in>set new. new_row e v"
    "distinct (map vr_ordinal new)" using assms(1) by (auto simp: keyed_def)
  have "version_key (close_row e P w) = version_key w" for w by (simp add: version_key_def close_row_def)
  then have old: "map version_key (map (close_row e P) (tp_versions tp)) = map version_key (tp_versions tp)" by simp
  have "map (fst \<circ> snd) (map version_key new) = map vr_ordinal new" by (simp add: version_key_def)
  with v(3) have "distinct (map version_key new)" by (metis distinct_map)
  moreover have ne: "version_key w \<noteq> version_key x" if "w \<in> set (tp_versions tp)" "x \<in> set new" for w x
  proof
    assume eq: "version_key w = version_key x"
    with v(2) that(2) have "vr_run w = e_run_id e" "vr_from w = e_run_seq e" by (auto simp: version_key_def new_row_def)
    with assms(2,3) that(1) show False by (auto simp: stamped_by_def)
  qed
  have "version_key ` set (tp_versions tp) \<inter> version_key ` set new = {}"
  proof (rule equals0I)
    fix k assume "k \<in> version_key ` set (tp_versions tp) \<inter> version_key ` set new"
    then obtain w x where "w \<in> set (tp_versions tp)" "x \<in> set new" "version_key w = version_key x" by blast
    with ne show False by blast
  qed
  ultimately show ?thesis using assms(4) unfolding v(1) map_append old distinct_append by simp
qed

lemma versions_distinct:
  assumes "in_order es" "list_all valid_texts es" "update_all empty_tables es = Some tp"
  shows "distinct (map version_key (tp_versions tp))"
  using assms
proof (induction es arbitrary: tp rule: rev_induct)
  case Nil
  then show ?case by (auto simp: empty_tables_def)
next
  case (snoc e es)
  obtain tp1 where tp1: "update_all empty_tables es = Some tp1" "tables_ok tp1" "stamped_by es tp1"
    using update_all_ok [of es] snoc.prems(2) by auto
  have upd: "update_thread_projection tp1 e = Some tp" using snoc.prems(3) by (simp add: update_all_append tp1(1))
  obtain N where k: "keyed e tp1 tp N" using update_keyed [OF tp1(2) upd] by blast
  have "distinct (map version_key (tp_versions tp1))"
    using snoc.IH [OF _ _ tp1(1)] snoc.prems(1,2) by (simp add: in_order_def sorted_wrt_append)
  moreover have "\<forall>x\<in>set es. e_run_id x = e_run_id e \<longrightarrow> e_run_seq x \<noteq> e_run_seq e"
    using snoc.prems(1) by (auto simp: in_order_def sorted_wrt_append)
  ultimately show ?case using keyed_distinct [OF k tp1(3)] by blast
qed

section \<open>Properties\<close>

text \<open>C6: A page of a run read as of an event shows what the run showed at that event: as a set, the ordinals,
  kinds and texts of the versions valid there are those of the rows the events up to it left, however
  many events came later; and the keys of both tables stay unique, so no insert is refused.\<close>

theorem past_pages_exact:
  assumes "in_order es" "list_all valid_texts es"
  shows "\<exists>tp tp0. update_all empty_tables es = Some tp \<and> update_all empty_tables (up_to run s es) = Some tp0
    \<and> (\<lambda>r. (te_ordinal r, te_kind r, te_text r)) ` set (projected_thread_entries tp run s last_ordinal (length (tp_versions tp)))
      = {(n, plain_kind k, tx) |n k tx. (n, k, tx) \<in> current tp0 run \<and> last_ordinal < n}
    \<and> distinct (map pe_ordinal (entries_of tp run)) \<and> distinct (map version_key (tp_versions tp))"
proof -
  obtain tp where tp: "update_all empty_tables es = Some tp" "tables_ok tp" using update_all_ok [OF assms(2)] by blast
  have "list_all valid_texts (up_to run s es)" using assms(2) by (auto simp: up_to_def list_all_iff)
  then obtain tp0 where tp0: "update_all empty_tables (up_to run s es) = Some tp0" using update_all_ok by blast
  let ?vs = "filter (\<lambda>v. vr_run v = run \<and> vr_ordinal v > last_ordinal \<and> valid_at s v) (tp_versions tp)"
  have "length ?vs \<le> length (tp_versions tp)" by (rule length_filter_le)
  then have "(\<lambda>r. (te_ordinal r, te_kind r, te_text r)) ` set (projected_thread_entries tp run s last_ordinal (length (tp_versions tp)))
      = (\<lambda>v. (vr_ordinal v, plain_kind (vr_kind v), vr_text v)) ` set ?vs"
    by (simp add: projected_thread_entries_def image_image)
  also have "\<dots> = {(n, plain_kind k, tx) |n k tx. (n, k, tx) \<in> shown_at tp run s \<and> last_ordinal < n}"
    by (auto simp: shown_at_def version_triple_def image_def)
  also have "shown_at tp run s = current tp0 run" by (rule past_shown [OF assms tp(1) tp0])
  finally show ?thesis
    using tp tp0 versions_distinct [OF assms tp(1)] by (simp add: tables_ok_def strict_sorted_iff)
qed

definition sample_reply :: "event_envelope list" where
  "sample_reply = [sample_event 1 ''model.stream.delta'' [(''text'', JString ''Hel'')],
     sample_event 2 ''model.stream.delta'' [(''text'', JString ''lo'')]]"

lemma sample_reply_ok: "in_order sample_reply" "list_all valid_texts sample_reply"
proof -
  show "in_order sample_reply" by (simp add: in_order_def sample_reply_def sample_event_def)
  have "valid_utf8 ''Hel''" "valid_utf8 ''lo''" by (simp_all add: Let_def)
  then show "list_all valid_texts sample_reply"
    by (auto simp: sample_reply_def valid_texts_def inline_text_def sample_event_def split: if_splits)
qed

theorem past_pages_exact_witness:
  "\<exists>tp tp0. update_all empty_tables sample_reply = Some tp \<and> update_all empty_tables (up_to ''r'' 1 sample_reply) = Some tp0
    \<and> (\<lambda>r. (te_ordinal r, te_kind r, te_text r)) ` set (projected_thread_entries tp ''r'' 1 (- 1) (length (tp_versions tp)))
      = {(n, plain_kind k, tx) |n k tx. (n, k, tx) \<in> current tp0 ''r'' \<and> - 1 < n}"
  using past_pages_exact [OF sample_reply_ok, of "''r''" 1 "- 1"] by blast

text \<open>The reply of a run is stored in chunks of at most 64 bytes that, joined in order, are the text of the
  stream's deltas; the update ends for every event.\<close>

theorem reply_chunks_exact:
  assumes "list_all valid_texts es"
  shows "\<exists>tp. update_all empty_tables es = Some tp
    \<and> concat (map row_text (assistant_rows tp run)) = concat (map stream_text (filter (\<lambda>e. e_run_id e = run) es))
    \<and> sorted_wrt (<) (map pe_ordinal (assistant_rows tp run))
    \<and> list_all (\<lambda>r. length (row_text r) \<le> 64) (assistant_rows tp run)"
proof -
  obtain tp where tp: "update_all empty_tables es = Some tp" "tables_ok tp" "reply_bounded tp"
    "\<forall>run. reply tp run = concat (map stream_text (filter (\<lambda>e. e_run_id e = run) es))"
    using update_all_ok [OF assms] by blast
  then show ?thesis
    by (intro exI [of _ tp]) (simp add: assistant_sorted reply_def reply_bounded_def list_all_iff projection_text_chunk_def)
qed

theorem reply_chunks_exact_witness:
  "\<exists>tp. update_all empty_tables sample_reply = Some tp \<and> concat (map row_text (assistant_rows tp ''r'')) = ''Hello''"
proof -
  have "concat (map stream_text (filter (\<lambda>e. e_run_id e = ''r'') sample_reply)) = ''Hello''"
    by (simp add: sample_reply_def stream_text_def inline_text_def sample_event_def)
  with reply_chunks_exact [OF sample_reply_ok(2), of "''r''"] show ?thesis by auto
qed

text \<open>The page lists a finished tool call again after each later call that ends the same way: the outcome of
  the second call inserts a version of the first one too, whose earlier version is still open.\<close>

theorem outcome_listed_twice:
  "map_option (\<lambda>tp. map te_ordinal (projected_thread_entries tp ''r'' 4 (- 1) 10))
     (update_all empty_tables
       [sample_event 1 ''tool.effect.started'' [(''effect_id'', JString ''a'')],
        sample_event 2 ''tool.effect.started'' [(''effect_id'', JString ''b'')],
        sample_event 3 ''tool.effect.completed'' [(''effect_id'', JString ''a'')],
        sample_event 4 ''tool.effect.completed'' [(''effect_id'', JString ''b'')]])
   = Some [0, 0, 1]"
  by code_simp

end
