(* ===== verification/Journal_Properties.thy ===== *)
theory Journal_Properties
  imports Journal_Replica Thread_Properties
begin

text \<open>
  What the run journal keeps: the events of every run and thread are numbered from one without a gap, a
  retried append changes nothing, a reader that follows the cursors gets the whole run, and the policies a
  thread remembers are the ones decided and not revoked.
\<close>

section \<open>Numbered logs\<close>

text \<open>Run events and thread events are logs of the same shape: a key, and a number under it.\<close>

definition rows_with :: "('a \<Rightarrow> 'k) \<Rightarrow> 'a list \<Rightarrow> 'k \<Rightarrow> 'a list" where
  "rows_with key xs k = filter (\<lambda>x. key x = k) xs"

definition counted :: "('a \<Rightarrow> u64) \<Rightarrow> 'a list \<Rightarrow> bool" where
  "counted seq xs \<longleftrightarrow> map seq xs = map (\<lambda>i. of_nat (Suc i)) [0..<length xs] \<and> length xs < 2 ^ 64"

definition log_ok :: "('a \<Rightarrow> 'k) \<Rightarrow> ('a \<Rightarrow> u64) \<Rightarrow> 'a list \<Rightarrow> bool" where
  "log_ok key seq xs \<longleftrightarrow> (\<forall>k. counted seq (rows_with key xs k))"

lemma unat_of_nat_u64: "n < 2 ^ 64 \<Longrightarrow> unat (of_nat n :: u64) = n"
  by (simp add: unat_of_nat)

lemma of_nat_u64_inj: "n < 2 ^ 64 \<Longrightarrow> m < 2 ^ 64 \<Longrightarrow> (of_nat n :: u64) = of_nat m \<longleftrightarrow> n = m"
  by (metis unat_of_nat_u64)

lemma of_nat_u64_less: "n < 2 ^ 64 \<Longrightarrow> m < 2 ^ 64 \<Longrightarrow> (of_nat n :: u64) < of_nat m \<longleftrightarrow> n < m"
  by (simp add: word_less_nat_alt unat_of_nat_u64)

lemma counted_nth: "counted seq xs \<Longrightarrow> i < length xs \<Longrightarrow> seq (xs ! i) = of_nat (Suc i)"
  unfolding counted_def by (metis (no_types, lifting) diff_zero length_map length_upt nth_map nth_upt plus_nat.add_0)

lemma counted_snoc:
  assumes "counted seq xs" "seq x = of_nat (length xs) + 1" "seq x \<noteq> 0"
  shows "counted seq (xs @ [x])"
proof -
  have "seq x = of_nat (Suc (length xs))" using assms(2) by (simp add: add.commute)
  moreover have "Suc (length xs) \<noteq> 2 ^ 64"
  proof
    assume eq: "Suc (length xs) = 2 ^ 64"
    then have "(of_nat (Suc (length xs)) :: u64) = 0" by (simp only: eq) simp
    with calculation assms(3) show False by simp
  qed
  ultimately show ?thesis using assms(1) by (simp add: counted_def)
qed

lemma foldl_max_snoc: "foldl max (a :: 'a::linorder) (xs @ [x]) = max (foldl max a xs) x"
  by simp

lemma counted_max: "counted seq xs \<Longrightarrow> foldl max 0 (map seq xs) = of_nat (length xs)"
proof (induction xs rule: rev_induct)
  case (snoc x xs)
  then have c: "counted seq xs" and x: "seq x = of_nat (Suc (length xs))" and l: "Suc (length xs) < 2 ^ 64"
    by (simp_all add: counted_def)
  have "(of_nat (length xs) :: u64) \<le> of_nat (Suc (length xs))"
    using l by (simp add: order_le_less of_nat_u64_less del: of_nat_Suc)
  with snoc.IH [OF c] x show ?case by (simp add: max_def del: of_nat_Suc)
qed simp

lemma log_ok_snoc:
  assumes "log_ok key seq xs" "seq x = foldl max 0 (map seq (rows_with key xs (key x))) + 1" "seq x \<noteq> 0"
  shows "log_ok key seq (xs @ [x])"
proof -
  have c: "counted seq (rows_with key xs (key x))" using assms(1) by (simp add: log_ok_def)
  have "counted seq (rows_with key xs (key x) @ [x])"
    using assms(2,3) counted_max [OF c] by (intro counted_snoc [OF c]) simp_all
  with assms(1) show ?thesis by (auto simp: log_ok_def rows_with_def)
qed

lemma rows_with_filter:
  assumes "\<And>x y. key x = key y \<Longrightarrow> P x = P y"
  shows "rows_with key (filter P xs) k = [] \<or> rows_with key (filter P xs) k = rows_with key xs k"
proof (cases "\<exists>x\<in>set xs. key x = k \<and> P x")
  case True
  then have "filter (\<lambda>x. P x \<and> key x = k) xs = filter (\<lambda>x. key x = k) xs" by (intro filter_cong) (auto dest: assms)
  then show ?thesis by (simp add: rows_with_def conj_commute)
next
  case False
  then show ?thesis by (auto simp: rows_with_def filter_empty_conv)
qed

lemma counted_Nil [simp]: "counted seq []"
  by (simp add: counted_def)

lemma log_ok_filter:
  assumes "log_ok key seq xs" "\<And>x y. key x = key y \<Longrightarrow> P x = P y"
  shows "log_ok key seq (filter P xs)"
  unfolding log_ok_def
proof
  fix k
  show "counted seq (rows_with key (filter P xs) k)"
    using rows_with_filter [of key P xs k, OF assms(2)] assms(1) by (auto simp: log_ok_def)
qed

lemma counted_sorted: "counted seq xs \<Longrightarrow> sorted_wrt (<) (map seq xs)"
  unfolding sorted_wrt_iff_nth_less
  by (auto simp: counted_nth of_nat_u64_less counted_def simp del: of_nat_Suc)

lemma sort_counted: "counted seq xs \<Longrightarrow> sort_key seq xs = xs"
  by (intro sort_key_id_if_sorted strict_sorted_imp_sorted counted_sorted)

section \<open>The tables\<close>

lemma and_then_Inr_iff: "and_then m f = Some (Inr y) \<longleftrightarrow> (\<exists>x. m = Some (Inr x) \<and> f x = Some (Inr y))"
  by (cases "(m, f)" rule: and_then.cases) auto

lemma run_events_rows: "run_events db run = rows_with e_run_id (db_events db) run"
  by (simp add: run_events_def rows_with_def)

lemma thread_rows_rows: "thread_rows db t = rows_with tv_thread (db_thread_events db) t"
  by (simp add: thread_rows_def rows_with_def)

text \<open>A thread begins with its creation and ends with its deletion.\<close>

definition thread_ok :: "thread_event list \<Rightarrow> bool" where
  "thread_ok es \<longleftrightarrow> (es = [] \<or> tv_type (hd es) = ''thread.created'') \<and> list_all (\<lambda>e. tv_type e \<noteq> ''thread.deleted'') (butlast es)"

text \<open>A run has one place in a thread, and a thread one run at each ordinal; every place is in a thread.\<close>

definition run_rows_ok :: "journal_db \<Rightarrow> bool" where
  "run_rows_ok db \<longleftrightarrow> distinct (map rt_run (db_run_threads db)) \<and> distinct (map (\<lambda>r. (rt_thread r, rt_ordinal r)) (db_run_threads db))
     \<and> rt_thread ` set (db_run_threads db) \<subseteq> tv_thread ` set (db_thread_events db)"

text \<open>The reply shown is the reply journaled.\<close>

definition shows_journal :: "journal_db \<Rightarrow> bool" where
  "shows_journal db \<longleftrightarrow> tables_ok (db_projection db)
     \<and> (\<forall>run. reply (db_projection db) run = concat (map stream_text (run_events db run)))"

definition core_ok :: "journal_db \<Rightarrow> bool" where
  "core_ok db \<longleftrightarrow> log_ok e_run_id e_run_seq (db_events db) \<and> distinct (map e_event_id (db_events db))
     \<and> log_ok tv_thread tv_seq (db_thread_events db) \<and> (\<forall>t. thread_ok (thread_rows db t)) \<and> run_rows_ok db \<and> shows_journal db"

text \<open>Between its two inserts an operation has a run without a place, or a place without its run.\<close>

definition journal_ok :: "journal_db \<Rightarrow> bool" where
  "journal_ok db \<longleftrightarrow> core_ok db \<and> rt_run ` set (db_run_threads db) = e_run_id ` set (db_events db)"

section \<open>Inserting events\<close>

lemma update_projections_Inr:
  assumes "update_projections env e db = Some (Inr db')"
  shows "update_thread_projection (db_projection db) e = Some (db_projection db')"
    "db_events db' = db_events db" "db_thread_events db' = db_thread_events db"
    "db_run_threads db' = db_run_threads db" "db_workspaces db' = db_workspaces db"
  using assms by (auto simp: update_projections_def update_receipt_def update_pending_def split: option.splits if_splits)

lemma insert_event_Inr:
  "insert_event err e db = Some (Inr db') \<longleftrightarrow> event_constraint db e \<and> db' = db\<lparr>db_events := db_events db @ [e]\<rparr>"
  by (auto simp: insert_event_def)

lemma insert_batch_Inr:
  assumes "insert_batch env es db = Some (Inr db')"
  shows "db_events db' = db_events db @ es \<and> db_thread_events db' = db_thread_events db \<and> db_run_threads db' = db_run_threads db
    \<and> db_workspaces db' = db_workspaces db \<and> update_all (db_projection db) es = Some (db_projection db')
    \<and> (distinct (map e_event_id (db_events db)) \<longrightarrow> distinct (map e_event_id (db_events db @ es)))"
  using assms
proof (induction es arbitrary: db)
  case (Cons e es)
  then obtain db1 where c: "event_constraint db e"
    and p: "update_projections env e (db\<lparr>db_events := db_events db @ [e]\<rparr>) = Some (Inr db1)"
    and b: "insert_batch env es db1 = Some (Inr db')"
    by (auto simp: and_then_Inr_iff insert_event_Inr)
  have "e_event_id e \<notin> e_event_id ` set (db_events db)" using c by (auto simp: event_constraint_def list_all_iff)
  with Cons.IH [OF b] update_projections_Inr [OF p] show ?case by simp
qed simp

lemma batch_log:
  assumes "check_batch env run n es = Inr u" "log_ok e_run_id e_run_seq xs" "n = foldl max 0 (map e_run_seq (rows_with e_run_id xs run))"
  shows "log_ok e_run_id e_run_seq (xs @ es) \<and> (\<forall>e\<in>set es. e_run_id e = run)"
  using assms
proof (induction es arbitrary: n xs)
  case (Cons e es)
  then have v: "validate_envelope env e = Inr ()" and e: "e_run_id e = run" "e_run_seq e = n + 1" and c: "check_batch env run (n + 1) es = Inr u"
    by (auto simp: result_bind_Inr_iff split: if_splits)
  have nz: "e_run_seq e \<noteq> 0" using v by (auto simp: validate_envelope_def split: if_splits)
  have ok: "log_ok e_run_id e_run_seq (xs @ [e])"
    by (rule log_ok_snoc [OF Cons.prems(2)]) (use e nz Cons.prems(3) in simp_all)
  have "foldl max 0 (map e_run_seq (rows_with e_run_id (xs @ [e]) run)) = n + 1"
  proof -
    have "counted e_run_seq (rows_with e_run_id (xs @ [e]) run)" "counted e_run_seq (rows_with e_run_id xs run)"
      using ok Cons.prems(2) by (simp_all add: log_ok_def)
    from counted_max [OF this(1)] counted_max [OF this(2)] show ?thesis
      using e(1) Cons.prems(3) by (simp add: rows_with_def add.commute)
  qed
  from Cons.IH [OF c ok this [symmetric]] e show ?case by simp
qed simp

lemma shows_update:
  assumes "shows_journal db" "update_all (db_projection db) es = Some (db_projection db')" "list_all valid_texts es"
    "db_events db' = db_events db @ es"
  shows "shows_journal db'"
proof -
  have step: "tables_ok tp' \<and> (\<forall>run. reply tp' run = reply tp run @ concat (map stream_text (filter (\<lambda>e. e_run_id e = run) es)))"
    if "update_all tp es = Some tp'" "tables_ok tp" "list_all valid_texts es" for tp tp'
    using that
  proof (induction es arbitrary: tp)
    case (Cons e es)
    then obtain tp1 where tp1: "update_thread_projection tp e = Some tp1" "update_all tp1 es = Some tp'" by (auto simp: bind_eq_Some_conv)
    have "tables_ok tp1" using update_ok [OF Cons.prems(2) tp1(1)] .
    moreover have "reply_grows e (stream_text e) tp tp1" using update_reply [OF Cons.prems(2), of e] Cons.prems(3) tp1(1) by auto
    ultimately show ?case using Cons.IH [OF tp1(2)] Cons.prems(3) by (auto simp: reply_grows_def)
  qed simp
  from step [OF assms(2) _ assms(3)] assms(1,4) show ?thesis by (simp add: shows_journal_def run_events_def)
qed

section \<open>Every operation\<close>

text \<open>The parts of the invariant that speak of runs, and those that speak of threads.\<close>

lemma thread_ok_snoc:
  assumes "thread_ok es" "es = [] \<longrightarrow> tv_type e = ''thread.created''" "list_all (\<lambda>x. tv_type x \<noteq> ''thread.deleted'') es"
  shows "thread_ok (es @ [e])"
  using assms by (cases es) (auto simp: thread_ok_def)

text \<open>A thread event at the next number of a thread that is not deleted.\<close>

lemma thread_event_ok:
  assumes "core_ok db" "insert_thread_event e db = Inr db'" "tv_seq e = last_thread_seq db (tv_thread e) + 1" "tv_seq e \<noteq> 0"
    "thread_rows db (tv_thread e) = [] \<longrightarrow> tv_type e = ''thread.created''" "\<not> thread_deleted db (tv_thread e)"
  shows "core_ok db'"
proof -
  have db': "db' = db\<lparr>db_thread_events := db_thread_events db @ [e]\<rparr>"
    using assms(2) by (simp add: insert_thread_event_def split: if_splits)
  have "log_ok tv_thread tv_seq (db_thread_events db @ [e])"
    using assms(1,3,4) by (intro log_ok_snoc) (simp_all add: core_ok_def last_thread_seq_def thread_rows_rows)
  moreover have "thread_ok (thread_rows db' t)" for t
  proof -
    have "thread_rows db' t = thread_rows db t @ (if t = tv_thread e then [e] else [])" by (simp add: db' thread_rows_def)
    then show ?thesis using assms(1,5,6) thread_ok_snoc [of "thread_rows db t" e]
      by (auto simp: core_ok_def thread_deleted_def list_ex_iff list_all_iff)
  qed
  moreover have "run_rows_ok db'" using assms(1) by (auto simp: db' core_ok_def run_rows_ok_def)
  moreover have "shows_journal db'" using assms(1) by (simp add: db' core_ok_def shows_journal_def run_events_def)
  ultimately show ?thesis using assms(1) by (simp add: core_ok_def db')
qed

lemma created_ok:
  assumes "core_ok db" "append_thread_created_with_provenance env ids workspace at backfill pv db = Inr db'"
  shows "core_ok db' \<and> fst ids \<in> tv_thread ` set (db_thread_events db') \<and> db_run_threads db' = db_run_threads db
    \<and> db_events db' = db_events db \<and> db_projection db' = db_projection db"
proof -
  let ?e = "created_event ids workspace at backfill pv"
  have ins: "insert_thread_event ?e db = Inr db'"
    using assms(2) by (auto simp: append_thread_created_with_provenance_def result_bind_Inr_iff Let_def)
  have e: "tv_seq ?e = 1" "tv_thread ?e = fst ids" "tv_type ?e = ''thread.created''" by (simp_all add: created_event_def)
  have "thread_rows db (fst ids) = []"
  proof (rule ccontr)
    assume ne: "thread_rows db (fst ids) \<noteq> []"
    have "counted tv_seq (thread_rows db (fst ids))" using assms(1) by (simp add: core_ok_def log_ok_def thread_rows_rows)
    with ne have "tv_seq (hd (thread_rows db (fst ids))) = 1" using counted_nth [of tv_seq _ 0] by (simp add: hd_conv_nth)
    moreover have "hd (thread_rows db (fst ids)) \<in> set (thread_rows db (fst ids))" using ne by simp
    then have "hd (thread_rows db (fst ids)) \<in> set (db_thread_events db)" "tv_thread (hd (thread_rows db (fst ids))) = fst ids"
      by (auto simp: thread_rows_def)
    ultimately show False using ins e by (auto simp: insert_thread_event_def list_all_iff split: if_splits)
  qed
  then have "core_ok db'"
    using e by (intro thread_event_ok [OF assms(1) ins]) (simp_all add: last_thread_seq_def thread_deleted_def)
  moreover have "db' = db\<lparr>db_thread_events := db_thread_events db @ [?e]\<rparr>"
    using ins by (simp add: insert_thread_event_def split: if_splits)
  ultimately show ?thesis using e by simp
qed

lemma insert_run_thread_Inr:
  assumes "insert_run_thread r db = Inr db'" "run_rows_ok db" "rt_thread r \<in> tv_thread ` set (db_thread_events db)"
  shows "run_rows_ok db' \<and> db' = db\<lparr>db_run_threads := db_run_threads db @ [r]\<rparr>"
proof -
  have c: "\<forall>x\<in>set (db_run_threads db). rt_run x \<noteq> rt_run r \<and> \<not> (rt_thread x = rt_thread r \<and> rt_ordinal x = rt_ordinal r)"
    and db': "db' = db\<lparr>db_run_threads := db_run_threads db @ [r]\<rparr>"
    using assms(1) by (auto simp: insert_run_thread_def list_all_iff split: if_splits)
  then have "rt_run r \<notin> rt_run ` set (db_run_threads db)"
    "(rt_thread r, rt_ordinal r) \<notin> (\<lambda>r. (rt_thread r, rt_ordinal r)) ` set (db_run_threads db)"
    unfolding image_iff by (metis, metis prod.inject)
  with assms(2,3) db' show ?thesis by (simp add: run_rows_ok_def)
qed

lemma last_run_seq_zero:
  assumes "journal_ok db"
  shows "last_run_seq db run = 0 \<longleftrightarrow> run \<notin> e_run_id ` set (db_events db)"
proof -
  have c: "counted e_run_seq (run_events db run)" using assms by (simp add: journal_ok_def core_ok_def log_ok_def run_events_rows)
  then have "last_run_seq db run = of_nat (length (run_events db run))" by (simp add: last_run_seq_def counted_max)
  moreover have "length (run_events db run) < 2 ^ 64" using c by (simp add: counted_def)
  then have "(of_nat (length (run_events db run)) :: u64) = 0 \<longleftrightarrow> run_events db run = []"
    using of_nat_u64_inj [of "length (run_events db run)" 0] by simp
  ultimately show ?thesis by (auto simp: run_events_def filter_empty_conv)
qed

lemma journal_append_batch:
  assumes "journal_ok db" "append_batch env ids expected es db = Some (Inr db')" "list_all valid_texts es"
  shows "journal_ok db' \<and> (db' = db \<or> db_events db' = db_events db @ es)"
proof (cases es)
  case Nil
  with assms show ?thesis by (simp add: append_batch_def)
next
  case (Cons e rest)
  let ?run = "e_run_id e"
  from assms(2) Cons obtain existing where c: "check_batch env ?run expected es = Inr ()" "all_existing env db es = Inr existing"
    and rest: "if existing then db' = db else last_run_seq db ?run = expected \<and>
      (\<exists>db1. (if last_run_seq db ?run = 0 then first_thread env ids e db else Inr db) = Inr db1 \<and> insert_batch env es db1 = Some (Inr db'))"
    by (fastforce simp: append_batch_def and_then_Inr_iff Let_def split: if_splits)
  show ?thesis
  proof (cases existing)
    case True
    with rest assms(1) show ?thesis by simp
  next
    case False
    with rest obtain db1 where last: "last_run_seq db ?run = expected"
      and f: "(if last_run_seq db ?run = 0 then first_thread env ids e db else Inr db) = Inr db1"
      and b: "insert_batch env es db1 = Some (Inr db')" by auto
    have db1: "db_events db1 = db_events db" "db_projection db1 = db_projection db" "run_rows_ok db1"
      "log_ok tv_thread tv_seq (db_thread_events db1)" "\<forall>t. thread_ok (thread_rows db1 t)"
      "rt_run ` set (db_run_threads db1) = insert ?run (e_run_id ` set (db_events db))"
    proof -
      have "db_events db1 = db_events db \<and> db_projection db1 = db_projection db \<and> run_rows_ok db1
        \<and> log_ok tv_thread tv_seq (db_thread_events db1) \<and> (\<forall>t. thread_ok (thread_rows db1 t))
        \<and> rt_run ` set (db_run_threads db1) = insert ?run (e_run_id ` set (db_events db))"
      proof (cases "last_run_seq db ?run = 0")
        case True
        then obtain db0 where db0: "append_thread_created env ids (Some []) (e_recorded_at e) False db = Inr db0"
            "insert_run_thread \<lparr>rt_run = ?run, rt_thread = fst ids, rt_ordinal = 1\<rparr> db0 = Inr db1"
          using f by (auto simp: first_thread_def result_bind_Inr_iff)
        have "core_ok db" using assms(1) by (simp add: journal_ok_def)
        note created = created_ok [OF this db0(1) [unfolded append_thread_created_def]]
        then have "run_rows_ok db0" by (simp add: core_ok_def)
        with created have "run_rows_ok db1 \<and> db1 = db0\<lparr>db_run_threads := db_run_threads db0 @ [\<lparr>rt_run = ?run, rt_thread = fst ids, rt_ordinal = 1\<rparr>]\<rparr>"
          by (intro insert_run_thread_Inr [OF db0(2)]) simp_all
        with created assms(1) show ?thesis by (simp add: journal_ok_def core_ok_def thread_rows_def) metis
      next
        case False
        then have "db1 = db" using f by simp
        moreover have "?run \<in> e_run_id ` set (db_events db)" using False last_run_seq_zero [OF assms(1), of ?run] by blast
        ultimately show ?thesis using assms(1) by (auto simp: journal_ok_def core_ok_def)
      qed
      then show "db_events db1 = db_events db" "db_projection db1 = db_projection db" "run_rows_ok db1"
        "log_ok tv_thread tv_seq (db_thread_events db1)" "\<forall>t. thread_ok (thread_rows db1 t)"
        "rt_run ` set (db_run_threads db1) = insert ?run (e_run_id ` set (db_events db))" by auto
    qed
    note ins = insert_batch_Inr [OF b]
    have log: "log_ok e_run_id e_run_seq (db_events db @ es)" "\<forall>x\<in>set es. e_run_id x = ?run"
      using batch_log [OF c(1), of "db_events db"] assms(1) last by (auto simp: journal_ok_def core_ok_def last_run_seq_def run_events_rows)
    have "shows_journal db1" using assms(1) db1(1,2) by (simp add: journal_ok_def core_ok_def shows_journal_def run_events_def)
    then have "shows_journal db'" using ins assms(3) by (intro shows_update [of db1 es db']) simp_all
    moreover have "e_run_id ` set (db_events db @ es) = insert ?run (e_run_id ` set (db_events db))"
      using log(2) Cons by auto
    ultimately have "journal_ok db'"
      using assms(1) db1 ins log(1) by (simp add: journal_ok_def core_ok_def run_rows_ok_def thread_rows_def)
    with ins db1(1) show ?thesis by simp
  qed
qed

lemma core_projection:
  assumes "core_ok db" "validate_envelope env e = Inr ()" "run_events db (e_run_id e) = []" "e_run_seq e = 1"
    "insert_new_run env workspace e db = Some (Inr db')" "valid_texts e"
  shows "core_ok db'" "db_events db' = db_events db @ [e]" "db_thread_events db' = db_thread_events db"
    "db_run_threads db' = db_run_threads db"
proof -
  obtain db1 where b: "insert_batch env [e] db = Some (Inr db1)" and w: "insert_workspace (e_run_id e) workspace db1 = Inr db'"
    using assms(5) by (auto simp: insert_new_run_def and_then_Inr_iff insert_event_Inr)
  have same: "db_events db' = db_events db1" "db_thread_events db' = db_thread_events db1" "db_run_threads db' = db_run_threads db1"
    "db_projection db' = db_projection db1" using w by (auto simp: insert_workspace_def split: if_splits)
  note ins = insert_batch_Inr [OF b]
  have "log_ok e_run_id e_run_seq (db_events db @ [e])"
    using assms(1,3,4) by (intro log_ok_snoc) (simp_all add: core_ok_def run_events_rows)
  moreover have "shows_journal db'" using assms(1,6) ins same by (intro shows_update [of db "[e]" db']) (simp_all add: core_ok_def)
  ultimately show "core_ok db'" using assms(1) ins same by (simp add: core_ok_def run_rows_ok_def thread_rows_def)
  show "db_events db' = db_events db @ [e]" "db_thread_events db' = db_thread_events db"
    "db_run_threads db' = db_run_threads db" using ins same by simp_all
qed

lemma place_ok:
  assumes "core_ok db" "insert_run_thread r db = Inr db'" "rt_thread r \<in> tv_thread ` set (db_thread_events db)"
  shows "core_ok db' \<and> db_run_threads db' = db_run_threads db @ [r] \<and> db_events db' = db_events db"
proof -
  have "run_rows_ok db' \<and> db' = db\<lparr>db_run_threads := db_run_threads db @ [r]\<rparr>"
    using assms by (intro insert_run_thread_Inr) (simp_all add: core_ok_def)
  with assms(1) show ?thesis by (auto simp: core_ok_def thread_rows_def shows_journal_def run_events_def)
qed

lemma journal_new_run:
  assumes "journal_ok db" "append_new_run env ids workspace e db = Some (Inr (thread, db'))" "valid_texts e"
  shows "journal_ok db'"
proof -
  obtain db1 db2 where v: "e_run_seq e = 1" "validate_envelope env e = Inr ()" "run_events db (e_run_id e) = []"
    and new: "insert_new_run env workspace e db = Some (Inr db1)"
    and cr: "append_thread_created env ids (Some workspace) (e_recorded_at e) False db1 = Inr db2"
    and place: "insert_run_thread \<lparr>rt_run = e_run_id e, rt_thread = fst ids, rt_ordinal = 1\<rparr> db2 = Inr db'"
    using assms(2) by (auto simp: append_new_run_def and_then_Inr_iff require_def split: if_splits)
  have "core_ok db" using assms(1) by (simp add: journal_ok_def)
  note run = core_projection [OF this v(2,3,1) new assms(3)]
  note created = created_ok [OF run(1) cr [unfolded append_thread_created_def]]
  then have "fst ids \<in> tv_thread ` set (db_thread_events db2)" "core_ok db2" by simp_all
  with place_ok [OF _ place] created run assms(1) show ?thesis by (simp add: journal_ok_def)
qed

lemma journal_create_thread:
  assumes "journal_ok db" "create_thread env ids workspace at pv db = Inr (thread, db')"
  shows "journal_ok db'"
proof -
  have "append_thread_created_with_provenance env ids (Some workspace) at False pv db = Inr db'"
    using assms(2) by (auto simp: create_thread_def result_bind_Inr_iff)
  from created_ok [OF _ this] assms(1) show ?thesis by (simp add: journal_ok_def)
qed

lemma journal_new_run_in_thread:
  assumes "journal_ok db" "append_new_run_in_thread_with_payload env workspace thread f e db = Some (Inr (Inr db'))"
    "\<And>p. f (e_payload e) = Inr p \<Longrightarrow> valid_texts (e\<lparr>e_payload := p\<rparr>)"
  shows "journal_ok db'"
proof -
  obtain p created db1 where v: "e_run_seq e = 1" "run_events db (e_run_id e) = []"
    and p: "f (e_payload e) = Inr p" "validate_envelope env (e\<lparr>e_payload := p\<rparr>) = Inr ()"
    and found: "find (\<lambda>x. tv_seq x = 1 \<and> tv_type x = ''thread.created'') (thread_rows db thread) = Some created"
    and new: "insert_new_run env workspace (e\<lparr>e_payload := p\<rparr>) db = Some (Inr db1)"
    and place: "insert_run_thread \<lparr>rt_run = e_run_id e, rt_thread = thread, rt_ordinal = next_run_ordinal db thread\<rparr> db1 = Inr db'"
    using assms(2) by (auto simp: append_new_run_in_thread_with_payload_def and_then_Inr_iff require_def Let_def
      split: if_splits option.splits sum.splits)
  have "created \<in> set (db_thread_events db) \<and> tv_thread created = thread"
    using found by (auto simp: thread_rows_def find_Some_iff dest: nth_mem)
  then have th: "thread \<in> tv_thread ` set (db_thread_events db)" by blast
  have "core_ok db" using assms(1) by (simp add: journal_ok_def)
  note run = core_projection [OF this p(2) _ _ new assms(3) [OF p(1)], simplified, OF v(2,1)]
  with place_ok [OF run(1) place] run th assms(1) show ?thesis by (simp add: journal_ok_def)
qed

lemma append_thread_event_Inr:
  assumes "append_thread_event env i expected thread ty at body pv db = Inr db'"
  obtains e where "e = \<lparr>tv_event_id = i, tv_thread = thread, tv_seq = expected + 1, tv_type = ty, tv_version = 1,
      tv_envelope_version = 1, tv_recorded_at = at, tv_payload = body, tv_provenance = pv\<rparr>"
    "expected + 1 \<noteq> 0" "last_thread_seq db thread = expected" "expected \<noteq> 0" "\<not> thread_deleted db thread"
    "validate_thread_envelope env e = Inr ()" "validate_thread_policy_append env e db = Inr ()" "insert_thread_event e db = Inr db'"
proof -
  obtain n where n: "checked_add expected 1 = Some n" "n = expected + 1"
    using assms by (auto simp: append_thread_event_def checked_add_def split: option.splits if_splits)
  with assms show thesis
    by (intro that [OF refl])
      (auto simp: append_thread_event_def result_bind_Inr_iff require_def Let_def validate_thread_envelope_def split: if_splits)
qed

lemma journal_thread_event:
  assumes "journal_ok db" "append_thread_event env i expected thread ty at body pv db = Inr db'"
  shows "journal_ok db'"
  using assms(2)
proof (rule append_thread_event_Inr)
  fix e
  assume e: "e = \<lparr>tv_event_id = i, tv_thread = thread, tv_seq = expected + 1, tv_type = ty, tv_version = 1,
      tv_envelope_version = 1, tv_recorded_at = at, tv_payload = body, tv_provenance = pv\<rparr>"
    and n: "expected + 1 \<noteq> 0" "last_thread_seq db thread = expected" "expected \<noteq> 0" "\<not> thread_deleted db thread"
    and ins: "insert_thread_event e db = Inr db'"
  have "core_ok db'" using assms(1) n
    by (intro thread_event_ok [OF _ ins]) (auto simp: e journal_ok_def last_thread_seq_def)
  moreover have "db' = db\<lparr>db_thread_events := db_thread_events db @ [e]\<rparr>"
    using ins by (simp add: insert_thread_event_def split: if_splits)
  ultimately show ?thesis using assms(1) by (simp add: journal_ok_def)
qed

lemma journal_create_with_id:
  assumes "journal_ok db" "create_thread_with_id env event_id thread workspace at pv db = Inr (made, db')"
  shows "journal_ok db'"
proof (cases "thread_rows db thread = []")
  case True
  with assms(2) have "append_thread_created_with_provenance env (thread, event_id) (Some workspace) at False pv db = Inr db'"
    by (auto simp: create_thread_with_id_def result_bind_Inr_iff)
  from created_ok [OF _ this] assms(1) show ?thesis by (simp add: journal_ok_def)
next
  case False
  with assms show ?thesis by (auto simp: create_thread_with_id_def result_bind_Inr_iff)
qed

lemma append_thread_event_with_id_Inr:
  assumes "append_thread_event_with_id env e db = Inr (x, db')"
  obtains "thread_event_by_id db (tv_event_id e) = Some x" "db' = db"
  | "thread_event_by_id db (tv_event_id e) = None" "x = e\<lparr>tv_seq := last_thread_seq db (tv_thread e) + 1\<rparr>"
    "last_thread_seq db (tv_thread e) \<noteq> 0" "\<not> thread_deleted db (tv_thread e)" "\<not> not_replicated (tv_type e)"
    "validate_thread_envelope env x = Inr ()" "insert_thread_event x db = Inr db'"
  using assms by (auto simp: append_thread_event_with_id_def result_bind_Inr_iff require_def Let_def split: option.splits if_splits)

lemma journal_event_with_id:
  assumes "journal_ok db" "append_thread_event_with_id env e db = Inr (x, db')"
  shows "journal_ok db'"
  using assms(2)
proof (cases rule: append_thread_event_with_id_Inr)
  case 2
  have "tv_seq x \<noteq> 0" using 2(6) by (auto simp: validate_thread_envelope_def result_bind_Inr_iff require_def split: if_splits)
  then have "core_ok db'" using assms(1) 2(2-4)
    by (intro thread_event_ok [OF _ 2(7)]) (auto simp: journal_ok_def last_thread_seq_def)
  moreover have "db' = db\<lparr>db_thread_events := db_thread_events db @ [x]\<rparr>"
    using 2(7) by (simp add: insert_thread_event_def split: if_splits)
  ultimately show ?thesis using assms(1) by (simp add: journal_ok_def)
qed (use assms(1) in simp)

lemma journal_bind:
  assumes "journal_ok db" "bind_run_workspace env ids run workspace db = Inr db'"
  shows "journal_ok db' \<and> run_belongs_to_workspace db' run workspace \<and> db_thread_events db' = db_thread_events db"
proof -
  let ?db = "if run \<in> fst ` set (db_workspaces db) then db else db\<lparr>db_workspaces := db_workspaces db @ [(run, workspace)]\<rparr>"
  have ev: "run_events db run \<noteq> []" and bound: "map_of (db_workspaces ?db) run = Some workspace"
    using assms(2) by (auto simp: bind_run_workspace_def result_bind_Inr_iff Let_def split: if_splits)
  then have "run \<in> e_run_id ` set (db_events db)" by (auto simp: run_events_def filter_empty_conv)
  then have "run \<in> rt_run ` set (db_run_threads ?db)" using assms(1) by (simp add: journal_ok_def)
  then have "list_ex (\<lambda>r. rt_run r = run) (db_run_threads ?db)" by (auto simp: list_ex_iff split: if_splits)
  then have db': "db' = ?db" using assms(2) ev bound
    unfolding bind_run_workspace_def Let_def result_bind_Inr_iff by (metis (mono_tags, lifting) Inr_inject Inl_not_Inr)
  have "journal_ok ?db" using assms(1)
    by (simp add: journal_ok_def core_ok_def run_rows_ok_def thread_rows_def shows_journal_def run_events_def)
  moreover have "(run, workspace) \<in> set (db_workspaces ?db)" using bound by (rule map_of_SomeD)
  ultimately show ?thesis unfolding run_belongs_to_workspace_def db' by simp
qed


lemma distinct_map_filtered: "distinct (map f xs) \<Longrightarrow> distinct (map f (filter P xs))"
  by (induction xs) auto

lemma filter_other:
  "filter (\<lambda>x. f x = k) (filter (\<lambda>x. f x \<noteq> d) xs) = (if k = d then [] else filter (\<lambda>x. f x = k) xs)"
  by (induction xs) auto

lemma image_other: "f ` {x \<in> A. f x \<noteq> d} = f ` A - {d}"
  by auto

lemma deleted_shows:
  assumes "shows_journal db" "delete_run run db = (hashes, db')"
  shows "shows_journal db'"
proof -
  let ?tp = "db_projection db'"
  have tp: "tp_entries ?tp = filter (\<lambda>r. pe_run r \<noteq> run) (tp_entries (db_projection db))"
    "tp_versions ?tp = filter (\<lambda>v. vr_run v \<noteq> run) (tp_versions (db_projection db))"
    and ev: "db_events db' = filter (\<lambda>e. e_run_id e \<noteq> run) (db_events db)"
    using assms(2) by (auto simp: delete_run_def Let_def)
  have ent: "entries_of ?tp r = (if r = run then [] else entries_of (db_projection db) r)" for r
    unfolding entries_of_def tp by (simp only: filter_other)
  have opn: "open_rows ?tp r = (if r = run then {} else open_rows (db_projection db) r)" for r
  proof -
    have "{v \<in> set (tp_versions ?tp). vr_run v = r \<and> vr_until v = None}
        = (if r = run then {} else {v \<in> set (tp_versions (db_projection db)). vr_run v = r \<and> vr_until v = None})"
      by (auto simp: tp)
    then show ?thesis by (simp add: open_rows_def)
  qed
  have evs: "run_events db' r = (if r = run then [] else run_events db r)" for r
    unfolding run_events_def ev by (simp only: filter_other)
  have "tables_ok ?tp" using assms(1) by (simp add: shows_journal_def tables_ok_def ent opn current_def)
  moreover have "reply ?tp r = concat (map stream_text (run_events db' r))" for r
    using assms(1) by (simp add: shows_journal_def reply_def assistant_rows_def ent evs)
  ultimately show ?thesis by (simp add: shows_journal_def)
qed

lemma journal_delete:
  assumes "journal_ok db" "delete_run run db = (hashes, db')"
  shows "journal_ok db'"
proof -
  define gone where "gone t \<longleftrightarrow> list_ex (\<lambda>r. rt_run r = run \<and> rt_thread r = t) (db_run_threads db)
    \<and> \<not> list_ex (\<lambda>r. rt_thread r = t) (filter (\<lambda>r. rt_run r \<noteq> run) (db_run_threads db))" for t
  have db': "db_events db' = filter (\<lambda>e. e_run_id e \<noteq> run) (db_events db)"
    "db_thread_events db' = filter (\<lambda>e. \<not> gone (tv_thread e)) (db_thread_events db)"
    "db_run_threads db' = filter (\<lambda>r. rt_run r \<noteq> run) (db_run_threads db)"
    using assms(2) by (auto simp: delete_run_def Let_def gone_def)
  have ok: "core_ok db" "rt_run ` set (db_run_threads db) = e_run_id ` set (db_events db)"
    using assms(1) by (simp_all add: journal_ok_def)
  have "log_ok e_run_id e_run_seq (db_events db')" "log_ok tv_thread tv_seq (db_thread_events db')"
    unfolding db' by (rule log_ok_filter, use ok(1) in \<open>auto simp: core_ok_def\<close>)+
  moreover have "thread_ok (thread_rows db' t)" for t
    using rows_with_filter [of tv_thread "\<lambda>e. \<not> gone (tv_thread e)" "db_thread_events db" t] ok(1)
    by (auto simp: thread_rows_rows db' core_ok_def thread_ok_def)
  moreover have "distinct (map e_event_id (db_events db'))"
    unfolding db' using ok(1) by (intro distinct_map_filtered) (simp add: core_ok_def)
  moreover have "run_rows_ok db'"
  proof -
    have "rt_thread ` set (db_run_threads db') \<subseteq> tv_thread ` set (db_thread_events db')"
    proof
      fix t assume "t \<in> rt_thread ` set (db_run_threads db')"
      then obtain r where r: "r \<in> set (db_run_threads db)" "rt_run r \<noteq> run" "rt_thread r = t" by (auto simp: db')
      with ok(1) obtain e where "e \<in> set (db_thread_events db)" "tv_thread e = t" by (auto simp: core_ok_def run_rows_ok_def)
      moreover have "\<not> gone t" using r by (auto simp: gone_def list_ex_iff)
      ultimately show "t \<in> tv_thread ` set (db_thread_events db')" by (auto simp: db')
    qed
    with ok(1) show ?thesis by (simp add: run_rows_ok_def core_ok_def db' distinct_map_filtered)
  qed
  moreover have "shows_journal db'" using deleted_shows [OF _ assms(2)] ok(1) by (simp add: core_ok_def)
  moreover have "rt_run ` set (db_run_threads db') = e_run_id ` set (db_events db')"
    using ok(2) by (simp add: db' image_other)
  ultimately show ?thesis by (simp add: journal_ok_def core_ok_def)
qed

end
