(* ===== verification/Journal_History.thy ===== *)
theory Journal_History
  imports Journal_Properties
begin

text \<open>
  Every history of the run journal: a step relation with one rule for each operation that writes, what holds
  in every state it reaches, an append tried again, a run read page by page, and the splitting of model text.
\<close>

section \<open>Every history of the journal\<close>

inductive journal_step :: "journal_env \<Rightarrow> journal_db \<Rightarrow> journal_db \<Rightarrow> bool" for env where
  batch: "append_batch env ids expected es db = Some (Inr db') \<Longrightarrow> list_all valid_texts es \<Longrightarrow> journal_step env db db'"
| new_run: "append_new_run env ids workspace e db = Some (Inr (t, db')) \<Longrightarrow> valid_texts e \<Longrightarrow> journal_step env db db'"
| new_thread: "create_thread env ids workspace at pv db = Inr (t, db') \<Longrightarrow> journal_step env db db'"
| run_in_thread: "append_new_run_in_thread_with_payload env workspace t (f :: event_payload \<Rightarrow> string + event_payload) e db = Some (Inr (Inr db'))
    \<Longrightarrow> (\<And>p. f (e_payload e) = Inr p \<Longrightarrow> valid_texts (e\<lparr>e_payload := p\<rparr>)) \<Longrightarrow> journal_step env db db'"
| thread_event: "append_thread_event env i expected t ty at body pv db = Inr db' \<Longrightarrow> journal_step env db db'"
| thread_with_id: "create_thread_with_id env event_id t workspace at pv db = Inr (made, db') \<Longrightarrow> journal_step env db db'"
| event_with_id: "append_thread_event_with_id env e db = Inr (x, db') \<Longrightarrow> journal_step env db db'"
| bound: "bind_run_workspace env ids run workspace db = Inr db' \<Longrightarrow> journal_step env db db'"
| deleted: "delete_run run db = (hashes, db') \<Longrightarrow> journal_step env db db'"

inductive journal_reachable :: "journal_env \<Rightarrow> journal_db \<Rightarrow> bool" for env where
  start: "journal_reachable env empty_journal"
| step: "journal_reachable env db \<Longrightarrow> journal_step env db db' \<Longrightarrow> journal_reachable env db'"

lemma empty_ok: "journal_ok empty_journal"
  by (simp add: journal_ok_def core_ok_def log_ok_def rows_with_def thread_ok_def thread_rows_def run_rows_ok_def shows_journal_def
    tables_ok_def open_rows_def current_def entries_of_def reply_def assistant_rows_def run_events_def empty_journal_def empty_tables_def)

lemma step_ok: "journal_step env db db' \<Longrightarrow> journal_ok db \<Longrightarrow> journal_ok db'"
  by (induction rule: journal_step.induct)
    (blast dest: journal_append_batch journal_new_run journal_create_thread journal_new_run_in_thread journal_thread_event
      journal_create_with_id journal_event_with_id journal_bind journal_delete)+

lemma reachable_ok: "journal_reachable env db \<Longrightarrow> journal_ok db"
  by (induction rule: journal_reachable.induct) (simp_all add: empty_ok step_ok)

section \<open>Retries\<close>

lemma all_existing_stored:
  assumes "distinct (map e_event_id (db_events db))" "set es \<subseteq> set (db_events db)"
  shows "all_existing env db es = Inr True"
  using assms(2)
proof (induction es)
  case (Cons e es)
  then obtain i where i: "i < length (db_events db)" "db_events db ! i = e" by (auto simp: in_set_conv_nth)
  have "find (\<lambda>x. e_event_id x = e_event_id e) (db_events db) = Some e"
    unfolding find_Some_iff using i assms(1) by (intro exI [of _ i]) (auto simp: distinct_conv_nth)
  with Cons show ?case by simp
qed simp

lemma batch_events:
  assumes "append_batch env ids expected es db = Some (Inr db')" "all_existing env db es \<noteq> Inr True"
  shows "db_events db' = db_events db @ es"
proof (cases es)
  case (Cons e rest)
  from assms Cons obtain db1 where
    f: "(if last_run_seq db (e_run_id e) = 0 then first_thread env ids e db else Inr db) = Inr db1"
    and b: "insert_batch env es db1 = Some (Inr db')"
    by (auto simp: append_batch_def and_then_Inr_iff Let_def split: if_splits)
  have "db_events db1 = db_events db" using f
    by (auto simp: first_thread_def result_bind_Inr_iff append_thread_created_def append_thread_created_with_provenance_def
      insert_thread_event_def insert_run_thread_def Let_def split: if_splits)
  with insert_batch_Inr [OF b] show ?thesis by simp
qed (use assms in \<open>simp add: append_batch_def\<close>)

lemma batch_retried:
  assumes "journal_ok db" "append_batch env ids expected es db = Some (Inr db')" "list_all valid_texts es"
  shows "append_batch env ids' expected es db' = Some (Inr db')"
proof (cases es)
  case (Cons e rest)
  from assms(2) Cons obtain existing where c: "check_batch env (e_run_id e) expected es = Inr ()"
    "all_existing env db es = Inr existing" "existing \<longrightarrow> db' = db"
    by (auto simp: append_batch_def and_then_Inr_iff split: if_splits)
  have "all_existing env db' es = Inr True"
  proof (cases existing)
    case False
    then have "db_events db' = db_events db @ es" using batch_events [OF assms(2)] c(2) by simp
    moreover have "journal_ok db'" using journal_append_batch [OF assms] by simp
    ultimately show ?thesis by (intro all_existing_stored) (simp_all add: journal_ok_def core_ok_def)
  qed (use c in simp)
  with Cons c(1) show ?thesis by (simp add: append_batch_def)
qed (use assms(2) in \<open>simp add: append_batch_def\<close>)

section \<open>Reading a run page by page\<close>

text \<open>The cursor's libraries undo themselves.\<close>

definition cursors_open :: "journal_env \<Rightarrow> bool" where
  "cursors_open env \<longleftrightarrow> (\<forall>c. je_unseal env (je_seal env c) = Some c) \<and> (\<forall>x. je_unb64 env (je_b64 env x) = Some x)"

lemma decode_encode:
  "cursors_open env \<Longrightarrow> decode_run_event_cursor env (encode_run_event_cursor env run n) run'
     = (if run = run' \<and> n \<noteq> 0 then Inr n else Inl InvalidPageCursor)"
  by (simp add: cursors_open_def decode_run_event_cursor_def encode_run_event_cursor_def)

lemma reachable_counted: "journal_ok db \<Longrightarrow> counted e_run_seq (run_events db run)"
  by (simp add: journal_ok_def core_ok_def log_ok_def run_events_rows)

lemma thread_counted: "journal_ok db \<Longrightarrow> counted tv_seq (thread_rows db t)"
  by (simp add: journal_ok_def core_ok_def log_ok_def thread_rows_rows)

lemma after_drop:
  assumes "counted seq xs" "n \<le> length xs"
  shows "filter (\<lambda>x. seq x > of_nat n) xs = drop n xs"
proof -
  have "filter (\<lambda>x. seq x > of_nat n) (take n xs) = []"
    using assms by (auto simp: filter_empty_conv in_set_conv_nth counted_nth of_nat_u64_less counted_def simp del: of_nat_Suc)
  moreover have "filter (\<lambda>x. seq x > of_nat n) (drop n xs) = drop n xs"
    using assms by (auto simp: filter_id_conv in_set_conv_nth counted_nth of_nat_u64_less counted_def simp del: of_nat_Suc)
  ultimately show ?thesis using filter_append [of "\<lambda>x. seq x > of_nat n" "take n xs" "drop n xs"] by simp
qed

definition page_cursor :: "journal_env \<Rightarrow> string \<Rightarrow> nat \<Rightarrow> string option" where
  "page_cursor env run n = (if n = 0 then None else Some (encode_run_event_cursor env run (of_nat n)))"

lemma event_page_at:
  assumes "journal_ok db" "cursors_open env" "1 \<le> limit" "limit \<le> max_page_size" "n < length (run_events db run)"
  shows "event_page env db run limit (page_cursor env run n) = Inr \<lparr>pg_events = take limit (drop n (run_events db run)),
    pg_next = (if n + limit < length (run_events db run) then page_cursor env run (n + limit) else None)\<rparr>"
proof -
  let ?xs = "run_events db run"
  note c = reachable_counted [OF assms(1), of run]
  have len: "length ?xs < 2 ^ 64" using c by (simp add: counted_def)
  have nz: "(of_nat n :: u64) = 0 \<longleftrightarrow> n = 0" using assms(5) len of_nat_u64_inj [of n 0] by simp
  have dec: "(case page_cursor env run n of None \<Rightarrow> Inr 0 | Some c \<Rightarrow> decode_run_event_cursor env c run) = Inr (of_nat n)"
    using nz by (simp add: page_cursor_def decode_encode [OF assms(2)])
  have there: "list_ex (\<lambda>e. e_run_seq e = of_nat n) ?xs" if "0 < (of_nat n :: u64)"
  proof -
    have "n \<noteq> 0" using that by (cases n) auto
    then have "e_run_seq (?xs ! (n - 1)) = of_nat n" "n - 1 < length ?xs" using counted_nth [OF c, of "n - 1"] assms(5) by simp_all
    then show ?thesis unfolding list_ex_iff by (metis nth_mem)
  qed
  have found: "filter (\<lambda>e. e_run_seq e > of_nat n) (journal_events db run) = drop n ?xs"
    using assms(5) by (simp add: journal_events_def sort_counted [OF c] after_drop [OF c])
  have lst: "e_run_seq (last (take limit (drop n ?xs))) = of_nat (n + limit)" if "n + limit < length ?xs"
  proof -
    have "last (take limit (drop n ?xs)) = ?xs ! (n + limit - 1)" using that assms(3) by (subst last_conv_nth) auto
    with counted_nth [OF c, of "n + limit - 1"] that assms(3) show ?thesis by simp
  qed
  have "?xs \<noteq> []" using assms(5) by auto
  moreover have "\<not> (limit < 1 \<or> max_page_size < limit)" using assms(3,4) by simp
  moreover have "\<not> (0 < (of_nat n :: u64) \<and> \<not> list_ex (\<lambda>e. e_run_seq e = of_nat n) ?xs)" using there by blast
  ultimately have "event_page env db run limit (page_cursor env run n) = Inr \<lparr>pg_events = take limit (take (limit + 1) (drop n ?xs)),
      pg_next = (if length (take (limit + 1) (drop n ?xs)) > limit
        then Some (encode_run_event_cursor env run (e_run_seq (last (take limit (take (limit + 1) (drop n ?xs)))))) else None)\<rparr>"
    unfolding event_page_def dec result_bind.simps found Let_def by (simp only: if_False simp_thms)
  with lst assms(3) show ?thesis by (auto simp: page_cursor_def min_def take_take)
qed

lemma read_pages_from:
  assumes "journal_ok db" "cursors_open env" "1 \<le> limit" "limit \<le> max_page_size"
    "n < length (run_events db run)" "length (run_events db run) \<le> n + fuel * limit"
  shows "read_pages env db run limit fuel (page_cursor env run n) = Some (Inr (drop n (run_events db run)))"
  using assms(5,6)
proof (induction fuel arbitrary: n)
  case (Suc fuel)
  show ?case
  proof (cases "n + limit < length (run_events db run)")
    case True
    then have c: "page_cursor env run (n + limit) = Some (encode_run_event_cursor env run (of_nat (n + limit)))"
      using assms(3) by (simp add: page_cursor_def)
    have "read_pages env db run limit fuel (page_cursor env run (n + limit)) = Some (Inr (drop (n + limit) (run_events db run)))"
      using Suc True by (intro Suc.IH) simp_all
    moreover have "take limit (drop n (run_events db run)) @ drop (n + limit) (run_events db run) = drop n (run_events db run)"
      by (metis append_take_drop_id drop_drop add.commute)
    ultimately show ?thesis using True c by (simp add: event_page_at [OF assms(1-4) Suc.prems(1)])
  next
    case False
    then show ?thesis by (simp add: event_page_at [OF assms(1-4) Suc.prems(1)])
  qed
qed simp

section \<open>Splitting model text\<close>

lemma split_delta_total:
  "valid_utf8 tx \<Longrightarrow> length tx \<le> fuel \<Longrightarrow> \<exists>ps. split_delta fuel tx = Some ps \<and> concat ps = tx
    \<and> (\<forall>p\<in>set ps. p \<noteq> [] \<and> length p \<le> max_model_stream_delta_bytes)
    \<and> (\<forall>p\<in>set (butlast ps). max_model_stream_delta_bytes \<le> length p + 3)"
proof (induction fuel arbitrary: tx)
  case 0
  then show ?case by (simp add: split_delta.simps)
next
  case (Suc fuel)
  show ?case
  proof (cases "tx = []")
    case False
    define n where "n = boundary_before tx (min (0 + max_model_stream_delta_bytes) (length tx))"
    have lim: "4 \<le> max_model_stream_delta_bytes" by (simp add: max_model_stream_delta_bytes_def)
    note b = next_boundary [OF lim Suc.prems(1) _ n_def]
    have b': "is_char_boundary tx n" "0 < n" "n \<le> length tx" "n \<le> max_model_stream_delta_bytes"
      "n = length tx \<or> max_model_stream_delta_bytes \<le> n + 3" using b False by simp_all
    have "valid_utf8 (drop n tx)" using valid_utf8_drop [OF Suc.prems(1) b'(1)] .
    moreover have "length (drop n tx) \<le> fuel" using b'(2) Suc.prems(2) False by (cases tx) auto
    ultimately obtain ps where ps: "split_delta fuel (drop n tx) = Some ps" "concat ps = drop n tx"
        "\<forall>p\<in>set ps. p \<noteq> [] \<and> length p \<le> max_model_stream_delta_bytes"
        "\<forall>p\<in>set (butlast ps). max_model_stream_delta_bytes \<le> length p + 3"
      using Suc.IH by blast
    have n: "boundary_before tx (min (length tx) max_model_stream_delta_bytes) = n" by (simp add: n_def min.commute)
    have "split_delta (Suc fuel) tx = Some (take n tx # ps)"
      using False ps(1) by (subst split_delta.simps) (simp add: n Let_def)
    moreover have "ps = []" if "n = length tx" using ps(2,3) that by (cases ps) auto
    ultimately show ?thesis using ps False b'
      by (intro exI [of _ "take n tx # ps"]) (auto split: if_splits)
  qed (simp add: split_delta.simps)
qed

section \<open>A concrete journal\<close>

text \<open>An environment whose cursors open and whose canonical text tells the run and the number.\<close>

definition unary :: "nat \<Rightarrow> string" where "unary n = replicate n CHR ''1'' @ ''0''"

definition read_unary :: "string \<Rightarrow> nat \<times> string" where
  "read_unary s = (let n = length (takeWhile (\<lambda>c. c = CHR ''1'') s) in (n, drop (Suc n) s))"

lemma read_unary [simp]: "read_unary (unary n @ s) = (n, s)"
proof -
  have "takeWhile (\<lambda>c. c = CHR ''1'') (replicate n CHR ''1'' @ CHR ''0'' # s) = replicate n CHR ''1''"
    by (induction n) simp_all
  then show ?thesis by (simp add: read_unary_def unary_def Let_def)
qed

definition sample_seal :: "run_event_cursor \<Rightarrow> string" where
  "sample_seal c = unary (unat (rc_version c)) @ unary (unat (rc_after c)) @ unary (length (rc_run c)) @ rc_run c @ rc_authenticator c"

definition sample_unseal :: "string \<Rightarrow> run_event_cursor option" where
  "sample_unseal s = (let (v, s) = read_unary s; (a, s) = read_unary s; (n, s) = read_unary s in
     Some \<lparr>rc_version = of_nat v, rc_run = take n s, rc_after = of_nat a, rc_authenticator = drop n s\<rparr>)"

lemma sample_unseal: "sample_unseal (sample_seal c) = Some c"
  by (simp add: sample_unseal_def sample_seal_def)

definition sample_policy :: policy_decided where
  "sample_policy = \<lparr>pd_id = ''p'', pd_decision = DAllow, pd_kind = KCommand, pd_resource = RCommand [''ls''] ''/w'', pd_actor = ''user'', pd_source = Native, pd_gate = None\<rparr>"

definition sample_env :: journal_env where
  "sample_env = \<lparr>je_uuid = (\<lambda>_. True), je_uuid7 = (\<lambda>_. True), je_time = (\<lambda>s. Some (0, s)),
     je_canon = (\<lambda>e. unary (unat (e_run_seq e)) @ e_run_id e), je_decided = (\<lambda>_. Some sample_policy), je_revoked = (\<lambda>_. None),
     je_mode = (\<lambda>_. None), je_receipt = (\<lambda>_. None), je_mac = (\<lambda>run n. run), je_b64 = (\<lambda>s. s), je_unb64 = Some,
     je_seal = sample_seal, je_unseal = sample_unseal\<rparr>"

definition sample_batch :: "event_envelope list" where
  "sample_batch = [sample_event 1 ''run.started'' [], sample_event 2 ''model.stream.delta'' [(''text'', JString ''Hi'')]]"

definition sample_journal :: journal_db where
  "sample_journal = (case append_batch sample_env (''t'', ''c'') 0 sample_batch empty_journal of Some (Inr db) \<Rightarrow> db | _ \<Rightarrow> empty_journal)"

lemma sample_appended: "append_batch sample_env (''t'', ''c'') 0 sample_batch empty_journal = Some (Inr sample_journal)"
proof -
  have "case append_batch sample_env (''t'', ''c'') 0 sample_batch empty_journal of Some (Inr db) \<Rightarrow> True | _ \<Rightarrow> False"
    by code_simp
  then show ?thesis by (auto simp: sample_journal_def split: option.splits sum.splits)
qed

lemma sample_texts: "list_all valid_texts sample_batch"
  by (auto simp: sample_batch_def valid_texts_def sample_event_def inline_text_def)

lemma sample_reachable: "journal_reachable sample_env sample_journal"
  using journal_reachable.step [OF journal_reachable.start journal_step.batch [OF sample_appended sample_texts]] .

lemma sample_stored: "run_events sample_journal ''r'' = sample_batch"
proof -
  have "map e_run_id sample_batch = [''r'', ''r'']" by (simp add: sample_batch_def sample_event_def)
  then have "run_events (empty_journal\<lparr>db_events := sample_batch\<rparr>) ''r'' = sample_batch"
    by (simp add: run_events_def sample_batch_def)
  moreover have "db_events sample_journal = sample_batch" by code_simp
  ultimately show ?thesis by (simp add: run_events_def)
qed

lemma sample_cursors: "cursors_open sample_env"
  by (simp add: cursors_open_def sample_env_def sample_unseal)

section \<open>What the journal promises\<close>

text \<open>C37: Splitting model text into stream deltas ends, for text of any length: the pieces joined are the text, none is empty
  or larger than a delta may be, and every piece but the last is within three bytes of that size.\<close>

theorem split_delta_terminates:
  assumes "valid_utf8 tx"
  shows "\<exists>ps. split_model_stream_delta tx = Some ps \<and> concat ps = tx
    \<and> (\<forall>p\<in>set ps. p \<noteq> [] \<and> length p \<le> max_model_stream_delta_bytes)
    \<and> (\<forall>p\<in>set (butlast ps). max_model_stream_delta_bytes \<le> length p + 3)"
  unfolding split_model_stream_delta_def using split_delta_total [OF assms order_refl] .

theorem split_delta_terminates_witness:
  "\<exists>ps. split_model_stream_delta ''Hello'' = Some ps \<and> concat ps = ''Hello'' \<and> ps \<noteq> []"
proof -
  have "valid_utf8 ''Hello''" by code_simp
  from split_delta_terminates [OF this] obtain ps where "split_model_stream_delta ''Hello'' = Some ps" "concat ps = ''Hello''" by blast
  then show ?thesis by auto
qed

text \<open>C4: Whatever sequence of operations wrote the journal: the events of every run and of every thread are numbered from
  one without a gap, an event id is used once, a thread begins with its creation and has nothing after its
  deletion, a run has events exactly when it has its one place in a thread, and the reply the thread tables
  show is the text the run's events streamed.\<close>

theorem journal_history_sound:
  assumes "journal_reachable env db"
  shows "map e_run_seq (run_events db run) = map (\<lambda>i. of_nat (Suc i)) [0..<length (run_events db run)]
    \<and> map tv_seq (thread_rows db t) = map (\<lambda>i. of_nat (Suc i)) [0..<length (thread_rows db t)]
    \<and> distinct (map e_event_id (db_events db))
    \<and> (thread_rows db t = [] \<or> tv_type (hd (thread_rows db t)) = ''thread.created'')
    \<and> list_all (\<lambda>e. tv_type e \<noteq> ''thread.deleted'') (butlast (thread_rows db t))
    \<and> length (filter (\<lambda>r. rt_run r = run) (db_run_threads db)) = (if run_events db run = [] then 0 else 1)
    \<and> reply (db_projection db) run = concat (map stream_text (run_events db run))"
proof -
  note ok = reachable_ok [OF assms]
  have "length (filter (\<lambda>r. rt_run r = run) (db_run_threads db)) = (if run_events db run = [] then 0 else 1)"
  proof -
    have d: "distinct (map rt_run (db_run_threads db))" and m: "run \<in> rt_run ` set (db_run_threads db) \<longleftrightarrow> run_events db run \<noteq> []"
      using ok by (auto simp: journal_ok_def core_ok_def run_rows_ok_def run_events_def filter_empty_conv)
    have "length (filter (\<lambda>r. rt_run r = run) rs) = (if run \<in> rt_run ` set rs then 1 else 0)" if "distinct (map rt_run rs)" for rs
      using that by (induction rs) (auto simp: filter_empty_conv)
    from this [OF d] m show ?thesis by simp
  qed
  then show ?thesis using ok reachable_counted [OF ok, of run] thread_counted [OF ok, of t]
    by (simp add: counted_def journal_ok_def core_ok_def thread_ok_def shows_journal_def)
qed

theorem journal_history_sound_witness:
  "length (run_events sample_journal ''r'') = 2 \<and> reply (db_projection sample_journal) ''r'' = ''Hi''
    \<and> length (filter (\<lambda>r. rt_run r = ''r'') (db_run_threads sample_journal)) = 1"
  using journal_history_sound [OF sample_reachable, of "''r''" "''t''"] unfolding sample_stored
  by (simp add: sample_batch_def stream_text_def sample_event_def inline_text_def)

text \<open>C36: An append that is tried again, because its answer was lost, succeeds and changes nothing, whatever thread
  ids the second try draws.\<close>

theorem batch_retry_idempotent:
  assumes "journal_reachable env db" "append_batch env ids expected es db = Some (Inr db')" "list_all valid_texts es"
  shows "append_batch env ids' expected es db' = Some (Inr db')"
  using batch_retried [OF reachable_ok [OF assms(1)] assms(2,3)] .

theorem batch_retry_idempotent_witness:
  "append_batch sample_env (''u'', ''d'') 0 sample_batch sample_journal = Some (Inr sample_journal)"
  using batch_retry_idempotent [OF journal_reachable.start sample_appended sample_texts] .

text \<open>A reader that follows the cursors of the pages gets every event of the run, once and in order, with as many
  pages as the run's length needs.\<close>

theorem pages_read_whole_run:
  assumes "journal_reachable env db" "cursors_open env" "1 \<le> limit" "limit \<le> max_page_size"
    "run_events db run \<noteq> []" "length (run_events db run) \<le> pages * limit"
  shows "read_pages env db run limit pages None = Some (Inr (run_events db run))"
  using read_pages_from [OF reachable_ok [OF assms(1)] assms(2-4), of 0 run pages] assms(5,6) by (simp add: page_cursor_def)

theorem pages_read_whole_run_witness:
  "read_pages sample_env sample_journal ''r'' 1 2 None = Some (Inr sample_batch)"
  using pages_read_whole_run [OF sample_reachable sample_cursors, of 1 "''r''" 2]
  by (simp add: sample_stored max_page_size_def) (simp add: sample_batch_def)

text \<open>A page of events shows a client only its own: the run is bound to the client's workspace, every event of the
  page is of that run and after the position its cursor names, a page has no more events than asked for,
  and a cursor is taken only with the authenticator of that run and position.\<close>

theorem workspace_page_confined:
  assumes "workspace_event_page env db workspace run limit cursor = Inr p"
  shows "(run, workspace) \<in> set (db_workspaces db) \<and> length (pg_events p) \<le> limit \<and> limit \<le> max_page_size
    \<and> set (pg_events p) \<subseteq> {e \<in> set (db_events db). e_run_id e = run}
    \<and> (case cursor of None \<Rightarrow> True | Some c \<Rightarrow>
         (\<exists>k. je_unseal env c = Some k \<and> rc_run k = run \<and> je_unb64 env (rc_authenticator k) = Some (je_mac env run (rc_after k))
           \<and> set (pg_events p) \<subseteq> {e. rc_after k < e_run_seq e}))"
proof -
  obtain after where a: "(case cursor of None \<Rightarrow> Inr 0 | Some c \<Rightarrow> decode_run_event_cursor env c run) = Inr after"
    and p: "pg_events p = take limit (take (limit + 1) (filter (\<lambda>e. e_run_seq e > after) (journal_events db run)))"
    and b: "(run, workspace) \<in> set (db_workspaces db)" "limit \<le> max_page_size"
    using assms by (auto simp: workspace_event_page_def run_belongs_to_workspace_def event_page_def result_bind_Inr_iff Let_def not_less
      split: if_splits)
  have sub: "set (pg_events p) \<subseteq> {e \<in> set (journal_events db run). e_run_seq e > after}"
    unfolding p by (auto dest!: in_set_takeD)
  then have "set (pg_events p) \<subseteq> {e \<in> set (db_events db). e_run_id e = run}"
    by (auto simp: journal_events_def run_events_def)
  moreover have "length (pg_events p) \<le> limit" by (simp add: p)
  moreover have "case cursor of None \<Rightarrow> True | Some c \<Rightarrow>
         (\<exists>k. je_unseal env c = Some k \<and> rc_run k = run \<and> je_unb64 env (rc_authenticator k) = Some (je_mac env run (rc_after k))
           \<and> set (pg_events p) \<subseteq> {e. rc_after k < e_run_seq e})"
    using a sub by (auto simp: decode_run_event_cursor_def split: option.splits if_splits)
  ultimately show ?thesis using b by simp
qed

theorem workspace_page_confined_witness:
  "\<exists>p. workspace_event_page sample_env (sample_journal\<lparr>db_workspaces := [(''r'', ''w'')]\<rparr>) ''w'' ''r'' 1 None = Inr p
    \<and> length (pg_events p) \<le> 1 \<and> set (pg_events p) \<subseteq> {e \<in> set (db_events sample_journal). e_run_id e = ''r''}"
proof -
  have "case workspace_event_page sample_env (sample_journal\<lparr>db_workspaces := [(''r'', ''w'')]\<rparr>) ''w'' ''r'' 1 None of Inr p \<Rightarrow> True | _ \<Rightarrow> False"
    by code_simp
  then obtain p where p: "workspace_event_page sample_env (sample_journal\<lparr>db_workspaces := [(''r'', ''w'')]\<rparr>) ''w'' ''r'' 1 None = Inr p"
    by (auto split: sum.splits)
  with workspace_page_confined [OF p] show ?thesis by auto
qed

end
