(* ===== verification/Journal_Policies.thy ===== *)
theory Journal_Policies
  imports Journal_History
begin

text \<open>
  The permission policies a thread remembers, on every journal its operations can write: each append checks a
  decision or revocation against the thread's earlier ones, so that reading them back never fails.
\<close>

section \<open>Thread events\<close>

definition policy_event :: "thread_event \<Rightarrow> bool" where
  "policy_event e \<longleftrightarrow> tv_type e \<in> {''thread.permission.policy.decided'', ''thread.permission.policy.revoked''}"

definition thread_grows :: "journal_env \<Rightarrow> journal_db \<Rightarrow> journal_db \<Rightarrow> bool" where
  "thread_grows env db db' \<longleftrightarrow> db_thread_events db' = db_thread_events db
     \<or> (\<exists>e. db_thread_events db' = db_thread_events db @ [e] \<and> validate_thread_envelope env e = Inr ()
          \<and> validate_thread_policy_append env e db = Inr ())"

lemma created_grows:
  assumes "append_thread_created_with_provenance env ids workspace at backfill pv db = Inr db'"
  shows "thread_grows env db db'"
proof -
  let ?e = "created_event ids workspace at backfill pv"
  have "validate_thread_envelope env ?e = Inr ()" "db_thread_events db' = db_thread_events db @ [?e]"
    using assms by (auto simp: append_thread_created_with_provenance_def result_bind_Inr_iff insert_thread_event_def Let_def split: if_splits)
  moreover have "validate_thread_policy_append env ?e db = Inr ()" by (simp add: validate_thread_policy_append_def created_event_def)
  ultimately show ?thesis by (auto simp: thread_grows_def)
qed

lemma place_threads: "insert_run_thread r db = Inr db' \<Longrightarrow> db_thread_events db' = db_thread_events db"
  by (auto simp: insert_run_thread_def split: if_splits)

lemma new_run_threads: "insert_new_run env workspace e db = Some (Inr db') \<Longrightarrow> db_thread_events db' = db_thread_events db"
  by (auto simp: insert_new_run_def and_then_Inr_iff insert_event_Inr insert_workspace_def split: if_splits
      dest!: update_projections_Inr(3))

lemma thread_grows_cong:
  assumes "db_thread_events d0 = db_thread_events db" "db_thread_events db' = db_thread_events d1"
  shows "thread_grows env d0 d1 = thread_grows env db db'"
proof -
  have "validate_thread_policy_append env e d0 = validate_thread_policy_append env e db" for e
    using assms(1) by (simp add: validate_thread_policy_append_def thread_rows_def)
  with assms show ?thesis by (simp add: thread_grows_def)
qed

lemma batch_grows:
  assumes "append_batch env ids expected es db = Some (Inr db')"
  shows "thread_grows env db db'"
proof (cases es)
  case (Cons e rest)
  consider "db' = db" | db1 where "(if last_run_seq db (e_run_id e) = 0 then first_thread env ids e db else Inr db) = Inr db1"
      "insert_batch env es db1 = Some (Inr db')"
    using assms Cons by (auto simp: append_batch_def and_then_Inr_iff Let_def split: if_splits)
  then show ?thesis
  proof cases
    case 2
    have "db_thread_events db' = db_thread_events db1" using insert_batch_Inr [OF 2(2)] by simp
    moreover have "thread_grows env db db1"
    proof (cases "last_run_seq db (e_run_id e) = 0")
      case True
      with 2(1) obtain d where d: "append_thread_created env ids (Some []) (e_recorded_at e) False db = Inr d"
          "insert_run_thread \<lparr>rt_run = e_run_id e, rt_thread = fst ids, rt_ordinal = 1\<rparr> d = Inr db1"
        by (auto simp: first_thread_def result_bind_Inr_iff)
      then show ?thesis
        using created_grows [OF d(1) [unfolded append_thread_created_def]] thread_grows_cong [of db db db1 d] place_threads by simp
    qed (use 2(1) in \<open>simp add: thread_grows_def\<close>)
    ultimately show ?thesis using thread_grows_cong [of db db db' db1] by simp
  qed (simp add: thread_grows_def)
qed (use assms in \<open>simp add: append_batch_def thread_grows_def\<close>)

lemma new_run_grows:
  assumes "append_new_run env ids workspace e db = Some (Inr (t, db'))"
  shows "thread_grows env db db'"
proof -
  obtain db1 db2 where new: "insert_new_run env workspace e db = Some (Inr db1)"
    and cr: "append_thread_created env ids (Some workspace) (e_recorded_at e) False db1 = Inr db2"
    and place: "insert_run_thread \<lparr>rt_run = e_run_id e, rt_thread = fst ids, rt_ordinal = 1\<rparr> db2 = Inr db'"
    using assms by (auto simp: append_new_run_def and_then_Inr_iff split: if_splits)
  from created_grows [OF cr [unfolded append_thread_created_def]] show ?thesis
    using thread_grows_cong [of db1 db db' db2] new_run_threads [OF new] place_threads [OF place] by simp
qed

lemma run_in_thread_grows:
  assumes "append_new_run_in_thread_with_payload env workspace t f e db = Some (Inr (Inr db'))"
  shows "thread_grows env db db'"
proof -
  obtain p db1 where new: "insert_new_run env workspace (e\<lparr>e_payload := p\<rparr>) db = Some (Inr db1)"
    and place: "insert_run_thread \<lparr>rt_run = e_run_id e, rt_thread = t, rt_ordinal = next_run_ordinal db t\<rparr> db1 = Inr db'"
    using assms by (auto simp: append_new_run_in_thread_with_payload_def and_then_Inr_iff Let_def split: if_splits option.splits sum.splits)
  show ?thesis using new_run_threads [OF new] place_threads [OF place] by (simp add: thread_grows_def)
qed

lemma thread_event_grows:
  assumes "append_thread_event env i expected t ty at body pv db = Inr db'"
  shows "thread_grows env db db'"
  using assms
proof (rule append_thread_event_Inr)
  fix e
  assume "validate_thread_envelope env e = Inr ()" "validate_thread_policy_append env e db = Inr ()" "insert_thread_event e db = Inr db'"
  then show ?thesis by (auto simp: thread_grows_def insert_thread_event_def split: if_splits)
qed

lemma with_id_grows:
  assumes "append_thread_event_with_id env e db = Inr (x, db')"
  shows "thread_grows env db db'"
  using assms
proof (cases rule: append_thread_event_with_id_Inr)
  case 2
  have "\<not> starts_with (tv_type e) ''thread.permission.'' \<or> tv_type e = ''thread.permission.mode.set''"
    using 2(5) by (simp add: not_replicated_def)
  then have "tv_type x \<notin> {''thread.permission.policy.decided'', ''thread.permission.policy.revoked''}"
    by (auto simp: 2(2) starts_with_def)
  with 2(6,7) show ?thesis
    by (auto simp: thread_grows_def insert_thread_event_def validate_thread_policy_append_def split: if_splits)
qed (simp add: thread_grows_def)

section \<open>The policies of a thread\<close>

text \<open>The fold of the policies with the decisions it has seen.\<close>

fun policy_step :: "journal_env \<Rightarrow> thread_event \<Rightarrow> (string \<rightharpoonup> policy_decided) \<times> policy_decided list
    \<Rightarrow> journal_error + (string \<rightharpoonup> policy_decided) \<times> policy_decided list" where
  "policy_step env e (known, active) =
     result_bind (as_corrupt (validate_thread_envelope env e)) (\<lambda>_.
       if tv_type e = ''thread.permission.policy.decided''
       then (case je_decided env (tv_payload e) of
               None \<Rightarrow> Inl (Corrupt ''stored thread permission decision is invalid'')
             | Some p \<Rightarrow>
                 if (case known (pd_id p) of None \<Rightarrow> False | Some q \<Rightarrow> q \<noteq> p)
                 then Inl (Corrupt ''policy_id names different decisions in one thread'')
                 else Inr (known(pd_id p \<mapsto> p), without_policy (pd_id p) active @ [p]))
       else (case je_revoked env (tv_payload e) of
               None \<Rightarrow> Inl (Corrupt ''stored thread permission revocation is invalid'')
             | Some p \<Rightarrow>
                 if known (pr_id p) = None then Inl (Corrupt ''thread permission revocation names no earlier decision'')
                 else Inr (known, without_policy (pr_id p) active)))"

fun policy_fold :: "journal_env \<Rightarrow> thread_event list \<Rightarrow> (string \<rightharpoonup> policy_decided) \<times> policy_decided list
    \<Rightarrow> journal_error + (string \<rightharpoonup> policy_decided) \<times> policy_decided list" where
  "policy_fold env [] s = Inr s"
| "policy_fold env (e # es) s = result_bind (policy_step env e s) (policy_fold env es)"

lemma result_bind_cong: "(\<And>x. r = Inr x \<Longrightarrow> f x = g x) \<Longrightarrow> result_bind r f = result_bind r g"
  by (cases r) simp_all

lemma active_policies_fold: "active_policies env es known active = result_bind (policy_fold env es (known, active)) (\<lambda>s. Inr (snd s))"
proof (induction es arbitrary: known active)
  case (Cons e es)
  show ?case
    by (cases "as_corrupt (validate_thread_envelope env e)") (simp_all add: Cons.IH fun_upd_def split: option.split)
qed simp

lemma policy_fold_snoc: "policy_fold env (es @ [e]) s = result_bind (policy_fold env es s) (policy_step env e)"
proof (induction es arbitrary: s)
  case Nil
  show ?case by (cases "policy_step env e s") simp_all
next
  case (Cons x es)
  show ?case by (cases "policy_step env x s") (simp_all add: Cons.IH)
qed

definition decided_event :: "thread_event \<Rightarrow> bool" where
  "decided_event e \<longleftrightarrow> tv_type e = ''thread.permission.policy.decided''"

lemma known_decisions_snoc: "known_decisions env (es @ [e]) k = result_bind (known_decisions env es k) (known_decisions env [e])"
  by (induction es arbitrary: k) (auto split: option.splits)

lemma policy_fold_known:
  assumes "policy_fold env es (Map.empty, []) = Inr (known, active)"
  shows "known_decisions env (filter decided_event es) Map.empty = Inr known"
  using assms
proof (induction es arbitrary: known active rule: rev_induct)
  case (snoc e es)
  then obtain k a where f: "policy_fold env es (Map.empty, []) = Inr (k, a)" and s: "policy_step env e (k, a) = Inr (known, active)"
    by (auto simp: policy_fold_snoc result_bind_Inr_iff)
  from snoc.IH [OF f] s show ?case
    by (auto simp: known_decisions_snoc result_bind_Inr_iff decided_event_def split: if_splits option.splits)
qed simp

text \<open>What is in force: decided, and not revoked since.\<close>

definition decides :: "journal_env \<Rightarrow> thread_event \<Rightarrow> policy_decided \<Rightarrow> bool" where
  "decides env e p \<longleftrightarrow> tv_type e = ''thread.permission.policy.decided'' \<and> je_decided env (tv_payload e) = Some p"

definition revokes :: "journal_env \<Rightarrow> thread_event \<Rightarrow> string \<Rightarrow> bool" where
  "revokes env e i \<longleftrightarrow> tv_type e = ''thread.permission.policy.revoked'' \<and> map_option pr_id (je_revoked env (tv_payload e)) = Some i"

definition in_force :: "journal_env \<Rightarrow> thread_event list \<Rightarrow> policy_decided \<Rightarrow> bool" where
  "in_force env es p \<longleftrightarrow> (\<exists>xs e ys. es = xs @ e # ys \<and> decides env e p \<and> (\<forall>y\<in>set ys. \<not> revokes env y (pd_id p)))"

lemma in_force_Nil [simp]: "\<not> in_force env [] p"
  by (simp add: in_force_def)

lemma in_force_snoc: "in_force env (es @ [e]) p \<longleftrightarrow> decides env e p \<or> (in_force env es p \<and> \<not> revokes env e (pd_id p))"
proof
  assume "in_force env (es @ [e]) p"
  then obtain xs d ys where d: "es @ [e] = xs @ d # ys" "decides env d p" "\<forall>y\<in>set ys. \<not> revokes env y (pd_id p)"
    by (auto simp: in_force_def)
  show "decides env e p \<or> (in_force env es p \<and> \<not> revokes env e (pd_id p))"
  proof (cases ys rule: rev_cases)
    case (snoc zs z)
    with d have "es = xs @ d # zs" "z = e" by simp_all
    with d snoc show ?thesis by (auto simp: in_force_def)
  qed (use d in simp)
next
  assume r: "decides env e p \<or> (in_force env es p \<and> \<not> revokes env e (pd_id p))"
  show "in_force env (es @ [e]) p"
  proof (cases "decides env e p")
    case True
    then show ?thesis unfolding in_force_def by (intro exI [of _ es] exI [of _ e] exI [of _ "[]"]) simp
  next
    case False
    with r obtain xs d ys where "es = xs @ d # ys" "decides env d p" "\<forall>y\<in>set ys. \<not> revokes env y (pd_id p)" "\<not> revokes env e (pd_id p)"
      by (auto simp: in_force_def)
    then show ?thesis unfolding in_force_def by (intro exI [of _ xs] exI [of _ d] exI [of _ "ys @ [e]"]) auto
  qed
qed

lemma policy_fold_in_force:
  assumes "policy_fold env es (Map.empty, []) = Inr (known, active)" "list_all policy_event es"
  shows "(\<forall>p. p \<in> set active \<longleftrightarrow> in_force env es p) \<and> (\<forall>p\<in>set active. known (pd_id p) = Some p)"
  using assms
proof (induction es arbitrary: known active rule: rev_induct)
  case (snoc e es)
  then obtain k a where f: "policy_fold env es (Map.empty, []) = Inr (k, a)" and s: "policy_step env e (k, a) = Inr (known, active)"
    by (auto simp: policy_fold_snoc result_bind_Inr_iff)
  have ih: "\<forall>p. p \<in> set a \<longleftrightarrow> in_force env es p" "\<forall>p\<in>set a. k (pd_id p) = Some p"
    using snoc.IH [OF f] snoc.prems(2) by auto
  show ?case
  proof (cases "tv_type e = ''thread.permission.policy.decided''")
    case True
    with s obtain p where p: "je_decided env (tv_payload e) = Some p" "k (pd_id p) \<in> {None, Some p}"
        "known = k(pd_id p \<mapsto> p)" "active = without_policy (pd_id p) a @ [p]"
      by (auto simp: result_bind_Inr_iff split: option.splits if_splits)
    have "q = p" if "q \<in> set a" "pd_id q = pd_id p" for q using ih(2) that p(2) by auto
    with p True ih show ?thesis by (auto simp: in_force_snoc decides_def revokes_def without_policy_def)
  next
    case False
    with s obtain p where p: "je_revoked env (tv_payload e) = Some p" "known = k" "active = without_policy (pr_id p) a"
      by (auto simp: result_bind_Inr_iff split: option.splits if_splits)
    have "tv_type e = ''thread.permission.policy.revoked''" using False snoc.prems(2) by (simp add: policy_event_def)
    with p ih show ?thesis by (auto simp: in_force_snoc decides_def revokes_def without_policy_def)
  qed
qed simp

section \<open>Every journal\<close>

definition policy_log :: "journal_db \<Rightarrow> string \<Rightarrow> thread_event list" where
  "policy_log db t = filter policy_event (thread_rows db t)"

definition policies_ok :: "journal_env \<Rightarrow> journal_db \<Rightarrow> bool" where
  "policies_ok env db \<longleftrightarrow> (\<forall>t. \<exists>s. policy_fold env (policy_log db t) (Map.empty, []) = Inr s)"

lemma sorted_filter_counted: "counted seq xs \<Longrightarrow> sort_key seq (filter P xs) = filter P xs"
  by (metis filter_sort sort_counted)

lemma policy_rows_log: "journal_ok db \<Longrightarrow> policy_rows db t = policy_log db t"
  unfolding policy_rows_def policy_log_def policy_event_def [abs_def] by (rule sorted_filter_counted) (rule thread_counted)

lemma appended_policy:
  assumes "journal_ok db" "policy_fold env (policy_log db (tv_thread e)) (Map.empty, []) = Inr s" "policy_event e"
    "validate_thread_envelope env e = Inr ()" "validate_thread_policy_append env e db = Inr ()"
  shows "\<exists>s'. policy_step env e s = Inr s'"
proof -
  obtain known active where s: "s = (known, active)" by fastforce
  have "filter decided_event (policy_log db (tv_thread e)) = filter decided_event (thread_rows db (tv_thread e))"
    by (auto simp: policy_log_def policy_event_def decided_event_def intro: filter_cong)
  then have "known_decisions env (sort_key tv_seq (filter decided_event (thread_rows db (tv_thread e)))) Map.empty = Inr known"
    using policy_fold_known [OF assms(2) [unfolded s]] by (simp add: sorted_filter_counted [OF thread_counted [OF assms(1)]])
  then show ?thesis using assms(3-5) unfolding s
    by (auto simp: validate_thread_policy_append_def policy_event_def decided_event_def [abs_def] as_corrupt_def require_def
      split: option.splits if_splits)
qed

lemma grows_policies:
  assumes "journal_ok db" "policies_ok env db" "thread_grows env db db'"
  shows "policies_ok env db'"
proof -
  have "\<exists>s. policy_fold env (policy_log db' t) (Map.empty, []) = Inr s" for t
  proof -
    obtain s where s: "policy_fold env (policy_log db t) (Map.empty, []) = Inr s" using assms(2) unfolding policies_ok_def by blast
    from assms(3) consider "db_thread_events db' = db_thread_events db"
      | e where "db_thread_events db' = db_thread_events db @ [e]" "validate_thread_envelope env e = Inr ()"
          "validate_thread_policy_append env e db = Inr ()" by (auto simp: thread_grows_def)
    then show ?thesis
    proof cases
      case 1
      with s show ?thesis by (simp add: policy_log_def thread_rows_def)
    next
      case 2
      then have log: "policy_log db' t = policy_log db t @ (if t = tv_thread e \<and> policy_event e then [e] else [])"
        by (simp add: policy_log_def thread_rows_def)
      show ?thesis
      proof (cases "t = tv_thread e \<and> policy_event e")
        case True
        with s obtain s' where "policy_step env e s = Inr s'" using appended_policy [OF assms(1) _ _ 2(2,3)] by blast
        with True s log show ?thesis by (simp add: policy_fold_snoc)
      qed (use s log in auto)
    qed
  qed
  then show ?thesis by (simp add: policies_ok_def)
qed

lemma delete_policies:
  assumes "policies_ok env db" "delete_run run db = (hashes, db')"
  shows "policies_ok env db'"
proof -
  define gone where "gone t \<longleftrightarrow> list_ex (\<lambda>r. rt_run r = run \<and> rt_thread r = t) (db_run_threads db)
    \<and> \<not> list_ex (\<lambda>r. rt_thread r = t) (filter (\<lambda>r. rt_run r \<noteq> run) (db_run_threads db))" for t
  have "db_thread_events db' = filter (\<lambda>e. \<not> gone (tv_thread e)) (db_thread_events db)"
    using assms(2) by (auto simp: delete_run_def Let_def gone_def)
  then have "thread_rows db' t = [] \<or> thread_rows db' t = thread_rows db t" for t
    using rows_with_filter [of tv_thread "\<lambda>e. \<not> gone (tv_thread e)" "db_thread_events db" t] by (simp add: thread_rows_rows)
  then have "policy_log db' t = [] \<or> policy_log db' t = policy_log db t" for t by (metis policy_log_def filter.simps(1))
  moreover have "\<exists>s. policy_fold env [] (Map.empty, []) = Inr s" by simp
  ultimately show ?thesis using assms(1) unfolding policies_ok_def by metis
qed

lemma step_policies: "journal_step env db db' \<Longrightarrow> journal_ok db \<Longrightarrow> policies_ok env db \<Longrightarrow> policies_ok env db'"
proof (induction rule: journal_step.induct)
  case (new_thread ids workspace at pv db t db')
  then have "append_thread_created_with_provenance env ids (Some workspace) at False pv db = Inr db'"
    by (auto simp: create_thread_def result_bind_Inr_iff)
  with new_thread created_grows grows_policies show ?case by blast
next
  case (thread_with_id event_id t workspace at pv db made db')
  have "thread_grows env db db'"
  proof (cases "thread_rows db t = []")
    case True
    with thread_with_id(1) have "append_thread_created_with_provenance env (t, event_id) (Some workspace) at False pv db = Inr db'"
      by (auto simp: create_thread_with_id_def result_bind_Inr_iff)
    then show ?thesis by (rule created_grows)
  next
    case False
    with thread_with_id(1) show ?thesis by (auto simp: create_thread_with_id_def result_bind_Inr_iff thread_grows_def)
  qed
  with thread_with_id(2,3) show ?case by (blast intro: grows_policies)
next
  case (bound ids run workspace db db')
  have "db_thread_events db' = db_thread_events db"
    using journal_bind [OF bound(2,1)] by blast
  then show ?case using grows_policies [OF bound(2,3)] by (simp add: thread_grows_def)
qed (blast intro: grows_policies batch_grows new_run_grows run_in_thread_grows thread_event_grows with_id_grows delete_policies)+

lemma reachable_policies: "journal_reachable env db \<Longrightarrow> policies_ok env db"
proof (induction rule: journal_reachable.induct)
  case start
  have "policy_log empty_journal t = []" for t by (simp add: policy_log_def thread_rows_def empty_journal_def)
  then show ?case by (simp add: policies_ok_def)
qed (blast intro: step_policies reachable_ok)

lemma active_exact:
  assumes "journal_reachable env db"
  obtains ps where "active_thread_permission_policies env db t = Inr ps"
    "\<forall>p. p \<in> set ps \<longleftrightarrow> \<not> thread_deleted db t \<and> in_force env (policy_log db t) p"
proof (cases "thread_deleted db t")
  case True
  then show ?thesis using that [of "[]"] by (simp add: active_thread_permission_policies_def)
next
  case False
  obtain known active where f: "policy_fold env (policy_log db t) (Map.empty, []) = Inr (known, active)"
    using reachable_policies [OF assms] unfolding policies_ok_def by (metis surj_pair)
  have "list_all policy_event (policy_log db t)" by (simp add: policy_log_def list_all_iff)
  from policy_fold_in_force [OF f this] False f show ?thesis
    by (intro that [of active])
      (simp_all add: active_thread_permission_policies_def policy_rows_log reachable_ok [OF assms] active_policies_fold)
qed

text \<open>C35: A thread remembers exactly the policies decided in it and not revoked since: on every journal the code can
  write the lookup reads the thread without an error, what it finds is in force for the asked kind and
  resource, it finds nothing only when no such policy is in force, and nothing once the thread is deleted.\<close>

theorem remembered_policies_exact:
  assumes "journal_reachable env db"
  shows "\<exists>r. lookup_thread_permission_policy env db t kind res = Inr r
    \<and> (case r of
         Some p \<Rightarrow> pd_kind p = kind \<and> pd_resource p = res \<and> in_force env (policy_log db t) p \<and> \<not> thread_deleted db t
       | None \<Rightarrow> thread_deleted db t \<or> \<not> (\<exists>p. pd_kind p = kind \<and> pd_resource p = res \<and> in_force env (policy_log db t) p))"
proof -
  obtain ps where ps: "active_thread_permission_policies env db t = Inr ps"
      "\<forall>p. p \<in> set ps \<longleftrightarrow> \<not> thread_deleted db t \<and> in_force env (policy_log db t) p"
    using active_exact [OF assms] .
  show ?thesis
  proof (cases "find (\<lambda>p. pd_kind p = kind \<and> pd_resource p = res) (rev ps)")
    case None
    then have "\<forall>p\<in>set ps. \<not> (pd_kind p = kind \<and> pd_resource p = res)" by (simp add: find_None_iff)
    with None ps show ?thesis by (auto simp: lookup_thread_permission_policy_def)
  next
    case (Some p)
    then have "p \<in> set (rev ps)" "pd_kind p = kind" "pd_resource p = res" by (metis (mono_tags, lifting) find_Some_iff nth_mem)+
    then have "p \<in> set ps" "pd_kind p = kind" "pd_resource p = res" by simp_all
    with Some ps show ?thesis by (simp add: lookup_thread_permission_policy_def)
  qed
qed

definition sample_owner :: provenance where
  "sample_owner = (journal_provenance False)\<lparr>pv_extra := [(''attach_profile'', JString ''default'')]\<rparr>"

definition sample_thread :: journal_db where
  "sample_thread = empty_journal\<lparr>db_thread_events := [created_event (''t'', ''c'') (Some ''/w'') ''now'' False sample_owner]\<rparr>"

definition sample_decision :: thread_event where
  "sample_decision = \<lparr>tv_event_id = ''d'', tv_thread = ''t'', tv_seq = 2, tv_type = ''thread.permission.policy.decided'',
     tv_version = 1, tv_envelope_version = 1, tv_recorded_at = ''now'', tv_payload = JObject [], tv_provenance = sample_owner\<rparr>"

definition sample_policies :: journal_db where
  "sample_policies = sample_thread\<lparr>db_thread_events := db_thread_events sample_thread @ [sample_decision]\<rparr>"

lemma sample_valid: "validate_thread_envelope sample_env (created_event (''t'', ''c'') (Some ''/w'') ''now'' False sample_owner) = Inr ()"
  "validate_thread_envelope sample_env sample_decision = Inr ()"
  by code_simp+

lemma sample_created: "create_thread sample_env (''t'', ''c'') ''/w'' ''now'' sample_owner empty_journal = Inr (''t'', sample_thread)"
  using sample_valid(1) by (simp add: create_thread_def append_thread_created_with_provenance_def insert_thread_event_def sample_thread_def Let_def
    require_def attach_profile_def) (simp add: sample_owner_def created_event_def empty_journal_def)

lemma sample_decided: "append_thread_permission_policy_decided sample_env (\<lambda>_. JObject []) ''d'' 1 ''t'' sample_policy ''now''
    sample_owner sample_thread = Inr sample_policies"
  using sample_valid(2) by (simp add: append_thread_permission_policy_decided_def append_thread_event_def checked_add_def last_thread_seq_def
    thread_rows_def thread_deleted_def insert_thread_event_def sample_policies_def sample_thread_def Let_def empty_journal_def
    require_def created_event_def validate_thread_policy_append_def sample_decision_def sample_env_def)

lemma sample_policies_reachable: "journal_reachable sample_env sample_policies"
  by (rule journal_reachable.step [OF journal_reachable.step [OF journal_reachable.start journal_step.new_thread [OF sample_created]]
    journal_step.thread_event [OF sample_decided [unfolded append_thread_permission_policy_decided_def]]])

theorem remembered_policies_exact_witness:
  "\<exists>r. lookup_thread_permission_policy sample_env sample_policies ''t'' KCommand (RCommand [''ls''] ''/w'') = Inr (Some r)
    \<and> in_force sample_env (policy_log sample_policies ''t'') r"
proof -
  have log: "policy_log sample_policies ''t'' = [sample_decision]"
    by (simp add: policy_log_def thread_rows_def sample_policies_def sample_thread_def policy_event_def created_event_def
      sample_decision_def empty_journal_def)
  have "decides sample_env sample_decision sample_policy" by (simp add: decides_def sample_decision_def sample_env_def)
  then have "in_force sample_env (policy_log sample_policies ''t'') sample_policy"
    unfolding log using in_force_snoc [of sample_env "[]"] by simp
  moreover have "\<not> thread_deleted sample_policies ''t''"
    by (simp add: thread_deleted_def thread_rows_def sample_policies_def sample_thread_def created_event_def sample_decision_def empty_journal_def)
  ultimately show ?thesis
    using remembered_policies_exact [OF sample_policies_reachable, of "''t''" "pd_kind sample_policy" "pd_resource sample_policy"]
    by (auto simp: sample_policy_def split: option.splits)
qed

end
