(* ===== verification/Live_Chat.thy ===== *)
theory Live_Chat
  imports Journal_History Projection_Properties
begin

text \<open>
  The live chat and the journal together. \<open>append_run_event_in_place\<close> (\<open>journal/run_append.rs\<close>) folds an event into the projector, writes it to the journal, and takes the projector
  back when the write fails. What it needs of the journal is the locale \<open>event_log\<close>; the journal's append
  interprets it. The two ways to show a run, the projector and the thread tables, then agree.
\<close>

section \<open>What the projector needs of a journal\<close>

locale event_log =
  fixes ok :: "'j \<Rightarrow> bool"
    and store :: "'j \<Rightarrow> u64 \<Rightarrow> event_envelope \<Rightarrow> 'err + 'j"
    and events_of :: "'j \<Rightarrow> string \<Rightarrow> event_envelope list"
  assumes store_ok: "ok j \<Longrightarrow> valid_texts e \<Longrightarrow> store j n e = Inr j' \<Longrightarrow> ok j'"
    and store_events: "ok j \<Longrightarrow> valid_texts e \<Longrightarrow> store j n e = Inr j'
      \<Longrightarrow> e_run_seq e = of_nat (length (events_of j (e_run_id e))) + 1
      \<Longrightarrow> events_of j' run = events_of j run @ (if run = e_run_id e then [e] else [])"

text \<open>A projector in step with the events of a run.\<close>

definition in_step :: "payload_reader \<Rightarrow> event_envelope list \<Rightarrow> 'd chat_projector \<Rightarrow> bool" where
  "in_step rd es p \<longleftrightarrow> reducer_applies rd reducer_new es = Inr (pj_reducer p)
     \<and> cp_text (pj_chat p) = concat (map delta_text es) \<and> running_ok p"

text \<open>Attempts to append, one after the other, with the errors left to the caller.\<close>

fun attempts :: "payload_reader \<Rightarrow> ('j \<Rightarrow> u64 \<Rightarrow> event_envelope \<Rightarrow> 'err + 'j) \<Rightarrow> 'j \<Rightarrow> 'd chat_projector \<Rightarrow> event_envelope list
    \<Rightarrow> 'j \<times> 'd chat_projector" where
  "attempts rd store j p [] = (j, p)"
| "attempts rd store j p (e # es) = (case append_run_event_in_place rd store j p e of (_, j, p) \<Rightarrow> attempts rd store j p es)"

lemma reducer_applies_snoc: "reducer_applies rd r (es @ [e]) = result_bind (reducer_applies rd r es) (\<lambda>r. reducer_apply rd r e)"
proof (induction es arbitrary: r)
  case Nil
  show ?case by (cases "reducer_apply rd r e") simp_all
next
  case (Cons x es)
  show ?case by (cases "reducer_apply rd r x") (simp_all add: Cons.IH)
qed

lemma in_step_new: "in_step rd [] projector_new"
  by (simp add: in_step_def projector_new_ok) (simp add: projector_new_def chat_default_def)

lemma in_step_next:
  assumes "in_step rd es p" "chat_apply rd p e = (p', Inr u)"
  shows "in_step rd (es @ [e]) p'" "e_run_seq e = of_nat (length es) + 1"
proof -
  obtain r where r: "reducer_apply rd (pj_reducer p) e = Inr r" "pj_reducer p' = r" using assms(2) by (rule chat_apply_InrD)
  with assms show "in_step rd (es @ [e]) p'"
    using apply_text [OF assms(2)] running_step [OF assms(2)] by (simp add: in_step_def reducer_applies_snoc)
  have "expected_seq (pj_reducer p) = of_nat (1 + length es)"
    using assms(1) by (intro applies_last [of rd reducer_new es]) (simp_all add: in_step_def reducer_new_ok)
  moreover have "e_run_seq e = expected_seq (pj_reducer p)"
    using r(1) by (auto simp: reducer_apply_def result_bind_Inr_iff precheck_def split: if_splits)
  ultimately show "e_run_seq e = of_nat (length es) + 1" by (simp add: add.commute)
qed

lemma in_step_restored: "in_step rd es p \<Longrightarrow> in_step rd es (restore (checkpoint p e) (fst (chat_apply rd p e)))"
  using restorable_restore [OF restorable_apply [of e p rd]] by (simp add: in_step_def running_ok_def unkept_def)

context event_log
begin

lemma attempt_in_step:
  assumes "ok j" "in_step rd (events_of j run) p" "valid_texts e" "e_run_id e = run"
    "append_run_event_in_place rd store j p e = (r, j', p')"
  shows "ok j' \<and> in_step rd (events_of j' run) p'"
proof (cases "chat_apply rd p e")
  case (Pair q v)
  show ?thesis
  proof (cases v)
    case (Inl err)
    with Pair assms in_step_restored [OF assms(2), of e] show ?thesis by (simp add: append_run_event_in_place_def)
  next
    case (Inr u)
    note nxt = in_step_next [OF assms(2) Pair [unfolded Inr]]
    show ?thesis
    proof (cases "store j (saturating_sub (e_run_seq e) 1) e")
      case (Inl err)
      with Pair Inr assms in_step_restored [OF assms(2), of e] show ?thesis by (simp add: append_run_event_in_place_def)
    next
      case (Inr k)
      then have "j' = k" "p' = q" using Pair \<open>v = Inr u\<close> assms(5) by (simp_all add: append_run_event_in_place_def)
      with nxt assms(4) store_ok [OF assms(1,3) Inr] store_events [OF assms(1,3) Inr] show ?thesis by simp
    qed
  qed
qed

lemma attempts_in_step:
  assumes "ok j" "in_step rd (events_of j run) p" "list_all valid_texts es" "list_all (\<lambda>e. e_run_id e = run) es"
    "attempts rd store j p es = (j', p')"
  shows "ok j' \<and> in_step rd (events_of j' run) p'"
  using assms
proof (induction es arbitrary: j p)
  case (Cons e es)
  obtain r k q where a: "append_run_event_in_place rd store j p e = (r, k, q)" by (metis prod_cases3)
  have "ok k \<and> in_step rd (events_of k run) q" using attempt_in_step [OF Cons.prems(1,2) _ _ a] Cons.prems(3,4) by simp
  moreover have "attempts rd store k q es = (j', p')" using Cons.prems(5) a by simp
  ultimately show ?case using Cons.IH [of k q] Cons.prems(3,4) by simp
qed simp

end

section \<open>The journal is one\<close>

text \<open>The canonical text of an event tells its run and its number.\<close>

definition canon_tells :: "journal_env \<Rightarrow> bool" where
  "canon_tells env \<longleftrightarrow> (\<forall>x y. je_canon env x = je_canon env y \<longrightarrow> e_run_id x = e_run_id y \<and> e_run_seq x = e_run_seq y)"

definition journal_fine :: "journal_env \<times> journal_db \<Rightarrow> bool" where
  "journal_fine j \<longleftrightarrow> canon_tells (fst j) \<and> journal_ok (snd j)"

text \<open>The journal with its environment as one state; \<open>draw\<close> gives the ids of a thread the append may have to make.\<close>

definition journal_write :: "(journal_db \<Rightarrow> thread_ids) \<Rightarrow> journal_env \<times> journal_db \<Rightarrow> u64 \<Rightarrow> event_envelope
    \<Rightarrow> journal_error + journal_env \<times> journal_db" where
  "journal_write draw j n e =
     (case journal_append (fst j) (draw (snd j)) n e (snd j) of
        None \<Rightarrow> Inl Sqlite
      | Some r \<Rightarrow> result_bind r (\<lambda>db. Inr (fst j, db)))"

definition journal_run :: "journal_env \<times> journal_db \<Rightarrow> string \<Rightarrow> event_envelope list" where
  "journal_run j run = run_events (snd j) run"

lemma journal_write_Inr: "journal_write draw j n e = Inr j' \<longleftrightarrow>
    (\<exists>db. append_batch (fst j) (draw (snd j)) n [e] (snd j) = Some (Inr db) \<and> j' = (fst j, db))"
  by (auto simp: journal_write_def journal_append_def result_bind_Inr_iff split: option.splits)

lemma attempts_env: "attempts rd (journal_write draw) j p es = (j', p') \<Longrightarrow> fst j' = fst j"
proof (induction es arbitrary: j p)
  case (Cons e es)
  obtain r k q where a: "append_run_event_in_place rd (journal_write draw) j p e = (r, k, q)" by (metis prod_cases3)
  then have "fst k = fst j"
    by (auto simp: append_run_event_in_place_def Let_def journal_write_Inr split: prod.splits sum.splits)
  with Cons a show ?case by simp
qed simp

lemma stored_number:
  assumes "journal_ok db" "all_existing env db [e] = Inr True" "canon_tells env"
  shows "e_run_seq e \<noteq> of_nat (length (run_events db (e_run_id e))) + 1"
proof
  assume n: "e_run_seq e = of_nat (length (run_events db (e_run_id e))) + 1"
  obtain x where x: "find (\<lambda>x. e_event_id x = e_event_id e) (db_events db) = Some x" "je_canon env x = je_canon env e"
    using assms(2) by (auto split: option.splits if_splits)
  then have "x \<in> set (db_events db)" by (metis (mono_tags, lifting) find_Some_iff nth_mem)
  moreover have "e_run_id x = e_run_id e" "e_run_seq x = e_run_seq e" using assms(3) x(2) unfolding canon_tells_def by blast+
  ultimately have "x \<in> set (run_events db (e_run_id e))" by (simp add: run_events_def)
  then obtain i where i: "i < length (run_events db (e_run_id e))" "run_events db (e_run_id e) ! i = x" by (auto simp: in_set_conv_nth)
  note c = reachable_counted [OF assms(1), of "e_run_id e"]
  have "(of_nat (Suc i) :: u64) = of_nat (Suc (length (run_events db (e_run_id e))))"
    using counted_nth [OF c i(1)] i(2) n \<open>e_run_seq x = e_run_seq e\<close> by (simp add: add.commute)
  moreover have "length (run_events db (e_run_id e)) < 2 ^ 64" using c by (simp add: counted_def)
  ultimately have "(of_nat i :: u64) = of_nat (length (run_events db (e_run_id e)))" by simp
  with i(1) \<open>length (run_events db (e_run_id e)) < 2 ^ 64\<close> show False
    using of_nat_u64_inj [of i "length (run_events db (e_run_id e))"] by linarith
qed

interpretation journal: event_log journal_fine "journal_write draw" journal_run
proof unfold_locales
  fix j :: "journal_env \<times> journal_db" and j' e n run
  assume a: "journal_fine j" "valid_texts e" "journal_write draw j n e = Inr j'"
  then obtain db where db: "append_batch (fst j) (draw (snd j)) n [e] (snd j) = Some (Inr db)" "j' = (fst j, db)"
    by (auto simp: journal_write_Inr)
  have ok: "journal_ok (snd j)" "list_all valid_texts [e]" using a by (simp_all add: journal_fine_def)
  note app = journal_append_batch [OF ok(1) db(1) ok(2)]
  with a(1) db(2) show "journal_fine j'" by (simp add: journal_fine_def)
  assume n: "e_run_seq e = of_nat (length (journal_run j (e_run_id e))) + 1"
  then have "all_existing (fst j) (snd j) [e] \<noteq> Inr True"
    using stored_number [OF ok(1)] a(1) by (auto simp: journal_fine_def journal_run_def)
  then have "db_events db = db_events (snd j) @ [e]" using batch_events [OF db(1)] by simp
  then show "journal_run j' run = journal_run j run @ (if run = e_run_id e then [e] else [])"
    by (simp add: journal_run_def run_events_def db(2))
qed

section \<open>Two views of one run\<close>

lemma delta_is_stream_text: "delta_text = stream_text"
  by (auto simp: fun_eq_iff delta_text_def stream_text_def field_def optional_field_def payload_def inline_text_def split: event_payload.splits option.splits)

text \<open>C5: However many events of a run are appended through a live projector, and whichever of the appends fail, the
  projector ends in step with what the journal stored: its state is the reduction of the stored events, the
  tool calls it shows as running are the journal's open effects, and its text is the reply the thread tables
  show for the run.\<close>

theorem live_chat_matches_journal:
  fixes p :: "'d chat_projector"
  assumes "journal_reachable env db" "canon_tells env" "run_events db run = []"
    "list_all valid_texts es" "list_all (\<lambda>e. e_run_id e = run) es"
    "attempts rd (journal_write draw) (env, db) projector_new es = ((env', db'), p)"
  shows "reducer_applies rd reducer_new (run_events db' run) = Inr (pj_reducer p)
    \<and> running_ids (cp_activity (pj_chat p)) = open_effects (run_events db' run)
    \<and> cp_text (pj_chat p) = reply (db_projection db') run"
proof -
  have fine: "journal_fine (env, db)" using assms(2) reachable_ok [OF assms(1)] by (simp add: journal_fine_def)
  have "in_step rd (journal_run (env, db) run) (projector_new :: 'd chat_projector)"
    using in_step_new by (simp add: journal_run_def assms(3))
  from journal.attempts_in_step [OF fine this assms(4,5,6)]
  have ok: "journal_ok db'" and st: "in_step rd (run_events db' run) p" by (simp_all add: journal_fine_def journal_run_def)
  have red: "reducer_applies rd reducer_new (run_events db' run) = Inr (pj_reducer p)" using st by (simp add: in_step_def)
  moreover have "rr_effects (pj_reducer p) = open_effects (run_events db' run)"
    using applies_ok [OF red reducer_new_ok(1)] by (simp add: open_effects_def reducer_new_ok(3))
  moreover have "reply (db_projection db') run = concat (map stream_text (run_events db' run))"
    using ok by (simp add: journal_ok_def core_ok_def shows_journal_def)
  ultimately show ?thesis using st by (simp add: in_step_def running_ok_def delta_is_stream_text)
qed

lemma sample_canon: "canon_tells sample_env"
  unfolding canon_tells_def
proof (intro allI impI)
  fix x y
  assume "je_canon sample_env x = je_canon sample_env y"
  from arg_cong [OF this, of read_unary] show "e_run_id x = e_run_id y \<and> e_run_seq x = e_run_seq y" by (simp add: sample_env_def word_unat_eq_iff)
qed

theorem live_chat_matches_journal_witness:
  "\<exists>db' p. attempts sample_payloads (journal_write (\<lambda>_. (''t'', ''c''))) (sample_env, empty_journal) (projector_new :: unit chat_projector)
      sample_batch = ((sample_env, db'), p)
    \<and> cp_text (pj_chat p) = reply (db_projection db') ''r''"
proof -
  obtain env' db' p where a: "attempts sample_payloads (journal_write (\<lambda>_. (''t'', ''c''))) (sample_env, empty_journal)
      (projector_new :: unit chat_projector) sample_batch = ((env', db'), p)" by (metis prod_cases3 surj_pair)
  have r: "run_events empty_journal ''r'' = []" "list_all (\<lambda>e. e_run_id e = ''r'') sample_batch"
    by (simp_all add: run_events_def empty_journal_def sample_batch_def sample_event_def)
  have "env' = sample_env" using attempts_env [OF a] by simp
  with a live_chat_matches_journal [OF journal_reachable.start sample_canon r(1) sample_texts r(2) a] show ?thesis by blast
qed

end
