(* ===== verification/Thread_Sync.thy ===== *)
theory Thread_Sync
  imports Journal_Replica
begin

text \<open>
  Replication of threads between the runtimes of a swarm (\<open>swarm/sync.rs\<close>): the index of the events a member wrote
  or copied, the scan that indexes its journal, the export of what a peer lacks and the import of what it sent.
  The index is the tables of \<open>swarm/store.rs\<close> the replication uses, with the trigger that numbers thread
  versions; a member is its journal and its index. SQLite failures are left out. The JSON of envelopes, the
  prompts kept outside the journal, the budget cost of an event, the registrations and the presence of a blob
  are the arguments of \<open>sync_env\<close>.
\<close>

section \<open>Index\<close>

record log_row =
  lg_thread :: string
  lg_origin :: string
  lg_seq :: u64
  lg_kind :: string
  lg_event :: string
  lg_run :: "string option"
  lg_run_seq :: "u64 option"
  lg_type :: string

record indexed_run =
  ir_run :: string
  ir_thread :: string
  ir_origin :: string
  ir_indexed :: u64

record blob_row =
  bl_hash :: string
  bl_thread :: string
  bl_total :: u64
  bl_requested :: bool

record swarm_index =
  sx_log :: "log_row list"
  sx_runs :: "indexed_run list"
  sx_marks :: "(string \<times> u64) list"
  sx_versions :: "(string \<times> int) list"
  sx_activity :: "(string \<times> string) list"
  sx_blobs :: "blob_row list"

definition empty_index :: swarm_index where
  "empty_index = \<lparr>sx_log = [], sx_runs = [], sx_marks = [], sx_versions = [], sx_activity = [], sx_blobs = []\<rparr>"

text \<open>An upsert of a two-column table keyed by its first column.\<close>

definition upsert_pair :: "('v \<Rightarrow> 'v) \<Rightarrow> string \<Rightarrow> 'v \<Rightarrow> (string \<times> 'v) list \<Rightarrow> (string \<times> 'v) list" where
  "upsert_pair f k v t = (if k \<in> fst ` set t then map (\<lambda>(k', w). if k' = k then (k', f w) else (k', w)) t else t @ [(k, v)])"

text \<open>\<open>INSERT OR IGNORE INTO log\<close>, with its two keys and the trigger that gives the thread the next version.\<close>

definition newest_version :: "swarm_index \<Rightarrow> int" where
  "newest_version sx = foldl max 0 (map snd (sx_versions sx))"

definition log_taken :: "log_row \<Rightarrow> log_row \<Rightarrow> bool" where
  "log_taken r x \<longleftrightarrow> (lg_thread x = lg_thread r \<and> lg_origin x = lg_origin r \<and> lg_seq x = lg_seq r) \<or> lg_event x = lg_event r"

definition insert_log :: "log_row \<Rightarrow> swarm_index \<Rightarrow> swarm_index" where
  "insert_log r sx =
     (if list_ex (log_taken r) (sx_log sx) then sx
      else let v = newest_version sx + 1 in
        sx\<lparr>sx_log := sx_log sx @ [r], sx_versions := upsert_pair (\<lambda>_. v) (lg_thread r) v (sx_versions sx)\<rparr>)"

definition note_activity :: "string \<Rightarrow> string \<Rightarrow> swarm_index \<Rightarrow> swarm_index" where
  "note_activity thread at sx = sx\<lparr>sx_activity := upsert_pair (\<lambda>old. max old at) thread at (sx_activity sx)\<rparr>"

definition origin_rows :: "swarm_index \<Rightarrow> string \<Rightarrow> string \<Rightarrow> log_row list" where
  "origin_rows sx thread origin = filter (\<lambda>r. lg_thread r = thread \<and> lg_origin r = origin) (sx_log sx)"

definition sync_next_seq :: "swarm_index \<Rightarrow> string \<Rightarrow> string \<Rightarrow> u64" where
  "sync_next_seq sx thread origin = foldl max 0 (map lg_seq (origin_rows sx thread origin)) + 1"

section \<open>Clocks\<close>

definition clock_of :: "swarm_index \<Rightarrow> string \<Rightarrow> (string \<times> u64) list" where
  "clock_of sx thread =
     (let rows = filter (\<lambda>r. lg_thread r = thread) (sx_log sx)
      in map (\<lambda>origin. (origin, foldl max 0 (map lg_seq (filter (\<lambda>r. lg_origin r = origin) rows))))
           (sort (remdups (map lg_origin rows))))"

definition thread_clocks :: "swarm_index \<Rightarrow> (string \<times> (string \<times> u64) list) list" where
  "thread_clocks sx = map (\<lambda>t. (t, clock_of sx t)) (sort (remdups (map lg_thread (sx_log sx))))"

definition versions_after :: "swarm_index \<Rightarrow> int \<Rightarrow> (string \<times> int) list" where
  "versions_after sx base = sort_key snd (filter (\<lambda>v. snd v > base) (sx_versions sx))"

definition exchange_budget :: nat where "exchange_budget = 448 * 1024"
definition envelope_items :: nat where "envelope_items = 256"

definition item_bytes :: nat where
  "item_bytes = exchange_budget div ((max_json_strings - envelope_items) div 2)"

definition item_cost :: "nat \<Rightarrow> nat \<Rightarrow> nat" where
  "item_cost bytes items = max bytes (min (items * item_bytes) (2 ^ 64 - 1))"

fun take_clocks :: "swarm_index \<Rightarrow> (string \<times> int) list \<Rightarrow> int \<Rightarrow> nat
    \<Rightarrow> ((string \<times> (string \<times> u64) list) list \<times> int \<times> bool) \<times> nat" where
  "take_clocks sx [] mark budget = (([], mark, True), budget)"
| "take_clocks sx ((thread, version) # vs) mark budget =
     (let clock = clock_of sx thread;
          size = item_cost (length thread + 8 + sum_list (map (\<lambda>c. length (fst c) + 16) clock)) (1 + length clock)
      in if size > budget then (([], mark, False), budget)
         else (case take_clocks sx vs version (budget - size) of
                 ((clocks, mark, done), budget) \<Rightarrow> (((thread, clock) # clocks, mark, done), budget)))"

definition clock_delta :: "swarm_index \<Rightarrow> int \<Rightarrow> nat \<Rightarrow> ((string \<times> (string \<times> u64) list) list \<times> int \<times> bool) \<times> nat" where
  "clock_delta sx base budget = take_clocks sx (versions_after sx base) base budget"

section \<open>Scan\<close>

definition swarm_origin :: string where "swarm_origin = ''swarm_origin''"

definition replicated_thread_events :: "string list" where
  "replicated_thread_events = [''thread.message.posted'', ''thread.message.consumed'', ''thread.title.renamed'',
     ''thread.deleted'', ''thread.permission.mode.set'', ''thread.rewound'']"

definition origin_of :: "event_envelope \<Rightarrow> string option" where
  "origin_of e = Option.bind (map_of (pv_extra (e_provenance e)) swarm_origin) as_str"

record member =
  mb_journal :: journal_db
  mb_index :: swarm_index

text \<open>The runs of the thread the index does not know, with where each comes from and how far it counts as indexed.\<close>

definition new_indexed :: "string \<Rightarrow> string \<Rightarrow> journal_db \<Rightarrow> swarm_index \<Rightarrow> indexed_run list" where
  "new_indexed self thread db sx =
     map (\<lambda>(run, lst).
         (let origin = (case Option.bind (run_event db run 1) origin_of of Some x \<Rightarrow> x | None \<Rightarrow> self) in
          \<lparr>ir_run = run, ir_thread = thread, ir_origin = origin, ir_indexed = (if origin = self then 0 else lst)\<rparr>))
       (filter (\<lambda>(run, _). \<not> list_ex (\<lambda>r. ir_run r = run \<and> ir_thread r = thread) (sx_runs sx)) (thread_run_marks db thread))"

definition known_run :: "string \<Rightarrow> string \<Rightarrow> journal_db \<Rightarrow> swarm_index \<Rightarrow> string \<Rightarrow> string \<times> u64" where
  "known_run self thread db sx run =
     (case find (\<lambda>r. ir_run r = run) (filter (\<lambda>r. ir_thread r = thread) (sx_runs sx) @ new_indexed self thread db sx) of
        Some r \<Rightarrow> (ir_origin r, ir_indexed r)
      | None \<Rightarrow> (self, 0))"

text \<open>The events of this runtime's own runs past what is indexed.\<close>

definition unindexed :: "string \<Rightarrow> string \<Rightarrow> journal_db \<Rightarrow> swarm_index \<Rightarrow> (string \<times> event_envelope list) list" where
  "unindexed self thread db sx =
     List.map_filter (\<lambda>(run, lst).
         (case known_run self thread db sx run of (origin, indexed) \<Rightarrow>
            if origin = self \<and> lst > indexed then Some (run, run_events_after db run indexed 1000) else None))
       (thread_run_marks db thread)"

definition insert_indexed :: "indexed_run \<Rightarrow> swarm_index \<Rightarrow> swarm_index" where
  "insert_indexed r sx = (if list_ex (\<lambda>x. ir_run x = ir_run r) (sx_runs sx) then sx else sx\<lparr>sx_runs := sx_runs sx @ [r]\<rparr>)"

definition set_indexed :: "string \<Rightarrow> u64 \<Rightarrow> swarm_index \<Rightarrow> swarm_index" where
  "set_indexed run n sx = sx\<lparr>sx_runs := map (\<lambda>r. if ir_run r = run then r\<lparr>ir_indexed := n\<rparr> else r) (sx_runs sx)\<rparr>"

definition index_run_event :: "string \<Rightarrow> string \<Rightarrow> string \<Rightarrow> event_envelope \<Rightarrow> swarm_index \<Rightarrow> swarm_index" where
  "index_run_event self thread run e sx =
     insert_log \<lparr>lg_thread = thread, lg_origin = self, lg_seq = sync_next_seq sx thread self, lg_kind = ''run'',
       lg_event = e_event_id e, lg_run = Some run, lg_run_seq = Some (e_run_seq e), lg_type = e_type e\<rparr> sx"

definition index_run :: "string \<Rightarrow> string \<Rightarrow> string \<times> event_envelope list \<Rightarrow> swarm_index \<Rightarrow> swarm_index" where
  "index_run self thread re sx =
     (let sx = fold (index_run_event self thread (fst re)) (snd re) sx
      in if snd re = [] then sx else set_indexed (fst re) (e_run_seq (last (snd re))) sx)"

definition indexed_thread_event :: "thread_event \<Rightarrow> bool" where
  "indexed_thread_event e \<longleftrightarrow> map_of (pv_extra (tv_provenance e)) swarm_origin = None \<and> tv_type e \<in> set replicated_thread_events"

definition index_thread_event :: "string \<Rightarrow> string \<Rightarrow> thread_event \<Rightarrow> swarm_index \<Rightarrow> swarm_index" where
  "index_thread_event self thread e sx =
     insert_log \<lparr>lg_thread = thread, lg_origin = self, lg_seq = sync_next_seq sx thread self, lg_kind = ''thread'',
       lg_event = tv_event_id e, lg_run = None, lg_run_seq = None, lg_type = tv_type e\<rparr> sx"

definition newest_at :: "string list \<Rightarrow> string option" where
  "newest_at ats = (case ats of [] \<Rightarrow> None | at # ats \<Rightarrow> Some (foldl max at ats))"

definition scan_thread :: "string \<Rightarrow> string \<Rightarrow> member \<Rightarrow> bool \<times> member" where
  "scan_thread self thread mb =
     (let db = mb_journal mb; sx = mb_index mb;
          mark = (case map_of (sx_marks sx) thread of None \<Rightarrow> 1 | Some m \<Rightarrow> m)
      in if \<not> thread_exists db thread then (False, mb)
         else
           (let runs = unindexed self thread db sx;
                tes = thread_events_after db thread mark;
                own = filter indexed_thread_event tes;
                sx1 = fold insert_indexed (new_indexed self thread db sx) sx;
                sx2 = fold (index_run self thread) runs sx1;
                sx3 = fold (index_thread_event self thread) own sx2;
                scanned = foldl max mark (map tv_seq tes);
                sx4 = sx3\<lparr>sx_marks := upsert_pair (\<lambda>_. scanned) thread scanned (sx_marks sx3)\<rparr>;
                sx5 = (case newest_at (map e_recorded_at (concat (map snd runs)) @ map tv_recorded_at own) of
                         None \<Rightarrow> sx4 | Some at \<Rightarrow> note_activity thread at sx4)
            in (True, mb\<lparr>mb_index := sx5\<rparr>)))"

section \<open>Export\<close>

record replicated_event =
  rv_thread :: string
  rv_origin :: string
  rv_seq :: u64
  rv_kind :: string
  rv_envelope :: json
  rv_prompt :: "string option"

record replica_scope =
  sc_workspace :: string
  sc_profile :: string
  sc_subject :: "string option"

record sync_env =
  sy_journal :: journal_env
  sy_print_run :: "event_envelope \<Rightarrow> json"
  sy_parse_run :: "json \<Rightarrow> event_envelope option"
  sy_print_thread :: "thread_event \<Rightarrow> json"
  sy_parse_thread :: "json \<Rightarrow> thread_event option"
  sy_prompt :: "string \<Rightarrow> string option"
  sy_cost :: "replicated_event \<Rightarrow> nat"
  sy_registered :: "string \<Rightarrow> bool"
  sy_has_blob :: "string \<Rightarrow> bool"
  sy_all_blobs :: bool
  sy_version :: string

definition max_rows_per_origin :: nat where "max_rows_per_origin = 400"

text \<open>The envelope and prompt of an indexed event, unless the journal no longer holds it.\<close>

definition exported :: "sync_env \<Rightarrow> journal_db \<Rightarrow> log_row \<Rightarrow> (json \<times> string option) option" where
  "exported env db r =
     (case (lg_run r, lg_run_seq r) of
        (Some run, Some seq) \<Rightarrow>
          if lg_kind r = ''run''
          then map_option (\<lambda>e. (sy_print_run env e, if seq = 1 then sy_prompt env run else None)) (run_event db run seq)
          else map_option (\<lambda>e. (sy_print_thread env e, None)) (thread_event_by_id db (lg_event r))
      | _ \<Rightarrow> map_option (\<lambda>e. (sy_print_thread env e, None)) (thread_event_by_id db (lg_event r)))"

fun export_loop :: "sync_env \<Rightarrow> journal_db \<Rightarrow> string \<Rightarrow> string \<Rightarrow> log_row list \<Rightarrow> nat \<Rightarrow> bool \<times> replicated_event list \<times> nat" where
  "export_loop env db thread origin [] budget = (True, [], budget)"
| "export_loop env db thread origin (r # rows) budget =
     (case exported env db r of
        None \<Rightarrow> (True, [], budget)
      | Some (envelope, prompt) \<Rightarrow>
          (let e = \<lparr>rv_thread = thread, rv_origin = origin, rv_seq = lg_seq r, rv_kind = lg_kind r, rv_envelope = envelope,
             rv_prompt = prompt\<rparr>
           in if sy_cost env e > budget then (False, [], budget)
              else (case export_loop env db thread origin rows (budget - sy_cost env e) of
                      (fits, es, budget) \<Rightarrow> (fits, e # es, budget))))"

definition export_rows :: "sync_env \<Rightarrow> member \<Rightarrow> string \<Rightarrow> string \<Rightarrow> u64 \<Rightarrow> nat \<Rightarrow> bool \<times> replicated_event list \<times> nat" where
  "export_rows env mb thread origin known budget =
     export_loop env (mb_journal mb) thread origin
       (take max_rows_per_origin (sort_key lg_seq (filter (\<lambda>r. lg_seq r > known) (origin_rows (mb_index mb) thread origin)))) budget"

text \<open>Where the export to one peer stands.\<close>

record export_state =
  xs_mark :: int
  xs_lagging :: "string list"

fun export_origins :: "sync_env \<Rightarrow> member \<Rightarrow> string \<Rightarrow> (string \<Rightarrow> u64) \<Rightarrow> (string \<times> u64) list \<Rightarrow> nat
    \<Rightarrow> bool \<times> replicated_event list \<times> nat" where
  "export_origins env mb thread known [] budget = (True, [], budget)"
| "export_origins env mb thread known ((origin, held) # mine) budget =
     (if held \<le> known origin then export_origins env mb thread known mine budget
      else (case export_rows env mb thread origin (known origin) budget of
              (False, es, budget) \<Rightarrow> (False, es, budget)
            | (True, es, budget) \<Rightarrow>
                (case export_origins env mb thread known mine budget of (fits, es', budget) \<Rightarrow> (fits, es @ es', budget))))"

fun export_threads :: "sync_env \<Rightarrow> member \<Rightarrow> (string \<Rightarrow> string \<Rightarrow> u64) \<Rightarrow> (string \<Rightarrow> string \<Rightarrow> bool) \<Rightarrow> (string \<Rightarrow> bool)
    \<Rightarrow> string list \<Rightarrow> nat \<Rightarrow> replicated_event list \<times> string list \<times> bool \<times> nat" where
  "export_threads env mb theirs allow wants [] budget = ([], [], False, budget)"
| "export_threads env mb theirs allow wants (t # ts) budget =
     (let mine = filter (\<lambda>c. allow t (fst c)) (clock_of (mb_index mb) t) in
      if list_all (\<lambda>c. snd c \<le> theirs t (fst c)) mine \<or> \<not> wants t then export_threads env mb theirs allow wants ts budget
      else (case export_origins env mb t (theirs t) mine budget of
              (False, es, budget) \<Rightarrow> (es, t # ts, True, budget)
            | (True, es, budget) \<Rightarrow>
                (case export_threads env mb theirs allow wants ts budget of
                   (es', lagging, rest, budget) \<Rightarrow> (es @ es', t # lagging, rest, budget))))"

text \<open>\<open>theirs\<close> is the peer's clock, 0 for what it does not name; \<open>wants\<close> is the peer's window.\<close>

definition export :: "sync_env \<Rightarrow> member \<Rightarrow> (string \<Rightarrow> string \<Rightarrow> u64) \<Rightarrow> (string \<Rightarrow> string \<Rightarrow> bool) \<Rightarrow> (string \<Rightarrow> bool)
    \<Rightarrow> export_state \<Rightarrow> nat \<Rightarrow> (replicated_event list \<times> bool) \<times> export_state \<times> nat" where
  "export env mb theirs allow wants st budget =
     (let vs = versions_after (mb_index mb) (xs_mark st);
          candidates = xs_lagging st @ filter (\<lambda>t. t \<notin> set (xs_lagging st)) (map fst vs)
      in case export_threads env mb theirs allow wants candidates budget of
           (es, lagging, rest, budget) \<Rightarrow>
             ((es, rest), \<lparr>xs_mark = foldl max (xs_mark st) (map snd vs), xs_lagging = sort (remdups lagging)\<rparr>, budget))"

section \<open>Import\<close>

datatype sync_error = JournalFailed journal_error | InvalidRunEvent | InvalidThreadEvent | OtherThread | NoWorkspace | UnknownKind

record logged =
  lo_event :: string
  lo_run :: "string option"
  lo_run_seq :: "u64 option"
  lo_type :: string

text \<open>An insert into the sorted map of a provenance's other fields.\<close>

fun put_key :: "string \<Rightarrow> 'v \<Rightarrow> (string \<times> 'v) list \<Rightarrow> (string \<times> 'v) list" where
  "put_key k v [] = [(k, v)]"
| "put_key k v ((k', v') # xs) =
     (if k = k' then (k, v) # xs else if k < k' then (k, v) # (k', v') # xs else (k', v') # put_key k v xs)"

definition with_extra :: "string \<Rightarrow> json \<Rightarrow> provenance \<Rightarrow> provenance" where
  "with_extra k v pv = pv\<lparr>pv_extra := put_key k v (pv_extra pv)\<rparr>"

definition local_provenance :: "sync_env \<Rightarrow> replica_scope option \<Rightarrow> string \<Rightarrow> provenance" where
  "local_provenance env scope profile = \<lparr>pv_source = ''muniment-swarm'', pv_source_version = sy_version env,
     pv_actor_id = Option.bind scope sc_subject, pv_device_id = None, pv_rpc_request_id = None,
     pv_capability_versions = None, pv_extra = [(''attach_profile'', JString profile)]\<rparr>"

definition ensure_thread :: "sync_env \<Rightarrow> string \<Rightarrow> string \<Rightarrow> replica_scope option \<Rightarrow> string \<Rightarrow> journal_db \<Rightarrow> journal_error + bool \<times> journal_db" where
  "ensure_thread env event_id thread scope at db =
     (if thread_exists db thread then Inr (True, db)
      else if thread_deleted db thread then Inr (False, db)
      else (case scope of
              None \<Rightarrow> Inr (False, db)
            | Some sc \<Rightarrow>
                result_bind (create_thread_with_id (sy_journal env) event_id thread (sc_workspace sc) at
                  (local_provenance env scope (sc_profile sc)) db) (\<lambda>(_, db). Inr (True, db))))"

definition note_blob :: "sync_env \<Rightarrow> event_envelope \<Rightarrow> string \<Rightarrow> swarm_index \<Rightarrow> swarm_index" where
  "note_blob env e thread sx =
     (case (case e_payload e of
              Cas c \<Rightarrow> Some (cr_sha256 c, cr_bytes c) | Attached a \<Rightarrow> Some (at_sha256 a, at_bytes a) | Inline _ \<Rightarrow> None) of
        None \<Rightarrow> sx
      | Some (hash, len) \<Rightarrow>
          if sy_has_blob env hash \<or> list_ex (\<lambda>b. bl_hash b = hash) (sx_blobs sx) then sx
          else sx\<lparr>sx_blobs := sx_blobs sx @ [\<lparr>bl_hash = hash, bl_thread = thread, bl_total = len, bl_requested = sy_all_blobs env\<rparr>]\<rparr>)"

text \<open>The row of a copied run: new at its first event, or moved back to it.\<close>

definition upsert_run :: "string \<Rightarrow> string \<Rightarrow> string \<Rightarrow> swarm_index \<Rightarrow> swarm_index" where
  "upsert_run run thread origin sx =
     (if list_ex (\<lambda>r. ir_run r = run) (sx_runs sx) then set_indexed run 1 sx
      else sx\<lparr>sx_runs := sx_runs sx @ [\<lparr>ir_run = run, ir_thread = thread, ir_origin = origin, ir_indexed = 1\<rparr>]\<rparr>)"

definition run_logged :: "event_envelope \<Rightarrow> logged" where
  "run_logged e = \<lparr>lo_event = e_event_id e, lo_run = Some (e_run_id e), lo_run_seq = Some (e_run_seq e), lo_type = e_type e\<rparr>"

definition thread_logged :: "thread_event \<Rightarrow> logged" where
  "thread_logged e = \<lparr>lo_event = tv_event_id e, lo_run = None, lo_run_seq = None, lo_type = tv_type e\<rparr>"

text \<open>The copy of a run event belongs to this runtime's owner and names its origin.\<close>

definition copied_run_event :: "replica_scope option \<Rightarrow> string \<Rightarrow> event_envelope \<Rightarrow> event_envelope" where
  "copied_run_event scope origin e =
     e\<lparr>e_provenance := with_extra swarm_origin (JString origin) ((e_provenance e)\<lparr>pv_actor_id := Option.bind scope sc_subject\<rparr>)\<rparr>"

definition in_profile :: "string \<Rightarrow> event_envelope \<Rightarrow> event_envelope" where
  "in_profile profile e = e\<lparr>e_provenance := with_extra ''attach_profile'' (JString profile) (e_provenance e)\<rparr>"

definition copied_thread_event :: "string \<Rightarrow> string \<Rightarrow> thread_event \<Rightarrow> thread_event" where
  "copied_thread_event profile origin e =
     e\<lparr>tv_provenance := with_extra swarm_origin (JString origin) (with_extra ''attach_profile'' (JString profile) (tv_provenance e))\<rparr>"

type_synonym import_outcome = "(sync_error + logged option) \<times> member"

text \<open>What an append of the journal comes to: the member with it, or its error.\<close>

definition stored_run :: "journal_db journal_result \<Rightarrow> event_envelope \<Rightarrow> (swarm_index \<Rightarrow> swarm_index) \<Rightarrow> member \<Rightarrow> import_outcome option" where
  "stored_run r e f mb =
     map_option (\<lambda>r. case r of
         Inl err \<Rightarrow> (Inl (JournalFailed err), mb)
       | Inr db \<Rightarrow> (Inr (Some (run_logged e)), \<lparr>mb_journal = db, mb_index = f (mb_index mb)\<rparr>)) r"

definition import_run_event :: "sync_env \<Rightarrow> thread_ids \<Rightarrow> replicated_event \<Rightarrow> replica_scope option \<Rightarrow> event_envelope \<Rightarrow> member
    \<Rightarrow> import_outcome option" where
  "import_run_event env ids ev scope e mb =
     (let db = mb_journal mb; thread = rv_thread ev; jenv = sy_journal env;
          (workspace, profile) = (case thread_scope db thread of None \<Rightarrow> (None, None) | Some x \<Rightarrow> x)
      in if run_event_exists db (e_event_id e) then Some (Inr (Some (run_logged e)), mb)
         else
           (let c = copied_run_event scope (rv_origin ev) e in
            if e_run_seq c = 1
            then (case workspace of
                    None \<Rightarrow> Some (Inl NoWorkspace, mb)
                  | Some w \<Rightarrow>
                      (let c = in_profile (case profile of None \<Rightarrow> [] | Some p \<Rightarrow> p) c in
                       stored_run (append_new_run_in_thread jenv w thread c db) e
                         (note_blob env c thread \<circ> upsert_run (e_run_id c) thread (rv_origin ev)) mb))
            else
              (let lst = last_run_seq db (e_run_id c) in
               if lst + 1 \<noteq> e_run_seq c then Some (Inr None, mb)
               else stored_run (append_batch jenv ids lst [c] db) e
                 (note_blob env c thread \<circ> set_indexed (e_run_id c) (e_run_seq c)) mb)))"

definition import_thread_event :: "sync_env \<Rightarrow> replicated_event \<Rightarrow> thread_event \<Rightarrow> member \<Rightarrow> import_outcome" where
  "import_thread_event env ev e mb =
     (let db = mb_journal mb;
          profile = (case thread_scope db (rv_thread ev) of Some (_, Some p) \<Rightarrow> p | _ \<Rightarrow> [])
      in if tv_thread e \<noteq> rv_thread ev then (Inl OtherThread, mb)
         else (case append_thread_event_with_id (sy_journal env) (copied_thread_event profile (rv_origin ev) e) db of
                 Inl err \<Rightarrow> (Inl (JournalFailed err), mb)
               | Inr (x, db) \<Rightarrow> (Inr (Some (thread_logged x)), mb\<lparr>mb_journal := db\<rparr>)))"

definition import_one :: "sync_env \<Rightarrow> string \<times> thread_ids \<Rightarrow> string \<Rightarrow> replicated_event \<Rightarrow> replica_scope option \<Rightarrow> member
    \<Rightarrow> import_outcome option" where
  "import_one env ids now ev scope mb =
     (let at = (case Option.bind (jget (rv_envelope ev) ''recorded_at'') as_str of None \<Rightarrow> now | Some at \<Rightarrow> at) in
      case ensure_thread env (fst ids) (rv_thread ev) scope at (mb_journal mb) of
        Inl err \<Rightarrow> Some (Inl (JournalFailed err), mb)
      | Inr (False, db) \<Rightarrow> Some (Inr None, mb\<lparr>mb_journal := db\<rparr>)
      | Inr (True, db) \<Rightarrow>
          (let mb = mb\<lparr>mb_journal := db\<rparr> in
           if rv_kind ev = ''run''
           then (case sy_parse_run env (rv_envelope ev) of
                   None \<Rightarrow> Some (Inl InvalidRunEvent, mb)
                 | Some e \<Rightarrow> import_run_event env (snd ids) ev scope e mb)
           else if rv_kind ev = ''thread''
           then (case sy_parse_thread env (rv_envelope ev) of
                   None \<Rightarrow> Some (Inl InvalidThreadEvent, mb)
                 | Some e \<Rightarrow> Some (import_thread_event env ev e mb))
           else Some (Inl UnknownKind, mb)))"

definition log_row_of :: "replicated_event \<Rightarrow> logged \<Rightarrow> log_row" where
  "log_row_of ev lo = \<lparr>lg_thread = rv_thread ev, lg_origin = rv_origin ev, lg_seq = rv_seq ev, lg_kind = rv_kind ev,
     lg_event = lo_event lo, lg_run = lo_run lo, lg_run_seq = lo_run_seq lo, lg_type = lo_type lo\<rparr>"

definition logged_event :: "replicated_event \<Rightarrow> logged \<Rightarrow> member \<Rightarrow> member" where
  "logged_event ev lo mb =
     (let sx = insert_log (log_row_of ev lo) (mb_index mb) in
      mb\<lparr>mb_index := (case Option.bind (jget (rv_envelope ev) ''recorded_at'') as_str of
         None \<Rightarrow> sx | Some at \<Rightarrow> note_activity (rv_thread ev) at sx)\<rparr>)"

text \<open>The loop: an event before the expected number is skipped, one past it waits with all after it. The result is
  the member, how many events it took, and the posted messages to announce.\<close>

fun import_loop :: "sync_env \<Rightarrow> (replicated_event \<Rightarrow> string \<times> thread_ids) \<Rightarrow> string \<Rightarrow> replica_scope option \<Rightarrow> string
    \<Rightarrow> replicated_event list \<Rightarrow> (string \<times> string) list \<Rightarrow> member \<Rightarrow> (member \<times> nat \<times> (string \<times> json \<times> string) list) option" where
  "import_loop env draw now scope self [] blocked mb = Some (mb, 0, [])"
| "import_loop env draw now scope self (ev # evs) blocked mb =
     (let key = (rv_thread ev, rv_origin ev); expected = sync_next_seq (mb_index mb) (rv_thread ev) (rv_origin ev) in
      if rv_origin ev = self \<or> key \<in> set blocked \<or> \<not> sy_registered env (rv_thread ev) \<or> rv_seq ev < expected
      then import_loop env draw now scope self evs blocked mb
      else if rv_seq ev > expected then import_loop env draw now scope self evs (key # blocked) mb
      else (case import_one env (draw ev) now ev scope mb of
              None \<Rightarrow> None
            | Some (Inr (Some lo), mb) \<Rightarrow>
                map_option (\<lambda>(mb, n, posts). (mb, Suc n,
                    (if lo_type lo = ''thread.message.posted''
                     then (case sy_parse_thread env (rv_envelope ev) of
                             Some e \<Rightarrow> (rv_thread ev, tv_payload e, tv_recorded_at e) # posts | None \<Rightarrow> posts)
                     else posts)))
                  (import_loop env draw now scope self evs blocked (logged_event ev lo mb))
            | Some (_, mb) \<Rightarrow> import_loop env draw now scope self evs (key # blocked) mb))"

definition swarm_import :: "sync_env \<Rightarrow> (replicated_event \<Rightarrow> string \<times> thread_ids) \<Rightarrow> string \<Rightarrow> replica_scope option \<Rightarrow> string option
    \<Rightarrow> replicated_event list \<Rightarrow> member \<Rightarrow> (member \<times> nat \<times> (string \<times> json \<times> string) list) option" where
  "swarm_import env draw now scope self evs mb =
     (case self of
        None \<Rightarrow> Some (mb, 0, [])
      | Some self \<Rightarrow> import_loop env draw now scope self (sort_key rv_thread (sort_key rv_origin (sort_key rv_seq evs))) [] mb)"

end
