(* ===== verification/Sync_Properties.thy ===== *)
theory Sync_Properties
  imports Thread_Sync Journal_History "HOL-Library.Sublist"
begin

text \<open>
  What replication keeps: the index of every thread and origin is numbered from one without a gap, an import
  takes events only in their origin's order, so that what a member holds of an origin is always the beginning
  of what the origin wrote, and the index never names an event the journal does not hold.
\<close>

section \<open>The index\<close>

definition log_key :: "log_row \<Rightarrow> string \<times> string" where
  "log_key r = (lg_thread r, lg_origin r)"

definition index_ok :: "swarm_index \<Rightarrow> bool" where
  "index_ok sx \<longleftrightarrow> log_ok log_key lg_seq (sx_log sx) \<and> distinct (map lg_event (sx_log sx))"

text \<open>A column of SQLite holds numbers below 2^63.\<close>

definition index_small :: "swarm_index \<Rightarrow> bool" where
  "index_small sx \<longleftrightarrow> length (sx_log sx) < 2 ^ 63"

lemma origin_rows_rows: "origin_rows sx t og = rows_with log_key (sx_log sx) (t, og)"
  by (simp add: origin_rows_def rows_with_def log_key_def)

lemma next_seq_length:
  assumes "index_ok sx"
  shows "sync_next_seq sx t og = of_nat (length (origin_rows sx t og)) + 1"
proof -
  have "counted lg_seq (origin_rows sx t og)" using assms by (simp add: index_ok_def log_ok_def origin_rows_rows)
  then show ?thesis by (simp add: sync_next_seq_def counted_max)
qed

lemma next_seq_nonzero:
  assumes "index_ok sx" "index_small sx"
  shows "sync_next_seq sx t og \<noteq> 0"
proof -
  have "length (origin_rows sx t og) \<le> length (sx_log sx)" by (simp add: origin_rows_def)
  then have "Suc (length (origin_rows sx t og)) < 2 ^ 64" using assms(2) by (simp add: index_small_def)
  then have "(of_nat (Suc (length (origin_rows sx t og))) :: u64) \<noteq> 0" using of_nat_u64_inj [of "Suc (length (origin_rows sx t og))" 0] by simp
  with next_seq_length [OF assms(1)] show ?thesis by (simp add: add.commute)
qed

lemma insert_log_cases: "insert_log r sx = sx \<or> (sx_log (insert_log r sx) = sx_log sx @ [r] \<and> \<not> list_ex (log_taken r) (sx_log sx))"
  by (auto simp: insert_log_def Let_def)

lemma insert_log_kept: "sx_runs (insert_log r sx) = sx_runs sx" "sx_marks (insert_log r sx) = sx_marks sx"
  by (simp_all add: insert_log_def Let_def)

lemma insert_log_ok:
  assumes "index_ok sx" "index_small sx" "lg_seq r = sync_next_seq sx (lg_thread r) (lg_origin r)"
  shows "index_ok (insert_log r sx)"
  using insert_log_cases [of r sx]
proof
  assume a: "sx_log (insert_log r sx) = sx_log sx @ [r] \<and> \<not> list_ex (log_taken r) (sx_log sx)"
  have "log_ok log_key lg_seq (sx_log sx @ [r])"
    using assms next_seq_nonzero [OF assms(1,2)]
    by (intro log_ok_snoc) (simp_all add: index_ok_def sync_next_seq_def origin_rows_rows log_key_def)
  with a assms(1) show ?thesis by (auto simp: index_ok_def list_ex_iff log_taken_def)
qed (use assms(1) in simp)

lemma index_ok_log: "sx_log sx' = sx_log sx \<Longrightarrow> index_ok sx' = index_ok sx"
  by (simp add: index_ok_def)

lemma log_unchanged [simp]:
  "sx_log (note_activity t at sx) = sx_log sx" "sx_log (insert_indexed ir sx) = sx_log sx" "sx_log (set_indexed run n sx) = sx_log sx"
  "sx_log (upsert_run run t og sx) = sx_log sx" "sx_log (note_blob env e t sx) = sx_log sx"
  by (simp_all add: note_activity_def insert_indexed_def set_indexed_def upsert_run_def note_blob_def split: option.split prod.split)

text \<open>A step that leaves a numbered index numbered, as long as there is room, and takes nothing from it.\<close>

definition index_steps :: "(swarm_index \<Rightarrow> swarm_index) \<Rightarrow> bool" where
  "index_steps f \<longleftrightarrow> (\<forall>sx. prefix (sx_log sx) (sx_log (f sx)) \<and> (index_ok sx \<longrightarrow> index_small (f sx) \<longrightarrow> index_ok (f sx)))"

lemma index_steps_same: "(\<And>sx. sx_log (f sx) = sx_log sx) \<Longrightarrow> index_steps f"
  by (simp add: index_steps_def index_ok_def)

lemma index_steps_comp:
  assumes "index_steps f" "index_steps g"
  shows "index_steps (g \<circ> f)"
  unfolding index_steps_def
proof (intro allI conjI impI)
  fix sx
  show "prefix (sx_log sx) (sx_log ((g \<circ> f) sx))" using assms unfolding index_steps_def by (metis comp_apply prefix_order.trans)
  assume a: "index_ok sx" "index_small ((g \<circ> f) sx)"
  have "prefix (sx_log (f sx)) (sx_log (g (f sx)))" using assms(2) by (simp add: index_steps_def)
  then have "index_small (f sx)" using a(2) by (auto simp: index_small_def dest: prefix_length_le)
  with a assms show "index_ok ((g \<circ> f) sx)" by (simp add: index_steps_def)
qed

lemma index_steps_fold: "(\<And>x. index_steps (f x)) \<Longrightarrow> index_steps (fold f xs)"
proof (induction xs)
  case Nil
  show ?case by (rule index_steps_same) simp
next
  case (Cons x xs)
  from index_steps_comp [OF Cons.prems Cons.IH [OF Cons.prems]] show ?case by (simp add: fun_eq_iff comp_def)
qed

lemma index_steps_insert:
  assumes "\<And>sx. lg_seq (row sx) = sync_next_seq sx (lg_thread (row sx)) (lg_origin (row sx))"
  shows "index_steps (\<lambda>sx. insert_log (row sx) sx)"
  unfolding index_steps_def
proof (intro allI conjI impI)
  fix sx
  show pre: "prefix (sx_log sx) (sx_log (insert_log (row sx) sx))" using insert_log_cases [of "row sx" sx] by auto
  assume "index_ok sx" "index_small (insert_log (row sx) sx)"
  moreover have "index_small sx" using calculation(2) pre by (auto simp: index_small_def dest: prefix_length_le)
  ultimately show "index_ok (insert_log (row sx) sx)" using assms by (intro insert_log_ok)
qed

lemma index_steps_run: "index_steps (index_run self t re)"
proof -
  have "index_steps (index_run_event self t run e)" for run e
    unfolding index_run_event_def by (rule index_steps_insert) simp
  then have f: "index_steps (fold (index_run_event self t (fst re)) (snd re))" by (rule index_steps_fold)
  have "index_run self t re = (if snd re = [] then id else set_indexed (fst re) (e_run_seq (last (snd re))))
      \<circ> fold (index_run_event self t (fst re)) (snd re)"
    by (simp add: fun_eq_iff index_run_def Let_def)
  moreover have "index_steps (if snd re = [] then id else set_indexed (fst re) (e_run_seq (last (snd re))))"
    by (simp add: index_steps_same)
  ultimately show ?thesis using index_steps_comp [OF f] by simp
qed

lemma index_steps_thread: "index_steps (index_thread_event self t e)"
  unfolding index_thread_event_def by (rule index_steps_insert) simp

lemma scan_index:
  assumes "index_ok (mb_index mb)" "scan_thread self t mb = (found, mb')" "index_small (mb_index mb')"
  shows "index_ok (mb_index mb') \<and> mb_journal mb' = mb_journal mb"
proof (cases "thread_exists (mb_journal mb) t")
  case True
  let ?db = "mb_journal mb" and ?sx = "mb_index mb"
  define f where "f = fold (index_thread_event self t) (filter indexed_thread_event (thread_events_after ?db t
      (case map_of (sx_marks ?sx) t of None \<Rightarrow> 1 | Some m \<Rightarrow> m)))
    \<circ> (fold (index_run self t) (unindexed self t ?db ?sx) \<circ> fold insert_indexed (new_indexed self t ?db ?sx))"
  have "index_steps f" unfolding f_def
    by (intro index_steps_comp index_steps_fold index_steps_run index_steps_thread index_steps_same) simp
  moreover have "sx_log (mb_index mb') = sx_log (f ?sx)" "mb_journal mb' = ?db"
    using assms(2) True by (auto simp: scan_thread_def f_def Let_def split: option.splits)
  ultimately show ?thesis using assms(1,3) by (simp add: index_steps_def index_small_def index_ok_log [of "mb_index mb'" "f ?sx"])
qed (use assms in \<open>simp add: scan_thread_def\<close>)

section \<open>What an import does to the journal\<close>

inductive journal_path :: "journal_env \<Rightarrow> journal_db \<Rightarrow> journal_db \<Rightarrow> bool" for env where
  stay: "journal_path env db db"
| go: "journal_path env db db1 \<Longrightarrow> journal_step env db1 db2 \<Longrightarrow> journal_path env db db2"

lemma journal_path_one: "journal_step env db db' \<Longrightarrow> journal_path env db db'"
  by (rule journal_path.go [OF journal_path.stay])

lemma journal_path_trans: "journal_path env b c \<Longrightarrow> journal_path env a b \<Longrightarrow> journal_path env a c"
  by (induction rule: journal_path.induct) (auto intro: journal_path.intros)

lemma journal_path_reachable: "journal_path env db db' \<Longrightarrow> journal_reachable env db \<Longrightarrow> journal_reachable env db'"
  by (induction rule: journal_path.induct) (auto intro: journal_reachable.intros)

definition holds_more :: "journal_db \<Rightarrow> journal_db \<Rightarrow> bool" where
  "holds_more db db' \<longleftrightarrow> set (db_events db) \<subseteq> set (db_events db') \<and> set (db_thread_events db) \<subseteq> set (db_thread_events db')"

lemma holds_more_refl [simp]: "holds_more db db"
  by (simp add: holds_more_def)

lemma holds_more_trans: "holds_more a b \<Longrightarrow> holds_more b c \<Longrightarrow> holds_more a c"
  by (auto simp: holds_more_def)

lemma holds_more_keeps:
  "holds_more db db' \<Longrightarrow> run_event_exists db i \<Longrightarrow> run_event_exists db' i"
  "holds_more db db' \<Longrightarrow> thread_event_by_id db i \<noteq> None \<Longrightarrow> thread_event_by_id db' i \<noteq> None"
  by (auto simp: holds_more_def run_event_exists_def list_ex_iff thread_event_by_id_def find_None_iff)

lemma insert_thread_holds: "insert_thread_event e db = Inr db' \<Longrightarrow> holds_more db db' \<and> e \<in> set (db_thread_events db')"
  by (auto simp: insert_thread_event_def holds_more_def split: if_splits)

lemma created_holds: "append_thread_created_with_provenance env ids w at b pv db = Inr db' \<Longrightarrow> holds_more db db'"
  by (auto simp: append_thread_created_with_provenance_def result_bind_Inr_iff Let_def dest: insert_thread_holds)

lemma place_holds: "insert_run_thread r db = Inr db' \<Longrightarrow> db_events db' = db_events db \<and> db_thread_events db' = db_thread_events db"
  by (auto simp: insert_run_thread_def split: if_splits)

lemma batch_holds:
  assumes "append_batch env ids n [e] db = Some (Inr db')"
  shows "holds_more db db' \<and> run_event_exists db' (e_event_id e)"
proof (cases "all_existing env db [e] = Inr True")
  case True
  then have "db' = db" using assms by (auto simp: append_batch_def and_then_Inr_iff split: if_splits)
  moreover have "\<exists>x. find (\<lambda>x. e_event_id x = e_event_id e) (db_events db) = Some x" using True by (auto split: option.splits)
  then have "run_event_exists db (e_event_id e)" by (auto simp: run_event_exists_def list_ex_iff find_Some_iff)
  ultimately show ?thesis by simp
next
  case False
  from assms False obtain db1 where
    f: "(if last_run_seq db (e_run_id e) = 0 then first_thread env ids e db else Inr db) = Inr db1"
    and b: "insert_batch env [e] db1 = Some (Inr db')"
    by (auto simp: append_batch_def and_then_Inr_iff Let_def split: if_splits)
  have "holds_more db db1"
  proof (cases "last_run_seq db (e_run_id e) = 0")
    case True
    with f obtain d where "append_thread_created env ids (Some []) (e_recorded_at e) False db = Inr d"
        "insert_run_thread \<lparr>rt_run = e_run_id e, rt_thread = fst ids, rt_ordinal = 1\<rparr> d = Inr db1"
      by (auto simp: first_thread_def result_bind_Inr_iff)
    with created_holds [of env ids "Some []" "e_recorded_at e" False "journal_provenance False" db d] place_holds show ?thesis
      by (simp add: append_thread_created_def holds_more_def)
  qed (use f in simp)
  moreover have "db_thread_events db' = db_thread_events db1" "db_events db' = db_events db1 @ [e]" using insert_batch_Inr [OF b] by simp_all
  ultimately show ?thesis by (auto simp: holds_more_def run_event_exists_def)
qed

lemma new_run_holds:
  assumes "append_new_run_in_thread env w t e db = Some (Inr db')"
  shows "holds_more db db' \<and> run_event_exists db' (e_event_id e)"
proof -
  have "append_new_run_in_thread_with_payload env w t (Inr :: event_payload \<Rightarrow> journal_error + event_payload) e db = Some (Inr (Inr db'))"
    using assms by (auto simp: append_new_run_in_thread_def and_then_Inr_iff)
  then obtain db1 where new: "insert_new_run env w e db = Some (Inr db1)"
    and place: "insert_run_thread \<lparr>rt_run = e_run_id e, rt_thread = t, rt_ordinal = next_run_ordinal db t\<rparr> db1 = Inr db'"
    by (auto simp: append_new_run_in_thread_with_payload_def and_then_Inr_iff Let_def split: if_splits option.splits)
  from new obtain db2 where b: "insert_batch env [e] db = Some (Inr db2)" and "insert_workspace (e_run_id e) w db2 = Inr db1"
    by (auto simp: insert_new_run_def and_then_Inr_iff insert_event_Inr)
  then have "db_events db1 = db_events db @ [e]" "db_thread_events db1 = db_thread_events db"
    using insert_batch_Inr [OF b] by (auto simp: insert_workspace_def split: if_splits)
  with place_holds [OF place] show ?thesis by (auto simp: holds_more_def run_event_exists_def)
qed

lemma event_with_id_holds:
  assumes "append_thread_event_with_id env e db = Inr (x, db')"
  shows "holds_more db db' \<and> thread_event_by_id db' (tv_event_id e) \<noteq> None \<and> tv_event_id x = tv_event_id e"
  using assms
proof (cases rule: append_thread_event_with_id_Inr)
  case 1
  then show ?thesis by (auto simp: thread_event_by_id_def find_Some_iff)
next
  case 2
  with insert_thread_holds [OF 2(7)] show ?thesis by (auto simp: thread_event_by_id_def find_None_iff)
qed

section \<open>One imported event\<close>

text \<open>Strings are UTF-8, also those a peer sent.\<close>

definition parses_texts :: "sync_env \<Rightarrow> bool" where
  "parses_texts env \<longleftrightarrow> (\<forall>j e. sy_parse_run env j = Some e \<longrightarrow> valid_texts e)"

lemma valid_texts_provenance: "valid_texts (e\<lparr>e_provenance := pv\<rparr>) = valid_texts e"
  by (simp add: valid_texts_def inline_text_def)

lemma copied_kept [simp]:
  "valid_texts (copied_run_event sc og e) = valid_texts e" "e_event_id (copied_run_event sc og e) = e_event_id e"
  "e_run_id (copied_run_event sc og e) = e_run_id e" "e_run_seq (copied_run_event sc og e) = e_run_seq e"
  "valid_texts (in_profile p e) = valid_texts e" "e_event_id (in_profile p e) = e_event_id e" "e_run_id (in_profile p e) = e_run_id e"
  "e_run_seq (in_profile p e) = e_run_seq e" "e_payload (in_profile p e) = e_payload e"
  by (simp_all add: copied_run_event_def in_profile_def valid_texts_provenance)

definition fine_import :: "sync_env \<Rightarrow> member \<Rightarrow> member \<Rightarrow> bool" where
  "fine_import env mb mb' \<longleftrightarrow> sx_log (mb_index mb') = sx_log (mb_index mb) \<and> holds_more (mb_journal mb) (mb_journal mb')
     \<and> journal_path (sy_journal env) (mb_journal mb) (mb_journal mb')"

lemma fine_import_refl: "fine_import env mb mb"
  by (simp add: fine_import_def journal_path.stay)

lemma stored_run_fine:
  assumes "stored_run r e f mb = Some (res, mb')"
    "\<And>db'. r = Some (Inr db') \<Longrightarrow> holds_more (mb_journal mb) db' \<and> run_event_exists db' (e_event_id e)
      \<and> journal_path (sy_journal env) (mb_journal mb) db'"
    "\<And>sx. sx_log (f sx) = sx_log sx"
  shows "fine_import env mb mb' \<and> (\<forall>lo. res = Inr (Some lo) \<longrightarrow> lo = run_logged e \<and> run_event_exists (mb_journal mb') (e_event_id e))"
proof -
  obtain v where v: "r = Some v" using assms(1) by (auto simp: stored_run_def)
  show ?thesis
  proof (cases v)
    case (Inl err)
    with assms(1) v show ?thesis by (auto simp: stored_run_def fine_import_refl)
  next
    case (Inr db')
    with assms(1) v have "res = Inr (Some (run_logged e))" "mb' = \<lparr>mb_journal = db', mb_index = f (mb_index mb)\<rparr>"
      by (simp_all add: stored_run_def)
    with assms(2) [of db'] assms(3) v Inr show ?thesis by (simp add: fine_import_def)
  qed
qed

lemma payload_same: "(e :: event_envelope)\<lparr>e_payload := e_payload e\<rparr> = e"
  by simp

lemma import_run_fine:
  assumes "import_run_event env ids ev scope e mb = Some (res, mb')" "valid_texts e"
  shows "fine_import env mb mb' \<and> (\<forall>lo. res = Inr (Some lo) \<longrightarrow> lo = run_logged e \<and> run_event_exists (mb_journal mb') (e_event_id e))"
proof (cases "run_event_exists (mb_journal mb) (e_event_id e)")
  case True
  with assms(1) show ?thesis by (auto simp: import_run_event_def fine_import_refl Let_def split: prod.splits option.splits)
next
  case False
  let ?db = "mb_journal mb" and ?j = "sy_journal env"
  let ?c = "copied_run_event scope (rv_origin ev) e"
  obtain w p where wp: "(case thread_scope ?db (rv_thread ev) of None \<Rightarrow> (None, None) | Some x \<Rightarrow> x) = (w, p)" by fastforce
  show ?thesis
  proof (cases "e_run_seq e = 1")
    case True
    show ?thesis
    proof (cases w)
      case None
      with assms(1) False True wp show ?thesis by (auto simp: import_run_event_def fine_import_refl Let_def)
    next
      case (Some w')
      let ?d = "in_profile (case p of None \<Rightarrow> [] | Some p \<Rightarrow> p) ?c"
      have s: "stored_run (append_new_run_in_thread ?j w' (rv_thread ev) ?d ?db) e
          (note_blob env ?d (rv_thread ev) \<circ> upsert_run (e_run_id ?d) (rv_thread ev) (rv_origin ev)) mb = Some (res, mb')"
        using assms(1) False True wp Some by (simp add: import_run_event_def Let_def)
      show ?thesis
      proof (rule stored_run_fine [OF s])
        fix db'
        assume a: "append_new_run_in_thread ?j w' (rv_thread ev) ?d ?db = Some (Inr db')"
        have "journal_step ?j ?db db'"
        proof (rule journal_step.run_in_thread)
          show "append_new_run_in_thread_with_payload ?j w' (rv_thread ev) (Inr :: event_payload \<Rightarrow> string + event_payload) ?d ?db = Some (Inr (Inr db'))"
            using a by (auto simp: append_new_run_in_thread_def append_new_run_in_thread_with_payload_def and_then_Inr_iff Let_def
              split: if_splits option.splits)
          show "valid_texts (?d\<lparr>e_payload := q\<rparr>)" if "(Inr :: event_payload \<Rightarrow> string + event_payload) (e_payload ?d) = Inr q" for q
          proof -
            have "?d\<lparr>e_payload := q\<rparr> = ?d" using that payload_same [of ?d] by (metis sum.inject(2))
            with assms(2) show ?thesis by simp
          qed
        qed
        with new_run_holds [OF a] show "holds_more ?db db' \<and> run_event_exists db' (e_event_id e) \<and> journal_path ?j ?db db'"
          by (simp add: journal_path_one)
      qed simp
    qed
  next
    case False': False
    show ?thesis
    proof (cases "last_run_seq ?db (e_run_id e) + 1 = e_run_seq e")
      case True
      have s: "stored_run (append_batch ?j ids (last_run_seq ?db (e_run_id e)) [?c] ?db) e
          (note_blob env ?c (rv_thread ev) \<circ> set_indexed (e_run_id e) (e_run_seq e)) mb = Some (res, mb')"
        using assms(1) False False' True wp by (simp add: import_run_event_def Let_def)
      show ?thesis
      proof (rule stored_run_fine [OF s])
        fix db'
        assume a: "append_batch ?j ids (last_run_seq ?db (e_run_id e)) [?c] ?db = Some (Inr db')"
        have "journal_step ?j ?db db'" using assms(2) by (intro journal_step.batch [OF a]) simp
        with batch_holds [OF a] show "holds_more ?db db' \<and> run_event_exists db' (e_event_id e) \<and> journal_path ?j ?db db'"
          by (simp add: journal_path_one)
      qed simp
    qed (use assms(1) False False' wp in \<open>auto simp: import_run_event_def fine_import_refl Let_def\<close>)
  qed
qed

lemma import_thread_fine:
  assumes "import_thread_event env ev e mb = (res, mb')"
  shows "fine_import env mb mb' \<and> (\<forall>lo. res = Inr (Some lo) \<longrightarrow> lo_event lo = tv_event_id e \<and> lo_run lo = None \<and> lo_run_seq lo = None
    \<and> thread_event_by_id (mb_journal mb') (tv_event_id e) \<noteq> None)"
proof (cases "tv_thread e = rv_thread ev")
  case True
  define c where "c = copied_thread_event (case thread_scope (mb_journal mb) (rv_thread ev) of Some (_, Some p) \<Rightarrow> p | _ \<Rightarrow> []) (rv_origin ev) e"
  have id: "tv_event_id c = tv_event_id e" by (simp add: c_def copied_thread_event_def)
  show ?thesis
  proof (cases "append_thread_event_with_id (sy_journal env) c (mb_journal mb)")
    case (Inl err)
    with assms True show ?thesis by (auto simp: import_thread_event_def Let_def c_def fine_import_refl)
  next
    case (Inr xd)
    obtain x db' where xd: "xd = (x, db')" by fastforce
    with assms True Inr have r: "res = Inr (Some (thread_logged x))" "mb' = mb\<lparr>mb_journal := db'\<rparr>"
      by (auto simp: import_thread_event_def Let_def c_def)
    note holds = event_with_id_holds [OF Inr [unfolded xd]]
    have "journal_path (sy_journal env) (mb_journal mb) db'"
      by (rule journal_path_one [OF journal_step.event_with_id [OF Inr [unfolded xd]]])
    with r holds id show ?thesis by (simp add: fine_import_def thread_logged_def)
  qed
qed (use assms in \<open>auto simp: import_thread_event_def Let_def fine_import_refl\<close>)

text \<open>What the index is told of an event is what its envelope says.\<close>

definition names_event :: "sync_env \<Rightarrow> replicated_event \<Rightarrow> string \<Rightarrow> string option \<Rightarrow> u64 option \<Rightarrow> bool" where
  "names_event env ev i run n \<longleftrightarrow>
     (if rv_kind ev = ''run''
      then (\<exists>e. sy_parse_run env (rv_envelope ev) = Some e \<and> i = e_event_id e \<and> run = Some (e_run_id e) \<and> n = Some (e_run_seq e))
      else rv_kind ev = ''thread'' \<and> run = None \<and> n = None
        \<and> (\<exists>e. sy_parse_thread env (rv_envelope ev) = Some e \<and> i = tv_event_id e))"

definition journal_holds :: "journal_db \<Rightarrow> string \<Rightarrow> string \<Rightarrow> bool" where
  "journal_holds db kind i \<longleftrightarrow> (if kind = ''run'' then run_event_exists db i else thread_event_by_id db i \<noteq> None)"

lemma ensure_fine:
  assumes "ensure_thread env i t scope at db = Inr (b, db')"
  shows "holds_more db db' \<and> journal_path (sy_journal env) db db'"
proof (cases "thread_exists db t \<or> thread_deleted db t \<or> scope = None")
  case True
  with assms have "db' = db" by (auto simp: ensure_thread_def split: if_splits option.splits)
  then show ?thesis by (simp add: journal_path.stay)
next
  case False
  then obtain sc where sc: "scope = Some sc" by auto
  with assms False obtain made where c: "create_thread_with_id (sy_journal env) i t (sc_workspace sc) at
      (local_provenance env scope (sc_profile sc)) db = Inr (made, db')"
    by (auto simp: ensure_thread_def result_bind_Inr_iff split: if_splits)
  then have "holds_more db db'"
    by (auto simp: create_thread_with_id_def result_bind_Inr_iff split: if_splits dest: created_holds)
  then show ?thesis using journal_path_one [OF journal_step.thread_with_id [OF c]] by simp
qed

lemma fine_after_ensure:
  assumes "holds_more (mb_journal mb) db \<and> journal_path (sy_journal env) (mb_journal mb) db" "fine_import env (mb\<lparr>mb_journal := db\<rparr>) mb'"
  shows "fine_import env mb mb'"
  using assms by (auto simp: fine_import_def intro: holds_more_trans journal_path_trans)

lemma import_one_fine:
  assumes "import_one env ids now ev scope mb = Some (res, mb')" "parses_texts env"
  shows "fine_import env mb mb' \<and> (\<forall>lo. res = Inr (Some lo)
    \<longrightarrow> names_event env ev (lo_event lo) (lo_run lo) (lo_run_seq lo) \<and> journal_holds (mb_journal mb') (rv_kind ev) (lo_event lo))"
proof -
  let ?at = "case Option.bind (jget (rv_envelope ev) ''recorded_at'') as_str of None \<Rightarrow> now | Some at \<Rightarrow> at"
  show ?thesis
  proof (cases "ensure_thread env (fst ids) (rv_thread ev) scope ?at (mb_journal mb)")
    case (Inl err)
    with assms(1) show ?thesis by (auto simp: import_one_def fine_import_refl)
  next
    case (Inr bd)
    obtain b db where bd: "bd = (b, db)" by fastforce
    note en = ensure_fine [OF Inr [unfolded bd]]
    let ?mb = "mb\<lparr>mb_journal := db\<rparr>"
    show ?thesis
    proof (cases b)
      case False
      with assms(1) Inr bd have "res = Inr None" "mb' = ?mb" by (auto simp: import_one_def)
      with fine_after_ensure [OF en, of ?mb] show ?thesis by (simp add: fine_import_refl)
    next
      case True
      consider (run) e where "rv_kind ev = ''run''" "sy_parse_run env (rv_envelope ev) = Some e"
          "import_run_event env (snd ids) ev scope e ?mb = Some (res, mb')"
        | (thread) e where "rv_kind ev = ''thread''" "sy_parse_thread env (rv_envelope ev) = Some e"
          "import_thread_event env ev e ?mb = (res, mb')"
        | (bad) err where "res = Inl err" "mb' = ?mb"
        using assms(1) Inr bd True by (auto simp: import_one_def Let_def split: if_splits option.splits)
      then show ?thesis
      proof cases
        case run
        have "valid_texts e" using assms(2) run(2) by (auto simp: parses_texts_def)
        from import_run_fine [OF run(3) this] run(1,2) fine_after_ensure [OF en] show ?thesis
          by (auto simp: names_event_def journal_holds_def run_logged_def)
      next
        case thread
        from import_thread_fine [OF thread(3)] thread(1,2) fine_after_ensure [OF en] show ?thesis
          by (auto simp: names_event_def journal_holds_def)
      next
        case bad
        with fine_after_ensure [OF en, of ?mb] show ?thesis by (simp add: fine_import_refl)
      qed
    qed
  qed
qed

section \<open>A whole import\<close>

text \<open>The moves an import is made of: the journal goes on, and an event at the number its origin expects is logged.\<close>

inductive import_moves :: "sync_env \<Rightarrow> string \<Rightarrow> replicated_event set \<Rightarrow> member \<Rightarrow> member \<Rightarrow> bool" for env self evs where
  rest: "import_moves env self evs mb mb"
| tried: "import_moves env self evs mb mb1 \<Longrightarrow> fine_import env mb1 mb2 \<Longrightarrow> import_moves env self evs mb mb2"
| taken: "import_moves env self evs mb mb1 \<Longrightarrow> fine_import env mb1 mb2 \<Longrightarrow> ev \<in> evs \<Longrightarrow> rv_origin ev \<noteq> self
    \<Longrightarrow> rv_seq ev = sync_next_seq (mb_index mb1) (rv_thread ev) (rv_origin ev)
    \<Longrightarrow> names_event env ev (lo_event lo) (lo_run lo) (lo_run_seq lo) \<Longrightarrow> journal_holds (mb_journal mb2) (rv_kind ev) (lo_event lo)
    \<Longrightarrow> import_moves env self evs mb (logged_event ev lo mb2)"

lemma import_moves_trans: "import_moves env self evs b c \<Longrightarrow> import_moves env self evs a b \<Longrightarrow> import_moves env self evs a c"
  by (induction rule: import_moves.induct) (auto intro: import_moves.intros)

lemma import_loop_moves:
  assumes "import_loop env draw now scope self evs blocked mb = Some (mb', n, posts)" "parses_texts env" "set evs \<subseteq> all"
  shows "import_moves env self all mb mb'"
  using assms(1,3)
proof (induction evs arbitrary: blocked mb n posts)
  case (Cons ev evs)
  let ?key = "(rv_thread ev, rv_origin ev)" and ?exp = "sync_next_seq (mb_index mb) (rv_thread ev) (rv_origin ev)"
  show ?case
  proof (cases "rv_origin ev = self \<or> ?key \<in> set blocked \<or> \<not> sy_registered env (rv_thread ev) \<or> rv_seq ev < ?exp \<or> rv_seq ev > ?exp")
    case True
    then obtain bl where "import_loop env draw now scope self evs bl mb = Some (mb', n, posts)"
      using Cons.prems(1) by (auto simp: Let_def split: if_splits)
    with Cons.IH Cons.prems(2) show ?thesis by simp
  next
    case False
    then have seq: "rv_seq ev = ?exp" "rv_origin ev \<noteq> self" by auto
    obtain res mb1 where one: "import_one env (draw ev) now ev scope mb = Some (res, mb1)"
      using Cons.prems(1) False by (auto simp: Let_def split: option.splits)
    note fine = import_one_fine [OF one assms(2)]
    show ?thesis
    proof (cases "\<exists>lo. res = Inr (Some lo)")
      case True
      then obtain lo where lo: "res = Inr (Some lo)" by blast
      with Cons.prems(1) False one obtain m ps where "import_loop env draw now scope self evs blocked (logged_event ev lo mb1) = Some (mb', m, ps)"
        by (auto simp: Let_def)
      then have "import_moves env self all (logged_event ev lo mb1) mb'" using Cons.IH Cons.prems(2) by simp
      moreover have "import_moves env self all mb (logged_event ev lo mb1)"
        using fine lo seq Cons.prems(2) by (intro import_moves.taken [OF import_moves.rest]) auto
      ultimately show ?thesis by (rule import_moves_trans)
    next
      case no: False
      then have "import_loop env draw now scope self evs (?key # blocked) mb1 = Some (mb', n, posts)"
        using Cons.prems(1) False one by (auto simp: Let_def split: sum.splits option.splits)
      then have "import_moves env self all mb1 mb'" using Cons.IH Cons.prems(2) by simp
      moreover have "import_moves env self all mb mb1" using fine by (blast intro: import_moves.tried [OF import_moves.rest])
      ultimately show ?thesis by (rule import_moves_trans)
    qed
  qed
qed (simp add: import_moves.rest)

lemma import_moves_of:
  assumes "swarm_import env draw now scope (Some self) evs mb = Some (mb', n, posts)" "parses_texts env"
  shows "import_moves env self (set evs) mb mb'"
  using import_loop_moves [OF _ assms(2)] assms(1) by (simp add: swarm_import_def)

lemma logged_simps [simp]:
  "sx_log (mb_index (logged_event ev lo mb)) = sx_log (insert_log (log_row_of ev lo) (mb_index mb))"
  "mb_journal (logged_event ev lo mb) = mb_journal mb"
  by (simp_all add: logged_event_def Let_def split: option.split)

lemma next_seq_log: "sx_log sx' = sx_log sx \<Longrightarrow> sync_next_seq sx' t og = sync_next_seq sx t og"
  by (simp add: sync_next_seq_def origin_rows_def)

lemma insert_log_log: "sx_log sx' = sx_log sx \<Longrightarrow> sx_log (insert_log r sx') = sx_log (insert_log r sx)"
  by (simp add: insert_log_def Let_def)

lemma row_of_simps [simp]:
  "lg_thread (log_row_of ev lo) = rv_thread ev" "lg_origin (log_row_of ev lo) = rv_origin ev" "lg_seq (log_row_of ev lo) = rv_seq ev"
  "lg_kind (log_row_of ev lo) = rv_kind ev" "lg_event (log_row_of ev lo) = lo_event lo" "lg_run (log_row_of ev lo) = lo_run lo"
  "lg_run_seq (log_row_of ev lo) = lo_run_seq lo"
  by (simp_all add: log_row_of_def)

lemma moves_grow: "import_moves env self evs mb mb' \<Longrightarrow> prefix (sx_log (mb_index mb)) (sx_log (mb_index mb'))
    \<and> holds_more (mb_journal mb) (mb_journal mb') \<and> journal_path (sy_journal env) (mb_journal mb) (mb_journal mb')"
proof (induction rule: import_moves.induct)
  case (taken mb mb1 mb2 ev lo)
  then have "sx_log (mb_index mb2) = sx_log (mb_index mb1)" by (simp add: fine_import_def)
  with taken insert_log_cases [of "log_row_of ev lo" "mb_index mb2"] show ?case
    by (auto simp: fine_import_def intro: holds_more_trans journal_path_trans prefix_prefix)
qed (auto simp: fine_import_def journal_path.stay intro: holds_more_trans journal_path_trans)

lemma moves_index:
  assumes "import_moves env self evs mb mb'" "index_ok (mb_index mb)" "index_small (mb_index mb')"
  shows "index_ok (mb_index mb')"
  using assms
proof (induction rule: import_moves.induct)
  case (tried mb mb1 mb2)
  then show ?case by (simp add: fine_import_def index_ok_def index_small_def)
next
  case (taken mb mb1 mb2 ev lo)
  have log: "sx_log (mb_index mb2) = sx_log (mb_index mb1)" using taken.hyps(2) by (simp add: fine_import_def)
  have "prefix (sx_log (mb_index mb2)) (sx_log (insert_log (log_row_of ev lo) (mb_index mb2)))"
    using insert_log_cases [of "log_row_of ev lo" "mb_index mb2"] by auto
  then have small: "index_small (mb_index mb2)" using taken.prems(2) by (auto simp: index_small_def dest: prefix_length_le)
  then have "index_ok (mb_index mb2)" using taken.IH taken.prems(1) log by (simp add: index_small_def index_ok_def)
  then have "index_ok (insert_log (log_row_of ev lo) (mb_index mb2))"
    using small taken.hyps(5) next_seq_log [OF log] by (intro insert_log_ok) simp_all
  then show ?case by (simp add: index_ok_def)
qed simp

lemma moves_held:
  assumes "import_moves env self evs mb mb'" "r \<in> set (sx_log (mb_index mb'))" "r \<notin> set (sx_log (mb_index mb))"
  shows "journal_holds (mb_journal mb') (lg_kind r) (lg_event r) \<and> lg_origin r \<noteq> self"
  using assms
proof (induction rule: import_moves.induct)
  case (tried mb mb1 mb2)
  then show ?case using holds_more_keeps [of "mb_journal mb1" "mb_journal mb2"] by (auto simp: fine_import_def journal_holds_def)
next
  case (taken mb mb1 mb2 ev lo)
  have more: "holds_more (mb_journal mb1) (mb_journal mb2)" "sx_log (mb_index mb2) = sx_log (mb_index mb1)"
    using taken.hyps(2) by (simp_all add: fine_import_def)
  show ?case
  proof (cases "r \<in> set (sx_log (mb_index mb1))")
    case True
    with taken.IH taken.prems(2) have "journal_holds (mb_journal mb1) (lg_kind r) (lg_event r) \<and> lg_origin r \<noteq> self" by blast
    with holds_more_keeps [OF more(1)] show ?thesis by (auto simp: journal_holds_def)
  next
    case False
    with taken.prems(1) more(2) insert_log_cases [of "log_row_of ev lo" "mb_index mb2"] have "r = log_row_of ev lo" by auto
    with taken.hyps(4,7) show ?thesis by simp
  qed
qed simp

section \<open>The beginning of what the origin wrote\<close>

definition row_sig :: "log_row \<Rightarrow> u64 \<times> string \<times> string \<times> string option \<times> u64 option" where
  "row_sig r = (lg_seq r, lg_kind r, lg_event r, lg_run r, lg_run_seq r)"

definition begins :: "swarm_index \<Rightarrow> swarm_index \<Rightarrow> string \<Rightarrow> string \<Rightarrow> bool" where
  "begins sx sx' t og \<longleftrightarrow> prefix (map row_sig (origin_rows sx t og)) (map row_sig (origin_rows sx' t og))"

text \<open>An event that says what a row of the sender's index says.\<close>

definition honest :: "sync_env \<Rightarrow> swarm_index \<Rightarrow> replicated_event \<Rightarrow> bool" where
  "honest env sx ev \<longleftrightarrow> (\<exists>r\<in>set (sx_log sx). lg_thread r = rv_thread ev \<and> lg_origin r = rv_origin ev \<and> lg_seq r = rv_seq ev \<and> lg_kind r = rv_kind ev
     \<and> (\<forall>i run n. names_event env ev i run n \<longrightarrow> i = lg_event r \<and> run = lg_run r \<and> n = lg_run_seq r))"

lemma begins_next:
  assumes "index_ok sx" "index_ok sxA" "begins sx sxA t og" "r \<in> set (origin_rows sxA t og)" "lg_seq r = sync_next_seq sx t og"
  shows "prefix (map row_sig (origin_rows sx t og) @ [row_sig r]) (map row_sig (origin_rows sxA t og))"
proof -
  let ?b = "origin_rows sx t og" and ?a = "origin_rows sxA t og"
  have ca: "counted lg_seq ?a" using assms(2) by (simp add: index_ok_def log_ok_def origin_rows_rows)
  obtain i where i: "i < length ?a" "?a ! i = r" using assms(4) by (auto simp: in_set_conv_nth)
  have pre: "prefix (map row_sig ?b) (map row_sig ?a)" using assms(3) by (simp add: begins_def)
  then have le: "length ?b \<le> length ?a" by (auto dest: prefix_length_le)
  have la: "length ?a < 2 ^ 64" using ca by (simp add: counted_def)
  have "(of_nat (Suc i) :: u64) = of_nat (Suc (length ?b))"
    using counted_nth [OF ca i(1)] i(2) assms(5) next_seq_length [OF assms(1)] by (simp add: add.commute)
  then have "(of_nat i :: u64) = of_nat (length ?b)" by simp
  then have eq: "i = length ?b" using of_nat_u64_inj [of i "length ?b"] i(1) le la by simp
  from pre obtain zs where zs: "map row_sig ?a = map row_sig ?b @ zs" by (auto simp: prefix_def)
  have "zs \<noteq> []" using i(1) eq arg_cong [OF zs, of length] by auto
  then obtain z zs' where z: "zs = z # zs'" by (cases zs) auto
  have "z = map row_sig ?a ! length ?b" unfolding zs z by (simp add: nth_append)
  then have "z = row_sig r" using i eq by simp
  with zs z show ?thesis by (auto simp: prefix_def)
qed

lemma moves_begin:
  assumes "import_moves env self evs mb mb'" "index_ok (mb_index mb)" "index_small (mb_index mb')" "index_ok sxA"
    "\<forall>t og. og \<noteq> self \<longrightarrow> begins (mb_index mb) sxA t og" "\<forall>ev\<in>evs. honest env sxA ev"
  shows "\<forall>t og. og \<noteq> self \<longrightarrow> begins (mb_index mb') sxA t og"
  using assms
proof (induction rule: import_moves.induct)
  case (tried mb mb1 mb2)
  then show ?case by (simp add: fine_import_def begins_def origin_rows_def index_small_def)
next
  case (taken mb mb1 mb2 ev lo)
  let ?r = "log_row_of ev lo"
  have log: "sx_log (mb_index mb2) = sx_log (mb_index mb1)" using taken.hyps(2) by (simp add: fine_import_def)
  have pre: "prefix (sx_log (mb_index mb2)) (sx_log (insert_log ?r (mb_index mb2)))" using insert_log_cases [of ?r "mb_index mb2"] by auto
  then have small: "index_small (mb_index mb1)" using taken.prems(2) log by (auto simp: index_small_def dest: prefix_length_le)
  have ih: "\<forall>t og. og \<noteq> self \<longrightarrow> begins (mb_index mb1) sxA t og" using taken.IH taken.prems small by blast
  have ok1: "index_ok (mb_index mb1)" using moves_index [OF taken.hyps(1) taken.prems(1) small] .
  obtain r where r: "r \<in> set (sx_log sxA)" "lg_thread r = rv_thread ev" "lg_origin r = rv_origin ev" "lg_seq r = rv_seq ev" "lg_kind r = rv_kind ev"
      "lo_event lo = lg_event r" "lo_run lo = lg_run r" "lo_run_seq lo = lg_run_seq r"
    using taken.prems(5) taken.hyps(3,6) unfolding honest_def by blast
  have sig: "row_sig ?r = row_sig r" using r by (simp add: row_sig_def)
  have mem: "r \<in> set (origin_rows sxA (rv_thread ev) (rv_origin ev))" using r(1-3) by (simp add: origin_rows_def)
  have ext: "prefix (map row_sig (origin_rows (mb_index mb1) (rv_thread ev) (rv_origin ev)) @ [row_sig r])
      (map row_sig (origin_rows sxA (rv_thread ev) (rv_origin ev)))"
    using ih taken.hyps(4,5) r(4) by (intro begins_next [OF ok1 taken.prems(3) _ mem]) auto
  show ?case
  proof (intro allI impI)
    fix t og assume og: "og \<noteq> self"
    have b1: "begins (mb_index mb1) sxA t og" using ih og by blast
    from insert_log_cases [of ?r "mb_index mb2"]
    show "begins (mb_index (logged_event ev lo mb2)) sxA t og"
    proof
      assume a: "sx_log (insert_log ?r (mb_index mb2)) = sx_log (mb_index mb2) @ [?r] \<and> \<not> list_ex (log_taken ?r) (sx_log (mb_index mb2))"
      then have "origin_rows (mb_index (logged_event ev lo mb2)) t og
          = origin_rows (mb_index mb1) t og @ (if t = rv_thread ev \<and> og = rv_origin ev then [?r] else [])"
        using log by (simp add: origin_rows_def)
      then show ?thesis using b1 ext sig by (auto simp: begins_def)
    next
      assume "insert_log ?r (mb_index mb2) = mb_index mb2"
      then have "origin_rows (mb_index (logged_event ev lo mb2)) t og = origin_rows (mb_index mb1) t og"
        using log by (simp add: origin_rows_def)
      then show ?thesis using b1 by (simp add: begins_def)
    qed
  qed
qed simp

text \<open>The rows of an index agree with the journal it indexes.\<close>

definition row_matches :: "journal_db \<Rightarrow> log_row \<Rightarrow> bool" where
  "row_matches db r \<longleftrightarrow>
     (if lg_kind r = ''run''
      then (\<exists>run n. lg_run r = Some run \<and> lg_run_seq r = Some n \<and> (\<forall>e. run_event db run n = Some e \<longrightarrow> e_event_id e = lg_event r))
      else lg_kind r = ''thread'' \<and> lg_run r = None \<and> lg_run_seq r = None)"

text \<open>The JSON of every event the journal holds reads back as the event.\<close>

definition prints_back :: "sync_env \<Rightarrow> journal_db \<Rightarrow> bool" where
  "prints_back env db \<longleftrightarrow> (\<forall>e\<in>set (db_events db). sy_parse_run env (sy_print_run env e) = Some e)
     \<and> (\<forall>e\<in>set (db_thread_events db). sy_parse_thread env (sy_print_thread env e) = Some e)"

lemma run_event_is: "run_event db run n = Some e \<Longrightarrow> e_run_id e = run \<and> e_run_seq e = n \<and> e \<in> set (db_events db)"
proof -
  assume "run_event db run n = Some e"
  then have "e_run_seq e = n" "e \<in> set (run_events_after db run (saturating_sub n 1) 1)"
    unfolding run_event_def by (metis (mono_tags, lifting) find_Some_iff nth_mem)+
  then show ?thesis
    by (auto simp: run_events_after_def limit_rows_def journal_events_def run_events_def split: if_splits dest!: in_set_takeD)
qed

lemma exported_honest:
  assumes "export_loop env db t og rows budget = (fits, es, rest)" "prints_back env db" "ev \<in> set es"
    "set rows \<subseteq> set (origin_rows sx t og)" "\<forall>r\<in>set rows. row_matches db r"
  shows "honest env sx ev"
  using assms(1,3-5)
proof (induction rows arbitrary: budget es rest)
  case (Cons r rows)
  obtain j p where x: "exported env db r = Some (j, p)" using Cons.prems(1,2) by (auto split: option.splits)
  let ?e = "\<lparr>rv_thread = t, rv_origin = og, rv_seq = lg_seq r, rv_kind = lg_kind r, rv_envelope = j, rv_prompt = p\<rparr>"
  have m: "row_matches db r" using Cons.prems(4) by simp
  have "names_event env ?e i run n \<Longrightarrow> i = lg_event r \<and> run = lg_run r \<and> n = lg_run_seq r" for i run n
  proof (cases "lg_kind r = ''run''")
    case True
    with m obtain rn k where k: "lg_run r = Some rn" "lg_run_seq r = Some k" "\<forall>e. run_event db rn k = Some e \<longrightarrow> e_event_id e = lg_event r"
      by (auto simp: row_matches_def)
    with x True obtain e where e: "run_event db rn k = Some e" "j = sy_print_run env e" by (auto simp: exported_def)
    moreover assume "names_event env ?e i run n"
    ultimately have "i = e_event_id e" "run = Some (e_run_id e)" "n = Some (e_run_seq e)"
      using True assms(2) run_event_is [OF e(1)] by (auto simp: names_event_def prints_back_def)
    with k e run_event_is [OF e(1)] show ?thesis by simp
  next
    case False
    with m have k: "lg_kind r = ''thread''" "lg_run r = None" "lg_run_seq r = None" by (auto simp: row_matches_def)
    with x obtain e where e: "thread_event_by_id db (lg_event r) = Some e" "j = sy_print_thread env e" by (auto simp: exported_def)
    moreover have id: "tv_event_id e = lg_event r" "e \<in> set (db_thread_events db)"
      using e(1) unfolding thread_event_by_id_def by (metis (mono_tags, lifting) find_Some_iff nth_mem)+
    moreover assume "names_event env ?e i run n"
    ultimately have "i = tv_event_id e" "run = None" "n = None" using k assms(2) by (auto simp: names_event_def prints_back_def)
    moreover note id(1)
    ultimately show ?thesis using k by simp
  qed
  then have "honest env sx ?e" using Cons.prems(3) unfolding honest_def by (intro bexI [of _ r]) (auto simp: origin_rows_def)
  moreover obtain es' where "es = ?e # es'" "export_loop env db t og rows (budget - sy_cost env ?e) = (fits, es', rest)"
    using Cons.prems(1,2) x by (auto simp: Let_def split: if_splits prod.splits)
  ultimately show ?case using Cons.IH Cons.prems(2-4) by auto
qed simp

section \<open>Members\<close>

inductive member_step :: "sync_env \<Rightarrow> string \<Rightarrow> member \<Rightarrow> member \<Rightarrow> bool" for env self where
  written: "journal_step (sy_journal env) (mb_journal mb) db \<Longrightarrow> member_step env self mb (mb\<lparr>mb_journal := db\<rparr>)"
| scanned: "scan_thread self t mb = (found, mb') \<Longrightarrow> member_step env self mb mb'"
| imported: "swarm_import env draw now scope (Some self) evs mb = Some (mb', n, posts) \<Longrightarrow> member_step env self mb mb'"

inductive member_reachable :: "sync_env \<Rightarrow> string \<Rightarrow> member \<Rightarrow> bool" for env self where
  start: "member_reachable env self \<lparr>mb_journal = empty_journal, mb_index = empty_index\<rparr>"
| step: "member_reachable env self mb \<Longrightarrow> member_step env self mb mb' \<Longrightarrow> member_reachable env self mb'"

lemma scan_grows: "scan_thread self t mb = (found, mb') \<Longrightarrow> length (sx_log (mb_index mb)) \<le> length (sx_log (mb_index mb'))"
proof (cases "thread_exists (mb_journal mb) t")
  case True
  let ?db = "mb_journal mb" and ?sx = "mb_index mb"
  assume s: "scan_thread self t mb = (found, mb')"
  have "index_steps (fold (index_thread_event self t) (filter indexed_thread_event (thread_events_after ?db t
      (case map_of (sx_marks ?sx) t of None \<Rightarrow> 1 | Some m \<Rightarrow> m)))
    \<circ> (fold (index_run self t) (unindexed self t ?db ?sx) \<circ> fold insert_indexed (new_indexed self t ?db ?sx)))" (is "index_steps ?f")
    by (intro index_steps_comp index_steps_fold index_steps_run index_steps_thread index_steps_same) simp
  moreover have "sx_log (mb_index mb') = sx_log (?f ?sx)"
    using s True by (auto simp: scan_thread_def Let_def split: option.splits)
  ultimately show ?thesis by (auto simp: index_steps_def dest: prefix_length_le)
qed (simp add: scan_thread_def)

lemma member_sound:
  assumes "member_reachable env self mb" "parses_texts env" "index_small (mb_index mb)"
  shows "index_ok (mb_index mb) \<and> journal_reachable (sy_journal env) (mb_journal mb)"
  using assms(1,3)
proof (induction rule: member_reachable.induct)
  case start
  show ?case by (simp add: index_ok_def log_ok_def rows_with_def empty_index_def journal_reachable.start)
next
  case (step mb mb')
  from step.hyps(2) show ?case
  proof cases
    case (written db)
    with step show ?thesis by (auto intro: journal_reachable.step)
  next
    case (scanned t found)
    have "index_small (mb_index mb)" using scan_grows [OF scanned] step.prems by (simp add: index_small_def)
    with step scan_index [OF _ scanned] show ?thesis by simp
  next
    case (imported draw now scope evs n posts)
    note moves = import_moves_of [OF imported assms(2)]
    have "index_small (mb_index mb)" using moves_grow [OF moves] step.prems by (auto simp: index_small_def dest: prefix_length_le)
    then have ih: "index_ok (mb_index mb)" "journal_reachable (sy_journal env) (mb_journal mb)" using step.IH by simp_all
    with moves_index [OF moves ih(1) step.prems] moves_grow [OF moves] show ?thesis by (auto intro: journal_path_reachable)
  qed
qed

section \<open>A concrete exchange\<close>

text \<open>A sender with one run, whose only event it exports to an empty member.\<close>

definition sample_empty :: member where
  "sample_empty = \<lparr>mb_journal = empty_journal, mb_index = empty_index\<rparr>"

definition sample_first :: event_envelope where "sample_first = sample_event 1 ''run.started'' []"

definition sync_sample :: sync_env where
  "sync_sample = \<lparr>sy_journal = sample_env, sy_print_run = (\<lambda>_. JNull), sy_parse_run = (\<lambda>_. Some sample_first),
     sy_print_thread = (\<lambda>_. JNull), sy_parse_thread = (\<lambda>_. Some (created_event (''t'', ''c'') (Some []) [] False (journal_provenance False))), sy_prompt = (\<lambda>_. None), sy_cost = (\<lambda>_. 1),
     sy_registered = (\<lambda>_. True), sy_has_blob = (\<lambda>_. False), sy_all_blobs = False, sy_version = ''1''\<rparr>"

definition sample_sender :: member where
  "sample_sender = (case append_batch sample_env (''t'', ''c'') 0 [sample_first] empty_journal of
      Some (Inr db) \<Rightarrow> snd (scan_thread ''a'' ''t'' (sample_empty\<lparr>mb_journal := db\<rparr>))
    | _ \<Rightarrow> sample_empty)"

definition sample_sent :: replicated_event where
  "sample_sent = \<lparr>rv_thread = ''t'', rv_origin = ''a'', rv_seq = 1, rv_kind = ''run'', rv_envelope = JNull, rv_prompt = None\<rparr>"

definition sample_scope :: replica_scope where
  "sample_scope = \<lparr>sc_workspace = ''/w'', sc_profile = ''p'', sc_subject = None\<rparr>"

lemma sample_sends: "export_rows sync_sample sample_sender ''t'' ''a'' 0 1 = (True, [sample_sent], 0)"
  by code_simp

lemma sample_sender_holds: "db_events (mb_journal sample_sender) = [sample_first]"
    "db_thread_events (mb_journal sample_sender) = [created_event (''t'', ''c'') (Some []) [] False (journal_provenance False)]"
    "map row_sig (sx_log (mb_index sample_sender)) = [(1, ''run'', ''1'', Some ''r'', Some 1)]"
  by code_simp+

lemma sample_received: "\<exists>mb posts. swarm_import sync_sample (\<lambda>_. (''x'', ''u'', ''v'')) ''now'' (Some sample_scope) (Some ''b'') [sample_sent] sample_empty
    = Some (mb, 1, posts) \<and> map row_sig (sx_log (mb_index mb)) = [(1, ''run'', ''1'', Some ''r'', Some 1)]"
proof -
  have "case swarm_import sync_sample (\<lambda>_. (''x'', ''u'', ''v'')) ''now'' (Some sample_scope) (Some ''b'') [sample_sent] sample_empty of
      None \<Rightarrow> False | Some (mb, n, posts) \<Rightarrow> n = 1 \<and> map row_sig (sx_log (mb_index mb)) = [(1, ''run'', ''1'', Some ''r'', Some 1)]"
    by code_simp
  then show ?thesis by (auto split: option.splits prod.splits)
qed

lemma sample_first_id: "e_event_id sample_first = ''1''"
  by code_simp

lemma sample_first_texts: "valid_texts sample_first"
  by (auto simp: sample_first_def valid_texts_def sample_event_def inline_text_def)

lemma sample_env_simps: "parses_texts sync_sample" "sy_journal sync_sample = sample_env"
  using sample_first_texts by (simp_all add: parses_texts_def sync_sample_def)

lemma sample_empty_reachable: "member_reachable sync_sample self sample_empty"
  unfolding sample_empty_def by (rule member_reachable.start)

lemma sample_sender_reachable: "member_reachable sync_sample ''a'' sample_sender"
proof -
  have "case append_batch sample_env (''t'', ''c'') 0 [sample_first] empty_journal of Some (Inr db) \<Rightarrow> True | _ \<Rightarrow> False" by code_simp
  then obtain db where db: "append_batch sample_env (''t'', ''c'') 0 [sample_first] empty_journal = Some (Inr db)"
    by (auto split: option.splits sum.splits)
  have "journal_step (sy_journal sync_sample) (mb_journal sample_empty) db"
    using journal_step.batch [OF db] sample_first_texts by (simp add: sample_env_simps sample_empty_def)
  then have "member_reachable sync_sample ''a'' (sample_empty\<lparr>mb_journal := db\<rparr>)"
    by (rule member_reachable.step [OF sample_empty_reachable member_step.written])
  moreover have "member_step sync_sample ''a'' (sample_empty\<lparr>mb_journal := db\<rparr>) sample_sender"
    using db by (intro member_step.scanned [of _ "''t''" _ "fst (scan_thread ''a'' ''t'' (sample_empty\<lparr>mb_journal := db\<rparr>))"]) (simp add: sample_sender_def)
  ultimately show ?thesis by (rule member_reachable.step)
qed

lemma sample_small: "length (sx_log sx) = 1 \<Longrightarrow> index_small sx"
  by (simp add: index_small_def)

section \<open>What replication promises\<close>

text \<open>C16: Whatever a member writes, scans and imports, its index numbers the events of every thread and origin from one
  without a gap, indexes no event twice, and its journal stays one its own operations could have written.\<close>

theorem replication_index_sound:
  assumes "member_reachable env self mb" "parses_texts env" "index_small (mb_index mb)"
  shows "map lg_seq (origin_rows (mb_index mb) t og) = map (\<lambda>i. of_nat (Suc i)) [0..<length (origin_rows (mb_index mb) t og)]
    \<and> distinct (map lg_event (sx_log (mb_index mb))) \<and> journal_reachable (sy_journal env) (mb_journal mb)"
  using member_sound [OF assms] by (simp add: index_ok_def log_ok_def counted_def origin_rows_rows)

theorem replication_index_sound_witness:
  "map lg_seq (origin_rows (mb_index sample_sender) ''t'' ''a'')
    = map (\<lambda>i. of_nat (Suc i)) [0..<length (origin_rows (mb_index sample_sender) ''t'' ''a'')] \<and> length (sx_log (mb_index sample_sender)) = 1"
proof -
  have l: "length (sx_log (mb_index sample_sender)) = 1" using arg_cong [OF sample_sender_holds(3), of length] by simp
  with replication_index_sound [OF sample_sender_reachable sample_env_simps(1) sample_small [OF l], of "''t''" "''a''"] show ?thesis by simp
qed

text \<open>C17: What a member holds of another origin is always the beginning of what the origin's index says: an import of
  events the sender exported from its index, in any order and with any repeated or missing, keeps it so for
  every thread and origin.\<close>

theorem import_keeps_prefix:
  assumes "member_reachable env self mb" "member_reachable env other sender" "parses_texts env" "prints_back env (mb_journal sender)"
    "index_small (mb_index mb')" "index_small (mb_index sender)" "\<forall>r\<in>set (sx_log (mb_index sender)). row_matches (mb_journal sender) r"
    "\<forall>t og. og \<noteq> self \<longrightarrow> begins (mb_index mb) (mb_index sender) t og"
    "\<forall>ev\<in>set evs. \<exists>t og known budget fits es rest. export_rows env sender t og known budget = (fits, es, rest) \<and> ev \<in> set es"
    "swarm_import env draw now scope (Some self) evs mb = Some (mb', n, posts)" "og \<noteq> self"
  shows "begins (mb_index mb') (mb_index sender) t og"
proof -
  note moves = import_moves_of [OF assms(10,3)]
  have "index_small (mb_index mb)" using moves_grow [OF moves] assms(5) by (auto simp: index_small_def dest: prefix_length_le)
  then have ok: "index_ok (mb_index mb)" "index_ok (mb_index sender)"
    using member_sound [OF assms(1,3)] member_sound [OF assms(2,3,6)] by simp_all
  have "honest env (mb_index sender) ev" if ev: "ev \<in> set evs" for ev
  proof -
    obtain t og known budget fits es rest where e: "export_rows env sender t og known budget = (fits, es, rest)" "ev \<in> set es"
      using assms(9) ev by blast
    let ?rows = "take max_rows_per_origin (sort_key lg_seq (filter (\<lambda>r. lg_seq r > known) (origin_rows (mb_index sender) t og)))"
    have "set ?rows \<subseteq> set (origin_rows (mb_index sender) t og)" by (auto dest!: in_set_takeD)
    moreover have "set (origin_rows (mb_index sender) t og) \<subseteq> set (sx_log (mb_index sender))" by (auto simp: origin_rows_def)
    ultimately show ?thesis using e assms(7)
      by (intro exported_honest [OF e(1) [unfolded export_rows_def] assms(4) e(2)]) auto
  qed
  with moves_begin [OF moves ok(1) assms(5) ok(2) assms(8)] assms(11) show ?thesis by blast
qed

theorem import_keeps_prefix_witness:
  "\<exists>mb' posts. swarm_import sync_sample (\<lambda>_. (''x'', ''u'', ''v'')) ''now'' (Some sample_scope) (Some ''b'') [sample_sent] sample_empty
      = Some (mb', 1, posts) \<and> begins (mb_index mb') (mb_index sample_sender) ''t'' ''a''"
proof -
  obtain mb' posts where i: "swarm_import sync_sample (\<lambda>_. (''x'', ''u'', ''v'')) ''now'' (Some sample_scope) (Some ''b'') [sample_sent] sample_empty
      = Some (mb', 1, posts)" and log: "map row_sig (sx_log (mb_index mb')) = [(1, ''run'', ''1'', Some ''r'', Some 1)]"
    using sample_received by (elim exE conjE)
  have small: "index_small (mb_index mb')" "index_small (mb_index sample_sender)"
    using arg_cong [OF log, of length] arg_cong [OF sample_sender_holds(3), of length] by (simp_all add: sample_small)
  have printed: "prints_back sync_sample (mb_journal sample_sender)"
    by (simp add: prints_back_def sample_sender_holds sync_sample_def)
  have match: "\<forall>r\<in>set (sx_log (mb_index sample_sender)). row_matches (mb_journal sample_sender) r"
  proof
    fix r assume "r \<in> set (sx_log (mb_index sample_sender))"
    then have "row_sig r \<in> set (map row_sig (sx_log (mb_index sample_sender)))" by simp
    then have "row_sig r = (1, ''run'', ''1'', Some ''r'', Some 1)" unfolding sample_sender_holds(3) by simp
    moreover have "e_event_id e = ''1''" if "run_event (mb_journal sample_sender) ''r'' 1 = Some e" for e
      using run_event_is [OF that] sample_sender_holds(1) sample_first_id by auto
    ultimately show "row_matches (mb_journal sample_sender) r" by (auto simp: row_sig_def row_matches_def)
  qed
  have start: "\<forall>t og. og \<noteq> ''b'' \<longrightarrow> begins (mb_index sample_empty) (mb_index sample_sender) t og"
    by (simp add: begins_def origin_rows_def sample_empty_def empty_index_def)
  have "\<exists>t og known budget fits es rest. export_rows sync_sample sample_sender t og known budget = (fits, es, rest) \<and> sample_sent \<in> set es"
    using sample_sends by (intro exI) (rule conjI, assumption, simp)
  then have "begins (mb_index mb') (mb_index sample_sender) ''t'' ''a''"
    by (intro import_keeps_prefix [OF sample_empty_reachable sample_sender_reachable sample_env_simps(1) printed small match start _ i]) simp_all
  with i show ?thesis by blast
qed

text \<open>A member's clock never claims an event its journal lacks: every row an import adds to the index names an event
  of another origin that the journal holds when the import ends.\<close>

theorem import_claims_only_held:
  assumes "swarm_import env draw now scope (Some self) evs mb = Some (mb', n, posts)" "parses_texts env"
    "r \<in> set (sx_log (mb_index mb')) - set (sx_log (mb_index mb))"
  shows "journal_holds (mb_journal mb') (lg_kind r) (lg_event r) \<and> lg_origin r \<noteq> self"
  using moves_held [OF import_moves_of [OF assms(1,2)]] assms(3) by simp

theorem import_claims_only_held_witness:
  "\<exists>mb' posts r. swarm_import sync_sample (\<lambda>_. (''x'', ''u'', ''v'')) ''now'' (Some sample_scope) (Some ''b'') [sample_sent] sample_empty
      = Some (mb', 1, posts) \<and> r \<in> set (sx_log (mb_index mb')) \<and> journal_holds (mb_journal mb') (lg_kind r) (lg_event r)"
proof -
  obtain mb' posts where i: "swarm_import sync_sample (\<lambda>_. (''x'', ''u'', ''v'')) ''now'' (Some sample_scope) (Some ''b'') [sample_sent] sample_empty
      = Some (mb', 1, posts)" and log: "map row_sig (sx_log (mb_index mb')) = [(1, ''run'', ''1'', Some ''r'', Some 1)]"
    using sample_received by (elim exE conjE)
  then obtain r where r: "r \<in> set (sx_log (mb_index mb'))" by (cases "sx_log (mb_index mb')") auto
  moreover have "r \<notin> set (sx_log (mb_index sample_empty))" by (simp add: sample_empty_def empty_index_def)
  ultimately show ?thesis using import_claims_only_held [OF i sample_env_simps(1), of r] i by blast
qed

text \<open>Deleting a run, as retention does, leaves its rows in the index, and the export stops at the first of them: a peer
  that lacks that row is sent nothing more of the origin in the thread, and is told that nothing was left out.\<close>

theorem deleted_run_stops_export:
  assumes "delete_run run (mb_journal mb) = (hashes, db)" "lg_kind r = ''run''" "lg_run r = Some run" "lg_run_seq r = Some n"
    "sort_key lg_seq (filter (\<lambda>r. lg_seq r > known) (origin_rows (mb_index mb) t og)) = r # later"
  shows "export_rows env (mb\<lparr>mb_journal := db\<rparr>) t og known budget = (True, [], budget)"
proof -
  have "run_events db run = []" using assms(1) by (auto simp: delete_run_def Let_def run_events_def filter_empty_conv)
  then have "run_event db run n = None" by (simp add: run_event_def run_events_after_def limit_rows_def journal_events_def)
  then have "exported env db r = None" using assms(2-4) by (simp add: exported_def)
  then show ?thesis by (simp add: export_rows_def assms(5) max_rows_per_origin_def)
qed

theorem deleted_run_stops_export_witness:
  "export_rows sync_sample (sample_sender\<lparr>mb_journal := snd (delete_run ''r'' (mb_journal sample_sender))\<rparr>) ''t'' ''a'' 0 1 = (True, [], 1)"
proof -
  have "case sort_key lg_seq (filter (\<lambda>r. lg_seq r > 0) (origin_rows (mb_index sample_sender) ''t'' ''a'')) of
      r # later \<Rightarrow> lg_kind r = ''run'' \<and> lg_run r = Some ''r'' \<and> lg_run_seq r = Some 1 | [] \<Rightarrow> False"
    by code_simp
  then obtain r later where "sort_key lg_seq (filter (\<lambda>r. lg_seq r > 0) (origin_rows (mb_index sample_sender) ''t'' ''a'')) = r # later"
      "lg_kind r = ''run''" "lg_run r = Some ''r''" "lg_run_seq r = Some 1" by (auto split: list.splits)
  then show ?thesis by (intro deleted_run_stops_export) (auto simp: prod_eq_iff)
qed

end
