(* ===== verification/Reconciliation.thy ===== *)
theory Reconciliation
  imports Live_Chat
begin

text \<open>
  Runs left open by a runtime that stopped (\<open>journal/reconciliation.rs\<close>): at the next start each is marked as
  needing attention. The new event ids and times are arguments, by run.
\<close>

section \<open>Event types by run\<close>

record run_event_type =
  ret_run :: string
  ret_seq :: u64
  ret_type :: string

definition events_by_run :: "journal_db \<Rightarrow> event_envelope list" where
  "events_by_run db = sort_key (\<lambda>e. (e_run_id e, e_run_seq e)) (db_events db)"

definition type_row :: "event_envelope \<Rightarrow> run_event_type" where
  "type_row e = \<lparr>ret_run = e_run_id e, ret_seq = e_run_seq e, ret_type = e_type e\<rparr>"

definition run_event_types :: "journal_db \<Rightarrow> run_event_type list" where
  "run_event_types db = map type_row (events_by_run db)"

text \<open>\<open>slice::chunk_by\<close>.\<close>

fun chunk_by :: "('a \<Rightarrow> 'a \<Rightarrow> bool) \<Rightarrow> 'a list \<Rightarrow> 'a list list" where
  "chunk_by same [] = []"
| "chunk_by same [x] = [[x]]"
| "chunk_by same (x # y # xs) =
     (if same x y then (case chunk_by same (y # xs) of [] \<Rightarrow> [[x]] | c # cs \<Rightarrow> (x # c) # cs)
      else [x] # chunk_by same (y # xs))"

section \<open>Reconciling\<close>

definition ending_types :: "string list" where
  "ending_types = [''run.completed'', ''run.cancelled'', ''run.failed'', ''run.needs_attention'']"

definition working_types :: "string list" where
  "working_types = [''run.started'', ''run.resumed'', ''chat.attachment.ingested'', ''runtime.pi_session.bound'',
     ''model.prompt.accepted'', ''model.turn.started'', ''model.routing.stage'', ''model.stream.delta'',
     ''permission.requested'', ''permission.resolved'', ''tool.effect.started'', ''tool.effect.completed'',
     ''tool.effect.failed'', ''run.steered'']"

definition neutral_types :: "string list" where
  "neutral_types = [''user.prompt.submitted'', ''route.selected'', ''capability.used'', ''receipt.finalized'']"

fun types_terminal :: "nat \<Rightarrow> bool \<Rightarrow> run_event_type list \<Rightarrow> bool" where
  "types_terminal index at_end [] = at_end"
| "types_terminal index at_end (row # rows) =
     (if ret_seq row \<noteq> of_nat index + 1 then False
      else if ret_type row \<in> set ending_types then types_terminal (Suc index) True rows
      else if ret_type row \<in> set working_types then types_terminal (Suc index) False rows
      else if ret_type row \<in> set neutral_types then types_terminal (Suc index) at_end rows
      else False)"

definition event_types_are_terminal :: "run_event_type list \<Rightarrow> bool" where
  "event_types_are_terminal rows = types_terminal 0 False rows"

definition attention_event :: "string \<Rightarrow> string \<Rightarrow> provenance \<Rightarrow> string \<Rightarrow> u64 \<Rightarrow> event_envelope" where
  "attention_event event_id at pv run seq = \<lparr>e_event_id = event_id, e_run_id = run, e_run_seq = seq,
     e_type = ''run.needs_attention'', e_version = 1, e_envelope_version = 1, e_recorded_at = at, e_occurred_at = None,
     e_correlation = None, e_causation = None, e_payload = Inline (JObject [(''reason'', JString ''interrupted'')]),
     e_provenance = pv, e_extra = []\<rparr>"

text \<open>One pass of the loop; the result of the append is dropped.\<close>

definition reconcile_run :: "journal_env \<Rightarrow> payload_reader \<Rightarrow> thread_ids \<Rightarrow> (string \<Rightarrow> string) \<Rightarrow> (string \<Rightarrow> string) \<Rightarrow> provenance
    \<Rightarrow> run_event_type list \<Rightarrow> journal_db \<Rightarrow> journal_db option" where
  "reconcile_run env rd ids draw at pv rows db =
     (if event_types_are_terminal rows then Some db
      else
        (let run = ret_run (hd rows) in
         case reduce rd (journal_events db run) of
           Inl _ \<Rightarrow> Some db
         | Inr s \<Rightarrow>
             if is_terminal s then Some db
             else (case journal_append env ids (rs_last_seq s)
                       (attention_event (draw run) (at run) pv run (rs_last_seq s + 1)) db of
                     None \<Rightarrow> None
                   | Some (Inl _) \<Rightarrow> Some db
                   | Some (Inr db') \<Rightarrow> Some db')))"

fun reconcile_runs :: "journal_env \<Rightarrow> payload_reader \<Rightarrow> thread_ids \<Rightarrow> (string \<Rightarrow> string) \<Rightarrow> (string \<Rightarrow> string) \<Rightarrow> provenance
    \<Rightarrow> run_event_type list list \<Rightarrow> journal_db \<Rightarrow> journal_db option" where
  "reconcile_runs env rd ids draw at pv [] db = Some db"
| "reconcile_runs env rd ids draw at pv (rows # rest) db =
     Option.bind (reconcile_run env rd ids draw at pv rows db) (\<lambda>db. reconcile_runs env rd ids draw at pv rest db)"

definition reconcile_interrupted_runs :: "journal_env \<Rightarrow> payload_reader \<Rightarrow> thread_ids \<Rightarrow> (string \<Rightarrow> string) \<Rightarrow> (string \<Rightarrow> string)
    \<Rightarrow> provenance \<Rightarrow> journal_db \<Rightarrow> journal_db option" where
  "reconcile_interrupted_runs env rd ids draw at pv db =
     reconcile_runs env rd ids draw at pv (chunk_by (\<lambda>l r. ret_run l = ret_run r) (run_event_types db)) db"

section \<open>Chunks of a sorted list\<close>

lemma chunk_by_hd: "chunk_by same (x # xs) = c # cs \<Longrightarrow> hd c = x \<and> c \<noteq> []"
  by (induction same "x # xs" arbitrary: x xs c cs rule: chunk_by.induct) (auto split: if_splits list.splits)

lemma chunk_by_map: "chunk_by same (map f xs) = map (map f) (chunk_by (\<lambda>x y. same (f x) (f y)) xs)"
  by (induction "\<lambda>x y. same (f x) (f y)" xs rule: chunk_by.induct) (auto split: list.splits)

text \<open>When the list is sorted by the key, its chunks are the rows of each key.\<close>

lemma chunk_by_sorted:
  fixes key :: "'a \<Rightarrow> 'k::linorder"
  assumes "sorted (map key xs)"
  shows "\<exists>ks. chunk_by (\<lambda>x y. key x = key y) xs = map (\<lambda>k. filter (\<lambda>x. key x = k) xs) ks
    \<and> distinct ks \<and> set ks = key ` set xs"
  using assms
proof (induction "\<lambda>x y. key x = key y" xs rule: chunk_by.induct)
  case (2 x)
  then show ?case by (intro exI [of _ "[key x]"]) simp
next
  case (3 x y xs)
  then have srt: "sorted (map key (y # xs))" and le: "key x \<le> key y" by simp_all
  show ?case
  proof (cases "key x = key y")
    case True
    from 3(1) [OF True srt] obtain ks where ks: "chunk_by (\<lambda>x y. key x = key y) (y # xs) = map (\<lambda>k. filter (\<lambda>x. key x = k) (y # xs)) ks"
      "distinct ks" "set ks = key ` set (y # xs)" by blast
    then obtain k ks' where k: "ks = k # ks'" by (cases ks) auto
    with ks(1) chunk_by_hd [of "\<lambda>x y. key x = key y" y xs] have "hd (filter (\<lambda>x. key x = k) (y # xs)) = y" "filter (\<lambda>x. key x = k) (y # xs) \<noteq> []"
      by auto
    then have "key y = k" by (metis (mono_tags, lifting) filter_set hd_in_set mem_Collect_eq set_filter)
    then show ?thesis using ks k True by (intro exI [of _ ks]) (auto intro!: filter_cong)
  next
    case False
    with le have lt: "key x < key y" by simp
    then have other: "key x \<notin> key ` set (y # xs)" using srt by auto
    from 3(2) [OF False srt] obtain ks where ks: "chunk_by (\<lambda>x y. key x = key y) (y # xs) = map (\<lambda>k. filter (\<lambda>x. key x = k) (y # xs)) ks"
      "distinct ks" "set ks = key ` set (y # xs)" by blast
    have "filter (\<lambda>z. key z = key x) (y # xs) = []" using other by (metis (mono_tags, lifting) filter_empty_conv imageI)
    then show ?thesis using ks other False by (intro exI [of _ "key x # ks"]) auto
  qed
qed simp

lemma events_by_run_filter:
  assumes "journal_ok db"
  shows "filter (\<lambda>e. e_run_id e = run) (events_by_run db) = run_events db run"
proof -
  have "sorted (map (\<lambda>e. (e_run_id e, e_run_seq e)) (run_events db run))"
    using counted_sorted [OF reachable_counted [OF assms, of run]]
    by (auto simp: run_events_def sorted_wrt_map less_eq_prod_simp sorted_map
      elim!: sorted_wrt_mono_rel [rotated])
  then show ?thesis unfolding events_by_run_def filter_sort run_events_def by (rule sort_key_id_if_sorted)
qed

lemma run_chunks:
  assumes "journal_ok db"
  obtains runs where "chunk_by (\<lambda>l r. ret_run l = ret_run r) (run_event_types db) = map (\<lambda>run. map type_row (run_events db run)) runs"
    "distinct runs" "set runs = e_run_id ` set (db_events db)"
proof -
  have "sorted (map (\<lambda>e. (e_run_id e, e_run_seq e)) (events_by_run db))" by (simp add: events_by_run_def)
  then have "sorted (map e_run_id (events_by_run db))"
    by (auto simp: sorted_map less_eq_prod_simp elim!: sorted_wrt_mono_rel [rotated])
  from chunk_by_sorted [OF this] obtain ks where ks:
    "chunk_by (\<lambda>x y. e_run_id x = e_run_id y) (events_by_run db) = map (\<lambda>k. filter (\<lambda>x. e_run_id x = k) (events_by_run db)) ks"
    "distinct ks" "set ks = e_run_id ` set (events_by_run db)" by blast
  show thesis
    by (rule that [of ks])
      (use ks in \<open>simp_all add: run_event_types_def chunk_by_map type_row_def events_by_run_filter [OF assms], simp add: events_by_run_def\<close>)
qed

section \<open>The quick scan\<close>

lemma type_row_sel: "ret_run (type_row e) = e_run_id e" "ret_seq (type_row e) = e_run_seq e" "ret_type (type_row e) = e_type e"
  by (simp_all add: type_row_def)

lemma reducer_apply_Inr:
  "reducer_apply rd r e = Inr r' \<longleftrightarrow> precheck r e = Inr () \<and> transition rd r e = Inr r'"
  by (auto simp: reducer_apply_def result_bind_Inr_iff)

lemma ending_transition:
  assumes "transition rd r e = Inr r'" "e_type e \<in> set ending_types"
  shows "\<exists>s. rr_state r' = Some s \<and> is_terminal s"
  using assms
  by (auto simp: ending_types_def transition_def transition_defs is_terminal_def set_status_def split: if_splits)

lemma neutral_transition:
  "e_type e \<in> set neutral_types \<Longrightarrow> transition rd r e = other_event r e"
  by (auto simp: neutral_types_def transition_def)

lemma scan_sound:
  assumes "types_terminal index at_end (map type_row es)" "reducer_applies rd r es = Inr r'"
    "at_end \<longrightarrow> (\<exists>s. rr_state r = Some s \<and> is_terminal s)"
  shows "\<exists>s. rr_state r' = Some s \<and> is_terminal s"
  using assms
proof (induction es arbitrary: index at_end r)
  case (Cons e es)
  then obtain r1 where r1: "transition rd r e = Inr r1" "reducer_applies rd r1 es = Inr r'"
    by (auto simp: result_bind_Inr_iff reducer_apply_Inr)
  consider (ending) "e_type e \<in> set ending_types" "types_terminal (Suc index) True (map type_row es)"
    | (working) "types_terminal (Suc index) False (map type_row es)"
    | (neutral) "e_type e \<in> set neutral_types" "types_terminal (Suc index) at_end (map type_row es)"
    using Cons.prems(1) by (auto simp: type_row_sel split: if_splits)
  then show ?case
  proof cases
    case ending
    then show ?thesis using Cons.IH [OF _ r1(2)] ending_transition [OF r1(1)] by blast
  next
    case working
    then show ?thesis using Cons.IH [OF _ r1(2)] by blast
  next
    case neutral
    then have "at_end \<longrightarrow> (\<exists>s. rr_state r1 = Some s \<and> is_terminal s)"
      using Cons.prems(3) r1(1) by (auto simp: neutral_transition other_event_def is_terminal_def)
    then show ?thesis using Cons.IH [OF neutral(2) r1(2)] by blast
  qed
qed simp

definition unsettled :: "payload_reader \<Rightarrow> event_envelope list \<Rightarrow> bool" where
  "unsettled rd es = (case reduce rd es of Inl _ \<Rightarrow> False | Inr s \<Rightarrow> \<not> is_terminal s)"

lemma quick_scan_sound:
  assumes "event_types_are_terminal (map type_row es)"
  shows "\<not> unsettled rd es"
proof (cases "reducer_applies rd reducer_new es")
  case (Inr r)
  from scan_sound [OF assms [unfolded event_types_are_terminal_def] Inr] obtain s where "rr_state r = Some s" "is_terminal s" by auto
  with Inr show ?thesis
    by (auto simp: unsettled_def reduce_def reducer_finish_def is_terminal_def split: if_splits list.splits run_status.splits)
qed (simp add: unsettled_def reduce_def)

section \<open>Settling a run\<close>

lemma reduced_last: "reduce rd es = Inr s \<Longrightarrow> rs_last_seq s + 1 = of_nat (Suc (length es))"
proof (elim reduceE)
  fix r s0 assume "reducer_applies rd reducer_new es = Inr r" "rr_state r = Some s0" "rs_last_seq s = rs_last_seq s0"
  then show ?thesis using applies_last [of rd reducer_new es r 1] reducer_new_ok(2) by (simp add: expected_seq_def add.commute)
qed

lemma attention_settles:
  assumes "reduce rd es = Inr s" "\<forall>e\<in>set es. e_run_id e = run"
  shows "\<exists>s'. reduce rd (es @ [attention_event i at pv run (rs_last_seq s + 1)]) = Inr s' \<and> is_terminal s'"
proof -
  from assms(1) obtain r s0 where r: "reducer_applies rd reducer_new es = Inr r" "rr_state r = Some s0" "rs_last_seq s = rs_last_seq s0"
    by (elim reduceE)
  have "es \<noteq> []" using assms(1) by (auto simp: reduce_def reducer_new_def reducer_finish_def)
  then have "rs_run_id s0 = run"
    using applies_numbers [OF r(1), of 0] r(2) assms(2) by (auto simp: run_of_def)
  then have "reducer_apply rd r (attention_event i at pv run (rs_last_seq s + 1))
      = Inr (set_status r (attention_event i at pv run (rs_last_seq s + 1)) (NeedsAttention (Recorded ''interrupted'')))"
    using r(2,3) by (simp add: reducer_apply_def precheck_def attention_event_def expected_seq_def is_safety_event_def
      starts_with_def transition_def needs_attention_def optional_field_def payload_def)
  then show ?thesis using r(1) by (simp add: reduce_def reducer_applies_snoc reducer_finish_def set_status_def is_terminal_def)
qed

text \<open>Everything the journal holds was validated when it was written.\<close>

definition all_valid :: "journal_env \<Rightarrow> journal_db \<Rightarrow> bool" where
  "all_valid env db \<longleftrightarrow> (\<forall>e\<in>set (db_events db). validate_envelope env e = Inr ())"

lemma check_batch_valid: "check_batch env run n es = Inr u \<Longrightarrow> \<forall>e\<in>set es. validate_envelope env e = Inr ()"
  by (induction es arbitrary: n) (auto simp: result_bind_Inr_iff split: if_splits)

lemma batch_valid:
  assumes "append_batch env ids expected es db = Some (Inr db')" "all_valid env db"
  shows "all_valid env db'"
proof (cases "es = [] \<or> all_existing env db es = Inr True")
  case True
  with assms show ?thesis by (auto simp: append_batch_def and_then_Inr_iff split: list.splits)
next
  case False
  then have "check_batch env (e_run_id (hd es)) expected es = Inr ()"
    using assms(1) by (auto simp: append_batch_def and_then_Inr_iff split: list.splits)
  with batch_events [OF assms(1)] False check_batch_valid assms(2) show ?thesis by (fastforce simp: all_valid_def)
qed

lemma created_events: "append_thread_created_with_provenance env ids w at b pv db = Inr db' \<Longrightarrow> db_events db' = db_events db"
  by (auto simp: append_thread_created_with_provenance_def insert_thread_event_def result_bind_Inr_iff Let_def split: if_splits)

lemma new_run_events:
  assumes "insert_new_run env workspace e db = Some (Inr db')"
  shows "db_events db' = db_events db @ [e]"
  using assms update_projections_Inr(2)
  by (fastforce simp: insert_new_run_def and_then_Inr_iff insert_event_Inr insert_workspace_def split: if_splits)

lemma step_valid: "journal_step env db db' \<Longrightarrow> all_valid env db \<Longrightarrow> all_valid env db'"
proof (induction rule: journal_step.induct)
  case (batch ids expected es db db')
  then show ?case by (blast intro: batch_valid)
next
  case (new_run ids workspace e db t db')
  then have v: "validate_envelope env e = Inr ()" by (auto simp: append_new_run_def and_then_Inr_iff)
  from new_run obtain db1 where "insert_new_run env workspace e db = Some (Inr db1)" "db_events db' = db_events db1"
    by (auto simp: append_new_run_def and_then_Inr_iff append_thread_created_def insert_run_thread_def dest!: created_events split: if_splits)
  with new_run_events v new_run(3) show ?case by (auto simp: all_valid_def)
next
  case (run_in_thread workspace t f e db db')
  then obtain p db1 where "validate_envelope env (e\<lparr>e_payload := p\<rparr>) = Inr ()" "insert_new_run env workspace (e\<lparr>e_payload := p\<rparr>) db = Some (Inr db1)"
    "db_events db' = db_events db1"
    by (fastforce simp: append_new_run_in_thread_with_payload_def and_then_Inr_iff Let_def insert_run_thread_def
      split: if_splits option.splits sum.splits)
  with new_run_events run_in_thread(3) show ?case by (fastforce simp: all_valid_def)
next
  case (deleted run db hashes db')
  then show ?case by (auto simp: delete_run_def all_valid_def Let_def)
next
  case (bound ids run workspace db db')
  then have "db_events db' = db_events db"
    by (auto simp: bind_run_workspace_def result_bind_Inr_iff append_thread_created_def insert_run_thread_def Let_def
      dest!: created_events split: if_splits)
  with bound show ?case by (simp add: all_valid_def)
next
  case (new_thread ids workspace at pv db t db')
  then have "db_events db' = db_events db" by (auto simp: create_thread_def result_bind_Inr_iff dest: created_events)
  with new_thread show ?case by (simp add: all_valid_def)
next
  case (thread_event i expected t ty at body pv db db')
  then have "db_events db' = db_events db"
    by (auto simp: append_thread_event_def result_bind_Inr_iff insert_thread_event_def Let_def split: if_splits option.splits)
  with thread_event show ?case by (simp add: all_valid_def)
next
  case (thread_with_id event_id t workspace at pv db made db')
  then have "db_events db' = db_events db"
    by (auto simp: create_thread_with_id_def result_bind_Inr_iff insert_thread_event_def Let_def dest: created_events split: if_splits option.splits)
  with thread_with_id show ?case by (simp add: all_valid_def)
next
  case (event_with_id e db x db')
  then have "db_events db' = db_events db"
    by (auto simp: append_thread_event_with_id_def result_bind_Inr_iff insert_thread_event_def Let_def split: if_splits option.splits)
  with event_with_id show ?case by (simp add: all_valid_def)
qed

lemma reachable_valid: "journal_reachable env db \<Longrightarrow> all_valid env db"
  by (induction rule: journal_reachable.induct) (simp_all add: step_valid, simp add: all_valid_def empty_journal_def)

section \<open>The whole pass\<close>

text \<open>What the host gives the pass: new ids and canonical times, and a named source.\<close>

definition host_ready :: "journal_env \<Rightarrow> (string \<Rightarrow> string) \<Rightarrow> (string \<Rightarrow> string) \<Rightarrow> provenance \<Rightarrow> journal_db \<Rightarrow> bool" where
  "host_ready env draw at pv db \<longleftrightarrow> \<not> blank (pv_source pv) \<and> \<not> blank (pv_source_version pv)
     \<and> list_all (\<lambda>e. je_uuid7 env (draw (e_run_id e)) \<and> je_time env (at (e_run_id e)) = Some (0, at (e_run_id e))
         \<and> draw (e_run_id e) \<notin> e_event_id ` set (db_events db)
         \<and> list_all (\<lambda>e'. draw (e_run_id e') = draw (e_run_id e) \<longrightarrow> e_run_id e' = e_run_id e) (db_events db)) (db_events db)"

definition attention_after :: "(string \<Rightarrow> string) \<Rightarrow> (string \<Rightarrow> string) \<Rightarrow> provenance \<Rightarrow> journal_db \<Rightarrow> string \<Rightarrow> event_envelope" where
  "attention_after draw at pv db run = attention_event (draw run) (at run) pv run (of_nat (Suc (length (run_events db run))))"

lemma attention_named: "\<not> blank ''run.needs_attention''"
  by code_simp

lemma attention_appended:
  assumes ok: "journal_ok db" and run: "run_events db run \<noteq> []" "length (run_events db run) < 2 ^ 64 - 1"
    and valid: "je_uuid7 env run" "je_uuid7 env i" "je_time env t = Some (0, t)" "\<not> blank (pv_source pv)" "\<not> blank (pv_source_version pv)"
    and new: "i \<notin> e_event_id ` set (db_events db)"
  defines "e \<equiv> attention_event i t pv run (of_nat (Suc (length (run_events db run))))"
  shows "\<exists>db'. journal_append env ids (of_nat (length (run_events db run))) e db = Some (Inr db') \<and> db_events db' = db_events db @ [e]
    \<and> journal_ok db' \<and> journal_step env db db'"
proof -
  let ?n = "length (run_events db run)"
  have c: "counted e_run_seq (run_events db run)" using reachable_counted [OF ok] .
  have small: "Suc ?n < 2 ^ 64" using run(2) by simp
  have seq: "(of_nat (Suc ?n) :: u64) \<noteq> 0" "(of_nat ?n :: u64) \<noteq> 0"
    using of_nat_u64_inj [OF small, of 0] of_nat_u64_inj [of ?n 0] small run(1) by auto
  have lst: "last_run_seq db run = of_nat ?n" unfolding last_run_seq_def by (rule counted_max [OF c])
  have check: "check_batch env run (of_nat ?n) [e] = Inr ()"
    using seq(1) valid attention_named by (simp add: e_def attention_event_def validate_envelope_def validate_uuid7_def validate_time_def add.commute)
  have "e_run_seq x < of_nat (Suc ?n)" if "x \<in> set (run_events db run)" for x
  proof -
    from that obtain j where "j < ?n" "run_events db run ! j = x" by (auto simp: in_set_conv_nth)
    with counted_nth [OF c] of_nat_u64_less [OF _ small, of "Suc j"] small show ?thesis by auto
  qed
  then have con: "event_constraint db e" using new seq(1)
    by (fastforce simp: event_constraint_def e_def attention_event_def list_all_iff run_events_def word_greater_zero_iff)
  have proj: "update_projections env e (db\<lparr>db_events := db_events db @ [e]\<rparr>) = Some (Inr (db\<lparr>db_events := db_events db @ [e]\<rparr>))"
    by (simp add: update_projections_def e_def attention_event_def update_thread_projection_def update_receipt_def update_pending_def)
  have "find (\<lambda>x. e_event_id x = e_event_id e) (db_events db) = None"
    using new by (auto simp: find_None_iff e_def attention_event_def)
  then have a: "journal_append env ids (of_nat ?n) e db = Some (Inr (db\<lparr>db_events := db_events db @ [e]\<rparr>))"
    using check lst seq(2) con proj
    by (simp add: journal_append_def append_batch_def insert_event_def e_def attention_event_def)
  moreover have "list_all valid_texts [e]" by (simp add: valid_texts_def e_def attention_event_def inline_text_def)
  ultimately show ?thesis using journal_append_batch [OF ok a [unfolded journal_append_def]] journal_step.batch [OF a [unfolded journal_append_def]]
    by auto
qed

lemma reconcile_run_result:
  assumes ok: "journal_ok db" "all_valid env db" and run: "run \<in> e_run_id ` set (db_events db)" "length (db_events db) < 2 ^ 64 - 1"
    and valid: "je_uuid7 env (draw run)" "je_time env (at run) = Some (0, at run)" "\<not> blank (pv_source pv)" "\<not> blank (pv_source_version pv)"
    and new: "draw run \<notin> e_event_id ` set (db_events db)"
  shows "\<exists>db'. reconcile_run env rd ids draw at pv (map type_row (run_events db run)) db = Some db'
    \<and> db_events db' = db_events db @ (if unsettled rd (run_events db run) then [attention_after draw at pv db run] else [])
    \<and> journal_ok db' \<and> (db' = db \<or> journal_step env db db')"
proof -
  have ne: "run_events db run \<noteq> []" using run(1) by (auto simp: run_events_def filter_empty_conv)
  have hd: "ret_run (hd (map type_row (run_events db run))) = run"
    using ne hd_in_set [OF ne] by (simp add: hd_map type_row_sel run_events_def)
  have ev: "journal_events db run = run_events db run" unfolding journal_events_def by (rule sort_counted [OF reachable_counted [OF ok(1)]])
  show ?thesis
  proof (cases "unsettled rd (run_events db run)")
    case True
    then obtain s where s: "reduce rd (run_events db run) = Inr s" "\<not> is_terminal s" by (auto simp: unsettled_def split: sum.splits)
    have "rs_last_seq s = of_nat (length (run_events db run))" using reduced_last [OF s(1)] by (simp add: add.commute)
    moreover have "\<not> event_types_are_terminal (map type_row (run_events db run))" using quick_scan_sound True by blast
    moreover have "je_uuid7 env run" using run(1) ok(2)
      by (auto simp: all_valid_def validate_envelope_def validate_uuid7_def result_bind_Inr_iff split: if_splits)
    moreover have "length (run_events db run) \<le> length (db_events db)" by (simp add: run_events_def)
    ultimately show ?thesis using True s hd ev attention_appended [OF ok(1) ne _ _ valid(1,2,3,4) new, of ids] run(2)
      by (auto simp: reconcile_run_def attention_after_def Let_def add.commute)
  next
    case False
    then show ?thesis using hd ev ok(1) by (auto simp: reconcile_run_def unsettled_def Let_def split: sum.splits)
  qed
qed

lemma run_events_snoc: "db_events db' = db_events db @ xs \<Longrightarrow> run_events db' run = run_events db run @ filter (\<lambda>e. e_run_id e = run) xs"
  by (simp add: run_events_def)

text \<open>The runs in turn: a run waiting for its pass is untouched by the passes before.\<close>

lemma reconcile_runs_result:
  assumes "journal_ok db" "all_valid env db" "distinct runs" "set runs \<subseteq> e_run_id ` set (db_events db)"
    "length (db_events db) + length runs < 2 ^ 64 - 1"
    "\<forall>run\<in>set runs. je_uuid7 env (draw run) \<and> je_time env (at run) = Some (0, at run) \<and> draw run \<notin> e_event_id ` set (db_events db)"
    "inj_on draw (set runs)" "\<not> blank (pv_source pv)" "\<not> blank (pv_source_version pv)"
    "\<forall>run\<in>set runs. rows run = run_events db run"
  shows "\<exists>db'. reconcile_runs env rd ids draw at pv (map (\<lambda>run. map type_row (rows run)) runs) db = Some db'
    \<and> db_events db' = db_events db @ map (attention_after draw at pv db) (filter (\<lambda>run. unsettled rd (run_events db run)) runs)
    \<and> journal_ok db' \<and> (journal_reachable env db \<longrightarrow> journal_reachable env db')"
  using assms
proof (induction runs arbitrary: db)
  case (Cons run runs)
  let ?new = "if unsettled rd (run_events db run) then [attention_after draw at pv db run] else []"
  from reconcile_run_result [OF Cons.prems(1,2), of run draw at pv rd ids] Cons.prems(4,5,6,8,9,10)
  obtain db1 where db1: "reconcile_run env rd ids draw at pv (map type_row (rows run)) db = Some db1"
    "db_events db1 = db_events db @ ?new" "journal_ok db1" "db1 = db \<or> journal_step env db db1" by auto
  have same: "run_events db1 r = run_events db r" if "r \<noteq> run" for r
    using run_events_snoc [OF db1(2), of r] that by (simp add: attention_after_def attention_event_def)
  have valid: "all_valid env db1" using db1(4) step_valid Cons.prems(2) by blast
  have other: "\<forall>r\<in>set runs. r \<noteq> run \<and> draw r \<noteq> draw run" using Cons.prems(3,7) by (auto simp: inj_on_def)
  have "\<exists>db'. reconcile_runs env rd ids draw at pv (map (\<lambda>run. map type_row (rows run)) runs) db1 = Some db'
    \<and> db_events db' = db_events db1 @ map (attention_after draw at pv db1) (filter (\<lambda>run. unsettled rd (run_events db1 run)) runs)
    \<and> journal_ok db' \<and> (journal_reachable env db1 \<longrightarrow> journal_reachable env db')"
  proof (rule Cons.IH [OF db1(3) valid])
    show "set runs \<subseteq> e_run_id ` set (db_events db1)" using Cons.prems(4) db1(2) by auto
    show "length (db_events db1) + length runs < 2 ^ 64 - 1" using Cons.prems(5) db1(2) by simp
    show "\<forall>run\<in>set runs. je_uuid7 env (draw run) \<and> je_time env (at run) = Some (0, at run) \<and> draw run \<notin> e_event_id ` set (db_events db1)"
      using Cons.prems(6) other by (auto simp: db1(2) attention_after_def attention_event_def)
    show "\<forall>run\<in>set runs. rows run = run_events db1 run" using Cons.prems(10) same other by simp
  qed (use Cons.prems in \<open>auto simp: inj_on_def\<close>)
  moreover have "map (attention_after draw at pv db1) (filter (\<lambda>run. unsettled rd (run_events db1 run)) runs)
      = map (attention_after draw at pv db) (filter (\<lambda>run. unsettled rd (run_events db run)) runs)"
    using same other by (auto simp: attention_after_def intro!: map_cong filter_cong)
  moreover have "journal_reachable env db1" if "journal_reachable env db" using db1(4) that journal_reachable.step by blast
  ultimately show ?case using db1(1,2) by auto
qed auto

text \<open>With every run settled the pass changes nothing.\<close>

lemma reconcile_settled:
  assumes "journal_ok db" "\<And>run. \<not> unsettled rd (run_events db run)"
  shows "reconcile_interrupted_runs env rd ids draw at pv db = Some db"
proof -
  obtain runs where runs: "chunk_by (\<lambda>l r. ret_run l = ret_run r) (run_event_types db) = map (\<lambda>run. map type_row (run_events db run)) runs"
    by (rule run_chunks [OF assms(1)])
  have ev: "journal_events db run = run_events db run" for run
    unfolding journal_events_def by (rule sort_counted [OF reachable_counted [OF assms(1)]])
  have "reconcile_run env rd ids draw at pv rows db = Some db" for rows
    using assms(2) [of "ret_run (hd rows)"] by (auto simp: reconcile_run_def ev unsettled_def Let_def split: sum.splits)
  then have "reconcile_runs env rd ids draw at pv all db = Some db" for all by (induction all) simp_all
  then show ?thesis by (simp add: reconcile_interrupted_runs_def)
qed

lemma reconcile_result:
  assumes "journal_reachable env db" "2 * length (db_events db) < 2 ^ 64 - 1" "host_ready env draw at pv db"
  shows "\<exists>db' runs. reconcile_interrupted_runs env rd ids draw at pv db = Some db' \<and> distinct runs \<and> set runs = e_run_id ` set (db_events db)
    \<and> db_events db' = db_events db @ map (attention_after draw at pv db) (filter (\<lambda>run. unsettled rd (run_events db run)) runs)
    \<and> journal_reachable env db'"
proof -
  have ok: "journal_ok db" "all_valid env db" using assms(1) reachable_ok reachable_valid by blast+
  obtain runs where runs: "chunk_by (\<lambda>l r. ret_run l = ret_run r) (run_event_types db) = map (\<lambda>run. map type_row (run_events db run)) runs"
    "distinct runs" "set runs = e_run_id ` set (db_events db)" by (rule run_chunks [OF ok(1)])
  have "length runs \<le> length (db_events db)" by (metis card_image_le card_length distinct_card finite_set le_trans runs(2,3))
  then have "length (db_events db) + length runs < 2 ^ 64 - 1" using assms(2) by simp
  from reconcile_runs_result [OF ok runs(2) _ this, of draw at pv "run_events db" rd ids] assms(1,3) runs
  show ?thesis by (auto simp: host_ready_def list_all_iff inj_on_def reconcile_interrupted_runs_def)
qed

lemma filter_attention:
  assumes "distinct runs"
  shows "filter (\<lambda>e. e_run_id e = run) (map (attention_after draw at pv db) runs)
    = (if run \<in> set runs then [attention_after draw at pv db run] else [])"
  using assms by (induction runs) (auto simp: attention_after_def attention_event_def)

text \<open>C25: Once the interrupted runs are reconciled, every run the reducer accepts has settled: one that had is as it was,
  and one that was still open has exactly one event more, with which the reducer accepts it as settled. A run
  the reducer refuses is left alone, the journal is one its operations can write, and a second pass
  changes nothing.\<close>

theorem interrupted_runs_settled:
  assumes "journal_reachable env db" "2 * length (db_events db) < 2 ^ 64 - 1" "host_ready env draw at pv db"
  shows "\<exists>db'. reconcile_interrupted_runs env rd ids draw at pv db = Some db' \<and> journal_reachable env db'
    \<and> (\<forall>run. case reduce rd (run_events db run) of
        Inl _ \<Rightarrow> run_events db' run = run_events db run
      | Inr s \<Rightarrow> if is_terminal s then run_events db' run = run_events db run
          else run_events db' run = run_events db run @ [attention_after draw at pv db run]
            \<and> (\<exists>s'. reduce rd (run_events db' run) = Inr s' \<and> is_terminal s'))
    \<and> reconcile_interrupted_runs env rd ids' draw' at' pv' db' = Some db'"
proof -
  from reconcile_result [OF assms] obtain db' runs where r: "reconcile_interrupted_runs env rd ids draw at pv db = Some db'"
    "distinct runs" "set runs = e_run_id ` set (db_events db)" "journal_reachable env db'"
    "db_events db' = db_events db @ map (attention_after draw at pv db) (filter (\<lambda>run. unsettled rd (run_events db run)) runs)" by blast
  have none: "\<not> unsettled rd (run_events db run)" if "run \<notin> set runs" for run
  proof -
    have "run_events db run = []" using that r(3) by (auto simp: run_events_def filter_empty_conv)
    then show ?thesis by (simp add: unsettled_def reduce_def reducer_new_def reducer_finish_def)
  qed
  have ev: "run_events db' run = run_events db run @ (if unsettled rd (run_events db run) then [attention_after draw at pv db run] else [])" for run
    using run_events_snoc [OF r(5), of run] filter_attention [of "filter (\<lambda>run. unsettled rd (run_events db run)) runs" run] r(2) none by auto
  have settles: "\<exists>s'. reduce rd (run_events db' run) = Inr s' \<and> is_terminal s'" if "unsettled rd (run_events db run)" for run
  proof -
    from that obtain s where s: "reduce rd (run_events db run) = Inr s" by (auto simp: unsettled_def split: sum.splits)
    have "rs_last_seq s + 1 = of_nat (Suc (length (run_events db run)))"
      by (rule reduced_last [OF s])
    with attention_settles [OF s, of run "draw run" "at run" pv] ev [of run] that show ?thesis
      by (auto simp: attention_after_def run_events_def)
  qed
  have "\<not> unsettled rd (run_events db' run)" for run
    using settles [of run] ev [of run] by (cases "unsettled rd (run_events db run)") (auto simp: unsettled_def)
  with reconcile_settled reachable_ok r(4) have "reconcile_interrupted_runs env rd ids' draw' at' pv' db' = Some db'" by blast
  then show ?thesis using r(1,4) ev settles by (auto simp: unsettled_def split: sum.splits)
qed

lemma sample_events: "db_events sample_journal = sample_batch"
  by code_simp

definition sample_host :: provenance where
  "sample_host = \<lparr>pv_source = ''s'', pv_source_version = ''1'', pv_actor_id = None, pv_device_id = None,
     pv_rpc_request_id = None, pv_capability_versions = None, pv_extra = []\<rparr>"

lemma sample_ready: "host_ready sample_env (\<lambda>_. ''new'') (\<lambda>_. ''now'') sample_host sample_journal"
  by code_simp

theorem interrupted_runs_settled_witness:
  "\<exists>db'. reconcile_interrupted_runs sample_env sample_payloads (''u'', ''v'') (\<lambda>_. ''new'') (\<lambda>_. ''now'') sample_host sample_journal = Some db'
    \<and> run_events db' ''r'' = sample_batch @ [attention_event ''new'' ''now'' sample_host ''r'' 3]"
proof -
  have n: "2 * length (db_events sample_journal) < 2 ^ 64 - 1" by (simp add: sample_events, simp add: sample_batch_def)
  have s: "case reduce sample_payloads sample_batch of Inl _ \<Rightarrow> False | Inr s \<Rightarrow> \<not> is_terminal s" by code_simp
  have "attention_after (\<lambda>_. ''new'') (\<lambda>_. ''now'') sample_host sample_journal ''r'' = attention_event ''new'' ''now'' sample_host ''r'' 3"
    by (simp add: attention_after_def sample_stored) (simp add: sample_batch_def)
  with interrupted_runs_settled [OF sample_reachable n sample_ready, of sample_payloads "(''u'', ''v'')" "(''u'', ''v'')" "\<lambda>_. ''new''" "\<lambda>_. ''now''" sample_host]
    s show ?thesis by (force simp: sample_stored split: sum.splits if_splits)
qed

end
