(* ===== verification/Object_Store.thy ===== *)
theory Object_Store
  imports Journal_History
begin

text \<open>
  The content-addressed store of objects (\<open>cas/mod.rs\<close>). The files under \<open>objects\<close> are a list of directory, name
  and content in the order the directories list them, and the entries of the root hold the temporary files.
  SHA-256 is an argument. Which step of a write fails, and whether the clean-up after it fails too, are arguments;
  an error leaves what the steps before it did.
\<close>

section \<open>Addresses\<close>

datatype cas_error = CasIo | InvalidHash string | ObjectNotFound string | CorruptObject string string

text \<open>\<open>ContentHash::from_str\<close>.\<close>

definition is_content_hash :: "string \<Rightarrow> bool" where
  "is_content_hash s \<longleftrightarrow> length s = 64 \<and> list_all lower_hex s"

definition content_hash :: "string \<Rightarrow> cas_error + string" where
  "content_hash s = (if is_content_hash s then Inr s else Inl (InvalidHash s))"

definition object_path :: "string \<Rightarrow> string \<times> string" where
  "object_path h = (take 2 h, drop 2 h)"

section \<open>The store\<close>

record root_entry =
  re_name :: string
  re_file :: bool
  re_modified :: int

record cas_store =
  cs_files :: "((string \<times> string) \<times> string) list"
  cs_root :: "root_entry list"

definition temp_file_prefix :: string where "temp_file_prefix = ''.cas-tmp-''"

definition stale_temp_age :: int where "stale_temp_age = 24 * 60 * 60"

definition temp_name :: "nat \<Rightarrow> u64 \<Rightarrow> string" where
  "temp_name pid n = temp_file_prefix @ dec_str pid @ ''-'' @ dec_str (unat n)"

text \<open>\<open>create_temp_file\<close>: the process-wide counter advances until a name is free, with fuel for the tries. The
  result is the name and the counter after it.\<close>

fun create_temp_file :: "nat \<Rightarrow> nat \<Rightarrow> u64 \<Rightarrow> cas_store \<Rightarrow> (string \<times> u64) option" where
  "create_temp_file 0 pid n cas = None"
| "create_temp_file (Suc fuel) pid n cas =
     (if temp_name pid n \<in> re_name ` set (cs_root cas) then create_temp_file fuel pid (n + 1) cas
      else Some (temp_name pid n, n + 1))"

definition is_stale :: "int \<Rightarrow> root_entry \<Rightarrow> bool" where
  "is_stale now e \<longleftrightarrow> starts_with (re_name e) temp_file_prefix \<and> re_file e \<and> stale_temp_age \<le> max 0 (now - re_modified e)"

definition sweep_stale_temp_files :: "int \<Rightarrow> cas_store \<Rightarrow> cas_store" where
  "sweep_stale_temp_files now cas = cas\<lparr>cs_root := filter (\<lambda>e. \<not> is_stale now e) (cs_root cas)\<rparr>"

section \<open>Writing\<close>

text \<open>The content a reader gives: its blocks up to the first empty one.\<close>

definition read_blocks :: "string list \<Rightarrow> string" where
  "read_blocks blocks = concat (takeWhile (\<lambda>b. b \<noteq> []) blocks)"

datatype put_fault = Fine | FailedRead | FailedSync | FailedDirs | FailedLink | FailedRemove

text \<open>The hard link publishes the file, and leaves an object that is there already.\<close>

definition link :: "string \<Rightarrow> string \<Rightarrow> cas_store \<Rightarrow> cas_store" where
  "link h bytes cas = (if object_path h \<in> fst ` set (cs_files cas) then cas
     else cas\<lparr>cs_files := cs_files cas @ [(object_path h, bytes)]\<rparr>)"

definition put_reader :: "(string \<Rightarrow> string) \<Rightarrow> put_fault \<Rightarrow> bool \<Rightarrow> int \<Rightarrow> string \<Rightarrow> string list \<Rightarrow> cas_store
    \<Rightarrow> (cas_error + string) \<times> cas_store" where
  "put_reader sha fault left now temporary blocks cas =
     (let bytes = read_blocks blocks;
          cas1 = cas\<lparr>cs_root := cs_root cas @ [\<lparr>re_name = temporary, re_file = True, re_modified = now\<rparr>]\<rparr>;
          cleaned = (\<lambda>c. if left then c else c\<lparr>cs_root := filter (\<lambda>e. re_name e \<noteq> temporary) (cs_root c)\<rparr>);
          linked = link (sha bytes) bytes cas1
      in if fault \<in> {FailedRead, FailedSync, FailedDirs, FailedLink} then (Inl CasIo, cleaned cas1)
         else if fault = FailedRemove then (Inl CasIo, cleaned linked)
         else (Inr (sha bytes), linked\<lparr>cs_root := filter (\<lambda>e. re_name e \<noteq> temporary) (cs_root linked)\<rparr>))"

definition cas_put :: "(string \<Rightarrow> string) \<Rightarrow> put_fault \<Rightarrow> bool \<Rightarrow> int \<Rightarrow> string \<Rightarrow> string \<Rightarrow> cas_store \<Rightarrow> (cas_error + string) \<times> cas_store" where
  "cas_put sha fault left now temporary bytes cas = put_reader sha fault left now temporary [bytes] cas"

section \<open>Reading\<close>

definition get_object :: "cas_store \<Rightarrow> string \<Rightarrow> string option" where
  "get_object cas h = map_of (cs_files cas) (object_path h)"

definition get_verified :: "(string \<Rightarrow> string) \<Rightarrow> cas_store \<Rightarrow> string \<Rightarrow> cas_error + string" where
  "get_verified sha cas h =
     (case get_object cas h of
        None \<Rightarrow> Inl (ObjectNotFound h)
      | Some bytes \<Rightarrow> if sha bytes \<noteq> h then Inl (CorruptObject h (sha bytes)) else Inr bytes)"

definition read_range :: "cas_store \<Rightarrow> string \<Rightarrow> u64 \<Rightarrow> u64 \<Rightarrow> cas_error + string" where
  "read_range cas h offset len =
     (case get_object cas h of
        None \<Rightarrow> Inl (ObjectNotFound h)
      | Some bytes \<Rightarrow>
          (let object_length = of_nat (length bytes) in
           if offset > object_length \<or> len > object_length - offset then Inl CasIo
           else Inr (take (unat len) (drop (unat offset) bytes))))"

definition has_object :: "cas_store \<Rightarrow> string \<Rightarrow> bool" where
  "has_object cas h \<longleftrightarrow> get_object cas h \<noteq> None"

definition verify :: "(string \<Rightarrow> string) \<Rightarrow> cas_store \<Rightarrow> string \<Rightarrow> cas_error + unit" where
  "verify sha cas h =
     (case get_object cas h of
        None \<Rightarrow> Inl (ObjectNotFound h)
      | Some bytes \<Rightarrow> if sha bytes = h then Inr () else Inl (CorruptObject h (sha bytes)))"

text \<open>The enumeration skips what is not at the path of an object.\<close>

fun listed_hash :: "string \<times> string \<Rightarrow> string option" where
  "listed_hash (prefix, suffix) =
     (if length prefix \<noteq> 2 \<or> \<not> list_all lower_hex prefix then None
      else if is_content_hash (prefix @ suffix) then Some (prefix @ suffix) else None)"

definition object_hashes :: "cas_store \<Rightarrow> string list" where
  "object_hashes cas = List.map_filter (listed_hash \<circ> fst) (cs_files cas)"

section \<open>Removing\<close>

definition remove_object :: "string \<Rightarrow> cas_store \<Rightarrow> cas_store" where
  "remove_object h cas = cas\<lparr>cs_files := filter (\<lambda>f. fst f \<noteq> object_path h) (cs_files cas)\<rparr>"

text \<open>The sweep; \<open>stuck\<close> is the objects whose file cannot be removed.\<close>

fun sweep :: "(string \<Rightarrow> bool) \<Rightarrow> string list \<Rightarrow> string list \<Rightarrow> string list \<Rightarrow> cas_store \<Rightarrow> (cas_error + string list) \<times> cas_store" where
  "sweep stuck keep [] removed cas = (Inr removed, cas)"
| "sweep stuck keep (h # hs) removed cas =
     (if h \<in> set keep then sweep stuck keep hs removed cas
      else if stuck h then (Inl CasIo, cas)
      else sweep stuck keep hs (removed @ [h]) (remove_object h cas))"

definition collect_unreferenced :: "(string \<Rightarrow> bool) \<Rightarrow> string list \<Rightarrow> cas_store \<Rightarrow> (cas_error + string list) \<times> cas_store" where
  "collect_unreferenced stuck keep cas = sweep stuck keep (object_hashes cas) [] cas"

section \<open>What the store keeps\<close>

text \<open>Every path is used once, and what lies at an object's path is its content.\<close>

definition addressed :: "(string \<Rightarrow> string) \<Rightarrow> cas_store \<Rightarrow> bool" where
  "addressed sha cas \<longleftrightarrow> distinct (map fst (cs_files cas))
     \<and> (\<forall>f\<in>set (cs_files cas). \<forall>h. listed_hash (fst f) = Some h \<longrightarrow> sha (snd f) = h)"

lemma object_path_inj: "object_path h = object_path h' \<longleftrightarrow> h = h'"
  by (metis append_take_drop_id object_path_def prod.inject)

lemma listed_path: "listed_hash p = Some h \<longleftrightarrow> is_content_hash h \<and> p = object_path h"
  by (cases p) (auto simp: object_path_def is_content_hash_def list_all_iff dest: in_set_takeD in_set_dropD split: if_splits)

lemma addressed_get: "addressed sha cas \<Longrightarrow> is_content_hash h \<Longrightarrow> get_object cas h = Some bytes \<Longrightarrow> sha bytes = h"
  unfolding addressed_def get_object_def listed_path by (force dest!: map_of_SomeD)

lemma addressed_root: "addressed sha (cas\<lparr>cs_root := x\<rparr>) = addressed sha cas"
  by (simp add: addressed_def)

lemma addressed_link: "addressed sha cas \<Longrightarrow> addressed sha (link (sha bytes) bytes cas)"
  by (auto simp: addressed_def link_def listed_path object_path_inj)

lemma addressed_put: "addressed sha cas \<Longrightarrow> addressed sha (snd (put_reader sha fault left now temporary blocks cas))"
  by (simp add: put_reader_def Let_def addressed_root addressed_link)

lemma addressed_remove: "addressed sha cas \<Longrightarrow> addressed sha (remove_object h cas)"
  by (auto simp: addressed_def remove_object_def distinct_map_filter)

lemma get_object_None: "get_object cas h = None \<longleftrightarrow> object_path h \<notin> fst ` set (cs_files cas)"
  by (simp add: get_object_def map_of_eq_None_iff)

lemma map_of_filter_key: "map_of (filter (\<lambda>f. fst f \<noteq> k) xs) k' = (if k' = k then None else map_of xs k')"
  by (induction xs) auto

lemma get_remove: "get_object (remove_object h cas) h' = (if h' = h then None else get_object cas h')"
  by (simp add: get_object_def remove_object_def object_path_inj map_of_filter_key)

lemma get_link: "get_object (link h bytes cas) h' =
    (if h' = h \<and> get_object cas h = None then Some bytes else get_object cas h')"
proof (cases "get_object cas h")
  case None
  then have "map_of (cs_files cas) (object_path h) = None" "object_path h \<notin> fst ` set (cs_files cas)"
    by (simp_all add: get_object_def map_of_eq_None_iff)
  then show ?thesis by (simp add: get_object_def link_def object_path_inj map_add_def split: option.split)
next
  case (Some b)
  then have "object_path h \<in> fst ` set (cs_files cas)" using get_object_None [of cas h] by simp
  with Some show ?thesis by (simp add: link_def)
qed

lemma get_root: "get_object (cas\<lparr>cs_root := x\<rparr>) h = get_object cas h"
  by (simp add: get_object_def)

lemma sweep_result:
  assumes "sweep stuck keep hs removed cas = (r, cas')"
  shows "\<exists>gone. set gone \<subseteq> set hs - set keep \<and> (\<forall>h. get_object cas' h = (if h \<in> set gone then None else get_object cas h))
    \<and> (addressed sha cas \<longrightarrow> addressed sha cas')
    \<and> (\<forall>out. r = Inr out \<longrightarrow> out = removed @ gone \<and> gone = filter (\<lambda>h. h \<notin> set keep) hs)"
  using assms
proof (induction hs arbitrary: removed cas)
  case Nil
  then show ?case by (intro exI [of _ "[]"]) auto
next
  case (Cons h hs)
  show ?case
  proof (cases "h \<in> set keep \<or> stuck h")
    case True
    with Cons show ?thesis
      by (cases "h \<in> set keep") (fastforce intro: exI [of _ "[]"])+
  next
    case False
    with Cons.prems have "sweep stuck keep hs (removed @ [h]) (remove_object h cas) = (r, cas')" by simp
    from Cons.IH [OF this] obtain gone where g: "set gone \<subseteq> set hs - set keep"
      "\<forall>x. get_object cas' x = (if x \<in> set gone then None else get_object (remove_object h cas) x)"
      "addressed sha (remove_object h cas) \<longrightarrow> addressed sha cas'"
      "\<forall>out. r = Inr out \<longrightarrow> out = (removed @ [h]) @ gone \<and> gone = filter (\<lambda>h. h \<notin> set keep) hs" by blast
    then show ?thesis using False by (intro exI [of _ "h # gone"]) (auto simp: get_remove addressed_remove)
  qed
qed

lemma set_object_hashes: "set (object_hashes cas) = {h. is_content_hash h \<and> has_object cas h}"
proof -
  have "h \<in> set (object_hashes cas) \<longleftrightarrow> (\<exists>f\<in>set (cs_files cas). listed_hash (fst f) = Some h)" for h
    by (force simp: object_hashes_def List.map_filter_def)
  then show ?thesis by (force simp: has_object_def get_object_None listed_path)
qed

text \<open>Every history of a store.\<close>

inductive cas_reachable :: "(string \<Rightarrow> string) \<Rightarrow> cas_store \<Rightarrow> bool" for sha where
  opened: "cas_reachable sha \<lparr>cs_files = [], cs_root = root\<rparr>"
| put: "cas_reachable sha cas \<Longrightarrow> cas_reachable sha (snd (put_reader sha fault left now temporary blocks cas))"
| removed: "cas_reachable sha cas \<Longrightarrow> cas_reachable sha (remove_object h cas)"
| collected: "cas_reachable sha cas \<Longrightarrow> cas_reachable sha (snd (collect_unreferenced stuck keep cas))"
| swept: "cas_reachable sha cas \<Longrightarrow> cas_reachable sha (sweep_stale_temp_files now cas)"

lemma collect_result:
  assumes "collect_unreferenced stuck keep cas = (r, cas')"
  shows "\<exists>gone. set gone \<subseteq> {h. is_content_hash h \<and> has_object cas h} - set keep
    \<and> (\<forall>h. get_object cas' h = (if h \<in> set gone then None else get_object cas h))
    \<and> (addressed sha cas \<longrightarrow> addressed sha cas')
    \<and> (\<forall>out. r = Inr out \<longrightarrow> out = gone \<and> set gone = {h. is_content_hash h \<and> has_object cas h} - set keep)"
  using sweep_result [OF assms [unfolded collect_unreferenced_def], of sha]
  by (auto simp: set_object_hashes)

lemma reachable_addressed: "cas_reachable sha cas \<Longrightarrow> addressed sha cas"
proof (induction rule: cas_reachable.induct)
  case (collected cas stuck keep)
  then show ?case using collect_result [of stuck keep cas _ _ sha] by (metis prod.collapse)
qed (simp_all add: addressed_put addressed_remove sweep_stale_temp_files_def addressed_root, simp add: addressed_def)

lemma put_files: "get_object (snd (put_reader sha Fine left now temporary blocks cas)) h
    = get_object (link (sha (read_blocks blocks)) (read_blocks blocks) cas) h"
  by (simp add: put_reader_def Let_def get_root get_link)

lemma put_keeps: "get_object cas h = Some b \<Longrightarrow> get_object (snd (put_reader sha fault left now temporary blocks cas)) h = Some b"
  by (auto simp: put_reader_def Let_def get_root get_link)

lemma put_Inr:
  "put_reader sha fault left now temporary blocks cas = (Inr h, cas') \<Longrightarrow> h = sha (read_blocks blocks) \<and> fault = Fine"
  by (cases fault) (auto simp: put_reader_def Let_def)

definition sample_sha :: "string \<Rightarrow> string" where "sample_sha b = replicate 64 CHR ''a''"

lemma sample_sha: "is_content_hash (sample_sha b)"
  by (simp add: is_content_hash_def sample_sha_def lower_hex_def list_all_iff)

text \<open>C26: On every store the operations can write, an object that is there is read back verified; a write answers
  with the address of content that can be read back at once, the very bytes when the address was free;
  and a write that fails, or finds the object there, changes no object it found.\<close>

theorem objects_read_back:
  assumes "cas_reachable sha cas" "\<And>b. is_content_hash (sha b)"
  shows "(is_content_hash h \<longrightarrow> get_object cas h = Some b \<longrightarrow> get_verified sha cas h = Inr b \<and> verify sha cas h = Inr ())
    \<and> (put_reader sha fault left now temporary blocks cas = (r, cas') \<longrightarrow>
        (\<forall>h b. get_object cas h = Some b \<longrightarrow> get_object cas' h = Some b)
      \<and> (\<forall>h. r = Inr h \<longrightarrow> h = sha (read_blocks blocks) \<and> (\<exists>b. get_verified sha cas' h = Inr b \<and> sha b = h
           \<and> (get_object cas h = None \<longrightarrow> b = read_blocks blocks))))"
proof -
  have ok: "addressed sha cas" using reachable_addressed [OF assms(1)] .
  have found: "get_verified sha cas h = Inr b \<and> verify sha cas h = Inr ()" if "is_content_hash h" "get_object cas h = Some b" for h b
    using addressed_get [OF ok that] that(2) by (simp add: get_verified_def verify_def)
  have "\<forall>h b. get_object cas h = Some b \<longrightarrow> get_object cas' h = Some b" if "put_reader sha fault left now temporary blocks cas = (r, cas')"
    using put_keeps [of cas _ _ sha fault left now temporary blocks] that by simp
  moreover have "h = sha (read_blocks blocks) \<and> (\<exists>b. get_verified sha cas' h = Inr b \<and> sha b = h \<and> (get_object cas h = None \<longrightarrow> b = read_blocks blocks))"
    if p: "put_reader sha fault left now temporary blocks cas = (Inr h, cas')" for h
  proof -
    note w = put_Inr [OF p]
    then have "get_object cas' h = (if get_object cas h = None then Some (read_blocks blocks) else get_object cas h)"
      using put_files [of sha left now temporary blocks cas h] p by (simp add: get_link)
    then show ?thesis using w addressed_get [OF ok assms(2)] by (cases "get_object cas h") (auto simp: get_verified_def)
  qed
  ultimately show ?thesis using found by blast
qed

theorem objects_read_back_witness:
  "\<exists>b. get_verified sample_sha (snd (put_reader sample_sha Fine False 0 ''t'' [''ab'', ''c''] \<lparr>cs_files = [], cs_root = []\<rparr>)) (replicate 64 CHR ''a'') = Inr b
    \<and> b = ''abc''"
  using objects_read_back [OF cas_reachable.opened [of sample_sha "[]"] sample_sha, of "''''" "''''" Fine False 0 "''t''" "[''ab'', ''c'']"
      "Inr (replicate 64 CHR ''a'')"]
  by (auto simp: put_reader_def Let_def read_blocks_def link_def get_object_def get_verified_def sample_sha_def)

text \<open>Choosing the name of a temporary file ends: with one try more than the root has entries a free name is
  found, and it names no entry of the root.\<close>

theorem temp_file_found:
  assumes "length (cs_root cas) < fuel" "fuel < 2 ^ 64"
  shows "\<exists>name next. create_temp_file fuel pid n cas = Some (name, next) \<and> name \<notin> re_name ` set (cs_root cas)
    \<and> starts_with name temp_file_prefix"
proof -
  define used where "used = re_name ` set (cs_root cas)"
  have run: "(\<exists>name next. create_temp_file k pid m cas = Some (name, next) \<and> name \<notin> used \<and> starts_with name temp_file_prefix)
      \<or> (\<forall>i<k. temp_name pid (m + of_nat i) \<in> used)" for k m
  proof (induction k arbitrary: m)
    case (Suc k)
    show ?case
    proof (cases "temp_name pid m \<in> used")
      case True
      have "temp_name pid (m + of_nat i) \<in> used" if "\<forall>i<k. temp_name pid (m + 1 + of_nat i) \<in> used" "i < Suc k" for i
        using that True by (cases i) (auto simp: add.assoc [symmetric])
      with Suc.IH [of "m + 1"] True show ?thesis by (auto simp: used_def)
    qed (auto simp: used_def temp_name_def starts_with_iff)
  qed simp
  have "\<not> (\<forall>i<fuel. temp_name pid (n + of_nat i) \<in> used)"
  proof
    assume all: "\<forall>i<fuel. temp_name pid (n + of_nat i) \<in> used"
    have "inj_on (\<lambda>i. temp_name pid (n + of_nat i)) {..<fuel}"
    proof (rule inj_onI)
      fix i j assume ij: "i \<in> {..<fuel}" "j \<in> {..<fuel}" "temp_name pid (n + of_nat i) = temp_name pid (n + of_nat j)"
      then have "unat (n + of_nat i) = unat (n + of_nat j)" by (simp add: temp_name_def dec_str_inj)
      then have "(of_nat i :: u64) = of_nat j" by (metis add_left_cancel word_unat_eq_iff)
      moreover have "i < 2 ^ 64" "j < 2 ^ 64" using ij(1,2) assms(2) less_trans lessThan_iff by blast+
      ultimately show "i = j" using of_nat_u64_inj by blast
    qed
    then have "card ((\<lambda>i. temp_name pid (n + of_nat i)) ` {..<fuel}) = fuel" by (simp add: card_image)
    moreover have "(\<lambda>i. temp_name pid (n + of_nat i)) ` {..<fuel} \<subseteq> used" using all by auto
    moreover have "card used \<le> length (cs_root cas)" unfolding used_def by (metis card_image_le card_length finite_set le_trans)
    ultimately show False using assms(1) by (metis (no_types, lifting) card_mono finite_imageI finite_set leD le_less_trans used_def)
  qed
  with run [of fuel n] show ?thesis by (auto simp: used_def)
qed

theorem temp_file_found_witness:
  "\<exists>name next. create_temp_file 2 7 0 \<lparr>cs_files = [], cs_root = [\<lparr>re_name = ''.cas-tmp-7-0'', re_file = True, re_modified = 0\<rparr>]\<rparr>
     = Some (name, next) \<and> name \<noteq> ''.cas-tmp-7-0''"
  using temp_file_found [of "\<lparr>cs_files = [], cs_root = [\<lparr>re_name = ''.cas-tmp-7-0'', re_file = True, re_modified = 0\<rparr>]\<rparr>" 2 7 0] by auto

end
