(* ===== verification/Retention.thy ===== *)
theory Retention
  imports Reconciliation Object_Store Projection_Properties
begin

text \<open>
  Retention (\<open>journal/retention.rs\<close>): the runs that ended before the cutoff are deleted, and then the objects no
  remaining event names. The reading of times, the bounds of \<open>chrono\<close>'s arithmetic and the action before each
  deletion are arguments; that action has a state of its own and may stop the pass.
\<close>

section \<open>The pass\<close>

record deleted_run =
  dr_run :: string
  dr_subject :: "string option"
  dr_prompt_stored :: bool

datatype retention_error =
    RetentionJournal journal_error
  | RetentionCas cas_error
  | BeforeDelete
  | BeforeDeleteWithReason string
  | InvalidPolicy

record retention_outcome =
  ro_deleted :: "deleted_run list"
  ro_collected :: "string list"

record run_event_newest =
  ren_run :: string
  ren_seq :: u64
  ren_type :: string
  ren_newest :: string

definition newest_type_row :: "journal_db \<Rightarrow> event_envelope \<Rightarrow> run_event_newest" where
  "newest_type_row db e = \<lparr>ren_run = e_run_id e, ren_seq = e_run_seq e, ren_type = e_type e,
     ren_newest = e_recorded_at (last (journal_events db (e_run_id e)))\<rparr>"

definition run_event_types_with_newest_recorded_at :: "journal_db \<Rightarrow> run_event_newest list" where
  "run_event_types_with_newest_recorded_at db = map (newest_type_row db) (events_by_run db)"

fun ended :: "run_status \<Rightarrow> bool" where
  "ended Completed = True"
| "ended Cancelled = True"
| "ended (Failed _) = True"
| "ended _ = False"

definition older :: "(string \<Rightarrow> int option) \<Rightarrow> int \<Rightarrow> string \<Rightarrow> bool" where
  "older instant cutoff tx = (case instant tx of None \<Rightarrow> False | Some t \<Rightarrow> t < cutoff)"

text \<open>The checks of one pass of the loop, up to the action before the deletion.\<close>

definition retention_candidate :: "payload_reader \<Rightarrow> (string \<Rightarrow> int option) \<Rightarrow> int \<Rightarrow> run_event_newest list \<Rightarrow> journal_db \<Rightarrow> deleted_run option" where
  "retention_candidate rd instant cutoff rows db =
     (if \<not> list_ex (\<lambda>row. ren_type row \<in> {''run.completed'', ''run.cancelled'', ''run.failed''}) rows \<or> rows = [] then None
      else
        (let newest = last rows in
         if \<not> older instant cutoff (ren_newest newest) then None
         else
           (let events = journal_events db (ren_run newest) in
            if events = [] then None
            else (case reduce rd events of
                    Inl _ \<Rightarrow> None
                  | Inr s \<Rightarrow>
                      if \<not> ended (rs_status s) \<or> \<not> older instant cutoff (e_recorded_at (last events)) then None
                      else (case project_chat_fragment rd events of
                              Inl _ \<Rightarrow> None
                            | Inr shown \<Rightarrow> Some \<lparr>dr_run = ren_run newest, dr_subject = pv_actor_id (e_provenance (hd events)),
                                dr_prompt_stored = (cp_storage_notice shown = None)\<rparr>)))))"

fun retain_runs :: "payload_reader \<Rightarrow> (string \<Rightarrow> int option) \<Rightarrow> int \<Rightarrow> ('s \<Rightarrow> deleted_run \<Rightarrow> 's \<times> retention_error option)
    \<Rightarrow> run_event_newest list list \<Rightarrow> deleted_run list \<Rightarrow> journal_db \<Rightarrow> 's \<Rightarrow> (retention_error + deleted_run list) \<times> journal_db \<times> 's" where
  "retain_runs rd instant cutoff before [] deleted db st = (Inr deleted, db, st)"
| "retain_runs rd instant cutoff before (rows # rest) deleted db st =
     (case retention_candidate rd instant cutoff rows db of
        None \<Rightarrow> retain_runs rd instant cutoff before rest deleted db st
      | Some d \<Rightarrow>
          (case before st d of
             (st, Some err) \<Rightarrow> (Inl err, db, st)
           | (st, None) \<Rightarrow> retain_runs rd instant cutoff before rest (deleted @ [d]) (snd (delete_run (dr_run d) db)) st))"

definition collect_objects :: "(string \<Rightarrow> bool) \<Rightarrow> journal_db \<Rightarrow> cas_store option \<Rightarrow> (retention_error + string list) \<times> cas_store option" where
  "collect_objects stuck db cas =
     (case cas of
        None \<Rightarrow> (Inr [], None)
      | Some c \<Rightarrow>
          (case collect_unreferenced stuck (referenced_hashes_for_run db None) c of
             (Inl err, c) \<Rightarrow> (Inl (RetentionCas err), Some c)
           | (Inr removed, c) \<Rightarrow> (Inr (remdups removed), Some c)))"

definition apply_retention_with :: "payload_reader \<Rightarrow> (string \<Rightarrow> int option) \<Rightarrow> (int \<Rightarrow> int \<Rightarrow> int option) \<Rightarrow> (string \<Rightarrow> bool)
    \<Rightarrow> int \<Rightarrow> int \<Rightarrow> ('s \<Rightarrow> deleted_run \<Rightarrow> 's \<times> retention_error option) \<Rightarrow> journal_db \<Rightarrow> cas_store option \<Rightarrow> 's
    \<Rightarrow> (retention_error + retention_outcome) \<times> journal_db \<times> cas_store option \<times> 's" where
  "apply_retention_with rd instant sub stuck max_age now before db cas st =
     (if max_age < 0 then (Inl InvalidPolicy, db, cas, st)
      else (case sub now max_age of
              None \<Rightarrow> (Inl InvalidPolicy, db, cas, st)
            | Some cutoff \<Rightarrow>
                (case retain_runs rd instant cutoff before
                        (chunk_by (\<lambda>l r. ren_run l = ren_run r) (run_event_types_with_newest_recorded_at db)) [] db st of
                   (Inl err, db, st) \<Rightarrow> (Inl err, db, cas, st)
                 | (Inr deleted, db, st) \<Rightarrow>
                     (case collect_objects stuck db cas of
                        (Inl err, cas) \<Rightarrow> (Inl err, db, cas, st)
                      | (Inr collected, cas) \<Rightarrow>
                          (Inr \<lparr>ro_deleted = sort_key dr_run deleted, ro_collected = sort collected\<rparr>, db, cas, st)))))"

definition apply_retention :: "payload_reader \<Rightarrow> (string \<Rightarrow> int option) \<Rightarrow> (int \<Rightarrow> int \<Rightarrow> int option) \<Rightarrow> (string \<Rightarrow> bool)
    \<Rightarrow> int \<Rightarrow> int \<Rightarrow> journal_db \<Rightarrow> cas_store option \<Rightarrow> (retention_error + retention_outcome) \<times> journal_db \<times> cas_store option \<times> unit" where
  "apply_retention rd instant sub stuck max_age now db cas =
     apply_retention_with rd instant sub stuck max_age now (\<lambda>st d. (st, None)) db cas ()"

definition apply_retention_now_with :: "payload_reader \<Rightarrow> (string \<Rightarrow> int option) \<Rightarrow> (int \<Rightarrow> int \<Rightarrow> int option) \<Rightarrow> (string \<Rightarrow> bool)
    \<Rightarrow> (int \<Rightarrow> int option) \<Rightarrow> int \<Rightarrow> int \<Rightarrow> ('s \<Rightarrow> deleted_run \<Rightarrow> 's \<times> retention_error option) \<Rightarrow> journal_db \<Rightarrow> cas_store option \<Rightarrow> 's
    \<Rightarrow> (retention_error + retention_outcome) \<times> journal_db \<times> cas_store option \<times> 's" where
  "apply_retention_now_with rd instant sub stuck try_seconds max_age_seconds now before db cas st =
     (case try_seconds max_age_seconds of
        None \<Rightarrow> (Inl InvalidPolicy, db, cas, st)
      | Some max_age \<Rightarrow> apply_retention_with rd instant sub stuck max_age now before db cas st)"

definition apply_retention_now :: "payload_reader \<Rightarrow> (string \<Rightarrow> int option) \<Rightarrow> (int \<Rightarrow> int \<Rightarrow> int option) \<Rightarrow> (string \<Rightarrow> bool)
    \<Rightarrow> (int \<Rightarrow> int option) \<Rightarrow> int \<Rightarrow> int \<Rightarrow> journal_db \<Rightarrow> cas_store option
    \<Rightarrow> (retention_error + retention_outcome) \<times> journal_db \<times> cas_store option \<times> unit" where
  "apply_retention_now rd instant sub stuck try_seconds max_age_seconds now db cas =
     (case try_seconds max_age_seconds of
        None \<Rightarrow> (Inl InvalidPolicy, db, cas, ())
      | Some max_age \<Rightarrow> apply_retention rd instant sub stuck max_age now db cas)"

section \<open>What is expired\<close>

definition expired :: "payload_reader \<Rightarrow> (string \<Rightarrow> int option) \<Rightarrow> int \<Rightarrow> event_envelope list \<Rightarrow> bool" where
  "expired rd instant cutoff es =
     (case reduce rd es of
        Inl _ \<Rightarrow> False
      | Inr s \<Rightarrow> ended (rs_status s) \<and> older instant cutoff (e_recorded_at (last es))
          \<and> (case project_chat_fragment rd es of Inl _ \<Rightarrow> False | Inr _ \<Rightarrow> True))"

text \<open>A run has ended only by an event that ends it, so the scan of the types misses none.\<close>

lemma open_transitions:
  assumes "rr_state r' = Some s" "ended (rs_status s)"
  shows "run_started r e \<noteq> Inr r'" "acquire_started r e \<noteq> Inr r'" "acquire_completed r e \<noteq> Inr r'" "attachment_ingested r e \<noteq> Inr r'"
    "session_bound rd r e \<noteq> Inr r'" "require_executable r e Streaming \<noteq> Inr r'" "needs_attention r e \<noteq> Inr r'" "run_resumed r e \<noteq> Inr r'"
    "effect_started r e \<noteq> Inr r'" "effect_finished r e \<noteq> Inr r'" "gate_requested rd r e \<noteq> Inr r'" "gate_resolved r e \<noteq> Inr r'"
    "other_event r e = Inr r' \<Longrightarrow> \<exists>s. rr_state r = Some s \<and> ended (rs_status s)"
proof -
  show "effect_started r e \<noteq> Inr r'" "effect_finished r e \<noteq> Inr r'"
    using assms by (auto simp: effect_started_def effect_finished_def set_status_def result_bind_Inr_iff split: if_splits)
  show "gate_requested rd r e \<noteq> Inr r'"
    using assms by (auto simp: gate_requested_def set_status_def result_bind_Inr_iff split: option.splits if_splits)
  show "gate_resolved r e \<noteq> Inr r'"
    using assms by (cases "rr_gate r") (auto simp: gate_resolved_def set_status_def result_bind_Inr_iff split: if_splits)
  show "run_started r e \<noteq> Inr r'" "needs_attention r e \<noteq> Inr r'" "run_resumed r e \<noteq> Inr r'" "require_executable r e Streaming \<noteq> Inr r'"
    using assms by (auto simp: run_started_def needs_attention_def run_resumed_def require_executable_def set_status_def result_bind_Inr_iff)
  show "acquire_completed r e \<noteq> Inr r'" "acquire_started r e \<noteq> Inr r'"
    using assms by (auto simp: acquire_completed_def acquire_started_def set_status_def split: option.splits run_status.splits if_splits)
  show "attachment_ingested r e \<noteq> Inr r'"
    using assms by (auto simp: attachment_ingested_def require_active_def executable_def status_of_def set_status_def result_bind_Inr_iff split: if_splits)
  show "session_bound rd r e \<noteq> Inr r'"
    using assms by (auto simp: session_bound_def set_status_def result_bind_Inr_iff split: option.splits if_splits)
  show "other_event r e = Inr r' \<Longrightarrow> \<exists>s. rr_state r = Some s \<and> ended (rs_status s)"
    using assms by (auto simp: other_event_def split: option.splits)
qed

lemma ended_by_event:
  assumes "reducer_applies rd r es = Inr r'" "rr_state r' = Some s" "ended (rs_status s)"
  shows "(\<exists>s. rr_state r = Some s \<and> ended (rs_status s)) \<or> (\<exists>e\<in>set es. e_type e \<in> {''run.completed'', ''run.cancelled'', ''run.failed''})"
  using assms
proof (induction es arbitrary: r)
  case (Cons e es)
  then obtain r1 where r1: "transition rd r e = Inr r1" "reducer_applies rd r1 es = Inr r'"
    by (auto simp: result_bind_Inr_iff reducer_apply_Inr)
  have "\<exists>s. rr_state r = Some s \<and> ended (rs_status s)"
    if s: "rr_state r1 = Some s" "ended (rs_status s)" and ty: "e_type e \<notin> {''run.completed'', ''run.cancelled'', ''run.failed''}" for s
    using r1(1)
  proof (cases rule: transition_types)
    case other
    note open_transitions(1-4,6-8,13) [OF s, where r = r and e = e] open_transitions(5) [OF s, where r = r and e = e and rd = rd]
    with other(2) show ?thesis by simp
  qed (use open_transitions(9-12) [OF s] ty in blast)+
  with Cons.IH [OF r1(2) Cons.prems(2,3)] show ?case by auto
qed simp

lemma reduced_ended:
  assumes "reduce rd es = Inr s" "ended (rs_status s)"
  shows "es \<noteq> [] \<and> (\<exists>e\<in>set es. e_type e \<in> {''run.completed'', ''run.cancelled'', ''run.failed''})"
  using assms(1)
proof (elim reduceE)
  fix r s0 assume r: "reducer_applies rd reducer_new es = Inr r" "rr_state r = Some s0"
    "if rr_gate r = None \<and> rr_effects r \<noteq> [] then \<exists>why. rs_status s = NeedsAttention why else rs_status s = rs_status s0"
  with assms(2) have "ended (rs_status s0)" by (auto split: if_splits)
  from ended_by_event [OF r(1,2) this] show ?thesis by (auto simp: reducer_new_def)
qed

lemma candidate_exact:
  assumes "journal_ok db" "run_events db run \<noteq> []" "\<forall>e\<in>set es. e_run_id e = run" "map e_type es = map e_type (run_events db run)"
    "\<forall>row\<in>set rows. ren_newest row = e_recorded_at (last (run_events db run)) \<and> ren_run row = run"
    "map ren_type rows = map e_type (run_events db run)"
  shows "(retention_candidate rd instant cutoff rows db = None \<longleftrightarrow> \<not> expired rd instant cutoff (run_events db run))
    \<and> (\<forall>d. retention_candidate rd instant cutoff rows db = Some d \<longrightarrow> dr_run d = run)"
proof -
  have ne: "rows \<noteq> []" using assms(2,6) by auto
  then have lst: "last rows \<in> set rows" by simp
  have ev: "journal_events db run = run_events db run"
    unfolding journal_events_def by (rule sort_counted [OF reachable_counted [OF assms(1)]])
  have types: "list_ex (\<lambda>row. ren_type row \<in> T) rows \<longleftrightarrow> (\<exists>e\<in>set (run_events db run). e_type e \<in> T)" for T
    using arg_cong [OF assms(6), of set] by (auto simp: list_ex_iff) (metis imageE imageI)+
  show ?thesis
  proof (cases "\<exists>s. reduce rd (run_events db run) = Inr s \<and> ended (rs_status s)")
    case True
    then obtain s where s: "reduce rd (run_events db run) = Inr s" "ended (rs_status s)" by blast
    then have "list_ex (\<lambda>row. ren_type row \<in> {''run.completed'', ''run.cancelled'', ''run.failed''}) rows"
      using reduced_ended types by blast
    with s ne lst assms(2,5) ev show ?thesis by (auto simp: retention_candidate_def expired_def Let_def split: sum.splits)
  next
    case False
    then show ?thesis using lst assms(5) ev
      by (auto simp: retention_candidate_def expired_def Let_def split: sum.splits if_splits)
  qed
qed

section \<open>Deleting\<close>

lemma delete_run_events: "run_events (snd (delete_run run db)) r = (if r = run then [] else run_events db r)"
  by (auto simp: delete_run_def run_events_def Let_def filter_empty_conv intro: filter_cong)

lemma delete_run_step: "journal_step env db (snd (delete_run run db))"
  by (rule journal_step.deleted [OF surjective_pairing])

lemma newest_type_rows:
  assumes "journal_ok db"
  obtains runs where "chunk_by (\<lambda>l r. ren_run l = ren_run r) (run_event_types_with_newest_recorded_at db)
      = map (\<lambda>run. map (newest_type_row db) (run_events db run)) runs" "distinct runs" "set runs = e_run_id ` set (db_events db)"
proof -
  have "sorted (map (\<lambda>e. (e_run_id e, e_run_seq e)) (events_by_run db))" by (simp add: events_by_run_def)
  then have "sorted (map e_run_id (events_by_run db))"
    by (auto simp: sorted_map less_eq_prod_simp elim!: sorted_wrt_mono_rel [rotated])
  from chunk_by_sorted [OF this] obtain ks where ks:
    "chunk_by (\<lambda>x y. e_run_id x = e_run_id y) (events_by_run db) = map (\<lambda>k. filter (\<lambda>x. e_run_id x = k) (events_by_run db)) ks"
    "distinct ks" "set ks = e_run_id ` set (events_by_run db)" by blast
  show thesis
    by (rule that [of ks])
      (use ks in \<open>simp_all add: run_event_types_with_newest_recorded_at_def chunk_by_map newest_type_row_def events_by_run_filter [OF assms],
        simp add: events_by_run_def\<close>)
qed

text \<open>The passes in turn: each deletes its run exactly when it is expired, or stops.\<close>

lemma retain_runs_result:
  assumes "retain_runs rd instant cutoff before (map (\<lambda>run. map (newest_type_row db0) (run_events db0 run)) runs) deleted db st = (r, db', st')"
    "journal_ok db" "distinct runs" "journal_ok db0" "\<forall>run\<in>set runs. run_events db run = run_events db0 run \<and> run_events db0 run \<noteq> []"
  shows "\<exists>gone. set gone \<subseteq> {run \<in> set runs. expired rd instant cutoff (run_events db0 run)} \<and> distinct gone
    \<and> (\<forall>run. run_events db' run = (if run \<in> set gone then [] else run_events db run))
    \<and> (journal_reachable env db \<longrightarrow> journal_reachable env db')
    \<and> (\<forall>out. r = Inr out \<longrightarrow> map dr_run out = map dr_run deleted @ gone \<and> set gone = {run \<in> set runs. expired rd instant cutoff (run_events db0 run)})"
  using assms
proof (induction runs arbitrary: deleted db st)
  case (Cons run runs)
  let ?rows = "map (newest_type_row db0) (run_events db0 run)"
  have ev: "journal_events db0 run = run_events db0 run"
    unfolding journal_events_def by (rule sort_counted [OF reachable_counted [OF Cons.prems(4)]])
  have c: "(retention_candidate rd instant cutoff ?rows db = None \<longleftrightarrow> \<not> expired rd instant cutoff (run_events db run))
    \<and> (\<forall>d. retention_candidate rd instant cutoff ?rows db = Some d \<longrightarrow> dr_run d = run)"
    by (rule candidate_exact [OF Cons.prems(2)])
      (use Cons.prems(5) ev in \<open>auto simp: newest_type_row_def run_events_def\<close>)
  have same: "run_events db run = run_events db0 run" using Cons.prems(5) by simp
  show ?case
  proof (cases "retention_candidate rd instant cutoff ?rows db")
    case None
    with Cons.prems(1) have step: "retain_runs rd instant cutoff before (map (\<lambda>run. map (newest_type_row db0) (run_events db0 run)) runs) deleted db st = (r, db', st')"
      by simp
    have "{x \<in> set (run # runs). expired rd instant cutoff (run_events db0 x)} = {x \<in> set runs. expired rd instant cutoff (run_events db0 x)}"
      using None c same by auto
    with Cons.IH [OF step Cons.prems(2) _ Cons.prems(4)] Cons.prems(3,5) show ?thesis by simp
  next
    case (Some d)
    then have d: "dr_run d = run" "expired rd instant cutoff (run_events db0 run)" using c same by auto
    obtain st1 stop where b: "before st d = (st1, stop)" by (cases "before st d")
    show ?thesis
    proof (cases stop)
      case (Some err)
      with Cons.prems(1) \<open>retention_candidate rd instant cutoff ?rows db = Some d\<close> b have "r = Inl err" "db' = db" by simp_all
      then show ?thesis by (intro exI [of _ "[]"]) simp
    next
      case None
      let ?db = "snd (delete_run run db)"
      have step: "retain_runs rd instant cutoff before (map (\<lambda>run. map (newest_type_row db0) (run_events db0 run)) runs) (deleted @ [d]) ?db st1 = (r, db', st')"
        using Cons.prems(1) \<open>retention_candidate rd instant cutoff ?rows db = Some d\<close> b None d(1) by simp
      have ok: "journal_ok ?db" "journal_reachable env db \<longrightarrow> journal_reachable env ?db"
        using delete_run_step [of env db run] journal_delete [OF Cons.prems(2) surjective_pairing] journal_reachable.step by blast+
      have "\<forall>x\<in>set runs. run_events ?db x = run_events db0 x \<and> run_events db0 x \<noteq> []"
        using Cons.prems(3,5) by (auto simp: delete_run_events)
      from Cons.IH [OF step ok(1) _ Cons.prems(4) this] Cons.prems(3) obtain gone where g:
        "set gone \<subseteq> {run \<in> set runs. expired rd instant cutoff (run_events db0 run)}" "distinct gone"
        "\<forall>x. run_events db' x = (if x \<in> set gone then [] else run_events ?db x)" "journal_reachable env ?db \<longrightarrow> journal_reachable env db'"
        "\<forall>out. r = Inr out \<longrightarrow> map dr_run out = map dr_run (deleted @ [d]) @ gone \<and> set gone = {run \<in> set runs. expired rd instant cutoff (run_events db0 run)}"
        by auto
      then show ?thesis using d ok(2) Cons.prems(3) by (intro exI [of _ "run # gone"]) (auto simp: delete_run_events)
    qed
  qed
qed auto

lemma referenced: "h \<in> set (referenced_hashes_for_run db None) \<longleftrightarrow> (\<exists>run. \<exists>e\<in>set (run_events db run). payload_hash e = Some h)"
  by (force simp: referenced_hashes_for_run_def List.map_filter_def run_events_def)

lemma collect_objects_result:
  assumes "collect_objects stuck db cas = (r, cas')"
  shows "(\<forall>c. cas = Some c \<longrightarrow> (\<exists>c'. cas' = Some c' \<and> (\<forall>h. get_object c' h = get_object c h \<or> get_object c' h = None)
      \<and> (\<forall>h \<in> set (referenced_hashes_for_run db None). get_object c' h = get_object c h)
      \<and> (\<forall>out. r = Inr out \<longrightarrow> distinct out \<and> set out = {h. is_content_hash h \<and> has_object c h} - set (referenced_hashes_for_run db None)
           \<and> (\<forall>h\<in>set out. get_object c' h = None))))
    \<and> (cas = None \<longrightarrow> cas' = None \<and> r = Inr [])"
proof (cases cas)
  case (Some c)
  obtain x c' where x: "collect_unreferenced stuck (referenced_hashes_for_run db None) c = (x, c')" by fastforce
  from collect_result [OF this, of "\<lambda>_. []"] obtain gone where g: "set gone \<subseteq> {h. is_content_hash h \<and> has_object c h} - set (referenced_hashes_for_run db None)"
    "\<forall>h. get_object c' h = (if h \<in> set gone then None else get_object c h)"
    "\<forall>out. x = Inr out \<longrightarrow> out = gone \<and> set gone = {h. is_content_hash h \<and> has_object c h} - set (referenced_hashes_for_run db None)" by blast
  have "cas' = Some c'" "\<forall>out. r = Inr out \<longrightarrow> (\<exists>l. x = Inr l \<and> out = remdups l)"
    using assms Some x by (auto simp: collect_objects_def split: sum.splits)
  with g Some show ?thesis by auto
qed (use assms in \<open>simp add: collect_objects_def\<close>)

text \<open>C18: A retention pass deletes only runs that have ended, that can be shown, and whose last event is older than
  the cutoff, and when it returns an outcome it has deleted all of them, each named once in order. Every other
  run keeps its events. Whether it succeeds or not, an object some remaining event names is still stored with
  its content, and an outcome names exactly the unreferenced objects, now gone.\<close>

theorem retention_exact:
  assumes "journal_reachable env db" "apply_retention_with rd instant sub stuck max_age now before db (Some cas) st = (r, db', cas', st')"
    "0 \<le> max_age" "sub now max_age = Some cutoff"
  shows "journal_reachable env db'
    \<and> (\<forall>run. run_events db' run = run_events db run \<or> run_events db' run = [] \<and> expired rd instant cutoff (run_events db run))
    \<and> (\<exists>c. cas' = Some c \<and> (\<forall>run. \<forall>e\<in>set (run_events db' run). \<forall>h. payload_hash e = Some h \<longrightarrow> get_object c h = get_object cas h)
      \<and> (\<forall>out. r = Inr out \<longrightarrow>
          (\<forall>run. expired rd instant cutoff (run_events db run) \<longrightarrow> run_events db' run = [])
        \<and> sorted (map dr_run (ro_deleted out)) \<and> distinct (map dr_run (ro_deleted out))
        \<and> set (map dr_run (ro_deleted out)) = {run. expired rd instant cutoff (run_events db run)}
        \<and> set (ro_collected out) = {h. is_content_hash h \<and> has_object cas h} - {h. \<exists>run. \<exists>e\<in>set (run_events db' run). payload_hash e = Some h}
        \<and> (\<forall>h\<in>set (ro_collected out). \<not> has_object c h)))"
proof -
  have ok: "journal_ok db" using reachable_ok [OF assms(1)] .
  obtain runs where runs: "chunk_by (\<lambda>l r. ren_run l = ren_run r) (run_event_types_with_newest_recorded_at db)
      = map (\<lambda>run. map (newest_type_row db) (run_events db run)) runs" "distinct runs" "set runs = e_run_id ` set (db_events db)"
    by (rule newest_type_rows [OF ok])
  obtain x db1 st1 where x: "retain_runs rd instant cutoff before (map (\<lambda>run. map (newest_type_row db) (run_events db run)) runs) [] db st = (x, db1, st1)"
    by (metis surj_pair)
  have here: "run \<in> set runs \<longleftrightarrow> run_events db run \<noteq> []" for run using runs(3) by (auto simp: run_events_def filter_empty_conv)
  have some: "expired rd instant cutoff es \<Longrightarrow> es \<noteq> []" for es by (auto simp: expired_def reduce_def reducer_new_def reducer_finish_def)
  from retain_runs_result [OF x ok runs(2) ok, of env] here obtain gone where g: "set gone \<subseteq> {run \<in> set runs. expired rd instant cutoff (run_events db run)}"
    "distinct gone" "\<forall>run. run_events db1 run = (if run \<in> set gone then [] else run_events db run)" "journal_reachable env db1"
    "\<forall>out. x = Inr out \<longrightarrow> map dr_run out = gone \<and> set gone = {run \<in> set runs. expired rd instant cutoff (run_events db run)}"
    using assms(1) by auto
  obtain y cas1 where y: "collect_objects stuck db1 (Some cas) = (y, cas1)" by fastforce
  have res: "db' = db1 \<and> (case x of Inl _ \<Rightarrow> cas' = Some cas | Inr _ \<Rightarrow> cas' = cas1)
    \<and> (\<forall>out. r = Inr out \<longrightarrow> (\<exists>deleted collected. x = Inr deleted \<and> y = Inr collected \<and> out = \<lparr>ro_deleted = sort_key dr_run deleted, ro_collected = sort collected\<rparr>))"
    using assms(2,3,4) x y runs(1) by (auto simp: apply_retention_with_def split: sum.splits)
  obtain c where c: "cas1 = Some c" "\<forall>h \<in> set (referenced_hashes_for_run db1 None). get_object c h = get_object cas h"
    "\<forall>out. y = Inr out \<longrightarrow> distinct out \<and> set out = {h. is_content_hash h \<and> has_object cas h} - set (referenced_hashes_for_run db1 None)
       \<and> (\<forall>h\<in>set out. get_object c h = None)"
    using collect_objects_result [OF y] by auto
  have "\<exists>c. cas' = Some c \<and> (\<forall>h \<in> set (referenced_hashes_for_run db1 None). get_object c h = get_object cas h)
      \<and> (\<forall>out. r = Inr out \<longrightarrow> c = the cas1)"
    using res c by (auto split: sum.splits)
  then obtain c' where c': "cas' = Some c'" "\<forall>h \<in> set (referenced_hashes_for_run db1 None). get_object c' h = get_object cas h"
    "\<forall>out. r = Inr out \<longrightarrow> c' = the cas1" by blast
  have all: "set gone = {run. expired rd instant cutoff (run_events db run)}" if "x = Inr out" for out
    using g(5) that here some by auto
  have out: "(\<forall>run. expired rd instant cutoff (run_events db run) \<longrightarrow> run_events db' run = [])
        \<and> sorted (map dr_run (ro_deleted out)) \<and> distinct (map dr_run (ro_deleted out))
        \<and> set (map dr_run (ro_deleted out)) = {run. expired rd instant cutoff (run_events db run)}
        \<and> set (ro_collected out) = {h. is_content_hash h \<and> has_object cas h} - {h. \<exists>run. \<exists>e\<in>set (run_events db' run). payload_hash e = Some h}
        \<and> (\<forall>h\<in>set (ro_collected out). \<not> has_object c' h)" if "r = Inr out" for out
  proof -
    from res that obtain deleted collected where d: "x = Inr deleted" "y = Inr collected" "out = \<lparr>ro_deleted = sort_key dr_run deleted, ro_collected = sort collected\<rparr>" by blast
    have m: "map dr_run deleted = gone" using g(5) d(1) by simp
    then have "distinct (map dr_run (sort_key dr_run deleted))" using g(2) by (metis distinct_sort mset_map mset_sort mset_eq_imp_distinct_iff)
    moreover have "{h. \<exists>run. \<exists>e\<in>set (run_events db' run). payload_hash e = Some h} = set (referenced_hashes_for_run db1 None)"
      using res referenced by auto
    ultimately show ?thesis using d m all [OF d(1)] g(3) res c(1,3) c'(3) that by (auto simp: has_object_def image_set)
  qed
  have db1: "db' = db1" using res by (rule conjunct1)
  show ?thesis
  proof (intro conjI exI [of _ c'])
    show "\<forall>run. run_events db' run = run_events db run \<or> run_events db' run = [] \<and> expired rd instant cutoff (run_events db run)"
      unfolding db1 using g(1,3) by auto
    show "\<forall>run. \<forall>e\<in>set (run_events db' run). \<forall>h. payload_hash e = Some h \<longrightarrow> get_object c' h = get_object cas h"
      unfolding db1 using c'(2) referenced [of _ db1] by blast
    show "journal_reachable env db'" unfolding db1 by (rule g(4))
    show "cas' = Some c'" by (rule c'(1))
  qed (intro allI impI out)
qed

definition sample_done :: "event_envelope list" where
  "sample_done = [sample_event 1 ''run.started'' [], sample_event 2 ''run.completed'' []]"

definition sample_ended :: journal_db where
  "sample_ended = (case append_batch sample_env (''t'', ''c'') 0 sample_done empty_journal of Some (Inr db) \<Rightarrow> db | _ \<Rightarrow> empty_journal)"

lemma sample_ended_appended: "append_batch sample_env (''t'', ''c'') 0 sample_done empty_journal = Some (Inr sample_ended)"
proof -
  have "case append_batch sample_env (''t'', ''c'') 0 sample_done empty_journal of Some (Inr db) \<Rightarrow> True | _ \<Rightarrow> False"
    by code_simp
  then show ?thesis by (auto simp: sample_ended_def split: option.splits sum.splits)
qed

lemma sample_ended_reachable: "journal_reachable sample_env sample_ended"
proof -
  have "list_all valid_texts sample_done" by (auto simp: sample_done_def valid_texts_def sample_event_def inline_text_def)
  then show ?thesis using journal_reachable.step [OF journal_reachable.start journal_step.batch [OF sample_ended_appended]] by blast
qed

definition sample_objects :: cas_store where
  "sample_objects = \<lparr>cs_files = [(object_path (sample_sha []), ''x'')], cs_root = []\<rparr>"


definition sample_pass :: "(retention_error + retention_outcome) \<times> journal_db \<times> cas_store option \<times> unit" where
  "sample_pass = apply_retention sample_payloads (\<lambda>_. Some 0) (\<lambda>a b. Some (a - b)) (\<lambda>_. False) 5 10 sample_ended (Some sample_objects)"

theorem retention_exact_witness:
  "\<exists>out db' c. sample_pass = (Inr out, db', Some c, ()) \<and> run_events db' ''r'' = [] \<and> dr_run ` set (ro_deleted out) = {''r''}
    \<and> \<not> has_object c (sample_sha [])"
proof -
  have ex: "expired sample_payloads (\<lambda>_. Some 0) 5 (run_events sample_ended ''r'')" by code_simp
  have out: "case sample_pass of (Inr out, _) \<Rightarrow> dr_run ` set (ro_deleted out) = {''r''} \<and> sample_sha [] \<in> set (ro_collected out) | _ \<Rightarrow> False"
    by code_simp
  obtain r db' cas' where p: "sample_pass = (r, db', cas', ())" by (metis old.unit.exhaust surj_pair)
  obtain out where o: "r = Inr out" "dr_run ` set (ro_deleted out) = {''r''}" "sample_sha [] \<in> set (ro_collected out)"
    using out unfolding p by (auto split: sum.splits)
  have cut: "(0::int) \<le> 5" "Some (10 - 5) = Some (5::int)" by simp_all
  from retention_exact [OF sample_ended_reachable p [unfolded sample_pass_def apply_retention_def o(1)] cut]
  obtain c where c: "cas' = Some c" "\<forall>x. Inr out = (Inr x :: retention_error + retention_outcome) \<longrightarrow>
      (\<forall>run. expired sample_payloads (\<lambda>_. Some 0) 5 (run_events sample_ended run) \<longrightarrow> run_events db' run = [])
      \<and> (\<forall>h\<in>set (ro_collected x). \<not> has_object c h)" by (elim conjE exE) (rule that, assumption, blast)
  have "run_events db' ''r'' = []" "\<not> has_object c (sample_sha [])" using c(2) ex o(3) by blast+
  with p o(1,2) c(1) show ?thesis by blast
qed

end
