(* ===== verification/Authorization.thy ===== *)
theory Authorization
  imports Prelude
begin

text \<open>
  The authorization of one companion connection (\<open>attach/authorization.rs\<close>): a pairing challenge, the approval that
  consumes it, and the capability every later request is checked against. A \<open>Duration\<close> is its nanoseconds. The
  clock's reading and the random bytes, or that there are none, are arguments of each operation; the clock is
  monotonic. Comparing secrets in constant time is their equality.
\<close>

section \<open>State\<close>

definition seconds :: "nat \<Rightarrow> nat" where "seconds n = n * 1000000000"

definition challenge_lifetime :: nat where "challenge_lifetime = seconds (2 * 60)"
definition max_capability_lifetime :: nat where "max_capability_lifetime = seconds (8 * 60 * 60)"
definition capability_idle_lifetime :: nat where "capability_idle_lifetime = seconds (15 * 60)"

definition max_claim_length :: nat where "max_claim_length = 80"

definition bounded_claim :: "string \<Rightarrow> string" where
  "bounded_claim claim =
     (if list_ex is_control (utf8_chars claim) \<or> trim claim = []
        \<or> length (take (max_claim_length + 1) (utf8_chars claim)) > max_claim_length
      then ''unknown'' else claim)"

record connection_binding =
  cb_connection :: string
  cb_client_nonce :: string
  cb_server_nonce :: string
  cb_identity :: string
  cb_kind :: string

record approval =
  ap_profile :: string
  ap_workspace :: string
  ap_scopes :: "string set"
  ap_lifetime :: nat

record authorized_grant =
  ag_profile :: string
  ag_workspace :: string
  ag_scopes :: "string set"
  ag_expires_at :: nat
  ag_idle_timeout :: nat

datatype authorization_error =
    Randomness | ChallengeAlreadyIssued | ChallengeMismatch | ChallengeConsumed | ChallengeExpired | NotAuthorized
  | CapabilityMismatch | WrongConnection | WrongProfile | WrongWorkspace | MissingScope | AuthExpired | IdleExpired | AuthRevoked

record pending_challenge =
  pc_token :: string
  pc_expires_at :: nat

record active_capability =
  av_token :: string
  av_binding :: connection_binding
  av_approval :: approval
  av_expires_at :: nat
  av_last_activity :: nat

datatype auth_state = PairingRequired | PendingChallenge pending_challenge | ActiveCapability active_capability | RevokedState

record authorization =
  au_binding :: connection_binding
  au_state :: auth_state

definition authorization_new :: "connection_binding \<Rightarrow> authorization" where
  "authorization_new binding = \<lparr>au_binding = binding, au_state = PairingRequired\<rparr>"

text \<open>\<open>generate_hex\<close>: the bytes drawn, in hexadecimal.\<close>

definition generate_hex :: "u8 list \<Rightarrow> string" where
  "generate_hex bytes = concat (map (\<lambda>b. hexn 2 (unat b)) bytes)"

section \<open>Operations\<close>

definition issue_challenge :: "nat \<Rightarrow> u8 list option \<Rightarrow> authorization \<Rightarrow> (authorization_error + string) \<times> authorization" where
  "issue_challenge now drawn au =
     (case au_state au of
        PairingRequired \<Rightarrow>
          (case drawn of
             None \<Rightarrow> (Inl Randomness, au)
           | Some bytes \<Rightarrow>
               (let token = generate_hex bytes in
                (Inr token, au\<lparr>au_state := PendingChallenge \<lparr>pc_token = token, pc_expires_at = now + challenge_lifetime\<rparr>\<rparr>)))
      | RevokedState \<Rightarrow> (Inl AuthRevoked, au)
      | _ \<Rightarrow> (Inl ChallengeAlreadyIssued, au))"

definition approve :: "nat \<Rightarrow> u8 list option \<Rightarrow> string \<Rightarrow> approval \<Rightarrow> authorization
    \<Rightarrow> (authorization_error + string \<times> authorized_grant) \<times> authorization" where
  "approve now drawn challenge ap au =
     (case au_state au of
        ActiveCapability _ \<Rightarrow> (Inl ChallengeConsumed, au)
      | RevokedState \<Rightarrow> (Inl AuthRevoked, au)
      | PairingRequired \<Rightarrow> (Inl NotAuthorized, au)
      | PendingChallenge pending \<Rightarrow>
          if now > pc_expires_at pending then (Inl ChallengeExpired, au)
          else if challenge \<noteq> pc_token pending then (Inl ChallengeMismatch, au)
          else
            (let ap = ap\<lparr>ap_lifetime := min (ap_lifetime ap) max_capability_lifetime\<rparr>; expires_at = now + ap_lifetime ap in
             case drawn of
               None \<Rightarrow> (Inl Randomness, au)
             | Some bytes \<Rightarrow>
                 (let token = generate_hex bytes in
                  (Inr (token, \<lparr>ag_profile = ap_profile ap, ag_workspace = ap_workspace ap, ag_scopes = ap_scopes ap,
                     ag_expires_at = expires_at, ag_idle_timeout = capability_idle_lifetime\<rparr>),
                   au\<lparr>au_state := ActiveCapability \<lparr>av_token = token, av_binding = au_binding au, av_approval = ap,
                     av_expires_at = expires_at, av_last_activity = now\<rparr>\<rparr>))))"

definition validate_request_with_scope :: "nat \<Rightarrow> string \<Rightarrow> connection_binding \<Rightarrow> string \<Rightarrow> string \<Rightarrow> string option \<Rightarrow> authorization
    \<Rightarrow> (authorization_error + unit) \<times> authorization" where
  "validate_request_with_scope now capability binding profile workspace scope au =
     (case au_state au of
        ActiveCapability active \<Rightarrow>
          if capability \<noteq> av_token active then (Inl CapabilityMismatch, au)
          else if binding \<noteq> av_binding active then (Inl WrongConnection, au)
          else if profile \<noteq> ap_profile (av_approval active) then (Inl WrongProfile, au)
          else if workspace \<noteq> ap_workspace (av_approval active) then (Inl WrongWorkspace, au)
          else if (case scope of None \<Rightarrow> False | Some s \<Rightarrow> s \<notin> ap_scopes (av_approval active)) then (Inl MissingScope, au)
          else if now > av_expires_at active then (Inl AuthExpired, au)
          else if now > av_last_activity active + capability_idle_lifetime then (Inl IdleExpired, au)
          else (Inr (), au\<lparr>au_state := ActiveCapability (active\<lparr>av_last_activity := now\<rparr>)\<rparr>)
      | RevokedState \<Rightarrow> (Inl AuthRevoked, au)
      | _ \<Rightarrow> (Inl NotAuthorized, au))"

definition validate_request :: "nat \<Rightarrow> string \<Rightarrow> connection_binding \<Rightarrow> string \<Rightarrow> string \<Rightarrow> string \<Rightarrow> authorization
    \<Rightarrow> (authorization_error + unit) \<times> authorization" where
  "validate_request now capability binding profile workspace scope au =
     validate_request_with_scope now capability binding profile workspace (Some scope) au"

definition remaining_lifetime :: "nat \<Rightarrow> authorization \<Rightarrow> authorization_error + nat" where
  "remaining_lifetime now au =
     (case au_state au of
        ActiveCapability active \<Rightarrow>
          if now > av_expires_at active then Inl AuthExpired
          else
            (let idle_expires_at = av_last_activity active + capability_idle_lifetime in
             if now > idle_expires_at then Inl IdleExpired
             else Inr (min (av_expires_at active) idle_expires_at - now))
      | RevokedState \<Rightarrow> Inl AuthRevoked
      | _ \<Rightarrow> Inl NotAuthorized)"

definition authorization_revoke :: "authorization \<Rightarrow> authorization" where
  "authorization_revoke au = au\<lparr>au_state := RevokedState\<rparr>"

section \<open>Histories\<close>

text \<open>What happened on a connection, newest first, and when.\<close>

datatype auth_event =
    Issued string
  | Approved string string approval
  | Validated string connection_binding string string "string option"
  | Refused
  | RevokedEvent

inductive auth_run :: "connection_binding \<Rightarrow> (nat \<times> auth_event) list \<Rightarrow> authorization \<Rightarrow> bool" for binding where
  start: "auth_run binding [] (authorization_new binding)"
| issue: "auth_run binding h au \<Longrightarrow> (\<forall>x\<in>set h. fst x \<le> now) \<Longrightarrow> issue_challenge now drawn au = (r, au')
    \<Longrightarrow> auth_run binding ((now, case r of Inl _ \<Rightarrow> Refused | Inr token \<Rightarrow> Issued token) # h) au'"
| approve: "auth_run binding h au \<Longrightarrow> (\<forall>x\<in>set h. fst x \<le> now) \<Longrightarrow> approve now drawn challenge ap au = (r, au')
    \<Longrightarrow> auth_run binding ((now, case r of Inl _ \<Rightarrow> Refused | Inr (token, _) \<Rightarrow> Approved challenge token ap) # h) au'"
| validate: "auth_run binding h au \<Longrightarrow> (\<forall>x\<in>set h. fst x \<le> now)
    \<Longrightarrow> validate_request_with_scope now cap b profile workspace scope au = (r, au')
    \<Longrightarrow> auth_run binding ((now, case r of Inl _ \<Rightarrow> Refused | Inr _ \<Rightarrow> Validated cap b profile workspace scope) # h) au'"
| revoke: "auth_run binding h au \<Longrightarrow> (\<forall>x\<in>set h. fst x \<le> now) \<Longrightarrow> auth_run binding ((now, RevokedEvent) # h) (authorization_revoke au)"

definition is_activity :: "auth_event \<Rightarrow> bool" where
  "is_activity e = (case e of Approved _ _ _ \<Rightarrow> True | Validated _ _ _ _ _ \<Rightarrow> True | _ \<Rightarrow> False)"

lemma is_activity_simps [simp]: "is_activity (Approved c k ap)" "is_activity (Validated k b p w s)"
  by (simp_all add: is_activity_def)

text \<open>What the state says of the history.\<close>

definition never_approved :: "(nat \<times> auth_event) list \<Rightarrow> bool" where
  "never_approved h \<longleftrightarrow> (\<forall>t c k ap. (t, Approved c k ap) \<notin> set h) \<and> (\<forall>t k b p w s. (t, Validated k b p w s) \<notin> set h)"

definition granted :: "(nat \<times> auth_event) list \<Rightarrow> active_capability \<Rightarrow> bool" where
  "granted h av \<longleftrightarrow> (\<exists>ti ta c ap. (ti, Issued c) \<in> set h \<and> (ta, Approved c (av_token av) ap) \<in> set h
     \<and> ti \<le> ta \<and> ta \<le> ti + challenge_lifetime
     \<and> av_approval av = ap\<lparr>ap_lifetime := min (ap_lifetime ap) max_capability_lifetime\<rparr>
     \<and> av_expires_at av = ta + min (ap_lifetime ap) max_capability_lifetime
     \<and> (\<forall>t c' k' ap'. (t, Approved c' k' ap') \<in> set h \<longrightarrow> t = ta \<and> c' = c \<and> k' = av_token av \<and> ap' = ap))"

fun explains :: "connection_binding \<Rightarrow> (nat \<times> auth_event) list \<Rightarrow> auth_state \<Rightarrow> bool" where
  "explains binding h PairingRequired \<longleftrightarrow> never_approved h \<and> RevokedEvent \<notin> snd ` set h"
| "explains binding h (PendingChallenge p) \<longleftrightarrow> never_approved h \<and> RevokedEvent \<notin> snd ` set h
     \<and> (\<exists>t. (t, Issued (pc_token p)) \<in> set h \<and> pc_expires_at p = t + challenge_lifetime)"
| "explains binding h (ActiveCapability av) \<longleftrightarrow> granted h av \<and> RevokedEvent \<notin> snd ` set h \<and> av_binding av = binding
     \<and> (\<exists>e. is_activity e \<and> (av_last_activity av, e) \<in> set h)"
| "explains binding h RevokedState \<longleftrightarrow> RevokedEvent \<in> snd ` set h"

lemma granted_idle:
  assumes "granted h av" "\<forall>c k ap. e \<noteq> Approved c k ap"
  shows "granted ((t, e) # h) av" "granted ((t, e) # h) (av\<lparr>av_last_activity := n\<rparr>)"
  using assms unfolding granted_def by (simp_all, metis+)

lemma explains_refused: "explains binding h s \<Longrightarrow> explains binding ((t, Refused) # h) s"
  by (cases s) (auto simp: never_approved_def granted_idle)

lemma auth_run_explained: "auth_run binding h au \<Longrightarrow> explains binding h (au_state au) \<and> au_binding au = binding"
proof (induction rule: auth_run.induct)
  case start
  then show ?case by (simp add: authorization_new_def never_approved_def)
next
  case (issue h au now drawn r au')
  then show ?case
    by (cases "au_state au"; cases drawn)
      (auto simp: issue_challenge_def Let_def explains_refused never_approved_def granted_idle)
next
  case (approve h au now drawn challenge ap r au')
  show ?case
  proof (cases r)
    case (Inl err)
    then have "au' = au" using approve(3) by (auto simp: approve_def Let_def split: auth_state.splits if_splits option.splits)
    then show ?thesis using approve(4) Inl explains_refused by auto
  next
    case (Inr x)
    then obtain p bytes where p: "au_state au = PendingChallenge p" "drawn = Some bytes" "now \<le> pc_expires_at p" "challenge = pc_token p"
      using approve(3) by (auto simp: approve_def Let_def split: auth_state.splits if_splits option.splits)
    with approve(4) obtain t where t: "never_approved h" "RevokedEvent \<notin> snd ` set h" "(t, Issued challenge) \<in> set h"
      "pc_expires_at p = t + challenge_lifetime" by auto
    have "t \<le> now" using approve(2) t(3) by auto
    have au': "au' = au\<lparr>au_state := ActiveCapability \<lparr>av_token = generate_hex bytes, av_binding = au_binding au,
        av_approval = ap\<lparr>ap_lifetime := min (ap_lifetime ap) max_capability_lifetime\<rparr>,
        av_expires_at = now + min (ap_lifetime ap) max_capability_lifetime, av_last_activity = now\<rparr>\<rparr>" "fst x = generate_hex bytes"
      using approve(3) p Inr by (auto simp: approve_def Let_def split: if_splits)
    have "granted ((now, Approved challenge (generate_hex bytes) ap) # h) \<lparr>av_token = generate_hex bytes, av_binding = au_binding au,
        av_approval = ap\<lparr>ap_lifetime := min (ap_lifetime ap) max_capability_lifetime\<rparr>,
        av_expires_at = now + min (ap_lifetime ap) max_capability_lifetime, av_last_activity = now\<rparr>"
      unfolding granted_def
      by (rule exI [of _ t], rule exI [of _ now], rule exI [of _ challenge], rule exI [of _ ap])
        (use t p(3) \<open>t \<le> now\<close> in \<open>auto simp: never_approved_def\<close>)
    then show ?thesis using approve(4) t(2) Inr au' by (auto simp: split_beta intro!: exI [of _ "Approved challenge (generate_hex bytes) ap"])
  qed
next
  case (validate h au now cap b profile workspace scope r au')
  show ?case
  proof (cases r)
    case (Inl err)
    then have "au' = au" using validate(3) by (auto simp: validate_request_with_scope_def split: auth_state.splits if_splits)
    then show ?thesis using validate(4) Inl explains_refused by auto
  next
    case (Inr u)
    then obtain av where "au_state au = ActiveCapability av" "au' = au\<lparr>au_state := ActiveCapability (av\<lparr>av_last_activity := now\<rparr>)\<rparr>"
      using validate(3) by (auto simp: validate_request_with_scope_def split: auth_state.splits if_splits)
    then show ?thesis using validate(4) Inr by (auto simp: granted_idle intro!: exI [of _ "Validated cap b profile workspace scope"])
  qed
next
  case (revoke h au now)
  then show ?case by (simp add: authorization_revoke_def)
qed

inductive_cases auth_run_consE: "auth_run binding (x # h) au"

lemma auth_run_suffix: "auth_run binding (later @ h) au \<Longrightarrow> \<exists>au. auth_run binding h au"
proof (induction later arbitrary: au)
  case (Cons x later)
  then have "auth_run binding (x # (later @ h)) au" by simp
  then show ?case by (rule auth_run_consE) (use Cons.IH in auto)
qed auto

lemma validated_from:
  assumes "auth_run binding ((now, Validated cap b profile workspace scope) # h) au'"
  obtains au au'' where "auth_run binding h au" "validate_request_with_scope now cap b profile workspace scope au = (Inr (), au'')"
  using assms by (rule auth_run_consE) (auto split: sum.splits)

lemma validated_sound:
  assumes "auth_run binding (later @ (now, Validated cap b profile workspace scope) # h) au"
  shows "b = binding \<and> RevokedEvent \<notin> snd ` set h
    \<and> (\<exists>ti ta c ap. (ti, Issued c) \<in> set h \<and> (ta, Approved c cap ap) \<in> set h \<and> ti \<le> ta \<and> ta \<le> ti + seconds 120
      \<and> profile = ap_profile ap \<and> workspace = ap_workspace ap \<and> (\<forall>s. scope = Some s \<longrightarrow> s \<in> ap_scopes ap)
      \<and> now \<le> ta + ap_lifetime ap \<and> now \<le> ta + seconds 28800
      \<and> (\<forall>t c' k' ap'. (t, Approved c' k' ap') \<in> set h \<longrightarrow> t = ta \<and> c' = c \<and> k' = cap \<and> ap' = ap))
    \<and> (\<exists>t e. (t, e) \<in> set h \<and> is_activity e \<and> now \<le> t + seconds 900)"
proof -
  from auth_run_suffix [OF assms] obtain au1 where "auth_run binding ((now, Validated cap b profile workspace scope) # h) au1" ..
  then obtain au0 au2 where v: "auth_run binding h au0" "validate_request_with_scope now cap b profile workspace scope au0 = (Inr (), au2)"
    by (rule validated_from)
  then obtain av where av: "au_state au0 = ActiveCapability av" "cap = av_token av" "b = av_binding av"
    "profile = ap_profile (av_approval av)" "workspace = ap_workspace (av_approval av)" "\<forall>s. scope = Some s \<longrightarrow> s \<in> ap_scopes (av_approval av)"
    "now \<le> av_expires_at av" "now \<le> av_last_activity av + capability_idle_lifetime"
    by (auto simp: validate_request_with_scope_def split: auth_state.splits if_splits option.splits)
  with auth_run_explained [OF v(1)] have e: "granted h av" "RevokedEvent \<notin> snd ` set h" "av_binding av = binding"
    "\<exists>e. is_activity e \<and> (av_last_activity av, e) \<in> set h" by auto
  from e(1) obtain ti ta c ap where g: "(ti, Issued c) \<in> set h" "(ta, Approved c (av_token av) ap) \<in> set h" "ti \<le> ta" "ta \<le> ti + challenge_lifetime"
     "av_approval av = ap\<lparr>ap_lifetime := min (ap_lifetime ap) max_capability_lifetime\<rparr>"
     "av_expires_at av = ta + min (ap_lifetime ap) max_capability_lifetime"
     "\<forall>t c' k' ap'. (t, Approved c' k' ap') \<in> set h \<longrightarrow> t = ta \<and> c' = c \<and> k' = av_token av \<and> ap' = ap"
    unfolding granted_def by blast
  have life: "challenge_lifetime = seconds 120" "max_capability_lifetime = seconds 28800" "capability_idle_lifetime = seconds 900"
    by (simp_all add: challenge_lifetime_def max_capability_lifetime_def capability_idle_lifetime_def)
  have fields: "profile = ap_profile ap" "workspace = ap_workspace ap" "\<forall>s. scope = Some s \<longrightarrow> s \<in> ap_scopes ap"
    using av(4,5,6) g(5) by simp_all
  have times: "ta \<le> ti + seconds 120" "now \<le> ta + ap_lifetime ap" "now \<le> ta + seconds 28800"
    using g(4,6) av(7) life by simp_all
  have "\<exists>t e. (t, e) \<in> set h \<and> is_activity e \<and> now \<le> t + seconds 900" using e(4) av(8) life by auto
  moreover have "(ti, Issued c) \<in> set h \<and> (ta, Approved c cap ap) \<in> set h \<and> ti \<le> ta \<and> ta \<le> ti + seconds 120
      \<and> profile = ap_profile ap \<and> workspace = ap_workspace ap \<and> (\<forall>s. scope = Some s \<longrightarrow> s \<in> ap_scopes ap)
      \<and> now \<le> ta + ap_lifetime ap \<and> now \<le> ta + seconds 28800
      \<and> (\<forall>t c' k' ap'. (t, Approved c' k' ap') \<in> set h \<longrightarrow> t = ta \<and> c' = c \<and> k' = cap \<and> ap' = ap)"
    unfolding av(2) using g(1,2,3,7) fields times by blast
  ultimately show ?thesis using e(2,3) av(3) by blast
qed

text \<open>C31: On every connection, whatever is asked in whatever order, a request that passes carries the one capability
  the connection was granted, on this very connection, for the profile, workspace and a scope that were approved;
  the approval answered the challenge the connection was issued within two minutes; the request comes within the
  approved lifetime, at most eight hours, and within fifteen minutes of the last activity; and nothing before
  it revoked the connection.\<close>

theorem validated_requests_authorized:
  assumes "auth_run binding (later @ (now, Validated cap b profile workspace scope) # h) au"
  shows "b = binding \<and> RevokedEvent \<notin> snd ` set h
    \<and> (\<exists>ti ta c ap. (ti, Issued c) \<in> set h \<and> (ta, Approved c cap ap) \<in> set h \<and> ti \<le> ta \<and> ta \<le> ti + seconds 120
      \<and> profile = ap_profile ap \<and> workspace = ap_workspace ap \<and> (\<forall>s. scope = Some s \<longrightarrow> s \<in> ap_scopes ap)
      \<and> now \<le> ta + ap_lifetime ap \<and> now \<le> ta + seconds 28800
      \<and> (\<forall>t c' k' ap'. (t, Approved c' k' ap') \<in> set h \<longrightarrow> t = ta \<and> c' = c \<and> k' = cap \<and> ap' = ap))
    \<and> (\<exists>t e. (t, e) \<in> set h \<and> is_activity e \<and> now \<le> t + seconds 900)"
  by (rule validated_sound [OF assms])

definition sample_binding :: connection_binding where
  "sample_binding = \<lparr>cb_connection = ''n'', cb_client_nonce = ''c'', cb_server_nonce = ''n'', cb_identity = ''i'', cb_kind = ''cli''\<rparr>"

definition sample_approval :: approval where
  "sample_approval = \<lparr>ap_profile = ''p'', ap_workspace = ''/w'', ap_scopes = {''thread.read''}, ap_lifetime = seconds 3600\<rparr>"

lemma sample_hex: "generate_hex [1] = ''01''" "generate_hex [2] = ''02''"
  by code_simp+

definition sample_active :: authorization where
  "sample_active = \<lparr>au_binding = sample_binding, au_state = ActiveCapability \<lparr>av_token = ''02'', av_binding = sample_binding,
     av_approval = sample_approval, av_expires_at = 5 + seconds 3600, av_last_activity = 5\<rparr>\<rparr>"

lemma sample_authorized: "auth_run sample_binding [(5, Approved ''01'' ''02'' sample_approval), (3, Issued ''01'')] sample_active"
proof -
  let ?issued = "\<lparr>au_binding = sample_binding, au_state = PendingChallenge \<lparr>pc_token = ''01'', pc_expires_at = 3 + challenge_lifetime\<rparr>\<rparr>"
  have i: "issue_challenge 3 (Some [1]) (authorization_new sample_binding) = (Inr ''01'', ?issued)"
    by (simp add: issue_challenge_def authorization_new_def sample_hex Let_def)
  have "approve 5 (Some [2]) ''01'' sample_approval ?issued = (Inr (''02'', \<lparr>ag_profile = ''p'', ag_workspace = ''/w'',
      ag_scopes = {''thread.read''}, ag_expires_at = 5 + seconds 3600, ag_idle_timeout = capability_idle_lifetime\<rparr>), sample_active)"
    by (simp add: approve_def Let_def sample_hex sample_approval_def sample_active_def challenge_lifetime_def max_capability_lifetime_def seconds_def)
  from auth_run.approve [OF auth_run.issue [OF auth_run.start _ i] _ this] show ?thesis by simp
qed

theorem validated_requests_authorized_witness:
  "\<exists>au. auth_run sample_binding [(7, Validated ''02'' sample_binding ''p'' ''/w'' (Some ''thread.read'')),
      (5, Approved ''01'' ''02'' sample_approval), (3, Issued ''01'')] au
    \<and> 7 \<le> 5 + ap_lifetime sample_approval"
proof -
  have "fst (validate_request_with_scope 7 ''02'' sample_binding ''p'' ''/w'' (Some ''thread.read'') sample_active) = Inr ()"
    by (simp add: sample_active_def validate_request_with_scope_def sample_approval_def seconds_def capability_idle_lifetime_def)
  then obtain au where "validate_request_with_scope 7 ''02'' sample_binding ''p'' ''/w'' (Some ''thread.read'') sample_active = (Inr (), au)"
    by (metis prod.collapse)
  from auth_run.validate [OF sample_authorized _ this]
  have run: "auth_run sample_binding ([] @ (7, Validated ''02'' sample_binding ''p'' ''/w'' (Some ''thread.read'')) #
      [(5, Approved ''01'' ''02'' sample_approval), (3, Issued ''01'')]) au" by simp
  then have "(7::nat) \<le> 5 + ap_lifetime sample_approval" using validated_requests_authorized [OF run] by auto
  with run show ?thesis by auto
qed

end
