(* ===== verification/Approval_Coordinator.thy ===== *)
theory Approval_Coordinator
  imports Authorization
begin

text \<open>
  The coordinator that shows a pairing request to the user and carries the answer back (\<open>attach/approval.rs\<close>,
  \<open>attach/presented_approval.rs\<close>). Requests wait on threads of their own, so an operation is split where the code
  releases the lock: a request begins, is presented, and receives; a decision takes the pending entry and then
  sends. A channel of one message is a number, its message is in \<open>ac_buffers\<close> and its receiver is alive while it
  is in \<open>ac_open\<close>. A presenter is a number; what it answers is an argument of the step. A poisoned lock is left out.
\<close>

section \<open>Subjects\<close>

definition max_approval_subject_length :: nat where "max_approval_subject_length = 256"

definition local_approval_subject :: string where "local_approval_subject = ''local''"

definition is_valid_approval_subject :: "string \<Rightarrow> bool" where
  "is_valid_approval_subject s \<longleftrightarrow> s \<noteq> [] \<and> length s \<le> max_approval_subject_length \<and> \<not> list_ex is_control (utf8_chars s)"

definition account_approval_subject :: "string \<Rightarrow> string \<Rightarrow> string option" where
  "account_approval_subject org user =
     (if org = [] \<or> user = [] then None
      else let subject = ''account:'' @ org @ '':'' @ user in
        if is_valid_approval_subject subject then Some subject else None)"

section \<open>The owner's approval\<close>

type_synonym signed_workspace = "string option"

definition record_workspace :: "string \<Rightarrow> signed_workspace \<Rightarrow> signed_workspace" where
  "record_workspace w s = Some w"

definition clear_workspace :: "signed_workspace \<Rightarrow> signed_workspace" where
  "clear_workspace s = None"

definition signed_approval :: "signed_workspace \<Rightarrow> approval option" where
  "signed_approval s = map_option (\<lambda>w. \<lparr>ap_profile = ''desktop-owner'', ap_workspace = w,
     ap_scopes = {''thread.read'', ''run.write''}, ap_lifetime = seconds (60 * 60)\<rparr>) s"

section \<open>The coordinator\<close>

record approval_request =
  aq_challenge :: string
  aq_kind :: string
  aq_version :: string
  aq_workspace :: string
  aq_scopes :: "string set"

record pending_decision =
  pn_id :: u64
  pn_sender :: nat

record coordinator =
  ac_presenter :: "nat option"
  ac_claimed :: bool
  ac_refusal_logged :: bool
  ac_pending :: "(string \<times> pending_decision) list"
  ac_next_id :: u64
  ac_channels :: nat
  ac_buffers :: "(nat \<times> bool) list"
  ac_open :: "nat list"

definition coordinator_new :: coordinator where
  "coordinator_new = \<lparr>ac_presenter = None, ac_claimed = False, ac_refusal_logged = False, ac_pending = [],
     ac_next_id = 0, ac_channels = 0, ac_buffers = [], ac_open = []\<rparr>"

definition register_presenter_until :: "nat \<Rightarrow> coordinator \<Rightarrow> coordinator" where
  "register_presenter_until p ac = (if ac_claimed ac then ac else ac\<lparr>ac_presenter := Some p\<rparr>)"

definition claim_presenter_until :: "nat \<Rightarrow> coordinator \<Rightarrow> bool \<times> coordinator" where
  "claim_presenter_until p ac =
     (if ac_claimed ac then (False, ac)
      else (True, ac\<lparr>ac_presenter := Some p, ac_claimed := True, ac_refusal_logged := False\<rparr>))"

definition presenter_refusal_diagnostic :: "coordinator \<Rightarrow> string option \<times> coordinator" where
  "presenter_refusal_diagnostic ac =
     (if ac_refusal_logged ac then (None, ac)
      else (Some (''muniment-runtime: attach session closed reason=ApprovalPresenterUnavailable holder_claimed=''
              @ (if ac_claimed ac then ''true'' else ''false'') @ '' holder_pending_requests='' @ dec_str (length (ac_pending ac))),
            ac\<lparr>ac_refusal_logged := True\<rparr>))"

text \<open>The beginning of a request, up to the call of the presenter: the channel, the id and the presenter.\<close>

definition request_begin :: "bool \<Rightarrow> approval_request \<Rightarrow> coordinator \<Rightarrow> (nat \<times> u64 \<times> nat) option \<times> coordinator" where
  "request_begin deadline_fits req ac =
     (if \<not> deadline_fits then (None, ac)
      else (case ac_presenter ac of
              None \<Rightarrow> (None, ac)
            | Some p \<Rightarrow>
                if aq_challenge req \<in> fst ` set (ac_pending ac) then (None, ac)
                else
                  (let ch = ac_channels ac; i = ac_next_id ac in
                   (Some (ch, i, p), ac\<lparr>ac_channels := ch + 1, ac_open := ch # ac_open ac, ac_next_id := i + 1,
                      ac_pending := (aq_challenge req, \<lparr>pn_id = i, pn_sender = ch\<rparr>) # ac_pending ac\<rparr>))))"

definition remove_pending :: "string \<Rightarrow> u64 \<Rightarrow> coordinator \<Rightarrow> coordinator" where
  "remove_pending challenge i ac =
     (if (case map_of (ac_pending ac) challenge of None \<Rightarrow> False | Some p \<Rightarrow> pn_id p = i)
      then ac\<lparr>ac_pending := filter (\<lambda>p. fst p \<noteq> challenge) (ac_pending ac)\<rparr> else ac)"

text \<open>What \<open>recv_timeout\<close> gives, with \<open>unwrap_or(false)\<close>: the message that is there, or none before the deadline.\<close>

definition received :: "coordinator \<Rightarrow> nat \<Rightarrow> bool" where
  "received ac ch = (case map_of (ac_buffers ac) ch of None \<Rightarrow> False | Some b \<Rightarrow> b)"

text \<open>The end of a request: refused by the presenter, or after its receive; the receiver is dropped.\<close>

definition request_end :: "bool \<Rightarrow> string \<Rightarrow> nat \<Rightarrow> u64 \<Rightarrow> coordinator \<Rightarrow> bool \<times> coordinator" where
  "request_end presented challenge ch i ac =
     (presented \<and> received ac ch, (remove_pending challenge i ac)\<lparr>ac_open := filter (\<lambda>c. c \<noteq> ch) (ac_open ac)\<rparr>)"

definition decide_take :: "string \<Rightarrow> coordinator \<Rightarrow> nat option \<times> coordinator" where
  "decide_take challenge ac =
     (case map_of (ac_pending ac) challenge of
        None \<Rightarrow> (None, ac)
      | Some p \<Rightarrow> (Some (pn_sender p), ac\<lparr>ac_pending := filter (\<lambda>p. fst p \<noteq> challenge) (ac_pending ac)\<rparr>))"

definition try_send :: "nat \<Rightarrow> bool \<Rightarrow> coordinator \<Rightarrow> bool \<times> coordinator" where
  "try_send ch b ac =
     (if ch \<notin> set (ac_open ac) \<or> ch \<in> fst ` set (ac_buffers ac) then (False, ac)
      else (True, ac\<lparr>ac_buffers := (ch, b) # ac_buffers ac\<rparr>))"

text \<open>Dropping the guard: the slot is free, and every pending request is denied.\<close>

definition close_coordinator :: "coordinator \<Rightarrow> nat list \<times> coordinator" where
  "close_coordinator ac = (map (pn_sender \<circ> snd) (ac_pending ac),
     ac\<lparr>ac_presenter := None, ac_claimed := False, ac_refusal_logged := False, ac_pending := []\<rparr>)"

text \<open>\<open>answer_presented_approval\<close>: the request it makes and how long it may wait.\<close>

definition presented_request :: "string \<Rightarrow> string \<Rightarrow> string \<Rightarrow> string \<Rightarrow> string list \<Rightarrow> approval_request" where
  "presented_request challenge kind version workspace scopes =
     \<lparr>aq_challenge = challenge, aq_kind = bounded_claim kind, aq_version = bounded_claim version,
       aq_workspace = workspace, aq_scopes = set scopes\<rparr>"

definition presented_remaining :: "u64 \<Rightarrow> nat" where
  "presented_remaining deadline_ms = min (unat deadline_ms * 1000000) challenge_lifetime"

section \<open>All interleavings\<close>

datatype approval_event =
    Began string nat
  | Chosen string nat bool
  | Withdrawn nat
  | Ended string nat bool

text \<open>The coordinator, the requests under way, the messages taken but not yet sent, and what happened, newest first.\<close>

record approval_world =
  aw_state :: coordinator
  aw_waiting :: "(string \<times> nat \<times> u64) list"
  aw_sending :: "(nat \<times> bool) list"
  aw_log :: "approval_event list"

definition world_new :: approval_world where
  "world_new = \<lparr>aw_state = coordinator_new, aw_waiting = [], aw_sending = [], aw_log = []\<rparr>"

inductive approval_reachable :: "approval_world \<Rightarrow> bool" where
  start: "approval_reachable world_new"
| registered: "approval_reachable w \<Longrightarrow> approval_reachable (w\<lparr>aw_state := register_presenter_until p (aw_state w)\<rparr>)"
| claimed: "approval_reachable w \<Longrightarrow> approval_reachable (w\<lparr>aw_state := snd (claim_presenter_until p (aw_state w))\<rparr>)"
| diagnosed: "approval_reachable w \<Longrightarrow> approval_reachable (w\<lparr>aw_state := snd (presenter_refusal_diagnostic (aw_state w))\<rparr>)"
| began: "approval_reachable w \<Longrightarrow> request_begin fits req (aw_state w) = (Some (ch, i, p), ac)
    \<Longrightarrow> approval_reachable (w\<lparr>aw_state := ac, aw_waiting := (aq_challenge req, ch, i) # aw_waiting w,
          aw_log := Began (aq_challenge req) ch # aw_log w\<rparr>)"
| ended: "approval_reachable w \<Longrightarrow> (c, ch, i) \<in> set (aw_waiting w) \<Longrightarrow> request_end presented c ch i (aw_state w) = (b, ac)
    \<Longrightarrow> approval_reachable (w\<lparr>aw_state := ac, aw_waiting := filter (\<lambda>x. fst (snd x) \<noteq> ch) (aw_waiting w), aw_log := Ended c ch b # aw_log w\<rparr>)"
| decided: "approval_reachable w \<Longrightarrow> decide_take c (aw_state w) = (Some ch, ac)
    \<Longrightarrow> approval_reachable (w\<lparr>aw_state := ac, aw_sending := (ch, b) # aw_sending w, aw_log := Chosen c ch b # aw_log w\<rparr>)"
| dropped: "approval_reachable w \<Longrightarrow> close_coordinator (aw_state w) = (chs, ac)
    \<Longrightarrow> approval_reachable (w\<lparr>aw_state := ac, aw_sending := map (\<lambda>ch. (ch, False)) chs @ aw_sending w,
          aw_log := map Withdrawn chs @ aw_log w\<rparr>)"
| sent: "approval_reachable w \<Longrightarrow> (ch, b) \<in> set (aw_sending w)
    \<Longrightarrow> approval_reachable (w\<lparr>aw_state := snd (try_send ch b (aw_state w)),
          aw_sending := filter (\<lambda>x. fst x \<noteq> ch) (aw_sending w)\<rparr>)"

text \<open>What is pending, taken or sent on each channel, as the log tells it.\<close>

definition answered :: "approval_event list \<Rightarrow> nat set" where
  "answered es = {ch. (\<exists>c b. Chosen c ch b \<in> set es) \<or> Withdrawn ch \<in> set es}"

definition ended_on :: "approval_event list \<Rightarrow> nat set" where
  "ended_on es = {ch. \<exists>c b. Ended c ch b \<in> set es}"

fun log_in_order :: "approval_event list \<Rightarrow> bool" where
  "log_in_order [] = True"
| "log_in_order (Began c ch # es) \<longleftrightarrow> log_in_order es \<and> (\<forall>c'. Began c' ch \<notin> set es)"
| "log_in_order (Chosen c ch b # es) \<longleftrightarrow> log_in_order es \<and> Began c ch \<in> set es \<and> ch \<notin> answered es \<and> ch \<notin> ended_on es"
| "log_in_order (Withdrawn ch # es) \<longleftrightarrow> log_in_order es \<and> (\<exists>c. Began c ch \<in> set es) \<and> ch \<notin> answered es"
| "log_in_order (Ended c ch b # es) \<longleftrightarrow> log_in_order es \<and> Began c ch \<in> set es \<and> ch \<notin> ended_on es
     \<and> (b \<longrightarrow> Chosen c ch True \<in> set es)"

definition approval_ok :: "approval_world \<Rightarrow> bool" where
  "approval_ok w \<longleftrightarrow> log_in_order (aw_log w)
   \<and> (\<forall>c ch. Began c ch \<in> set (aw_log w) \<longrightarrow> ch < ac_channels (aw_state w))
   \<and> distinct (map fst (ac_pending (aw_state w)))
   \<and> (\<forall>c p. (c, p) \<in> set (ac_pending (aw_state w)) \<longrightarrow> (c, pn_sender p, pn_id p) \<in> set (aw_waiting w) \<and> pn_sender p \<notin> answered (aw_log w))
   \<and> distinct (map (fst \<circ> snd) (aw_waiting w))
   \<and> (\<forall>c ch i. (c, ch, i) \<in> set (aw_waiting w) \<longrightarrow> Began c ch \<in> set (aw_log w) \<and> ch \<notin> ended_on (aw_log w))
   \<and> (\<forall>ch. (ch, True) \<in> set (aw_sending w) \<union> set (ac_buffers (aw_state w)) \<longrightarrow> (\<exists>c. Chosen c ch True \<in> set (aw_log w)))"

lemma answered_simps [simp]: "answered (Began c ch # es) = answered es" "answered (Ended c ch b # es) = answered es"
    "answered (Chosen c ch b # es) = insert ch (answered es)" "answered (Withdrawn ch # es) = insert ch (answered es)" "answered [] = {}"
  by (auto simp: answered_def)

lemma ended_on_simps [simp]: "ended_on (Began c ch # es) = ended_on es" "ended_on (Ended c ch b # es) = insert ch (ended_on es)"
    "ended_on (Chosen c ch b # es) = ended_on es" "ended_on (Withdrawn ch # es) = ended_on es" "ended_on [] = {}"
  by (auto simp: ended_on_def)

lemma log_suffix: "log_in_order (xs @ ys) \<Longrightarrow> log_in_order ys"
  by (induction xs rule: log_in_order.induct) auto

lemma log_facts:
  assumes "log_in_order es"
  shows "Began c ch \<in> set es \<Longrightarrow> Began c' ch \<in> set es \<Longrightarrow> c' = c" "Chosen c ch b \<in> set es \<Longrightarrow> Began c ch \<in> set es"
    "ch \<in> answered es \<Longrightarrow> \<exists>c. Began c ch \<in> set es" "ch \<in> ended_on es \<Longrightarrow> \<exists>c. Began c ch \<in> set es"
  using assms by (induction es rule: log_in_order.induct) auto

lemma withdrawn_in_order:
  assumes "log_in_order es" "distinct chs" "\<forall>ch\<in>set chs. (\<exists>c. Began c ch \<in> set es) \<and> ch \<notin> answered es"
  shows "log_in_order (map Withdrawn chs @ es)" "answered (map Withdrawn chs @ es) = set chs \<union> answered es"
    "ended_on (map Withdrawn chs @ es) = ended_on es"
proof -
  have set_facts: "answered (map Withdrawn xs @ es) = set xs \<union> answered es" "ended_on (map Withdrawn xs @ es) = ended_on es" for xs
    by (induction xs) auto
  show "answered (map Withdrawn chs @ es) = set chs \<union> answered es" "ended_on (map Withdrawn chs @ es) = ended_on es" by (rule set_facts)+
  show "log_in_order (map Withdrawn chs @ es)" using assms by (induction chs) (auto simp: set_facts)
qed

lemma approval_okD:
  assumes "approval_ok w"
  shows "log_in_order (aw_log w)" "Began c ch \<in> set (aw_log w) \<Longrightarrow> ch < ac_channels (aw_state w)" "distinct (map fst (ac_pending (aw_state w)))"
    "(c, p) \<in> set (ac_pending (aw_state w)) \<Longrightarrow> (c, pn_sender p, pn_id p) \<in> set (aw_waiting w) \<and> pn_sender p \<notin> answered (aw_log w)"
    "distinct (map (fst \<circ> snd) (aw_waiting w))"
    "(c, ch, i) \<in> set (aw_waiting w) \<Longrightarrow> Began c ch \<in> set (aw_log w) \<and> ch \<notin> ended_on (aw_log w)"
    "(ch, True) \<in> set (aw_sending w) \<union> set (ac_buffers (aw_state w)) \<Longrightarrow> \<exists>c. Chosen c ch True \<in> set (aw_log w)"
  using assms unfolding approval_ok_def by blast+

lemma approval_okI:
  assumes "log_in_order (aw_log w)" "\<And>c ch. Began c ch \<in> set (aw_log w) \<Longrightarrow> ch < ac_channels (aw_state w)" "distinct (map fst (ac_pending (aw_state w)))"
    "\<And>c p. (c, p) \<in> set (ac_pending (aw_state w)) \<Longrightarrow> (c, pn_sender p, pn_id p) \<in> set (aw_waiting w) \<and> pn_sender p \<notin> answered (aw_log w)"
    "distinct (map (fst \<circ> snd) (aw_waiting w))"
    "\<And>c ch i. (c, ch, i) \<in> set (aw_waiting w) \<Longrightarrow> Began c ch \<in> set (aw_log w) \<and> ch \<notin> ended_on (aw_log w)"
    "\<And>ch. (ch, True) \<in> set (aw_sending w) \<union> set (ac_buffers (aw_state w)) \<Longrightarrow> \<exists>c. Chosen c ch True \<in> set (aw_log w)"
  shows "approval_ok w"
  using assms unfolding approval_ok_def by blast

lemma waiting_unique:
  "approval_ok w \<Longrightarrow> (c, ch, i) \<in> set (aw_waiting w) \<Longrightarrow> (c', ch, i') \<in> set (aw_waiting w) \<Longrightarrow> c' = c \<and> i' = i"
  unfolding approval_ok_def by (metis (no_types, lifting) comp_apply distinct_map fst_conv inj_onD prod.inject snd_conv)

lemma pending_senders_distinct:
  assumes ok: "approval_ok w"
  shows "distinct (map (pn_sender \<circ> snd) (ac_pending (aw_state w)))"
proof -
  have d: "distinct (map fst (ac_pending (aw_state w)))" using ok by (simp add: approval_ok_def)
  have "x = y" if xy: "x \<in> set (ac_pending (aw_state w))" "y \<in> set (ac_pending (aw_state w))" "pn_sender (snd x) = pn_sender (snd y)" for x y
  proof -
    have "(fst x, pn_sender (snd x), pn_id (snd x)) \<in> set (aw_waiting w)" "(fst y, pn_sender (snd x), pn_id (snd y)) \<in> set (aw_waiting w)"
      using approval_okD(4) [OF ok, of "fst x" "snd x"] approval_okD(4) [OF ok, of "fst y" "snd y"] xy by simp_all
    from waiting_unique [OF ok this] have "fst x = fst y" by simp
    then show ?thesis using d xy(1,2) by (metis distinct_map inj_onD)
  qed
  then show ?thesis using d by (auto simp: distinct_map inj_on_def)
qed

lemma ok_began:
  assumes ok: "approval_ok w" and b: "request_begin fits req (aw_state w) = (Some (ch, i, p), ac)"
  shows "approval_ok (w\<lparr>aw_state := ac, aw_waiting := (aq_challenge req, ch, i) # aw_waiting w, aw_log := Began (aq_challenge req) ch # aw_log w\<rparr>)"
proof -
  have ac: "ch = ac_channels (aw_state w)" "aq_challenge req \<notin> fst ` set (ac_pending (aw_state w))"
    "ac_pending ac = (aq_challenge req, \<lparr>pn_id = i, pn_sender = ch\<rparr>) # ac_pending (aw_state w)"
    "ac_channels ac = Suc ch" "ac_buffers ac = ac_buffers (aw_state w)"
    using b by (auto simp: request_begin_def Let_def split: if_splits option.splits)
  have new: "Began c ch \<notin> set (aw_log w)" for c using ok ac(1) by (auto simp: approval_ok_def)
  have log: "log_in_order (aw_log w)" using ok by (simp add: approval_ok_def)
  have "ch \<notin> answered (aw_log w)" "ch \<notin> ended_on (aw_log w)" using new log_facts(3,4) [OF log] by blast+
  moreover have "(c, ch, j) \<notin> set (aw_waiting w)" for c j using new approval_okD(6) [OF ok] by blast
  ultimately show ?thesis using ok ac new by (fastforce simp: approval_ok_def less_Suc_eq)
qed

lemma remove_pending_facts:
  "ac_buffers (remove_pending c i ac) = ac_buffers ac" "ac_channels (remove_pending c i ac) = ac_channels ac"
  "set (ac_pending (remove_pending c i ac)) \<subseteq> set (ac_pending ac)"
  "distinct (map fst (ac_pending ac)) \<Longrightarrow> distinct (map fst (ac_pending (remove_pending c i ac)))"
  by (auto simp: remove_pending_def distinct_map_filter)

lemma ok_ended:
  assumes ok: "approval_ok w" and c: "(c, ch, i) \<in> set (aw_waiting w)" and e: "request_end presented c ch i (aw_state w) = (b, ac)"
  shows "approval_ok (w\<lparr>aw_state := ac, aw_waiting := filter (\<lambda>x. fst (snd x) \<noteq> ch) (aw_waiting w), aw_log := Ended c ch b # aw_log w\<rparr>)"
proof -
  note log = approval_okD(1) [OF ok]
  have bg: "Began c ch \<in> set (aw_log w)" "ch \<notin> ended_on (aw_log w)" using approval_okD(6) [OF ok c] by simp_all
  have ac: "ac_buffers ac = ac_buffers (aw_state w)" "ac_channels ac = ac_channels (aw_state w)"
    "set (ac_pending ac) \<subseteq> set (ac_pending (aw_state w))" "distinct (map fst (ac_pending ac))"
    using e remove_pending_facts [where c = c and i = i and ac = "aw_state w"] approval_okD(3) [OF ok] by (auto simp: request_end_def)
  have chosen: "Chosen c ch True \<in> set (aw_log w)" if b
  proof -
    from that e have "map_of (ac_buffers (aw_state w)) ch = Some True" by (auto simp: request_end_def received_def split: option.splits)
    then have "(ch, True) \<in> set (ac_buffers (aw_state w))" by (rule map_of_SomeD)
    then obtain c' where "Chosen c' ch True \<in> set (aw_log w)" using approval_okD(7) [OF ok] by blast
    with log_facts(1,2) [OF log] bg(1) show ?thesis by blast
  qed
  have gone: "pn_sender p \<noteq> ch" if p: "(c', p) \<in> set (ac_pending ac)" for c' p
  proof
    assume s: "pn_sender p = ch"
    have pend: "(c', p) \<in> set (ac_pending (aw_state w))" using p ac(3) by blast
    then have "(c', ch, pn_id p) \<in> set (aw_waiting w)" using approval_okD(4) [OF ok] s by blast
    with waiting_unique [OF ok c] have c': "c' = c" "pn_id p = i" by auto
    have "distinct (map fst (ac_pending (aw_state w)))" using ok by (simp add: approval_ok_def)
    with pend c' have "map_of (ac_pending (aw_state w)) c = Some p" by (simp add: map_of_is_SomeI)
    with e c' have "ac_pending ac = filter (\<lambda>p. fst p \<noteq> c) (ac_pending (aw_state w))"
      by (auto simp: request_end_def remove_pending_def)
    with p c'(1) show False by auto
  qed
  show ?thesis
  proof (rule approval_okI, goal_cases)
    case (4 c' p)
    then have "(c', p) \<in> set (ac_pending ac)" by simp
    with gone ac(3) approval_okD(4) [OF ok, of c' p] show ?case by auto
  next
    case (6 c' ch' i')
    with approval_okD(6) [OF ok, of c' ch' i'] show ?case by auto
  qed (use log bg chosen ac approval_okD(2,5,7) [OF ok] in \<open>auto simp: distinct_map_filter\<close>)
qed

lemma ok_decided:
  assumes ok: "approval_ok w" and d: "decide_take c (aw_state w) = (Some ch, ac)"
  shows "approval_ok (w\<lparr>aw_state := ac, aw_sending := (ch, b) # aw_sending w, aw_log := Chosen c ch b # aw_log w\<rparr>)"
proof -
  obtain p where p: "(c, p) \<in> set (ac_pending (aw_state w))" "pn_sender p = ch"
    "ac = (aw_state w)\<lparr>ac_pending := filter (\<lambda>p. fst p \<noteq> c) (ac_pending (aw_state w))\<rparr>"
    using d by (auto simp: decide_take_def split: option.splits dest: map_of_SomeD)
  then have "(c, ch, pn_id p) \<in> set (aw_waiting w)" "ch \<notin> answered (aw_log w)" using approval_okD(4) [OF ok] by blast+
  then have log: "log_in_order (Chosen c ch b # aw_log w)" using approval_okD(1,6) [OF ok] by fastforce
  have other: "pn_sender q \<noteq> ch" if "(c', q) \<in> set (ac_pending (aw_state w))" "c' \<noteq> c" for c' q
  proof
    assume "pn_sender q = ch"
    then have "(c', ch, pn_id q) \<in> set (aw_waiting w)" using approval_okD(4) [OF ok that(1)] by simp
    with waiting_unique [OF ok \<open>(c, ch, pn_id p) \<in> set (aw_waiting w)\<close>] that(2) show False by blast
  qed
  show ?thesis using ok log p(3) other by (auto simp: approval_ok_def distinct_map_filter)
qed

lemma ok_dropped:
  assumes ok: "approval_ok w" and d: "close_coordinator (aw_state w) = (chs, ac)"
  shows "approval_ok (w\<lparr>aw_state := ac, aw_sending := map (\<lambda>ch. (ch, False)) chs @ aw_sending w, aw_log := map Withdrawn chs @ aw_log w\<rparr>)"
proof -
  have chs: "chs = map (pn_sender \<circ> snd) (ac_pending (aw_state w))" "ac_pending ac = []" "ac_channels ac = ac_channels (aw_state w)"
    "ac_buffers ac = ac_buffers (aw_state w)" using d by (auto simp: close_coordinator_def)
  have "\<forall>ch\<in>set chs. (\<exists>c. Began c ch \<in> set (aw_log w)) \<and> ch \<notin> answered (aw_log w)"
    using approval_okD(4,6) [OF ok] chs(1) by fastforce
  note log = withdrawn_in_order [OF _ pending_senders_distinct [OF ok, folded chs(1)] this]
  then show ?thesis using ok chs by (auto simp: approval_ok_def)
qed

lemma ok_sent:
  "approval_ok w \<Longrightarrow> (ch, b) \<in> set (aw_sending w) \<Longrightarrow>
    approval_ok (w\<lparr>aw_state := snd (try_send ch b (aw_state w)), aw_sending := filter (\<lambda>x. fst x \<noteq> ch) (aw_sending w)\<rparr>)"
  by (auto simp: approval_ok_def try_send_def)

lemma reachable_approval_ok: "approval_reachable w \<Longrightarrow> approval_ok w"
proof (induction rule: approval_reachable.induct)
  case start
  then show ?case by (simp add: approval_ok_def world_new_def coordinator_new_def)
next
  case (registered w p)
  then show ?case by (simp add: approval_ok_def register_presenter_until_def)
next
  case (claimed w p)
  then show ?case by (simp add: approval_ok_def claim_presenter_until_def)
next
  case (diagnosed w)
  then show ?case by (simp add: approval_ok_def presenter_refusal_diagnostic_def)
qed (rule ok_began ok_ended ok_decided ok_dropped ok_sent; assumption)+

lemma nothing_after_end:
  assumes "log_in_order (later @ Ended c ch b # earlier)"
  shows "Ended c' ch b' \<notin> set later \<and> Chosen c' ch b' \<notin> set later"
proof -
  have "ch \<in> ended_on (xs @ Ended c ch b # earlier)" for xs by (auto simp: ended_on_def)
  with assms show ?thesis by (induction later rule: log_in_order.induct) auto
qed

lemma chosen_answered: "Chosen c ch b \<in> set es \<Longrightarrow> ch \<in> answered es" "Withdrawn ch \<in> set es \<Longrightarrow> ch \<in> answered es"
  by (auto simp: answered_def)

lemma chosen_once: "log_in_order es \<Longrightarrow> Chosen c ch b \<in> set es \<Longrightarrow> Chosen c' ch b' \<in> set es \<Longrightarrow> c' = c \<and> b' = b"
  by (induction es rule: log_in_order.induct) (auto dest: chosen_answered)

lemma chosen_not_withdrawn: "log_in_order es \<Longrightarrow> Chosen c ch b \<in> set es \<Longrightarrow> Withdrawn ch \<notin> set es"
  by (induction es rule: log_in_order.induct) (auto dest: chosen_answered)

text \<open>C34: Whatever requests, answers, time limits and presenters come in whatever order, a pairing request is
  approved only by an answer to its own challenge, given after the request began, and not after it ended or its
  presenter left; that answer approves no other request, and no request ends twice.\<close>

theorem approvals_are_explicit:
  assumes "approval_reachable w" "aw_log w = later @ Ended c ch b # earlier"
  shows "Began c ch \<in> set earlier \<and> (\<forall>c' b'. Ended c' ch b' \<notin> set earlier \<union> set later)
    \<and> (b \<longrightarrow> Chosen c ch True \<in> set earlier \<and> Withdrawn ch \<notin> set (aw_log w) \<and> (\<forall>c' b'. Chosen c' ch b' \<in> set (aw_log w) \<longrightarrow> c' = c \<and> b'))"
proof -
  have log: "log_in_order (aw_log w)" using reachable_approval_ok [OF assms(1)] approval_okD(1) by blast
  then have here: "log_in_order (Ended c ch b # earlier)" unfolding assms(2) by (rule log_suffix)
  have later: "Ended c' ch b' \<notin> set later \<and> (Chosen c' ch b' \<notin> set later)" for c' b'
    using log unfolding assms(2) by (rule nothing_after_end)
  have chosen: "Chosen c ch True \<in> set earlier \<Longrightarrow> Chosen c' ch b' \<in> set earlier \<Longrightarrow> c' = c \<and> b'" for c' b'
    using here chosen_once [of earlier c ch True c' b'] by simp
  have withdrawn: "Chosen c ch True \<in> set earlier \<Longrightarrow> Withdrawn ch \<notin> set (aw_log w)"
    using chosen_not_withdrawn [OF log, of c ch True] unfolding assms(2) by auto
  have ended: "Ended c' ch b' \<notin> set earlier" for c' b' using here by (auto simp: ended_on_def)
  have first: "Began c ch \<in> set earlier" "b \<Longrightarrow> Chosen c ch True \<in> set earlier" using here by simp_all
  have "c' = c \<and> b'" if b "Chosen c' ch b' \<in> set (aw_log w)" for c' b'
    using chosen [OF first(2)] that later unfolding assms(2) by auto
  with first ended later withdrawn show ?thesis by blast
qed

definition sample_request :: approval_request where
  "sample_request = presented_request ''ch'' ''cli'' ''1'' ''/w'' [''thread.read'']"

theorem approvals_are_explicit_witness:
  "\<exists>w. approval_reachable w \<and> aw_log w = [Ended ''ch'' 0 True, Chosen ''ch'' 0 True, Began ''ch'' 0]
    \<and> Chosen ''ch'' 0 True \<in> set [Chosen ''ch'' 0 True, Began ''ch'' (0::nat)]"
proof -
  define w1 where "w1 = world_new\<lparr>aw_state := register_presenter_until 1 coordinator_new\<rparr>"
  have r1: "approval_reachable w1" using approval_reachable.registered [OF approval_reachable.start, of 1] by (simp add: w1_def world_new_def)
  obtain ac2 where b: "request_begin True sample_request (aw_state w1) = (Some (0, 0, 1), ac2)"
    and ac2: "ac_pending ac2 = [(''ch'', \<lparr>pn_id = 0, pn_sender = 0\<rparr>)]" "ac_buffers ac2 = []" "ac_open ac2 = [0]"
    by (simp add: w1_def request_begin_def register_presenter_until_def coordinator_new_def sample_request_def presented_request_def world_new_def)
  define w2 where "w2 = w1\<lparr>aw_state := ac2, aw_waiting := [(''ch'', 0, 0)], aw_log := [Began ''ch'' 0]\<rparr>"
  have r2: "approval_reachable w2" using approval_reachable.began [OF r1 b]
    by (simp add: w2_def w1_def world_new_def sample_request_def presented_request_def)
  obtain ac3 where d: "decide_take ''ch'' (aw_state w2) = (Some 0, ac3)" and ac3: "ac_pending ac3 = []" "ac_buffers ac3 = []" "ac_open ac3 = [0]"
    using ac2 by (simp add: decide_take_def w2_def)
  note r3 = approval_reachable.decided [OF r2 d, of True]
  note r4 = approval_reachable.sent [OF r3, of 0 True]
  have s: "received (snd (try_send 0 True ac3)) 0" using ac3 by (simp add: try_send_def received_def)
  obtain ac5 where e: "request_end True ''ch'' 0 0 (snd (try_send 0 True ac3)) = (True, ac5)" using s by (simp add: request_end_def)
  have r5: "\<exists>w. approval_reachable w \<and> aw_log w = [] @ Ended ''ch'' 0 True # [Chosen ''ch'' 0 True, Began ''ch'' 0]"
    using approval_reachable.ended [OF r4, of "''ch''" 0 0 True True ac5] e by (auto simp: w2_def)
  then obtain w where w: "approval_reachable w" "aw_log w = [] @ Ended ''ch'' 0 True # [Chosen ''ch'' 0 True, Began ''ch'' 0]" by blast
  from approvals_are_explicit [OF w] w show ?thesis by auto
qed

end
