(* ===== verification/Companion_Session.thy ===== *)
theory Companion_Session
  imports Approval_Coordinator Companion_Registry Runtime_Activity Json
begin

text \<open>
  A companion connection from pairing to its last request: the credential a client holds
  (\<open>attach/credential_store.rs\<close>, \<open>authorize_client\<close> of \<open>attach/desktop_service.rs\<close>), the pairing exchange
  (\<open>attach/companion_pairing.rs\<close>), and the checks before each request is dispatched (\<open>attach/companion_session.rs\<close>).
  Reading and writing frames, and what a dispatched request does, are left out; the clock's readings, the
  random bytes, the user's answers and whether the credential file could be written are arguments. An operation is
  its wire name.
\<close>

section \<open>Operations\<close>

definition operations :: "string list" where
  "operations =
    [''workspace.onboard'', ''home.ensure'', ''thread.list'', ''thread.open'', ''thread.summaries'',
     ''thread.history'', ''thread.create'', ''thread.rename'', ''thread.select'', ''thread.delete'',
     ''session.status'', ''entitlement.snapshot'', ''device.list'', ''session.sign_out'',
     ''session.sign_in'', ''companion.list'', ''companion.revoke'', ''company.list'', ''company.create'',
     ''company.select'', ''company.rename'', ''company.delete'', ''record.sql'', ''record.propose'',
     ''record.commit'', ''record.kinds'', ''record.query'', ''record.entity'', ''record.report'',
     ''reader.describe'', ''reader.run'', ''reader.queue'', ''reader.objects'', ''reader.connect'',
     ''run.open'', ''run.start'', ''run.submit'', ''run.resume'', ''run.permission_answer'', ''run.stream'',
     ''run.chat_events'', ''run.detail'', ''run.cursor_ack'', ''run.steer'', ''run.follow_up'',
     ''run.cancel'', ''permission.answer'', ''artifact.fetch'', ''artifact.window'', ''request.cancel'',
     ''migration.control'', ''approval.present'', ''retention.recheck'', ''pairing.challenge'',
     ''pairing.status'', ''pairing.revoke'', ''thread.context_usage'', ''thread.compact'',
     ''context.settings'', ''context.settings_save'', ''models.request'', ''remote.pairing_create'',
     ''remote.device_list'', ''remote.device_revoke'', ''runtime.info'', ''runtime.update'',
     ''models.share'', ''models.share_bundle'', ''models.vault'', ''remote.settings'',
     ''remote.settings_save'', ''agent.list'', ''agent.read'', ''agent.save'', ''agent.delete'',
     ''agent.run_now'', ''agent.runs'', ''routine.list'', ''routine.save'', ''routine.delete'',
     ''swarm.invite'', ''swarm.join'', ''swarm.leave'', ''swarm.members'', ''swarm.agents'',
     ''swarm.exchange'', ''swarm.resume'', ''fleet.hold_sign_in'', ''fleet.credentials'', ''fleet.pins'',
     ''fleet.pin_set'', ''blob.read'', ''swarm.set_role'', ''fleet.audit'', ''thread.post'',
     ''fleet.sync_status'', ''fleet.offline_set'', ''thread.history_fetch'', ''agent.move'',
     ''agent.approvals'', ''agent.approval_answer'', ''group.create'', ''group.list'', ''group.update'',
     ''agent.routine_proposals'', ''agent.routine_proposal_accept'', ''agent.routine_proposal_dismiss'',
     ''agent.import'', ''agent.import_commit'', ''agent.export'', ''routine.webhook_create'',
     ''routine.webhook_rotate'', ''routine.webhook_info'', ''agent.threads'', ''agent.tool_catalog'',
     ''agent.draft'', ''agent.replays'', ''agent.replay'', ''permission.modes'', ''permission.settings'',
     ''permission.settings_save'', ''settings.scope'', ''thread.permission_mode'',
     ''thread.permission_mode_set'', ''thread.plan'', ''thread.plan_answer'', ''run.changes'',
     ''run.revert'', ''thread.rewind_preview'', ''thread.rewind'', ''fleet.op_status'', ''preferences.get'',
     ''preferences.set'', ''preferences.import'', ''usage.summary'', ''notifications.list'',
     ''fleet.op_cancel'', ''fleet.ops'']"

definition requires_idempotency_key :: "string \<Rightarrow> bool" where
  "requires_idempotency_key operation \<longleftrightarrow> operation \<in> set
    [''thread.create'', ''thread.rename'', ''thread.delete'', ''session.sign_out'', ''session.sign_in'',
     ''companion.revoke'', ''company.create'', ''company.select'', ''company.rename'', ''company.delete'',
     ''record.commit'', ''reader.run'', ''reader.connect'', ''run.start'', ''run.submit'', ''run.resume'',
     ''run.permission_answer'', ''run.steer'', ''run.follow_up'', ''run.cancel'', ''permission.answer'',
     ''pairing.challenge'', ''pairing.revoke'', ''thread.compact'']"

definition reading_operations :: "string list" where
  "reading_operations =
    [''thread.list'', ''thread.open'', ''run.open'', ''run.stream'', ''run.cursor_ack'', ''artifact.fetch'',
     ''artifact.window'', ''request.cancel'', ''record.sql'', ''record.kinds'', ''record.query'',
     ''record.entity'', ''record.report'']"

definition writing_operations :: "string list" where
  "writing_operations =
    [''thread.create'', ''run.start'', ''run.cancel'', ''permission.answer'', ''record.propose'',
     ''record.commit'']"

definition unscoped_operations :: "string list" where
  "unscoped_operations = [''workspace.onboard'', ''home.ensure'', ''migration.control'']"

definition companion_scope :: "string \<Rightarrow> string option option" where
  "companion_scope operation =
     (if operation \<in> set unscoped_operations then Some None
      else if operation \<in> set reading_operations then Some (Some ''thread.read'')
      else if operation \<in> set writing_operations then Some (Some ''run.write'')
      else None)"

record request =
  rq_id :: string
  rq_operation :: string
  rq_capability :: string
  rq_idempotency :: "string option"
  rq_body :: json

datatype key_error = KeyRequired | KeyForbidden | InvalidModelRequest

text \<open>\<open>mutates\<close> reads the action of a \<open>models.request\<close> body, if it is one.\<close>

definition validate_idempotency_key :: "(json \<Rightarrow> bool option) \<Rightarrow> request \<Rightarrow> key_error + unit" where
  "validate_idempotency_key mutates r =
     result_bind (if rq_operation r = ''models.request''
                  then (case mutates (rq_body r) of None \<Rightarrow> Inl InvalidModelRequest | Some b \<Rightarrow> Inr b)
                  else Inr (requires_idempotency_key (rq_operation r))) (\<lambda>required.
       if required \<and> rq_idempotency r = None then Inl KeyRequired
       else if \<not> required \<and> rq_idempotency r \<noteq> None then Inl KeyForbidden
       else Inr ())"

section \<open>Credentials\<close>

definition max_id_length :: nat where "max_id_length = 64"

definition is_hexdigit :: "char \<Rightarrow> bool" where
  "is_hexdigit c \<longleftrightarrow> is_digit c \<or> (let n = of_char c :: nat in (97 \<le> n \<and> n \<le> 102) \<or> (65 \<le> n \<and> n \<le> 70))"

text \<open>\<open>uuid\<close> is \<open>Uuid::parse_str\<close>, and \<open>offset\<close> the offset from UTC of an RFC 3339 time.\<close>

definition credential_is_valid :: "(string \<Rightarrow> bool) \<Rightarrow> (string \<Rightarrow> int option) \<Rightarrow> string \<Rightarrow> client_credential \<Rightarrow> bool" where
  "credential_is_valid uuid offset identity c \<longleftrightarrow>
     length identity \<le> max_id_length \<and> uuid identity
     \<and> length (cr_credential c) = 64 \<and> list_all is_hexdigit (cr_credential c)
     \<and> cr_claimed_kind c = bounded_claim (cr_claimed_kind c) \<and> cr_claimed_version c = bounded_claim (cr_claimed_version c)
     \<and> (case cr_approved_at c of None \<Rightarrow> True | Some t \<Rightarrow> offset t = Some 0)
     \<and> (case cr_subject c of None \<Rightarrow> True | Some s \<Rightarrow> is_valid_approval_subject s)"

definition credentials_are_valid :: "(string \<Rightarrow> bool) \<Rightarrow> (string \<Rightarrow> int option) \<Rightarrow> (string \<times> client_credential) list \<Rightarrow> bool" where
  "credentials_are_valid uuid offset cs = list_all (\<lambda>(i, c). credential_is_valid uuid offset i c) cs"

text \<open>The credential file: a versioned store, or the older map from identities to secrets. \<open>serde_json\<close>'s reading of
  each is an argument.\<close>

definition decode_client_credentials :: "(json \<Rightarrow> (u32 \<times> (string \<times> client_credential) list) option) \<Rightarrow> (json \<Rightarrow> (string \<times> string) list option)
    \<Rightarrow> (string \<Rightarrow> bool) \<Rightarrow> (string \<Rightarrow> int option) \<Rightarrow> json \<Rightarrow> (string \<times> client_credential) list rresult" where
  "decode_client_credentials read_store read_legacy uuid offset v =
     result_bind
       (if jget v ''version'' \<noteq> None
        then (case read_store v of
                None \<Rightarrow> Err ''persistence_failed''
              | Some (version, cs) \<Rightarrow> if version \<noteq> 1 then Err ''persistence_failed'' else Ok cs)
        else (case read_legacy v of
                None \<Rightarrow> Err ''persistence_failed''
              | Some kvs \<Rightarrow> Ok (map (\<lambda>(i, s). (i, \<lparr>cr_credential = s, cr_claimed_kind = ''unknown'', cr_claimed_version = ''unknown'',
                  cr_approved_at = None, cr_subject = None\<rparr>)) kvs)))
       (\<lambda>cs. if credentials_are_valid uuid offset cs then Ok cs else Err ''persistence_failed'')"

record companion_service =
  sv_credentials :: "(string \<times> client_credential) list"
  sv_identity :: "string option"

definition bind_authorized_client :: "string \<Rightarrow> companion_service \<Rightarrow> companion_service" where
  "bind_authorized_client identity sv = sv\<lparr>sv_identity := Some identity\<rparr>"

text \<open>\<open>persist\<close> says whether the file was written, and holds when there is no file.\<close>

definition authorize_client :: "string option \<Rightarrow> ((string \<times> client_credential) list \<Rightarrow> bool) \<Rightarrow> string \<Rightarrow> string \<Rightarrow> string option \<Rightarrow> string
    \<Rightarrow> string \<Rightarrow> string \<Rightarrow> companion_service \<Rightarrow> string rresult \<times> companion_service" where
  "authorize_client approver persist now identity presented issued kind version sv =
     (let reconnect = (issued = []) in
      case (case approver of None \<Rightarrow> None | Some s \<Rightarrow> if is_valid_approval_subject s then Some s else None) of
        None \<Rightarrow> (Err ''unauthorized'', sv)
      | Some subject \<Rightarrow>
          (case map_of (sv_credentials sv) identity of
             Some expected \<Rightarrow>
               if presented = Some (cr_credential expected)
               then (if cr_subject expected \<noteq> Some subject
                     then (if reconnect then (Err ''unauthorized'', sv)
                           else let changed = AList.update identity (expected\<lparr>cr_subject := Some subject\<rparr>) (sv_credentials sv) in
                             if persist changed
                             then (Ok (cr_credential expected), sv\<lparr>sv_credentials := changed, sv_identity := Some identity\<rparr>)
                             else (Err ''persistence_failed'',
                               sv\<lparr>sv_credentials := AList.update identity (expected\<lparr>cr_subject := cr_subject expected\<rparr>) changed\<rparr>))
                     else (Ok (cr_credential expected), sv\<lparr>sv_identity := Some identity\<rparr>))
               else (Err ''unauthorized'', sv)
           | None \<Rightarrow>
               if presented = None \<and> \<not> reconnect
               then (let added = AList.update identity \<lparr>cr_credential = issued, cr_claimed_kind = bounded_claim kind,
                           cr_claimed_version = bounded_claim version, cr_approved_at = Some now, cr_subject = Some subject\<rparr> (sv_credentials sv)
                     in if persist added then (Ok issued, sv\<lparr>sv_credentials := added, sv_identity := Some identity\<rparr>)
                        else (Err ''persistence_failed'', sv\<lparr>sv_credentials := AList.delete identity added\<rparr>))
               else (Err ''unauthorized'', sv)))"

section \<open>Pairing\<close>

text \<open>What a \<open>hello\<close> carries, and what the platform adds.\<close>

record pairing_hello =
  ph_client_nonce :: string
  ph_client_id :: string
  ph_credential :: "string option"
  ph_kind :: string
  ph_version :: string
  ph_identity :: string
  ph_ephemeral :: bool

text \<open>The host of one exchange: who may approve when a reconnect is tried and when the user has answered, the approval a reconnect gets, the readings of the clock at the
  challenge and at the approval, the bytes drawn, the user's first and repeated answer, and the rest of what the
  libraries give.\<close>

record pairing_host =
  pt_earlier_approver :: "string option"
  pt_approver :: "string option"
  pt_reconnect :: "approval option"
  pt_persist :: "(string \<times> client_credential) list \<Rightarrow> bool"
  pt_time :: string
  pt_issued_at :: nat
  pt_approved_at :: nat
  pt_nonce :: "u8 list option"
  pt_challenge :: "u8 list option"
  pt_capability :: "u8 list option"
  pt_repeat_bytes :: "u8 list option"
  pt_credential :: "u8 list option"
  pt_answer :: "approval option"
  pt_repeat :: "approval option"
  pt_event :: string

datatype session_error = SessionRandomness | SessionAuthorization | SessionTimeout

datatype pairing_result = PairingDenied | PairingFailed session_error | Paired string string authorized_grant

definition hello_binding :: "pairing_hello \<Rightarrow> string \<Rightarrow> connection_binding" where
  "hello_binding hello server_nonce = \<lparr>cb_connection = server_nonce, cb_client_nonce = ph_client_nonce hello,
     cb_server_nonce = server_nonce, cb_identity = ph_identity hello, cb_kind = ph_kind hello\<rparr>"

text \<open>A reconnect needs a stored credential, and an ephemeral pairing never uses one.\<close>

definition try_reconnect :: "pairing_host \<Rightarrow> pairing_hello \<Rightarrow> companion_service \<Rightarrow> (approval \<times> string) option \<times> companion_service" where
  "try_reconnect host hello sv =
     (case (if ph_ephemeral hello then None else ph_credential hello, pt_reconnect host) of
        (Some credential, Some ap) \<Rightarrow>
          (case authorize_client (pt_earlier_approver host) (pt_persist host) (pt_time host) (ph_client_id hello) (Some credential) []
                  (ph_kind hello) (ph_version hello) sv of
             (Inr credential, sv) \<Rightarrow> (Some (ap, credential), sv)
           | (Inl _, sv) \<Rightarrow> (None, sv))
      | _ \<Rightarrow> (None, sv))"

definition session_error_of :: "authorization_error \<Rightarrow> session_error" where
  "session_error_of e = (case e of Randomness \<Rightarrow> SessionRandomness | ChallengeExpired \<Rightarrow> SessionTimeout | _ \<Rightarrow> SessionAuthorization)"

text \<open>The credential the client keeps: the one it reconnected with, a new one kept by no store, or one the store holds.\<close>

definition client_credential_for :: "pairing_host \<Rightarrow> pairing_hello \<Rightarrow> string option \<Rightarrow> companion_service
    \<Rightarrow> (session_error + string) \<times> companion_service" where
  "client_credential_for host hello reconnected sv =
     (case reconnected of
        Some credential \<Rightarrow> (Inr credential, sv)
      | None \<Rightarrow>
          (case pt_credential host of
             None \<Rightarrow> (Inl SessionRandomness, sv)
           | Some bytes \<Rightarrow>
               (let issued = generate_hex bytes in
                if ph_ephemeral hello then (Inr issued, bind_authorized_client (ph_client_id hello) sv)
                else (case authorize_client (pt_approver host) (pt_persist host) (pt_time host) (ph_client_id hello) (ph_credential hello) issued
                             (ph_kind hello) (ph_version hello) sv of
                        (Inr credential, sv) \<Rightarrow> (Inr credential, sv)
                      | (Inl _, sv) \<Rightarrow> (Inl SessionAuthorization, sv)))))"

text \<open>A repeated approval must meet the consumed challenge.\<close>

definition repeat_ok :: "pairing_host \<Rightarrow> string \<Rightarrow> authorization \<Rightarrow> bool" where
  "repeat_ok host challenge au =
     (case pt_repeat host of
        None \<Rightarrow> True
      | Some ap \<Rightarrow> fst (approve (pt_approved_at host) (pt_repeat_bytes host) challenge ap au) = Inl ChallengeConsumed)"

definition pairing_exchange :: "pairing_host \<Rightarrow> pairing_hello \<Rightarrow> companion_service \<Rightarrow> live_registry
    \<Rightarrow> pairing_result \<times> companion_service \<times> live_registry \<times> authorization option" where
  "pairing_exchange host hello sv reg =
     (case pt_nonce host of
        None \<Rightarrow> (PairingFailed SessionRandomness, sv, reg, None)
      | Some nonce \<Rightarrow>
          (let binding = hello_binding hello (generate_hex nonce);
               (reconnect, sv) = try_reconnect host hello sv;
               au = authorization_new binding
           in case issue_challenge (pt_issued_at host) (pt_challenge host) au of
                (Inl err, au) \<Rightarrow> (PairingFailed (if err = Randomness then SessionRandomness else SessionAuthorization), sv, reg, Some au)
              | (Inr challenge, au) \<Rightarrow>
                  (case (case reconnect of Some (ap, c) \<Rightarrow> Some ap | None \<Rightarrow> pt_answer host) of
                     None \<Rightarrow> (PairingDenied, sv, reg, Some au)
                   | Some ap \<Rightarrow>
                       (case approve (pt_approved_at host) (pt_capability host) challenge ap au of
                          (Inl err, au) \<Rightarrow> (PairingFailed (session_error_of err), sv, reg, Some au)
                        | (Inr (capability, grant), au) \<Rightarrow>
                            if reconnect = None \<and> \<not> repeat_ok host challenge au then (PairingFailed SessionAuthorization, sv, reg, Some au)
                            else (case client_credential_for host hello (map_option snd reconnect) sv of
                                    (Inl err, sv) \<Rightarrow> (PairingFailed err, sv, reg, Some au)
                                  | (Inr credential, sv) \<Rightarrow>
                                      (Paired credential capability grant, sv, register reg credential capability (pt_event host), Some au))))))"

lemma authorize_reconnect:
  assumes "authorize_client approver persist now identity presented [] kind version sv = (Inr credential, sv')"
  shows "\<exists>c s. map_of (sv_credentials sv) identity = Some c \<and> presented = Some (cr_credential c) \<and> credential = cr_credential c
    \<and> approver = Some s \<and> cr_subject c = Some s \<and> is_valid_approval_subject s \<and> sv_credentials sv' = sv_credentials sv"
  using assms by (auto simp: authorize_client_def Let_def split: option.splits if_splits)

lemma authorize_failed:
  assumes "authorize_client approver persist now identity presented issued kind version sv = (Inl err, sv')"
  shows "map_of (sv_credentials sv') = map_of (sv_credentials sv)"
  using assms by (auto simp: authorize_client_def Let_def update_conv' delete_conv' fun_eq_iff split: option.splits if_splits)

lemma try_reconnect_Some:
  assumes "try_reconnect host hello sv = (Some (ap, credential), sv')"
  shows "\<not> ph_ephemeral hello \<and> pt_reconnect host = Some ap \<and> (\<exists>c s. map_of (sv_credentials sv) (ph_client_id hello) = Some c
    \<and> ph_credential hello = Some (cr_credential c) \<and> credential = cr_credential c
    \<and> pt_earlier_approver host = Some s \<and> cr_subject c = Some s)"
  using assms by (auto simp: try_reconnect_def split: option.splits if_splits sum.splits prod.splits dest!: authorize_reconnect)

lemma approved_grant:
  assumes "approve now drawn challenge ap au = (Inr (capability, grant), au')"
    "au_state au = PendingChallenge \<lparr>pc_token = token, pc_expires_at = issued + challenge_lifetime\<rparr>"
  shows "ag_profile grant = ap_profile ap \<and> ag_workspace grant = ap_workspace ap \<and> ag_scopes grant = ap_scopes ap
    \<and> ag_expires_at grant \<le> now + min (ap_lifetime ap) max_capability_lifetime \<and> now \<le> issued + challenge_lifetime"
proof (cases drawn)
  case (Some bytes)
  then show ?thesis using assms by (auto simp: approve_def Let_def split: if_splits)
qed (use assms in \<open>simp add: approve_def Let_def split: if_splits\<close>)

lemma try_reconnect_credentials: "map_of (sv_credentials (snd (try_reconnect host hello sv))) = map_of (sv_credentials sv)"
proof -
  have "map_of (sv_credentials sv') = map_of (sv_credentials sv)"
    if "authorize_client a p n i (Some c) [] k v sv = (r, sv')" for a p n i c k v r sv'
    using that authorize_reconnect [of a p n i "Some c" k v sv] authorize_failed [of a p n i "Some c" "[]" k v sv]
    by (cases r) auto
  then show ?thesis by (auto simp: try_reconnect_def split: option.splits prod.splits sum.splits)
qed

lemma credential_for_ephemeral:
  "ph_ephemeral hello \<Longrightarrow> client_credential_for host hello None sv = (r, sv') \<Longrightarrow> sv_credentials sv' = sv_credentials sv"
  by (auto simp: client_credential_for_def bind_authorized_client_def Let_def split: option.splits)

text \<open>C33: A companion is paired only with an approval: the user's answer to the challenge of this connection, or a
  reconnect whose stored credential the client presented and whose approver is the one signed in now. Its grant is
  within the approval, its connection is registered under the credential it was given and lives unless that
  credential is blocked or revoked, and a pairing that must not outlive its connection leaves the stored
  credentials as they were.\<close>

theorem pairing_needs_approval:
  assumes "pairing_exchange host hello sv reg = (Paired credential capability grant, sv', reg', au)"
  shows "(\<exists>ap. (pt_answer host = Some ap \<or> (pt_reconnect host = Some ap \<and> \<not> ph_ephemeral hello
         \<and> (\<exists>c s. map_of (sv_credentials sv) (ph_client_id hello) = Some c \<and> ph_credential hello = Some (cr_credential c)
              \<and> credential = cr_credential c \<and> pt_earlier_approver host = Some s \<and> cr_subject c = Some s)))
       \<and> ag_profile grant = ap_profile ap \<and> ag_workspace grant = ap_workspace ap \<and> ag_scopes grant = ap_scopes ap
       \<and> ag_expires_at grant \<le> pt_approved_at host + min (ap_lifetime ap) max_capability_lifetime
       \<and> pt_approved_at host \<le> pt_issued_at host + challenge_lifetime)
    \<and> state_of reg' credential (pt_event host) = Some (cc_state (entry_of reg credential))
    \<and> (ph_ephemeral hello \<longrightarrow> map_of (sv_credentials sv') = map_of (sv_credentials sv))"
proof -
  obtain reconnect sv1 where rc: "try_reconnect host hello sv = (reconnect, sv1)" by fastforce
  obtain nonce where n: "pt_nonce host = Some nonce" using assms by (cases "pt_nonce host") (simp_all add: pairing_exchange_def)
  obtain r1 au1 where i: "issue_challenge (pt_issued_at host) (pt_challenge host) (authorization_new (hello_binding hello (generate_hex nonce))) = (r1, au1)"
    by fastforce
  note run = assms [unfolded pairing_exchange_def n option.case Let_def rc prod.case i]
  obtain challenge where r1: "r1 = Inr challenge" using run by (cases r1) simp_all
  obtain ap where ap: "(case reconnect of Some (ap, c) \<Rightarrow> Some ap | None \<Rightarrow> pt_answer host) = Some ap"
    using run r1 by (cases "case reconnect of Some (ap, c) \<Rightarrow> Some ap | None \<Rightarrow> pt_answer host") simp_all
  obtain r2 au2 where a: "approve (pt_approved_at host) (pt_capability host) challenge ap au1 = (r2, au2)" by fastforce
  obtain cap g where r2: "r2 = Inr (cap, g)" using run r1 ap a by (cases r2) (auto split: prod.splits)
  obtain r3 sv3 where c: "client_credential_for host hello (map_option snd reconnect) sv1 = (r3, sv3)" by fastforce
  have r3: "r3 = Inr credential" "sv3 = sv'" "cap = capability" "g = grant" "reg' = register reg credential capability (pt_event host)"
    using run r1 ap a r2 c by (cases r3; simp split: if_splits)+
  note e = i [unfolded r1] ap a [unfolded r2 r3(3,4)] c [unfolded r3(1,2)] r3(5)
  have st: "state_of reg' credential (pt_event host) = Some (cc_state (entry_of reg credential))"
    unfolding e(5) by (simp add: state_of_def register_def Let_def entry_of_update update_conv')
  have au1: "au_state au1 = PendingChallenge \<lparr>pc_token = challenge, pc_expires_at = pt_issued_at host + challenge_lifetime\<rparr>"
    using e(1) by (auto simp: issue_challenge_def authorization_new_def Let_def split: option.splits)
  have grant: "ag_profile grant = ap_profile ap \<and> ag_workspace grant = ap_workspace ap \<and> ag_scopes grant = ap_scopes ap
       \<and> ag_expires_at grant \<le> pt_approved_at host + min (ap_lifetime ap) max_capability_lifetime
       \<and> pt_approved_at host \<le> pt_issued_at host + challenge_lifetime"
    by (rule approved_grant [OF e(3) au1])
  have eph: "map_of (sv_credentials sv') = map_of (sv_credentials sv)" if "ph_ephemeral hello"
  proof -
    have "reconnect = None" using rc that by (auto simp: try_reconnect_def split: option.splits)
    then have "sv_credentials sv' = sv_credentials sv1" using credential_for_ephemeral [OF that, of host sv1] e(4) by simp
    moreover have "sv1 = snd (try_reconnect host hello sv)" by (simp add: rc)
    ultimately show ?thesis using try_reconnect_credentials [of host hello sv] by simp
  qed
  show ?thesis
  proof (cases reconnect)
    case None
    with e(2) grant st eph show ?thesis by auto
  next
    case (Some x)
    then obtain c where x: "reconnect = Some (ap, c)" using e(2) by (cases x) auto
    then have "credential = c" using e(4) by (simp add: client_credential_for_def)
    with try_reconnect_Some [of host hello sv ap c sv1] rc x grant st eph show ?thesis by blast
  qed
qed

definition sample_hello :: pairing_hello where
  "sample_hello = \<lparr>ph_client_nonce = ''c'', ph_client_id = ''phone'', ph_credential = None, ph_kind = ''cli'', ph_version = ''1'',
     ph_identity = ''i'', ph_ephemeral = False\<rparr>"

definition sample_pairing :: pairing_host where
  "sample_pairing = \<lparr>pt_earlier_approver = None, pt_approver = Some ''local'', pt_reconnect = None, pt_persist = (\<lambda>_. True), pt_time = ''now'',
     pt_issued_at = 3, pt_approved_at = 5, pt_nonce = Some [9], pt_challenge = Some [1], pt_capability = Some [2], pt_repeat_bytes = None,
     pt_credential = Some [3], pt_answer = Some sample_approval, pt_repeat = None, pt_event = ''e''\<rparr>"

lemma sample_paired: "\<exists>credential g sv reg au. pairing_exchange sample_pairing sample_hello \<lparr>sv_credentials = [], sv_identity = None\<rparr> []
    = (Paired credential ''02'' g, sv, reg, au)"
proof -
  have v: "is_valid_approval_subject ''local''" "generate_hex [3] \<noteq> []" by code_simp+
  show ?thesis
    by (simp add: pairing_exchange_def sample_pairing_def sample_hello_def try_reconnect_def issue_challenge_def authorization_new_def
      approve_def repeat_ok_def client_credential_for_def authorize_client_def sample_hex challenge_lifetime_def seconds_def v Let_def)
qed

theorem pairing_needs_approval_witness:
  "\<exists>credential g sv reg au. pairing_exchange sample_pairing sample_hello \<lparr>sv_credentials = [], sv_identity = None\<rparr> []
    = (Paired credential ''02'' g, sv, reg, au) \<and> ag_workspace g = ''/w''"
proof -
  obtain credential g sv reg au where p: "pairing_exchange sample_pairing sample_hello \<lparr>sv_credentials = [], sv_identity = None\<rparr> []
    = (Paired credential ''02'' g, sv, reg, au)" using sample_paired by blast
  from pairing_needs_approval [OF p] have "ag_workspace g = ''/w''"
    by (auto simp: sample_pairing_def sample_approval_def)
  with p show ?thesis by blast
qed

section \<open>Requests\<close>

datatype request_outcome = Waits | SendsRevocation | RefusedRequest string bool | Dispatches

text \<open>From a decoded request to its dispatch, which holds the gate of the credential throughout. \<open>expired\<close> is what the
  loop read of the remaining lifetime before it waited for the request; a refusal says whether it ends the session.\<close>

definition serve_request :: "live_registry \<Rightarrow> activity_state \<Rightarrow> string \<Rightarrow> string \<Rightarrow> connection_binding \<Rightarrow> string \<Rightarrow> string
    \<Rightarrow> bool \<Rightarrow> nat \<Rightarrow> request \<Rightarrow> authorization \<Rightarrow> request_outcome \<times> authorization" where
  "serve_request reg activity credential event_id binding profile workspace expired now r au =
     (case state_of reg credential event_id of
        Some Active \<Rightarrow>
          if expired then (RefusedRequest ''unauthorized'' True, au)
          else if admit activity (rq_operation r) = Some (Inl ()) then (RefusedRequest ''runtime_draining'' False, au)
          else (case companion_scope (rq_operation r) of
                  None \<Rightarrow> (RefusedRequest ''unauthorized'' True, au)
                | Some scope \<Rightarrow>
                    (case validate_request_with_scope now (rq_capability r) binding profile workspace scope au of
                       (Inl _, au) \<Rightarrow> (RefusedRequest ''unauthorized'' True, au)
                     | (Inr _, au) \<Rightarrow> (Dispatches, au)))
      | Some Blocked \<Rightarrow> (Waits, au)
      | _ \<Rightarrow> (SendsRevocation, au))"

text \<open>A session among other work: the connections of all credentials change between its requests, the runtime starts
  and stops draining, and each request is served or not. The log is newest first.\<close>

datatype session_event = Served nat request | LiveChange live_op

record companion_world =
  wo_live :: live_registry
  wo_auth :: authorization
  wo_history :: "(nat \<times> auth_event) list"
  wo_log :: "session_event list"

inductive session_run :: "string \<Rightarrow> string \<Rightarrow> connection_binding \<Rightarrow> string \<Rightarrow> string \<Rightarrow> companion_world \<Rightarrow> bool"
    for credential event_id binding profile workspace where
  start: "auth_run binding h au \<Longrightarrow> session_run credential event_id binding profile workspace
    \<lparr>wo_live = reg, wo_auth = au, wo_history = h, wo_log = []\<rparr>"
| change: "session_run credential event_id binding profile workspace w \<Longrightarrow> session_run credential event_id binding profile workspace
    (w\<lparr>wo_live := live_step (wo_live w) op, wo_log := LiveChange op # wo_log w\<rparr>)"
| request: "session_run credential event_id binding profile workspace w \<Longrightarrow> (\<forall>x\<in>set (wo_history w). fst x \<le> now)
    \<Longrightarrow> serve_request (wo_live w) activity credential event_id binding profile workspace expired now r (wo_auth w) = (out, au)
    \<Longrightarrow> session_run credential event_id binding profile workspace
      (if out = Dispatches
       then w\<lparr>wo_auth := au, wo_history := (now, Validated (rq_capability r) binding profile workspace (the (companion_scope (rq_operation r)))) # wo_history w,
              wo_log := Served now r # wo_log w\<rparr>
       else w\<lparr>wo_auth := au\<rparr>)"

lemma serve_dispatches:
  assumes "serve_request reg activity credential event_id binding profile workspace expired now r au = (Dispatches, au')"
  shows "\<exists>scope. state_of reg credential event_id = Some Active \<and> companion_scope (rq_operation r) = Some scope
    \<and> validate_request_with_scope now (rq_capability r) binding profile workspace scope au = (Inr (), au')"
  using assms by (auto simp: serve_request_def split: option.splits conn_state.splits if_splits prod.splits sum.splits)

lemma validate_refused: "validate_request_with_scope now cap b p w scope au = (Inl err, au') \<Longrightarrow> au' = au"
  by (auto simp: validate_request_with_scope_def split: auth_state.splits if_splits)

lemma serve_refuses:
  assumes "serve_request reg activity credential event_id binding profile workspace expired now r au = (out, au')" "out \<noteq> Dispatches"
  shows "au' = au"
  using assms
  by (auto simp: serve_request_def dest!: validate_refused split: option.splits conn_state.splits if_splits prod.splits sum.splits)

text \<open>What a served request was checked against, and that its credential had not been revoked.\<close>

fun served_ok :: "string \<Rightarrow> string \<Rightarrow> connection_binding \<Rightarrow> string \<Rightarrow> string \<Rightarrow> (nat \<times> auth_event) list \<Rightarrow> session_event list \<Rightarrow> bool" where
  "served_ok credential event_id binding profile workspace h [] = True"
| "served_ok credential event_id binding profile workspace h (LiveChange op # log) = served_ok credential event_id binding profile workspace h log"
| "served_ok credential event_id binding profile workspace h (Served now r # log) \<longleftrightarrow>
     (case h of [] \<Rightarrow> False
      | (t, e) # h \<Rightarrow> t = now \<and> (\<exists>scope. companion_scope (rq_operation r) = Some scope
            \<and> e = Validated (rq_capability r) binding profile workspace scope)
          \<and> LiveChange (Revoke credential) \<notin> set log \<and> served_ok credential event_id binding profile workspace h log)"

definition revoked_in :: "string \<Rightarrow> session_event list \<Rightarrow> bool" where
  "revoked_in credential log \<longleftrightarrow> LiveChange (Revoke credential) \<in> set log"

lemma session_invariant:
  assumes "session_run credential event_id binding profile workspace w"
  shows "auth_run binding (wo_history w) (wo_auth w) \<and> served_ok credential event_id binding profile workspace (wo_history w) (wo_log w)
    \<and> (LiveChange (Revoke credential) \<in> set (wo_log w) \<longrightarrow> all_revoked (wo_live w) credential)"
  using assms
proof (induction rule: session_run.induct)
  case (change w op)
  then show ?case by (auto simp: all_revoked_step all_revoked_revoke)
next
  case (request w now activity expired r out au)
  show ?case
  proof (cases "out = Dispatches")
    case True
    with serve_dispatches request(3) obtain scope where s: "state_of (wo_live w) credential event_id = Some Active"
      "companion_scope (rq_operation r) = Some scope"
      "validate_request_with_scope now (rq_capability r) binding profile workspace scope (wo_auth w) = (Inr (), au)" by blast
    have "LiveChange (Revoke credential) \<notin> set (wo_log w)"
    proof
      assume "LiveChange (Revoke credential) \<in> set (wo_log w)"
      then have "all_revoked (wo_live w) credential" using request(4) by blast
      with s(1) show False by (auto simp: all_revoked_def state_of_def)
    qed
    moreover have "auth_run binding ((now, Validated (rq_capability r) binding profile workspace scope) # wo_history w) au"
      using auth_run.validate [OF _ request(2) s(3)] request(4) by simp
    ultimately show ?thesis using True s(2) request(4) by simp
  next
    case False
    with serve_refuses [OF request(3)] request(4) show ?thesis by simp
  qed
qed simp

lemma served_ok_split:
  "served_ok credential event_id binding profile workspace h (later @ Served now r # earlier) \<Longrightarrow>
    \<exists>before after scope. h = after @ (now, Validated (rq_capability r) binding profile workspace scope) # before
      \<and> companion_scope (rq_operation r) = Some scope \<and> LiveChange (Revoke credential) \<notin> set earlier"
proof (induction credential event_id binding profile workspace h later rule: served_ok.induct)
  case (1 credential event_id binding profile workspace h)
  then show ?case by (cases h) (force intro: exI [of _ "[]"])+
next
  case (3 credential event_id binding profile workspace h now' r' log)
  then show ?case by (cases h) (auto, metis append_Cons)
qed simp

text \<open>C32: In every session, whatever happens to the connections of this and other credentials meanwhile, a request that is
  dispatched is on the list of operations companions have, carries the capability the connection was granted by an
  approval still in its time, needs a scope that approval gave, and no earlier revocation took its credential;
  so once a credential is revoked none of its requests is dispatched.\<close>

theorem companion_requests_admitted:
  assumes "session_run credential event_id binding profile workspace w" "wo_log w = later @ Served now r # earlier"
  shows "LiveChange (Revoke credential) \<notin> set earlier
    \<and> rq_operation r \<in> set unscoped_operations \<union> set reading_operations \<union> set writing_operations
    \<and> (\<exists>ti ta c ap. (ti, Issued c) \<in> set (wo_history w) \<and> (ta, Approved c (rq_capability r) ap) \<in> set (wo_history w)
        \<and> ta \<le> ti + seconds 120 \<and> profile = ap_profile ap \<and> workspace = ap_workspace ap
        \<and> (rq_operation r \<in> set reading_operations \<longrightarrow> ''thread.read'' \<in> ap_scopes ap)
        \<and> (rq_operation r \<in> set writing_operations \<longrightarrow> ''run.write'' \<in> ap_scopes ap)
        \<and> now \<le> ta + ap_lifetime ap \<and> now \<le> ta + seconds 28800)"
proof -
  note inv = session_invariant [OF assms(1), unfolded assms(2)]
  from served_ok_split [OF conjunct1 [OF conjunct2 [OF inv]]] obtain before after scope where h:
    "wo_history w = after @ (now, Validated (rq_capability r) binding profile workspace scope) # before"
    "companion_scope (rq_operation r) = Some scope" "LiveChange (Revoke credential) \<notin> set earlier" by blast
  from validated_sound [OF conjunct1 [OF inv, unfolded h(1)]] obtain ti ta c ap where a: "(ti, Issued c) \<in> set before" "(ta, Approved c (rq_capability r) ap) \<in> set before"
    "ta \<le> ti + seconds 120" "profile = ap_profile ap" "workspace = ap_workspace ap" "\<forall>s. scope = Some s \<longrightarrow> s \<in> ap_scopes ap"
    "now \<le> ta + ap_lifetime ap" "now \<le> ta + seconds 28800" by blast
  have sc: "rq_operation r \<in> set unscoped_operations \<union> set reading_operations \<union> set writing_operations"
    using h(2) by (auto simp: companion_scope_def split: if_splits)
  have disj: "set unscoped_operations \<inter> set reading_operations = {}" "set unscoped_operations \<inter> set writing_operations = {}"
    "set reading_operations \<inter> set writing_operations = {}" by code_simp+
  have "rq_operation r \<in> set reading_operations \<longrightarrow> ''thread.read'' \<in> ap_scopes ap"
    "rq_operation r \<in> set writing_operations \<longrightarrow> ''run.write'' \<in> ap_scopes ap"
    using h(2) a(6) disj by (auto simp: companion_scope_def split: if_splits)
  then show ?thesis using h(1,3) sc a by auto
qed

definition sample_list :: request where
  "sample_list = \<lparr>rq_id = ''q'', rq_operation = ''thread.list'', rq_capability = ''02'', rq_idempotency = None, rq_body = JNull\<rparr>"

theorem companion_requests_admitted_witness:
  "\<exists>w. session_run ''03'' ''e'' sample_binding ''p'' ''/w'' w \<and> wo_log w = [Served 7 sample_list]
    \<and> rq_operation sample_list \<in> set unscoped_operations \<union> set reading_operations \<union> set writing_operations"
proof -
  note start = session_run.start [OF sample_authorized, of "''03''" "''e''" "''p''" "''/w''" "register [] ''03'' ''02'' ''e''"]
  have sc: "companion_scope ''thread.list'' = Some (Some ''thread.read'')" by code_simp
  have st: "state_of (register [] ''03'' ''02'' ''e'') ''03'' ''e'' = Some Active" by code_simp
  have ad: "admit activity_default ''thread.list'' \<noteq> Some (Inl ())" by (simp add: admit_def starts_blocking_work_def)
  have "fst (validate_request_with_scope 7 ''02'' sample_binding ''p'' ''/w'' (Some ''thread.read'') sample_active) = Inr ()"
    by (simp add: sample_active_def validate_request_with_scope_def sample_approval_def seconds_def capability_idle_lifetime_def)
  then obtain au where v: "validate_request_with_scope 7 ''02'' sample_binding ''p'' ''/w'' (Some ''thread.read'') sample_active = (Inr (), au)"
    by (metis prod.collapse)
  have sv: "serve_request (register [] ''03'' ''02'' ''e'') activity_default ''03'' ''e'' sample_binding ''p'' ''/w'' False 7 sample_list sample_active = (Dispatches, au)"
    using st sc ad v by (simp add: serve_request_def sample_list_def)
  have "\<exists>w. session_run ''03'' ''e'' sample_binding ''p'' ''/w'' w \<and> wo_log w = [] @ Served 7 sample_list # []"
    using session_run.request [OF start _ , of 7 activity_default False sample_list Dispatches au] sv by (auto intro!: exI)
  then obtain w where w: "session_run ''03'' ''e'' sample_binding ''p'' ''/w'' w" "wo_log w = [] @ Served 7 sample_list # []" by blast
  with companion_requests_admitted [OF w] show ?thesis by auto
qed

end
