(* ===== verification/Handoff.thy ===== *)
theory Handoff
  imports Prelude
begin

text \<open>
  The one live preparation of a migration handoff (\<open>attach/handoff.rs\<close>). An \<open>Instant\<close> is a number of milliseconds; the
  random bytes of a nonce, or that there are none, are an argument.
\<close>

definition max_handoff_nonce_bytes :: nat where "max_handoff_nonce_bytes = 128"
definition max_handoff_deadline_ms :: u64 where "max_handoff_deadline_ms = 60000"

definition mint_hex_nonce :: "u8 list \<Rightarrow> string" where
  "mint_hex_nonce bytes = concat (map (\<lambda>b. [hex_digit (unat (drop_bit 4 b)), hex_digit (unat (and b 15))]) bytes)"

datatype prepared_handoff_error = AlreadyPrepared | EmptyNonce | NonceTooLong | NonceNotPrintableAscii | DeadlineOutOfRange

record prepared_handoff =
  hd_nonce :: string
  hd_deadline :: nat

type_synonym handoff_slot = "prepared_handoff option"

definition prepare_handoff :: "string \<Rightarrow> u64 \<Rightarrow> nat \<Rightarrow> handoff_slot \<Rightarrow> (prepared_handoff_error + unit) \<times> handoff_slot" where
  "prepare_handoff nonce deadline_ms now slot =
     (if (case slot of None \<Rightarrow> False | Some p \<Rightarrow> now < hd_deadline p) then (Inl AlreadyPrepared, slot)
      else if nonce = [] then (Inl EmptyNonce, slot)
      else if length nonce > max_handoff_nonce_bytes then (Inl NonceTooLong, slot)
      else if \<not> list_all (\<lambda>c. let n = of_char c :: nat in 32 \<le> n \<and> n \<le> 126) nonce then (Inl NonceNotPrintableAscii, slot)
      else if deadline_ms < 1 \<or> max_handoff_deadline_ms < deadline_ms then (Inl DeadlineOutOfRange, slot)
      else (Inr (), Some \<lparr>hd_nonce = nonce, hd_deadline = now + unat deadline_ms\<rparr>))"

definition handoff_matches :: "string \<Rightarrow> nat \<Rightarrow> handoff_slot \<Rightarrow> bool" where
  "handoff_matches nonce now slot = (case slot of None \<Rightarrow> False | Some p \<Rightarrow> now < hd_deadline p \<and> nonce = hd_nonce p)"

definition cancel_handoff :: "handoff_slot \<Rightarrow> handoff_slot" where
  "cancel_handoff slot = None"

definition cancel_if_matches :: "string \<Rightarrow> handoff_slot \<Rightarrow> bool \<times> handoff_slot" where
  "cancel_if_matches nonce slot =
     (if (case slot of None \<Rightarrow> True | Some p \<Rightarrow> hd_nonce p \<noteq> nonce) then (False, slot) else (True, cancel_handoff slot))"

section \<open>Histories\<close>

datatype handoff_event = Prepared nat string u64 | Cancelled

text \<open>The slot after a history, newest first.\<close>

inductive handoff_run :: "(nat \<times> handoff_event) list \<Rightarrow> handoff_slot \<Rightarrow> bool" where
  start: "handoff_run [] None"
| prepare: "handoff_run h slot \<Longrightarrow> (\<forall>x\<in>set h. fst x \<le> now) \<Longrightarrow> prepare_handoff nonce ms now slot = (Inr (), slot')
    \<Longrightarrow> handoff_run ((now, Prepared now nonce ms) # h) slot'"
| cancel: "handoff_run h slot \<Longrightarrow> (\<forall>x\<in>set h. fst x \<le> now) \<Longrightarrow> handoff_run ((now, Cancelled) # h) (cancel_handoff slot)"
| cancel_one: "handoff_run h slot \<Longrightarrow> (\<forall>x\<in>set h. fst x \<le> now) \<Longrightarrow> cancel_if_matches nonce slot = (True, slot')
    \<Longrightarrow> handoff_run ((now, Cancelled) # h) slot'"

lemma handoff_slot_told:
  assumes "handoff_run h (Some p)"
  shows "\<exists>t ms before. h = (t, Prepared t (hd_nonce p) ms) # before \<and> ms \<noteq> 0 \<and> ms \<le> max_handoff_deadline_ms
    \<and> hd_deadline p = t + unat ms"
  using assms by (cases rule: handoff_run.cases)
    (auto simp: prepare_handoff_def cancel_handoff_def cancel_if_matches_def not_less split: if_splits option.splits)

lemma deadline_bound: "ms \<le> max_handoff_deadline_ms \<Longrightarrow> unat ms \<le> 60000"
  by (simp add: max_handoff_deadline_ms_def word_le_nat_alt)

text \<open>A nonce matches only while its own preparation is the last change of the slot, and at most a minute after it.\<close>

theorem handoff_matches_live:
  assumes "handoff_run h slot" "handoff_matches nonce now slot"
  shows "\<exists>t ms before. h = (t, Prepared t nonce ms) # before \<and> ms \<noteq> 0 \<and> now < t + unat ms \<and> now < t + 60000"
proof -
  from assms(2) obtain p where p: "slot = Some p" "now < hd_deadline p" "nonce = hd_nonce p"
    by (auto simp: handoff_matches_def split: option.splits)
  from handoff_slot_told [OF assms(1) [unfolded p(1)]] p(2,3) deadline_bound show ?thesis by fastforce
qed

end
