(* ===== verification/Fleet_Roster.thy ===== *)
theory Fleet_Roster
  imports Record_Exchange
begin

text \<open>
  The signed roster of a fleet (\<open>swarm/fleet.rs\<close>): the entries members vouch for each other with, the view a runtime
  computes from them, invitations and admissions, changes of role, removals, and the sealed secrets that pass between
  trusted members. SHA-256, base64, the signature scheme and \<open>serde_json\<close>'s printing of a scalar are the fields of
  \<open>fleet_crypto\<close>; the runtime's own signer is \<open>fk_sign\<close>. The cache of the view and the messages to clients are left
  out, as are failures of SQLite and of a lock. A \<open>BTreeMap\<close> is an association list with one entry for each key.
\<close>

section \<open>Data\<close>

record fleet_card =
  fc_identity_pub :: string
  fc_cert_sha256 :: string
  fc_fleet_pub :: string
  fc_sig :: string

record roster_entry =
  re_id :: string
  re_kind :: string
  re_runtime :: string
  re_card :: "fleet_card option"
  re_role :: "string option"
  re_signer :: string
  re_clock :: hlc
  re_sig :: string

record sealed_copy =
  sy_nonce :: string
  sy_ciphertext :: string

record sealed_secret =
  ss_id :: string
  ss_version :: u64
  ss_owner :: string
  ss_class :: string
  ss_ephemeral :: string
  ss_recipients :: "(string \<times> sealed_copy) list"
  ss_sealed_at :: string
  ss_sig :: string

datatype role = FullRole | WorkerRole

definition parse_role :: "string \<Rightarrow> role option" where
  "parse_role text = (if text = ''full'' then Some FullRole else if text = ''worker'' then Some WorkerRole else None)"

definition role_str :: "role \<Rightarrow> string" where
  "role_str r = (case r of FullRole \<Rightarrow> ''full'' | WorkerRole \<Rightarrow> ''worker'')"

record fleet_crypto =
  fx_decode :: "string \<Rightarrow> string option"
  fx_encode :: "string \<Rightarrow> string"
  fx_sha256_hex :: "string \<Rightarrow> string"
  fx_verify :: "string \<Rightarrow> string \<Rightarrow> string \<Rightarrow> bool"
  fx_scalar :: "json \<Rightarrow> string"

record fleet_keys =
  fk_identity :: string
  fk_card :: fleet_card
  fk_sign :: "string \<Rightarrow> string option"

record fleet_member =
  mb_card :: fleet_card
  mb_role :: role
  mb_identity :: string

record view =
  vw_self :: string
  vw_members :: "(string \<times> fleet_member) list"
  vw_removed :: "string list"

definition trusts :: "view \<Rightarrow> string \<Rightarrow> bool" where
  "trusts v runtime_id \<longleftrightarrow> map_of (vw_members v) runtime_id \<noteq> None"

definition view_role :: "view \<Rightarrow> string \<Rightarrow> role option" where
  "view_role v runtime_id = map_option mb_role (map_of (vw_members v) runtime_id)"

definition self_removed :: "view \<Rightarrow> bool" where
  "self_removed v \<longleftrightarrow> vw_self v \<in> set (vw_removed v)"

definition full_recipients :: "view \<Rightarrow> string list" where
  "full_recipients v = map fst (filter (\<lambda>(i, m). i \<noteq> vw_self v \<and> mb_role m = FullRole) (sort_key fst (vw_members v)))"

section \<open>Statements and signatures\<close>

text \<open>\<open>canonical_json\<close> of \<open>relay_encryption.rs\<close>: the members of an object in the order of their UTF-16 units.\<close>

definition code_point :: "string \<Rightarrow> nat" where
  "code_point ch = (case map of_char ch :: nat list of
     [a] \<Rightarrow> a
   | [a, b] \<Rightarrow> (a - 192) * 64 + (b - 128)
   | [a, b, c] \<Rightarrow> (a - 224) * 4096 + (b - 128) * 64 + (c - 128)
   | [a, b, c, d] \<Rightarrow> (a - 240) * 262144 + (b - 128) * 4096 + (c - 128) * 64 + (d - 128)
   | _ \<Rightarrow> 0)"

definition utf16 :: "string \<Rightarrow> nat list" where
  "utf16 s = concat (map (\<lambda>ch. let p = code_point ch in
     if p < 65536 then [p] else [55296 + (p - 65536) div 1024, 56320 + (p - 65536) mod 1024]) (utf8_chars s))"

fun comma_join :: "string list \<Rightarrow> string" where
  "comma_join [] = []"
| "comma_join [s] = s"
| "comma_join (s # ss) = s @ '','' @ comma_join ss"

fun relay_canonical :: "(json \<Rightarrow> string) \<Rightarrow> json \<Rightarrow> string" where
  "relay_canonical scalar (JObject kvs) =
     ''{'' @ comma_join (map (\<lambda>(k, s). scalar (JString k) @ '':'' @ s)
       (sort_key (utf16 \<circ> fst) (map (\<lambda>kv. (fst kv, relay_canonical scalar (snd kv))) kvs))) @ ''}''"
| "relay_canonical scalar (JArray vs) = ''['' @ comma_join (map (relay_canonical scalar) vs) @ '']''"
| "relay_canonical scalar v = scalar v"

definition line_feed :: string where "line_feed = [CHR 0x0A]"

definition card_statement :: "fleet_card \<Rightarrow> string" where
  "card_statement cd = ''muniment.fleet-card/1'' @ line_feed @ fc_identity_pub cd @ line_feed @ fc_cert_sha256 cd
     @ line_feed @ fc_fleet_pub cd"

definition card_verifies :: "fleet_crypto \<Rightarrow> fleet_card \<Rightarrow> bool" where
  "card_verifies fx cd =
     (case (fx_decode fx (fc_identity_pub cd), fx_decode fx (fc_sig cd)) of
        (Some identity, Some s) \<Rightarrow>
          (case fx_decode fx (fc_fleet_pub cd) of None \<Rightarrow> False | Some key \<Rightarrow> length key = 32)
          \<and> fx_verify fx identity (card_statement cd) s
      | _ \<Rightarrow> False)"

definition sign_card :: "fleet_crypto \<Rightarrow> string \<Rightarrow> (string \<Rightarrow> string option) \<Rightarrow> string \<Rightarrow> string \<Rightarrow> fleet_card rresult" where
  "sign_card fx public_key signer cert fleet_pub =
     (let cd = \<lparr>fc_identity_pub = fx_encode fx public_key, fc_cert_sha256 = cert, fc_fleet_pub = fleet_pub, fc_sig = []\<rparr> in
      case signer (card_statement cd) of
        None \<Rightarrow> Err ''The identity key could not sign.''
      | Some s \<Rightarrow> Ok (cd\<lparr>fc_sig := fx_encode fx s\<rparr>))"

definition card_json :: "fleet_card \<Rightarrow> json" where
  "card_json cd = JObject [(''identity_pub'', JString (fc_identity_pub cd)), (''cert_sha256'', JString (fc_cert_sha256 cd)),
     (''fleet_pub'', JString (fc_fleet_pub cd)), (''sig'', JString (fc_sig cd))]"

text \<open>\<open>entry_statement\<close> and \<open>secret_statement\<close>: the value without its id and signature, or its signature.\<close>

definition entry_json :: "roster_entry \<Rightarrow> json" where
  "entry_json e = JObject ([(''kind'', JString (re_kind e)), (''runtime_id'', JString (re_runtime e))]
     @ (case re_card e of None \<Rightarrow> [] | Some cd \<Rightarrow> [(''card'', card_json cd)])
     @ (case re_role e of None \<Rightarrow> [] | Some r \<Rightarrow> [(''role'', JString r)])
     @ [(''signer'', JString (re_signer e)), (''clock'', JString (display (re_clock e)))])"

definition entry_statement :: "fleet_crypto \<Rightarrow> roster_entry \<Rightarrow> string" where
  "entry_statement fx e = ''muniment.fleet-roster/1'' @ line_feed @ relay_canonical (fx_scalar fx) (entry_json e)"

definition secret_json :: "sealed_secret \<Rightarrow> json" where
  "secret_json s = JObject [(''secret_id'', JString (ss_id s)), (''version'', JNumber (dec_str (unat (ss_version s)))),
     (''owner'', JString (ss_owner s)), (''class'', JString (ss_class s)), (''ephemeral'', JString (ss_ephemeral s)),
     (''recipients'', JObject (map (\<lambda>(r, y). (r, JObject [(''nonce'', JString (sy_nonce y)), (''ciphertext'', JString (sy_ciphertext y))]))
        (ss_recipients s))),
     (''sealed_at'', JString (ss_sealed_at s))]"

definition secret_statement :: "fleet_crypto \<Rightarrow> sealed_secret \<Rightarrow> string" where
  "secret_statement fx s = ''muniment.fleet-secret/1'' @ line_feed @ relay_canonical (fx_scalar fx) (secret_json s)"

definition sign_entry :: "fleet_crypto \<Rightarrow> fleet_keys \<Rightarrow> roster_entry \<Rightarrow> roster_entry rresult" where
  "sign_entry fx keys e =
     (let statement = entry_statement fx e in
      case fk_sign keys statement of
        None \<Rightarrow> Err ''The identity key could not sign.''
      | Some s \<Rightarrow> Ok (e\<lparr>re_id := fx_sha256_hex fx statement, re_sig := fx_encode fx s\<rparr>))"

definition entry_verifies :: "fleet_crypto \<Rightarrow> roster_entry \<Rightarrow> string \<Rightarrow> bool" where
  "entry_verifies fx e identity =
     (let statement = entry_statement fx e in
      re_id e = fx_sha256_hex fx statement
      \<and> (case fx_decode fx (re_sig e) of None \<Rightarrow> False | Some s \<Rightarrow> fx_verify fx identity statement s))"

section \<open>The view\<close>

text \<open>Whether an \<open>add\<close> counts in one round, given the members of the round before.\<close>

definition add_counts :: "fleet_crypto \<Rightarrow> string \<Rightarrow> string list \<Rightarrow> (string \<times> fleet_member) list \<Rightarrow> roster_entry \<Rightarrow> bool" where
  "add_counts fx self excluded members e \<longleftrightarrow>
     re_kind e = ''add''
     \<and> \<not> (re_signer e = re_runtime e \<or> re_runtime e \<in> set excluded \<or> re_signer e \<in> set excluded)
     \<and> (case map_of members (re_signer e) of
          None \<Rightarrow> False
        | Some signer \<Rightarrow>
            (re_signer e = self \<or> mb_role signer = FullRole)
            \<and> (case re_role e of None \<Rightarrow> False | Some r \<Rightarrow> parse_role r \<noteq> None)
            \<and> (case re_card e of None \<Rightarrow> False | Some cd \<Rightarrow> card_verifies fx cd)
            \<and> entry_verifies fx e (mb_identity signer))"

definition best_step :: "fleet_crypto \<Rightarrow> string \<Rightarrow> string list \<Rightarrow> (string \<times> fleet_member) list
    \<Rightarrow> (string \<times> roster_entry) list \<Rightarrow> roster_entry \<Rightarrow> (string \<times> roster_entry) list" where
  "best_step fx self excluded members best e =
     (if add_counts fx self excluded members e
         \<and> (case map_of best (re_runtime e) of None \<Rightarrow> True | Some held \<Rightarrow> (re_clock held, re_id held) < (re_clock e, re_id e))
      then AList.update (re_runtime e) e best else best)"

definition entry_card :: "roster_entry \<Rightarrow> fleet_card" where
  "entry_card e = (case re_card e of None \<Rightarrow> \<lparr>fc_identity_pub = [], fc_cert_sha256 = [], fc_fleet_pub = [], fc_sig = []\<rparr> | Some c \<Rightarrow> c)"

definition entry_role :: "roster_entry \<Rightarrow> role" where
  "entry_role e = (case Option.bind (re_role e) parse_role of None \<Rightarrow> WorkerRole | Some r \<Rightarrow> r)"

definition place_member :: "fleet_crypto \<Rightarrow> string \<Rightarrow> (string \<times> fleet_member) list \<Rightarrow> string \<times> roster_entry \<Rightarrow> (string \<times> fleet_member) list" where
  "place_member fx self acc p =
     (case p of (subject, e) \<Rightarrow>
        (case fx_decode fx (fc_identity_pub (entry_card e)) of
           None \<Rightarrow> acc
         | Some identity \<Rightarrow>
             if subject = self
             then (case map_of acc self of None \<Rightarrow> acc | Some own \<Rightarrow> AList.update self (own\<lparr>mb_role := entry_role e\<rparr>) acc)
             else AList.update subject \<lparr>mb_card = entry_card e, mb_role = entry_role e, mb_identity = identity\<rparr> acc))"

text \<open>One round: this runtime as the round before has it, and every subject's best entry. This runtime is in every round.\<close>

definition closure_round :: "fleet_crypto \<Rightarrow> string \<Rightarrow> string list \<Rightarrow> roster_entry list \<Rightarrow> (string \<times> fleet_member) list \<Rightarrow> (string \<times> fleet_member) list" where
  "closure_round fx self excluded es members =
     foldl (place_member fx self) (case map_of members self of None \<Rightarrow> [] | Some own \<Rightarrow> [(self, own)])
       (sort_key fst (foldl (best_step fx self excluded members) [] es))"

definition same_members :: "(string \<times> fleet_member) list \<Rightarrow> (string \<times> fleet_member) list \<Rightarrow> bool" where
  "same_members next members \<longleftrightarrow> length next = length members
     \<and> list_all (\<lambda>(i, m). case map_of members i of None \<Rightarrow> False | Some held \<Rightarrow> mb_role held = mb_role m) next"

fun closure_loop :: "fleet_crypto \<Rightarrow> string \<Rightarrow> string list \<Rightarrow> roster_entry list \<Rightarrow> nat \<Rightarrow> (string \<times> fleet_member) list \<Rightarrow> (string \<times> fleet_member) list" where
  "closure_loop fx self excluded es 0 members = members"
| "closure_loop fx self excluded es (Suc n) members =
     (let next = closure_round fx self excluded es members in
      if same_members next members then next else closure_loop fx self excluded es n next)"

definition own_member :: "fleet_keys \<Rightarrow> fleet_member" where
  "own_member own = \<lparr>mb_card = fk_card own, mb_role = FullRole, mb_identity = fk_identity own\<rparr>"

definition closure :: "fleet_crypto \<Rightarrow> string \<Rightarrow> fleet_keys \<Rightarrow> roster_entry list \<Rightarrow> string list \<Rightarrow> (string \<times> fleet_member) list" where
  "closure fx self own es excluded = closure_loop fx self excluded es (length es + 1) [(self, own_member own)]"

definition newest_add :: "(string \<times> fleet_member) list \<Rightarrow> roster_entry list \<Rightarrow> string \<Rightarrow> hlc option" where
  "newest_add reachable es runtime_id =
     (case map re_clock (filter (\<lambda>e. re_kind e = ''add'' \<and> re_runtime e = runtime_id \<and> map_of reachable (re_signer e) \<noteq> None) es) of
        [] \<Rightarrow> None
      | c # cs \<Rightarrow> Some (foldl max c cs))"

definition removal_step :: "fleet_crypto \<Rightarrow> string \<Rightarrow> (string \<times> fleet_member) list \<Rightarrow> roster_entry list \<Rightarrow> string list \<Rightarrow> roster_entry \<Rightarrow> string list" where
  "removal_step fx self reachable es removed e =
     (case map_of reachable (re_signer e) of
        None \<Rightarrow> removed
      | Some signer \<Rightarrow>
          if re_signer e \<in> set removed \<or> (re_signer e \<noteq> self \<and> mb_role signer \<noteq> FullRole)
             \<or> \<not> entry_verifies fx e (mb_identity signer)
          then removed
          else if (case newest_add reachable es (re_runtime e) of None \<Rightarrow> True | Some added \<Rightarrow> re_clock e > added)
          then List.insert (re_runtime e) removed
          else removed)"

definition removals :: "roster_entry list \<Rightarrow> roster_entry list" where
  "removals es = sort_key (\<lambda>e. (re_clock e, re_id e)) (filter (\<lambda>e. re_kind e = ''remove'') es)"

definition compute_removed :: "fleet_crypto \<Rightarrow> string \<Rightarrow> fleet_keys \<Rightarrow> roster_entry list \<Rightarrow> string list" where
  "compute_removed fx self own es =
     foldl (removal_step fx self (closure fx self own es []) es) [] (removals es)"

definition compute :: "fleet_crypto \<Rightarrow> string \<Rightarrow> fleet_keys \<Rightarrow> roster_entry list \<Rightarrow> view" where
  "compute fx self own es =
     (let removed = compute_removed fx self own es in
      \<lparr>vw_self = self, vw_members = closure fx self own es removed, vw_removed = removed\<rparr>)"

section \<open>Who a member may be\<close>

text \<open>A chain of verified vouches from this runtime, each signed by a full member that is not excluded.\<close>

inductive vouched_for :: "fleet_crypto \<Rightarrow> string \<Rightarrow> fleet_keys \<Rightarrow> roster_entry list \<Rightarrow> string list \<Rightarrow> string \<Rightarrow> string \<Rightarrow> role \<Rightarrow> bool"
    for fx self own es excluded where
  self: "vouched_for fx self own es excluded self (fk_identity own) r"
| vouch: "vouched_for fx self own es excluded s key r \<Longrightarrow> s = self \<or> r = FullRole
    \<Longrightarrow> e \<in> set es \<Longrightarrow> re_kind e = ''add'' \<Longrightarrow> re_signer e = s \<Longrightarrow> re_runtime e \<noteq> s \<Longrightarrow> re_runtime e \<noteq> self
    \<Longrightarrow> re_runtime e \<notin> set excluded \<Longrightarrow> s \<notin> set excluded
    \<Longrightarrow> Option.bind (re_role e) parse_role = Some r' \<Longrightarrow> re_card e = Some cd \<Longrightarrow> card_verifies fx cd
    \<Longrightarrow> fx_decode fx (fc_identity_pub cd) = Some key' \<Longrightarrow> entry_verifies fx e key
    \<Longrightarrow> vouched_for fx self own es excluded (re_runtime e) key' r'"

lemma add_countsE:
  assumes "add_counts fx self excluded members e"
  obtains signer r cd where "re_kind e = ''add''" "re_signer e \<noteq> re_runtime e" "re_runtime e \<notin> set excluded" "re_signer e \<notin> set excluded"
    "map_of members (re_signer e) = Some signer" "re_signer e = self \<or> mb_role signer = FullRole"
    "Option.bind (re_role e) parse_role = Some r" "entry_role e = r" "re_card e = Some cd" "entry_card e = cd" "card_verifies fx cd"
    "entry_verifies fx e (mb_identity signer)"
  using assms unfolding add_counts_def by (auto simp: entry_role_def entry_card_def split: option.splits)

text \<open>The best entries of a round: each is an entry that counts, under its subject's name.\<close>

lemma best_entries:
  assumes "map_of (foldl (best_step fx self excluded members) best es) i = Some e"
    "\<And>j f. map_of best j = Some f \<Longrightarrow> P j f" "\<And>f. f \<in> set es \<Longrightarrow> add_counts fx self excluded members f \<Longrightarrow> P (re_runtime f) f"
  shows "P i e"
  using assms
proof (induction es arbitrary: best)
  case (Cons f es)
  have "P j g" if "map_of (best_step fx self excluded members best f) j = Some g" for j g
    using that Cons.prems(2) Cons.prems(3) [of f]
    by (auto simp: best_step_def update_conv' split: if_splits)
  with Cons.prems Cons.IH [of "best_step fx self excluded members best f"] show ?case by simp
qed simp

lemma best_distinct: "distinct (map fst best) \<Longrightarrow> distinct (map fst (foldl (best_step fx self excluded members) best es))"
  by (induction es arbitrary: best) (auto simp: best_step_def distinct_update)

lemma map_of_sort_fst: "distinct (map fst xs) \<Longrightarrow> map_of (sort_key fst xs) i = map_of xs i"
proof -
  assume d: "distinct (map fst xs)"
  then have "distinct (map fst (sort_key fst xs))"
    by (simp add: distinct_map)
  with d show ?thesis by (metis eq_key_imp_eq_value map_of_SomeD map_of_eq_None_iff map_of_is_SomeI not_Some_eq set_map set_sort)
qed

definition round_best :: "fleet_crypto \<Rightarrow> string \<Rightarrow> string list \<Rightarrow> (string \<times> fleet_member) list \<Rightarrow> roster_entry list \<Rightarrow> (string \<times> roster_entry) list" where
  "round_best fx self excluded members es = sort_key fst (foldl (best_step fx self excluded members) [] es)"

lemma round_best_distinct: "distinct (map fst (round_best fx self excluded members es))"
  using best_distinct [of "[]" fx self excluded members es]
  by (simp add: round_best_def distinct_map)

lemma round_best_counts:
  assumes "map_of (round_best fx self excluded members es) i = Some e"
  shows "e \<in> set es \<and> re_runtime e = i \<and> add_counts fx self excluded members e"
  using best_entries [of fx self excluded members "[]" es i e "\<lambda>i e. e \<in> set es \<and> re_runtime e = i \<and> add_counts fx self excluded members e"]
    assms map_of_sort_fst [OF best_distinct [of "[]" fx self excluded members es]]
  by (simp add: round_best_def)

definition entry_member :: "fleet_crypto \<Rightarrow> roster_entry \<Rightarrow> fleet_member option" where
  "entry_member fx e = map_option (\<lambda>k. \<lparr>mb_card = entry_card e, mb_role = entry_role e, mb_identity = k\<rparr>)
     (fx_decode fx (fc_identity_pub (entry_card e)))"

lemma place_other:
  assumes "distinct (map fst ps)" "i \<noteq> self"
  shows "map_of (foldl (place_member fx self) acc ps) i =
    (case Option.bind (map_of ps i) (entry_member fx) of None \<Rightarrow> map_of acc i | Some m \<Rightarrow> Some m)"
  using assms
proof (induction ps arbitrary: acc)
  case (Cons p ps)
  obtain j e where p: "p = (j, e)" by (cases p)
  from Cons.prems p have *: "j = i \<Longrightarrow> map_of ps i = None" by (auto simp: map_of_eq_None_iff)
  have "map_of (place_member fx self acc p) i = (if j = i then (case entry_member fx e of None \<Rightarrow> map_of acc i | Some m \<Rightarrow> Some m) else map_of acc i)"
    using Cons.prems(2) p by (auto simp: place_member_def entry_member_def update_conv' split: option.splits)
  with Cons * p show ?case by (auto split: option.splits)
qed simp

lemma place_self: "map_of acc self = Some own \<Longrightarrow> \<exists>r. map_of (foldl (place_member fx self) acc ps) self = Some (own\<lparr>mb_role := r\<rparr>)"
proof (induction ps arbitrary: acc own)
  case Nil
  then show ?case by (intro exI [of _ "mb_role own"]) simp
next
  case (Cons p ps)
  have "\<exists>r. map_of (place_member fx self acc p) self = Some (own\<lparr>mb_role := r\<rparr>)"
    using Cons.prems by (cases p) (auto simp: place_member_def update_conv' split: option.splits intro: exI [of _ "mb_role own"])
  then obtain r where "map_of (place_member fx self acc p) self = Some (own\<lparr>mb_role := r\<rparr>)" ..
  from Cons.IH [OF this] show ?case by auto
qed

lemma place_distinct: "distinct (map fst acc) \<Longrightarrow> distinct (map fst (foldl (place_member fx self) acc ps))"
  by (induction ps arbitrary: acc) (auto simp: place_member_def distinct_update split: prod.splits option.splits)

lemma round_self: "map_of members self = Some own \<Longrightarrow> \<exists>r. map_of (closure_round fx self excluded es members) self = Some (own\<lparr>mb_role := r\<rparr>)"
  by (simp add: closure_round_def place_self)

lemma round_other:
  assumes "i \<noteq> self"
  shows "map_of (closure_round fx self excluded es members) i = Option.bind (map_of (round_best fx self excluded members es) i) (entry_member fx)"
  using place_other [OF round_best_distinct assms] assms
  by (auto simp: closure_round_def round_best_def [symmetric] split: option.splits)

lemma counts_member: "add_counts fx self excluded members e \<Longrightarrow> \<exists>k. entry_member fx e = Some k"
  by (auto simp: entry_member_def card_verifies_def elim!: add_countsE split: option.splits)

text \<open>What holds of the members in every round.\<close>

definition members_ok :: "fleet_crypto \<Rightarrow> string \<Rightarrow> fleet_keys \<Rightarrow> roster_entry list \<Rightarrow> string list \<Rightarrow> (string \<times> fleet_member) list \<Rightarrow> bool" where
  "members_ok fx self own es excluded members \<longleftrightarrow> distinct (map fst members)
     \<and> (\<exists>m. map_of members self = Some m \<and> mb_identity m = fk_identity own \<and> mb_card m = fk_card own)
     \<and> (\<forall>i m. map_of members i = Some m \<longrightarrow> vouched_for fx self own es excluded i (mb_identity m) (mb_role m))"

lemma round_ok:
  assumes ok: "members_ok fx self own es excluded members"
  shows "members_ok fx self own es excluded (closure_round fx self excluded es members)"
proof -
  from ok obtain m where m: "map_of members self = Some m" "mb_identity m = fk_identity own" "mb_card m = fk_card own"
    by (auto simp: members_ok_def)
  from round_self [OF m(1)] obtain r where r: "map_of (closure_round fx self excluded es members) self = Some (m\<lparr>mb_role := r\<rparr>)" by blast
  have "vouched_for fx self own es excluded i (mb_identity n) (mb_role n)"
    if n: "map_of (closure_round fx self excluded es members) i = Some n" for i n
  proof (cases "i = self")
    case True
    with n r m show ?thesis by (auto intro: vouched_for.self)
  next
    case False
    from n round_other [OF False] obtain e where e: "map_of (round_best fx self excluded members es) i = Some e" "entry_member fx e = Some n"
      by (auto simp: bind_eq_Some_conv)
    from round_best_counts [OF e(1)] have c: "e \<in> set es" "re_runtime e = i" "add_counts fx self excluded members e" by auto
    from c(3) show ?thesis
    proof (rule add_countsE)
      fix signer r cd
      assume *: "re_kind e = ''add''" "re_signer e \<noteq> re_runtime e" "re_runtime e \<notin> set excluded" "re_signer e \<notin> set excluded"
        "map_of members (re_signer e) = Some signer" "re_signer e = self \<or> mb_role signer = FullRole"
        "Option.bind (re_role e) parse_role = Some r" "entry_role e = r" "re_card e = Some cd" "entry_card e = cd" "card_verifies fx cd"
        "entry_verifies fx e (mb_identity signer)"
      from ok *(5) have "vouched_for fx self own es excluded (re_signer e) (mb_identity signer) (mb_role signer)" by (simp add: members_ok_def)
      with * c False e(2) show ?thesis
        by (auto simp: entry_member_def intro: vouched_for.vouch)
    qed
  qed
  with r m show ?thesis
    by (auto simp: members_ok_def closure_round_def intro!: place_distinct split: option.splits)
qed

lemma loop_ok: "members_ok fx self own es excluded members \<Longrightarrow> members_ok fx self own es excluded (closure_loop fx self excluded es n members)"
  by (induction n arbitrary: members) (auto simp: Let_def round_ok)

lemma closure_ok: "members_ok fx self own es excluded (closure fx self own es excluded)"
  unfolding closure_def by (rule loop_ok) (auto simp: members_ok_def own_member_def intro: vouched_for.self)

section \<open>When the rounds settle\<close>

text \<open>The chains tell one story: whoever is vouched for has one identity key and one role.\<close>

definition one_story :: "fleet_crypto \<Rightarrow> string \<Rightarrow> fleet_keys \<Rightarrow> roster_entry list \<Rightarrow> string list \<Rightarrow> bool" where
  "one_story fx self own es excluded \<longleftrightarrow> (\<forall>i k r k' r'. i \<noteq> self \<longrightarrow> vouched_for fx self own es excluded i k r
     \<longrightarrow> vouched_for fx self own es excluded i k' r' \<longrightarrow> k = k' \<and> r = r')"

lemma vouched_self: "vouched_for fx self own es excluded self k r \<Longrightarrow> k = fk_identity own"
  by (erule vouched_for.cases) auto

lemma best_found:
  assumes "e \<in> set es" "add_counts fx self excluded members e"
  shows "map_of (foldl (best_step fx self excluded members) best es) (re_runtime e) \<noteq> None"
proof -
  have keep: "map_of best i \<noteq> None \<Longrightarrow> map_of (foldl (best_step fx self excluded members) best es) i \<noteq> None" for best es i
    by (induction es arbitrary: best) (auto simp: best_step_def update_conv')
  from assms(1) obtain as bs where "es = as @ e # bs" by (meson split_list)
  moreover have "map_of (best_step fx self excluded members b e) (re_runtime e) \<noteq> None" for b
    using assms(2) by (auto simp: best_step_def update_conv' split: option.splits)
  ultimately show ?thesis using keep by simp
qed

lemma round_dom:
  assumes "i \<noteq> self"
  shows "map_of (closure_round fx self excluded es members) i \<noteq> None
    \<longleftrightarrow> (\<exists>e\<in>set es. re_runtime e = i \<and> add_counts fx self excluded members e)"
proof
  assume "map_of (closure_round fx self excluded es members) i \<noteq> None"
  with round_other [OF assms] obtain e where "map_of (round_best fx self excluded members es) i = Some e"
    by (cases "map_of (round_best fx self excluded members es) i") auto
  with round_best_counts show "\<exists>e\<in>set es. re_runtime e = i \<and> add_counts fx self excluded members e" by blast
next
  assume "\<exists>e\<in>set es. re_runtime e = i \<and> add_counts fx self excluded members e"
  then obtain e where e: "e \<in> set es" "re_runtime e = i" "add_counts fx self excluded members e" by blast
  from best_found [OF e(1,3), of "[]"] e(2)
  obtain f where f: "map_of (round_best fx self excluded members es) i = Some f"
    using map_of_sort_fst [OF best_distinct [of "[]" fx self excluded members es]] by (auto simp: round_best_def)
  with round_best_counts [OF f] counts_member round_other [OF assms]
  show "map_of (closure_round fx self excluded es members) i \<noteq> None" by (metis bind.bind_lunit option.distinct(1))
qed

lemma members_agree:
  assumes "one_story fx self own es excluded" "members_ok fx self own es excluded m"
    "map_of m i = Some a" "vouched_for fx self own es excluded i k r"
  shows "mb_identity a = k \<and> (i \<noteq> self \<longrightarrow> mb_role a = r)"
  using assms vouched_self [of fx self own es excluded] unfolding members_ok_def one_story_def by metis

lemma counts_mono:
  assumes "one_story fx self own es excluded" "members_ok fx self own es excluded m" "members_ok fx self own es excluded m'"
    "dom (map_of m) \<subseteq> dom (map_of m')" "add_counts fx self excluded m e"
  shows "add_counts fx self excluded m' e"
proof -
  from assms(5) obtain a where a: "map_of m (re_signer e) = Some a" by (elim add_countsE)
  with assms(4) obtain b where b: "map_of m' (re_signer e) = Some b" by (metis domIff not_Some_eq subsetD)
  from assms(2) a have "vouched_for fx self own es excluded (re_signer e) (mb_identity a) (mb_role a)" by (simp add: members_ok_def)
  from members_agree [OF assms(1,3) b this] have "mb_identity b = mb_identity a" "re_signer e = self \<or> mb_role b = mb_role a" by auto
  with a b assms(5) show ?thesis by (auto simp: add_counts_def)
qed

lemma round_mono:
  assumes "one_story fx self own es excluded" "members_ok fx self own es excluded m" "members_ok fx self own es excluded m'"
    "dom (map_of m) \<subseteq> dom (map_of m')"
  shows "dom (map_of (closure_round fx self excluded es m)) \<subseteq> dom (map_of (closure_round fx self excluded es m'))"
proof
  fix i assume i: "i \<in> dom (map_of (closure_round fx self excluded es m))"
  show "i \<in> dom (map_of (closure_round fx self excluded es m'))"
  proof (cases "i = self")
    case True
    from round_ok [OF assms(3)] True show ?thesis by (auto simp: members_ok_def)
  next
    case False
    with i round_dom [OF False, of fx excluded es m] counts_mono [OF assms] round_dom [OF False, of fx excluded es m'] show ?thesis
      by (auto simp: dom_def)
  qed
qed

lemma stable_complete:
  assumes "one_story fx self own es excluded" and ok: "members_ok fx self own es excluded m"
    and stable: "dom (map_of (closure_round fx self excluded es m)) \<subseteq> dom (map_of m)"
  shows "vouched_for fx self own es excluded i k r \<Longrightarrow> i \<in> dom (map_of m)"
proof (induction rule: vouched_for.induct)
  case (self r)
  from ok show ?case by (auto simp: members_ok_def)
next
  case (vouch s key r e r' cd key')
  then obtain a where a: "map_of m s = Some a" by auto
  from members_agree [OF assms(1) ok a vouch.hyps(1)] vouch a have "add_counts fx self excluded m e"
    by (auto simp: add_counts_def bind_eq_Some_conv)
  with vouch round_dom [of "re_runtime e" self fx excluded es m] stable show ?case by (auto simp: dom_def)
qed

lemma members_card:
  assumes "members_ok fx self own es excluded m"
  shows "card (dom (map_of m)) \<le> length es + 1"
proof -
  have "dom (map_of m) \<subseteq> insert self (re_runtime ` set es)"
  proof
    fix i assume "i \<in> dom (map_of m)"
    with assms obtain k r where "vouched_for fx self own es excluded i k r" by (auto simp: members_ok_def)
    then show "i \<in> insert self (re_runtime ` set es)" by cases auto
  qed
  then have "card (dom (map_of m)) \<le> card (insert self (re_runtime ` set es))" by (intro card_mono) auto
  also have "\<dots> \<le> Suc (card (re_runtime ` set es))" by (rule card_insert_le_m1) auto
  also have "card (re_runtime ` set es) \<le> length es" by (meson card_image_le card_length finite_set le_trans)
  finally show ?thesis by simp
qed

lemma distinct_dom_card: "distinct (map fst m) \<Longrightarrow> card (dom (map_of m)) = length m"
  by (metis distinct_card dom_map_of_conv_image_fst length_map set_map)

lemma loop_stable:
  assumes st: "one_story fx self own es excluded"
  shows "members_ok fx self own es excluded m \<Longrightarrow> dom (map_of m) \<subseteq> dom (map_of (closure_round fx self excluded es m))
    \<Longrightarrow> dom (map_of (closure_round fx self excluded es m)) \<subseteq> dom (map_of m) \<or> length es + 2 \<le> card (dom (map_of m)) + n
    \<Longrightarrow> dom (map_of (closure_round fx self excluded es (closure_loop fx self excluded es n m))) \<subseteq> dom (map_of (closure_loop fx self excluded es n m))"
proof (induction n arbitrary: m)
  case 0
  with members_card [OF 0(1)] show ?case by simp
next
  case (Suc n)
  let ?n = "closure_round fx self excluded es m"
  note ok = Suc.prems(1) round_ok [OF Suc.prems(1)]
  note grows = round_mono [OF st ok Suc.prems(2)]
  show ?case
  proof (cases "dom (map_of ?n) \<subseteq> dom (map_of m)")
    case True
    with Suc.prems(2) have "dom (map_of ?n) = dom (map_of m)" by simp
    with round_mono [OF st ok(2,1)] have "dom (map_of (closure_round fx self excluded es ?n)) \<subseteq> dom (map_of ?n)" by simp
    with Suc.IH [OF ok(2) grows] show ?thesis by (simp add: Let_def)
  next
    case False
    with Suc.prems(2) have less: "dom (map_of m) \<subset> dom (map_of ?n)" by blast
    then have lt: "card (dom (map_of m)) < card (dom (map_of ?n))" by (intro psubset_card_mono) (simp_all add: finite_dom_map_of)
    with ok have "length m \<noteq> length ?n" by (simp add: members_ok_def distinct_dom_card)
    then have "\<not> same_members ?n m" by (auto simp: same_members_def)
    with Suc.IH [OF ok(2) grows] False Suc.prems(3) lt show ?thesis by (simp add: Let_def)
  qed
qed

lemma closure_stable:
  assumes "one_story fx self own es excluded"
  shows "dom (map_of (closure_round fx self excluded es (closure fx self own es excluded))) \<subseteq> dom (map_of (closure fx self own es excluded))"
proof -
  have ok: "members_ok fx self own es excluded [(self, own_member own)]"
    by (auto simp: members_ok_def own_member_def intro: vouched_for.self)
  moreover have "dom (map_of [(self, own_member own)]) \<subseteq> dom (map_of (closure_round fx self excluded es [(self, own_member own)]))"
    using round_ok [OF ok] by (auto simp: members_ok_def)
  ultimately show ?thesis unfolding closure_def by (intro loop_stable [OF assms]) auto
qed

lemma vouched_kept: "vouched_for fx self own es excluded i k r \<Longrightarrow> i \<noteq> self \<Longrightarrow> i \<notin> set excluded"
  by (erule vouched_for.cases) auto

lemma removed_untrusted:
  assumes "x \<noteq> self" "x \<in> set (compute_removed fx self own es)"
  shows "\<not> trusts (compute fx self own es) x"
proof
  assume "trusts (compute fx self own es) x"
  then obtain m where "map_of (closure fx self own es (compute_removed fx self own es)) x = Some m"
    by (auto simp: trusts_def compute_def Let_def)
  with closure_ok [of fx self own es "compute_removed fx self own es"]
  have "vouched_for fx self own es (compute_removed fx self own es) x (mb_identity m) (mb_role m)" unfolding members_ok_def by blast
  from vouched_kept [OF this assms(1)] assms(2) show False by simp
qed

text \<open>A removal that counted: who signed it, and that no vouch for its subject is as new.\<close>

definition removal_counts :: "fleet_crypto \<Rightarrow> string \<Rightarrow> fleet_keys \<Rightarrow> roster_entry list \<Rightarrow> roster_entry \<Rightarrow> bool" where
  "removal_counts fx self own es e \<longleftrightarrow> e \<in> set es \<and> re_kind e = ''remove''
     \<and> (\<exists>k r. vouched_for fx self own es [] (re_signer e) k r \<and> (re_signer e = self \<or> r = FullRole) \<and> entry_verifies fx e k)
     \<and> (\<forall>a\<in>set es. re_kind a = ''add'' \<longrightarrow> re_runtime a = re_runtime e
          \<longrightarrow> map_of (closure fx self own es []) (re_signer a) \<noteq> None \<longrightarrow> re_clock a < re_clock e)"

lemma foldl_max_start: "c \<le> foldl max c (cs :: hlc list)"
proof (induction cs arbitrary: c)
  case (Cons d cs)
  from order_trans [OF max.cobounded1 [of c d] Cons.IH] show ?case by simp
qed simp

lemma foldl_max_mem: "x \<in> set cs \<Longrightarrow> x \<le> foldl max c (cs :: hlc list)"
proof (induction cs arbitrary: c)
  case (Cons d cs)
  then show ?case using order_trans [OF max.cobounded2 foldl_max_start [of "max c d" cs]] by auto
qed simp

lemma newest_add_ge:
  assumes "a \<in> set es" "re_kind a = ''add''" "map_of reachable (re_signer a) \<noteq> None"
  shows "\<exists>c. newest_add reachable es (re_runtime a) = Some c \<and> re_clock a \<le> c"
proof -
  define l where "l = map re_clock (filter (\<lambda>e. re_kind e = ''add'' \<and> re_runtime e = re_runtime a \<and> map_of reachable (re_signer e) \<noteq> None) es)"
  from assms have "re_clock a \<in> set l" by (auto simp: l_def)
  then obtain c cs where l: "l = c # cs" "re_clock a = c \<or> re_clock a \<in> set cs" by (cases l) auto
  then have "newest_add reachable es (re_runtime a) = Some (foldl max c cs)" by (simp add: newest_add_def l_def [symmetric] del: not_None_eq)
  with l(2) foldl_max_mem [of "re_clock a" cs c] foldl_max_start [of c cs] show ?thesis by auto
qed

lemma newest_add_found:
  assumes "newest_add reachable es x = Some c"
  shows "\<exists>a\<in>set es. re_kind a = ''add'' \<and> re_runtime a = x \<and> re_clock a = c"
proof -
  have max_in: "foldl max d ds \<in> set (d # ds)" for d and ds :: "hlc list"
  proof (induction ds arbitrary: d)
    case (Cons b ds)
    show ?case using Cons.IH [of "max d b"] by (auto simp: max_def split: if_splits)
  qed simp
  define l where "l = map re_clock (filter (\<lambda>e. re_kind e = ''add'' \<and> re_runtime e = x \<and> map_of reachable (re_signer e) \<noteq> None) es)"
  from assms obtain d ds where "l = d # ds" "c = foldl max d ds"
    by (auto simp: newest_add_def l_def [symmetric] simp del: not_None_eq split: list.splits)
  with max_in [of d ds] have "c \<in> set l" by simp
  then show ?thesis by (auto simp: l_def)
qed

lemma removal_step_counts:
  assumes "x \<in> set (removal_step fx self (closure fx self own es []) es removed e)" "x \<notin> set removed"
    "e \<in> set es" "re_kind e = ''remove''"
  shows "x = re_runtime e \<and> removal_counts fx self own es e"
proof -
  from assms(1,2) obtain signer where s: "map_of (closure fx self own es []) (re_signer e) = Some signer" "x = re_runtime e"
    "re_signer e = self \<or> mb_role signer = FullRole" "entry_verifies fx e (mb_identity signer)"
    "case newest_add (closure fx self own es []) es (re_runtime e) of None \<Rightarrow> True | Some added \<Rightarrow> added < re_clock e"
    by (auto simp: removal_step_def split: option.splits if_splits)
  from closure_ok [of fx self own es "[]"] s(1) have "vouched_for fx self own es [] (re_signer e) (mb_identity signer) (mb_role signer)"
    by (simp add: members_ok_def)
  moreover have "re_clock a < re_clock e" if "a \<in> set es" "re_kind a = ''add''" "re_runtime a = re_runtime e"
      "map_of (closure fx self own es []) (re_signer a) \<noteq> None" for a
    using newest_add_ge [OF that(1,2,4)] s(5) that(3) by auto
  ultimately show ?thesis using s assms(3,4) unfolding removal_counts_def by blast
qed

lemma removed_counts:
  assumes "x \<in> set (foldl (removal_step fx self (closure fx self own es []) es) removed rs)" "x \<notin> set removed"
    "\<forall>e\<in>set rs. e \<in> set es \<and> re_kind e = ''remove''"
  shows "\<exists>e. re_runtime e = x \<and> removal_counts fx self own es e"
  using assms
proof (induction rs arbitrary: removed)
  case (Cons e rs)
  show ?case
  proof (cases "x \<in> set (removal_step fx self (closure fx self own es []) es removed e)")
    case True
    with removal_step_counts [OF True Cons.prems(2)] Cons.prems(3) show ?thesis by auto
  qed (use Cons in auto)
qed simp

text \<open>C27: Whatever entries a runtime holds, forged ones included, every member of its view but itself hangs on it by a
  chain of vouches whose signatures verify under the identity keys the chain itself names, each signed by this runtime
  or by a member then vouched for as full, none about or by a removed member. A member is removed only by a verified
  removal of such a signer that is newer than every vouch for it held from a reachable signer. When the chains give
  everybody one key and one role, the rounds settle on exactly the members the chains reach.\<close>

theorem roster_view_exact:
  assumes "v = compute fx self own es"
  shows "(\<forall>i m. map_of (vw_members v) i = Some m \<longrightarrow> i \<noteq> self
       \<longrightarrow> i \<notin> set (vw_removed v) \<and> vouched_for fx self own es (vw_removed v) i (mb_identity m) (mb_role m))
    \<and> (\<forall>i\<in>set (vw_removed v). \<exists>e. re_runtime e = i \<and> removal_counts fx self own es e)
    \<and> (one_story fx self own es (vw_removed v) \<longrightarrow> (\<forall>i. trusts v i \<longleftrightarrow> (\<exists>k r. vouched_for fx self own es (vw_removed v) i k r)))"
proof -
  have v: "vw_members v = closure fx self own es (vw_removed v)" "vw_removed v = compute_removed fx self own es"
    using assms by (simp_all add: compute_def Let_def)
  note ok = closure_ok [of fx self own es "vw_removed v"]
  have "\<forall>i\<in>set (vw_removed v). \<exists>e. re_runtime e = i \<and> removal_counts fx self own es e"
  proof
    fix i assume "i \<in> set (vw_removed v)"
    then have "i \<in> set (foldl (removal_step fx self (closure fx self own es []) es) [] (removals es))" by (simp add: v(2) compute_removed_def)
    then show "\<exists>e. re_runtime e = i \<and> removal_counts fx self own es e" by (rule removed_counts) (auto simp: removals_def)
  qed
  moreover have "\<forall>i. trusts v i \<longleftrightarrow> (\<exists>k r. vouched_for fx self own es (vw_removed v) i k r)" if st: "one_story fx self own es (vw_removed v)"
  proof (intro allI iffI)
    fix i assume "trusts v i"
    then obtain m where "map_of (closure fx self own es (vw_removed v)) i = Some m" by (auto simp: trusts_def v(1))
    with ok show "\<exists>k r. vouched_for fx self own es (vw_removed v) i k r" unfolding members_ok_def by blast
  next
    fix i assume "\<exists>k r. vouched_for fx self own es (vw_removed v) i k r"
    with stable_complete [OF st ok closure_stable [OF st]] show "trusts v i" by (auto simp: trusts_def v(1))
  qed
  moreover have "vouched_for fx self own es (vw_removed v) i (mb_identity m) (mb_role m)" if "map_of (vw_members v) i = Some m" for i m
    using ok that unfolding v(1) members_ok_def by blast
  ultimately show ?thesis using vouched_kept by blast
qed

section \<open>Examples\<close>

text \<open>A scheme in which a signature is the key followed by the text.\<close>

definition sample_crypto :: fleet_crypto where
  "sample_crypto = \<lparr>fx_decode = Some, fx_encode = id, fx_sha256_hex = id, fx_verify = \<lambda>k text s. s = k @ text,
     fx_scalar = \<lambda>v. case v of JString s \<Rightarrow> s | _ \<Rightarrow> []\<rparr>"

definition sample_card :: "string \<Rightarrow> fleet_card" where
  "sample_card i = (let cd = \<lparr>fc_identity_pub = i, fc_cert_sha256 = [], fc_fleet_pub = replicate 32 (CHR ''k''), fc_sig = []\<rparr>
     in cd\<lparr>fc_sig := i @ card_statement cd\<rparr>)"

definition sample_keys :: "string \<Rightarrow> fleet_keys" where
  "sample_keys i = \<lparr>fk_identity = i, fk_card = sample_card i, fk_sign = \<lambda>text. Some (i @ text)\<rparr>"

definition sample_signed :: "string \<Rightarrow> roster_entry \<Rightarrow> roster_entry" where
  "sample_signed signer e = (case sign_entry sample_crypto (sample_keys signer) (e\<lparr>re_signer := signer\<rparr>) of Inr e \<Rightarrow> e | Inl _ \<Rightarrow> e)"

definition sample_add :: "string \<Rightarrow> string \<Rightarrow> role \<Rightarrow> u64 \<Rightarrow> roster_entry" where
  "sample_add signer subject r ms = sample_signed signer \<lparr>re_id = [], re_kind = ''add'', re_runtime = subject,
     re_card = Some (sample_card subject), re_role = Some (role_str r), re_signer = [], re_clock = Hlc ms 0, re_sig = []\<rparr>"

definition sample_remove :: "string \<Rightarrow> string \<Rightarrow> u64 \<Rightarrow> roster_entry" where
  "sample_remove signer subject ms = sample_signed signer \<lparr>re_id = [], re_kind = ''remove'', re_runtime = subject,
     re_card = None, re_role = None, re_signer = [], re_clock = Hlc ms 0, re_sig = []\<rparr>"

lemma sample_card_simps [simp]: "card_verifies sample_crypto (sample_card i)" "fc_identity_pub (sample_card i) = i"
  by (simp_all add: card_verifies_def sample_crypto_def sample_card_def Let_def card_statement_def)

lemma sample_signed_eq: "sample_signed s e = (let text = entry_statement sample_crypto (e\<lparr>re_signer := s\<rparr>)
    in e\<lparr>re_signer := s, re_id := text, re_sig := s @ text\<rparr>)"
  by (simp add: sample_signed_def sign_entry_def Let_def sample_keys_def sample_crypto_def)

lemma statement_unsigned [simp]: "entry_statement fx (e\<lparr>re_signer := s, re_id := i, re_sig := g\<rparr>) = entry_statement fx (e\<lparr>re_signer := s\<rparr>)"
  by (simp add: entry_statement_def entry_json_def)

lemma sample_signed_verifies: "entry_verifies sample_crypto (sample_signed s e) k \<longleftrightarrow> k = s"
  unfolding sample_signed_eq entry_verifies_def Let_def statement_unsigned by (simp add: sample_crypto_def) auto

lemma sample_add_simps [simp]:
  "re_kind (sample_add s x r ms) = ''add''" "re_signer (sample_add s x r ms) = s" "re_runtime (sample_add s x r ms) = x"
  "re_card (sample_add s x r ms) = Some (sample_card x)" "re_role (sample_add s x r ms) = Some (role_str r)"
  "re_clock (sample_add s x r ms) = Hlc ms 0" "entry_verifies sample_crypto (sample_add s x r ms) k \<longleftrightarrow> k = s"
  by (simp_all add: sample_add_def sample_signed_verifies) (simp_all add: sample_signed_eq Let_def)

lemma sample_remove_simps [simp]:
  "re_kind (sample_remove s x ms) = ''remove''" "re_signer (sample_remove s x ms) = s" "re_runtime (sample_remove s x ms) = x"
  "re_clock (sample_remove s x ms) = Hlc ms 0" "entry_verifies sample_crypto (sample_remove s x ms) k \<longleftrightarrow> k = s"
  by (simp_all add: sample_remove_def sample_signed_verifies) (simp_all add: sample_signed_eq Let_def)

lemma role_str_parse [simp]: "parse_role (role_str r) = Some r"
  by (cases r) (simp_all add: parse_role_def role_str_def)

lemma sample_decode [simp]: "fx_decode sample_crypto = Some" "fk_identity (sample_keys i) = i"
  by (simp_all add: sample_crypto_def sample_keys_def)

lemma sample_counts [simp]:
  "add_counts sample_crypto self ex m (sample_add s x r ms) \<longleftrightarrow> s \<noteq> x \<and> x \<notin> set ex \<and> s \<notin> set ex
     \<and> (case map_of m s of None \<Rightarrow> False | Some a \<Rightarrow> (s = self \<or> mb_role a = FullRole) \<and> mb_identity a = s)"
  "\<not> add_counts sample_crypto self ex m (sample_remove s x ms)"
  by (auto simp: add_counts_def split: option.splits)

lemmas view_eval = closure_def closure_round_def best_step_def place_member_def entry_card_def entry_role_def same_members_def
  own_member_def newest_add_def removal_step_def removals_def less_hlc_def less_eq_hlc_def

definition sample_roster :: "roster_entry list" where
  "sample_roster = [sample_add ''S'' ''A'' FullRole 1, sample_add ''A'' ''B'' WorkerRole 2, sample_add ''S'' ''D'' FullRole 4,
     sample_remove ''A'' ''D'' 5]"

definition trusted_roles :: "(string \<times> fleet_member) list \<Rightarrow> (string \<times> role) list" where
  "trusted_roles ms = map (\<lambda>(i, m). (i, mb_role m)) ms"

lemma sample_view:
  "vw_removed (compute sample_crypto ''S'' (sample_keys ''S'') sample_roster) = [''D'']"
  "map_of (vw_members (compute sample_crypto ''S'' (sample_keys ''S'') sample_roster)) ''B''
     = Some \<lparr>mb_card = sample_card ''B'', mb_role = WorkerRole, mb_identity = ''B''\<rparr>"
  by (simp_all add: compute_def compute_removed_def sample_roster_def view_eval Let_def)

lemma sample_one_story: "one_story sample_crypto ''S'' (sample_keys ''S'') sample_roster ex"
proof -
  have "k = i \<and> r = (if i = ''B'' then WorkerRole else FullRole)"
    if "vouched_for sample_crypto ''S'' (sample_keys ''S'') sample_roster ex i k r" "i \<noteq> ''S''" for i k r
    using that by (cases rule: vouched_for.cases) (auto simp: sample_roster_def)
  then show ?thesis unfolding one_story_def by metis
qed

theorem roster_view_exact_witness:
  "vouched_for sample_crypto ''S'' (sample_keys ''S'') sample_roster [''D''] ''B'' ''B'' WorkerRole
   \<and> (\<exists>e. re_runtime e = ''D'' \<and> removal_counts sample_crypto ''S'' (sample_keys ''S'') sample_roster e)
   \<and> (\<forall>i. trusts (compute sample_crypto ''S'' (sample_keys ''S'') sample_roster) i
        \<longleftrightarrow> (\<exists>k r. vouched_for sample_crypto ''S'' (sample_keys ''S'') sample_roster [''D''] i k r))"
proof -
  note v = roster_view_exact [OF refl, of sample_crypto "''S''" "sample_keys ''S''" sample_roster, unfolded sample_view(1)]
  from conjunct1 [OF v] sample_view(2) have "vouched_for sample_crypto ''S'' (sample_keys ''S'') sample_roster [''D''] ''B'' ''B'' WorkerRole"
    by fastforce
  with v sample_one_story show ?thesis by simp
qed

text \<open>Roles that contradict each other along a chain keep the rounds turning: \<open>A\<close> vouches for \<open>B\<close>, and \<open>B\<close> makes \<open>A\<close> a
  worker. Which members the view then ends with depends on how many entries are held, those of strangers included.\<close>

definition demoted_roster :: "roster_entry list" where
  "demoted_roster = [sample_add ''S'' ''A'' FullRole 1, sample_add ''A'' ''B'' FullRole 2, sample_add ''B'' ''A'' WorkerRole 3]"

theorem demotion_never_settles:
  "trusted_roles (closure sample_crypto ''S'' (sample_keys ''S'') demoted_roster []) = [(''S'', FullRole), (''A'', WorkerRole)]
   \<and> trusted_roles (closure sample_crypto ''S'' (sample_keys ''S'') (demoted_roster @ [sample_add ''X'' ''Y'' FullRole 3]) [])
      = [(''S'', FullRole), (''A'', FullRole)]"
  by (simp add: trusted_roles_def demoted_roster_def view_eval Let_def)

text \<open>A removal counts against every vouch for its subject by a reachable signer, verified or not, even the subject's own:
  one with a late clock, with no valid signature, undoes the removal.\<close>

definition removed_roster :: "roster_entry list" where
  "removed_roster = [sample_add ''S'' ''A'' FullRole 1, sample_add ''S'' ''W'' WorkerRole 2, sample_remove ''A'' ''W'' 3]"

theorem late_vouch_undoes_removal:
  "\<not> trusts (compute sample_crypto ''S'' (sample_keys ''S'') removed_roster) ''W''
   \<and> trusts (compute sample_crypto ''S'' (sample_keys ''S'') (removed_roster @ [(sample_add ''W'' ''W'' WorkerRole 9)\<lparr>re_sig := []\<rparr>])) ''W''"
  by (simp add: trusts_def compute_def compute_removed_def removed_roster_def view_eval Let_def add_counts_def)

end
