(* ===== verification/Fleet_Membership.thy ===== *)
theory Fleet_Membership
  imports Fleet_Roster
begin

text \<open>
  The operations that change the roster and the sealed secrets (\<open>swarm/fleet.rs\<close>) on the tables of one runtime:
  vouching, invitations, admissions, changes of role, removals, and what an exchange carries and takes in. Of a
  member's record only the fields read here are kept. The \<open>meta\<close> table is a map from its keys; the channel of the exchange under way is part of the state. The time of day
  is an argument, in milliseconds for the clock and as text for a deadline.
\<close>

section \<open>State\<close>

datatype channel = UnknownChannel | Pinned | Device string

record fleet_peer =
  fp_digest :: "string option"
  fp_have :: "(string \<times> u64) list option"

record invite =
  iv_role :: string
  iv_expires_at :: string
  iv_used_by :: "string option"

record member_record =
  mr_runtime :: string
  mr_card :: "fleet_card option"
  mr_capabilities :: "string list"

record swarm =
  sw_self :: string
  sw_keys :: "fleet_keys option"
  sw_roster :: "roster_entry list"
  sw_sealed :: "(string \<times> sealed_secret) list"
  sw_invites :: "(string \<times> invite) list"
  sw_meta :: "(string \<times> string) list"
  sw_peers :: "(string \<times> fleet_peer) list"
  sw_channel :: "(string \<times> channel) option"
  sw_records :: rec_store

definition set_meta :: "string \<Rightarrow> string option \<Rightarrow> swarm \<Rightarrow> swarm" where
  "set_meta key v sw = (case v of Some s \<Rightarrow> sw\<lparr>sw_meta := AList.update key s (sw_meta sw)\<rparr>
     | None \<Rightarrow> sw\<lparr>sw_meta := AList.delete key (sw_meta sw)\<rparr>)"

definition note_pinned :: "string \<Rightarrow> swarm \<Rightarrow> swarm" where
  "note_pinned peer sw = sw\<lparr>sw_channel := Some (peer, Pinned)\<rparr>"

definition note_device :: "string \<Rightarrow> string \<Rightarrow> swarm \<Rightarrow> swarm" where
  "note_device peer device sw = sw\<lparr>sw_channel := Some (peer, Device device)\<rparr>"

definition channel_of :: "swarm \<Rightarrow> string \<Rightarrow> channel" where
  "channel_of sw peer = (case sw_channel sw of Some (current, c) \<Rightarrow> if current = peer then c else UnknownChannel | None \<Rightarrow> UnknownChannel)"

definition proven :: "swarm \<Rightarrow> string \<Rightarrow> bool" where
  "proven sw peer = (case channel_of sw peer of
     Pinned \<Rightarrow> True
   | Device device \<Rightarrow> map_of (sw_meta sw) (''fleet_device:'' @ peer) = Some device
   | UnknownChannel \<Rightarrow> False)"

definition legacy_channel :: "swarm \<Rightarrow> string \<Rightarrow> bool" where
  "legacy_channel sw peer = (case channel_of sw peer of
     Pinned \<Rightarrow> True
   | Device device \<Rightarrow> map_of (sw_meta sw) (''fleet_legacy:'' @ peer) = Some device
   | UnknownChannel \<Rightarrow> False)"

section \<open>The roster table\<close>

text \<open>An entry is stored as JSON, its clock in the printed form; a row that does not parse is left out of what is read.\<close>

definition readable :: "roster_entry \<Rightarrow> bool" where
  "readable e \<longleftrightarrow> parse (display (re_clock e)) = Ok (re_clock e)"

definition roster_entries :: "swarm \<Rightarrow> roster_entry list" where
  "roster_entries sw = filter readable (sw_roster sw)"

definition digest_of :: "fleet_crypto \<Rightarrow> roster_entry list \<Rightarrow> string" where
  "digest_of fx es = (case sort (map re_id es) of [] \<Rightarrow> fx_sha256_hex fx []
     | i # is \<Rightarrow> fx_sha256_hex fx (i @ concat (map (\<lambda>j. line_feed @ j) is)))"

definition fleet_view :: "fleet_crypto \<Rightarrow> swarm \<Rightarrow> view option" where
  "fleet_view fx sw = map_option (\<lambda>keys. compute fx (sw_self sw) keys (roster_entries sw)) (sw_keys sw)"

definition max_entries :: nat where "max_entries = 4096"

definition delete_entry :: "string \<Rightarrow> roster_entry list \<Rightarrow> roster_entry list" where
  "delete_entry i es = filter (\<lambda>e. re_id e \<noteq> i) es"

definition shed_untrusted :: "fleet_crypto \<Rightarrow> swarm \<Rightarrow> swarm" where
  "shed_untrusted fx sw =
     (if length (sw_roster sw) \<ge> max_entries
      then (case fleet_view fx sw of
              None \<Rightarrow> sw
            | Some v \<Rightarrow> sw\<lparr>sw_roster := foldl (\<lambda>t e. if trusts v (re_signer e) then t else delete_entry (re_id e) t)
                (sw_roster sw) (roster_entries sw)\<rparr>)
      else sw)"

fun insert_entries :: "fleet_crypto \<Rightarrow> nat \<Rightarrow> roster_entry list \<Rightarrow> roster_entry list \<Rightarrow> bool \<times> roster_entry list" where
  "insert_entries fx room [] t = (False, t)"
| "insert_entries fx room (e # es) t =
     (if room = 0 then (False, t)
      else if \<not> (re_kind e = ''add'' \<or> re_kind e = ''remove'') \<or> re_id e \<noteq> fx_sha256_hex fx (entry_statement fx e) then insert_entries fx room es t
      else if re_id e \<in> re_id ` set t then insert_entries fx room es t
      else (True, snd (insert_entries fx (room - 1) es (t @ [e]))))"

definition store_entries :: "fleet_crypto \<Rightarrow> roster_entry list \<Rightarrow> swarm \<Rightarrow> bool \<times> swarm" where
  "store_entries fx incoming sw =
     (if incoming = [] then (False, sw)
      else let sw = shed_untrusted fx sw;
               (added, t) = insert_entries fx (max_entries - length (sw_roster sw)) incoming (sw_roster sw)
           in (added, sw\<lparr>sw_roster := t\<rparr>))"

text \<open>A clock later than every entry about the subject that a trusted member signed.\<close>

definition next_clock :: "fleet_crypto \<Rightarrow> i64 \<Rightarrow> string \<Rightarrow> swarm \<Rightarrow> hlc rresult \<times> swarm" where
  "next_clock fx now subject sw =
     (let (recs, clock) = store_tick (sw_records sw) now; sw = sw\<lparr>sw_records := recs\<rparr> in
      case fleet_view fx sw of
        None \<Rightarrow> (Err ''Turn on remote access to hold fleet keys.'', sw)
      | Some v \<Rightarrow> (Ok (foldl (\<lambda>clock e. if re_runtime e = subject \<and> trusts v (re_signer e) \<and> re_clock e \<ge> clock then bump (re_clock e) else clock)
          clock (roster_entries sw)), sw))"

definition unsigned_add :: "string \<Rightarrow> fleet_card \<Rightarrow> role \<Rightarrow> string \<Rightarrow> hlc \<Rightarrow> roster_entry" where
  "unsigned_add runtime_id cd r signer clock = \<lparr>re_id = [], re_kind = ''add'', re_runtime = runtime_id, re_card = Some cd,
     re_role = Some (role_str r), re_signer = signer, re_clock = clock, re_sig = []\<rparr>"

definition add_entry :: "fleet_crypto \<Rightarrow> i64 \<Rightarrow> fleet_keys \<Rightarrow> string \<Rightarrow> fleet_card \<Rightarrow> role \<Rightarrow> swarm \<Rightarrow> roster_entry rresult \<times> swarm" where
  "add_entry fx now keys runtime_id cd r sw =
     (case next_clock fx now runtime_id sw of
        (Inl err, sw) \<Rightarrow> (Inl err, sw)
      | (Inr clock, sw) \<Rightarrow> (sign_entry fx keys (unsigned_add runtime_id cd r (sw_self sw) clock), sw))"

definition already_vouched :: "swarm \<Rightarrow> string \<Rightarrow> fleet_card \<Rightarrow> bool" where
  "already_vouched sw runtime_id cd = list_ex (\<lambda>e. re_kind e = ''add'' \<and> re_signer e = sw_self sw \<and> re_runtime e = runtime_id
     \<and> re_card e = Some cd) (roster_entries sw)"

definition vouch_once :: "fleet_crypto \<Rightarrow> i64 \<Rightarrow> string \<Rightarrow> fleet_card \<Rightarrow> role \<Rightarrow> swarm \<Rightarrow> unit rresult \<times> swarm" where
  "vouch_once fx now peer cd r sw =
     (case sw_keys sw of
        None \<Rightarrow> (Ok (), sw)
      | Some keys \<Rightarrow>
          if already_vouched sw peer cd then (Ok (), sw)
          else (case add_entry fx now keys peer cd r sw of
                  (Inl err, sw) \<Rightarrow> (Inl err, sw)
                | (Inr e, sw) \<Rightarrow> (Ok (), snd (store_entries fx [e] sw))))"

definition vouch_for_link :: "fleet_crypto \<Rightarrow> i64 \<Rightarrow> string \<Rightarrow> member_record \<Rightarrow> string \<Rightarrow> swarm \<Rightarrow> unit rresult \<times> swarm" where
  "vouch_for_link fx now peer from pinned sw =
     (case mr_card from of
        None \<Rightarrow> (Ok (), sw)
      | Some cd \<Rightarrow>
          if mr_runtime from \<noteq> peer \<or> to_ascii_lowercase (fc_cert_sha256 cd) \<noteq> to_ascii_lowercase pinned \<or> \<not> card_verifies fx cd
          then (Ok (), sw)
          else vouch_once fx now peer cd FullRole sw)"

section \<open>Invitations and admissions\<close>

definition note_invite :: "fleet_crypto \<Rightarrow> string \<Rightarrow> role \<Rightarrow> string \<Rightarrow> swarm \<Rightarrow> swarm" where
  "note_invite fx secret r expires_at sw =
     sw\<lparr>sw_invites := AList.update (fx_sha256_hex fx secret) \<lparr>iv_role = role_str r, iv_expires_at = expires_at, iv_used_by = None\<rparr> (sw_invites sw)\<rparr>"

definition note_join :: "fleet_crypto \<Rightarrow> string \<Rightarrow> string \<Rightarrow> swarm \<Rightarrow> swarm" where
  "note_join fx inviter secret sw = set_meta (''fleet_admission:'' @ inviter) (Some (fx_sha256_hex fx secret)) sw"

definition may_invite :: "fleet_crypto \<Rightarrow> swarm \<Rightarrow> bool" where
  "may_invite fx sw = (case fleet_view fx sw of None \<Rightarrow> True | Some v \<Rightarrow> view_role v (vw_self v) = Some FullRole \<and> \<not> self_removed v)"

text \<open>The role an admission gives the peer, if it is open to it; an invitation is marked as used by it.\<close>

definition admission_role :: "string \<Rightarrow> string \<Rightarrow> string option \<Rightarrow> swarm \<Rightarrow> role option \<times> swarm" where
  "admission_role now_text peer admission sw =
     (case admission of
        Some hash \<Rightarrow>
          (case map_of (sw_invites sw) hash of
             None \<Rightarrow> (None, sw)
           | Some iv \<Rightarrow>
               if iv_used_by iv = Some peer \<or> (iv_used_by iv = None \<and> iv_expires_at iv > now_text)
               then (Some (case parse_role (iv_role iv) of None \<Rightarrow> WorkerRole | Some r \<Rightarrow> r),
                     sw\<lparr>sw_invites := AList.update hash (iv\<lparr>iv_used_by := Some peer\<rparr>) (sw_invites sw)\<rparr>)
               else (None, sw))
      | None \<Rightarrow>
          (case map_of (sw_meta sw) (''fleet_legacy:'' @ peer) of
             None \<Rightarrow> (None, sw)
           | Some device \<Rightarrow> if channel_of sw peer = Device device then (Some FullRole, sw) else (None, sw)))"

definition admit_peer :: "fleet_crypto \<Rightarrow> i64 \<Rightarrow> string \<Rightarrow> string \<Rightarrow> member_record \<Rightarrow> string option \<Rightarrow> swarm \<Rightarrow> unit rresult \<times> swarm" where
  "admit_peer fx now now_text peer from admission sw =
     (case mr_card from of
        None \<Rightarrow> (Ok (), sw)
      | Some cd \<Rightarrow>
          if mr_runtime from \<noteq> peer \<or> \<not> card_verifies fx cd then (Ok (), sw)
          else (case admission_role now_text peer admission sw of
                  (None, sw) \<Rightarrow> (Ok (), sw)
                | (Some r, sw) \<Rightarrow>
                    vouch_once fx now peer cd r
                      (case channel_of sw peer of Device device \<Rightarrow> set_meta (''fleet_device:'' @ peer) (Some device) sw | _ \<Rightarrow> sw)))"

section \<open>Changing roles and removing\<close>

definition set_role :: "fleet_crypto \<Rightarrow> i64 \<Rightarrow> string \<Rightarrow> role \<Rightarrow> swarm \<Rightarrow> role option rresult \<times> swarm" where
  "set_role fx now runtime_id r sw =
     (case (sw_keys sw, fleet_view fx sw) of
        (Some keys, Some v) \<Rightarrow>
          if view_role v (vw_self v) \<noteq> Some FullRole \<or> self_removed v then (Err ''Only a full member can change a role.'', sw)
          else if runtime_id = vw_self v then (Err ''A runtime cannot change its own role.'', sw)
          else (case (if runtime_id \<in> set (vw_removed v) then None else map_of (vw_members v) runtime_id) of
                  None \<Rightarrow> (Err ''The fleet has no such member.'', sw)
                | Some m \<Rightarrow>
                    if mb_role m = r then (Ok None, sw)
                    else (case add_entry fx now keys runtime_id (mb_card m) r sw of
                            (Inl err, sw) \<Rightarrow> (Inl err, sw)
                          | (Inr e, sw) \<Rightarrow> (Ok (Some (mb_role m)), snd (store_entries fx [e] sw))))
      | _ \<Rightarrow> (Err ''Turn on remote access to hold fleet keys.'', sw))"

definition unsigned_remove :: "string \<Rightarrow> string \<Rightarrow> hlc \<Rightarrow> roster_entry" where
  "unsigned_remove runtime_id signer clock = \<lparr>re_id = [], re_kind = ''remove'', re_runtime = runtime_id, re_card = None,
     re_role = None, re_signer = signer, re_clock = clock, re_sig = []\<rparr>"

fun keep_members :: "fleet_crypto \<Rightarrow> i64 \<Rightarrow> fleet_keys \<Rightarrow> (string \<times> fleet_member) list \<Rightarrow> swarm \<Rightarrow> roster_entry list rresult \<times> swarm" where
  "keep_members fx now keys [] sw = (Ok [], sw)"
| "keep_members fx now keys ((i, m) # ms) sw =
     (case add_entry fx now keys i (mb_card m) (mb_role m) sw of
        (Inl err, sw) \<Rightarrow> (Inl err, sw)
      | (Inr e, sw) \<Rightarrow> (case keep_members fx now keys ms sw of (r, sw) \<Rightarrow> (map_sum id ((#) e) r, sw)))"

definition remove_member :: "fleet_crypto \<Rightarrow> i64 \<Rightarrow> string \<Rightarrow> swarm \<Rightarrow> bool rresult \<times> swarm" where
  "remove_member fx now runtime_id sw =
     (case (sw_keys sw, fleet_view fx sw) of
        (Some keys, Some before) \<Rightarrow>
          if runtime_id = sw_self sw then (Err ''A runtime cannot remove itself from the fleet.'', sw)
          else if runtime_id \<in> set (vw_removed before) then (Ok False, sw)
          else (case next_clock fx now runtime_id sw of
                  (Inl err, sw) \<Rightarrow> (Inl err, sw)
                | (Inr clock, sw) \<Rightarrow>
                    (case sign_entry fx keys (unsigned_remove runtime_id (sw_self sw) clock) of
                       Inl err \<Rightarrow> (Inl err, sw)
                     | Inr removal \<Rightarrow>
                         (let after = compute fx (sw_self sw) keys (roster_entries sw @ [removal]);
                              lost = filter (\<lambda>(i, m). i \<noteq> sw_self sw \<and> i \<noteq> runtime_id \<and> \<not> trusts after i) (sort_key fst (vw_members before))
                          in case keep_members fx now keys lost sw of
                               (Inl err, sw) \<Rightarrow> (Inl err, sw)
                             | (Inr added, sw) \<Rightarrow> (Ok True, snd (store_entries fx (removal # added) sw)))))
      | _ \<Rightarrow> (Err ''Turn on remote access to hold fleet keys.'', sw))"

section \<open>Sealed secrets\<close>

definition id_matches :: "sealed_secret \<Rightarrow> bool" where
  "id_matches s =
     (let pre = ss_class s @ '':'' @ ss_owner s in
      ss_class s \<noteq> [] \<and> list_all (\<lambda>c. (let n = of_char c :: nat in 97 \<le> n \<and> n \<le> 122) \<or> c = CHR ''_'') (ss_class s)
      \<and> (ss_id s = pre \<or> (case strip_prefix pre (ss_id s) of None \<Rightarrow> False | Some rest \<Rightarrow> starts_with rest '':'')))"

definition put_sealed :: "sealed_secret \<Rightarrow> swarm \<Rightarrow> bool \<times> swarm" where
  "put_sealed s sw =
     (if (case map_of (sw_sealed sw) (ss_id s) of None \<Rightarrow> False | Some held \<Rightarrow> ss_version held \<ge> ss_version s) then (False, sw)
      else (True, sw\<lparr>sw_sealed := AList.update (ss_id s) s (sw_sealed sw)\<rparr>))"

definition store_sealed :: "fleet_crypto \<Rightarrow> view \<Rightarrow> sealed_secret \<Rightarrow> swarm \<Rightarrow> bool \<times> swarm" where
  "store_sealed fx v s sw =
     (if ss_owner s = vw_self v \<or> \<not> id_matches s then (False, sw)
      else (case map_of (vw_members v) (ss_owner s) of
              None \<Rightarrow> (False, sw)
            | Some owner \<Rightarrow>
                if mb_role owner \<noteq> FullRole then (False, sw)
                else if view_role v (vw_self v) = Some WorkerRole
                  \<and> (ss_class s \<noteq> ''lease'' \<or> ss_id s \<noteq> ''lease:'' @ ss_owner s @ '':'' @ vw_self v \<or> map_of (ss_recipients s) (vw_self v) = None)
                then (False, sw)
                else if \<not> (case fx_decode fx (ss_sig s) of None \<Rightarrow> False | Some sg \<Rightarrow> fx_verify fx (mb_identity owner) (secret_statement fx s) sg)
                then (False, sw)
                else put_sealed s sw))"

section \<open>Exchanges\<close>

definition sealed_rows :: "swarm \<Rightarrow> sealed_secret list" where
  "sealed_rows sw = sort_key ss_id (map snd (sw_sealed sw))"

record fleet_fields =
  ff_roster :: "roster_entry list"
  ff_digest :: "string option"
  ff_sealed :: "sealed_secret list"
  ff_have :: "(string \<times> u64) list option"
  ff_admission :: "string option"
  ff_more :: bool

text \<open>The secrets the peer lacks, while the budget lasts.\<close>

fun send_sealed :: "(sealed_secret \<Rightarrow> bool) \<Rightarrow> (string \<times> u64) list option \<Rightarrow> (sealed_secret \<Rightarrow> nat) \<Rightarrow> nat \<Rightarrow> sealed_secret list
    \<Rightarrow> sealed_secret list \<times> bool \<times> nat" where
  "send_sealed holds have cost budget [] = ([], False, budget)"
| "send_sealed holds have cost budget (s # ss) =
     (if \<not> holds s then send_sealed holds have cost budget ss
      else if \<not> (case have of None \<Rightarrow> True | Some h \<Rightarrow> (case map_of h (ss_id s) of None \<Rightarrow> 0 | Some n \<Rightarrow> n) < ss_version s)
      then send_sealed holds have cost budget ss
      else if cost s > budget then ([], True, budget)
      else (case send_sealed holds have cost (budget - cost s) ss of (sent, rest) \<Rightarrow> (s # sent, rest)))"

definition fleet_outgoing :: "fleet_crypto \<Rightarrow> (roster_entry list \<Rightarrow> nat) \<Rightarrow> (sealed_secret \<Rightarrow> nat) \<Rightarrow> (sealed_secret \<Rightarrow> bool) \<Rightarrow> string \<Rightarrow> nat \<Rightarrow> swarm
    \<Rightarrow> fleet_fields \<times> nat" where
  "fleet_outgoing fx roster_cost cost holds peer budget sw =
     (case fleet_view fx sw of
        None \<Rightarrow> (\<lparr>ff_roster = [], ff_digest = None, ff_sealed = [], ff_have = None, ff_admission = None, ff_more = False\<rparr>, budget)
      | Some v \<Rightarrow>
          (let roster = filter (\<lambda>e. trusts v (re_signer e)) (roster_entries sw);
               digest = digest_of fx roster;
               held = map_of (sw_peers sw) peer;
               send = (Option.bind held fp_digest \<noteq> Some digest);
               budget = (if send then budget - roster_cost roster else budget);
               (sealed, left_out, budget) =
                 (if trusts v peer \<and> \<not> self_removed v \<and> proven sw peer
                  then send_sealed holds (Option.bind held fp_have) cost budget (sealed_rows sw) else ([], False, budget))
           in (\<lparr>ff_roster = (if send then roster else []), ff_digest = Some digest, ff_sealed = sealed,
                ff_have = Some (map (\<lambda>s. (ss_id s, ss_version s)) (sealed_rows sw)),
                ff_admission = map_of (sw_meta sw) (''fleet_admission:'' @ peer), ff_more = left_out\<rparr>, budget)))"

fun store_all_sealed :: "fleet_crypto \<Rightarrow> view \<Rightarrow> sealed_secret list \<Rightarrow> swarm \<Rightarrow> bool \<times> swarm" where
  "store_all_sealed fx v [] sw = (False, sw)"
| "store_all_sealed fx v (s # ss) sw =
     (case store_sealed fx v s sw of (a, sw) \<Rightarrow> (case store_all_sealed fx v ss sw of (b, sw) \<Rightarrow> (a \<or> b, sw)))"

definition note_peer_fleet :: "string \<Rightarrow> fleet_fields \<Rightarrow> swarm \<Rightarrow> swarm" where
  "note_peer_fleet peer inc sw =
     (let held = (case map_of (sw_peers sw) peer of None \<Rightarrow> \<lparr>fp_digest = None, fp_have = None\<rparr> | Some h \<Rightarrow> h);
          held = (if ff_digest inc \<noteq> None then held\<lparr>fp_digest := ff_digest inc\<rparr> else held);
          held = (if ff_have inc \<noteq> None then held\<lparr>fp_have := ff_have inc\<rparr> else held)
      in sw\<lparr>sw_peers := AList.update peer held (sw_peers sw)\<rparr>)"

definition end_admission :: "string \<Rightarrow> swarm \<Rightarrow> swarm" where
  "end_admission peer sw =
     (if map_of (sw_meta sw) (''fleet_admission:'' @ peer) \<noteq> None
         \<and> list_ex (\<lambda>e. re_kind e = ''add'' \<and> re_runtime e = sw_self sw \<and> re_signer e = peer) (roster_entries sw)
      then set_meta (''fleet_admission:'' @ peer) None sw else sw)"

definition fleet_merge :: "fleet_crypto \<Rightarrow> i64 \<Rightarrow> string \<Rightarrow> string \<Rightarrow> member_record \<Rightarrow> fleet_fields \<Rightarrow> swarm \<Rightarrow> bool rresult \<times> swarm" where
  "fleet_merge fx now now_text peer from inc sw =
     (let sw = note_peer_fleet peer inc sw in
      if sw_keys sw = None then (Ok False, sw)
      else (let (changed, sw) = store_entries fx (ff_roster inc) sw in
            case admit_peer fx now now_text peer from (ff_admission inc) sw of
              (Inl err, sw) \<Rightarrow> (Inl err, sw)
            | (Inr _, sw) \<Rightarrow>
                (let sw = end_admission peer sw in
                 if ff_sealed inc = [] then (Ok changed, sw)
                 else (case fleet_view fx sw of
                         None \<Rightarrow> (Err ''Turn on remote access to hold fleet keys.'', sw)
                       | Some v \<Rightarrow> (case store_all_sealed fx v (ff_sealed inc) sw of (c, sw) \<Rightarrow> (Ok (changed \<or> c), sw))))))"

section \<open>Removals take effect\<close>

lemma top_unreadable: "parse (display hlc_top) \<noteq> Ok hlc_top"
proof -
  have "unat (- 1 :: u64) = 18446744073709551615" by (simp add: unsigned_minus_1_eq_mask mask_eq_exp_minus_1)
  moreover have "unat (- 1 :: u16) = 65535" by (simp add: unsigned_minus_1_eq_mask mask_eq_exp_minus_1)
  ultimately have "length (display hlc_top) \<noteq> 16"
    by (simp add: display_def hlc_top_def hex_pad_def hex_str.simps)
  then show ?thesis by (simp add: parse_def)
qed

lemma readable_top: "readable e \<Longrightarrow> re_clock e \<noteq> hlc_top"
  using top_unreadable by (auto simp: readable_def)

text \<open>The fold of \<open>next_clock\<close> ends above every entry it looks at.\<close>

lemma fold_bump:
  assumes "\<forall>e\<in>set es. re_clock e \<noteq> hlc_top"
  shows "c \<le> foldl (\<lambda>c e. if P e \<and> c \<le> re_clock e then bump (re_clock e) else c) c es
    \<and> (\<forall>e\<in>set es. P e \<longrightarrow> re_clock e < foldl (\<lambda>c e. if P e \<and> c \<le> re_clock e then bump (re_clock e) else c) c es)"
  using assms
proof (induction es arbitrary: c)
  case (Cons a es)
  let ?f = "\<lambda>c e. if P e \<and> c \<le> re_clock e then bump (re_clock e) else c"
  have step: "c \<le> ?f c a" "P a \<Longrightarrow> re_clock a < ?f c a"
    using bump_greater [of "re_clock a"] Cons.prems by auto
  with Cons.IH [of "?f c a"] Cons.prems show ?case by fastforce
qed simp

lemma next_clock_above:
  assumes "next_clock fx now x sw = (Inr clock, sw1)" "fleet_view fx sw = Some v"
  shows "sw1 = sw\<lparr>sw_records := sw_records sw1\<rparr>
    \<and> (\<forall>e\<in>set (roster_entries sw). re_runtime e = x \<longrightarrow> trusts v (re_signer e) \<longrightarrow> re_clock e < clock)"
proof -
  obtain recs c where t: "store_tick (sw_records sw) now = (recs, c)" by (cases "store_tick (sw_records sw) now")
  have v: "fleet_view fx (sw\<lparr>sw_records := recs\<rparr>) = Some v" "roster_entries (sw\<lparr>sw_records := recs\<rparr>) = roster_entries sw"
    using assms(2) by (simp_all add: fleet_view_def roster_entries_def)
  have "\<forall>e\<in>set (roster_entries sw). re_clock e \<noteq> hlc_top" by (auto simp: roster_entries_def readable_top)
  from fold_bump [OF this, of c "\<lambda>e. re_runtime e = x \<and> trusts v (re_signer e)"] assms(1) t v
  show ?thesis by (auto simp: next_clock_def)
qed

lemma removal_step_keeps: "x \<in> set removed \<Longrightarrow> x \<in> set (foldl (removal_step fx self reachable es) removed rs)"
proof (induction rs arbitrary: removed)
  case (Cons e rs)
  then have "x \<in> set (removal_step fx self reachable es removed e)" by (auto simp: removal_step_def split: option.splits)
  with Cons.IH show ?case by simp
qed simp

text \<open>A removal by this runtime counts when it is newer than every vouch for its subject and nobody removed this runtime.\<close>

lemma own_removal_counts:
  assumes e: "e \<in> set es" "re_kind e = ''remove''" "re_signer e = self" "entry_verifies fx e (fk_identity own)"
    and new: "\<forall>a\<in>set es. re_kind a = ''add'' \<longrightarrow> re_runtime a = re_runtime e \<longrightarrow> re_clock a < re_clock e"
    and kept: "\<forall>a\<in>set es. re_kind a = ''remove'' \<longrightarrow> re_runtime a \<noteq> self"
  shows "re_runtime e \<in> set (compute_removed fx self own es)"
proof -
  let ?reach = "closure fx self own es []" and ?step = "removal_step fx self (closure fx self own es []) es"
  from e have "e \<in> set (removals es)" by (simp add: removals_def)
  then obtain as bs where rs: "removals es = as @ e # bs" by (meson split_list)
  have "self \<notin> set (foldl ?step [] as)"
  proof
    assume "self \<in> set (foldl ?step [] as)"
    then obtain a where "re_runtime a = self" "removal_counts fx self own es a"
      using removed_counts [of self fx self own es "[]" as] rs by (force simp: removals_def dest: arg_cong [where f = set])
    with kept show False by (auto simp: removal_counts_def)
  qed
  moreover obtain m where m: "map_of ?reach self = Some m" "mb_identity m = fk_identity own"
    using closure_ok [of fx self own es "[]"] by (auto simp: members_ok_def)
  moreover have "case newest_add ?reach es (re_runtime e) of None \<Rightarrow> True | Some added \<Rightarrow> added < re_clock e"
  proof (cases "newest_add ?reach es (re_runtime e)")
    case (Some c)
    from newest_add_found [OF Some] new show ?thesis by (auto simp: Some)
  qed simp
  ultimately have "re_runtime e \<in> set (?step (foldl ?step [] as) e)"
    using e by (simp add: removal_step_def)
  then show ?thesis by (simp add: compute_removed_def rs removal_step_keeps)
qed

lemma insert_entries_prefix: "\<exists>rest. snd (insert_entries fx room es t) = t @ rest \<and> set rest \<subseteq> set es"
proof (induction es arbitrary: room t)
  case (Cons e es)
  obtain a b where r: "snd (insert_entries fx room es t) = t @ a" "set a \<subseteq> set es"
    "snd (insert_entries fx (room - 1) es (t @ [e])) = t @ e # b" "set b \<subseteq> set es"
    using Cons.IH [of room t] Cons.IH [of "room - 1" "t @ [e]"] by auto
  then have "snd (insert_entries fx room (e # es) t) \<in> {t @ [], t @ a, t @ e # b}" by simp
  then obtain c where "snd (insert_entries fx room (e # es) t) = t @ c" "c \<in> {[], a, e # b}" by blast
  with r(2,4) show ?case by (intro exI [of _ c]) auto
qed simp

lemma store_first:
  assumes "length (sw_roster sw) < max_entries" "re_kind e = ''add'' \<or> re_kind e = ''remove''"
    "re_id e = fx_sha256_hex fx (entry_statement fx e)" "re_id e \<notin> re_id ` set (sw_roster sw)"
  shows "\<exists>rest. snd (store_entries fx (e # es) sw) = sw\<lparr>sw_roster := sw_roster sw @ e # rest\<rparr> \<and> set rest \<subseteq> set es"
  using insert_entries_prefix [of fx "max_entries - length (sw_roster sw) - 1" es "sw_roster sw @ [e]"] assms
  by (auto simp: store_entries_def shed_untrusted_def Let_def)

lemma keep_members_adds:
  "keep_members fx now keys ms sw = (Inr added, sw') \<Longrightarrow>
    (\<exists>recs. sw' = sw\<lparr>sw_records := recs\<rparr>) \<and> (\<forall>e\<in>set added. re_kind e = ''add'' \<and> re_runtime e \<in> fst ` set ms)"
proof (induction ms arbitrary: sw added)
  case (Cons p ms)
  obtain i m where p: "p = (i, m)" by (cases p)
  from Cons.prems p obtain e sw1 r where e: "add_entry fx now keys i (mb_card m) (mb_role m) sw = (Inr e, sw1)"
    "keep_members fx now keys ms sw1 = (Inr r, sw')" "added = e # r"
    by (auto split: prod.splits sum.splits simp: map_sum_def)
  from e(1) have "re_kind e = ''add'' \<and> re_runtime e = i \<and> (\<exists>recs. sw1 = sw\<lparr>sw_records := recs\<rparr>)"
    by (auto simp: add_entry_def next_clock_def sign_entry_def unsigned_add_def Let_def split: prod.splits sum.splits option.splits)
  then obtain recs where s1: "re_kind e = ''add''" "re_runtime e = i" "sw1 = sw\<lparr>sw_records := recs\<rparr>" by blast
  from Cons.IH [OF e(2)] obtain recs' where "sw' = sw1\<lparr>sw_records := recs'\<rparr>" "\<forall>e\<in>set r. re_kind e = ''add'' \<and> re_runtime e \<in> fst ` set ms" by blast
  with s1 e(3) p show ?case by simp blast
next
  case Nil
  then show ?case by (auto intro: exI [of _ "sw_records sw"])
qed

text \<open>A runtime is removed in the view of a state, and how states go on: the runtime and its keys stay, no removal is lost,
  and no entry that comes in vouches for \<open>x\<close> as late as \<open>clock\<close> or removes this runtime.\<close>

definition out_of_view :: "fleet_crypto \<Rightarrow> swarm \<Rightarrow> string \<Rightarrow> bool" where
  "out_of_view fx sw x \<longleftrightarrow> (\<exists>v. fleet_view fx sw = Some v \<and> x \<in> set (vw_removed v) \<and> \<not> trusts v x)"

definition goes_on :: "string \<Rightarrow> hlc \<Rightarrow> swarm \<Rightarrow> swarm \<Rightarrow> bool" where
  "goes_on x clock sw later \<longleftrightarrow> sw_self later = sw_self sw \<and> sw_keys later = sw_keys sw
     \<and> (\<forall>e\<in>set (roster_entries sw). re_kind e = ''remove'' \<longrightarrow> e \<in> set (roster_entries later))
     \<and> (\<forall>e\<in>set (roster_entries later) - set (roster_entries sw).
          (re_kind e = ''add'' \<longrightarrow> re_runtime e = x \<longrightarrow> re_clock e < clock) \<and> (re_kind e = ''remove'' \<longrightarrow> re_runtime e \<noteq> sw_self sw))"

lemma goes_on_refl: "goes_on x clock sw sw"
  by (simp add: goes_on_def)

text \<open>C29: A removal this runtime signs takes effect at once: the removed member is no member of its view right after, nor in any
  later state whose roster still holds the removals, as long as no entry has come in that vouches for the member with a
  clock as late as the removal's, and none that removes this runtime. It needs room in the roster, a clock that still
  prints and an id no entry has, that every vouch held for the member is from the view, and that this runtime has not been
  removed itself. A signature is taken to verify under its own key.\<close>

theorem removal_takes_effect:
  assumes removes: "remove_member fx now x sw = (Inr True, sw')"
    and keys: "sw_keys sw = Some keys" "fleet_view fx sw = Some before"
    and signs: "\<And>text s. fk_sign keys text = Some s \<Longrightarrow> fx_decode fx (fx_encode fx s) = Some s \<and> fx_verify fx (fk_identity keys) text s"
    and clock: "next_clock fx now x sw = (Inr clock, sw1)" "prints clock"
    and fresh: "\<forall>e\<in>set (sw_roster sw). re_id e \<noteq> fx_sha256_hex fx (entry_statement fx (unsigned_remove x (sw_self sw) clock))"
    and room: "length (sw_roster sw) < max_entries"
    and vouches: "\<forall>e\<in>set (roster_entries sw). re_kind e = ''add'' \<longrightarrow> re_runtime e = x \<longrightarrow> trusts before (re_signer e)"
    and kept: "\<forall>e\<in>set (roster_entries sw). re_kind e = ''remove'' \<longrightarrow> re_runtime e \<noteq> sw_self sw"
  shows "out_of_view fx sw' x \<and> (\<forall>later. goes_on x clock sw' later \<longrightarrow> out_of_view fx later x)"
proof -
  note above = next_clock_above [OF clock(1) keys(2)]
  from above obtain recs where sw1: "sw1 = sw\<lparr>sw_records := recs\<rparr>" by blast
  from removes keys clock(1) have x: "x \<noteq> sw_self sw" "x \<notin> set (vw_removed before)"
    by (auto simp: remove_member_def split: if_splits)
  with removes keys clock(1) sw1 obtain removal lost added sw2 where d:
    "sign_entry fx keys (unsigned_remove x (sw_self sw) clock) = Inr removal" "x \<notin> fst ` set lost"
    "keep_members fx now keys lost sw1 = (Inr added, sw2)" "sw' = snd (store_entries fx (removal # added) sw2)"
    by (force simp: remove_member_def Let_def split: sum.splits prod.splits)
  from d(1) obtain s where r: "fk_sign keys (entry_statement fx (unsigned_remove x (sw_self sw) clock)) = Some s"
    "removal = (unsigned_remove x (sw_self sw) clock)\<lparr>re_id := fx_sha256_hex fx (entry_statement fx (unsigned_remove x (sw_self sw) clock)),
       re_sig := fx_encode fx s\<rparr>"
    by (auto simp: sign_entry_def Let_def split: option.splits)
  have st: "entry_statement fx removal = entry_statement fx (unsigned_remove x (sw_self sw) clock)"
    by (simp add: r(2) entry_statement_def entry_json_def)
  from keep_members_adds [OF d(3)] sw1 obtain recs' where k: "sw2 = sw\<lparr>sw_records := recs'\<rparr>"
    "\<forall>e\<in>set added. re_kind e = ''add'' \<and> re_runtime e \<noteq> x" using d(2) by fastforce
  have ids: "re_kind removal = ''remove''" "re_id removal = fx_sha256_hex fx (entry_statement fx (unsigned_remove x (sw_self sw) clock))"
    "re_runtime removal = x" "re_clock removal = clock" "re_signer removal = sw_self sw"
    by (simp_all add: r(2)) (simp_all add: unsigned_remove_def)
  with fresh st have "re_id removal = fx_sha256_hex fx (entry_statement fx removal)" "re_id removal \<notin> re_id ` set (sw_roster sw2)"
    by (auto simp: k(1))
  then obtain rest where rest: "sw' = sw2\<lparr>sw_roster := sw_roster sw @ removal # rest\<rparr>" "set rest \<subseteq> set added"
    using store_first [of sw2 removal fx added] room ids(1) by (auto simp: d(4) k(1))
  have sw': "sw_self sw' = sw_self sw" "sw_keys sw' = Some keys" using keys(1) by (simp_all add: rest(1) k(1))
  have es: "set (roster_entries sw') \<subseteq> set (roster_entries sw) \<union> {removal} \<union> set added" "removal \<in> set (roster_entries sw')"
    using rest clock(2) by (auto simp: roster_entries_def readable_def parse_display k(1)) (simp add: r(2) unsigned_remove_def parse_display)
  have out: "out_of_view fx later x" if l: "goes_on x clock sw' later" for later
  proof -
    have late: "\<forall>a\<in>set (roster_entries later). re_kind a = ''add'' \<longrightarrow> re_runtime a = re_runtime removal \<longrightarrow> re_clock a < re_clock removal"
    proof (intro ballI impI)
      fix a assume a: "a \<in> set (roster_entries later)" "re_kind a = ''add''" "re_runtime a = re_runtime removal"
      show "re_clock a < re_clock removal"
      proof (cases "a \<in> set (roster_entries sw')")
        case True
        with a es(1) k(2) ids have "a \<in> set (roster_entries sw)" by auto
        with a vouches above ids show ?thesis by auto
      next
        case False
        with a l ids show ?thesis by (auto simp: goes_on_def)
      qed
    qed
    have "\<forall>a\<in>set (roster_entries sw'). re_kind a = ''remove'' \<longrightarrow> re_runtime a \<noteq> sw_self sw"
      using es(1) k(2) kept x(1) ids by fastforce
    with l have self: "\<forall>a\<in>set (roster_entries later). re_kind a = ''remove'' \<longrightarrow> re_runtime a \<noteq> sw_self sw"
      unfolding goes_on_def sw' by blast
    have "re_runtime removal \<in> set (compute_removed fx (sw_self sw) keys (roster_entries later))"
    proof (rule own_removal_counts [OF _ ids(1,5) _ late self])
      show "removal \<in> set (roster_entries later)" using l es(2) ids(1) by (auto simp: goes_on_def)
      show "entry_verifies fx removal (fk_identity keys)"
        using signs [OF r(1)] by (simp add: entry_verifies_def Let_def st) (simp add: r(2))
    qed
    then have rem: "x \<in> set (compute_removed fx (sw_self sw) keys (roster_entries later))" by (simp add: ids)
    from l have "sw_self later = sw_self sw" "sw_keys later = Some keys" by (simp_all add: goes_on_def sw')
    with removed_untrusted [OF x(1) rem] rem show ?thesis by (auto simp: out_of_view_def fleet_view_def compute_def Let_def)
  qed
  then show ?thesis using goes_on_refl by blast
qed

section \<open>Which secrets are taken in\<close>

text \<open>A secret a view lets in: signed by the full member its id names, and to a worker only the lease sealed to it.\<close>

definition sealed_ok :: "fleet_crypto \<Rightarrow> view \<Rightarrow> sealed_secret \<Rightarrow> bool" where
  "sealed_ok fx v s \<longleftrightarrow> ss_owner s \<noteq> vw_self v \<and> id_matches s
     \<and> (\<exists>m sg. map_of (vw_members v) (ss_owner s) = Some m \<and> mb_role m = FullRole
          \<and> fx_decode fx (ss_sig s) = Some sg \<and> fx_verify fx (mb_identity m) (secret_statement fx s) sg)
     \<and> (view_role v (vw_self v) = Some WorkerRole \<longrightarrow> ss_id s = ''lease:'' @ ss_owner s @ '':'' @ vw_self v
          \<and> map_of (ss_recipients s) (vw_self v) \<noteq> None)"

lemma store_sealed_cases:
  assumes "store_sealed fx v s sw = (b, sw')"
  shows "sw' = sw \<or> (sealed_ok fx v s \<and> (\<forall>held. map_of (sw_sealed sw) (ss_id s) = Some held \<longrightarrow> ss_version held < ss_version s)
    \<and> sw' = sw\<lparr>sw_sealed := AList.update (ss_id s) s (sw_sealed sw)\<rparr>)"
  using assms by (auto simp: store_sealed_def put_sealed_def sealed_ok_def split: option.splits if_splits)

lemma store_all_sealed_cases:
  assumes "store_all_sealed fx v ss sw = (b, sw')"
  shows "sw' = sw\<lparr>sw_sealed := sw_sealed sw'\<rparr>
    \<and> (\<forall>i s. map_of (sw_sealed sw') i = Some s \<longrightarrow> map_of (sw_sealed sw) i = Some s
         \<or> (s \<in> set ss \<and> i = ss_id s \<and> sealed_ok fx v s \<and> (\<forall>held. map_of (sw_sealed sw) i = Some held \<longrightarrow> ss_version held < ss_version s)))
    \<and> (\<forall>i s. map_of (sw_sealed sw) i = Some s \<longrightarrow> (\<exists>s'. map_of (sw_sealed sw') i = Some s' \<and> ss_version s \<le> ss_version s'))"
  using assms
proof (induction ss arbitrary: sw b)
  case (Cons s ss)
  then obtain a sw1 c where c: "store_sealed fx v s sw = (a, sw1)" "store_all_sealed fx v ss sw1 = (c, sw')"
    by (auto split: prod.splits)
  note IH = Cons.IH [OF c(2)]
  from store_sealed_cases [OF c(1)] show ?case
  proof
    assume "sw1 = sw"
    with IH show ?thesis by auto
  next
    assume *: "sealed_ok fx v s \<and> (\<forall>held. map_of (sw_sealed sw) (ss_id s) = Some held \<longrightarrow> ss_version held < ss_version s)
      \<and> sw1 = sw\<lparr>sw_sealed := AList.update (ss_id s) s (sw_sealed sw)\<rparr>"
    then have up: "map_of (sw_sealed sw1) i = (if i = ss_id s then Some s else map_of (sw_sealed sw) i)" for i
      by (auto simp: update_conv')
    from IH * have "sw' = sw\<lparr>sw_sealed := sw_sealed sw'\<rparr>" by (metis swarm.surjective swarm.update_convs(4))
    moreover have "map_of (sw_sealed sw) i = Some t
         \<or> (t \<in> set (s # ss) \<and> i = ss_id t \<and> sealed_ok fx v t \<and> (\<forall>held. map_of (sw_sealed sw) i = Some held \<longrightarrow> ss_version held < ss_version t))"
      if t: "map_of (sw_sealed sw') i = Some t" for i t
    proof (cases "i = ss_id s")
      case True
      from IH t have "map_of (sw_sealed sw1) i = Some t \<or> (t \<in> set ss \<and> i = ss_id t \<and> sealed_ok fx v t
          \<and> (\<forall>held. map_of (sw_sealed sw1) i = Some held \<longrightarrow> ss_version held < ss_version t))" by blast
      with True have "t = s \<or> (t \<in> set ss \<and> i = ss_id t \<and> sealed_ok fx v t \<and> ss_version s < ss_version t)" by (auto simp: up)
      with * True show ?thesis by (fastforce dest: less_trans)
    next
      case False
      from IH t have "map_of (sw_sealed sw1) i = Some t \<or> (t \<in> set ss \<and> i = ss_id t \<and> sealed_ok fx v t
          \<and> (\<forall>held. map_of (sw_sealed sw1) i = Some held \<longrightarrow> ss_version held < ss_version t))" by blast
      with False show ?thesis by (auto simp: up)
    qed
    moreover from IH * have "map_of (sw_sealed sw) i = Some t \<Longrightarrow> \<exists>s'. map_of (sw_sealed sw') i = Some s' \<and> ss_version t \<le> ss_version s'" for i t
      using up by (cases "i = ss_id s") (force intro: order_trans less_imp_le)+
    ultimately show ?thesis by blast
  qed
qed simp

lemma sealed_kept [simp]:
  "sw_sealed (set_meta k v sw) = sw_sealed sw" "sw_sealed (snd (store_entries fx es sw)) = sw_sealed sw"
  "sw_sealed (snd (next_clock fx now x sw)) = sw_sealed sw" "sw_sealed (snd (add_entry fx now keys x cd r sw)) = sw_sealed sw"
  "sw_sealed (note_peer_fleet peer inc sw) = sw_sealed sw" "sw_sealed (end_admission peer sw) = sw_sealed sw"
  "sw_sealed (snd (admission_role t peer adm sw)) = sw_sealed sw"
  by (auto simp: set_meta_def store_entries_def shed_untrusted_def next_clock_def add_entry_def note_peer_fleet_def end_admission_def
      admission_role_def Let_def split: option.splits prod.splits sum.splits)

lemma vouch_sealed [simp]: "sw_sealed (snd (vouch_once fx now peer cd r sw)) = sw_sealed sw"
  by (auto simp: vouch_once_def split: option.splits prod.splits sum.splits dest: arg_cong [of _ _ "sw_sealed \<circ> snd"])

lemma admit_sealed [simp]: "sw_sealed (snd (admit_peer fx now t peer from adm sw)) = sw_sealed sw"
  by (auto simp: admit_peer_def split: option.splits prod.splits channel.splits dest!: arg_cong [of "admission_role t peer adm sw" _ "sw_sealed \<circ> snd"])

lemma merge_sealed:
  assumes "fleet_merge fx now now_text peer from inc sw = (r, sw')"
  shows "sw_sealed sw' = sw_sealed sw \<or> (\<exists>v sw1 b. fleet_view fx sw' = Some v \<and> sw_sealed sw1 = sw_sealed sw
    \<and> store_all_sealed fx v (ff_sealed inc) sw1 = (b, sw'))"
proof -
  define a where "a = note_peer_fleet peer inc sw"
  obtain c b where b: "store_entries fx (ff_roster inc) a = (c, b)" by (cases "store_entries fx (ff_roster inc) a")
  obtain q d where d: "admit_peer fx now now_text peer from (ff_admission inc) b = (q, d)"
    by (cases "admit_peer fx now now_text peer from (ff_admission inc) b")
  define e where "e = end_admission peer d"
  have "sw_sealed b = sw_sealed a" using sealed_kept(2) [of fx "ff_roster inc" a] b by simp
  moreover have "sw_sealed d = sw_sealed b" using admit_sealed [of fx now now_text peer "from" "ff_admission inc" b] d by simp
  ultimately have sealed: "sw_sealed a = sw_sealed sw" "sw_sealed b = sw_sealed sw" "sw_sealed d = sw_sealed sw" "sw_sealed e = sw_sealed sw"
    by (simp_all add: a_def e_def)
  have view: "fleet_view fx sw' = fleet_view fx e" if "store_all_sealed fx v ss e = (x, sw')" for v ss x
  proof -
    from store_all_sealed_cases [OF that] obtain t where "sw' = e\<lparr>sw_sealed := t\<rparr>" by blast
    then show ?thesis by (simp add: fleet_view_def roster_entries_def)
  qed
  from assms b d sealed view show ?thesis
    unfolding fleet_merge_def a_def [symmetric] Let_def
    by (auto simp: e_def [symmetric] split: if_splits sum.splits option.splits prod.splits)
qed

text \<open>C30: Whatever a peer sends, a secret is taken in only when it is newer than the version held and, in the view that
  results, signed by a full member that its own id names; a worker takes only the lease sealed to it. No secret held is
  lost or goes back to an older version.\<close>

theorem secrets_only_from_owners:
  assumes "fleet_merge fx now now_text peer from inc sw = (r, sw')"
  shows "(\<forall>i s. map_of (sw_sealed sw') i = Some s \<longrightarrow> map_of (sw_sealed sw) i \<noteq> Some s
       \<longrightarrow> s \<in> set (ff_sealed inc) \<and> i = ss_id s \<and> (\<exists>v. fleet_view fx sw' = Some v \<and> sealed_ok fx v s)
         \<and> (\<forall>held. map_of (sw_sealed sw) i = Some held \<longrightarrow> ss_version held < ss_version s))
    \<and> (\<forall>i s. map_of (sw_sealed sw) i = Some s \<longrightarrow> (\<exists>s'. map_of (sw_sealed sw') i = Some s' \<and> ss_version s \<le> ss_version s'))"
  using merge_sealed [OF assms]
proof
  assume "sw_sealed sw' = sw_sealed sw"
  then show ?thesis by simp
next
  assume "\<exists>v sw1 b. fleet_view fx sw' = Some v \<and> sw_sealed sw1 = sw_sealed sw \<and> store_all_sealed fx v (ff_sealed inc) sw1 = (b, sw')"
  then obtain v sw1 b where v: "fleet_view fx sw' = Some v" "sw_sealed sw1 = sw_sealed sw" "store_all_sealed fx v (ff_sealed inc) sw1 = (b, sw')" by blast
  from store_all_sealed_cases [OF v(3)] v(1) show ?thesis unfolding v(2) by blast
qed

section \<open>Examples\<close>

definition sample_store :: rec_store where
  "sample_store = \<lparr>st_records = [], st_vv = [], st_hlc = None, st_horizon = None, st_clock = clock_new (Hlc 0 0), st_subscribers = []\<rparr>"

definition sample_swarm :: "roster_entry list \<Rightarrow> swarm" where
  "sample_swarm es = \<lparr>sw_self = ''S'', sw_keys = Some (sample_keys ''S''), sw_roster = es, sw_sealed = [], sw_invites = [],
     sw_meta = [], sw_peers = [], sw_channel = None, sw_records = sample_store\<rparr>"

lemma sample_readable [simp]: "ms < 2 ^ 48 \<Longrightarrow> readable (sample_add s x r ms)"
  by (simp add: readable_def parse_display prints_def)

definition pair_roster :: "roster_entry list" where "pair_roster = [sample_add ''S'' ''A'' FullRole 1]"

lemma pair_closure: "closure sample_crypto ''S'' (sample_keys ''S'') pair_roster []
   = [(''S'', own_member (sample_keys ''S'')), (''A'', \<lparr>mb_card = sample_card ''A'', mb_role = FullRole, mb_identity = ''A''\<rparr>)]"
  by (simp add: pair_roster_def view_eval Let_def)

lemma pair_compute: "compute sample_crypto ''S'' (sample_keys ''S'') pair_roster
   = \<lparr>vw_self = ''S'', vw_members = closure sample_crypto ''S'' (sample_keys ''S'') pair_roster [], vw_removed = []\<rparr>"
  by (simp add: compute_def compute_removed_def pair_roster_def removals_def Let_def)

lemma pair_trusts: "trusts (compute sample_crypto ''S'' (sample_keys ''S'') pair_roster) i \<longleftrightarrow> i = ''S'' \<or> i = ''A''"
  by (auto simp: trusts_def pair_compute pair_closure)

lemma pair_entries: "sw_roster sw = pair_roster \<Longrightarrow> roster_entries sw = pair_roster"
  by (simp add: roster_entries_def pair_roster_def)

lemma pair_view: "sw_roster sw = pair_roster \<Longrightarrow> sw_self sw = ''S'' \<Longrightarrow> sw_keys sw = Some (sample_keys ''S'')
    \<Longrightarrow> fleet_view sample_crypto sw = Some (compute sample_crypto ''S'' (sample_keys ''S'') pair_roster)"
  by (simp add: fleet_view_def pair_entries)

lemma pair_swarm [simp]: "sw_roster (sample_swarm es) = es" "sw_self (sample_swarm es) = ''S''" "sw_keys (sample_swarm es) = Some (sample_keys ''S'')"
  "sw_records (sample_swarm es) = sample_store" "sw_sealed (sample_swarm es) = []"
  by (simp_all add: sample_swarm_def)

lemma pair_clock: "next_clock sample_crypto 5 ''A'' (sample_swarm pair_roster)
   = (Inr (Hlc 5 0), (sample_swarm pair_roster)\<lparr>sw_records := sample_store\<lparr>st_clock := clock_new (Hlc 5 0)\<rparr>\<rparr>)"
proof -
  have t: "store_tick sample_store 5 = (sample_store\<lparr>st_clock := clock_new (Hlc 5 0)\<rparr>, Hlc 5 0)"
    by (simp add: store_tick_def sample_store_def tick_def clock_new_def hlc_at_def Let_def less_hlc_def)
  show ?thesis
    by (simp add: next_clock_def t pair_view pair_trusts pair_entries) (simp add: pair_roster_def less_eq_hlc_def)
qed

text \<open>The length of a printed object does not depend on the order of its members.\<close>

lemma comma_join_length: "length (comma_join ss) = sum_list (map length ss) + (length ss - 1)"
  by (induction ss rule: comma_join.induct) auto

lemma sum_insort: "sum_list (map h (insort_key g x xs)) = h x + sum_list (map h xs :: nat list)"
  by (induction xs) auto

lemma sum_sort: "sum_list (map h (sort_key g xs)) = (sum_list (map h xs) :: nat)"
  by (induction xs) (auto simp: sum_insort)

lemma canonical_length: "length (relay_canonical scalar (JObject kvs))
   = 2 + sum_list (map (\<lambda>kv. length (scalar (JString (fst kv))) + 1 + length (relay_canonical scalar (snd kv))) kvs) + (length kvs - 1)"
  by (simp add: comma_join_length comp_def case_prod_beta sum_sort)

lemma pair_fresh: "\<forall>e\<in>set pair_roster. re_id e \<noteq> fx_sha256_hex sample_crypto (entry_statement sample_crypto (unsigned_remove ''A'' ''S'' (Hlc 5 0)))"
proof -
  have clocks: "length (display (Hlc 1 0)) = 16" "length (display (Hlc 5 0)) = 16"
    by (simp_all add: display_hexn prints_def)
  have "length (re_id (sample_add ''S'' ''A'' FullRole 1)) \<noteq> length (entry_statement sample_crypto (unsigned_remove ''A'' ''S'' (Hlc 5 0)))"
    by (simp add: sample_add_def sample_signed_eq Let_def entry_statement_def entry_json_def unsigned_remove_def canonical_length clocks
        sample_crypto_def role_str_def card_json_def del: relay_canonical.simps(1)) 
  then show ?thesis by (auto simp: pair_roster_def sample_crypto_def)
qed

lemma sample_sign: "\<exists>e'. sign_entry sample_crypto (sample_keys i) e = Inr e'"
  by (simp add: sign_entry_def sample_keys_def Let_def)

lemma pair_removed: "\<exists>sw. remove_member sample_crypto 5 ''A'' (sample_swarm pair_roster) = (Inr True, sw)"
proof -
  let ?sw = "(sample_swarm pair_roster)\<lparr>sw_records := sample_store\<lparr>st_clock := clock_new (Hlc 5 0)\<rparr>\<rparr>"
  have self: "sw_self ?sw = ''S''" by simp
  obtain e where e: "sign_entry sample_crypto (sample_keys ''S'') (unsigned_remove ''A'' ''S'' (Hlc 5 0)) = Inr e" using sample_sign by blast
  have lost: "filter (\<lambda>(i, m). i \<noteq> ''S'' \<and> i \<noteq> ''A'' \<and> \<not> trusts v i)
      (sort_key fst (vw_members (compute sample_crypto ''S'' (sample_keys ''S'') pair_roster))) = []" for v
    by (simp add: pair_compute pair_closure)
  have view: "fleet_view sample_crypto (sample_swarm pair_roster) = Some (compute sample_crypto ''S'' (sample_keys ''S'') pair_roster)"
    by (simp add: pair_view)
  have "''A'' \<notin> set (vw_removed (compute sample_crypto ''S'' (sample_keys ''S'') pair_roster))" by (simp add: pair_compute)
  then show ?thesis
    unfolding remove_member_def pair_clock view pair_swarm option.case prod.case sum.case self e Let_def lost keep_members.simps by simp
qed

theorem removal_takes_effect_witness:
  "\<exists>sw. remove_member sample_crypto 5 ''A'' (sample_swarm pair_roster) = (Inr True, sw) \<and> out_of_view sample_crypto sw ''A''
     \<and> out_of_view sample_crypto (sw\<lparr>sw_roster := sw_roster sw @ [sample_add ''S'' ''B'' FullRole 9]\<rparr>) ''A''"
proof -
  obtain sw where sw: "remove_member sample_crypto 5 ''A'' (sample_swarm pair_roster) = (Inr True, sw)" using pair_removed by blast
  have signer: "\<forall>e\<in>set pair_roster. re_signer e = ''S'' \<and> re_kind e = ''add''" "length pair_roster = 1" by (simp_all add: pair_roster_def)
  have "out_of_view sample_crypto sw ''A'' \<and> (\<forall>later. goes_on ''A'' (Hlc 5 0) sw later \<longrightarrow> out_of_view sample_crypto later ''A'')"
  proof (rule removal_takes_effect [OF sw _ pair_view _ pair_clock])
    show "\<forall>e\<in>set (sw_roster (sample_swarm pair_roster)). re_id e \<noteq>
        fx_sha256_hex sample_crypto (entry_statement sample_crypto (unsigned_remove ''A'' (sw_self (sample_swarm pair_roster)) (Hlc 5 0)))"
      using pair_fresh by simp
    show "prints (Hlc 5 0)" by (simp add: prints_def)
    show "fx_decode sample_crypto (fx_encode sample_crypto s) = Some s \<and> fx_verify sample_crypto (fk_identity (sample_keys ''S'')) t s"
      if "fk_sign (sample_keys ''S'') t = Some s" for t s
      using that by (auto simp: sample_crypto_def sample_keys_def)
  qed (use signer in \<open>auto simp: pair_trusts pair_entries max_entries_def\<close>)
  moreover have "goes_on ''A'' (Hlc 5 0) sw (sw\<lparr>sw_roster := sw_roster sw @ [sample_add ''S'' ''B'' FullRole 9]\<rparr>)"
    by (auto simp: goes_on_def roster_entries_def)
  ultimately show ?thesis using sw by blast
qed

definition sample_sealed :: sealed_secret where
  "sample_sealed = (let s = \<lparr>ss_id = ''models:A'', ss_version = 1, ss_owner = ''A'', ss_class = ''models'', ss_ephemeral = [], ss_recipients = [],
     ss_sealed_at = [], ss_sig = []\<rparr> in s\<lparr>ss_sig := ''A'' @ secret_statement sample_crypto s\<rparr>)"

definition sample_fields :: fleet_fields where
  "sample_fields = \<lparr>ff_roster = [], ff_digest = None, ff_sealed = [sample_sealed], ff_have = None, ff_admission = None, ff_more = False\<rparr>"

definition no_card :: member_record where
  "no_card = \<lparr>mr_runtime = ''A'', mr_card = None, mr_capabilities = []\<rparr>"

lemma sample_merge: "\<exists>sw. fleet_merge sample_crypto 5 ''t'' ''A'' no_card sample_fields (sample_swarm pair_roster) = (Inr True, sw)
   \<and> map_of (sw_sealed sw) ''models:A'' = Some sample_sealed"
proof -
  let ?sw = "note_peer_fleet ''A'' sample_fields (sample_swarm pair_roster)"
  have same: "sw_roster ?sw = pair_roster" "sw_self ?sw = ''S''" "sw_keys ?sw = Some (sample_keys ''S'')" "sw_sealed ?sw = []" "sw_meta ?sw = []"
    by (simp_all add: note_peer_fleet_def sample_fields_def Let_def sample_swarm_def)
  have st: "secret_statement sample_crypto sample_sealed = secret_statement sample_crypto (sample_sealed\<lparr>ss_sig := []\<rparr>)"
    by (simp add: secret_statement_def secret_json_def)
  have s: "ss_sig sample_sealed = ''A'' @ secret_statement sample_crypto (sample_sealed\<lparr>ss_sig := []\<rparr>)" "ss_id sample_sealed = ''models:A''"
    "ss_owner sample_sealed = ''A''" "id_matches sample_sealed"
    by (simp_all add: sample_sealed_def Let_def id_matches_def starts_with_def)
  have "store_sealed sample_crypto (compute sample_crypto ''S'' (sample_keys ''S'') pair_roster) sample_sealed ?sw
      = (True, ?sw\<lparr>sw_sealed := [(''models:A'', sample_sealed)]\<rparr>)"
    using s by (simp add: store_sealed_def pair_compute pair_closure view_role_def own_member_def put_sealed_def same st) (simp add: sample_crypto_def)
  then show ?thesis
    using pair_view [OF same(1-3)] same
    by (simp add: fleet_merge_def sample_fields_def store_entries_def admit_peer_def no_card_def end_admission_def Let_def)
qed

theorem secrets_only_from_owners_witness:
  "\<exists>sw v. fleet_merge sample_crypto 5 ''t'' ''A'' no_card sample_fields (sample_swarm pair_roster) = (Inr True, sw)
     \<and> fleet_view sample_crypto sw = Some v \<and> sealed_ok sample_crypto v sample_sealed"
proof -
  obtain sw where sw: "fleet_merge sample_crypto 5 ''t'' ''A'' no_card sample_fields (sample_swarm pair_roster) = (Inr True, sw)"
    "map_of (sw_sealed sw) ''models:A'' = Some sample_sealed" using sample_merge by blast
  have "sw_sealed (sample_swarm pair_roster) = []" by (simp add: sample_swarm_def)
  with secrets_only_from_owners [OF sw(1)] sw show ?thesis by force
qed

end
