(* ===== verification/Fleet_Roles.thy ===== *)
theory Fleet_Roles
  imports Fleet_Membership Thread_Sync
begin

text \<open>
  What each member of a fleet may hold, pass on and write (\<open>swarm/roles.rs\<close>), with the agent directory and the thread
  registrations it reads (\<open>swarm/directory.rs\<close>, \<open>swarm/sync.rs\<close>) and the merge of what a peer sent
  (\<open>merge_exchange\<close> of \<open>swarm/mod.rs\<close>) as far as the fleet fields and the records go. A timestamp is the reading of the
  clock it prints; groups, blobs and snapshot marks are carried as they are. Of a message, notice or approval only the fields read here are kept. Whether an activity parses is an argument.
\<close>

section \<open>Data of an exchange\<close>

record directory_entry =
  de_agent :: string
  de_name :: string
  de_label :: string
  de_avatar :: "json option"
  de_primary :: string
  de_epoch :: u64
  de_updated :: hlc
  de_deleted :: bool
  de_thread :: "string option"
  de_definition :: "json option"
  de_activity :: "json option"

record thread_registration =
  tr_thread :: string
  tr_kind :: string
  tr_agent :: "string option"
  tr_group :: "string option"
  tr_updated :: string
  tr_owner :: "string option"

record swarm_message =
  ms_id :: string
  ms_kind :: string
  ms_from :: string
  ms_to :: "string option"
  ms_body :: json

record swarm_ack =
  ak_message :: string
  ak_status :: string
  ak_result :: "json option"

record swarm_notice =
  nt_id :: string
  nt_origin :: string
  nt_body :: json

record swarm_approval =
  wp_id :: string
  wp_runtime :: string
  wp_agent :: string
  wp_request :: json

record watermarks =
  wm_base :: u64
  wm_mark :: u64
  wm_complete :: bool
  wm_ack :: u64
  wm_digest :: "string option"

record exchange =
  ex_from :: member_record
  ex_members :: "member_record list"
  ex_directory :: "directory_entry list"
  ex_groups :: "json list"
  ex_threads :: "thread_registration list"
  ex_clocks :: "(string \<times> (string \<times> u64) list) list"
  ex_events :: "replicated_event list"
  ex_messages :: "swarm_message list"
  ex_acks :: "swarm_ack list"
  ex_notices :: "swarm_notice list"
  ex_approvals :: "swarm_approval list"
  ex_wants :: "(string \<times> u64) list"
  ex_blobs :: "json list"
  ex_client_seen_at :: "string option"
  ex_resumed_at :: "string option"
  ex_more :: bool
  ex_records :: "record_row list"
  ex_record_vv :: "(string \<times> u64) list option"
  ex_watermarks :: "watermarks option"
  ex_snapshot :: "json option"
  ex_roster :: "roster_entry list"
  ex_roster_digest :: "string option"
  ex_sealed :: "sealed_secret list"
  ex_sealed_have :: "(string \<times> u64) list option"
  ex_admission :: "string option"
  ex_record_floor :: "(string \<times> u64) list option"
  ex_record_base :: "(string \<times> u64) list option"

text \<open>An exchange with nothing but its sender.\<close>

definition empty_exchange :: "member_record \<Rightarrow> exchange" where
  "empty_exchange sender = \<lparr>ex_from = sender, ex_members = [], ex_directory = [], ex_groups = [], ex_threads = [], ex_clocks = [],
     ex_events = [], ex_messages = [], ex_acks = [], ex_notices = [], ex_approvals = [], ex_wants = [], ex_blobs = [],
     ex_client_seen_at = None, ex_resumed_at = None, ex_more = False, ex_records = [], ex_record_vv = None, ex_watermarks = None,
     ex_snapshot = None, ex_roster = [], ex_roster_digest = None, ex_sealed = [], ex_sealed_have = None, ex_admission = None,
     ex_record_floor = None, ex_record_base = None\<rparr>"

text \<open>The tables beside the roster and the records: registered threads, messages on their way, forwarded operations and
  the messages acknowledged here.\<close>

record swarm_tables =
  tb_threads :: "(string \<times> thread_registration) list"
  tb_outbox :: "(string \<times> swarm_message) list"
  tb_op_inbox :: "(string \<times> swarm_message) list"
  tb_inbox :: "string list"

section \<open>The directory\<close>

definition directory_class :: string where "directory_class = ''agent''"
definition entry_name :: string where "entry_name = ''entry''"
definition thread_class :: string where "thread_class = ''thread''"
definition registration_name :: string where "registration_name = ''registration''"
definition plain_thread :: string where "plain_thread = ''plain''"

text \<open>The fields of a JSON struct: an object, or an array in the order of the fields.\<close>

definition struct_fields :: "string list \<Rightarrow> json \<Rightarrow> (string \<times> json) list option" where
  "struct_fields names v = (case v of JObject kvs \<Rightarrow> Some kvs
     | JArray vs \<Rightarrow> if length vs \<le> length names then Some (zip names vs) else None
     | _ \<Rightarrow> None)"

definition optional_string :: "(string \<times> json) list \<Rightarrow> string \<Rightarrow> string option option" where
  "optional_string kvs name = (case map_of kvs name of None \<Rightarrow> Some None | Some JNull \<Rightarrow> Some None
     | Some (JString s) \<Rightarrow> Some (Some s) | Some _ \<Rightarrow> None)"

text \<open>\<open>EntryField\<close>: name, label, avatar, primary runtime and thread.\<close>

definition entry_field_of :: "json \<Rightarrow> (string \<times> string \<times> json option \<times> string \<times> string option) option" where
  "entry_field_of v =
     Option.bind (struct_fields [''name'', ''label'', ''avatar'', ''primary_runtime'', ''primary_thread''] v) (\<lambda>kvs.
       case (Option.bind (map_of kvs ''name'') as_str,
             (case map_of kvs ''label'' of None \<Rightarrow> Some [] | Some l \<Rightarrow> as_str l),
             Option.bind (map_of kvs ''primary_runtime'') as_str, optional_string kvs ''primary_thread'') of
         (Some name, Some label, Some primary, Some thread) \<Rightarrow>
           Some (name, label, (case map_of kvs ''avatar'' of Some JNull \<Rightarrow> None | a \<Rightarrow> a), primary, thread)
       | _ \<Rightarrow> None)"

definition fields_clock :: "full_record \<Rightarrow> hlc option" where
  "fields_clock r = (case map (f_clock \<circ> snd) (rec_fields r) of [] \<Rightarrow> None | c # cs \<Rightarrow> Some (foldl max c cs))"

definition entry_from_record :: "(json \<Rightarrow> json option) \<Rightarrow> full_record \<Rightarrow> directory_entry option" where
  "entry_from_record activity r =
     (if \<not> is_live r
      then map_option (\<lambda>t. \<lparr>de_agent = rec_key r, de_name = [], de_label = [], de_avatar = None, de_primary = t_origin t,
             de_epoch = t_rank t, de_updated = t_clock t, de_deleted = True, de_thread = None, de_definition = None, de_activity = None\<rparr>)
           (rec_tombstone r)
      else Option.bind (map_of (rec_fields r) entry_name) (\<lambda>entry.
             Option.bind (entry_field_of (f_value entry)) (\<lambda>(name, label, avatar, primary, thread).
               Some \<lparr>de_agent = rec_key r, de_name = name, de_label = label, de_avatar = avatar, de_primary = primary,
                 de_epoch = f_rank entry, de_updated = (case fields_clock r of None \<Rightarrow> f_clock entry | Some c \<Rightarrow> c), de_deleted = False,
                 de_thread = thread,
                 de_definition = (case record_value r ''definition'' of Some JNull \<Rightarrow> None | d \<Rightarrow> d),
                 de_activity = Option.bind (record_value r ''activity'') activity\<rparr>)))"

text \<open>\<open>all\<close>: a scan with no limit, which the number of rows is as good as.\<close>

definition directory_all :: "(json \<Rightarrow> json option) \<Rightarrow> table \<Rightarrow> directory_entry list" where
  "directory_all activity t = List.map_filter (entry_from_record activity) (scan t directory_class None (length t))"

section \<open>Grants and access\<close>

record grant =
  gr_runtime :: string
  gr_agents :: "string set"
  gr_threads :: "string set"

datatype access = FullAccess | LegacyAccess | WorkerAccess grant | NoAccess

datatype visibility = MembersSee | AgentSees string | ThreadSees string "string option" | FullSees

definition row_visibility :: "record_row \<Rightarrow> visibility" where
  "row_visibility row =
     (if rclass row = directory_class \<and> (rfield row = [] \<or> rfield row = entry_name) then MembersSee
      else if rclass row = directory_class then AgentSees (rkey row)
      else if rclass row = thread_class
      then ThreadSees (rkey row) (case rvalue row of None \<Rightarrow> None
             | Some v \<Rightarrow> if jindex v ''kind'' = JString ''agent'' then as_str (jindex v ''agent_id'') else None)
      else FullSees)"

definition grant_of :: "(json \<Rightarrow> json option) \<Rightarrow> swarm \<Rightarrow> swarm_tables \<Rightarrow> string \<Rightarrow> grant" where
  "grant_of activity sw tb runtime_id =
     (let agents = set (map de_agent (filter (\<lambda>e. \<not> de_deleted e \<and> de_primary e = runtime_id) (directory_all activity (st_records (sw_records sw)))));
          threads = set (map tr_thread (filter (\<lambda>r.
            if tr_kind r = ''agent'' then (case tr_agent r of None \<Rightarrow> False | Some a \<Rightarrow> a \<in> agents)
            else if tr_kind r = plain_thread then tr_owner r = Some runtime_id
            else False) (map snd (tb_threads tb))))
      in \<lparr>gr_runtime = runtime_id, gr_agents = agents, gr_threads = threads\<rparr>)"

definition grant_holds_row :: "grant \<Rightarrow> record_row \<Rightarrow> bool" where
  "grant_holds_row g row = (case row_visibility row of
     MembersSee \<Rightarrow> True
   | AgentSees a \<Rightarrow> a \<in> gr_agents g
   | ThreadSees t a \<Rightarrow> t \<in> gr_threads g \<or> (case a of None \<Rightarrow> False | Some a \<Rightarrow> a \<in> gr_agents g)
   | FullSees \<Rightarrow> False)"

definition owns_plain :: "grant \<Rightarrow> record_row \<Rightarrow> bool" where
  "owns_plain g row = (case rvalue row of None \<Rightarrow> False
     | Some v \<Rightarrow> jindex v ''owner_runtime'' = JString (gr_runtime g)
         \<and> (rfield row \<noteq> registration_name \<or> jindex v ''kind'' = JString plain_thread))"

definition row_creates :: "table \<Rightarrow> grant \<Rightarrow> record_row \<Rightarrow> bool" where
  "row_creates t g row \<longleftrightarrow> rclass row = directory_class \<and> rfield row = entry_name \<and> rorigin row = gr_runtime g
     \<and> (case rvalue row of None \<Rightarrow> False | Some v \<Rightarrow> jindex v ''primary_runtime'' = JString (gr_runtime g))
     \<and> get_with t directory_class (rkey row) = None"

definition row_registers :: "swarm_tables \<Rightarrow> grant \<Rightarrow> record_row \<Rightarrow> bool" where
  "row_registers tb g row \<longleftrightarrow> rclass row = thread_class \<and> rfield row = registration_name \<and> rorigin row = gr_runtime g
     \<and> owns_plain g row
     \<and> (case rvalue row of None \<Rightarrow> False | Some v \<Rightarrow> jindex v ''thread_id'' = JString (rkey row))
     \<and> (case map_of (tb_threads tb) (rkey row) of None \<Rightarrow> True
        | Some held \<Rightarrow> tr_kind held = plain_thread \<and> tr_owner held = Some (gr_runtime g))"

definition widen_thread :: "grant \<Rightarrow> record_row \<Rightarrow> grant" where
  "widen_thread g row = (case row_visibility row of
     ThreadSees t (Some a) \<Rightarrow> if rorigin row = gr_runtime g \<and> a \<in> gr_agents g then g\<lparr>gr_threads := insert t (gr_threads g)\<rparr> else g
   | _ \<Rightarrow> g)"

definition with_writes :: "swarm \<Rightarrow> swarm_tables \<Rightarrow> record_row list \<Rightarrow> grant \<Rightarrow> grant" where
  "with_writes sw tb rows g =
     (let g = foldl (\<lambda>g row. if row_creates (st_records (sw_records sw)) g row then g\<lparr>gr_agents := insert (rkey row) (gr_agents g)\<rparr> else g) g rows;
          g = foldl widen_thread g rows
      in foldl (\<lambda>g row. if row_registers tb g row then g\<lparr>gr_threads := insert (rkey row) (gr_threads g)\<rparr> else g) g rows)"

definition writes_row :: "swarm \<Rightarrow> grant \<Rightarrow> record_row \<Rightarrow> bool" where
  "writes_row sw g row =
     (if rorigin row \<noteq> gr_runtime g then False
      else if rclass row = audit_class then written_by row (gr_runtime g)
      else if rclass row = directory_class
      then (if rkey row \<notin> gr_agents g \<or> rfield row = [] then False
            else (case Option.bind (get_with (st_records (sw_records sw)) directory_class (rkey row)) (\<lambda>r. map_of (rec_fields r) entry_name) of
                    None \<Rightarrow> True | Some held \<Rightarrow> rrank row \<le> f_rank held)
              \<and> (rfield row \<noteq> entry_name
                 \<or> (case rvalue row of None \<Rightarrow> False | Some v \<Rightarrow> jindex v ''primary_runtime'' = JString (gr_runtime g))))
      else if rclass row = thread_class
      then rfield row \<noteq> [] \<and> grant_holds_row g row
        \<and> ((case row_visibility row of ThreadSees _ (Some _) \<Rightarrow> True | _ \<Rightarrow> False) \<or> owns_plain g row)
      else False)"

definition holds_row :: "access \<Rightarrow> record_row \<Rightarrow> bool" where
  "holds_row ac row = (case ac of FullAccess \<Rightarrow> True | LegacyAccess \<Rightarrow> True | WorkerAccess g \<Rightarrow> grant_holds_row g row | NoAccess \<Rightarrow> False)"

definition may_hold_thread :: "access \<Rightarrow> string \<Rightarrow> bool" where
  "may_hold_thread ac t = (case ac of FullAccess \<Rightarrow> True | LegacyAccess \<Rightarrow> True | WorkerAccess g \<Rightarrow> t \<in> gr_threads g | NoAccess \<Rightarrow> False)"

definition holds_sealed :: "access \<Rightarrow> sealed_secret \<Rightarrow> bool" where
  "holds_sealed ac s = (case ac of FullAccess \<Rightarrow> True | WorkerAccess g \<Rightarrow> map_of (ss_recipients s) (gr_runtime g) \<noteq> None | _ \<Rightarrow> False)"

definition message_target :: "access \<Rightarrow> string option" where
  "message_target ac = (case ac of WorkerAccess g \<Rightarrow> Some (gr_runtime g) | _ \<Rightarrow> None)"

definition peer_access :: "fleet_crypto \<Rightarrow> (json \<Rightarrow> json option) \<Rightarrow> swarm \<Rightarrow> swarm_tables \<Rightarrow> string \<Rightarrow> access" where
  "peer_access fx activity sw tb peer =
     (case fleet_view fx sw of
        None \<Rightarrow> FullAccess
      | Some v \<Rightarrow>
          if peer \<in> set (vw_removed v) then NoAccess
          else (case view_role v peer of
                  Some r \<Rightarrow> if \<not> proven sw peer then NoAccess
                            else (case r of FullRole \<Rightarrow> FullAccess | WorkerRole \<Rightarrow> WorkerAccess (grant_of activity sw tb peer))
                | None \<Rightarrow> if legacy_channel sw peer then LegacyAccess else NoAccess))"

definition leaf_grant :: "fleet_crypto \<Rightarrow> (json \<Rightarrow> json option) \<Rightarrow> swarm \<Rightarrow> swarm_tables \<Rightarrow> grant option" where
  "leaf_grant fx activity sw tb =
     (case fleet_view fx sw of
        None \<Rightarrow> None
      | Some v \<Rightarrow> if view_role v (vw_self v) \<noteq> Some WorkerRole then None else Some (grant_of activity sw tb (vw_self v)))"

definition leaf_sends_row :: "grant option \<Rightarrow> record_row \<Rightarrow> bool" where
  "leaf_sends_row lf row = (case lf of None \<Rightarrow> True | Some g \<Rightarrow> rorigin row = gr_runtime g)"

definition leaf_sends_event :: "grant option \<Rightarrow> string \<Rightarrow> bool" where
  "leaf_sends_event lf origin = (case lf of None \<Rightarrow> True | Some g \<Rightarrow> origin = gr_runtime g)"

section \<open>What leaves\<close>

definition delivered_here :: "swarm_tables \<Rightarrow> string \<Rightarrow> bool" where
  "delivered_here tb i \<longleftrightarrow> i \<in> set (tb_inbox tb)"

definition acknowledges_worker :: "swarm_tables \<Rightarrow> string \<Rightarrow> swarm_ack \<Rightarrow> bool" where
  "acknowledges_worker tb worker ack =
     (case map_of (tb_outbox tb) (ak_message ack) of
        Some message \<Rightarrow> ms_from message = worker
      | None \<Rightarrow>
          (case map_of (tb_op_inbox tb) (ak_message ack) of
             Some message \<Rightarrow> ms_from message = worker
           | None \<Rightarrow> ak_result ack = None \<and> delivered_here tb (ak_message ack)))"

definition for_worker :: "swarm_tables \<Rightarrow> grant \<Rightarrow> exchange \<Rightarrow> exchange" where
  "for_worker tb g ex = ex\<lparr>
     ex_directory := map (\<lambda>e. if de_agent e \<in> gr_agents g then e else e\<lparr>de_definition := None, de_activity := None\<rparr>) (ex_directory ex),
     ex_groups := [],
     ex_threads := filter (\<lambda>r. tr_thread r \<in> gr_threads g) (ex_threads ex),
     ex_clocks := filter (\<lambda>(t, _). t \<in> gr_threads g) (ex_clocks ex),
     ex_watermarks := map_option (\<lambda>w. w\<lparr>wm_digest := None\<rparr>) (ex_watermarks ex),
     ex_events := filter (\<lambda>e. rv_thread e \<in> gr_threads g) (ex_events ex),
     ex_records := filter (grant_holds_row g) (ex_records ex),
     ex_messages := filter (\<lambda>m. ms_to m = Some (gr_runtime g)) (ex_messages ex),
     ex_acks := filter (acknowledges_worker tb (gr_runtime g)) (ex_acks ex),
     ex_notices := filter (\<lambda>n. case as_str (jindex (nt_body n) ''agent_id'') of None \<Rightarrow> False | Some a \<Rightarrow> a \<in> gr_agents g) (ex_notices ex),
     ex_approvals := filter (\<lambda>a. wp_agent a \<in> gr_agents g) (ex_approvals ex),
     ex_sealed := filter (holds_sealed (WorkerAccess g)) (ex_sealed ex)\<rparr>"

definition from_leaf :: "swarm_tables \<Rightarrow> grant \<Rightarrow> exchange \<Rightarrow> exchange" where
  "from_leaf tb own ex = ex\<lparr>
     ex_members := [],
     ex_directory := filter (\<lambda>e. de_primary e = gr_runtime own) (ex_directory ex),
     ex_groups := [],
     ex_threads := filter (\<lambda>r. tr_thread r \<in> gr_threads own) (ex_threads ex),
     ex_records := filter (\<lambda>r. rorigin r = gr_runtime own) (ex_records ex),
     ex_events := filter (\<lambda>e. rv_origin e = gr_runtime own) (ex_events ex),
     ex_messages := filter (\<lambda>m. ms_from m = gr_runtime own) (ex_messages ex),
     ex_acks := filter (\<lambda>a. delivered_here tb (ak_message a)) (ex_acks ex),
     ex_notices := filter (\<lambda>n. nt_origin n = gr_runtime own) (ex_notices ex),
     ex_approvals := filter (\<lambda>a. wp_runtime a = gr_runtime own) (ex_approvals ex),
     ex_roster := filter (\<lambda>e. re_signer e = gr_runtime own) (ex_roster ex),
     ex_sealed := []\<rparr>"

definition restrict_outgoing :: "swarm_tables \<Rightarrow> access \<Rightarrow> grant option \<Rightarrow> exchange \<Rightarrow> exchange" where
  "restrict_outgoing tb ac lf ex =
     (case ac of
        NoAccess \<Rightarrow> (empty_exchange (ex_from ex))\<lparr>ex_roster := ex_roster ex, ex_roster_digest := ex_roster_digest ex, ex_admission := ex_admission ex\<rparr>
      | _ \<Rightarrow>
          (let ex = (case ac of WorkerAccess g \<Rightarrow> for_worker tb g ex | _ \<Rightarrow> ex)
           in case lf of None \<Rightarrow> ex | Some own \<Rightarrow> from_leaf tb own ex))"

section \<open>What is taken in\<close>

definition restrict_fleet_incoming :: "fleet_crypto \<Rightarrow> swarm \<Rightarrow> string \<Rightarrow> fleet_fields \<Rightarrow> fleet_fields" where
  "restrict_fleet_incoming fx sw peer inc =
     (case fleet_view fx sw of
        None \<Rightarrow> inc
      | Some v \<Rightarrow>
          (let inc = (if view_role v peer = Some WorkerRole
                      then inc\<lparr>ff_roster := filter (\<lambda>e. re_signer e = peer) (ff_roster inc), ff_sealed := []\<rparr> else inc)
           in if view_role v (vw_self v) = Some WorkerRole
              then inc\<lparr>ff_sealed := filter (\<lambda>s. map_of (ss_recipients s) (vw_self v) \<noteq> None) (ff_sealed inc)\<rparr> else inc))"

definition from_worker :: "swarm \<Rightarrow> swarm_tables \<Rightarrow> string \<Rightarrow> grant \<Rightarrow> exchange \<Rightarrow> exchange" where
  "from_worker sw tb peer g ex = ex\<lparr>
     ex_members := [], ex_directory := [], ex_groups := [], ex_threads := [],
     ex_records := filter (writes_row sw g) (ex_records ex),
     ex_clocks := filter (\<lambda>(t, _). t \<in> gr_threads g) (ex_clocks ex),
     ex_events := filter (\<lambda>e. rv_origin e = peer \<and> rv_thread e \<in> gr_threads g) (ex_events ex),
     ex_messages := filter (\<lambda>m. ms_from m = peer) (ex_messages ex),
     ex_acks := filter (\<lambda>a. case map_of (tb_outbox tb) (ak_message a) of None \<Rightarrow> False | Some m \<Rightarrow> ms_to m = Some peer) (ex_acks ex),
     ex_notices := filter (\<lambda>n. nt_origin n = peer) (ex_notices ex),
     ex_approvals := filter (\<lambda>a. wp_runtime a = peer \<and> wp_agent a \<in> gr_agents g) (ex_approvals ex),
     ex_sealed := [],
     ex_record_floor := None\<rparr>"

definition restrict_incoming :: "swarm \<Rightarrow> swarm_tables \<Rightarrow> string \<Rightarrow> access \<Rightarrow> exchange \<Rightarrow> bool \<times> exchange" where
  "restrict_incoming sw tb peer ac ex =
     (case ac of
        FullAccess \<Rightarrow> (True, ex)
      | LegacyAccess \<Rightarrow> (True, ex)
      | NoAccess \<Rightarrow> (False, empty_exchange (ex_from ex))
      | WorkerAccess g \<Rightarrow> (True, from_worker sw tb peer (with_writes sw tb (ex_records ex) g) ex))"

definition keep_for_leaf :: "grant option \<Rightarrow> exchange \<Rightarrow> exchange" where
  "keep_for_leaf lf ex =
     (case lf of
        None \<Rightarrow> ex
      | Some own \<Rightarrow> ex\<lparr>
          ex_records := filter (\<lambda>r. rorigin r = gr_runtime own \<or> grant_holds_row own r) (ex_records ex),
          ex_events := filter (\<lambda>e. rv_thread e \<in> gr_threads own) (ex_events ex),
          ex_clocks := filter (\<lambda>(t, _). t \<in> gr_threads own) (ex_clocks ex),
          ex_approvals := filter (\<lambda>a. wp_agent a \<in> gr_agents own) (ex_approvals ex)\<rparr>)"

text \<open>\<open>merge_exchange\<close> up to the merge of the records, with what is left of the exchange. A fleet merge that fails is only
  logged. \<open>None\<close> is an exchange of which nothing more is taken. Records are exchanged with a peer that names \<open>store/1\<close>;
  the full state of an older one, the notes on peers and the fresh start of a runtime long away are left out.\<close>

definition vv_at :: "(string \<times> u64) list \<Rightarrow> string \<Rightarrow> u64" where
  "vv_at vv origin = (case map_of vv origin of None \<Rightarrow> 0 | Some n \<Rightarrow> n)"

definition take_floor :: "grant option \<Rightarrow> exchange \<Rightarrow> rec_store \<Rightarrow> exchange \<times> rec_store" where
  "take_floor lf ex st =
     (case (ex_record_floor ex, lf) of
        (Some flr, Some own) \<Rightarrow> (ex\<lparr>ex_record_floor := None\<rparr>, raise_floor st (gr_runtime own) flr)
      | (Some _, None) \<Rightarrow> (ex\<lparr>ex_record_floor := None, ex_records := []\<rparr>, st)
      | (None, _) \<Rightarrow> (ex, st))"

definition take_base :: "exchange \<Rightarrow> rec_store \<Rightarrow> exchange" where
  "take_base ex st =
     (case ex_record_base ex of
        None \<Rightarrow> ex
      | Some base \<Rightarrow> ex\<lparr>ex_record_base := None, ex_records := filter (\<lambda>r. vv_at base (rorigin r) \<le> vv_at (version_vector st) (rorigin r)) (ex_records ex)\<rparr>)"

definition merge_exchange_records :: "bool \<Rightarrow> fleet_crypto \<Rightarrow> (json \<Rightarrow> json option) \<Rightarrow> (json \<Rightarrow> string) \<Rightarrow> i64 \<Rightarrow> string \<Rightarrow> swarm_tables \<Rightarrow> string \<Rightarrow> exchange \<Rightarrow> swarm
    \<Rightarrow> exchange option \<times> swarm" where
  "merge_exchange_records legacy_wire fx activity print now now_text tb peer ex sw =
     (let inc = \<lparr>ff_roster = ex_roster ex, ff_digest = ex_roster_digest ex, ff_sealed = ex_sealed ex, ff_have = ex_sealed_have ex,
            ff_admission = ex_admission ex, ff_more = False\<rparr>;
          ex = ex\<lparr>ex_roster := [], ex_roster_digest := None, ex_sealed := [], ex_sealed_have := None, ex_admission := None\<rparr>;
          sw = snd (fleet_merge fx now now_text peer (ex_from ex) (restrict_fleet_incoming fx sw peer inc) sw);
          (taken, ex) = restrict_incoming sw tb peer (peer_access fx activity sw tb peer) ex
      in if \<not> taken then (None, sw)
         else (let lf = leaf_grant fx activity sw tb;
                   (ex, st) = take_floor lf (keep_for_leaf lf ex) (sw_records sw);
                   ex = take_base ex st;
                   store = (\<not> legacy_wire \<and> ''store/1'' \<in> set (mr_capabilities (ex_from ex)));
                   st = (if store then fst (merge_batch print st now (ex_records ex)) else st)
               in (Some ex, sw\<lparr>sw_records := st\<rparr>)))"

section \<open>What a merge changes\<close>

lemma current_row_upsert_same: "current_row (upsert t c) (cclass c) (ckey c) (cfield c) = Some (read_row c)"
proof (cases "list_ex (same_slot c) t")
  case True
  then have "find (\<lambda>d. cclass d = cclass c \<and> ckey d = ckey c \<and> cfield d = cfield c) (map (\<lambda>d. if same_slot c d then c else d) t) = Some c"
    by (induction t) (auto simp: same_slot_def)
  with True show ?thesis by (simp add: current_row_def upsert_def)
next
  case False
  then have "find (\<lambda>d. cclass d = cclass c \<and> ckey d = ckey c \<and> cfield d = cfield c) (t @ [c]) = Some c"
    by (induction t) (auto simp: same_slot_def)
  with False show ?thesis by (simp add: current_row_def upsert_def)
qed

text \<open>A row that is no tombstone changes its own slot, to itself, or nothing.\<close>

definition row_wrote :: "(json \<Rightarrow> string) \<Rightarrow> table \<Rightarrow> string \<times> string \<times> string \<Rightarrow> record_row \<Rightarrow> bool" where
  "row_wrote print t s r \<longleftrightarrow> slot r = s \<and> \<not> refused print (restore_null r)
     \<and> current_row t (fst s) (fst (snd s)) (snd (snd s)) = Some (read_row (to_cols (restore_null r)))"

lemma merge_row_slot:
  assumes "rfield r \<noteq> []"
  shows "current_row (st_records (fst (merge_row print now h acc r))) c k f = current_row (st_records (fst acc)) c k f
    \<or> row_wrote print (st_records (fst (merge_row print now h acc r))) (c, k, f) r"
proof (cases "slot r = (c, k, f)")
  case True
  have "current_row (fst (apply_row t (restore_null r) False)) c k f = current_row t c k f
      \<or> current_row (fst (apply_row t (restore_null r) False)) c k f = Some (read_row (to_cols (restore_null r)))" for t
    using assms True current_row_upsert_same [of t "to_cols (restore_null r)"] by (auto simp: apply_row_fst slot_def)
  with True show ?thesis by (auto simp: merge_row_records row_wrote_def taken_def)
next
  case False
  then have "current_row (fst (apply_row t (restore_null r) False)) c k f = current_row t c k f" for t
    using assms by (intro apply_row_other) (auto simp: slot_def)
  then show ?thesis by (simp add: merge_row_records)
qed

lemma merge_rows_slot:
  assumes "\<forall>r\<in>set rows. rfield r \<noteq> []"
  shows "current_row (st_records (fst (foldl (merge_row print now h) acc rows))) c k f = current_row (st_records (fst acc)) c k f
    \<or> (\<exists>r\<in>set rows. row_wrote print (st_records (fst (foldl (merge_row print now h) acc rows))) (c, k, f) r)"
  using assms
proof (induction rows rule: rev_induct)
  case (snoc r rows)
  let ?acc = "foldl (merge_row print now h) acc rows"
  from merge_row_slot [of r print now h ?acc c k f] snoc.prems
  consider "current_row (st_records (fst (merge_row print now h ?acc r))) c k f = current_row (st_records (fst ?acc)) c k f"
    | "row_wrote print (st_records (fst (merge_row print now h ?acc r))) (c, k, f) r" by auto
  then show ?case using snoc by cases (auto simp: row_wrote_def)
qed simp

lemma merge_batch_slot:
  assumes "\<forall>r\<in>set rows. rfield r \<noteq> []"
    "current_row (st_records (fst (merge_batch print st now rows))) c k f \<noteq> current_row (st_records st) c k f"
  obtains r where "r \<in> set rows" "row_wrote print (st_records (fst (merge_batch print st now rows))) (c, k, f) r"
  using merge_rows_slot [OF assms(1), of print now "get_horizon st" "(st, [], 0)" c k f] assms(2)
  by (auto simp: merge_batch_fst merge_rows_def notify_def save_clock_def split: if_splits)

lemma merge_batch_audit:
  assumes "current_row (st_records st) audit_class key ''entry'' = Some e"
  shows "current_row (st_records (fst (merge_batch print st now rows))) audit_class key ''entry'' = Some e"
proof -
  have "current_row (st_records (fst (foldl (merge_row print now h) acc rows))) audit_class key ''entry'' = Some e"
    if "current_row (st_records (fst acc)) audit_class key ''entry'' = Some e" for h acc
    using that by (induction rows arbitrary: acc) (simp_all add: merge_row_audit)
  with assms show ?thesis by (simp add: merge_batch_fst merge_rows_def notify_def save_clock_def)
qed

section \<open>A worker stays within its grant\<close>

lemma foldl_inv: "P a \<Longrightarrow> (\<And>a x. P a \<Longrightarrow> P (f a x)) \<Longrightarrow> P (foldl f a xs)"
  by (induction xs arbitrary: a) auto

lemma with_writes_grant:
  "gr_runtime (with_writes sw tb rows g) = gr_runtime g
   \<and> (\<forall>a\<in>gr_agents (with_writes sw tb rows g). a \<in> gr_agents g \<or> get_with (st_records (sw_records sw)) directory_class a = None)"
  unfolding with_writes_def Let_def
  by (rule foldl_inv, rule foldl_inv, rule foldl_inv)
    (auto simp: row_creates_def widen_thread_def split: visibility.splits option.splits)

lemma as_str_Some: "as_str v = Some s \<longleftrightarrow> v = JString s"
  by (cases v) auto

lemma written_row: "writes_row sw g row \<Longrightarrow> rfield row \<noteq> [] \<and> rorigin row = gr_runtime g"
  by (auto simp: writes_row_def written_by_def split: if_splits)

abbreviation rows_held :: "swarm \<Rightarrow> table" where "rows_held sw \<equiv> st_records (sw_records sw)"

text \<open>The fleet fields of an exchange touch no record.\<close>

lemma records_kept [simp]:
  "rows_held (set_meta k v sw) = rows_held sw" "rows_held (snd (store_entries fx es sw)) = rows_held sw"
  "rows_held (snd (next_clock fx now x sw)) = rows_held sw" "rows_held (note_peer_fleet peer inc sw) = rows_held sw"
  "rows_held (end_admission peer sw) = rows_held sw" "rows_held (snd (admission_role t peer adm sw)) = rows_held sw"
  "rows_held (snd (store_sealed fx w s sw)) = rows_held sw"
  by (auto simp: set_meta_def store_entries_def shed_untrusted_def next_clock_def store_tick_def note_peer_fleet_def end_admission_def
      admission_role_def store_sealed_def put_sealed_def Let_def split: option.splits prod.splits sum.splits)

lemma add_entry_records [simp]: "rows_held (snd (add_entry fx now keys x cd r sw)) = rows_held sw"
  by (auto simp: add_entry_def split: prod.splits sum.splits dest: arg_cong [of _ _ "\<lambda>p. rows_held (snd p)"])

lemma vouch_records [simp]: "rows_held (snd (vouch_once fx now peer cd r sw)) = rows_held sw"
  by (auto simp: vouch_once_def split: option.splits prod.splits sum.splits dest: arg_cong [of _ _ "\<lambda>p. rows_held (snd p)"])

lemma admit_records [simp]: "rows_held (snd (admit_peer fx now t peer from adm sw)) = rows_held sw"
  by (auto simp: admit_peer_def split: option.splits prod.splits channel.splits
      dest!: arg_cong [of "admission_role t peer adm sw" _ "\<lambda>p. rows_held (snd p)"])

lemma store_all_records [simp]: "rows_held (snd (store_all_sealed fx v ss sw)) = rows_held sw"
proof (induction ss arbitrary: sw)
  case (Cons s ss)
  show ?case using Cons [of "snd (store_sealed fx v s sw)"] by (simp add: case_prod_beta)
qed simp

lemma fleet_merge_records [simp]: "rows_held (snd (fleet_merge fx now t peer from inc sw)) = rows_held sw"
  using admit_records [of fx now t peer "from" "ff_admission inc" "snd (store_entries fx (ff_roster inc) (note_peer_fleet peer inc sw))"]
  by (auto simp: fleet_merge_def Let_def case_prod_beta split: sum.splits option.splits)

lemma take_floor_records: "take_floor lf ex st = (ex', st') \<Longrightarrow> st_records st' = st_records st \<and> set (ex_records ex') \<subseteq> set (ex_records ex)"
  by (auto simp: take_floor_def raise_floor_def split: option.splits)

lemma take_base_records: "set (ex_records (take_base ex st)) \<subseteq> set (ex_records ex)"
  by (auto simp: take_base_def split: option.splits)

lemma keep_for_leaf_records: "set (ex_records (keep_for_leaf lf ex)) \<subseteq> set (ex_records ex)"
  by (auto simp: keep_for_leaf_def split: option.splits)

text \<open>The records of an exchange are merged from the rows the peer's role lets through.\<close>

lemma merge_exchange_cases:
  assumes "merge_exchange_records lw fx activity print now now_text tb peer ex sw = (out, sw')"
  obtains sw1 where "rows_held sw1 = rows_held sw" "fleet_view fx sw1 = fleet_view fx sw'" "rows_held sw' = rows_held sw"
  | sw1 st rows ex0 where "rows_held sw1 = rows_held sw" "fleet_view fx sw1 = fleet_view fx sw'"
      "st_records st = rows_held sw" "rows_held sw' = st_records (fst (merge_batch print st now rows))"
      "set rows \<subseteq> set (ex_records (snd (restrict_incoming sw1 tb peer (peer_access fx activity sw1 tb peer) ex0)))"
      "ex_records ex0 = ex_records ex"
proof -
  define ex0 where "ex0 = ex\<lparr>ex_roster := [], ex_roster_digest := None, ex_sealed := [], ex_sealed_have := None, ex_admission := None\<rparr>"
  define inc where "inc = \<lparr>ff_roster = ex_roster ex, ff_digest = ex_roster_digest ex, ff_sealed = ex_sealed ex, ff_have = ex_sealed_have ex,
            ff_admission = ex_admission ex, ff_more = False\<rparr>"
  define sw1 where "sw1 = snd (fleet_merge fx now now_text peer (ex_from ex0) (restrict_fleet_incoming fx sw peer inc) sw)"
  obtain taken ex1 where r: "restrict_incoming sw1 tb peer (peer_access fx activity sw1 tb peer) ex0 = (taken, ex1)"
    by (cases "restrict_incoming sw1 tb peer (peer_access fx activity sw1 tb peer) ex0")
  obtain ex2 st where f: "take_floor (leaf_grant fx activity sw1 tb) (keep_for_leaf (leaf_grant fx activity sw1 tb) ex1) (sw_records sw1) = (ex2, st)"
    by (cases "take_floor (leaf_grant fx activity sw1 tb) (keep_for_leaf (leaf_grant fx activity sw1 tb) ex1) (sw_records sw1)")
  define ex3 where "ex3 = take_base ex2 st"
  have kept: "rows_held sw1 = rows_held sw" by (simp add: sw1_def)
  have m: "(out, sw') = (if \<not> taken then (None, sw1) else (Some ex3, sw1\<lparr>sw_records :=
      if \<not> lw \<and> ''store/1'' \<in> set (mr_capabilities (ex_from ex3)) then fst (merge_batch print st now (ex_records ex3)) else st\<rparr>))"
    using assms unfolding merge_exchange_records_def ex0_def [symmetric] inc_def [symmetric] Let_def sw1_def [symmetric] r f prod.case ex3_def
    by (rule sym)
  have st: "st_records st = rows_held sw" "set (ex_records ex3) \<subseteq> set (ex_records ex1)"
    using take_floor_records [OF f] take_base_records [of ex2 st] keep_for_leaf_records [of "leaf_grant fx activity sw1 tb" ex1] kept
    by (auto simp: ex3_def)
  have view: "fleet_view fx sw1 = fleet_view fx sw'" using m by (auto simp: fleet_view_def roster_entries_def split: if_splits)
  show thesis
  proof (cases "taken \<and> \<not> lw \<and> ''store/1'' \<in> set (mr_capabilities (ex_from ex3))")
    case True
    with m have "rows_held sw' = st_records (fst (merge_batch print st now (ex_records ex3)))" by simp
    from that(2) [OF kept view st(1) this, of ex0] st(2) r show thesis by (simp add: ex0_def)
  next
    case False
    with m st(1) kept have "rows_held sw' = rows_held sw" by (auto split: if_splits)
    from that(1) [OF kept view this] show thesis .
  qed
qed

text \<open>A stored row keeps what its writer said.\<close>

lemma stored_row_simps:
  assumes "writes_row sw g r"
  shows "rorigin (read_row (to_cols (restore_null r))) = gr_runtime g"
    "written_by r (gr_runtime g) \<Longrightarrow> written_by (read_row (to_cols (restore_null r))) (gr_runtime g)"
    "rvalue r = Some v \<Longrightarrow> rvalue (read_row (to_cols (restore_null r))) = Some v"
proof -
  show "rorigin (read_row (to_cols (restore_null r))) = gr_runtime g" using written_row [OF assms] by simp
  show "written_by (read_row (to_cols (restore_null r))) (gr_runtime g)" if "written_by r (gr_runtime g)" using that by (simp add: written_by_def)
  show "rvalue (read_row (to_cols (restore_null r))) = Some v" if "rvalue r = Some v"
    using that by (simp add: restore_null_def read_row_def to_cols_def)
qed

lemma grant_agents:
  assumes "rows_held sw1 = rows_held sw"
  shows "a \<in> gr_agents (grant_of activity sw1 tb peer) \<longleftrightarrow>
    (\<exists>e\<in>set (directory_all activity (rows_held sw)). de_agent e = a \<and> \<not> de_deleted e \<and> de_primary e = peer)"
  using assms by (auto simp: grant_of_def Let_def)

text \<open>The agents a worker runs: those the directory names it the primary of, and those nobody holds and it creates among
  the rows it sends.\<close>

definition names_primary :: "string \<Rightarrow> record_row \<Rightarrow> bool" where
  "names_primary runtime_id row \<longleftrightarrow> (\<exists>v. rvalue row = Some v \<and> jindex v ''primary_runtime'' = JString runtime_id)"

definition listed_primary :: "(json \<Rightarrow> json option) \<Rightarrow> table \<Rightarrow> string \<Rightarrow> string \<Rightarrow> bool" where
  "listed_primary activity t runtime_id a \<longleftrightarrow>
     (\<exists>e\<in>set (directory_all activity t). de_agent e = a \<and> \<not> de_deleted e \<and> de_primary e = runtime_id)"

definition runs_agent :: "(json \<Rightarrow> json option) \<Rightarrow> table \<Rightarrow> record_row list \<Rightarrow> string \<Rightarrow> string \<Rightarrow> bool" where
  "runs_agent activity t rows runtime_id a \<longleftrightarrow> listed_primary activity t runtime_id a
     \<or> get_with t directory_class a = None
       \<and> (\<exists>r\<in>set rows. rclass r = directory_class \<and> rkey r = a \<and> rfield r = entry_name \<and> rorigin r = runtime_id \<and> names_primary runtime_id r)"

text \<open>What a row of the thread class says: the agent the thread is of, or that the runtime owns it.\<close>

definition names_agent :: "record_row \<Rightarrow> string \<Rightarrow> bool" where
  "names_agent row a \<longleftrightarrow> (\<exists>v. rvalue row = Some v \<and> jindex v ''kind'' = JString ''agent'' \<and> jindex v ''agent_id'' = JString a)"

definition names_owner :: "record_row \<Rightarrow> string \<Rightarrow> bool" where
  "names_owner row runtime_id \<longleftrightarrow> (\<exists>v. rvalue row = Some v \<and> jindex v ''owner_runtime'' = JString runtime_id
     \<and> (rfield row = registration_name \<longrightarrow> jindex v ''kind'' = JString plain_thread))"

text \<open>The threads of a worker: registered here as a thread of an agent it is the primary of or as its own, claimed in the
  rows it sends for an agent it runs, or registered in them as its own while nobody else's registration is held.\<close>

definition has_thread :: "(json \<Rightarrow> json option) \<Rightarrow> table \<Rightarrow> swarm_tables \<Rightarrow> record_row list \<Rightarrow> string \<Rightarrow> string \<Rightarrow> bool" where
  "has_thread activity t tb rows runtime_id th \<longleftrightarrow>
     (\<exists>r\<in>snd ` set (tb_threads tb). tr_thread r = th
        \<and> (tr_kind r = ''agent'' \<and> (\<exists>a. tr_agent r = Some a \<and> listed_primary activity t runtime_id a)
           \<or> tr_kind r = plain_thread \<and> tr_owner r = Some runtime_id))
   \<or> (\<exists>r\<in>set rows. rclass r = thread_class \<and> rkey r = th \<and> rorigin r = runtime_id
        \<and> (\<exists>a. names_agent r a \<and> runs_agent activity t rows runtime_id a))
   \<or> (\<exists>r\<in>set rows. rclass r = thread_class \<and> rkey r = th \<and> rfield r = registration_name \<and> rorigin r = runtime_id \<and> names_owner r runtime_id
        \<and> (\<forall>held. map_of (tb_threads tb) th = Some held \<longrightarrow> tr_kind held = plain_thread \<and> tr_owner held = Some runtime_id))"

text \<open>A thread row the worker may write: of an agent it runs, or of a thread it has, and then it says so of itself.\<close>

definition its_thread_row :: "(json \<Rightarrow> json option) \<Rightarrow> table \<Rightarrow> swarm_tables \<Rightarrow> record_row list \<Rightarrow> string \<Rightarrow> record_row \<Rightarrow> bool" where
  "its_thread_row activity t tb rows runtime_id row \<longleftrightarrow>
     (\<exists>a. names_agent row a \<and> (runs_agent activity t rows runtime_id a \<or> has_thread activity t tb rows runtime_id (rkey row)))
   \<or> names_owner row runtime_id \<and> has_thread activity t tb rows runtime_id (rkey row)"

lemma foldl_inv_in: "P a \<Longrightarrow> (\<And>a x. x \<in> set xs \<Longrightarrow> P a \<Longrightarrow> P (f a x)) \<Longrightarrow> P (foldl f a xs)"
  by (induction xs arbitrary: a) auto

lemma row_visibility_thread:
  "row_visibility row = ThreadSees t a \<longleftrightarrow> rclass row = thread_class \<and> rkey row = t
     \<and> (case a of None \<Rightarrow> \<forall>x. \<not> names_agent row x | Some x \<Rightarrow> names_agent row x)"
proof -
  have "as_str v = None \<longleftrightarrow> (\<forall>s. v \<noteq> JString s)" for v by (cases v) auto
  then show ?thesis
    by (auto simp: row_visibility_def names_agent_def as_str_Some directory_class_def thread_class_def split: option.splits)
qed

text \<open>What a grant holds after the rows of an exchange have widened it.\<close>

lemma widened_grant:
  fixes activity sw tb rows peer
  defines "g \<equiv> with_writes sw tb rows (grant_of activity sw tb peer)"
  shows "gr_runtime g = peer" "a \<in> gr_agents g \<Longrightarrow> runs_agent activity (rows_held sw) rows peer a"
    "th \<in> gr_threads g \<Longrightarrow> has_thread activity (rows_held sw) tb rows peer th"
proof -
  let ?A = "{a. runs_agent activity (rows_held sw) rows peer a}" and ?T = "{th. has_thread activity (rows_held sw) tb rows peer th}"
  let ?ok = "\<lambda>g. gr_runtime g = peer \<and> gr_agents g \<subseteq> ?A \<and> gr_threads g \<subseteq> ?T"
  have start: "?ok (grant_of activity sw tb peer)"
  proof (intro conjI subsetI)
    show "gr_runtime (grant_of activity sw tb peer) = peer" by (simp add: grant_of_def Let_def)
    fix a
    show "a \<in> gr_agents (grant_of activity sw tb peer) \<Longrightarrow> a \<in> ?A"
      by (simp add: grant_agents [OF refl] runs_agent_def listed_primary_def)
    assume "a \<in> gr_threads (grant_of activity sw tb peer)"
    then have "a \<in> set (map tr_thread (filter (\<lambda>r. if tr_kind r = ''agent''
        then (case tr_agent r of None \<Rightarrow> False | Some a \<Rightarrow> a \<in> gr_agents (grant_of activity sw tb peer))
        else if tr_kind r = plain_thread then tr_owner r = Some peer else False) (map snd (tb_threads tb))))"
      by (simp only: grant_of_def Let_def grant.select_convs)
    then obtain r where r: "r \<in> snd ` set (tb_threads tb)" "tr_thread r = a"
      "if tr_kind r = ''agent'' then (case tr_agent r of None \<Rightarrow> False | Some a \<Rightarrow> a \<in> gr_agents (grant_of activity sw tb peer))
        else if tr_kind r = plain_thread then tr_owner r = Some peer else False"
      unfolding set_map set_filter by blast
    then have "tr_kind r = ''agent'' \<and> (\<exists>a. tr_agent r = Some a \<and> listed_primary activity (rows_held sw) peer a)
        \<or> tr_kind r = plain_thread \<and> tr_owner r = Some peer"
      by (auto simp: grant_agents [OF refl] listed_primary_def split: if_splits option.splits)
    with r(1,2) show "a \<in> ?T" unfolding has_thread_def mem_Collect_eq by blast
  qed
  let ?create = "\<lambda>g row. if row_creates (rows_held sw) g row then g\<lparr>gr_agents := insert (rkey row) (gr_agents g)\<rparr> else g"
  let ?register = "\<lambda>g row. if row_registers tb g row then g\<lparr>gr_threads := insert (rkey row) (gr_threads g)\<rparr> else g"
  have create: "?ok (?create g row)" and widen: "?ok (widen_thread g row)" and register: "?ok (?register g row)"
    if "row \<in> set rows" "?ok g" for g row
    subgoal using that by (auto simp: row_creates_def runs_agent_def names_primary_def split: option.splits)
    subgoal using that by (auto simp: widen_thread_def row_visibility_thread has_thread_def split: visibility.splits option.splits)
    subgoal using that by (auto simp: row_registers_def owns_plain_def has_thread_def names_owner_def split: option.splits)
    done
  have "?ok (foldl ?create (grant_of activity sw tb peer) rows)" by (rule foldl_inv_in [where P = ?ok, OF start create])
  from foldl_inv_in [where P = ?ok, OF this widen] have "?ok (foldl widen_thread (foldl ?create (grant_of activity sw tb peer) rows) rows)" .
  from foldl_inv_in [where P = ?ok, OF this register] have "?ok g" unfolding g_def with_writes_def Let_def .
  then show "gr_runtime g = peer" "a \<in> gr_agents g \<Longrightarrow> runs_agent activity (rows_held sw) rows peer a"
    "th \<in> gr_threads g \<Longrightarrow> has_thread activity (rows_held sw) tb rows peer th" by blast+
qed

lemma widened_row:
  fixes activity sw tb rows peer
  defines "g \<equiv> with_writes sw tb rows (grant_of activity sw tb peer)"
  assumes "writes_row sw g row"
  shows "rfield row \<noteq> [] \<and> rorigin row = peer
    \<and> (rclass row = audit_class \<and> written_by row peer
       \<or> rclass row = directory_class \<and> runs_agent activity (rows_held sw) rows peer (rkey row)
           \<and> (\<forall>rec held. get_with (rows_held sw) directory_class (rkey row) = Some rec \<longrightarrow> map_of (rec_fields rec) entry_name = Some held
                \<longrightarrow> rrank row \<le> f_rank held)
           \<and> (rfield row = entry_name \<longrightarrow> names_primary peer row)
       \<or> rclass row = thread_class \<and> its_thread_row activity (rows_held sw) tb rows peer row)"
proof -
  note g = widened_grant [where activity = activity and sw = sw and tb = tb and rows = rows and peer = peer, folded g_def]
  note w = assms(2) [unfolded writes_row_def g(1)]
  consider "rclass row = audit_class" | "rclass row \<noteq> audit_class" "rclass row = directory_class"
    | "rclass row \<noteq> audit_class" "rclass row \<noteq> directory_class" "rclass row = thread_class"
    using w by (auto split: if_splits)
  then show ?thesis
  proof cases
    case 1
    with w show ?thesis by (auto simp: written_by_def split: if_splits)
  next
    case 2
    with w g(2) show ?thesis by (auto simp: names_primary_def split: if_splits option.splits)
  next
    case 3
    have "its_thread_row activity (rows_held sw) tb rows peer row"
    proof -
      have h: "grant_holds_row g row" "(case row_visibility row of ThreadSees _ (Some _) \<Rightarrow> True | _ \<Rightarrow> False) \<or> owns_plain g row"
        using w 3 by (auto split: if_splits)
      obtain a where v: "row_visibility row = ThreadSees (rkey row) a"
        using 3 by (auto simp: row_visibility_def)
      have "owns_plain g row \<Longrightarrow> names_owner row peer"
        by (auto simp: owns_plain_def names_owner_def g(1) split: option.splits)
      with h v g(2,3) v [unfolded row_visibility_thread] show ?thesis
        by (auto simp: grant_holds_row_def its_thread_row_def split: option.splits)
    qed
    with 3 w show ?thesis by (auto split: if_splits)
  qed
qed

text \<open>And what it claims.\<close>

lemma stored_claims:
  fixes r
  defines "R \<equiv> read_row (to_cols (restore_null r))"
  shows "rkey R = rkey r" "rfield R = rfield r" "rrank R = rrank r" "names_primary p r \<Longrightarrow> names_primary p R" "names_agent r a \<Longrightarrow> names_agent R a"
    "names_owner r p \<Longrightarrow> names_owner R p"
    "its_thread_row activity t tb rows p r \<Longrightarrow> its_thread_row activity t tb rows p R"
proof -
  have v: "rvalue r = Some v \<Longrightarrow> rvalue R = Some v" for v by (simp add: R_def restore_null_def read_row_def to_cols_def)
  show k: "rkey R = rkey r" and f: "rfield R = rfield r" and "rrank R = rrank r"
    by (simp_all add: R_def restore_null_def read_row_def to_cols_def)
  show "names_primary p r \<Longrightarrow> names_primary p R" using v by (auto simp: names_primary_def)
  show a: "names_agent r a \<Longrightarrow> names_agent R a" for a using v by (auto simp: names_agent_def)
  show o: "names_owner r p \<Longrightarrow> names_owner R p" using v f by (auto simp: names_owner_def)
  show "its_thread_row activity t tb rows p r \<Longrightarrow> its_thread_row activity t tb rows p R"
    unfolding its_thread_row_def k using a o by blast
qed

text \<open>C28: Whatever a worker sends, a record this runtime holds changes only in ways the worker's role allows: the new row is the
  worker's own and no tombstone, and it is a new entry of its own audit log; or a field of an agent the directory names it the
  primary of, or that nobody holds and it creates in the same exchange, at no higher rank than the entry held, and an entry
  still names it the primary; or a thread record that names an agent it runs, or names any agent or itself as the owner, of a
  thread it has. A thread it has is registered here for such an agent or as its own, claimed in the exchange for an agent it
  runs, or registered in it as its own when nobody else's registration is held.\<close>

theorem worker_confined:
  assumes merge: "merge_exchange_records lw fx activity print now now_text tb peer ex sw = (out, sw')"
    and role: "fleet_view fx sw' = Some v" "view_role v peer = Some WorkerRole"
    and changed: "current_row (rows_held sw') c k f \<noteq> current_row (rows_held sw) c k f"
  shows "\<exists>row. current_row (rows_held sw') c k f = Some row \<and> f \<noteq> [] \<and> rorigin row = peer
    \<and> (c = audit_class \<and> written_by row peer \<and> current_row (rows_held sw) c k f = None
       \<or> c = directory_class \<and> runs_agent activity (rows_held sw) (ex_records ex) peer k
           \<and> (\<forall>rec held. get_with (rows_held sw) directory_class k = Some rec \<longrightarrow> map_of (rec_fields rec) entry_name = Some held
                \<longrightarrow> rrank row \<le> f_rank held)
           \<and> (f = entry_name \<longrightarrow> names_primary peer row)
       \<or> c = thread_class \<and> its_thread_row activity (rows_held sw) tb (ex_records ex) peer row)"
  using merge
proof (cases rule: merge_exchange_cases)
  case (1 sw1)
  with changed show ?thesis by simp
next
  case (2 sw1 st rows ex0)
  let ?g = "with_writes sw1 tb (ex_records ex0) (grant_of activity sw1 tb peer)"
  from 2(2) role have ac: "peer_access fx activity sw1 tb peer \<in> {NoAccess, WorkerAccess (grant_of activity sw1 tb peer)}"
    by (simp add: peer_access_def)
  have "set rows \<subseteq> {r. writes_row sw1 ?g r}"
    using 2(5) ac by (auto simp: restrict_incoming_def empty_exchange_def from_worker_def)
  then have rows: "r \<in> set rows \<Longrightarrow> writes_row sw1 ?g r" for r by blast
  have diff: "current_row (st_records (fst (merge_batch print st now rows))) c k f \<noteq> current_row (st_records st) c k f"
    using changed 2(3,4) by simp
  have nonempty: "\<forall>r\<in>set rows. rfield r \<noteq> []" using rows written_row by blast
  from merge_batch_slot [OF nonempty diff] obtain r where r: "r \<in> set rows"
    "row_wrote print (st_records (fst (merge_batch print st now rows))) (c, k, f) r" .
  let ?R = "read_row (to_cols (restore_null r))"
  have row: "current_row (rows_held sw') c k f = Some ?R" "rclass r = c" "rkey r = k" "rfield r = f"
    using r(2) 2(4) by (auto simp: row_wrote_def slot_def)
  have audit: "c = audit_class \<Longrightarrow> written_by r peer \<Longrightarrow> current_row (rows_held sw) c k f = None"
    using merge_batch_audit [of st k _ print now rows] diff 2(3) row(4)
    by (cases "current_row (st_records st) c k f") (auto simp: written_by_def)
  note w = widened_row [OF rows [OF r(1)], unfolded 2(1) 2(6) row(2-4)]
  note R = stored_claims [where r = r, unfolded row(3,4)]
  have "rorigin ?R = peer" "written_by r peer \<Longrightarrow> written_by ?R peer"
    using stored_row_simps(1,2) [OF rows [OF r(1)]] widened_grant(1) by simp_all
  with w R(3,4,7) audit row(1) show ?thesis by (metis (no_types, lifting))
qed

lemma foldl_reaches:
  assumes "x \<in> set xs" "P a" "\<And>a x. P a \<Longrightarrow> P (f a x)" "\<And>a. P a \<Longrightarrow> Q (f a x)" "\<And>a y. Q a \<Longrightarrow> Q (f a y)"
  shows "Q (foldl f a xs)"
proof -
  from assms(1) obtain as bs where xs: "xs = as @ x # bs" by (meson split_list)
  have "P (foldl f a as)" by (rule foldl_inv [of P]) (fact assms(2,3))+
  from foldl_inv [of Q, OF assms(4) [OF this] assms(5)] show ?thesis by (simp add: xs)
qed

lemma with_writes_claims:
  assumes "row \<in> set rows" "row_visibility row = ThreadSees t (Some a)" "rorigin row = gr_runtime g" "a \<in> gr_agents g"
  shows "a \<in> gr_agents (with_writes sw tb rows g) \<and> t \<in> gr_threads (with_writes sw tb rows g)"
  unfolding with_writes_def Let_def
proof (rule foldl_inv)
  let ?g = "foldl (\<lambda>g row. if row_creates (rows_held sw) g row then g\<lparr>gr_agents := insert (rkey row) (gr_agents g)\<rparr> else g) g rows"
  have g: "a \<in> gr_agents ?g \<and> gr_runtime ?g = gr_runtime g" by (rule foldl_inv) (use assms(4) in auto)
  show "a \<in> gr_agents (foldl widen_thread ?g rows) \<and> t \<in> gr_threads (foldl widen_thread ?g rows)"
    by (rule foldl_reaches [OF assms(1), where P = "\<lambda>h. a \<in> gr_agents h \<and> gr_runtime h = gr_runtime g"])
      (use g assms(2,3) in \<open>auto simp: widen_thread_def split: visibility.splits option.splits\<close>)
qed auto

text \<open>But the claim to a thread is not checked against the registration held: a worker that runs any agent may register any
  thread, whoever owns it, as that agent's, and in the same exchange its events for that thread are let through.\<close>

theorem worker_claims_any_thread:
  assumes "a \<in> gr_agents g" "rclass row = thread_class" "rkey row = thread" "rfield row = registration_name" "rorigin row = gr_runtime g"
    "rvalue row = Some (JObject [(''thread_id'', JString thread), (''kind'', JString ''agent''), (''agent_id'', JString a)])"
    "row \<in> set (ex_records ex)" "e \<in> set (ex_events ex)" "rv_thread e = thread" "rv_origin e = gr_runtime g"
  shows "row \<in> set (ex_records (snd (restrict_incoming sw tb (gr_runtime g) (WorkerAccess g) ex)))
    \<and> e \<in> set (ex_events (snd (restrict_incoming sw tb (gr_runtime g) (WorkerAccess g) ex)))"
proof -
  let ?g = "with_writes sw tb (ex_records ex) g"
  have vis: "row_visibility row = ThreadSees thread (Some a)"
    using assms by (simp add: row_visibility_def thread_class_def directory_class_def)
  from with_writes_claims [OF assms(7) vis assms(5,1)] have "a \<in> gr_agents ?g \<and> thread \<in> gr_threads ?g" .
  with assms vis with_writes_grant [of sw tb "ex_records ex" g] show ?thesis
    by (auto simp: restrict_incoming_def from_worker_def writes_row_def grant_holds_row_def thread_class_def directory_class_def
        audit_class_def registration_name_def)
qed

section \<open>Examples\<close>

definition worker_swarm :: swarm where
  "worker_swarm = (sample_swarm [sample_add ''S'' ''A'' WorkerRole 1])\<lparr>sw_channel := Some (''A'', Pinned)\<rparr>"

definition no_tables :: swarm_tables where
  "no_tables = \<lparr>tb_threads = [], tb_outbox = [], tb_op_inbox = [], tb_inbox = []\<rparr>"

definition worker_row :: record_row where
  "worker_row = \<lparr>rclass = ''agent'', rkey = ''a'', rfield = ''entry'',
     rvalue = Some (JObject [(''name'', JString ''x''), (''primary_runtime'', JString ''A'')]), rclock = Hlc 3 0, rorigin = ''A'', rseq = 1,
     rrank = 0, rdeleted = False\<rparr>"

definition worker_exchange :: exchange where
  "worker_exchange = (empty_exchange \<lparr>mr_runtime = ''A'', mr_card = None, mr_capabilities = [''store/1'']\<rparr>)\<lparr>ex_records := [worker_row]\<rparr>"

lemma worker_compute: "compute sample_crypto ''S'' (sample_keys ''S'') [sample_add ''S'' ''A'' WorkerRole 1]
   = \<lparr>vw_self = ''S'', vw_members = [(''S'', own_member (sample_keys ''S'')), (''A'', \<lparr>mb_card = sample_card ''A'', mb_role = WorkerRole, mb_identity = ''A''\<rparr>)],
      vw_removed = []\<rparr>"
  by (simp add: compute_def compute_removed_def view_eval Let_def)

lemma worker_view: "sw_roster sw = [sample_add ''S'' ''A'' WorkerRole 1] \<Longrightarrow> sw_self sw = ''S'' \<Longrightarrow> sw_keys sw = Some (sample_keys ''S'')
    \<Longrightarrow> fleet_view sample_crypto sw = Some \<lparr>vw_self = ''S'', vw_members = [(''S'', own_member (sample_keys ''S'')),
      (''A'', \<lparr>mb_card = sample_card ''A'', mb_role = WorkerRole, mb_identity = ''A''\<rparr>)], vw_removed = []\<rparr>"
  by (simp add: fleet_view_def roster_entries_def worker_compute)

lemma worker_merged: "\<exists>out sw. merge_exchange_records False sample_crypto Some no_text 5 ''t'' no_tables ''A'' worker_exchange worker_swarm = (out, sw)
   \<and> sw_roster sw = [sample_add ''S'' ''A'' WorkerRole 1] \<and> sw_self sw = ''S'' \<and> sw_keys sw = Some (sample_keys ''S'')
   \<and> current_row (rows_held sw) ''agent'' ''a'' ''entry'' \<noteq> None \<and> rows_held worker_swarm = []"
proof -
  define inc where "inc = \<lparr>ff_roster = [], ff_digest = None, ff_sealed = [], ff_have = None, ff_admission = None, ff_more = False\<rparr>"
  define sw where "sw = note_peer_fleet ''A'' inc worker_swarm"
  have sw: "sw_roster sw = [sample_add ''S'' ''A'' WorkerRole 1]" "sw_self sw = ''S''" "sw_keys sw = Some (sample_keys ''S'')"
    "sw_meta sw = []" "sw_channel sw = Some (''A'', Pinned)" "sw_records sw = sample_store"
    by (simp_all add: sw_def note_peer_fleet_def Let_def worker_swarm_def) (simp_all add: sample_swarm_def)
  note view = worker_view [OF sw(1-3)]
  have role: "view_role \<lparr>vw_self = ''S'', vw_members = [(''S'', own_member (sample_keys ''S'')),
      (''A'', \<lparr>mb_card = sample_card ''A'', mb_role = WorkerRole, mb_identity = ''A''\<rparr>)], vw_removed = []\<rparr> i
      = (if i = ''S'' then Some FullRole else if i = ''A'' then Some WorkerRole else None)" for i
    by (simp add: view_role_def own_member_def)
  have fleet: "snd (fleet_merge sample_crypto 5 ''t'' ''A'' (ex_from worker_exchange) (restrict_fleet_incoming sample_crypto worker_swarm ''A'' inc) worker_swarm) = sw"
  proof -
    have "fleet_view sample_crypto worker_swarm = fleet_view sample_crypto sw"
      by (simp add: sw_def fleet_view_def roster_entries_def note_peer_fleet_def Let_def)
    then have "restrict_fleet_incoming sample_crypto worker_swarm ''A'' inc = inc" by (simp add: restrict_fleet_incoming_def view role inc_def)
    then show ?thesis using sw(3,4)
      by (simp add: fleet_merge_def sw_def [symmetric] Let_def) (simp add: inc_def store_entries_def admit_peer_def worker_exchange_def empty_exchange_def end_admission_def)
  qed
  have access: "peer_access sample_crypto Some sw no_tables ''A'' = WorkerAccess \<lparr>gr_runtime = ''A'', gr_agents = {}, gr_threads = {}\<rparr>"
    by (simp add: peer_access_def view role proven_def channel_of_def sw grant_of_def no_tables_def directory_all_def scan_def sample_store_def List.map_filter_def)
  have lf: "leaf_grant sample_crypto Some sw no_tables = None" by (simp add: leaf_grant_def view role)
  have grant: "with_writes sw no_tables [worker_row] \<lparr>gr_runtime = ''A'', gr_agents = {}, gr_threads = {}\<rparr> = \<lparr>gr_runtime = ''A'', gr_agents = {''a''}, gr_threads = {}\<rparr>"
    by (simp add: with_writes_def row_creates_def worker_row_def directory_class_def entry_name_def get_with_def assemble_def sw sample_store_def
        widen_thread_def row_visibility_def row_registers_def thread_class_def)
  have row: "writes_row sw \<lparr>gr_runtime = ''A'', gr_agents = {''a''}, gr_threads = {}\<rparr> worker_row"
    by (simp add: writes_row_def worker_row_def directory_class_def audit_class_def entry_name_def get_with_def assemble_def sw sample_store_def)
  have merged: "current_row (st_records (fst (merge_batch no_text sample_store 5 [worker_row]))) ''agent'' ''a'' ''entry'' \<noteq> None"
    by (simp add: merge_batch_fst merge_rows_def merge_row_records taken_def refused_def audit_refused_def behind_horizon_def get_horizon_def
        apply_row_fst current_row_def upsert_def to_cols_def notify_def save_clock_def sample_store_def worker_row_def restore_null_def record_eval no_text_def audit_class_def)
  let ?g = "\<lparr>gr_runtime = ''A'', gr_agents = {''a''}, gr_threads = {}\<rparr>"
  have ex: "worker_exchange\<lparr>ex_roster := [], ex_roster_digest := None, ex_sealed := [], ex_sealed_have := None, ex_admission := None\<rparr> = worker_exchange"
    "\<lparr>ff_roster = ex_roster worker_exchange, ff_digest = ex_roster_digest worker_exchange, ff_sealed = ex_sealed worker_exchange,
       ff_have = ex_sealed_have worker_exchange, ff_admission = ex_admission worker_exchange, ff_more = False\<rparr> = inc"
    "ex_records worker_exchange = [worker_row]" "ex_record_floor worker_exchange = None" "ex_record_base worker_exchange = None"
    "mr_capabilities (ex_from worker_exchange) = [''store/1'']"
    by (simp_all add: worker_exchange_def empty_exchange_def inc_def)
  let ?ex = "from_worker sw no_tables ''A'' ?g worker_exchange"
  have ex': "ex_records ?ex = [worker_row]" "ex_record_floor ?ex = None" "ex_record_base ?ex = None" "mr_capabilities (ex_from ?ex) = [''store/1'']"
    using row ex by (simp_all add: from_worker_def)
  have r: "restrict_incoming sw no_tables ''A'' (peer_access sample_crypto Some sw no_tables ''A'') worker_exchange = (True, ?ex)"
    by (simp add: restrict_incoming_def access ex(3) grant)
  have "merge_exchange_records False sample_crypto Some no_text 5 ''t'' no_tables ''A'' worker_exchange worker_swarm
      = (Some ?ex, sw\<lparr>sw_records := fst (merge_batch no_text sample_store 5 [worker_row])\<rparr>)"
    unfolding merge_exchange_records_def ex(1,2) Let_def fleet r lf
    using ex' by (simp add: keep_for_leaf_def take_floor_def take_base_def sw(6))
  with merged sw(1-3) show ?thesis by (simp add: worker_swarm_def sample_store_def)
qed

theorem worker_confined_witness:
  "\<exists>out sw row. merge_exchange_records False sample_crypto Some no_text 5 ''t'' no_tables ''A'' worker_exchange worker_swarm = (out, sw)
     \<and> current_row (rows_held sw) ''agent'' ''a'' ''entry'' = Some row \<and> rorigin row = ''A''
     \<and> names_primary ''A'' row"
proof -
  obtain out sw where m: "merge_exchange_records False sample_crypto Some no_text 5 ''t'' no_tables ''A'' worker_exchange worker_swarm = (out, sw)"
    "sw_roster sw = [sample_add ''S'' ''A'' WorkerRole 1]" "sw_self sw = ''S''" "sw_keys sw = Some (sample_keys ''S'')"
    "current_row (rows_held sw) ''agent'' ''a'' ''entry'' \<noteq> None" "rows_held worker_swarm = []"
    using worker_merged by blast
  have "current_row (rows_held sw) ''agent'' ''a'' ''entry'' \<noteq> current_row (rows_held worker_swarm) ''agent'' ''a'' ''entry''"
    using m(5,6) by (simp add: current_row_def)
  from worker_confined [OF m(1) worker_view [OF m(2-4)] _ this] m(1) show ?thesis
    by (auto simp: view_role_def audit_class_def directory_class_def thread_class_def entry_name_def)
qed

end
