(* ===== verification/Code_Diff.thy ===== *)
theory Code_Diff
  imports Framing Json "HOL-Library.Sublist"
begin

text \<open>
  The diff a user reviews before an agent's file changes are applied: the data and \<open>CodeDiff::validate\<close> of the
  crate \<open>code-diff\<close> (\<open>code-diff/src/lib.rs\<close>), and its producer \<open>compute_code_diff\<close> (\<open>core/src/code_diff.rs\<close>).

  A tree (\<open>BTreeMap<String, Vec<u8>>\<close>) is the list of its entries in the order of their paths. Line numbers and
  counts (\<open>u64\<close>, \<open>usize\<close>) are naturals: each is at most one more than the number of lines of a text in memory. The
  printing of a JSON value (\<open>serde_json::to_vec\<close>) and the new id of a diff are arguments.
\<close>

section \<open>Data\<close>

datatype diff_status = Added | Deleted | Modified | Renamed

datatype diff_line_kind = Context | Addition | Deletion

datatype diff_line_segment_kind = PlainSegment | AdditionSegment | DeletionSegment

record diff_line_segment =
  sg_kind :: diff_line_segment_kind
  sg_text :: string

record diff_line =
  ln_kind :: diff_line_kind
  old_line_number :: "nat option"
  new_line_number :: "nat option"
  ln_text :: string
  ln_segments :: "diff_line_segment list"

record diff_hunk =
  old_start :: nat
  old_count :: nat
  new_start :: nat
  new_count :: nat
  hk_header :: string
  hk_lines :: "diff_line list"

record diff_file =
  old_path :: "string option"
  new_path :: "string option"
  df_status :: diff_status
  old_mode :: "string option"
  new_mode :: "string option"
  df_binary :: bool
  df_hunks :: "diff_hunk list"

record code_diff =
  schema_version :: nat
  cd_id :: string
  cd_files :: "diff_file list"
  cd_truncated :: bool

datatype validation_error =
    UnsupportedSchemaVersion | AddedFilePathMismatch | DeletedFilePathMismatch | ModifiedFilePathMismatch
  | RenamedFilePathMismatch | RenamedFilePathsMatch | ModeWithoutPath | BinaryFileHasHunks
  | LineNumberOnMissingSide | HunkLineCountMismatch

section \<open>Validation\<close>

text \<open>The loop over the lines of a hunk, with its two counters.\<close>

fun count_lines :: "nat \<Rightarrow> nat \<Rightarrow> diff_line list \<Rightarrow> validation_error + nat \<times> nat" where
  "count_lines a b [] = Ok (a, b)"
| "count_lines a b (l # ls) =
     (case ln_kind l of
        Context \<Rightarrow> count_lines (a + 1) (b + 1) ls
      | Addition \<Rightarrow> if old_line_number l \<noteq> None then Err LineNumberOnMissingSide else count_lines a (b + 1) ls
      | Deletion \<Rightarrow> if new_line_number l \<noteq> None then Err LineNumberOnMissingSide else count_lines (a + 1) b ls)"

definition validate_hunk :: "diff_hunk \<Rightarrow> validation_error + unit" where
  "validate_hunk h =
     result_bind (count_lines 0 0 (hk_lines h)) (\<lambda>(a, b).
       if a \<noteq> old_count h \<or> b \<noteq> new_count h then Err HunkLineCountMismatch else Ok ())"

definition validate_paths :: "diff_file \<Rightarrow> validation_error + unit" where
  "validate_paths f =
     (case df_status f of
        Added \<Rightarrow> if old_path f \<noteq> None \<or> new_path f = None then Err AddedFilePathMismatch else Ok ()
      | Deleted \<Rightarrow> if old_path f = None \<or> new_path f \<noteq> None then Err DeletedFilePathMismatch else Ok ()
      | Modified \<Rightarrow> if old_path f = None \<or> new_path f = None then Err ModifiedFilePathMismatch else Ok ()
      | Renamed \<Rightarrow> if old_path f = None \<or> new_path f = None then Err RenamedFilePathMismatch
                   else if old_path f = new_path f then Err RenamedFilePathsMatch else Ok ())"

fun each_valid :: "('a \<Rightarrow> 'e + unit) \<Rightarrow> 'a list \<Rightarrow> 'e + unit" where
  "each_valid f [] = Ok ()"
| "each_valid f (x # xs) = result_bind (f x) (\<lambda>_. each_valid f xs)"

definition validate_file :: "diff_file \<Rightarrow> validation_error + unit" where
  "validate_file f =
     result_bind (validate_paths f) (\<lambda>_.
       if (old_path f = None \<and> old_mode f \<noteq> None) \<or> (new_path f = None \<and> new_mode f \<noteq> None) then Err ModeWithoutPath
       else if df_binary f \<and> df_hunks f \<noteq> [] then Err BinaryFileHasHunks
       else each_valid validate_hunk (df_hunks f))"

definition validate_diff :: "code_diff \<Rightarrow> validation_error + unit" where
  "validate_diff d =
     (if schema_version d \<noteq> 1 then Err UnsupportedSchemaVersion else each_valid validate_file (cd_files d))"

section \<open>Canonical bytes\<close>

text \<open>The derived \<open>Serialize\<close>: camel case names in declaration order, absent optional fields left out.\<close>

definition opt_field :: "string \<Rightarrow> string option \<Rightarrow> (string \<times> json) list" where
  "opt_field name v = (case v of None \<Rightarrow> [] | Some s \<Rightarrow> [(name, JString s)])"

definition number :: "nat \<Rightarrow> json" where
  "number n = JNumber (dec_str n)"

definition opt_number :: "string \<Rightarrow> nat option \<Rightarrow> (string \<times> json) list" where
  "opt_number name v = (case v of None \<Rightarrow> [] | Some n \<Rightarrow> [(name, number n)])"

fun status_name :: "diff_status \<Rightarrow> string" where
  "status_name Added = ''added''"
| "status_name Deleted = ''deleted''"
| "status_name Modified = ''modified''"
| "status_name Renamed = ''renamed''"

fun line_kind_name :: "diff_line_kind \<Rightarrow> string" where
  "line_kind_name Context = ''context''"
| "line_kind_name Addition = ''addition''"
| "line_kind_name Deletion = ''deletion''"

fun segment_kind_name :: "diff_line_segment_kind \<Rightarrow> string" where
  "segment_kind_name PlainSegment = ''plain''"
| "segment_kind_name AdditionSegment = ''addition''"
| "segment_kind_name DeletionSegment = ''deletion''"

definition segment_value :: "diff_line_segment \<Rightarrow> json" where
  "segment_value s = JObject [(''kind'', JString (segment_kind_name (sg_kind s))), (''text'', JString (sg_text s))]"

definition line_value :: "diff_line \<Rightarrow> json" where
  "line_value l = JObject ([(''kind'', JString (line_kind_name (ln_kind l)))]
     @ opt_number ''oldLineNumber'' (old_line_number l) @ opt_number ''newLineNumber'' (new_line_number l)
     @ [(''text'', JString (ln_text l)), (''segments'', JArray (map segment_value (ln_segments l)))])"

definition hunk_value :: "diff_hunk \<Rightarrow> json" where
  "hunk_value h = JObject [(''oldStart'', number (old_start h)), (''oldCount'', number (old_count h)),
     (''newStart'', number (new_start h)), (''newCount'', number (new_count h)),
     (''header'', JString (hk_header h)), (''lines'', JArray (map line_value (hk_lines h)))]"

definition file_value :: "diff_file \<Rightarrow> json" where
  "file_value f = JObject (opt_field ''oldPath'' (old_path f) @ opt_field ''newPath'' (new_path f)
     @ [(''status'', JString (status_name (df_status f)))]
     @ opt_field ''oldMode'' (old_mode f) @ opt_field ''newMode'' (new_mode f)
     @ [(''binary'', JBool (df_binary f)), (''hunks'', JArray (map hunk_value (df_hunks f)))])"

definition diff_value :: "code_diff \<Rightarrow> json" where
  "diff_value d = JObject [(''schemaVersion'', number (schema_version d)), (''id'', JString (cd_id d)),
     (''files'', JArray (map file_value (cd_files d))), (''truncated'', JBool (cd_truncated d))]"

text \<open>\<open>sort_object_keys\<close>: the entries of every object in the order of their keys.\<close>

fun sort_object_keys :: "json \<Rightarrow> json" where
  "sort_object_keys (JArray vs) = JArray (map sort_object_keys vs)"
| "sort_object_keys (JObject kvs) = JObject (sort_key fst (map (\<lambda>(k, v). (k, sort_object_keys v)) kvs))"
| "sort_object_keys v = v"

definition canonical_bytes :: "(json \<Rightarrow> string) \<Rightarrow> code_diff \<Rightarrow> validation_error + string" where
  "canonical_bytes to_vec d =
     result_bind (validate_diff d) (\<lambda>_. Ok (to_vec (sort_object_keys (diff_value d))))"

section \<open>Lines and edits\<close>

record text_line =
  tl_text :: string
  tl_terminated :: bool

text \<open>\<open>split_inclusive('\n')\<close>.\<close>

fun split_inclusive :: "string \<Rightarrow> string list" where
  "split_inclusive [] = []"
| "split_inclusive (c # s) =
     (if c = CHR 0x0A then [c] # split_inclusive s
      else case split_inclusive s of [] \<Rightarrow> [[c]] | l # ls \<Rightarrow> (c # l) # ls)"

definition strip_last :: "char \<Rightarrow> string \<Rightarrow> string" where
  "strip_last c s = (if s \<noteq> [] \<and> last s = c then butlast s else s)"

definition read_line :: "string \<Rightarrow> text_line" where
  "read_line l =
     (let term = (l \<noteq> [] \<and> last l = CHR 0x0A); t = strip_last (CHR 0x0A) l
      in \<lparr>tl_text = if term then strip_last (CHR 0x0D) t else t, tl_terminated = term\<rparr>)"

definition text_lines :: "string \<Rightarrow> text_line list" where
  "text_lines s = map read_line (split_inclusive s)"

datatype edit = EContext (edit_line: text_line) | EAddition (edit_line: text_line) | EDeletion (edit_line: text_line)

text \<open>\<open>lengths\<close>: the table of \<open>edit_script\<close>, filled from its last row and each row from its last column.\<close>

fun lengths_row :: "text_line \<Rightarrow> text_line list \<Rightarrow> nat list \<Rightarrow> nat list" where
  "lengths_row x [] below = [0]"
| "lengths_row x (y # ys) below =
     (let row = lengths_row x ys (tl below)
      in (if x = y then below ! 1 + 1 else max (below ! 0) (row ! 0)) # row)"

fun lengths :: "text_line list \<Rightarrow> text_line list \<Rightarrow> nat list list" where
  "lengths [] new = [replicate (length new + 1) 0]"
| "lengths (x # xs) new = (let t = lengths xs new in lengths_row x new (t ! 0) # t)"

text \<open>The walk over the table; neither index passes the end of its list, so \<open>old_index == old.len()\<close> is written \<open>\<ge>\<close>.\<close>

function script_from :: "nat list list \<Rightarrow> text_line list \<Rightarrow> text_line list \<Rightarrow> nat \<Rightarrow> nat \<Rightarrow> edit list" where
  "script_from tab old new i j =
     (if i < length old \<or> j < length new then
        if i < length old \<and> j < length new \<and> old ! i = new ! j then EContext (old ! i) # script_from tab old new (i + 1) (j + 1)
        else if j < length new \<and> (i \<ge> length old \<or> tab ! i ! (j + 1) > tab ! (i + 1) ! j)
        then EAddition (new ! j) # script_from tab old new i (j + 1)
        else EDeletion (old ! i) # script_from tab old new (i + 1) j
      else [])"
  by pat_completeness auto

termination
  by (relation "measure (\<lambda>(tab, old, new, i, j). (length old - i) + (length new - j))") auto

declare script_from.simps [simp del]

definition edit_script :: "text_line list \<Rightarrow> text_line list \<Rightarrow> edit list" where
  "edit_script old new = script_from (lengths old new) old new 0 0"

section \<open>Hunks\<close>

definition context_lines :: nat where [limits]: "context_lines = 3"
definition max_changed_files :: nat where [limits]: "max_changed_files = 200"
definition max_rendered_lines :: nat where [limits]: "max_rendered_lines = 20000"
definition max_canonical_bytes :: nat where [limits]: "max_canonical_bytes = 2 * 1024 * 1024"

fun is_context :: "edit \<Rightarrow> bool" where
  "is_context (EContext _) = True" | "is_context _ = False"

fun is_addition :: "edit \<Rightarrow> bool" where
  "is_addition (EAddition _) = True" | "is_addition _ = False"

fun is_deletion :: "edit \<Rightarrow> bool" where
  "is_deletion (EDeletion _) = True" | "is_deletion _ = False"

text \<open>The loops of \<open>context_before\<close> and \<open>context_after\<close>, with the context lines still to pass.\<close>

fun context_before :: "edit list \<Rightarrow> nat \<Rightarrow> nat \<Rightarrow> nat" where
  "context_before es ctx 0 = 0"
| "context_before es ctx (Suc start) =
     (if ctx < context_lines then context_before es (if is_context (es ! start) then ctx + 1 else ctx) start
      else Suc start)"

function context_after :: "edit list \<Rightarrow> nat \<Rightarrow> nat \<Rightarrow> nat" where
  "context_after es ctx end =
     (if end < length es \<and> ctx < context_lines
      then context_after es (if is_context (es ! end) then ctx + 1 else ctx) (end + 1) else end)"
  by pat_completeness auto

termination
  by (relation "measure (\<lambda>(es, ctx, end). length es - end)") auto

declare context_after.simps [simp del]

text \<open>The ranges of a hunk, the last one first while the loop runs.\<close>

fun merge_ranges :: "edit list \<Rightarrow> (nat \<times> nat) list \<Rightarrow> nat list \<Rightarrow> (nat \<times> nat) list" where
  "merge_ranges es rs [] = rev rs"
| "merge_ranges es rs (change # changes) =
     (let start = context_before es 0 change; end = context_after es 0 (change + 1)
      in case rs of
           (ps, pe) # rest \<Rightarrow> if start \<le> pe then merge_ranges es ((ps, max pe end) # rest) changes
                              else merge_ranges es ((start, end) # rs) changes
         | [] \<Rightarrow> merge_ranges es [(start, end)] changes)"

fun line_positions :: "nat \<Rightarrow> nat \<Rightarrow> edit list \<Rightarrow> (nat \<times> nat) list" where
  "line_positions a b [] = []"
| "line_positions a b (e # es) =
     (a, b) # (case e of EContext _ \<Rightarrow> line_positions (a + 1) (b + 1) es
                       | EAddition _ \<Rightarrow> line_positions a (b + 1) es
                       | EDeletion _ \<Rightarrow> line_positions (a + 1) b es)"

definition plain_line :: "diff_line_kind \<Rightarrow> nat option \<Rightarrow> nat option \<Rightarrow> string \<Rightarrow> diff_line" where
  "plain_line k a b t = \<lparr>ln_kind = k, old_line_number = a, new_line_number = b, ln_text = t,
     ln_segments = [\<lparr>sg_kind = PlainSegment, sg_text = t\<rparr>]\<rparr>"

fun number_lines :: "nat \<Rightarrow> nat \<Rightarrow> edit list \<Rightarrow> diff_line list" where
  "number_lines a b [] = []"
| "number_lines a b (EContext l # es) = plain_line Context (Some a) (Some b) (tl_text l) # number_lines (a + 1) (b + 1) es"
| "number_lines a b (EAddition l # es) = plain_line Addition None (Some b) (tl_text l) # number_lines a (b + 1) es"
| "number_lines a b (EDeletion l # es) = plain_line Deletion (Some a) None (tl_text l) # number_lines (a + 1) b es"

section \<open>Changed words\<close>

text \<open>\<open>word_spans\<close>: the byte ranges of the words of a text, over its characters.\<close>

fun spans_from :: "nat \<Rightarrow> nat option \<Rightarrow> string list \<Rightarrow> (nat \<times> nat) list" where
  "spans_from i None [] = []"
| "spans_from i (Some b) [] = [(b, i)]"
| "spans_from i start (c # cs) =
     (if is_whitespace c
      then (case start of None \<Rightarrow> spans_from (i + length c) None cs
                        | Some b \<Rightarrow> (b, i) # spans_from (i + length c) None cs)
      else spans_from (i + length c) (Some (case start of None \<Rightarrow> i | Some b \<Rightarrow> b)) cs)"

definition word_spans :: "string \<Rightarrow> (nat \<times> nat) list" where
  "word_spans t = spans_from 0 None (utf8_chars t)"

definition sub_list :: "nat \<Rightarrow> nat \<Rightarrow> 'a list \<Rightarrow> 'a list" where
  "sub_list a b t = take (b - a) (drop a t)"

definition word_at :: "string \<Rightarrow> (nat \<times> nat) \<Rightarrow> string" where
  "word_at t w = sub_list (fst w) (snd w) t"

fun common_prefix :: "string list \<Rightarrow> string list \<Rightarrow> nat" where
  "common_prefix (x # xs) (y # ys) = (if x = y then 1 + common_prefix xs ys else 0)"
| "common_prefix _ _ = 0"

definition line_segments :: "string \<Rightarrow> (nat \<times> nat) list \<Rightarrow> nat \<Rightarrow> nat \<Rightarrow> diff_line_segment_kind \<Rightarrow> diff_line_segment list" where
  "line_segments t ws leading trailing kind =
     (if leading + trailing = length ws then [\<lparr>sg_kind = PlainSegment, sg_text = t\<rparr>]
      else let a = (if leading < length ws then fst (ws ! leading) else length t);
               m = length ws - (trailing + 1);
               b = (if m < length ws then snd (ws ! m) else a)
           in filter (\<lambda>s. sg_text s \<noteq> [])
                [\<lparr>sg_kind = PlainSegment, sg_text = take a t\<rparr>, \<lparr>sg_kind = kind, sg_text = sub_list a b t\<rparr>,
                 \<lparr>sg_kind = PlainSegment, sg_text = drop b t\<rparr>])"

definition changed_word_segments ::
    "string \<Rightarrow> string \<Rightarrow> (diff_line_segment list \<times> diff_line_segment list) option" where
  "changed_word_segments deletion addition =
     (let dw = word_spans deletion; aw = word_spans addition;
          ds = map (word_at deletion) dw; as = map (word_at addition) aw;
          leading = common_prefix ds as;
          trailing = common_prefix (rev (drop leading ds)) (rev (drop leading as))
      in if leading = length ds \<and> leading = length as then None
         else if leading = 0 \<and> trailing = 0 then None
         else Some (line_segments deletion dw leading trailing DeletionSegment,
                    line_segments addition aw leading trailing AdditionSegment))"

fun pair_segments :: "diff_line list \<Rightarrow> diff_line list \<Rightarrow> diff_line list \<times> diff_line list" where
  "pair_segments (d # ds) (a # as) =
     (let (ds', as') = pair_segments ds as
      in case changed_word_segments (ln_text d) (ln_text a) of
           Some (sd, sa) \<Rightarrow> (d\<lparr>ln_segments := sd\<rparr> # ds', a\<lparr>ln_segments := sa\<rparr> # as')
         | None \<Rightarrow> (d # ds', a # as'))"
| "pair_segments ds as = (ds, as)"

text \<open>Each run of deletions is paired with the run of additions right after it.\<close>

function add_intra_line_segments :: "diff_line list \<Rightarrow> diff_line list" where
  "add_intra_line_segments [] = []"
| "add_intra_line_segments (l # ls) =
     (if ln_kind l \<noteq> Deletion then l # add_intra_line_segments ls
      else let ds = l # takeWhile (\<lambda>l. ln_kind l = Deletion) ls; rest = dropWhile (\<lambda>l. ln_kind l = Deletion) ls;
               as = takeWhile (\<lambda>l. ln_kind l = Addition) rest; rest' = dropWhile (\<lambda>l. ln_kind l = Addition) rest;
               (ds', as') = pair_segments ds as
           in ds' @ as' @ add_intra_line_segments rest')"
  by pat_completeness auto

termination
proof (relation "measure length", goal_cases)
  case (3 l ls ds rest as rest' p ds' as')
  then show ?case by (auto intro: le_trans [OF length_dropWhile_le] simp: less_Suc_eq_le)
qed auto

definition at_start :: "nat \<Rightarrow> nat \<Rightarrow> nat" where
  "at_start count position = (if count = 0 then position - 1 else position)"

definition make_hunk :: "edit list \<Rightarrow> nat \<times> nat \<Rightarrow> diff_hunk" where
  "make_hunk es position =
     (let oc = length (filter (\<lambda>e. \<not> is_addition e) es); nc = length (filter (\<lambda>e. \<not> is_deletion e) es);
          os = at_start oc (fst position); ns = at_start nc (snd position)
      in \<lparr>old_start = os, old_count = oc, new_start = ns, new_count = nc,
          hk_header = ''@@ -'' @ dec_str os @ '','' @ dec_str oc @ '' +'' @ dec_str ns @ '','' @ dec_str nc @ '' @@'',
          hk_lines = add_intra_line_segments (number_lines (fst position) (snd position) es)\<rparr>)"

definition change_indices :: "edit list \<Rightarrow> nat list" where
  "change_indices es = filter (\<lambda>i. \<not> is_context (es ! i)) [0..<length es]"

definition text_hunks :: "string \<Rightarrow> string \<Rightarrow> diff_hunk list" where
  "text_hunks old new =
     (let es = edit_script (text_lines old) (text_lines new); changes = change_indices es
      in if changes = [] then []
         else let positions = line_positions 1 1 es
              in map (\<lambda>(start, end). make_hunk (sub_list start end es) (positions ! start)) (merge_ranges es [] changes))"

section \<open>Trees\<close>

type_synonym tree = "(string \<times> string) list"

definition is_binary :: "string \<Rightarrow> bool" where
  "is_binary bytes \<longleftrightarrow> CHR 0x00 \<in> set bytes \<or> \<not> valid_utf8 bytes"

text \<open>A deleted path is paired with the first added path not yet paired that holds the same bytes.\<close>

fun pair_renames :: "tree \<Rightarrow> tree \<Rightarrow> string list \<Rightarrow> string list \<Rightarrow> string list \<Rightarrow> (string \<times> string) list" where
  "pair_renames current staged added paired [] = []"
| "pair_renames current staged added paired (d # ds) =
     (case find (\<lambda>n. n \<notin> set paired \<and> map_of current d = map_of staged n) added of
        Some n \<Rightarrow> (d, n) # pair_renames current staged added (n # paired) ds
      | None \<Rightarrow> pair_renames current staged added paired ds)"

type_synonym change = "string option \<times> string option \<times> diff_status"

text \<open>\<open>BTreeMap::insert\<close>: entries stay in the order of their keys, an entry of the same key is replaced.\<close>

fun tree_insert :: "string \<Rightarrow> 'v \<Rightarrow> (string \<times> 'v) list \<Rightarrow> (string \<times> 'v) list" where
  "tree_insert k v [] = [(k, v)]"
| "tree_insert k v ((k', v') # m) =
     (if k < k' then (k, v) # (k', v') # m else if k = k' then (k, v) # m else (k', v') # tree_insert k v m)"

definition tree_change :: "tree \<Rightarrow> tree \<Rightarrow> (string \<times> string) list \<Rightarrow> string \<Rightarrow> (string \<times> change) option" where
  "tree_change current staged renamed p =
     (let old = map_of current p; new = map_of staged p
      in if old = new \<or> p \<in> set (map snd renamed) then None
         else case map_of renamed p of
                Some n \<Rightarrow> Some (n, (Some p, Some n, Renamed))
              | None \<Rightarrow> Some (p, case (old, new) of
                                    (None, _) \<Rightarrow> (None, Some p, Added)
                                  | (Some _, None) \<Rightarrow> (Some p, None, Deleted)
                                  | (Some _, Some _) \<Rightarrow> (Some p, Some p, Modified)))"

definition tree_changes :: "tree \<Rightarrow> tree \<Rightarrow> (string \<times> change) list" where
  "tree_changes current staged =
     (let paths = sort (remdups (map fst current @ map fst staged));
          deleted = filter (\<lambda>p. p \<notin> set (map fst staged)) (map fst current);
          added = filter (\<lambda>p. p \<notin> set (map fst current)) (map fst staged);
          renamed = pair_renames current staged added [] deleted
      in foldl (\<lambda>m p. case tree_change current staged renamed p of None \<Rightarrow> m | Some (k, c) \<Rightarrow> tree_insert k c m) [] paths)"

text \<open>The hunks that still fit, the lines rendered, and whether one was left out.\<close>

fun fit_hunks :: "nat \<Rightarrow> diff_hunk list \<Rightarrow> diff_hunk list \<times> nat \<times> bool" where
  "fit_hunks n [] = ([], n, False)"
| "fit_hunks n (h # hs) =
     (let m = n + length (hk_lines h)
      in if m > max_rendered_lines then ([], n, True)
         else let (gs, k, t) = fit_hunks m hs in (h # gs, k, t))"

definition opt_bytes :: "string option \<Rightarrow> string" where
  "opt_bytes b = (case b of None \<Rightarrow> [] | Some s \<Rightarrow> s)"

definition change_file :: "tree \<Rightarrow> tree \<Rightarrow> change \<Rightarrow> diff_file" where
  "change_file current staged c =
     (case c of (op, np, status) \<Rightarrow>
        let old = (case op of None \<Rightarrow> None | Some p \<Rightarrow> map_of current p);
            new = (case np of None \<Rightarrow> None | Some p \<Rightarrow> map_of staged p);
            binary = (is_binary (opt_bytes old) \<or> is_binary (opt_bytes new))
        in \<lparr>old_path = op, new_path = np, df_status = status, old_mode = None, new_mode = None, df_binary = binary,
            df_hunks = if binary \<or> status = Renamed then [] else text_hunks (opt_bytes old) (opt_bytes new)\<rparr>)"

fun render_files :: "tree \<Rightarrow> tree \<Rightarrow> nat \<Rightarrow> change list \<Rightarrow> diff_file list \<times> bool" where
  "render_files current staged n [] = ([], False)"
| "render_files current staged n (c # cs) =
     (let f = change_file current staged c; (hs, m, cut) = fit_hunks n (df_hunks f); f' = f\<lparr>df_hunks := hs\<rparr>
      in if cut then ([f'], True)
         else let (fs, t) = render_files current staged m cs in (f' # fs, t))"

text \<open>\<open>truncate_to_canonical_byte_limit\<close>: the last hunk goes, or the last file when it has none. \<open>canonical_bytes\<close> of
  an invalid diff would panic; \<open>None\<close>.\<close>

definition drop_last_hunk :: "diff_file list \<Rightarrow> diff_file list" where
  "drop_last_hunk fs =
     (if df_hunks (last fs) = [] then butlast fs
      else butlast fs @ [(last fs)\<lparr>df_hunks := butlast (df_hunks (last fs))\<rparr>])"

definition file_weight :: "diff_file list \<Rightarrow> nat" where
  "file_weight fs = sum_list (map (\<lambda>f. 1 + length (df_hunks f)) fs)"

lemma file_weight_drop: "fs \<noteq> [] \<Longrightarrow> file_weight (drop_last_hunk fs) < file_weight fs"
  by (cases fs rule: rev_cases) (auto simp: file_weight_def drop_last_hunk_def)

function shrink_diff :: "(json \<Rightarrow> string) \<Rightarrow> code_diff \<Rightarrow> code_diff option" where
  "shrink_diff to_vec d =
     (case canonical_bytes to_vec d of
        Inl e \<Rightarrow> None
      | Inr bytes \<Rightarrow>
          if length bytes > max_canonical_bytes \<and> cd_files d \<noteq> []
          then shrink_diff to_vec (d\<lparr>cd_files := drop_last_hunk (cd_files d)\<rparr>)
          else Some d)"
  by pat_completeness auto

termination
  by (relation "measure (\<lambda>(to_vec, d). file_weight (cd_files d))") (auto simp: file_weight_drop)

declare shrink_diff.simps [simp del]

definition truncate_to_canonical_byte_limit :: "(json \<Rightarrow> string) \<Rightarrow> code_diff \<Rightarrow> code_diff option" where
  "truncate_to_canonical_byte_limit to_vec d =
     (case canonical_bytes to_vec d of
        Inl e \<Rightarrow> None
      | Inr bytes \<Rightarrow> if length bytes \<le> max_canonical_bytes then Some d else shrink_diff to_vec (d\<lparr>cd_truncated := True\<rparr>))"

datatype compute_error = TooManyChangedFiles

text \<open>\<open>None\<close> is a panic of \<open>expect\<close>.\<close>

definition compute_code_diff :: "(json \<Rightarrow> string) \<Rightarrow> string \<Rightarrow> tree \<Rightarrow> tree \<Rightarrow> (compute_error + code_diff) option" where
  "compute_code_diff to_vec new_id current staged =
     (let changes = tree_changes current staged
      in if length changes > max_changed_files then Some (Err TooManyChangedFiles)
         else let (files, truncated) = render_files current staged 0 (map snd changes)
              in map_option Ok (truncate_to_canonical_byte_limit to_vec
                   \<lparr>schema_version = 1, cd_id = new_id, cd_files = files, cd_truncated = truncated\<rparr>))"

end
