(* ===== verification/Write_Plan.thy ===== *)
theory Write_Plan
  imports Code_Diff Unix_Path
begin

text \<open>
  Write plans (\<open>write_plan.rs\<close>) and the staging of proposed operations (\<open>code_diff_staging.rs\<close>): what a proposal may
  contain, what a plan may contain, and the tree the operations make of the current one. JSON printing and reading
  and SHA-256 are arguments; output lengths are naturals, far below the range of \<open>usize\<close> where they are added.
\<close>

unbundle bit_operations_syntax

section \<open>Plans\<close>

record stable_identity =
  volume :: u64
  file_index :: "128 word"

datatype observed_state =
    Absent
  | ObservedFile (byte_length: u64) (observed_sha: string) (observed_mode: u32) (observed_identity: stable_identity)

record observed_path =
  op_path :: string
  op_state :: observed_state
  parent_identity :: stable_identity

datatype write_operation =
    WriteOp observed_path string u32
  | RenameOp observed_path observed_path
  | DeleteOp observed_path

datatype write_plan_error =
    TooManyOperations | OperationOutputTooLarge | PlanOutputTooLarge | EmptyPath | InvalidMode | InvalidObservedState
  | ConflictingPath string | HashMismatch | NonCanonicalEncoding | PlanJson

definition max_operations :: nat where [limits]: "max_operations = 400"
definition max_operation_output_bytes :: nat where [limits]: "max_operation_output_bytes = 8 * 1024 * 1024"
definition max_plan_output_bytes :: nat where [limits]: "max_plan_output_bytes = 64 * 1024 * 1024"

fun output_len :: "write_operation \<Rightarrow> nat" where
  "output_len (WriteOp _ output _) = length output"
| "output_len _ = 0"

fun op_targets :: "write_operation \<Rightarrow> observed_path list" where
  "op_targets (WriteOp target _ _) = [target]"
| "op_targets (RenameOp source target) = [source, target]"
| "op_targets (DeleteOp target) = [target]"

definition op_paths :: "write_operation \<Rightarrow> string list" where
  "op_paths op = map op_path (op_targets op)"

fun state_mode :: "observed_path \<Rightarrow> u32 list" where
  "state_mode p = (case op_state p of Absent \<Rightarrow> [] | ObservedFile _ _ mode _ \<Rightarrow> [mode])"

fun op_modes :: "write_operation \<Rightarrow> u32 list" where
  "op_modes (WriteOp target _ mode) = mode # state_mode target"
| "op_modes (RenameOp source target) = state_mode source @ state_mode target"
| "op_modes (DeleteOp target) = state_mode target"

fun has_valid_observed_states :: "write_operation \<Rightarrow> bool" where
  "has_valid_observed_states (WriteOp _ _ _) = True"
| "has_valid_observed_states (RenameOp source target) \<longleftrightarrow> op_state source \<noteq> Absent \<and> op_state target = Absent"
| "has_valid_observed_states (DeleteOp target) \<longleftrightarrow> op_state target \<noteq> Absent"

text \<open>The inner loop over the paths of an operation, with the paths seen.\<close>

fun plan_paths :: "string list \<Rightarrow> string list \<Rightarrow> write_plan_error + string list" where
  "plan_paths seen [] = Ok seen"
| "plan_paths seen (p # ps) =
     (if p = [] then Err EmptyPath else if p \<in> set seen then Err (ConflictingPath p) else plan_paths (p # seen) ps)"

fun validate_plan_from :: "string list \<Rightarrow> nat \<Rightarrow> write_operation list \<Rightarrow> write_plan_error + unit" where
  "validate_plan_from seen tot [] = Ok ()"
| "validate_plan_from seen tot (op # ops) =
     (if output_len op > max_operation_output_bytes then Err OperationOutputTooLarge
      else if tot + output_len op > max_plan_output_bytes then Err PlanOutputTooLarge
      else if list_ex (\<lambda>mode. mode AND NOT 0xFFF \<noteq> 0) (op_modes op) then Err InvalidMode
      else if \<not> has_valid_observed_states op then Err InvalidObservedState
      else result_bind (plan_paths seen (op_paths op)) (\<lambda>seen'. validate_plan_from seen' (tot + output_len op) ops))"

definition validate_plan :: "write_operation list \<Rightarrow> write_plan_error + unit" where
  "validate_plan ops = (if length ops > max_operations then Err TooManyOperations else validate_plan_from [] 0 ops)"

definition new_plan :: "write_operation list \<Rightarrow> write_plan_error + write_operation list" where
  "new_plan ops = result_bind (validate_plan ops) (\<lambda>_. Ok ops)"

definition encode_plan :: "(write_operation list \<Rightarrow> string) \<Rightarrow> write_operation list \<Rightarrow> write_plan_error + string" where
  "encode_plan to_vec ops = result_bind (validate_plan ops) (\<lambda>_. Ok (to_vec ops))"

definition decode_verified ::
    "(write_operation list \<Rightarrow> string) \<Rightarrow> (string \<Rightarrow> write_operation list option) \<Rightarrow> (string \<Rightarrow> string)
      \<Rightarrow> string \<Rightarrow> string \<Rightarrow> write_plan_error + write_operation list" where
  "decode_verified to_vec from_slice sha256 bytes expected =
     (if sha256 bytes \<noteq> expected then Err HashMismatch
      else case from_slice bytes of
             None \<Rightarrow> Err PlanJson
           | Some ops \<Rightarrow>
               result_bind (validate_plan ops) (\<lambda>_.
                 result_bind (encode_plan to_vec ops) (\<lambda>encoded.
                   if encoded \<noteq> bytes then Err NonCanonicalEncoding else Ok ops)))"

section \<open>Paths of a proposal\<close>

datatype stage_error =
    StageTooManyOperations nat | StageOutputTooLarge string | TotalOutputTooLarge string | StageEmptyPath string
  | AbsolutePath string | EmptyPathComponent string | CurrentPathComponent string | ParentPathComponent string
  | BackslashInPath string | NulInPath string | ColonInPath string | ReservedDeviceName string
  | TrailingDotOrSpace string | StageConflictingPath string | RenameSourceMissing string | RenameTargetExists string
  | DeleteTargetMissing string

definition ascii_upper :: "char \<Rightarrow> char" where
  "ascii_upper c = (let n = of_char c :: nat in if 97 \<le> n \<and> n \<le> 122 then char_of (n - 32) else c)"

text \<open>\<open>component.split('.').next()\<close> without its trailing spaces.\<close>

definition device_stem :: "string \<Rightarrow> string" where
  "device_stem component = rev (dropWhile (\<lambda>c. c = CHR '' '') (rev (takeWhile (\<lambda>c. c \<noteq> CHR ''.'') component)))"

definition is_device_digit :: "string \<Rightarrow> bool" where
  "is_device_digit d \<longleftrightarrow> d \<in> set [''0'', ''1'', ''2'', ''3'', ''4'', ''5'', ''6'', ''7'', ''8'', ''9'',
     [CHR 0xC2, CHR 0xB9], [CHR 0xC2, CHR 0xB2], [CHR 0xC2, CHR 0xB3]]"

definition is_windows_reserved_name :: "string \<Rightarrow> bool" where
  "is_windows_reserved_name component \<longleftrightarrow>
     (let upper = map ascii_upper (device_stem component)
      in upper \<in> set [''CON'', ''PRN'', ''AUX'', ''NUL'']
         \<or> list_ex (\<lambda>device. case strip_prefix device upper of None \<Rightarrow> False | Some d \<Rightarrow> is_device_digit d) [''COM'', ''LPT''])"

definition path_parts :: "string \<Rightarrow> string list" where
  "path_parts path = split_at {CHR ''/''} path"

definition validate_path :: "string \<Rightarrow> stage_error + unit" where
  "validate_path path =
     (if path = [] then Err (StageEmptyPath path)
      else if path ! 0 = CHR ''/'' \<or> (length path \<ge> 2 \<and> is_ascii_alpha (path ! 0) \<and> path ! 1 = CHR '':'')
      then Err (AbsolutePath path)
      else if CHR 0x5C \<in> set path then Err (BackslashInPath path)
      else if CHR 0x00 \<in> set path then Err (NulInPath path)
      else if [] \<in> set (path_parts path) then Err (EmptyPathComponent path)
      else if ''.'' \<in> set (path_parts path) then Err (CurrentPathComponent path)
      else if ''..'' \<in> set (path_parts path) then Err (ParentPathComponent path)
      else if list_ex (\<lambda>part. CHR '':'' \<in> set part) (path_parts path) then Err (ColonInPath path)
      else if list_ex is_windows_reserved_name (path_parts path) then Err (ReservedDeviceName path)
      else if list_ex (\<lambda>part. part \<noteq> [] \<and> (last part = CHR ''.'' \<or> last part = CHR '' '')) (path_parts path)
      then Err (TrailingDotOrSpace path)
      else Ok ())"

section \<open>Staging\<close>

datatype proposed_operation =
    ProposedWrite string string
  | ProposedRename string string
  | ProposedDelete string

fun proposed_paths :: "proposed_operation \<Rightarrow> string list" where
  "proposed_paths (ProposedWrite path _) = [path]"
| "proposed_paths (ProposedRename source target) = [source, target]"
| "proposed_paths (ProposedDelete path) = [path]"

definition checked_output_total :: "nat \<Rightarrow> string \<Rightarrow> nat \<Rightarrow> stage_error + nat" where
  "checked_output_total tot path len =
     (if len > max_operation_output_bytes then Err (StageOutputTooLarge path)
      else if tot + len > max_plan_output_bytes then Err (TotalOutputTooLarge path)
      else Ok (tot + len))"

fun stage_paths :: "string list \<Rightarrow> string list \<Rightarrow> stage_error + string list" where
  "stage_paths seen [] = Ok seen"
| "stage_paths seen (p # ps) =
     result_bind (validate_path p) (\<lambda>_.
       if p \<in> set seen then Err (StageConflictingPath p) else stage_paths (p # seen) ps)"

fun validate_operations_from :: "string list \<Rightarrow> nat \<Rightarrow> proposed_operation list \<Rightarrow> stage_error + unit" where
  "validate_operations_from seen tot [] = Ok ()"
| "validate_operations_from seen tot (op # ops) =
     result_bind (stage_paths seen (proposed_paths op)) (\<lambda>seen'.
       case op of
         ProposedWrite path output \<Rightarrow>
           result_bind (checked_output_total tot path (length output)) (\<lambda>tot'. validate_operations_from seen' tot' ops)
       | _ \<Rightarrow> validate_operations_from seen' tot ops)"

definition validate_operations :: "proposed_operation list \<Rightarrow> stage_error + unit" where
  "validate_operations ops =
     (if length ops > max_operations then Err (StageTooManyOperations (length ops)) else validate_operations_from [] 0 ops)"

definition tree_remove :: "string \<Rightarrow> (string \<times> 'v) list \<Rightarrow> (string \<times> 'v) list" where
  "tree_remove k m = filter (\<lambda>e. fst e \<noteq> k) m"

fun stage_operation :: "tree \<Rightarrow> proposed_operation \<Rightarrow> stage_error + tree" where
  "stage_operation staged (ProposedWrite path output) = Ok (tree_insert path output staged)"
| "stage_operation staged (ProposedRename source target) =
     (case map_of staged source of
        None \<Rightarrow> Err (RenameSourceMissing source)
      | Some output \<Rightarrow>
          let staged' = tree_remove source staged
          in if map_of staged' target \<noteq> None then Err (RenameTargetExists target)
             else Ok (tree_insert target output staged'))"
| "stage_operation staged (ProposedDelete path) =
     (if map_of staged path = None then Err (DeleteTargetMissing path) else Ok (tree_remove path staged))"

fun stage_all :: "tree \<Rightarrow> proposed_operation list \<Rightarrow> stage_error + tree" where
  "stage_all staged [] = Ok staged"
| "stage_all staged (op # ops) = result_bind (stage_operation staged op) (\<lambda>staged'. stage_all staged' ops)"

definition stage_proposed_operations :: "tree \<Rightarrow> proposed_operation list \<Rightarrow> stage_error + tree" where
  "stage_proposed_operations current ops = result_bind (validate_operations ops) (\<lambda>_. stage_all current ops)"

text \<open>The operations of a plan as \<open>compose_code_diff_proposal\<close> stages them (\<open>code_diff_journal.rs\<close>).\<close>

fun proposed_of :: "write_operation \<Rightarrow> proposed_operation" where
  "proposed_of (WriteOp target output _) = ProposedWrite (op_path target) output"
| "proposed_of (RenameOp source target) = ProposedRename (op_path source) (op_path target)"
| "proposed_of (DeleteOp target) = ProposedDelete (op_path target)"

end
