(* ===== verification/Plan_Apply.thy ===== *)
theory Plan_Apply
  imports Write_Plan
begin

text \<open>
  Observing a workspace (\<open>code_diff_observe.rs\<close>) and applying a verified plan to it (\<open>code_diff_apply.rs\<close>).

  The file system is its directories' entries. A directory handle (\<open>cap_std::fs::Dir\<close>) is the number of its
  directory, which keeps naming the same directory whatever happens to the paths that lead to it; the calls on a
  handle are those of \<open>std::fs\<close> relative to it, without following links. Which calls fail although the entries allow
  them, the random part of a temporary name and the identity of a new file are arguments (\<open>write_env\<close>).
\<close>

section \<open>The file system\<close>

record fs_file =
  file_bytes :: string
  file_len :: u64
  st_mode :: u32
  file_identity :: stable_identity

text \<open>\<open>DeniedEntry\<close> is an entry that cannot be opened.\<close>

datatype fs_entry = FileEntry fs_file | DirEntry nat | LinkEntry | OtherEntry | DeniedEntry

record fs =
  entries :: "nat \<Rightarrow> string \<Rightarrow> fs_entry option"
  directory_identity :: "nat \<Rightarrow> stable_identity"

definition set_entry :: "nat \<Rightarrow> string \<Rightarrow> fs_entry option \<Rightarrow> fs \<Rightarrow> fs" where
  "set_entry d n e f = f\<lparr>entries := (entries f)(d := (entries f d)(n := e))\<rparr>"

definition parent_names :: "string \<Rightarrow> string list" where
  "parent_names path = map component_str (butlast (components path))"

text \<open>\<open>Path::file_name\<close>, which a validated path has.\<close>

definition final_name :: "string \<Rightarrow> string" where
  "final_name path = (case file_name (components path) of Some n \<Rightarrow> n | None \<Rightarrow> [])"

section \<open>Observation\<close>

definition max_current_file_bytes :: u64 where [limits]: "max_current_file_bytes = 8 * 1024 * 1024"
definition max_current_total_bytes :: u64 where [limits]: "max_current_total_bytes = 64 * 1024 * 1024"
definition default_file_mode :: u32 where "default_file_mode = 0x1A4"

datatype observe_error =
    InvalidProposal stage_error | WorkspaceFailed | PathFailed string | Symlink string | NotAFile string
  | FileTooLarge string | TotalTooLarge string | ChangedDuringRead string | PlanFailed write_plan_error

definition classify_open_error :: "fs \<Rightarrow> nat \<Rightarrow> string \<Rightarrow> string \<Rightarrow> observe_error" where
  "classify_open_error f d name path = (if entries f d name = Some LinkEntry then Symlink path else PathFailed path)"

text \<open>\<open>open_dir_nofollow\<close> for each directory of the path.\<close>

fun open_parent :: "fs \<Rightarrow> string \<Rightarrow> nat \<Rightarrow> string list \<Rightarrow> observe_error + nat" where
  "open_parent f path d [] = Ok d"
| "open_parent f path d (name # names) =
     (case entries f d name of
        Some (DirEntry e) \<Rightarrow> open_parent f path e names
      | _ \<Rightarrow> Err (classify_open_error f d name path))"

definition file_mode :: "fs_file \<Rightarrow> u32" where
  "file_mode x = st_mode x AND 0xFFF"

type_synonym observation = "(observed_path \<times> nat) \<times> tree \<times> u64"

definition observe_file ::
    "(string \<Rightarrow> string) \<Rightarrow> fs \<Rightarrow> string \<Rightarrow> nat \<Rightarrow> fs_file \<Rightarrow> tree \<Rightarrow> u64 \<Rightarrow> observe_error + observation" where
  "observe_file sha256 f path parent x current tot =
     (if file_len x > max_current_file_bytes then Err (FileTooLarge path)
      else case checked_add tot (file_len x) of
             None \<Rightarrow> Err (TotalTooLarge path)
           | Some tot' \<Rightarrow>
               if tot' > max_current_total_bytes then Err (TotalTooLarge path)
               else let bytes = take (unat max_current_file_bytes + 1) (file_bytes x)
                    in if length bytes \<noteq> unat (file_len x) then Err (ChangedDuringRead path)
                       else Ok ((\<lparr>op_path = path,
                                   op_state = ObservedFile (file_len x) (sha256 bytes) (file_mode x) (file_identity x),
                                   parent_identity = directory_identity f parent\<rparr>, parent),
                                tree_insert path bytes current, tot'))"

definition observe_path_with_parent ::
    "(string \<Rightarrow> string) \<Rightarrow> fs \<Rightarrow> nat \<Rightarrow> string \<Rightarrow> tree \<Rightarrow> u64 \<Rightarrow> observe_error + observation" where
  "observe_path_with_parent sha256 f root path current tot =
     (case validate_path path of
        Inl e \<Rightarrow> Err (InvalidProposal e)
      | Inr _ \<Rightarrow>
          result_bind (open_parent f path root (parent_names path)) (\<lambda>parent.
            case entries f parent (final_name path) of
              None \<Rightarrow> Ok ((\<lparr>op_path = path, op_state = Absent, parent_identity = directory_identity f parent\<rparr>, parent), current, tot)
            | Some (FileEntry x) \<Rightarrow> observe_file sha256 f path parent x current tot
            | Some (DirEntry _) \<Rightarrow> Err (NotAFile path)
            | Some OtherEntry \<Rightarrow> Err (NotAFile path)
            | Some _ \<Rightarrow> Err (classify_open_error f parent (final_name path) path)))"

definition observe_path ::
    "(string \<Rightarrow> string) \<Rightarrow> fs \<Rightarrow> nat \<Rightarrow> string \<Rightarrow> tree \<Rightarrow> u64 \<Rightarrow> observe_error + observed_path \<times> tree \<times> u64" where
  "observe_path sha256 f root path current tot =
     result_bind (observe_path_with_parent sha256 f root path current tot) (\<lambda>((observed, _), rest). Ok (observed, rest))"

fun observe_operation ::
    "(string \<Rightarrow> string) \<Rightarrow> fs \<Rightarrow> nat \<Rightarrow> proposed_operation \<Rightarrow> tree \<Rightarrow> u64 \<Rightarrow> observe_error + write_operation \<times> tree \<times> u64" where
  "observe_operation sha256 f root (ProposedWrite path output) current tot =
     result_bind (observe_path sha256 f root path current tot) (\<lambda>(target, current', tot').
       Ok (WriteOp target output (case op_state target of ObservedFile _ _ mode _ \<Rightarrow> mode | Absent \<Rightarrow> default_file_mode),
           current', tot'))"
| "observe_operation sha256 f root (ProposedRename source target) current tot =
     result_bind (observe_path sha256 f root source current tot) (\<lambda>(s, current', tot').
       result_bind (observe_path sha256 f root target current' tot') (\<lambda>(t, rest). Ok (RenameOp s t, rest)))"
| "observe_operation sha256 f root (ProposedDelete path) current tot =
     result_bind (observe_path sha256 f root path current tot) (\<lambda>(t, rest). Ok (DeleteOp t, rest))"

fun observe_operations ::
    "(string \<Rightarrow> string) \<Rightarrow> fs \<Rightarrow> nat \<Rightarrow> proposed_operation list \<Rightarrow> tree \<Rightarrow> u64 \<Rightarrow> observe_error + write_operation list \<times> tree" where
  "observe_operations sha256 f root [] current tot = Ok ([], current)"
| "observe_operations sha256 f root (op # ops) current tot =
     result_bind (observe_operation sha256 f root op current tot) (\<lambda>(w, current', tot').
       result_bind (observe_operations sha256 f root ops current' tot') (\<lambda>(ws, current''). Ok (w # ws, current'')))"

text \<open>\<open>None\<close> for the root: the workspace cannot be opened.\<close>

definition observe_workspace_write_plan ::
    "(string \<Rightarrow> string) \<Rightarrow> fs \<Rightarrow> nat option \<Rightarrow> proposed_operation list \<Rightarrow> observe_error + write_operation list \<times> tree" where
  "observe_workspace_write_plan sha256 f root proposed =
     (case validate_operations proposed of
        Inl e \<Rightarrow> Err (InvalidProposal e)
      | Inr _ \<Rightarrow>
          (case root of
             None \<Rightarrow> Err WorkspaceFailed
           | Some r \<Rightarrow>
               result_bind (observe_operations sha256 f r proposed [] 0) (\<lambda>(ops, current).
                 case new_plan ops of Inl e \<Rightarrow> Err (PlanFailed e) | Inr plan \<Rightarrow> Ok (plan, current))))"

section \<open>Verification\<close>

datatype stale_dimension = Existence | ByteLength | Sha256 | Mode | Identity | ParentIdentity

datatype verify_error = Observation observe_error | Stale string stale_dimension

definition stale_state :: "observed_state \<Rightarrow> observed_state \<Rightarrow> stale_dimension option" where
  "stale_state expected observed =
     (case (expected, observed) of
        (Absent, Absent) \<Rightarrow> None
      | (ObservedFile el es em ei, ObservedFile l s m i) \<Rightarrow>
          if el \<noteq> l then Some ByteLength else if es \<noteq> s then Some Sha256 else if em \<noteq> m then Some Mode
          else if ei \<noteq> i then Some Identity else None
      | _ \<Rightarrow> Some Existence)"

definition compare_observed_path :: "observed_path \<Rightarrow> observed_path \<Rightarrow> verify_error + unit" where
  "compare_observed_path expected observed =
     (case (case stale_state (op_state expected) (op_state observed) of
              Some dim \<Rightarrow> Some dim
            | None \<Rightarrow> if parent_identity expected \<noteq> parent_identity observed then Some ParentIdentity else None) of
        Some dim \<Rightarrow> Err (Stale (op_path expected) dim)
      | None \<Rightarrow> Ok ())"

fun verify_paths ::
    "(string \<Rightarrow> string) \<Rightarrow> fs \<Rightarrow> nat \<Rightarrow> observed_path list \<Rightarrow> (string \<times> nat) list \<Rightarrow> tree \<Rightarrow> u64 \<Rightarrow> verify_error + (string \<times> nat) list" where
  "verify_paths sha256 f root [] parents current tot = Ok parents"
| "verify_paths sha256 f root (expected # ps) parents current tot =
     (case observe_path_with_parent sha256 f root (op_path expected) current tot of
        Inl e \<Rightarrow> Err (Observation e)
      | Inr ((observed, parent), current', tot') \<Rightarrow>
          result_bind (compare_observed_path expected observed) (\<lambda>_.
            verify_paths sha256 f root ps (tree_insert (op_path expected) parent parents) current' tot'))"

definition plan_targets :: "write_operation list \<Rightarrow> observed_path list" where
  "plan_targets plan = concat (map op_targets plan)"

definition verify_workspace_write_plan ::
    "(string \<Rightarrow> string) \<Rightarrow> fs \<Rightarrow> nat option \<Rightarrow> write_operation list \<Rightarrow> verify_error + (string \<times> nat) list" where
  "verify_workspace_write_plan sha256 f root plan =
     (case root of
        None \<Rightarrow> Err (Observation WorkspaceFailed)
      | Some r \<Rightarrow> verify_paths sha256 f r (plan_targets plan) [] [] 0)"

section \<open>Application\<close>

datatype apply_fault = NoFault | FailCreate | FailWrite | FailMode | FailSync | FailRename | FailRemove

record write_env =
  env_uuid :: string
  env_identity :: stable_identity
  env_fault :: apply_fault
  env_cleanup_fails :: bool

datatype apply_error = MissingParent string | ApplyPath string

fun require_all_parents :: "(string \<times> nat) list \<Rightarrow> string list \<Rightarrow> apply_error + unit" where
  "require_all_parents parents [] = Ok ()"
| "require_all_parents parents (p # ps) =
     (if map_of parents p = None then Err (MissingParent p) else require_all_parents parents ps)"

definition temporary_name :: "string \<Rightarrow> write_env \<Rightarrow> string" where
  "temporary_name path env = ''.'' @ final_name path @ ''.'' @ env_uuid env @ ''.tmp''"

text \<open>\<open>remove_file\<close> and \<open>rename\<close>. A directory is moved only to a free name.\<close>

definition remove_entry :: "nat \<Rightarrow> string \<Rightarrow> fs \<Rightarrow> fs option" where
  "remove_entry d n f =
     (case entries f d n of None \<Rightarrow> None | Some (DirEntry _) \<Rightarrow> None | Some _ \<Rightarrow> Some (set_entry d n None f))"

definition is_dir :: "fs_entry option \<Rightarrow> bool" where
  "is_dir e \<longleftrightarrow> (case e of Some (DirEntry _) \<Rightarrow> True | _ \<Rightarrow> False)"

definition rename_entry :: "nat \<Rightarrow> string \<Rightarrow> nat \<Rightarrow> string \<Rightarrow> fs \<Rightarrow> fs option" where
  "rename_entry d n d' n' f =
     (if entries f d n = None \<or> is_dir (entries f d' n') \<or> (is_dir (entries f d n) \<and> entries f d' n' \<noteq> None) then None
      else Some (set_entry d' n' (entries f d n) (set_entry d n None f)))"

text \<open>The closure of \<open>apply_write\<close>: whether it succeeds, and the file system it leaves.\<close>

definition write_through :: "fs \<Rightarrow> nat \<Rightarrow> string \<Rightarrow> string \<Rightarrow> u32 \<Rightarrow> write_env \<Rightarrow> bool \<times> fs" where
  "write_through f d path output mode env =
     (let tmp = temporary_name path env
      in if env_fault env = FailCreate \<or> entries f d tmp \<noteq> None then (False, f)
         else let f' = set_entry d tmp (Some (FileEntry \<lparr>file_bytes = output, file_len = of_nat (length output),
                            st_mode = mode, file_identity = env_identity env\<rparr>)) f
              in if env_fault env \<noteq> NoFault then (False, f')
                 else case rename_entry d tmp d (final_name path) f' of None \<Rightarrow> (False, f') | Some f'' \<Rightarrow> (True, f''))"

definition apply_write :: "fs \<Rightarrow> nat \<Rightarrow> string \<Rightarrow> string \<Rightarrow> u32 \<Rightarrow> write_env \<Rightarrow> (apply_error + unit) \<times> fs" where
  "apply_write f d path output mode env =
     (case write_through f d path output mode env of
        (True, f') \<Rightarrow> (Ok (), f')
      | (False, f') \<Rightarrow>
          (Err (ApplyPath path),
           if env_cleanup_fails env then f'
           else case remove_entry d (temporary_name path env) f' of None \<Rightarrow> f' | Some f'' \<Rightarrow> f''))"

definition parent_of :: "(string \<times> nat) list \<Rightarrow> string \<Rightarrow> nat" where
  "parent_of parents path = (case map_of parents path of Some d \<Rightarrow> d | None \<Rightarrow> 0)"

fun apply_operation :: "(string \<times> nat) list \<Rightarrow> write_env \<Rightarrow> write_operation \<Rightarrow> fs \<Rightarrow> (apply_error + unit) \<times> fs" where
  "apply_operation parents env (WriteOp target output mode) f =
     apply_write f (parent_of parents (op_path target)) (op_path target) output mode env"
| "apply_operation parents env (DeleteOp target) f =
     (case (if env_fault env \<noteq> NoFault then None
            else remove_entry (parent_of parents (op_path target)) (final_name (op_path target)) f) of
        None \<Rightarrow> (Err (ApplyPath (op_path target)), f)
      | Some f' \<Rightarrow> (Ok (), f'))"
| "apply_operation parents env (RenameOp source target) f =
     (case (if env_fault env \<noteq> NoFault then None
            else rename_entry (parent_of parents (op_path source)) (final_name (op_path source))
                   (parent_of parents (op_path target)) (final_name (op_path target)) f) of
        None \<Rightarrow> (Err (ApplyPath (op_path target)), f)
      | Some f' \<Rightarrow> (Ok (), f'))"

fun apply_operations ::
    "(string \<times> nat) list \<Rightarrow> (nat \<Rightarrow> write_env) \<Rightarrow> nat \<Rightarrow> write_operation list \<Rightarrow> fs \<Rightarrow> (apply_error + unit) \<times> fs" where
  "apply_operations parents env i [] f = (Ok (), f)"
| "apply_operations parents env i (op # ops) f =
     (case apply_operation parents (env i) op f of
        (Inl e, f') \<Rightarrow> (Err e, f')
      | (Inr _, f') \<Rightarrow> apply_operations parents env (i + 1) ops f')"

definition apply_workspace_write_plan ::
    "(nat \<Rightarrow> write_env) \<Rightarrow> write_operation list \<Rightarrow> (string \<times> nat) list \<Rightarrow> fs \<Rightarrow> (apply_error + unit) \<times> fs" where
  "apply_workspace_write_plan env plan parents f =
     (case require_all_parents parents (map op_path (plan_targets plan)) of
        Inl e \<Rightarrow> (Err e, f)
      | Inr _ \<Rightarrow> apply_operations parents env 0 plan f)"

end
