(* ===== verification/Diff_Lines.thy ===== *)
theory Diff_Lines
  imports Code_Diff
begin

text \<open>
  What the hunks of \<open>text_hunks\<close> show (\<open>code_diff.rs\<close>): the edit script against a longest common subsequence and
  its minimality, the ranges of the hunks, patching the old lines with the hunks, and the segments of a line.
\<close>

section \<open>The longest common subsequence\<close>

fun lcs :: "'a list \<Rightarrow> 'a list \<Rightarrow> nat" where
  "lcs [] ys = 0"
| "lcs (x # xs) [] = 0"
| "lcs (x # xs) (y # ys) = (if x = y then lcs xs ys + 1 else max (lcs xs (y # ys)) (lcs (x # xs) ys))"

lemma lcs_Nil [simp]: "lcs xs [] = 0"
  by (cases xs) auto

text \<open>The suffixes of a list, the longest first.\<close>

fun tails :: "'a list \<Rightarrow> 'a list list" where
  "tails [] = [[]]"
| "tails (x # xs) = (x # xs) # tails xs"

lemma length_tails [simp]: "length (tails xs) = length xs + 1"
  by (induction xs) auto

lemma nth_tails: "i \<le> length xs \<Longrightarrow> tails xs ! i = drop i xs"
  by (induction xs arbitrary: i) (auto simp: nth_Cons' drop_Cons')

lemma tails_nth_0 [simp]: "tails xs ! 0 = xs"
  by (cases xs) auto

lemma tails_not_Nil [simp]: "tails xs \<noteq> []"
  by (cases xs) auto

lemma map_tails_0: "map f (tails xs) ! 0 = f xs"
  by (cases xs) auto

lemma lengths_row_lcs: "lengths_row x ys (map (lcs xs) (tails ys)) = map (lcs (x # xs)) (tails ys)"
  by (induction ys) (auto simp: Let_def map_tails_0)

lemma lcs_Nil_tails: "map (lcs []) (tails ys) = replicate (length ys + 1) 0"
  by (induction ys) auto

lemma lengths_lcs: "lengths xs ys = map (\<lambda>s. map (lcs s) (tails ys)) (tails xs)"
proof (induction xs)
  case Nil
  show ?case by (simp add: lcs_Nil_tails del: lcs.simps)
next
  case (Cons x xs)
  then show ?case by (simp add: Let_def map_tails_0 lengths_row_lcs)
qed

lemma lengths_nth:
  "i \<le> length xs \<Longrightarrow> j \<le> length ys \<Longrightarrow> lengths xs ys ! i ! j = lcs (drop i xs) (drop j ys)"
  by (simp add: lengths_lcs nth_tails)

lemma lcs_upper: "subseq zs xs \<Longrightarrow> subseq zs ys \<Longrightarrow> length zs \<le> lcs xs ys"
proof (induction xs ys arbitrary: zs rule: lcs.induct)
  case (3 x xs y ys)
  show ?case
  proof (cases zs)
    case Nil
    then show ?thesis by simp
  next
    case [simp]: (Cons z zs')
    show ?thesis
    proof (cases "x = y")
      case True
      have "subseq zs' xs" "subseq zs' ys" using "3.prems" by (auto dest: subseq_Cons' split: if_splits)
      with 3(1) [of zs'] True show ?thesis by simp
    next
      case False
      with "3.prems" have "subseq zs xs \<or> subseq zs ys" by (auto split: if_splits)
      with 3(2,3) [of zs] "3.prems" False show ?thesis by (auto simp: le_max_iff_disj)
    qed
  qed
qed auto

section \<open>Edit scripts\<close>

definition old_side :: "edit list \<Rightarrow> text_line list" where
  "old_side es = map edit_line (filter (\<lambda>e. \<not> is_addition e) es)"

definition new_side :: "edit list \<Rightarrow> text_line list" where
  "new_side es = map edit_line (filter (\<lambda>e. \<not> is_deletion e) es)"

definition changed :: "edit list \<Rightarrow> nat" where
  "changed es = length (filter (\<lambda>e. \<not> is_context e) es)"

lemma side_simps [simp]:
  "old_side [] = []" "new_side [] = []"
  "old_side (EContext l # es) = l # old_side es" "new_side (EContext l # es) = l # new_side es"
  "old_side (EAddition l # es) = old_side es" "new_side (EAddition l # es) = l # new_side es"
  "old_side (EDeletion l # es) = l # old_side es" "new_side (EDeletion l # es) = new_side es"
  "old_side (es @ fs) = old_side es @ old_side fs" "new_side (es @ fs) = new_side es @ new_side fs"
  by (auto simp: old_side_def new_side_def)

lemma changed_simps [simp]:
  "changed [] = 0" "changed (EContext l # es) = changed es" "changed (EAddition l # es) = Suc (changed es)"
  "changed (EDeletion l # es) = Suc (changed es)"
  by (auto simp: changed_def)

fun script :: "text_line list \<Rightarrow> text_line list \<Rightarrow> edit list" where
  "script [] [] = []"
| "script [] (y # ys) = EAddition y # script [] ys"
| "script (x # xs) [] = EDeletion x # script xs []"
| "script (x # xs) (y # ys) =
     (if x = y then EContext x # script xs ys
      else if lcs (x # xs) ys > lcs xs (y # ys) then EAddition y # script (x # xs) ys
      else EDeletion x # script xs (y # ys))"

lemma script_from_script:
  "i \<le> length old \<Longrightarrow> j \<le> length new \<Longrightarrow>
     script_from (lengths old new) old new i j = script (drop i old) (drop j new)"
proof (induction "lengths old new" old new i j rule: script_from.induct)
  case (1 old new i j)
  show ?case
  proof (cases "i < length old")
    case io: True
    then have dx: "drop i old = old ! i # drop (Suc i) old" by (simp add: Cons_nth_drop_Suc)
    show ?thesis
    proof (cases "j < length new")
      case True
      then have dy: "drop j new = new ! j # drop (Suc j) new" by (simp add: Cons_nth_drop_Suc)
      have gt: "lengths old new ! i ! (j + 1) > lengths old new ! (i + 1) ! j
          \<longleftrightarrow> lcs (old ! i # drop (Suc i) old) (drop (Suc j) new) > lcs (drop (Suc i) old) (new ! j # drop (Suc j) new)"
        using io True by (simp add: lengths_nth dx dy)
      consider "old ! i = new ! j" | "old ! i \<noteq> new ! j" "lengths old new ! i ! (j + 1) > lengths old new ! (i + 1) ! j"
        | "old ! i \<noteq> new ! j" "\<not> lengths old new ! i ! (j + 1) > lengths old new ! (i + 1) ! j" by blast
      then show ?thesis
      proof cases
        case 1
        with io True "1.hyps"(1) show ?thesis by (subst script_from.simps) (simp add: dx dy)
      next
        case 2
        with io True "1.hyps"(2) gt show ?thesis by (subst script_from.simps) (simp add: dx dy)
      next
        case 3
        with io True "1.hyps"(3) gt show ?thesis by (subst script_from.simps) (simp add: dx dy)
      qed
    next
      case False
      with 1 io show ?thesis by (subst script_from.simps) (simp add: dx)
    qed
  next
    case False
    show ?thesis
    proof (cases "j < length new")
      case True
      then have dy: "drop j new = new ! j # drop (Suc j) new" by (simp add: Cons_nth_drop_Suc)
      with 1 False True show ?thesis by (subst script_from.simps) simp
    next
      case False2: False
      with False 1 show ?thesis by (subst script_from.simps) simp
    qed
  qed
qed

lemma edit_script_script: "edit_script old new = script old new"
  by (simp add: edit_script_def script_from_script)

lemma script_sides [simp]: "old_side (script xs ys) = xs" "new_side (script xs ys) = ys"
  by (induction xs ys rule: script.induct) auto

lemma script_changed: "changed (script xs ys) + 2 * lcs xs ys = length xs + length ys"
  by (induction xs ys rule: script.induct) auto

lemma changed_count: "changed es + 2 * length (filter is_context es) = length (old_side es) + length (new_side es)"
proof (induction es)
  case (Cons e es)
  then show ?case by (cases e) auto
qed simp

lemma context_subseq:
  "subseq (map edit_line (filter is_context es)) (old_side es)" "subseq (map edit_line (filter is_context es)) (new_side es)"
proof (induction es)
  case (Cons e es)
  { case 1 from Cons show ?case by (cases e) auto }
  { case 2 from Cons show ?case by (cases e) auto }
qed auto

section \<open>Ranges\<close>

lemma context_before_le: "context_before es ctx c \<le> c"
  by (induction es ctx c rule: context_before.induct) (auto simp: le_Suc_eq)

lemma context_after_bounds: "c \<le> length es \<Longrightarrow> c \<le> context_after es ctx c \<and> context_after es ctx c \<le> length es"
proof (induction es ctx c rule: context_after.induct)
  case (1 es ctx c)
  then show ?case by (subst (1 2) context_after.simps) (auto simp: Suc_le_eq)
qed

text \<open>Ranges that follow each other and leave only context lines out.\<close>

fun ranges_ok :: "edit list \<Rightarrow> nat \<Rightarrow> (nat \<times> nat) list \<Rightarrow> bool" where
  "ranges_ok es p [] \<longleftrightarrow> (\<forall>i\<in>{p..<length es}. is_context (es ! i))"
| "ranges_ok es p ((s, e) # rs) \<longleftrightarrow>
     p \<le> s \<and> s < e \<and> e \<le> length es \<and> (\<forall>i\<in>{p..<s}. is_context (es ! i)) \<and> ranges_ok es e rs"

definition top_end :: "(nat \<times> nat) list \<Rightarrow> nat" where
  "top_end rs = (case rs of [] \<Rightarrow> 0 | r # _ \<Rightarrow> snd r)"

fun built_ok :: "edit list \<Rightarrow> (nat \<times> nat) list \<Rightarrow> bool" where
  "built_ok es [] \<longleftrightarrow> True"
| "built_ok es ((s, e) # rs) \<longleftrightarrow>
     top_end rs \<le> s \<and> s < e \<and> e \<le> length es \<and> (\<forall>i\<in>{top_end rs..<s}. is_context (es ! i)) \<and> built_ok es rs"

lemma built_ok_ranges: "built_ok es rs \<Longrightarrow> ranges_ok es (top_end rs) rs' \<Longrightarrow> ranges_ok es 0 (rev rs @ rs')"
proof (induction rs arbitrary: rs')
  case Nil
  then show ?case by (simp add: top_end_def)
next
  case (Cons r rs)
  obtain s e where r: "r = (s, e)" by (cases r)
  from Cons.prems have "ranges_ok es (top_end rs) ((s, e) # rs')" by (simp add: r top_end_def)
  from Cons.IH [OF _ this] Cons.prems show ?case by (simp add: r)
qed

lemma merge_ranges_ok:
  assumes "built_ok es rs" "sorted cs" "\<forall>c\<in>set cs. c < length es"
    and "\<forall>i\<in>{top_end rs..<length es}. is_context (es ! i) \<or> i \<in> set cs"
  shows "ranges_ok es 0 (merge_ranges es rs cs)"
  using assms
proof (induction es rs cs rule: merge_ranges.induct)
  case (1 es rs)
  then show ?case using built_ok_ranges [of es rs "[]"] by simp
next
  case (2 es rs c cs)
  let ?s = "context_before es 0 c" and ?e = "context_after es 0 (c + 1)"
  have b: "?s \<le> c" "c < ?e" "?e \<le> length es"
    using context_before_le [of es 0 c] context_after_bounds [of "c + 1" es 0] "2.prems"(3) by auto
  have later: "\<forall>i\<in>{m..<length es}. is_context (es ! i) \<or> i \<in> set cs" if "top_end rs \<le> m" "?e \<le> m" for m
    using "2.prems"(4) b that by auto
  have gap: "\<forall>i\<in>{top_end rs..<?s}. is_context (es ! i)"
    using "2.prems"(2,3,4) b by fastforce
  show ?case
  proof (cases rs)
    case Nil
    with 2(1) [OF refl refl Nil] "2.prems" b gap later [of ?e] show ?thesis by (auto simp: Let_def top_end_def)
  next
    case (Cons r rest)
    obtain ps pe where r: "r = (ps, pe)" by (cases r)
    show ?thesis
    proof (cases "?s \<le> pe")
      case True
      with 2(2) [OF refl refl Cons r [symmetric] True] "2.prems" b Cons r later [of "max pe ?e"]
      show ?thesis by (auto simp: Let_def top_end_def)
    next
      case False
      with 2(3) [OF refl refl Cons r [symmetric] False] "2.prems" b Cons r gap later [of ?e]
      show ?thesis by (auto simp: Let_def top_end_def)
    qed
  qed
qed

lemma text_ranges_ok: "ranges_ok es 0 (merge_ranges es [] (change_indices es))"
  by (rule merge_ranges_ok) (auto simp: change_indices_def top_end_def intro: sorted_filter [where f = id, simplified])

section \<open>Patching\<close>

definition old_texts :: "diff_line list \<Rightarrow> string list" where
  "old_texts ls = map ln_text (filter (\<lambda>l. ln_kind l \<noteq> Addition) ls)"

definition new_texts :: "diff_line list \<Rightarrow> string list" where
  "new_texts ls = map ln_text (filter (\<lambda>l. ln_kind l \<noteq> Deletion) ls)"

text \<open>What the reader of a diff does: the lines up to a hunk stay, the old lines of the hunk have to be the ones that
  stand there, and its new lines take their place.\<close>

definition lines_before :: "diff_hunk \<Rightarrow> nat" where
  "lines_before h = (if old_count h = 0 then old_start h else old_start h - 1)"

fun patch :: "nat \<Rightarrow> string list \<Rightarrow> diff_hunk list \<Rightarrow> string list option" where
  "patch n olds [] = Some olds"
| "patch n olds (h # hs) =
     (let k = lines_before h - n
      in if take (old_count h) (drop k olds) = old_texts (hk_lines h) \<and> k + old_count h \<le> length olds
         then map_option (\<lambda>rest. take k olds @ new_texts (hk_lines h) @ rest)
                (patch (n + k + old_count h) (drop (k + old_count h) olds) hs)
         else None)"

text \<open>The word segments change nothing else of a line.\<close>

abbreviation bare :: "diff_line \<Rightarrow> diff_line" where
  "bare l \<equiv> l\<lparr>ln_segments := []\<rparr>"

lemma pair_segments_bare: "map bare (fst (pair_segments ds as)) = map bare ds \<and> map bare (snd (pair_segments ds as)) = map bare as"
  by (induction ds as rule: pair_segments.induct) (auto simp: Let_def split: prod.splits option.splits)

lemma deletion_run:
  assumes "ln_kind l = Deletion"
  shows "add_intra_line_segments (l # ls) =
    (let ds = l # takeWhile (\<lambda>l. ln_kind l = Deletion) ls; rest = dropWhile (\<lambda>l. ln_kind l = Deletion) ls;
         as = takeWhile (\<lambda>l. ln_kind l = Addition) rest
     in fst (pair_segments ds as) @ snd (pair_segments ds as)
        @ add_intra_line_segments (dropWhile (\<lambda>l. ln_kind l = Addition) rest))"
  using assms by (simp add: Let_def split: prod.splits)

lemma add_segments_bare: "map bare (add_intra_line_segments ls) = map bare ls"
proof (induction ls rule: add_intra_line_segments.induct)
  case (2 l ls)
  show ?case
  proof (cases "ln_kind l = Deletion")
    case False
    with 2(1) show ?thesis by simp
  next
    case True
    let ?ds = "l # takeWhile (\<lambda>l. ln_kind l = Deletion) ls" and ?rest = "dropWhile (\<lambda>l. ln_kind l = Deletion) ls"
    let ?as = "takeWhile (\<lambda>l. ln_kind l = Addition) ?rest" and ?rest' = "dropWhile (\<lambda>l. ln_kind l = Addition) ?rest"
    note e = deletion_run [OF True]
    have "map bare (add_intra_line_segments (l # ls)) = map bare ?ds @ map bare ?as @ map bare ?rest'"
      unfolding e Let_def map_append using pair_segments_bare [of ?ds ?as] 2(2) [of ?ds ?rest ?as ?rest'] True
      by (auto simp: prod_eq_iff)
    also have "\<dots> = map bare (?ds @ ?as @ ?rest')" by (simp only: map_append)
    also have "?ds @ ?as @ ?rest' = l # ls" by (simp add: takeWhile_dropWhile_id)
    finally show ?thesis .
  qed
qed simp

lemma texts_bare: "old_texts (map bare ls) = old_texts ls" "new_texts (map bare ls) = new_texts ls"
  by (auto simp: old_texts_def new_texts_def filter_map comp_def)

lemma number_lines_texts:
  "old_texts (number_lines a b es) = map tl_text (old_side es)" "new_texts (number_lines a b es) = map tl_text (new_side es)"
  by (induction a b es rule: number_lines.induct) (auto simp: old_texts_def new_texts_def plain_line_def)

lemma hunk_texts:
  "old_texts (hk_lines (make_hunk es p)) = map tl_text (old_side es)"
  "new_texts (hk_lines (make_hunk es p)) = map tl_text (new_side es)"
proof -
  let ?ls = "number_lines (fst p) (snd p) es"
  have "old_texts (add_intra_line_segments ?ls) = old_texts ?ls" "new_texts (add_intra_line_segments ?ls) = new_texts ?ls"
    by (metis texts_bare add_segments_bare)+
  then show "old_texts (hk_lines (make_hunk es p)) = map tl_text (old_side es)"
    "new_texts (hk_lines (make_hunk es p)) = map tl_text (new_side es)"
    by (auto simp: make_hunk_def Let_def number_lines_texts)
qed

lemma hunk_counts: "old_count (make_hunk es p) = length (old_side es)" "new_count (make_hunk es p) = length (new_side es)"
  by (auto simp: make_hunk_def Let_def old_side_def new_side_def)

lemma line_positions_nth:
  "i < length es \<Longrightarrow> line_positions a b es ! i = (a + length (old_side (take i es)), b + length (new_side (take i es)))"
proof (induction a b es arbitrary: i rule: line_positions.induct)
  case (2 a b e es)
  then show ?case by (cases i; cases e) auto
qed simp

lemma context_sides: "\<forall>e\<in>set es. is_context e \<Longrightarrow> new_side es = old_side es"
proof (induction es)
  case (Cons e es)
  then show ?case by (cases e) auto
qed simp

lemma drop_sub_list: "p \<le> s \<Longrightarrow> s \<le> length es \<Longrightarrow> drop p es = sub_list p s es @ drop s es"
  by (simp add: sub_list_def) (metis append_take_drop_id drop_drop le_add_diff_inverse2)

lemma take_sub_list: "p \<le> s \<Longrightarrow> take s es = take p es @ sub_list p s es"
  by (simp add: sub_list_def) (metis le_add_diff_inverse take_add)

lemma set_sub_list: "e \<in> set (sub_list p s es) \<Longrightarrow> \<exists>i\<in>{p..<s}. i < length es \<and> e = es ! i"
proof -
  assume "e \<in> set (sub_list p s es)"
  then obtain i where "i < length (sub_list p s es)" "e = sub_list p s es ! i" by (auto simp: in_set_conv_nth)
  then show ?thesis by (intro bexI [of _ "p + i"]) (auto simp: sub_list_def)
qed

definition range_hunk :: "edit list \<Rightarrow> nat \<times> nat \<Rightarrow> diff_hunk" where
  "range_hunk es r = make_hunk (sub_list (fst r) (snd r) es) (line_positions 1 1 es ! fst r)"

lemma hunk_start:
  "s < length es \<Longrightarrow> lines_before (range_hunk es (s, e)) = length (old_side (take s es))"
  by (auto simp: lines_before_def range_hunk_def make_hunk_def Let_def at_start_def line_positions_nth)

lemma patch_ranges:
  "ranges_ok es p rs \<Longrightarrow> p \<le> length es \<Longrightarrow>
     patch (length (old_side (take p es))) (map tl_text (old_side (drop p es))) (map (range_hunk es) rs)
       = Some (map tl_text (new_side (drop p es)))"
proof (induction es p rs rule: ranges_ok.induct)
  case (1 es p)
  then have "new_side (drop p es) = old_side (drop p es)"
    by (intro context_sides) (auto simp: in_set_conv_nth)
  then show ?case by simp
next
  case (2 es p s e rs)
  let ?h = "range_hunk es (s, e)"
  have b: "p \<le> s" "s < e" "e \<le> length es" and gap: "\<forall>i\<in>{p..<s}. is_context (es ! i)" and ok: "ranges_ok es e rs"
    using 2 by auto
  have gs: "new_side (sub_list p s es) = old_side (sub_list p s es)"
    by (rule context_sides) (use gap in \<open>auto dest: set_sub_list\<close>)
  have d: "drop p es = sub_list p s es @ sub_list s e es @ drop e es" using b drop_sub_list [of p s es] drop_sub_list [of s e es] by simp
  have k: "length (old_side (take s es)) - length (old_side (take p es)) = length (old_side (sub_list p s es))"
    using take_sub_list [of p s es] b by simp
  have n: "length (old_side (take p es)) + length (old_side (sub_list p s es)) + length (old_side (sub_list s e es))
      = length (old_side (take e es))"
    using take_sub_list [of p s es] take_sub_list [of s e es] b by simp
  have c: "old_count ?h = length (old_side (sub_list s e es))" by (simp add: range_hunk_def hunk_counts)
  have t: "old_texts (hk_lines ?h) = map tl_text (old_side (sub_list s e es))"
      "new_texts (hk_lines ?h) = map tl_text (new_side (sub_list s e es))" by (simp_all add: range_hunk_def hunk_texts)
  from 2(1) [OF ok b(3)] show ?case
    unfolding patch.simps list.map hunk_start [OF less_le_trans [OF b(2,3)]] Let_def k c
    by (simp add: d t gs n)
qed

text \<open>A text as the list of its lines, without the ends of the lines.\<close>

definition line_texts :: "string \<Rightarrow> string list" where
  "line_texts s = map tl_text (text_lines s)"

lemma text_hunks_ranges:
  "text_hunks old new = (let es = edit_script (text_lines old) (text_lines new) in map (range_hunk es) (merge_ranges es [] (change_indices es)))"
  by (simp add: text_hunks_def Let_def range_hunk_def case_prod_beta)

lemma patch_text_hunks: "patch 0 (line_texts old) (text_hunks old new) = Some (line_texts new)"
  using patch_ranges [OF text_ranges_ok, of "edit_script (text_lines old) (text_lines new)"]
  by (simp add: text_hunks_ranges Let_def line_texts_def edit_script_script)


lemma merge_ranges_Nil_iff: "merge_ranges es rs cs = [] \<longleftrightarrow> rs = [] \<and> cs = []"
  by (induction es rs cs rule: merge_ranges.induct) (auto simp: Let_def split: list.splits)

lemma all_context_script: "\<forall>e\<in>set es. is_context e \<Longrightarrow> old_side es = new_side es"
  by (simp add: context_sides)

lemma script_same: "script xs xs = map EContext xs"
  by (induction xs) auto

lemma no_hunks_iff: "text_hunks old new = [] \<longleftrightarrow> text_lines old = text_lines new"
proof
  let ?es = "edit_script (text_lines old) (text_lines new)"
  assume "text_hunks old new = []"
  then have "change_indices ?es = []" by (simp add: text_hunks_ranges Let_def merge_ranges_Nil_iff)
  then have "\<forall>e\<in>set ?es. is_context e" by (auto simp: change_indices_def filter_empty_conv in_set_conv_nth)
  from all_context_script [OF this] show "text_lines old = text_lines new" by (simp add: edit_script_script)
next
  assume "text_lines old = text_lines new"
  then have "change_indices (edit_script (text_lines old) (text_lines new)) = []"
    by (simp add: edit_script_script script_same change_indices_def filter_empty_conv)
  then show "text_hunks old new = []" by (simp add: text_hunks_ranges Let_def)
qed

section \<open>Segments\<close>

definition spelled :: "diff_line \<Rightarrow> bool" where
  "spelled l \<longleftrightarrow> concat (map sg_text (ln_segments l)) = ln_text l"

fun spans_ok :: "nat \<Rightarrow> (nat \<times> nat) list \<Rightarrow> nat \<Rightarrow> bool" where
  "spans_ok lo [] hi \<longleftrightarrow> lo \<le> hi"
| "spans_ok lo ((a, b) # ws) hi \<longleftrightarrow> lo \<le> a \<and> a \<le> b \<and> spans_ok b ws hi"

lemma spans_ok_mono: "spans_ok lo ws hi \<Longrightarrow> lo' \<le> lo \<Longrightarrow> spans_ok lo' ws hi"
  by (induction lo ws hi rule: spans_ok.induct) auto

lemma spans_from_ok:
  "(\<forall>b. start = Some b \<longrightarrow> b \<le> i) \<Longrightarrow>
     spans_ok (case start of None \<Rightarrow> i | Some b \<Rightarrow> b) (spans_from i start cs) (i + length (concat cs))"
proof (induction i start cs rule: spans_from.induct)
  case (3 i start c cs)
  show ?case
  proof (cases "is_whitespace c")
    case True
    show ?thesis
    proof (cases start)
      case None
      from 3(1) [OF True None] True None show ?thesis by (auto intro: spans_ok_mono simp: add.assoc)
    next
      case (Some b)
      from 3(2) [OF True Some] True Some "3.prems" show ?thesis by (auto intro: spans_ok_mono simp: add.assoc)
    qed
  next
    case False
    from 3(3) [OF False] False "3.prems" show ?thesis by (cases start) (auto simp: add.assoc trans_le_add1)
  qed
qed auto

lemma word_spans_ok: "spans_ok 0 (word_spans t) (length t)"
  using spans_from_ok [of None 0 "utf8_chars t"] by (simp add: word_spans_def concat_utf8_chars)

lemma spans_ok_le: "spans_ok lo ws hi \<Longrightarrow> lo \<le> hi"
  by (induction lo ws hi rule: spans_ok.induct) auto

lemma spans_ok_nth:
  "spans_ok lo ws hi \<Longrightarrow> j \<le> m \<Longrightarrow> m < length ws \<Longrightarrow> fst (ws ! j) \<le> snd (ws ! m) \<and> snd (ws ! m) \<le> hi \<and> lo \<le> fst (ws ! j)"
proof (induction lo ws hi arbitrary: j m rule: spans_ok.induct)
  case (2 lo a b ws hi)
  show ?case
  proof (cases m)
    case 0
    with 2 show ?thesis by (auto dest: spans_ok_le)
  next
    case (Suc m')
    show ?thesis
    proof (cases j)
      case 0
      from "2.IH" [of m' m'] "2.prems" Suc 0 have "b \<le> fst (ws ! m')" "fst (ws ! m') \<le> snd (ws ! m')" "snd (ws ! m') \<le> hi" by auto
      with "2.prems" Suc 0 show ?thesis by auto
    next
      case (Suc j')
      from "2.IH" [of j' m'] "2.prems" Suc \<open>m = Suc m'\<close> show ?thesis by auto
    qed
  qed
qed simp

lemma line_segments_spell:
  assumes "spans_ok 0 ws (length t)" "leading + trailing \<le> length ws"
  shows "concat (map sg_text (line_segments t ws leading trailing k)) = t"
proof (cases "leading + trailing = length ws")
  case True
  then show ?thesis by (simp add: line_segments_def)
next
  case False
  let ?m = "length ws - (trailing + 1)"
  have l: "leading \<le> ?m" "?m < length ws" using assms(2) False by auto
  have b: "fst (ws ! leading) \<le> snd (ws ! ?m)" "snd (ws ! ?m) \<le> length t" using spans_ok_nth [OF assms(1) l] by auto
  have keep: "concat (map sg_text (filter (\<lambda>s. sg_text s \<noteq> []) ss)) = concat (map sg_text ss)" for ss
    by (induction ss) auto
  have "take (fst (ws ! leading)) t @ sub_list (fst (ws ! leading)) (snd (ws ! ?m)) t @ drop (snd (ws ! ?m)) t = t"
    using take_sub_list [of "fst (ws ! leading)" "snd (ws ! ?m)" t] b by (metis append.assoc append_take_drop_id)
  with False l show ?thesis by (simp add: line_segments_def Let_def keep del: filter.simps)
qed

lemma common_prefix_le: "common_prefix xs ys \<le> length xs \<and> common_prefix xs ys \<le> length ys"
  by (induction xs ys rule: common_prefix.induct) auto

lemma changed_word_segments_spell:
  assumes "changed_word_segments d a = Some (sd, sa)"
  shows "concat (map sg_text sd) = d" "concat (map sg_text sa) = a"
proof -
  let ?ds = "map (word_at d) (word_spans d)" and ?as = "map (word_at a) (word_spans a)"
  let ?l = "common_prefix ?ds ?as" and ?t = "common_prefix (rev (drop (common_prefix ?ds ?as) ?ds)) (rev (drop (common_prefix ?ds ?as) ?as))"
  have l: "?l \<le> length (word_spans d)" "?l \<le> length (word_spans a)" using common_prefix_le [of ?ds ?as] by auto
  have t: "?t \<le> length (word_spans d) - ?l" "?t \<le> length (word_spans a) - ?l"
    using common_prefix_le [of "rev (drop ?l ?ds)" "rev (drop ?l ?as)"] by auto
  have e: "sd = line_segments d (word_spans d) ?l ?t DeletionSegment" "sa = line_segments a (word_spans a) ?l ?t AdditionSegment"
    using assms unfolding changed_word_segments_def Let_def by (auto split: if_splits)
  show "concat (map sg_text sd) = d" unfolding e by (rule line_segments_spell [OF word_spans_ok]) (use l t in linarith)
  show "concat (map sg_text sa) = a" unfolding e by (rule line_segments_spell [OF word_spans_ok]) (use l t in linarith)
qed

lemma pair_segments_spelled:
  "\<forall>l\<in>set ds \<union> set as. spelled l \<Longrightarrow> \<forall>l\<in>set (fst (pair_segments ds as)) \<union> set (snd (pair_segments ds as)). spelled l"
proof (induction ds as rule: pair_segments.induct)
  case (1 d ds a as)
  then have ih: "\<forall>l\<in>set (fst (pair_segments ds as)) \<union> set (snd (pair_segments ds as)). spelled l" by simp
  show ?case
  proof (cases "changed_word_segments (ln_text d) (ln_text a)")
    case None
    with ih "1.prems" show ?thesis by (auto simp: split: prod.splits)
  next
    case (Some p)
    obtain sd sa where p: "p = (sd, sa)" by (cases p)
    from changed_word_segments_spell [OF Some [unfolded p]] have "spelled (d\<lparr>ln_segments := sd\<rparr>)" "spelled (a\<lparr>ln_segments := sa\<rparr>)"
      by (simp_all add: spelled_def)
    with ih Some p show ?thesis by (auto split: prod.splits)
  qed
qed auto

lemma add_segments_spelled: "\<forall>l\<in>set ls. spelled l \<Longrightarrow> \<forall>l\<in>set (add_intra_line_segments ls). spelled l"
proof (induction ls rule: add_intra_line_segments.induct)
  case (2 l ls)
  show ?case
  proof (cases "ln_kind l = Deletion")
    case False
    with 2(1,3) show ?thesis by simp
  next
    case True
    let ?ds = "l # takeWhile (\<lambda>l. ln_kind l = Deletion) ls" and ?rest = "dropWhile (\<lambda>l. ln_kind l = Deletion) ls"
    let ?as = "takeWhile (\<lambda>l. ln_kind l = Addition) ?rest" and ?rest' = "dropWhile (\<lambda>l. ln_kind l = Addition) ?rest"
    have sub: "set ?rest \<subseteq> set ls" "set ?as \<subseteq> set ?rest" "set ?rest' \<subseteq> set ?rest" "set ?ds \<subseteq> set (l # ls)"
      by (auto dest: set_dropWhileD set_takeWhileD)
    note e = deletion_run [OF True]
    have "\<forall>l\<in>set ?ds \<union> set ?as. spelled l" "\<forall>l\<in>set ?rest'. spelled l" using 2(3) sub by auto
    then have "\<forall>l\<in>set (fst (pair_segments ?ds ?as)) \<union> set (snd (pair_segments ?ds ?as)). spelled l"
      and "\<forall>l\<in>set (add_intra_line_segments ?rest'). spelled l"
      using pair_segments_spelled 2(2) [OF _ refl refl refl refl refl surjective_pairing [symmetric]] True by blast+
    then show ?thesis unfolding e Let_def set_append by blast
  qed
qed simp

lemma number_lines_spelled: "\<forall>l\<in>set (number_lines a b es). spelled l"
  by (induction a b es rule: number_lines.induct) (auto simp: spelled_def plain_line_def)

lemma hunk_spelled: "\<forall>l\<in>set (hk_lines (make_hunk es p)). spelled l"
  using add_segments_spelled [OF number_lines_spelled] by (simp add: make_hunk_def Let_def)

section \<open>Properties\<close>

text \<open>C19: 
  The edit script of two texts takes the one to the other, and no script that does shows fewer changed lines: the
  table of \<open>edit_script\<close> holds the lengths of the longest common subsequences of the suffixes.\<close>

theorem edit_script_minimal:
  assumes "old_side es = old" "new_side es = new"
  shows "old_side (edit_script old new) = old \<and> new_side (edit_script old new) = new \<and> changed (edit_script old new) \<le> changed es"
  using assms changed_count [of es] script_changed [of old new] lcs_upper [OF context_subseq(1,2), of es]
  by (simp add: edit_script_script)

theorem edit_script_minimal_witness:
  "changed (edit_script (text_lines [CHR ''a'', CHR 0x0A]) (text_lines [CHR ''b'', CHR 0x0A]))
     \<le> changed [EDeletion \<lparr>tl_text = ''a'', tl_terminated = True\<rparr>, EAddition \<lparr>tl_text = ''b'', tl_terminated = True\<rparr>]"
proof -
  have "old_side [EDeletion \<lparr>tl_text = ''a'', tl_terminated = True\<rparr>, EAddition \<lparr>tl_text = ''b'', tl_terminated = True\<rparr>]
      = text_lines [CHR ''a'', CHR 0x0A]"
    "new_side [EDeletion \<lparr>tl_text = ''a'', tl_terminated = True\<rparr>, EAddition \<lparr>tl_text = ''b'', tl_terminated = True\<rparr>]
      = text_lines [CHR ''b'', CHR 0x0A]"
    by (simp_all add: text_lines_def read_line_def strip_last_def Let_def)
  from edit_script_minimal [OF this] show ?thesis by (elim conjE)
qed

text \<open>
  A change of a text shows no hunk exactly when both sides have the same lines; the carriage return before the end of
  a line is not part of it, so a file whose line ends change from \<open>CR LF\<close> to \<open>LF\<close> is listed as modified and
  shows nothing of what changes.\<close>

theorem line_end_change_hidden:
  "(text_hunks old new = [] \<longleftrightarrow> text_lines old = text_lines new)
     \<and> text_hunks [CHR ''a'', CHR 0x0D, CHR 0x0A] [CHR ''a'', CHR 0x0A] = []"
  by (simp add: no_hunks_iff text_lines_def read_line_def strip_last_def Let_def)

end
