(* ===== verification/Diff_Properties.thy ===== *)
theory Diff_Properties
  imports Diff_Lines
begin

text \<open>
  What \<open>compute_code_diff\<close> promises (\<open>code_diff.rs\<close>, \<open>code-diff/src/lib.rs\<close>): a diff that validates, within its limits,
  that lists exactly the paths whose contents differ and shows how.
\<close>

section \<open>Validity\<close>

lemma each_valid_iff: "each_valid f xs = Ok () \<longleftrightarrow> (\<forall>x\<in>set xs. f x = Ok ())"
  by (induction xs) (auto simp: result_bind_Inr_iff)

lemma count_lines_bare: "count_lines a b (map bare ls) = count_lines a b ls"
  by (induction a b ls rule: count_lines.induct) (auto split: diff_line_kind.splits)

lemma count_number_lines:
  "count_lines c d (number_lines a b es) = Ok (c + length (old_side es), d + length (new_side es))"
  by (induction a b es arbitrary: c d rule: number_lines.induct) (auto simp: plain_line_def)

lemma validate_make_hunk: "validate_hunk (make_hunk es p) = Ok ()"
proof -
  have "count_lines 0 0 (hk_lines (make_hunk es p)) = count_lines 0 0 (number_lines (fst p) (snd p) es)"
    by (metis count_lines_bare add_segments_bare make_hunk_def diff_hunk.select_convs(6))
  then show ?thesis by (simp add: validate_hunk_def count_number_lines hunk_counts)
qed

definition hunk_ok :: "diff_hunk \<Rightarrow> bool" where
  "hunk_ok h \<longleftrightarrow> validate_hunk h = Ok () \<and> (\<forall>l\<in>set (hk_lines h). spelled l)"

lemma text_hunks_ok: "\<forall>h\<in>set (text_hunks old new). hunk_ok h"
  by (auto simp: text_hunks_ranges Let_def range_hunk_def hunk_ok_def validate_make_hunk hunk_spelled)

definition file_ok :: "diff_file \<Rightarrow> bool" where
  "file_ok f \<longleftrightarrow> validate_file f = Ok () \<and> (\<forall>h\<in>set (df_hunks f). hunk_ok h)"

lemma validate_file_iff:
  "validate_file f = Ok () \<longleftrightarrow> validate_paths f = Ok ()
     \<and> \<not> ((old_path f = None \<and> old_mode f \<noteq> None) \<or> (new_path f = None \<and> new_mode f \<noteq> None))
     \<and> \<not> (df_binary f \<and> df_hunks f \<noteq> []) \<and> (\<forall>h\<in>set (df_hunks f). validate_hunk h = Ok ())"
  by (cases "validate_paths f") (simp_all add: validate_file_def each_valid_iff)

lemma file_ok_fewer: "file_ok f \<Longrightarrow> set hs \<subseteq> set (df_hunks f) \<Longrightarrow> file_ok (f\<lparr>df_hunks := hs\<rparr>)"
proof -
  assume f: "file_ok f" and hs: "set hs \<subseteq> set (df_hunks f)"
  have "old_path (f\<lparr>df_hunks := hs\<rparr>) = old_path f" "new_path (f\<lparr>df_hunks := hs\<rparr>) = new_path f"
    "df_status (f\<lparr>df_hunks := hs\<rparr>) = df_status f" by simp_all
  then have "validate_paths (f\<lparr>df_hunks := hs\<rparr>) = validate_paths f" by (simp only: validate_paths_def)
  moreover have "\<not> (df_binary f \<and> hs \<noteq> [])" using f hs by (auto simp: file_ok_def validate_file_iff)
  ultimately show ?thesis using f hs by (simp add: file_ok_def validate_file_iff) blast
qed

fun change_ok :: "change \<Rightarrow> bool" where
  "change_ok (op, np, st) \<longleftrightarrow>
     (case st of Added \<Rightarrow> op = None \<and> np \<noteq> None | Deleted \<Rightarrow> op \<noteq> None \<and> np = None
      | Modified \<Rightarrow> op \<noteq> None \<and> np \<noteq> None | Renamed \<Rightarrow> op \<noteq> None \<and> np \<noteq> None \<and> op \<noteq> np)"

lemma change_file_ok: "change_ok c \<Longrightarrow> file_ok (change_file current staged c)"
  by (cases c rule: change_ok.cases)
    (auto simp: file_ok_def validate_file_iff validate_paths_def change_file_def Let_def text_hunks_ok
          dest: text_hunks_ok [THEN bspec] simp: hunk_ok_def split: diff_status.splits)

section \<open>Changes of a tree\<close>

definition tree_ok :: "(string \<times> 'v) list \<Rightarrow> bool" where
  "tree_ok t \<longleftrightarrow> sorted_wrt (<) (map fst t)"

lemma tree_ok_distinct: "tree_ok t \<Longrightarrow> distinct (map fst t)"
  by (simp add: tree_ok_def strict_sorted_iff)

lemma tree_insert_keys: "set (map fst (tree_insert k v m)) = insert k (set (map fst m))"
  by (induction k v m rule: tree_insert.induct) auto

lemma tree_insert_ok: "tree_ok m \<Longrightarrow> tree_ok (tree_insert k v m)"
proof (induction k v m rule: tree_insert.induct)
  case (2 k v k' v' m)
  then show ?case using tree_insert_keys [of k v m] by (auto simp: tree_ok_def)
qed (simp add: tree_ok_def)

lemma tree_insert_set: "tree_ok m \<Longrightarrow> k \<notin> fst ` set m \<Longrightarrow> set (tree_insert k v m) = insert (k, v) (set m)"
  by (induction k v m rule: tree_insert.induct) (auto simp: tree_ok_def)

lemma pair_renames_props:
  assumes "distinct ds"
  shows "set (map fst (pair_renames c s added paired ds)) \<subseteq> set ds"
    and "distinct (map fst (pair_renames c s added paired ds))"
    and "distinct (map snd (pair_renames c s added paired ds))"
    and "set (map snd (pair_renames c s added paired ds)) \<subseteq> set added - set paired"
    and "\<forall>(d, n)\<in>set (pair_renames c s added paired ds). map_of c d = map_of s n"
proof -
  have "set (map fst (pair_renames c s added paired ds)) \<subseteq> set ds \<and> distinct (map fst (pair_renames c s added paired ds))
      \<and> distinct (map snd (pair_renames c s added paired ds))
      \<and> set (map snd (pair_renames c s added paired ds)) \<subseteq> set added - set paired
      \<and> (\<forall>(d, n)\<in>set (pair_renames c s added paired ds). map_of c d = map_of s n)"
    using assms
  proof (induction c s added paired ds rule: pair_renames.induct)
    case (2 c s added paired d ds)
    show ?case
    proof (cases "find (\<lambda>n. n \<notin> set paired \<and> map_of c d = map_of s n) added")
      case None
      with 2 show ?thesis by auto
    next
      case (Some n)
      then have "n \<in> set added" "n \<notin> set paired" "map_of c d = map_of s n" by (auto simp: find_Some_iff)
      moreover have "set (map fst (pair_renames c s added (n # paired) ds)) \<subseteq> set ds \<and> distinct (map fst (pair_renames c s added (n # paired) ds))
      \<and> distinct (map snd (pair_renames c s added (n # paired) ds))
      \<and> set (map snd (pair_renames c s added (n # paired) ds)) \<subseteq> set added - set (n # paired)
      \<and> (\<forall>(d, n)\<in>set (pair_renames c s added (n # paired) ds). map_of c d = map_of s n)"
        using 2(2) [OF Some] "2.prems" by simp
      ultimately show ?thesis using Some "2.prems" by auto
    qed
  qed simp
  then show "set (map fst (pair_renames c s added paired ds)) \<subseteq> set ds"
    and "distinct (map fst (pair_renames c s added paired ds))"
    and "distinct (map snd (pair_renames c s added paired ds))"
    and "set (map snd (pair_renames c s added paired ds)) \<subseteq> set added - set paired"
    and "\<forall>(d, n)\<in>set (pair_renames c s added paired ds). map_of c d = map_of s n" by auto
qed

text \<open>The renames of two trees.\<close>

definition tree_renames :: "tree \<Rightarrow> tree \<Rightarrow> (string \<times> string) list" where
  "tree_renames current staged = pair_renames current staged
     (filter (\<lambda>p. p \<notin> set (map fst current)) (map fst staged)) [] (filter (\<lambda>p. p \<notin> set (map fst staged)) (map fst current))"

lemma tree_renames_props:
  assumes "tree_ok current"
  shows "distinct (map fst (tree_renames current staged))" "distinct (map snd (tree_renames current staged))"
    and "(d, n) \<in> set (tree_renames current staged) \<Longrightarrow>
      (\<exists>b. map_of current d = Some b \<and> map_of staged n = Some b) \<and> map_of staged d = None \<and> map_of current n = None"
proof -
  let ?ds = "filter (\<lambda>p. p \<notin> set (map fst staged)) (map fst current)"
  let ?as = "filter (\<lambda>p. p \<notin> set (map fst current)) (map fst staged)"
  have "distinct ?ds" using tree_ok_distinct [OF assms] by simp
  note p = pair_renames_props [OF this, of current staged ?as "[]", folded tree_renames_def]
  show "distinct (map fst (tree_renames current staged))" "distinct (map snd (tree_renames current staged))" by (fact p)+
  assume dn: "(d, n) \<in> set (tree_renames current staged)"
  then have "d \<in> set ?ds" "n \<in> set ?as" "map_of current d = map_of staged n" using p(1,4,5) by (force, force, force)
  then show "(\<exists>b. map_of current d = Some b \<and> map_of staged n = Some b) \<and> map_of staged d = None \<and> map_of current n = None"
    by (auto simp: map_of_eq_None_iff image_iff) (metis map_of_eq_None_iff image_eqI fst_conv option.exhaust)
qed

lemma tree_change_key_inj:
  assumes "tree_ok current" "tree_change current staged (tree_renames current staged) p = Some (k, c)"
    and "tree_change current staged (tree_renames current staged) q = Some (k, c')"
  shows "p = q"
proof -
  let ?r = "tree_renames current staged"
  have inj: "map_of ?r p = Some n \<Longrightarrow> map_of ?r q = Some n \<Longrightarrow> p = q" for n
    using tree_renames_props(2) [OF assms(1)] by (metis map_of_SomeD distinct_map inj_on_def prod.inject snd_conv)
  have mem: "map_of ?r x = Some n \<Longrightarrow> n \<in> set (map snd ?r)" for x n by (force dest: map_of_SomeD)
  show ?thesis using assms(2,3) inj mem by (auto simp: tree_change_def Let_def split: if_splits option.splits)
qed

lemma tree_changes_fold:
  "tree_changes current staged =
     foldl (\<lambda>m p. case tree_change current staged (tree_renames current staged) p of None \<Rightarrow> m | Some (k, c) \<Rightarrow> tree_insert k c m)
       [] (sort (remdups (map fst current @ map fst staged)))"
  by (simp add: tree_changes_def tree_renames_def Let_def)

lemma changes_fold:
  fixes ch :: "string \<Rightarrow> (string \<times> 'v) option"
  assumes "\<And>p q k c c'. ch p = Some (k, c) \<Longrightarrow> ch q = Some (k, c') \<Longrightarrow> p = q" "distinct ps"
  shows "tree_ok (foldl (\<lambda>m p. case ch p of None \<Rightarrow> m | Some (k, c) \<Rightarrow> tree_insert k c m) [] ps)
    \<and> set (foldl (\<lambda>m p. case ch p of None \<Rightarrow> m | Some (k, c) \<Rightarrow> tree_insert k c m) [] ps) = {kc. \<exists>p\<in>set ps. ch p = Some kc}"
  using assms(2)
proof (induction ps rule: rev_induct)
  case Nil
  show ?case by (simp add: tree_ok_def)
next
  case (snoc p ps)
  let ?m = "foldl (\<lambda>m p. case ch p of None \<Rightarrow> m | Some (k, c) \<Rightarrow> tree_insert k c m) [] ps"
  have ih: "tree_ok ?m" "set ?m = {kc. \<exists>p\<in>set ps. ch p = Some kc}" using snoc by auto
  show ?case
  proof (cases "ch p")
    case None
    with ih show ?thesis by auto
  next
    case (Some kc)
    obtain k c where kc: "kc = (k, c)" by (cases kc)
    have "k \<notin> fst ` set ?m" using ih(2) assms(1) [OF Some [unfolded kc]] snoc.prems by (auto simp: image_iff)
    with Some kc ih show ?thesis by (auto simp: tree_insert_ok tree_insert_set)
  qed
qed

lemma set_tree_changes:
  assumes "tree_ok current"
  shows "set (tree_changes current staged) = {kc. \<exists>p. tree_change current staged (tree_renames current staged) p = Some kc}"
proof -
  let ?ch = "tree_change current staged (tree_renames current staged)"
  let ?ps = "sort (remdups (map fst current @ map fst staged))"
  have "p \<in> set ?ps" if "?ch p = Some kc" for p kc
  proof (rule ccontr)
    assume "p \<notin> set ?ps"
    then have "map_of current p = None" "map_of staged p = None" by (auto simp: map_of_eq_None_iff)
    with that show False by (simp add: tree_change_def)
  qed
  then have "{kc. \<exists>p\<in>set ?ps. ?ch p = Some kc} = {kc. \<exists>p. ?ch p = Some kc}" by blast
  moreover have "set (tree_changes current staged) = {kc. \<exists>p\<in>set ?ps. ?ch p = Some kc}"
    unfolding tree_changes_fold
    by (rule conjunct2 [OF changes_fold]) (use tree_change_key_inj [OF assms] in \<open>blast, simp\<close>)
  ultimately show ?thesis by simp
qed

lemma tree_change_ok:
  assumes "tree_ok current" "tree_change current staged (tree_renames current staged) p = Some (k, c)"
  shows "change_ok c"
  using assms(2) tree_renames_props(3) [OF assms(1), of p]
  by (force simp: tree_change_def Let_def dest: map_of_SomeD split: if_splits option.splits)


lemma tree_changes_ok: "tree_ok current \<Longrightarrow> \<forall>c\<in>set (map snd (tree_changes current staged)). change_ok c"
  using tree_change_ok by (force simp: set_tree_changes)

section \<open>Rendering\<close>

lemma fit_hunks_subset: "set (fst (fit_hunks n hs)) \<subseteq> set hs"
  by (induction n hs rule: fit_hunks.induct) (auto simp: Let_def split: prod.splits)

lemma fit_hunks_all: "\<not> snd (snd (fit_hunks n hs)) \<Longrightarrow> fst (fit_hunks n hs) = hs"
  by (induction n hs rule: fit_hunks.induct) (auto simp: Let_def split: prod.splits if_splits)

lemma render_files_ok:
  "\<forall>c\<in>set cs. change_ok c \<Longrightarrow> \<forall>f\<in>set (fst (render_files current staged n cs)). file_ok f"
proof (induction current staged n cs rule: render_files.induct)
  case (2 current staged n c cs)
  let ?f = "change_file current staged c"
  obtain hs m cut where fit: "fit_hunks n (df_hunks ?f) = (hs, m, cut)" by (cases "fit_hunks n (df_hunks ?f)") auto
  have f: "file_ok (?f\<lparr>df_hunks := hs\<rparr>)"
    using file_ok_fewer [OF change_file_ok] fit_hunks_subset [of n "df_hunks ?f"] "2.prems" fit by simp
  show ?case
  proof (cases cut)
    case True
    with f fit show ?thesis by (simp add: Let_def)
  next
    case False
    have "\<forall>f\<in>set (fst (render_files current staged m cs)). file_ok f"
      using 2(1) [OF refl fit [symmetric] refl refl refl False] "2.prems" by simp
    with f fit False show ?thesis by (simp add: Let_def split: prod.splits)
  qed
qed simp

lemma render_files_all:
  "\<not> snd (render_files current staged n cs) \<Longrightarrow> fst (render_files current staged n cs) = map (change_file current staged) cs"
proof (induction current staged n cs rule: render_files.induct)
  case (2 current staged n c cs)
  let ?f = "change_file current staged c"
  obtain hs m cut where fit: "fit_hunks n (df_hunks ?f) = (hs, m, cut)" by (cases "fit_hunks n (df_hunks ?f)") auto
  have nc: "\<not> cut" using "2.prems" fit by (simp add: Let_def split: if_splits)
  then have hs: "hs = df_hunks ?f" using fit_hunks_all [of n "df_hunks ?f"] fit by simp
  have "\<not> snd (render_files current staged m cs)" using "2.prems" fit nc by (simp add: Let_def split: prod.splits)
  from 2(1) [OF refl fit [symmetric] refl refl refl nc this] show ?case
    using fit nc hs by (cases "render_files current staged m cs") (simp add: Let_def)
qed simp

definition diff_ok :: "code_diff \<Rightarrow> bool" where
  "diff_ok d \<longleftrightarrow> schema_version d = 1 \<and> (\<forall>f\<in>set (cd_files d). file_ok f)"

lemma diff_ok_valid: "diff_ok d \<Longrightarrow> validate_diff d = Ok ()"
  by (auto simp: diff_ok_def validate_diff_def each_valid_iff file_ok_def)

lemma diff_ok_bytes: "diff_ok d \<Longrightarrow> canonical_bytes to_vec d = Ok (to_vec (sort_object_keys (diff_value d)))"
  by (simp add: canonical_bytes_def diff_ok_valid)

lemma drop_last_hunk_ok: "fs \<noteq> [] \<Longrightarrow> \<forall>f\<in>set fs. file_ok f \<Longrightarrow> \<forall>f\<in>set (drop_last_hunk fs). file_ok f"
  by (cases fs rule: rev_cases) (auto simp: drop_last_hunk_def intro!: file_ok_fewer dest: in_set_butlastD)

definition within_limit :: "(json \<Rightarrow> string) \<Rightarrow> code_diff \<Rightarrow> bool" where
  "within_limit to_vec d \<longleftrightarrow> length (to_vec (sort_object_keys (diff_value d))) \<le> max_canonical_bytes"

lemma shrink_diff_ok:
  "diff_ok d \<Longrightarrow> \<exists>d'. shrink_diff to_vec d = Some d' \<and> diff_ok d' \<and> cd_truncated d' = cd_truncated d
     \<and> (within_limit to_vec d' \<or> cd_files d' = [])"
proof (induction to_vec d rule: shrink_diff.induct)
  case (1 to_vec d)
  note b = diff_ok_bytes [OF "1.prems", of to_vec]
  show ?case
  proof (cases "length (to_vec (sort_object_keys (diff_value d))) > max_canonical_bytes \<and> cd_files d \<noteq> []")
    case True
    have "diff_ok (d\<lparr>cd_files := drop_last_hunk (cd_files d)\<rparr>)"
      using "1.prems" True drop_last_hunk_ok [of "cd_files d"] by (simp add: diff_ok_def)
    from "1.IH" [OF b True this] show ?thesis using True b by (subst shrink_diff.simps) simp
  next
    case False
    with b "1.prems" show ?thesis by (subst shrink_diff.simps) (auto simp: within_limit_def)
  qed
qed

lemma truncate_ok:
  assumes "diff_ok d"
  shows "\<exists>d'. truncate_to_canonical_byte_limit to_vec d = Some d' \<and> diff_ok d' \<and> (within_limit to_vec d' \<or> cd_files d' = [])
    \<and> (cd_truncated d' \<or> d' = d)"
proof (cases "within_limit to_vec d")
  case True
  with assms show ?thesis
    by (simp add: truncate_to_canonical_byte_limit_def diff_ok_bytes within_limit_def)
next
  case False
  have "diff_ok (d\<lparr>cd_truncated := True\<rparr>)" using assms by (simp add: diff_ok_def)
  from shrink_diff_ok [OF this, of to_vec] False assms show ?thesis
    by (auto simp: truncate_to_canonical_byte_limit_def diff_ok_bytes within_limit_def)
qed

lemma compute_cases:
  assumes "tree_ok current"
  shows "(length (tree_changes current staged) > max_changed_files
        \<and> compute_code_diff to_vec new_id current staged = Some (Err TooManyChangedFiles))
    \<or> (\<exists>d. compute_code_diff to_vec new_id current staged = Some (Ok d) \<and> diff_ok d
        \<and> length (tree_changes current staged) \<le> max_changed_files
        \<and> (within_limit to_vec d \<or> cd_files d = [])
        \<and> (cd_truncated d \<or> cd_files d = map (change_file current staged) (map snd (tree_changes current staged))))"
proof (cases "length (tree_changes current staged) > max_changed_files")
  case False
  obtain fs t where r: "render_files current staged 0 (map snd (tree_changes current staged)) = (fs, t)"
    by (cases "render_files current staged 0 (map snd (tree_changes current staged))")
  let ?d = "\<lparr>schema_version = 1, cd_id = new_id, cd_files = fs, cd_truncated = t\<rparr>"
  have "diff_ok ?d" using render_files_ok [OF tree_changes_ok [OF assms], of current staged 0 staged] r by (simp add: diff_ok_def)
  from truncate_ok [OF this, of to_vec] obtain d where
    d: "truncate_to_canonical_byte_limit to_vec ?d = Some d" "diff_ok d" "within_limit to_vec d \<or> cd_files d = []"
       "cd_truncated d \<or> d = ?d" by blast
  moreover have "compute_code_diff to_vec new_id current staged = Some (Ok d)"
    using False r d(1) by (simp add: compute_code_diff_def)
  moreover have "cd_truncated d \<or> cd_files d = map (change_file current staged) (map snd (tree_changes current staged))"
    using d(4) render_files_all [of current staged 0 "map snd (tree_changes current staged)"] r by (cases t) auto
  ultimately show ?thesis using False by simp
qed (simp add: compute_code_diff_def)

section \<open>What a diff shows\<close>

text \<open>What paths hold, before and after.\<close>

definition bytes_at :: "(string \<Rightarrow> string option) \<Rightarrow> string option \<Rightarrow> string option" where
  "bytes_at m p = (case p of None \<Rightarrow> None | Some q \<Rightarrow> m q)"

definition shows_change :: "(string \<Rightarrow> string option) \<Rightarrow> (string \<Rightarrow> string option) \<Rightarrow> diff_file \<Rightarrow> bool" where
  "shows_change before after f \<longleftrightarrow>
     (if df_status f = Renamed then bytes_at before (old_path f) = bytes_at after (new_path f)
      else df_binary f \<or> patch 0 (line_texts (opt_bytes (bytes_at before (old_path f)))) (df_hunks f)
             = Some (line_texts (opt_bytes (bytes_at after (new_path f)))))"

lemma change_file_shows: "snd (snd c) \<noteq> Renamed \<Longrightarrow> shows_change (map_of current) (map_of staged) (change_file current staged c)"
  by (cases c) (auto simp: shows_change_def change_file_def Let_def bytes_at_def patch_text_hunks)

lemma change_file_renamed:
  assumes "tree_ok current" "tree_change current staged (tree_renames current staged) p = Some (k, c)" "snd (snd c) = Renamed"
  shows "shows_change (map_of current) (map_of staged) (change_file current staged c)"
  using assms(2,3) tree_renames_props(3) [OF assms(1), of p]
  by (fastforce simp: tree_change_def shows_change_def change_file_def Let_def bytes_at_def dest: map_of_SomeD split: if_splits option.splits)

lemma change_file_paths:
  "old_path (change_file current staged c) = fst c" "new_path (change_file current staged c) = fst (snd c)"
  "df_status (change_file current staged c) = snd (snd c)"
  by (simp_all add: change_file_def Let_def case_prod_beta)

lemma changed_path_listed:
  assumes "tree_ok current"
  shows "map_of current p \<noteq> map_of staged p
    \<longleftrightarrow> (\<exists>q k c. tree_change current staged (tree_renames current staged) q = Some (k, c) \<and> (fst c = Some p \<or> fst (snd c) = Some p))"
    (is "_ \<longleftrightarrow> ?listed")
proof
  let ?r = "tree_renames current staged"
  assume diff: "map_of current p \<noteq> map_of staged p"
  show ?listed
  proof (cases "p \<in> set (map snd ?r)")
    case True
    then obtain d where dp: "(d, p) \<in> set ?r" by auto
    note rp = tree_renames_props(3) [OF assms dp]
    have "map_of ?r d = Some p" using dp tree_renames_props(1) [OF assms] by simp
    moreover have "d \<notin> set (map snd ?r)" using tree_renames_props(3) [OF assms] rp by fastforce
    ultimately have "tree_change current staged ?r d = Some (p, (Some d, Some p, Renamed))"
      using rp by (auto simp: tree_change_def)
    then show ?thesis by fastforce
  next
    case False
    show ?thesis
    proof (cases "map_of ?r p")
      case None
      have "\<exists>c. tree_change current staged ?r p = Some (p, c) \<and> (fst c = Some p \<or> fst (snd c) = Some p)"
        using False None diff by (auto simp: tree_change_def Let_def split: option.splits)
      then show ?thesis by blast
    next
      case (Some n)
      with False diff have "tree_change current staged ?r p = Some (n, (Some p, Some n, Renamed))" by (simp add: tree_change_def)
      then show ?thesis by fastforce
    qed
  qed
next
  let ?r = "tree_renames current staged"
  assume ?listed
  then obtain q k c where q: "tree_change current staged ?r q = Some (k, c)" "fst c = Some p \<or> fst (snd c) = Some p" by blast
  show "map_of current p \<noteq> map_of staged p"
  proof (cases "map_of ?r q")
    case None
    with q show ?thesis by (auto simp: tree_change_def Let_def split: if_splits option.splits)
  next
    case (Some n)
    from tree_renames_props(3) [OF assms map_of_SomeD [OF Some]] q Some show ?thesis
      by (auto simp: tree_change_def Let_def split: if_splits option.splits)
  qed
qed

lemma diff_exact:
  assumes "tree_ok current" "compute_code_diff to_vec new_id current staged = Some (Ok d)" "\<not> cd_truncated d"
  shows "map_of current p \<noteq> map_of staged p \<longleftrightarrow> (\<exists>f\<in>set (cd_files d). old_path f = Some p \<or> new_path f = Some p)"
    and "\<forall>f\<in>set (cd_files d). shows_change (map_of current) (map_of staged) f"
proof -
  have fs: "cd_files d = map (change_file current staged) (map snd (tree_changes current staged))"
    using compute_cases [OF assms(1), of staged to_vec new_id] assms(2,3) by auto
  have mem: "f \<in> set (cd_files d) \<longleftrightarrow>
      (\<exists>q k c. tree_change current staged (tree_renames current staged) q = Some (k, c) \<and> f = change_file current staged c)" for f
    unfolding fs set_map set_tree_changes [OF assms(1)] by force
  show "map_of current p \<noteq> map_of staged p \<longleftrightarrow> (\<exists>f\<in>set (cd_files d). old_path f = Some p \<or> new_path f = Some p)"
    unfolding changed_path_listed [OF assms(1)] Bex_def mem by (metis change_file_paths(1,2))
  show "\<forall>f\<in>set (cd_files d). shows_change (map_of current) (map_of staged) f"
    unfolding Ball_def mem using change_file_shows change_file_renamed [OF assms(1)] by blast
qed


section \<open>What truncation leaves\<close>

text \<open>A beginning of the files, each with a beginning of its hunks.\<close>

definition fewer_hunks :: "diff_file \<Rightarrow> diff_file \<Rightarrow> bool" where
  "fewer_hunks f g \<longleftrightarrow> (\<exists>n. f = g\<lparr>df_hunks := take n (df_hunks g)\<rparr>)"

fun beginning_of :: "diff_file list \<Rightarrow> diff_file list \<Rightarrow> bool" where
  "beginning_of [] gs = True"
| "beginning_of (f # fs) (g # gs) = (fewer_hunks f g \<and> beginning_of fs gs)"
| "beginning_of (f # fs) [] = False"

lemma fewer_hunks_refl [simp]: "fewer_hunks f f"
  by (auto simp: fewer_hunks_def intro!: exI [of _ "length (df_hunks f)"])

lemma fewer_hunks_trans: "fewer_hunks f g \<Longrightarrow> fewer_hunks g h \<Longrightarrow> fewer_hunks f h"
  by (auto simp: fewer_hunks_def)

lemma beginning_refl [simp]: "beginning_of fs fs"
  by (induction fs) auto

lemma beginning_trans: "beginning_of fs gs \<Longrightarrow> beginning_of gs hs \<Longrightarrow> beginning_of fs hs"
proof (induction fs gs arbitrary: hs rule: beginning_of.induct)
  case (2 f fs g gs)
  then show ?case by (cases hs) (auto intro: fewer_hunks_trans)
qed auto

lemma fewer_hunks_take: "fewer_hunks (g\<lparr>df_hunks := take n (df_hunks g)\<rparr>) g"
  by (auto simp: fewer_hunks_def)

lemma drop_last_beginning: "fs \<noteq> [] \<Longrightarrow> beginning_of (drop_last_hunk fs) fs"
proof (induction fs)
  case (Cons f fs)
  show ?case
  proof (cases "fs = []")
    case True
    then show ?thesis using fewer_hunks_take [where g = f and n = "length (df_hunks f) - 1"] by (simp add: drop_last_hunk_def butlast_conv_take)
  next
    case False
    then have "drop_last_hunk (f # fs) = f # drop_last_hunk fs" by (simp add: drop_last_hunk_def)
    with Cons.IH [OF False] show ?thesis by simp
  qed
qed simp

lemma shrink_beginning: "shrink_diff to_vec d = Some d' \<Longrightarrow> beginning_of (cd_files d') (cd_files d)"
proof (induction to_vec d rule: shrink_diff.induct)
  case (1 to_vec d)
  from "1.prems" obtain bytes where b: "canonical_bytes to_vec d = Ok bytes"
    by (subst (asm) shrink_diff.simps) (auto split: sum.splits)
  show ?case
  proof (cases "length bytes > max_canonical_bytes \<and> cd_files d \<noteq> []")
    case True
    with "1.prems" b have "shrink_diff to_vec (d\<lparr>cd_files := drop_last_hunk (cd_files d)\<rparr>) = Some d'"
      by (subst (asm) shrink_diff.simps) simp
    from "1.IH" [OF b True this] True beginning_trans [OF _ drop_last_beginning] show ?thesis by simp
  next
    case False
    with "1.prems" b have "d' = d" by (subst (asm) shrink_diff.simps) auto
    then show ?thesis by simp
  qed
qed

lemma fit_hunks_take: "\<exists>k. fst (fit_hunks n hs) = take k hs"
proof (induction n hs rule: fit_hunks.induct)
  case (2 n h hs)
  show ?case
  proof (cases "n + length (hk_lines h) > max_rendered_lines")
    case True
    then show ?thesis by (auto intro: exI [of _ 0])
  next
    case False
    with "2.IH" [OF refl] obtain k where "fst (fit_hunks (n + length (hk_lines h)) hs) = take k hs" by auto
    with False show ?thesis by (auto simp: Let_def split: prod.splits intro: exI [of _ "Suc k"])
  qed
qed simp

lemma render_beginning: "beginning_of (fst (render_files current staged n cs)) (map (change_file current staged) cs)"
proof (induction current staged n cs rule: render_files.induct)
  case (2 current staged n c cs)
  let ?f = "change_file current staged c"
  obtain hs m cut where fit: "fit_hunks n (df_hunks ?f) = (hs, m, cut)" by (cases "fit_hunks n (df_hunks ?f)") auto
  have f: "fewer_hunks (?f\<lparr>df_hunks := hs\<rparr>) ?f"
    using fit_hunks_take [of n "df_hunks ?f"] fit by (auto simp: fewer_hunks_def)
  have "\<not> cut \<Longrightarrow> beginning_of (fst (render_files current staged m cs)) (map (change_file current staged) cs)"
    using 2(1) [OF refl fit [symmetric] refl refl refl] by simp
  with fit f show ?case by (auto simp: Let_def split: prod.splits)
qed simp

definition all_files :: "tree \<Rightarrow> tree \<Rightarrow> diff_file list" where
  "all_files current staged = map (change_file current staged) (map snd (tree_changes current staged))"

lemma compute_beginning:
  assumes "compute_code_diff to_vec new_id current staged = Some (Ok d)"
  shows "beginning_of (cd_files d) (all_files current staged)"
proof -
  obtain fs t where r: "render_files current staged 0 (map snd (tree_changes current staged)) = (fs, t)"
    by (cases "render_files current staged 0 (map snd (tree_changes current staged))")
  let ?d = "\<lparr>schema_version = 1, cd_id = new_id, cd_files = fs, cd_truncated = t\<rparr>"
  have "truncate_to_canonical_byte_limit to_vec ?d = Some d" using assms r by (auto simp: compute_code_diff_def Let_def split: if_splits option.splits)
  then have "beginning_of (cd_files d) fs"
    using shrink_beginning [of to_vec "?d\<lparr>cd_truncated := True\<rparr>" d]
    by (auto simp: truncate_to_canonical_byte_limit_def split: sum.splits if_splits)
  moreover have "beginning_of fs (all_files current staged)"
    using render_beginning [of current staged 0 "map snd (tree_changes current staged)"] r by (simp add: all_files_def)
  ultimately show ?thesis by (rule beginning_trans)
qed

section \<open>Properties\<close>

text \<open>C20: 
  The producer never panics on its own output, and always gives a diff that validates: paths match the status, a
  binary file has no hunks, the counts of a hunk are those of its lines, and no line numbers a side it is not on.
  The segments of every line spell its text, and the canonical bytes keep the limit unless no file is left. It gives
  up exactly for more than 200 changed files. What it gives is a beginning of the changed files, each with a beginning of
  its hunks, and it says truncated whenever that is not all of them. A diff that does not say so lists exactly the paths
  whose content changes, and its hunks turn the old lines of every text file into the new ones.\<close>

theorem computed_diff_valid:
  assumes "tree_ok current"
  shows "case compute_code_diff to_vec new_id current staged of
      None \<Rightarrow> False
    | Some (Inl e) \<Rightarrow> length (tree_changes current staged) > max_changed_files
    | Some (Inr d) \<Rightarrow> validate_diff d = Ok () \<and> (within_limit to_vec d \<or> cd_files d = [])
        \<and> (\<forall>x\<in>set (cd_files d). \<forall>h\<in>set (df_hunks x). \<forall>l\<in>set (hk_lines h). spelled l)
        \<and> length (tree_changes current staged) \<le> max_changed_files
        \<and> beginning_of (cd_files d) (all_files current staged) \<and> (cd_files d \<noteq> all_files current staged \<longrightarrow> cd_truncated d)
        \<and> (\<not> cd_truncated d \<longrightarrow>
            (\<forall>p. map_of current p \<noteq> map_of staged p \<longleftrightarrow> (\<exists>x\<in>set (cd_files d). old_path x = Some p \<or> new_path x = Some p))
            \<and> (\<forall>x\<in>set (cd_files d). shows_change (map_of current) (map_of staged) x))"
proof -
  consider "length (tree_changes current staged) > max_changed_files"
      "compute_code_diff to_vec new_id current staged = Some (Err TooManyChangedFiles)"
    | d where "compute_code_diff to_vec new_id current staged = Some (Ok d)" "diff_ok d"
      "length (tree_changes current staged) \<le> max_changed_files" "within_limit to_vec d \<or> cd_files d = []"
      "cd_truncated d \<or> cd_files d = all_files current staged"
    using compute_cases [OF assms, of staged to_vec new_id] unfolding all_files_def by blast
  then show ?thesis
  proof cases
    case 2
    have "\<forall>x\<in>set (cd_files d). \<forall>h\<in>set (df_hunks x). \<forall>l\<in>set (hk_lines h). spelled l"
      using 2(2) by (auto simp: diff_ok_def file_ok_def hunk_ok_def)
    with 2 diff_ok_valid compute_beginning [OF 2(1)] diff_exact [OF assms 2(1)] show ?thesis by auto
  qed simp
qed

theorem computed_diff_valid_witness:
  "\<exists>d. compute_code_diff (\<lambda>_. []) ''d'' [] [(''a'', ''x'')] = Some (Inr d) \<and> beginning_of (cd_files d) (all_files [] [(''a'', ''x'')])"
proof -
  have small: "length (tree_changes [] [(''a'', ''x'')]) = 1" by code_simp
  have "tree_ok []" by (simp add: tree_ok_def)
  from computed_diff_valid [OF this, where to_vec = "\<lambda>_. []" and new_id = "''d''" and staged = "[(''a'', ''x'')]"] small show ?thesis
    by (auto simp: limits split: option.splits sum.splits)
qed

end
