(* ===== verification/Plan_Properties.thy ===== *)
theory Plan_Properties
  imports Plan_Apply Diff_Properties
begin

text \<open>
  From a proposal to the workspace (\<open>code_diff_staging.rs\<close>, \<open>code_diff_observe.rs\<close>, \<open>code_diff_apply.rs\<close>): paths and
  where they lead, what observation and verification establish, the meaning of an operation for the contents of
  paths, and that staging in memory and applying to the file system both refine it.
\<close>

section \<open>Paths\<close>

fun joined :: "char \<Rightarrow> string list \<Rightarrow> string" where
  "joined c [] = []"
| "joined c [x] = x"
| "joined c (x # y # xs) = x @ c # joined c (y # xs)"

lemma joined_split_at: "joined c (split_at {c} s) = s"
proof (induction s)
  case (Cons a s)
  obtain x xs where "split_at {c} s = x # xs" by (cases "split_at {c} s") auto
  with Cons show ?case by (cases xs) auto
qed simp

lemma path_parts_inj: "path_parts p = path_parts q \<Longrightarrow> p = q"
  unfolding path_parts_def by (metis joined_split_at)

lemma valid_path_parts:
  assumes "validate_path p = Ok ()"
  shows "p \<noteq> []" "p ! 0 \<noteq> CHR ''/''" "[] \<notin> set (path_parts p)" "''.'' \<notin> set (path_parts p)" "''..'' \<notin> set (path_parts p)"
  using assms unfolding validate_path_def by (auto split: if_splits)

lemma components_valid:
  assumes "validate_path p = Ok ()"
  shows "components p = map Normal (path_parts p)"
proof -
  note v = valid_path_parts [OF assms]
  have "\<not> is_absolute p" using v(1,2) by (cases p) (auto simp: is_absolute_def starts_with_def)
  moreover have "hd (path_parts p) \<noteq> ''.''" using v(4) by (metis hd_in_set path_parts_def split_at_not_Nil)
  moreover have "concat (map piece_component ps) = map Normal ps" if "set ps \<subseteq> set (path_parts p)" for ps
    using that v(3-5) by (induction ps) (auto simp: piece_component_def)
  ultimately show ?thesis by (simp add: components_def Let_def path_parts_def)
qed

lemma valid_names:
  assumes "validate_path p = Ok ()"
  shows "parent_names p = butlast (path_parts p)" "final_name p = last (path_parts p)" "path_parts p \<noteq> []"
proof -
  show ne: "path_parts p \<noteq> []" by (simp add: path_parts_def)
  then show "parent_names p = butlast (path_parts p)"
    by (simp add: parent_names_def components_valid [OF assms] map_butlast [symmetric] comp_def)
  show "final_name p = last (path_parts p)" using ne
    by (cases "path_parts p" rule: rev_cases) (simp_all add: final_name_def components_valid [OF assms] file_name_def)
qed

lemma valid_position_inj:
  assumes "validate_path p = Ok ()" "validate_path q = Ok ()" "parent_names p = parent_names q" "final_name p = final_name q"
  shows "p = q"
  using assms(3,4) valid_names [OF assms(1)] valid_names [OF assms(2)]
  by (intro path_parts_inj) (metis append_butlast_last_id)

section \<open>What the paths of a workspace hold\<close>

fun dir_at :: "fs \<Rightarrow> nat \<Rightarrow> string list \<Rightarrow> nat option" where
  "dir_at f d [] = Some d"
| "dir_at f d (name # names) = (case entries f d name of Some (DirEntry e) \<Rightarrow> dir_at f e names | _ \<Rightarrow> None)"

lemma open_parent_dir_at: "open_parent f path d names = Ok e \<longleftrightarrow> dir_at f d names = Some e"
  by (induction f path d names rule: open_parent.induct) (auto split: option.splits fs_entry.splits)

definition entry_bytes :: "fs_entry option \<Rightarrow> string option" where
  "entry_bytes e = (case e of Some (FileEntry x) \<Rightarrow> Some (file_bytes x) | _ \<Rightarrow> None)"

definition file_at :: "fs \<Rightarrow> nat \<Rightarrow> string \<Rightarrow> string option" where
  "file_at f root p =
     (case dir_at f root (parent_names p) of None \<Rightarrow> None | Some d \<Rightarrow> entry_bytes (entries f d (final_name p)))"

text \<open>No directory is reached by two paths: the directories of a workspace form a tree.\<close>

definition dirs_unique :: "fs \<Rightarrow> nat \<Rightarrow> bool" where
  "dirs_unique f root \<longleftrightarrow> (\<forall>ns ms d. dir_at f root ns = Some d \<longrightarrow> dir_at f root ms = Some d \<longrightarrow> ns = ms)"

definition file_or_none :: "fs_entry option \<Rightarrow> bool" where
  "file_or_none e \<longleftrightarrow> (case e of None \<Rightarrow> True | Some (FileEntry _) \<Rightarrow> True | _ \<Rightarrow> False)"

text \<open>Only regular files have come, gone or changed.\<close>

definition same_shape :: "fs \<Rightarrow> fs \<Rightarrow> bool" where
  "same_shape f g \<longleftrightarrow>
     (\<forall>d n. if file_or_none (entries f d n) then file_or_none (entries g d n) else entries g d n = entries f d n)"

lemma same_shape_refl [simp]: "same_shape f f"
  by (simp add: same_shape_def)

lemma same_shape_dir_at: "same_shape f g \<Longrightarrow> dir_at g d names = dir_at f d names"
proof (induction f d names rule: dir_at.induct)
  case (2 f d name names)
  have s: "if file_or_none (entries f d name) then file_or_none (entries g d name) else entries g d name = entries f d name"
    using "2.prems" by (simp add: same_shape_def)
  show ?case
  proof (cases "\<exists>e. entries f d name = Some (DirEntry e)")
    case True
    then obtain e where e: "entries f d name = Some (DirEntry e)" by blast
    with s have "entries g d name = Some (DirEntry e)" by (simp add: file_or_none_def)
    with e 2 show ?thesis by simp
  next
    case False
    with s show ?thesis by (auto simp: file_or_none_def split: option.splits fs_entry.splits if_splits)
  qed
qed simp

lemma entries_set_entry [simp]: "entries (set_entry d n e f) d' n' = (if d' = d \<and> n' = n then e else entries f d' n')"
  by (auto simp: set_entry_def)

lemma fs_eqI: "(\<And>d n. entries f d n = entries g d n) \<Longrightarrow> directory_identity f = directory_identity g \<Longrightarrow> f = (g :: fs)"
  by (cases f; cases g) (auto intro!: ext)

lemma set_entry_identity [simp]: "directory_identity (set_entry d n e f) = directory_identity f"
  by (simp add: set_entry_def)

lemma same_shape_set:
  "same_shape f g \<Longrightarrow> file_or_none (entries f d n) \<Longrightarrow> file_or_none e \<Longrightarrow> same_shape f (set_entry d n e g)"
  by (auto simp: same_shape_def)

text \<open>\<open>located f root p d\<close>: the path is valid, its directory is \<open>d\<close> and no directory or link stands at its name.\<close>

definition located :: "fs \<Rightarrow> nat \<Rightarrow> string \<Rightarrow> nat \<Rightarrow> bool" where
  "located f root p d \<longleftrightarrow> validate_path p = Ok () \<and> dir_at f root (parent_names p) = Some d
     \<and> file_or_none (entries f d (final_name p))"

lemma file_at_set:
  assumes "dirs_unique f root" "same_shape f g" "located f root q d" "file_or_none e" "validate_path p = Ok ()"
  shows "file_at (set_entry d (final_name q) e g) root p = (if p = q then entry_bytes e else file_at g root p)"
proof -
  let ?g = "set_entry d (final_name q) e g"
  have da: "dir_at ?g root ns = dir_at f root ns" "dir_at g root ns = dir_at f root ns" for ns
    using assms(2-4) by (auto intro!: same_shape_dir_at same_shape_set simp: located_def)
  show ?thesis
  proof (cases "p = q")
    case True
    with assms(3) show ?thesis by (simp add: file_at_def da located_def)
  next
    case False
    have "\<not> (dir_at f root (parent_names p) = Some d \<and> final_name p = final_name q)"
      using assms(1,3) False valid_position_inj [OF assms(5), of q] by (auto simp: dirs_unique_def located_def)
    with False show ?thesis by (auto simp: file_at_def da split: option.splits)
  qed
qed

section \<open>Observation\<close>

lemma max_file_take: "length (take (unat max_current_file_bytes + 1) b) = unat l \<Longrightarrow> \<not> l > max_current_file_bytes
    \<Longrightarrow> take (unat max_current_file_bytes + 1) b = b"
  by (auto simp: word_less_nat_alt min_def split: if_splits)

definition observed_as :: "(string \<Rightarrow> string) \<Rightarrow> observed_state \<Rightarrow> fs_entry option \<Rightarrow> bool" where
  "observed_as sha256 st e \<longleftrightarrow>
     (case st of Absent \<Rightarrow> e = None | ObservedFile _ s _ _ \<Rightarrow> \<exists>x. e = Some (FileEntry x) \<and> s = sha256 (file_bytes x))"

lemma observed_as_shape: "observed_as sha256 st e \<Longrightarrow> file_or_none e"
  by (auto simp: observed_as_def file_or_none_def split: observed_state.splits)

lemma observe_file_Ok:
  assumes "observe_file sha256 f path parent x current tot = Ok ((ob, d), current', tot')"
  shows "op_path ob = path" "d = parent" "observed_as sha256 (op_state ob) (Some (FileEntry x))"
    "current' = tree_insert path (file_bytes x) current"
proof -
  let ?b = "take (unat max_current_file_bytes + 1) (file_bytes x)"
  have len: "\<not> file_len x > max_current_file_bytes" "length ?b = unat (file_len x)"
    and r: "ob = \<lparr>op_path = path, op_state = ObservedFile (file_len x) (sha256 ?b) (file_mode x) (file_identity x),
        parent_identity = directory_identity f parent\<rparr>" "d = parent" "current' = tree_insert path ?b current"
    using assms unfolding observe_file_def Let_def by (auto split: if_splits option.splits)
  from max_file_take [OF len(2,1)] r show "op_path ob = path" "d = parent"
    "observed_as sha256 (op_state ob) (Some (FileEntry x))" "current' = tree_insert path (file_bytes x) current"
    by (simp_all add: observed_as_def)
qed

lemma observe_path_Ok:
  assumes "observe_path_with_parent sha256 f root path current tot = Ok ((ob, d), current', tot')"
  shows "located f root path d" "op_path ob = path" "observed_as sha256 (op_state ob) (entries f d (final_name path))"
    "current' = (case entry_bytes (entries f d (final_name path)) of None \<Rightarrow> current | Some b \<Rightarrow> tree_insert path b current)"
proof -
  have v: "validate_path path = Ok ()" using assms by (auto simp: observe_path_with_parent_def split: sum.splits)
  from assms v obtain e where e: "open_parent f path root (parent_names path) = Ok e"
    by (auto simp: observe_path_with_parent_def result_bind_Inr_iff)
  have "e = d \<and> op_path ob = path \<and> observed_as sha256 (op_state ob) (entries f d (final_name path))
      \<and> current' = (case entry_bytes (entries f d (final_name path)) of None \<Rightarrow> current | Some b \<Rightarrow> tree_insert path b current)"
  proof (cases "entries f e (final_name path)")
    case None
    with assms v e show ?thesis by (auto simp: observe_path_with_parent_def observed_as_def entry_bytes_def)
  next
    case (Some y)
    with assms v e obtain x where x: "y = FileEntry x"
      by (auto simp: observe_path_with_parent_def split: fs_entry.splits)
    with Some assms v e have "observe_file sha256 f path e x current tot = Ok ((ob, d), current', tot')"
      by (simp add: observe_path_with_parent_def)
    from observe_file_Ok [OF this] Some x show ?thesis by (auto simp: entry_bytes_def)
  qed
  then show "located f root path d" "op_path ob = path" "observed_as sha256 (op_state ob) (entries f d (final_name path))"
    "current' = (case entry_bytes (entries f d (final_name path)) of None \<Rightarrow> current | Some b \<Rightarrow> tree_insert path b current)"
    using v e by (auto simp: located_def open_parent_dir_at dest: observed_as_shape)
qed

lemma compare_state: "compare_observed_path expected observed = Ok () \<Longrightarrow> op_state expected = op_state observed"
  by (auto simp: compare_observed_path_def stale_state_def split: option.splits if_splits observed_state.splits)

lemma map_of_tree_insert: "tree_ok m \<Longrightarrow> map_of (tree_insert k v m) = (map_of m)(k \<mapsto> v)"
proof (induction k v m rule: tree_insert.induct)
  case (2 k v k' v' m)
  then show ?case by (auto simp: tree_ok_def fun_eq_iff)
qed simp

lemma map_of_tree_remove: "map_of (tree_remove k m) = (map_of m)(k := None)"
  by (induction m) (auto simp: tree_remove_def fun_eq_iff)

lemma tree_ok_remove: "tree_ok m \<Longrightarrow> tree_ok (tree_remove k m)"
  by (auto simp: tree_ok_def tree_remove_def sorted_wrt_map intro: sorted_wrt_filter)

section \<open>Verification\<close>

definition verified :: "(string \<Rightarrow> string) \<Rightarrow> fs \<Rightarrow> nat \<Rightarrow> (string \<times> nat) list \<Rightarrow> observed_path \<Rightarrow> bool" where
  "verified sha256 f root parents e \<longleftrightarrow> (\<exists>d. map_of parents (op_path e) = Some d \<and> located f root (op_path e) d
     \<and> observed_as sha256 (op_state e) (entries f d (final_name (op_path e))))"

lemma verify_paths_Ok:
  assumes "verify_paths sha256 f root ps parents current tot = Ok parents'" "tree_ok parents"
    and "\<forall>p d. map_of parents p = Some d \<longrightarrow> dir_at f root (parent_names p) = Some d"
  shows "(\<forall>e\<in>set ps. verified sha256 f root parents' e) \<and> tree_ok parents' \<and> (\<forall>p. map_of parents p \<noteq> None \<longrightarrow> map_of parents' p \<noteq> None)
    \<and> (\<forall>p d. map_of parents' p = Some d \<longrightarrow> dir_at f root (parent_names p) = Some d)"
  using assms
proof (induction sha256 f root ps parents current tot rule: verify_paths.induct)
  case (2 sha256 f root e ps parents current tot)
  obtain ob d current' tot' where obs: "observe_path_with_parent sha256 f root (op_path e) current tot = Ok ((ob, d), current', tot')"
    using "2.prems"(1) by (auto split: sum.splits)
  have cmp: "compare_observed_path e ob = Ok ()"
    and rec: "verify_paths sha256 f root ps (tree_insert (op_path e) d parents) current' tot' = Ok parents'"
    using "2.prems"(1) obs by (auto simp: result_bind_Inr_iff)
  note ob = observe_path_Ok [OF obs]
  have dir: "dir_at f root (parent_names (op_path e)) = Some d" using ob(1) by (simp add: located_def)
  have ins: "map_of (tree_insert (op_path e) d parents) = (map_of parents)(op_path e \<mapsto> d)"
    by (rule map_of_tree_insert) (fact "2.prems"(2))
  have ih: "(\<forall>e\<in>set ps. verified sha256 f root parents' e) \<and> tree_ok parents'
      \<and> (\<forall>p. map_of (tree_insert (op_path e) d parents) p \<noteq> None \<longrightarrow> map_of parents' p \<noteq> None)
      \<and> (\<forall>p d. map_of parents' p = Some d \<longrightarrow> dir_at f root (parent_names p) = Some d)"
    by (rule "2.IH" [OF obs refl refl refl rec]) (use "2.prems"(2,3) dir ins in \<open>auto simp: tree_insert_ok\<close>)
  have "map_of parents' (op_path e) \<noteq> None" using ih ins by simp
  then have "map_of parents' (op_path e) = Some d" using ih dir by force
  then have "verified sha256 f root parents' e"
    using ob compare_state [OF cmp] by (auto simp: verified_def)
  with ih ins show ?case by auto
qed simp

lemma verify_plan_Ok:
  "verify_workspace_write_plan sha256 f (Some root) plan = Ok parents \<Longrightarrow>
     \<forall>e\<in>set (plan_targets plan). verified sha256 f root parents e"
  using verify_paths_Ok [of sha256 f root "plan_targets plan" "[]" "[]" 0 parents]
  by (simp add: verify_workspace_write_plan_def tree_ok_def)


section \<open>Application\<close>

text \<open>What an operation means for the contents of paths.\<close>

fun stage_meaning :: "(string \<Rightarrow> string option) \<Rightarrow> proposed_operation \<Rightarrow> string \<Rightarrow> string option" where
  "stage_meaning m (ProposedWrite p output) = m(p \<mapsto> output)"
| "stage_meaning m (ProposedRename source target) = m(source := None, target := m source)"
| "stage_meaning m (ProposedDelete p) = m(p := None)"

definition op_located :: "fs \<Rightarrow> nat \<Rightarrow> (string \<times> nat) list \<Rightarrow> write_operation \<Rightarrow> bool" where
  "op_located f root parents op \<longleftrightarrow> (\<forall>p\<in>set (op_paths op). located f root p (parent_of parents p))"

lemma located_shape: "same_shape f g \<Longrightarrow> located f root p d \<Longrightarrow> file_or_none (entries g d (final_name p))"
  by (auto simp: located_def same_shape_def)

lemma file_or_none_bytes: "file_or_none e \<Longrightarrow> e \<noteq> None \<Longrightarrow> \<exists>x. e = Some (FileEntry x)"
  by (auto simp: file_or_none_def split: option.splits fs_entry.splits)

lemma temporary_not_final: "temporary_name p env \<noteq> final_name p"
proof
  assume "temporary_name p env = final_name p"
  then have "length (temporary_name p env) = length (final_name p)" by simp
  then show False by (simp add: temporary_name_def)
qed

lemma write_Ok:
  assumes "apply_write f d p output mode env = (Ok (), f')"
  shows "\<exists>x. file_bytes x = output \<and> f' = set_entry d (final_name p) (Some (FileEntry x)) f"
proof -
  let ?t = "temporary_name p env"
  define x where "x = \<lparr>file_bytes = output, file_len = of_nat (length output), st_mode = mode, file_identity = env_identity env\<rparr>"
  have w: "write_through f d p output mode env = (True, f')" using assms by (auto simp: apply_write_def split: prod.splits bool.splits)
  then have none: "entries f d ?t = None"
    and r: "rename_entry d ?t d (final_name p) (set_entry d ?t (Some (FileEntry x)) f) = Some f'"
    by (auto simp: write_through_def Let_def x_def split: if_splits option.splits)
  have "f' = set_entry d (final_name p) (Some (FileEntry x)) f"
    using r none temporary_not_final [of p env]
    by (intro fs_eqI) (auto simp: rename_entry_def split: if_splits)
  then show ?thesis by (intro exI [of _ x]) (simp add: x_def)
qed

lemma apply_operation_Ok:
  assumes "dirs_unique f root" "same_shape f g" "op_located f root parents op"
    and "apply_operation parents env op g = (Ok (), g')"
  shows "same_shape f g'"
    and "validate_path p = Ok () \<Longrightarrow> file_at g' root p = stage_meaning (file_at g root) (proposed_of op) p"
proof -
  have "same_shape f g' \<and> (\<forall>p. validate_path p = Ok () \<longrightarrow> file_at g' root p = stage_meaning (file_at g root) (proposed_of op) p)"
  proof (cases op)
    case (WriteOp target out mode)
    let ?p = "op_path target" and ?d = "parent_of parents (op_path target)"
    have l: "located f root ?p ?d" using assms(3) WriteOp by (simp add: op_located_def op_paths_def)
    from write_Ok assms(4) WriteOp obtain x where
      x: "file_bytes x = out" "g' = set_entry ?d (final_name ?p) (Some (FileEntry x)) g" by fastforce
    have fx: "file_or_none (Some (FileEntry x))" by (simp add: file_or_none_def)
    show ?thesis using l x fx assms(1,2) WriteOp
      by (auto simp: file_at_set entry_bytes_def located_def intro: same_shape_set)
  next
    case (RenameOp source target)
    let ?s = "op_path source" and ?t = "op_path target"
    let ?ds = "parent_of parents ?s" and ?dt = "parent_of parents ?t"
    have l: "located f root ?s ?ds" "located f root ?t ?dt" using assms(3) RenameOp by (simp_all add: op_located_def op_paths_def)
    have r: "rename_entry ?ds (final_name ?s) ?dt (final_name ?t) g = Some g'"
      using assms(4) RenameOp by (auto split: option.splits if_splits)
    then have g': "g' = set_entry ?dt (final_name ?t) (entries g ?ds (final_name ?s)) (set_entry ?ds (final_name ?s) None g)"
      by (auto simp: rename_entry_def split: if_splits)
    let ?e = "entries g ?ds (final_name ?s)" and ?g = "set_entry ?ds (final_name ?s) None g"
    have fe: "file_or_none ?e" "file_or_none None" using located_shape [OF assms(2) l(1)] by (auto simp: file_or_none_def)
    have sg: "same_shape f ?g" using l assms(2) fe by (auto simp: located_def intro: same_shape_set)
    have bytes: "entry_bytes ?e = file_at g root ?s"
      using l(1) same_shape_dir_at [OF assms(2)] by (simp add: file_at_def located_def)
    show ?thesis using g' sg l fe bytes RenameOp assms(1,2)
      by (auto simp: file_at_set [OF assms(1) sg] file_at_set [OF assms(1,2) l(1)] located_def intro: same_shape_set)
        (simp_all add: entry_bytes_def)
  next
    case (DeleteOp target)
    let ?p = "op_path target" and ?d = "parent_of parents (op_path target)"
    have l: "located f root ?p ?d" using assms(3) DeleteOp by (simp add: op_located_def op_paths_def)
    have "g' = set_entry ?d (final_name ?p) None g"
      using assms(4) DeleteOp by (auto simp: remove_entry_def split: option.splits if_splits fs_entry.splits)
    moreover have "file_or_none None" by (simp add: file_or_none_def)
    ultimately show ?thesis using l assms(1,2) DeleteOp
      by (auto simp: file_at_set entry_bytes_def located_def intro: same_shape_set)
  qed
  then show "same_shape f g'" "validate_path p = Ok () \<Longrightarrow> file_at g' root p = stage_meaning (file_at g root) (proposed_of op) p" by auto
qed


definition agree :: "string set \<Rightarrow> (string \<Rightarrow> string option) \<Rightarrow> (string \<Rightarrow> string option) \<Rightarrow> bool" where
  "agree S m m' \<longleftrightarrow> (\<forall>p\<in>S. m p = m' p)"

lemma agree_step: "agree S m m' \<Longrightarrow> set (proposed_paths op) \<subseteq> S \<Longrightarrow> agree S (stage_meaning m op) (stage_meaning m' op)"
  by (cases op) (auto simp: agree_def)

lemma agree_all:
  "agree S m m' \<Longrightarrow> \<forall>op\<in>set ops. set (proposed_paths op) \<subseteq> S \<Longrightarrow> agree S (foldl stage_meaning m ops) (foldl stage_meaning m' ops)"
  by (induction ops arbitrary: m m') (auto simp: agree_step)

lemma meaning_outside: "\<forall>op\<in>set ops. p \<notin> set (proposed_paths op) \<Longrightarrow> foldl stage_meaning m ops p = m p"
proof (induction ops arbitrary: m)
  case (Cons op ops)
  then have "foldl stage_meaning m (op # ops) p = stage_meaning m op p" by simp
  also have "\<dots> = m p" using Cons.prems by (cases op) auto
  finally show ?case .
qed simp

lemma proposed_paths_of: "proposed_paths (proposed_of op) = op_paths op"
  by (cases op) (auto simp: op_paths_def)

lemma apply_operations_Ok:
  assumes "dirs_unique f root" "same_shape f g" "\<forall>op\<in>set ops. op_located f root parents op"
    and "apply_operations parents env i ops g = (Ok (), g')"
    and "agree {p. validate_path p = Ok ()} (file_at g root) m"
  shows "agree {p. validate_path p = Ok ()} (file_at g' root) (foldl stage_meaning m (map proposed_of ops))"
  using assms
proof (induction parents env i ops g arbitrary: m rule: apply_operations.induct)
  case (2 parents env i op ops g)
  obtain g1 where step: "apply_operation parents (env i) op g = (Ok (), g1)"
    and rest: "apply_operations parents env (i + 1) ops g1 = (Ok (), g')"
    using "2.prems"(4) by (auto split: prod.splits sum.splits)
  have loc: "op_located f root parents op" using "2.prems"(3) by simp
  note s = apply_operation_Ok [OF "2.prems"(1,2) loc step]
  have "set (proposed_paths (proposed_of op)) \<subseteq> {p. validate_path p = Ok ()}"
    using loc by (auto simp: op_located_def located_def proposed_paths_of)
  from agree_step [OF "2.prems"(5) this]
  have "agree {p. validate_path p = Ok ()} (file_at g1 root) (stage_meaning m (proposed_of op))"
    using s(2) by (auto simp: agree_def)
  from "2.IH" [OF step [symmetric] refl "2.prems"(1) s(1) _ rest this] "2.prems"(3) show ?case by simp
qed simp

section \<open>Staging\<close>

lemma stage_operation_meaning:
  "stage_operation t op = Ok t' \<Longrightarrow> tree_ok t \<Longrightarrow> tree_ok t' \<and> map_of t' = stage_meaning (map_of t) op"
proof (cases op)
  case (ProposedRename s u)
  assume "stage_operation t op = Ok t'" "tree_ok t"
  then obtain b where "map_of t s = Some b" "t' = tree_insert u b (tree_remove s t)"
    using ProposedRename by (auto simp: Let_def split: option.splits if_splits)
  with \<open>tree_ok t\<close> ProposedRename show ?thesis
    by (simp add: tree_insert_ok tree_ok_remove map_of_tree_insert map_of_tree_remove)
qed (auto simp: tree_insert_ok map_of_tree_insert map_of_tree_remove tree_ok_remove split: if_splits)

lemma stage_all_meaning:
  "stage_all t ops = Ok t' \<Longrightarrow> tree_ok t \<Longrightarrow> map_of t' = foldl stage_meaning (map_of t) ops"
  by (induction t ops rule: stage_all.induct) (auto simp: result_bind_Inr_iff dest: stage_operation_meaning)

lemma plan_paths_Ok: "plan_paths seen ps = Ok seen' \<Longrightarrow> distinct ps \<and> set ps \<inter> set seen = {} \<and> set seen' = set seen \<union> set ps"
  by (induction seen ps rule: plan_paths.induct) (auto split: if_splits)

lemma validate_plan_Ok:
  "validate_plan_from seen tot ops = Ok () \<Longrightarrow> distinct (concat (map op_paths ops)) \<and> set (concat (map op_paths ops)) \<inter> set seen = {}
     \<and> list_all has_valid_observed_states ops"
proof (induction seen tot ops rule: validate_plan_from.induct)
  case (2 seen tot op ops)
  obtain seen' where pp: "plan_paths seen (op_paths op) = Ok seen'"
    and rest: "validate_plan_from seen' (tot + output_len op) ops = Ok ()" and v: "has_valid_observed_states op"
    using "2.prems" by (auto simp: result_bind_Inr_iff split: if_splits)
  have "distinct (concat (map op_paths ops)) \<and> set (concat (map op_paths ops)) \<inter> set seen' = {} \<and> list_all has_valid_observed_states ops"
    using 2 rest by (auto split: if_splits)
  with plan_paths_Ok [OF pp] v show ?case by auto
qed simp

lemma stage_all_total:
  assumes "distinct (concat (map op_paths ops))" "list_all has_valid_observed_states ops" "tree_ok t"
    and "\<forall>e\<in>set (plan_targets ops). op_state e \<noteq> Absent \<longleftrightarrow> map_of t (op_path e) \<noteq> None"
  shows "\<exists>t'. stage_all t (map proposed_of ops) = Ok t'"
  using assms
proof (induction ops arbitrary: t)
  case (Cons op ops)
  have "\<exists>t1. stage_operation t (proposed_of op) = Ok t1"
    using Cons.prems by (cases op) (auto simp: plan_targets_def op_paths_def map_of_tree_remove Let_def split: option.splits)
  then obtain t1 where t1: "stage_operation t (proposed_of op) = Ok t1" by blast
  note m = stage_operation_meaning [OF t1 Cons.prems(3)]
  have "map_of t1 (op_path e) = map_of t (op_path e)" if "e \<in> set (plan_targets ops)" for e
  proof -
    have "op_path e \<in> set (concat (map op_paths ops))" using that by (auto simp: plan_targets_def op_paths_def)
    then have "op_path e \<notin> set (op_paths op)" using Cons.prems(1) by auto
    then show ?thesis using m meaning_outside [of "[proposed_of op]" "op_path e" "map_of t"] by (simp add: proposed_paths_of)
  qed
  then have "\<exists>t'. stage_all t1 (map proposed_of ops) = Ok t'"
    using Cons.IH [of t1] Cons.prems m by (auto simp: plan_targets_def)
  with t1 show ?case by auto
qed simp


section \<open>From the proposal to the workspace\<close>

definition observed_in :: "(string \<Rightarrow> string) \<Rightarrow> fs \<Rightarrow> nat \<Rightarrow> observed_path \<Rightarrow> bool" where
  "observed_in sha256 f root e \<longleftrightarrow>
     (\<exists>d. located f root (op_path e) d \<and> observed_as sha256 (op_state e) (entries f d (final_name (op_path e))))"

lemma observed_in_file:
  assumes "observed_in sha256 f root e"
  shows "case op_state e of Absent \<Rightarrow> file_at f root (op_path e) = None
    | ObservedFile _ s _ _ \<Rightarrow> \<exists>b. file_at f root (op_path e) = Some b \<and> s = sha256 b"
  using assms by (auto simp: observed_in_def observed_as_def located_def file_at_def entry_bytes_def split: observed_state.splits)

text \<open>The tree read so far: what the paths of \<open>S\<close> hold, over the tree there was.\<close>

definition read_into :: "fs \<Rightarrow> nat \<Rightarrow> string set \<Rightarrow> tree \<Rightarrow> tree \<Rightarrow> bool" where
  "read_into f root S t t' \<longleftrightarrow> tree_ok t' \<and> (\<forall>p. map_of t' p = (if p \<in> S \<and> file_at f root p \<noteq> None then file_at f root p else map_of t p))"

lemma read_into_trans: "read_into f root S t t' \<Longrightarrow> read_into f root S' t' t'' \<Longrightarrow> read_into f root (S \<union> S') t t''"
  by (auto simp: read_into_def)

lemma observe_path_reads:
  assumes "observe_path sha256 f root path t tot = Ok (e, t', tot')" "tree_ok t"
  shows "op_path e = path" "observed_in sha256 f root e" "read_into f root {path} t t'"
proof -
  obtain d where obs: "observe_path_with_parent sha256 f root path t tot = Ok ((e, d), t', tot')"
    using assms(1) by (auto simp: observe_path_def result_bind_Inr_iff split: prod.splits)
  note o' = observe_path_Ok [OF obs]
  have "file_at f root path = entry_bytes (entries f d (final_name path))" using o'(1) by (simp add: located_def file_at_def)
  with o' assms(2) show "op_path e = path" "observed_in sha256 f root e" "read_into f root {path} t t'"
    by (auto simp: observed_in_def read_into_def map_of_tree_insert tree_insert_ok split: option.splits)
qed

lemma observe_operation_reads:
  assumes "observe_operation sha256 f root op t tot = Ok (w, t', tot')" "tree_ok t"
  shows "proposed_of w = op \<and> (\<forall>e\<in>set (op_targets w). observed_in sha256 f root e) \<and> read_into f root (set (proposed_paths op)) t t'"
proof (cases op)
  case (ProposedRename s u)
  then obtain es t1 tot1 eu where r: "observe_path sha256 f root s t tot = Ok (es, t1, tot1)"
      "observe_path sha256 f root u t1 tot1 = Ok (eu, t', tot')" "w = RenameOp es eu"
    using assms(1) by (auto simp: result_bind_Inr_iff)
  note a = observe_path_reads [OF r(1) assms(2)]
  then have "tree_ok t1" by (simp add: read_into_def)
  note b = observe_path_reads [OF r(2) this]
  show ?thesis using a b r(3) ProposedRename read_into_trans [OF a(3) b(3)] by (auto simp: insert_commute)
qed (use assms in \<open>auto simp: result_bind_Inr_iff dest: observe_path_reads\<close>)

lemma observe_operations_reads:
  assumes "observe_operations sha256 f root ops t tot = Ok (ws, t')" "tree_ok t"
  shows "map proposed_of ws = ops \<and> (\<forall>e\<in>set (plan_targets ws). observed_in sha256 f root e)
    \<and> read_into f root (set (concat (map proposed_paths ops))) t t'"
  using assms
proof (induction sha256 f root ops t tot arbitrary: ws t' rule: observe_operations.induct)
  case (1 sha256 f root t tot)
  then show ?case by (auto simp: plan_targets_def read_into_def)
next
  case (2 sha256 f root op ops t tot)
  obtain w t1 tot1 ws1 where r: "observe_operation sha256 f root op t tot = Ok (w, t1, tot1)"
      "observe_operations sha256 f root ops t1 tot1 = Ok (ws1, t')" "ws = w # ws1"
    using "2.prems"(1) by (auto simp: result_bind_Inr_iff)
  note a = observe_operation_reads [OF r(1) "2.prems"(2)]
  then have "tree_ok t1" by (simp add: read_into_def)
  from "2.IH" [OF r(2) this] a read_into_trans [of f root _ t t1 _ t'] r(3) show ?case
    by (auto simp: plan_targets_def)
qed

lemma observe_plan_reads:
  assumes "observe_workspace_write_plan sha256 f (Some root) proposed = Ok (plan, current)"
  shows "map proposed_of plan = proposed" "\<forall>e\<in>set (plan_targets plan). observed_in sha256 f root e"
    "validate_operations proposed = Ok ()" "validate_plan plan = Ok ()" "tree_ok current"
    "map_of current p = (if p \<in> set (concat (map proposed_paths proposed)) then file_at f root p else None)"
proof -
  have v: "validate_operations proposed = Ok ()"
    using assms by (auto simp: observe_workspace_write_plan_def split: sum.splits)
  then obtain ops where "observe_operations sha256 f root proposed [] 0 = Ok (ops, current)" "new_plan ops = Ok plan"
    using assms by (auto simp: observe_workspace_write_plan_def result_bind_Inr_iff) (auto split: sum.splits)
  note o' = v this
  from o' have p: "plan = ops" "validate_plan plan = Ok ()" by (auto simp: new_plan_def result_bind_Inr_iff)
  from observe_operations_reads [OF o'(2)] p o'(1)
  show "map proposed_of plan = proposed" "\<forall>e\<in>set (plan_targets plan). observed_in sha256 f root e"
    "validate_operations proposed = Ok ()" "validate_plan plan = Ok ()" "tree_ok current"
    "map_of current p = (if p \<in> set (concat (map proposed_paths proposed)) then file_at f root p else None)"
    by (auto simp: read_into_def tree_ok_def)
qed

lemma staging_succeeds:
  assumes "observe_workspace_write_plan sha256 f (Some root) proposed = Ok (plan, current)"
  shows "\<exists>staged. stage_proposed_operations current proposed = Ok staged
    \<and> (\<forall>p. map_of staged p = foldl stage_meaning (map_of current) proposed p)"
proof -
  note r = observe_plan_reads [OF assms]
  have v: "distinct (concat (map op_paths plan))" "list_all has_valid_observed_states plan"
    using r(4) validate_plan_Ok [of "[]" 0 plan] by (auto simp: validate_plan_def split: if_splits)
  have st: "op_state e \<noteq> Absent \<longleftrightarrow> map_of current (op_path e) \<noteq> None" if "e \<in> set (plan_targets plan)" for e
  proof -
    have "op_path e \<in> set (concat (map proposed_paths proposed))"
      using that r(1) by (auto simp: plan_targets_def proposed_paths_of op_paths_def simp flip: r(1))
    then have "map_of current (op_path e) = file_at f root (op_path e)" using r(6) by simp
    with observed_in_file [of sha256 f root e] r(2) that show ?thesis by (auto split: observed_state.splits)
  qed
  with stage_all_total [OF v r(5)] obtain staged where "stage_all current proposed = Ok staged" by (auto simp: r(1))
  with r(3) stage_all_meaning [OF this r(5)] show ?thesis by (auto simp: stage_proposed_operations_def)
qed

lemma verified_located: "verified sha256 f root parents e \<Longrightarrow> located f root (op_path e) (parent_of parents (op_path e)) \<and> observed_in sha256 f root e"
  by (auto simp: verified_def parent_of_def observed_in_def)

lemma apply_plan_meaning:
  assumes "verify_workspace_write_plan sha256 f (Some root) plan = Ok parents"
    and "apply_workspace_write_plan env plan parents f = (Ok (), f')" "dirs_unique f root" "validate_path p = Ok ()"
  shows "file_at f' root p = foldl stage_meaning (file_at f root) (map proposed_of plan) p"
proof -
  have loc: "\<forall>op\<in>set plan. op_located f root parents op"
    using verify_plan_Ok [OF assms(1)] verified_located by (fastforce simp: op_located_def op_paths_def plan_targets_def)
  have "apply_operations parents env 0 plan f = (Ok (), f')"
    using assms(2) by (auto simp: apply_workspace_write_plan_def split: sum.splits)
  from apply_operations_Ok [OF assms(3) same_shape_refl loc this, of "file_at f root"] assms(4) show ?thesis
    by (simp add: agree_def)
qed

lemma verified_contents:
  assumes "observe_workspace_write_plan sha256 f0 (Some root0) proposed = Ok (plan, current)"
    and "verify_workspace_write_plan sha256 f (Some root) plan = Ok parents"
    and "\<forall>p b b'. map_of current p = Some b \<longrightarrow> file_at f root p = Some b' \<longrightarrow> sha256 b = sha256 b' \<longrightarrow> b = b'"
    and "p \<in> set (concat (map proposed_paths proposed))"
  shows "file_at f root p = map_of current p"
proof -
  note r = observe_plan_reads [OF assms(1)]
  from assms(4) obtain e where e: "e \<in> set (plan_targets plan)" "op_path e = p"
    by (auto simp: plan_targets_def proposed_paths_of op_paths_def simp flip: r(1))
  have c: "map_of current p = file_at f0 root0 p" using r(6) assms(4) by simp
  have "observed_in sha256 f0 root0 e" "observed_in sha256 f root e"
    using r(2) e verify_plan_Ok [OF assms(2)] verified_located by auto
  note o' = this [THEN observed_in_file, unfolded e(2)]
  show ?thesis
  proof (cases "op_state e")
    case Absent
    with o' c show ?thesis by simp
  next
    case (ObservedFile l s m i)
    with o' obtain b b' where "file_at f0 root0 p = Some b" "file_at f root p = Some b'" "sha256 b = sha256 b'" by auto
    with assms(3) c show ?thesis by metis
  qed
qed

lemma approved_tree:
  assumes "observe_workspace_write_plan sha256 f0 (Some root0) proposed = Ok (plan, current)"
    and "verify_workspace_write_plan sha256 f (Some root) plan = Ok parents"
    and "apply_workspace_write_plan env plan parents f = (Ok (), f')" "dirs_unique f root"
    and "\<forall>p b b'. map_of current p = Some b \<longrightarrow> file_at f root p = Some b' \<longrightarrow> sha256 b = sha256 b' \<longrightarrow> b = b'"
    and "stage_proposed_operations current proposed = Ok staged" "validate_path p = Ok ()"
  shows "if p \<in> set (concat (map proposed_paths proposed)) then file_at f root p = map_of current p \<and> file_at f' root p = map_of staged p
    else file_at f' root p = file_at f root p \<and> map_of current p = None \<and> map_of staged p = None"
proof -
  let ?S = "set (concat (map proposed_paths proposed))"
  note r = observe_plan_reads [OF assms(1)]
  have st: "map_of staged p = foldl stage_meaning (map_of current) proposed p" for p
    using staging_succeeds [OF assms(1)] assms(6) by simp
  have f': "file_at f' root p = foldl stage_meaning (file_at f root) proposed p"
    using apply_plan_meaning [OF assms(2-4,7)] r(1) by simp
  have "agree ?S (file_at f root) (map_of current)"
    using verified_contents [OF assms(1,2,5)] by (auto simp: agree_def)
  from agree_all [OF this, of proposed] have ag: "agree ?S (foldl stage_meaning (file_at f root) proposed) (foldl stage_meaning (map_of current) proposed)"
    by auto
  show ?thesis
  proof (cases "p \<in> ?S")
    case True
    with ag have "foldl stage_meaning (file_at f root) proposed p = foldl stage_meaning (map_of current) proposed p"
      unfolding agree_def by blast
    with True f' st [of p] verified_contents [OF assms(1,2,5)] show ?thesis by simp
  next
    case False
    then have "foldl stage_meaning m proposed p = m p" for m by (intro meaning_outside) auto
    with False f' st r(6) show ?thesis by simp
  qed
qed


section \<open>An application that fails\<close>

definition same_dirs :: "fs \<Rightarrow> fs \<Rightarrow> bool" where
  "same_dirs f g \<longleftrightarrow> (\<forall>d n e. entries f d n = Some (DirEntry e) \<longleftrightarrow> entries g d n = Some (DirEntry e))"

lemma same_dirs_dir_at: "same_dirs f g \<Longrightarrow> dir_at g d names = dir_at f d names"
proof (induction f d names rule: dir_at.induct)
  case (2 f d name names)
  have e: "entries f d name = Some (DirEntry e) \<longleftrightarrow> entries g d name = Some (DirEntry e)" for e
    using "2.prems" by (simp add: same_dirs_def)
  show ?case
  proof (cases "\<exists>e. entries f d name = Some (DirEntry e)")
    case True
    then obtain x where x: "entries f d name = Some (DirEntry x)" by blast
    then have "entries g d name = Some (DirEntry x)" using e by simp
    with x 2 show ?thesis by simp
  next
    case False
    then have "dir_at f d (name # names) = None" by (auto split: option.splits fs_entry.splits)
    moreover have "\<And>x. entries g d name \<noteq> Some (DirEntry x)" using False e by blast
    then have "dir_at g d (name # names) = None" by (auto split: option.splits fs_entry.splits)
    ultimately show ?thesis by simp
  qed
qed simp

lemma apply_write_Err:
  assumes "apply_write f d p out mode env = (Err e, f')"
  shows "same_dirs f f'" "n \<noteq> temporary_name p env \<Longrightarrow> entries f' d' n = entries f d' n" "d' \<noteq> d \<Longrightarrow> entries f' d' = entries f d'"
proof -
  let ?t = "temporary_name p env"
  obtain g where w: "write_through f d p out mode env = (False, g)"
    and f': "f' = (if env_cleanup_fails env then g else case remove_entry d ?t g of None \<Rightarrow> g | Some f'' \<Rightarrow> f'')"
    using assms by (auto simp: apply_write_def split: prod.splits bool.splits)
  have g: "g = f \<or> (entries f d ?t = None \<and> (\<exists>x. g = set_entry d ?t (Some (FileEntry x)) f))"
    using w by (auto simp: write_through_def Let_def split: if_splits option.splits)
  have h: "f' = g \<or> (\<not> is_dir (entries g d ?t) \<and> f' = set_entry d ?t None g)"
    using f' by (auto simp: remove_entry_def is_dir_def split: if_splits option.splits fs_entry.splits)
  from g h have "f' = f \<or> (\<exists>e. f' = set_entry d ?t e f \<and> \<not> is_dir e \<and> \<not> is_dir (entries f d ?t))
      \<or> (\<exists>x. f' = set_entry d ?t None (set_entry d ?t (Some (FileEntry x)) f) \<and> \<not> is_dir (entries f d ?t))"
    by (auto simp: is_dir_def)
  then show "same_dirs f f'" "n \<noteq> temporary_name p env \<Longrightarrow> entries f' d' n = entries f d' n" "d' \<noteq> d \<Longrightarrow> entries f' d' = entries f d'"
    by (auto simp: same_dirs_def is_dir_def fun_eq_iff split: if_splits)
qed

definition temporary_names :: "(nat \<Rightarrow> write_env) \<Rightarrow> write_operation list \<Rightarrow> string set" where
  "temporary_names env plan = {temporary_name (op_path e) (env i) | e i. e \<in> set (plan_targets plan)}"

lemma apply_operation_Err:
  assumes "apply_operation parents env op g = (Err e, g')"
    and "final_name p \<notin> {temporary_name (op_path t) env | t. t \<in> set (op_targets op)}"
  shows "file_at g' root p = file_at g root p"
proof (cases op)
  case (WriteOp target out mode)
  with assms(1) have "apply_write g (parent_of parents (op_path target)) (op_path target) out mode env = (Err e, g')" by simp
  note w = apply_write_Err [OF this]
  show ?thesis using same_dirs_dir_at [OF w(1)] w(2) [of "final_name p"] assms(2) WriteOp
    by (auto simp: file_at_def split: option.splits)
qed (use assms in \<open>auto split: option.splits if_splits\<close>)

lemma apply_operations_Err:
  assumes "dirs_unique f root" "same_shape f g" "\<forall>op\<in>set ops. op_located f root parents op"
    and "apply_operations parents env i ops g = (Err e, g')"
    and "agree {p. validate_path p = Ok ()} (file_at g root) m"
  shows "\<exists>k<length ops. agree {p. validate_path p = Ok () \<and> final_name p \<notin> temporary_names env ops} (file_at g' root)
    (foldl stage_meaning m (map proposed_of (take k ops)))"
  using assms
proof (induction parents env i ops g arbitrary: m rule: apply_operations.induct)
  case (2 parents env i op ops g)
  show ?case
  proof (cases "fst (apply_operation parents (env i) op g)")
    case (Inl e')
    then have "apply_operation parents (env i) op g = (Err e', g')"
      using "2.prems"(4) by (auto split: prod.splits)
    from apply_operation_Err [OF this] "2.prems"(5) have
      "agree {p. validate_path p = Ok () \<and> final_name p \<notin> temporary_names env (op # ops)} (file_at g' root) m"
      unfolding agree_def temporary_names_def plan_targets_def by fastforce
    then show ?thesis by (intro exI [of _ 0]) simp
  next
    case (Inr u)
    then obtain g1 where step: "apply_operation parents (env i) op g = (Ok (), g1)" by (cases "apply_operation parents (env i) op g") auto
    have rest: "apply_operations parents env (i + 1) ops g1 = (Err e, g')" using "2.prems"(4) step by simp
    have loc: "op_located f root parents op" using "2.prems"(3) by simp
    note s = apply_operation_Ok [OF "2.prems"(1,2) loc step]
    have "set (proposed_paths (proposed_of op)) \<subseteq> {p. validate_path p = Ok ()}"
      using loc by (auto simp: op_located_def located_def proposed_paths_of)
    from agree_step [OF "2.prems"(5) this]
    have "agree {p. validate_path p = Ok ()} (file_at g1 root) (stage_meaning m (proposed_of op))"
      using s(2) by (auto simp: agree_def)
    from "2.IH" [OF step [symmetric] refl "2.prems"(1) s(1) _ rest this] "2.prems"(3)
    obtain k where k: "k < length ops" "agree {p. validate_path p = Ok () \<and> final_name p \<notin> temporary_names env ops} (file_at g' root)
        (foldl stage_meaning (stage_meaning m (proposed_of op)) (map proposed_of (take k ops)))" by auto
    have "temporary_names env ops \<subseteq> temporary_names env (op # ops)" by (auto simp: temporary_names_def plan_targets_def)
    with k have "agree {p. validate_path p = Ok () \<and> final_name p \<notin> temporary_names env (op # ops)} (file_at g' root)
        (foldl stage_meaning m (map proposed_of (take (Suc k) (op # ops))))"
      by (auto simp: agree_def)
    with k(1) show ?thesis by (intro exI [of _ "Suc k"]) simp
  qed
qed simp

text \<open>Whatever happens, only the directories of the plan's paths are touched.\<close>

lemma apply_operation_dirs:
  assumes "apply_operation parents env op g = (r, g')" "\<forall>p\<in>set (op_paths op). parent_of parents p \<noteq> d"
  shows "entries g' d = entries g d"
proof (cases op)
  case (WriteOp target out mode)
  let ?d = "parent_of parents (op_path target)"
  have w: "apply_write g ?d (op_path target) out mode env = (r, g')" and ne: "d \<noteq> ?d"
    using assms WriteOp by (auto simp: op_paths_def)
  show ?thesis
  proof (cases r)
    case (Inl e)
    with apply_write_Err(3) w ne show ?thesis by blast
  next
    case (Inr u)
    with write_Ok w obtain x where "g' = set_entry ?d (final_name (op_path target)) (Some (FileEntry x)) g" by fastforce
    with ne show ?thesis by (auto simp: fun_eq_iff)
  qed
qed (use assms in \<open>auto simp: op_paths_def rename_entry_def remove_entry_def fun_eq_iff split: option.splits if_splits fs_entry.splits\<close>)

lemma apply_operations_dirs:
  "apply_operations parents env i ops g = (r, g') \<Longrightarrow> \<forall>op\<in>set ops. \<forall>p\<in>set (op_paths op). parent_of parents p \<noteq> d
     \<Longrightarrow> entries g' d = entries g d"
proof (induction parents env i ops g rule: apply_operations.induct)
  case (2 parents env i op ops g)
  obtain r1 g1 where s: "apply_operation parents (env i) op g = (r1, g1)" by (cases "apply_operation parents (env i) op g")
  have "entries g1 d = entries g d" using apply_operation_dirs [OF s] "2.prems"(2) by simp
  moreover have "entries g' d = entries g1 d"
  proof (cases r1)
    case (Inl e)
    with "2.prems"(1) s show ?thesis by simp
  next
    case (Inr u)
    with "2.IH" [OF s [symmetric] Inr] "2.prems" s show ?thesis by simp
  qed
  ultimately show ?case by simp
qed simp


section \<open>An application that succeeds\<close>

lemma apply_operation_frame:
  assumes "apply_operation parents env op g = (Ok (), g')" "\<forall>p\<in>set (op_paths op). parent_of parents p \<noteq> d \<or> final_name p \<noteq> n"
  shows "entries g' d n = entries g d n"
proof (cases op)
  case (WriteOp target out mode)
  with write_Ok assms(1) obtain x where
    "g' = set_entry (parent_of parents (op_path target)) (final_name (op_path target)) (Some (FileEntry x)) g" by fastforce
  with assms(2) WriteOp show ?thesis by (auto simp: op_paths_def)
qed (use assms in \<open>auto simp: op_paths_def rename_entry_def remove_entry_def split: option.splits if_splits fs_entry.splits\<close>)

definition observed_now :: "(string \<Rightarrow> string) \<Rightarrow> (string \<times> nat) list \<Rightarrow> fs \<Rightarrow> observed_path \<Rightarrow> bool" where
  "observed_now sha256 parents g e \<longleftrightarrow>
     observed_as sha256 (op_state e) (entries g (parent_of parents (op_path e)) (final_name (op_path e)))"

text \<open>No call fails by itself, and the temporary names are new.\<close>

definition smooth :: "(nat \<Rightarrow> write_env) \<Rightarrow> write_operation list \<Rightarrow> fs \<Rightarrow> bool" where
  "smooth env plan f \<longleftrightarrow> (\<forall>i. env_fault (env i) = NoFault)
     \<and> (\<forall>t\<in>temporary_names env plan. (\<forall>d. entries f d t = None) \<and> (\<forall>e\<in>set (plan_targets plan). final_name (op_path e) \<noteq> t))"

lemma apply_operation_total:
  assumes "has_valid_observed_states op" "\<forall>e\<in>set (op_targets op). observed_now sha256 parents g e"
    and "env_fault env = NoFault" "\<forall>e\<in>set (op_targets op). \<forall>d. entries g d (temporary_name (op_path e) env) = None"
  shows "\<exists>g'. apply_operation parents env op g = (Ok (), g')"
proof (cases op)
  case (WriteOp target out mode)
  have "\<not> is_dir (entries g (parent_of parents (op_path target)) (final_name (op_path target)))"
    using assms(2) WriteOp observed_as_shape
    by (fastforce simp: observed_now_def is_dir_def file_or_none_def split: option.splits fs_entry.splits)
  with assms(3,4) WriteOp temporary_not_final [of "op_path target" env] show ?thesis
    by (auto simp: apply_write_def write_through_def Let_def rename_entry_def is_dir_def)
next
  case (RenameOp source target)
  with assms show ?thesis
    by (auto simp: observed_now_def observed_as_def rename_entry_def is_dir_def split: observed_state.splits)
next
  case (DeleteOp target)
  with assms show ?thesis
    by (auto simp: observed_now_def observed_as_def remove_entry_def split: observed_state.splits)
qed

lemma apply_operations_total:
  assumes "dirs_unique f root" "\<forall>op\<in>set ops. op_located f root parents op" "distinct (concat (map op_paths ops))"
    and "list_all has_valid_observed_states ops" "\<forall>e\<in>set (plan_targets ops). observed_now sha256 parents g e" "smooth env ops g"
  shows "\<exists>g'. apply_operations parents env i ops g = (Ok (), g')"
  using assms(2-)
proof (induction ops arbitrary: g i)
  case (Cons op ops)
  have tg: "set (op_targets op) \<subseteq> set (plan_targets (op # ops))" "set (plan_targets ops) \<subseteq> set (plan_targets (op # ops))"
    by (auto simp: plan_targets_def)
  have new: "\<forall>e\<in>set (op_targets op). \<forall>d. entries g d (temporary_name (op_path e) (env i)) = None"
    using Cons.prems(5) tg(1) unfolding smooth_def temporary_names_def by blast
  have "\<exists>g1. apply_operation parents (env i) op g = (Ok (), g1)"
    by (rule apply_operation_total [of op sha256]) (use Cons.prems(3-5) tg(1) new in \<open>auto simp: smooth_def\<close>)
  then obtain g1 where s: "apply_operation parents (env i) op g = (Ok (), g1)" by blast
  have paths: "set (op_paths op) = op_path ` set (op_targets op)" by (simp add: op_paths_def)
  have obs: "observed_now sha256 parents g1 e" if e: "e \<in> set (plan_targets ops)" for e
  proof -
    have ep: "op_path e \<in> set (concat (map op_paths ops))" using e by (auto simp: plan_targets_def op_paths_def)
    then obtain op' where op': "op' \<in> set ops" "op_path e \<in> set (op_paths op')" by auto
    have le: "located f root (op_path e) (parent_of parents (op_path e))" using Cons.prems(1) op' by (auto simp: op_located_def)
    have "parent_of parents p \<noteq> parent_of parents (op_path e) \<or> final_name p \<noteq> final_name (op_path e)" if p: "p \<in> set (op_paths op)" for p
    proof -
      have lp: "located f root p (parent_of parents p)" using Cons.prems(1) p by (auto simp: op_located_def)
      have "p \<noteq> op_path e" using Cons.prems(2) p ep by auto
      with lp le assms(1) valid_position_inj [of p "op_path e"] show ?thesis by (auto simp: located_def dirs_unique_def)
    qed
    with apply_operation_frame [OF s] have "entries g1 (parent_of parents (op_path e)) (final_name (op_path e))
        = entries g (parent_of parents (op_path e)) (final_name (op_path e))" by blast
    with Cons.prems(4) e tg show ?thesis by (auto simp: observed_now_def)
  qed
  have "smooth env ops g1"
  proof -
    have "entries g1 d t = None" if t: "t \<in> temporary_names env ops" for t d
    proof -
      have "t \<in> temporary_names env (op # ops)" using t tg by (auto simp: temporary_names_def)
      then have "\<forall>d. entries g d t = None" "\<forall>p\<in>set (op_paths op). final_name p \<noteq> t"
        using Cons.prems(5) tg(1) unfolding smooth_def paths by blast+
      with apply_operation_frame [OF s, of d t] show ?thesis by simp
    qed
    moreover have "temporary_names env ops \<subseteq> temporary_names env (op # ops)" using tg(2) by (auto simp: temporary_names_def)
    ultimately show ?thesis using Cons.prems(5) tg(2) unfolding smooth_def by (meson subsetD)
  qed
  with Cons.IH [of g1 "i + 1"] Cons.prems obs s show ?case by auto
qed simp

lemma verified_plan_applies:
  assumes "verify_workspace_write_plan sha256 f (Some root) plan = Ok parents" "validate_plan plan = Ok ()"
    and "dirs_unique f root" "smooth env plan f"
  shows "\<exists>f'. apply_workspace_write_plan env plan parents f = (Ok (), f')"
proof -
  note v = verify_plan_Ok [OF assms(1)]
  have loc: "\<forall>op\<in>set plan. op_located f root parents op"
    using v verified_located by (fastforce simp: op_located_def op_paths_def plan_targets_def)
  have obs: "\<forall>e\<in>set (plan_targets plan). observed_now sha256 parents f e"
    using v by (auto simp: verified_def observed_now_def parent_of_def)
  have "distinct (concat (map op_paths plan))" "list_all has_valid_observed_states plan"
    using assms(2) validate_plan_Ok [of "[]" 0 plan] by (auto simp: validate_plan_def split: if_splits)
  from apply_operations_total [OF assms(3) loc this obs assms(4)] have "\<exists>f'. apply_operations parents env 0 plan f = (Ok (), f')" .
  moreover have "require_all_parents parents ps = Ok ()" if "\<forall>p\<in>set ps. map_of parents p \<noteq> None" for ps
    using that by (induction ps) auto
  from this [of "map op_path (plan_targets plan)"] have "require_all_parents parents (map op_path (plan_targets plan)) = Ok ()"
    using v by (force simp: verified_def)
  ultimately show ?thesis by (simp add: apply_workspace_write_plan_def)
qed


section \<open>Properties\<close>

text \<open>A tree's path outside the proposal is in neither tree, and every path of the proposal is valid.\<close>

lemma stage_paths_valid: "stage_paths seen ps = Ok seen' \<Longrightarrow> \<forall>p\<in>set ps. validate_path p = Ok ()"
  by (induction seen ps rule: stage_paths.induct) (auto simp: result_bind_Inr_iff split: if_splits)

lemma validate_operations_valid:
  "validate_operations_from seen tot ops = Ok () \<Longrightarrow> \<forall>p\<in>set (concat (map proposed_paths ops)). validate_path p = Ok ()"
proof (induction seen tot ops rule: validate_operations_from.induct)
  case (2 seen tot op ops)
  obtain seen' where s: "stage_paths seen (proposed_paths op) = Ok seen'" using "2.prems" by (auto simp: result_bind_Inr_iff)
  have "\<exists>tot'. validate_operations_from seen' tot' ops = Ok ()"
    using "2.prems" s by (auto simp: result_bind_Inr_iff split: proposed_operation.splits)
  then have "\<forall>p\<in>set (concat (map proposed_paths ops)). validate_path p = Ok ()"
    using 2 s by (auto simp: result_bind_Inr_iff split: proposed_operation.splits)
  with stage_paths_valid [OF s] show ?case by auto
qed simp

lemma proposed_targets: "concat (map proposed_paths (map proposed_of plan)) = map op_path (plan_targets plan)"
proof (induction plan)
  case (Cons op plan)
  then show ?case by (cases op) (simp_all add: plan_targets_def)
qed (simp add: plan_targets_def)

text \<open>C10: 
  The proposal an agent makes is observed, staged and shown as a diff; the approved plan is verified and applied later,
  perhaps to a workspace that has changed in between. When the diff is not truncated, the application succeeded, the
  workspace's directories form a tree, and no content verified in the workspace collides with the one that was
  observed: every path of the plan held the observed bytes and holds the staged ones, and no other path changed. A
  path's content changes exactly when the diff lists the path. A renamed file keeps its bytes, and for a text file the
  hunks turn its lines before into its lines after, compared without their line ends; of a binary file, and of line
  ends, the diff shows nothing.\<close>

theorem approved_diff_is_what_changes:
  assumes "observe_workspace_write_plan sha256 f0 (Some root0) proposed = Ok (plan, current)"
    and "stage_proposed_operations current (map proposed_of plan) = Ok staged"
    and "compute_code_diff to_vec new_id current staged = Some (Ok d)" "\<not> cd_truncated d"
    and "verify_workspace_write_plan sha256 f (Some root) plan = Ok parents"
    and "apply_workspace_write_plan env plan parents f = (Ok (), f')" "dirs_unique f root"
    and "\<forall>p b b'. map_of current p = Some b \<longrightarrow> file_at f root p = Some b' \<longrightarrow> sha256 b = sha256 b' \<longrightarrow> b = b'"
  shows "(\<forall>p. validate_path p = Ok () \<longrightarrow>
        (if p \<in> op_path ` set (plan_targets plan) then file_at f root p = map_of current p \<and> file_at f' root p = map_of staged p
         else file_at f' root p = file_at f root p))
    \<and> (\<forall>p. validate_path p = Ok () \<longrightarrow>
        (file_at f root p \<noteq> file_at f' root p \<longleftrightarrow> (\<exists>x\<in>set (cd_files d). old_path x = Some p \<or> new_path x = Some p)))
    \<and> (\<forall>x\<in>set (cd_files d). shows_change (file_at f root) (file_at f' root) x)"
proof -
  note r = observe_plan_reads [OF assms(1)]
  have st: "stage_proposed_operations current proposed = Ok staged" using assms(2) r(1) by simp
  note tr = approved_tree [OF assms(1,5,6,7,8) st]
  have targets: "set (concat (map proposed_paths proposed)) = op_path ` set (plan_targets plan)"
    using proposed_targets [of plan] r(1) by (metis list.set_map)
  note ex = diff_exact [OF r(5) assms(3,4)]
  have valid: "validate_path p = Ok ()" if "map_of current p \<noteq> map_of staged p" for p
  proof -
    have "p \<in> set (concat (map proposed_paths proposed))"
    proof (rule ccontr)
      assume out: "p \<notin> set (concat (map proposed_paths proposed))"
      then have "foldl stage_meaning (map_of current) proposed p = map_of current p" by (intro meaning_outside) auto
      moreover have "map_of staged p = foldl stage_meaning (map_of current) proposed p"
        using staging_succeeds [OF assms(1)] st by simp
      ultimately show False using that by simp
    qed
    with r(3) validate_operations_valid [of "[]" 0 proposed] show ?thesis
      by (auto simp: validate_operations_def split: if_splits)
  qed
  have "\<forall>p. validate_path p = Ok () \<longrightarrow>
      (file_at f root p \<noteq> file_at f' root p \<longleftrightarrow> (\<exists>x\<in>set (cd_files d). old_path x = Some p \<or> new_path x = Some p))"
    using tr ex(1) by (metis (no_types))
  moreover have "\<forall>x\<in>set (cd_files d). shows_change (file_at f root) (file_at f' root) x"
  proof
    fix x assume x: "x \<in> set (cd_files d)"
    have pq: "map_of current p = file_at f root p \<and> map_of staged p = file_at f' root p"
      if "old_path x = Some p \<or> new_path x = Some p" for p
    proof -
      have "map_of current p \<noteq> map_of staged p" using ex(1) x that by blast
      from tr [OF valid [OF this]] this show ?thesis by (auto split: if_splits)
    qed
    then have "bytes_at (map_of current) (old_path x) = bytes_at (file_at f root) (old_path x)"
      "bytes_at (map_of staged) (new_path x) = bytes_at (file_at f' root) (new_path x)"
      by (auto simp: bytes_at_def split: option.splits)
    moreover have "shows_change (map_of current) (map_of staged) x" using ex(2) x by blast
    ultimately show "shows_change (file_at f root) (file_at f' root) x" by (simp only: shows_change_def)
  qed
  moreover have "\<forall>p. validate_path p = Ok () \<longrightarrow>
        (if p \<in> op_path ` set (plan_targets plan) then file_at f root p = map_of current p \<and> file_at f' root p = map_of staged p
         else file_at f' root p = file_at f root p)"
    using tr unfolding targets by (metis (no_types))
  ultimately show ?thesis by blast
qed

text \<open>C22: 
  An application that fails: the operations before the one that failed are done, that one and those after it
  are not, for every path but the temporary files, and directories that hold no path of the plan are as they were.\<close>

theorem failed_apply_keeps_prefix:
  assumes "verify_workspace_write_plan sha256 f (Some root) plan = Ok parents" "dirs_unique f root"
    and "apply_workspace_write_plan env plan parents f = (Err e, f')"
  shows "(\<exists>k<length plan. \<forall>p. validate_path p = Ok () \<longrightarrow> final_name p \<notin> temporary_names env plan \<longrightarrow>
      file_at f' root p = foldl stage_meaning (file_at f root) (map proposed_of (take k plan)) p)
    \<and> (\<forall>d. d \<notin> parent_of parents ` op_path ` set (plan_targets plan) \<longrightarrow> entries f' d = entries f d)"
proof -
  note v = verify_plan_Ok [OF assms(1)]
  have loc: "\<forall>op\<in>set plan. op_located f root parents op"
    using v verified_located by (fastforce simp: op_located_def op_paths_def plan_targets_def)
  have "require_all_parents parents ps = Ok ()" if "\<forall>p\<in>set ps. map_of parents p \<noteq> None" for ps
    using that by (induction ps) auto
  from this [of "map op_path (plan_targets plan)"] have "require_all_parents parents (map op_path (plan_targets plan)) = Ok ()"
    using v by (force simp: verified_def)
  with assms(3) have a: "apply_operations parents env 0 plan f = (Err e, f')" by (simp add: apply_workspace_write_plan_def)
  from apply_operations_Err [OF assms(2) same_shape_refl loc a, of "file_at f root"]
  have "\<exists>k<length plan. \<forall>p. validate_path p = Ok () \<longrightarrow> final_name p \<notin> temporary_names env plan \<longrightarrow>
      file_at f' root p = foldl stage_meaning (file_at f root) (map proposed_of (take k plan)) p"
    by (auto simp: agree_def)
  moreover have "\<forall>d. d \<notin> parent_of parents ` op_path ` set (plan_targets plan) \<longrightarrow> entries f' d = entries f d"
    using apply_operations_dirs [OF a] by (force simp: plan_targets_def op_paths_def image_iff)
  ultimately show ?thesis by (rule conjI)
qed

text \<open>C24: 
  A plan that passes the check applies: with distinct paths and the states its operations need, no call fails for
  what the workspace holds.\<close>

theorem verified_plan_succeeds:
  assumes "verify_workspace_write_plan sha256 f (Some root) plan = Ok parents" "validate_plan plan = Ok ()"
    and "dirs_unique f root" "smooth env plan f"
  shows "\<exists>f'. apply_workspace_write_plan env plan parents f = (Ok (), f')"
  by (rule verified_plan_applies [OF assms])

text \<open>
  A stored plan: what was encoded is decoded again under its hash, and whatever is decoded is valid, carries that
  hash and has exactly the bytes of its encoding, so one plan has one stored form.\<close>

theorem plan_roundtrip:
  assumes "from_slice (to_vec plan) = Some plan"
  shows "encode_plan to_vec plan = Ok bytes \<and> sha256 bytes = h
    \<longleftrightarrow> decode_verified to_vec from_slice sha256 bytes h = Ok plan"
proof
  assume "encode_plan to_vec plan = Ok bytes \<and> sha256 bytes = h"
  with assms show "decode_verified to_vec from_slice sha256 bytes h = Ok plan"
    by (auto simp: decode_verified_def encode_plan_def result_bind_Inr_iff)
next
  assume "decode_verified to_vec from_slice sha256 bytes h = Ok plan"
  then show "encode_plan to_vec plan = Ok bytes \<and> sha256 bytes = h"
    by (auto simp: decode_verified_def result_bind_Inr_iff split: option.splits if_splits)
qed

section \<open>A page changed\<close>

definition page_old :: string where "page_old = ''one'' @ [CHR 0x0A] @ ''two'' @ [CHR 0x0A]"
definition page_new :: string where "page_new = ''one'' @ [CHR 0x0A] @ ''2'' @ [CHR 0x0A]"

definition page_fs :: fs where
  "page_fs = \<lparr>entries = (\<lambda>d n. if d = 0 \<and> n = ''a'' then Some (FileEntry \<lparr>file_bytes = page_old, file_len = 8, st_mode = 0x81A4,
       file_identity = \<lparr>volume = 1, file_index = 7\<rparr>\<rparr>) else None),
     directory_identity = (\<lambda>d. \<lparr>volume = 1, file_index = of_nat d\<rparr>)\<rparr>"

definition page_target :: observed_path where
  "page_target = \<lparr>op_path = ''a'', op_state = ObservedFile 8 page_old 0x1A4 \<lparr>volume = 1, file_index = 7\<rparr>,
     parent_identity = \<lparr>volume = 1, file_index = 0\<rparr>\<rparr>"

definition page_plan :: "write_operation list" where
  "page_plan = [WriteOp page_target page_new 0x1A4]"

definition page_env :: "nat \<Rightarrow> write_env" where
  "page_env i = \<lparr>env_uuid = ''u'', env_identity = \<lparr>volume = 1, file_index = 9\<rparr>, env_fault = NoFault, env_cleanup_fails = False\<rparr>"

lemma page_path: "validate_path ''a'' = Ok ()" by code_simp

lemma page_names: "parent_names ''a'' = []" "final_name ''a'' = ''a''" by code_simp+


lemma page_lengths: "length page_old = 8" "length page_new = 6"
  by (simp_all add: page_old_def page_new_def)

lemma page_operations: "validate_operations [ProposedWrite ''a'' page_new] = Ok ()"
  by (simp add: validate_operations_def limits page_path checked_output_total_def page_lengths)

lemma page_entries: "entries page_fs 0 ''a'' = Some (FileEntry \<lparr>file_bytes = page_old, file_len = 8, st_mode = 0x81A4,
    file_identity = \<lparr>volume = 1, file_index = 7\<rparr>\<rparr>)" "directory_identity page_fs 0 = \<lparr>volume = 1, file_index = 0\<rparr>"
  by (simp_all add: page_fs_def)

lemma page_read: "observe_path_with_parent id page_fs 0 ''a'' [] 0 = Ok ((page_target, 0), [(''a'', page_old)], 8)"
  by (simp add: observe_path_with_parent_def page_path page_names page_entries observe_file_def limits checked_add_def page_lengths Let_def page_target_def file_mode_def)

lemma page_valid: "validate_plan page_plan = Ok ()"
  by (simp add: validate_plan_def page_plan_def page_target_def limits page_lengths op_paths_def)

lemma page_observed:
  "observe_workspace_write_plan id page_fs (Some 0) [ProposedWrite ''a'' page_new] = Ok (page_plan, [(''a'', page_old)])"
  using page_valid
  by (simp add: observe_workspace_write_plan_def page_operations observe_path_def page_read new_plan_def page_plan_def)
    (simp add: page_target_def)

lemma page_verified: "verify_workspace_write_plan id page_fs (Some 0) page_plan = Ok [(''a'', 0)]"
proof -
  have "op_path page_target = ''a''" by (simp add: page_target_def)
  then show ?thesis
    by (simp add: verify_workspace_write_plan_def page_plan_def plan_targets_def page_read compare_observed_path_def stale_state_def)
      (simp add: page_target_def)
qed

lemma page_staged: "stage_proposed_operations [(''a'', page_old)] [ProposedWrite ''a'' page_new] = Ok [(''a'', page_new)]"
  by (simp add: stage_proposed_operations_def page_operations)

lemma page_unique: "dirs_unique page_fs 0"
proof -
  have "ns = []" if "dir_at page_fs 0 ns = Some d" for ns d using that by (cases ns) (auto simp: page_fs_def split: if_splits)
  then show ?thesis by (auto simp: dirs_unique_def)
qed

lemma page_applied:
  "apply_workspace_write_plan page_env page_plan [(''a'', 0)] page_fs
    = (Ok (), set_entry 0 ''a'' (Some (FileEntry \<lparr>file_bytes = page_new, file_len = 6, st_mode = 0x1A4,
         file_identity = \<lparr>volume = 1, file_index = 9\<rparr>\<rparr>)) page_fs)"
proof -
  have "temporary_name ''a'' (page_env 0) = ''.a.u.tmp''" by (simp add: temporary_name_def page_names page_env_def)
  moreover have "entries page_fs 0 ''.a.u.tmp'' = None" by (simp add: page_fs_def)
  ultimately show ?thesis
    by (simp add: apply_workspace_write_plan_def page_plan_def plan_targets_def page_target_def parent_of_def apply_write_def write_through_def
      Let_def rename_entry_def is_dir_def page_entries page_names page_lengths page_env_def) (auto intro!: fs_eqI)
qed

lemma page_smooth: "smooth page_env page_plan page_fs"
proof -
  have "temporary_names page_env page_plan = {''.a.u.tmp''}"
    by (auto simp: temporary_names_def page_plan_def plan_targets_def page_target_def temporary_name_def page_names page_env_def)
  then show ?thesis by (simp add: smooth_def page_plan_def plan_targets_def page_target_def page_names page_env_def page_fs_def)
qed

lemma page_changes: "tree_changes [(''a'', page_old)] [(''a'', page_new)] = [(''a'', (Some ''a'', Some ''a'', Modified))]"
  by code_simp

lemma page_file: "change_file [(''a'', page_old)] [(''a'', page_new)] (Some ''a'', Some ''a'', Modified) =
  \<lparr>old_path = Some ''a'', new_path = Some ''a'', df_status = Modified, old_mode = None, new_mode = None, df_binary = False,
   df_hunks = text_hunks page_old page_new\<rparr>"
  by code_simp

lemma page_hunk: "map (\<lambda>h. (old_start h, old_count h, new_start h, new_count h, length (hk_lines h))) (text_hunks page_old page_new) = [(1, 2, 1, 2, 3)]"
  by code_simp

lemma page_diff:
  "\<exists>d. compute_code_diff (\<lambda>_. []) ''d'' [(''a'', page_old)] [(''a'', page_new)] = Some (Ok d) \<and> \<not> cd_truncated d
     \<and> map old_path (cd_files d) = [Some ''a'']"
proof -
  obtain h where h: "text_hunks page_old page_new = [h]" "length (hk_lines h) = 3" using page_hunk by (auto simp: map_eq_Cons_conv)
  have ok: "diff_ok \<lparr>schema_version = 1, cd_id = ''d'', cd_files = [\<lparr>old_path = Some ''a'', new_path = Some ''a'', df_status = Modified,
      old_mode = None, new_mode = None, df_binary = False, df_hunks = [h]\<rparr>], cd_truncated = False\<rparr>"
    using change_file_ok [of "(Some ''a'', Some ''a'', Modified)" "[(''a'', page_old)]" "[(''a'', page_new)]"]
    by (simp add: diff_ok_def page_file h)
  show ?thesis using diff_ok_bytes [OF ok, of "\<lambda>_. []"]
    by (simp add: compute_code_diff_def page_changes page_file h limits Let_def truncate_to_canonical_byte_limit_def)
qed

theorem approved_diff_is_what_changes_witness:
  "\<exists>(d :: code_diff) f'. apply_workspace_write_plan page_env page_plan [(''a'', 0)] page_fs = (Ok (), f')
     \<and> map old_path (cd_files d) = [Some ''a''] \<and> file_at f' 0 ''a'' = Some page_new \<and> file_at page_fs 0 ''a'' \<noteq> file_at f' 0 ''a''
     \<and> (\<forall>x\<in>set (cd_files d). shows_change (file_at page_fs 0) (file_at f' 0) x)"
proof -
  obtain d where d: "compute_code_diff (\<lambda>_. []) ''d'' [(''a'', page_old)] [(''a'', page_new)] = Some (Ok d)" "\<not> cd_truncated d"
    "map old_path (cd_files d) = [Some ''a'']" using page_diff by (elim exE conjE) (rule that)
  have s: "stage_proposed_operations [(''a'', page_old)] (map proposed_of page_plan) = Ok [(''a'', page_new)]"
    using page_staged by (simp add: page_plan_def page_target_def)
  have c: "\<forall>p b b'. map_of [(''a'', page_old)] p = Some b \<longrightarrow> file_at page_fs 0 p = Some b' \<longrightarrow> id b = id b' \<longrightarrow> b = b'" by simp
  note c' = approved_diff_is_what_changes [OF page_observed s d(1,2) page_verified page_applied page_unique c]
  note t = conjunct1 [OF c'] and w = conjunct2 [OF c', THEN conjunct1] conjunct2 [OF c', THEN conjunct2]
  obtain x where x: "cd_files d = [x]" "old_path x = Some ''a''" using d(3) by (auto simp: map_eq_Cons_conv)
  have ex: "\<exists>y\<in>set (cd_files d). old_path y = Some ''a'' \<or> new_path y = Some ''a''" using x by simp
  note ne = mp [OF spec [OF w(1)] page_path, THEN iffD2, OF ex]
  have "''a'' \<in> op_path ` set (plan_targets page_plan)" by (simp add: page_plan_def plan_targets_def page_target_def)
  with mp [OF spec [OF t] page_path] have new: "file_at (snd (apply_workspace_write_plan page_env page_plan [(''a'', 0)] page_fs)) 0 ''a'' = Some page_new"
    by (simp add: page_applied)
  show ?thesis
    by (rule exI [of _ d], rule exI, rule conjI [OF page_applied conjI [OF d(3) conjI [OF new [unfolded page_applied snd_conv] conjI [OF ne w(2)]]]])
qed

definition stuck_env :: "nat \<Rightarrow> write_env" where
  "stuck_env i = (page_env i)\<lparr>env_fault := FailSync\<rparr>"

lemma page_stuck:
  "apply_workspace_write_plan stuck_env page_plan [(''a'', 0)] page_fs = (Err (ApplyPath ''a''), page_fs)"
proof -
  have "temporary_name ''a'' (stuck_env 0) = ''.a.u.tmp''" by (simp add: temporary_name_def page_names page_env_def stuck_env_def)
  moreover have "entries page_fs 0 ''.a.u.tmp'' = None" by (simp add: page_fs_def)
  ultimately show ?thesis
    by (simp add: apply_workspace_write_plan_def page_plan_def plan_targets_def page_target_def parent_of_def apply_write_def write_through_def
      Let_def remove_entry_def page_env_def stuck_env_def) (auto intro!: fs_eqI)
qed

theorem failed_apply_keeps_prefix_witness:
  "\<exists>k<length page_plan. file_at page_fs 0 ''b'' = foldl stage_meaning (file_at page_fs 0) (map proposed_of (take k page_plan)) ''b''"
proof -
  have b: "validate_path ''b'' = Ok ()" by code_simp
  have "final_name ''b'' = ''b''" by code_simp
  then have "final_name ''b'' \<notin> temporary_names stuck_env page_plan"
    by (auto simp: temporary_names_def temporary_name_def)
  with conjunct1 [OF failed_apply_keeps_prefix [OF page_verified page_unique page_stuck]] b show ?thesis by blast
qed

theorem verified_plan_succeeds_witness:
  "\<exists>f'. apply_workspace_write_plan page_env page_plan [(''a'', 0)] page_fs = (Ok (), f')"
  by (rule verified_plan_succeeds [OF page_verified page_valid page_unique page_smooth])

theorem plan_roundtrip_witness:
  "encode_plan (\<lambda>_. ''p'') page_plan = Ok ''p'' \<and> decode_verified (\<lambda>_. ''p'') (\<lambda>_. Some page_plan) id ''p'' ''p'' = Ok page_plan"
  using plan_roundtrip [of "\<lambda>_. Some page_plan" "\<lambda>_. ''p''" page_plan "''p''" id "''p''"] page_valid by (simp add: encode_plan_def)

end
