(* ===== verification/Diff_Approval.thy ===== *)
theory Diff_Approval
  imports Plan_Properties Object_Store Journal_History
begin

text \<open>
  The journal's side of a code diff: proposals stored as two objects and two linked events, the permission gate bound
  to them, the check of an answer (\<open>code_diff_journal.rs\<close>) and the application of an approved proposal
  (\<open>code_diff_effect.rs\<close>). The state is the journal, the object store and the file system of the workspace.

  JSON printing and reading, the SHA-256 digest, the time and the new ids are arguments (\<open>diff_env\<close>). A digest is its
  bytes, a content hash their hexadecimal text. As in the journal, \<open>None\<close> is a panic.
\<close>

section \<open>Parameters and errors\<close>

record diff_env =
  de_journal :: journal_env
  de_plan_vec :: "write_operation list \<Rightarrow> string"
  de_plan_slice :: "string \<Rightarrow> write_operation list option"
  de_json_vec :: "json \<Rightarrow> string"
  de_diff_slice :: "string \<Rightarrow> code_diff option"
  de_gate_value :: "permission_gate \<Rightarrow> json"
  de_read_gate :: "json \<Rightarrow> permission_gate option"
  de_digest :: "string \<Rightarrow> string"
  de_now :: string
  de_clock :: int
  de_temporary :: string
  de_version :: string

datatype load_error =
    BrokenEventLink | InvalidEventPayload | WrongMediaType string string | InvalidCasReference string
  | MissingCasObject string | TamperedCasObject string string | LoadCas cas_error | StoredLengthMismatch
  | LoadWritePlan write_plan_error | CodeDiffJson | CodeDiffValidation validation_error
  | CodeDiffEncoding validation_error | NonCanonicalCodeDiff

datatype stage_diff_error =
    StageWritePlan write_plan_error | StageCodeDiff validation_error | StageCas cas_error | StageJournal journal_error
  | StageSequenceOverflow

datatype compose_error = ComposeStaging stage_error | ComposeDiff compute_error | Persistence stage_diff_error

datatype permission_error =
    AppendLoad load_error | AppendNotFound | AppendTruncated | AppendBrokenLink | AppendSequenceOverflow
  | AppendJournal journal_error

datatype answer_error =
    NotCodeDiffGate | GateIdMismatch | EffectIdMismatch | CodeDiffIdMismatch | DiffHashMismatch | WritePlanHashMismatch
  | WritePlanEncoding write_plan_error | AnswerDiffEncoding validation_error | AnswerLoad load_error | ProposalNotFound
  | TruncatedDiff

datatype approval_error =
    AlreadyResolved | RequestNotFound | Verification answer_error | StaleCheck verify_error
  | ResolutionSequenceOverflow | ResolutionJournal journal_error | ApplyFailed apply_error
  | AppliedSequenceOverflow | AppliedJournal journal_error

definition write_plan_event_type :: string where "write_plan_event_type = ''code.write-plan.staged''"
definition diff_event_type :: string where "diff_event_type = ''code.diff.proposed''"
definition applied_event_type :: string where "applied_event_type = ''code.diff.applied''"
definition write_plan_media_type :: string where "write_plan_media_type = ''application/vnd.muniment.write-plan.v1+json''"
definition diff_media_type :: string where "diff_media_type = ''application/vnd.muniment.code-diff.v1+json''"

section \<open>Hashes\<close>

definition hex_encode :: "string \<Rightarrow> string" where
  "hex_encode bytes = concat (map (\<lambda>c. let n = of_char c :: nat in [hex_digit (n div 16), hex_digit (n mod 16)]) bytes)"

definition encoded_sha256 :: "diff_env \<Rightarrow> string \<Rightarrow> string" where
  "encoded_sha256 env bytes = hex_encode (de_digest env bytes)"

text \<open>\<open>hash_bytes\<close> of a content hash, which has only hexadecimal digits.\<close>

definition hex_nibble :: "char \<Rightarrow> nat" where
  "hex_nibble c = (case hex_value c of Some n \<Rightarrow> n | None \<Rightarrow> 0)"

fun hash_bytes :: "string \<Rightarrow> string" where
  "hash_bytes (a # b # s) = char_of (16 * hex_nibble a + hex_nibble b) # hash_bytes s"
| "hash_bytes _ = []"

section \<open>Loading a proposal\<close>

definition load_proposal_object ::
    "diff_env \<Rightarrow> cas_store \<Rightarrow> event_envelope \<Rightarrow> string \<Rightarrow> load_error + string \<times> string" where
  "load_proposal_object env cas e media =
     (case e_payload e of
        Cas r \<Rightarrow>
          if cr_media r \<noteq> media then Err (WrongMediaType media (cr_media r))
          else (case content_hash (cr_sha256 r) of
                  Inl _ \<Rightarrow> Err (InvalidCasReference (cr_sha256 r))
                | Inr h \<Rightarrow>
                    (case get_verified (encoded_sha256 env) cas h of
                       Inr bytes \<Rightarrow> if length bytes \<noteq> unat (cr_bytes r) then Err StoredLengthMismatch else Ok (bytes, h)
                     | Inl (ObjectNotFound x) \<Rightarrow> Err (MissingCasObject x)
                     | Inl (CorruptObject a b) \<Rightarrow> Err (TamperedCasObject a b)
                     | Inl x \<Rightarrow> Err (LoadCas x)))
      | _ \<Rightarrow> Err InvalidEventPayload)"

definition effect_event :: "string \<Rightarrow> string \<Rightarrow> event_envelope \<Rightarrow> bool" where
  "effect_event ty effect e \<longleftrightarrow> e_type e = ty \<and> e_correlation e = Some effect"

definition load_linked ::
    "diff_env \<Rightarrow> cas_store \<Rightarrow> event_envelope \<Rightarrow> event_envelope \<Rightarrow> load_error + (write_operation list \<times> code_diff \<times> string \<times> string)" where
  "load_linked env cas plan_event diff_event =
     result_bind (load_proposal_object env cas plan_event write_plan_media_type) (\<lambda>(plan_bytes, plan_hash).
       case decode_verified (de_plan_vec env) (de_plan_slice env) (de_digest env) plan_bytes (hash_bytes plan_hash) of
         Inl e \<Rightarrow> Err (LoadWritePlan e)
       | Inr plan \<Rightarrow>
           result_bind (load_proposal_object env cas diff_event diff_media_type) (\<lambda>(diff_bytes, diff_hash).
             case de_diff_slice env diff_bytes of
               None \<Rightarrow> Err CodeDiffJson
             | Some d \<Rightarrow>
                 (case validate_diff d of
                    Inl e \<Rightarrow> Err (CodeDiffValidation e)
                  | Inr _ \<Rightarrow>
                      (case canonical_bytes (de_json_vec env) d of
                         Inl e \<Rightarrow> Err (CodeDiffEncoding e)
                       | Inr encoded \<Rightarrow> if encoded \<noteq> diff_bytes then Err NonCanonicalCodeDiff
                                         else Ok (plan, d, diff_hash, plan_hash)))))"

definition load_with_references ::
    "diff_env \<Rightarrow> cas_store \<Rightarrow> event_envelope list \<Rightarrow> string \<Rightarrow> load_error + (write_operation list \<times> code_diff \<times> string \<times> string) option" where
  "load_with_references env cas events effect =
     (let plan_events = filter (effect_event write_plan_event_type effect) events
      in case find (effect_event diff_event_type effect) (rev events) of
           None \<Rightarrow> if plan_events = [] then Ok None else Err BrokenEventLink
         | Some diff_event \<Rightarrow>
             (case find (\<lambda>e. e_causation diff_event = Some (e_event_id e)) plan_events of
                None \<Rightarrow> Err BrokenEventLink
              | Some plan_event \<Rightarrow> result_bind (load_linked env cas plan_event diff_event) (\<lambda>r. Ok (Some r))))"

definition load_code_diff_proposal ::
    "diff_env \<Rightarrow> cas_store \<Rightarrow> event_envelope list \<Rightarrow> string \<Rightarrow> load_error + (write_operation list \<times> code_diff) option" where
  "load_code_diff_proposal env cas events effect =
     result_bind (load_with_references env cas events effect) (\<lambda>r. Ok (map_option (\<lambda>(plan, d, _, _). (plan, d)) r))"

section \<open>Storing a proposal\<close>

definition desktop_provenance :: "diff_env \<Rightarrow> provenance" where
  "desktop_provenance env = \<lparr>pv_source = ''muniment-desktop'', pv_source_version = de_version env, pv_actor_id = None,
     pv_device_id = None, pv_rpc_request_id = None, pv_capability_versions = None, pv_extra = []\<rparr>"

definition desktop_event ::
    "diff_env \<Rightarrow> string \<Rightarrow> string \<Rightarrow> u64 \<Rightarrow> string \<Rightarrow> string \<Rightarrow> string option \<Rightarrow> event_payload \<Rightarrow> event_envelope" where
  "desktop_event env event_id run seq ty effect causation pl =
     \<lparr>e_event_id = event_id, e_run_id = run, e_run_seq = seq, e_type = ty, e_version = 1, e_envelope_version = 1,
      e_recorded_at = de_now env, e_occurred_at = None, e_correlation = Some effect, e_causation = causation,
      e_payload = pl, e_provenance = desktop_provenance env, e_extra = []\<rparr>"

definition last_seq :: "event_envelope list \<Rightarrow> u64" where
  "last_seq events = (if events = [] then 0 else e_run_seq (last events))"

text \<open>The object store's \<open>put\<close>, with its fault and whether the temporary file stays behind.\<close>

definition put_object :: "diff_env \<Rightarrow> put_fault \<times> bool \<Rightarrow> string \<Rightarrow> cas_store \<Rightarrow> (cas_error + string) \<times> cas_store" where
  "put_object env fault bytes cas =
     cas_put (encoded_sha256 env) (fst fault) (snd fault) (de_clock env) (de_temporary env) bytes cas"

definition stage_code_diff_proposal ::
    "diff_env \<Rightarrow> thread_ids \<Rightarrow> (put_fault \<times> bool) \<times> (put_fault \<times> bool) \<Rightarrow> string \<times> string \<Rightarrow> string \<Rightarrow> string \<Rightarrow> write_operation list \<Rightarrow> code_diff
      \<Rightarrow> journal_db \<Rightarrow> cas_store \<Rightarrow> ((stage_diff_error + journal_db) \<times> cas_store) option" where
  "stage_code_diff_proposal env ids faults event_ids run effect plan d db cas =
     (case encode_plan (de_plan_vec env) plan of
        Inl e \<Rightarrow> Some (Err (StageWritePlan e), cas)
      | Inr plan_bytes \<Rightarrow>
        (case canonical_bytes (de_json_vec env) d of
           Inl e \<Rightarrow> Some (Err (StageCodeDiff e), cas)
         | Inr diff_bytes \<Rightarrow>
           (case put_object env (fst faults) plan_bytes cas of
              (Inl e, cas1) \<Rightarrow> Some (Err (StageCas e), cas1)
            | (Inr plan_hash, cas1) \<Rightarrow>
              (case put_object env (snd faults) diff_bytes cas1 of
                 (Inl e, cas2) \<Rightarrow> Some (Err (StageCas e), cas2)
               | (Inr diff_hash, cas2) \<Rightarrow>
                   let expected = last_seq (journal_events db run)
                   in case (checked_add expected 1, checked_add expected 2) of
                        (Some plan_seq, Some diff_seq) \<Rightarrow>
                          (case append_batch (de_journal env) ids expected
                             [desktop_event env (fst event_ids) run plan_seq write_plan_event_type effect None
                                (Cas \<lparr>cr_sha256 = plan_hash, cr_media = write_plan_media_type, cr_bytes = of_nat (length plan_bytes)\<rparr>),
                              desktop_event env (snd event_ids) run diff_seq diff_event_type effect (Some (fst event_ids))
                                (Cas \<lparr>cr_sha256 = diff_hash, cr_media = diff_media_type, cr_bytes = of_nat (length diff_bytes)\<rparr>)] db of
                             None \<Rightarrow> None
                           | Some (Inl e) \<Rightarrow> Some (Err (StageJournal e), cas2)
                           | Some (Inr db') \<Rightarrow> Some (Ok db', cas2))
                      | _ \<Rightarrow> Some (Err StageSequenceOverflow, cas2)))))"

definition compose_code_diff_proposal ::
    "diff_env \<Rightarrow> thread_ids \<Rightarrow> (put_fault \<times> bool) \<times> (put_fault \<times> bool) \<Rightarrow> string \<times> string \<Rightarrow> string \<Rightarrow> string \<Rightarrow> string \<Rightarrow> write_operation list \<Rightarrow> tree
      \<Rightarrow> journal_db \<Rightarrow> cas_store \<Rightarrow> ((compose_error + code_diff \<times> journal_db) \<times> cas_store) option" where
  "compose_code_diff_proposal env ids faults event_ids new_id run effect plan contents db cas =
     (case stage_proposed_operations contents (map proposed_of plan) of
        Inl e \<Rightarrow> Some (Err (ComposeStaging e), cas)
      | Inr staged \<Rightarrow>
        (case compute_code_diff (de_json_vec env) new_id contents staged of
           None \<Rightarrow> None
         | Some (Inl e) \<Rightarrow> Some (Err (ComposeDiff e), cas)
         | Some (Inr d) \<Rightarrow>
             (case stage_code_diff_proposal env ids faults event_ids run effect plan d db cas of
                None \<Rightarrow> None
              | Some (Inl e, cas') \<Rightarrow> Some (Err (Persistence e), cas')
              | Some (Inr db', cas') \<Rightarrow> Some (Ok (d, db'), cas'))))"

section \<open>The gate\<close>

definition append_code_diff_permission_request ::
    "diff_env \<Rightarrow> thread_ids \<Rightarrow> string \<times> string \<Rightarrow> string \<Rightarrow> string \<Rightarrow> journal_db \<Rightarrow> cas_store
      \<Rightarrow> (permission_error + permission_gate \<times> journal_db) option" where
  "append_code_diff_permission_request env ids new_ids run effect db cas =
     (let events = journal_events db run
      in case load_code_diff_proposal env cas events effect of
           Inl e \<Rightarrow> Some (Err (AppendLoad e))
         | Inr None \<Rightarrow> Some (Err AppendNotFound)
         | Inr (Some (plan, d)) \<Rightarrow>
             if cd_truncated d then Some (Err AppendTruncated)
             else case find (effect_event diff_event_type effect) (rev events) of
                    None \<Rightarrow> Some (Err AppendBrokenLink)
                  | Some diff_event \<Rightarrow>
                    (case find (\<lambda>e. e_type e = write_plan_event_type \<and> e_causation diff_event = Some (e_event_id e)) events of
                       None \<Rightarrow> Some (Err AppendBrokenLink)
                     | Some plan_event \<Rightarrow>
                       (case (e_payload diff_event, e_payload plan_event) of
                          (Cas diff_cas, Cas plan_cas) \<Rightarrow>
                            let gate = \<lparr>pg_gate_id = fst new_ids,
                                  pg_request = PCodeDiff effect (cd_id d) (cr_sha256 diff_cas) (cr_sha256 plan_cas), pg_policy = None\<rparr>;
                                expected = last_seq events
                            in (case checked_add expected 1 of
                                  None \<Rightarrow> Some (Err AppendSequenceOverflow)
                                | Some seq \<Rightarrow>
                                    (case journal_append (de_journal env) ids expected
                                       (desktop_event env (snd new_ids) run seq ''permission.requested'' effect
                                          (Some (e_event_id diff_event)) (Inline (de_gate_value env gate))) db of
                                       None \<Rightarrow> None
                                     | Some (Inl e) \<Rightarrow> Some (Err (AppendJournal e))
                                     | Some (Inr db') \<Rightarrow> Some (Ok (gate, db'))))
                        | _ \<Rightarrow> Some (Err AppendBrokenLink))))"

record diff_answer =
  an_gate_id :: string
  an_effect_id :: string
  an_code_diff_id :: string
  an_diff_sha256 :: string
  an_write_plan_sha256 :: string

definition verify_loaded ::
    "diff_env \<Rightarrow> diff_answer \<Rightarrow> write_operation list \<times> code_diff \<Rightarrow> answer_error + write_operation list \<times> code_diff" where
  "verify_loaded env an loaded =
     (case loaded of (plan, d) \<Rightarrow>
        case encode_plan (de_plan_vec env) plan of
          Inl e \<Rightarrow> Err (WritePlanEncoding e)
        | Inr plan_bytes \<Rightarrow>
            if encoded_sha256 env plan_bytes \<noteq> an_write_plan_sha256 an then Err WritePlanHashMismatch
            else (case canonical_bytes (de_json_vec env) d of
                    Inl e \<Rightarrow> Err (AnswerDiffEncoding e)
                  | Inr diff_bytes \<Rightarrow>
                      if encoded_sha256 env diff_bytes \<noteq> an_diff_sha256 an then Err DiffHashMismatch
                      else if cd_truncated d then Err TruncatedDiff
                      else if cd_id d \<noteq> an_code_diff_id an then Err CodeDiffIdMismatch
                      else Ok (plan, d)))"

definition verify_code_diff_permission_answer ::
    "diff_env \<Rightarrow> cas_store \<Rightarrow> event_envelope list \<Rightarrow> permission_gate \<Rightarrow> diff_answer \<Rightarrow> answer_error + write_operation list \<times> code_diff" where
  "verify_code_diff_permission_answer env cas events gate an =
     (if an_gate_id an \<noteq> pg_gate_id gate then Err GateIdMismatch
      else case pg_request gate of
             PCodeDiff effect diff_id diff_sha plan_sha \<Rightarrow>
               if an_effect_id an \<noteq> effect then Err EffectIdMismatch
               else if an_code_diff_id an \<noteq> diff_id then Err CodeDiffIdMismatch
               else if an_diff_sha256 an \<noteq> diff_sha then Err DiffHashMismatch
               else if an_write_plan_sha256 an \<noteq> plan_sha then Err WritePlanHashMismatch
               else (case load_code_diff_proposal env cas events effect of
                       Inl e \<Rightarrow> Err (AnswerLoad e)
                     | Inr None \<Rightarrow> Err ProposalNotFound
                     | Inr (Some loaded) \<Rightarrow> verify_loaded env an loaded)
           | _ \<Rightarrow> Err NotCodeDiffGate)"

section \<open>Applying an approval\<close>

definition gate_id_field :: "json \<Rightarrow> string option" where
  "gate_id_field v = Option.bind (jget v ''gate_id'') as_str"

definition resolution_matches :: "event_envelope \<Rightarrow> string \<Rightarrow> bool" where
  "resolution_matches e gate_id \<longleftrightarrow> e_type e = ''permission.resolved''
     \<and> (case e_payload e of Inline v \<Rightarrow> gate_id_field v = Some gate_id | _ \<Rightarrow> False)"

definition request_matches :: "diff_env \<Rightarrow> event_envelope \<Rightarrow> permission_gate \<Rightarrow> bool" where
  "request_matches env e gate \<longleftrightarrow> e_type e = ''permission.requested''
     \<and> (case e_payload e of Inline v \<Rightarrow> de_read_gate env v = Some gate | _ \<Rightarrow> False)"

definition append_effect_event ::
    "diff_env \<Rightarrow> thread_ids \<Rightarrow> string \<Rightarrow> string \<Rightarrow> string \<Rightarrow> string \<Rightarrow> string \<Rightarrow> json \<Rightarrow> string option \<Rightarrow> journal_db
      \<Rightarrow> (approval_error + journal_db) option" where
  "append_effect_event env ids event_id run ty effect request_event pl resolution db =
     (let events = journal_events db run
      in if (case resolution of Some gate_id \<Rightarrow> list_ex (\<lambda>e. resolution_matches e gate_id) events | None \<Rightarrow> False)
         then Some (Err AlreadyResolved)
         else case checked_add (last_seq events) 1 of
                None \<Rightarrow> Some (Err (if resolution \<noteq> None then ResolutionSequenceOverflow else AppliedSequenceOverflow))
              | Some seq \<Rightarrow>
                  (case journal_append (de_journal env) ids (last_seq events)
                     (desktop_event env event_id run seq ty effect (Some request_event) (Inline pl)) db of
                     None \<Rightarrow> None
                   | Some (Inl e) \<Rightarrow> Some (Err (if resolution \<noteq> None then ResolutionJournal e else AppliedJournal e))
                   | Some (Inr db') \<Rightarrow> Some (Ok db')))"

definition resolved_payload :: "permission_gate \<Rightarrow> diff_answer \<Rightarrow> json" where
  "resolved_payload gate an = JObject [(''gate_id'', JString (pg_gate_id gate)), (''decision'', JString ''approved''),
     (''effect_id'', JString (an_effect_id an)), (''code_diff_id'', JString (an_code_diff_id an)),
     (''diff_sha256'', JString (an_diff_sha256 an)), (''write_plan_sha256'', JString (an_write_plan_sha256 an))]"

definition applied_payload :: "string \<Rightarrow> diff_answer \<Rightarrow> json" where
  "applied_payload effect an = JObject [(''effect_id'', JString effect), (''code_diff_id'', JString (an_code_diff_id an)),
     (''diff_sha256'', JString (an_diff_sha256 an)), (''write_plan_sha256'', JString (an_write_plan_sha256 an))]"

definition gate_effect :: "permission_gate \<Rightarrow> diff_answer \<Rightarrow> string" where
  "gate_effect gate an = (case pg_request gate of PCodeDiff effect _ _ _ \<Rightarrow> effect | _ \<Rightarrow> an_effect_id an)"

text \<open>The two events after the application; the file system is as it is then, whatever becomes of them.\<close>

definition record_outcome ::
    "diff_env \<Rightarrow> thread_ids \<Rightarrow> string \<times> string \<Rightarrow> string \<Rightarrow> permission_gate \<Rightarrow> diff_answer \<Rightarrow> string \<Rightarrow> journal_db
      \<Rightarrow> ((approval_error + unit) \<times> journal_db) option" where
  "record_outcome env ids event_ids run gate an request_event db =
     (case append_effect_event env ids (fst event_ids) run ''permission.resolved'' (gate_effect gate an) request_event
        (resolved_payload gate an) (Some (pg_gate_id gate)) db of
        None \<Rightarrow> None
      | Some (Inl e) \<Rightarrow> Some (Err e, db)
      | Some (Inr db1) \<Rightarrow>
          (case append_effect_event env ids (snd event_ids) run applied_event_type (gate_effect gate an) request_event
             (applied_payload (gate_effect gate an) an) None db1 of
             None \<Rightarrow> None
           | Some (Inl e) \<Rightarrow> Some (Err e, db1)
           | Some (Inr db2) \<Rightarrow> Some (Ok (), db2)))"

definition apply_code_diff_approval ::
    "diff_env \<Rightarrow> thread_ids \<Rightarrow> (nat \<Rightarrow> write_env) \<Rightarrow> string \<times> string \<Rightarrow> nat option \<Rightarrow> string \<Rightarrow> permission_gate \<Rightarrow> diff_answer
      \<Rightarrow> journal_db \<Rightarrow> cas_store \<Rightarrow> fs \<Rightarrow> ((approval_error + unit) \<times> journal_db \<times> fs) option" where
  "apply_code_diff_approval env ids writes event_ids root run gate an db cas f =
     (let events = journal_events db run
      in if list_ex (\<lambda>e. resolution_matches e (pg_gate_id gate)) events then Some (Err AlreadyResolved, db, f)
         else case verify_code_diff_permission_answer env cas events gate an of
           Inl e \<Rightarrow> Some (Err (Verification e), db, f)
         | Inr (plan, _) \<Rightarrow>
           (case verify_workspace_write_plan (de_digest env) f root plan of
              Inl e \<Rightarrow> Some (Err (StaleCheck e), db, f)
            | Inr parents \<Rightarrow>
              (case find (\<lambda>e. request_matches env e gate) (rev events) of
                 None \<Rightarrow> Some (Err RequestNotFound, db, f)
               | Some request \<Rightarrow>
                 (case apply_workspace_write_plan writes plan parents f of
                    (Inl e, f') \<Rightarrow> Some (Err (ApplyFailed e), db, f')
                  | (Inr _, f') \<Rightarrow>
                      (case record_outcome env ids event_ids run gate an (e_event_id request) db of
                         None \<Rightarrow> None
                       | Some (r, db') \<Rightarrow> Some (r, db', f'))))))"

end
