(* ===== verification/Approval_Properties.thy ===== *)
theory Approval_Properties
  imports Diff_Approval
begin

text \<open>
  What an approval of a code diff rests on (\<open>code_diff_journal.rs\<close>, \<open>code_diff_effect.rs\<close>): a stored proposal is loaded
  again, the gate opened for it can be answered, files change only for an answer that repeats the gate, and a
  gate is applied once.
\<close>

section \<open>Hashes\<close>

lemma byte_nibbles: "(of_char (c :: char) :: nat) div 16 < 16" "(of_char c :: nat) mod 16 < 16"
proof -
  have "(of_char c :: nat) < 256" by (rule nat_of_char_less_256)
  then show "(of_char c :: nat) div 16 < 16" by linarith
qed simp

lemma hex_digit_nibble: "n < 16 \<Longrightarrow> hex_nibble (hex_digit n) = n"
  by (simp add: hex_nibble_def hex_value_digit)

lemma hash_bytes_encode: "hash_bytes (hex_encode b) = b"
proof (induction b)
  case (Cons c b)
  have "hex_nibble (hex_digit (of_char c div 16)) = of_char c div 16" "hex_nibble (hex_digit (of_char c mod 16)) = of_char c mod 16"
    by (auto intro!: hex_digit_nibble byte_nibbles)
  with Cons show ?case by (simp add: hex_encode_def Let_def)
qed (simp add: hex_encode_def)

lemma length_hex_encode: "length (hex_encode b) = 2 * length b"
  by (induction b) (simp_all add: hex_encode_def Let_def)

lemma lower_hex_digit: "n < 16 \<Longrightarrow> lower_hex (hex_digit n)"
  by (auto simp: lower_hex_def hex_digit_def is_digit_def Let_def of_char_of)

lemma hex_encode_lower: "list_all lower_hex (hex_encode b)"
proof (induction b)
  case (Cons c b)
  then show ?case by (auto simp: hex_encode_def Let_def intro!: lower_hex_digit byte_nibbles)
qed (simp add: hex_encode_def)

lemma encoded_content_hash: "length (de_digest env b) = 32 \<Longrightarrow> is_content_hash (encoded_sha256 env b)"
  by (simp add: is_content_hash_def encoded_sha256_def length_hex_encode hex_encode_lower)

section \<open>Events\<close>

lemma set_journal_events: "set (journal_events db run) = {e \<in> set (db_events db). e_run_id e = run}"
  by (auto simp: journal_events_def run_events_def)

lemma first_thread_events: "first_thread env ids e db = Inr db' \<Longrightarrow> db_events db' = db_events db"
proof -
  assume "first_thread env ids e db = Inr db'"
  then obtain db1 c where "insert_thread_event c db = Inr db1" "insert_run_thread \<lparr>rt_run = e_run_id e, rt_thread = fst ids, rt_ordinal = 1\<rparr> db1 = Inr db'"
    by (auto simp: first_thread_def append_thread_created_def append_thread_created_with_provenance_def result_bind_Inr_iff Let_def)
  then show ?thesis by (auto simp: insert_thread_event_def insert_run_thread_def split: if_splits)
qed

lemma all_existing_ids: "all_existing env db es = Inr True \<Longrightarrow> \<forall>e\<in>set es. e_event_id e \<in> e_event_id ` set (db_events db)"
proof (induction env db es rule: all_existing.induct)
  case (2 env db e es)
  then show ?case
    by (auto simp: result_bind_Inr_iff find_Some_iff split: option.splits if_splits) (metis image_eqI nth_mem)
qed simp

lemma append_batch_events:
  assumes "append_batch env ids n (e # es) db = Some (Inr db')"
  shows "db_events db' = db_events db \<or> (db_events db' = db_events db @ e # es \<and> last_run_seq db (e_run_id e) = n)"
    and "e_event_id e \<notin> e_event_id ` set (db_events db) \<Longrightarrow>
      db_events db' = db_events db @ e # es \<and> last_run_seq db (e_run_id e) = n"
proof -
  from assms obtain b where c: "all_existing env db (e # es) = Inr b"
    and s: "(if b then Some (Inr db) else if last_run_seq db (e_run_id e) \<noteq> n
        then Some (Inl (Conflicting (StaleSequence n (last_run_seq db (e_run_id e)))))
        else and_then (if last_run_seq db (e_run_id e) = 0 then Some (first_thread env ids e db) else Some (Inr db))
          (\<lambda>db. insert_batch env (e # es) db)) = Some (Inr db')"
    unfolding append_batch_def list.case Let_def and_then_Inr_iff by blast
  have r: "if b then db' = db else last_run_seq db (e_run_id e) = n \<and> (\<exists>db1. db_events db1 = db_events db \<and> insert_batch env (e # es) db1 = Some (Inr db'))"
    using s by (auto simp: and_then_Inr_iff simp del: insert_batch.simps dest: first_thread_events split: if_splits)
  have ins: "db_events db' = db_events db @ e # es \<and> last_run_seq db (e_run_id e) = n" if "\<not> b"
  proof -
    from r that obtain db1 where "db_events db1 = db_events db" "insert_batch env (e # es) db1 = Some (Inr db')"
      "last_run_seq db (e_run_id e) = n" by auto
    with insert_batch_Inr [OF this(2)] show ?thesis by simp
  qed
  with r show "db_events db' = db_events db \<or> (db_events db' = db_events db @ e # es \<and> last_run_seq db (e_run_id e) = n)"
    by (cases b) auto
  assume "e_event_id e \<notin> e_event_id ` set (db_events db)"
  with all_existing_ids [of env db "e # es"] c have "\<not> b" by auto
  then show "db_events db' = db_events db @ e # es \<and> last_run_seq db (e_run_id e) = n" by (rule ins)
qed

lemma append_effect_events:
  assumes "append_effect_event env ids event_id run ty effect req pl res db = Some (Ok db')"
  shows "set (db_events db) \<subseteq> set (db_events db')"
    and "event_id \<notin> e_event_id ` set (db_events db) \<Longrightarrow>
      \<exists>seq. desktop_event env event_id run seq ty effect (Some req) (Inline pl) \<in> set (db_events db')"
proof -
  obtain n seq where a: "append_batch (de_journal env) ids n [desktop_event env event_id run seq ty effect (Some req) (Inline pl)] db = Some (Inr db')"
    using assms by (auto simp: append_effect_event_def Let_def journal_append_def split: if_splits option.splits sum.splits)
  show "set (db_events db) \<subseteq> set (db_events db')" using append_batch_events(1) [OF a] by auto
  assume "event_id \<notin> e_event_id ` set (db_events db)"
  with append_batch_events(2) [OF a] show "\<exists>seq. desktop_event env event_id run seq ty effect (Some req) (Inline pl) \<in> set (db_events db')"
    by (auto simp: desktop_event_def)
qed

section \<open>Loading and answering\<close>

lemma load_object_Ok:
  assumes "load_proposal_object env cas e media = Ok (bytes, h)"
  shows "\<exists>r. e_payload e = Cas r \<and> h = cr_sha256 r \<and> encoded_sha256 env bytes = h"
  using assms
  by (auto simp: load_proposal_object_def content_hash_def get_verified_def split: event_payload.splits if_splits option.splits)

lemma decode_encodes:
  "decode_verified to_vec from_slice dig bytes h = Ok plan \<Longrightarrow> encode_plan to_vec plan = Ok bytes"
  by (auto simp: decode_verified_def result_bind_Inr_iff split: option.splits if_splits)

lemma load_linked_Ok:
  assumes "load_linked env cas pe de = Ok (plan, d, dh, ph)"
  shows "\<exists>pr dr pb db. e_payload pe = Cas pr \<and> e_payload de = Cas dr \<and> ph = cr_sha256 pr \<and> dh = cr_sha256 dr
    \<and> encode_plan (de_plan_vec env) plan = Ok pb \<and> encoded_sha256 env pb = ph
    \<and> canonical_bytes (de_json_vec env) d = Ok db \<and> encoded_sha256 env db = dh"
proof -
  obtain pb ph' where p1: "load_proposal_object env cas pe write_plan_media_type = Ok (pb, ph')"
    using assms by (auto simp: load_linked_def result_bind_Inr_iff)
  obtain plan' where p2: "decode_verified (de_plan_vec env) (de_plan_slice env) (de_digest env) pb (hash_bytes ph') = Ok plan'"
    using assms p1 by (cases "decode_verified (de_plan_vec env) (de_plan_slice env) (de_digest env) pb (hash_bytes ph')")
      (auto simp: load_linked_def)
  obtain db dh' where d1: "load_proposal_object env cas de diff_media_type = Ok (db, dh')"
    using assms p1 p2 by (auto simp: load_linked_def result_bind_Inr_iff)
  obtain d' where d2: "de_diff_slice env db = Some d'" using assms p1 p2 d1 by (cases "de_diff_slice env db") (auto simp: load_linked_def)
  have d3: "validate_diff d' = Ok ()" using assms p1 p2 d1 d2 by (cases "validate_diff d'") (auto simp: load_linked_def)
  obtain x where d4: "canonical_bytes (de_json_vec env) d' = Ok x"
    using assms p1 p2 d1 d2 d3 by (cases "canonical_bytes (de_json_vec env) d'") (auto simp: load_linked_def)
  have eq: "x = db" "plan' = plan" "d' = d" "dh' = dh" "ph' = ph"
    using assms p1 p2 d1 d2 d3 d4 by (auto simp: load_linked_def split: if_splits)
  note p = p1 [unfolded eq] p2 [unfolded eq] and d = d1 [unfolded eq] d4 [unfolded eq]
  from load_object_Ok [OF p(1)] load_object_Ok [OF d(1)] decode_encodes [OF p(2)] d(2) show ?thesis by auto
qed

definition answer_to :: "permission_gate \<Rightarrow> diff_answer \<Rightarrow> bool" where
  "answer_to gate an \<longleftrightarrow> an_gate_id an = pg_gate_id gate
     \<and> pg_request gate = PCodeDiff (an_effect_id an) (an_code_diff_id an) (an_diff_sha256 an) (an_write_plan_sha256 an)"

definition reviewed :: "diff_env \<Rightarrow> diff_answer \<Rightarrow> write_operation list \<Rightarrow> code_diff \<Rightarrow> bool" where
  "reviewed env an plan d \<longleftrightarrow> \<not> cd_truncated d \<and> cd_id d = an_code_diff_id an
     \<and> (\<exists>b. encode_plan (de_plan_vec env) plan = Ok b \<and> encoded_sha256 env b = an_write_plan_sha256 an)
     \<and> (\<exists>b. canonical_bytes (de_json_vec env) d = Ok b \<and> encoded_sha256 env b = an_diff_sha256 an)"

lemma verify_loaded_iff: "verify_loaded env an (plan, d) = Ok r \<longleftrightarrow> reviewed env an plan d \<and> r = (plan, d)"
  by (auto simp: verify_loaded_def reviewed_def split: sum.splits)

lemma verify_answer_iff:
  "verify_code_diff_permission_answer env cas events gate an = Ok (plan, d) \<longleftrightarrow>
     answer_to gate an \<and> load_code_diff_proposal env cas events (an_effect_id an) = Ok (Some (plan, d)) \<and> reviewed env an plan d"
  by (cases "pg_request gate")
    (auto simp: verify_code_diff_permission_answer_def answer_to_def verify_loaded_iff split: sum.splits option.splits)

section \<open>The gate of a proposal\<close>

definition is_proposal :: "event_envelope \<Rightarrow> bool" where
  "is_proposal e \<longleftrightarrow> e_type e \<in> {write_plan_event_type, diff_event_type}"

lemma find_filter: "(\<And>x. P x \<Longrightarrow> Q x) \<Longrightarrow> find P (filter Q xs) = find P xs"
  by (induction xs) auto

lemma find_SomeD: "find P xs = Some x \<Longrightarrow> x \<in> set xs \<and> P x"
  by (induction xs) (auto split: if_splits)

lemma effect_event_proposal: "effect_event diff_event_type effect e \<Longrightarrow> is_proposal e"
  "effect_event write_plan_event_type effect e \<Longrightarrow> is_proposal e"
  by (auto simp: effect_event_def is_proposal_def)

lemma load_filtered: "load_with_references env cas (filter is_proposal es) effect = load_with_references env cas es effect"
proof -
  have "filter (effect_event write_plan_event_type effect) (filter is_proposal es) = filter (effect_event write_plan_event_type effect) es"
    by (auto intro!: filter_cong dest: effect_event_proposal)
  moreover have "find (effect_event diff_event_type effect) (rev (filter is_proposal es)) = find (effect_event diff_event_type effect) (rev es)"
    unfolding rev_filter by (rule find_filter) (fact effect_event_proposal)
  ultimately show ?thesis by (simp add: load_with_references_def)
qed

lemma journal_events_filter: "filter P (journal_events db run) = sort_key e_run_seq (filter P (run_events db run))"
  by (simp add: journal_events_def filter_sort)

lemma append_other_event:
  assumes "journal_append env ids n e db = Some (Inr db')" "\<not> is_proposal e"
  shows "filter is_proposal (journal_events db' run) = filter is_proposal (journal_events db run)"
proof -
  have "db_events db' = db_events db \<or> db_events db' = db_events db @ [e]"
    using append_batch_events(1) [OF assms(1) [unfolded journal_append_def]] by blast
  then have "filter is_proposal (run_events db' run) = filter is_proposal (run_events db run)"
    using assms(2) by (auto simp: run_events_def)
  then show ?thesis by (simp add: journal_events_filter)
qed

lemma load_Some:
  assumes "load_with_references env cas es effect = Ok (Some r)"
  shows "\<exists>de pe. find (effect_event diff_event_type effect) (rev es) = Some de \<and> pe \<in> set es \<and> e_type pe = write_plan_event_type
    \<and> e_causation de = Some (e_event_id pe) \<and> load_linked env cas pe de = Ok r"
proof -
  obtain de where de: "find (effect_event diff_event_type effect) (rev es) = Some de"
    using assms by (cases "find (effect_event diff_event_type effect) (rev es)") (auto simp: load_with_references_def Let_def split: if_splits)
  obtain pe where pe: "find (\<lambda>e. e_causation de = Some (e_event_id e)) (filter (effect_event write_plan_event_type effect) es) = Some pe"
    using assms de by (cases "find (\<lambda>e. e_causation de = Some (e_event_id e)) (filter (effect_event write_plan_event_type effect) es)")
      (auto simp: load_with_references_def Let_def)
  have "load_linked env cas pe de = Ok r" using assms de pe by (auto simp: load_with_references_def Let_def result_bind_Inr_iff)
  moreover have "pe \<in> set (filter (effect_event write_plan_event_type effect) es)" "e_causation de = Some (e_event_id pe)"
    using find_SomeD [OF pe] by auto
  ultimately show ?thesis using de by (auto simp: effect_event_def)
qed

lemma load_code_diff_Some:
  "load_code_diff_proposal env cas es effect = Ok (Some (plan, d)) \<longleftrightarrow>
     (\<exists>dh ph. load_with_references env cas es effect = Ok (Some (plan, d, dh, ph)))"
  by (auto simp: load_code_diff_proposal_def result_bind_Inr_iff)

lemma request_gate:
  assumes "append_code_diff_permission_request env ids new_ids run effect db cas = Some (Ok (gate, db'))"
  shows "\<exists>plan d de pe dr pr. load_code_diff_proposal env cas (journal_events db run) effect = Ok (Some (plan, d)) \<and> \<not> cd_truncated d
    \<and> find (effect_event diff_event_type effect) (rev (journal_events db run)) = Some de
    \<and> pe \<in> set (journal_events db run) \<and> e_causation de = Some (e_event_id pe)
    \<and> e_payload de = Cas dr \<and> e_payload pe = Cas pr \<and> pg_request gate = PCodeDiff effect (cd_id d) (cr_sha256 dr) (cr_sha256 pr)
    \<and> filter is_proposal (journal_events db' run) = filter is_proposal (journal_events db run)"
proof -
  let ?es = "journal_events db run"
  obtain plan d where l: "load_code_diff_proposal env cas ?es effect = Ok (Some (plan, d))" "\<not> cd_truncated d"
    using assms by (cases "load_code_diff_proposal env cas ?es effect")
      (auto simp: append_code_diff_permission_request_def Let_def split: option.splits if_splits)
  obtain de where de: "find (effect_event diff_event_type effect) (rev ?es) = Some de"
    using assms l by (cases "find (effect_event diff_event_type effect) (rev ?es)") (auto simp: append_code_diff_permission_request_def Let_def)
  let ?P = "\<lambda>e. e_type e = write_plan_event_type \<and> e_causation de = Some (e_event_id e)"
  obtain pe where pe: "find ?P ?es = Some pe"
    using assms l de by (cases "find ?P ?es") (auto simp: append_code_diff_permission_request_def Let_def)
  obtain dr pr where pl: "e_payload de = Cas dr" "e_payload pe = Cas pr"
    using assms l de pe by (cases "e_payload de"; cases "e_payload pe") (auto simp: append_code_diff_permission_request_def Let_def)
  define g where "g = \<lparr>pg_gate_id = fst new_ids, pg_request = PCodeDiff effect (cd_id d) (cr_sha256 dr) (cr_sha256 pr), pg_policy = None\<rparr>"
  obtain seq where sq: "checked_add (last_seq ?es) 1 = Some seq"
    using assms l de pe pl by (cases "checked_add (last_seq ?es) 1") (auto simp: append_code_diff_permission_request_def Let_def)
  let ?e = "desktop_event env (snd new_ids) run seq ''permission.requested'' effect (Some (e_event_id de)) (Inline (de_gate_value env g))"
  have a: "journal_append (de_journal env) ids (last_seq ?es) ?e db = Some (Inr db')" and gg: "gate = g"
    using assms l de pe pl sq
    by (auto simp: append_code_diff_permission_request_def Let_def g_def split: option.splits sum.splits)
  have "\<not> is_proposal ?e" by (simp add: is_proposal_def desktop_event_def write_plan_event_type_def diff_event_type_def)
  from append_other_event [OF a this] have "filter is_proposal (journal_events db' run) = filter is_proposal ?es" .
  moreover have "pe \<in> set ?es" "e_causation de = Some (e_event_id pe)" using find_SomeD [OF pe] by auto
  ultimately show ?thesis using l de pl gg by (auto simp: g_def)
qed

lemma gate_answerable:
  assumes "append_code_diff_permission_request env ids new_ids run effect db cas = Some (Ok (gate, db'))"
    and "distinct (map e_event_id (db_events db))" "answer_to gate an"
  shows "\<exists>plan d. load_code_diff_proposal env cas (journal_events db run) effect = Ok (Some (plan, d))
    \<and> verify_code_diff_permission_answer env cas (journal_events db' run) gate an = Ok (plan, d)"
proof -
  let ?es = "journal_events db run"
  obtain plan d de pe dr pr where g: "load_code_diff_proposal env cas ?es effect = Ok (Some (plan, d))" "\<not> cd_truncated d"
      "find (effect_event diff_event_type effect) (rev ?es) = Some de" "pe \<in> set ?es" "e_causation de = Some (e_event_id pe)"
      "e_payload de = Cas dr" "e_payload pe = Cas pr" "pg_request gate = PCodeDiff effect (cd_id d) (cr_sha256 dr) (cr_sha256 pr)"
      "filter is_proposal (journal_events db' run) = filter is_proposal ?es"
    using request_gate [OF assms(1)] by blast
  obtain dh ph where r: "load_with_references env cas ?es effect = Ok (Some (plan, d, dh, ph))"
    using g(1) by (auto simp: load_code_diff_Some)
  obtain pe' where p: "pe' \<in> set ?es" "e_causation de = Some (e_event_id pe')" "load_linked env cas pe' de = Ok (plan, d, dh, ph)"
    using load_Some [OF r] g(3) by auto
  have "pe' = pe"
    using p(1,2) g(4,5) assms(2) by (auto simp: set_journal_events distinct_map inj_on_def)
  with load_linked_Ok [OF p(3)] g(6,7) have h: "\<exists>b. encode_plan (de_plan_vec env) plan = Ok b \<and> encoded_sha256 env b = cr_sha256 pr"
      "\<exists>b. canonical_bytes (de_json_vec env) d = Ok b \<and> encoded_sha256 env b = cr_sha256 dr" by auto
  have "load_with_references env cas (journal_events db' run) effect = load_with_references env cas ?es effect"
    by (metis load_filtered g(9))
  then have "load_code_diff_proposal env cas (journal_events db' run) effect = Ok (Some (plan, d))"
    using r by (simp add: load_code_diff_Some)
  with g(1,2,8) h assms(3) show ?thesis by (auto simp: verify_answer_iff answer_to_def reviewed_def)
qed

section \<open>A proposal that was stored\<close>

lemma sort_key_append:
  assumes "\<forall>x\<in>set xs. \<forall>y\<in>set ys. f x \<le> f y" "sorted (map f ys)"
  shows "sort_key f (xs @ ys) = sort_key f xs @ ys"
proof (rule properties_for_sort_key)
  show "filter (\<lambda>x. f k = f x) (sort_key f xs @ ys) = filter (\<lambda>x. f k = f x) (xs @ ys)" for k
    using sort_key_stable [of f "f k" xs] by (simp add: eq_commute [of "f k"])
  show "sorted (map f (sort_key f xs @ ys))" using assms by (auto simp: sorted_append)
qed simp

lemma last_run_seq_max: "e \<in> set (run_events db run) \<Longrightarrow> e_run_seq e \<le> last_run_seq db run"
proof -
  have ge: "a \<le> foldl max a xs" for a and xs :: "u64 list"
    by (induction xs arbitrary: a) (auto intro: order_trans [OF max.cobounded1])
  have "x \<in> set xs \<Longrightarrow> x \<le> foldl max a xs" for a x and xs :: "u64 list"
    by (induction xs arbitrary: a) (auto intro: order_trans [OF max.cobounded2 ge])
  then show "e \<in> set (run_events db run) \<Longrightarrow> e_run_seq e \<le> last_run_seq db run" by (simp add: last_run_seq_def)
qed

lemma put_object_Ok:
  assumes "put_object env fault b cas = (Inr h, cas')"
  shows "h = encoded_sha256 env b" "get_object cas' x = (if x = h \<and> get_object cas h = None then Some b else get_object cas x)"
proof -
  let ?sha = "encoded_sha256 env"
  have p: "put_reader ?sha (fst fault) (snd fault) (de_clock env) (de_temporary env) [b] cas = (Inr h, cas')"
    using assms by (simp add: put_object_def cas_put_def)
  have b: "read_blocks [b] = b" by (simp add: read_blocks_def)
  from put_Inr [OF p] b have h: "h = ?sha b" "fst fault = Fine" by auto
  then show "h = ?sha b" by simp
  from put_files [of ?sha "snd fault" "de_clock env" "de_temporary env" "[b]" cas x] p h b
  show "get_object cas' x = (if x = h \<and> get_object cas h = None then Some b else get_object cas x)" by (simp add: get_link)
qed

lemma load_object_stored:
  assumes "get_object cas (encoded_sha256 env b) = Some b" "length (de_digest env b) = 32" "length b < 2 ^ 64"
    and "e_payload e = Cas \<lparr>cr_sha256 = encoded_sha256 env b, cr_media = media, cr_bytes = of_nat (length b)\<rparr>"
  shows "load_proposal_object env cas e media = Ok (b, encoded_sha256 env b)"
  using assms encoded_content_hash [OF assms(2)]
  by (simp add: load_proposal_object_def content_hash_def get_verified_def unat_of_nat_u64)

text \<open>The store keeps its addresses, and no two of the contents in question have the same hash.\<close>

definition collision_free :: "diff_env \<Rightarrow> cas_store \<Rightarrow> string set \<Rightarrow> bool" where
  "collision_free env cas B \<longleftrightarrow> addressed (encoded_sha256 env) cas
     \<and> inj_on (encoded_sha256 env) (B \<union> {b. \<exists>h. get_object cas h = Some b})"

lemma put_both:
  assumes "put_object env f1 pb cas = (Inr ph, cas1)" "put_object env f2 dbs cas1 = (Inr dh, cas2)"
    and "collision_free env cas {pb, dbs}" "\<forall>b. length (de_digest env b) = 32"
  shows "ph = encoded_sha256 env pb" "dh = encoded_sha256 env dbs"
    "get_object cas2 (encoded_sha256 env pb) = Some pb" "get_object cas2 (encoded_sha256 env dbs) = Some dbs"
proof -
  let ?sha = "encoded_sha256 env"
  note p = put_object_Ok [OF assms(1)] and d = put_object_Ok [OF assms(2)]
  have same: "b = x" if "get_object cas (?sha x) = Some b" "x \<in> {pb, dbs}" for b x
  proof -
    have "?sha b = ?sha x"
      using addressed_get [OF _ encoded_content_hash that(1)] assms(3,4) by (simp add: collision_free_def)
    then show ?thesis using assms(3) that unfolding collision_free_def inj_on_def by blast
  qed
  have eq: "pb = dbs" if "?sha pb = ?sha dbs" using assms(3) that unfolding collision_free_def inj_on_def by blast
  show "ph = ?sha pb" "dh = ?sha dbs" by (fact p(1) d(1))+
  have p1: "get_object cas1 (?sha pb) = Some pb"
    using p same [of pb] by (cases "get_object cas (?sha pb)") auto
  then show "get_object cas2 (?sha pb) = Some pb" using d by auto
  show "get_object cas2 (?sha dbs) = Some dbs"
  proof (cases "get_object cas1 (?sha dbs)")
    case None
    with d show ?thesis by simp
  next
    case (Some b)
    have "b = dbs"
    proof (cases "?sha pb = ?sha dbs")
      case True
      with p1 eq Some show ?thesis by simp
    next
      case False
      with Some p have "get_object cas (?sha dbs) = Some b" by auto
      with same [of dbs b] show ?thesis by simp
    qed
    with Some d show ?thesis by simp
  qed
qed

lemma stage_Ok:
  assumes "stage_code_diff_proposal env ids faults event_ids run effect plan d db cas = Some (Ok db', cas')"
  shows "\<exists>pb dbs ph dh cas1 s1 s2. encode_plan (de_plan_vec env) plan = Ok pb \<and> canonical_bytes (de_json_vec env) d = Ok dbs
    \<and> put_object env (fst faults) pb cas = (Inr ph, cas1) \<and> put_object env (snd faults) dbs cas1 = (Inr dh, cas')
    \<and> checked_add (last_seq (journal_events db run)) 1 = Some s1 \<and> checked_add (last_seq (journal_events db run)) 2 = Some s2
    \<and> append_batch (de_journal env) ids (last_seq (journal_events db run))
        [desktop_event env (fst event_ids) run s1 write_plan_event_type effect None
           (Cas \<lparr>cr_sha256 = ph, cr_media = write_plan_media_type, cr_bytes = of_nat (length pb)\<rparr>),
         desktop_event env (snd event_ids) run s2 diff_event_type effect (Some (fst event_ids))
           (Cas \<lparr>cr_sha256 = dh, cr_media = diff_media_type, cr_bytes = of_nat (length dbs)\<rparr>)] db = Some (Inr db')"
proof -
  obtain pb where 1: "encode_plan (de_plan_vec env) plan = Ok pb"
    using assms by (cases "encode_plan (de_plan_vec env) plan") (auto simp: stage_code_diff_proposal_def)
  obtain dbs where 2: "canonical_bytes (de_json_vec env) d = Ok dbs"
    using assms 1 by (cases "canonical_bytes (de_json_vec env) d") (auto simp: stage_code_diff_proposal_def)
  obtain r1 cas1 where 3: "put_object env (fst faults) pb cas = (r1, cas1)" by (cases "put_object env (fst faults) pb cas")
  obtain ph where 4: "r1 = Inr ph" using assms 1 2 3 by (cases r1) (auto simp: stage_code_diff_proposal_def)
  obtain r2 cas2 where 5: "put_object env (snd faults) dbs cas1 = (r2, cas2)" by (cases "put_object env (snd faults) dbs cas1")
  obtain dh where 6: "r2 = Inr dh" using assms 1 2 3 4 5 by (cases r2) (auto simp: stage_code_diff_proposal_def)
  obtain s1 s2 where 7: "checked_add (last_seq (journal_events db run)) 1 = Some s1" "checked_add (last_seq (journal_events db run)) 2 = Some s2"
    using assms 1 2 3 4 5 6 by (cases "checked_add (last_seq (journal_events db run)) 1"; cases "checked_add (last_seq (journal_events db run)) 2")
      (auto simp: stage_code_diff_proposal_def Let_def)
  show ?thesis using assms 1 2 3 4 5 6 7
    by (auto simp: stage_code_diff_proposal_def Let_def split: option.splits sum.splits)
qed

section \<open>A file created\<close>

definition leaf_plan :: "write_operation list" where
  "leaf_plan = [WriteOp \<lparr>op_path = ''b'', op_state = Absent, parent_identity = \<lparr>volume = 1, file_index = 0\<rparr>\<rparr> ''new'' 0x1A4]"

definition leaf_diff :: code_diff where
  "leaf_diff = \<lparr>schema_version = 1, cd_id = ''d'', cd_files = [], cd_truncated = False\<rparr>"

definition leaf_env :: diff_env where
  "leaf_env = \<lparr>de_journal = sample_env, de_plan_vec = (\<lambda>_. ''p''), de_plan_slice = (\<lambda>_. Some leaf_plan), de_json_vec = (\<lambda>_. ''p''),
     de_diff_slice = (\<lambda>_. Some leaf_diff), de_gate_value = (\<lambda>g. JObject [(''gate_id'', JString (pg_gate_id g))]),
     de_read_gate = (\<lambda>_. Some \<lparr>pg_gate_id = ''g'', pg_request = PCodeDiff ''e'' ''d'' (hex_encode (replicate 32 CHR ''s'')) (hex_encode (replicate 32 CHR ''s'')),
        pg_policy = None\<rparr>),
     de_digest = (\<lambda>_. replicate 32 CHR ''s''), de_now = ''2026'', de_clock = 0, de_temporary = ''t'', de_version = ''1''\<rparr>"

definition leaf_hash :: string where "leaf_hash = hex_encode (replicate 32 CHR ''s'')"

definition leaf_cas :: cas_store where "leaf_cas = \<lparr>cs_files = [(object_path leaf_hash, ''p'')], cs_root = []\<rparr>"

definition leaf_gate :: permission_gate where
  "leaf_gate = \<lparr>pg_gate_id = ''g'', pg_request = PCodeDiff ''e'' ''d'' leaf_hash leaf_hash, pg_policy = None\<rparr>"

definition leaf_answer :: diff_answer where
  "leaf_answer = \<lparr>an_gate_id = ''g'', an_effect_id = ''e'', an_code_diff_id = ''d'', an_diff_sha256 = leaf_hash, an_write_plan_sha256 = leaf_hash\<rparr>"

definition leaf_reference :: "string \<Rightarrow> event_payload" where
  "leaf_reference media = Cas \<lparr>cr_sha256 = leaf_hash, cr_media = media, cr_bytes = 1\<rparr>"

definition leaf_events :: "event_envelope list" where
  "leaf_events = [desktop_event leaf_env ''pe'' ''r'' 1 write_plan_event_type ''e'' None (leaf_reference write_plan_media_type),
     desktop_event leaf_env ''de'' ''r'' 2 diff_event_type ''e'' (Some ''pe'') (leaf_reference diff_media_type)]"

definition leaf_request :: event_envelope where
  "leaf_request = desktop_event leaf_env ''re'' ''r'' 3 ''permission.requested'' ''e'' (Some ''de'') (Inline (JObject [(''gate_id'', JString ''g'')]))"

definition appended :: "journal_db journal_result \<Rightarrow> journal_db" where
  "appended r = (case r of Some (Inr db) \<Rightarrow> db | _ \<Rightarrow> empty_journal)"

definition leaf_staged :: journal_db where
  "leaf_staged = appended (append_batch sample_env (''t2'', ''c2'') 0 leaf_events empty_journal)"

definition leaf_requested :: journal_db where
  "leaf_requested = appended (journal_append sample_env (''t2'', ''c2'') 2 leaf_request leaf_staged)"

lemma leaf_env_fields [simp]:
  "de_journal leaf_env = sample_env" "de_plan_vec leaf_env ops = ''p''" "de_plan_slice leaf_env b = Some leaf_plan" "de_json_vec leaf_env v = ''p''"
  "de_diff_slice leaf_env b = Some leaf_diff" "de_gate_value leaf_env g = JObject [(''gate_id'', JString (pg_gate_id g))]"
  "de_read_gate leaf_env v = Some leaf_gate" "de_digest leaf_env b = replicate 32 CHR ''s''"
  by (simp_all add: leaf_env_def leaf_gate_def leaf_hash_def)

lemma desktop_event_fields:
  "e_event_id (desktop_event env i run n ty effect c pl) = i" "e_run_id (desktop_event env i run n ty effect c pl) = run"
  "e_run_seq (desktop_event env i run n ty effect c pl) = n" "e_type (desktop_event env i run n ty effect c pl) = ty"
  "e_version (desktop_event env i run n ty effect c pl) = 1" "e_envelope_version (desktop_event env i run n ty effect c pl) = 1"
  "e_correlation (desktop_event env i run n ty effect c pl) = Some effect" "e_causation (desktop_event env i run n ty effect c pl) = c"
  "e_payload (desktop_event env i run n ty effect c pl) = pl"
  by (simp_all add: desktop_event_def)

lemma leaf_valid: "validate_plan leaf_plan = Ok ()"
  by (simp add: validate_plan_def leaf_plan_def limits op_paths_def)

lemma leaf_encoded: "encode_plan (de_plan_vec leaf_env) leaf_plan = Ok ''p''" "canonical_bytes (de_json_vec leaf_env) leaf_diff = Ok ''p''"
  by (simp_all add: encode_plan_def leaf_valid leaf_env_def canonical_bytes_def validate_diff_def leaf_diff_def)

lemma leaf_sha: "encoded_sha256 leaf_env b = leaf_hash"
  by (simp add: encoded_sha256_def leaf_env_def leaf_hash_def)

lemma leaf_put1: "put_object leaf_env (Fine, False) ''p'' \<lparr>cs_files = [], cs_root = []\<rparr> = (Inr leaf_hash, leaf_cas)"
  by code_simp
lemma leaf_put2: "put_object leaf_env (Fine, False) ''p'' leaf_cas = (Inr leaf_hash, leaf_cas)"
  by code_simp

lemma leaf_append: "append_batch sample_env (''t2'', ''c2'') 0 leaf_events empty_journal = Some (Inr leaf_staged)"
proof -
  have "case append_batch sample_env (''t2'', ''c2'') 0 leaf_events empty_journal of Some (Inr db) \<Rightarrow> True | _ \<Rightarrow> False"
    by code_simp
  then show ?thesis by (auto simp: leaf_staged_def appended_def split: option.splits sum.splits)
qed

lemma leaf_staged_events: "db_events leaf_staged = leaf_events"
  using append_batch_events(2) [OF leaf_append [unfolded leaf_events_def]] by (simp add: leaf_events_def empty_journal_def)

text \<open>A valid event of a fresh id at the next position of a started run is appended.\<close>

lemma append_next:
  assumes "validate_envelope env e = Inr ()" "e_run_seq e = n + 1" "last_run_seq db (e_run_id e) = n" "n \<noteq> 0"
    and "event_constraint db e" "update_thread_projection (db_projection db) e \<noteq> None"
  shows "\<exists>db'. journal_append env ids n e db = Some (Inr db') \<and> db_events db' = db_events db @ [e]"
proof -
  obtain tp where tp: "update_thread_projection (db_projection db) e = Some tp" using assms(6) by blast
  have f: "find (\<lambda>x. e_event_id x = e_event_id e) (db_events db) = None"
    using assms(5) by (auto simp: find_None_iff event_constraint_def list_all_iff)
  have "all_existing env db [e] = Inr False" by (simp add: f)
  moreover have "check_batch env (e_run_id e) n [e] = Inr ()" using assms(1,2) by simp
  moreover have "\<exists>db'. insert_batch env [e] db = Some (Inr db')" using assms(5) tp by (simp add: insert_event_def update_projections_def)
  ultimately obtain db' where a: "journal_append env ids n e db = Some (Inr db')"
    using assms(3,4) by (auto simp: journal_append_def append_batch_def Let_def simp del: all_existing.simps check_batch.simps insert_batch.simps)
  moreover have "db_events db' = db_events db @ [e]"
    using append_batch_events(2) [OF a [unfolded journal_append_def]] f by (fastforce simp: find_None_iff)
  ultimately show ?thesis by blast
qed

definition leaf_resolved :: event_envelope where
  "leaf_resolved = desktop_event leaf_env ''x'' ''r'' 4 ''permission.resolved'' ''e'' (Some ''re'') (Inline (resolved_payload leaf_gate leaf_answer))"

definition leaf_applied :: event_envelope where
  "leaf_applied = desktop_event leaf_env ''y'' ''r'' 5 applied_event_type ''e'' (Some ''re'') (Inline (applied_payload ''e'' leaf_answer))"

lemma leaf_events_valid: "validate_envelope sample_env leaf_request = Inr ()" "validate_envelope sample_env leaf_resolved = Inr ()"
    "validate_envelope sample_env leaf_applied = Inr ()"
proof -
  have b: "\<not> blank ''1''" "\<not> blank ''muniment-desktop''" "\<not> blank ''permission.requested''" "\<not> blank ''permission.resolved''"
    "\<not> blank applied_event_type" by code_simp+
  have p: "pv_source (desktop_provenance leaf_env) = ''muniment-desktop''" "pv_source_version (desktop_provenance leaf_env) = ''1''"
    by (simp_all add: desktop_provenance_def leaf_env_def)
  have e: "e_provenance (desktop_event leaf_env i run n ty effect c pl) = desktop_provenance leaf_env" "e_recorded_at (desktop_event leaf_env i run n ty effect c pl) = ''2026''"
    "e_occurred_at (desktop_event leaf_env i run n ty effect c pl) = None" for i run n ty effect c pl
    by (simp_all add: desktop_event_def leaf_env_def)
  have t: "validate_uuid7 sample_env name x = Inr ()" "validate_time sample_env ''recorded_at'' ''2026'' True = Inr ()" for name x
    subgoal by (simp add: validate_uuid7_def sample_env_def)
    subgoal by code_simp
    done
  show "validate_envelope sample_env leaf_request = Inr ()" "validate_envelope sample_env leaf_resolved = Inr ()"
    "validate_envelope sample_env leaf_applied = Inr ()"
    by (simp_all add: validate_envelope_def leaf_request_def leaf_resolved_def leaf_applied_def desktop_event_fields b p e t)
qed

lemma leaf_request_stored: "journal_append sample_env (''t2'', ''c2'') 2 leaf_request leaf_staged = Some (Inr leaf_requested)"
    "db_events leaf_requested = leaf_events @ [leaf_request]"
proof -
  have "update_thread_projection tp leaf_request \<noteq> None" for tp
    using insert_chunks_total [of "[]" "gone_pending tp leaf_request" leaf_request "''permission_pending''"]
    by (auto simp: update_thread_projection_def leaf_request_def desktop_event_fields inline_text_def)
  then have "\<exists>db'. journal_append sample_env (''t2'', ''c2'') 2 leaf_request leaf_staged = Some (Inr db') \<and> db_events db' = db_events leaf_staged @ [leaf_request]"
    by (intro append_next leaf_events_valid) (simp_all add: leaf_staged_events leaf_events_def leaf_request_def desktop_event_fields last_run_seq_def
      run_events_def event_constraint_def)
  then show "journal_append sample_env (''t2'', ''c2'') 2 leaf_request leaf_staged = Some (Inr leaf_requested)"
    "db_events leaf_requested = leaf_events @ [leaf_request]"
    by (auto simp: leaf_requested_def appended_def leaf_staged_events)
qed

lemma leaf_recorded:
  "\<exists>db. record_outcome leaf_env (''t2'', ''c2'') (''x'', ''y'') ''r'' leaf_gate leaf_answer ''re'' leaf_requested = Some (Ok (), db)"
proof -
  have "\<exists>db'. journal_append sample_env (''t2'', ''c2'') 3 leaf_resolved leaf_requested = Some (Inr db') \<and> db_events db' = db_events leaf_requested @ [leaf_resolved]"
    by (intro append_next leaf_events_valid) (simp_all add: leaf_request_stored leaf_events_def leaf_request_def leaf_resolved_def desktop_event_fields
      last_run_seq_def run_events_def event_constraint_def update_thread_projection_def)
  then obtain db1 where 1: "journal_append sample_env (''t2'', ''c2'') 3 leaf_resolved leaf_requested = Some (Inr db1)"
    "db_events db1 = leaf_events @ [leaf_request, leaf_resolved]" by (auto simp: leaf_request_stored)
  have "\<exists>db'. journal_append sample_env (''t2'', ''c2'') 4 leaf_applied db1 = Some (Inr db') \<and> db_events db' = db_events db1 @ [leaf_applied]"
    by (intro append_next leaf_events_valid) (simp_all add: 1 leaf_events_def leaf_request_def leaf_resolved_def leaf_applied_def desktop_event_fields
      last_run_seq_def run_events_def event_constraint_def update_thread_projection_def applied_event_type_def)
  then obtain db2 where 2: "journal_append sample_env (''t2'', ''c2'') 4 leaf_applied db1 = Some (Inr db2)" by blast
  have ev: "journal_events leaf_requested ''r'' = leaf_events @ [leaf_request]"
    "journal_events db1 ''r'' = leaf_events @ [leaf_request, leaf_resolved]"
    by (simp_all add: journal_events_def run_events_def leaf_request_stored 1 leaf_events_def leaf_request_def leaf_resolved_def desktop_event_fields)
  have seq: "last_seq (journal_events leaf_requested ''r'') = 3" "last_seq (journal_events db1 ''r'') = 4"
    by (simp_all add: ev last_seq_def leaf_request_def leaf_resolved_def desktop_event_fields)
  have "\<not> list_ex (\<lambda>e. resolution_matches e ''g'') (leaf_events @ [leaf_request])"
    by (simp add: leaf_events_def leaf_request_def resolution_matches_def desktop_event_fields write_plan_event_type_def diff_event_type_def)
  then have "append_effect_event leaf_env (''t2'', ''c2'') ''x'' ''r'' ''permission.resolved'' ''e'' ''re'' (resolved_payload leaf_gate leaf_answer)
      (Some ''g'') leaf_requested = Some (Ok db1)"
    using 1(1) seq(1) by (simp add: append_effect_event_def ev(1) checked_add_def leaf_resolved_def)
  moreover have "append_effect_event leaf_env (''t2'', ''c2'') ''y'' ''r'' applied_event_type ''e'' ''re'' (applied_payload ''e'' leaf_answer)
      None db1 = Some (Ok db2)"
    using 2 seq(2) by (simp add: append_effect_event_def checked_add_def leaf_applied_def)
  moreover have "gate_effect leaf_gate leaf_answer = ''e''" "pg_gate_id leaf_gate = ''g''" by (simp_all add: gate_effect_def leaf_gate_def)
  ultimately show ?thesis by (simp add: record_outcome_def)
qed

lemma leaf_stages:
  "stage_code_diff_proposal leaf_env (''t2'', ''c2'') ((Fine, False), (Fine, False)) (''pe'', ''de'') ''r'' ''e'' leaf_plan leaf_diff
     empty_journal \<lparr>cs_files = [], cs_root = []\<rparr> = Some (Ok leaf_staged, leaf_cas)"
proof -
  have "last_seq (journal_events empty_journal ''r'') = 0" by (simp add: last_seq_def journal_events_def run_events_def empty_journal_def)
  then show ?thesis using leaf_append
    by (simp add: stage_code_diff_proposal_def leaf_encoded leaf_put1 leaf_put2 Let_def checked_add_def leaf_events_def leaf_reference_def)
qed

lemma leaf_journal_events: "journal_events leaf_staged ''r'' = leaf_events"
  by (simp add: journal_events_def run_events_def leaf_staged_events leaf_events_def desktop_event_fields)

lemma leaf_collision: "collision_free leaf_env \<lparr>cs_files = [], cs_root = []\<rparr> {''p'', ''p''}"
  by (simp add: collision_free_def addressed_def get_object_def)

lemma leaf_loads: "load_code_diff_proposal leaf_env leaf_cas leaf_events ''e'' = Ok (Some (leaf_plan, leaf_diff))"
proof -
  obtain pe de where ev: "leaf_events = [pe, de]" and pe: "pe = desktop_event leaf_env ''pe'' ''r'' 1 write_plan_event_type ''e'' None (leaf_reference write_plan_media_type)"
    and de: "de = desktop_event leaf_env ''de'' ''r'' 2 diff_event_type ''e'' (Some ''pe'') (leaf_reference diff_media_type)" by (simp add: leaf_events_def)
  have g: "get_object leaf_cas (encoded_sha256 leaf_env ''p'') = Some ''p''" by (simp add: leaf_sha leaf_cas_def get_object_def)
  have l: "load_proposal_object leaf_env leaf_cas pe write_plan_media_type = Ok (''p'', leaf_hash)"
    "load_proposal_object leaf_env leaf_cas de diff_media_type = Ok (''p'', leaf_hash)"
    using load_object_stored [OF g] by (simp_all add: pe de desktop_event_fields leaf_reference_def leaf_sha)
  have "hash_bytes leaf_hash = replicate 32 CHR ''s''" unfolding leaf_hash_def by (rule hash_bytes_encode)
  then have dec: "decode_verified (de_plan_vec leaf_env) (de_plan_slice leaf_env) (de_digest leaf_env) ''p'' (hash_bytes leaf_hash) = Ok leaf_plan"
    using leaf_encoded(1) leaf_valid by (simp add: decode_verified_def)
  have "load_linked leaf_env leaf_cas pe de = Ok (leaf_plan, leaf_diff, leaf_hash, leaf_hash)"
    using leaf_encoded(2) l dec by (simp add: load_linked_def) (simp add: leaf_diff_def validate_diff_def)
  then show ?thesis
    by (simp add: load_code_diff_Some load_with_references_def ev effect_event_def)
      (simp add: pe de desktop_event_fields write_plan_event_type_def diff_event_type_def)
qed

lemma leaf_request_opened:
  "append_code_diff_permission_request leaf_env (''t2'', ''c2'') (''g'', ''re'') ''r'' ''e'' leaf_staged leaf_cas = Some (Ok (leaf_gate, leaf_requested))"
proof -
  have "last_seq leaf_events = 2" by (simp add: last_seq_def leaf_events_def desktop_event_fields)
  moreover have "cd_truncated leaf_diff = False" "cd_id leaf_diff = ''d''" by (simp_all add: leaf_diff_def)
  moreover have "find (effect_event diff_event_type ''e'') (rev leaf_events) = Some (leaf_events ! 1)"
    "find (\<lambda>e. e_type e = write_plan_event_type \<and> e_causation (leaf_events ! 1) = Some (e_event_id e)) leaf_events = Some (leaf_events ! 0)"
    "e_payload (leaf_events ! 1) = leaf_reference diff_media_type" "e_payload (leaf_events ! 0) = leaf_reference write_plan_media_type"
    "e_event_id (leaf_events ! 1) = ''de''"
    by (simp_all add: leaf_events_def desktop_event_fields effect_event_def)
  ultimately show ?thesis using leaf_request_stored
    by (simp add: append_code_diff_permission_request_def leaf_journal_events leaf_loads Let_def leaf_reference_def checked_add_def
      leaf_request_def leaf_gate_def)
qed

lemma leaf_answers: "answer_to leaf_gate leaf_answer"
  by (simp add: answer_to_def leaf_gate_def leaf_answer_def)

lemma leaf_verified: "verify_code_diff_permission_answer leaf_env leaf_cas (journal_events leaf_requested ''r'') leaf_gate leaf_answer = Ok (leaf_plan, leaf_diff)"
proof -
  have "distinct (map e_event_id (db_events leaf_staged))" by (simp add: leaf_staged_events leaf_events_def desktop_event_fields)
  from gate_answerable [OF leaf_request_opened this leaf_answers] show ?thesis by (auto simp: leaf_journal_events leaf_loads)
qed

lemma leaf_names: "validate_path ''b'' = Ok ()" "parent_names ''b'' = []" "final_name ''b'' = ''b''" by code_simp+

lemma leaf_fresh: "verify_workspace_write_plan (de_digest leaf_env) page_fs (Some 0) leaf_plan = Ok [(''b'', 0)]"
  by (simp add: verify_workspace_write_plan_def leaf_plan_def plan_targets_def observe_path_with_parent_def leaf_names compare_observed_path_def
    stale_state_def page_fs_def)

definition leaf_fs :: fs where
  "leaf_fs = set_entry 0 ''b'' (Some (FileEntry \<lparr>file_bytes = ''new'', file_len = 3, st_mode = 0x1A4,
     file_identity = \<lparr>volume = 1, file_index = 9\<rparr>\<rparr>)) page_fs"

lemma leaf_written: "apply_workspace_write_plan page_env leaf_plan [(''b'', 0)] page_fs = (Ok (), leaf_fs)"
proof -
  have "temporary_name ''b'' (page_env 0) = ''.b.u.tmp''" by (simp add: temporary_name_def leaf_names page_env_def)
  moreover have "entries page_fs 0 ''.b.u.tmp'' = None" "entries page_fs 0 ''b'' = None" by (simp_all add: page_fs_def)
  ultimately show ?thesis
    by (simp add: apply_workspace_write_plan_def leaf_plan_def plan_targets_def parent_of_def apply_write_def write_through_def
      Let_def rename_entry_def is_dir_def leaf_names page_env_def leaf_fs_def) (auto intro!: fs_eqI)
qed

lemma leaf_changed: "leaf_fs \<noteq> page_fs"
proof -
  have "entries leaf_fs 0 ''b'' \<noteq> entries page_fs 0 ''b''" by (simp add: leaf_fs_def page_fs_def set_entry_def)
  then show ?thesis by auto
qed

lemma leaf_approved:
  "\<exists>db. apply_code_diff_approval leaf_env (''t2'', ''c2'') page_env (''x'', ''y'') (Some 0) ''r'' leaf_gate leaf_answer leaf_requested leaf_cas page_fs
     = Some (Ok (), db, leaf_fs)"
proof -
  have ev: "journal_events leaf_requested ''r'' = leaf_events @ [leaf_request]"
    by (simp add: journal_events_def run_events_def leaf_request_stored leaf_events_def leaf_request_def desktop_event_fields)
  have "\<not> list_ex (\<lambda>e. resolution_matches e (pg_gate_id leaf_gate)) (leaf_events @ [leaf_request])"
    by (simp add: leaf_events_def leaf_request_def resolution_matches_def desktop_event_fields write_plan_event_type_def diff_event_type_def)
  moreover have "find (\<lambda>e. request_matches leaf_env e leaf_gate) (rev (leaf_events @ [leaf_request])) = Some leaf_request"
    "e_event_id leaf_request = ''re''" by (simp_all add: leaf_request_def request_matches_def desktop_event_fields)
  ultimately show ?thesis using leaf_recorded leaf_verified leaf_fresh leaf_written
    by (auto simp: apply_code_diff_approval_def ev Let_def)
qed

section \<open>Properties\<close>

text \<open>C11: 
  Applying an approval changes a file, successfully or not, only when the journal holds no resolution of the gate, the
  answer repeats every id and hash of the gate, the plan it applies is the stored one whose bytes have the hash the
  user answered, the stored diff has the other hash and is not truncated, and the workspace is as the plan
  observed it.\<close>

theorem files_change_only_as_approved:
  assumes "apply_code_diff_approval env ids writes event_ids root run gate an db cas f = Some (r, db', f')" "f' \<noteq> f"
  shows "\<exists>plan d parents. \<not> list_ex (\<lambda>e. resolution_matches e (pg_gate_id gate)) (journal_events db run)
    \<and> answer_to gate an \<and> load_code_diff_proposal env cas (journal_events db run) (an_effect_id an) = Ok (Some (plan, d))
    \<and> reviewed env an plan d \<and> verify_workspace_write_plan (de_digest env) f root plan = Ok parents
    \<and> f' = snd (apply_workspace_write_plan writes plan parents f)"
proof -
  let ?es = "journal_events db run"
  have nr: "\<not> list_ex (\<lambda>e. resolution_matches e (pg_gate_id gate)) ?es"
    using assms by (auto simp: apply_code_diff_approval_def Let_def split: if_splits)
  obtain plan d where v: "verify_code_diff_permission_answer env cas ?es gate an = Ok (plan, d)"
    using assms nr by (cases "verify_code_diff_permission_answer env cas ?es gate an") (auto simp: apply_code_diff_approval_def Let_def)
  obtain parents where w: "verify_workspace_write_plan (de_digest env) f root plan = Ok parents"
    using assms nr v by (cases "verify_workspace_write_plan (de_digest env) f root plan") (auto simp: apply_code_diff_approval_def Let_def)
  have "f' = snd (apply_workspace_write_plan writes plan parents f)"
    using assms nr v w by (auto simp: apply_code_diff_approval_def Let_def split: option.splits prod.splits sum.splits)
  with nr v w show ?thesis unfolding verify_answer_iff by blast
qed

theorem files_change_only_as_approved_witness:
  "\<exists>plan d parents. answer_to leaf_gate leaf_answer \<and> reviewed leaf_env leaf_answer plan d
     \<and> verify_workspace_write_plan (de_digest leaf_env) page_fs (Some 0) plan = Ok parents
     \<and> leaf_fs = snd (apply_workspace_write_plan page_env plan parents page_fs)"
proof -
  obtain db where a: "apply_code_diff_approval leaf_env (''t2'', ''c2'') page_env (''x'', ''y'') (Some 0) ''r'' leaf_gate leaf_answer leaf_requested leaf_cas page_fs
     = Some (Ok (), db, leaf_fs)" using leaf_approved by blast
  from files_change_only_as_approved [OF a leaf_changed] show ?thesis by blast
qed

text \<open>C21: 
  A gate is applied at most once: after an approval that succeeded, every later one for the same gate is refused as
  resolved and changes neither the journal nor a file.\<close>

theorem approval_applies_once:
  assumes "apply_code_diff_approval env ids writes event_ids root run gate an db cas f = Some (Ok (), db', f')"
    and "fst event_ids \<notin> e_event_id ` set (db_events db)"
  shows "apply_code_diff_approval env2 ids2 writes2 event_ids2 root2 run gate an2 db' cas2 f2 = Some (Err AlreadyResolved, db', f2)"
proof -
  obtain req where ro: "record_outcome env ids event_ids run gate an req db = Some (Ok (), db')"
    using assms(1) by (auto simp: apply_code_diff_approval_def Let_def split: if_splits option.splits sum.splits prod.splits)
  then obtain db1 where a: "append_effect_event env ids (fst event_ids) run ''permission.resolved'' (gate_effect gate an) req
        (resolved_payload gate an) (Some (pg_gate_id gate)) db = Some (Ok db1)"
    and b: "append_effect_event env ids (snd event_ids) run applied_event_type (gate_effect gate an) req
        (applied_payload (gate_effect gate an) an) None db1 = Some (Ok db')"
    by (auto simp: record_outcome_def split: option.splits sum.splits)
  from append_effect_events(2) [OF a assms(2)] append_effect_events(1) [OF b]
  obtain seq where e: "desktop_event env (fst event_ids) run seq ''permission.resolved'' (gate_effect gate an) (Some req)
      (Inline (resolved_payload gate an)) \<in> set (db_events db')" (is "?e \<in> _") by blast
  have "resolution_matches ?e (pg_gate_id gate)"
    by (simp add: resolution_matches_def desktop_event_def gate_id_field_def resolved_payload_def)
  moreover have "?e \<in> set (journal_events db' run)" using e by (simp add: set_journal_events desktop_event_def)
  ultimately have "list_ex (\<lambda>e. resolution_matches e (pg_gate_id gate)) (journal_events db' run)" by (auto simp: list_ex_iff)
  then show ?thesis by (simp add: apply_code_diff_approval_def)
qed

theorem approval_applies_once_witness:
  "\<exists>db. apply_code_diff_approval leaf_env (''t2'', ''c2'') page_env (''x'', ''y'') (Some 0) ''r'' leaf_gate leaf_answer db leaf_cas leaf_fs
     = Some (Err AlreadyResolved, db, leaf_fs)"
proof -
  obtain db where a: "apply_code_diff_approval leaf_env (''t2'', ''c2'') page_env (''x'', ''y'') (Some 0) ''r'' leaf_gate leaf_answer leaf_requested leaf_cas page_fs
     = Some (Ok (), db, leaf_fs)" using leaf_approved by blast
  have "fst (''x'', ''y'') \<notin> e_event_id ` set (db_events leaf_requested)"
    by (simp add: leaf_request_stored leaf_events_def leaf_request_def desktop_event_fields)
  from approval_applies_once [OF a this] show ?thesis by blast
qed

text \<open>C23: 
  What is staged is loaded: after a proposal is stored, loading the proposal of its effect gives the very plan and
  diff, through their objects in the store and the links of their events. The JSON reader has to read what was
  written, a digest has 32 bytes, and no two of the contents in question collide.\<close>

theorem staged_proposal_loads:
  assumes "stage_code_diff_proposal env ids faults event_ids run effect plan d db cas = Some (Ok db', cas')"
    and "fst event_ids \<notin> e_event_id ` set (db_events db)"
    and "encode_plan (de_plan_vec env) plan = Ok pb" "canonical_bytes (de_json_vec env) d = Ok dbs"
    and "length pb < 2 ^ 64" "length dbs < 2 ^ 64"
    and "de_plan_slice env pb = Some plan" "de_diff_slice env dbs = Some d"
    and "\<forall>b. length (de_digest env b) = 32" "collision_free env cas {pb, dbs}"
  shows "load_code_diff_proposal env cas' (journal_events db' run) effect = Ok (Some (plan, d))"
proof -
  let ?es = "journal_events db run" and ?n = "last_seq (journal_events db run)"
  obtain ph dh cas1 s1 s2 where st: "put_object env (fst faults) pb cas = (Inr ph, cas1)" "put_object env (snd faults) dbs cas1 = (Inr dh, cas')"
      "checked_add ?n 1 = Some s1" "checked_add ?n 2 = Some s2"
    and ap: "append_batch (de_journal env) ids ?n
        [desktop_event env (fst event_ids) run s1 write_plan_event_type effect None
           (Cas \<lparr>cr_sha256 = ph, cr_media = write_plan_media_type, cr_bytes = of_nat (length pb)\<rparr>),
         desktop_event env (snd event_ids) run s2 diff_event_type effect (Some (fst event_ids))
           (Cas \<lparr>cr_sha256 = dh, cr_media = diff_media_type, cr_bytes = of_nat (length dbs)\<rparr>)] db = Some (Inr db')"
      (is "append_batch _ _ _ [?pe, ?de] _ = _")
    using stage_Ok [OF assms(1)] assms(3,4) by auto
  note ob = put_both [OF st(1,2) assms(10,9)]
  have fields: "e_event_id ?pe = fst event_ids" "e_run_id ?pe = run" "e_run_id ?de = run" "e_run_seq ?pe = s1" "e_run_seq ?de = s2"
      "e_causation ?de = Some (fst event_ids)" "effect_event write_plan_event_type effect ?pe" "effect_event diff_event_type effect ?de"
      "\<not> effect_event write_plan_event_type effect ?de"
    by (simp_all add: desktop_event_def effect_event_def write_plan_event_type_def diff_event_type_def)
  have db': "db_events db' = db_events db @ [?pe, ?de]" "last_run_seq db run = ?n"
    using append_batch_events(2) [OF ap] assms(2) fields by auto
  have lt: "?n < s1" "s1 < s2" using checked_add_SomeD [OF st(3)] checked_add_SomeD [OF st(4)] by (auto simp: word_less_nat_alt)
  have "journal_events db' run = sort_key e_run_seq (run_events db run @ [?pe, ?de])"
    using db'(1) fields by (simp add: journal_events_def run_events_def)
  also have "\<dots> = ?es @ [?pe, ?de]"
    unfolding journal_events_def using last_run_seq_max [of _ db run] db'(2) lt fields
    by (intro sort_key_append) (force intro: order_trans less_imp_le)+
  finally have ev: "journal_events db' run = ?es @ [?pe, ?de]" .
  have fd: "find (effect_event diff_event_type effect) (rev (journal_events db' run)) = Some ?de" using ev fields by simp
  have none: "find (\<lambda>e. e_causation ?de = Some (e_event_id e)) (filter (effect_event write_plan_event_type effect) ?es) = None"
    using assms(2) fields by (auto simp: find_None_iff set_journal_events)
  have fp: "find (\<lambda>e. e_causation ?de = Some (e_event_id e)) (filter (effect_event write_plan_event_type effect) (journal_events db' run)) = Some ?pe"
  proof -
    have app: "find P (xs @ [x]) = Some x" if "find P xs = None" "P x" for P xs and x :: event_envelope using that by (induction xs) (auto split: if_splits)
    have eq: "filter (effect_event write_plan_event_type effect) (journal_events db' run)
        = filter (effect_event write_plan_event_type effect) ?es @ [?pe]" using ev fields by simp
    show ?thesis unfolding eq by (rule app [OF none]) (use fields in simp)
  qed
  have lp: "load_proposal_object env cas' ?pe write_plan_media_type = Ok (pb, encoded_sha256 env pb)"
    "load_proposal_object env cas' ?de diff_media_type = Ok (dbs, encoded_sha256 env dbs)"
    using ob assms(5,6,9) by (auto intro!: load_object_stored simp: desktop_event_def)
  have v: "validate_plan plan = Ok ()" "validate_diff d = Ok ()"
    using assms(3,4) by (auto simp: encode_plan_def canonical_bytes_def result_bind_Inr_iff)
  have dec: "decode_verified (de_plan_vec env) (de_plan_slice env) (de_digest env) pb (hash_bytes (encoded_sha256 env pb)) = Ok plan"
    using assms(3,7) v(1) by (simp add: decode_verified_def encoded_sha256_def hash_bytes_encode)
  have "load_linked env cas' ?pe ?de = Ok (plan, d, encoded_sha256 env dbs, encoded_sha256 env pb)"
    using lp dec assms(4,8) v(2) by (simp add: load_linked_def)
  then show ?thesis using fd fp by (simp add: load_code_diff_Some load_with_references_def Let_def)
qed

theorem staged_proposal_loads_witness:
  "load_code_diff_proposal leaf_env leaf_cas (journal_events leaf_staged ''r'') ''e'' = Ok (Some (leaf_plan, leaf_diff))"
  by (rule staged_proposal_loads [OF leaf_stages _ leaf_encoded _ _ _ _ _ leaf_collision]) (simp_all add: empty_journal_def)

text \<open>
  A gate that was opened can be answered: the answer that repeats the gate's ids and hashes verifies against the journal
  the gate is in, and gives the plan and the diff that were loaded when it was opened.\<close>

theorem opened_gate_answerable:
  assumes "append_code_diff_permission_request env ids new_ids run effect db cas = Some (Ok (gate, db'))"
    and "distinct (map e_event_id (db_events db))" "answer_to gate an"
  shows "\<exists>plan d. load_code_diff_proposal env cas (journal_events db run) effect = Ok (Some (plan, d))
    \<and> verify_code_diff_permission_answer env cas (journal_events db' run) gate an = Ok (plan, d)"
  by (rule gate_answerable [OF assms])

theorem opened_gate_answerable_witness:
  "\<exists>plan d. verify_code_diff_permission_answer leaf_env leaf_cas (journal_events leaf_requested ''r'') leaf_gate leaf_answer = Ok (plan, d)"
proof -
  have "distinct (map e_event_id (db_events leaf_staged))" by (simp add: leaf_staged_events leaf_events_def desktop_event_fields)
  from opened_gate_answerable [OF leaf_request_opened this leaf_answers] show ?thesis by blast
qed

end
