(* ===== verification/Spec2Isabelle.thy ===== *)
theory Spec2Isabelle
  imports Record_Exchange Run_Cursor Framing Snapshot Runtime_Activity Run_Registry Companion_Registry
    Idempotency Gate_Safety Gate_Questions Permission_Settings
    Projection_Properties Journal_Policies Live_Chat Sync_Properties Retention Authorization Companion_Session Handoff Fleet_Roles Approval_Properties
begin

text \<open>
  A verified model of the core of Muniment, a desktop runtime that drives coding agents (the Rust crates
  under \<open>src/core/crates\<close>).

  \<^bold>\<open>The program.\<close> A runtime starts agent runs for the threads of a workspace. Every tool call of a run passes
  the permission gate, which reads the call (a shell command, a file path), and runs it, asks the user or
  refuses. Everything a run does is an event of the run journal, a SQLite file; the reducer rebuilds the state
  of a run from its events, and the projections turn it into what a client shows. Clients attach over a framed
  JSON protocol, read runs through flow-controlled streams and send effectful requests under an idempotency key.
  File changes an agent proposes are stored as a write plan with a diff of it, and the plan is applied once the user
  approves that diff.
  Several runtimes of one user form a swarm that replicates settings records and threads.

  \<^bold>\<open>Theories and sources.\<close> Files are under \<open>src/core/crates/core/src\<close> unless another crate is named.

  \<^item> \<open>Prelude\<close>, \<open>Json\<close>, \<open>Text_Chunks\<close>, \<open>Unix_Path\<close>: strings as UTF-8 bytes, \<open>error + value\<close> results, machine
    words, \<open>serde_json::Value\<close>, cutting text at character boundaries, \<open>std::path\<close> on Unix.
  \<^item> \<open>Shell_Tokens\<close>, \<open>Shell_Reader\<close>, \<open>Shell_Critical\<close>, \<open>Shell_Safety\<close> (\<open>permission_gate/shell.rs\<close>): the reading of a
    shell command. \<open>Shell_Safety\<close> shows that a reading holds the operands of every file operation and the
    output redirects it can resolve, that a command read as read-only is made of reading programs only, and which
    commands the reader misreads.
  \<^item> \<open>Permission_Gate\<close>, \<open>Gate_Safety\<close> (\<open>permission_gate.rs\<close>): modes, what a call touches, the decision; which file
    edits and shell commands run without asking, and the order of the modes.
  \<^item> \<open>Gate_Questions\<close> (\<open>permission_gate.rs\<close>, \<open>sidecar/pi_chat.rs\<close>): questions opened, queued and answered, one at a time
    and none lost. \<open>Auto_Review\<close> (\<open>permission_gate/classifier.rs\<close>): the reviewer of auto mode. \<open>Settings_Scope\<close>,
    \<open>Permission_Settings\<close>: the settings and their bypass switch.
  \<^item> \<open>Run_Reducer\<close>, \<open>Reducer_Properties\<close> (\<open>journal/reducer.rs\<close>): the state machine of a run, \<open>RunReducer\<close>, and what an
    accepted journal promises.
  \<^item> \<open>Run_Projection\<close>, \<open>Projection_Properties\<close> (\<open>journal/reducer.rs\<close>, \<open>journal/run_append.rs\<close>): what a client shows of a
    run, its checkpoint and restore. \<open>Thread_Projection\<close>, \<open>Thread_Properties\<close> (\<open>journal/mod.rs\<close>): the projection
    tables of a thread and pages read as of an earlier event.
  \<^item> \<open>Run_Journal\<close>, \<open>Journal_Replica\<close>, \<open>Journal_Properties\<close>, \<open>Journal_History\<close>, \<open>Journal_Policies\<close> (\<open>journal/mod.rs\<close>,
    \<open>journal/replica.rs\<close>, \<open>journal/thread_permission_policy.rs\<close>): the journal's tables and every operation that
    writes them, as a step relation; numbering, retries, paging, remembered policies.
  \<^item> \<open>Live_Chat\<close>: a run's live projector and the journal composed; the two stay in step through failed appends.
  \<^item> \<open>Hlc\<close>, \<open>Records\<close>, \<open>Record_Store\<close>, \<open>Record_Properties\<close>, \<open>Record_Exchange\<close> (\<open>swarm/hlc.rs\<close>, \<open>swarm/records.rs\<close>,
    \<open>swarm/wire.rs\<close>, \<open>swarm/audit.rs\<close>): the replicated record store; convergence of merging, exact deltas,
    collection of tombstones.
  \<^item> \<open>Thread_Sync\<close>, \<open>Sync_Properties\<close> (\<open>swarm/sync.rs\<close>): replication of threads; what a member holds of an origin is
    the beginning of what the origin wrote.
  \<^item> \<open>Framing\<close>, \<open>Snapshot\<close> (crate \<open>attach\<close>): frames, their structural limits, chunked bodies. \<open>Run_Cursor\<close>
    (\<open>attach/cursor.rs\<close>): the window of a run stream. \<open>Idempotency\<close> (\<open>attach/idempotency.rs\<close>): at most one commit per
    key. \<open>Live_Connections\<close>, \<open>Companion_Registry\<close>: credentials and their connections. \<open>Runtime_Activity\<close>
    (\<open>attach/runtime_activity.rs\<close>, \<open>attach/quiesce.rs\<close>): what blocks a handoff. \<open>Handoff\<close> (\<open>attach/handoff.rs\<close>): the one
    prepared handoff. \<open>Run_Registry\<close> (\<open>active_run.rs\<close>): the live runs.
  \<^item> \<open>Authorization\<close> (\<open>attach/authorization.rs\<close>): challenges, grants and capabilities of companions.
    \<open>Approval_Coordinator\<close> (\<open>attach/approval.rs\<close>, \<open>attach/presented_approval.rs\<close>): requests that wait for the user, in
    every interleaving. \<open>Companion_Session\<close> (\<open>attach/companion_pairing.rs\<close>, \<open>attach/companion_session.rs\<close>,
    \<open>attach/credential_store.rs\<close>, \<open>attach/desktop_service.rs\<close>, crate \<open>attach\<close>'s \<open>envelope.rs\<close>): pairing and the
    checks between a decoded request and its dispatch.
  \<^item> \<open>Object_Store\<close> (\<open>cas/mod.rs\<close>): objects by content hash, with a fault at any step of a put. \<open>Reconciliation\<close>
    (\<open>journal/reconciliation.rs\<close>): runs a crash interrupted. \<open>Retention\<close> (\<open>journal/retention.rs\<close>): exactly the old,
    ended runs are deleted.
  \<^item> \<open>Fleet_Roster\<close>, \<open>Fleet_Membership\<close> (\<open>swarm/fleet.rs\<close>): the signed roster, who counts as a member, sealed secrets.
    \<open>Fleet_Roles\<close> (\<open>swarm/roles.rs\<close>, \<open>swarm/directory.rs\<close>): what a worker or a leaf may send and be sent.
  \<^item> \<open>Code_Diff\<close>, \<open>Diff_Lines\<close>, \<open>Diff_Properties\<close> (crate \<open>code-diff\<close>, \<open>code_diff.rs\<close>): the diff of two trees; the edit
    script is a shortest one, and every computed diff is valid. \<open>Write_Plan\<close>, \<open>Plan_Apply\<close>, \<open>Plan_Properties\<close>
    (\<open>write_plan.rs\<close>, \<open>code_diff_staging.rs\<close>, \<open>code_diff_observe.rs\<close>, \<open>code_diff_apply.rs\<close>): plans observed, checked
    again and applied; the files change as the diff shows. \<open>Diff_Approval\<close>, \<open>Approval_Properties\<close>
    (\<open>code_diff_journal.rs\<close>, \<open>code_diff_effect.rs\<close>): proposals in the journal and the object store, their gate, and
    the application of an approved one.

  \<^bold>\<open>Interfaces.\<close> Where one component relies on another, or several share a contract, the laws are a locale,
  interpreted on the model's own definitions in the theory of the provider (for one, the log of events that the
  live chat and the journal's pages rely on).

  \<^bold>\<open>Parameters.\<close> Code outside the repository is an argument: \<open>serde_json\<close> printing and reading, hashes and MACs, the
  model behind the auto reviewer, SQLite's row ids, new ids and the clock's time. Properties that need more than
  an arbitrary function state it as a hypothesis, and their witness gives a concrete one. SQLite is modelled by
  its tables; a failed statement is an argument where the code answers it, and is left out elsewhere. A file system
  is directories with entries of byte-exact names, and the fault of each step of a write is an argument.

  \<^bold>\<open>Bounds and fuel.\<close> Loops over text and pages recurse on what is left, with fuel only in \<open>chunk_loop\<close>,
  \<open>chunks_from\<close>, \<open>split_delta\<close> and the page reader, each given more than the length of its input and shown to end with a
  result, and in the object store's search for a free temporary name, where one try more than there are files is shown
  to be enough. The closure of
  the roster runs as many rounds as the code does. Counters and sequence numbers that saturate, wrap or are checked
  are words of their width. SQLite refuses a number beyond \<open>i64::MAX\<close>; the record store and the replica operations
  treat such numbers as the code does, while the journal's tables here take any 64-bit sequence number.

  \<^bold>\<open>Not modelled.\<close> User interface and TypeScript, platform listeners and process control, provider and network
  clients, speech and local models, the desktop services that only dispatch to what is modelled here, and log
  and message texts; of the fleet, the services that only read and write records. \<open>PROJECT.json\<close> lists each part
  with its reason.
\<close>

end
